(* ===== verification/Prelude.thy ===== *)
theory Prelude
  imports Main "HOL-Library.Word" "HOL-Library.Finite_Map" "HOL-Library.FSet"
    "HOL-Library.Multiset" "HOL-Library.List_Lexorder" "HOL-Library.Char_ord" "HOL-Library.Product_Lexorder"
begin

text \<open>
  Shared vocabulary of the IEUM Chain development.

  \<^item> Rust's \<open>Result\<close> as a sum (\<open>Err\<close> on the left, \<open>Ok\<close> on the right) with the
    combinators the source writes as \<open>?\<close>, \<open>ok_or\<close> and \<open>map_err\<close>;
  \<^item> fixed-width unsigned integers as words, with the checked and saturating operations of
    the standard library; plain \<open>+\<close>, \<open>-\<close>, \<open>*\<close> wrap around, as they do in the release
    profile the project ships (Cargo's default has no overflow checks there);
  \<^item> byte strings: a Rust \<open>String\<close> is a list of UTF-8 bytes (\<open>char\<close> is one byte),
    together with the prefix, trimming and character-class functions the code calls;
  \<^item> big-endian encodings (\<open>to_be_bytes\<close>) and their injectivity;
  \<^item> \<open>HashMap\<close> and \<open>HashSet\<close> as finite maps and finite sets, and the sum of the values
    of a finite map.
\<close>

named_theorems result_simps "inversion rules for the Result combinators"
named_theorems int_simps "the natural-number meaning of the machine-integer operations"

subsection \<open>Machine integers\<close>

type_synonym u8 = "8 word"
type_synonym u16 = "16 word"
type_synonym u32 = "32 word"
type_synonym u64 = "64 word"
type_synonym u128 = "128 word"
type_synonym bytes = "8 word list"

definition checked_add :: "'a::len word \<Rightarrow> 'a word \<Rightarrow> 'a word option" where
  "checked_add a b = (if unat a + unat b < 2 ^ LENGTH('a) then Some (a + b) else None)"

definition checked_mul :: "'a::len word \<Rightarrow> 'a word \<Rightarrow> 'a word option" where
  "checked_mul a b = (if unat a * unat b < 2 ^ LENGTH('a) then Some (a * b) else None)"

definition checked_div :: "'a::len word \<Rightarrow> 'a word \<Rightarrow> 'a word option" where
  "checked_div a b = (if b = 0 then None else Some (a div b))"

definition saturating_add :: "'a::len word \<Rightarrow> 'a word \<Rightarrow> 'a word" where
  "saturating_add a b = (if unat a + unat b < 2 ^ LENGTH('a) then a + b else - 1)"

definition saturating_mul :: "'a::len word \<Rightarrow> 'a word \<Rightarrow> 'a word" where
  "saturating_mul a b = (if unat a * unat b < 2 ^ LENGTH('a) then a * b else - 1)"

definition saturating_sub :: "'a::len word \<Rightarrow> 'a word \<Rightarrow> 'a word" where
  "saturating_sub a b = (if b \<le> a then a - b else 0)"

definition div_ceil :: "'a::len word \<Rightarrow> 'a word \<Rightarrow> 'a word" where
  "div_ceil a b = (if a mod b = 0 then a div b else a div b + 1)"

text \<open>The iterator \<open>sum\<close> of the standard library: it wraps like \<open>+\<close>.\<close>

definition wrapping_sum :: "'a::len word list \<Rightarrow> 'a word" where
  "wrapping_sum ws = foldl (+) 0 ws"

subsection \<open>Results\<close>

type_synonym ('a, 'e) result = "'e + 'a"

abbreviation Ok :: "'a \<Rightarrow> 'e + 'a" where
  "Ok \<equiv> Inr"

abbreviation Err :: "'e \<Rightarrow> 'e + 'a" where
  "Err \<equiv> Inl"

definition and_then :: "'e + 'a \<Rightarrow> ('a \<Rightarrow> 'e + 'b) \<Rightarrow> 'e + 'b" where
  "and_then r f = (case r of Inl e \<Rightarrow> Err e | Inr x \<Rightarrow> f x)"

definition map_err :: "('e \<Rightarrow> 'f) \<Rightarrow> 'e + 'a \<Rightarrow> 'f + 'a" where
  "map_err g r = (case r of Inl e \<Rightarrow> Err (g e) | Inr x \<Rightarrow> Ok x)"

definition ok_or :: "'a option \<Rightarrow> 'e \<Rightarrow> 'e + 'a" where
  "ok_or x e = (case x of None \<Rightarrow> Err e | Some y \<Rightarrow> Ok y)"

definition ensure :: "bool \<Rightarrow> 'e \<Rightarrow> 'e + unit" where
  "ensure b e = (if b then Ok () else Err e)"

definition is_ok :: "'e + 'a \<Rightarrow> bool" where
  "is_ok r = (case r of Inl _ \<Rightarrow> False | Inr _ \<Rightarrow> True)"

text \<open>A \<open>for\<close> loop whose body may return early with an error.\<close>

fun for_each :: "('a \<Rightarrow> 's \<Rightarrow> 'e + 's) \<Rightarrow> 'a list \<Rightarrow> 's \<Rightarrow> 'e + 's" where
  "for_each f [] s = Ok s"
| "for_each f (x # xs) s = and_then (f x s) (for_each f xs)"

subsection \<open>Strings\<close>

definition starts_with :: "string \<Rightarrow> string \<Rightarrow> bool" where
  "starts_with s p \<longleftrightarrow> take (length p) s = p"

definition ends_with :: "string \<Rightarrow> string \<Rightarrow> bool" where
  "ends_with s p \<longleftrightarrow> starts_with (rev s) (rev p)"

definition strip_prefix :: "string \<Rightarrow> string \<Rightarrow> string option" where
  "strip_prefix s p = (if starts_with s p then Some (drop (length p) s) else None)"

text \<open>\<open>trim_start_matches("0x")\<close> removes the prefix as often as it occurs.\<close>

function trim_start_0x :: "string \<Rightarrow> string" where
  "trim_start_0x s = (if take 2 s = ''0x'' then trim_start_0x (drop 2 s) else s)"
  by pat_completeness auto
termination
  by (relation "measure length") (auto intro!: diff_less simp: length_greater_0_conv)

declare trim_start_0x.simps [simp del]

definition ascii_lower :: "char \<Rightarrow> char" where
  "ascii_lower c = (if CHR ''A'' \<le> c \<and> c \<le> CHR ''Z'' then char_of ((of_char c :: nat) + 32) else c)"

definition to_ascii_lowercase :: "string \<Rightarrow> string" where
  "to_ascii_lowercase s = map ascii_lower s"

definition is_ascii_digit :: "char \<Rightarrow> bool" where
  "is_ascii_digit c \<longleftrightarrow> CHR ''0'' \<le> c \<and> c \<le> CHR ''9''"

definition is_ascii_hexdigit :: "char \<Rightarrow> bool" where
  "is_ascii_hexdigit c \<longleftrightarrow> is_ascii_digit c \<or> (CHR ''a'' \<le> c \<and> c \<le> CHR ''f'') \<or>
     (CHR ''A'' \<le> c \<and> c \<le> CHR ''F'')"

definition is_ascii_alphanumeric :: "char \<Rightarrow> bool" where
  "is_ascii_alphanumeric c \<longleftrightarrow> is_ascii_digit c \<or> (CHR ''a'' \<le> c \<and> c \<le> CHR ''z'') \<or>
     (CHR ''A'' \<le> c \<and> c \<le> CHR ''Z'')"

text \<open>
  \<open>trim().is_empty()\<close>: the string consists of Unicode white space only. The width of the
  white-space character at the head of a UTF-8 byte sequence, 0 where there is none.
\<close>

definition ws_width :: "nat list \<Rightarrow> nat" where
  "ws_width bs =
     (case bs of
        [] \<Rightarrow> 0
      | a # r \<Rightarrow>
        if (9 \<le> a \<and> a \<le> 13) \<or> a = 32 then 1
        else case r of
          [] \<Rightarrow> 0
        | b # r' \<Rightarrow>
          if a = 194 \<and> (b = 133 \<or> b = 160) then 2
          else case r' of
            [] \<Rightarrow> 0
          | c # _ \<Rightarrow>
            if (a = 225 \<and> b = 154 \<and> c = 128) \<or>
               (a = 226 \<and> b = 128 \<and> ((128 \<le> c \<and> c \<le> 138) \<or> c = 168 \<or> c = 169 \<or> c = 175)) \<or>
               (a = 226 \<and> b = 129 \<and> c = 159) \<or> (a = 227 \<and> b = 128 \<and> c = 128)
            then 3 else 0)"

fun all_white :: "nat list \<Rightarrow> bool" where
  "all_white bs =
     (if bs = [] then True else if ws_width bs = 0 then False else all_white (drop (ws_width bs) bs))"

declare all_white.simps [simp del]

definition is_blank :: "string \<Rightarrow> bool" where
  "is_blank s = all_white (map of_char s)"

definition str_bytes :: "string \<Rightarrow> bytes" where
  "str_bytes s = map of_char s"

subsection \<open>Big-endian encodings\<close>

fun be_nat_bytes :: "nat \<Rightarrow> nat \<Rightarrow> bytes" where
  "be_nat_bytes 0 k = []"
| "be_nat_bytes (Suc n) k = be_nat_bytes n (k div 256) @ [of_nat (k mod 256)]"

definition to_be_bytes :: "'a::len word \<Rightarrow> bytes" where
  "to_be_bytes w = be_nat_bytes (LENGTH('a) div 8) (unat w)"

definition be_nat :: "bytes \<Rightarrow> nat" where
  "be_nat bs = foldl (\<lambda>acc b. acc * 256 + unat b) 0 bs"

definition from_be_bytes :: "bytes \<Rightarrow> 'a::len word" where
  "from_be_bytes bs = foldl (\<lambda>acc b. or (push_bit 8 acc) (ucast b)) 0 bs"

subsection \<open>Finite maps\<close>

text \<open>\<open>map.get(k).copied().unwrap_or(0)\<close>\<close>

definition get0 :: "('k, 'v::zero) fmap \<Rightarrow> 'k \<Rightarrow> 'v" where
  "get0 m k = (case fmlookup m k of None \<Rightarrow> 0 | Some v \<Rightarrow> v)"

definition fm_total :: "('k, 'a::len word) fmap \<Rightarrow> nat" where
  "fm_total m = (\<Sum>k\<in>fmdom' m. unat (get0 m k))"

definition fm_entries :: "('k::linorder, 'v) fmap \<Rightarrow> ('k \<times> 'v) list" where
  "fm_entries m = map (\<lambda>k. (k, the (fmlookup m k))) (sorted_list_of_fset (fmdom m))"

text \<open>\<open>collect()\<close> of an iterator of pairs into a \<open>HashMap\<close>: the last value of a key wins.\<close>

definition collect_map :: "('k \<times> 'v) list \<Rightarrow> ('k, 'v) fmap" where
  "collect_map kvs = fold (\<lambda>(k, v) m. fmupd k v m) kvs fmempty"

subsection \<open>Lemmas: results\<close>

lemma and_then_simps [simp]:
  "and_then (Ok x) f = f x"
  "and_then (Err e) f = Err e"
  by (simp_all add: and_then_def)

lemma and_then_Ok [result_simps]: "and_then r f = Ok y \<longleftrightarrow> (\<exists>x. r = Ok x \<and> f x = Ok y)"
  by (cases r) auto

lemma map_err_Ok [result_simps]: "map_err g r = Ok y \<longleftrightarrow> r = Ok y"
  by (cases r) (auto simp: map_err_def)

lemma map_err_simps [simp]:
  "map_err g (Ok x) = Ok x"
  "map_err g (Err e) = Err (g e)"
  by (simp_all add: map_err_def)

lemma ok_or_Ok [result_simps]: "ok_or x e = Ok y \<longleftrightarrow> x = Some y"
  by (cases x) (auto simp: ok_or_def)

lemma ok_or_simps [simp]:
  "ok_or (Some x) e = Ok x"
  "ok_or None e = Err e"
  by (simp_all add: ok_or_def)

lemma ensure_Ok [result_simps]: "ensure b e = Ok u \<longleftrightarrow> b"
  by (simp add: ensure_def)

lemma ensure_simps [simp]:
  "ensure True e = Ok ()"
  "ensure False e = Err e"
  by (simp_all add: ensure_def)

lemma is_ok_iff: "is_ok r \<longleftrightarrow> (\<exists>x. r = Ok x)"
  by (cases r) (auto simp: is_ok_def)

lemma for_each_append:
  "for_each f (xs @ ys) s = and_then (for_each f xs s) (for_each f ys)"
proof (induction xs arbitrary: s)
  case (Cons x xs)
  then show ?case by (cases "f x s") simp_all
qed simp

text \<open>An invariant that every successful iteration keeps is kept by the loop.\<close>

lemma for_each_invariant:
  assumes "for_each f xs s = Ok t" and "P s"
    and "\<And>x s t. x \<in> set xs \<Longrightarrow> P s \<Longrightarrow> f x s = Ok t \<Longrightarrow> P t"
  shows "P t"
  using assms
proof (induction xs arbitrary: s)
  case (Cons x xs)
  from Cons.prems(1) obtain u where "f x s = Ok u" and "for_each f xs u = Ok t"
    by (auto simp: result_simps)
  moreover have "P u" using Cons.prems(2) \<open>f x s = Ok u\<close> by (rule Cons.prems(3) [rotated]) simp
  ultimately show ?case using Cons.IH [of u] Cons.prems(3) by (meson list.set_intros(2))
qed simp

subsection \<open>Lemmas: machine integers\<close>

lemma unat_lt: "unat w < 2 ^ LENGTH('a)" for w :: "'a::len word"
  by (rule unsigned_less)

lemma unat_max_word: "unat (- 1 :: 'a::len word) = 2 ^ LENGTH('a) - 1"
  by (simp add: unsigned_minus_1_eq_mask mask_eq_exp_minus_1)

lemma unat_of_nat_small: "n < 2 ^ LENGTH('a) \<Longrightarrow> unat (of_nat n :: 'a::len word) = n"
  by (simp add: unsigned_of_nat take_bit_eq_mod)

lemma checked_add_Some [int_simps]: "checked_add a b = Some c \<longleftrightarrow> unat c = unat a + unat b"
proof
  assume "checked_add a b = Some c"
  then show "unat c = unat a + unat b"
    by (auto simp: checked_add_def unat_word_ariths split: if_splits)
next
  assume c: "unat c = unat a + unat b"
  then have "unat a + unat b < 2 ^ LENGTH('a)" by (metis unat_lt)
  moreover from this c have "c = a + b" by (simp add: word_unat_eq_iff unat_word_ariths)
  ultimately show "checked_add a b = Some c" by (simp add: checked_add_def)
qed

lemma checked_mul_Some [int_simps]: "checked_mul a b = Some c \<longleftrightarrow> unat c = unat a * unat b"
proof
  assume "checked_mul a b = Some c"
  then show "unat c = unat a * unat b"
    by (auto simp: checked_mul_def unat_word_ariths split: if_splits)
next
  assume c: "unat c = unat a * unat b"
  then have "unat a * unat b < 2 ^ LENGTH('a)" by (metis unat_lt)
  moreover from this c have "c = a * b" by (simp add: word_unat_eq_iff unat_word_ariths)
  ultimately show "checked_mul a b = Some c" by (simp add: checked_mul_def)
qed

lemma unat_saturating_add [int_simps]:
  fixes a b :: "'a::len word"
  shows "unat (saturating_add a b) = min (2 ^ LENGTH('a) - 1) (unat a + unat b)"
  by (auto simp: saturating_add_def unat_word_ariths unat_max_word)

lemma unat_saturating_mul [int_simps]:
  fixes a b :: "'a::len word"
  shows "unat (saturating_mul a b) = min (2 ^ LENGTH('a) - 1) (unat a * unat b)"
  by (auto simp: saturating_mul_def unat_word_ariths unat_max_word)

lemma unat_saturating_sub [int_simps]: "unat (saturating_sub a b) = unat a - unat b"
  by (auto simp: saturating_sub_def unat_sub word_le_nat_alt)

lemma unat_sub_le [int_simps]: "b \<le> a \<Longrightarrow> unat (a - b) = unat a - unat b" for a b :: "'a::len word"
  by (simp add: unat_sub word_le_nat_alt)

lemma unat_ucast_u128: "unat (ucast (w :: u64) :: u128) = unat w"
proof -
  have "unat w < 2 ^ 128" using unat_lt [of w] by simp
  then show ?thesis by (simp add: unsigned_ucast_eq take_bit_eq_mod)
qed

lemma ceil_div_nat:
  fixes a b :: nat
  assumes "0 < b"
  shows "(a + b - 1) div b = (if a mod b = 0 then a div b else a div b + 1)"
proof -
  obtain q r where a: "a = b * q + r" and r: "r < b"
    using assms by (metis mod_less_divisor mult_div_mod_eq)
  show ?thesis
  proof (cases "r = 0")
    case True
    have "(b * q + (b - 1)) div b = (b - 1) div b + q" using assms by (metis add.commute div_mult_self2 less_numeral_extra(3))
    with a True assms show ?thesis by (simp add: Nat.add_diff_assoc)
  next
    case False
    have "(b * (q + 1) + (r - 1)) div b = (r - 1) div b + (q + 1)"
      using assms by (metis add.commute div_mult_self2 less_numeral_extra(3))
    then have "(b * (q + 1) + (r - 1)) div b = q + 1" using r by simp
    moreover have "a + b - 1 = b * (q + 1) + (r - 1)" using a False by simp
    ultimately show ?thesis using a r False by simp
  qed
qed

lemma unat_div_ceil:
  assumes "b \<noteq> 0"
  shows "unat (div_ceil a b) = (unat a + unat b - 1) div unat b"
proof -
  have b: "0 < unat b" using assms by (simp add: unat_gt_0)
  have "unat (a div b + 1) = unat a div unat b + 1" if "unat a mod unat b \<noteq> 0"
  proof -
    have "unat b \<noteq> 1" using that by auto
    with b have "1 < unat b" by simp
    moreover have "0 < unat a" using that by (cases "unat a") auto
    ultimately have "unat a div unat b < unat a" by (simp add: div_less_dividend)
    with unat_lt [of a] have "unat a div unat b + 1 < 2 ^ LENGTH('a)" by linarith
    then show ?thesis by (simp add: unat_word_ariths(1) unat_div)
  qed
  moreover have "a mod b = 0 \<longleftrightarrow> unat a mod unat b = 0"
    by (metis unat_eq_zero unat_mod)
  ultimately show ?thesis
    using b ceil_div_nat [OF b, of "unat a"] by (simp add: div_ceil_def unat_div)
qed

lemma wrapping_sum_Nil [simp]: "wrapping_sum [] = 0"
  by (simp add: wrapping_sum_def)

lemma foldl_plus_word: "foldl (+) (s :: 'a::len word) ws = s + foldl (+) 0 ws"
proof (induction ws arbitrary: s)
  case (Cons w ws)
  show ?case using Cons [of "s + w"] Cons [of w] by (simp add: add.assoc)
qed simp

lemma wrapping_sum_Cons [simp]: "wrapping_sum (w # ws) = w + wrapping_sum ws"
  using foldl_plus_word [of w ws] by (simp add: wrapping_sum_def)

lemma unat_wrapping_sum:
  "unat (wrapping_sum ws) = sum_list (map unat ws) mod 2 ^ LENGTH('a)" for ws :: "'a::len word list"
  by (induction ws) (simp_all add: unat_word_ariths mod_add_right_eq)

subsection \<open>Lemmas: strings\<close>

lemma starts_with_set: "starts_with s p \<Longrightarrow> set p \<subseteq> set s"
  unfolding starts_with_def by (metis set_take_subset)

lemma starts_with_append [simp]: "starts_with (p @ s) p"
  by (simp add: starts_with_def)

lemma starts_with_0x: "starts_with s ''0x'' \<longleftrightarrow> take 2 s = ''0x''"
  by (simp add: starts_with_def numeral_2_eq_2)

lemma trim_start_0x_id: "take 2 s \<noteq> ''0x'' \<Longrightarrow> trim_start_0x s = s"
  by (simp add: trim_start_0x.simps [of s])

lemma trim_start_0x_step: "trim_start_0x (CHR ''0'' # CHR ''x'' # s) = trim_start_0x s"
  by (simp add: trim_start_0x.simps [of "CHR ''0'' # CHR ''x'' # s"])

lemma take2_trim_start_0x: "take 2 (trim_start_0x s) \<noteq> ''0x''"
proof (induction s rule: trim_start_0x.induct)
  case (1 s)
  then show ?case by (cases "take 2 s = ''0x''") (simp_all add: trim_start_0x.simps [of s])
qed

lemma trim_start_0x_idem [simp]: "trim_start_0x (trim_start_0x s) = trim_start_0x s"
  using take2_trim_start_0x by (rule trim_start_0x_id)

lemma length_trim_start_0x: "length (trim_start_0x s) \<le> length s"
proof (induction s rule: trim_start_0x.induct)
  case (1 s)
  then show ?case by (cases "take 2 s = ''0x''") (simp_all add: trim_start_0x.simps [of s])
qed

lemma ascii_lower_upper: "\<not> (CHR ''A'' \<le> ascii_lower c \<and> ascii_lower c \<le> CHR ''Z'')"
proof (cases "CHR ''A'' \<le> c \<and> c \<le> CHR ''Z''")
  case True
  then have "(of_char c :: nat) \<le> 90" and "65 \<le> (of_char c :: nat)"
    by (simp_all add: less_eq_char_def)
  then show ?thesis using True
    by (simp add: ascii_lower_def less_eq_char_def)
qed (auto simp: ascii_lower_def)

lemma ascii_lower_idem [simp]: "ascii_lower (ascii_lower c) = ascii_lower c"
  using ascii_lower_upper [of c] by (auto simp: ascii_lower_def [of "ascii_lower c"])

lemma to_ascii_lowercase_idem [simp]: "to_ascii_lowercase (to_ascii_lowercase s) = to_ascii_lowercase s"
  by (simp add: to_ascii_lowercase_def)

lemma length_to_ascii_lowercase [simp]: "length (to_ascii_lowercase s) = length s"
  by (simp add: to_ascii_lowercase_def)

lemma of_char_word_inj: "(of_char c :: u8) = of_char d \<longleftrightarrow> c = d"
proof
  assume "(of_char c :: u8) = of_char d"
  then have "(of_nat (of_char c) :: u8) = of_nat (of_char d)"
    by (simp only: comm_semiring_1_class.of_nat_of_char)
  then have "unat (of_nat (of_char c) :: u8) = unat (of_nat (of_char d) :: u8)" by simp
  then have "(of_char c :: nat) = of_char d"
    by (simp add: unsigned_of_nat take_bit_eq_mod nat_of_char_less_256 del: of_nat_of_char of_char_eq_iff)
  then show "c = d" by simp
qed simp

lemma str_bytes_inj [simp]: "str_bytes s = str_bytes t \<longleftrightarrow> s = t"
proof -
  have "inj (of_char :: char \<Rightarrow> u8)" by (simp add: inj_def of_char_word_inj)
  then show ?thesis by (simp add: str_bytes_def inj_map_eq_map)
qed

lemma length_str_bytes [simp]: "length (str_bytes s) = length s"
  by (simp add: str_bytes_def)

lemma str_bytes_append [simp]: "str_bytes (s @ t) = str_bytes s @ str_bytes t"
  by (simp add: str_bytes_def)

subsection \<open>Lemmas: big-endian encodings\<close>

lemma length_be_nat_bytes [simp]: "length (be_nat_bytes n k) = n"
  by (induction n arbitrary: k) simp_all

lemma length_to_be_bytes [simp]: "length (to_be_bytes (w :: 'a::len word)) = LENGTH('a) div 8"
  by (simp add: to_be_bytes_def)

lemma be_nat_Nil [simp]: "be_nat [] = 0"
  by (simp add: be_nat_def)

lemma be_nat_snoc [simp]: "be_nat (bs @ [b]) = be_nat bs * 256 + unat b"
  by (simp add: be_nat_def)

lemma be_nat_be_nat_bytes: "be_nat (be_nat_bytes n k) = k mod 256 ^ n"
proof (induction n arbitrary: k)
  case (Suc n)
  have "be_nat (be_nat_bytes (Suc n) k) = (k div 256 mod 256 ^ n) * 256 + k mod 256"
    by (simp add: Suc unsigned_of_nat take_bit_eq_mod)
  also have "\<dots> = k mod (256 * 256 ^ n)"
    by (simp add: mod_mult2_eq mult.commute)
  finally show ?case by simp
qed simp

lemma be_nat_to_be_bytes:
  assumes "LENGTH('a::len) = 8 * (LENGTH('a) div 8)"
  shows "be_nat (to_be_bytes (w :: 'a word)) = unat w"
proof -
  have "(256 :: nat) ^ (LENGTH('a) div 8) = 2 ^ (8 * (LENGTH('a) div 8))"
    by (simp add: power_mult)
  also have "\<dots> = 2 ^ LENGTH('a)" using assms by presburger
  finally have "(256 :: nat) ^ (LENGTH('a) div 8) = 2 ^ LENGTH('a)" .
  then show ?thesis by (simp add: to_be_bytes_def be_nat_be_nat_bytes)
qed

lemma to_be_bytes_inj:
  assumes "LENGTH('a::len) = 8 * (LENGTH('a) div 8)"
  shows "to_be_bytes (v :: 'a word) = to_be_bytes w \<longleftrightarrow> v = w"
  using be_nat_to_be_bytes [OF assms] by (metis word_unat_eq_iff)

lemma to_be_bytes_inj_sizes [simp]:
  "to_be_bytes (a :: u32) = to_be_bytes b \<longleftrightarrow> a = b"
  "to_be_bytes (c :: u64) = to_be_bytes d \<longleftrightarrow> c = d"
  "to_be_bytes (e :: u128) = to_be_bytes f \<longleftrightarrow> e = f"
  by (simp_all add: to_be_bytes_inj)

lemma be_nat_bytes_0 [simp]: "be_nat_bytes n 0 = replicate n 0"
  by (induction n) (simp_all add: replicate_append_same)

lemma be_nat_foldl: "foldl (\<lambda>acc b. acc * 256 + unat b) k bs = k * 256 ^ length bs + be_nat (bs :: bytes)"
proof (induction bs rule: rev_induct)
  case (snoc b bs)
  then show ?case by (simp add: algebra_simps)
qed simp

lemma be_nat_append: "be_nat (bs @ cs) = be_nat bs * 256 ^ length cs + be_nat cs"
  using be_nat_foldl [of "be_nat bs" cs] by (simp add: be_nat_def)

lemma be_nat_zeros: "list_all (\<lambda>b. b = 0) bs \<Longrightarrow> be_nat bs = 0"
  by (induction bs rule: rev_induct) simp_all

lemma be_nat_dropWhile_zero [simp]: "be_nat (dropWhile (\<lambda>b. b = 0) bs) = be_nat bs"
proof -
  have "be_nat (takeWhile (\<lambda>b. b = 0) bs) = 0"
    by (rule be_nat_zeros) (auto simp: list_all_iff dest: set_takeWhileD)
  then show ?thesis
    using be_nat_append [of "takeWhile (\<lambda>b. b = 0) bs" "dropWhile (\<lambda>b. b = 0) bs"] by simp
qed

lemma be_nat_less: "be_nat bs < 256 ^ length bs"
proof (induction bs rule: rev_induct)
  case (snoc b bs)
  have "unat b < 256" using unat_lt [of b] by simp
  with snoc show ?case by simp
qed simp

lemma push_or_byte:
  assumes "8 \<le> LENGTH('a::len)" and "unat acc * 256 + unat b < 2 ^ LENGTH('a)"
  shows "unat (or (push_bit 8 (acc :: 'a word)) (ucast (b :: u8))) = unat acc * 256 + unat b"
proof -
  have "or (push_bit 8 acc) (ucast b) = push_bit 8 acc + (ucast b :: 'a word)"
    by (rule disjunctive_add [symmetric]) (auto simp: bit_simps dest: bit_imp_le_length)
  moreover have "push_bit 8 acc = acc * 256" by (simp add: push_bit_eq_mult)
  moreover have "unat (ucast b :: 'a word) = unat b"
  proof -
    have "unat b < 2 ^ 8" using unat_lt [of b] by simp
    also have "\<dots> \<le> (2 :: nat) ^ LENGTH('a)" using assms(1) by (rule power_increasing) simp
    finally show ?thesis by (simp add: unsigned_ucast_eq take_bit_nat_eq_self)
  qed
  moreover have "unat (acc * 256) = unat acc * 256"
    using assms by (simp add: unat_word_ariths take_bit_eq_mod mod_mult_right_eq)
  ultimately show ?thesis using assms by (simp add: unat_word_ariths)
qed

lemma unat_from_be_bytes:
  assumes "length bs * 8 \<le> LENGTH('a::len)"
  shows "unat (from_be_bytes bs :: 'a word) = be_nat bs"
  using assms
proof (induction bs rule: rev_induct)
  case Nil
  then show ?case by (simp add: from_be_bytes_def)
next
  case (snoc b bs)
  have IH: "unat (from_be_bytes bs :: 'a word) = be_nat bs" using snoc by simp
  have "be_nat (bs @ [b]) < 256 ^ length (bs @ [b])" by (rule be_nat_less)
  also have "(256 :: nat) ^ length (bs @ [b]) = 2 ^ (8 * length (bs @ [b]))"
    by (simp add: power_mult power_add)
  also have "\<dots> \<le> 2 ^ LENGTH('a)" using snoc.prems by (intro power_increasing) simp_all
  finally have "be_nat bs * 256 + unat b < 2 ^ LENGTH('a)" by simp
  moreover have "8 \<le> LENGTH('a)" using snoc.prems by simp
  ultimately show ?case using push_or_byte [of "from_be_bytes bs :: 'a word" b] IH
    by (simp add: from_be_bytes_def)
qed

text \<open>Two concatenations whose first parts have one width split the same way.\<close>

lemma fixed_width_split:
  "length xs = length ys \<Longrightarrow> xs @ us = ys @ vs \<longleftrightarrow> xs = ys \<and> us = vs"
  by simp

subsection \<open>Lemmas: finite maps\<close>

lemma get0_fmempty [simp]: "get0 fmempty k = 0"
  by (simp add: get0_def)

lemma get0_fmupd [simp]: "get0 (fmupd a v m) k = (if a = k then v else get0 m k)"
  by (simp add: get0_def)

lemma fm_total_empty [simp]: "fm_total fmempty = 0"
  by (simp add: fm_total_def)

lemma fm_total_superset:
  assumes "finite A" and "fmdom' m \<subseteq> A"
  shows "fm_total m = (\<Sum>k\<in>A. unat (get0 m k))"
  unfolding fm_total_def
  using assms by (intro sum.mono_neutral_left) (auto simp: get0_def fmdom'_notD split: option.splits)

text \<open>Changing one entry changes the total by the difference of that entry.\<close>

lemma fm_total_fmupd: "fm_total (fmupd k v m) + unat (get0 m k) = fm_total m + unat v"
proof -
  let ?A = "insert k (fmdom' m)"
  have fin: "finite ?A" by simp
  have "fm_total (fmupd k v m) = (\<Sum>a\<in>?A. unat (get0 (fmupd k v m) a))"
    by (rule fm_total_superset) auto
  also have "\<dots> = unat v + (\<Sum>a\<in>?A - {k}. unat (get0 m a))"
    by (subst sum.remove [OF fin, of k]) (auto intro!: sum.cong split: if_splits)
  finally have 1: "fm_total (fmupd k v m) = unat v + (\<Sum>a\<in>?A - {k}. unat (get0 m a))" .
  have "fm_total m = (\<Sum>a\<in>?A. unat (get0 m a))"
    by (rule fm_total_superset) auto
  also have "\<dots> = unat (get0 m k) + (\<Sum>a\<in>?A - {k}. unat (get0 m a))"
    by (subst sum.remove [OF fin, of k]) auto
  finally show ?thesis using 1 by simp
qed

lemma get0_le_fm_total: "unat (get0 m k) \<le> fm_total m"
proof (cases "k \<in> fmdom' m")
  case True
  then show ?thesis unfolding fm_total_def by (intro member_le_sum) auto
next
  case False
  then show ?thesis by (simp add: get0_def fmdom'_notD)
qed

subsection \<open>An interface: steps that conserve a quantity\<close>

text \<open>
  A step that may fail, and a measure of the state that every successful step keeps: then a
  whole loop over such steps keeps it.
\<close>

locale conserving =
  fixes total :: "'s \<Rightarrow> 'm" and step :: "'x \<Rightarrow> 's \<Rightarrow> 'e + 's"
  assumes step_total: "step x s = Ok t \<Longrightarrow> total t = total s"
begin

lemma loop_total:
  assumes "for_each step xs s = Ok t"
  shows "total t = total s"
  by (rule for_each_invariant [OF assms]) (auto dest: step_total)

end

subsection \<open>Lemmas: entries of a finite map\<close>

lemma fm_entries_keys: "map fst (fm_entries m) = sorted_list_of_fset (fmdom m)"
  by (simp add: fm_entries_def comp_def)

lemma distinct_fm_entries: "distinct (map fst (fm_entries m))"
  by (simp add: fm_entries_keys sorted_list_of_fset.rep_eq)

lemma sorted_fm_entries: "sorted (map fst (fm_entries m))"
  by (simp add: fm_entries_keys sorted_list_of_fset.rep_eq)

lemma in_fm_entries: "(k, v) \<in> set (fm_entries m) \<longleftrightarrow> fmlookup m k = Some v"
proof
  assume "(k, v) \<in> set (fm_entries m)"
  then have "k |\<in>| fmdom m" and v: "v = the (fmlookup m k)"
    by (auto simp: fm_entries_def sorted_list_of_fset.rep_eq)
  then show "fmlookup m k = Some v" by (simp add: fmlookup_dom_iff)
next
  assume "fmlookup m k = Some v"
  then show "(k, v) \<in> set (fm_entries m)"
    by (auto simp: fm_entries_def sorted_list_of_fset.rep_eq image_iff intro!: bexI [of _ k] fmdomI)
qed

lemma map_of_fm_entries [simp]: "map_of (fm_entries m) = fmlookup m"
proof
  fix k show "map_of (fm_entries m) k = fmlookup m k"
  proof (cases "fmlookup m k")
    case None
    then have "k \<notin> fst ` set (fm_entries m)" using in_fm_entries [of k _ m] by auto
    then show ?thesis using None by (simp add: map_of_eq_None_iff)
  next
    case (Some v)
    then show ?thesis using distinct_fm_entries [of m] in_fm_entries [of k v m] by (simp add: map_of_eq_Some_iff)
  qed
qed

end
