(* ===== verification/Model.thy ===== *)
theory Model
  imports Prelude
begin

text \<open>
  The data of the ledger: transactions, blocks and the scheduled system events a block may
  carry (\<open>src/model.rs\<close>, the data types of \<open>src/scheduled_event.rs\<close>, the registration
  messages of \<open>src/network.rs\<close>), the byte strings that are hashed and signed, and the decimal
  representation of amounts.

  Code that is not part of the repository is collected in the record \<open>externals\<close>, an
  argument of every definition that calls it: the digests (\<open>sha2\<close>, \<open>sha3\<close>), the \<open>hex\<close>
  codec, signature verification (\<open>ed25519-dalek\<close>, \<open>k256\<close>, \<open>libp2p\<close>) and \<open>serde_json\<close>.
  Theorems that rely on documented behaviour of that code name it as a hypothesis, for
  example \<open>hex_law\<close> below.

  The lemmas show that the signed byte strings determine what is signed, that decimal amounts
  survive a round trip, and where the block hash does not determine the block.
\<close>

subsection \<open>Data\<close>

type_synonym address = string

record transaction =
  tx_from :: address
  tx_to :: address
  tx_amount :: u128
  tx_fee :: u128
  tx_nonce :: u64
  tx_signature :: string

record validator_registration =
  vr_validator_id :: string
  vr_peer_id :: string
  vr_signature_hex :: string

record node_reward_registration =
  nr_reward_address :: string
  nr_peer_id :: string
  nr_signature_hex :: string
  nr_registration_signer :: string
  nr_node_public_key_hex :: string
  nr_node_signature_hex :: string

record event_payment =
  pay_address :: address
  pay_amount :: u128

datatype scheduled_event_action =
    TreasuryDistribution "event_payment list"
  | PeriodicProducerReward address u128
  | IncidentCompensation string address u128
  | ProtocolCheckpoint u32
  | BootstrapValidatorReward "validator_registration list" u128
  | NodeMilestoneReward "node_reward_registration list" u128

record scheduled_event =
  ev_id :: string
  ev_execute_at :: u64
  ev_action :: scheduled_event_action

record block =
  blk_height :: u64
  blk_previous_hash :: string
  blk_timestamp :: u64
  blk_producer :: address
  blk_transactions :: "transaction list"
  blk_system_events :: "scheduled_event list"
  blk_hash :: string

record validator =
  val_id :: string
  val_voting_power :: u64

subsection \<open>Code outside the repository\<close>

record externals =
  sha256 :: "bytes \<Rightarrow> bytes"
  keccak256 :: "bytes \<Rightarrow> bytes"
  hex_encode :: "bytes \<Rightarrow> string"
  hex_decode :: "string \<Rightarrow> bytes option"
  ed25519_key :: "bytes \<Rightarrow> bool"
  ed25519_verify :: "bytes \<Rightarrow> bytes \<Rightarrow> bytes \<Rightarrow> bool"
  secp256k1_key :: "bytes \<Rightarrow> bytes option"
  secp256k1_signature :: "bytes \<Rightarrow> bool"
  secp256k1_verify :: "bytes \<Rightarrow> bytes \<Rightarrow> bytes \<Rightarrow> bool"
  secp256k1_scalars :: "bytes \<Rightarrow> bytes \<Rightarrow> bool"
  secp256k1_recovery_id :: "u8 \<Rightarrow> bool"
  secp256k1_recover :: "bytes \<Rightarrow> bytes \<Rightarrow> bytes \<Rightarrow> u8 \<Rightarrow> bytes option"
  libp2p_key :: "bytes \<Rightarrow> bool"
  libp2p_peer_id :: "bytes \<Rightarrow> string"
  libp2p_verify :: "bytes \<Rightarrow> bytes \<Rightarrow> bytes \<Rightarrow> bool"
  json_event :: "scheduled_event \<Rightarrow> bytes"
  json_transaction :: "transaction \<Rightarrow> bytes option"

text \<open>
  The documented law of the \<open>hex\<close> crate: every byte is written as two lower-case hexadecimal
  digits, and decoding what was encoded gives the bytes back.
\<close>

definition hex_law :: "externals \<Rightarrow> bool" where
  "hex_law X \<longleftrightarrow> (\<forall>bs. hex_decode X (hex_encode X bs) = Some bs) \<and>
     (\<forall>bs. length (hex_encode X bs) = 2 * length bs) \<and>
     (\<forall>s bs. hex_decode X s = Some bs \<longrightarrow> length s = 2 * length bs) \<and>
     (\<forall>bs. list_all (\<lambda>c. is_ascii_digit c \<or> (CHR ''a'' \<le> c \<and> c \<le> CHR ''f'')) (hex_encode X bs))"

subsection \<open>Byte strings that are hashed and signed\<close>

definition push_text :: "string \<Rightarrow> bytes" where
  "push_text value = to_be_bytes (of_nat (length value) :: u64) @ str_bytes value"

definition signing_bytes :: "transaction \<Rightarrow> bytes" where
  "signing_bytes tx =
     push_text (tx_from tx) @ push_text (tx_to tx) @
     to_be_bytes (tx_amount tx) @ to_be_bytes (tx_fee tx) @ to_be_bytes (tx_nonce tx)"

definition tx_id :: "externals \<Rightarrow> transaction \<Rightarrow> string" where
  "tx_id X tx = hex_encode X (sha256 X (signing_bytes tx @ str_bytes (tx_signature tx)))"

definition consensus_bytes :: "externals \<Rightarrow> scheduled_event \<Rightarrow> bytes" where
  "consensus_bytes X ev = json_event X ev"

definition payload_hash :: "externals \<Rightarrow> scheduled_event \<Rightarrow> string" where
  "payload_hash X ev = hex_encode X (sha256 X (consensus_bytes X ev))"

definition block_preimage :: "externals \<Rightarrow> block \<Rightarrow> bytes" where
  "block_preimage X b =
     to_be_bytes (blk_height b) @ str_bytes (blk_previous_hash b) @
     to_be_bytes (blk_timestamp b) @ str_bytes (blk_producer b) @
     concat (map (\<lambda>tx. str_bytes (tx_id X tx)) (blk_transactions b)) @
     concat (map (\<lambda>ev. str_bytes (ev_id ev) @ consensus_bytes X ev) (blk_system_events b))"

definition calculate_hash :: "externals \<Rightarrow> block \<Rightarrow> string" where
  "calculate_hash X b = hex_encode X (sha256 X (block_preimage X b))"

definition block_new ::
  "externals \<Rightarrow> u64 \<Rightarrow> string \<Rightarrow> u64 \<Rightarrow> address \<Rightarrow> transaction list \<Rightarrow> block" where
  "block_new X height previous_hash timestamp producer transactions =
     (let b = \<lparr>blk_height = height, blk_previous_hash = previous_hash, blk_timestamp = timestamp,
               blk_producer = producer, blk_transactions = transactions, blk_system_events = [],
               blk_hash = []\<rparr>
      in b\<lparr>blk_hash := calculate_hash X b\<rparr>)"

definition block_genesis :: "externals \<Rightarrow> block" where
  "block_genesis X =
     (let b = \<lparr>blk_height = 0, blk_previous_hash = replicate 64 (CHR ''0''), blk_timestamp = 0,
               blk_producer = ''genesis'', blk_transactions = [], blk_system_events = [],
               blk_hash = []\<rparr>
      in b\<lparr>blk_hash := calculate_hash X b\<rparr>)"

definition with_system_events :: "externals \<Rightarrow> block \<Rightarrow> scheduled_event list \<Rightarrow> block" where
  "with_system_events X b events =
     (let b' = b\<lparr>blk_system_events := events\<rparr> in b'\<lparr>blk_hash := calculate_hash X b'\<rparr>)"

subsection \<open>Decimal amounts\<close>

definition digit_char :: "nat \<Rightarrow> char" where
  "digit_char d = char_of (48 + d)"

fun dec_digits :: "nat \<Rightarrow> string" where
  "dec_digits n = (if n < 10 then [digit_char n] else dec_digits (n div 10) @ [digit_char (n mod 10)])"

declare dec_digits.simps [simp del]

definition decimal_serialize :: "u128 \<Rightarrow> string" where
  "decimal_serialize value = dec_digits (unat value)"

fun parse_digits :: "string \<Rightarrow> u128 \<Rightarrow> u128 option" where
  "parse_digits [] acc = Some acc"
| "parse_digits (c # cs) acc =
     (if is_ascii_digit c then
        case checked_mul acc 10 of
          None \<Rightarrow> None
        | Some m \<Rightarrow>
          (case checked_add m (of_nat (of_char c - 48)) of
             None \<Rightarrow> None
           | Some a \<Rightarrow> parse_digits cs a)
      else None)"

text \<open>\<open>str::parse::<u128>\<close>: an optional plus sign, at least one digit, no overflow.\<close>

definition parse_u128 :: "string \<Rightarrow> u128 option" where
  "parse_u128 s =
     (let ds = (case s of [] \<Rightarrow> [] | c # cs \<Rightarrow> if c = CHR ''+'' then cs else s)
      in if ds = [] then None else parse_digits ds 0)"

datatype json_value = JsonU64 u64 | JsonU128 u128 | JsonString string

fun decimal_deserialize :: "json_value \<Rightarrow> u128 option" where
  "decimal_deserialize (JsonU64 value) = Some (ucast value)"
| "decimal_deserialize (JsonU128 value) = Some value"
| "decimal_deserialize (JsonString value) = parse_u128 value"

subsection \<open>Lemmas\<close>

lemma push_text_append_inj:
  assumes "length s < 2 ^ 64" and "length t < 2 ^ 64"
  shows "push_text s @ us = push_text t @ vs \<longleftrightarrow> s = t \<and> us = vs"
proof
  assume eq: "push_text s @ us = push_text t @ vs"
  then have "(of_nat (length s) :: u64) = of_nat (length t)"
    by (simp add: push_text_def)
  then have "unat (of_nat (length s) :: u64) = unat (of_nat (length t) :: u64)" by simp
  with assms have "length s = length t" by (simp add: unsigned_of_nat take_bit_eq_mod)
  with eq show "s = t \<and> us = vs" by (simp add: push_text_def)
qed simp

lemma signing_bytes_append_inj:
  assumes "length (tx_from s) < 2 ^ 64" "length (tx_to s) < 2 ^ 64"
    and "length (tx_from t) < 2 ^ 64" "length (tx_to t) < 2 ^ 64"
  shows "signing_bytes s @ us = signing_bytes t @ vs \<longleftrightarrow>
    tx_from s = tx_from t \<and> tx_to s = tx_to t \<and> tx_amount s = tx_amount t \<and>
    tx_fee s = tx_fee t \<and> tx_nonce s = tx_nonce t \<and> us = vs"
  using assms by (simp add: signing_bytes_def push_text_append_inj)

lemma is_ascii_digit_digit_char: "d < 10 \<Longrightarrow> is_ascii_digit (digit_char d)"
  by (simp add: is_ascii_digit_def digit_char_def less_eq_char_def)

lemma of_char_digit_char: "d < 10 \<Longrightarrow> of_char (digit_char d) = 48 + d"
  by (simp add: digit_char_def)

lemma parse_digits_append:
  "parse_digits (s @ t) acc =
     (case parse_digits s acc of None \<Rightarrow> None | Some a \<Rightarrow> parse_digits t a)"
proof (induction s arbitrary: acc)
  case (Cons c s)
  then show ?case by (auto split: option.splits)
qed simp

lemma parse_digits_digit:
  assumes "d < 10" and "unat acc * 10 + d < 2 ^ 128"
  shows "parse_digits [digit_char d] acc = Some (of_nat (unat acc * 10 + d))"
proof -
  have d: "unat (of_nat d :: u128) = d" using assms by (simp add: unat_of_nat_small)
  have m: "unat (acc * 10) = unat acc * 10" using assms by (simp add: unat_word_ariths)
  then have "checked_mul acc 10 = Some (acc * 10)" by (simp add: checked_mul_Some)
  moreover have "checked_add (acc * 10) (of_nat d) = Some (of_nat (unat acc * 10 + d))"
    using assms d m by (simp add: checked_add_def)
  ultimately show ?thesis
    using assms by (simp add: is_ascii_digit_digit_char of_char_digit_char)
qed

lemma parse_digits_dec_digits: "n < 2 ^ 128 \<Longrightarrow> parse_digits (dec_digits n) 0 = Some (of_nat n)"
proof (induction n rule: dec_digits.induct)
  case (1 n)
  show ?case
  proof (cases "n < 10")
    case True
    then show ?thesis using parse_digits_digit [of n 0] by (simp add: dec_digits.simps [of n])
  next
    case False
    have small: "n div 10 < 2 ^ 128" using "1.prems" by simp
    then have "unat (of_nat (n div 10) :: u128) = n div 10"
      by (simp add: unsigned_of_nat take_bit_eq_mod)
    with False small "1.IH" "1.prems" show ?thesis
      using parse_digits_digit [of "n mod 10" "of_nat (n div 10)"]
      by (simp add: dec_digits.simps [of n] parse_digits_append)
  qed
qed

lemma dec_digits_head: "\<exists>d cs. dec_digits n = digit_char d # cs \<and> d < 10"
proof (induction n rule: dec_digits.induct)
  case (1 n)
  then show ?case by (cases "n < 10") (auto simp: dec_digits.simps [of n])
qed

lemma digit_char_not_plus: "d < 10 \<Longrightarrow> digit_char d \<noteq> CHR ''+''"
  using of_char_digit_char [of d] by auto

lemma calculate_hash_hash [simp]: "calculate_hash X (b\<lparr>blk_hash := h\<rparr>) = calculate_hash X b"
  by (simp add: calculate_hash_def block_preimage_def)

lemma block_new_hash [simp]: "blk_hash (block_new X h p t a txs) = calculate_hash X (block_new X h p t a txs)"
  by (simp add: block_new_def Let_def calculate_hash_def block_preimage_def)

lemma block_genesis_hash [simp]: "blk_hash (block_genesis X) = calculate_hash X (block_genesis X)"
  by (simp add: block_genesis_def Let_def calculate_hash_def block_preimage_def)

lemma block_genesis_fields [simp]:
  "blk_height (block_genesis X) = 0" "blk_transactions (block_genesis X) = []"
  "blk_system_events (block_genesis X) = []" "blk_timestamp (block_genesis X) = 0"
  by (simp_all add: block_genesis_def Let_def)

end
