(* ===== verification/Genesis.thy ===== *)
theory Genesis
  imports Model
begin

text \<open>
  The genesis configuration (\<open>src/genesis.rs\<close>): its validation and its commitment hash. The JSON
  encoding of the configuration is an argument.
\<close>

record genesis_config =
  gen_chain_id :: u64
  gen_network_name :: string
  gen_genesis_time :: u64
  gen_initial_balances :: "(address \<times> u128) list"
  gen_validators :: "validator list"
  gen_max_block_bytes :: u64
  gen_max_active_block_bytes :: u64

datatype genesis_error =
    ChainIdZero | TooFewGenesisValidators | BadGenesisValidator | BlockBytesRange
  | ActiveBytesRange | GenesisNotSerializable

definition check_genesis_validator ::
  "externals \<Rightarrow> validator \<Rightarrow> string fset \<Rightarrow> (string fset, genesis_error) result" where
  "check_genesis_validator X v ids =
     (if val_voting_power v = 0 \<or>
         (case hex_decode X (val_id v) of None \<Rightarrow> True | Some bs \<Rightarrow> length bs \<noteq> 32) \<or>
         val_id v |\<in>| ids
      then Err BadGenesisValidator
      else Ok (finsert (val_id v) ids))"

definition genesis_validate :: "externals \<Rightarrow> genesis_config \<Rightarrow> (unit, genesis_error) result" where
  "genesis_validate X g =
     and_then (ensure (gen_chain_id g \<noteq> 0) ChainIdZero) (\<lambda>_.
     and_then (ensure (\<not> length (gen_validators g) < 4) TooFewGenesisValidators) (\<lambda>_.
     and_then (for_each (check_genesis_validator X) (gen_validators g) {||}) (\<lambda>_.
     and_then (ensure (\<not> (gen_max_block_bytes g = 0 \<or> gen_max_block_bytes g > 4 * 1024 * 1024))
                 BlockBytesRange) (\<lambda>_.
     ensure (\<not> (gen_max_active_block_bytes g = 0 \<or> gen_max_active_block_bytes g > 100000000))
       ActiveBytesRange))))"

definition genesis_hash ::
  "(genesis_config \<Rightarrow> bytes option) \<Rightarrow> externals \<Rightarrow> genesis_config \<Rightarrow> (string, genesis_error) result" where
  "genesis_hash json_genesis X g =
     and_then (genesis_validate X g) (\<lambda>_.
     and_then (ok_or (json_genesis g) GenesisNotSerializable) (\<lambda>bs.
     Ok (hex_encode X (sha256 X bs))))"

lemma check_genesis_validator_Ok:
  "check_genesis_validator X v ids = Ok ids' \<longleftrightarrow>
     0 < val_voting_power v \<and> (\<exists>bs. hex_decode X (val_id v) = Some bs \<and> length bs = 32) \<and>
     val_id v |\<notin>| ids \<and> ids' = finsert (val_id v) ids"
  by (auto simp: check_genesis_validator_def word_neq_0_conv split: option.splits)

lemma check_genesis_validator_loop:
  assumes "for_each (check_genesis_validator X) vs seen = Ok ids"
  shows "distinct (map val_id vs) \<and> list_all (\<lambda>v. 0 < val_voting_power v \<and> val_id v |\<notin>| seen) vs"
  using assms
proof (induction vs arbitrary: seen)
  case (Cons v vs)
  from Cons.prems have v: "0 < val_voting_power v" "val_id v |\<notin>| seen"
    and loop: "for_each (check_genesis_validator X) vs (finsert (val_id v) seen) = Ok ids"
    by (auto simp: result_simps check_genesis_validator_Ok)
  note IH = Cons.IH [OF loop]
  then have "val_id v \<notin> val_id ` set vs" by (auto simp: list_all_iff)
  with v IH show ?case by (simp add: list_all_iff)
qed simp

end
