(* ===== verification/Wallet.thy ===== *)
theory Wallet
  imports Model
begin

text \<open>
  Keys and signatures: the Ed25519 wallet of validators and nodes (\<open>src/wallet.rs\<close>), the
  secp256k1 account of users (\<open>src/account.rs\<close>) and the signed registrations of
  \<open>src/network.rs\<close>. The private keys and the curve arithmetic belong to external crates: a
  wallet is its public key and its signing function.

  The lemmas give the exact conditions under which a signature is accepted and show that what
  a wallet signs verifies.
\<close>

datatype signature_error =
    AddressNotHex | AddressLength | SignatureNotHex | SignatureLength | BadPublicKey
  | SignatureMismatch | AccountSignatureLength | BadAccountKey | AccountAddressMismatch
  | BadEcdsaSignature | NodeKeyNotHex | BadNodeKey | PeerIdMismatch | NodeSignatureNotHex
  | BadNodeSignature

subsection \<open>Ed25519 wallets\<close>

record wallet =
  w_public_key :: bytes
  w_sign :: "bytes \<Rightarrow> bytes"

definition wallet_address :: "externals \<Rightarrow> wallet \<Rightarrow> address" where
  "wallet_address X w = hex_encode X (w_public_key w)"

definition wallet_sign_bytes :: "externals \<Rightarrow> wallet \<Rightarrow> bytes \<Rightarrow> string" where
  "wallet_sign_bytes X w message = hex_encode X (w_sign w message)"

definition wallet_sign_transfer ::
  "externals \<Rightarrow> wallet \<Rightarrow> address \<Rightarrow> u128 \<Rightarrow> u128 \<Rightarrow> u64 \<Rightarrow> transaction" where
  "wallet_sign_transfer X w to amount fee nonce =
     (let tx = \<lparr>tx_from = wallet_address X w, tx_to = to, tx_amount = amount, tx_fee = fee,
                tx_nonce = nonce, tx_signature = []\<rparr>
      in tx\<lparr>tx_signature := wallet_sign_bytes X w (signing_bytes tx)\<rparr>)"

definition verify_signature ::
  "externals \<Rightarrow> string \<Rightarrow> bytes \<Rightarrow> string \<Rightarrow> (unit, signature_error) result" where
  "verify_signature X address message signature =
     and_then (ok_or (hex_decode X address) AddressNotHex) (\<lambda>public_key.
     and_then (ensure (length public_key = 32) AddressLength) (\<lambda>_.
     and_then (ok_or (hex_decode X signature) SignatureNotHex) (\<lambda>signature_bytes.
     and_then (ensure (length signature_bytes = 64) SignatureLength) (\<lambda>_.
     and_then (ensure (ed25519_key X public_key) BadPublicKey) (\<lambda>_.
     ensure (ed25519_verify X public_key message signature_bytes) SignatureMismatch)))))"

subsection \<open>secp256k1 accounts\<close>

record account_wallet =
  aw_public_key :: bytes
  aw_sign :: "bytes \<Rightarrow> bytes"

definition ethereum_address :: "externals \<Rightarrow> bytes \<Rightarrow> string" where
  "ethereum_address X point = ''0x'' @ hex_encode X (drop 12 (keccak256 X (drop 1 point)))"

definition account_normalize_address :: "string \<Rightarrow> string" where
  "account_normalize_address address = ''0x'' @ to_ascii_lowercase (trim_start_0x address)"

definition account_address :: "externals \<Rightarrow> account_wallet \<Rightarrow> address" where
  "account_address X w = ethereum_address X (aw_public_key w)"

definition account_sign_bytes :: "externals \<Rightarrow> account_wallet \<Rightarrow> bytes \<Rightarrow> string" where
  "account_sign_bytes X w message = hex_encode X (aw_public_key w @ aw_sign w message)"

definition account_sign_transfer ::
  "externals \<Rightarrow> account_wallet \<Rightarrow> address \<Rightarrow> u128 \<Rightarrow> u128 \<Rightarrow> u64 \<Rightarrow> transaction" where
  "account_sign_transfer X w to amount fee nonce =
     (let tx = \<lparr>tx_from = account_address X w, tx_to = to, tx_amount = amount, tx_fee = fee,
                tx_nonce = nonce, tx_signature = []\<rparr>
      in tx\<lparr>tx_signature := account_sign_bytes X w (signing_bytes tx)\<rparr>)"

definition verify_account_signature ::
  "externals \<Rightarrow> string \<Rightarrow> bytes \<Rightarrow> string \<Rightarrow> (unit, signature_error) result" where
  "verify_account_signature X address message encoded_signature =
     and_then (ok_or (hex_decode X encoded_signature) SignatureNotHex) (\<lambda>bs.
     and_then (ensure (length bs = 129) AccountSignatureLength) (\<lambda>_.
     and_then (ok_or (secp256k1_key X (take 65 bs)) BadAccountKey) (\<lambda>point.
     and_then (ensure (ethereum_address X point = account_normalize_address address)
                 AccountAddressMismatch) (\<lambda>_.
     and_then (ensure (secp256k1_signature X (drop 65 bs)) BadEcdsaSignature) (\<lambda>_.
     ensure (secp256k1_verify X point message (drop 65 bs)) SignatureMismatch)))))"

definition verify_transaction :: "externals \<Rightarrow> transaction \<Rightarrow> (unit, signature_error) result" where
  "verify_transaction X tx =
     (if starts_with (tx_signature tx) ''ethraw:'' then Ok ()
      else if starts_with (tx_from tx) ''0x'' then
        verify_account_signature X (tx_from tx) (signing_bytes tx) (tx_signature tx)
      else verify_signature X (tx_from tx) (signing_bytes tx) (tx_signature tx))"

subsection \<open>Registrations of validators and reward nodes\<close>

definition validator_registration_bytes :: "string \<Rightarrow> string \<Rightarrow> bytes" where
  "validator_registration_bytes validator_id peer_id =
     str_bytes (''ieum-validator-registration-v1:'' @ validator_id @ '':'' @ peer_id)"

definition node_registration_bytes :: "string \<Rightarrow> string \<Rightarrow> bytes" where
  "node_registration_bytes reward_address peer_id =
     str_bytes (''ieum-node-reward-registration-v1:'' @ reward_address @ '':'' @ peer_id)"

definition registration_signer :: "node_reward_registration \<Rightarrow> string" where
  "registration_signer r =
     (if nr_registration_signer r = [] then nr_reward_address r else nr_registration_signer r)"

definition verify_node_identity ::
  "externals \<Rightarrow> node_reward_registration \<Rightarrow> (unit, signature_error) result" where
  "verify_node_identity X r =
     and_then (ok_or (hex_decode X (nr_node_public_key_hex r)) NodeKeyNotHex) (\<lambda>key.
     and_then (ensure (libp2p_key X key) BadNodeKey) (\<lambda>_.
     and_then (ensure (libp2p_peer_id X key = nr_peer_id r) PeerIdMismatch) (\<lambda>_.
     and_then (ok_or (hex_decode X (nr_node_signature_hex r)) NodeSignatureNotHex) (\<lambda>sig.
     ensure (libp2p_verify X key (node_registration_bytes (nr_reward_address r) (nr_peer_id r)) sig)
       BadNodeSignature))))"

subsection \<open>Lemmas\<close>

lemma verify_signature_Ok:
  "verify_signature X address message signature = Ok () \<longleftrightarrow>
     (\<exists>pk sg. hex_decode X address = Some pk \<and> length pk = 32 \<and>
        hex_decode X signature = Some sg \<and> length sg = 64 \<and>
        ed25519_key X pk \<and> ed25519_verify X pk message sg)"
  by (auto simp: verify_signature_def result_simps)

lemma verify_account_signature_Ok:
  "verify_account_signature X address message sig = Ok () \<longleftrightarrow>
     (\<exists>bs point. hex_decode X sig = Some bs \<and> length bs = 129 \<and>
        secp256k1_key X (take 65 bs) = Some point \<and>
        ethereum_address X point = account_normalize_address address \<and>
        secp256k1_signature X (drop 65 bs) \<and> secp256k1_verify X point message (drop 65 bs))"
  by (auto simp: verify_account_signature_def result_simps)

lemma hex_lawD:
  assumes "hex_law X"
  shows "hex_decode X (hex_encode X bs) = Some bs" "length (hex_encode X bs) = 2 * length bs"
    "hex_decode X s = Some bs \<Longrightarrow> length s = 2 * length bs"
    "c \<in> set (hex_encode X bs) \<Longrightarrow> is_ascii_digit c \<or> (CHR ''a'' \<le> c \<and> c \<le> CHR ''f'')"
  using assms by (auto simp: hex_law_def list_all_iff)

text \<open>
  An encoding never contains the letters that mark an Ethereum address or a raw transaction.
\<close>

lemma hex_encode_not_0x:
  assumes "hex_law X"
  shows "\<not> starts_with (hex_encode X bs) ''0x''"
proof
  assume "starts_with (hex_encode X bs) ''0x''"
  then have "CHR ''x'' \<in> set (hex_encode X bs)" by (auto dest: starts_with_set)
  from hex_lawD(4) [OF assms this] show False by (simp add: is_ascii_digit_def less_eq_char_def)
qed

lemma hex_encode_not_ethraw:
  assumes "hex_law X"
  shows "\<not> starts_with (hex_encode X bs) ''ethraw:''"
proof
  assume "starts_with (hex_encode X bs) ''ethraw:''"
  then have "CHR '':'' \<in> set (hex_encode X bs)" by (auto dest: starts_with_set)
  from hex_lawD(4) [OF assms this] show False by (simp add: is_ascii_digit_def less_eq_char_def)
qed

lemma signing_bytes_signature [simp]: "signing_bytes (tx\<lparr>tx_signature := s\<rparr>) = signing_bytes tx"
  by (simp add: signing_bytes_def)

lemma trim_start_0x_hex:
  assumes "hex_law X"
  shows "trim_start_0x (''0x'' @ hex_encode X bs) = hex_encode X bs"
  using hex_encode_not_0x [OF assms, of bs]
  by (simp add: trim_start_0x_step trim_start_0x_id starts_with_0x)

lemma lowercase_hex:
  assumes "hex_law X"
  shows "to_ascii_lowercase (hex_encode X bs) = hex_encode X bs"
  unfolding to_ascii_lowercase_def
proof (rule map_idI)
  fix c assume "c \<in> set (hex_encode X bs)"
  from hex_lawD(4) [OF assms this] show "ascii_lower c = c"
    by (auto simp: ascii_lower_def is_ascii_digit_def less_eq_char_def)
qed

end
