(* ===== verification/Raw_Transaction.thy ===== *)
theory Raw_Transaction
  imports Wallet
begin

text \<open>
  Ethereum raw transactions (\<open>src/raw_transaction.rs\<close>): the RLP encoder and decoder, the
  decoding of EIP-155 legacy transfers into ledger transactions and the check of a transaction
  that embeds its raw form. Slices are lists of bytes and \<open>usize\<close> values are naturals with the
  64-bit bound written out.

  The lemmas show that the decoder inverts the encoder, that integers survive the encoding, and
  that a decoded transaction is accepted by the embedded check on its own chain and on no other.
\<close>

datatype raw_error =
    RawNotHex | NotLegacyRlp | IntegerRange | NotTransfer | CalldataUnsupported | NoChainId
  | ChainIdMismatch | BadRecoveryId | ScalarRange | BadScalars | RecoverFailed | FeeOverflow
  | NoRawMarker | RawFieldsMismatch | EmptyRlp | WrongRlpKind | RlpLengthOverflow
  | RlpTruncated | BadRlpLength | RlpTrailingBytes

subsection \<open>RLP\<close>

definition read_length :: "bytes \<Rightarrow> nat \<Rightarrow> nat \<Rightarrow> (nat, raw_error) result" where
  "read_length input start width =
     (if width = 0 \<or> width > 8 \<or> start + width > length input then Err BadRlpLength
      else Ok (unat (from_be_bytes (take width (drop start input)) :: u64)))"

definition rlp_header :: "bytes \<Rightarrow> u8 \<Rightarrow> (bool \<times> nat \<times> nat, raw_error) result" where
  "rlp_header input prefix =
     (let p = unat prefix in
      if p \<le> 0x7f then Ok (False, 0, 1)
      else if p \<le> 0xb7 then Ok (False, 1, p - 0x80)
      else if p \<le> 0xbf then
        (let width = p - 0xb7 in
         and_then (read_length input 1 width) (\<lambda>len. Ok (False, 1 + width, len)))
      else if p \<le> 0xf7 then Ok (True, 1, p - 0xc0)
      else
        (let width = p - 0xf7 in
         and_then (read_length input 1 width) (\<lambda>len. Ok (True, 1 + width, len))))"

definition decode_item :: "bytes \<Rightarrow> bool \<Rightarrow> (bytes \<times> nat, raw_error) result" where
  "decode_item input require_list =
     (case input of
        [] \<Rightarrow> Err EmptyRlp
      | prefix # _ \<Rightarrow>
        and_then (rlp_header input prefix) (\<lambda>(is_list, start, len).
          if require_list \<noteq> is_list then Err WrongRlpKind
          else if \<not> start + len < 2 ^ 64 then Err RlpLengthOverflow
          else if start + len > length input then Err RlpTruncated
          else Ok (take len (drop start input), start + len)))"

lemma decode_item_size:
  assumes "decode_item input False = Ok (item, n)"
  shows "0 < n \<and> n \<le> length input"
  using assms
  by (auto simp: decode_item_def rlp_header_def result_simps Let_def split: list.splits if_splits)

function decode_fields :: "bytes \<Rightarrow> (bytes list, raw_error) result" where
  "decode_fields payload =
     (if payload = [] then Ok []
      else case decode_item payload False of
        Inl e \<Rightarrow> Err e
      | Inr (value, n) \<Rightarrow>
        (case decode_fields (drop n payload) of
           Inl e \<Rightarrow> Err e
         | Inr fs \<Rightarrow> Ok (value # fs)))"
  by pat_completeness auto
termination
  by (relation "measure length") (auto dest: decode_item_size)

declare decode_fields.simps [simp del]

definition decode_list :: "bytes \<Rightarrow> (bytes list, raw_error) result" where
  "decode_list input =
     and_then (decode_item input True) (\<lambda>(payload, consumed).
       if consumed \<noteq> length input then Err RlpTrailingBytes else decode_fields payload)"

definition encode_length :: "nat \<Rightarrow> u8 \<Rightarrow> u8 \<Rightarrow> bytes" where
  "encode_length len short_base long_base =
     (if len \<le> 55 then [short_base + of_nat len]
      else
        let encoded = dropWhile (\<lambda>b. b = 0) (to_be_bytes (of_nat len :: u64))
        in (long_base + of_nat (length encoded)) # encoded)"

definition encode_bytes :: "bytes \<Rightarrow> bytes" where
  "encode_bytes value =
     (if length value = 1 \<and> value ! 0 < 0x80 then value
      else encode_length (length value) 0x80 0xb7 @ value)"

definition encode_list :: "bytes list \<Rightarrow> bytes" where
  "encode_list items =
     (let payload = concat items in encode_length (length payload) 0xc0 0xf7 @ payload)"

definition encode_u64 :: "u64 \<Rightarrow> bytes" where
  "encode_u64 value =
     (if value = 0 then encode_bytes []
      else encode_bytes (dropWhile (\<lambda>b. b = 0) (to_be_bytes value)))"

definition encode_u128 :: "u128 \<Rightarrow> bytes" where
  "encode_u128 value =
     (if value = 0 then encode_bytes []
      else encode_bytes (dropWhile (\<lambda>b. b = 0) (to_be_bytes value)))"

definition value_u64 :: "bytes \<Rightarrow> (u64, raw_error) result" where
  "value_u64 value = (if length value > 8 then Err IntegerRange else Ok (from_be_bytes value))"

definition value_u128 :: "bytes \<Rightarrow> (u128, raw_error) result" where
  "value_u128 value = (if length value > 16 then Err IntegerRange else Ok (from_be_bytes value))"

definition padded_scalar :: "bytes \<Rightarrow> (bytes, raw_error) result" where
  "padded_scalar value =
     (if length value > 32 then Err ScalarRange else Ok (replicate (32 - length value) 0 @ value))"

subsection \<open>Transactions\<close>

definition decode_legacy :: "externals \<Rightarrow> string \<Rightarrow> u64 \<Rightarrow> (transaction, raw_error) result" where
  "decode_legacy X raw_hex expected_chain_id =
     and_then (ok_or (hex_decode X (trim_start_0x raw_hex)) RawNotHex) (\<lambda>raw.
     and_then (decode_list raw) (\<lambda>fields.
     and_then (ensure (length fields = 9) NotLegacyRlp) (\<lambda>_.
     and_then (value_u64 (fields ! 0)) (\<lambda>nonce.
     and_then (value_u64 (fields ! 1)) (\<lambda>gas_price.
     and_then (value_u64 (fields ! 2)) (\<lambda>gas_limit.
     let to = fields ! 3 in
     and_then (ensure (length to = 20) NotTransfer) (\<lambda>_.
     and_then (value_u128 (fields ! 4)) (\<lambda>amount.
     and_then (ensure (fields ! 5 = []) CalldataUnsupported) (\<lambda>_.
     and_then (value_u64 (fields ! 6)) (\<lambda>v.
     and_then (ensure (\<not> v < 35) NoChainId) (\<lambda>_.
     let chain_id = (v - 35) div 2 in
     and_then (ensure (chain_id = expected_chain_id) ChainIdMismatch) (\<lambda>_.
     let recovery_id = ucast ((v - 35) mod 2) :: u8 in
     and_then (ensure (secp256k1_recovery_id X recovery_id) BadRecoveryId) (\<lambda>_.
     and_then (padded_scalar (fields ! 7)) (\<lambda>r.
     and_then (padded_scalar (fields ! 8)) (\<lambda>s.
     and_then (ensure (secp256k1_scalars X r s) BadScalars) (\<lambda>_.
     let signing = encode_list [encode_u64 nonce, encode_u64 gas_price, encode_u64 gas_limit,
           encode_bytes to, encode_u128 amount, encode_bytes [], encode_u64 chain_id,
           encode_bytes [], encode_bytes []];
         digest = keccak256 X signing in
     and_then (ok_or (secp256k1_recover X digest r s recovery_id) RecoverFailed) (\<lambda>point.
     let address_hash = keccak256 X (drop 1 point);
         from = ''0x'' @ hex_encode X (drop 12 address_hash) in
     and_then (ok_or (checked_mul (ucast gas_price :: u128) (ucast gas_limit)) FeeOverflow) (\<lambda>fee.
     Ok \<lparr>tx_from = from, tx_to = ''0x'' @ hex_encode X to, tx_amount = amount, tx_fee = fee,
         tx_nonce = nonce, tx_signature = ''ethraw:'' @ hex_encode X raw\<rparr>))))))))))))))))))"

definition transaction_hash :: "externals \<Rightarrow> string \<Rightarrow> (string, raw_error) result" where
  "transaction_hash X raw_hex =
     and_then (ok_or (hex_decode X (trim_start_0x raw_hex)) RawNotHex) (\<lambda>raw.
     Ok (''0x'' @ hex_encode X (keccak256 X raw)))"

definition verify_embedded :: "externals \<Rightarrow> transaction \<Rightarrow> u64 \<Rightarrow> (unit, raw_error) result" where
  "verify_embedded X tx expected_chain_id =
     and_then (ok_or (strip_prefix (tx_signature tx) ''ethraw:'') NoRawMarker) (\<lambda>raw.
     and_then (ok_or (hex_decode X raw) RawNotHex) (\<lambda>bs.
     and_then (decode_list bs) (\<lambda>fields.
     and_then (ensure (length fields = 9) NotLegacyRlp) (\<lambda>_.
     and_then (value_u64 (fields ! 6)) (\<lambda>v.
     and_then (ensure (\<not> v < 35) NoChainId) (\<lambda>_.
     and_then (decode_legacy X raw expected_chain_id) (\<lambda>decoded.
     ensure (decoded = tx) RawFieldsMismatch)))))))"

subsection \<open>Lemmas: lengths and integers\<close>

lemma stripped_be_bytes:
  fixes w :: "'a::len word"
  assumes "LENGTH('a) = 8 * (LENGTH('a) div 8)" and "w \<noteq> 0"
  shows "be_nat (dropWhile (\<lambda>b. b = 0) (to_be_bytes w)) = unat w"
    and "dropWhile (\<lambda>b. b = 0) (to_be_bytes w) \<noteq> []"
    and "length (dropWhile (\<lambda>b. b = 0) (to_be_bytes w)) \<le> LENGTH('a) div 8"
proof -
  show be: "be_nat (dropWhile (\<lambda>b. b = 0) (to_be_bytes w)) = unat w"
    using be_nat_to_be_bytes [OF assms(1)] by simp
  show "dropWhile (\<lambda>b. b = 0) (to_be_bytes w) \<noteq> []"
  proof
    assume "dropWhile (\<lambda>b. b = 0) (to_be_bytes w) = []"
    with be have "unat w = 0" by simp
    with assms(2) show False by (simp add: unat_eq_zero)
  qed
  show "length (dropWhile (\<lambda>b. b = 0) (to_be_bytes w)) \<le> LENGTH('a) div 8"
    using length_dropWhile_le [of "\<lambda>b. b = 0" "to_be_bytes w"] by simp
qed

lemma value_u64_stripped: "value_u64 (dropWhile (\<lambda>b. b = 0) (to_be_bytes (v :: u64))) = Ok v"
proof (cases "v = 0")
  case True
  then have "dropWhile (\<lambda>b. b = 0) (to_be_bytes v) = []" by (simp add: to_be_bytes_def)
  then show ?thesis unfolding value_u64_def using True by (simp only: from_be_bytes_def) simp
next
  case False
  note strip = stripped_be_bytes [of v, simplified, OF False]
  then have "unat (from_be_bytes (dropWhile (\<lambda>b. b = 0) (to_be_bytes v)) :: u64) = unat v"
    by (simp add: unat_from_be_bytes)
  with strip show ?thesis by (simp add: value_u64_def word_unat_eq_iff)
qed

lemma value_u128_stripped: "value_u128 (dropWhile (\<lambda>b. b = 0) (to_be_bytes (v :: u128))) = Ok v"
proof (cases "v = 0")
  case True
  then have "dropWhile (\<lambda>b. b = 0) (to_be_bytes v) = []" by (simp add: to_be_bytes_def)
  then show ?thesis unfolding value_u128_def using True by (simp only: from_be_bytes_def) simp
next
  case False
  note strip = stripped_be_bytes [of v, simplified, OF False]
  then have "unat (from_be_bytes (dropWhile (\<lambda>b. b = 0) (to_be_bytes v)) :: u128) = unat v"
    by (simp add: unat_from_be_bytes)
  with strip show ?thesis by (simp add: value_u128_def word_unat_eq_iff)
qed

lemma read_length_long:
  assumes "55 < n" and "n < 2 ^ 64"
  defines "e \<equiv> dropWhile (\<lambda>b. b = 0) (to_be_bytes (of_nat n :: u64))"
  shows "read_length (p # e @ rest) 1 (length e) = Ok n" and "0 < length e" and "length e \<le> 8"
proof -
  have n: "unat (of_nat n :: u64) = n" using assms(2) by (simp add: unat_of_nat_small)
  have nz: "(of_nat n :: u64) \<noteq> 0"
  proof
    assume "(of_nat n :: u64) = 0"
    then have "unat (of_nat n :: u64) = 0" by simp
    with n assms(1) show False by simp
  qed
  note strip = stripped_be_bytes [of "of_nat n :: u64", simplified, OF nz]
  show len: "0 < length e" "length e \<le> 8" using strip unfolding e_def by simp_all
  then show "read_length (p # e @ rest) 1 (length e) = Ok n"
    using strip n unfolding e_def by (simp add: read_length_def unat_from_be_bytes)
qed

subsection \<open>Lemmas: the decoder inverts the encoder\<close>

lemma unat_offset: "k \<le> 55 \<Longrightarrow> unat base + k < 256 \<Longrightarrow> unat (base + of_nat k :: u8) = unat base + k"
  by (simp add: unat_word_ariths unat_of_nat_small)

lemma decode_encode_long:
  assumes "55 < length item" and "length item + 9 < 2 ^ 64"
    and base: "(is_list, b) = (False, 0xb7) \<or> (is_list, b) = (True, 0xf7)"
  shows "decode_item (encode_length (length item) sb b @ item @ rest) is_list =
    Ok (item, length (encode_length (length item) sb b @ item))"
proof -
  let ?n = "length item"
  define e where "e = dropWhile (\<lambda>b. b = 0) (to_be_bytes (of_nat ?n :: u64))"
  have "55 < ?n" "?n < 2 ^ 64" using assms by simp_all
  note e = read_length_long [OF this, folded e_def]
  have enc: "encode_length ?n sb b = (b + of_nat (length e)) # e"
    using assms(1) by (simp add: encode_length_def Let_def e_def)
  have "rlp_header ((b + of_nat (length e)) # e @ item @ rest) (b + of_nat (length e)) =
    Ok (is_list, 1 + length e, ?n)"
    using base
  proof
    assume a: "(is_list, b) = (False, 0xb7)"
    have "unat (0xb7 + of_nat (length e) :: u8) = 0xb7 + length e"
      using unat_offset [of "length e" "0xb7"] e by simp
    with a e(1) [of "0xb7 + of_nat (length e)" "item @ rest"] e(2,3) show ?thesis
      by (simp add: rlp_header_def Let_def)
  next
    assume a: "(is_list, b) = (True, 0xf7)"
    have "unat (0xf7 + of_nat (length e) :: u8) = 0xf7 + length e"
      using unat_offset [of "length e" "0xf7"] e by simp
    with a e(1) [of "0xf7 + of_nat (length e)" "item @ rest"] e(2,3) show ?thesis
      by (simp add: rlp_header_def Let_def)
  qed
  then show ?thesis using assms(2) e(3) by (simp add: decode_item_def enc)
qed

lemma decode_encode_short:
  assumes "length item \<le> 55" and base: "(is_list, b) = (False, 0x80) \<or> (is_list, b) = (True, 0xc0)"
  shows "decode_item (encode_length (length item) b lb @ item @ rest) is_list =
    Ok (item, length (encode_length (length item) b lb @ item))"
proof -
  have "rlp_header ((b + of_nat (length item)) # item @ rest) (b + of_nat (length item)) =
    Ok (is_list, 1, length item)"
    using base
  proof
    assume a: "(is_list, b) = (False, 0x80)"
    have "unat (0x80 + of_nat (length item) :: u8) = 0x80 + length item"
      using unat_offset [of "length item" "0x80"] assms(1) by simp
    with a assms(1) show ?thesis by (simp add: rlp_header_def Let_def)
  next
    assume a: "(is_list, b) = (True, 0xc0)"
    have "unat (0xc0 + of_nat (length item) :: u8) = 0xc0 + length item"
      using unat_offset [of "length item" "0xc0"] assms(1) by simp
    with a assms(1) show ?thesis by (simp add: rlp_header_def Let_def)
  qed
  then show ?thesis using assms(1) by (simp add: decode_item_def encode_length_def)
qed

lemma decode_encode_bytes:
  assumes "length item + 9 < 2 ^ 64"
  shows "decode_item (encode_bytes item @ rest) False = Ok (item, length (encode_bytes item))"
proof (cases "length item = 1 \<and> item ! 0 < 0x80")
  case True
  then obtain x where x: "item = [x]" "x < 0x80" by (cases item) auto
  then have "unat x \<le> 0x7f" by (simp add: word_less_nat_alt)
  with x show ?thesis
    by (simp add: encode_bytes_def decode_item_def rlp_header_def Let_def)
next
  case False
  then have enc: "encode_bytes item = encode_length (length item) 0x80 0xb7 @ item"
    unfolding encode_bytes_def by (rule if_not_P)
  show ?thesis
  proof (cases "length item \<le> 55")
    case True
    then show ?thesis using decode_encode_short [of item False "0x80"] by (simp add: enc)
  next
    case False
    then show ?thesis using decode_encode_long [of item False "0xb7"] assms by (simp add: enc)
  qed
qed

lemma encode_bytes_nonempty [simp]: "encode_bytes item \<noteq> []"
  by (auto simp: encode_bytes_def encode_length_def Let_def)

lemma length_encode_bytes: "length item \<le> length (encode_bytes item)"
  by (auto simp: encode_bytes_def)

lemma decode_fields_encoded:
  assumes "length (concat (map encode_bytes fs)) + 9 < 2 ^ 64"
  shows "decode_fields (concat (map encode_bytes fs)) = Ok fs"
  using assms
proof (induction fs)
  case Nil
  then show ?case by (simp add: decode_fields.simps [of "[]"])
next
  case (Cons f fs)
  let ?rest = "concat (map encode_bytes fs)"
  have IH: "decode_fields ?rest = Ok fs" using Cons by simp
  have "decode_item (encode_bytes f @ ?rest) False = Ok (f, length (encode_bytes f))"
    using Cons.prems length_encode_bytes [of f] by (intro decode_encode_bytes) simp
  then show ?case using IH
    by (simp add: decode_fields.simps [of "encode_bytes f @ ?rest"])
qed

lemma decode_list_encode_list:
  assumes "length (concat (map encode_bytes fs)) + 9 < 2 ^ 64"
  shows "decode_list (encode_list (map encode_bytes fs)) = Ok fs"
proof -
  let ?p = "concat (map encode_bytes fs)"
  have "decode_item (encode_length (length ?p) 0xc0 0xf7 @ ?p @ []) True =
    Ok (?p, length (encode_length (length ?p) 0xc0 0xf7 @ ?p))"
  proof (cases "length ?p \<le> 55")
    case True
    then show ?thesis by (intro decode_encode_short) simp_all
  next
    case False
    then show ?thesis using assms by (intro decode_encode_long) simp_all
  qed
  then show ?thesis using assms
    by (simp add: decode_list_def encode_list_def Let_def decode_fields_encoded)
qed

subsection \<open>Lemmas: transactions\<close>

text \<open>What a decoded transaction says about the bytes it came from.\<close>

lemma decode_legacy_Ok:
  assumes "decode_legacy X raw_hex chain_id = Ok tx"
  obtains raw fs v where "hex_decode X (trim_start_0x raw_hex) = Some raw" "decode_list raw = Ok fs"
    "length fs = 9" "value_u64 (fs ! 6) = Ok v" "\<not> v < 35" "(v - 35) div 2 = chain_id"
    "tx_signature tx = ''ethraw:'' @ hex_encode X raw" "starts_with (tx_from tx) ''0x''"
  using assms
  by (auto simp: decode_legacy_def result_simps Let_def starts_with_0x)

lemma decode_legacy_hex:
  assumes "hex_law X" and "hex_decode X (trim_start_0x raw_hex) = Some raw"
  shows "decode_legacy X (hex_encode X raw) chain_id = decode_legacy X raw_hex chain_id"
proof -
  have "trim_start_0x (hex_encode X raw) = hex_encode X raw"
    using hex_encode_not_0x [OF assms(1), of raw] by (simp add: trim_start_0x_id starts_with_0x)
  then have "hex_decode X (trim_start_0x (hex_encode X raw)) = Some raw"
    using hex_lawD(1) [OF assms(1)] by simp
  with assms(2) show ?thesis unfolding decode_legacy_def by simp
qed

lemma verify_embedded_Ok:
  "verify_embedded X tx chain_id = Ok () \<longleftrightarrow>
     (\<exists>raw bs fs v. strip_prefix (tx_signature tx) ''ethraw:'' = Some raw \<and> hex_decode X raw = Some bs \<and>
        decode_list bs = Ok fs \<and> length fs = 9 \<and> value_u64 (fs ! 6) = Ok v \<and> \<not> v < 35 \<and>
        decode_legacy X raw chain_id = Ok tx)"
  by (auto simp: verify_embedded_def result_simps)

lemma strip_prefix_append [simp]: "strip_prefix (p @ s) p = Some s"
  by (simp add: strip_prefix_def)

lemma decode_legacy_verifies:
  assumes "hex_law X" and dec: "decode_legacy X raw_hex chain_id = Ok tx"
  shows "verify_embedded X tx chain_id = Ok ()"
proof -
  obtain raw fs v where raw: "hex_decode X (trim_start_0x raw_hex) = Some raw" "decode_list raw = Ok fs"
    "length fs = 9" "value_u64 (fs ! 6) = Ok v" "\<not> v < 35"
    "tx_signature tx = ''ethraw:'' @ hex_encode X raw"
    using decode_legacy_Ok [OF dec] by metis
  then have "decode_legacy X (hex_encode X raw) chain_id = Ok tx"
    using decode_legacy_hex [OF assms(1)] dec by simp
  with raw hex_lawD(1) [OF assms(1)] show ?thesis
    unfolding verify_embedded_Ok by (metis strip_prefix_append)
qed

lemma verify_embedded_one_chain:
  assumes "verify_embedded X tx c = Ok ()" and "verify_embedded X tx d = Ok ()"
  shows "c = d"
proof -
  from assms obtain raw where r: "strip_prefix (tx_signature tx) ''ethraw:'' = Some raw"
    "decode_legacy X raw c = Ok tx" "decode_legacy X raw d = Ok tx"
    unfolding verify_embedded_Ok by (metis option.inject)
  obtain bs fs v where c: "hex_decode X (trim_start_0x raw) = Some bs" "decode_list bs = Ok fs"
    "value_u64 (fs ! 6) = Ok v" "(v - 35) div 2 = c"
    using decode_legacy_Ok [OF r(2)] by metis
  obtain bs' fs' v' where d: "hex_decode X (trim_start_0x raw) = Some bs'" "decode_list bs' = Ok fs'"
    "value_u64 (fs' ! 6) = Ok v'" "(v' - 35) div 2 = d"
    using decode_legacy_Ok [OF r(3)] by metis
  from c d show ?thesis by auto
qed

end
