(* ===== verification/Scheduled_Event.thy ===== *)
theory Scheduled_Event
  imports Wallet
begin

text \<open>
  Scheduled system events (\<open>src/scheduled_event.rs\<close>): the validation of an event, the locally
  approved schedule, the events that are due at a block time and the check that a block carries
  exactly those. Reading the schedule from its JSON file is input/output and not modelled.

  The lemmas characterise the due list and show that it does not depend on the order in which
  a node's configuration lists the events.
\<close>

definition MAX_CLOCK_DRIFT_SECONDS :: u64 where
  "MAX_CLOCK_DRIFT_SECONDS = 30"

datatype event_error =
    BadEventId | ExecuteAtZero | BadEventAddress | ZeroProducerReward | EmptyIncidentId
  | ZeroCompensation | ProtocolVersionZero | BootstrapCount | BootstrapDuplicate
  | MilestoneCount | MilestoneDuplicate | BadRewardAddress | RegistrationSignature signature_error
  | RecipientCount | ZeroDistribution | DuplicateEventId | ScheduleMismatch

subsection \<open>Validation of one event\<close>

definition validate_address :: "string \<Rightarrow> (unit, event_error) result" where
  "validate_address address =
     (let v = (case strip_prefix address ''0x'' of None \<Rightarrow> address | Some s \<Rightarrow> s)
      in ensure (length v = 40 \<and> list_all is_ascii_hexdigit v) BadEventAddress)"

definition validate_reward_address :: "string \<Rightarrow> (unit, event_error) result" where
  "validate_reward_address address =
     ensure (length address = 64 \<and> list_all is_ascii_hexdigit address) BadRewardAddress"

definition event_id_ok :: "string \<Rightarrow> bool" where
  "event_id_ok i \<longleftrightarrow> i \<noteq> [] \<and> length i \<le> 128 \<and>
     list_all (\<lambda>c. is_ascii_alphanumeric c \<or> c = CHR ''-'' \<or> c = CHR ''_'' \<or> c = CHR ''.'') i"

text \<open>One round of the loop over the four validator registrations, with the two hash sets.\<close>

definition check_bootstrap ::
  "externals \<Rightarrow> validator_registration \<Rightarrow> string fset \<times> string fset
     \<Rightarrow> (string fset \<times> string fset, event_error) result" where
  "check_bootstrap X r = (\<lambda>(peers, addresses).
     and_then (ensure (vr_peer_id r |\<notin>| peers \<and> vr_validator_id r |\<notin>| addresses)
                 BootstrapDuplicate) (\<lambda>_.
     and_then (map_err RegistrationSignature
       (verify_signature X (vr_validator_id r)
          (validator_registration_bytes (vr_validator_id r) (vr_peer_id r))
          (vr_signature_hex r))) (\<lambda>_.
     Ok (finsert (vr_peer_id r) peers, finsert (vr_validator_id r) addresses))))"

definition check_milestone ::
  "externals \<Rightarrow> node_reward_registration \<Rightarrow> string fset \<times> string fset
     \<Rightarrow> (string fset \<times> string fset, event_error) result" where
  "check_milestone X r = (\<lambda>(peers, addresses).
     and_then (validate_reward_address (nr_reward_address r)) (\<lambda>_.
     and_then (map_err RegistrationSignature (verify_node_identity X r)) (\<lambda>_.
     and_then (ensure (nr_peer_id r |\<notin>| peers \<and> nr_reward_address r |\<notin>| addresses)
                 MilestoneDuplicate) (\<lambda>_.
     and_then (map_err RegistrationSignature
       (verify_signature X (registration_signer r)
          (node_registration_bytes (nr_reward_address r) (nr_peer_id r))
          (nr_signature_hex r))) (\<lambda>_.
     Ok (finsert (nr_peer_id r) peers, finsert (nr_reward_address r) addresses))))))"

definition check_payment :: "event_payment \<Rightarrow> unit \<Rightarrow> (unit, event_error) result" where
  "check_payment p _ =
     and_then (validate_address (pay_address p)) (\<lambda>_. ensure (pay_amount p \<noteq> 0) ZeroDistribution)"

fun validate_action :: "externals \<Rightarrow> scheduled_event_action \<Rightarrow> (unit, event_error) result" where
  "validate_action X (TreasuryDistribution payments) =
     and_then (ensure (\<not> (payments = [] \<or> length payments > 10000)) RecipientCount) (\<lambda>_.
     for_each check_payment payments ())"
| "validate_action X (PeriodicProducerReward producer amount) =
     and_then (validate_address producer) (\<lambda>_. ensure (amount \<noteq> 0) ZeroProducerReward)"
| "validate_action X (IncidentCompensation incident_id victim amount) =
     and_then (ensure (\<not> is_blank incident_id) EmptyIncidentId) (\<lambda>_.
     and_then (validate_address victim) (\<lambda>_. ensure (amount \<noteq> 0) ZeroCompensation))"
| "validate_action X (ProtocolCheckpoint protocol_version) =
     ensure (protocol_version \<noteq> 0) ProtocolVersionZero"
| "validate_action X (BootstrapValidatorReward registrations amount) =
     and_then (ensure (length registrations = 4 \<and> amount \<noteq> 0) BootstrapCount) (\<lambda>_.
     and_then (for_each (check_bootstrap X) registrations ({||}, {||})) (\<lambda>_. Ok ()))"
| "validate_action X (NodeMilestoneReward registrations amount) =
     and_then (ensure (length registrations = 100 \<and> amount \<noteq> 0) MilestoneCount) (\<lambda>_.
     and_then (for_each (check_milestone X) registrations ({||}, {||})) (\<lambda>_. Ok ()))"

definition event_validate :: "externals \<Rightarrow> scheduled_event \<Rightarrow> (unit, event_error) result" where
  "event_validate X ev =
     and_then (ensure (event_id_ok (ev_id ev)) BadEventId) (\<lambda>_.
     and_then (ensure (ev_execute_at ev \<noteq> 0) ExecuteAtZero) (\<lambda>_.
     validate_action X (ev_action ev)))"

subsection \<open>The schedule\<close>

type_synonym event_schedule = "scheduled_event list"

definition check_scheduled :: "externals \<Rightarrow> scheduled_event \<Rightarrow> string fset \<Rightarrow> (string fset, event_error) result" where
  "check_scheduled X ev ids =
     and_then (event_validate X ev) (\<lambda>_.
     and_then (ensure (ev_id ev |\<notin>| ids) DuplicateEventId) (\<lambda>_.
     Ok (finsert (ev_id ev) ids)))"

definition schedule_validate :: "externals \<Rightarrow> event_schedule \<Rightarrow> (unit, event_error) result" where
  "schedule_validate X events =
     and_then (for_each (check_scheduled X) events {||}) (\<lambda>_. Ok ())"

definition due_key :: "scheduled_event \<Rightarrow> u64 \<times> string" where
  "due_key ev = (ev_execute_at ev, ev_id ev)"

definition due :: "event_schedule \<Rightarrow> u64 \<Rightarrow> string fset \<Rightarrow> scheduled_event list" where
  "due events timestamp executed =
     sort_key due_key
       (filter (\<lambda>ev. ev_execute_at ev \<le> timestamp \<and> ev_id ev |\<notin>| executed) events)"

definition validate_block_events ::
  "event_schedule \<Rightarrow> u64 \<Rightarrow> scheduled_event list \<Rightarrow> string fset \<Rightarrow> (unit, event_error) result" where
  "validate_block_events schedule timestamp events executed =
     ensure (events = due schedule timestamp executed) ScheduleMismatch"

definition next_pending_at :: "event_schedule \<Rightarrow> string fset \<Rightarrow> u64 option" where
  "next_pending_at events executed =
     (case map ev_execute_at (filter (\<lambda>ev. ev_id ev |\<notin>| executed) events) of
        [] \<Rightarrow> None
      | t # ts \<Rightarrow> Some (fold min ts t))"

subsection \<open>Lemmas\<close>

lemma check_scheduled_Ok:
  "check_scheduled X ev ids = Ok ids' \<longleftrightarrow>
     event_validate X ev = Ok () \<and> ev_id ev |\<notin>| ids \<and> ids' = finsert (ev_id ev) ids"
  by (auto simp: check_scheduled_def result_simps)

lemma check_scheduled_loop:
  assumes "for_each (check_scheduled X) events seen = Ok ids"
  shows "distinct (map ev_id events) \<and> list_all (\<lambda>ev. event_validate X ev = Ok () \<and> ev_id ev |\<notin>| seen) events"
  using assms
proof (induction events arbitrary: seen)
  case (Cons ev events)
  from Cons.prems have ev: "event_validate X ev = Ok ()" "ev_id ev |\<notin>| seen"
    and loop: "for_each (check_scheduled X) events (finsert (ev_id ev) seen) = Ok ids"
    by (auto simp: result_simps check_scheduled_Ok)
  note IH = Cons.IH [OF loop]
  then have "ev_id ev \<notin> ev_id ` set events" by (auto simp: list_all_iff)
  with ev IH show ?case by (simp add: list_all_iff)
qed simp

lemma schedule_validate_Ok:
  assumes "schedule_validate X events = Ok ()"
  shows "distinct (map ev_id events)" and "ev \<in> set events \<Longrightarrow> event_validate X ev = Ok ()"
  using assms check_scheduled_loop [of X events "{||}"]
  by (auto simp: schedule_validate_def result_simps list_all_iff)

lemma mset_filter_eq: "mset xs = mset ys \<Longrightarrow> mset (filter P xs) = mset (filter P ys)"
  by (simp add: mset_filter)

lemma due_key_inj: "distinct (map ev_id events) \<Longrightarrow> inj_on due_key (set (filter P events))"
  by (auto simp: inj_on_def due_key_def distinct_map)

lemma set_due: "set (due events t ex) = {ev \<in> set events. ev_execute_at ev \<le> t \<and> ev_id ev |\<notin>| ex}"
  by (auto simp: due_def)

lemma due_order_independent:
  assumes "mset events = mset events'" and "distinct (map ev_id events)"
  shows "due events t ex = due events' t ex"
  unfolding due_def
  by (rule sort_key_eq_sort_key [OF mset_filter_eq [OF assms(1)] due_key_inj [OF assms(2)]])

lemma fold_min_word: "fold min ts t \<in> set (t # ts) \<and> (\<forall>u \<in> set (t # ts). fold min ts t \<le> u)" for t :: u64
proof (induction ts arbitrary: t)
  case (Cons u ts)
  have "fold min ts (min u t) \<in> set (min u t # ts)" and le: "\<forall>v \<in> set (min u t # ts). fold min ts (min u t) \<le> v"
    using Cons [of "min u t"] by auto
  then have "fold min ts (min u t) \<in> set (t # u # ts)" by (auto simp: min_def split: if_splits)
  moreover have "fold min ts (min u t) \<le> u" "fold min ts (min u t) \<le> t"
    using le by (auto intro: order.trans)
  ultimately show ?case using le by simp
qed simp

end
