(* ===== verification/Chain.thy ===== *)
theory Chain
  imports Genesis Raw_Transaction Scheduled_Event
begin

text \<open>
  The ledger (\<open>src/chain.rs\<close>): the block chain with its balances, nonces and executed events,
  the execution of transactions and system events, the validation and application of a block,
  the replay of a stored chain and the deterministic state hash. Stateful methods return the new
  chain together with their result; \<open>HashMap\<close> is a finite map and \<open>HashSet\<close> a finite set.
  The clock of \<open>add_block\<close> is an argument.

  The lemmas show that execution conserves the coin supply, counts nonces, executes every event
  at most once, and that a chain grown by accepted blocks replays to the same state.
\<close>

definition FOUNDATION_FEE_ADDRESS :: address where
  "FOUNDATION_FEE_ADDRESS = ''0x356456ff1216b57a6f8891b195b42d296789b67d''"

definition FOUNDATION_FEE_BPS :: u128 where
  "FOUNDATION_FEE_BPS = 2000"

definition FEE_BPS_DENOMINATOR :: u128 where
  "FEE_BPS_DENOMINATOR = 10000"

type_synonym balances = "(address, u128) fmap"
type_synonym nonces = "(address, u64) fmap"

record blockchain =
  chain_id :: u64
  genesis_commitment :: string
  blocks :: "block list"
  initial_balances :: balances
  balances :: balances
  next_nonces :: nonces
  executed_events :: "string fset"

datatype chain_error =
    NoGenesisBlock | EmptyBlock | NotNextBlock | BadBlockHash
  | TxSignature signature_error | TxRaw raw_error | ZeroAmount | NonceMismatch u64 u64
  | TotalOverflow | InsufficientBalance | ReceiverOverflow | FoundationFeeOverflow
  | ProducerOverflow | FoundationOverflow
  | BadEvent event_error | EventTooEarly string | EventAlreadyExecuted string
  | FoundationInsufficient | EventReceiverOverflow
  | GenesisMismatch | BlockTampered nat | BlockLinkBroken nat
  | CheckpointHashLength | BadGenesis genesis_error

subsection \<open>Construction\<close>

definition normalize_address :: "string \<Rightarrow> string" where
  "normalize_address address =
     (if starts_with address ''0x'' then ''0x'' @ to_ascii_lowercase (trim_start_0x address)
      else address)"

definition with_chain_id :: "externals \<Rightarrow> u64 \<Rightarrow> (address \<times> u128) list \<Rightarrow> blockchain" where
  "with_chain_id X cid initial =
     (let initial_map = collect_map initial in
      \<lparr>chain_id = cid, genesis_commitment = blk_hash (block_genesis X),
       blocks = [block_genesis X], initial_balances = initial_map, balances = initial_map,
       next_nonces = fmempty, executed_events = {||}\<rparr>)"

definition chain_new :: "externals \<Rightarrow> (address \<times> u128) list \<Rightarrow> blockchain" where
  "chain_new X initial = with_chain_id X 21004 initial"

definition from_genesis ::
  "(genesis_config \<Rightarrow> bytes option) \<Rightarrow> externals \<Rightarrow> genesis_config \<Rightarrow> (blockchain, chain_error) result" where
  "from_genesis json_genesis X g =
     and_then (map_err BadGenesis (genesis_validate X g)) (\<lambda>_.
     let initial = map (\<lambda>(a, b). (normalize_address a, b)) (gen_initial_balances g);
         c = with_chain_id X (gen_chain_id g) initial in
     and_then (map_err BadGenesis (genesis_hash json_genesis X g)) (\<lambda>commitment.
     Ok (c\<lparr>genesis_commitment := commitment\<rparr>)))"

definition from_snapshot_with_events ::
  "u64 \<Rightarrow> string \<Rightarrow> u64 \<Rightarrow> string \<Rightarrow> balances \<Rightarrow> nonces \<Rightarrow> string fset \<Rightarrow> (blockchain, chain_error) result" where
  "from_snapshot_with_events cid commitment height block_hash bals nons executed =
     (if length (trim_start_0x block_hash) \<noteq> 64 then Err CheckpointHashLength
      else
        let anchor = \<lparr>blk_height = height, blk_previous_hash = [], blk_timestamp = 0,
              blk_producer = ''checkpoint'', blk_transactions = [], blk_system_events = [],
              blk_hash = trim_start_0x block_hash\<rparr>
        in Ok \<lparr>chain_id = cid, genesis_commitment = commitment, blocks = [anchor],
              initial_balances = bals, balances = bals, next_nonces = nons,
              executed_events = executed\<rparr>)"

definition from_snapshot ::
  "u64 \<Rightarrow> string \<Rightarrow> u64 \<Rightarrow> string \<Rightarrow> balances \<Rightarrow> nonces \<Rightarrow> (blockchain, chain_error) result" where
  "from_snapshot cid commitment height block_hash bals nons =
     from_snapshot_with_events cid commitment height block_hash bals nons {||}"

subsection \<open>Queries\<close>

definition balance_of :: "blockchain \<Rightarrow> address \<Rightarrow> u128" where
  "balance_of c a = get0 (balances c) a"

definition next_nonce :: "blockchain \<Rightarrow> address \<Rightarrow> u64" where
  "next_nonce c a = get0 (next_nonces c) a"

definition tip_height :: "blockchain \<Rightarrow> u64" where
  "tip_height c = (if blocks c = [] then 0 else blk_height (last (blocks c)))"

definition tip_hash :: "blockchain \<Rightarrow> string" where
  "tip_hash c = (if blocks c = [] then [] else blk_hash (last (blocks c)))"

definition block_by_height :: "blockchain \<Rightarrow> u64 \<Rightarrow> block option" where
  "block_by_height c h = find (\<lambda>b. blk_height b = h) (blocks c)"

definition block_by_hash :: "blockchain \<Rightarrow> string \<Rightarrow> block option" where
  "block_by_hash c h = find (\<lambda>b. blk_hash b = trim_start_0x h) (blocks c)"

fun find_indexed :: "('a \<Rightarrow> bool) \<Rightarrow> nat \<Rightarrow> 'a list \<Rightarrow> (nat \<times> 'a) option" where
  "find_indexed P i [] = None"
| "find_indexed P i (x # xs) = (if P x then Some (i, x) else find_indexed P (Suc i) xs)"

fun find_transaction ::
  "externals \<Rightarrow> string \<Rightarrow> block list \<Rightarrow> (block \<times> nat \<times> transaction) option" where
  "find_transaction X h [] = None"
| "find_transaction X h (b # bs) =
     (case find_indexed (\<lambda>tx. tx_id X tx = h) 0 (blk_transactions b) of
        Some (i, tx) \<Rightarrow> Some (b, i, tx)
      | None \<Rightarrow> find_transaction X h bs)"

definition transaction_by_hash ::
  "externals \<Rightarrow> blockchain \<Rightarrow> string \<Rightarrow> (block \<times> nat \<times> transaction) option" where
  "transaction_by_hash X c h = find_transaction X (trim_start_0x h) (blocks c)"

subsection \<open>Execution\<close>

definition credit_balance ::
  "balances \<Rightarrow> address \<Rightarrow> u128 \<Rightarrow> chain_error \<Rightarrow> (balances, chain_error) result" where
  "credit_balance bals a amount overflow =
     (if amount = 0 then Ok bals
      else and_then (ok_or (checked_add (get0 bals a) amount) overflow) (\<lambda>v.
        Ok (fmupd a v bals)))"

definition apply_transaction ::
  "externals \<Rightarrow> u64 \<Rightarrow> address \<Rightarrow> transaction \<Rightarrow> balances \<times> nonces
     \<Rightarrow> (balances \<times> nonces, chain_error) result" where
  "apply_transaction X cid producer tx = (\<lambda>(bals, nons).
     and_then (if starts_with (tx_signature tx) ''ethraw:''
               then map_err TxRaw (verify_embedded X tx cid)
               else map_err TxSignature (verify_transaction X tx)) (\<lambda>_.
     and_then (ensure (tx_amount tx \<noteq> 0) ZeroAmount) (\<lambda>_.
     let expected_nonce = get0 nons (tx_from tx) in
     and_then (ensure (tx_nonce tx = expected_nonce) (NonceMismatch expected_nonce (tx_nonce tx))) (\<lambda>_.
     and_then (ok_or (checked_add (tx_amount tx) (tx_fee tx)) TotalOverflow) (\<lambda>total.
     let sender = get0 bals (tx_from tx) in
     and_then (ensure (\<not> sender < total) InsufficientBalance) (\<lambda>_.
     let bals1 = fmupd (tx_from tx) (sender - total) bals;
         receiver = get0 bals1 (tx_to tx) in
     and_then (ok_or (checked_add receiver (tx_amount tx)) ReceiverOverflow) (\<lambda>received.
     let bals2 = fmupd (tx_to tx) received bals1 in
     and_then (ok_or (checked_mul (tx_fee tx) FOUNDATION_FEE_BPS) FoundationFeeOverflow) (\<lambda>scaled.
     let foundation_fee = scaled div FEE_BPS_DENOMINATOR;
         producer_fee = tx_fee tx - foundation_fee in
     and_then (credit_balance bals2 producer producer_fee ProducerOverflow) (\<lambda>bals3.
     and_then (credit_balance bals3 FOUNDATION_FEE_ADDRESS foundation_fee FoundationOverflow) (\<lambda>bals4.
     Ok (bals4, fmupd (tx_from tx) (expected_nonce + 1) nons)))))))))))"

definition apply_transactions ::
  "externals \<Rightarrow> u64 \<Rightarrow> transaction list \<Rightarrow> address \<Rightarrow> balances \<times> nonces
     \<Rightarrow> (balances \<times> nonces, chain_error) result" where
  "apply_transactions X cid transactions producer s =
     for_each (apply_transaction X cid producer) transactions s"

definition transfer_from_foundation ::
  "address \<Rightarrow> u128 \<Rightarrow> balances \<Rightarrow> (balances, chain_error) result" where
  "transfer_from_foundation receiver amount bals =
     (let foundation = get0 bals FOUNDATION_FEE_ADDRESS in
      if foundation < amount then Err FoundationInsufficient
      else credit_balance (fmupd FOUNDATION_FEE_ADDRESS (foundation - amount) bals)
             (normalize_address receiver) amount EventReceiverOverflow)"

fun apply_event_action :: "scheduled_event_action \<Rightarrow> balances \<Rightarrow> (balances, chain_error) result" where
  "apply_event_action (TreasuryDistribution recipients) bals =
     for_each (\<lambda>p. transfer_from_foundation (pay_address p) (pay_amount p)) recipients bals"
| "apply_event_action (PeriodicProducerReward producer amount) bals =
     transfer_from_foundation producer amount bals"
| "apply_event_action (IncidentCompensation _ victim amount) bals =
     transfer_from_foundation victim amount bals"
| "apply_event_action (ProtocolCheckpoint _) bals = Ok bals"
| "apply_event_action (BootstrapValidatorReward registrations amount) bals =
     for_each (\<lambda>r. transfer_from_foundation (vr_validator_id r) amount) registrations bals"
| "apply_event_action (NodeMilestoneReward registrations amount) bals =
     for_each (\<lambda>r. transfer_from_foundation (nr_reward_address r) amount) registrations bals"

definition apply_system_event ::
  "externals \<Rightarrow> u64 \<Rightarrow> scheduled_event \<Rightarrow> balances \<times> string fset
     \<Rightarrow> (balances \<times> string fset, chain_error) result" where
  "apply_system_event X block_timestamp ev = (\<lambda>(bals, executed).
     and_then (map_err BadEvent (event_validate X ev)) (\<lambda>_.
     and_then (ensure (\<not> ev_execute_at ev > block_timestamp) (EventTooEarly (ev_id ev))) (\<lambda>_.
     and_then (ensure (ev_id ev |\<notin>| executed) (EventAlreadyExecuted (ev_id ev))) (\<lambda>_.
     and_then (apply_event_action (ev_action ev) bals) (\<lambda>bals'.
     Ok (bals', finsert (ev_id ev) executed))))))"

definition apply_system_events ::
  "externals \<Rightarrow> scheduled_event list \<Rightarrow> u64 \<Rightarrow> balances \<times> string fset
     \<Rightarrow> (balances \<times> string fset, chain_error) result" where
  "apply_system_events X events block_timestamp s =
     for_each (apply_system_event X block_timestamp) events s"

text \<open>Transactions first, then system events, on copies of the state.\<close>

definition execute_block ::
  "externals \<Rightarrow> u64 \<Rightarrow> block \<Rightarrow> balances \<times> nonces \<times> string fset
     \<Rightarrow> (balances \<times> nonces \<times> string fset, chain_error) result" where
  "execute_block X cid b = (\<lambda>(bals, nons, executed).
     and_then (apply_transactions X cid (blk_transactions b) (blk_producer b) (bals, nons))
       (\<lambda>(bals', nons').
     and_then (apply_system_events X (blk_system_events b) (blk_timestamp b) (bals', executed))
       (\<lambda>(bals'', executed'). Ok (bals'', nons', executed'))))"

definition follows :: "block \<Rightarrow> block \<Rightarrow> bool" where
  "follows previous b \<longleftrightarrow>
     blk_height b = blk_height previous + 1 \<and> blk_previous_hash b = blk_hash previous"

definition chain_state :: "blockchain \<Rightarrow> balances \<times> nonces \<times> string fset" where
  "chain_state c = (balances c, next_nonces c, executed_events c)"

definition with_state :: "blockchain \<Rightarrow> balances \<times> nonces \<times> string fset \<Rightarrow> blockchain" where
  "with_state c = (\<lambda>(bals, nons, executed).
     c\<lparr>balances := bals, next_nonces := nons, executed_events := executed\<rparr>)"

definition apply_block ::
  "externals \<Rightarrow> blockchain \<Rightarrow> block \<Rightarrow> blockchain \<times> (block, chain_error) result" where
  "apply_block X c b =
     (if blocks c = [] then (c, Err NoGenesisBlock)
      else if \<not> follows (last (blocks c)) b then (c, Err NotNextBlock)
      else if blk_hash b \<noteq> calculate_hash X b then (c, Err BadBlockHash)
      else case execute_block X (chain_id c) b (chain_state c) of
        Inl e \<Rightarrow> (c, Err e)
      | Inr s \<Rightarrow> (with_state (c\<lparr>blocks := blocks c @ [b]\<rparr>) s, Ok b))"

definition add_block ::
  "externals \<Rightarrow> u64 \<Rightarrow> blockchain \<Rightarrow> transaction list \<Rightarrow> address
     \<Rightarrow> blockchain \<times> (block, chain_error) result" where
  "add_block X now c transactions producer =
     (if transactions = [] then (c, Err EmptyBlock)
      else if blocks c = [] then (c, Err NoGenesisBlock)
      else
        let previous = last (blocks c) in
        apply_block X c
          (block_new X (blk_height previous + 1) (blk_hash previous) now producer transactions))"

fun rebuild_loop ::
  "externals \<Rightarrow> u64 \<Rightarrow> nat \<Rightarrow> block \<Rightarrow> block list \<Rightarrow> balances \<times> nonces \<times> string fset
     \<Rightarrow> (balances \<times> nonces \<times> string fset, chain_error) result" where
  "rebuild_loop X cid i previous [] s = Ok s"
| "rebuild_loop X cid i previous (b # bs) s =
     and_then (ensure (blk_hash b = calculate_hash X b) (BlockTampered i)) (\<lambda>_.
     and_then (ensure (follows previous b) (BlockLinkBroken i)) (\<lambda>_.
     and_then (execute_block X cid b s) (rebuild_loop X cid (Suc i) b bs)))"

definition verify_and_rebuild ::
  "externals \<Rightarrow> blockchain \<Rightarrow> blockchain \<times> (unit, chain_error) result" where
  "verify_and_rebuild X c =
     (case blocks c of
        [] \<Rightarrow> (c, Err GenesisMismatch)
      | b # bs \<Rightarrow>
        if b \<noteq> block_genesis X then (c, Err GenesisMismatch)
        else if blk_hash b \<noteq> calculate_hash X b then (c, Err (BlockTampered 0))
        else case rebuild_loop X (chain_id c) 1 b bs (initial_balances c, fmempty, {||}) of
          Inl e \<Rightarrow> (c, Err e)
        | Inr s \<Rightarrow> (with_state c s, Ok ()))"

definition state_preimage :: "blockchain \<Rightarrow> bytes" where
  "state_preimage c =
     concat (map (\<lambda>(a, bal). str_bytes a @ to_be_bytes bal @ to_be_bytes (next_nonce c a))
               (fm_entries (balances c))) @
     concat (map (\<lambda>i. str_bytes ''event:'' @ str_bytes i) (sorted_list_of_fset (executed_events c)))"

definition state_hash :: "externals \<Rightarrow> blockchain \<Rightarrow> string" where
  "state_hash X c = hex_encode X (sha256 X (state_preimage c))"

subsection \<open>Chains that the code can reach\<close>

text \<open>
  A chain starts at genesis, with any commitment (\<open>from_genesis\<close> replaces it), and grows by calls
  of \<open>apply_block\<close>, successful or not.
\<close>

inductive grown :: "externals \<Rightarrow> blockchain \<Rightarrow> bool" for X where
  genesis: "grown X ((with_chain_id X cid initial)\<lparr>genesis_commitment := g\<rparr>)"
| block: "grown X c \<Longrightarrow> apply_block X c b = (c', r) \<Longrightarrow> grown X c'"

definition all_transactions :: "blockchain \<Rightarrow> transaction list" where
  "all_transactions c = concat (map blk_transactions (blocks c))"

definition all_events :: "blockchain \<Rightarrow> scheduled_event list" where
  "all_events c = concat (map blk_system_events (blocks c))"

subsection \<open>Lemmas: conservation\<close>

lemma credit_balance_total:
  "credit_balance bals a amount e = Ok bals' \<Longrightarrow> fm_total bals' = fm_total bals + unat amount"
proof (auto simp: credit_balance_def result_simps int_simps split: if_splits)
  fix v :: u128
  assume "unat v = unat (get0 bals a) + unat amount"
  then show "fm_total (fmupd a v bals) = fm_total bals + unat amount"
    using fm_total_fmupd [of a v bals] by simp
qed

lemma credit_balance_get0:
  "credit_balance bals a amount e = Ok bals' \<Longrightarrow>
     unat (get0 bals' k) = unat (get0 bals k) + (if k = a then unat amount else 0)"
  by (auto simp: credit_balance_def result_simps int_simps split: if_splits)

lemma fee_split:
  assumes "checked_mul fee FOUNDATION_FEE_BPS = Some scaled"
  shows "unat (scaled div FEE_BPS_DENOMINATOR) = unat fee * 2000 div 10000"
    and "unat (fee - scaled div FEE_BPS_DENOMINATOR) = unat fee - unat fee * 2000 div 10000"
    and "unat fee * 2000 div 10000 \<le> unat fee"
proof -
  show f: "unat (scaled div FEE_BPS_DENOMINATOR) = unat fee * 2000 div 10000"
    using assms by (simp add: int_simps unat_div FOUNDATION_FEE_BPS_def FEE_BPS_DENOMINATOR_def)
  show le: "unat fee * 2000 div 10000 \<le> unat fee" by simp
  with f show "unat (fee - scaled div FEE_BPS_DENOMINATOR) = unat fee - unat fee * 2000 div 10000"
    by (simp add: unat_sub_le word_le_nat_alt)
qed

text \<open>All that a successfully applied transaction did, step by step.\<close>

lemma apply_transaction_Ok:
  assumes "apply_transaction X cid producer tx (bals, nons) = Ok (bals', nons')"
  obtains total received scaled bals3 where
    "if starts_with (tx_signature tx) ''ethraw:'' then verify_embedded X tx cid = Ok ()
     else verify_transaction X tx = Ok ()"
    "0 < tx_amount tx" "tx_nonce tx = get0 nons (tx_from tx)"
    "unat total = unat (tx_amount tx) + unat (tx_fee tx)" "total \<le> get0 bals (tx_from tx)"
    "unat received =
       unat (get0 (fmupd (tx_from tx) (get0 bals (tx_from tx) - total) bals) (tx_to tx)) + unat (tx_amount tx)"
    "checked_mul (tx_fee tx) FOUNDATION_FEE_BPS = Some scaled"
    "credit_balance (fmupd (tx_to tx) received (fmupd (tx_from tx) (get0 bals (tx_from tx) - total) bals))
       producer (tx_fee tx - scaled div FEE_BPS_DENOMINATOR) ProducerOverflow = Ok bals3"
    "credit_balance bals3 FOUNDATION_FEE_ADDRESS (scaled div FEE_BPS_DENOMINATOR) FoundationOverflow = Ok bals'"
    "nons' = fmupd (tx_from tx) (get0 nons (tx_from tx) + 1) nons"
proof -
  from assms obtain total received scaled bals3 u where *:
    "(if starts_with (tx_signature tx) ''ethraw:'' then map_err TxRaw (verify_embedded X tx cid)
      else map_err TxSignature (verify_transaction X tx)) = Ok u"
    "tx_amount tx \<noteq> 0" "tx_nonce tx = get0 nons (tx_from tx)"
    "checked_add (tx_amount tx) (tx_fee tx) = Some total" "\<not> get0 bals (tx_from tx) < total"
    "checked_add (get0 (fmupd (tx_from tx) (get0 bals (tx_from tx) - total) bals) (tx_to tx)) (tx_amount tx)
       = Some received"
    "checked_mul (tx_fee tx) FOUNDATION_FEE_BPS = Some scaled"
    "credit_balance (fmupd (tx_to tx) received (fmupd (tx_from tx) (get0 bals (tx_from tx) - total) bals))
       producer (tx_fee tx - scaled div FEE_BPS_DENOMINATOR) ProducerOverflow = Ok bals3"
    "credit_balance bals3 FOUNDATION_FEE_ADDRESS (scaled div FEE_BPS_DENOMINATOR) FoundationOverflow = Ok bals'"
    "nons' = fmupd (tx_from tx) (get0 nons (tx_from tx) + 1) nons"
    unfolding apply_transaction_def
    by (simp add: result_simps Let_def del: get0_fmupd) metis
  show ?thesis
    by (rule that [of total received scaled bals3])
      (use * in \<open>auto simp: map_err_Ok checked_add_Some word_neq_0_conv not_less simp del: get0_fmupd split: if_splits\<close>)
qed

lemma apply_transaction_total:
  assumes "apply_transaction X cid producer tx (bals, nons) = Ok (bals', nons')"
  shows "fm_total bals' = fm_total bals"
proof -
  let ?from = "tx_from tx" and ?fee = "unat (tx_fee tx)"
  obtain total received scaled bals3 where *:
    "unat total = unat (tx_amount tx) + ?fee" "total \<le> get0 bals ?from"
    "unat received = unat (get0 (fmupd ?from (get0 bals ?from - total) bals) (tx_to tx)) + unat (tx_amount tx)"
    "checked_mul (tx_fee tx) FOUNDATION_FEE_BPS = Some scaled"
    "credit_balance (fmupd (tx_to tx) received (fmupd ?from (get0 bals ?from - total) bals))
       producer (tx_fee tx - scaled div FEE_BPS_DENOMINATOR) ProducerOverflow = Ok bals3"
    "credit_balance bals3 FOUNDATION_FEE_ADDRESS (scaled div FEE_BPS_DENOMINATOR) FoundationOverflow = Ok bals'"
    using apply_transaction_Ok [OF assms] by metis
  define bals1 where "bals1 = fmupd ?from (get0 bals ?from - total) bals"
  define bals2 where "bals2 = fmupd (tx_to tx) received bals1"
  have "fm_total bals1 + unat total = fm_total bals"
    using fm_total_fmupd [of ?from "get0 bals ?from - total" bals] *(2)
    by (simp add: bals1_def unat_sub_le word_le_nat_alt)
  moreover have "fm_total bals2 = fm_total bals1 + unat (tx_amount tx)"
    using fm_total_fmupd [of "tx_to tx" received bals1] *(3) by (simp add: bals2_def bals1_def)
  moreover have "fm_total bals3 = fm_total bals2 + (?fee - ?fee * 2000 div 10000)"
    using credit_balance_total [OF *(5)] fee_split [OF *(4)] by (simp add: bals2_def bals1_def)
  moreover have "fm_total bals' = fm_total bals3 + ?fee * 2000 div 10000"
    using credit_balance_total [OF *(6)] fee_split [OF *(4)] by simp
  ultimately show ?thesis using *(1) fee_split(3) [OF *(4)] by simp
qed

lemma transfer_from_foundation_total:
  assumes "transfer_from_foundation receiver amount bals = Ok bals'"
  shows "fm_total bals' = fm_total bals"
proof -
  let ?f = "get0 bals FOUNDATION_FEE_ADDRESS"
  let ?b = "fmupd FOUNDATION_FEE_ADDRESS (?f - amount) bals"
  from assms have le: "amount \<le> ?f"
    and cr: "credit_balance ?b (normalize_address receiver) amount EventReceiverOverflow = Ok bals'"
    by (auto simp: transfer_from_foundation_def Let_def not_less split: if_splits)
  have "fm_total ?b + unat amount = fm_total bals"
    using fm_total_fmupd [of FOUNDATION_FEE_ADDRESS "?f - amount" bals] le
    by (simp add: unat_sub_le word_le_nat_alt)
  with credit_balance_total [OF cr] show ?thesis by simp
qed

interpretation tx_step: conserving "\<lambda>(bals, nons). fm_total bals" "apply_transaction X cid producer"
  for X cid producer
  by unfold_locales (auto dest: apply_transaction_total)

interpretation payment: conserving fm_total "\<lambda>p. transfer_from_foundation (f p) (g p)" for f g
  by unfold_locales (rule transfer_from_foundation_total)

lemma apply_event_action_total: "apply_event_action act bals = Ok bals' \<Longrightarrow> fm_total bals' = fm_total bals"
  by (cases act) (auto dest: transfer_from_foundation_total payment.loop_total)

interpretation event_step: conserving "\<lambda>(bals, executed). fm_total bals" "apply_system_event X t"
  for X t
  by unfold_locales (auto simp: apply_system_event_def result_simps dest: apply_event_action_total)

lemma execute_block_total:
  assumes "execute_block X cid b (bals, nons, ex) = Ok (bals', nons', ex')"
  shows "fm_total bals' = fm_total bals"
proof -
  from assms obtain mid n where
    "for_each (apply_transaction X cid (blk_producer b)) (blk_transactions b) (bals, nons) = Ok (mid, n)"
    "for_each (apply_system_event X (blk_timestamp b)) (blk_system_events b) (mid, ex) = Ok (bals', ex')"
    by (auto simp: execute_block_def apply_transactions_def apply_system_events_def result_simps)
  from tx_step.loop_total [OF this(1)] event_step.loop_total [OF this(2)] show ?thesis by simp
qed

subsection \<open>Lemmas: nonces\<close>

lemma apply_transaction_nonce:
  assumes "apply_transaction X cid producer tx (bals, nons) = Ok (bals', nons')"
  shows "tx_nonce tx = get0 nons (tx_from tx)"
    and "get0 nons' a = get0 nons a + (if a = tx_from tx then 1 else 0)"
proof -
  obtain "tx_nonce tx = get0 nons (tx_from tx)" "nons' = fmupd (tx_from tx) (get0 nons (tx_from tx) + 1) nons"
    using apply_transaction_Ok [OF assms] by blast
  then show "tx_nonce tx = get0 nons (tx_from tx)"
    and "get0 nons' a = get0 nons a + (if a = tx_from tx then 1 else 0)"
    by simp_all
qed

text \<open>The nonces of one sender's transactions are the consecutive numbers from its counter on.\<close>

lemma apply_transactions_nonces:
  assumes "for_each (apply_transaction X cid producer) txs (bals, nons) = Ok (bals', nons')"
    and "get0 nons a = of_nat k"
  defines "own \<equiv> filter (\<lambda>tx. tx_from tx = a) txs"
  shows "map tx_nonce own = map of_nat [k..<k + length own] \<and> get0 nons' a = of_nat (k + length own)"
  using assms(1,2) unfolding own_def
proof (induction txs arbitrary: bals nons k)
  case (Cons tx txs)
  from Cons.prems(1) obtain b n where step: "apply_transaction X cid producer tx (bals, nons) = Ok (b, n)"
    and rest: "for_each (apply_transaction X cid producer) txs (b, n) = Ok (bals', nons')"
    by (auto simp: result_simps)
  note nonce = apply_transaction_nonce [OF step]
  show ?case
  proof (cases "tx_from tx = a")
    case True
    then have "get0 n a = of_nat (Suc k)" using nonce(2) [of a] Cons.prems(2) by simp
    from Cons.IH [OF rest this] True nonce(1) Cons.prems(2) show ?thesis
      by (simp add: upt_conv_Cons del: upt_Suc)
  next
    case False
    then have "get0 n a = of_nat k" using nonce(2) [of a] Cons.prems(2) by simp
    from Cons.IH [OF rest this] False show ?thesis by simp
  qed
qed simp

subsection \<open>Lemmas: events\<close>

lemma apply_system_event_Ok:
  "apply_system_event X t ev (bals, ex) = Ok (bals', ex') \<longleftrightarrow>
     event_validate X ev = Ok () \<and> ev_execute_at ev \<le> t \<and> ev_id ev |\<notin>| ex \<and>
     apply_event_action (ev_action ev) bals = Ok bals' \<and> ex' = finsert (ev_id ev) ex"
  by (auto simp: apply_system_event_def result_simps not_less)

lemma apply_system_events_executed:
  assumes "for_each (apply_system_event X t) evs (bals, ex) = Ok (bals', ex')"
  shows "distinct (map ev_id evs) \<and> set (map ev_id evs) \<inter> fset ex = {} \<and>
    fset ex' = fset ex \<union> set (map ev_id evs) \<and>
    list_all (\<lambda>ev. event_validate X ev = Ok () \<and> ev_execute_at ev \<le> t) evs"
  using assms
proof (induction evs arbitrary: bals ex)
  case (Cons ev evs)
  from Cons.prems obtain b where ev: "event_validate X ev = Ok ()" "ev_execute_at ev \<le> t" "ev_id ev |\<notin>| ex"
    and rest: "for_each (apply_system_event X t) evs (b, finsert (ev_id ev) ex) = Ok (bals', ex')"
    by (auto simp: result_simps apply_system_event_Ok)
  from Cons.IH [OF rest] ev show ?case by auto
qed simp

lemma execute_block_Ok:
  assumes "execute_block X cid b (bals, nons, ex) = Ok (bals', nons', ex')"
  obtains mid where
    "for_each (apply_transaction X cid (blk_producer b)) (blk_transactions b) (bals, nons) = Ok (mid, nons')"
    "for_each (apply_system_event X (blk_timestamp b)) (blk_system_events b) (mid, ex) = Ok (bals', ex')"
  using assms
  by (auto simp: execute_block_def apply_transactions_def apply_system_events_def result_simps)

subsection \<open>Lemmas: applying and replaying blocks\<close>

lemma apply_block_Err: "apply_block X c b = (c', Err e) \<Longrightarrow> c' = c"
  by (auto simp: apply_block_def split: if_splits sum.splits)

lemma apply_block_Ok:
  "apply_block X c b = (c', Ok r) \<longleftrightarrow>
     r = b \<and> blocks c \<noteq> [] \<and> follows (last (blocks c)) b \<and> blk_hash b = calculate_hash X b \<and>
     (\<exists>s. execute_block X (chain_id c) b (chain_state c) = Ok s \<and>
        c' = with_state (c\<lparr>blocks := blocks c @ [b]\<rparr>) s)"
  by (auto simp: apply_block_def split: sum.splits)

lemma with_state_fields [simp]:
  "chain_state (with_state c s) = s" "blocks (with_state c s) = blocks c"
  "chain_id (with_state c s) = chain_id c" "initial_balances (with_state c s) = initial_balances c"
  "genesis_commitment (with_state c s) = genesis_commitment c"
  by (cases s; simp add: with_state_def chain_state_def)+

lemma with_state_same [simp]: "with_state c (chain_state c) = c"
  by (simp add: with_state_def chain_state_def)

lemma rebuild_loop_index:
  "rebuild_loop X cid i p bs s = Ok t \<longleftrightarrow> rebuild_loop X cid j p bs s = Ok t"
proof (induction bs arbitrary: i j p s)
  case (Cons b bs)
  then show ?case by (simp add: result_simps) metis
qed simp

lemma rebuild_loop_snoc:
  "rebuild_loop X cid i p (bs @ [b]) s = Ok t \<longleftrightarrow>
     (\<exists>u. rebuild_loop X cid i p bs s = Ok u \<and> blk_hash b = calculate_hash X b \<and>
        follows (last (p # bs)) b \<and> execute_block X cid b u = Ok t)"
proof (induction bs arbitrary: i p s)
  case Nil
  show ?case by (cases t) (auto simp: result_simps)
next
  case (Cons a bs)
  then show ?case by (simp add: result_simps) blast
qed

text \<open>The chains whose stored state is the one a replay of their blocks computes.\<close>

definition replays :: "externals \<Rightarrow> blockchain \<Rightarrow> bool" where
  "replays X c \<longleftrightarrow> (\<exists>bs. blocks c = block_genesis X # bs \<and>
     rebuild_loop X (chain_id c) 1 (block_genesis X) bs (initial_balances c, fmempty, {||}) = Ok (chain_state c))"

lemma replays_genesis: "replays X ((with_chain_id X cid initial)\<lparr>genesis_commitment := g\<rparr>)"
  by (simp add: replays_def with_chain_id_def Let_def chain_state_def)

lemma replays_apply_block:
  assumes "replays X c" and "apply_block X c b = (c', r)"
  shows "replays X c'"
proof (cases r)
  case (Inl e)
  with assms apply_block_Err show ?thesis by metis
next
  case (Inr b')
  with assms(2) obtain s where s: "follows (last (blocks c)) b" "blk_hash b = calculate_hash X b"
    "execute_block X (chain_id c) b (chain_state c) = Ok s" "c' = with_state (c\<lparr>blocks := blocks c @ [b]\<rparr>) s"
    by (auto simp: apply_block_Ok)
  from assms(1) obtain bs where bs: "blocks c = block_genesis X # bs"
    "rebuild_loop X (chain_id c) 1 (block_genesis X) bs (initial_balances c, fmempty, {||}) = Ok (chain_state c)"
    by (auto simp: replays_def)
  from bs s(1-3) have "rebuild_loop X (chain_id c) 1 (block_genesis X) (bs @ [b])
    (initial_balances c, fmempty, {||}) = Ok s"
    by (simp add: rebuild_loop_snoc)
  with bs(1) show ?thesis by (simp add: replays_def s(4))
qed

lemma grown_replays: "grown X c \<Longrightarrow> replays X c"
  by (induction rule: grown.induct) (auto intro: replays_genesis replays_apply_block)

lemma verify_and_rebuild_Ok:
  "verify_and_rebuild X c = (c', Ok ()) \<longleftrightarrow>
     (\<exists>bs s. blocks c = block_genesis X # bs \<and> c' = with_state c s \<and>
        rebuild_loop X (chain_id c) 1 (block_genesis X) bs (initial_balances c, fmempty, {||}) = Ok s)"
  by (auto simp: verify_and_rebuild_def split: list.splits sum.splits)

lemma replays_iff_rebuild: "replays X c \<longleftrightarrow> verify_and_rebuild X c = (c, Ok ())"
proof
  assume "replays X c"
  then show "verify_and_rebuild X c = (c, Ok ())"
    unfolding replays_def verify_and_rebuild_Ok using with_state_same by metis
next
  assume "verify_and_rebuild X c = (c, Ok ())"
  then obtain bs s where "blocks c = block_genesis X # bs" "c = with_state c s"
    "rebuild_loop X (chain_id c) 1 (block_genesis X) bs (initial_balances c, fmempty, {||}) = Ok s"
    unfolding verify_and_rebuild_Ok by auto
  then show "replays X c" unfolding replays_def by (metis with_state_fields(1))
qed

end
