(* ===== verification/Sample.thy ===== *)
theory Sample
  imports Wallet
begin

text \<open>
  A concrete instance of the external code, used only to show that the hypotheses of theorems can
  hold: a real hexadecimal codec, a one-byte checksum as digest, and signature schemes in which a
  signature repeats the public key and ends in the checksum of the message. It has no security;
  no theorem about the program depends on it.
\<close>

definition hex_digit :: "nat \<Rightarrow> char" where
  "hex_digit n = (if n < 10 then char_of (48 + n) else char_of (87 + n))"

definition hex_value :: "char \<Rightarrow> nat option" where
  "hex_value c =
     (if is_ascii_digit c then Some (of_char c - 48)
      else if CHR ''a'' \<le> c \<and> c \<le> CHR ''f'' then Some (of_char c - 87)
      else if CHR ''A'' \<le> c \<and> c \<le> CHR ''F'' then Some (of_char c - 55)
      else None)"

definition sample_hex_encode :: "bytes \<Rightarrow> string" where
  "sample_hex_encode bs = concat (map (\<lambda>b. [hex_digit (unat b div 16), hex_digit (unat b mod 16)]) bs)"

fun sample_hex_decode :: "string \<Rightarrow> bytes option" where
  "sample_hex_decode [] = Some []"
| "sample_hex_decode [c] = None"
| "sample_hex_decode (c # d # s) =
     (case (hex_value c, hex_value d, sample_hex_decode s) of
        (Some i, Some j, Some bs) \<Rightarrow> Some (of_nat (16 * i + j) # bs)
      | _ \<Rightarrow> None)"

definition checksum :: "bytes \<Rightarrow> u8" where
  "checksum bs = foldl (\<lambda>acc b. 3 * acc + b) 1 bs"

definition sample_signature :: "bytes \<Rightarrow> bytes \<Rightarrow> bytes" where
  "sample_signature public_key message = take 32 public_key @ replicate 31 0 @ [checksum message]"

definition sample_externals :: externals where
  "sample_externals = \<lparr>
     sha256 = (\<lambda>bs. [checksum bs]),
     keccak256 = (\<lambda>bs. replicate 31 0 @ [checksum bs]),
     hex_encode = sample_hex_encode,
     hex_decode = sample_hex_decode,
     ed25519_key = (\<lambda>_. True),
     ed25519_verify = (\<lambda>pk m s. s = sample_signature pk m),
     secp256k1_key = (\<lambda>bs. Some bs),
     secp256k1_signature = (\<lambda>_. True),
     secp256k1_verify = (\<lambda>pk m s. s = sample_signature pk m),
     secp256k1_scalars = (\<lambda>_ _. True),
     secp256k1_recovery_id = (\<lambda>i. i < 4),
     secp256k1_recover = (\<lambda>digest r s i. Some (4 # r @ s)),
     libp2p_key = (\<lambda>_. True),
     libp2p_peer_id = sample_hex_encode,
     libp2p_verify = (\<lambda>pk m s. s = sample_signature pk m),
     json_event = (\<lambda>ev. str_bytes (ev_id ev)),
     json_transaction = (\<lambda>tx. Some (signing_bytes tx))\<rparr>"

text \<open>
  A second instance that accepts every signature and hashes everything to one value, for
  witnesses that have to run the ledger: a two-character string decodes to 64 bytes (a
  signature), any other to 32 bytes (a public key).
\<close>

definition permissive_externals :: externals where
  "permissive_externals = \<lparr>
     sha256 = (\<lambda>_. []), keccak256 = (\<lambda>_. []), hex_encode = (\<lambda>_. ''h''),
     hex_decode = (\<lambda>s. Some (replicate (if length s = 2 then 64 else 32) 0)),
     ed25519_key = (\<lambda>_. True), ed25519_verify = (\<lambda>_ _ _. True),
     secp256k1_key = (\<lambda>bs. Some bs), secp256k1_signature = (\<lambda>_. True),
     secp256k1_verify = (\<lambda>_ _ _. True), secp256k1_scalars = (\<lambda>_ _. True),
     secp256k1_recovery_id = (\<lambda>_. True), secp256k1_recover = (\<lambda>_ _ _ _. Some []),
     libp2p_key = (\<lambda>_. True), libp2p_peer_id = (\<lambda>_. ''p''), libp2p_verify = (\<lambda>_ _ _. True),
     json_event = (\<lambda>_. []), json_transaction = (\<lambda>_. Some [])\<rparr>"

text \<open>A wallet per seed byte.\<close>

definition sample_wallet :: "u8 \<Rightarrow> wallet" where
  "sample_wallet seed =
     \<lparr>w_public_key = replicate 32 seed, w_sign = sample_signature (replicate 32 seed)\<rparr>"

lemma hex_value_digit: "n < 16 \<Longrightarrow> hex_value (hex_digit n) = Some n"
  by (auto simp: hex_value_def hex_digit_def is_ascii_digit_def less_eq_char_def)

lemma hex_digit_lower: "n < 16 \<Longrightarrow>
  is_ascii_digit (hex_digit n) \<or> (CHR ''a'' \<le> hex_digit n \<and> hex_digit n \<le> CHR ''f'')"
  by (auto simp: hex_digit_def is_ascii_digit_def less_eq_char_def)

lemma nibbles: "unat (b :: u8) div 16 < 16" "unat b mod 16 < 16"
  using unat_lt [of b] by simp_all

lemma sample_hex_roundtrip: "sample_hex_decode (sample_hex_encode bs) = Some bs"
proof (induction bs)
  case Nil
  then show ?case by (simp add: sample_hex_encode_def)
next
  case (Cons b bs)
  have "(of_nat (16 * (unat b div 16) + unat b mod 16) :: u8) = b"
    by (simp only: mult_div_mod_eq) simp
  with Cons nibbles [of b] show ?case
    by (simp add: sample_hex_encode_def hex_value_digit)
qed

lemma sample_hex_decode_length: "sample_hex_decode s = Some bs \<Longrightarrow> length s = 2 * length bs"
  by (induction s arbitrary: bs rule: sample_hex_decode.induct) (auto split: option.splits)

lemma sample_hex_law: "hex_law sample_externals"
proof -
  have "length (sample_hex_encode bs) = 2 * length bs" for bs
    by (induction bs) (simp_all add: sample_hex_encode_def)
  moreover have "list_all (\<lambda>c. is_ascii_digit c \<or> (CHR ''a'' \<le> c \<and> c \<le> CHR ''f'')) (sample_hex_encode bs)" for bs
    using nibbles hex_digit_lower
    by (induction bs) (simp_all add: sample_hex_encode_def)
  ultimately show ?thesis
    by (auto simp: hex_law_def sample_externals_def sample_hex_roundtrip dest: sample_hex_decode_length)
qed

lemma permissive_signature: "length s = 2 \<Longrightarrow> length a \<noteq> 2 \<Longrightarrow> verify_signature permissive_externals a m s = Ok ()"
  by (simp add: verify_signature_Ok permissive_externals_def)

lemma permissive_hash [simp]:
  "calculate_hash permissive_externals b = ''h''" "tx_id permissive_externals tx = ''h''"
  by (simp_all add: calculate_hash_def tx_id_def permissive_externals_def)

lemma sample_wallet_simps [simp]:
  "w_public_key (sample_wallet n) = replicate 32 n"
  "w_sign (sample_wallet n) m = sample_signature (replicate 32 n) m"
  by (simp_all add: sample_wallet_def)

end
