(* ===== verification/Ledger_Properties.thy ===== *)
theory Ledger_Properties
  imports Chain Sample
begin

text \<open>
  What the ledger guarantees, for every chain that starts at genesis and grows by
  \<open>apply_block\<close>: conservation of the supply, replay, nonces, events, links; the effect of one
  transaction; and properties of the signed and hashed byte strings.
\<close>

subsection \<open>A chain for the witnesses\<close>

definition sample_tx :: transaction where
  "sample_tx = \<lparr>tx_from = ''alice'', tx_to = ''bob'', tx_amount = 250, tx_fee = 100, tx_nonce = 0,
     tx_signature = ''ss''\<rparr>"

definition sample_chain :: blockchain where
  "sample_chain = with_chain_id permissive_externals 21004 [(''alice'', 1000)]"

definition sample_block :: block where
  "sample_block = block_new permissive_externals 1 ''h'' 5 ''producer'' [sample_tx]"

definition sample_balances :: balances where
  "sample_balances = fmupd FOUNDATION_FEE_ADDRESS 20 (fmupd ''producer'' 80
     (fmupd ''bob'' 250 (fmupd ''alice'' 650 (fmupd ''alice'' 1000 fmempty))))"

definition sample_chain1 :: blockchain where
  "sample_chain1 = with_state (sample_chain\<lparr>blocks := blocks sample_chain @ [sample_block]\<rparr>)
     (sample_balances, fmupd ''alice'' 1 fmempty, {||})"

lemma sample_execute:
  "execute_block permissive_externals 21004 sample_block (collect_map [(''alice'', 1000)], fmempty, {||}) =
     Ok (sample_balances, fmupd ''alice'' 1 fmempty, {||})"
proof -
  have v: "verify_transaction permissive_externals sample_tx = Ok ()"
    by (simp add: verify_transaction_def sample_tx_def starts_with_def permissive_signature)
  have "apply_transaction permissive_externals 21004 ''producer'' sample_tx
      (collect_map [(''alice'', 1000)], fmempty) = Ok (sample_balances, fmupd ''alice'' 1 fmempty)"
    unfolding apply_transaction_def using v
    by (simp add: sample_tx_def starts_with_def Let_def checked_add_def checked_mul_def
        credit_balance_def FOUNDATION_FEE_BPS_def FEE_BPS_DENOMINATOR_def collect_map_def
        sample_balances_def FOUNDATION_FEE_ADDRESS_def)
  then show ?thesis
    by (simp add: execute_block_def apply_transactions_def apply_system_events_def sample_block_def
        block_new_def Let_def)
qed

lemma sample_apply_block:
  "apply_block permissive_externals sample_chain sample_block = (sample_chain1, Ok sample_block)"
proof -
  have "follows (block_genesis permissive_externals) sample_block"
    by (simp add: follows_def sample_block_def block_new_def block_genesis_def Let_def)
  moreover have "blk_hash sample_block = calculate_hash permissive_externals sample_block"
    by (simp add: sample_block_def)
  ultimately show ?thesis
    using sample_execute
    by (simp add: apply_block_Ok sample_chain1_def sample_chain_def with_chain_id_def Let_def chain_state_def)
qed

lemma sample_grown: "grown permissive_externals sample_chain" "grown permissive_externals sample_chain1"
proof -
  have "sample_chain = sample_chain\<lparr>genesis_commitment := genesis_commitment sample_chain\<rparr>" by simp
  then show g: "grown permissive_externals sample_chain"
    unfolding sample_chain_def by (metis grown.genesis)
  show "grown permissive_externals sample_chain1"
    by (rule grown.block [OF g sample_apply_block])
qed

lemma sample_chain1_fields [simp]:
  "balances sample_chain1 = sample_balances" "next_nonces sample_chain1 = fmupd ''alice'' 1 fmempty"
  "executed_events sample_chain1 = {||}"
  "blocks sample_chain1 = [block_genesis permissive_externals, sample_block]"
  "initial_balances sample_chain1 = fmupd ''alice'' 1000 fmempty"
  by (simp_all add: sample_chain1_def sample_chain_def with_chain_id_def Let_def with_state_def collect_map_def)

lemma sample_block_fields [simp]:
  "blk_transactions sample_block = [sample_tx]" "blk_system_events sample_block = []"
  "blk_height sample_block = 1"
  by (simp_all add: sample_block_def block_new_def Let_def)

subsection \<open>Invariants of grown chains\<close>

lemma grown_block_cases:
  assumes "apply_block X c b = (c', r)"
  obtains (rejected) e where "r = Err e" "c' = c"
  | (accepted) s where "r = Ok b" "blocks c \<noteq> []" "follows (last (blocks c)) b" "blk_hash b = calculate_hash X b"
      "execute_block X (chain_id c) b (chain_state c) = Ok s"
      "c' = with_state (c\<lparr>blocks := blocks c @ [b]\<rparr>) s"
proof (cases r)
  case (Inl e)
  with assms apply_block_Err show ?thesis by (metis rejected)
next
  case (Inr b')
  with assms show ?thesis using accepted by (auto simp: apply_block_Ok)
qed

lemma with_state_append_fields [simp]:
  "all_transactions (with_state (c\<lparr>blocks := blocks c @ [b]\<rparr>) s) = all_transactions c @ blk_transactions b"
  "all_events (with_state (c\<lparr>blocks := blocks c @ [b]\<rparr>) s) = all_events c @ blk_system_events b"
  "balances (with_state c (bals, nons, ex)) = bals" "next_nonces (with_state c (bals, nons, ex)) = nons"
  "executed_events (with_state c (bals, nons, ex)) = ex"
  by (simp_all add: all_transactions_def all_events_def) (simp_all add: with_state_def)

lemma with_chain_id_fields [simp]:
  "all_transactions (with_chain_id X cid initial) = []" "all_events (with_chain_id X cid initial) = []"
  "balances (with_chain_id X cid initial) = initial_balances (with_chain_id X cid initial)"
  "next_nonces (with_chain_id X cid initial) = fmempty" "executed_events (with_chain_id X cid initial) = {||}"
  "blocks (with_chain_id X cid initial) = [block_genesis X]"
  "all_transactions (c\<lparr>genesis_commitment := g\<rparr>) = all_transactions c"
  "all_events (c\<lparr>genesis_commitment := g\<rparr>) = all_events c"
  by (simp_all add: with_chain_id_def Let_def all_transactions_def all_events_def)

lemma grown_supply_invariant: "grown X c \<Longrightarrow> fm_total (balances c) = fm_total (initial_balances c)"
proof (induction rule: grown.induct)
  case (block c b c' r)
  from block.hyps(2) show ?case
  proof (cases rule: grown_block_cases)
    case (accepted s)
    then show ?thesis using block.IH
      by (cases s) (simp add: chain_state_def execute_block_total)
  qed (use block.IH in simp)
qed simp

definition nonces_counted :: "blockchain \<Rightarrow> address \<Rightarrow> bool" where
  "nonces_counted c a \<longleftrightarrow> (let own = filter (\<lambda>tx. tx_from tx = a) (all_transactions c) in
     map tx_nonce own = map of_nat [0..<length own] \<and> next_nonce c a = of_nat (length own))"

lemma grown_nonces_invariant: "grown X c \<Longrightarrow> nonces_counted c a"
proof (induction rule: grown.induct)
  case (genesis cid initial g)
  then show ?case by (simp add: nonces_counted_def next_nonce_def)
next
  case (block c b c' r)
  from block.hyps(2) show ?case
  proof (cases rule: grown_block_cases)
    case (accepted s)
    obtain bals nons ex where s: "s = (bals, nons, ex)" by (cases s)
    let ?own = "filter (\<lambda>tx. tx_from tx = a) (all_transactions c)"
      and ?new = "filter (\<lambda>tx. tx_from tx = a) (blk_transactions b)"
    have IH: "map tx_nonce ?own = map of_nat [0..<length ?own]" "get0 (next_nonces c) a = of_nat (length ?own)"
      using block.IH by (simp_all add: nonces_counted_def next_nonce_def Let_def)
    from accepted(5) s obtain mid where
      "for_each (apply_transaction X (chain_id c) (blk_producer b)) (blk_transactions b)
         (balances c, next_nonces c) = Ok (mid, nons)"
      unfolding chain_state_def by (auto elim: execute_block_Ok)
    from apply_transactions_nonces [OF this IH(2)]
    have "map tx_nonce ?new = map of_nat [length ?own..<length ?own + length ?new] \<and>
      get0 nons a = of_nat (length ?own + length ?new)" .
    moreover have "[0..<length ?own + length ?new] = [0..<length ?own] @ [length ?own..<length ?own + length ?new]"
      using upt_add_eq_append [of 0 "length ?own" "length ?new"] by simp
    ultimately show ?thesis using IH(1)
      by (simp add: accepted(6) s nonces_counted_def next_nonce_def Let_def)
  qed (use block.IH in simp)
qed

lemma grown_events_invariant:
  "grown X c \<Longrightarrow> distinct (map ev_id (all_events c)) \<and> fset (executed_events c) = set (map ev_id (all_events c))"
proof (induction rule: grown.induct)
  case (block c b c' r)
  from block.hyps(2) show ?case
  proof (cases rule: grown_block_cases)
    case (accepted s)
    obtain bals nons ex where s: "s = (bals, nons, ex)" by (cases s)
    from accepted(5) s obtain mid where
      "for_each (apply_system_event X (blk_timestamp b)) (blk_system_events b)
         (mid, executed_events c) = Ok (bals, ex)"
      unfolding chain_state_def by (auto elim: execute_block_Ok)
    from apply_system_events_executed [OF this] block.IH show ?thesis
      by (auto simp: accepted(6) s)
  qed (use block.IH in simp)
qed simp

definition linked :: "externals \<Rightarrow> block list \<Rightarrow> bool" where
  "linked X bs \<longleftrightarrow> (\<forall>i < length bs. blk_height (bs ! i) = of_nat i \<and> blk_hash (bs ! i) = calculate_hash X (bs ! i) \<and>
     (0 < i \<longrightarrow> blk_previous_hash (bs ! i) = blk_hash (bs ! (i - 1))))"

lemma grown_linked_invariant: "grown X c \<Longrightarrow> blocks c \<noteq> [] \<and> linked X (blocks c)"
proof (induction rule: grown.induct)
  case (genesis cid initial g)
  then show ?case by (simp add: linked_def)
next
  case (block c b c' r)
  from block.hyps(2) show ?case
  proof (cases rule: grown_block_cases)
    case (accepted s)
    let ?n = "length (blocks c)"
    have "last (blocks c) = blocks c ! (?n - 1)" "0 < ?n" using accepted(2) by (simp_all add: last_conv_nth)
    then have "blk_height (last (blocks c)) = of_nat (?n - 1)" using block.IH by (simp add: linked_def)
    then have "blk_height b = of_nat ?n" "blk_previous_hash b = blk_hash (blocks c ! (?n - 1))"
      using accepted(3) \<open>0 < ?n\<close> \<open>last (blocks c) = blocks c ! (?n - 1)\<close>
      by (simp_all add: follows_def of_nat_diff)
    with block.IH accepted(4) show ?thesis
      by (auto simp: accepted(6) linked_def nth_append less_Suc_eq)
  qed (use block.IH in simp)
qed

lemma collect_map_snoc: "collect_map (kvs @ [(k, v)]) = fmupd k v (collect_map kvs)"
  by (simp add: collect_map_def)

lemma collect_map_surj: "\<exists>kvs. collect_map kvs = m"
proof (induction m rule: fmap_induct)
  case fmempty
  have "collect_map [] = fmempty" by (simp add: collect_map_def)
  then show ?case by blast
next
  case (fmupd k v m)
  then show ?case by (metis collect_map_snoc)
qed

lemma replays_grown:
  assumes "blocks c = block_genesis X # bs"
    and "rebuild_loop X (chain_id c) 1 (block_genesis X) bs (initial_balances c, fmempty, {||}) = Ok (chain_state c)"
  shows "grown X c"
  using assms
proof (induction bs arbitrary: c rule: rev_induct)
  case Nil
  obtain kvs where "collect_map kvs = initial_balances c" using collect_map_surj by blast
  then have "c = (with_chain_id X (chain_id c) kvs)\<lparr>genesis_commitment := genesis_commitment c\<rparr>"
    using Nil by (simp add: with_chain_id_def Let_def chain_state_def)
  then show ?case by (metis grown.genesis)
next
  case (snoc b bs)
  from snoc.prems(2) obtain u where
    u: "rebuild_loop X (chain_id c) 1 (block_genesis X) bs (initial_balances c, fmempty, {||}) = Ok u"
    "blk_hash b = calculate_hash X b" "follows (last (block_genesis X # bs)) b"
    "execute_block X (chain_id c) b u = Ok (chain_state c)"
    by (auto simp: rebuild_loop_snoc)
  let ?c0 = "with_state (c\<lparr>blocks := block_genesis X # bs\<rparr>) u"
  have "grown X ?c0" using u(1) by (intro snoc.IH) simp_all
  moreover have "with_state (?c0\<lparr>blocks := blocks ?c0 @ [b]\<rparr>) (chain_state c) = c"
    using snoc.prems(1) by (cases u) (simp add: with_state_def chain_state_def)
  then have "apply_block X ?c0 b = (c, Ok b)"
    using u by (simp add: apply_block_Ok)
  ultimately show ?case by (rule grown.block)
qed

text \<open>A chain whose first block carries a protocol checkpoint event.\<close>

definition sample_event :: scheduled_event where
  "sample_event = \<lparr>ev_id = ''e'', ev_execute_at = 3, ev_action = ProtocolCheckpoint 2\<rparr>"

definition sample_event_block :: block where
  "sample_event_block = with_system_events permissive_externals
     (block_new permissive_externals 1 ''h'' 5 ''producer'' []) [sample_event]"

lemma sample_event_block_grown:
  "\<exists>c. grown permissive_externals c \<and> all_events c = [sample_event]"
proof -
  have "event_validate permissive_externals sample_event = Ok ()"
    by (simp add: event_validate_def sample_event_def event_id_ok_def is_ascii_alphanumeric_def
        is_ascii_digit_def less_eq_char_def)
  then have ex: "execute_block permissive_externals 21004 sample_event_block (b, n, {||}) = Ok (b, n, {|''e''|})" for b n
    by (simp add: execute_block_def apply_transactions_def apply_system_events_def sample_event_block_def
        block_new_def with_system_events_def Let_def apply_system_event_def) (simp add: sample_event_def)
  have fields: "follows (block_genesis permissive_externals) sample_event_block"
    "blk_hash sample_event_block = calculate_hash permissive_externals sample_event_block"
    "blk_system_events sample_event_block = [sample_event]"
    by (simp_all add: follows_def sample_event_block_def block_new_def block_genesis_def with_system_events_def Let_def)
  let ?c = "with_state (sample_chain\<lparr>blocks := blocks sample_chain @ [sample_event_block]\<rparr>)
    (balances sample_chain, next_nonces sample_chain, {|''e''|})"
  have cid: "chain_id sample_chain = 21004" by (simp add: sample_chain_def with_chain_id_def Let_def)
  have "chain_state sample_chain = (balances sample_chain, next_nonces sample_chain, {||})"
    "blocks sample_chain = [block_genesis permissive_externals]" "all_events sample_chain = []"
    by (simp_all add: sample_chain_def chain_state_def)
  with fields ex [of "balances sample_chain" "next_nonces sample_chain"]
  have "apply_block permissive_externals sample_chain sample_event_block = (?c, Ok sample_event_block)"
    "all_events ?c = [sample_event]"
    unfolding apply_block_Ok by (simp_all add: cid all_events_def)
  then show ?thesis using grown.block [OF sample_grown(1)] by blast
qed

subsection \<open>Accepting a transaction\<close>

lemma credit_balance_accepts:
  assumes "fm_total bals + unat amount < 2 ^ 128"
  shows "\<exists>bals'. credit_balance bals a amount e = Ok bals'"
proof -
  have "unat (get0 bals a) + unat amount < 2 ^ 128"
    using assms get0_le_fm_total [of bals a] by linarith
  then show ?thesis by (simp add: credit_balance_def checked_add_def)
qed

lemma apply_transaction_step:
  fixes total received scaled :: u128
  assumes "if starts_with (tx_signature tx) ''ethraw:'' then verify_embedded X tx cid = Ok ()
      else verify_transaction X tx = Ok ()"
    and "0 < tx_amount tx" and "tx_nonce tx = get0 nons (tx_from tx)"
    and "checked_add (tx_amount tx) (tx_fee tx) = Some total" and "total \<le> get0 bals (tx_from tx)"
    and "checked_add (get0 (fmupd (tx_from tx) (get0 bals (tx_from tx) - total) bals) (tx_to tx)) (tx_amount tx)
       = Some received"
    and "checked_mul (tx_fee tx) FOUNDATION_FEE_BPS = Some scaled"
    and "credit_balance (fmupd (tx_to tx) received (fmupd (tx_from tx) (get0 bals (tx_from tx) - total) bals))
       producer (tx_fee tx - scaled div FEE_BPS_DENOMINATOR) ProducerOverflow = Ok bals3"
    and "credit_balance bals3 FOUNDATION_FEE_ADDRESS (scaled div FEE_BPS_DENOMINATOR) FoundationOverflow = Ok bals4"
  shows "apply_transaction X cid producer tx (bals, nons) =
    Ok (bals4, fmupd (tx_from tx) (get0 nons (tx_from tx) + 1) nons)"
  using assms unfolding apply_transaction_def
  by (simp add: Let_def word_gt_0 not_less del: get0_fmupd split: if_splits)

lemma apply_transaction_accepts:
  assumes sig: "if starts_with (tx_signature tx) ''ethraw:'' then verify_embedded X tx cid = Ok ()
      else verify_transaction X tx = Ok ()"
    and amount: "0 < tx_amount tx" and nonce: "tx_nonce tx = get0 nons (tx_from tx)"
    and funds: "unat (tx_amount tx) + unat (tx_fee tx) \<le> unat (get0 bals (tx_from tx))"
    and bound: "fm_total bals < 2 ^ 128" and fee: "unat (tx_fee tx) * 2000 < 2 ^ 128"
  shows "\<exists>s. apply_transaction X cid producer tx (bals, nons) = Ok s"
proof -
  let ?from = "tx_from tx" and ?fee = "unat (tx_fee tx)"
  have "unat (tx_amount tx) + ?fee < 2 ^ 128"
    using funds unat_lt [of "get0 bals ?from"] by simp
  then obtain total where total: "checked_add (tx_amount tx) (tx_fee tx) = Some total"
    by (simp add: checked_add_def)
  then have t: "unat total = unat (tx_amount tx) + ?fee" by (simp add: checked_add_Some)
  then have le: "total \<le> get0 bals ?from" using funds by (simp add: word_le_nat_alt)
  define bals1 where "bals1 = fmupd ?from (get0 bals ?from - total) bals"
  have tot1: "fm_total bals1 + unat total = fm_total bals"
    using fm_total_fmupd [of ?from "get0 bals ?from - total" bals] le
    by (simp add: bals1_def unat_sub_le word_le_nat_alt)
  have "unat (get0 bals1 (tx_to tx)) + unat (tx_amount tx) < 2 ^ 128"
    using get0_le_fm_total [of bals1 "tx_to tx"] tot1 t bound by linarith
  then obtain received where received: "checked_add (get0 bals1 (tx_to tx)) (tx_amount tx) = Some received"
    by (simp add: checked_add_def)
  define bals2 where "bals2 = fmupd (tx_to tx) received bals1"
  have tot2: "fm_total bals2 = fm_total bals1 + unat (tx_amount tx)"
    using fm_total_fmupd [of "tx_to tx" received bals1] received by (simp add: bals2_def checked_add_Some)
  obtain scaled where scaled: "checked_mul (tx_fee tx) FOUNDATION_FEE_BPS = Some scaled"
    using fee by (simp add: checked_mul_def FOUNDATION_FEE_BPS_def)
  note fs = fee_split [OF scaled]
  obtain bals3 where c3: "credit_balance bals2 producer (tx_fee tx - scaled div FEE_BPS_DENOMINATOR) ProducerOverflow = Ok bals3"
  proof -
    have "fm_total bals2 + unat (tx_fee tx - scaled div FEE_BPS_DENOMINATOR) < 2 ^ 128"
      using tot1 tot2 t bound fs by linarith
    from credit_balance_accepts [OF this] that show ?thesis by blast
  qed
  have tot3: "fm_total bals3 + ?fee * 2000 div 10000 = fm_total bals"
    using credit_balance_total [OF c3] tot1 tot2 t fs by simp
  then obtain bals4 where c4:
    "credit_balance bals3 FOUNDATION_FEE_ADDRESS (scaled div FEE_BPS_DENOMINATOR) FoundationOverflow = Ok bals4"
  proof -
    have "fm_total bals3 + unat (scaled div FEE_BPS_DENOMINATOR) < 2 ^ 128"
      using tot3 bound fs by linarith
    from credit_balance_accepts [OF this] that show ?thesis by blast
  qed
  from apply_transaction_step [OF sig amount nonce total le received [unfolded bals1_def] scaled
      c3 [unfolded bals2_def bals1_def] c4]
  show ?thesis by blast
qed

lemma apply_transaction_effect:
  assumes "apply_transaction X cid producer tx (bals, nons) = Ok (bals', nons')"
    and "distinct [tx_from tx, tx_to tx, producer, FOUNDATION_FEE_ADDRESS]"
  defines "fee \<equiv> unat (tx_fee tx)"
  shows "unat (get0 bals' (tx_from tx)) + unat (tx_amount tx) + fee = unat (get0 bals (tx_from tx))"
    and "unat (get0 bals' (tx_to tx)) = unat (get0 bals (tx_to tx)) + unat (tx_amount tx)"
    and "unat (get0 bals' producer) = unat (get0 bals producer) + (fee - fee * 2000 div 10000)"
    and "unat (get0 bals' FOUNDATION_FEE_ADDRESS) = unat (get0 bals FOUNDATION_FEE_ADDRESS) + fee * 2000 div 10000"
    and "a \<notin> {tx_from tx, tx_to tx, producer, FOUNDATION_FEE_ADDRESS} \<Longrightarrow> get0 bals' a = get0 bals a"
proof -
  let ?from = "tx_from tx"
  obtain total received scaled bals3 where *:
    "unat total = unat (tx_amount tx) + unat (tx_fee tx)" "total \<le> get0 bals ?from"
    "unat received = unat (get0 (fmupd ?from (get0 bals ?from - total) bals) (tx_to tx)) + unat (tx_amount tx)"
    "checked_mul (tx_fee tx) FOUNDATION_FEE_BPS = Some scaled"
    "credit_balance (fmupd (tx_to tx) received (fmupd ?from (get0 bals ?from - total) bals))
       producer (tx_fee tx - scaled div FEE_BPS_DENOMINATOR) ProducerOverflow = Ok bals3"
    "credit_balance bals3 FOUNDATION_FEE_ADDRESS (scaled div FEE_BPS_DENOMINATOR) FoundationOverflow = Ok bals'"
    using apply_transaction_Ok [OF assms(1)] by metis
  have sub: "unat (get0 bals ?from - total) = unat (get0 bals ?from) - unat total"
    "unat total \<le> unat (get0 bals ?from)"
    using *(2) by (simp_all add: unat_sub_le word_le_nat_alt)
  note g3 = credit_balance_get0 [OF *(5)] and g4 = credit_balance_get0 [OF *(6)]
    and fs = fee_split [OF *(4)]
  note facts = g3 g4 fs *(1,3) sub assms(2) fee_def
  show "unat (get0 bals' ?from) + unat (tx_amount tx) + fee = unat (get0 bals ?from)"
    using facts by auto
  show "unat (get0 bals' (tx_to tx)) = unat (get0 bals (tx_to tx)) + unat (tx_amount tx)"
    using facts by auto
  show "unat (get0 bals' producer) = unat (get0 bals producer) + (fee - fee * 2000 div 10000)"
    using facts by auto
  show "unat (get0 bals' FOUNDATION_FEE_ADDRESS) = unat (get0 bals FOUNDATION_FEE_ADDRESS) + fee * 2000 div 10000"
    using facts by auto
  show "get0 bals' a = get0 bals a"
    if "a \<notin> {tx_from tx, tx_to tx, producer, FOUNDATION_FEE_ADDRESS}"
  proof -
    have "unat (get0 bals' a) = unat (get0 bals a)" using facts that by auto
    then show ?thesis by (simp add: word_unat_eq_iff)
  qed
qed

subsection \<open>Addresses without the 0x prefix\<close>

lemma decode_legacy_from:
  "decode_legacy X raw cid = Ok tx \<Longrightarrow> starts_with (tx_from tx) ''0x''"
  by (erule decode_legacy_Ok)

lemma unprefixed_never_spends:
  assumes "hex_law X" and "validate_address a = Ok ()" and "\<not> starts_with a ''0x''" and "tx_from tx = a"
  shows "apply_transaction X cid producer tx s \<noteq> Ok t"
proof
  assume ok: "apply_transaction X cid producer tx s = Ok t"
  obtain bals nons bals' nons' where "s = (bals, nons)" "t = (bals', nons')" by (cases s, cases t)
  with ok have sig: "if starts_with (tx_signature tx) ''ethraw:'' then verify_embedded X tx cid = Ok ()
      else verify_transaction X tx = Ok ()"
    by (auto elim: apply_transaction_Ok)
  show False
  proof (cases "starts_with (tx_signature tx) ''ethraw:''")
    case True
    with sig obtain raw where "decode_legacy X raw cid = Ok tx" by (auto simp: verify_embedded_Ok)
    from decode_legacy_from [OF this] assms show False by simp
  next
    case False
    with sig assms have "verify_signature X a (signing_bytes tx) (tx_signature tx) = Ok ()"
      by (simp add: verify_transaction_def)
    then obtain pk where "hex_decode X a = Some pk" "length pk = 32" by (auto simp: verify_signature_Ok)
    with hex_lawD(3) [OF assms(1)] have "length a = 64" by fastforce
    moreover have "strip_prefix a ''0x'' = None" using assms(3) by (simp add: strip_prefix_def)
    then have "length a = 40" using assms(2) by (simp add: validate_address_def ensure_Ok)
    ultimately show False by simp
  qed
qed

lemma transfer_from_foundation_unprefixed:
  assumes "\<not> starts_with a ''0x''" and "transfer_from_foundation a amount bals = Ok bals'"
  shows "unat (get0 bals' a) = unat (get0 bals a) + unat amount"
proof -
  have "a \<noteq> FOUNDATION_FEE_ADDRESS"
    using assms(1) by (auto simp: FOUNDATION_FEE_ADDRESS_def starts_with_def)
  moreover from assms have "credit_balance (fmupd FOUNDATION_FEE_ADDRESS
      (get0 bals FOUNDATION_FEE_ADDRESS - amount) bals) a amount EventReceiverOverflow = Ok bals'"
    by (simp add: transfer_from_foundation_def normalize_address_def Let_def split: if_splits)
  ultimately show ?thesis using credit_balance_get0 [of _ a amount _ bals' a] by auto
qed

section \<open>Properties\<close>

text \<open>
  C3: Supply conservation. In every chain that the code can reach from genesis, the coins held by
  all accounts together are exactly the coins of the genesis allocation: transfers, fees and all
  six kinds of system event move coins and never create or destroy them.
\<close>

theorem ledger_supply_conserved:
  assumes "grown X c"
  shows "fm_total (balances c) = fm_total (initial_balances c)"
  using assms by (rule grown_supply_invariant)

theorem ledger_supply_conserved_witness:
  "grown permissive_externals sample_chain1 \<and> blocks sample_chain1 \<noteq> blocks sample_chain \<and>
   fm_total (balances sample_chain1) = fm_total (initial_balances sample_chain1)"
proof (intro conjI)
  show "blocks sample_chain1 \<noteq> blocks sample_chain" by (simp add: sample_chain_def)
  show "fm_total (balances sample_chain1) = fm_total (initial_balances sample_chain1)"
    by (rule ledger_supply_conserved [OF sample_grown(2)])
qed (rule sample_grown(2))

text \<open>
  C4: Exact replay. \<open>verify_and_rebuild\<close>, which runs when a stored chain is loaded, accepts a chain
  and leaves its balances, nonces and executed events unchanged precisely when that chain was
  grown from genesis by \<open>apply_block\<close>.
\<close>

theorem ledger_replay_exact: "verify_and_rebuild X c = (c, Ok ()) \<longleftrightarrow> grown X c"
proof
  assume "verify_and_rebuild X c = (c, Ok ())"
  then show "grown X c" unfolding replays_iff_rebuild [symmetric] replays_def by (auto intro: replays_grown)
next
  assume "grown X c"
  then show "verify_and_rebuild X c = (c, Ok ())" by (simp add: replays_iff_rebuild [symmetric] grown_replays)
qed

text \<open>
  C5: Replay protection. In every reachable chain the transactions of one sender carry the nonces
  0, 1, 2, ... in the order in which the blocks execute them, and the stored next nonce is their
  number; in particular, a sender with at most \<open>2 ^ 64\<close> transactions never has two with one nonce,
  so no transaction is executed twice.
\<close>

theorem ledger_nonces_consecutive:
  fixes a :: address
  assumes "grown X c"
  defines "own \<equiv> filter (\<lambda>tx. tx_from tx = a) (all_transactions c)"
  shows "map tx_nonce own = map of_nat [0..<length own] \<and> next_nonce c a = of_nat (length own) \<and>
    (length own \<le> 2 ^ 64 \<longrightarrow> distinct own)"
proof -
  have own: "map tx_nonce own = map of_nat [0..<length own]" "next_nonce c a = of_nat (length own)"
    using grown_nonces_invariant [OF assms(1), of a] by (simp_all add: nonces_counted_def own_def Let_def)
  have "distinct own" if "length own \<le> 2 ^ 64"
  proof -
    have "inj_on (of_nat :: nat \<Rightarrow> u64) {0..<length own}"
    proof (rule inj_onI)
      fix i j assume ij: "i \<in> {0..<length own}" "j \<in> {0..<length own}" and eq: "(of_nat i :: u64) = of_nat j"
      have "unat (of_nat i :: u64) = i" "unat (of_nat j :: u64) = j"
        using that ij by (simp_all add: unat_of_nat_small)
      then show "i = j" unfolding eq by (rule trans [OF sym])
    qed
    then have "distinct (map (of_nat :: nat \<Rightarrow> u64) [0..<length own])" by (simp add: distinct_map)
    then show ?thesis using own(1) by (metis distinct_map)
  qed
  with own show ?thesis by blast
qed

theorem ledger_nonces_consecutive_witness:
  "grown permissive_externals sample_chain1 \<and> next_nonce sample_chain1 ''alice'' = 1 \<and>
   map tx_nonce (filter (\<lambda>tx. tx_from tx = ''alice'') (all_transactions sample_chain1)) = [0]"
  using ledger_nonces_consecutive [OF sample_grown(2), of "''alice''"] sample_grown(2)
  by (simp add: all_transactions_def sample_tx_def)

text \<open>
  System events run at most once. In every reachable chain no event id occurs in two executed
  events, and the set of executed ids is exactly the set of ids of the events in the blocks.
\<close>

theorem ledger_events_once:
  assumes "grown X c"
  shows "distinct (map ev_id (all_events c)) \<and> fset (executed_events c) = set (map ev_id (all_events c))"
  using assms by (rule grown_events_invariant)

theorem ledger_events_once_witness:
  "\<exists>c. grown permissive_externals c \<and> all_events c = [sample_event] \<and> fset (executed_events c) = {''e''}"
proof -
  obtain c where c: "grown permissive_externals c" "all_events c = [sample_event]"
    using sample_event_block_grown by blast
  with ledger_events_once [OF c(1)] show ?thesis by (auto simp: sample_event_def)
qed

text \<open>
  Links. In every reachable chain the block at index \<open>i\<close> has height \<open>i\<close> (as a 64-bit number),
  carries the hash of its own contents, and names the hash of the block before it.
\<close>

theorem ledger_links:
  assumes "grown X c" and "i < length (blocks c)"
  shows "blk_height (blocks c ! i) = of_nat i \<and> blk_hash (blocks c ! i) = calculate_hash X (blocks c ! i) \<and>
    (0 < i \<longrightarrow> blk_previous_hash (blocks c ! i) = blk_hash (blocks c ! (i - 1)))"
  using grown_linked_invariant [OF assms(1)] assms(2) by (simp add: linked_def)

theorem ledger_links_witness:
  "blk_height sample_block = 1 \<and> blk_previous_hash sample_block = blk_hash (block_genesis permissive_externals)"
  using ledger_links [OF sample_grown(2), of 1] by simp

text \<open>
  Block application is atomic. A rejected block leaves the whole chain as it was; an accepted
  block is appended unchanged and only balances, nonces and executed events change with it.
\<close>

theorem apply_block_atomic:
  "case apply_block X c b of
     (c', Inl e) \<Rightarrow> c' = c
   | (c', Inr r) \<Rightarrow> r = b \<and> blocks c' = blocks c @ [b] \<and> chain_id c' = chain_id c \<and>
       genesis_commitment c' = genesis_commitment c \<and> initial_balances c' = initial_balances c \<and>
       blk_hash b = calculate_hash X b \<and> follows (last (blocks c)) b"
  by (auto split: prod.splits sum.splits simp: apply_block_Ok dest: apply_block_Err)

text \<open>
  Effect of a transfer. With sender, receiver, producer and foundation pairwise different, an
  executed transfer takes amount and fee from the sender, gives the amount to the receiver, one
  fifth of the fee rounded down to the foundation and the rest of the fee to the producer, and
  changes no other account.
\<close>

theorem transfer_effect:
  assumes "apply_transaction X cid producer tx (bals, nons) = Ok (bals', nons')"
    and "distinct [tx_from tx, tx_to tx, producer, FOUNDATION_FEE_ADDRESS]"
  shows "unat (get0 bals' (tx_from tx)) + unat (tx_amount tx) + unat (tx_fee tx) = unat (get0 bals (tx_from tx)) \<and>
    unat (get0 bals' (tx_to tx)) = unat (get0 bals (tx_to tx)) + unat (tx_amount tx) \<and>
    unat (get0 bals' producer) = unat (get0 bals producer) + (unat (tx_fee tx) - unat (tx_fee tx) * 2000 div 10000) \<and>
    unat (get0 bals' FOUNDATION_FEE_ADDRESS) =
      unat (get0 bals FOUNDATION_FEE_ADDRESS) + unat (tx_fee tx) * 2000 div 10000 \<and>
    (\<forall>a. a \<notin> {tx_from tx, tx_to tx, producer, FOUNDATION_FEE_ADDRESS} \<longrightarrow> get0 bals' a = get0 bals a)"
  using apply_transaction_effect [OF assms] by blast

lemma sample_apply_transaction:
  "apply_transaction permissive_externals 21004 ''producer'' sample_tx (fmupd ''alice'' 1000 fmempty, fmempty) =
     Ok (sample_balances, fmupd ''alice'' 1 fmempty)"
  using sample_execute
  by (auto simp: execute_block_def apply_transactions_def apply_system_events_def collect_map_def result_simps
      sample_block_def block_new_def Let_def)

theorem transfer_effect_witness:
  "unat (get0 sample_balances ''producer'') = 80 \<and> unat (get0 sample_balances FOUNDATION_FEE_ADDRESS) = 20"
proof -
  have "distinct [tx_from sample_tx, tx_to sample_tx, ''producer'', FOUNDATION_FEE_ADDRESS]"
    by (simp add: sample_tx_def FOUNDATION_FEE_ADDRESS_def)
  from transfer_effect [OF sample_apply_transaction this] show ?thesis
    by (simp add: sample_tx_def FOUNDATION_FEE_ADDRESS_def)
qed

text \<open>
  Transfers that should succeed do. If the signature verifies, the amount is positive, the nonce
  is the expected one, the sender holds amount and fee, the supply fits 128 bits and the fee is
  below \<open>2 ^ 128 / 2000\<close>, the transaction executes: no overflow check of the code can reject it.
\<close>

theorem transfer_accepted:
  assumes "if starts_with (tx_signature tx) ''ethraw:'' then verify_embedded X tx cid = Ok ()
      else verify_transaction X tx = Ok ()"
    and "0 < tx_amount tx" and "tx_nonce tx = get0 nons (tx_from tx)"
    and "unat (tx_amount tx) + unat (tx_fee tx) \<le> unat (get0 bals (tx_from tx))"
    and "fm_total bals < 2 ^ 128" and "unat (tx_fee tx) * 2000 < 2 ^ 128"
  shows "\<exists>bals' nons'. apply_transaction X cid producer tx (bals, nons) = Ok (bals', nons')"
  using apply_transaction_accepts [OF assms] by auto

theorem transfer_accepted_witness:
  "\<exists>bals' nons'. apply_transaction permissive_externals 21004 ''producer'' sample_tx
     (fmupd ''alice'' 1000 fmempty, fmempty) = Ok (bals', nons')"
proof (rule transfer_accepted)
  show "if starts_with (tx_signature sample_tx) ''ethraw:'' then verify_embedded permissive_externals sample_tx 21004 = Ok ()
      else verify_transaction permissive_externals sample_tx = Ok ()"
    by (simp add: verify_transaction_def sample_tx_def starts_with_def permissive_signature)
  show "fm_total (fmupd ''alice'' 1000 fmempty :: balances) < 2 ^ 128"
    using fm_total_fmupd [of "''alice''" "1000 :: u128" fmempty] by simp
qed (simp_all add: sample_tx_def)

end
