(* ===== verification/Signing_Properties.thy ===== *)
theory Signing_Properties
  imports Ledger_Properties
begin

text \<open>
  Properties of the byte strings that are signed and hashed, of the signatures over them, of the
  amounts in JSON, of the RLP codec and of raw Ethereum transactions.
\<close>

subsection \<open>What the signature schemes promise\<close>

text \<open>
  Documented behaviour of the two signature crates for one key pair: the public key is valid, has
  its fixed length, and verification accepts what signing returns.
\<close>

definition ed25519_law :: "externals \<Rightarrow> wallet \<Rightarrow> bool" where
  "ed25519_law X w \<longleftrightarrow> length (w_public_key w) = 32 \<and> ed25519_key X (w_public_key w) \<and>
     (\<forall>m. length (w_sign w m) = 64 \<and> ed25519_verify X (w_public_key w) m (w_sign w m))"

definition secp256k1_law :: "externals \<Rightarrow> account_wallet \<Rightarrow> bool" where
  "secp256k1_law X w \<longleftrightarrow> length (aw_public_key w) = 65 \<and>
     secp256k1_key X (aw_public_key w) = Some (aw_public_key w) \<and>
     (\<forall>m. length (aw_sign w m) = 64 \<and> secp256k1_signature X (aw_sign w m) \<and>
        secp256k1_verify X (aw_public_key w) m (aw_sign w m))"

lemma wallet_signature_verifies:
  assumes "hex_law X" and "ed25519_law X w"
  shows "verify_signature X (wallet_address X w) m (wallet_sign_bytes X w m) = Ok ()"
  using assms hex_lawD(1) [OF assms(1)]
  by (simp add: verify_signature_Ok wallet_address_def wallet_sign_bytes_def ed25519_law_def)

lemma account_normalize_own_address:
  assumes "hex_law X"
  shows "account_normalize_address (ethereum_address X point) = ethereum_address X point"
  unfolding account_normalize_address_def ethereum_address_def
  by (simp only: trim_start_0x_hex [OF assms] lowercase_hex [OF assms])

lemma account_signature_verifies:
  assumes "hex_law X" and "secp256k1_law X w"
  shows "verify_account_signature X (account_address X w) m (account_sign_bytes X w m) = Ok ()"
  using assms hex_lawD(1) [OF assms(1)]
  by (simp add: verify_account_signature_Ok account_address_def account_sign_bytes_def
      secp256k1_law_def account_normalize_own_address)

definition sample_account :: "u8 \<Rightarrow> account_wallet" where
  "sample_account seed =
     \<lparr>aw_public_key = 4 # replicate 64 seed, aw_sign = sample_signature (4 # replicate 64 seed)\<rparr>"

lemma sample_ed25519_law: "ed25519_law sample_externals (sample_wallet n)"
  by (simp add: ed25519_law_def sample_externals_def sample_signature_def)

lemma sample_secp256k1_law: "secp256k1_law sample_externals (sample_account n)"
  by (simp add: secp256k1_law_def sample_externals_def sample_signature_def sample_account_def)

text \<open>
  A raw transaction that the sample instance decodes: nine fields, the seventh of which names
  chain 21004 by \<open>v = 42043\<close>.
\<close>

definition sample_raw_fields :: "bytes list" where
  "sample_raw_fields = [[], [1], [2], replicate 20 7, [9], [], [0xa4, 0x3b], [1], [1]]"

lemma sample_raw_decodes:
  "is_ok (decode_legacy sample_externals
     (sample_hex_encode (encode_list (map encode_bytes sample_raw_fields))) 21004)"
proof -
  let ?raw = "encode_list (map encode_bytes sample_raw_fields)"
  have fields: "decode_list ?raw = Ok sample_raw_fields"
    by (rule decode_list_encode_list) (simp add: sample_raw_fields_def encode_bytes_def encode_length_def)
  have hex: "hex_decode sample_externals (trim_start_0x (sample_hex_encode ?raw)) = Some ?raw"
    using hex_encode_not_0x [OF sample_hex_law, of ?raw] hex_lawD(1) [OF sample_hex_law, of ?raw]
    by (simp add: sample_externals_def trim_start_0x_id starts_with_0x)
  have vals: "value_u64 [] = Ok 0" "value_u64 [1] = Ok 1" "value_u64 [2] = Ok 2" "value_u128 [9] = Ok 9"
    "value_u64 [0xa4, 0x3b] = Ok 42043" "padded_scalar [1] = Ok (replicate 31 0 @ [1])"
    by (simp_all add: value_u64_def value_u128_def from_be_bytes_def be_nat_def padded_scalar_def)
  show ?thesis
    unfolding decode_legacy_def
    by (simp add: hex fields) (simp add: sample_raw_fields_def vals Let_def sample_externals_def
        sample_externals_def checked_mul_def is_ok_def)
qed

section \<open>Properties\<close>

text \<open>
  C12: Signed bytes and transaction ids are unambiguous. Below \<open>2 ^ 64\<close> characters per address, two
  transactions have the same signed bytes exactly when they agree on every field but the signature, which
  the length prefixes make sure of; and two different transactions, including two that differ only in the
  signature, have the same id only if SHA-256 collides on the two byte strings of signed bytes followed by
  the signature. The hexadecimal codec keeps its documented laws.
\<close>

theorem signed_bytes_injective:
  assumes "length (tx_from s) < 2 ^ 64" "length (tx_to s) < 2 ^ 64"
    and "length (tx_from t) < 2 ^ 64" "length (tx_to t) < 2 ^ 64" and "hex_law X"
  shows "(signing_bytes s = signing_bytes t \<longleftrightarrow> s\<lparr>tx_signature := []\<rparr> = t\<lparr>tx_signature := []\<rparr>) \<and>
    (s \<noteq> t \<and> tx_id X s = tx_id X t \<longrightarrow>
       signing_bytes s @ str_bytes (tx_signature s) \<noteq> signing_bytes t @ str_bytes (tx_signature t) \<and>
       sha256 X (signing_bytes s @ str_bytes (tx_signature s)) = sha256 X (signing_bytes t @ str_bytes (tx_signature t)))"
proof -
  note inj = signing_bytes_append_inj [OF assms(1-4)]
  have "signing_bytes s = signing_bytes t \<longleftrightarrow> s\<lparr>tx_signature := []\<rparr> = t\<lparr>tx_signature := []\<rparr>"
    using inj [of "[]" "[]"] by (cases s; cases t) auto
  moreover have "signing_bytes s @ str_bytes (tx_signature s) = signing_bytes t @ str_bytes (tx_signature t) \<longleftrightarrow> s = t"
    using inj [of "str_bytes (tx_signature s)" "str_bytes (tx_signature t)"] by (cases s; cases t) auto
  moreover have "sha256 X u = sha256 X v" if "hex_encode X (sha256 X u) = hex_encode X (sha256 X v)" for u v
    using that assms(5) by (metis hex_law_def option.inject)
  ultimately show ?thesis unfolding tx_id_def by blast
qed

text \<open>With an injective digest, a moved boundary between the addresses and a changed signature change the id.\<close>

theorem signed_bytes_injective_witness:
  "signing_bytes (sample_tx\<lparr>tx_from := ''alic'', tx_to := ''ebob''\<rparr>) \<noteq> signing_bytes sample_tx \<and>
   tx_id (sample_externals\<lparr>sha256 := \<lambda>bs. bs\<rparr>) (sample_tx\<lparr>tx_signature := ''other''\<rparr>)
     \<noteq> tx_id (sample_externals\<lparr>sha256 := \<lambda>bs. bs\<rparr>) sample_tx"
proof -
  let ?X = "sample_externals\<lparr>sha256 := \<lambda>bs. bs\<rparr>"
  have hex: "hex_law ?X" using sample_hex_law by (simp add: hex_law_def)
  have "signing_bytes (sample_tx\<lparr>tx_from := ''alic'', tx_to := ''ebob''\<rparr>) \<noteq> signing_bytes sample_tx"
    using signed_bytes_injective [OF _ _ _ _ hex, of "sample_tx\<lparr>tx_from := ''alic'', tx_to := ''ebob''\<rparr>" sample_tx]
    by (simp add: sample_tx_def)
  moreover have "tx_id ?X (sample_tx\<lparr>tx_signature := ''other''\<rparr>) \<noteq> tx_id ?X sample_tx"
    using signed_bytes_injective [OF _ _ _ _ hex, of "sample_tx\<lparr>tx_signature := ''other''\<rparr>" sample_tx]
    by (auto simp: sample_tx_def)
  ultimately show ?thesis by blast
qed

text \<open>
  Block hashes do not bind the transactions. \<open>calculate_hash\<close> writes the producer and the
  transaction ids one after the other without a length or a separator, so for every block the
  block without transactions whose producer is the old producer followed by the ids has the same
  hash.
\<close>

theorem block_hash_ambiguous:
  "calculate_hash X (b\<lparr>blk_transactions := [],
     blk_producer := blk_producer b @ concat (map (tx_id X) (blk_transactions b))\<rparr>) = calculate_hash X b"
  by (simp add: calculate_hash_def block_preimage_def str_bytes_def map_concat comp_def)

text \<open>
  Wallet transfers are accepted. Every transfer that an Ed25519 wallet signs passes the
  signature check of the ledger, for any hexadecimal codec and any key pair that keep their
  documented laws.
\<close>

theorem wallet_transfer_verifies:
  assumes "hex_law X" and "ed25519_law X w"
  shows "verify_transaction X (wallet_sign_transfer X w to amount fee nonce) = Ok ()"
  using wallet_signature_verifies [OF assms] hex_encode_not_0x [OF assms(1)] hex_encode_not_ethraw [OF assms(1)]
  by (simp add: verify_transaction_def wallet_sign_transfer_def Let_def wallet_address_def)
    (simp add: wallet_sign_bytes_def signing_bytes_def)

theorem wallet_transfer_verifies_witness:
  "verify_transaction sample_externals (wallet_sign_transfer sample_externals (sample_wallet 7) ''bob'' 1 2 3) = Ok ()"
  by (rule wallet_transfer_verifies [OF sample_hex_law sample_ed25519_law])

text \<open>
  Account transfers are accepted. Every transfer that a secp256k1 account signs passes the
  signature check of the ledger: the sender is the \<open>0x\<close> address of the key, which the check
  normalises and compares with the key that the signature carries.
\<close>

theorem account_transfer_verifies:
  assumes "hex_law X" and "secp256k1_law X w"
  shows "verify_transaction X (account_sign_transfer X w to amount fee nonce) = Ok ()"
proof -
  have "starts_with (account_address X w) ''0x''"
    by (simp add: account_address_def ethereum_address_def starts_with_0x)
  then show ?thesis
    using account_signature_verifies [OF assms] hex_encode_not_ethraw [OF assms(1)]
    by (simp add: verify_transaction_def account_sign_transfer_def Let_def) (simp add: account_sign_bytes_def signing_bytes_def)
qed

theorem account_transfer_verifies_witness:
  "verify_transaction sample_externals (account_sign_transfer sample_externals (sample_account 7) ''bob'' 1 2 3) = Ok ()"
  by (rule account_transfer_verifies [OF sample_hex_law sample_secp256k1_law])

text \<open>
  Amounts survive JSON. Every 128-bit amount is read back from the decimal string that is
  written for it.
\<close>

theorem decimal_roundtrip: "decimal_deserialize (JsonString (decimal_serialize amount)) = Some amount"
proof -
  obtain d cs where head: "dec_digits (unat amount) = digit_char d # cs" "d < 10"
    using dec_digits_head by blast
  have "parse_digits (dec_digits (unat amount)) 0 = Some amount"
    using parse_digits_dec_digits [of "unat amount"] unat_lt [of amount] by simp
  with head digit_char_not_plus show ?thesis
    by (simp add: decimal_serialize_def parse_u128_def Let_def)
qed

text \<open>
  RLP round trip. Decoding the encoded list of encoded byte strings gives the byte strings
  back, for payloads up to the 64-bit limit of the length field.
\<close>

theorem rlp_roundtrip:
  assumes "length (concat (map encode_bytes fs)) + 9 < 2 ^ 64"
  shows "decode_list (encode_list (map encode_bytes fs)) = Ok fs"
  using assms by (rule decode_list_encode_list)

theorem rlp_roundtrip_witness:
  "decode_list (encode_list (map encode_bytes [[], [1], [200], replicate 60 3])) = Ok [[], [1], [200], replicate 60 3]"
proof (rule rlp_roundtrip)
  have "length (dropWhile (\<lambda>b. b = 0) (to_be_bytes (60 :: u64))) \<le> 8"
    using length_dropWhile_le [of "\<lambda>b. b = 0" "to_be_bytes (60 :: u64)"] by simp
  then show "length (concat (map encode_bytes [[], [1], [200], replicate 60 3])) + 9 < 2 ^ 64"
    by (simp add: encode_bytes_def encode_length_def Let_def)
qed

text \<open>
  Raw transactions belong to one chain. A transaction decoded from raw bytes for a chain id
  passes the embedded check of that chain, and of no other chain.
\<close>

theorem raw_transaction_one_chain:
  assumes "hex_law X" and "decode_legacy X raw_hex cid = Ok tx"
  shows "verify_embedded X tx other = Ok () \<longleftrightarrow> other = cid"
  using decode_legacy_verifies [OF assms] verify_embedded_one_chain by blast

theorem raw_transaction_one_chain_witness:
  "\<exists>tx. verify_embedded sample_externals tx 21004 = Ok () \<and> verify_embedded sample_externals tx 1 \<noteq> Ok ()"
proof -
  obtain tx where "decode_legacy sample_externals
      (sample_hex_encode (encode_list (map encode_bytes sample_raw_fields))) 21004 = Ok tx"
    using sample_raw_decodes by (auto simp: is_ok_def split: sum.splits)
  from raw_transaction_one_chain [OF sample_hex_law this] show ?thesis by (intro exI [of _ tx]) simp
qed

text \<open>
  Unspendable event payments. The event validation accepts an address of forty hexadecimal
  digits without \<open>0x\<close>. A payment credits exactly that string, and no transaction of any kind can
  ever spend from it.
\<close>

theorem unprefixed_payment_unspendable:
  assumes "hex_law X" and "validate_address a = Ok ()" and "\<not> starts_with a ''0x''"
    and "transfer_from_foundation a amount bals = Ok bals'"
  shows "unat (get0 bals' a) = unat (get0 bals a) + unat amount \<and>
    (\<forall>cid producer tx s. tx_from tx = a \<longrightarrow> \<not> is_ok (apply_transaction X cid producer tx s))"
proof -
  have "\<not> is_ok (apply_transaction X cid producer tx s)" if "tx_from tx = a" for cid producer tx s
    using unprefixed_never_spends [OF assms(1,2,3) that] by (auto simp: is_ok_def split: sum.splits)
  with transfer_from_foundation_unprefixed [OF assms(3,4)] show ?thesis by blast
qed

theorem unprefixed_payment_unspendable_witness:
  "\<exists>bals'. transfer_from_foundation (replicate 40 (CHR ''a'')) 5 (fmupd FOUNDATION_FEE_ADDRESS 9 fmempty) = Ok bals' \<and>
     unat (get0 bals' (replicate 40 (CHR ''a''))) = 5"
proof -
  let ?a = "replicate 40 (CHR ''a'')"
  have a: "\<not> starts_with ?a ''0x''" by (simp add: starts_with_def eval_nat_numeral)
  then have valid: "validate_address ?a = Ok ()"
    by (simp add: validate_address_def strip_prefix_def list_all_iff is_ascii_hexdigit_def is_ascii_digit_def less_eq_char_def)
  have "length ?a \<noteq> length FOUNDATION_FEE_ADDRESS" by (simp add: FOUNDATION_FEE_ADDRESS_def)
  then have ne: "?a \<noteq> FOUNDATION_FEE_ADDRESS" "FOUNDATION_FEE_ADDRESS \<noteq> ?a" by metis+
  obtain bals' where ok: "transfer_from_foundation ?a 5 (fmupd FOUNDATION_FEE_ADDRESS 9 fmempty) = Ok bals'"
    using a ne by (simp add: transfer_from_foundation_def normalize_address_def credit_balance_def checked_add_def
        get0_def)
  from unprefixed_payment_unspendable [OF sample_hex_law valid a ok] ok ne show ?thesis
    by (simp add: get0_def)
qed

end
