(* ===== verification/Iterators.thy ===== *)
theory Iterators
  imports Prelude
begin

text \<open>
  The iterator and vector operations of the Rust standard library that several components use:
  \<open>position\<close>, \<open>min_by_key\<close> (the first minimum), \<open>Vec::remove\<close>, sorting in descending order,
  and saturating arithmetic on \<open>usize\<close>, which is a natural number below \<open>2 ^ 64\<close>.
\<close>

abbreviation USIZE_MAX :: nat where
  "USIZE_MAX \<equiv> 2 ^ 64 - 1"

definition usize_saturating_add :: "nat \<Rightarrow> nat \<Rightarrow> nat" where
  "usize_saturating_add a b = min (a + b) USIZE_MAX"

fun position :: "('a \<Rightarrow> bool) \<Rightarrow> 'a list \<Rightarrow> nat option" where
  "position P [] = None"
| "position P (x # xs) = (if P x then Some 0 else map_option Suc (position P xs))"

fun min_index :: "('a \<Rightarrow> 'b::linorder) \<Rightarrow> 'a list \<Rightarrow> nat option" where
  "min_index f [] = None"
| "min_index f (x # xs) =
     (case min_index f xs of
        None \<Rightarrow> Some 0
      | Some i \<Rightarrow> if f x \<le> f (xs ! i) then Some 0 else Some (Suc i))"

definition remove_nth :: "nat \<Rightarrow> 'a list \<Rightarrow> 'a list" where
  "remove_nth i xs = take i xs @ drop (Suc i) xs"

text \<open>A sort key that orders words from large to small.\<close>

definition desc :: "'a::len word \<Rightarrow> nat" where
  "desc w = 2 ^ LENGTH('a) - unat w"

lemma desc_le [simp]: "desc v \<le> desc w \<longleftrightarrow> w \<le> v" for v w :: "'a::len word"
  using unat_lt [of v] unat_lt [of w] unfolding desc_def word_le_nat_alt by linarith

lemma desc_less [simp]: "desc v < desc w \<longleftrightarrow> w < v" for v w :: "'a::len word"
  using unat_lt [of v] unat_lt [of w] unfolding desc_def word_less_nat_alt by linarith

lemma desc_eq [simp]: "desc v = desc w \<longleftrightarrow> v = w" for v w :: "'a::len word"
  by (metis antisym desc_le order_refl)

lemma position_Some:
  "position P xs = Some i \<Longrightarrow> i < length xs \<and> P (xs ! i) \<and> (\<forall>j < i. \<not> P (xs ! j))"
  by (induction xs arbitrary: i) (auto simp: nth_Cons less_Suc_eq_0_disj split: if_splits nat.splits)

lemma position_None: "position P xs = None \<longleftrightarrow> (\<forall>x \<in> set xs. \<not> P x)"
  by (induction xs) auto

lemma min_index_None [simp]: "min_index f xs = None \<longleftrightarrow> xs = []"
  by (cases xs) (auto split: option.splits)

lemma min_index_Some:
  "min_index f xs = Some i \<Longrightarrow> i < length xs \<and> (\<forall>x \<in> set xs. f (xs ! i) \<le> f x)"
proof (induction xs arbitrary: i)
  case (Cons x xs)
  then show ?case
    by (fastforce split: option.splits if_splits)
qed simp

lemma length_remove_nth [simp]: "i < length xs \<Longrightarrow> length (remove_nth i xs) = length xs - 1"
  by (simp add: remove_nth_def)

lemma mset_remove_nth: "i < length xs \<Longrightarrow> mset xs = add_mset (xs ! i) (mset (remove_nth i xs))"
  by (metis add_mset_add_single id_take_nth_drop mset.simps(2) mset_append remove_nth_def
      union_mset_add_mset_right)

lemma set_remove_nth_subset: "set (remove_nth i xs) \<subseteq> set xs"
  by (auto simp: remove_nth_def dest: in_set_takeD in_set_dropD)

lemma remove_nth_0 [simp]: "remove_nth 0 (x # xs) = xs"
  by (simp add: remove_nth_def)

lemma map_remove_nth: "map f (remove_nth i xs) = remove_nth i (map f xs)"
  by (simp add: remove_nth_def take_map drop_map)

lemma set_remove_nth_distinct:
  assumes "i < length xs" and "distinct (map f xs)"
  shows "set (remove_nth i xs) = {x \<in> set xs. f x \<noteq> f (xs ! i)}" "distinct (map f (remove_nth i xs))"
proof -
  have m: "mset (map f xs) = add_mset (f (xs ! i)) (mset (map f (remove_nth i xs)))"
    using mset_remove_nth [of i xs] assms(1) by simp
  then have d: "distinct (f (xs ! i) # map f (remove_nth i xs))"
    using assms(2) by (metis mset.simps(2) mset_eq_imp_distinct_iff)
  then show "distinct (map f (remove_nth i xs))" by simp
  have "set xs = insert (xs ! i) (set (remove_nth i xs))"
    using mset_remove_nth [OF assms(1)] by (metis set_mset_add_mset_insert set_mset_mset)
  moreover have "f (xs ! i) \<notin> f ` set (remove_nth i xs)" using d by simp
  ultimately show "set (remove_nth i xs) = {x \<in> set xs. f x \<noteq> f (xs ! i)}"
    by (auto simp: image_iff)
qed

lemma remove_nth_filter:
  assumes "i < length xs" and "distinct (map f xs)"
  shows "remove_nth i xs = filter (\<lambda>x. f x \<noteq> f (xs ! i)) xs"
proof -
  note split = id_take_nth_drop [OF assms(1)]
  have "distinct (map f (take i xs @ xs ! i # drop (Suc i) xs))" using assms(2) split by simp
  then have "f (xs ! i) \<notin> f ` set (take i xs)" "f (xs ! i) \<notin> f ` set (drop (Suc i) xs)" by auto
  then have "filter (\<lambda>x. f x \<noteq> f (xs ! i)) (take i xs) = take i xs"
    "filter (\<lambda>x. f x \<noteq> f (xs ! i)) (drop (Suc i) xs) = drop (Suc i) xs"
    by (auto simp: filter_id_conv image_iff)
  then have "filter (\<lambda>x. f x \<noteq> f (xs ! i)) (take i xs @ xs ! i # drop (Suc i) xs) = remove_nth i xs"
    by (simp add: remove_nth_def)
  with split show ?thesis by simp
qed

lemma sum_remove_nth:
  "i < length xs \<Longrightarrow> sum_list (map f (remove_nth i xs)) + f (xs ! i) = sum_list (map f xs)"
  for f :: "'a \<Rightarrow> nat"
proof -
  assume "i < length xs"
  then have "mset (map f xs) = add_mset (f (xs ! i)) (mset (map f (remove_nth i xs)))"
    using mset_remove_nth [of i xs] by simp
  then show ?thesis by (metis add.commute sum_mset.add_mset sum_mset_sum_list)
qed

lemma distinct_map_sort_key [simp]: "distinct (map g (sort_key f xs)) = distinct (map g xs)"
  by (metis mset_eq_imp_distinct_iff mset_map mset_sort)

lemma sum_map_sort_key [simp]: "sum_list (map g (sort_key f xs)) = sum_list (map g xs)" for g :: "'a \<Rightarrow> nat"
  by (metis mset_map mset_sort sum_mset_sum_list)

lemma sorted_key_take_drop:
  assumes "x \<in> set (take n (sort_key f xs))" and "y \<in> set (drop n (sort_key f xs))"
  shows "f x \<le> f y"
  using assms sorted_append [of "map f (take n (sort_key f xs))" "map f (drop n (sort_key f xs))"]
  by (metis append_take_drop_id image_eqI list.set_map map_append sorted_sort_key)

lemma sorted_le_last: "x \<in> set xs \<Longrightarrow> sorted xs \<Longrightarrow> x \<le> last xs"
  by (induction xs) auto

end
