(* ===== verification/Mempool.thy ===== *)
theory Mempool
  imports Model Iterators
begin

text \<open>
  The pool of pending transactions (\<open>src/mempool.rs\<close>). The lemmas show that the three indexes of
  the pool (ids, sender and nonce, byte count) always describe its transactions, that the limits
  hold after every operation, and what \<open>drain\<close> selects.
\<close>

datatype mempool_error =
  DuplicateTransaction | SerializationFailed | TransactionTooLarge | NonceIndexCorrupt | ReplacementFeeTooLow

definition DEFAULT_MAX_TRANSACTIONS :: nat where
  "DEFAULT_MAX_TRANSACTIONS = 10000"

definition DEFAULT_MAX_BYTES :: nat where
  "DEFAULT_MAX_BYTES = 16 * 1024 * 1024"

record mempool =
  mp_transactions :: "transaction list"
  mp_ids :: "string fset"
  mp_sender_nonce :: "(string \<times> u64, string) fmap"
  mp_total_bytes :: nat
  mp_max_transactions :: nat
  mp_max_bytes :: nat

definition with_limits :: "nat \<Rightarrow> nat \<Rightarrow> mempool" where
  "with_limits max_transactions max_bytes =
     \<lparr>mp_transactions = [], mp_ids = {||}, mp_sender_nonce = fmempty, mp_total_bytes = 0,
      mp_max_transactions = max max_transactions 1, mp_max_bytes = max max_bytes 1\<rparr>"

definition mempool_default :: mempool where
  "mempool_default = with_limits DEFAULT_MAX_TRANSACTIONS DEFAULT_MAX_BYTES"

definition tx_key :: "transaction \<Rightarrow> string \<times> u64" where
  "tx_key tx = (tx_from tx, tx_nonce tx)"

text \<open>\<open>serde_json::to_vec(..).map(len).unwrap_or(0)\<close>\<close>

definition tx_size :: "externals \<Rightarrow> transaction \<Rightarrow> nat" where
  "tx_size X tx = (case json_transaction X tx of Some bs \<Rightarrow> length bs | None \<Rightarrow> 0)"

definition remove_at :: "externals \<Rightarrow> nat \<Rightarrow> mempool \<Rightarrow> transaction \<times> mempool" where
  "remove_at X i p =
     (let tx = mp_transactions p ! i in
      (tx, p\<lparr>mp_transactions := remove_nth i (mp_transactions p),
             mp_ids := mp_ids p |-| {|tx_id X tx|},
             mp_sender_nonce := fmdrop (tx_key tx) (mp_sender_nonce p),
             mp_total_bytes := mp_total_bytes p - tx_size X tx\<rparr>))"

definition over_limits :: "nat \<Rightarrow> mempool \<Rightarrow> bool" where
  "over_limits bytes_needed p \<longleftrightarrow>
     mp_max_transactions p \<le> length (mp_transactions p) \<or>
     mp_max_bytes p < usize_saturating_add (mp_total_bytes p) bytes_needed"

function evict :: "externals \<Rightarrow> nat \<Rightarrow> mempool \<Rightarrow> mempool" where
  "evict X bytes_needed p =
     (if over_limits bytes_needed p then
        case min_index tx_fee (mp_transactions p) of
          None \<Rightarrow> p
        | Some i \<Rightarrow> evict X bytes_needed (snd (remove_at X i p))
      else p)"
  by pat_completeness auto
termination
  by (relation "measure (\<lambda>(_, _, p). length (mp_transactions p))")
    (auto simp: remove_at_def Let_def dest: min_index_Some)

declare evict.simps [simp del]

text \<open>The branch of \<open>add\<close> that replaces a pending transaction with the same sender and nonce.\<close>

definition replace_previous ::
  "externals \<Rightarrow> transaction \<Rightarrow> mempool \<Rightarrow> (mempool, mempool_error) result" where
  "replace_previous X tx p =
     (case fmlookup (mp_sender_nonce p) (tx_key tx) of
        None \<Rightarrow> Ok p
      | Some previous_id \<Rightarrow>
        and_then (ok_or (position (\<lambda>e. tx_id X e = previous_id) (mp_transactions p)) NonceIndexCorrupt) (\<lambda>i.
        let previous = mp_transactions p ! i;
            minimum_fee = saturating_add (tx_fee previous) (max (tx_fee previous div 10) 1) in
        if tx_fee tx < minimum_fee then Err ReplacementFeeTooLow
        else Ok (p\<lparr>mp_total_bytes := mp_total_bytes p - tx_size X previous,
                   mp_ids := mp_ids p |-| {|previous_id|},
                   mp_transactions := remove_nth i (mp_transactions p)\<rparr>)))"

definition insert_transaction :: "externals \<Rightarrow> transaction \<Rightarrow> nat \<Rightarrow> mempool \<Rightarrow> mempool" where
  "insert_transaction X tx n p =
     p\<lparr>mp_ids := finsert (tx_id X tx) (mp_ids p),
       mp_sender_nonce := fmupd (tx_key tx) (tx_id X tx) (mp_sender_nonce p),
       mp_total_bytes := usize_saturating_add (mp_total_bytes p) n,
       mp_transactions := mp_transactions p @ [tx]\<rparr>"

definition add :: "externals \<Rightarrow> transaction \<Rightarrow> mempool \<Rightarrow> (mempool, mempool_error) result" where
  "add X tx p =
     (if tx_id X tx |\<in>| mp_ids p then Err DuplicateTransaction
      else
        and_then (ok_or (json_transaction X tx) SerializationFailed) (\<lambda>bs.
        let n = length bs in
        if n > mp_max_bytes p then Err TransactionTooLarge
        else and_then (replace_previous X tx p) (\<lambda>p1. Ok (insert_transaction X tx n (evict X n p1)))))"

definition snapshot :: "nat \<Rightarrow> mempool \<Rightarrow> transaction list" where
  "snapshot max_count p = take max_count (mp_transactions p)"

definition drain_key :: "transaction \<Rightarrow> nat \<times> u64" where
  "drain_key tx = (desc (tx_fee tx), tx_nonce tx)"

text \<open>The loop of \<open>drain\<close>: take from the front until enough are selected or the pool is empty.\<close>

fun drain_front :: "externals \<Rightarrow> nat \<Rightarrow> mempool \<Rightarrow> transaction list \<times> mempool" where
  "drain_front X 0 p = ([], p)"
| "drain_front X (Suc n) p =
     (if mp_transactions p = [] then ([], p)
      else let (tx, p1) = remove_at X 0 p; (rest, p2) = drain_front X n p1 in (tx # rest, p2))"

definition drain :: "externals \<Rightarrow> nat \<Rightarrow> mempool \<Rightarrow> transaction list \<times> mempool" where
  "drain X max_count p =
     drain_front X max_count (p\<lparr>mp_transactions := sort_key drain_key (mp_transactions p)\<rparr>)"

fun readd :: "externals \<Rightarrow> transaction list \<Rightarrow> mempool \<Rightarrow> mempool" where
  "readd X [] p = p"
| "readd X (tx # txs) p = readd X txs (case add X tx p of Inr p' \<Rightarrow> p' | Inl _ \<Rightarrow> p)"

definition retain_valid :: "externals \<Rightarrow> (transaction \<Rightarrow> bool) \<Rightarrow> mempool \<Rightarrow> mempool" where
  "retain_valid X valid p =
     readd X (filter valid (mp_transactions p)) (with_limits (mp_max_transactions p) (mp_max_bytes p))"

subsection \<open>The invariant\<close>

text \<open>
  The indexes describe the transactions, except that the sender index may hold a stale entry for
  the keys in \<open>stale\<close> (between the removal of a replaced transaction and the insertion of its
  replacement).
\<close>

definition indexed :: "externals \<Rightarrow> (string \<times> u64) set \<Rightarrow> mempool \<Rightarrow> bool" where
  "indexed X stale p \<longleftrightarrow>
     distinct (map (tx_id X) (mp_transactions p)) \<and> distinct (map tx_key (mp_transactions p)) \<and>
     fset (mp_ids p) = set (map (tx_id X) (mp_transactions p)) \<and>
     tx_key ` set (mp_transactions p) \<inter> stale = {} \<and>
     (\<forall>k i. k \<notin> stale \<longrightarrow> fmlookup (mp_sender_nonce p) k = Some i \<longleftrightarrow>
        (\<exists>tx \<in> set (mp_transactions p). tx_key tx = k \<and> tx_id X tx = i)) \<and>
     mp_total_bytes p = sum_list (map (tx_size X) (mp_transactions p))"

definition within_limits :: "mempool \<Rightarrow> bool" where
  "within_limits p \<longleftrightarrow> 1 \<le> mp_max_transactions p \<and> mp_max_bytes p < USIZE_MAX \<and>
     length (mp_transactions p) \<le> mp_max_transactions p \<and> mp_total_bytes p \<le> mp_max_bytes p"

definition pool_ok :: "externals \<Rightarrow> mempool \<Rightarrow> bool" where
  "pool_ok X p \<longleftrightarrow> indexed X {} p \<and> within_limits p"

subsection \<open>Lemmas\<close>

lemma remove_at_limits [simp]:
  "mp_max_transactions (snd (remove_at X i p)) = mp_max_transactions p"
  "mp_max_bytes (snd (remove_at X i p)) = mp_max_bytes p"
  "mp_transactions (snd (remove_at X i p)) = remove_nth i (mp_transactions p)"
  "fst (remove_at X i p) = mp_transactions p ! i"
  "mp_total_bytes (snd (remove_at X i p)) = mp_total_bytes p - tx_size X (mp_transactions p ! i)"
  "mp_ids (snd (remove_at X i p)) = mp_ids p |-| {|tx_id X (mp_transactions p ! i)|}"
  "mp_sender_nonce (snd (remove_at X i p)) = fmdrop (tx_key (mp_transactions p ! i)) (mp_sender_nonce p)"
  by (simp_all add: remove_at_def Let_def)

lemma indexedD:
  assumes "indexed X stale p"
  shows "distinct (map (tx_id X) (mp_transactions p))" "distinct (map tx_key (mp_transactions p))"
    "fset (mp_ids p) = set (map (tx_id X) (mp_transactions p))"
    "tx_key ` set (mp_transactions p) \<inter> stale = {}"
    "mp_total_bytes p = sum_list (map (tx_size X) (mp_transactions p))"
    "k \<notin> stale \<Longrightarrow> fmlookup (mp_sender_nonce p) k = Some j \<longleftrightarrow>
      (\<exists>t \<in> set (mp_transactions p). tx_key t = k \<and> tx_id X t = j)"
  using assms by (simp_all add: indexed_def del: split_paired_All)

lemma indexed_remove:
  assumes "indexed X stale p" and "i < length (mp_transactions p)"
  shows "indexed X stale (snd (remove_at X i p))"
proof -
  let ?txs = "mp_transactions p" and ?tx = "mp_transactions p ! i"
  note d = indexedD(1,2) [OF assms(1)] and ix = indexedD(3-5) [OF assms(1)] and look = indexedD(6) [OF assms(1)]
  have ids: "set (remove_nth i ?txs) = {t \<in> set ?txs. tx_id X t \<noteq> tx_id X ?tx}"
    "distinct (map (tx_id X) (remove_nth i ?txs))"
    and keys: "set (remove_nth i ?txs) = {t \<in> set ?txs. tx_key t \<noteq> tx_key ?tx}"
    "distinct (map tx_key (remove_nth i ?txs))"
    using set_remove_nth_distinct [OF assms(2) d(1)] set_remove_nth_distinct [OF assms(2) d(2)] by simp_all
  show ?thesis
    unfolding indexed_def remove_at_limits
  proof (intro conjI allI impI)
    show "mp_total_bytes p - tx_size X ?tx = sum_list (map (tx_size X) (remove_nth i ?txs))"
      using sum_remove_nth [OF assms(2), of "tx_size X"] ix(3) by linarith
    show "fset (mp_ids p |-| {|tx_id X ?tx|}) = set (map (tx_id X) (remove_nth i ?txs))"
      using ix(1) ids(1) by auto
    show "tx_key ` set (remove_nth i ?txs) \<inter> stale = {}"
      using ix(2) set_remove_nth_subset [of i ?txs] by blast
    show "fmlookup (fmdrop (tx_key ?tx) (mp_sender_nonce p)) k = Some j \<longleftrightarrow>
      (\<exists>t \<in> set (remove_nth i ?txs). tx_key t = k \<and> tx_id X t = j)" if "k \<notin> stale" for k j
      using look [OF that] keys(1) by (cases "k = tx_key ?tx") auto
  qed (fact ids(2), fact keys(2))
qed

text \<open>What the eviction loop keeps and when it stops.\<close>

lemma evict_spec:
  assumes "indexed X stale p"
  shows "indexed X stale (evict X n p) \<and> mp_max_transactions (evict X n p) = mp_max_transactions p \<and>
    mp_max_bytes (evict X n p) = mp_max_bytes p \<and>
    set (mp_transactions (evict X n p)) \<subseteq> set (mp_transactions p) \<and>
    (mp_transactions (evict X n p) = [] \<or> \<not> over_limits n (evict X n p))"
  using assms
proof (induction X n p rule: evict.induct)
  case (1 X n p)
  show ?case
  proof (cases "over_limits n p \<and> mp_transactions p \<noteq> []")
    case True
    then obtain i where i: "min_index tx_fee (mp_transactions p) = Some i"
      by (cases "min_index tx_fee (mp_transactions p)") auto
    then have "indexed X stale (snd (remove_at X i p))"
      using "1.prems" by (auto dest: min_index_Some intro: indexed_remove)
    from "1.IH" [OF _ i this] True set_remove_nth_subset [of i "mp_transactions p"] show ?thesis
      by (simp add: evict.simps [of X n p] i) blast
  next
    case False
    then show ?thesis using "1.prems" by (auto simp: evict.simps [of X n p])
  qed
qed

lemma evict_ids: "mp_ids (evict X n p) |\<subseteq>| mp_ids p"
proof (induction X n p rule: evict.induct)
  case (1 X n p)
  then show ?case by (subst evict.simps) (auto split: option.splits)
qed

lemma indexed_weaken: "indexed X {} p \<Longrightarrow> \<forall>t \<in> set (mp_transactions p). tx_key t \<noteq> k \<Longrightarrow> indexed X {k} p"
  by (auto simp: indexed_def)

lemma replace_previous_Ok:
  assumes ix: "indexed X {} p" and ok: "replace_previous X tx p = Ok p1"
  shows "indexed X {tx_key tx} p1" and "mp_max_transactions p1 = mp_max_transactions p"
    and "mp_max_bytes p1 = mp_max_bytes p" and "mp_ids p1 |\<subseteq>| mp_ids p"
    and "mp_transactions p1 = filter (\<lambda>t. tx_key t \<noteq> tx_key tx) (mp_transactions p)"
    and "\<forall>old \<in> set (mp_transactions p). tx_key old = tx_key tx \<longrightarrow>
      saturating_add (tx_fee old) (max (tx_fee old div 10) 1) \<le> tx_fee tx"
proof -
  note ixd = indexedD [OF ix]
  consider (fresh) "fmlookup (mp_sender_nonce p) (tx_key tx) = None" "p1 = p"
    | (old) prev i where "fmlookup (mp_sender_nonce p) (tx_key tx) = Some prev"
        "position (\<lambda>e. tx_id X e = prev) (mp_transactions p) = Some i"
        "saturating_add (tx_fee (mp_transactions p ! i)) (max (tx_fee (mp_transactions p ! i) div 10) 1) \<le> tx_fee tx"
        "p1 = p\<lparr>mp_total_bytes := mp_total_bytes p - tx_size X (mp_transactions p ! i),
             mp_ids := mp_ids p |-| {|prev|}, mp_transactions := remove_nth i (mp_transactions p)\<rparr>"
    using ok by (auto simp: replace_previous_def Let_def result_simps not_less split: option.splits if_splits)
  then have "indexed X {tx_key tx} p1 \<and> mp_max_transactions p1 = mp_max_transactions p \<and>
    mp_max_bytes p1 = mp_max_bytes p \<and> mp_ids p1 |\<subseteq>| mp_ids p \<and>
    mp_transactions p1 = filter (\<lambda>t. tx_key t \<noteq> tx_key tx) (mp_transactions p) \<and>
    (\<forall>old \<in> set (mp_transactions p). tx_key old = tx_key tx \<longrightarrow>
      saturating_add (tx_fee old) (max (tx_fee old div 10) 1) \<le> tx_fee tx)"
  proof cases
    case fresh
    then have none: "\<forall>t \<in> set (mp_transactions p). tx_key t \<noteq> tx_key tx" using ixd by fastforce
    then have "filter (\<lambda>t. tx_key t \<noteq> tx_key tx) (mp_transactions p) = mp_transactions p" by simp
    with none fresh(2) indexed_weaken [OF ix none] show ?thesis by simp
  next
    case (old prev i)
    then have i: "i < length (mp_transactions p)" "tx_id X (mp_transactions p ! i) = prev"
      by (auto dest: position_Some)
    obtain t where t: "t \<in> set (mp_transactions p)" "tx_key t = tx_key tx" "tx_id X t = prev"
      using old(1) ixd by blast
    then have "t = mp_transactions p ! i"
      using ixd i by (metis distinct_map inj_onD nth_mem)
    with t have key: "tx_key (mp_transactions p ! i) = tx_key tx" by simp
    have rem: "remove_nth i (mp_transactions p) = filter (\<lambda>t. tx_key t \<noteq> tx_key tx) (mp_transactions p)"
      using remove_nth_filter [OF i(1), of tx_key] ixd key by simp
    have "indexed X {tx_key tx} (snd (remove_at X i p))"
      using indexed_remove [OF ix i(1)] by (intro indexed_weaken) (simp_all add: rem)
    then have "indexed X {tx_key tx} p1" by (auto simp: indexed_def old(4) key i(2))
    moreover have "old = mp_transactions p ! i" if "old \<in> set (mp_transactions p)" "tx_key old = tx_key tx" for old
      using that ixd i(1) key by (metis distinct_map inj_onD nth_mem)
    ultimately show ?thesis using old rem by auto
  qed
  then show "indexed X {tx_key tx} p1" "mp_max_transactions p1 = mp_max_transactions p"
    "mp_max_bytes p1 = mp_max_bytes p" "mp_ids p1 |\<subseteq>| mp_ids p"
    "mp_transactions p1 = filter (\<lambda>t. tx_key t \<noteq> tx_key tx) (mp_transactions p)"
    "\<forall>old \<in> set (mp_transactions p). tx_key old = tx_key tx \<longrightarrow>
      saturating_add (tx_fee old) (max (tx_fee old div 10) 1) \<le> tx_fee tx"
    by blast+
qed

lemma indexed_insert:
  assumes ix: "indexed X {tx_key tx} p" and new: "tx_id X tx |\<notin>| mp_ids p"
    and n: "n = tx_size X tx" and fit: "mp_total_bytes p + n < USIZE_MAX"
  shows "indexed X {} (insert_transaction X tx n p)"
proof -
  note d = indexedD [OF ix]
  have keys: "\<forall>t \<in> set (mp_transactions p). tx_key t \<noteq> tx_key tx" using d(4) by blast
  have id: "tx_id X tx \<notin> tx_id X ` set (mp_transactions p)" using new d(3) by simp
  have look: "fmlookup (fmupd (tx_key tx) (tx_id X tx) (mp_sender_nonce p)) k = Some j \<longleftrightarrow>
      (\<exists>t \<in> set (mp_transactions p @ [tx]). tx_key t = k \<and> tx_id X t = j)" for k j
    using d(6) [of k j] keys by (cases "k = tx_key tx") auto
  from d(1,2,3,5) keys id fit n show ?thesis
    unfolding indexed_def insert_transaction_def
    by (auto simp: usize_saturating_add_def look simp del: split_paired_All fmupd_lookup)
qed

lemma not_over_limits:
  assumes "\<not> over_limits n p" and "mp_max_bytes p < USIZE_MAX"
  shows "length (mp_transactions p) < mp_max_transactions p" "mp_total_bytes p + n \<le> mp_max_bytes p"
  using assms by (auto simp: over_limits_def usize_saturating_add_def min_def split: if_splits)

lemma add_Ok:
  assumes ok: "pool_ok X p" and add: "add X tx p = Ok p'"
  obtains "pool_ok X p'" "mp_max_transactions p' = mp_max_transactions p" "mp_max_bytes p' = mp_max_bytes p"
    "tx \<in> set (mp_transactions p')" "tx_id X tx |\<notin>| mp_ids p"
    "set (mp_transactions p') \<subseteq> insert tx {t \<in> set (mp_transactions p). tx_key t \<noteq> tx_key tx}"
    "\<forall>old \<in> set (mp_transactions p). tx_key old = tx_key tx \<longrightarrow>
      saturating_add (tx_fee old) (max (tx_fee old div 10) 1) \<le> tx_fee tx"
proof -
  obtain n p1 where n: "n = tx_size X tx" "n \<le> mp_max_bytes p" and new: "tx_id X tx |\<notin>| mp_ids p"
    and p1: "replace_previous X tx p = Ok p1" and p': "p' = insert_transaction X tx n (evict X n p1)"
    using add by (auto simp: add_def tx_size_def Let_def result_simps split: if_splits)
  have ix: "indexed X {} p" and lim: "within_limits p" using ok by (simp_all add: pool_ok_def)
  note r = replace_previous_Ok [OF ix p1] and e = evict_spec [OF replace_previous_Ok(1) [OF ix p1], of n]
  let ?q = "evict X n p1"
  have max: "mp_max_bytes ?q = mp_max_bytes p" "mp_max_transactions ?q = mp_max_transactions p"
    using e r(2,3) by simp_all
  have fit: "length (mp_transactions ?q) < mp_max_transactions p \<and> mp_total_bytes ?q + n \<le> mp_max_bytes p"
  proof (cases "over_limits n ?q")
    case True
    then have "mp_transactions ?q = []" using e by blast
    moreover have "mp_total_bytes ?q = 0" using e indexedD(5) [of X _ ?q] calculation by fastforce
    ultimately show ?thesis using n(2) lim by (simp add: within_limits_def)
  next
    case False
    then show ?thesis using not_over_limits [of n ?q] lim max by (simp add: within_limits_def)
  qed
  have "tx_id X tx |\<notin>| mp_ids ?q" using new r(4) evict_ids [of X n p1] by blast
  then have "indexed X {} p'" unfolding p'
    using e n(1) fit lim by (intro indexed_insert) (auto simp: within_limits_def)
  moreover have "within_limits p'"
    using fit lim max by (simp add: p' within_limits_def insert_transaction_def usize_saturating_add_def)
  moreover have "set (mp_transactions p') \<subseteq> insert tx {t \<in> set (mp_transactions p). tx_key t \<noteq> tx_key tx}"
    using e r(5) by (auto simp: p' insert_transaction_def)
  ultimately show thesis using that r(6) new max by (simp add: pool_ok_def p' insert_transaction_def)
qed

lemma pool_ok_add: "pool_ok X p \<Longrightarrow> add X tx p = Ok p' \<Longrightarrow> pool_ok X p' \<and> tx \<in> set (mp_transactions p')"
  by (rule add_Ok) auto

lemma pool_ok_with_limits: "b < USIZE_MAX \<Longrightarrow> pool_ok X (with_limits n b)"
  by (simp add: pool_ok_def indexed_def within_limits_def with_limits_def)

lemma pool_ok_readd:
  assumes "pool_ok X p"
  shows "pool_ok X (readd X txs p) \<and> set (mp_transactions (readd X txs p)) \<subseteq> set (mp_transactions p) \<union> set txs"
  using assms
proof (induction txs arbitrary: p)
  case (Cons tx txs)
  show ?case
  proof (cases "add X tx p")
    case (Inl e)
    then show ?thesis using Cons.IH [OF Cons.prems] by auto
  next
    case (Inr q)
    show ?thesis using add_Ok [OF Cons.prems Inr] Cons.IH [of q] Inr by auto
  qed
qed simp

lemma pool_ok_retain_valid:
  assumes "pool_ok X p"
  shows "pool_ok X (retain_valid X valid p)"
    and "set (mp_transactions (retain_valid X valid p)) \<subseteq> {t \<in> set (mp_transactions p). valid t}"
proof -
  have "pool_ok X (with_limits (mp_max_transactions p) (mp_max_bytes p))"
    using assms by (intro pool_ok_with_limits) (simp add: pool_ok_def within_limits_def)
  from pool_ok_readd [OF this, of "filter valid (mp_transactions p)"]
  show "pool_ok X (retain_valid X valid p)"
    "set (mp_transactions (retain_valid X valid p)) \<subseteq> {t \<in> set (mp_transactions p). valid t}"
    by (auto simp: retain_valid_def with_limits_def)
qed

lemma pool_ok_remove:
  assumes "pool_ok X p" and "i < length (mp_transactions p)"
  shows "pool_ok X (snd (remove_at X i p))"
  using assms indexed_remove [of X "{}" p i] by (auto simp: pool_ok_def within_limits_def)

lemma drain_front_spec:
  assumes "pool_ok X p"
  shows "fst (drain_front X n p) = take n (mp_transactions p) \<and>
    mp_transactions (snd (drain_front X n p)) = drop n (mp_transactions p) \<and> pool_ok X (snd (drain_front X n p))"
  using assms
proof (induction n arbitrary: p)
  case (Suc n)
  show ?case
  proof (cases "mp_transactions p")
    case Nil
    then show ?thesis using Suc.prems by simp
  next
    case (Cons tx txs)
    then have "pool_ok X (snd (remove_at X 0 p))" using Suc.prems by (intro pool_ok_remove) simp_all
    from Suc.IH [OF this] show ?thesis
      by (cases "remove_at X 0 p"; cases "drain_front X n (snd (remove_at X 0 p))")
        (use Cons remove_at_limits(3,4) [of X 0 p] in simp)
  qed
qed simp

lemma pool_ok_sorted: "pool_ok X p \<Longrightarrow> pool_ok X (p\<lparr>mp_transactions := sort_key f (mp_transactions p)\<rparr>)"
  by (simp add: pool_ok_def within_limits_def indexed_def del: split_paired_All)

lemma drain_spec:
  assumes "pool_ok X p"
  shows "fst (drain X n p) = take n (sort_key drain_key (mp_transactions p))"
    and "mp_transactions (snd (drain X n p)) = drop n (sort_key drain_key (mp_transactions p))"
    and "pool_ok X (snd (drain X n p))"
  using drain_front_spec [OF pool_ok_sorted [OF assms, of drain_key], of n] by (simp_all add: drain_def)

end
