(* ===== verification/Pool_Properties.thy ===== *)
theory Pool_Properties
  imports Mempool Ledger_Properties
begin

text \<open>
  Properties of the transaction pool, and of the order in which it hands transactions to a block.
\<close>

subsection \<open>A pool for the witnesses\<close>

text \<open>
  An instance in which every signature verifies and transaction ids are the signed bytes themselves.
\<close>

definition pool_externals :: externals where
  "pool_externals = permissive_externals\<lparr>sha256 := \<lambda>bs. bs,
     hex_encode := map (\<lambda>b. char_of (unat b)), json_transaction := \<lambda>tx. Some (replicate 100 0)\<rparr>"

definition pool_tx0 :: transaction where
  "pool_tx0 = \<lparr>tx_from = ''alice'', tx_to = ''bob'', tx_amount = 1, tx_fee = 10, tx_nonce = 0, tx_signature = ''ss''\<rparr>"

definition pool_tx1 :: transaction where
  "pool_tx1 = pool_tx0\<lparr>tx_fee := 20, tx_nonce := 1\<rparr>"

definition sample_pool :: mempool where
  "sample_pool = insert_transaction pool_externals pool_tx1 100
     (insert_transaction pool_externals pool_tx0 100 (with_limits 2 1000))"

lemma pool_ids: "tx_id pool_externals s = tx_id pool_externals t \<Longrightarrow>
   signing_bytes s @ str_bytes (tx_signature s) = signing_bytes t @ str_bytes (tx_signature t)"
proof -
  have "inj (\<lambda>b :: u8. (char_of (unat b) :: char))"
  proof (rule injI)
    fix b c :: u8 assume "(char_of (unat b) :: char) = char_of (unat c)"
    then have "unat b mod 256 = unat c mod 256" by (metis of_char_of)
    then show "b = c" using unat_lt [of b] unat_lt [of c] by (simp add: word_unat_eq_iff)
  qed
  then have "inj (map (\<lambda>b :: u8. (char_of (unat b) :: char)))" by simp
  moreover have "tx_id pool_externals u = map (\<lambda>b. char_of (unat b)) (signing_bytes u @ str_bytes (tx_signature u))" for u
    unfolding tx_id_def pool_externals_def by (simp del: map_append)
  moreover assume "tx_id pool_externals s = tx_id pool_externals t"
  ultimately show ?thesis by (metis (no_types, lifting) injD)
qed

lemma pool_json: "json_transaction pool_externals tx = Some (replicate 100 0)"
  by (simp add: pool_externals_def)

lemma sample_pool_add:
  "add pool_externals pool_tx0 (with_limits 2 1000) =
     Ok (insert_transaction pool_externals pool_tx0 100 (with_limits 2 1000))"
  "add pool_externals pool_tx1 (insert_transaction pool_externals pool_tx0 100 (with_limits 2 1000)) = Ok sample_pool"
proof -
  have "tx_id pool_externals pool_tx1 \<noteq> tx_id pool_externals pool_tx0"
    using pool_ids [of pool_tx1 pool_tx0] signing_bytes_append_inj [of pool_tx1 pool_tx0]
    by (auto simp: pool_tx1_def pool_tx0_def)
  then show "add pool_externals pool_tx0 (with_limits 2 1000) =
     Ok (insert_transaction pool_externals pool_tx0 100 (with_limits 2 1000))"
    "add pool_externals pool_tx1 (insert_transaction pool_externals pool_tx0 100 (with_limits 2 1000)) = Ok sample_pool"
    by (simp_all add: add_def sample_pool_def replace_previous_def insert_transaction_def with_limits_def
        evict.simps over_limits_def usize_saturating_add_def tx_key_def pool_json)
      (simp_all add: pool_tx0_def pool_tx1_def)
qed

lemma sample_pool_transactions: "mp_transactions sample_pool = [pool_tx0, pool_tx1]"
  by (simp add: sample_pool_def insert_transaction_def with_limits_def)

lemma sample_pool_ok:
  "pool_ok pool_externals (insert_transaction pool_externals pool_tx0 100 (with_limits 2 1000))"
  "pool_ok pool_externals sample_pool"
proof -
  have "pool_ok pool_externals (with_limits 2 1000)" by (rule pool_ok_with_limits) simp
  from pool_ok_add [OF this sample_pool_add(1)]
  show one: "pool_ok pool_externals (insert_transaction pool_externals pool_tx0 100 (with_limits 2 1000))" by simp
  from pool_ok_add [OF this sample_pool_add(2)] show "pool_ok pool_externals sample_pool" by simp
qed

section \<open>Properties\<close>

text \<open>
  C14: Pool integrity. Starting from an empty pool with a byte limit below the largest \<open>usize\<close>,
  adding (accepted), draining and re-validating keep the pool consistent: ids and
  sender-nonce pairs are unique, the id set, the sender-nonce index and the byte count describe
  exactly the stored transactions, and neither limit is exceeded.
\<close>

theorem mempool_integrity:
  assumes "max_bytes < USIZE_MAX" and "pool_ok X p"
  shows "pool_ok X (with_limits max_transactions max_bytes) \<and>
    (\<forall>tx p'. add X tx p = Ok p' \<longrightarrow> pool_ok X p' \<and> tx \<in> set (mp_transactions p')) \<and>
    pool_ok X (snd (drain X n p)) \<and> pool_ok X (retain_valid X valid p)"
  using pool_ok_with_limits [OF assms(1)] drain_spec(3) [OF assms(2)] pool_ok_retain_valid(1) [OF assms(2)]
    pool_ok_add [OF assms(2)]
  by blast

theorem mempool_integrity_witness:
  "pool_ok pool_externals (snd (drain pool_externals 1 sample_pool)) \<and> mp_transactions sample_pool \<noteq> []"
  using mempool_integrity [OF _ sample_pool_ok(2), of 0] by (simp add: sample_pool_transactions)

text \<open>
  Replacement. Adding a transaction whose sender and nonce are already pending succeeds only if
  its fee exceeds the pending fee by a tenth (at least by one, saturating), and then no other
  transaction with that sender and nonce is left; all other pending transactions are kept or
  evicted, never altered.
\<close>

theorem mempool_replacement:
  assumes "pool_ok X p" and "add X tx p = Ok p'"
  shows "(\<forall>old \<in> set (mp_transactions p). tx_key old = tx_key tx \<longrightarrow>
      saturating_add (tx_fee old) (max (tx_fee old div 10) 1) \<le> tx_fee tx) \<and>
    {t \<in> set (mp_transactions p'). tx_key t = tx_key tx} = {tx} \<and>
    set (mp_transactions p') - {tx} \<subseteq> set (mp_transactions p)"
proof (rule add_Ok [OF assms])
  assume "tx \<in> set (mp_transactions p')"
    "set (mp_transactions p') \<subseteq> insert tx {t \<in> set (mp_transactions p). tx_key t \<noteq> tx_key tx}"
    "\<forall>old \<in> set (mp_transactions p). tx_key old = tx_key tx \<longrightarrow>
      saturating_add (tx_fee old) (max (tx_fee old div 10) 1) \<le> tx_fee tx"
  then show ?thesis by blast
qed

theorem mempool_replacement_witness:
  "{t \<in> set (mp_transactions sample_pool). tx_key t = tx_key pool_tx1} = {pool_tx1}"
  using mempool_replacement [OF sample_pool_ok(1) sample_pool_add(2)] by (elim conjE)

text \<open>
  Drain takes the best fees. \<open>drain\<close> returns as many transactions as asked for, or all; together
  with those it leaves they are the pool's transactions; and every drained transaction pays at least
  the fee of every transaction left.
\<close>

theorem mempool_drain_best:
  assumes "pool_ok X p"
  shows "length (fst (drain X n p)) = min n (length (mp_transactions p)) \<and>
    mset (fst (drain X n p)) + mset (mp_transactions (snd (drain X n p))) = mset (mp_transactions p) \<and>
    (\<forall>s \<in> set (fst (drain X n p)). \<forall>t \<in> set (mp_transactions (snd (drain X n p))). tx_fee t \<le> tx_fee s)"
proof -
  let ?s = "sort_key drain_key (mp_transactions p)"
  have "tx_fee t \<le> tx_fee s" if "s \<in> set (take n ?s)" "t \<in> set (drop n ?s)" for s t
    using sorted_key_take_drop [OF that] by (auto simp: drain_key_def less_eq_prod_def intro: less_imp_le)
  moreover have "mset (take n ?s) + mset (drop n ?s) = mset (mp_transactions p)"
    by (metis append_take_drop_id mset_append mset_sort)
  ultimately show ?thesis using drain_spec(1,2) [OF assms, of n] by (simp add: min.commute)
qed

theorem mempool_drain_best_witness:
  "length (fst (drain pool_externals 1 sample_pool)) = 1 \<and>
   mset (fst (drain pool_externals 1 sample_pool)) + mset (mp_transactions (snd (drain pool_externals 1 sample_pool)))
     = {#pool_tx0, pool_tx1#}"
  using mempool_drain_best [OF sample_pool_ok(2), of 1] by (simp add: sample_pool_transactions)

text \<open>
  Fee order breaks nonce order. When a sender has two pending transactions with consecutive
  nonces and the second pays more, \<open>drain\<close> puts the second first, and the transactions in that
  order cannot be executed although the sender's next nonce is that of the first: the ledger
  rejects every block that carries them.
\<close>

theorem drain_order_unexecutable:
  assumes "pool_ok X p" and "mp_transactions p = [first, second]" and "tx_from second = tx_from first"
    and "tx_nonce second = tx_nonce first + 1" and "tx_fee first < tx_fee second" and "2 \<le> n"
    and "get0 nons (tx_from first) = tx_nonce first"
  shows "fst (drain X n p) = [second, first] \<and>
    \<not> is_ok (apply_transactions X cid (fst (drain X n p)) producer (bals, nons))"
proof -
  have "\<not> drain_key first \<le> drain_key second" using assms(5) by (auto simp: drain_key_def less_eq_prod_def)
  then have d: "fst (drain X n p) = [second, first]"
    using drain_spec(1) [OF assms(1), of n] assms(2,6) by (simp add: numeral_2_eq_2 take_Cons')
  have "apply_transaction X cid producer second (bals, nons) \<noteq> Ok s" for s
    using assms(3,4,7) by (cases s) (auto elim!: apply_transaction_Ok)
  then show ?thesis by (auto simp: d apply_transactions_def is_ok_iff result_simps split: sum.splits)
qed

theorem drain_order_unexecutable_witness:
  "fst (drain pool_externals 1000 sample_pool) = [pool_tx1, pool_tx0] \<and>
   \<not> is_ok (apply_transactions pool_externals 21004 (fst (drain pool_externals 1000 sample_pool)) ''producer''
       (fmupd ''alice'' 1000 fmempty, fmempty))"
proof (rule drain_order_unexecutable [OF sample_pool_ok(2) sample_pool_transactions])
  show "tx_from pool_tx1 = tx_from pool_tx0" "tx_nonce pool_tx1 = tx_nonce pool_tx0 + 1" "tx_fee pool_tx0 < tx_fee pool_tx1"
    "get0 fmempty (tx_from pool_tx0) = tx_nonce pool_tx0"
    by (simp_all add: pool_tx0_def pool_tx1_def)
qed simp

end
