(* ===== verification/Quorum.thy ===== *)
theory Quorum
  imports Prelude
begin

text \<open>
  Weighted quorums: the interface between the code that counts votes (the BFT state machine and the
  finality certificates) and the safety arguments. A provider names its voters, their power, the
  total power it compares with and what it accepts as a quorum, and shows that an accepted set has
  more than two thirds of the total. The lemmas are the intersection properties of such sets.
\<close>

definition set_power :: "('k, 'a::len word) fmap \<Rightarrow> 'k set \<Rightarrow> nat" where
  "set_power m Q = (\<Sum>v\<in>Q \<inter> fmdom' m. unat (get0 m v))"

definition two_thirds :: "('k, 'a::len word) fmap \<Rightarrow> 'k set \<Rightarrow> bool" where
  "two_thirds m Q \<longleftrightarrow> 2 * fm_total m < 3 * set_power m Q"

locale weighted_quorum =
  fixes power :: "'v \<Rightarrow> nat" and voters :: "'v set" and total :: nat and quorum :: "'v set \<Rightarrow> bool"
  assumes finite_voters: "finite voters"
    and total_power: "sum power voters \<le> total"
    and quorum_voters: "quorum Q \<Longrightarrow> Q \<subseteq> voters"
    and quorum_power: "quorum Q \<Longrightarrow> 2 * total < 3 * sum power Q"
begin

lemma quorum_intersection:
  assumes "quorum P" and "quorum Q"
  shows "total < 3 * sum power (P \<inter> Q)"
proof -
  have fin: "finite P" "finite Q"
    using assms quorum_voters finite_voters by (meson finite_subset)+
  have "sum power P + sum power Q = sum power (P \<union> Q) + sum power (P \<inter> Q)"
    by (rule sum.union_inter [OF fin, symmetric])
  moreover have "sum power (P \<union> Q) \<le> sum power voters"
    using assms quorum_voters finite_voters by (intro sum_mono2) auto
  ultimately show ?thesis
    using quorum_power [OF assms(1)] quorum_power [OF assms(2)] total_power by linarith
qed

text \<open>With less than a third of the power faulty, two quorums share a correct voter.\<close>

lemma correct_in_both:
  assumes "quorum P" and "quorum Q" and "3 * sum power F \<le> total" and "finite F"
  obtains v where "v \<in> P" "v \<in> Q" "v \<notin> F"
proof -
  have "sum power (P \<inter> Q) \<le> sum power F" if "P \<inter> Q \<subseteq> F"
    using that assms(4) by (intro sum_mono2) auto
  then have "\<not> P \<inter> Q \<subseteq> F" using quorum_intersection [OF assms(1,2)] assms(3) by linarith
  then show ?thesis using that by blast
qed

lemma correct_member:
  assumes "quorum Q" and "3 * sum power F \<le> total" and "finite F"
  obtains v where "v \<in> Q" "v \<notin> F"
  using correct_in_both [OF assms(1,1,2,3)] by blast

end

text \<open>Sets of more than two thirds of the power of a finite map of voters are such quorums.\<close>

lemma set_power_le: "set_power m Q \<le> fm_total m"
  unfolding set_power_def fm_total_def by (intro sum_mono2) auto

interpretation map_quorum: weighted_quorum "\<lambda>v. unat (get0 m v)" "fmdom' m" "fm_total m"
    "\<lambda>Q. Q \<subseteq> fmdom' m \<and> two_thirds m Q"
  for m :: "('k, 'a::len word) fmap"
proof
  show "finite (fmdom' m)" by simp
  show "(\<Sum>v\<in>fmdom' m. unat (get0 m v)) \<le> fm_total m" by (simp add: fm_total_def)
  fix Q assume Q: "Q \<subseteq> fmdom' m \<and> two_thirds m Q"
  then show "Q \<subseteq> fmdom' m" by blast
  have "Q \<inter> fmdom' m = Q" using Q by blast
  with Q show "2 * fm_total m < 3 * (\<Sum>v\<in>Q. unat (get0 m v))" by (simp add: two_thirds_def set_power_def)
qed

subsection \<open>Sums of powers as words\<close>

lemma wrapping_sum_eq_sum_list: "wrapping_sum ws = sum_list ws"
  by (induction ws) simp_all

lemma unat_wrapping_sum_small:
  "sum_list (map unat ws) < 2 ^ LENGTH('a) \<Longrightarrow> unat (wrapping_sum ws) = sum_list (map unat ws)"
  for ws :: "'a::len word list"
  by (simp add: unat_wrapping_sum)

lemma sum_list_fm_entries: "sum_list (map (\<lambda>(k, v). unat v) (fm_entries m)) = fm_total m"
  for m :: "('k::linorder, 'a::len word) fmap"
proof -
  have d: "distinct (sorted_list_of_fset (fmdom m))" "set (sorted_list_of_fset (fmdom m)) = fmdom' m"
    by (simp_all add: sorted_list_of_fset.rep_eq fmdom'_alt_def)
  have "map (\<lambda>(k, v). unat v) (fm_entries m) = map (\<lambda>k. unat (get0 m k)) (sorted_list_of_fset (fmdom m))"
    using d(2) by (auto simp: fm_entries_def get0_def fmdom'_alt_def split: option.splits)
  then show ?thesis using d by (simp add: fm_total_def sum_list_distinct_conv_sum_set)
qed

lemma sum_list_voters:
  assumes "distinct ids"
  shows "sum_list (map unat (List.map_filter (fmlookup m) ids)) = set_power m (set ids)"
  using assms
proof (induction ids)
  case (Cons i ids)
  show ?case
  proof (cases "fmlookup m i")
    case None
    then have "insert i (set ids) \<inter> fmdom' m = set ids \<inter> fmdom' m" by (auto simp: fmdom'_notI)
    with Cons None show ?thesis by (simp add: map_filter_simps set_power_def)
  next
    case (Some p)
    then have "insert i (set ids) \<inter> fmdom' m = insert i (set ids \<inter> fmdom' m)" by (auto intro: fmdom'I)
    with Cons Some show ?thesis by (simp add: map_filter_simps set_power_def get0_def)
  qed
qed (simp add: map_filter_simps set_power_def)

lemma set_power_mono: "A \<subseteq> B \<Longrightarrow> set_power m A \<le> set_power m B"
  unfolding set_power_def by (intro sum_mono2) auto

end
