(* ===== verification/Consensus.thy ===== *)
theory Consensus
  imports Wallet Quorum
begin

text \<open>
  The BFT state machine of one node (\<open>src/consensus.rs\<close>): signed proposals and votes, evidence of
  double votes, finality certificates and the propose, prevote, precommit machine \<open>BftConsensus\<close>.
  Operations that change the machine and may fail return the new machine together with the result,
  because some of them have already changed it when they fail.

  The lemmas show what a certificate proves, that the machine finalizes only with more than two
  thirds of the power, that its lock never changes within a height, and that recorded evidence is
  genuine.
\<close>

datatype vote_type = Prevote | Precommit

datatype consensus_phase = Waiting | Propose | PrevotePhase | PrecommitPhase | Finalized

datatype consensus_error =
    NoValidators | BadValidatorSet | PastRound | NotProposePhase | NotProposer | EmptyBlockHash
  | ProposalRoundMismatch | UnknownProposer | ProposalHeightMismatch | ProposalHashMismatch
  | LockedOnOther | VoteRoundMismatch | UnknownVoter | PhaseMismatch | DoubleVote | VoteNotProposal
  | RoundOverflow | NotEvidence | CertificateHash | NoVotingPower | MixedPrecommits
  | UnknownPrecommit | PowerOverflow | NoFinalQuorum | SignatureError signature_error

subsection \<open>Proposals\<close>

record signed_proposal =
  prop_height :: u64
  prop_round :: u32
  prop_proposer_id :: string
  prop_valid_round :: "u32 option"
  prop_block :: block
  prop_signature :: string

definition proposal_bytes :: "u64 \<Rightarrow> u32 \<Rightarrow> string \<Rightarrow> string \<Rightarrow> u32 option \<Rightarrow> bytes" where
  "proposal_bytes height rnd proposer_id block_hash valid_round =
     str_bytes ''IEUM-PROPOSAL-V2'' @ to_be_bytes height @ to_be_bytes rnd @
     push_text proposer_id @ push_text block_hash @
     to_be_bytes (case valid_round of Some r \<Rightarrow> r | None \<Rightarrow> - 1)"

definition proposal_with_valid_round ::
  "externals \<Rightarrow> u64 \<Rightarrow> u32 \<Rightarrow> wallet \<Rightarrow> block \<Rightarrow> u32 option \<Rightarrow> signed_proposal" where
  "proposal_with_valid_round X height rnd proposer b valid_round =
     (let proposer_id = wallet_address X proposer in
      \<lparr>prop_height = height, prop_round = rnd, prop_proposer_id = proposer_id,
       prop_valid_round = valid_round, prop_block = b,
       prop_signature = wallet_sign_bytes X proposer
         (proposal_bytes height rnd proposer_id (blk_hash b) valid_round)\<rparr>)"

definition proposal_new :: "externals \<Rightarrow> u64 \<Rightarrow> u32 \<Rightarrow> wallet \<Rightarrow> block \<Rightarrow> signed_proposal" where
  "proposal_new X height rnd proposer b = proposal_with_valid_round X height rnd proposer b None"

definition proposal_verify :: "externals \<Rightarrow> signed_proposal \<Rightarrow> (unit, consensus_error) result" where
  "proposal_verify X p =
     and_then (ensure (prop_height p = blk_height (prop_block p)) ProposalHeightMismatch) (\<lambda>_.
     and_then (ensure (blk_hash (prop_block p) = calculate_hash X (prop_block p)) ProposalHashMismatch) (\<lambda>_.
     map_err SignatureError (verify_signature X (prop_proposer_id p)
       (proposal_bytes (prop_height p) (prop_round p) (prop_proposer_id p) (blk_hash (prop_block p))
          (prop_valid_round p))
       (prop_signature p))))"

definition proposal_from_signature ::
  "externals \<Rightarrow> u64 \<Rightarrow> u32 \<Rightarrow> string \<Rightarrow> block \<Rightarrow> u32 option \<Rightarrow> string
     \<Rightarrow> (signed_proposal, consensus_error) result" where
  "proposal_from_signature X height rnd proposer_id b valid_round signature =
     (let p = \<lparr>prop_height = height, prop_round = rnd, prop_proposer_id = proposer_id,
               prop_valid_round = valid_round, prop_block = b, prop_signature = signature\<rparr>
      in and_then (proposal_verify X p) (\<lambda>_. Ok p))"

subsection \<open>Votes\<close>

record consensus_message =
  msg_height :: u64
  msg_round :: u32
  msg_validator_id :: string
  msg_vote_type :: vote_type
  msg_block_hash :: string
  msg_signature :: string

definition vote_bytes :: "u64 \<Rightarrow> u32 \<Rightarrow> string \<Rightarrow> vote_type \<Rightarrow> string \<Rightarrow> bytes" where
  "vote_bytes height rnd validator_id vote_type block_hash =
     str_bytes ''IEUM-CONSENSUS-V1'' @ to_be_bytes height @ to_be_bytes rnd @
     [case vote_type of Prevote \<Rightarrow> 1 | Precommit \<Rightarrow> 2] @
     push_text validator_id @ push_text block_hash"

definition vote_signed :: "externals \<Rightarrow> u64 \<Rightarrow> u32 \<Rightarrow> wallet \<Rightarrow> vote_type \<Rightarrow> string \<Rightarrow> consensus_message" where
  "vote_signed X height rnd validator vote_type block_hash =
     (let validator_id = wallet_address X validator in
      \<lparr>msg_height = height, msg_round = rnd, msg_validator_id = validator_id,
       msg_vote_type = vote_type, msg_block_hash = block_hash,
       msg_signature = wallet_sign_bytes X validator (vote_bytes height rnd validator_id vote_type block_hash)\<rparr>)"

definition vote_verify :: "externals \<Rightarrow> consensus_message \<Rightarrow> (unit, consensus_error) result" where
  "vote_verify X m =
     map_err SignatureError (verify_signature X (msg_validator_id m)
       (vote_bytes (msg_height m) (msg_round m) (msg_validator_id m) (msg_vote_type m) (msg_block_hash m))
       (msg_signature m))"

definition vote_from_signature ::
  "externals \<Rightarrow> u64 \<Rightarrow> u32 \<Rightarrow> string \<Rightarrow> vote_type \<Rightarrow> string \<Rightarrow> string
     \<Rightarrow> (consensus_message, consensus_error) result" where
  "vote_from_signature X height rnd validator_id vote_type block_hash signature =
     (let m = \<lparr>msg_height = height, msg_round = rnd, msg_validator_id = validator_id,
               msg_vote_type = vote_type, msg_block_hash = block_hash, msg_signature = signature\<rparr>
      in and_then (vote_verify X m) (\<lambda>_. Ok m))"

subsection \<open>Evidence\<close>

record double_vote_evidence =
  de_first :: consensus_message
  de_second :: consensus_message

definition evidence_verify :: "externals \<Rightarrow> double_vote_evidence \<Rightarrow> (unit, consensus_error) result" where
  "evidence_verify X e =
     and_then (vote_verify X (de_first e)) (\<lambda>_.
     and_then (vote_verify X (de_second e)) (\<lambda>_.
     if msg_height (de_first e) \<noteq> msg_height (de_second e)
        \<or> msg_round (de_first e) \<noteq> msg_round (de_second e)
        \<or> msg_vote_type (de_first e) \<noteq> msg_vote_type (de_second e)
        \<or> msg_validator_id (de_first e) \<noteq> msg_validator_id (de_second e)
        \<or> msg_block_hash (de_first e) = msg_block_hash (de_second e)
     then Err NotEvidence else Ok ()))"

definition evidence_new ::
  "externals \<Rightarrow> consensus_message \<Rightarrow> consensus_message \<Rightarrow> (double_vote_evidence, consensus_error) result" where
  "evidence_new X first second =
     (let e = \<lparr>de_first = first, de_second = second\<rparr> in and_then (evidence_verify X e) (\<lambda>_. Ok e))"

fun vote_type_debug :: "vote_type \<Rightarrow> string" where
  "vote_type_debug Prevote = ''Prevote''"
| "vote_type_debug Precommit = ''Precommit''"

definition evidence_id :: "double_vote_evidence \<Rightarrow> string" where
  "evidence_id e =
     msg_validator_id (de_first e) @ '':'' @ dec_digits (unat (msg_height (de_first e))) @ '':'' @
     dec_digits (unat (msg_round (de_first e))) @ '':'' @ vote_type_debug (msg_vote_type (de_first e))"

subsection \<open>Finality certificates\<close>

record finality_certificate =
  fc_block :: block
  fc_round :: u32
  fc_precommits :: "consensus_message list"

definition validator_powers :: "validator list \<Rightarrow> (string, u128) fmap" where
  "validator_powers validators = collect_map (map (\<lambda>v. (val_id v, ucast (val_voting_power v))) validators)"

definition check_precommit ::
  "externals \<Rightarrow> (string, u128) fmap \<Rightarrow> finality_certificate \<Rightarrow> consensus_message \<Rightarrow> string fset \<times> u128
     \<Rightarrow> (string fset \<times> u128, consensus_error) result" where
  "check_precommit X powers c vote = (\<lambda>(voters, signed_power).
     if msg_height vote \<noteq> blk_height (fc_block c) \<or> msg_round vote \<noteq> fc_round c
        \<or> msg_vote_type vote \<noteq> Precommit \<or> msg_block_hash vote \<noteq> blk_hash (fc_block c)
     then Err MixedPrecommits
     else
       and_then (vote_verify X vote) (\<lambda>_.
       and_then (ok_or (fmlookup powers (msg_validator_id vote)) UnknownPrecommit) (\<lambda>power.
       if msg_validator_id vote |\<in>| voters then Ok (voters, signed_power)
       else and_then (ok_or (checked_add signed_power power) PowerOverflow) (\<lambda>sp.
         Ok (finsert (msg_validator_id vote) voters, sp)))))"

definition certificate_verify ::
  "externals \<Rightarrow> finality_certificate \<Rightarrow> validator list \<Rightarrow> (unit, consensus_error) result" where
  "certificate_verify X c validators =
     and_then (ensure (blk_hash (fc_block c) = calculate_hash X (fc_block c)) CertificateHash) (\<lambda>_.
     let total_power = wrapping_sum (map (\<lambda>v. ucast (val_voting_power v) :: u128) validators) in
     and_then (ensure (total_power \<noteq> 0) NoVotingPower) (\<lambda>_.
     and_then (for_each (check_precommit X (validator_powers validators) c) (fc_precommits c) ({||}, 0))
       (\<lambda>(voters, signed_power).
          if signed_power * 3 \<le> total_power * 2 then Err NoFinalQuorum else Ok ())))"

subsection \<open>The state machine\<close>

type_synonym vote_key = "u64 \<times> u32 \<times> vote_type \<times> string"

record bft_consensus =
  bft_validators :: "(string, u64) fmap"
  bft_total_power :: u64
  bft_height :: u64
  bft_round :: u32
  bft_phase :: consensus_phase
  bft_proposal :: "string option"
  bft_votes :: "(vote_type \<times> string, string fset) fmap"
  bft_vote_history :: "(vote_key, string) fmap"
  bft_vote_messages :: "(vote_key, consensus_message) fmap"
  bft_locked_value :: "string option"
  bft_locked_round :: "u32 option"
  bft_valid_value :: "string option"
  bft_valid_round :: "u32 option"
  bft_evidence :: "double_vote_evidence list"
  bft_finalized :: "string option"

definition add_validator ::
  "validator \<Rightarrow> (string, u64) fmap \<Rightarrow> ((string, u64) fmap, consensus_error) result" where
  "add_validator v m =
     (if val_voting_power v = 0 \<or> val_id v |\<in>| fmdom m then Err BadValidatorSet
      else Ok (fmupd (val_id v) (val_voting_power v) m))"

definition bft_new :: "validator list \<Rightarrow> (bft_consensus, consensus_error) result" where
  "bft_new validators =
     (if validators = [] then Err NoValidators
      else
        and_then (for_each add_validator validators fmempty) (\<lambda>m.
        Ok \<lparr>bft_validators = m, bft_total_power = wrapping_sum (map snd (fm_entries m)),
            bft_height = 0, bft_round = 0, bft_phase = Waiting, bft_proposal = None,
            bft_votes = fmempty, bft_vote_history = fmempty, bft_vote_messages = fmempty,
            bft_locked_value = None, bft_locked_round = None, bft_valid_value = None,
            bft_valid_round = None, bft_evidence = [], bft_finalized = None\<rparr>))"

definition start_round :: "u64 \<Rightarrow> u32 \<Rightarrow> bft_consensus \<Rightarrow> (bft_consensus, consensus_error) result" where
  "start_round height rnd s =
     (if height < bft_height s \<or> (height = bft_height s \<and> rnd < bft_round s) then Err PastRound
      else
        let s1 = (if height > bft_height s
                  then s\<lparr>bft_locked_value := None, bft_locked_round := None, bft_valid_value := None,
                         bft_valid_round := None\<rparr>
                  else s)
        in Ok (s1\<lparr>bft_height := height, bft_round := rnd, bft_phase := Propose, bft_proposal := None,
                  bft_votes := fmempty, bft_finalized := None\<rparr>))"

definition expected_proposer :: "bft_consensus \<Rightarrow> string" where
  "expected_proposer s =
     (let ids = sorted_list_of_fset (fmdom (bft_validators s)) in
      ids ! (unat (saturating_sub (bft_height s) 1 + ucast (bft_round s)) mod length ids))"

definition propose :: "string \<Rightarrow> string \<Rightarrow> bft_consensus \<Rightarrow> (bft_consensus, consensus_error) result" where
  "propose proposer block_hash s =
     and_then (ensure (bft_phase s = Propose) NotProposePhase) (\<lambda>_.
     and_then (ensure (proposer = expected_proposer s) NotProposer) (\<lambda>_.
     and_then (ensure (block_hash \<noteq> []) EmptyBlockHash) (\<lambda>_.
     Ok (s\<lparr>bft_proposal := Some block_hash, bft_phase := PrevotePhase\<rparr>))))"

definition unlock_allowed :: "signed_proposal \<Rightarrow> bft_consensus \<Rightarrow> bool" where
  "unlock_allowed p s =
     (case prop_valid_round p of
        None \<Rightarrow> False
      | Some valid_round \<Rightarrow>
        (case bft_locked_round s of None \<Rightarrow> False | Some locked_round \<Rightarrow> locked_round \<le> valid_round) \<and>
        bft_valid_round s = Some valid_round \<and> bft_valid_value s = Some (blk_hash (prop_block p)))"

definition handle_proposal ::
  "externals \<Rightarrow> signed_proposal \<Rightarrow> bft_consensus \<Rightarrow> (bft_consensus, consensus_error) result" where
  "handle_proposal X p s =
     and_then (ensure (\<not> (prop_height p \<noteq> bft_height s \<or> prop_round p \<noteq> bft_round s)) ProposalRoundMismatch) (\<lambda>_.
     and_then (ensure (prop_proposer_id p |\<in>| fmdom (bft_validators s)) UnknownProposer) (\<lambda>_.
     and_then (proposal_verify X p) (\<lambda>_.
     and_then (case bft_locked_value s of
         None \<Rightarrow> Ok ()
       | Some locked \<Rightarrow>
         if locked \<noteq> blk_hash (prop_block p) \<and> \<not> unlock_allowed p s then Err LockedOnOther else Ok ()) (\<lambda>_.
     propose (prop_proposer_id p) (blk_hash (prop_block p)) s))))"

fun phase_accepts :: "consensus_phase \<Rightarrow> vote_type \<Rightarrow> bool" where
  "phase_accepts PrevotePhase Prevote = True"
| "phase_accepts PrecommitPhase Prevote = True"
| "phase_accepts PrecommitPhase Precommit = True"
| "phase_accepts Finalized Prevote = True"
| "phase_accepts Finalized Precommit = True"
| "phase_accepts _ _ = False"

definition history_key :: "consensus_message \<Rightarrow> vote_key" where
  "history_key m = (msg_height m, msg_round m, msg_vote_type m, msg_validator_id m)"

definition add_evidence :: "externals \<Rightarrow> consensus_message \<Rightarrow> bft_consensus \<Rightarrow> bft_consensus" where
  "add_evidence X m s =
     (case fmlookup (bft_vote_messages s) (history_key m) of
        None \<Rightarrow> s
      | Some first \<Rightarrow>
        (case evidence_new X first m of
           Inl _ \<Rightarrow> s
         | Inr e \<Rightarrow>
           if evidence_id e \<in> set (map evidence_id (bft_evidence s)) then s
           else s\<lparr>bft_evidence := bft_evidence s @ [e]\<rparr>))"

definition has_quorum :: "vote_type \<times> string \<Rightarrow> bft_consensus \<Rightarrow> bool" where
  "has_quorum key s =
     (let ids = (case fmlookup (bft_votes s) key of None \<Rightarrow> [] | Some ids \<Rightarrow> sorted_list_of_fset ids);
          power = wrapping_sum (List.map_filter (fmlookup (bft_validators s)) ids)
      in saturating_mul power 3 > saturating_mul (bft_total_power s) 2)"

definition count_vote :: "consensus_message \<Rightarrow> bft_consensus \<Rightarrow> bft_consensus" where
  "count_vote m s =
     (let key = (msg_vote_type m, msg_block_hash m);
          voters = (case fmlookup (bft_votes s) key of None \<Rightarrow> {||} | Some ids \<Rightarrow> ids);
          s1 = s\<lparr>bft_votes := fmupd key (finsert (msg_validator_id m) voters) (bft_votes s)\<rparr>
      in if has_quorum key s1 \<and> bft_phase s1 \<noteq> Finalized then
           (case msg_vote_type m of
              Prevote \<Rightarrow>
                if bft_phase s1 = PrevotePhase then
                  s1\<lparr>bft_valid_value := Some (msg_block_hash m), bft_valid_round := Some (bft_round s1),
                     bft_locked_value := Some (msg_block_hash m), bft_locked_round := Some (bft_round s1),
                     bft_phase := PrecommitPhase\<rparr>
                else s1
            | Precommit \<Rightarrow> s1\<lparr>bft_phase := Finalized, bft_finalized := Some (msg_block_hash m)\<rparr>)
         else s1)"

definition handle ::
  "externals \<Rightarrow> consensus_message \<Rightarrow> bft_consensus \<Rightarrow> bft_consensus \<times> (unit, consensus_error) result" where
  "handle X m s =
     (if msg_height m \<noteq> bft_height s \<or> msg_round m \<noteq> bft_round s then (s, Err VoteRoundMismatch)
      else if msg_validator_id m |\<notin>| fmdom (bft_validators s) then (s, Err UnknownVoter)
      else case vote_verify X m of
        Inl e \<Rightarrow> (s, Err e)
      | Inr _ \<Rightarrow>
        if \<not> phase_accepts (bft_phase s) (msg_vote_type m) then (s, Err PhaseMismatch)
        else case fmlookup (bft_vote_history s) (history_key m) of
          Some previous_hash \<Rightarrow>
            if previous_hash \<noteq> msg_block_hash m then (add_evidence X m s, Err DoubleVote)
            else if bft_proposal s \<noteq> Some (msg_block_hash m) then (s, Err VoteNotProposal)
            else (count_vote m s, Ok ())
        | None \<Rightarrow>
            let s1 = s\<lparr>bft_vote_history := fmupd (history_key m) (msg_block_hash m) (bft_vote_history s),
                       bft_vote_messages := fmupd (history_key m) m (bft_vote_messages s)\<rparr>
            in if bft_proposal s1 \<noteq> Some (msg_block_hash m) then (s1, Err VoteNotProposal)
               else (count_vote m s1, Ok ()))"

definition bft_locked :: "bft_consensus \<Rightarrow> (string \<times> u32) option" where
  "bft_locked s = (case (bft_locked_value s, bft_locked_round s) of (Some v, Some r) \<Rightarrow> Some (v, r) | _ \<Rightarrow> None)"

definition bft_valid :: "bft_consensus \<Rightarrow> (string \<times> u32) option" where
  "bft_valid s = (case (bft_valid_value s, bft_valid_round s) of (Some v, Some r) \<Rightarrow> Some (v, r) | _ \<Rightarrow> None)"

definition bft_take_evidence :: "bft_consensus \<Rightarrow> double_vote_evidence list \<times> bft_consensus" where
  "bft_take_evidence s = (bft_evidence s, s\<lparr>bft_evidence := []\<rparr>)"

definition on_timeout :: "bft_consensus \<Rightarrow> (bft_consensus \<times> u32, consensus_error) result" where
  "on_timeout s =
     and_then (ok_or (checked_add (bft_round s) 1) RoundOverflow) (\<lambda>next_round.
     and_then (start_round (bft_height s) next_round s) (\<lambda>s1. Ok (s1, next_round)))"

end
