(* ===== verification/Signer.thy ===== *)
theory Signer
  imports Wallet
begin

text \<open>
  The signer of a validator (\<open>src/signer.rs\<close>): a local wallet, or external programs that are
  tried in order until one returns a signature that verifies. A program is a parameter: the
  function from the payload to its trimmed answer, \<open>None\<close> when it cannot be started, times out, fails
  or does not answer in UTF-8. A program answers one payload in one way; programs that fail only now and
  then, and waiting between requests, are not modelled.
\<close>

datatype signer_error = NoSignerProgram | SignerKeyLength | AllSignersFailed "signature_error option list"

record external_signer =
  es_programs :: "(bytes \<Rightarrow> string option) list"
  es_public_key :: string

datatype validator_signer = Local wallet | External external_signer

definition with_failover ::
  "externals \<Rightarrow> (bytes \<Rightarrow> string option) list \<Rightarrow> string \<Rightarrow> (external_signer, signer_error) result" where
  "with_failover X programs public_key =
     and_then (ensure (programs \<noteq> []) NoSignerProgram) (\<lambda>_.
     and_then (ensure ((case hex_decode X public_key of None \<Rightarrow> 0 | Some bs \<Rightarrow> length bs) = 32) SignerKeyLength) (\<lambda>_.
     Ok \<lparr>es_programs = programs, es_public_key = public_key\<rparr>))"

definition try_program ::
  "externals \<Rightarrow> string \<Rightarrow> bytes \<Rightarrow> (bytes \<Rightarrow> string option) \<Rightarrow> (string, signature_error option) result" where
  "try_program X public_key payload program =
     (case program payload of
        None \<Rightarrow> Err None
      | Some signature \<Rightarrow>
        and_then (map_err Some (verify_signature X public_key payload signature)) (\<lambda>_. Ok signature))"

fun try_programs ::
  "externals \<Rightarrow> string \<Rightarrow> bytes \<Rightarrow> (bytes \<Rightarrow> string option) list \<Rightarrow> signature_error option list
     \<Rightarrow> (string, signer_error) result" where
  "try_programs X public_key payload [] failures = Err (AllSignersFailed failures)"
| "try_programs X public_key payload (program # programs) failures =
     (case try_program X public_key payload program of
        Inr signature \<Rightarrow> Ok signature
      | Inl e \<Rightarrow> try_programs X public_key payload programs (failures @ [e]))"

definition external_sign_bytes :: "externals \<Rightarrow> external_signer \<Rightarrow> bytes \<Rightarrow> (string, signer_error) result" where
  "external_sign_bytes X s payload = try_programs X (es_public_key s) payload (es_programs s) []"

fun signer_address :: "externals \<Rightarrow> validator_signer \<Rightarrow> string" where
  "signer_address X (Local w) = wallet_address X w"
| "signer_address X (External s) = es_public_key s"

fun signer_sign_bytes :: "externals \<Rightarrow> validator_signer \<Rightarrow> bytes \<Rightarrow> (string, signer_error) result" where
  "signer_sign_bytes X (Local w) payload = Ok (wallet_sign_bytes X w payload)"
| "signer_sign_bytes X (External s) payload = external_sign_bytes X s payload"

subsection \<open>Lemmas\<close>

lemma try_programs_Ok:
  "(\<exists>f. try_programs X k m programs fs = Ok f) \<longleftrightarrow>
     (\<exists>p \<in> set programs. \<exists>sig. p m = Some sig \<and> verify_signature X k m sig = Ok ())"
proof (induction programs arbitrary: fs)
  case (Cons p programs)
  have "(\<exists>s. try_program X k m p = Ok s) \<longleftrightarrow> (\<exists>sig. p m = Some sig \<and> verify_signature X k m sig = Ok ())"
    by (auto simp: try_program_def result_simps split: option.splits)
  with Cons show ?case by (cases "try_program X k m p") auto
qed simp

lemma try_programs_verifies:
  "try_programs X k m programs fs = Ok sig \<Longrightarrow> verify_signature X k m sig = Ok ()"
proof (induction programs arbitrary: fs)
  case (Cons p programs)
  then show ?case
    by (cases "try_program X k m p") (auto simp: try_program_def result_simps split: option.splits)
qed simp

end
