(* ===== verification/Consensus_Runtime.thy ===== *)
theory Consensus_Runtime
  imports Chain Consensus Signer Iterators
begin

text \<open>
  The consensus driver of a node (\<open>src/consensus_runtime.rs\<close>): it owns the ledger and the BFT
  machine, signs votes, keeps the candidate block in memory, applies a block only after more than two
  thirds of the precommits, stores finality certificates, defers early votes, and imports blocks
  from other nodes. Both clocks are arguments: \<open>now\<close> (the monotonic clock, in nanoseconds) and
  \<open>clock\<close> (Unix seconds, \<open>None\<close> before the epoch). Methods that change the driver return it with
  their result also when they fail, because several have changed it by then.
\<close>

datatype runtime_error =
    BftError consensus_error | LedgerError chain_error | EventError event_error | SignError signer_error
  | NotProposePhaseNow | NotCurrentProposer | NoGenesisForProposal | ProposalNotNext
  | NoPendingBlock | FinalizedHashMismatch | LedgerCertificateMismatch | CanonicalMissing
  | FinalityViolation u64 | SyncGap | NotFinalizedYet | AfterBootstrap | NoPreviousBlock
  | TimestampBeforePrevious | ClockBeforeEpoch | TimestampInFuture | BootstrapRewardMismatch
  | BuiltinEventId | EventRunAlready string | NoTipPanic

record consensus_timeouts =
  to_propose :: nat
  to_prevote :: nat
  to_precommit :: nat

definition uniform :: "nat \<Rightarrow> consensus_timeouts" where
  "uniform timeout = \<lparr>to_propose = timeout, to_prevote = timeout, to_precommit = timeout\<rparr>"

fun for_phase :: "consensus_timeouts \<Rightarrow> consensus_phase \<Rightarrow> nat" where
  "for_phase t Waiting = to_propose t"
| "for_phase t Propose = to_propose t"
| "for_phase t PrevotePhase = to_prevote t"
| "for_phase t PrecommitPhase = to_precommit t"
| "for_phase t Finalized = to_precommit t"

record consensus_runtime =
  rt_chain :: blockchain
  rt_consensus :: bft_consensus
  rt_validator :: validator_signer
  rt_pending :: "block option"
  rt_valid_block :: "block option"
  rt_deadline :: nat
  rt_timeouts :: consensus_timeouts
  rt_validators :: "validator list"
  rt_precommits :: "consensus_message list"
  rt_deferred_votes :: "consensus_message list"
  rt_finalized :: "finality_certificate list"
  rt_pending_finalized :: "finality_certificate list"
  rt_event_schedule :: event_schedule

definition last_block :: "blockchain \<Rightarrow> block option" where
  "last_block c = (if blocks c = [] then None else Some (last (blocks c)))"

definition with_signer ::
  "nat \<Rightarrow> blockchain \<Rightarrow> validator list \<Rightarrow> validator_signer \<Rightarrow> consensus_timeouts
     \<Rightarrow> (consensus_runtime, runtime_error) result" where
  "with_signer now c validators validator timeouts =
     (let next_height = (case last_block c of Some b \<Rightarrow> blk_height b + 1 | None \<Rightarrow> 1) in
      and_then (map_err BftError (bft_new validators)) (\<lambda>s0.
      and_then (map_err BftError (start_round next_height 0 s0)) (\<lambda>s.
      Ok \<lparr>rt_chain = c, rt_consensus = s, rt_validator = validator, rt_pending = None,
          rt_valid_block = None, rt_deadline = now + to_propose timeouts, rt_timeouts = timeouts,
          rt_validators = validators, rt_precommits = [], rt_deferred_votes = [], rt_finalized = [],
          rt_pending_finalized = [], rt_event_schedule = []\<rparr>)))"

definition set_event_schedule ::
  "externals \<Rightarrow> event_schedule \<Rightarrow> consensus_runtime \<Rightarrow> (consensus_runtime, runtime_error) result" where
  "set_event_schedule X schedule rt =
     and_then (map_err EventError (schedule_validate X schedule)) (\<lambda>_.
     Ok (rt\<lparr>rt_event_schedule := schedule\<rparr>))"

definition reset_deadline :: "nat \<Rightarrow> consensus_runtime \<Rightarrow> consensus_runtime" where
  "reset_deadline now rt = rt\<lparr>rt_deadline := now + for_phase (rt_timeouts rt) (bft_phase (rt_consensus rt))\<rparr>"

subsection \<open>Proposals\<close>

definition make_proposal ::
  "externals \<Rightarrow> block \<Rightarrow> consensus_runtime \<Rightarrow> (signed_proposal, runtime_error) result" where
  "make_proposal X b0 rt =
     (let s = rt_consensus rt; proposer_id = signer_address X (rt_validator rt) in
      and_then (ensure (bft_phase s = Propose) NotProposePhaseNow) (\<lambda>_.
      and_then (ensure (proposer_id = expected_proposer s) NotCurrentProposer) (\<lambda>_.
      let (b, valid_round) =
            (case (rt_valid_block rt, bft_valid s) of
               (Some vb, Some (h, r)) \<Rightarrow> if blk_hash vb = h then (vb, Some r) else (b0, None)
             | _ \<Rightarrow> (b0, None)) in
      and_then (map_err SignError (signer_sign_bytes X (rt_validator rt)
          (proposal_bytes (blk_height b) (bft_round s) proposer_id (blk_hash b) valid_round))) (\<lambda>signature.
      map_err BftError
        (proposal_from_signature X (blk_height b) (bft_round s) proposer_id b valid_round signature)))))"

fun builtin_reward :: "scheduled_event_action \<Rightarrow> bool" where
  "builtin_reward (BootstrapValidatorReward _ _) = True"
| "builtin_reward (NodeMilestoneReward _ _) = True"
| "builtin_reward _ = False"

definition check_builtin_event ::
  "externals \<Rightarrow> validator list \<Rightarrow> string fset \<Rightarrow> scheduled_event \<Rightarrow> unit \<Rightarrow> (unit, runtime_error) result" where
  "check_builtin_event X validators executed ev _ =
     (let rest =
            and_then (map_err EventError (event_validate X ev)) (\<lambda>_.
            if ev_id ev |\<in>| executed then Err (EventRunAlready (ev_id ev)) else Ok ()) in
      case ev_action ev of
        BootstrapValidatorReward registrations _ \<Rightarrow>
          if ev_id ev = ''ieum-bootstrap-validator-reward-v1'' then
            if sort (map vr_validator_id registrations) \<noteq> sort (map val_id validators)
            then Err BootstrapRewardMismatch else rest
          else Err BuiltinEventId
      | NodeMilestoneReward _ _ \<Rightarrow>
          if ev_id ev = ''ieum-node-100-reward-v1'' then rest else Err BuiltinEventId
      | _ \<Rightarrow> Ok ())"

definition validate_scheduled_block ::
  "externals \<Rightarrow> u64 option \<Rightarrow> consensus_runtime \<Rightarrow> block \<Rightarrow> (unit, runtime_error) result" where
  "validate_scheduled_block X clock rt b =
     and_then (ok_or (last_block (rt_chain rt)) NoPreviousBlock) (\<lambda>previous.
     and_then (ensure (\<not> blk_timestamp b < blk_timestamp previous) TimestampBeforePrevious) (\<lambda>_.
     and_then (ok_or clock ClockBeforeEpoch) (\<lambda>now.
     and_then (ensure (\<not> blk_timestamp b > saturating_add now MAX_CLOCK_DRIFT_SECONDS) TimestampInFuture) (\<lambda>_.
     and_then (map_err EventError
         (validate_block_events (rt_event_schedule rt) (blk_timestamp b)
            (filter (\<lambda>ev. \<not> builtin_reward (ev_action ev)) (blk_system_events b))
            (executed_events (rt_chain rt)))) (\<lambda>_.
     for_each (check_builtin_event X (rt_validators rt) (executed_events (rt_chain rt)))
       (blk_system_events b) ())))))"

definition sign_vote ::
  "externals \<Rightarrow> u64 \<Rightarrow> u32 \<Rightarrow> vote_type \<Rightarrow> string \<Rightarrow> consensus_runtime
     \<Rightarrow> (consensus_message, runtime_error) result" where
  "sign_vote X height rnd vote_type block_hash rt =
     (let validator_id = signer_address X (rt_validator rt) in
      and_then (map_err SignError (signer_sign_bytes X (rt_validator rt)
          (vote_bytes height rnd validator_id vote_type block_hash))) (\<lambda>signature.
      map_err BftError (vote_from_signature X height rnd validator_id vote_type block_hash signature)))"

definition receive_proposal ::
  "externals \<Rightarrow> nat \<Rightarrow> u64 option \<Rightarrow> signed_proposal \<Rightarrow> consensus_runtime
     \<Rightarrow> consensus_runtime \<times> (consensus_message, runtime_error) result" where
  "receive_proposal X now clock p rt =
     (case last_block (rt_chain rt) of
        None \<Rightarrow> (rt, Err NoGenesisForProposal)
      | Some previous \<Rightarrow>
        if blk_previous_hash (prop_block p) \<noteq> blk_hash previous
           \<or> blk_height (prop_block p) \<noteq> blk_height previous + 1 then (rt, Err ProposalNotNext)
        else case validate_scheduled_block X clock rt (prop_block p) of
          Inl e \<Rightarrow> (rt, Err e)
        | Inr _ \<Rightarrow>
          (case handle_proposal X p (rt_consensus rt) of
             Inl e \<Rightarrow> (rt, Err (BftError e))
           | Inr s \<Rightarrow>
             let rt1 = reset_deadline now (rt\<lparr>rt_consensus := s, rt_pending := Some (prop_block p)\<rparr>)
             in (rt1, sign_vote X (prop_height p) (prop_round p) Prevote (blk_hash (prop_block p)) rt1)))"

subsection \<open>Votes\<close>

text \<open>The second half of \<open>receive_vote\<close>: what happens in the finalized phase.\<close>

definition finalize_pending ::
  "externals \<Rightarrow> consensus_runtime \<Rightarrow> consensus_runtime \<times> (consensus_message option, runtime_error) result" where
  "finalize_pending X rt =
     (case rt_pending rt of
        None \<Rightarrow> (rt, Ok None)
      | Some b \<Rightarrow>
        let rt1 = rt\<lparr>rt_pending := None\<rparr> in
        if bft_finalized (rt_consensus rt1) \<noteq> Some (blk_hash b) then (rt1, Err FinalizedHashMismatch)
        else
          let certificate = \<lparr>fc_block = b, fc_round = bft_round (rt_consensus rt1),
                fc_precommits = rt_precommits rt1\<rparr> in
          case certificate_verify X certificate (rt_validators rt1) of
            Inl e \<Rightarrow> (rt1, Err (BftError e))
          | Inr _ \<Rightarrow>
            (case apply_block X (rt_chain rt1) b of
               (c, Inl e) \<Rightarrow> (rt1\<lparr>rt_chain := c\<rparr>, Err (LedgerError e))
             | (c, Inr _) \<Rightarrow>
               (rt1\<lparr>rt_chain := c, rt_finalized := rt_finalized rt1 @ [certificate],
                    rt_pending_finalized := rt_pending_finalized rt1 @ [certificate]\<rparr>, Ok None)))"

definition same_slot :: "consensus_message \<Rightarrow> consensus_message \<Rightarrow> bool" where
  "same_slot a b \<longleftrightarrow> msg_height a = msg_height b \<and> msg_round a = msg_round b \<and> msg_validator_id a = msg_validator_id b"

definition store_precommit :: "consensus_message \<Rightarrow> consensus_runtime \<Rightarrow> consensus_runtime" where
  "store_precommit vote rt =
     (if msg_vote_type vote = Precommit \<and> \<not> list_ex (\<lambda>e. same_slot e vote) (rt_precommits rt)
      then rt\<lparr>rt_precommits := rt_precommits rt @ [vote]\<rparr> else rt)"

definition after_phase_change :: "nat \<Rightarrow> consensus_phase \<Rightarrow> consensus_runtime \<Rightarrow> consensus_runtime" where
  "after_phase_change now previous_phase rt =
     (if previous_phase \<noteq> bft_phase (rt_consensus rt) then
        reset_deadline now
          (if previous_phase = PrevotePhase \<and> bft_phase (rt_consensus rt) = PrecommitPhase
           then rt\<lparr>rt_valid_block := rt_pending rt\<rparr> else rt)
      else rt)"

definition receive_vote ::
  "externals \<Rightarrow> nat \<Rightarrow> consensus_message \<Rightarrow> consensus_runtime
     \<Rightarrow> consensus_runtime \<times> (consensus_message option, runtime_error) result" where
  "receive_vote X now vote rt =
     (let previous_phase = bft_phase (rt_consensus rt) in
      case handle X vote (rt_consensus rt) of
        (s, Inl e) \<Rightarrow> (rt\<lparr>rt_consensus := s\<rparr>, Err (BftError e))
      | (s, Inr _) \<Rightarrow>
        let rt1 = after_phase_change now previous_phase (store_precommit vote (rt\<lparr>rt_consensus := s\<rparr>)) in
        if bft_phase s = PrecommitPhase then
          (case rt_pending rt1 of
             None \<Rightarrow> (rt1, Err NoPendingBlock)
           | Some b \<Rightarrow>
             (rt1, and_then (sign_vote X (blk_height b) (bft_round s) Precommit (blk_hash b) rt1) (\<lambda>m. Ok (Some m))))
        else if bft_phase s = Finalized then finalize_pending X rt1
        else (rt1, Ok None))"

definition MAX_DEFERRED_VOTES :: nat where
  "MAX_DEFERRED_VOTES = 1024"

definition defer_vote :: "consensus_message \<Rightarrow> consensus_runtime \<Rightarrow> consensus_runtime" where
  "defer_vote vote rt =
     (if list_ex (\<lambda>known. same_slot known vote \<and> msg_vote_type known = msg_vote_type vote
           \<and> msg_block_hash known = msg_block_hash vote) (rt_deferred_votes rt) then rt
      else
        let kept = (if length (rt_deferred_votes rt) \<ge> MAX_DEFERRED_VOTES
                    then remove_nth 0 (rt_deferred_votes rt) else rt_deferred_votes rt)
        in rt\<lparr>rt_deferred_votes := kept @ [vote]\<rparr>)"

definition is_deferable_vote_error :: "runtime_error \<Rightarrow> bool" where
  "is_deferable_vote_error e \<longleftrightarrow> e = BftError PhaseMismatch"

text \<open>
  One pass of \<open>replay_deferred_votes\<close> over the votes taken from the queue, with the accumulated
  outbound votes, the remaining votes and the progress flag. A failing second \<open>receive_vote\<close> ends
  the whole method.
\<close>

fun replay_pass ::
  "externals \<Rightarrow> nat \<Rightarrow> consensus_message list \<Rightarrow> consensus_message list \<Rightarrow> consensus_message list \<Rightarrow> bool
     \<Rightarrow> consensus_runtime
     \<Rightarrow> consensus_runtime \<times> (consensus_message list \<times> consensus_message list \<times> bool, runtime_error) result" where
  "replay_pass X now [] outbound remaining progressed rt = (rt, Ok (outbound, remaining, progressed))"
| "replay_pass X now (vote # votes) outbound remaining progressed rt =
     (case receive_vote X now vote rt of
        (rt1, Inr (Some precommit)) \<Rightarrow>
          (case receive_vote X now precommit rt1 of
             (rt2, Inl e) \<Rightarrow> (rt2, Err e)
           | (rt2, Inr _) \<Rightarrow> replay_pass X now votes (outbound @ [precommit]) remaining True rt2)
      | (rt1, Inr None) \<Rightarrow> replay_pass X now votes outbound remaining True rt1
      | (rt1, Inl e) \<Rightarrow>
          if is_deferable_vote_error e
          then replay_pass X now votes outbound (remaining @ [vote]) progressed rt1
          else replay_pass X now votes outbound remaining progressed rt1)"

lemma replay_pass_shrinks:
  "replay_pass X now votes outbound remaining progressed rt = (rt', Ok (outbound', remaining', progressed')) \<Longrightarrow>
   length remaining' \<le> length remaining + length votes \<and>
   (progressed' \<longrightarrow> progressed \<or> length remaining' < length remaining + length votes)"
proof (induction votes arbitrary: outbound remaining progressed rt)
  case (Cons vote votes)
  from Cons.prems show ?case
    by (auto split: prod.splits sum.splits option.splits if_splits dest!: Cons.IH)
qed simp

function replay_loop ::
  "externals \<Rightarrow> nat \<Rightarrow> consensus_message list \<Rightarrow> consensus_runtime
     \<Rightarrow> consensus_runtime \<times> (consensus_message list, runtime_error) result" where
  "replay_loop X now outbound rt =
     (case replay_pass X now (rt_deferred_votes rt) outbound [] False (rt\<lparr>rt_deferred_votes := []\<rparr>) of
        (rt1, Inl e) \<Rightarrow> (rt1, Err e)
      | (rt1, Inr (outbound', remaining, progressed)) \<Rightarrow>
        let rt2 = rt1\<lparr>rt_deferred_votes := remaining\<rparr> in
        if progressed then replay_loop X now outbound' rt2 else (rt2, Ok outbound'))"
  by pat_completeness auto
termination
  by (relation "measure (\<lambda>(_, _, _, rt). length (rt_deferred_votes rt))")
    (auto dest: replay_pass_shrinks [OF sym])

declare replay_loop.simps [simp del]

definition replay_deferred_votes ::
  "externals \<Rightarrow> nat \<Rightarrow> consensus_runtime \<Rightarrow> consensus_runtime \<times> (consensus_message list, runtime_error) result" where
  "replay_deferred_votes X now rt = replay_loop X now [] rt"

subsection \<open>Timeouts\<close>

definition timeout_if_due ::
  "nat \<Rightarrow> consensus_runtime \<Rightarrow> (consensus_runtime \<times> bool, runtime_error) result" where
  "timeout_if_due now rt =
     (if now < rt_deadline rt \<or> bft_phase (rt_consensus rt) = Finalized then Ok (rt, False)
      else
        and_then (map_err BftError (on_timeout (rt_consensus rt))) (\<lambda>(s, _).
        Ok (rt\<lparr>rt_consensus := s, rt_pending := None, rt_precommits := [],
               rt_deadline := now + to_propose (rt_timeouts rt)\<rparr>, True)))"

definition restart_phase_timeout :: "nat \<Rightarrow> consensus_runtime \<Rightarrow> consensus_runtime" where
  "restart_phase_timeout now rt =
     rt\<lparr>rt_deadline := now + for_phase (rt_timeouts rt) (bft_phase (rt_consensus rt))\<rparr>"

definition pending_transactions :: "consensus_runtime \<Rightarrow> transaction list" where
  "pending_transactions rt = (case rt_pending rt of None \<Rightarrow> [] | Some b \<Rightarrow> blk_transactions b)"

definition take_evidence :: "consensus_runtime \<Rightarrow> double_vote_evidence list \<times> consensus_runtime" where
  "take_evidence rt = (let (es, s) = bft_take_evidence (rt_consensus rt) in (es, rt\<lparr>rt_consensus := s\<rparr>))"

subsection \<open>Synchronisation\<close>

definition blocks_from :: "u64 \<Rightarrow> consensus_runtime \<Rightarrow> block list" where
  "blocks_from from_height rt = take 128 (filter (\<lambda>b. blk_height b \<ge> from_height) (blocks (rt_chain rt)))"

definition MAX_SYNC_BYTES :: nat where
  "MAX_SYNC_BYTES = 1500000"

fun select_certificates ::
  "(finality_certificate \<Rightarrow> bytes option) \<Rightarrow> finality_certificate list \<Rightarrow> nat \<Rightarrow> finality_certificate list
     \<Rightarrow> finality_certificate list" where
  "select_certificates json [] used selected = selected"
| "select_certificates json (c # cs) used selected =
     (let n = (case json c of Some bs \<Rightarrow> length bs | None \<Rightarrow> MAX_SYNC_BYTES + 1) in
      if selected \<noteq> [] \<and> usize_saturating_add used n > MAX_SYNC_BYTES then selected
      else select_certificates json cs (usize_saturating_add used n) (selected @ [c]))"

definition certificates_from ::
  "(finality_certificate \<Rightarrow> bytes option) \<Rightarrow> u64 \<Rightarrow> consensus_runtime \<Rightarrow> finality_certificate list" where
  "certificates_from json from_height rt =
     select_certificates json
       (take 128 (filter (\<lambda>c. blk_height (fc_block c) \<ge> from_height) (rt_finalized rt))) 0 []"

fun import_certificates ::
  "externals \<Rightarrow> finality_certificate list \<Rightarrow> nat \<Rightarrow> consensus_runtime
     \<Rightarrow> consensus_runtime \<times> (nat, runtime_error) result" where
  "import_certificates X [] imported rt = (rt, Ok imported)"
| "import_certificates X (c # cs) imported rt =
     (case certificate_verify X c (rt_validators rt) of
        Inl e \<Rightarrow> (rt, Err (BftError e))
      | Inr _ \<Rightarrow>
        (case block_by_height (rt_chain rt) (blk_height (fc_block c)) of
           None \<Rightarrow> import_certificates X cs imported rt
         | Some b \<Rightarrow>
           if blk_hash b \<noteq> blk_hash (fc_block c) then (rt, Err LedgerCertificateMismatch)
           else if list_ex (\<lambda>k. blk_height (fc_block k) = blk_height (fc_block c)) (rt_finalized rt)
           then import_certificates X cs imported rt
           else import_certificates X cs (imported + 1) (rt\<lparr>rt_finalized := rt_finalized rt @ [c]\<rparr>)))"

definition import_certificate_history ::
  "externals \<Rightarrow> finality_certificate list \<Rightarrow> consensus_runtime
     \<Rightarrow> consensus_runtime \<times> (nat, runtime_error) result" where
  "import_certificate_history X certificates rt =
     (case import_certificates X certificates 0 rt of
        (rt1, Inl e) \<Rightarrow> (rt1, Err e)
      | (rt1, Inr n) \<Rightarrow>
        (rt1\<lparr>rt_finalized := sort_key (\<lambda>c. blk_height (fc_block c)) (rt_finalized rt1)\<rparr>, Ok n))"

definition take_finalized :: "consensus_runtime \<Rightarrow> finality_certificate list \<times> consensus_runtime" where
  "take_finalized rt = (rt_pending_finalized rt, rt\<lparr>rt_pending_finalized := []\<rparr>)"

text \<open>One certificate of \<open>apply_sync_certificates\<close>; the result says whether its block was applied.\<close>

definition apply_sync_certificate ::
  "externals \<Rightarrow> u64 option \<Rightarrow> finality_certificate \<Rightarrow> consensus_runtime
     \<Rightarrow> consensus_runtime \<times> (bool, runtime_error) result" where
  "apply_sync_certificate X clock c rt =
     (case certificate_verify X c (rt_validators rt) of
        Inl e \<Rightarrow> (rt, Err (BftError e))
      | Inr _ \<Rightarrow>
        (case last_block (rt_chain rt) of
           None \<Rightarrow> (rt, Err NoTipPanic)
         | Some tip \<Rightarrow>
           let height = blk_height (fc_block c); next_height = blk_height tip + 1 in
           if height < next_height then
             (case block_by_height (rt_chain rt) height of
                None \<Rightarrow> (rt, Err CanonicalMissing)
              | Some canonical \<Rightarrow>
                if blk_hash canonical \<noteq> blk_hash (fc_block c) then (rt, Err (FinalityViolation height))
                else (rt, Ok False))
           else if height \<noteq> next_height then (rt, Err SyncGap)
           else case validate_scheduled_block X clock rt (fc_block c) of
             Inl e \<Rightarrow> (rt, Err e)
           | Inr _ \<Rightarrow>
             (case apply_block X (rt_chain rt) (fc_block c) of
                (chain, Inl e) \<Rightarrow> (rt\<lparr>rt_chain := chain\<rparr>, Err (LedgerError e))
              | (chain, Inr _) \<Rightarrow>
                (rt\<lparr>rt_chain := chain, rt_finalized := rt_finalized rt @ [c]\<rparr>, Ok True))))"

fun apply_sync_loop ::
  "externals \<Rightarrow> u64 option \<Rightarrow> finality_certificate list \<Rightarrow> nat \<Rightarrow> consensus_runtime
     \<Rightarrow> consensus_runtime \<times> (nat, runtime_error) result" where
  "apply_sync_loop X clock [] applied rt = (rt, Ok applied)"
| "apply_sync_loop X clock (c # cs) applied rt =
     (case apply_sync_certificate X clock c rt of
        (rt1, Inl e) \<Rightarrow> (rt1, Err e)
      | (rt1, Inr b) \<Rightarrow> apply_sync_loop X clock cs (if b then applied + 1 else applied) rt1)"

definition next_round_state :: "nat \<Rightarrow> consensus_runtime \<Rightarrow> consensus_runtime \<times> (unit, runtime_error) result" where
  "next_round_state now rt =
     (case last_block (rt_chain rt) of
        None \<Rightarrow> (rt, Err NoTipPanic)
      | Some tip \<Rightarrow>
        (case start_round (blk_height tip + 1) 0 (rt_consensus rt) of
           Inl e \<Rightarrow> (rt, Err (BftError e))
         | Inr s \<Rightarrow>
           (reset_deadline now (rt\<lparr>rt_consensus := s, rt_pending := None, rt_valid_block := None,
              rt_precommits := []\<rparr>), Ok ())))"

definition apply_sync_certificates ::
  "externals \<Rightarrow> nat \<Rightarrow> u64 option \<Rightarrow> finality_certificate list \<Rightarrow> consensus_runtime
     \<Rightarrow> consensus_runtime \<times> (nat, runtime_error) result" where
  "apply_sync_certificates X now clock certificates rt =
     (case apply_sync_loop X clock certificates 0 rt of
        (rt1, Inl e) \<Rightarrow> (rt1, Err e)
      | (rt1, Inr applied) \<Rightarrow>
        if applied > 0 then
          (case next_round_state now rt1 of (rt2, r) \<Rightarrow> (rt2, and_then r (\<lambda>_. Ok applied)))
        else (rt1, Ok applied))"

definition advance_after_finalization ::
  "nat \<Rightarrow> consensus_runtime \<Rightarrow> consensus_runtime \<times> (unit, runtime_error) result" where
  "advance_after_finalization now rt =
     (if bft_phase (rt_consensus rt) \<noteq> Finalized then (rt, Err NotFinalizedYet) else next_round_state now rt)"

fun apply_sync_batch ::
  "externals \<Rightarrow> u64 option \<Rightarrow> block list \<Rightarrow> nat \<Rightarrow> consensus_runtime
     \<Rightarrow> consensus_runtime \<times> (nat, runtime_error) result" where
  "apply_sync_batch X clock [] applied rt = (rt, Ok applied)"
| "apply_sync_batch X clock (b # bs) applied rt =
     (case last_block (rt_chain rt) of
        None \<Rightarrow> (rt, Err NoTipPanic)
      | Some tip \<Rightarrow>
        let next_height = blk_height tip + 1 in
        if blk_height b < next_height then apply_sync_batch X clock bs applied rt
        else if blk_height b \<noteq> next_height then (rt, Err SyncGap)
        else case validate_scheduled_block X clock rt b of
          Inl e \<Rightarrow> (rt, Err e)
        | Inr _ \<Rightarrow>
          (case apply_block X (rt_chain rt) b of
             (chain, Inl e) \<Rightarrow> (rt\<lparr>rt_chain := chain\<rparr>, Err (LedgerError e))
           | (chain, Inr _) \<Rightarrow> apply_sync_batch X clock bs (applied + 1) (rt\<lparr>rt_chain := chain\<rparr>)))"

definition can_make_proposal :: "externals \<Rightarrow> consensus_runtime \<Rightarrow> bool" where
  "can_make_proposal X rt \<longleftrightarrow> bft_phase (rt_consensus rt) = Propose
     \<and> signer_address X (rt_validator rt) = expected_proposer (rt_consensus rt)"

definition replace_bootstrap_validators ::
  "nat \<Rightarrow> validator list \<Rightarrow> consensus_runtime \<Rightarrow> (consensus_runtime, runtime_error) result" where
  "replace_bootstrap_validators now validators rt =
     and_then (ensure (\<not> (tip_height (rt_chain rt) \<noteq> 0 \<or> rt_pending rt \<noteq> None)) AfterBootstrap) (\<lambda>_.
     and_then (map_err BftError (bft_new validators)) (\<lambda>s0.
     and_then (map_err BftError (start_round 1 0 s0)) (\<lambda>s.
     Ok (reset_deadline now (rt\<lparr>rt_consensus := s, rt_validators := validators, rt_valid_block := None,
          rt_precommits := []\<rparr>)))))"

end
