(* ===== verification/Consensus_Lemmas.thy ===== *)
theory Consensus_Lemmas
  imports Consensus
begin

text \<open>
  Lemmas about the BFT machine and about finality certificates: the inductive set of machines that
  the operations can reach, and its invariants.
\<close>

subsection \<open>Reachable machines\<close>

inductive bft_run :: "externals \<Rightarrow> validator list \<Rightarrow> bft_consensus \<Rightarrow> bool" for X vs where
  init: "bft_new vs = Ok s \<Longrightarrow> bft_run X vs s"
| start: "bft_run X vs s \<Longrightarrow> start_round h r s = Ok t \<Longrightarrow> bft_run X vs t"
| proposal: "bft_run X vs s \<Longrightarrow> handle_proposal X p s = Ok t \<Longrightarrow> bft_run X vs t"
| vote: "bft_run X vs s \<Longrightarrow> handle X m s = (t, res) \<Longrightarrow> bft_run X vs t"
| take: "bft_run X vs s \<Longrightarrow> bft_take_evidence s = (es, t) \<Longrightarrow> bft_run X vs t"
| timeout: "bft_run X vs s \<Longrightarrow> on_timeout s = Ok (t, n) \<Longrightarrow> bft_run X vs t"

definition note_vote :: "consensus_message \<Rightarrow> bft_consensus \<Rightarrow> bft_consensus" where
  "note_vote m s =
     (if fmlookup (bft_vote_history s) (history_key m) = None
      then s\<lparr>bft_vote_history := fmupd (history_key m) (msg_block_hash m) (bft_vote_history s),
             bft_vote_messages := fmupd (history_key m) m (bft_vote_messages s)\<rparr>
      else s)"

lemma note_vote_fields [simp]:
  "bft_validators (note_vote m s) = bft_validators s" "bft_total_power (note_vote m s) = bft_total_power s"
  "bft_height (note_vote m s) = bft_height s" "bft_round (note_vote m s) = bft_round s"
  "bft_phase (note_vote m s) = bft_phase s" "bft_proposal (note_vote m s) = bft_proposal s"
  "bft_votes (note_vote m s) = bft_votes s" "bft_locked_value (note_vote m s) = bft_locked_value s"
  "bft_locked_round (note_vote m s) = bft_locked_round s" "bft_valid_value (note_vote m s) = bft_valid_value s"
  "bft_valid_round (note_vote m s) = bft_valid_round s" "bft_evidence (note_vote m s) = bft_evidence s"
  "bft_finalized (note_vote m s) = bft_finalized s"
  by (simp_all add: note_vote_def)

text \<open>The branches of \<open>handle\<close>.\<close>

lemma handle_cases:
  assumes "handle X m s = (t, res)"
  obtains (rejected) e where "res = Err e" "t = s"
  | (double) h where "res = Err DoubleVote" "t = add_evidence X m s"
      "fmlookup (bft_vote_history s) (history_key m) = Some h" "h \<noteq> msg_block_hash m"
  | (noted) "res = Err VoteNotProposal" "t = note_vote m s" "vote_verify X m = Ok ()"
      "msg_height m = bft_height s" "msg_round m = bft_round s" "msg_validator_id m |\<in>| fmdom (bft_validators s)"
      "bft_proposal s \<noteq> Some (msg_block_hash m)"
      "fmlookup (bft_vote_history s) (history_key m) \<in> {None, Some (msg_block_hash m)}"
  | (counted) "res = Ok ()" "t = count_vote m (note_vote m s)" "vote_verify X m = Ok ()"
      "phase_accepts (bft_phase s) (msg_vote_type m)"
      "msg_height m = bft_height s" "msg_round m = bft_round s" "msg_validator_id m |\<in>| fmdom (bft_validators s)"
      "bft_proposal s = Some (msg_block_hash m)"
      "fmlookup (bft_vote_history s) (history_key m) \<in> {None, Some (msg_block_hash m)}"
proof (cases "vote_verify X m")
  case (Inl e)
  with assms have "t = s" "res \<in> {Err VoteRoundMismatch, Err UnknownVoter, Err e}"
    by (auto simp: handle_def split: if_splits)
  then show ?thesis using rejected by blast
next
  case (Inr u)
  show ?thesis
  proof (cases "msg_height m = bft_height s \<and> msg_round m = bft_round s \<and>
      msg_validator_id m |\<in>| fmdom (bft_validators s) \<and> phase_accepts (bft_phase s) (msg_vote_type m)")
    case False
    then have "t = s" "res \<in> {Err VoteRoundMismatch, Err UnknownVoter, Err PhaseMismatch}"
      using assms Inr by (auto simp: handle_def split: if_splits)
    then show ?thesis using rejected by blast
  next
    case True
    show ?thesis
    proof (cases "fmlookup (bft_vote_history s) (history_key m)")
      case None
      then have nv: "s\<lparr>bft_vote_history := fmupd (history_key m) (msg_block_hash m) (bft_vote_history s),
          bft_vote_messages := fmupd (history_key m) m (bft_vote_messages s)\<rparr> = note_vote m s"
        by (simp add: note_vote_def)
      have "(t, res) = (if bft_proposal s \<noteq> Some (msg_block_hash m) then (note_vote m s, Err VoteNotProposal)
          else (count_vote m (note_vote m s), Ok ()))"
        using assms Inr True None by (auto simp: handle_def Let_def nv)
      then show ?thesis using noted counted Inr True None by (simp split: if_splits)
    next
      case (Some h)
      then have nv: "note_vote m s = s" by (simp add: note_vote_def)
      have "(t, res) = (if h \<noteq> msg_block_hash m then (add_evidence X m s, Err DoubleVote)
          else if bft_proposal s \<noteq> Some (msg_block_hash m) then (s, Err VoteNotProposal)
          else (count_vote m s, Ok ()))"
        using assms Inr True Some by (simp add: handle_def)
      then show ?thesis using double noted counted Inr True Some by (simp add: nv split: if_splits)
    qed
  qed
qed

lemma add_evidence_fields [simp]:
  "bft_validators (add_evidence X m s) = bft_validators s" "bft_total_power (add_evidence X m s) = bft_total_power s"
  "bft_height (add_evidence X m s) = bft_height s" "bft_round (add_evidence X m s) = bft_round s"
  "bft_phase (add_evidence X m s) = bft_phase s" "bft_proposal (add_evidence X m s) = bft_proposal s"
  "bft_votes (add_evidence X m s) = bft_votes s" "bft_vote_history (add_evidence X m s) = bft_vote_history s"
  "bft_vote_messages (add_evidence X m s) = bft_vote_messages s"
  "bft_locked_value (add_evidence X m s) = bft_locked_value s"
  "bft_locked_round (add_evidence X m s) = bft_locked_round s"
  "bft_valid_value (add_evidence X m s) = bft_valid_value s"
  "bft_valid_round (add_evidence X m s) = bft_valid_round s" "bft_finalized (add_evidence X m s) = bft_finalized s"
  by (simp_all add: add_evidence_def split: option.splits sum.splits)

lemma count_vote_fields [simp]:
  "bft_validators (count_vote m s) = bft_validators s" "bft_total_power (count_vote m s) = bft_total_power s"
  "bft_height (count_vote m s) = bft_height s" "bft_round (count_vote m s) = bft_round s"
  "bft_proposal (count_vote m s) = bft_proposal s" "bft_vote_history (count_vote m s) = bft_vote_history s"
  "bft_vote_messages (count_vote m s) = bft_vote_messages s" "bft_evidence (count_vote m s) = bft_evidence s"
  by (simp_all add: count_vote_def Let_def split: vote_type.splits)

lemma handle_fields:
  assumes "handle X m s = (t, res)"
  shows "bft_validators t = bft_validators s \<and> bft_total_power t = bft_total_power s \<and>
    bft_height t = bft_height s \<and> bft_round t = bft_round s \<and> bft_proposal t = bft_proposal s"
  using assms by (cases rule: handle_cases) simp_all

text \<open>\<open>start_round\<close> and the operations built on it.\<close>

lemma start_round_Ok:
  "start_round h r s = Ok t \<longleftrightarrow>
     \<not> (h < bft_height s \<or> h = bft_height s \<and> r < bft_round s) \<and>
     t = (if h > bft_height s
          then s\<lparr>bft_locked_value := None, bft_locked_round := None, bft_valid_value := None, bft_valid_round := None\<rparr>
          else s)\<lparr>bft_height := h, bft_round := r, bft_phase := Propose, bft_proposal := None,
                  bft_votes := fmempty, bft_finalized := None\<rparr>"
  by (auto simp: start_round_def Let_def)

lemma on_timeout_Ok:
  "on_timeout s = Ok (t, n) \<longleftrightarrow> checked_add (bft_round s) 1 = Some n \<and> start_round (bft_height s) n s = Ok t"
  by (auto simp: on_timeout_def result_simps)

lemma handle_proposal_Ok:
  "handle_proposal X p s = Ok t \<longleftrightarrow>
     prop_height p = bft_height s \<and> prop_round p = bft_round s \<and> prop_proposer_id p |\<in>| fmdom (bft_validators s) \<and>
     proposal_verify X p = Ok () \<and>
     (\<forall>v. bft_locked_value s = Some v \<longrightarrow> v = blk_hash (prop_block p) \<or> unlock_allowed p s) \<and>
     bft_phase s = Propose \<and> prop_proposer_id p = expected_proposer s \<and> blk_hash (prop_block p) \<noteq> [] \<and>
     t = s\<lparr>bft_proposal := Some (blk_hash (prop_block p)), bft_phase := PrevotePhase\<rparr>"
  by (auto simp: handle_proposal_def propose_def result_simps split: option.splits if_splits)

text \<open>
  A predicate on machines that depends only on what each operation keeps holds in every reachable
  machine: the induction behind all invariants below.
\<close>

lemma bft_run_invariant [consumes 1, case_names init start proposal vote take]:
  assumes "bft_run X vs s"
    and "\<And>s. bft_new vs = Ok s \<Longrightarrow> P s"
    and "\<And>s t h r. P s \<Longrightarrow> start_round h r s = Ok t \<Longrightarrow> P t"
    and "\<And>s t p. P s \<Longrightarrow> handle_proposal X p s = Ok t \<Longrightarrow> P t"
    and "\<And>s t m res. P s \<Longrightarrow> handle X m s = (t, res) \<Longrightarrow> P t"
    and "\<And>s. P s \<Longrightarrow> P (s\<lparr>bft_evidence := []\<rparr>)"
  shows "P s"
  using assms(1)
proof (induction rule: bft_run.induct)
  case (take s es t)
  then show ?case using assms(6) by (auto simp: bft_take_evidence_def)
next
  case (timeout s t n)
  then show ?case using assms(3) by (auto simp: on_timeout_Ok)
qed (use assms in blast)+

subsection \<open>Validators and quorums\<close>

lemma add_validators_map:
  assumes "for_each add_validator vs m = Ok m'"
  shows "fmdom' m' = fmdom' m \<union> val_id ` set vs \<and> distinct (map val_id vs) \<and>
    (\<forall>v \<in> set vs. fmlookup m' (val_id v) = Some (val_voting_power v)) \<and>
    (\<forall>k \<in> fmdom' m. fmlookup m' k = fmlookup m k) \<and> fmdom' m \<inter> val_id ` set vs = {} \<and>
    fm_total m' = fm_total m + sum_list (map (\<lambda>v. unat (val_voting_power v)) vs)"
  using assms
proof (induction vs arbitrary: m)
  case (Cons v vs)
  then obtain m1 where "add_validator v m = Ok m1" and m1: "for_each add_validator vs m1 = Ok m'"
    by (auto simp: result_simps split: sum.splits)
  then have new: "val_id v \<notin> fmdom' m" and rest: "for_each add_validator vs (fmupd (val_id v) (val_voting_power v) m) = Ok m'"
    by (auto simp: add_validator_def fmdom'_alt_def split: if_splits)
  have "fm_total (fmupd (val_id v) (val_voting_power v) m) = fm_total m + unat (val_voting_power v)"
    using fm_total_fmupd [of "val_id v" "val_voting_power v" m] new by (simp add: get0_def fmdom'_notD)
  with Cons.IH [OF rest] new show ?case by auto
qed simp

lemma bft_new_Ok:
  assumes "bft_new vs = Ok s"
  shows "fmdom' (bft_validators s) = val_id ` set vs" and "distinct (map val_id vs)" and "vs \<noteq> []"
    and "fm_total (bft_validators s) = sum_list (map (\<lambda>v. unat (val_voting_power v)) vs)"
    and "bft_total_power s = wrapping_sum (map snd (fm_entries (bft_validators s)))"
    and "v \<in> set vs \<Longrightarrow> fmlookup (bft_validators s) (val_id v) = Some (val_voting_power v)"
    and "s = \<lparr>bft_validators = bft_validators s, bft_total_power = bft_total_power s, bft_height = 0, bft_round = 0,
      bft_phase = Waiting, bft_proposal = None, bft_votes = fmempty, bft_vote_history = fmempty,
      bft_vote_messages = fmempty, bft_locked_value = None, bft_locked_round = None, bft_valid_value = None,
      bft_valid_round = None, bft_evidence = [], bft_finalized = None\<rparr>"
  using assms add_validators_map [of vs fmempty]
  by (auto simp: bft_new_def result_simps split: if_splits)

definition total_ok :: "bft_consensus \<Rightarrow> bool" where
  "total_ok s \<longleftrightarrow> bft_total_power s = wrapping_sum (map snd (fm_entries (bft_validators s)))"

definition voters_of :: "vote_type \<times> string \<Rightarrow> bft_consensus \<Rightarrow> string set" where
  "voters_of key s = (case fmlookup (bft_votes s) key of None \<Rightarrow> {} | Some ids \<Rightarrow> fset ids)"

definition powers_fit :: "bft_consensus \<Rightarrow> bool" where
  "powers_fit s \<longleftrightarrow> fm_total (bft_validators s) < 2 ^ 64"

lemma total_power_exact: "total_ok s \<Longrightarrow> powers_fit s \<Longrightarrow> unat (bft_total_power s) = fm_total (bft_validators s)"
  using sum_list_fm_entries [of "bft_validators s"]
  by (simp add: total_ok_def powers_fit_def unat_wrapping_sum comp_def case_prod_unfold)

lemma sat_compare:
  fixes p t :: u64
  shows "saturating_mul p 3 > saturating_mul t 2 \<Longrightarrow> 2 * unat t < 3 * unat p"
    and "2 * unat t < 3 * unat p \<Longrightarrow> 2 * unat t < 2 ^ 64 - 1 \<Longrightarrow> saturating_mul p 3 > saturating_mul t 2"
  by (auto simp: word_less_nat_alt unat_saturating_mul split: if_splits)

lemma has_quorum_power:
  assumes "total_ok s" and "powers_fit s"
  shows "has_quorum key s \<Longrightarrow> two_thirds (bft_validators s) (voters_of key s)"
    and "two_thirds (bft_validators s) (voters_of key s) \<Longrightarrow> 2 * fm_total (bft_validators s) < 2 ^ 64 - 1 \<Longrightarrow>
      has_quorum key s"
proof -
  define ids where "ids = (case fmlookup (bft_votes s) key of None \<Rightarrow> [] | Some ids \<Rightarrow> sorted_list_of_fset ids)"
  define ws where "ws = List.map_filter (fmlookup (bft_validators s)) ids"
  have ids: "distinct ids" "set ids = voters_of key s"
    by (auto simp: ids_def voters_of_def sorted_list_of_fset.rep_eq split: option.splits)
  have sum: "sum_list (map unat ws) = set_power (bft_validators s) (voters_of key s)"
    using sum_list_voters [OF ids(1)] ids(2) by (simp add: ws_def)
  moreover have "sum_list (map unat ws) < 2 ^ 64"
    using sum set_power_le [of "bft_validators s" "voters_of key s"] assms(2) by (simp add: powers_fit_def)
  ultimately have power: "unat (wrapping_sum ws) = set_power (bft_validators s) (voters_of key s)"
    by (simp add: unat_wrapping_sum)
  have hq: "has_quorum key s \<longleftrightarrow> saturating_mul (wrapping_sum ws) 3 > saturating_mul (bft_total_power s) 2"
    unfolding has_quorum_def ws_def ids_def Let_def ..
  show "has_quorum key s \<Longrightarrow> two_thirds (bft_validators s) (voters_of key s)"
    using sat_compare(1) [of "bft_total_power s" "wrapping_sum ws"] total_power_exact [OF assms] power
    by (simp add: hq two_thirds_def)
  show "two_thirds (bft_validators s) (voters_of key s) \<Longrightarrow> 2 * fm_total (bft_validators s) < 2 ^ 64 - 1 \<Longrightarrow>
      has_quorum key s"
    using sat_compare(2) [of "bft_total_power s" "wrapping_sum ws"] total_power_exact [OF assms] power
    by (simp add: hq two_thirds_def)
qed

lemma two_thirds_mono: "A \<subseteq> B \<Longrightarrow> two_thirds m A \<Longrightarrow> two_thirds m B"
  using set_power_mono [of A B m] by (simp add: two_thirds_def)

subsection \<open>Invariants\<close>

text \<open>
  The counted votes of the current round, and all recorded messages, come from the history; every
  recorded message was verified; evidence is genuine.
\<close>

definition votes_ok :: "externals \<Rightarrow> bft_consensus \<Rightarrow> bool" where
  "votes_ok X s \<longleftrightarrow>
     (\<forall>t h. voters_of (t, h) s \<subseteq>
        {v. fmlookup (bft_vote_history s) (bft_height s, bft_round s, t, v) = Some h} \<inter> fmdom' (bft_validators s)) \<and>
     (\<forall>k h. fmlookup (bft_vote_history s) k = Some h \<longrightarrow>
        (\<exists>m. fmlookup (bft_vote_messages s) k = Some m \<and> msg_block_hash m = h)) \<and>
     (\<forall>k m. fmlookup (bft_vote_messages s) k = Some m \<longrightarrow> history_key m = k \<and> vote_verify X m = Ok ()) \<and>
     (\<forall>e \<in> set (bft_evidence s). evidence_verify X e = Ok ())"

text \<open>
  The lock: locked and valid value are always the same; beyond the prevote phase the lock is the
  current proposal; and both the lock and the decision rest on quorums of the current round.
\<close>

definition lock_ok :: "bft_consensus \<Rightarrow> bool" where
  "lock_ok s \<longleftrightarrow>
     bft_valid_value s = bft_locked_value s \<and> bft_valid_round s = bft_locked_round s \<and>
     (bft_phase s \<in> {PrecommitPhase, Finalized} \<longrightarrow>
        bft_proposal s \<noteq> None \<and> bft_locked_value s = bft_proposal s \<and> bft_locked_round s = Some (bft_round s)) \<and>
     (bft_phase s = PrevotePhase \<longrightarrow> bft_proposal s \<noteq> None \<and>
        (bft_locked_value s = None \<or> bft_locked_value s = bft_proposal s)) \<and>
     (bft_phase s \<in> {Waiting, Propose} \<longrightarrow> bft_proposal s = None) \<and>
     (bft_locked_value s = None \<longleftrightarrow> bft_locked_round s = None) \<and>
     (bft_finalized s = (if bft_phase s = Finalized then bft_proposal s else None))"

definition quorums_ok :: "bft_consensus \<Rightarrow> bool" where
  "quorums_ok s \<longleftrightarrow> total_ok s \<and> (powers_fit s \<longrightarrow>
     (bft_phase s \<in> {PrecommitPhase, Finalized} \<longrightarrow>
        two_thirds (bft_validators s) (voters_of (Prevote, the (bft_proposal s)) s)) \<and>
     (bft_phase s = Finalized \<longrightarrow>
        two_thirds (bft_validators s) (voters_of (Precommit, the (bft_proposal s)) s)))"

lemma voters_of_count_vote:
  "voters_of key (count_vote m s) =
     (if key = (msg_vote_type m, msg_block_hash m) then insert (msg_validator_id m) (voters_of key s) else voters_of key s)"
  by (auto simp: count_vote_def Let_def voters_of_def split: vote_type.splits option.splits)

lemma voters_of_note_vote [simp]: "voters_of key (note_vote m s) = voters_of key s"
  by (simp add: voters_of_def)

lemma voters_of_add_evidence [simp]: "voters_of key (add_evidence X m s) = voters_of key s"
  by (simp add: voters_of_def)

lemma history_note_vote:
  "fmlookup (bft_vote_history s) (history_key m) \<in> {None, Some (msg_block_hash m)} \<Longrightarrow>
   fmlookup (bft_vote_history (note_vote m s)) k =
     (if k = history_key m then Some (msg_block_hash m) else fmlookup (bft_vote_history s) k)"
  by (auto simp: note_vote_def)

lemma lock_ok_new: "bft_new vs = Ok s \<Longrightarrow> lock_ok s"
  by (subst bft_new_Ok(7)) (auto simp: lock_ok_def)

lemma lock_ok_start: "lock_ok s \<Longrightarrow> start_round h r s = Ok t \<Longrightarrow> lock_ok t"
  by (auto simp: start_round_Ok lock_ok_def)

text \<open>The unlocking branch of \<open>handle_proposal\<close> cannot be taken.\<close>

lemma unlock_never: "lock_ok s \<Longrightarrow> unlock_allowed p s \<Longrightarrow> bft_locked_value s = Some (blk_hash (prop_block p))"
  by (auto simp: lock_ok_def unlock_allowed_def split: option.splits)

lemma lock_ok_proposal:
  assumes "lock_ok s" and "handle_proposal X p s = Ok t"
  shows "lock_ok t"
proof -
  have "bft_locked_value s = None \<or> bft_locked_value s = Some (blk_hash (prop_block p))"
    using assms(2) unlock_never [OF assms(1), of p]
    by (cases "bft_locked_value s") (auto simp: handle_proposal_Ok)
  then show ?thesis using assms by (auto simp: handle_proposal_Ok lock_ok_def)
qed

lemma lock_ok_count:
  assumes "lock_ok s" and "phase_accepts (bft_phase s) (msg_vote_type m)" and "bft_proposal s = Some (msg_block_hash m)"
  shows "lock_ok (count_vote m s)"
  using assms by (cases "bft_phase s"; cases "msg_vote_type m") (auto simp: lock_ok_def count_vote_def Let_def)

lemma lock_ok_note [simp]: "lock_ok (note_vote m s) \<longleftrightarrow> lock_ok s" "lock_ok (add_evidence X m s) \<longleftrightarrow> lock_ok s"
  unfolding lock_ok_def note_vote_fields add_evidence_fields by (rule refl)+

lemma lock_ok_vote:
  assumes "lock_ok s" and "handle X m s = (t, res)"
  shows "lock_ok t"
  using assms(2)
proof (cases rule: handle_cases)
  case counted
  then show ?thesis using assms(1) by (auto intro: lock_ok_count)
qed (use assms(1) in simp_all)

lemma lock_ok_take [simp]: "lock_ok (s\<lparr>bft_evidence := es\<rparr>) \<longleftrightarrow> lock_ok s"
  by (simp add: lock_ok_def)

lemma bft_run_lock_ok: "bft_run X vs s \<Longrightarrow> lock_ok s"
proof (induction rule: bft_run_invariant)
  case (take s)
  then show ?case by simp
qed (blast intro: lock_ok_new lock_ok_start lock_ok_proposal lock_ok_vote)+

lemma votes_okD:
  assumes "votes_ok X s"
  shows "v \<in> voters_of (ty, h) s \<Longrightarrow> fmlookup (bft_vote_history s) (bft_height s, bft_round s, ty, v) = Some h"
    and "v \<in> voters_of (ty, h) s \<Longrightarrow> v \<in> fmdom' (bft_validators s)"
    and "fmlookup (bft_vote_history s) k = Some h \<Longrightarrow>
      \<exists>m. fmlookup (bft_vote_messages s) k = Some m \<and> msg_block_hash m = h"
    and "fmlookup (bft_vote_messages s) k = Some m \<Longrightarrow> history_key m = k \<and> vote_verify X m = Ok ()"
    and "e \<in> set (bft_evidence s) \<Longrightarrow> evidence_verify X e = Ok ()"
  using assms unfolding votes_ok_def by (blast+)

lemma votes_okI:
  assumes "\<And>ty h v. v \<in> voters_of (ty, h) s \<Longrightarrow>
      fmlookup (bft_vote_history s) (bft_height s, bft_round s, ty, v) = Some h \<and> v \<in> fmdom' (bft_validators s)"
    and "\<And>k h. fmlookup (bft_vote_history s) k = Some h \<Longrightarrow>
      \<exists>m. fmlookup (bft_vote_messages s) k = Some m \<and> msg_block_hash m = h"
    and "\<And>k m. fmlookup (bft_vote_messages s) k = Some m \<Longrightarrow> history_key m = k \<and> vote_verify X m = Ok ()"
    and "\<And>e. e \<in> set (bft_evidence s) \<Longrightarrow> evidence_verify X e = Ok ()"
  shows "votes_ok X s"
  using assms unfolding votes_ok_def by blast

lemma votes_ok_new: "bft_new vs = Ok s \<Longrightarrow> votes_ok X s"
  by (subst bft_new_Ok(7)) (auto simp: votes_ok_def voters_of_def)

lemma votes_ok_restart:
  assumes "votes_ok X s" and "bft_votes t = fmempty" and "bft_vote_history t = bft_vote_history s"
    and "bft_vote_messages t = bft_vote_messages s" and "bft_evidence t = bft_evidence s"
  shows "votes_ok X t"
  by (rule votes_okI) (use assms(2-5) votes_okD [OF assms(1)] in \<open>auto simp: voters_of_def\<close>)

lemma votes_ok_same:
  assumes "votes_ok X s" and "bft_votes t = bft_votes s" and "bft_vote_history t = bft_vote_history s"
    and "bft_vote_messages t = bft_vote_messages s" and "bft_height t = bft_height s" and "bft_round t = bft_round s"
    and "bft_validators t = bft_validators s" and "\<And>e. e \<in> set (bft_evidence t) \<Longrightarrow> evidence_verify X e = Ok ()"
  shows "votes_ok X t"
  using assms unfolding votes_ok_def by (simp add: voters_of_def del: split_paired_All)

lemma evidence_new_Ok: "evidence_new X a b = Ok e \<Longrightarrow> evidence_verify X e = Ok () \<and> e = \<lparr>de_first = a, de_second = b\<rparr>"
  by (auto simp: evidence_new_def Let_def result_simps)

lemma votes_ok_add_evidence:
  assumes "votes_ok X s"
  shows "votes_ok X (add_evidence X m s)"
proof (rule votes_ok_same [OF assms])
  fix e assume "e \<in> set (bft_evidence (add_evidence X m s))"
  then show "evidence_verify X e = Ok ()"
    using votes_okD(5) [OF assms]
    by (auto simp: add_evidence_def dest: evidence_new_Ok split: option.splits sum.splits if_splits)
qed simp_all

lemma votes_ok_note:
  assumes "votes_ok X s" and "vote_verify X m = Ok ()"
    and "fmlookup (bft_vote_history s) (history_key m) \<in> {None, Some (msg_block_hash m)}"
  shows "votes_ok X (note_vote m s)"
proof (rule votes_okI)
  fix ty h v assume "v \<in> voters_of (ty, h) (note_vote m s)"
  then have "fmlookup (bft_vote_history s) (bft_height s, bft_round s, ty, v) = Some h" "v \<in> fmdom' (bft_validators s)"
    using votes_okD(1,2) [OF assms(1)] by auto
  then show "fmlookup (bft_vote_history (note_vote m s)) (bft_height (note_vote m s), bft_round (note_vote m s), ty, v) = Some h
      \<and> v \<in> fmdom' (bft_validators (note_vote m s))"
    using assms(3) by (auto simp: history_note_vote [OF assms(3)])
next
  fix k h assume "fmlookup (bft_vote_history (note_vote m s)) k = Some h"
  then show "\<exists>m'. fmlookup (bft_vote_messages (note_vote m s)) k = Some m' \<and> msg_block_hash m' = h"
    using votes_okD(3) [OF assms(1), of k h] by (auto simp: note_vote_def split: if_splits)
next
  fix k m' assume "fmlookup (bft_vote_messages (note_vote m s)) k = Some m'"
  then show "history_key m' = k \<and> vote_verify X m' = Ok ()"
    using votes_okD(4) [OF assms(1), of k m'] assms(2) by (auto simp: note_vote_def split: if_splits)
qed (use votes_okD(5) [OF assms(1)] in simp)

lemma votes_ok_count:
  assumes "votes_ok X s" and "msg_height m = bft_height s" and "msg_round m = bft_round s"
    and "msg_validator_id m |\<in>| fmdom (bft_validators s)"
    and "fmlookup (bft_vote_history s) (history_key m) = Some (msg_block_hash m)"
  shows "votes_ok X (count_vote m s)"
proof (rule votes_okI)
  fix ty h v assume "v \<in> voters_of (ty, h) (count_vote m s)"
  then show "fmlookup (bft_vote_history (count_vote m s)) (bft_height (count_vote m s), bft_round (count_vote m s), ty, v)
      = Some h \<and> v \<in> fmdom' (bft_validators (count_vote m s))"
    using votes_okD(1,2) [OF assms(1)] assms(2-5)
    by (auto simp: voters_of_count_vote history_key_def fmdom'_alt_def split: if_splits)
qed (use votes_okD(3-5) [OF assms(1)] in simp_all)

lemma votes_ok_vote:
  assumes "votes_ok X s" and "handle X m s = (t, res)"
  shows "votes_ok X t"
  using assms(2)
proof (cases rule: handle_cases)
  case counted
  then have "votes_ok X (note_vote m s)" using assms(1) by (intro votes_ok_note)
  then show ?thesis using counted by (auto intro!: votes_ok_count simp: history_note_vote)
qed (use assms(1) in \<open>auto intro: votes_ok_add_evidence votes_ok_note\<close>)

lemma votes_ok_start: "votes_ok X s \<Longrightarrow> start_round h r s = Ok t \<Longrightarrow> votes_ok X t"
  by (erule votes_ok_restart) (simp_all add: start_round_Ok)

lemma votes_ok_proposal: "votes_ok X s \<Longrightarrow> handle_proposal X p s = Ok t \<Longrightarrow> votes_ok X t"
  by (frule votes_ok_same [of X s t]) (auto simp: handle_proposal_Ok dest: votes_okD(5))

lemma bft_run_votes_ok: "bft_run X vs s \<Longrightarrow> votes_ok X s"
proof (induction rule: bft_run_invariant)
  case (init s)
  then show ?case by (rule votes_ok_new)
next
  case (start s t h r)
  then show ?case by (rule votes_ok_start)
next
  case (proposal s t p)
  then show ?case by (rule votes_ok_proposal)
next
  case (vote s t m res)
  then show ?case by (rule votes_ok_vote)
next
  case (take s)
  then show ?case by (rule votes_ok_same) simp_all
qed

lemma quorums_ok_count:
  assumes "quorums_ok s" and "lock_ok s" and "phase_accepts (bft_phase s) (msg_vote_type m)"
    and "bft_proposal s = Some (msg_block_hash m)"
  shows "quorums_ok (count_vote m s)"
proof -
  let ?key = "(msg_vote_type m, msg_block_hash m)" and ?V = "bft_validators s" and ?t = "count_vote m s"
  have tot: "total_ok ?t" using assms(1) by (simp add: quorums_ok_def total_ok_def)
  have mono: "voters_of k s \<subseteq> voters_of k ?t" for k by (auto simp: voters_of_count_vote)
  define s1 where "s1 = s\<lparr>bft_votes := fmupd ?key (finsert (msg_validator_id m)
    (case fmlookup (bft_votes s) ?key of None \<Rightarrow> {||} | Some ids \<Rightarrow> ids)) (bft_votes s)\<rparr>"
  have s1: "total_ok s1" "powers_fit s1 \<longleftrightarrow> powers_fit s" "bft_validators s1 = ?V"
    "voters_of k s1 = voters_of k ?t" for k
    using assms(1) by (auto simp: s1_def quorums_ok_def total_ok_def powers_fit_def voters_of_count_vote)
      (auto simp: voters_of_def split: option.splits if_splits)
  have q: "powers_fit s \<Longrightarrow> has_quorum ?key s1 \<Longrightarrow> two_thirds ?V (voters_of ?key ?t)"
    using has_quorum_power(1) [OF s1(1), of ?key] s1 by simp
  have phase: "bft_phase ?t = (if has_quorum ?key s1 \<and> bft_phase s \<noteq> Finalized then
      (case msg_vote_type m of Prevote \<Rightarrow> if bft_phase s = PrevotePhase then PrecommitPhase else bft_phase s
       | Precommit \<Rightarrow> Finalized) else bft_phase s)"
    by (simp add: count_vote_def Let_def s1_def split: vote_type.splits)
  have old: "two_thirds ?V (voters_of (Prevote, msg_block_hash m) ?t)"
    if "powers_fit s" "bft_phase s \<in> {PrecommitPhase, Finalized}"
    using assms(1,4) that two_thirds_mono [OF mono] by (auto simp: quorums_ok_def)
  have old2: "two_thirds ?V (voters_of (Precommit, msg_block_hash m) ?t)"
    if "powers_fit s" "bft_phase s = Finalized"
    using assms(1,4) that two_thirds_mono [OF mono] by (auto simp: quorums_ok_def)
  show ?thesis
    unfolding quorums_ok_def
    using tot old old2 q assms(3,4) phase
    by (cases "bft_phase s"; cases "msg_vote_type m") (auto simp: powers_fit_def split: if_splits)
qed

lemma quorums_ok_note [simp]:
  "quorums_ok (note_vote m s) \<longleftrightarrow> quorums_ok s" "quorums_ok (add_evidence X m s) \<longleftrightarrow> quorums_ok s"
  unfolding quorums_ok_def total_ok_def powers_fit_def note_vote_fields voters_of_note_vote
    add_evidence_fields voters_of_add_evidence by (rule refl)+

lemma quorums_ok_vote:
  assumes "quorums_ok s" and "lock_ok s" and "handle X m s = (t, res)"
  shows "quorums_ok t"
  using assms(3) by (cases rule: handle_cases) (use assms(1,2) in \<open>auto intro: quorums_ok_count\<close>)

lemma quorums_ok_other:
  "bft_new vs = Ok s \<Longrightarrow> quorums_ok s"
  "quorums_ok s \<Longrightarrow> start_round h r s = Ok t \<Longrightarrow> quorums_ok t"
  "quorums_ok s \<Longrightarrow> handle_proposal X p s = Ok t \<Longrightarrow> quorums_ok t"
  "quorums_ok s \<Longrightarrow> quorums_ok (s\<lparr>bft_evidence := es\<rparr>)"
proof -
  assume new: "bft_new vs = Ok s"
  have "bft_phase s = Waiting" by (subst bft_new_Ok(7) [OF new]) simp
  then show "quorums_ok s" using bft_new_Ok(5) [OF new] by (simp add: quorums_ok_def total_ok_def)
qed (auto simp: quorums_ok_def total_ok_def powers_fit_def voters_of_def start_round_Ok handle_proposal_Ok)

lemma bft_run_quorums_ok: "bft_run X vs s \<Longrightarrow> quorums_ok s"
proof -
  assume "bft_run X vs s"
  then have "quorums_ok s \<and> lock_ok s"
  proof (induction rule: bft_run_invariant)
    case (vote s t m res)
    then show ?case using quorums_ok_vote lock_ok_vote by blast
  qed (auto intro: quorums_ok_other lock_ok_new lock_ok_start lock_ok_proposal)
  then show ?thesis ..
qed

subsection \<open>Certificates\<close>

definition cert_voters :: "finality_certificate \<Rightarrow> string set" where
  "cert_voters c = msg_validator_id ` set (fc_precommits c)"

definition powers_sum :: "validator list \<Rightarrow> nat" where
  "powers_sum vs = sum_list (map (\<lambda>v. unat (val_voting_power v)) vs)"

definition cert_vote :: "externals \<Rightarrow> finality_certificate \<Rightarrow> consensus_message \<Rightarrow> bool" where
  "cert_vote X c m \<longleftrightarrow> msg_height m = blk_height (fc_block c) \<and> msg_round m = fc_round c \<and>
     msg_vote_type m = Precommit \<and> msg_block_hash m = blk_hash (fc_block c) \<and> vote_verify X m = Ok ()"

lemma check_precommit_Ok:
  assumes "check_precommit X P c m (voters, sp) = Ok (voters', sp')" and "unat sp = set_power P (fset voters)"
  shows "cert_vote X c m \<and> msg_validator_id m \<in> fmdom' P \<and> voters' = finsert (msg_validator_id m) voters \<and>
    unat sp' = set_power P (fset voters')"
proof -
  let ?v = "msg_validator_id m"
  obtain p where p: "fmlookup P ?v = Some p" and vote: "cert_vote X c m"
    and step: "if ?v |\<in>| voters then voters' = voters \<and> sp' = sp
      else voters' = finsert ?v voters \<and> checked_add sp p = Some sp'"
    using assms(1) by (auto simp: check_precommit_def cert_vote_def result_simps split: if_splits)
  from p have dom: "?v \<in> fmdom' P" by (rule fmdom'I)
  have "set_power P (insert ?v (fset voters)) = unat p + set_power P (fset voters)" if "?v |\<notin>| voters"
    using that dom p by (simp add: set_power_def Int_insert_left get0_def)
  with step assms(2) dom vote show ?thesis
    by (auto simp: checked_add_Some insert_absorb split: if_splits)
qed

lemma check_precommits_Ok:
  assumes "for_each (check_precommit X P c) ms (voters, sp) = Ok (voters', sp')"
    and "unat sp = set_power P (fset voters)"
  shows "(\<forall>m \<in> set ms. cert_vote X c m \<and> msg_validator_id m \<in> fmdom' P) \<and>
    fset voters' = fset voters \<union> msg_validator_id ` set ms \<and> unat sp' = set_power P (fset voters')"
  using assms
proof (induction ms arbitrary: voters sp)
  case (Cons m ms)
  obtain voters1 sp1 where "check_precommit X P c m (voters, sp) = Ok (voters1, sp1)"
    and rest: "for_each (check_precommit X P c) ms (voters1, sp1) = Ok (voters', sp')"
    using Cons.prems(1) by (auto simp: result_simps split: sum.splits)
  with check_precommit_Ok Cons.prems(2) have one: "cert_vote X c m" "msg_validator_id m \<in> fmdom' P"
    "voters1 = finsert (msg_validator_id m) voters" "unat sp1 = set_power P (fset voters1)" by blast+
  from Cons.IH [OF rest one(4)] one show ?case by auto
qed simp

lemma collect_map_total_le: "fm_total (collect_map kvs) \<le> sum_list (map (\<lambda>(k, v). unat v) kvs)"
  for kvs :: "('k \<times> 'a::len word) list"
proof (induction kvs rule: rev_induct)
  case (snoc kv kvs)
  obtain k v where kv: "kv = (k, v)" by (cases kv)
  have "collect_map (kvs @ [kv]) = fmupd k v (collect_map kvs)" by (simp add: collect_map_def kv)
  then show ?case using snoc fm_total_fmupd [of k v "collect_map kvs"] by (simp add: kv)
qed (simp add: collect_map_def)

lemma validator_powers_total: "fm_total (validator_powers vs) \<le> powers_sum vs"
  using collect_map_total_le [of "map (\<lambda>v. (val_id v, ucast (val_voting_power v) :: u128)) vs"]
  by (simp add: validator_powers_def powers_sum_def comp_def unat_ucast_u128)

lemma powers_sum_bound: "powers_sum vs \<le> length vs * 2 ^ 64"
proof (induction vs)
  case (Cons v vs)
  then show ?case using unat_lt [of "val_voting_power v"] by (simp add: powers_sum_def)
qed (simp add: powers_sum_def)

lemma cert_total_exact:
  assumes "length vs < 2 ^ 60"
  shows "unat (wrapping_sum (map (\<lambda>v. ucast (val_voting_power v) :: u128) vs)) = powers_sum vs"
    and "powers_sum vs < 2 ^ 124"
proof -
  show b: "powers_sum vs < 2 ^ 124" using powers_sum_bound [of vs] assms by simp
  have "sum_list (map unat (map (\<lambda>v. ucast (val_voting_power v) :: u128) vs)) = powers_sum vs"
    by (simp add: powers_sum_def comp_def unat_ucast_u128)
  with b show "unat (wrapping_sum (map (\<lambda>v. ucast (val_voting_power v) :: u128) vs)) = powers_sum vs"
    by (simp add: unat_wrapping_sum)
qed

lemma certificate_verify_Ok:
  assumes "certificate_verify X c vs = Ok ()" and "length vs < 2 ^ 60"
  shows "blk_hash (fc_block c) = calculate_hash X (fc_block c)"
    and "m \<in> set (fc_precommits c) \<Longrightarrow> cert_vote X c m"
    and "cert_voters c \<subseteq> fmdom' (validator_powers vs)"
    and "2 * powers_sum vs < 3 * set_power (validator_powers vs) (cert_voters c)"
proof -
  let ?P = "validator_powers vs" and ?t = "wrapping_sum (map (\<lambda>v. ucast (val_voting_power v) :: u128) vs)"
  obtain voters sp where loop: "for_each (check_precommit X ?P c) (fc_precommits c) ({||}, 0) = Ok (voters, sp)"
    and hash: "blk_hash (fc_block c) = calculate_hash X (fc_block c)" and cmp: "\<not> sp * 3 \<le> ?t * 2"
    using assms(1) by (auto simp: certificate_verify_def Let_def result_simps split: if_splits)
  have inv: "\<forall>m \<in> set (fc_precommits c). cert_vote X c m \<and> msg_validator_id m \<in> fmdom' ?P"
    "fset voters = cert_voters c" "unat sp = set_power ?P (cert_voters c)"
    using check_precommits_Ok [OF loop] by (auto simp: set_power_def cert_voters_def)
  show "blk_hash (fc_block c) = calculate_hash X (fc_block c)" by (rule hash)
  show "m \<in> set (fc_precommits c) \<Longrightarrow> cert_vote X c m" using inv(1) by blast
  show "cert_voters c \<subseteq> fmdom' ?P" using inv(1) by (auto simp: cert_voters_def)
  note tot = cert_total_exact [OF assms(2)]
  have "unat sp < 2 ^ 124"
    using inv(3) set_power_le [of ?P "cert_voters c"] validator_powers_total [of vs] tot(2) by linarith
  then have "unat (sp * 3) = unat sp * 3" "unat (?t * 2) = unat ?t * 2"
    using tot by (simp_all add: unat_word_ariths)
  with cmp tot(1) inv(3) show "2 * powers_sum vs < 3 * set_power ?P (cert_voters c)"
    by (simp add: word_le_nat_alt)
qed

text \<open>Certificates provide weighted quorums.\<close>

definition certified :: "externals \<Rightarrow> validator list \<Rightarrow> string set \<Rightarrow> bool" where
  "certified X vs Q \<longleftrightarrow> length vs < 2 ^ 60 \<and> (\<exists>c. certificate_verify X c vs = Ok () \<and> Q = cert_voters c)"

definition voter_power :: "validator list \<Rightarrow> string \<Rightarrow> nat" where
  "voter_power vs v = unat (get0 (validator_powers vs) v)"

interpretation cert_quorum: weighted_quorum "voter_power vs" "fmdom' (validator_powers vs)" "powers_sum vs" "certified X vs"
  for X vs
proof
  show "finite (fmdom' (validator_powers vs))" by simp
  show "sum (voter_power vs) (fmdom' (validator_powers vs)) \<le> powers_sum vs"
    using validator_powers_total [of vs] by (simp add: fm_total_def voter_power_def)
  fix Q assume "certified X vs Q"
  then obtain c where len: "length vs < 2 ^ 60" and c: "certificate_verify X c vs = Ok ()" "Q = cert_voters c"
    by (auto simp: certified_def)
  note ok = certificate_verify_Ok [OF c(1) len]
  show sub: "Q \<subseteq> fmdom' (validator_powers vs)" using ok(3) c(2) by simp
  then have "Q \<inter> fmdom' (validator_powers vs) = Q" by blast
  then show "2 * powers_sum vs < 3 * sum (voter_power vs) Q"
    using ok(4) c(2) by (simp add: set_power_def voter_power_def)
qed

lemma evidence_verify_Ok:
  "evidence_verify X e = Ok () \<longleftrightarrow> vote_verify X (de_first e) = Ok () \<and> vote_verify X (de_second e) = Ok () \<and>
     history_key (de_first e) = history_key (de_second e) \<and> msg_block_hash (de_first e) \<noteq> msg_block_hash (de_second e)"
  by (auto simp: evidence_verify_def history_key_def result_simps split: if_splits)

end
