(* ===== verification/Runtime_Lemmas.thy ===== *)
theory Runtime_Lemmas
  imports Consensus_Runtime Consensus_Lemmas Ledger_Properties
begin

text \<open>
  Lemmas about the consensus driver. A run of a node is an inductive relation: the driver starts on
  a chain and then executes its operations in any order; the relation also collects the votes the node
  has signed. The operations on it are those the node program calls with a fixed validator set, so not
  \<open>apply_sync_batch\<close> (unused, and without certificates) and not \<open>replace_bootstrap_validators\<close> (which
  starts a new machine).
\<close>

fun signed_vote :: "('e, consensus_message) sum \<Rightarrow> consensus_message list" where
  "signed_vote (Inr m) = [m]"
| "signed_vote (Inl e) = []"

fun signed_precommit :: "('e, consensus_message option) sum \<Rightarrow> consensus_message list" where
  "signed_precommit (Inr (Some m)) = [m]"
| "signed_precommit _ = []"

inductive node_run ::
  "externals \<Rightarrow> blockchain \<Rightarrow> validator list \<Rightarrow> consensus_runtime \<Rightarrow> consensus_message list \<Rightarrow> bool"
  for X c0 vs where
  start: "with_signer now c0 vs w t = Ok rt \<Longrightarrow> node_run X c0 vs rt []"
| proposal: "node_run X c0 vs rt sg \<Longrightarrow> receive_proposal X now clock p rt = (rt', r) \<Longrightarrow>
    node_run X c0 vs rt' (sg @ signed_vote r)"
| vote: "node_run X c0 vs rt sg \<Longrightarrow> receive_vote X now m rt = (rt', q) \<Longrightarrow>
    node_run X c0 vs rt' (sg @ signed_precommit q)"
| queue: "node_run X c0 vs rt sg \<Longrightarrow> node_run X c0 vs (rt\<lparr>rt_deferred_votes := ms\<rparr>) sg"
| timeout: "node_run X c0 vs rt sg \<Longrightarrow> timeout_if_due now rt = Ok (rt', b) \<Longrightarrow> node_run X c0 vs rt' sg"
| restart: "node_run X c0 vs rt sg \<Longrightarrow> node_run X c0 vs (restart_phase_timeout now rt) sg"
| schedule: "node_run X c0 vs rt sg \<Longrightarrow> set_event_schedule X es rt = Ok rt' \<Longrightarrow> node_run X c0 vs rt' sg"
| evidence: "node_run X c0 vs rt sg \<Longrightarrow> take_evidence rt = (evs, rt') \<Longrightarrow> node_run X c0 vs rt' sg"
| finalized: "node_run X c0 vs rt sg \<Longrightarrow> take_finalized rt = (cs, rt') \<Longrightarrow> node_run X c0 vs rt' sg"
| import: "node_run X c0 vs rt sg \<Longrightarrow> import_certificate_history X cs rt = (rt', n) \<Longrightarrow> node_run X c0 vs rt' sg"
| sync: "node_run X c0 vs rt sg \<Longrightarrow> apply_sync_certificates X now clock cs rt = (rt', n) \<Longrightarrow>
    node_run X c0 vs rt' sg"
| advance: "node_run X c0 vs rt sg \<Longrightarrow> advance_after_finalization now rt = (rt', u) \<Longrightarrow> node_run X c0 vs rt' sg"

subsection \<open>What each operation does to the consensus part of the driver\<close>

definition same_consensus :: "consensus_runtime \<Rightarrow> consensus_runtime \<Rightarrow> bool" where
  "same_consensus rt rt' \<longleftrightarrow> rt_consensus rt' = rt_consensus rt \<and> rt_pending rt' = rt_pending rt"

lemma reset_deadline_fields [simp]:
  "rt_chain (reset_deadline now rt) = rt_chain rt" "rt_consensus (reset_deadline now rt) = rt_consensus rt"
  "rt_pending (reset_deadline now rt) = rt_pending rt" "rt_validators (reset_deadline now rt) = rt_validators rt"
  "rt_finalized (reset_deadline now rt) = rt_finalized rt" "rt_precommits (reset_deadline now rt) = rt_precommits rt"
  "rt_deferred_votes (reset_deadline now rt) = rt_deferred_votes rt"
  "rt_validator (reset_deadline now rt) = rt_validator rt"
  by (simp_all add: reset_deadline_def)

lemma store_precommit_fields [simp]:
  "rt_chain (store_precommit m rt) = rt_chain rt" "rt_consensus (store_precommit m rt) = rt_consensus rt"
  "rt_pending (store_precommit m rt) = rt_pending rt" "rt_validators (store_precommit m rt) = rt_validators rt"
  "rt_finalized (store_precommit m rt) = rt_finalized rt"
  "rt_deferred_votes (store_precommit m rt) = rt_deferred_votes rt"
  "rt_validator (store_precommit m rt) = rt_validator rt"
  by (simp_all add: store_precommit_def)

lemma after_phase_change_fields [simp]:
  "rt_chain (after_phase_change now ph rt) = rt_chain rt"
  "rt_consensus (after_phase_change now ph rt) = rt_consensus rt"
  "rt_pending (after_phase_change now ph rt) = rt_pending rt"
  "rt_validators (after_phase_change now ph rt) = rt_validators rt"
  "rt_finalized (after_phase_change now ph rt) = rt_finalized rt"
  "rt_precommits (after_phase_change now ph rt) = rt_precommits rt"
  "rt_deferred_votes (after_phase_change now ph rt) = rt_deferred_votes rt"
  "rt_validator (after_phase_change now ph rt) = rt_validator rt"
  by (simp_all add: after_phase_change_def)

lemma sign_vote_Ok:
  assumes "sign_vote X h r ty hash rt = Ok m"
  shows "msg_height m = h \<and> msg_round m = r \<and> msg_vote_type m = ty \<and> msg_block_hash m = hash \<and>
    msg_validator_id m = signer_address X (rt_validator rt) \<and> vote_verify X m = Ok ()"
  using assms by (auto simp: sign_vote_def vote_from_signature_def Let_def result_simps)

lemma receive_proposal_cases:
  assumes "receive_proposal X now clock p rt = (rt', r)"
  obtains (rejected) e where "r = Err e" "rt' = rt"
  | (accepted) s where "handle_proposal X p (rt_consensus rt) = Ok s"
      "rt' = reset_deadline now (rt\<lparr>rt_consensus := s, rt_pending := Some (prop_block p)\<rparr>)"
      "r = sign_vote X (prop_height p) (prop_round p) Prevote (blk_hash (prop_block p)) rt'"
proof (cases "handle_proposal X p (rt_consensus rt)")
  case (Inl e)
  then have "rt' = rt \<and> (\<exists>e. r = Err e)"
    using assms by (auto simp: receive_proposal_def split: option.splits if_splits sum.splits)
  then show ?thesis using rejected by blast
next
  case (Inr s)
  let ?rt1 = "reset_deadline now (rt\<lparr>rt_consensus := s, rt_pending := Some (prop_block p)\<rparr>)"
  have "(rt' = rt \<and> (\<exists>e. r = Err e)) \<or> (rt' = ?rt1 \<and>
      r = sign_vote X (prop_height p) (prop_round p) Prevote (blk_hash (prop_block p)) ?rt1)"
    using assms Inr by (simp add: receive_proposal_def Let_def split: option.splits if_splits sum.splits) blast+
  then show ?thesis using rejected accepted [OF Inr] by blast
qed

lemma finalize_pending_fields:
  assumes "finalize_pending X rt = (rt', q)"
  shows "rt_consensus rt' = rt_consensus rt \<and> rt_validators rt' = rt_validators rt \<and> rt_pending rt' = None \<and>
    rt_deferred_votes rt' = rt_deferred_votes rt \<and> rt_validator rt' = rt_validator rt \<and> signed_precommit q = []"
  using assms by (auto simp: finalize_pending_def Let_def split: option.splits if_splits sum.splits prod.splits)

lemma receive_vote_cases:
  assumes "receive_vote X now m rt = (rt', q)"
  obtains (rejected) s e where "handle X m (rt_consensus rt) = (s, Err e)" "rt' = rt\<lparr>rt_consensus := s\<rparr>"
      "q = Err (BftError e)"
  | (accepted) s rt1 where "handle X m (rt_consensus rt) = (s, Ok ())"
      "rt1 = after_phase_change now (bft_phase (rt_consensus rt)) (store_precommit m (rt\<lparr>rt_consensus := s\<rparr>))"
      "if bft_phase s = PrecommitPhase then rt' = rt1 \<and>
           (case rt_pending rt1 of None \<Rightarrow> q = Err NoPendingBlock
            | Some b \<Rightarrow> q = and_then (sign_vote X (blk_height b) (bft_round s) Precommit (blk_hash b) rt1) (\<lambda>m. Ok (Some m)))
         else if bft_phase s = Finalized then finalize_pending X rt1 = (rt', q)
         else rt' = rt1 \<and> q = Ok None"
proof (cases "handle X m (rt_consensus rt)")
  case (Pair s res)
  then show ?thesis
  proof (cases res)
    case (Inl e)
    then show ?thesis using assms Pair rejected by (simp add: receive_vote_def Let_def)
  next
    case (Inr u)
    let ?rt1 = "after_phase_change now (bft_phase (rt_consensus rt)) (store_precommit m (rt\<lparr>rt_consensus := s\<rparr>))"
    have "(rt', q) = (if bft_phase s = PrecommitPhase then
          (case rt_pending ?rt1 of
             None \<Rightarrow> (?rt1, Err NoPendingBlock)
           | Some b \<Rightarrow>
             (?rt1, and_then (sign_vote X (blk_height b) (bft_round s) Precommit (blk_hash b) ?rt1) (\<lambda>m. Ok (Some m))))
        else if bft_phase s = Finalized then finalize_pending X ?rt1 else (?rt1, Ok None))"
      using assms Pair Inr by (simp only: receive_vote_def Let_def prod.case sum.case)
    then show ?thesis using Pair Inr
      by (intro accepted [OF _ refl, of s]) (auto split: option.splits)
  qed
qed

subsection \<open>The invariant of the votes a node signs\<close>

text \<open>
  The candidate block of the driver is the proposal of the machine; the votes signed so far belong
  to heights the machine has reached; and all precommits of one height are for one block, which is
  the lock while the machine is at that height.
\<close>

definition pending_ok :: "consensus_runtime \<Rightarrow> bool" where
  "pending_ok rt \<longleftrightarrow> (\<forall>b. rt_pending rt = Some b \<longrightarrow>
     bft_proposal (rt_consensus rt) = Some (blk_hash b) \<and> blk_height b = bft_height (rt_consensus rt)) \<and>
     (bft_phase (rt_consensus rt) \<in> {PrevotePhase, PrecommitPhase} \<longrightarrow> rt_pending rt \<noteq> None)"

definition votes_consistent :: "bft_consensus \<Rightarrow> consensus_message list \<Rightarrow> bool" where
  "votes_consistent s sg \<longleftrightarrow>
     (\<forall>m \<in> set sg. msg_height m \<le> bft_height s) \<and>
     (\<forall>m \<in> set sg. msg_vote_type m = Precommit \<and> msg_height m = bft_height s \<longrightarrow>
        bft_locked_value s = Some (msg_block_hash m)) \<and>
     (\<forall>m \<in> set sg. \<forall>m' \<in> set sg. msg_vote_type m = Precommit \<and> msg_vote_type m' = Precommit \<and>
        msg_height m = msg_height m' \<longrightarrow> msg_block_hash m = msg_block_hash m')"

lemma votes_consistentD:
  assumes "votes_consistent s sg" and "m \<in> set sg"
  shows "msg_height m \<le> bft_height s"
    and "msg_vote_type m = Precommit \<Longrightarrow> msg_height m = bft_height s \<Longrightarrow> bft_locked_value s = Some (msg_block_hash m)"
    and "m' \<in> set sg \<Longrightarrow> msg_vote_type m = Precommit \<Longrightarrow> msg_vote_type m' = Precommit \<Longrightarrow>
      msg_height m = msg_height m' \<Longrightarrow> msg_block_hash m = msg_block_hash m'"
  using assms unfolding votes_consistent_def by blast+

text \<open>A later machine keeps the votes consistent if it keeps the lock or has moved to a later height.\<close>

lemma votes_consistent_later:
  assumes vc: "votes_consistent s sg" and "bft_height s \<le> bft_height t"
    and lock: "\<And>v. bft_height t = bft_height s \<Longrightarrow> bft_locked_value s = Some v \<Longrightarrow> bft_locked_value t = Some v"
  shows "votes_consistent t sg"
  unfolding votes_consistent_def
proof (intro conjI ballI impI)
  fix m assume m: "m \<in> set sg"
  from votes_consistentD(1) [OF vc m] assms(2) show le: "msg_height m \<le> bft_height t" by (rule order_trans)
  assume "msg_vote_type m = Precommit \<and> msg_height m = bft_height t"
  moreover from this have "bft_height t = bft_height s"
    using votes_consistentD(1) [OF vc m] assms(2) by auto
  ultimately show "bft_locked_value t = Some (msg_block_hash m)"
    using lock votes_consistentD(2) [OF vc m] by metis
next
  fix m m' assume "m \<in> set sg" "m' \<in> set sg"
    "msg_vote_type m = Precommit \<and> msg_vote_type m' = Precommit \<and> msg_height m = msg_height m'"
  then show "msg_block_hash m = msg_block_hash m'" using votes_consistentD(3) [OF vc] by blast
qed

lemma votes_consistent_start:
  assumes "votes_consistent s sg" and "start_round h r s = Ok t"
  shows "votes_consistent t sg"
  using assms(1)
proof (rule votes_consistent_later)
  show "bft_height s \<le> bft_height t" using assms(2) by (auto simp: start_round_Ok)
  show "bft_height t = bft_height s \<Longrightarrow> bft_locked_value s = Some v \<Longrightarrow> bft_locked_value t = Some v" for v
    using assms(2) by (auto simp: start_round_Ok split: if_splits)
qed

lemma lock_kept_vote:
  assumes "handle X m s = (t, res)" and "lock_ok s" and "bft_locked_value s = Some v"
  shows "bft_locked_value t = Some v"
  using assms(1)
proof (cases rule: handle_cases)
  case counted
  then have "bft_phase s = PrevotePhase \<Longrightarrow> v = msg_block_hash m"
    using assms(2,3) by (simp add: lock_ok_def)
  then show ?thesis using counted(2) assms(3) by (simp add: count_vote_def Let_def split: vote_type.splits)
qed (use assms(3) in simp_all)

lemma handle_phase:
  assumes "handle X m s = (t, res)" and "bft_phase t \<in> {PrevotePhase, PrecommitPhase}"
  shows "bft_phase s \<in> {PrevotePhase, PrecommitPhase}"
  using assms(1)
proof (cases rule: handle_cases)
  case counted
  then show ?thesis using assms(2)
    by (cases "bft_phase s"; cases "msg_vote_type m") (simp_all add: count_vote_def Let_def split: if_splits)
qed (use assms(2) in simp_all)

lemma votes_consistent_handle:
  assumes "votes_consistent s sg" and "handle X m s = (t, res)" and "lock_ok s"
  shows "votes_consistent t sg"
  using assms(1)
  by (rule votes_consistent_later) (use handle_fields [OF assms(2)] lock_kept_vote [OF assms(2,3)] in simp_all)

lemma votes_consistent_sign:
  assumes vc: "votes_consistent s sg" and height: "msg_height m = bft_height s"
    and lock: "msg_vote_type m = Precommit \<Longrightarrow> bft_locked_value s = Some (msg_block_hash m)"
  shows "votes_consistent s (sg @ [m])"
proof -
  have new: "msg_block_hash m' = msg_block_hash m"
    if "m' \<in> set sg" "msg_vote_type m' = Precommit" "msg_vote_type m = Precommit" "msg_height m' = msg_height m" for m'
    using votes_consistentD(2) [OF vc that(1,2)] lock that(3,4) height by simp
  show ?thesis
    unfolding votes_consistent_def
  proof (intro conjI ballI impI)
    fix a assume "a \<in> set (sg @ [m])"
    then show "msg_height a \<le> bft_height s" using votes_consistentD(1) [OF vc] height by auto
    assume "msg_vote_type a = Precommit \<and> msg_height a = bft_height s"
    with \<open>a \<in> set (sg @ [m])\<close> show "bft_locked_value s = Some (msg_block_hash a)"
      using votes_consistentD(2) [OF vc] lock by auto
  next
    fix a b assume "a \<in> set (sg @ [m])" "b \<in> set (sg @ [m])"
      "msg_vote_type a = Precommit \<and> msg_vote_type b = Precommit \<and> msg_height a = msg_height b"
    then show "msg_block_hash a = msg_block_hash b"
      using votes_consistentD(3) [OF vc, of a b] new [of a] new [of b] by (elim conjE) (simp, metis)
  qed
qed

definition node_ok :: "externals \<Rightarrow> validator list \<Rightarrow> consensus_runtime \<Rightarrow> consensus_message list \<Rightarrow> bool" where
  "node_ok X vs rt sg \<longleftrightarrow> bft_run X vs (rt_consensus rt) \<and> pending_ok rt \<and> votes_consistent (rt_consensus rt) sg \<and>
     rt_validators rt = vs"

lemma node_ok_same:
  assumes "node_ok X vs rt sg" and "same_consensus rt rt'" and "rt_validators rt' = rt_validators rt"
  shows "node_ok X vs rt' sg"
  using assms by (simp add: node_ok_def same_consensus_def pending_ok_def)

lemma node_ok_start_round:
  assumes "node_ok X vs rt sg" and "start_round h r (rt_consensus rt) = Ok s"
    and "rt_consensus rt' = s" and "rt_pending rt' = None" and "rt_validators rt' = rt_validators rt"
  shows "node_ok X vs rt' sg"
  using assms start_round_Ok [of h r "rt_consensus rt" s]
  by (auto simp: node_ok_def pending_ok_def intro: bft_run.start votes_consistent_start)

lemma node_ok_proposal:
  assumes ok: "node_ok X vs rt sg" and "receive_proposal X now clock p rt = (rt', r)"
  shows "node_ok X vs rt' (sg @ signed_vote r)"
  using assms(2)
proof (cases rule: receive_proposal_cases)
  case (accepted s)
  let ?c = "rt_consensus rt" and ?b = "prop_block p"
  have hp: "prop_height p = bft_height ?c" "proposal_verify X p = Ok ()"
    and s: "s = ?c\<lparr>bft_proposal := Some (blk_hash ?b), bft_phase := PrevotePhase\<rparr>"
    using accepted(1) by (simp_all add: handle_proposal_Ok)
  have height: "blk_height ?b = bft_height s"
    using hp by (auto simp: s proposal_verify_def result_simps)
  have "votes_consistent ?c sg" using ok by (simp add: node_ok_def)
  then have vc: "votes_consistent s sg" by (rule votes_consistent_later) (simp_all add: s)
  have "votes_consistent s (sg @ signed_vote r)"
  proof (cases r)
    case (Inr m)
    then have "msg_height m = bft_height s" "msg_vote_type m = Prevote"
      using sign_vote_Ok [of X _ _ _ _ rt' m] accepted(3) hp(1) by (simp_all add: s)
    then have "votes_consistent s (sg @ [m])" by (intro votes_consistent_sign [OF vc]) simp_all
    then show ?thesis by (simp add: Inr)
  qed (simp add: vc)
  moreover have "bft_run X vs s" using ok bft_run.proposal [OF _ accepted(1)] by (simp add: node_ok_def)
  moreover have "pending_ok rt'" using height by (simp add: accepted(2) pending_ok_def) (simp add: s)
  ultimately show ?thesis using ok by (simp add: node_ok_def accepted(2))
qed (use ok in simp)

lemma node_ok_vote:
  assumes ok: "node_ok X vs rt sg" and "receive_vote X now m rt = (rt', q)"
  shows "node_ok X vs rt' (sg @ signed_precommit q)"
proof -
  have run: "bft_run X vs (rt_consensus rt)" and vc: "votes_consistent (rt_consensus rt) sg"
    and pend: "pending_ok rt" and vs: "rt_validators rt = vs"
    using ok by (simp_all add: node_ok_def)
  note lock = bft_run_lock_ok [OF run]
  have after: "bft_run X vs s \<and> votes_consistent s sg \<and> lock_ok s \<and>
      bft_height s = bft_height (rt_consensus rt) \<and> bft_proposal s = bft_proposal (rt_consensus rt) \<and>
      (bft_phase s \<in> {PrevotePhase, PrecommitPhase} \<longrightarrow> rt_pending rt \<noteq> None)"
    if "handle X m (rt_consensus rt) = (s, res)" for s res
    using bft_run.vote [OF run that] votes_consistent_handle [OF vc that lock] lock_ok_vote [OF lock that]
      handle_fields [OF that] handle_phase [OF that] pend by (auto simp: pending_ok_def)
  from assms(2) show ?thesis
  proof (cases rule: receive_vote_cases)
    case (rejected s e)
    then show ?thesis using after [OF rejected(1)] pend vs by (simp add: node_ok_def pending_ok_def)
  next
    case (accepted s rt1)
    note a = after [OF accepted(1)]
    have rt1: "rt_consensus rt1 = s" "rt_pending rt1 = rt_pending rt" "rt_validators rt1 = vs"
      using accepted(2) vs by simp_all
    have ok1: "node_ok X vs rt1 sg" using a rt1 pend by (simp add: node_ok_def pending_ok_def)
    show ?thesis
    proof (cases "bft_phase s = PrecommitPhase")
      case True
      then have rt': "rt' = rt1" using accepted(3) by simp
      have lv: "bft_locked_value s = bft_proposal s" using a True by (simp add: lock_ok_def)
      have "votes_consistent s (sg @ signed_precommit q)"
      proof (cases "rt_pending rt1")
        case (Some b)
        then have q: "q = and_then (sign_vote X (blk_height b) (bft_round s) Precommit (blk_hash b) rt1) (\<lambda>m. Ok (Some m))"
          using accepted(3) True by simp
        have b: "bft_proposal s = Some (blk_hash b)" "blk_height b = bft_height s"
          using pend Some rt1(2) a by (simp_all add: pending_ok_def)
        show ?thesis
        proof (cases "sign_vote X (blk_height b) (bft_round s) Precommit (blk_hash b) rt1")
          case (Inr v)
          then show ?thesis using sign_vote_Ok [OF Inr] a b lv by (auto simp: q intro!: votes_consistent_sign)
        qed (use a q in simp)
      qed (use accepted(3) True a in simp)
      then show ?thesis using ok1 rt' rt1 by (simp add: node_ok_def)
    next
      case False
      show ?thesis
      proof (cases "bft_phase s = Finalized")
        case True
        then have "finalize_pending X rt1 = (rt', q)" using accepted(3) by simp
        from finalize_pending_fields [OF this] ok1 rt1(1) True show ?thesis by (simp add: node_ok_def pending_ok_def)
      qed (use accepted(3) False ok1 in simp)
    qed
  qed
qed

text \<open>The operations that touch only the ledger, the certificates or the clocks.\<close>

lemma import_certificates_fields:
  "import_certificates X cs n rt = (rt', r) \<Longrightarrow>
   rt_chain rt' = rt_chain rt \<and> same_consensus rt rt' \<and> rt_validators rt' = rt_validators rt"
  by (induction cs arbitrary: n rt)
    (fastforce simp: same_consensus_def split: sum.splits option.splits if_splits)+

lemma import_certificate_history_fields:
  assumes "import_certificate_history X cs rt = (rt', r)"
  shows "rt_chain rt' = rt_chain rt \<and> same_consensus rt rt' \<and> rt_validators rt' = rt_validators rt"
proof -
  obtain rt1 r1 where imp: "import_certificates X cs 0 rt = (rt1, r1)" by fastforce
  from import_certificates_fields [OF imp] assms show ?thesis
    by (cases r1) (auto simp: import_certificate_history_def imp same_consensus_def)
qed

lemma apply_sync_certificate_fields:
  assumes "apply_sync_certificate X clock c rt = (rt', r)"
  shows "same_consensus rt rt' \<and> rt_validators rt' = rt_validators rt"
  using assms
  by (simp add: apply_sync_certificate_def Let_def same_consensus_def
      split: sum.splits option.splits if_splits prod.splits) auto

lemma apply_sync_loop_fields:
  "apply_sync_loop X clock cs n rt = (rt', r) \<Longrightarrow> same_consensus rt rt' \<and> rt_validators rt' = rt_validators rt"
proof (induction cs arbitrary: n rt)
  case (Cons c cs)
  obtain rt1 r1 where one: "apply_sync_certificate X clock c rt = (rt1, r1)" by fastforce
  from apply_sync_certificate_fields [OF one] Cons show ?case
    by (cases r1) (auto simp: one same_consensus_def)
qed (simp add: same_consensus_def)

lemma node_ok_next_round:
  assumes "node_ok X vs rt sg" and "next_round_state now rt = (rt', r)"
  shows "node_ok X vs rt' sg"
proof (cases "last_block (rt_chain rt)")
  case None
  then show ?thesis using assms by (simp add: next_round_state_def)
next
  case (Some tip)
  show ?thesis
  proof (cases "start_round (blk_height tip + 1) 0 (rt_consensus rt)")
    case (Inl e)
    then show ?thesis using assms Some by (simp add: next_round_state_def)
  next
    case (Inr s)
    have "rt_consensus rt' = s" "rt_pending rt' = None" "rt_validators rt' = rt_validators rt"
      using assms(2) Some Inr unfolding next_round_state_def by (auto simp del: consensus_runtime.update_convs)
    then show ?thesis by (rule node_ok_start_round [OF assms(1) Inr])
  qed
qed

lemma node_ok_sync:
  assumes "node_ok X vs rt sg" and "apply_sync_certificates X now clock cs rt = (rt', r)"
  shows "node_ok X vs rt' sg"
proof -
  obtain rt1 r1 where loop: "apply_sync_loop X clock cs 0 rt = (rt1, r1)" by fastforce
  have ok1: "node_ok X vs rt1 sg" using node_ok_same [OF assms(1)] apply_sync_loop_fields [OF loop] by blast
  consider "rt' = rt1" | u where "next_round_state now rt1 = (rt', u)"
    using assms(2) by (cases r1) (auto simp: apply_sync_certificates_def loop split: if_splits prod.splits)
  then show ?thesis using ok1 node_ok_next_round [OF ok1] by cases auto
qed

lemma node_ok_timeout:
  assumes "node_ok X vs rt sg" and "timeout_if_due now rt = Ok (rt', b)"
  shows "node_ok X vs rt' sg"
proof (cases "now < rt_deadline rt \<or> bft_phase (rt_consensus rt) = Finalized")
  case True
  then show ?thesis using assms by (auto simp: timeout_if_due_def)
next
  case False
  show ?thesis
  proof (cases "on_timeout (rt_consensus rt)")
    case (Inl e)
    then show ?thesis using assms(2) False by (simp add: timeout_if_due_def)
  next
    case (Inr sn)
    obtain s n where sn: "sn = (s, n)" by (cases sn)
    then have start: "start_round (bft_height (rt_consensus rt)) n (rt_consensus rt) = Ok s"
      using Inr by (simp add: on_timeout_Ok)
    have "rt_consensus rt' = s" "rt_pending rt' = None" "rt_validators rt' = rt_validators rt"
      using assms(2) False Inr sn by (auto simp: timeout_if_due_def)
    then show ?thesis by (rule node_ok_start_round [OF assms(1) start])
  qed
qed

lemma with_signer_Ok:
  assumes "with_signer now c vs w t = Ok rt"
  obtains s0 where "bft_new vs = Ok s0" "start_round (case last_block c of Some b \<Rightarrow> blk_height b + 1 | None \<Rightarrow> 1) 0 s0
      = Ok (rt_consensus rt)" "rt_pending rt = None" "rt_validators rt = vs" "rt_chain rt = c" "rt_finalized rt = []"
  using assms by (auto simp: with_signer_def Let_def result_simps)

lemma node_run_ok: "node_run X c0 vs rt sg \<Longrightarrow> node_ok X vs rt sg"
proof (induction rule: node_run.induct)
  case (start now w t rt)
  then show ?case
  proof (rule with_signer_Ok)
    fix s0 assume new: "bft_new vs = Ok s0" and st: "start_round (case last_block c0 of Some b \<Rightarrow> blk_height b + 1 | None \<Rightarrow> 1) 0 s0
      = Ok (rt_consensus rt)" and rest: "rt_pending rt = None" "rt_validators rt = vs"
    have "bft_phase (rt_consensus rt) = Propose" using st unfolding start_round_Ok by auto
    with rest bft_run.start [OF bft_run.init [OF new] st] show ?thesis
      by (simp add: node_ok_def pending_ok_def votes_consistent_def)
  qed
next
  case (proposal rt sg now clock p rt' r)
  then show ?case by (blast intro: node_ok_proposal)
next
  case (vote rt sg now m rt' q)
  then show ?case by (blast intro: node_ok_vote)
next
  case (queue rt sg ms)
  then show ?case by (auto intro: node_ok_same simp: same_consensus_def)
next
  case (timeout rt sg now rt' b)
  then show ?case by (blast intro: node_ok_timeout)
next
  case (restart rt sg now)
  then show ?case by (auto intro: node_ok_same simp: same_consensus_def restart_phase_timeout_def)
next
  case (schedule rt sg es rt')
  have "same_consensus rt rt'" "rt_validators rt' = rt_validators rt"
    using schedule.hyps(2)
    by (cases "schedule_validate X es"; auto simp: same_consensus_def set_event_schedule_def)+
  then show ?case by (rule node_ok_same [OF schedule.IH])
next
  case (evidence rt sg evs rt')
  let ?s = "rt_consensus rt"
  have rt': "rt_consensus rt' = ?s\<lparr>bft_evidence := []\<rparr>" "rt_pending rt' = rt_pending rt" "rt_validators rt' = rt_validators rt"
    using evidence.hyps(2) unfolding take_evidence_def bft_take_evidence_def by auto
  have "bft_run X vs (?s\<lparr>bft_evidence := []\<rparr>)"
    using evidence.IH bft_run.take [of X vs ?s "bft_evidence ?s"] by (simp add: node_ok_def bft_take_evidence_def)
  moreover have "votes_consistent (?s\<lparr>bft_evidence := []\<rparr>) sg"
    by (rule votes_consistent_later [of ?s]) (use evidence.IH in \<open>simp_all add: node_ok_def\<close>)
  ultimately show ?case using evidence.IH by (simp add: node_ok_def pending_ok_def rt')
next
  case (finalized rt sg cs rt')
  have "same_consensus rt rt'" "rt_validators rt' = rt_validators rt"
    using finalized.hyps(2) unfolding take_finalized_def same_consensus_def by auto
  then show ?case by (rule node_ok_same [OF finalized.IH])
next
  case (import rt sg cs rt' n)
  then show ?case using import_certificate_history_fields node_ok_same by blast
next
  case (sync rt sg now clock cs rt' n)
  then show ?case by (blast intro: node_ok_sync)
next
  case (advance rt sg now rt' u)
  then show ?case by (auto simp: advance_after_finalization_def intro: node_ok_next_round split: if_splits)
qed

text \<open>A correct node precommits at most one block per height.\<close>

lemma node_run_one_precommit:
  assumes "node_run X c0 vs rt sg" and "m \<in> set sg" "m' \<in> set sg" and "msg_vote_type m = Precommit"
    "msg_vote_type m' = Precommit" and "msg_height m = msg_height m'"
  shows "msg_block_hash m = msg_block_hash m'"
  using node_run_ok [OF assms(1)] votes_consistentD(3) assms(2-6) unfolding node_ok_def by blast

subsection \<open>The chain grows only by certified blocks\<close>

definition chain_ok :: "externals \<Rightarrow> blockchain \<Rightarrow> validator list \<Rightarrow> consensus_runtime \<Rightarrow> bool" where
  "chain_ok X c0 vs rt \<longleftrightarrow>
     (\<exists>certs. blocks (rt_chain rt) = blocks c0 @ map fc_block certs \<and> set certs \<subseteq> set (rt_finalized rt)) \<and>
     (\<forall>c \<in> set (rt_finalized rt). certificate_verify X c vs = Ok ()) \<and>
     (grown X c0 \<longrightarrow> grown X (rt_chain rt))"

lemma chain_ok_same:
  assumes "chain_ok X c0 vs rt" and "rt_chain rt' = rt_chain rt" and "set (rt_finalized rt) \<subseteq> set (rt_finalized rt')"
    and "\<And>c. c \<in> set (rt_finalized rt') \<Longrightarrow> certificate_verify X c vs = Ok ()"
  shows "chain_ok X c0 vs rt'"
  using assms unfolding chain_ok_def by (metis order_trans)

lemma chain_ok_kept:
  assumes "chain_ok X c0 vs rt" and "rt_chain rt' = rt_chain rt" and "rt_finalized rt' = rt_finalized rt"
  shows "chain_ok X c0 vs rt'"
  using assms by (simp add: chain_ok_def)

lemma chain_ok_append:
  assumes ok: "chain_ok X c0 vs rt" and "apply_block X (rt_chain rt) (fc_block c) = (chain, Inr b)"
    and "certificate_verify X c vs = Ok ()"
    and "rt_chain rt' = chain" and "rt_finalized rt' = rt_finalized rt @ [c]"
  shows "chain_ok X c0 vs rt'"
proof -
  obtain certs where certs: "blocks (rt_chain rt) = blocks c0 @ map fc_block certs" "set certs \<subseteq> set (rt_finalized rt)"
    using ok by (auto simp: chain_ok_def)
  have "blocks chain = blocks (rt_chain rt) @ [fc_block c]" using assms(2) by (auto simp: apply_block_Ok)
  with certs have "blocks chain = blocks c0 @ map fc_block (certs @ [c]) \<and> set (certs @ [c]) \<subseteq> set (rt_finalized rt')"
    using assms(5) by auto
  then have "\<exists>certs. blocks (rt_chain rt') = blocks c0 @ map fc_block certs \<and> set certs \<subseteq> set (rt_finalized rt')"
    using assms(4) by metis
  moreover have "grown X c0 \<longrightarrow> grown X (rt_chain rt')"
    using ok grown.block [OF _ assms(2)] assms(4) by (simp add: chain_ok_def)
  ultimately show ?thesis using ok assms(3,5) by (auto simp: chain_ok_def)
qed

lemma apply_block_cases:
  obtains (failed) e where "apply_block X c b = (c, Inl e)" | (applied) c' where "apply_block X c b = (c', Inr b)"
proof (cases "apply_block X c b")
  case (Pair c' r)
  then show ?thesis
    by (cases r) (use failed applied apply_block_Err in \<open>auto simp: apply_block_Ok\<close>)
qed

lemma chain_ok_finalize:
  assumes "chain_ok X c0 vs rt" and "finalize_pending X rt = (rt', q)" and "rt_validators rt = vs"
  shows "chain_ok X c0 vs rt'"
proof (cases "rt_pending rt")
  case None
  then show ?thesis using assms by (simp add: finalize_pending_def)
next
  case (Some b)
  let ?c = "\<lparr>fc_block = b, fc_round = bft_round (rt_consensus rt), fc_precommits = rt_precommits rt\<rparr>"
  show ?thesis
  proof (cases "bft_finalized (rt_consensus rt) = Some (blk_hash b) \<and> certificate_verify X ?c vs = Ok ()")
    case True
    then have run: "(rt', q) = (case apply_block X (rt_chain rt) b of
        (c, Inl e) \<Rightarrow> (rt\<lparr>rt_pending := None, rt_chain := c\<rparr>, Err (LedgerError e))
      | (c, Inr _) \<Rightarrow> (rt\<lparr>rt_pending := None, rt_chain := c, rt_finalized := rt_finalized rt @ [?c],
          rt_pending_finalized := rt_pending_finalized rt @ [?c]\<rparr>, Ok None))"
      using assms(2,3) Some by (simp add: finalize_pending_def Let_def cong: sum.case_cong)
    show ?thesis
    proof (cases rule: apply_block_cases [of X "rt_chain rt" b])
      case (failed e)
      then have "rt_chain rt' = rt_chain rt" "rt_finalized rt' = rt_finalized rt" using run by auto
      then show ?thesis by (rule chain_ok_kept [OF assms(1)])
    next
      case (applied c')
      then have "rt_chain rt' = c'" "rt_finalized rt' = rt_finalized rt @ [?c]" using run by auto
      with applied True show ?thesis by (intro chain_ok_append [OF assms(1), of ?c c' b]) simp_all
    qed
  next
    case False
    then have "rt_chain rt' = rt_chain rt \<and> rt_finalized rt' = rt_finalized rt"
      using assms(2,3) Some by (auto simp: finalize_pending_def Let_def split: if_splits sum.splits)
    then show ?thesis using chain_ok_kept [OF assms(1)] by blast
  qed
qed

lemma chain_ok_vote:
  assumes "chain_ok X c0 vs rt" and "receive_vote X now m rt = (rt', q)" and "rt_validators rt = vs"
  shows "chain_ok X c0 vs rt'"
  using assms(2)
proof (cases rule: receive_vote_cases)
  case (rejected s e)
  then show ?thesis using chain_ok_kept [OF assms(1), of rt'] by simp
next
  case (accepted s rt1)
  have ok1: "chain_ok X c0 vs rt1" using chain_ok_kept [OF assms(1), of rt1] accepted(2) by simp
  show ?thesis
  proof (cases "bft_phase s = Finalized")
    case True
    then have "finalize_pending X rt1 = (rt', q)" using accepted(3) by simp
    then show ?thesis using chain_ok_finalize [OF ok1] accepted(2) assms(3) by simp
  next
    case False
    then have "rt' = rt1" using accepted(3) by (auto split: if_splits)
    then show ?thesis using ok1 by simp
  qed
qed

lemma chain_ok_sync_certificate:
  assumes "chain_ok X c0 vs rt" and "apply_sync_certificate X clock c rt = (rt', r)" and "rt_validators rt = vs"
  shows "chain_ok X c0 vs rt'"
proof (cases "rt_chain rt' = rt_chain rt \<and> rt_finalized rt' = rt_finalized rt")
  case True
  then show ?thesis using chain_ok_kept [OF assms(1)] by blast
next
  case False
  then obtain chain b where "certificate_verify X c vs = Ok ()" "apply_block X (rt_chain rt) (fc_block c) = (chain, Inr b)"
    "rt_chain rt' = chain" "rt_finalized rt' = rt_finalized rt @ [c]"
    using assms(2,3) by (auto simp: apply_sync_certificate_def Let_def dest: apply_block_Err
        split: sum.splits option.splits if_splits prod.splits)
  then show ?thesis by (intro chain_ok_append [OF assms(1)])
qed

lemma chain_ok_sync_loop:
  "apply_sync_loop X clock cs n rt = (rt', r) \<Longrightarrow> chain_ok X c0 vs rt \<Longrightarrow> rt_validators rt = vs \<Longrightarrow>
   chain_ok X c0 vs rt'"
proof (induction cs arbitrary: n rt)
  case (Cons c cs)
  obtain rt1 r1 where one: "apply_sync_certificate X clock c rt = (rt1, r1)" by fastforce
  have "chain_ok X c0 vs rt1" "rt_validators rt1 = vs"
    using chain_ok_sync_certificate [OF Cons.prems(2) one Cons.prems(3)] apply_sync_certificate_fields [OF one]
      Cons.prems(3) by simp_all
  then show ?case using Cons by (cases r1) (auto simp: one)
qed simp

lemma next_round_state_chain:
  assumes "next_round_state now rt = (rt', r)"
  shows "rt_chain rt' = rt_chain rt \<and> rt_finalized rt' = rt_finalized rt"
  using assms by (cases "last_block (rt_chain rt)"; cases "start_round (blk_height (last (blocks (rt_chain rt))) + 1) 0 (rt_consensus rt)")
    (auto simp: next_round_state_def last_block_def split: if_splits)

lemma import_certificates_verified:
  "import_certificates X cs n rt = (rt', r) \<Longrightarrow> set (rt_finalized rt) \<subseteq> set (rt_finalized rt') \<and>
   set (rt_finalized rt') \<subseteq> set (rt_finalized rt) \<union> {c. certificate_verify X c (rt_validators rt) = Ok ()}"
  by (induction cs arbitrary: n rt) (fastforce split: sum.splits option.splits if_splits)+

lemma chain_ok_import:
  assumes "chain_ok X c0 vs rt" and "import_certificate_history X cs rt = (rt', r)" and "rt_validators rt = vs"
  shows "chain_ok X c0 vs rt'"
proof -
  obtain rt1 r1 where imp: "import_certificates X cs 0 rt = (rt1, r1)" by fastforce
  have fin: "set (rt_finalized rt') = set (rt_finalized rt1)"
    using assms(2) by (cases r1) (auto simp: import_certificate_history_def imp)
  have "rt_chain rt' = rt_chain rt" using import_certificate_history_fields [OF assms(2)] by blast
  with assms(1) show ?thesis
  proof (rule chain_ok_same)
    show "set (rt_finalized rt) \<subseteq> set (rt_finalized rt')"
      using fin import_certificates_verified [OF imp] by simp
    show "c \<in> set (rt_finalized rt') \<Longrightarrow> certificate_verify X c vs = Ok ()" for c
      using fin import_certificates_verified [OF imp] assms(1,3) by (auto simp: chain_ok_def)
  qed
qed

lemma node_run_chain_ok: "node_run X c0 vs rt sg \<Longrightarrow> chain_ok X c0 vs rt"
proof (induction rule: node_run.induct)
  case (start now w t rt)
  then show ?case by (rule with_signer_Ok) (simp add: chain_ok_def)
next
  case (proposal rt sg now clock p rt' r)
  from proposal.hyps(2) have "rt_chain rt' = rt_chain rt" "rt_finalized rt' = rt_finalized rt"
    by (cases rule: receive_proposal_cases; simp)+
  then show ?case by (rule chain_ok_kept [OF proposal.IH])
next
  case (vote rt sg now m rt' q)
  then show ?case using chain_ok_vote node_run_ok unfolding node_ok_def by blast
next
  case (timeout rt sg now rt' b)
  then have "rt_chain rt' = rt_chain rt \<and> rt_finalized rt' = rt_finalized rt"
    by (cases "on_timeout (rt_consensus rt)") (auto simp: timeout_if_due_def split: if_splits)
  then show ?case using chain_ok_kept [OF timeout.IH] by blast
next
  case (schedule rt sg es rt')
  then have "rt_chain rt' = rt_chain rt \<and> rt_finalized rt' = rt_finalized rt"
    by (cases "schedule_validate X es") (auto simp: set_event_schedule_def)
  then show ?case using chain_ok_kept [OF schedule.IH] by blast
next
  case (evidence rt sg evs rt')
  then have "rt_chain rt' = rt_chain rt \<and> rt_finalized rt' = rt_finalized rt"
    unfolding take_evidence_def bft_take_evidence_def by auto
  then show ?case using chain_ok_kept [OF evidence.IH] by blast
next
  case (finalized rt sg cs rt')
  then have "rt_chain rt' = rt_chain rt \<and> rt_finalized rt' = rt_finalized rt" unfolding take_finalized_def by auto
  then show ?case using chain_ok_kept [OF finalized.IH] by blast
next
  case (import rt sg cs rt' n)
  then show ?case using chain_ok_import node_run_ok unfolding node_ok_def by blast
next
  case (sync rt sg now clock cs rt' n)
  obtain rt1 r1 where loop: "apply_sync_loop X clock cs 0 rt = (rt1, r1)" by fastforce
  have "rt_validators rt = vs" using node_run_ok [OF sync.hyps(1)] by (simp add: node_ok_def)
  then have ok1: "chain_ok X c0 vs rt1" by (rule chain_ok_sync_loop [OF loop sync.IH])
  consider "rt' = rt1" | u where "next_round_state now rt1 = (rt', u)"
    using sync.hyps(2) by (cases r1) (auto simp: apply_sync_certificates_def loop split: if_splits prod.splits)
  then show ?case using ok1 chain_ok_kept [OF ok1] next_round_state_chain by cases blast+
next
  case (advance rt sg now rt' u)
  then show ?case using chain_ok_kept [OF advance.IH] next_round_state_chain
    by (auto simp: advance_after_finalization_def split: if_splits)
qed (auto elim: chain_ok_kept simp: restart_phase_timeout_def)

end
