(* ===== verification/Replay_Lemmas.thy ===== *)
theory Replay_Lemmas
  imports Runtime_Lemmas
begin

text \<open>
  Replaying deferred votes: a replay is a sequence of \<open>receive_vote\<close> calls, so runs of a node are
  closed under it, and when it succeeds with a working signer, the votes it leaves in the queue are
  blocked by the current phase. When it ends in an error, the queue is empty.
\<close>

definition blocked :: "externals \<Rightarrow> consensus_message \<Rightarrow> bft_consensus \<Rightarrow> bool" where
  "blocked X v s \<longleftrightarrow> msg_height v = bft_height s \<and> msg_round v = bft_round s \<and>
     msg_validator_id v |\<in>| fmdom (bft_validators s) \<and> vote_verify X v = Ok () \<and>
     \<not> phase_accepts (bft_phase s) (msg_vote_type v)"

definition same_view :: "bft_consensus \<Rightarrow> bft_consensus \<Rightarrow> bool" where
  "same_view s t \<longleftrightarrow> bft_height t = bft_height s \<and> bft_round t = bft_round s \<and>
     bft_validators t = bft_validators s \<and> bft_phase t = bft_phase s"

lemma blocked_same_view: "same_view s t \<Longrightarrow> blocked X v t \<longleftrightarrow> blocked X v s"
  by (simp add: same_view_def blocked_def)

lemma same_view_refl [simp]: "same_view s s"
  by (simp add: same_view_def)

lemma same_view_trans: "same_view s t \<Longrightarrow> same_view t u \<Longrightarrow> same_view s u"
  by (simp add: same_view_def)

lemma vote_verify_error: "vote_verify X v = Inl e \<Longrightarrow> \<exists>se. e = SignatureError se"
  by (auto simp: vote_verify_def map_err_def split: sum.splits)

lemma handle_blocked: "snd (handle X v s) = Err PhaseMismatch \<longleftrightarrow> blocked X v s"
proof (cases "vote_verify X v")
  case (Inl e)
  then show ?thesis using vote_verify_error [OF Inl] by (auto simp: handle_def blocked_def)
next
  case (Inr u)
  then show ?thesis by (auto simp: handle_def blocked_def Let_def split: option.splits)
qed

lemma handle_error_view: "handle X v s = (t, Err e) \<Longrightarrow> same_view s t"
  by (erule handle_cases) (simp_all add: same_view_def)

lemma receive_vote_blocked:
  "snd (receive_vote X now v rt) = Err (BftError PhaseMismatch) \<longleftrightarrow> blocked X v (rt_consensus rt)"
  if "snd (handle X v (rt_consensus rt)) \<noteq> Ok ()"
proof (cases "receive_vote X now v rt")
  case (Pair rt' q)
  then show ?thesis
    by (rule receive_vote_cases) (use that handle_blocked [of X v "rt_consensus rt"] in \<open>auto simp: Pair\<close>)
qed

lemma blocked_receive_vote:
  assumes "blocked X v (rt_consensus rt)"
  shows "snd (receive_vote X now v rt) = Err (BftError PhaseMismatch)"
  using assms handle_blocked [of X v "rt_consensus rt"] receive_vote_blocked [of X v rt now] by auto

text \<open>A vote the machine accepts in the precommit or finalized phase never yields a phase error.\<close>

lemma receive_vote_deferable:
  assumes "receive_vote X now v rt = (rt', Inl e)" and "is_deferable_vote_error e"
  shows "blocked X v (rt_consensus rt)"
  using assms(1)
proof (cases rule: receive_vote_cases)
  case (rejected s e')
  then show ?thesis using assms(2) handle_blocked [of X v "rt_consensus rt"] by (simp add: is_deferable_vote_error_def)
next
  case (accepted s rt1)
  have "vote_from_signature X a b c d f g \<noteq> Err PhaseMismatch" for a b c d f g
    using vote_verify_error
    by (fastforce simp: vote_from_signature_def Let_def and_then_def split: sum.splits)
  then have sign: "sign_vote X a b c d rt1 \<noteq> Err (BftError PhaseMismatch)" for a b c d
    by (auto simp: sign_vote_def Let_def and_then_def map_err_def split: sum.splits)
  have cert: "certificate_verify X c vs \<noteq> Err PhaseMismatch" for c vs
  proof -
    have "check_precommit X P c m st \<noteq> Err PhaseMismatch" for P m st
      using vote_verify_error
      by (fastforce simp: check_precommit_def and_then_def ok_or_def split: prod.splits sum.splits option.splits if_splits)
    then have "for_each (check_precommit X P c) ms st \<noteq> Err PhaseMismatch" for P ms st
      by (induction ms arbitrary: st) (auto simp: and_then_def split: sum.splits)
    then show ?thesis
      by (auto simp: certificate_verify_def Let_def and_then_def ensure_def split: sum.splits prod.splits if_splits)
  qed
  show ?thesis
    using accepted(3) assms(2) sign cert
    by (auto simp: is_deferable_vote_error_def finalize_pending_def Let_def and_then_def
        split: if_splits option.splits sum.splits prod.splits)
qed

lemma receive_vote_view:
  assumes "receive_vote X now v rt = (rt', Inl e)" and "bft_phase (rt_consensus rt) = bft_phase (rt_consensus rt')"
  shows "same_view (rt_consensus rt) (rt_consensus rt')"
  using assms(1)
proof (cases rule: receive_vote_cases)
  case (rejected s e')
  then show ?thesis using handle_error_view by fastforce
next
  case (accepted s rt1)
  have "rt_consensus rt' = s"
    using accepted(2,3) finalize_pending_fields by (auto split: if_splits)
  then show ?thesis using handle_fields [OF accepted(1)] assms(2) by (simp add: same_view_def)
qed


text \<open>
  The signer works: it answers every request with a signature that verifies. Then a vote that is
  processed without progress leaves height, round and phase as they were.
\<close>

definition signer_works :: "externals \<Rightarrow> validator_signer \<Rightarrow> bool" where
  "signer_works X w \<longleftrightarrow> (\<forall>payload. \<exists>sig. signer_sign_bytes X w payload = Ok sig \<and>
     verify_signature X (signer_address X w) payload sig = Ok ())"

lemma sign_vote_works: "signer_works X (rt_validator rt) \<Longrightarrow> \<exists>m. sign_vote X h r ty hash rt = Ok m"
  by (auto simp: signer_works_def sign_vote_def vote_from_signature_def vote_verify_def Let_def)
    (metis (no_types, lifting) and_then_simps(1) map_err_simps(1))

lemma handle_finalizes:
  assumes "handle X m s = (t, res)" and "bft_phase t = Finalized"
  shows "bft_phase s \<in> {PrecommitPhase, Finalized}"
  using assms(1)
proof (cases rule: handle_cases)
  case counted
  then show ?thesis using assms(2)
    by (cases "bft_phase s"; cases "msg_vote_type m") (simp_all add: count_vote_def Let_def split: if_splits)
qed (use assms(2) in simp_all)

lemma receive_vote_no_progress:
  assumes "receive_vote X now v rt = (rt', Inl e)" and "node_ok X vs rt sg" and "signer_works X (rt_validator rt)"
  shows "same_view (rt_consensus rt) (rt_consensus rt') \<or> bft_phase (rt_consensus rt) \<in> {PrecommitPhase, Finalized}"
  using assms(1)
proof (cases rule: receive_vote_cases)
  case (rejected s e')
  then show ?thesis using handle_error_view [of X v "rt_consensus rt" s e'] by simp
next
  case (accepted s rt1)
  have fields: "rt_pending rt1 = rt_pending rt" "rt_validator rt1 = rt_validator rt" using accepted(2) by simp_all
  show ?thesis
  proof (cases "bft_phase s = PrecommitPhase")
    case True
    then have "rt_pending rt \<noteq> None"
      using handle_phase [OF accepted(1)] assms(2) by (auto simp: node_ok_def pending_ok_def)
    then obtain b where "rt_pending rt1 = Some b" using fields by auto
    then show ?thesis
      using accepted(3) True sign_vote_works [of X rt1 "blk_height b" "bft_round s" Precommit "blk_hash b"] assms(3) fields
      by auto
  next
    case False
    then have "bft_phase s = Finalized" using accepted(3) by (auto split: if_splits)
    then show ?thesis using handle_finalizes [OF accepted(1)] by simp
  qed
qed

lemma receive_vote_fields:
  assumes "receive_vote X now v rt = (rt', q)"
  shows "rt_validator rt' = rt_validator rt \<and> rt_deferred_votes rt' = rt_deferred_votes rt"
  using assms
proof (cases rule: receive_vote_cases)
  case (accepted s rt1)
  then show ?thesis using finalize_pending_fields [of X rt1 rt' q] by (auto split: if_splits)
qed simp

lemma finalized_not_blocked: "bft_phase s = Finalized \<Longrightarrow> \<not> blocked X v s"
  by (cases "msg_vote_type v") (simp_all add: blocked_def)

lemma blocked_phase: "blocked X v s \<Longrightarrow> bft_phase s \<noteq> PrecommitPhase \<and> bft_phase s \<noteq> Finalized"
  by (cases "msg_vote_type v") (auto simp: blocked_def)

subsection \<open>Replays\<close>

lemma replay_pass_run:
  assumes "node_run X c0 vs rt sg" and "replay_pass X now votes out rem pr rt = (rt', r)"
  shows "\<exists>sg'. node_run X c0 vs rt' (sg @ sg') \<and>
    (\<forall>out' rem' pr'. r = Ok (out', rem', pr') \<longrightarrow> set out' \<subseteq> set out \<union> set sg')"
  using assms
proof (induction votes arbitrary: out rem pr rt sg)
  case Nil
  then show ?case by (auto intro: exI [of _ "[]"])
next
  case (Cons v votes)
  obtain rt1 q where one: "receive_vote X now v rt = (rt1, q)" by fastforce
  have run1: "node_run X c0 vs rt1 (sg @ signed_precommit q)" by (rule node_run.vote [OF Cons.prems(1) one])
  have more: ?case
    if "node_run X c0 vs rt2 (sg @ s2)" "replay_pass X now votes out2 rem2 pr2 rt2 = (rt', r)" "set out2 \<subseteq> set out \<union> set s2"
    for rt2 s2 out2 rem2 pr2
  proof -
    note rest = that
    obtain s3 where "node_run X c0 vs rt' ((sg @ s2) @ s3)"
      "\<forall>out' rem' pr'. r = Ok (out', rem', pr') \<longrightarrow> set out' \<subseteq> set out2 \<union> set s3"
      using Cons.IH [OF rest(1,2)] by blast
    then show ?thesis using rest(3) by (intro exI [of _ "s2 @ s3"]) fastforce
  qed
  show ?case
  proof (cases q)
    case (Inl e)
    then show ?thesis using more [OF run1] Cons.prems(2) by (auto simp: one split: if_splits)
  next
    case (Inr o2)
    show ?thesis
    proof (cases o2)
      case None
      then show ?thesis using more [OF run1] Cons.prems(2) Inr by (auto simp: one)
    next
      case (Some pc)
      obtain rt2 q2 where two: "receive_vote X now pc rt1 = (rt2, q2)" by fastforce
      have run2: "node_run X c0 vs rt2 (sg @ signed_precommit q @ signed_precommit q2)"
        using node_run.vote [OF run1 two] by simp
      show ?thesis
      proof (cases q2)
        case (Inl e)
        then have "rt' = rt2" "r = Inl e" using Cons.prems(2) Inr Some by (simp_all add: one two)
        then show ?thesis using run2 by auto
      next
        case (Inr o3)
        then have "replay_pass X now votes (out @ [pc]) rem True rt2 = (rt', r)"
          using Cons.prems(2) \<open>q = Inr o2\<close> Some by (simp add: one two)
        from more [OF run2 this] show ?thesis using \<open>q = Inr o2\<close> Some by auto
      qed
    qed
  qed
qed

lemma replay_loop_run:
  assumes "node_run X c0 vs rt sg" and "replay_loop X now out rt = (rt', r)"
  shows "\<exists>sg'. node_run X c0 vs rt' (sg @ sg') \<and> (\<forall>out'. r = Ok out' \<longrightarrow> set out' \<subseteq> set out \<union> set sg')"
  using assms
proof (induction X now out rt arbitrary: sg rule: replay_loop.induct)
  case (1 X now out rt)
  obtain rt1 q where pass: "replay_pass X now (rt_deferred_votes rt) out [] False (rt\<lparr>rt_deferred_votes := []\<rparr>) = (rt1, q)"
    by fastforce
  obtain s1 where run1: "node_run X c0 vs rt1 (sg @ s1)"
    and outs: "\<And>out' rem' pr'. q = Ok (out', rem', pr') \<Longrightarrow> set out' \<subseteq> set out \<union> set s1"
    using replay_pass_run [OF node_run.queue [OF "1.prems"(1)] pass] by blast
  show ?case
  proof (cases q)
    case (Inl e)
    then have "rt' = rt1" "r = Inl e" using "1.prems"(2) by (simp_all add: replay_loop.simps [of X now out] pass)
    then show ?thesis using run1 by auto
  next
    case (Inr res)
    obtain out1 rem pr where res: "res = (out1, rem, pr)" by (cases res)
    let ?rt2 = "rt1\<lparr>rt_deferred_votes := rem\<rparr>"
    have run2: "node_run X c0 vs ?rt2 (sg @ s1)" by (rule node_run.queue [OF run1])
    have out1: "set out1 \<subseteq> set out \<union> set s1" using outs Inr res by blast
    show ?thesis
    proof (cases pr)
      case True
      then have "replay_loop X now out1 ?rt2 = (rt', r)"
        using "1.prems"(2) Inr res by (simp add: replay_loop.simps [of X now out] pass)
      with "1.IH" [OF pass [symmetric] Inr res [symmetric] refl refl True run2] obtain s2 where
        "node_run X c0 vs rt' ((sg @ s1) @ s2)" "\<forall>out'. r = Ok out' \<longrightarrow> set out' \<subseteq> set out1 \<union> set s2" by blast
      then show ?thesis using out1 by (intro exI [of _ "s1 @ s2"]) fastforce
    next
      case False
      then have "rt' = ?rt2" "r = Ok out1" using "1.prems"(2) Inr res by (simp_all add: replay_loop.simps [of X now out] pass)
      then show ?thesis using run2 out1 by auto
    qed
  qed
qed

lemma replay_pass_progressed:
  "replay_pass X now votes out rem True rt = (rt', Ok (out', rem', pr)) \<Longrightarrow> pr"
  by (induction votes arbitrary: out rem rt) (auto split: prod.splits sum.splits option.splits if_splits)

lemma replay_pass_blocked:
  assumes "replay_pass X now votes out rem False rt = (rt', Ok (out', rem', False))" and "node_ok X vs rt sg"
    and "signer_works X (rt_validator rt)" and "\<forall>v \<in> set rem. blocked X v (rt_consensus rt)"
  shows "\<forall>v \<in> set rem'. blocked X v (rt_consensus rt')"
  using assms
proof (induction votes arbitrary: out rem rt sg)
  case (Cons v votes)
  obtain rt1 q where one: "receive_vote X now v rt = (rt1, q)" by fastforce
  have "\<not> (\<exists>x. q = Inr x)"
    using Cons.prems(1) replay_pass_progressed by (fastforce simp: one split: option.splits sum.splits prod.splits)
  then obtain e where q: "q = Inl e" by (cases q) auto
  define rem1 where "rem1 = (if is_deferable_vote_error e then rem @ [v] else rem)"
  have rest: "replay_pass X now votes out rem1 False rt1 = (rt', Ok (out', rem', False))"
    using Cons.prems(1) by (simp add: one q rem1_def split: if_splits)
  have ok1: "node_ok X vs rt1 (sg @ [])" using node_ok_vote [OF Cons.prems(2) one] by (simp add: q)
  have in_rem1: "blocked X u (rt_consensus rt)" if "u \<in> set rem1" for u
    using that Cons.prems(4) receive_vote_deferable [OF one [unfolded q]] by (auto simp: rem1_def split: if_splits)
  have "blocked X u (rt_consensus rt1)" if "u \<in> set rem1" for u
    using receive_vote_no_progress [OF one [unfolded q] Cons.prems(2,3)] in_rem1 [OF that]
      blocked_phase blocked_same_view by blast
  then show ?case
    using Cons.IH [OF rest ok1] receive_vote_fields [OF one] Cons.prems(3) by simp
qed simp

lemma replay_pass_fields:
  "replay_pass X now votes out rem pr rt = (rt', r) \<Longrightarrow> rt_validator rt' = rt_validator rt"
proof (induction votes arbitrary: out rem pr rt)
  case (Cons v votes)
  from Cons.prems show ?case
    by (auto split: prod.splits sum.splits option.splits if_splits dest!: Cons.IH receive_vote_fields)
qed simp

lemma replay_pass_queue:
  "replay_pass X now votes out rem pr rt = (rt', r) \<Longrightarrow> rt_deferred_votes rt' = rt_deferred_votes rt \<and>
    (\<forall>out' rem' pr'. r = Ok (out', rem', pr') \<longrightarrow> set rem' \<subseteq> set rem \<union> set votes)"
proof (induction votes arbitrary: out rem pr rt)
  case (Cons v votes)
  from Cons.prems show ?case
    by (auto split: prod.splits sum.splits option.splits if_splits dest!: Cons.IH receive_vote_fields; blast)
qed auto

lemma replay_loop_queue:
  "replay_loop X now out rt = (rt', r) \<Longrightarrow> set (rt_deferred_votes rt') \<subseteq> set (rt_deferred_votes rt) \<and>
    (\<forall>e. r = Err e \<longrightarrow> rt_deferred_votes rt' = [])"
proof (induction X now out rt rule: replay_loop.induct)
  case (1 X now out rt)
  obtain rt1 q where pass: "replay_pass X now (rt_deferred_votes rt) out [] False (rt\<lparr>rt_deferred_votes := []\<rparr>) = (rt1, q)"
    by fastforce
  note queue = replay_pass_queue [OF pass]
  show ?case
  proof (cases q)
    case (Inl e)
    then show ?thesis using "1.prems" queue by (auto simp: replay_loop.simps [of X now out] pass)
  next
    case (Inr res)
    obtain out1 rem pr where res: "res = (out1, rem, pr)" by (cases res)
    have rem: "set rem \<subseteq> set (rt_deferred_votes rt)" using queue Inr res by simp
    show ?thesis
    proof (cases pr)
      case True
      then have "replay_loop X now out1 (rt1\<lparr>rt_deferred_votes := rem\<rparr>) = (rt', r)"
        using "1.prems" Inr res by (simp add: replay_loop.simps [of X now out] pass)
      with "1.IH" [OF pass [symmetric] Inr res [symmetric] refl refl True] rem show ?thesis by fastforce
    next
      case False
      then show ?thesis using "1.prems" Inr res rem by (auto simp: replay_loop.simps [of X now out] pass)
    qed
  qed
qed

lemma replay_loop_blocked:
  assumes "replay_loop X now out rt = (rt', Ok out')" and "node_run X c0 vs rt sg"
    and "signer_works X (rt_validator rt)"
  shows "\<forall>v \<in> set (rt_deferred_votes rt'). blocked X v (rt_consensus rt')"
  using assms
proof (induction X now out rt arbitrary: sg rule: replay_loop.induct)
  case (1 X now out rt)
  let ?rt0 = "rt\<lparr>rt_deferred_votes := []\<rparr>"
  obtain rt1 q where pass: "replay_pass X now (rt_deferred_votes rt) out [] False ?rt0 = (rt1, q)"
    by fastforce
  note run0 = node_run.queue [OF "1.prems"(2), of "[]"]
  obtain s1 where run1: "node_run X c0 vs rt1 (sg @ s1)" using replay_pass_run [OF run0 pass] by blast
  obtain out1 rem pr where q: "q = Inr (out1, rem, pr)"
    using "1.prems"(1) by (cases q) (auto simp: replay_loop.simps [of X now out] pass)
  let ?rt2 = "rt1\<lparr>rt_deferred_votes := rem\<rparr>"
  have works: "signer_works X (rt_validator ?rt2)" using replay_pass_fields [OF pass] "1.prems"(3) by simp
  show ?case
  proof (cases pr)
    case True
    then have "replay_loop X now out1 ?rt2 = (rt', Ok out')"
      using "1.prems"(1) q by (simp add: replay_loop.simps [of X now out] pass)
    with "1.IH" [OF pass [symmetric] q refl refl refl True] node_run.queue [OF run1] works show ?thesis by blast
  next
    case False
    then have rt': "rt' = ?rt2" using "1.prems"(1) q by (simp add: replay_loop.simps [of X now out] pass)
    have "\<forall>v \<in> set rem. blocked X v (rt_consensus rt1)"
      by (rule replay_pass_blocked [OF pass [unfolded q, simplified False] node_run_ok [OF run0]])
        (use "1.prems"(3) in simp_all)
    then show ?thesis by (simp add: rt')
  qed
qed

end
