(* ===== verification/Consensus_Properties.thy ===== *)
theory Consensus_Properties
  imports Replay_Lemmas
begin

text \<open>
  Safety, accountability and progress of the consensus: the properties of the BFT machine, of
  finality certificates and of the driver.
\<close>

subsection \<open>A node for the witnesses\<close>

text \<open>
  A single validator whose external signer answers every request, on the sample chain: it accepts the
  proposal of the sample block, prevotes, precommits and finalizes it.
\<close>

definition sample_vs :: "validator list" where
  "sample_vs = [\<lparr>val_id = ''val'', val_voting_power = 1\<rparr>]"

definition sample_signer :: validator_signer where
  "sample_signer = External \<lparr>es_programs = [\<lambda>_. Some ''ss''], es_public_key = ''val''\<rparr>"

definition sample_shape :: "block \<Rightarrow> bool" where
  "sample_shape b \<longleftrightarrow> blk_height b = 1 \<and> blk_hash b = ''h'' \<and> blk_previous_hash b = ''h'' \<and> blk_timestamp b = 5 \<and>
     blk_system_events b = []"

definition sample_proposal :: "block \<Rightarrow> signed_proposal" where
  "sample_proposal b = \<lparr>prop_height = 1, prop_round = 0, prop_proposer_id = ''val'', prop_valid_round = None,
     prop_block = b, prop_signature = ''ss''\<rparr>"

definition sample_vote :: "vote_type \<Rightarrow> consensus_message" where
  "sample_vote ty = \<lparr>msg_height = 1, msg_round = 0, msg_validator_id = ''val'', msg_vote_type = ty,
     msg_block_hash = ''h'', msg_signature = ''ss''\<rparr>"

definition sample_bft :: bft_consensus where
  "sample_bft = \<lparr>bft_validators = fmupd ''val'' 1 fmempty, bft_total_power = 1, bft_height = 1, bft_round = 0,
     bft_phase = Propose, bft_proposal = None, bft_votes = fmempty, bft_vote_history = fmempty,
     bft_vote_messages = fmempty, bft_locked_value = None, bft_locked_round = None, bft_valid_value = None,
     bft_valid_round = None, bft_evidence = [], bft_finalized = None\<rparr>"

definition sample_bft1 :: bft_consensus where
  "sample_bft1 = sample_bft\<lparr>bft_proposal := Some ''h'', bft_phase := PrevotePhase\<rparr>"

definition sample_bft2 :: bft_consensus where
  "sample_bft2 = sample_bft1\<lparr>bft_phase := PrecommitPhase,
     bft_vote_history := fmupd (1, 0, Prevote, ''val'') ''h'' fmempty,
     bft_vote_messages := fmupd (1, 0, Prevote, ''val'') (sample_vote Prevote) fmempty,
     bft_votes := fmupd (Prevote, ''h'') {|''val''|} fmempty,
     bft_locked_value := Some ''h'', bft_locked_round := Some 0, bft_valid_value := Some ''h'', bft_valid_round := Some 0\<rparr>"

definition sample_runtime :: consensus_runtime where
  "sample_runtime = \<lparr>rt_chain = sample_chain, rt_consensus = sample_bft, rt_validator = sample_signer,
     rt_pending = None, rt_valid_block = None, rt_deadline = 5, rt_timeouts = uniform 5,
     rt_validators = sample_vs, rt_precommits = [], rt_deferred_votes = [], rt_finalized = [],
     rt_pending_finalized = [], rt_event_schedule = []\<rparr>"

definition sample_runtime1 :: "block \<Rightarrow> consensus_runtime" where
  "sample_runtime1 b = sample_runtime\<lparr>rt_consensus := sample_bft1, rt_pending := Some b\<rparr>"

definition sample_runtime2 :: "block \<Rightarrow> consensus_runtime" where
  "sample_runtime2 b = (sample_runtime1 b)\<lparr>rt_consensus := sample_bft2, rt_valid_block := Some b\<rparr>"

definition sample_certificate :: finality_certificate where
  "sample_certificate = \<lparr>fc_block = sample_block, fc_round = 0, fc_precommits = [sample_vote Precommit]\<rparr>"

lemma sample_sorted [simp]: "sorted_list_of_fset {|a|} = [a]"
  by (simp add: sorted_list_of_fset.rep_eq)

lemma permissive_vote: "vote_verify permissive_externals (sample_vote ty) = Ok ()"
  by (simp add: vote_verify_def sample_vote_def permissive_signature)

lemma permissive_votes: "length (msg_signature m) = 2 \<Longrightarrow> length (msg_validator_id m) \<noteq> 2 \<Longrightarrow>
   vote_verify permissive_externals m = Ok ()"
  by (simp add: vote_verify_def permissive_signature)

lemma sample_block_more [simp]:
  "blk_hash sample_block = ''h''" "blk_previous_hash sample_block = ''h''" "blk_timestamp sample_block = 5"
  by (simp add: sample_block_def) (simp_all add: sample_block_def block_new_def Let_def)

lemma sample_block_shape: "sample_shape sample_block"
  by (simp add: sample_shape_def)

lemma sample_chain_last [simp]: "last_block sample_chain = Some (block_genesis permissive_externals)"
  "blocks sample_chain = [block_genesis permissive_externals]" "executed_events sample_chain = {||}"
  by (simp_all add: last_block_def sample_chain_def)

lemma sample_bft_new:
  "bft_new sample_vs = Ok (sample_bft\<lparr>bft_height := 0, bft_phase := Waiting\<rparr>)"
  by (simp add: bft_new_def sample_vs_def add_validator_def sample_bft_def fm_entries_def)

lemma sample_start: "with_signer 0 sample_chain sample_vs sample_signer (uniform 5) = Ok sample_runtime"
  by (simp add: with_signer_def sample_bft_new start_round_def sample_runtime_def sample_bft_def uniform_def)

lemma sample_sign: "sign_vote permissive_externals 1 0 ty ''h'' rt = Ok (sample_vote ty)"
  if "rt_validator rt = sample_signer"
  using that
  by (simp add: sign_vote_def sample_signer_def external_sign_bytes_def try_program_def permissive_signature
      vote_from_signature_def permissive_votes Let_def) (simp add: sample_vote_def)

lemma sample_handle_proposal:
  assumes "sample_shape b"
  shows "handle_proposal permissive_externals (sample_proposal b) sample_bft = Ok sample_bft1"
proof -
  have "proposal_verify permissive_externals (sample_proposal b) = Ok ()"
    using assms by (simp add: proposal_verify_def sample_proposal_def permissive_signature sample_shape_def)
  then show ?thesis
    using assms by (simp add: handle_proposal_Ok sample_bft1_def)
      (simp add: sample_bft_def sample_proposal_def expected_proposer_def sample_shape_def)
qed

lemma sample_receive_proposal:
  assumes "sample_shape b"
  shows "receive_proposal permissive_externals 0 (Some 5) (sample_proposal b) sample_runtime = (sample_runtime1 b, Ok (sample_vote Prevote))"
proof -
  have "validate_scheduled_block permissive_externals (Some 5) sample_runtime b = Ok ()"
    using assms by (simp add: sample_shape_def validate_scheduled_block_def sample_runtime_def validate_block_events_def due_def
        saturating_add_def MAX_CLOCK_DRIFT_SECONDS_def)
  moreover have "prop_block (sample_proposal b) = b" "prop_height (sample_proposal b) = 1" "prop_round (sample_proposal b) = 0"
    by (simp_all add: sample_proposal_def)
  moreover have "reset_deadline 0 (sample_runtime\<lparr>rt_consensus := sample_bft1, rt_pending := Some b\<rparr>) = sample_runtime1 b"
    by (simp add: reset_deadline_def sample_runtime1_def sample_runtime_def sample_bft1_def uniform_def)
  moreover have "rt_chain sample_runtime = sample_chain" "rt_consensus sample_runtime = sample_bft"
    "rt_validator (sample_runtime1 b) = sample_signer" by (simp_all add: sample_runtime_def sample_runtime1_def)
  ultimately show ?thesis
    using assms sample_handle_proposal [OF assms] by (simp add: receive_proposal_def sample_sign Let_def sample_shape_def)
qed

lemma sample_handle: "handle permissive_externals (sample_vote Prevote) sample_bft1 = (sample_bft2, Ok ())"
  using permissive_vote [of Prevote]
  by (simp add: handle_def sample_bft1_def sample_bft_def sample_vote_def history_key_def count_vote_def Let_def
      has_quorum_def map_filter_simps saturating_mul_def sample_bft2_def)

lemma sample_receive_vote:
  assumes "sample_shape b"
  shows "receive_vote permissive_externals 0 (sample_vote Prevote) (sample_runtime1 b) = (sample_runtime2 b, Ok (Some (sample_vote Precommit)))"
proof -
  have "rt_consensus (sample_runtime1 b) = sample_bft1" "bft_phase sample_bft1 = PrevotePhase" "bft_phase sample_bft2 = PrecommitPhase"
    "bft_round sample_bft2 = 0" by (simp_all add: sample_runtime1_def sample_bft1_def sample_bft2_def sample_bft_def)
  moreover have "after_phase_change 0 PrevotePhase (store_precommit (sample_vote Prevote)
      ((sample_runtime1 b)\<lparr>rt_consensus := sample_bft2\<rparr>)) = sample_runtime2 b"
    by (simp add: after_phase_change_def store_precommit_def sample_vote_def reset_deadline_def sample_runtime2_def
        sample_runtime1_def sample_runtime_def sample_bft2_def sample_bft1_def uniform_def)
  moreover have "rt_pending (sample_runtime2 b) = Some b" "rt_validator (sample_runtime2 b) = sample_signer"
    "rt_pending (sample_runtime1 b) = Some b"
    by (simp_all add: sample_runtime2_def sample_runtime1_def sample_runtime_def)
  ultimately show ?thesis
    using assms by (simp add: receive_vote_def sample_handle sample_sign Let_def sample_shape_def)
qed

lemma sample_node_run:
  assumes "sample_shape b"
  shows "node_run permissive_externals sample_chain sample_vs (sample_runtime2 b) [sample_vote Prevote, sample_vote Precommit]"
  using node_run.vote [OF node_run.proposal [OF node_run.start [OF sample_start] sample_receive_proposal [OF assms]]
      sample_receive_vote [OF assms]] by simp

lemma sample_certificate_ok: "certificate_verify permissive_externals sample_certificate sample_vs = Ok ()"
  using permissive_vote [of Precommit]
  by (simp add: certificate_verify_def sample_certificate_def sample_vs_def validator_powers_def collect_map_def
      check_precommit_def sample_vote_def checked_add_def Let_def)

lemma sample_handle_precommit:
  "\<exists>s. handle permissive_externals (sample_vote Precommit) sample_bft2 = (s, Ok ()) \<and> bft_phase s = Finalized \<and>
     bft_finalized s = Some ''h'' \<and> bft_round s = 0 \<and> bft_height s = 1"
  using permissive_vote [of Precommit]
  by (simp add: handle_def sample_bft2_def sample_bft1_def sample_bft_def sample_vote_def history_key_def count_vote_def
      Let_def has_quorum_def map_filter_simps saturating_mul_def)

lemma sample_receive_precommit:
  "\<exists>rt. receive_vote permissive_externals 0 (sample_vote Precommit) (sample_runtime2 sample_block) = (rt, Ok None) \<and>
     rt_chain rt = sample_chain1 \<and> rt_finalized rt = [sample_certificate] \<and> rt_pending_finalized rt = [sample_certificate] \<and>
     rt_deferred_votes rt = [] \<and> bft_phase (rt_consensus rt) = Finalized \<and> bft_height (rt_consensus rt) = 1"
proof -
  obtain s where s: "handle permissive_externals (sample_vote Precommit) sample_bft2 = (s, Ok ())"
    "bft_phase s = Finalized" "bft_finalized s = Some ''h''" "bft_round s = 0" "bft_height s = 1"
    using sample_handle_precommit by blast
  let ?rt = "after_phase_change 0 PrecommitPhase (store_precommit (sample_vote Precommit)
    ((sample_runtime2 sample_block)\<lparr>rt_consensus := s\<rparr>))"
  have rt: "rt_pending ?rt = Some sample_block" "rt_chain ?rt = sample_chain" "rt_validators ?rt = sample_vs"
    "rt_precommits ?rt = [sample_vote Precommit]" "rt_consensus ?rt = s" "rt_finalized ?rt = []" "rt_deferred_votes ?rt = []"
    by (simp_all add: sample_runtime2_def sample_runtime1_def sample_runtime_def)
      (simp add: store_precommit_def sample_vote_def)
  have "rt_pending_finalized ?rt = []"
    by (simp add: after_phase_change_def reset_deadline_def store_precommit_def sample_runtime2_def sample_runtime1_def sample_runtime_def)
  moreover have "rt_consensus (sample_runtime2 sample_block) = sample_bft2" "bft_phase sample_bft2 = PrecommitPhase"
    by (simp_all add: sample_runtime2_def sample_bft2_def)
  then have "receive_vote permissive_externals 0 (sample_vote Precommit) (sample_runtime2 sample_block) =
      finalize_pending permissive_externals ?rt"
    using s by (simp add: receive_vote_def Let_def)
  ultimately show ?thesis
    using rt s(2-5) sample_certificate_ok sample_apply_block
    by (simp add: finalize_pending_def Let_def sample_certificate_def)
qed

lemma sample_finalizes:
  "\<exists>rt sg. node_run permissive_externals sample_chain sample_vs rt sg \<and> rt_chain rt = sample_chain1 \<and>
     rt_finalized rt = [sample_certificate]"
  using sample_receive_precommit node_run.vote [OF sample_node_run [OF sample_block_shape]] by metis

section \<open>Properties\<close>

lemma certified_agreement:
  assumes nodes: "\<forall>v \<in> H. node_run X (origin v) vs (rt v) (sg v)"
    and unforgeable: "\<forall>m \<in> set (fc_precommits c) \<union> set (fc_precommits d). msg_validator_id m \<in> H \<longrightarrow>
      (\<exists>m' \<in> set (sg (msg_validator_id m)). msg_height m' = msg_height m \<and> msg_round m' = msg_round m \<and>
         msg_vote_type m' = msg_vote_type m \<and> msg_block_hash m' = msg_block_hash m)"
    and faulty: "3 * sum (voter_power vs) (fmdom' (validator_powers vs) - H) \<le> powers_sum vs"
    and len: "length vs < 2 ^ 60"
    and c: "certificate_verify X c vs = Ok ()" and d: "certificate_verify X d vs = Ok ()"
    and height: "blk_height (fc_block c) = blk_height (fc_block d)"
  shows "blk_hash (fc_block c) = blk_hash (fc_block d)"
proof -
  have q: "certified X vs (cert_voters c)" "certified X vs (cert_voters d)"
    using c d len by (auto simp: certified_def)
  obtain v where v: "v \<in> cert_voters c" "v \<in> cert_voters d" "v \<notin> fmdom' (validator_powers vs) - H"
    using cert_quorum.correct_in_both [OF q faulty] by auto
  then have H: "v \<in> H" using certificate_verify_Ok(3) [OF c len] by blast
  obtain m1 m2 where m: "m1 \<in> set (fc_precommits c)" "msg_validator_id m1 = v"
    "m2 \<in> set (fc_precommits d)" "msg_validator_id m2 = v"
    using v(1,2) by (auto simp: cert_voters_def)
  note votes = certificate_verify_Ok(2) [OF c len m(1)] certificate_verify_Ok(2) [OF d len m(3)]
  obtain s1 s2 where s: "s1 \<in> set (sg v)" "s2 \<in> set (sg v)" "msg_vote_type s1 = Precommit" "msg_vote_type s2 = Precommit"
    "msg_height s1 = msg_height s2" "msg_block_hash s1 = msg_block_hash m1" "msg_block_hash s2 = msg_block_hash m2"
    using unforgeable m H votes height unfolding cert_vote_def by (metis UnI1 UnI2)
  have "node_run X (origin v) vs (rt v) (sg v)" using nodes H by blast
  from node_run_one_precommit [OF this s(1-5)] s(6,7) votes show ?thesis by (simp add: cert_vote_def)
qed

text \<open>
  Agreement. Let every validator in \<open>H\<close> run the node program with validator set \<open>vs\<close>, let the
  other validators have at most a third of the voting power, and let signatures be unforgeable: a
  precommit in one of two certificates that carries the identity of a validator in \<open>H\<close> was signed by
  its node. Then two finality certificates that verify for one height certify the same block hash,
  whatever their rounds.
\<close>

theorem consensus_agreement:
  assumes nodes: "\<forall>v \<in> H. node_run X (origin v) vs (rt v) (sg v)"
    and unforgeable: "\<forall>m \<in> set (fc_precommits c) \<union> set (fc_precommits d). msg_validator_id m \<in> H \<longrightarrow>
      (\<exists>m' \<in> set (sg (msg_validator_id m)). msg_height m' = msg_height m \<and> msg_round m' = msg_round m \<and>
         msg_vote_type m' = msg_vote_type m \<and> msg_block_hash m' = msg_block_hash m)"
    and faulty: "3 * sum (voter_power vs) (fmdom' (validator_powers vs) - H) \<le> powers_sum vs"
    and len: "length vs < 2 ^ 60"
    and c: "certificate_verify X c vs = Ok ()" and d: "certificate_verify X d vs = Ok ()"
    and height: "blk_height (fc_block c) = blk_height (fc_block d)"
  shows "blk_hash (fc_block c) = blk_hash (fc_block d)"
  by (rule certified_agreement [OF assms])

theorem consensus_agreement_witness:
  "blk_hash (fc_block sample_certificate) = blk_hash (fc_block (sample_certificate\<lparr>fc_round := 0\<rparr>))"
proof (rule consensus_agreement [where H = "{''val''}" and X = permissive_externals and origin = "\<lambda>_. sample_chain"
      and vs = sample_vs and rt = "\<lambda>_. sample_runtime2 sample_block" and sg = "\<lambda>_. [sample_vote Prevote, sample_vote Precommit]"])
  show "\<forall>v \<in> {''val''}. node_run permissive_externals sample_chain sample_vs (sample_runtime2 sample_block)
      [sample_vote Prevote, sample_vote Precommit]" using sample_node_run [OF sample_block_shape] by simp
  have "sample_certificate\<lparr>fc_round := 0\<rparr> = sample_certificate" by (simp add: sample_certificate_def)
  then show "certificate_verify permissive_externals (sample_certificate\<lparr>fc_round := 0\<rparr>) sample_vs = Ok ()"
    using sample_certificate_ok by simp
  show "3 * sum (voter_power sample_vs) (fmdom' (validator_powers sample_vs) - {''val''}) \<le> powers_sum sample_vs"
    by (simp add: sample_vs_def validator_powers_def collect_map_def)
qed (use sample_certificate_ok in \<open>simp_all add: sample_certificate_def sample_vs_def\<close>)

text \<open>
  The ledger grows only by certified blocks. In every run of the node program (with its
  validator set fixed) from a chain \<open>c0\<close>, the ledger is \<open>c0\<close> extended by blocks each of which has a
  stored finality certificate that verifies; all stored certificates verify; and a chain that was
  grown from genesis stays one.
\<close>

theorem ledger_certified:
  assumes "node_run X c0 vs rt sg"
  shows "(\<exists>certs. blocks (rt_chain rt) = blocks c0 @ map fc_block certs \<and> set certs \<subseteq> set (rt_finalized rt)) \<and>
    (\<forall>c \<in> set (rt_finalized rt). certificate_verify X c vs = Ok ()) \<and>
    (grown X c0 \<longrightarrow> grown X (rt_chain rt))"
  using node_run_chain_ok [OF assms] by (simp add: chain_ok_def)

theorem ledger_certified_witness:
  "\<exists>rt sg. node_run permissive_externals sample_chain sample_vs rt sg \<and> rt_chain rt = sample_chain1 \<and>
     grown permissive_externals (rt_chain rt) \<and> rt_finalized rt = [sample_certificate]"
proof -
  obtain rt sg where rt: "node_run permissive_externals sample_chain sample_vs rt sg" "rt_chain rt = sample_chain1"
    "rt_finalized rt = [sample_certificate]" using sample_finalizes by blast
  with ledger_certified [OF rt(1)] sample_grown(1) show ?thesis by blast
qed

text \<open>
  C8: Accountability. If two certificates verify for different blocks at one height and round, then
  validators with more than a third of the total power have signed both, and for each of them the two
  certificates contain a pair of votes that verifies as double-vote evidence.
\<close>

theorem fork_accountability:
  assumes "certificate_verify X c vs = Ok ()" and "certificate_verify X d vs = Ok ()" and "length vs < 2 ^ 60"
    and "blk_height (fc_block c) = blk_height (fc_block d)" and "fc_round c = fc_round d"
    and "blk_hash (fc_block c) \<noteq> blk_hash (fc_block d)"
  shows "powers_sum vs < 3 * sum (voter_power vs) (cert_voters c \<inter> cert_voters d) \<and>
    (\<forall>v \<in> cert_voters c \<inter> cert_voters d. \<exists>m \<in> set (fc_precommits c). \<exists>m' \<in> set (fc_precommits d).
       msg_validator_id m = v \<and> evidence_verify X \<lparr>de_first = m, de_second = m'\<rparr> = Ok ())"
proof (intro conjI ballI)
  have "certified X vs (cert_voters c)" "certified X vs (cert_voters d)"
    using assms(1-3) by (auto simp: certified_def)
  then show "powers_sum vs < 3 * sum (voter_power vs) (cert_voters c \<inter> cert_voters d)"
    by (rule cert_quorum.quorum_intersection)
  fix v assume "v \<in> cert_voters c \<inter> cert_voters d"
  then obtain m m' where m: "m \<in> set (fc_precommits c)" "m' \<in> set (fc_precommits d)"
    "msg_validator_id m = v" "msg_validator_id m' = v" by (auto simp: cert_voters_def)
  moreover have "cert_vote X c m" "cert_vote X d m'"
    using certificate_verify_Ok(2) [OF assms(1,3) m(1)] certificate_verify_Ok(2) [OF assms(2,3) m(2)] .
  ultimately show "\<exists>m \<in> set (fc_precommits c). \<exists>m' \<in> set (fc_precommits d).
       msg_validator_id m = v \<and> evidence_verify X \<lparr>de_first = m, de_second = m'\<rparr> = Ok ()"
    using assms(4-6) by (intro bexI [of _ m] bexI [of _ m']) (auto simp: evidence_verify_Ok cert_vote_def history_key_def)
qed

text \<open>Two certificates for different blocks, in an instance whose block hash is the producer's name.\<close>

definition fork_externals :: externals where
  "fork_externals = permissive_externals\<lparr>sha256 := \<lambda>bs. bs, hex_encode := \<lambda>bs. if length bs = 16 then ''h'' else ''g''\<rparr>"

definition fork_certificate :: "string \<Rightarrow> string \<Rightarrow> finality_certificate" where
  "fork_certificate producer hash = \<lparr>
     fc_block = \<lparr>blk_height = 1, blk_previous_hash = [], blk_timestamp = 0, blk_producer = producer,
       blk_transactions = [], blk_system_events = [], blk_hash = hash\<rparr>,
     fc_round = 0, fc_precommits = [(sample_vote Precommit)\<lparr>msg_block_hash := hash\<rparr>]\<rparr>"

lemma fork_certificate_ok:
  assumes "(hash = ''h'') = (producer = [])" and "hash \<in> {''h'', ''g''}"
  shows "certificate_verify fork_externals (fork_certificate producer hash) sample_vs = Ok ()"
proof -
  have "vote_verify fork_externals ((sample_vote Precommit)\<lparr>msg_block_hash := hash\<rparr>) = Ok ()"
    by (simp add: vote_verify_def result_simps verify_signature_Ok)
      (simp add: fork_externals_def permissive_externals_def sample_vote_def)
  moreover have "calculate_hash fork_externals (fc_block (fork_certificate producer hash)) = hash"
    using assms by (auto simp: calculate_hash_def block_preimage_def fork_externals_def fork_certificate_def)
  ultimately show ?thesis
    by (simp add: certificate_verify_def fork_certificate_def sample_vs_def validator_powers_def collect_map_def
        check_precommit_def sample_vote_def checked_add_def Let_def)
qed

theorem fork_accountability_witness:
  "powers_sum sample_vs < 3 * sum (voter_power sample_vs)
     (cert_voters (fork_certificate [] ''h'') \<inter> cert_voters (fork_certificate ''p'' ''g''))"
proof -
  have "certificate_verify fork_externals (fork_certificate [] ''h'') sample_vs = Ok ()"
    "certificate_verify fork_externals (fork_certificate ''p'' ''g'') sample_vs = Ok ()"
    by (simp_all add: fork_certificate_ok)
  from fork_accountability [OF this] show ?thesis by (simp add: fork_certificate_def sample_vs_def)
qed

end
