(* ===== verification/Machine_Properties.thy ===== *)
theory Machine_Properties
  imports Consensus_Properties
begin

text \<open>
  Properties of the BFT machine and of the driver around it: quorums, locks, evidence, proposer
  rotation, deferred votes, and what happens when a finalized block cannot be executed.
\<close>

subsection \<open>Lemmas\<close>

lemma sample_bft_runs:
  "bft_run permissive_externals sample_vs sample_bft" "bft_run permissive_externals sample_vs sample_bft1"
  "bft_run permissive_externals sample_vs sample_bft2"
proof -
  have "start_round 1 0 (sample_bft\<lparr>bft_height := 0, bft_phase := Waiting\<rparr>) = Ok sample_bft"
    by (simp add: start_round_def sample_bft_def)
  then show "bft_run permissive_externals sample_vs sample_bft" by (rule bft_run.start [OF bft_run.init [OF sample_bft_new]])
  then show "bft_run permissive_externals sample_vs sample_bft1" by (rule bft_run.proposal [OF _ sample_handle_proposal [OF sample_block_shape]])
  then show "bft_run permissive_externals sample_vs sample_bft2" by (rule bft_run.vote [OF _ sample_handle])
qed

lemma recorded_vote:
  assumes "votes_ok X s" and "v \<in> voters_of (ty, h) s"
  shows "v \<in> fmdom' (bft_validators s) \<and> (\<exists>m. fmlookup (bft_vote_messages s) (bft_height s, bft_round s, ty, v) = Some m \<and>
    msg_block_hash m = h \<and> vote_verify X m = Ok ())"
  using votes_okD(3) [OF assms(1) votes_okD(1) [OF assms]] votes_okD(2) [OF assms] votes_okD(4) [OF assms(1)] by blast

lemma evidence_id_same_slot:
  "history_key (de_first e) = history_key (de_first f) \<Longrightarrow> evidence_id e = evidence_id f"
  by (simp add: evidence_id_def history_key_def)

lemma handle_double:
  assumes "handle X m s = (t, Err DoubleVote)"
  shows "\<exists>h. fmlookup (bft_vote_history s) (history_key m) = Some h \<and> h \<noteq> msg_block_hash m \<and>
    t = add_evidence X m s \<and> vote_verify X m = Ok ()"
proof (cases "vote_verify X m")
  case (Inl e)
  then show ?thesis using assms vote_verify_error [OF Inl] by (auto simp: handle_def split: if_splits)
next
  case (Inr u)
  then show ?thesis using assms
    by (cases "fmlookup (bft_vote_history s) (history_key m)") (auto simp: handle_def Let_def split: if_splits)
qed

lemma mod_shift_bij:
  assumes "0 < n"
  shows "bij_betw (\<lambda>i. (b + i) mod n) {..<n} {..<(n :: nat)}"
proof -
  have "inj_on (\<lambda>i. (b + i) mod n) {..<n}"
  proof (rule linorder_inj_onI')
    fix i j assume "i \<in> {..<n}" "j \<in> {..<n}" "i < j"
    then have "\<not> n dvd (b + j) - (b + i)" by (auto dest: dvd_imp_le)
    then show "(b + i) mod n \<noteq> (b + j) mod n"
      using mod_eq_dvd_iff_nat [of "b + i" "b + j" n] \<open>i < j\<close> by (metis less_imp_le nat_add_left_cancel_le)
  qed
  moreover have "(\<lambda>i. (b + i) mod n) ` {..<n} \<subseteq> {..<n}" using assms by auto
  ultimately show ?thesis by (simp add: bij_betw_def endo_inj_surj)
qed

section \<open>Properties\<close>

text \<open>
  C6: Decisions rest on quorums. If the voting powers of the validators fit 64 bits, a machine that
  has finalized a block holds, for the current height and round, verified prevotes and verified
  precommits for that block from validators with more than two thirds of the total power.
\<close>

theorem bft_decision_quorum:
  assumes "bft_run X vs s" and "fm_total (bft_validators s) < 2 ^ 64" and "bft_finalized s = Some h"
  shows "\<forall>ty. \<exists>Q \<subseteq> fmdom' (bft_validators s). two_thirds (bft_validators s) Q \<and>
    (\<forall>v \<in> Q. \<exists>m. fmlookup (bft_vote_messages s) (bft_height s, bft_round s, ty, v) = Some m \<and>
       msg_block_hash m = h \<and> vote_verify X m = Ok ())"
proof
  fix ty
  have lock: "lock_ok s" and votes: "votes_ok X s" and q: "quorums_ok s"
    using bft_run_lock_ok bft_run_votes_ok bft_run_quorums_ok assms(1) by blast+
  have "bft_phase s = Finalized" "bft_proposal s = Some h"
    using lock assms(3) by (auto simp: lock_ok_def split: if_splits)
  then have "two_thirds (bft_validators s) (voters_of (ty, h) s)"
    using q assms(2) by (cases ty) (simp_all add: quorums_ok_def powers_fit_def)
  then show "\<exists>Q \<subseteq> fmdom' (bft_validators s). two_thirds (bft_validators s) Q \<and>
    (\<forall>v \<in> Q. \<exists>m. fmlookup (bft_vote_messages s) (bft_height s, bft_round s, ty, v) = Some m \<and>
       msg_block_hash m = h \<and> vote_verify X m = Ok ())"
    using recorded_vote [OF votes] by (intro exI [of _ "voters_of (ty, h) s"]) blast
qed

theorem bft_decision_quorum_witness:
  "\<exists>s. bft_run permissive_externals sample_vs s \<and> bft_finalized s = Some ''h'' \<and>
     (\<exists>Q \<subseteq> fmdom' (bft_validators s). two_thirds (bft_validators s) Q)"
proof -
  obtain s where s: "handle permissive_externals (sample_vote Precommit) sample_bft2 = (s, Ok ())"
    "bft_finalized s = Some ''h''" using sample_handle_precommit by blast
  have run: "bft_run permissive_externals sample_vs s" by (rule bft_run.vote [OF sample_bft_runs(3) s(1)])
  have "bft_validators s = fmupd ''val'' 1 fmempty"
    using handle_fields [OF s(1)] by (simp add: sample_bft2_def sample_bft1_def sample_bft_def)
  then have "fm_total (bft_validators s) < 2 ^ 64" using fm_total_fmupd [of "''val''" "1 :: u64" fmempty] by simp
  from bft_decision_quorum [OF run this s(2)] run s(2) show ?thesis by blast
qed

text \<open>
  C7: The lock never opens. A machine that is locked on a block accepts no proposal for another
  block at that height, however the proposal sets its valid round; votes and new rounds of the
  height keep the lock. Locked and valid value always coincide, so the unlocking branch of
  \<open>handle_proposal\<close> is never taken.
\<close>

theorem lock_permanent:
  assumes "bft_run X vs s" and "bft_locked_value s = Some v"
  shows "(\<forall>p t. handle_proposal X p s = Ok t \<longrightarrow> blk_hash (prop_block p) = v \<and> bft_locked_value t = Some v) \<and>
    (\<forall>m. bft_locked_value (fst (handle X m s)) = Some v) \<and>
    (\<forall>r t. start_round (bft_height s) r s = Ok t \<longrightarrow> bft_locked_value t = Some v) \<and>
    bft_valid_value s = Some v \<and> bft_valid_round s = bft_locked_round s"
proof (intro conjI allI impI)
  note lock = bft_run_lock_ok [OF assms(1)]
  fix p t assume hp: "handle_proposal X p s = Ok t"
  then show v: "blk_hash (prop_block p) = v"
    using assms(2) unlock_never [OF lock, of p] by (auto simp: handle_proposal_Ok)
  show "bft_locked_value t = Some v" using hp assms(2) by (auto simp: handle_proposal_Ok)
next
  fix m show "bft_locked_value (fst (handle X m s)) = Some v"
    using lock_kept_vote [of X m s] bft_run_lock_ok [OF assms(1)] assms(2) by (cases "handle X m s") auto
next
  fix r t assume "start_round (bft_height s) r s = Ok t"
  then show "bft_locked_value t = Some v" using assms(2) by (auto simp: start_round_Ok)
qed (use bft_run_lock_ok [OF assms(1)] assms(2) in \<open>simp_all add: lock_ok_def\<close>)

theorem lock_permanent_witness:
  "bft_locked_value sample_bft2 = Some ''h'' \<and> bft_valid_value sample_bft2 = Some ''h''"
proof -
  have locked: "bft_locked_value sample_bft2 = Some ''h''" by (simp add: sample_bft2_def)
  with lock_permanent [OF sample_bft_runs(3) locked] show ?thesis by simp
qed

text \<open>
  Double votes are caught. When a machine rejects a vote as a double vote, it holds evidence of
  the voter for that height, round and vote type; and all evidence a machine ever holds is
  genuine: two verified votes of one validator for one height, round and type and two blocks.
\<close>

theorem double_vote_recorded:
  assumes "bft_run X vs s" and "handle X m s = (t, Err DoubleVote)"
  shows "(\<exists>e \<in> set (bft_evidence t). evidence_id e = evidence_id \<lparr>de_first = m, de_second = m\<rparr>) \<and>
    (\<forall>e \<in> set (bft_evidence t). vote_verify X (de_first e) = Ok () \<and> vote_verify X (de_second e) = Ok () \<and>
       history_key (de_first e) = history_key (de_second e) \<and> msg_block_hash (de_first e) \<noteq> msg_block_hash (de_second e))"
proof (rule conjI)
  note votes = bft_run_votes_ok [OF assms(1)]
  obtain h where double: "fmlookup (bft_vote_history s) (history_key m) = Some h" "h \<noteq> msg_block_hash m"
    "t = add_evidence X m s" "vote_verify X m = Ok ()" using handle_double [OF assms(2)] by blast
  obtain m0 where m0: "fmlookup (bft_vote_messages s) (history_key m) = Some m0" "msg_block_hash m0 = h"
    using votes_okD(3) [OF votes double(1)] by blast
  have k: "history_key m0 = history_key m" "vote_verify X m0 = Ok ()" using votes_okD(4) [OF votes m0(1)] by blast+
  let ?e = "\<lparr>de_first = m0, de_second = m\<rparr>"
  have "evidence_verify X ?e = Ok ()" using k double(2,4) m0(2) by (simp add: evidence_verify_Ok)
  then have "evidence_new X m0 m = Ok ?e" by (simp add: evidence_new_def Let_def)
  then have "\<exists>e \<in> set (bft_evidence t). evidence_id e = evidence_id ?e"
    by (auto simp: double(3) add_evidence_def m0(1))
  then show "\<exists>e \<in> set (bft_evidence t). evidence_id e = evidence_id \<lparr>de_first = m, de_second = m\<rparr>"
    using evidence_id_same_slot [of ?e "\<lparr>de_first = m, de_second = m\<rparr>"] k(1) by simp
  show "\<forall>e \<in> set (bft_evidence t). vote_verify X (de_first e) = Ok () \<and> vote_verify X (de_second e) = Ok () \<and>
       history_key (de_first e) = history_key (de_second e) \<and> msg_block_hash (de_first e) \<noteq> msg_block_hash (de_second e)"
    using votes_okD(5) [OF votes_ok_vote [OF votes assms(2)]] by (simp add: evidence_verify_Ok)
qed

text \<open>A second prevote of the sample validator, for another block.\<close>

lemma sample_double_vote:
  "\<exists>t. handle permissive_externals ((sample_vote Prevote)\<lparr>msg_block_hash := ''x''\<rparr>) sample_bft2 = (t, Err DoubleVote)"
proof -
  have "vote_verify permissive_externals ((sample_vote Prevote)\<lparr>msg_block_hash := ''x''\<rparr>) = Ok ()"
    by (rule permissive_votes) (simp_all add: sample_vote_def)
  then show ?thesis
    by (simp add: handle_def sample_bft2_def sample_bft1_def sample_bft_def history_key_def)
      (simp add: sample_vote_def)
qed

theorem double_vote_recorded_witness:
  "\<exists>t e. handle permissive_externals ((sample_vote Prevote)\<lparr>msg_block_hash := ''x''\<rparr>) sample_bft2 = (t, Err DoubleVote) \<and>
     e \<in> set (bft_evidence t)"
proof -
  obtain t where "handle permissive_externals ((sample_vote Prevote)\<lparr>msg_block_hash := ''x''\<rparr>) sample_bft2 = (t, Err DoubleVote)"
    using sample_double_vote by blast
  with double_vote_recorded [OF sample_bft_runs(3) this] show ?thesis by blast
qed

text \<open>
  C33: Every validator gets its turn. In any window of as many consecutive rounds of a height as
  there are validators, each validator is the expected proposer exactly once, as long as neither the
  round nor the sum of height and round overflows.
\<close>

theorem proposer_rotation:
  assumes "fcard (fmdom (bft_validators s)) = n" and "0 < n" and "first + n \<le> 2 ^ 32"
    and "unat (bft_height s) + first + n \<le> 2 ^ 64"
  shows "bij_betw (\<lambda>i. expected_proposer (s\<lparr>bft_round := of_nat (first + i)\<rparr>)) {..<n} (fmdom' (bft_validators s))"
proof -
  define ids where "ids = sorted_list_of_fset (fmdom (bft_validators s))"
  have ids: "distinct ids" "set ids = fmdom' (bft_validators s)" "length ids = n"
    using assms(1) by (simp_all add: ids_def sorted_list_of_fset.rep_eq fmdom'_alt_def fcard.rep_eq)
  let ?b = "unat (saturating_sub (bft_height s) 1) + first"
  have "expected_proposer (s\<lparr>bft_round := of_nat (first + i)\<rparr>) = ids ! ((?b + i) mod n)" if "i < n" for i
  proof -
    have "unat (of_nat (first + i) :: u32) = first + i"
      using that assms(3) by (intro unat_of_nat_small) simp
    then have r: "unat (ucast (of_nat (first + i) :: u32) :: u64) = first + i"
      using that assms(3) by (simp add: unsigned_ucast_eq take_bit_eq_mod)
    moreover have "unat (saturating_sub (bft_height s) 1) \<le> unat (bft_height s)" by (simp add: unat_saturating_sub)
    ultimately have "unat (saturating_sub (bft_height s) 1 + ucast (of_nat (first + i) :: u32)) = ?b + i"
      using that assms(4) by (subst unat_plus_simple [THEN iffD1]) (simp_all add: no_olen_add_nat)
    then show ?thesis by (simp add: expected_proposer_def Let_def flip: ids_def) (simp add: ids(3))
  qed
  moreover have "bij_betw (\<lambda>i. ids ! ((?b + i) mod n)) {..<n} (set ids)"
    using bij_betw_trans [OF mod_shift_bij [OF assms(2), of ?b] bij_betw_nth [OF ids(1), of "{..<n}" "set ids"]] ids(3)
    by (simp add: comp_def)
  ultimately show ?thesis
    unfolding ids(2) [symmetric] by (subst bij_betw_cong) simp_all
qed

theorem proposer_rotation_witness:
  "bij_betw (\<lambda>i. expected_proposer (sample_bft\<lparr>bft_round := of_nat (3 + i)\<rparr>)) {..<1} {''val''}"
  using proposer_rotation [of sample_bft 1 3] by (simp add: sample_bft_def fcard.rep_eq)

text \<open>
  C11: The quorum test uses a wrapped total. \<open>BftConsensus::new\<close> adds the voting powers in 64 bits, so
  the total it compares with is the true total modulo \<open>2 ^ 64\<close>: whenever the powers sum up to more
  than that, a single validator whose power is large only in comparison with the remainder is a
  quorum on its own.
\<close>

theorem quorum_wrapped_total:
  assumes "bft_new vs = Ok s" and "v \<in> set vs"
    and "2 * (powers_sum vs mod 2 ^ 64) < 3 * unat (val_voting_power v)" and "2 * (powers_sum vs mod 2 ^ 64) < 2 ^ 64 - 1"
  shows "unat (bft_total_power s) = powers_sum vs mod 2 ^ 64 \<and>
    has_quorum (ty, h) (s\<lparr>bft_votes := fmupd (ty, h) {|val_id v|} fmempty\<rparr>)"
proof -
  have "fm_total (bft_validators s) = powers_sum vs" using bft_new_Ok(4) [OF assms(1)] by (simp add: powers_sum_def)
  then have total: "unat (bft_total_power s) = powers_sum vs mod 2 ^ 64"
    using bft_new_Ok(5) [OF assms(1)] sum_list_fm_entries [of "bft_validators s"]
    by (simp add: unat_wrapping_sum comp_def case_prod_unfold)
  moreover have "saturating_mul (val_voting_power v) 3 > saturating_mul (bft_total_power s) 2"
    using assms(3,4) total by (intro sat_compare(2)) simp_all
  ultimately show ?thesis
    using bft_new_Ok(6) [OF assms(1,2)] by (simp add: has_quorum_def map_filter_simps)
qed

definition wrap_vs :: "validator list" where
  "wrap_vs = [\<lparr>val_id = ''a'', val_voting_power = 2 ^ 63\<rparr>, \<lparr>val_id = ''b'', val_voting_power = 2 ^ 63\<rparr>,
     \<lparr>val_id = ''c'', val_voting_power = 1\<rparr>]"

theorem quorum_wrapped_total_witness:
  "\<exists>s. bft_new wrap_vs = Ok s \<and> has_quorum (Precommit, ''h'') (s\<lparr>bft_votes := fmupd (Precommit, ''h'') {|''c''|} fmempty\<rparr>) \<and>
     \<not> two_thirds (bft_validators s) {''c''}"
proof -
  obtain s where s: "bft_new wrap_vs = Ok s"
    by (simp add: bft_new_def wrap_vs_def add_validator_def)
  have sum: "powers_sum wrap_vs = 2 ^ 64 + 1" by (simp add: powers_sum_def wrap_vs_def)
  have look: "fmlookup (bft_validators s) ''c'' = Some 1"
    using bft_new_Ok(6) [OF s, of "\<lparr>val_id = ''c'', val_voting_power = 1\<rparr>"] by (simp add: wrap_vs_def)
  then have "set_power (bft_validators s) {''c''} = 1"
    by (simp add: set_power_def get0_def fmdom'I Int_absorb2)
  then have "\<not> two_thirds (bft_validators s) {''c''}"
    using bft_new_Ok(4) [OF s] sum by (simp add: two_thirds_def powers_sum_def)
  with quorum_wrapped_total [OF s, of "\<lparr>val_id = ''c'', val_voting_power = 1\<rparr>" Precommit "''h''"] s sum
  show ?thesis by (simp add: wrap_vs_def)
qed

text \<open>
  C9: Replay is complete. In every reachable node, \<open>replay_deferred_votes\<close> returns and leaves only votes
  in the queue that were in it. If it succeeds and the signer of the node answers every request with a
  signature that verifies, then every vote it leaves in the queue is one that the node still cannot accept
  in its current phase. If it ends in an error, the queue is empty, so that the votes it had not reached
  and those it had put back are lost.
\<close>

theorem replay_complete:
  assumes "node_run X c0 vs rt sg" and "replay_deferred_votes X now rt = (rt', r)"
  shows "set (rt_deferred_votes rt') \<subseteq> set (rt_deferred_votes rt) \<and>
    (case r of
       Inl _ \<Rightarrow> rt_deferred_votes rt' = []
     | Inr _ \<Rightarrow> signer_works X (rt_validator rt) \<longrightarrow>
         (\<forall>v \<in> set (rt_deferred_votes rt'). snd (receive_vote X now v rt') = Err (BftError PhaseMismatch)))"
proof -
  note loop = assms(2) [unfolded replay_deferred_votes_def]
  show ?thesis
  proof (cases r)
    case (Inl e)
    then show ?thesis using replay_loop_queue [OF loop] by simp
  next
    case (Inr out)
    then show ?thesis
      using replay_loop_queue [OF loop] replay_loop_blocked [OF loop [unfolded Inr] assms(1)] blocked_receive_vote
      by auto
  qed
qed

lemma sample_signer_works: "signer_works permissive_externals sample_signer"
  by (simp add: signer_works_def sample_signer_def external_sign_bytes_def try_program_def permissive_signature)

lemma sample_replay:
  "replay_deferred_votes permissive_externals 0 (sample_runtime\<lparr>rt_deferred_votes := [sample_vote Precommit]\<rparr>) =
     (sample_runtime\<lparr>rt_deferred_votes := [sample_vote Precommit]\<rparr>, Ok [])"
proof -
  have "handle permissive_externals (sample_vote Precommit) sample_bft = (sample_bft, Err PhaseMismatch)"
    using permissive_vote [of Precommit] by (simp add: handle_def sample_bft_def) (simp add: sample_vote_def)
  then have "receive_vote permissive_externals 0 (sample_vote Precommit) (sample_runtime\<lparr>rt_deferred_votes := []\<rparr>) =
      (sample_runtime\<lparr>rt_deferred_votes := []\<rparr>, Err (BftError PhaseMismatch))"
    by (simp add: receive_vote_def sample_runtime_def)
  then show ?thesis
    by (simp add: replay_deferred_votes_def replay_loop.simps is_deferable_vote_error_def)
qed

theorem replay_complete_witness:
  "\<exists>rt'. replay_deferred_votes permissive_externals 0 (sample_runtime\<lparr>rt_deferred_votes := [sample_vote Precommit]\<rparr>) = (rt', Ok []) \<and>
     sample_vote Precommit \<in> set (rt_deferred_votes rt') \<and>
     snd (receive_vote permissive_externals 0 (sample_vote Precommit) rt') = Err (BftError PhaseMismatch)"
proof -
  let ?rt = "sample_runtime\<lparr>rt_deferred_votes := [sample_vote Precommit]\<rparr>"
  have run: "node_run permissive_externals sample_chain sample_vs ?rt []"
    by (rule node_run.queue [OF node_run.start [OF sample_start]])
  have "signer_works permissive_externals (rt_validator ?rt)"
    using sample_signer_works by (simp add: sample_runtime_def)
  with replay_complete [OF run sample_replay] sample_replay show ?thesis by simp
qed

text \<open>
  C10: A finalized block that cannot be executed stops the node. No step before finalization executes
  the transactions of a proposal. If the precommits of such a block reach a quorum, the node
  returns an error, has dropped the candidate, keeps the old ledger, is locked on the block, stays in
  the finalized phase and never times out of it.
\<close>

theorem unexecutable_block_stalls:
  assumes "node_run X c0 vs rt sg" and "handle X m (rt_consensus rt) = (s, Ok ())" and "bft_phase s = Finalized"
    and "rt_pending rt = Some b" and "execute_block X (chain_id (rt_chain rt)) b (chain_state (rt_chain rt)) = Err e"
  shows "\<exists>rt' err. receive_vote X now m rt = (rt', Err err) \<and> rt_chain rt' = rt_chain rt \<and> rt_pending rt' = None \<and>
    bft_phase (rt_consensus rt') = Finalized \<and> bft_locked_value (rt_consensus rt') = Some (blk_hash b) \<and>
    (\<forall>later. timeout_if_due later rt' = Ok (rt', False))"
proof -
  let ?rt1 = "after_phase_change now (bft_phase (rt_consensus rt)) (store_precommit m (rt\<lparr>rt_consensus := s\<rparr>))"
  have vote: "receive_vote X now m rt = finalize_pending X ?rt1"
    using assms(2,3) by (simp add: receive_vote_def Let_def)
  obtain rt' q where fin: "finalize_pending X ?rt1 = (rt', q)" by fastforce
  have fields: "rt_consensus rt' = s" "rt_pending rt' = None" using finalize_pending_fields [OF fin] by simp_all
  obtain e' where "apply_block X (rt_chain rt) b = (rt_chain rt, Inl e')"
  proof (cases rule: apply_block_cases [of X "rt_chain rt" b])
    case (applied c')
    then show ?thesis using assms(5) by (simp add: apply_block_Ok)
  qed (use that in blast)
  then have "rt_chain rt' = rt_chain rt \<and> (\<exists>err. q = Err err)"
    using fin assms(4) by (auto simp: finalize_pending_def Let_def split: if_splits sum.splits)
  moreover have "bft_locked_value s = Some (blk_hash b)"
    using node_run_ok [OF assms(1)] assms(2-4) bft_run_lock_ok [OF bft_run.vote [OF _ assms(2)], of vs]
      handle_fields [OF assms(2)] by (auto simp: node_ok_def pending_ok_def lock_ok_def)
  moreover have "\<forall>later. timeout_if_due later rt' = Ok (rt', False)"
    using fields assms(3) by (simp add: timeout_if_due_def)
  ultimately show ?thesis using vote fin fields assms(3) by auto
qed

text \<open>A block whose only transaction has a wrong nonce.\<close>

definition bad_block :: block where
  "bad_block = block_new permissive_externals 1 ''h'' 5 ''producer'' [sample_tx\<lparr>tx_nonce := 7\<rparr>]"

theorem unexecutable_block_stalls_witness:
  "\<exists>rt' err. receive_vote permissive_externals 0 (sample_vote Precommit) (sample_runtime2 bad_block) = (rt', Err err) \<and>
     rt_chain rt' = sample_chain \<and> (\<forall>later. timeout_if_due later rt' = Ok (rt', False))"
proof -
  let ?rt = "sample_runtime2 bad_block"
  have "blk_hash bad_block = ''h''" by (simp add: bad_block_def)
  moreover have fields: "blk_transactions bad_block = [sample_tx\<lparr>tx_nonce := 7\<rparr>]" "blk_producer bad_block = ''producer''"
    "blk_height bad_block = 1" "blk_previous_hash bad_block = ''h''" "blk_timestamp bad_block = 5" "blk_system_events bad_block = []"
    by (simp_all add: bad_block_def block_new_def Let_def)
  ultimately have run: "node_run permissive_externals sample_chain sample_vs ?rt [sample_vote Prevote, sample_vote Precommit]"
    by (intro sample_node_run) (simp add: sample_shape_def)
  obtain s where s: "handle permissive_externals (sample_vote Precommit) (rt_consensus ?rt) = (s, Ok ())" "bft_phase s = Finalized"
    using sample_handle_precommit by (auto simp: sample_runtime2_def)
  have rt: "rt_pending ?rt = Some bad_block" "rt_chain ?rt = sample_chain"
    by (simp_all add: sample_runtime2_def sample_runtime1_def sample_runtime_def)
  have "next_nonces sample_chain = fmempty" by (simp add: sample_chain_def)
  then have bad: "apply_transaction permissive_externals cid prod (sample_tx\<lparr>tx_nonce := 7\<rparr>) (balances sample_chain, next_nonces sample_chain)
      \<noteq> Ok u" for cid prod u
    by (cases u) (auto elim!: apply_transaction_Ok simp: sample_tx_def)
  obtain e where e: "execute_block permissive_externals (chain_id (rt_chain ?rt)) bad_block (chain_state (rt_chain ?rt)) = Err e"
  proof (cases "apply_transaction permissive_externals (chain_id sample_chain) ''producer'' (sample_tx\<lparr>tx_nonce := 7\<rparr>)
      (balances sample_chain, next_nonces sample_chain)")
    case (Inl e)
    then show ?thesis using that
      by (simp add: rt(2) execute_block_def chain_state_def apply_transactions_def fields)
  qed (use bad in blast)
  from unexecutable_block_stalls [OF run s rt(1) e, of 0] rt(2) show ?thesis by metis
qed

end
