(* ===== verification/Consensus_Era.thy ===== *)
theory Consensus_Era
  imports Consensus_Lemmas
begin

text \<open>
  Nil votes, round-change certificates and validator eras (\<open>src/consensus_era.rs\<close>). A round-change
  certificate proves that more than two thirds of the power gave up a round; the era manager delays a
  new validator set to an era boundary.

  The vote loop of a round-change certificate is the vote loop of a finality certificate for the nil
  value, so its quorum lemmas come from there. The era lemmas give the activation height and the
  invariant of the manager.
\<close>

datatype era_error =
    NotNilVote | NilVoteSignature consensus_error | NoRoundPower | MixedRoundVotes | UnknownRoundVoter
  | RoundPowerOverflow | NoRoundQuorum | TooFewValidators | BadEraValidator | BadEraConfig | ActivationOverflow

definition NIL_BLOCK_HASH :: string where
  "NIL_BLOCK_HASH = ''ieum:nil''"

record nil_vote =
  nv_message :: consensus_message

definition nil_prevote :: "externals \<Rightarrow> u64 \<Rightarrow> u32 \<Rightarrow> wallet \<Rightarrow> nil_vote" where
  "nil_prevote X height rnd validator =
     \<lparr>nv_message = vote_signed X height rnd validator Prevote NIL_BLOCK_HASH\<rparr>"

definition nil_precommit :: "externals \<Rightarrow> u64 \<Rightarrow> u32 \<Rightarrow> wallet \<Rightarrow> nil_vote" where
  "nil_precommit X height rnd validator =
     \<lparr>nv_message = vote_signed X height rnd validator Precommit NIL_BLOCK_HASH\<rparr>"

definition nil_vote_verify :: "externals \<Rightarrow> nil_vote \<Rightarrow> (unit, era_error) result" where
  "nil_vote_verify X v =
     and_then (ensure (msg_block_hash (nv_message v) = NIL_BLOCK_HASH) NotNilVote) (\<lambda>_.
     map_err NilVoteSignature (vote_verify X (nv_message v)))"

subsection \<open>Round-change certificates\<close>

record round_change_certificate =
  rc_height :: u64
  rc_from_round :: u32
  rc_votes :: "consensus_message list"

definition check_round_vote ::
  "externals \<Rightarrow> (string, u128) fmap \<Rightarrow> round_change_certificate \<Rightarrow> consensus_message \<Rightarrow> string fset \<times> u128
     \<Rightarrow> (string fset \<times> u128, era_error) result" where
  "check_round_vote X powers c vote = (\<lambda>(voters, signed).
     if msg_height vote \<noteq> rc_height c \<or> msg_round vote \<noteq> rc_from_round c
        \<or> msg_vote_type vote \<noteq> Precommit \<or> msg_block_hash vote \<noteq> NIL_BLOCK_HASH
     then Err MixedRoundVotes
     else
       and_then (map_err NilVoteSignature (vote_verify X vote)) (\<lambda>_.
       and_then (ok_or (fmlookup powers (msg_validator_id vote)) UnknownRoundVoter) (\<lambda>power.
       if msg_validator_id vote |\<in>| voters then Ok (voters, signed)
       else and_then (ok_or (checked_add signed power) RoundPowerOverflow) (\<lambda>sp.
         Ok (finsert (msg_validator_id vote) voters, sp)))))"

definition round_change_verify ::
  "externals \<Rightarrow> round_change_certificate \<Rightarrow> validator list \<Rightarrow> (unit, era_error) result" where
  "round_change_verify X c validators =
     (let total_power = wrapping_sum (map (\<lambda>v. ucast (val_voting_power v) :: u128) validators) in
      and_then (ensure (total_power \<noteq> 0) NoRoundPower) (\<lambda>_.
      and_then (for_each (check_round_vote X (validator_powers validators) c) (rc_votes c) ({||}, 0))
        (\<lambda>(voters, signed).
           if signed * 3 \<le> total_power * 2 then Err NoRoundQuorum else Ok ())))"

subsection \<open>Eras\<close>

record era_config =
  era_length :: u64
  activation_delay :: u64

definition era_config_default :: era_config where
  "era_config_default = \<lparr>era_length = 10000, activation_delay = 100\<rparr>"

record validator_set_update =
  vu_requested_height :: u64
  vu_activation_height :: u64
  vu_validators :: "validator list"

record era_manager =
  em_config :: era_config
  em_active :: "validator list"
  em_pending :: "(u64, validator_set_update) fmap"

definition validate_set :: "validator list \<Rightarrow> (unit, era_error) result" where
  "validate_set validators =
     and_then (ensure (\<not> length validators < 4) TooFewValidators) (\<lambda>_.
     ensure (list_all (\<lambda>v. val_voting_power v \<noteq> 0) validators \<and> distinct (map val_id validators)) BadEraValidator)"

definition era_new :: "era_config \<Rightarrow> validator list \<Rightarrow> (era_manager, era_error) result" where
  "era_new config validators =
     and_then (validate_set validators) (\<lambda>_.
     and_then (ensure (\<not> (era_length config = 0 \<or> activation_delay config = 0)) BadEraConfig) (\<lambda>_.
     Ok \<lparr>em_config = config, em_active = validators, em_pending = fmempty\<rparr>))"

definition era_at :: "era_manager \<Rightarrow> u64 \<Rightarrow> u64" where
  "era_at m height = height div era_length (em_config m)"

definition era_schedule ::
  "u64 \<Rightarrow> validator list \<Rightarrow> era_manager \<Rightarrow> (era_manager \<times> u64, era_error) result" where
  "era_schedule requested_height validators m =
     and_then (validate_set validators) (\<lambda>_.
     and_then (ok_or (checked_add requested_height (activation_delay (em_config m))) ActivationOverflow) (\<lambda>earliest.
     let activation = saturating_mul (div_ceil earliest (era_length (em_config m))) (era_length (em_config m));
         update = \<lparr>vu_requested_height = requested_height, vu_activation_height = activation,
                   vu_validators = validators\<rparr>
     in Ok (m\<lparr>em_pending := fmupd activation update (em_pending m)\<rparr>, activation)))"

definition apply_height :: "u64 \<Rightarrow> era_manager \<Rightarrow> era_manager \<times> validator_set_update option" where
  "apply_height height m =
     (case find (\<lambda>item. item \<le> height) (sorted_list_of_fset (fmdom (em_pending m))) of
        None \<Rightarrow> (m, None)
      | Some activation \<Rightarrow>
        (case fmlookup (em_pending m) activation of
           None \<Rightarrow> (m, None)
         | Some update \<Rightarrow>
           (m\<lparr>em_pending := fmdrop activation (em_pending m), em_active := vu_validators update\<rparr>, Some update)))"

subsection \<open>Lemmas: round changes\<close>

text \<open>The finality certificate for the nil value that a round-change certificate corresponds to.\<close>

definition nil_certificate :: "block \<Rightarrow> round_change_certificate \<Rightarrow> finality_certificate" where
  "nil_certificate b c =
     \<lparr>fc_block = b\<lparr>blk_height := rc_height c, blk_hash := NIL_BLOCK_HASH\<rparr>,
      fc_round = rc_from_round c, fc_precommits = rc_votes c\<rparr>"

lemma check_round_vote_precommit:
  "check_round_vote X P c m st = Ok st' \<Longrightarrow> check_precommit X P (nil_certificate b c) m st = Ok st'"
  by (cases st) (auto simp: check_round_vote_def check_precommit_def nil_certificate_def result_simps split: if_splits)

lemma check_round_votes_precommits:
  "for_each (check_round_vote X P c) ms st = Ok st' \<Longrightarrow>
   for_each (check_precommit X P (nil_certificate b c)) ms st = Ok st'"
  by (induction ms arbitrary: st) (auto simp: result_simps dest: check_round_vote_precommit [where b = b])

definition round_voters :: "round_change_certificate \<Rightarrow> string set" where
  "round_voters c = msg_validator_id ` set (rc_votes c)"

lemma round_change_verify_Ok:
  assumes "round_change_verify X c vs = Ok ()" and "length vs < 2 ^ 60"
  shows "m \<in> set (rc_votes c) \<Longrightarrow> vote_verify X m = Ok () \<and> msg_height m = rc_height c \<and>
      msg_round m = rc_from_round c \<and> msg_vote_type m = Precommit \<and> msg_block_hash m = NIL_BLOCK_HASH"
    and "round_voters c \<subseteq> fmdom' (validator_powers vs)"
    and "2 * powers_sum vs < 3 * set_power (validator_powers vs) (round_voters c)"
proof -
  let ?P = "validator_powers vs" and ?t = "wrapping_sum (map (\<lambda>v. ucast (val_voting_power v) :: u128) vs)"
  let ?c = "nil_certificate undefined c"
  obtain voters sp where loop: "for_each (check_round_vote X ?P c) (rc_votes c) ({||}, 0) = Ok (voters, sp)"
    and cmp: "\<not> sp * 3 \<le> ?t * 2"
    using assms(1) by (auto simp: round_change_verify_def Let_def result_simps split: if_splits)
  have inv: "\<forall>m \<in> set (rc_votes c). cert_vote X ?c m \<and> msg_validator_id m \<in> fmdom' ?P"
    "fset voters = round_voters c" "unat sp = set_power ?P (round_voters c)"
    using check_precommits_Ok [OF check_round_votes_precommits [OF loop, of undefined]]
    by (auto simp: set_power_def round_voters_def)
  show "m \<in> set (rc_votes c) \<Longrightarrow> vote_verify X m = Ok () \<and> msg_height m = rc_height c \<and>
      msg_round m = rc_from_round c \<and> msg_vote_type m = Precommit \<and> msg_block_hash m = NIL_BLOCK_HASH"
    using inv(1) by (auto simp: cert_vote_def nil_certificate_def)
  show "round_voters c \<subseteq> fmdom' ?P" using inv(1) by (auto simp: round_voters_def)
  note tot = cert_total_exact [OF assms(2)]
  have "unat sp < 2 ^ 124"
    using inv(3) set_power_le [of ?P "round_voters c"] validator_powers_total [of vs] tot(2) by linarith
  then have "unat (sp * 3) = unat sp * 3" "unat (?t * 2) = unat ?t * 2"
    using tot by (simp_all add: unat_word_ariths)
  with cmp tot(1) inv(3) show "2 * powers_sum vs < 3 * set_power ?P (round_voters c)"
    by (simp add: word_le_nat_alt)
qed

text \<open>Finality and round-change certificates provide quorums of one system.\<close>

definition round_certified :: "externals \<Rightarrow> validator list \<Rightarrow> string set \<Rightarrow> bool" where
  "round_certified X vs Q \<longleftrightarrow> certified X vs Q \<or>
     length vs < 2 ^ 60 \<and> (\<exists>c. round_change_verify X c vs = Ok () \<and> Q = round_voters c)"

interpretation round_quorum: weighted_quorum "voter_power vs" "fmdom' (validator_powers vs)" "powers_sum vs"
    "round_certified X vs"
  for X vs
proof
  show "finite (fmdom' (validator_powers vs))" by (rule cert_quorum.finite_voters)
  show "sum (voter_power vs) (fmdom' (validator_powers vs)) \<le> powers_sum vs" by (rule cert_quorum.total_power)
  fix Q assume Q: "round_certified X vs Q"
  show sub: "Q \<subseteq> fmdom' (validator_powers vs)"
    using Q cert_quorum.quorum_voters round_change_verify_Ok(2) unfolding round_certified_def by blast
  then have "set_power (validator_powers vs) Q = sum (voter_power vs) Q"
    by (simp add: set_power_def voter_power_def Int_absorb2)
  then show "2 * powers_sum vs < 3 * sum (voter_power vs) Q"
    using Q cert_quorum.quorum_power round_change_verify_Ok(3) unfolding round_certified_def by metis
qed

subsection \<open>Lemmas: eras\<close>

text \<open>The least multiple of the era length from a height on.\<close>

lemma ceil_multiple:
  fixes e l :: nat
  assumes "0 < l"
  shows "e \<le> (e + l - 1) div l * l" and "(e + l - 1) div l * l < e + l"
proof -
  have "(e + l - 1) div l * l + (e + l - 1) mod l = e + l - 1" by (rule div_mult_mod_eq)
  moreover have "(e + l - 1) mod l < l" using assms by simp
  ultimately show "e \<le> (e + l - 1) div l * l" "(e + l - 1) div l * l < e + l" using assms by linarith+
qed

definition era_boundary :: "nat \<Rightarrow> nat \<Rightarrow> nat" where
  "era_boundary l e = (e + l - 1) div l * l"

lemma activation_nat:
  "l \<noteq> 0 \<Longrightarrow> unat (saturating_mul (div_ceil e l) l) = min (2 ^ LENGTH('a) - 1) (era_boundary (unat l) (unat e))"
  for e l :: "'a::len word"
  by (simp add: unat_saturating_mul unat_div_ceil era_boundary_def)

lemma era_boundary_bounds:
  "0 < l \<Longrightarrow> e \<le> era_boundary l e \<and> era_boundary l e < e + l \<and> l dvd era_boundary l e"
  using ceil_multiple [of l e] by (simp add: era_boundary_def)

lemma era_boundary_Least:
  assumes "0 < l"
  shows "(LEAST n. e \<le> n \<and> l dvd n) = era_boundary l e"
proof (rule Least_equality)
  note b = era_boundary_bounds [OF assms, of e]
  show "e \<le> era_boundary l e \<and> l dvd era_boundary l e" using b by blast
  fix n assume n: "e \<le> n \<and> l dvd n"
  show "era_boundary l e \<le> n"
  proof (rule ccontr)
    assume less: "\<not> era_boundary l e \<le> n"
    have "l dvd era_boundary l e - n" using b n by (intro dvd_diff_nat) auto
    then have "l \<le> era_boundary l e - n" using less by (intro dvd_imp_le) auto
    then show False using b n by linarith
  qed
qed

definition set_valid :: "validator list \<Rightarrow> bool" where
  "set_valid vs \<longleftrightarrow> 4 \<le> length vs \<and> (\<forall>v \<in> set vs. val_voting_power v \<noteq> 0) \<and> distinct (map val_id vs)"

lemma validate_set_Ok: "validate_set vs = Ok u \<longleftrightarrow> set_valid vs"
  by (auto simp: validate_set_def set_valid_def result_simps list_all_iff)

text \<open>An update that is pending under its activation height, no earlier than the delay allows.\<close>

definition update_ok :: "era_config \<Rightarrow> u64 \<Rightarrow> validator_set_update \<Rightarrow> bool" where
  "update_ok cfg k u \<longleftrightarrow> vu_activation_height u = k \<and> set_valid (vu_validators u) \<and>
     unat (vu_requested_height u) + unat (activation_delay cfg) \<le> unat k"

definition era_ok :: "era_manager \<Rightarrow> bool" where
  "era_ok m \<longleftrightarrow> era_length (em_config m) \<noteq> 0 \<and> activation_delay (em_config m) \<noteq> 0 \<and> set_valid (em_active m) \<and>
     (\<forall>k u. fmlookup (em_pending m) k = Some u \<longrightarrow> update_ok (em_config m) k u)"

lemma era_new_ok: "era_new cfg vs = Ok m \<Longrightarrow> era_ok m"
  by (auto simp: era_new_def era_ok_def result_simps validate_set_Ok)

lemma era_schedule_Ok:
  assumes "era_schedule h vs m = Ok (m', a)" and "era_length (em_config m) \<noteq> 0"
  shows "set_valid vs" and "unat h + unat (activation_delay (em_config m)) < 2 ^ 64"
    and "unat a = min (2 ^ 64 - 1)
      (era_boundary (unat (era_length (em_config m))) (unat h + unat (activation_delay (em_config m))))"
    and "em_pending m' = fmupd a \<lparr>vu_requested_height = h, vu_activation_height = a, vu_validators = vs\<rparr> (em_pending m)"
    and "em_config m' = em_config m" and "em_active m' = em_active m"
proof -
  let ?l = "era_length (em_config m)"
  obtain e where e: "checked_add h (activation_delay (em_config m)) = Some e" and vs: "validate_set vs = Ok ()"
    and a: "a = saturating_mul (div_ceil e ?l) ?l"
    and m': "m' = m\<lparr>em_pending := fmupd a \<lparr>vu_requested_height = h, vu_activation_height = a,
      vu_validators = vs\<rparr> (em_pending m)\<rparr>"
    using assms(1) by (auto simp: era_schedule_def Let_def result_simps)
  from e have e': "unat e = unat h + unat (activation_delay (em_config m))" by (simp add: checked_add_Some)
  show "set_valid vs" using vs by (simp add: validate_set_Ok)
  show "unat h + unat (activation_delay (em_config m)) < 2 ^ 64" using unat_lt [of e] by (simp add: e')
  show "unat a = min (2 ^ 64 - 1) (era_boundary (unat ?l) (unat h + unat (activation_delay (em_config m))))"
    using activation_nat [OF assms(2), of e] by (simp add: a e')
  show "em_pending m' = fmupd a \<lparr>vu_requested_height = h, vu_activation_height = a, vu_validators = vs\<rparr> (em_pending m)"
    "em_config m' = em_config m" "em_active m' = em_active m" by (simp_all add: m')
qed

lemma era_schedule_ok:
  assumes "era_schedule h vs m = Ok (m', a)" and "era_ok m"
  shows "era_ok m'"
proof -
  let ?d = "activation_delay (em_config m)" and ?l = "era_length (em_config m)"
  have l: "?l \<noteq> 0" "0 < unat ?l" using assms(2) by (simp_all add: era_ok_def unat_gt_0)
  note S = era_schedule_Ok [OF assms(1) l(1)]
  have "unat h + unat ?d \<le> unat a"
    using S(2,3) era_boundary_bounds [OF l(2), of "unat h + unat ?d"] by simp
  then show ?thesis using assms(2) S(1) by (simp add: era_ok_def S(4,5,6) update_ok_def)
qed

lemma apply_height_None: "apply_height h m = (m', None) \<Longrightarrow> m' = m"
  by (auto simp: apply_height_def split: option.splits)

lemma apply_height_Some:
  assumes "apply_height h m = (m', Some u)"
  obtains k where "k \<le> h" "fmlookup (em_pending m) k = Some u" "em_pending m' = fmdrop k (em_pending m)"
    "em_active m' = vu_validators u" "em_config m' = em_config m"
    "\<And>j. j \<in> fmdom' (em_pending m) \<Longrightarrow> k \<le> j"
proof -
  obtain k where find: "find (\<lambda>item. item \<le> h) (sorted_list_of_fset (fmdom (em_pending m))) = Some k"
    and u: "fmlookup (em_pending m) k = Some u"
    and m': "m' = m\<lparr>em_pending := fmdrop k (em_pending m), em_active := vu_validators u\<rparr>"
    using assms by (auto simp: apply_height_def split: option.splits)
  let ?ks = "sorted_list_of_fset (fmdom (em_pending m))"
  have ks: "sorted ?ks" "set ?ks = fmdom' (em_pending m)"
    by (simp_all add: sorted_list_of_fset.rep_eq fmdom'_alt_def)
  obtain i where i: "i < length ?ks" "k \<le> h" "k = ?ks ! i" "\<forall>j<i. \<not> ?ks ! j \<le> h"
    using find by (auto simp: find_Some_iff)
  have "k \<le> j" if "j \<in> fmdom' (em_pending m)" for j
  proof -
    have "j \<in> set ?ks" using that ks(2) by blast
    then obtain n where n: "n < length ?ks" "j = ?ks ! n" by (auto simp only: in_set_conv_nth)
    show ?thesis
    proof (cases "n < i")
      case True
      then have "h < j" using i(4) n(2) by (simp add: not_le)
      then show ?thesis using i(2) by simp
    next
      case False
      then show ?thesis using sorted_nth_mono [OF ks(1), of i n] n i(3) by simp
    qed
  qed
  then show ?thesis using that [of k] i(2) u by (simp add: m')
qed

lemma apply_height_due:
  assumes "k \<in> fmdom' (em_pending m)" and "k \<le> h"
  shows "\<exists>m' u. apply_height h m = (m', Some u)"
proof -
  let ?ks = "sorted_list_of_fset (fmdom (em_pending m))"
  have ks: "set ?ks = fmdom' (em_pending m)" by (simp add: sorted_list_of_fset.rep_eq fmdom'_alt_def)
  obtain j where j: "find (\<lambda>item. item \<le> h) ?ks = Some j"
    using assms ks by (metis find_None_iff not_None_eq)
  then have "j \<in> set ?ks" by (auto simp only: find_Some_iff intro!: nth_mem)
  then have "j \<in> fmdom' (em_pending m)" using ks by blast
  then obtain u where "fmlookup (em_pending m) j = Some u" by (auto simp: fmlookup_dom'_iff)
  with j show ?thesis by (simp add: apply_height_def)
qed

text \<open>The managers that scheduling and activation reach.\<close>

inductive era_run :: "era_config \<Rightarrow> validator list \<Rightarrow> era_manager \<Rightarrow> bool" for cfg vs where
  start: "era_new cfg vs = Ok m \<Longrightarrow> era_run cfg vs m"
| schedule: "era_run cfg vs m \<Longrightarrow> era_schedule h us m = Ok (m', a) \<Longrightarrow> era_run cfg vs m'"
| activate: "era_run cfg vs m \<Longrightarrow> apply_height h m = (m', u) \<Longrightarrow> era_run cfg vs m'"

lemma apply_height_ok:
  assumes "apply_height h m = (m', u)" and "era_ok m"
  shows "era_ok m'"
proof (cases u)
  case None
  then show ?thesis using assms apply_height_None by metis
next
  case (Some w)
  then obtain k where "fmlookup (em_pending m) k = Some w" "em_pending m' = fmdrop k (em_pending m)"
    "em_active m' = vu_validators w" "em_config m' = em_config m"
    using apply_height_Some assms(1) by metis
  then show ?thesis using assms(2) by (auto simp: era_ok_def update_ok_def)
qed

lemma era_run_ok: "era_run cfg vs m \<Longrightarrow> era_ok m \<and> em_config m = cfg"
proof (induction rule: era_run.induct)
  case (start m)
  then show ?case using era_new_ok by (auto simp: era_new_def result_simps)
next
  case (schedule m h us m' a)
  then show ?case using era_schedule_ok era_schedule_Ok(5) by (auto simp: era_ok_def)
next
  case (activate m h m' u)
  then have "em_config m' = em_config m" by (auto simp: apply_height_def split: option.splits)
  then show ?case using activate apply_height_ok by auto
qed

end
