(* ===== verification/Era_Properties.thy ===== *)
theory Era_Properties
  imports Consensus_Era Consensus_Properties
begin

text \<open>
  Properties of round-change certificates and of the era manager: a round that was given up by a
  certificate was not finalized, and a validator set changes only after its delay and at an era
  boundary.
\<close>

text \<open>
  C17: a round-change certificate and a finality certificate for the same height and round exclude each
  other: if both verify, validators with more than a third of the total power have signed both, and
  for each of them the two certificates contain a pair of precommits that verifies as double-vote
  evidence.
\<close>
theorem round_change_excludes_finality:
  assumes "round_change_verify X r vs = Ok ()" and "certificate_verify X c vs = Ok ()" and "length vs < 2 ^ 60"
    and "rc_height r = blk_height (fc_block c)" and "rc_from_round r = fc_round c"
    and "blk_hash (fc_block c) \<noteq> NIL_BLOCK_HASH"
  shows "powers_sum vs < 3 * sum (voter_power vs) (round_voters r \<inter> cert_voters c) \<and>
    (\<forall>v \<in> round_voters r \<inter> cert_voters c. \<exists>m \<in> set (rc_votes r). \<exists>m' \<in> set (fc_precommits c).
       msg_validator_id m = v \<and> evidence_verify X \<lparr>de_first = m, de_second = m'\<rparr> = Ok ())"
proof (intro conjI ballI)
  have "round_certified X vs (round_voters r)" "round_certified X vs (cert_voters c)"
    using assms(1-3) unfolding round_certified_def certified_def by blast+
  then show "powers_sum vs < 3 * sum (voter_power vs) (round_voters r \<inter> cert_voters c)"
    by (rule round_quorum.quorum_intersection)
  fix v assume "v \<in> round_voters r \<inter> cert_voters c"
  then obtain m m' where m: "m \<in> set (rc_votes r)" "m' \<in> set (fc_precommits c)"
    "msg_validator_id m = v" "msg_validator_id m' = v" by (auto simp: cert_voters_def round_voters_def)
  moreover have "cert_vote X c m'" by (rule certificate_verify_Ok(2) [OF assms(2,3) m(2)])
  ultimately show "\<exists>m \<in> set (rc_votes r). \<exists>m' \<in> set (fc_precommits c).
       msg_validator_id m = v \<and> evidence_verify X \<lparr>de_first = m, de_second = m'\<rparr> = Ok ()"
    using assms(4-6) round_change_verify_Ok(1) [OF assms(1,3) m(1)]
    by (intro bexI [of _ m] bexI [of _ m']) (auto simp: evidence_verify_Ok cert_vote_def history_key_def)
qed

definition sample_round_change :: round_change_certificate where
  "sample_round_change = \<lparr>rc_height = 1, rc_from_round = 0,
     rc_votes = [(sample_vote Precommit)\<lparr>msg_block_hash := NIL_BLOCK_HASH\<rparr>]\<rparr>"

theorem round_change_excludes_finality_witness:
  "powers_sum sample_vs < 3 * sum (voter_power sample_vs)
     (round_voters sample_round_change \<inter> cert_voters (fork_certificate [] ''h''))"
proof -
  have "vote_verify fork_externals ((sample_vote Precommit)\<lparr>msg_block_hash := NIL_BLOCK_HASH\<rparr>) = Ok ()"
    by (simp add: vote_verify_def result_simps verify_signature_Ok)
      (simp add: fork_externals_def permissive_externals_def sample_vote_def)
  then have r: "round_change_verify fork_externals sample_round_change sample_vs = Ok ()"
    by (simp add: round_change_verify_def sample_round_change_def sample_vs_def validator_powers_def collect_map_def
        check_round_vote_def sample_vote_def checked_add_def Let_def)
  have c: "certificate_verify fork_externals (fork_certificate [] ''h'') sample_vs = Ok ()"
    by (simp add: fork_certificate_ok)
  show ?thesis using round_change_excludes_finality [OF r c]
    by (simp add: fork_certificate_def sample_vs_def sample_round_change_def NIL_BLOCK_HASH_def)
qed

lemma era_schedule_outcome:
  assumes "era_length (em_config m) \<noteq> 0"
  shows "case era_schedule h us m of
      Inl _ \<Rightarrow> \<not> set_valid us \<or> 2 ^ 64 \<le> unat h + unat (activation_delay (em_config m))
    | Inr (m', a) \<Rightarrow> set_valid us \<and>
        unat a = min (2 ^ 64 - 1)
          (LEAST n. unat h + unat (activation_delay (em_config m)) \<le> n \<and> unat (era_length (em_config m)) dvd n) \<and>
        m' = m\<lparr>em_pending := fmupd a \<lparr>vu_requested_height = h, vu_activation_height = a, vu_validators = us\<rparr> (em_pending m)\<rparr>"
proof (cases "era_schedule h us m")
  case (Inl e)
  then have "\<not> set_valid us \<or> checked_add h (activation_delay (em_config m)) = None"
    using validate_set_Ok [of us] by (cases "checked_add h (activation_delay (em_config m))")
      (auto simp: era_schedule_def Let_def and_then_def split: sum.splits)
  then show ?thesis using Inl by (auto simp: checked_add_def not_less split: if_splits)
next
  case (Inr r)
  obtain m' a where r: "r = (m', a)" by (cases r)
  note S = era_schedule_Ok [OF Inr [unfolded r] assms]
  have "0 < unat (era_length (em_config m))" using assms by (simp add: unat_gt_0)
  then show ?thesis using S Inr r by (simp add: era_boundary_Least)
qed

lemma apply_height_outcome:
  "case apply_height h m of
     (m', None) \<Rightarrow> m' = m \<and> (\<forall>k \<in> fmdom' (em_pending m). h < k)
   | (m', Some u) \<Rightarrow> \<exists>k \<le> h. fmlookup (em_pending m) k = Some u \<and> (\<forall>j \<in> fmdom' (em_pending m). k \<le> j) \<and>
       m' = m\<lparr>em_pending := fmdrop k (em_pending m), em_active := vu_validators u\<rparr>"
proof (cases "apply_height h m")
  case (Pair m' r)
  show ?thesis
  proof (cases r)
    case None
    then have "\<not> k \<le> h" if "k \<in> fmdom' (em_pending m)" for k using apply_height_due [OF that] Pair by fastforce
    then show ?thesis using Pair None apply_height_None [of h m m'] by (simp add: not_le)
  next
    case (Some u)
    then have applied: "apply_height h m = (m', Some u)" using Pair by simp
    then obtain k where "k \<le> h" "fmlookup (em_pending m) k = Some u" "em_pending m' = fmdrop k (em_pending m)"
      "em_active m' = vu_validators u" "em_config m' = em_config m" and least: "\<And>j. j \<in> fmdom' (em_pending m) \<Longrightarrow> k \<le> j"
      by (rule apply_height_Some) blast
    moreover from this have "m' = m\<lparr>em_pending := fmdrop k (em_pending m), em_active := vu_validators u\<rparr>"
      by (cases m; cases m') simp
    ultimately show ?thesis unfolding Pair Some prod.case option.case using least by blast
  qed
qed

text \<open>A set scheduled for the earliest pending boundary is the one that is activated next.\<close>

lemma scheduled_is_next:
  assumes "em_pending m' = fmupd a u P" and "\<forall>k \<in> fmdom' P. a \<le> k" and "a \<le> h"
  shows "em_active (fst (apply_height h m')) = vu_validators u"
proof -
  have a: "a \<in> fmdom' (em_pending m')" "fmlookup (em_pending m') a = Some u" using assms(1) by auto
  have least: "\<forall>k \<in> fmdom' (em_pending m'). a \<le> k" using assms(1,2) by auto
  obtain m2 v where r: "apply_height h m' = (m2, Some v)" using apply_height_due [OF a(1) assms(3)] by blast
  then obtain k where k: "fmlookup (em_pending m') k = Some v" "\<forall>j \<in> fmdom' (em_pending m'). k \<le> j"
    "em_active m2 = vu_validators v" 
    using apply_height_outcome [where h = h and m = m'] by auto
  have "k = a" using k(1,2) a(1) least by (meson antisym fmdom'I)
  then show ?thesis using k a r by simp
qed

text \<open>
  C18: in every state of the era manager that scheduling and activation reach, the active validator set
  is well formed (at least four validators, distinct ids, positive power). Scheduling a set succeeds
  exactly when the set is well formed and the requested height plus the delay fits 64 bits; it stores the
  set, with its request, as the pending set of the first era boundary at or after that sum (capped at the
  largest height), in place of a set pending for the same boundary, and changes nothing else. At a height,
  the manager activates the pending set with the smallest boundary if that boundary is reached, and takes
  only it off the pending sets; the set was requested at least the delay before its boundary. If no
  boundary is reached, nothing changes. So a set that is scheduled for the earliest pending boundary is
  the active one after the first call at or above it.
\<close>
theorem era_activation:
  assumes "era_run cfg vs m"
  shows "set_valid (em_active m) \<and>
    (\<forall>h us. case era_schedule h us m of
       Inl _ \<Rightarrow> \<not> set_valid us \<or> 2 ^ 64 \<le> unat h + unat (activation_delay cfg)
     | Inr (m', a) \<Rightarrow> set_valid us \<and>
         unat a = min (2 ^ 64 - 1) (LEAST n. unat h + unat (activation_delay cfg) \<le> n \<and> unat (era_length cfg) dvd n) \<and>
         m' = m\<lparr>em_pending := fmupd a \<lparr>vu_requested_height = h, vu_activation_height = a, vu_validators = us\<rparr> (em_pending m)\<rparr> \<and>
         (\<forall>h'. a \<le> h' \<and> (\<forall>k \<in> fmdom' (em_pending m). a \<le> k) \<longrightarrow> em_active (fst (apply_height h' m')) = us)) \<and>
    (\<forall>h. case apply_height h m of
       (m', None) \<Rightarrow> m' = m \<and> (\<forall>k \<in> fmdom' (em_pending m). h < k)
     | (m', Some u) \<Rightarrow> \<exists>k \<le> h. fmlookup (em_pending m) k = Some u \<and> (\<forall>j \<in> fmdom' (em_pending m). k \<le> j) \<and>
         m' = m\<lparr>em_pending := fmdrop k (em_pending m), em_active := vu_validators u\<rparr> \<and>
         vu_activation_height u = k \<and> unat (vu_requested_height u) + unat (activation_delay cfg) \<le> unat k)"
proof (intro conjI allI)
  have ok: "era_ok m" and cfg: "em_config m = cfg" using era_run_ok [OF assms] by auto
  show "set_valid (em_active m)" using ok by (simp add: era_ok_def)
  fix h us
  have "era_length (em_config m) \<noteq> 0" using ok by (simp add: era_ok_def)
  note outcome = era_schedule_outcome [OF this, where h = h and us = us, unfolded cfg]
  show "case era_schedule h us m of
       Inl _ \<Rightarrow> \<not> set_valid us \<or> 2 ^ 64 \<le> unat h + unat (activation_delay cfg)
     | Inr (m', a) \<Rightarrow> set_valid us \<and>
         unat a = min (2 ^ 64 - 1) (LEAST n. unat h + unat (activation_delay cfg) \<le> n \<and> unat (era_length cfg) dvd n) \<and>
         m' = m\<lparr>em_pending := fmupd a \<lparr>vu_requested_height = h, vu_activation_height = a, vu_validators = us\<rparr> (em_pending m)\<rparr> \<and>
         (\<forall>h'. a \<le> h' \<and> (\<forall>k \<in> fmdom' (em_pending m). a \<le> k) \<longrightarrow> em_active (fst (apply_height h' m')) = us)"
  proof (cases "era_schedule h us m")
    case (Inl e)
    then show ?thesis using outcome by simp
  next
    case (Inr r)
    obtain m' a where r: "r = (m', a)" by (cases r)
    have "em_active (fst (apply_height h' m')) = us" if "a \<le> h'" "\<forall>k \<in> fmdom' (em_pending m). a \<le> k" for h'
      using outcome Inr r scheduled_is_next [OF _ that(2,1), of m'] by simp
    then show ?thesis using outcome unfolding Inr r by simp
  qed
next
  fix h
  have "update_ok cfg k u" if "fmlookup (em_pending m) k = Some u" for k u
    using era_run_ok [OF assms] that by (auto simp: era_ok_def)
  then show "case apply_height h m of
       (m', None) \<Rightarrow> m' = m \<and> (\<forall>k \<in> fmdom' (em_pending m). h < k)
     | (m', Some u) \<Rightarrow> \<exists>k \<le> h. fmlookup (em_pending m) k = Some u \<and> (\<forall>j \<in> fmdom' (em_pending m). k \<le> j) \<and>
         m' = m\<lparr>em_pending := fmdrop k (em_pending m), em_active := vu_validators u\<rparr> \<and>
         vu_activation_height u = k \<and> unat (vu_requested_height u) + unat (activation_delay cfg) \<le> unat k"
    using apply_height_outcome [where h = h and m = m] by (auto simp: update_ok_def split: prod.splits option.splits)
qed

definition sample_era_set :: "validator list" where
  "sample_era_set = map (\<lambda>n. \<lparr>val_id = n, val_voting_power = 100\<rparr>) [''a'', ''b'', ''c'', ''d'']"

definition sample_next_set :: "validator list" where
  "sample_next_set = map (\<lambda>n. \<lparr>val_id = n, val_voting_power = 50\<rparr>) [''e'', ''f'', ''g'', ''h'', ''i'']"

definition sample_era_config :: era_config where
  "sample_era_config = \<lparr>era_length = 100, activation_delay = 25\<rparr>"

text \<open>A set requested at height 90 is pending for 200, is not active at 199 and is at 200.\<close>
theorem era_activation_witness:
  "\<exists>m m'. era_run sample_era_config sample_era_set m \<and> era_schedule 90 sample_next_set m = Ok (m', 200) \<and>
     apply_height 199 m' = (m', None) \<and> em_active m' = sample_era_set \<and>
     em_active (fst (apply_height 200 m')) = sample_next_set"
proof -
  let ?m = "\<lparr>em_config = sample_era_config, em_active = sample_era_set, em_pending = fmempty\<rparr>"
  let ?m' = "?m\<lparr>em_pending := fmupd 200 \<lparr>vu_requested_height = 90, vu_activation_height = 200, vu_validators = sample_next_set\<rparr> fmempty\<rparr>"
  have "era_new sample_era_config sample_era_set = Ok ?m"
    by (simp add: era_new_def validate_set_def sample_era_set_def sample_era_config_def)
  then have r: "era_run sample_era_config sample_era_set ?m" by (rule era_run.start)
  have s: "era_schedule 90 sample_next_set ?m = Ok (?m', 200)"
  proof -
    have c: "checked_add (90 :: u64) 25 = Some 115" by (simp add: checked_add_def)
    have a: "saturating_mul (div_ceil (115 :: u64) 100) 100 = 200" by (simp add: saturating_mul_def div_ceil_def)
    have v: "validate_set sample_next_set = Ok ()" by (simp add: validate_set_def sample_next_set_def)
    show ?thesis by (simp add: era_schedule_def sample_era_config_def c a v)
  qed
  have "em_active (fst (apply_height 200 ?m')) = sample_next_set"
    using era_activation [OF r, THEN conjunct2, THEN conjunct1, THEN spec [of _ 90], THEN spec [of _ sample_next_set]] s by simp
  moreover have "apply_height 199 ?m' = (?m', None)"
    by (simp add: apply_height_def sorted_list_of_fset.rep_eq)
  ultimately show ?thesis using r s by (intro exI [of _ ?m] exI [of _ ?m'] conjI) simp_all
qed

end
