(* ===== verification/Json_Lines.thy ===== *)
theory Json_Lines
  imports Prelude
begin

text \<open>
  Append-only files with one JSON record per line, as the vote log, the evidence store, the finality
  store and the block archive keep them. A file is its contents, absent before the first write; the
  encoder and the decoder of a record belong to another crate and are parameters. An append either
  completes or fails after some prefix of the line has reached the file; a failure to open the file is
  the empty prefix, a failed \<open>sync_data\<close> the whole line. (A file that was created but not written to
  reads back like an absent one.)

  The lemmas show that the lines of a file of whole records are the encodings of the records.
\<close>

text \<open>\<open>str::lines\<close>: split at newlines, drop a final carriage return of a line, no empty last line.\<close>

definition strip_cr :: "string \<Rightarrow> string" where
  "strip_cr s = (if s \<noteq> [] \<and> last s = CHR 0x0D then butlast s else s)"

fun split_lines :: "string \<Rightarrow> string \<Rightarrow> string list" where
  "split_lines acc [] = (if acc = [] then [] else [acc])"
| "split_lines acc (c # s) =
     (if c = CHR 0x0A then strip_cr acc # split_lines [] s else split_lines (acc @ [c]) s)"

datatype append_io = Appended | AppendFailed nat

definition append_line :: "append_io \<Rightarrow> string \<Rightarrow> string option \<Rightarrow> string option" where
  "append_line io line file =
     (let old = (case file of None \<Rightarrow> [] | Some contents \<Rightarrow> contents); new = line @ [CHR 0x0A] in
      case io of
        Appended \<Rightarrow> Some (old @ new)
      | AppendFailed n \<Rightarrow> if n = 0 then file else Some (old @ take n new))"

definition append_result :: "append_io \<Rightarrow> 'e \<Rightarrow> ('a, 'e) result \<Rightarrow> ('a, 'e) result" where
  "append_result io e r = (case io of Appended \<Rightarrow> r | AppendFailed _ \<Rightarrow> Err e)"

subsection \<open>Lemmas\<close>

text \<open>What \<open>serde_json\<close> promises of one record: its line decodes to it and has no line break in it.\<close>

definition json_line :: "('a \<Rightarrow> string) \<Rightarrow> (string \<Rightarrow> 'a option) \<Rightarrow> 'a \<Rightarrow> bool" where
  "json_line encode decode m \<longleftrightarrow>
     decode (encode m) = Some m \<and> \<not> is_blank (encode m) \<and> CHR 0x0A \<notin> set (encode m) \<and> CHR 0x0D \<notin> set (encode m)"

definition lines_contents :: "('a \<Rightarrow> string) \<Rightarrow> 'a list \<Rightarrow> string" where
  "lines_contents encode ms = concat (map (\<lambda>m. encode m @ [CHR 0x0A]) ms)"

definition lines_file :: "('a \<Rightarrow> string) \<Rightarrow> 'a list \<Rightarrow> string option" where
  "lines_file encode ms = (if ms = [] then None else Some (lines_contents encode ms))"

lemma split_lines_append:
  "CHR 0x0A \<notin> set s \<Longrightarrow> split_lines acc (s @ CHR 0x0A # r) = strip_cr (acc @ s) # split_lines [] r"
  by (induction s arbitrary: acc) auto

lemma strip_cr_id: "CHR 0x0D \<notin> set s \<Longrightarrow> strip_cr s = s"
  by (metis last_in_set strip_cr_def)

lemma split_lines_contents:
  "\<forall>m \<in> set ms. json_line encode decode m \<Longrightarrow> split_lines [] (lines_contents encode ms) = map encode ms"
  by (induction ms) (simp_all add: lines_contents_def split_lines_append json_line_def strip_cr_id)

lemma append_line_file:
  "append_line Appended (encode m) (lines_file encode ms) = lines_file encode (ms @ [m])"
  by (simp add: append_line_def lines_file_def lines_contents_def)

lemma lines_file_Nil [simp]: "lines_file encode [] = None"
  by (simp add: lines_file_def)

lemma append_line_none [simp]: "append_line (AppendFailed 0) line file = file"
  by (simp add: append_line_def)

end
