(* ===== verification/Consensus_Wal.thy ===== *)
theory Consensus_Wal
  imports Json_Lines Consensus_Lemmas Sample
begin

text \<open>
  The write-ahead log of a validator's own votes (\<open>src/consensus_wal.rs\<close>). The file and its appends
  are those of \<open>Json_Lines\<close>; a failure to create the directory is an append that wrote nothing. Whether
  \<open>read_to_string\<close> can read the file is an argument of \<open>wal_reload\<close> and \<open>wal_open\<close>.

  The lemmas show that a log all of whose appends were whole or wrote nothing, read back, gives the table
  in memory; that a log with torn or unsynchronised lines, read back, either is refused or gives a table
  with every vote that was cleared for broadcast; and that an unreadable file is taken for an empty one.
\<close>

datatype wal_error =
    WalVerify consensus_error | WalDoubleVote | WalIo | WalBadLine | WalHistoryDoubleVote

type_synonym wal_key = "u64 \<times> u32 \<times> vote_type"

record consensus_wal =
  wal_file :: "string option"
  wal_signed :: "(wal_key, string) fmap"

definition wal_key :: "consensus_message \<Rightarrow> wal_key" where
  "wal_key m = (msg_height m, msg_round m, msg_vote_type m)"

definition reload_line ::
  "externals \<Rightarrow> (string \<Rightarrow> consensus_message option) \<Rightarrow> string \<Rightarrow> (wal_key, string) fmap
     \<Rightarrow> ((wal_key, string) fmap, wal_error) result" where
  "reload_line X decode line table =
     (if is_blank line then Ok table
      else
        and_then (ok_or (decode line) WalBadLine) (\<lambda>m.
        and_then (map_err WalVerify (vote_verify X m)) (\<lambda>_.
        if (case fmlookup table (wal_key m) of None \<Rightarrow> False | Some previous \<Rightarrow> previous \<noteq> msg_block_hash m)
        then Err WalHistoryDoubleVote
        else Ok (fmupd (wal_key m) (msg_block_hash m) table))))"

definition wal_reload ::
  "externals \<Rightarrow> (string \<Rightarrow> consensus_message option) \<Rightarrow> bool \<Rightarrow> consensus_wal
     \<Rightarrow> (consensus_wal, wal_error) result" where
  "wal_reload X decode readable w =
     (case (if readable then wal_file w else None) of
        None \<Rightarrow> Ok w
      | Some contents \<Rightarrow>
        and_then (for_each (reload_line X decode) (split_lines [] contents) (wal_signed w)) (\<lambda>table.
        Ok (w\<lparr>wal_signed := table\<rparr>)))"

definition wal_open ::
  "externals \<Rightarrow> (string \<Rightarrow> consensus_message option) \<Rightarrow> bool \<Rightarrow> string option
     \<Rightarrow> (consensus_wal, wal_error) result" where
  "wal_open X decode readable path = wal_reload X decode readable \<lparr>wal_file = path, wal_signed = fmempty\<rparr>"

definition record_before_broadcast ::
  "externals \<Rightarrow> (consensus_message \<Rightarrow> string) \<Rightarrow> append_io \<Rightarrow> consensus_message \<Rightarrow> consensus_wal
     \<Rightarrow> consensus_wal \<times> (unit, wal_error) result" where
  "record_before_broadcast X encode io m w =
     (case vote_verify X m of
        Inl e \<Rightarrow> (w, Err (WalVerify e))
      | Inr _ \<Rightarrow>
        (case fmlookup (wal_signed w) (wal_key m) of
           Some previous \<Rightarrow> if previous \<noteq> msg_block_hash m then (w, Err WalDoubleVote) else (w, Ok ())
         | None \<Rightarrow>
           let w1 = w\<lparr>wal_file := append_line io (encode m) (wal_file w)\<rparr> in
           case io of
             AppendFailed _ \<Rightarrow> (w1, Err WalIo)
           | Appended \<Rightarrow> (w1\<lparr>wal_signed := fmupd (wal_key m) (msg_block_hash m) (wal_signed w)\<rparr>, Ok ())))"

subsection \<open>Lemmas\<close>

text \<open>The table that a log of consistent votes stands for.\<close>

definition wal_table :: "consensus_message list \<Rightarrow> (wal_key, string) fmap" where
  "wal_table ms = fold (\<lambda>m. fmupd (wal_key m) (msg_block_hash m)) ms fmempty"

lemma wal_table_snoc: "wal_table (ms @ [m]) = fmupd (wal_key m) (msg_block_hash m) (wal_table ms)"
  by (simp add: wal_table_def)

definition log_ok :: "externals \<Rightarrow> consensus_message list \<Rightarrow> bool" where
  "log_ok X ms \<longleftrightarrow> (\<forall>m \<in> set ms. vote_verify X m = Ok ()) \<and> distinct (map wal_key ms)"

lemma wal_table_dom: "k |\<in>| fmdom (wal_table ms) \<longleftrightarrow> k \<in> wal_key ` set ms"
  by (induction ms rule: rev_induct) (auto simp: wal_table_snoc, simp add: wal_table_def)

lemma wal_table_None: "fmlookup (wal_table ms) k = None \<longleftrightarrow> k \<notin> wal_key ` set ms"
  using wal_table_dom [of k ms] by (simp add: fmdom_notD fmdom_notI flip: wal_table_dom) (metis fmdom_notD fmdom_notI)

lemma reload_lines:
  assumes "\<forall>m \<in> set ms. json_line encode decode m" and "log_ok X ms"
  shows "for_each (reload_line X decode) (map encode ms) fmempty = Ok (wal_table ms)"
  using assms
proof (induction ms rule: rev_induct)
  case (snoc m ms)
  then have "log_ok X ms" and m: "vote_verify X m = Ok ()" "wal_key m \<notin> wal_key ` set ms" "json_line encode decode m"
    by (auto simp: log_ok_def)
  then have "for_each (reload_line X decode) (map encode ms) fmempty = Ok (wal_table ms)"
    using snoc by simp
  moreover have "reload_line X decode (encode m) (wal_table ms) = Ok (wal_table (ms @ [m]))"
    using m by (simp add: reload_line_def json_line_def wal_table_None [THEN iffD2] wal_table_snoc)
  ultimately show ?case by (simp add: for_each_append)
qed (simp add: wal_table_def)

text \<open>
  The histories of one log: votes offered with any outcome of the disk, and restarts that read the file
  back. The list holds the votes that were cleared for broadcast. With \<open>torn\<close> a failed append may have
  left any part of its line in the file, the whole line of a failed \<open>sync_data\<close> included; without it a
  failed append has written nothing.
\<close>

inductive wal_run ::
  "externals \<Rightarrow> (consensus_message \<Rightarrow> string) \<Rightarrow> (string \<Rightarrow> consensus_message option) \<Rightarrow> bool \<Rightarrow> consensus_wal
     \<Rightarrow> consensus_message list \<Rightarrow> bool" for X encode decode torn where
  first: "wal_open X decode True None = Ok w \<Longrightarrow> wal_run X encode decode torn w []"
| cleared: "wal_run X encode decode torn w ms \<Longrightarrow> record_before_broadcast X encode io m w = (w', Ok ()) \<Longrightarrow>
    wal_run X encode decode torn w' (m # ms)"
| refused: "wal_run X encode decode torn w ms \<Longrightarrow> record_before_broadcast X encode io m w = (w', Err e) \<Longrightarrow>
    torn \<or> io = Appended \<or> io = AppendFailed 0 \<Longrightarrow> wal_run X encode decode torn w' ms"
| restart: "wal_run X encode decode torn w ms \<Longrightarrow> wal_open X decode True (wal_file w) = Ok w' \<Longrightarrow>
    wal_run X encode decode torn w' ms"

subsubsection \<open>Logs of whole lines\<close>

text \<open>The file lists the distinct votes behind the table, and every cleared vote is in the table.\<close>

definition wal_ok ::
  "externals \<Rightarrow> (consensus_message \<Rightarrow> string) \<Rightarrow> consensus_wal \<Rightarrow> consensus_message list \<Rightarrow> consensus_message list \<Rightarrow> bool" where
  "wal_ok X encode w ms log \<longleftrightarrow> log_ok X log \<and> set log \<subseteq> set ms \<and>
     wal_signed w = wal_table log \<and> wal_file w = lines_file encode log \<and>
     (\<forall>m \<in> set ms. fmlookup (wal_signed w) (wal_key m) = Some (msg_block_hash m))"

lemma wal_open_ok:
  assumes "wal_ok X encode w ms log" and "\<forall>m \<in> set ms. json_line encode decode m"
  shows "wal_open X decode True (wal_file w) = Ok w"
proof -
  have j: "\<forall>m \<in> set log. json_line encode decode m" using assms by (auto simp: wal_ok_def)
  have w: "w = \<lparr>wal_file = wal_file w, wal_signed = wal_table log\<rparr>" using assms(1) by (simp add: wal_ok_def)
  show ?thesis
  proof (cases "log = []")
    case True
    then show ?thesis using assms(1) w by (simp add: wal_ok_def wal_open_def wal_reload_def wal_table_def)
  next
    case False
    then have f: "wal_file w = Some (lines_contents encode log)" using assms(1) by (simp add: wal_ok_def lines_file_def)
    have "for_each (reload_line X decode) (map encode log) fmempty = Ok (wal_table log)"
      using reload_lines [OF j] assms(1) by (simp add: wal_ok_def)
    then show ?thesis using w f by (simp add: wal_open_def wal_reload_def split_lines_contents [OF j])
  qed
qed

lemma record_ok:
  assumes "wal_ok X encode w ms log" and "record_before_broadcast X encode io m w = (w', Ok ())"
  shows "\<exists>log'. wal_ok X encode w' (m # ms) log'"
proof (cases "fmlookup (wal_signed w) (wal_key m)")
  case (Some h)
  then have "w' = w \<and> h = msg_block_hash m"
    using assms(2) by (auto simp: record_before_broadcast_def split: sum.splits if_splits)
  then show ?thesis using assms(1) Some by (intro exI [of _ log]) (auto simp: wal_ok_def)
next
  case None
  then have v: "vote_verify X m = Ok ()" and s: "wal_signed w' = fmupd (wal_key m) (msg_block_hash m) (wal_signed w)"
    and f: "wal_file w' = append_line Appended (encode m) (wal_file w)"
    using assms(2) by (auto simp: record_before_broadcast_def Let_def split: sum.splits append_io.splits)
  have fresh: "wal_key m \<notin> wal_key ` set log"
    using None assms(1) by (simp add: wal_ok_def wal_table_None)
  have "wal_ok X encode w' (m # ms) (log @ [m])"
    using assms(1) v fresh None
    by (auto simp: wal_ok_def log_ok_def s f wal_table_snoc append_line_file)
  then show ?thesis by blast
qed

lemma refused_unchanged:
  "record_before_broadcast X encode io m w = (w', Err e) \<Longrightarrow> io = Appended \<or> io = AppendFailed 0 \<Longrightarrow> w' = w"
  by (auto simp: record_before_broadcast_def append_line_def Let_def split: sum.splits option.splits if_splits)

lemma wal_run_ok:
  "wal_run X encode decode False w ms \<Longrightarrow> \<forall>m \<in> set ms. json_line encode decode m \<Longrightarrow> \<exists>log. wal_ok X encode w ms log"
proof (induction rule: wal_run.induct)
  case (first w)
  then show ?case
    by (intro exI [of _ "[]"]) (auto simp: wal_ok_def log_ok_def wal_open_def wal_reload_def wal_table_def)
next
  case (cleared w ms io m w')
  then show ?case using record_ok by fastforce
next
  case (refused w ms io m w' e)
  then show ?case using refused_unchanged by blast
next
  case (restart w ms w')
  then obtain log where log: "wal_ok X encode w ms log" by blast
  with restart wal_open_ok [OF log] show ?case by auto
qed

subsubsection \<open>Logs with torn lines\<close>

text \<open>
  What \<open>serde_json\<close> promises of the records of this file, which are objects: a record starts with a
  brace and has no line break in it, and a text that decodes does not decode any more with another object
  begun behind it (characters after the value are an error). Of a single record it promises that it
  decodes to the vote, and that it does not close an object begun in front of it.
\<close>

definition json_objects :: "('a \<Rightarrow> string) \<Rightarrow> (string \<Rightarrow> 'a option) \<Rightarrow> bool" where
  "json_objects encode decode \<longleftrightarrow>
     (\<forall>m. \<exists>t. encode m = CHR ''{'' # t \<and> CHR 0x0A \<notin> set t \<and> CHR 0x0D \<notin> set t) \<and>
     (\<forall>s t. decode s \<noteq> None \<longrightarrow> decode (s @ CHR ''{'' # t) = None)"

definition json_record :: "('a \<Rightarrow> string) \<Rightarrow> (string \<Rightarrow> 'a option) \<Rightarrow> 'a \<Rightarrow> bool" where
  "json_record encode decode m \<longleftrightarrow>
     json_line encode decode m \<and> (\<forall>f. decode (CHR ''{'' # f @ encode m) = None)"

definition braced :: "string \<Rightarrow> bool" where
  "braced l \<longleftrightarrow> (\<exists>t. l = CHR ''{'' # t) \<and> CHR 0x0A \<notin> set l \<and> CHR 0x0D \<notin> set l"

lemma braced_not_blank: "braced l \<Longrightarrow> \<not> is_blank l"
proof -
  have "ws_width (123 # bs) = 0" for bs by (simp add: ws_width_def split: list.splits)
  then have "\<not> all_white (123 # bs)" for bs by (subst all_white.simps) simp
  then show "braced l \<Longrightarrow> \<not> is_blank l" by (auto simp: braced_def is_blank_def)
qed

lemma braced_ne [simp]: "\<not> braced []"
  by (simp add: braced_def)

lemma braced_append: "braced l \<Longrightarrow> r = [] \<or> braced r \<Longrightarrow> braced (l @ r)"
  by (auto simp: braced_def)

lemma braced_take: "braced l \<Longrightarrow> take n l = [] \<or> braced (take n l)"
  by (cases n) (auto simp: braced_def dest: in_set_takeD)

text \<open>
  The text of a log: whole lines and a rest without newline. Every entry of the table has a line that
  either decodes to it or makes the file unreadable; the rest is such a line when it starts with a text
  that decodes to the entry.
\<close>

definition log_text :: "string list \<Rightarrow> string \<Rightarrow> string" where
  "log_text ls rest = concat (map (\<lambda>l. l @ [CHR 0x0A]) ls) @ rest"

definition decodes_to :: "(string \<Rightarrow> consensus_message option) \<Rightarrow> string \<Rightarrow> wal_key \<Rightarrow> string \<Rightarrow> bool" where
  "decodes_to decode l k h \<longleftrightarrow> (\<exists>m. decode l = Some m \<and> wal_key m = k \<and> msg_block_hash m = h)"

definition entry_logged ::
  "(string \<Rightarrow> consensus_message option) \<Rightarrow> string list \<Rightarrow> string \<Rightarrow> wal_key \<Rightarrow> string \<Rightarrow> bool" where
  "entry_logged decode ls rest k h \<longleftrightarrow>
     (\<exists>l \<in> set ls. decode l = None \<or> decodes_to decode l k h) \<or>
     (\<exists>s t. rest = s @ t \<and> braced s \<and> (t = [] \<or> braced t) \<and> decodes_to decode s k h)"

definition wal_inv ::
  "(string \<Rightarrow> consensus_message option) \<Rightarrow> consensus_wal \<Rightarrow> consensus_message list \<Rightarrow> string list \<Rightarrow> string \<Rightarrow> bool" where
  "wal_inv decode w ms ls rest \<longleftrightarrow>
     (case wal_file w of None \<Rightarrow> [] | Some text \<Rightarrow> text) = log_text ls rest \<and>
     (\<forall>l \<in> set ls. braced l) \<and> (rest = [] \<or> braced rest) \<and>
     (\<forall>k h. fmlookup (wal_signed w) k = Some h \<longrightarrow> entry_logged decode ls rest k h) \<and>
     (\<forall>m \<in> set ms. fmlookup (wal_signed w) (wal_key m) = Some (msg_block_hash m))"

lemma split_log_text:
  assumes "\<forall>l \<in> set ls. braced l" and "rest = [] \<or> braced rest"
  shows "split_lines [] (log_text ls rest) = ls @ (if rest = [] then [] else [rest])"
proof -
  have rest: "split_lines acc r = (if acc @ r = [] then [] else [acc @ r])" if "CHR 0x0A \<notin> set r" for acc r
    using that by (induction r arbitrary: acc) auto
  have "CHR 0x0A \<notin> set rest" using assms(2) by (auto simp: braced_def)
  with assms(1) show ?thesis
    by (induction ls)
      (simp_all add: log_text_def rest split_lines_append braced_def strip_cr_id)
qed

lemma reload_table:
  "for_each (reload_line X decode) ls table = Ok table' \<Longrightarrow>
    (\<forall>k h. fmlookup table k = Some h \<longrightarrow> fmlookup table' k = Some h) \<and>
    (\<forall>l \<in> set ls. \<not> is_blank l \<longrightarrow>
      (\<exists>m. decode l = Some m \<and> fmlookup table' (wal_key m) = Some (msg_block_hash m))) \<and>
    (\<forall>k h. fmlookup table' k = Some h \<longrightarrow> fmlookup table k = Some h \<or> (\<exists>l \<in> set ls. decodes_to decode l k h))"
proof (induction ls arbitrary: table)
  case (Cons l ls)
  obtain t where l: "reload_line X decode l table = Ok t" and ls: "for_each (reload_line X decode) ls t = Ok table'"
    using Cons.prems by (auto split: sum.splits simp: and_then_def)
  note IH = Cons.IH [OF ls]
  show ?case
  proof (cases "is_blank l")
    case True
    then have "t = table" using l by (simp add: reload_line_def)
    then show ?thesis using IH True by (simp, blast)
  next
    case False
    then obtain m where m: "decode l = Some m" "t = fmupd (wal_key m) (msg_block_hash m) table"
      and same: "\<forall>h. fmlookup table (wal_key m) = Some h \<longrightarrow> h = msg_block_hash m"
      using l by (auto simp: reload_line_def and_then_def ok_or_def split: option.splits sum.splits if_splits)
    have "\<forall>k h. fmlookup table k = Some h \<longrightarrow> fmlookup t k = Some h" using m same by auto
    moreover have "fmlookup t (wal_key m) = Some (msg_block_hash m)" using m by simp
    moreover have "fmlookup table k = Some h \<or> decodes_to decode l k h" if "fmlookup t k = Some h" for k h
      using that m by (auto simp: decodes_to_def split: if_splits)
    ultimately show ?thesis using IH m(1) by (auto; metis)
  qed
qed auto

lemma wal_open_lines:
  "wal_open X decode True path = Ok w' \<Longrightarrow> wal_file w' = path \<and>
    for_each (reload_line X decode) (split_lines [] (case path of None \<Rightarrow> [] | Some text \<Rightarrow> text)) fmempty = Ok (wal_signed w')"
  by (auto simp: wal_open_def wal_reload_def and_then_def split: option.splits sum.splits)

lemma entry_reloaded:
  assumes logged: "entry_logged decode ls rest k h" and J: "json_objects encode decode"
    and lines: "\<forall>l \<in> set (ls @ (if rest = [] then [] else [rest])).
      \<exists>m. decode l = Some m \<and> fmlookup table (wal_key m) = Some (msg_block_hash m)"
  shows "fmlookup table k = Some h"
proof -
  have line: "fmlookup table k = Some h"
    if "l \<in> set (ls @ (if rest = [] then [] else [rest]))" "decode l = None \<or> decodes_to decode l k h" for l
    using lines that unfolding decodes_to_def by fastforce
  show ?thesis
  proof (cases "\<exists>l \<in> set ls. decode l = None \<or> decodes_to decode l k h")
    case True
    then show ?thesis using line by auto
  next
    case False
    then obtain s t where st: "rest = s @ t" "braced s" "t = [] \<or> braced t" "decodes_to decode s k h"
      using logged by (auto simp: entry_logged_def)
    have "decode rest = None \<or> decodes_to decode rest k h"
      using st J unfolding json_objects_def braced_def decodes_to_def by auto
    moreover have "rest \<noteq> []" using st(1,2) by auto
    ultimately show ?thesis using line [of rest] by simp
  qed
qed

lemma reopen_keeps:
  assumes inv: "wal_inv decode w ms ls rest" and J: "json_objects encode decode"
    and reopen: "wal_open X decode True (wal_file w) = Ok w'"
  shows "wal_inv decode w' ms ls rest"
proof -
  let ?L = "ls @ (if rest = [] then [] else [rest])"
  have braced: "\<forall>l \<in> set ls. braced l" "rest = [] \<or> braced rest" using inv by (auto simp: wal_inv_def)
  have L: "for_each (reload_line X decode) ?L fmempty = Ok (wal_signed w')" and same: "wal_file w' = wal_file w"
    using wal_open_lines [OF reopen] inv split_log_text [OF braced] by (auto simp: wal_inv_def)
  note table = reload_table [OF L]
  have "\<forall>l \<in> set ?L. \<not> is_blank l" using braced by (auto simp: braced_not_blank)
  with table have lines: "\<forall>l \<in> set ?L. \<exists>m. decode l = Some m \<and> fmlookup (wal_signed w') (wal_key m) = Some (msg_block_hash m)"
    by blast
  have "entry_logged decode ls rest k h" if look: "fmlookup (wal_signed w') k = Some h" for k h
  proof -
    obtain l where l: "l \<in> set ?L" "decodes_to decode l k h"
      using table [THEN conjunct2, THEN conjunct2, rule_format, OF look] by auto
    show ?thesis
    proof (cases "l \<in> set ls")
      case False
      then have "l = rest" "rest \<noteq> []" using l(1) by (auto split: if_splits)
      then show ?thesis using l(2) braced(2) unfolding entry_logged_def by (metis append_Nil2)
    qed (use l(2) in \<open>auto simp: entry_logged_def\<close>)
  qed
  moreover have "fmlookup (wal_signed w') (wal_key m) = Some (msg_block_hash m)" if "m \<in> set ms" for m
  proof -
    have "entry_logged decode ls rest (wal_key m) (msg_block_hash m)"
      using inv that unfolding wal_inv_def by blast
    from entry_reloaded [OF this J lines] show ?thesis .
  qed
  ultimately show ?thesis using inv same by (simp add: wal_inv_def)
qed

lemma entry_kept:
  assumes "entry_logged decode ls rest k h"
  shows "t = [] \<or> braced t \<Longrightarrow> entry_logged decode ls (rest @ t) k h"
    and "braced e \<Longrightarrow> json_objects encode decode \<Longrightarrow> entry_logged decode (ls @ [rest @ e]) [] k h"
proof -
  consider (line) l where "l \<in> set ls" "decode l = None \<or> decodes_to decode l k h"
    | (rest) s r where "rest = s @ r" "braced s" "r = [] \<or> braced r" "decodes_to decode s k h"
    using assms by (auto simp: entry_logged_def)
  note cases = this
  show "entry_logged decode ls (rest @ t) k h" if t: "t = [] \<or> braced t"
  proof (cases rule: cases)
    case (rest s r)
    then have "rest @ t = s @ (r @ t)" "r @ t = [] \<or> braced (r @ t)" using t braced_append by auto
    with rest show ?thesis unfolding entry_logged_def by blast
  qed (auto simp: entry_logged_def)
  show "entry_logged decode (ls @ [rest @ e]) [] k h" if e: "braced e" and J: "json_objects encode decode"
  proof (cases rule: cases)
    case (rest s r)
    have "braced (r @ e)" using rest(3) e braced_append by auto
    then obtain t where "r @ e = CHR ''{'' # t" by (auto simp: braced_def)
    then have "decode (rest @ e) = None" using J rest by (auto simp: json_objects_def decodes_to_def)
    then show ?thesis by (auto simp: entry_logged_def)
  qed (auto simp: entry_logged_def)
qed

lemma encode_braced: "json_objects encode decode \<Longrightarrow> braced (encode m)"
proof -
  assume "json_objects encode decode"
  then obtain t where "encode m = CHR ''{'' # t" "CHR 0x0A \<notin> set t" "CHR 0x0D \<notin> set t"
    unfolding json_objects_def by blast
  then show "braced (encode m)" by (simp add: braced_def)
qed

lemma whole_line_keeps:
  assumes inv: "wal_inv decode w ms ls rest" and J: "json_objects encode decode"
    and text': "(case wal_file w' of None \<Rightarrow> [] | Some text \<Rightarrow> text) =
      (case wal_file w of None \<Rightarrow> [] | Some text \<Rightarrow> text) @ encode m @ [CHR 0x0A]"
    and table: "wal_signed w' = wal_signed w"
  shows "wal_inv decode w' ms (ls @ [rest @ encode m]) []"
proof -
  have e: "braced (encode m)" by (rule encode_braced [OF J])
  have "braced (rest @ encode m)" using inv e braced_append by (auto simp: wal_inv_def)
  then show ?thesis
    using inv text' table entry_kept(2) [OF _ e J] by (auto simp: wal_inv_def log_text_def)
qed

lemma refused_keeps:
  assumes inv: "wal_inv decode w ms ls rest" and J: "json_objects encode decode"
    and refused: "record_before_broadcast X encode io m w = (w', Err e)"
  shows "\<exists>ls' rest'. wal_inv decode w' ms ls' rest'"
proof (cases "w' = w")
  case False
  then obtain n where table: "wal_signed w' = wal_signed w"
    and appended: "wal_file w' = append_line (AppendFailed n) (encode m) (wal_file w)"
    using refused by (auto simp: record_before_broadcast_def Let_def split: sum.splits option.splits append_io.splits if_splits)
  have text': "(case wal_file w' of None \<Rightarrow> [] | Some text \<Rightarrow> text) =
      (case wal_file w of None \<Rightarrow> [] | Some text \<Rightarrow> text) @ take n (encode m @ [CHR 0x0A])"
    by (simp add: appended append_line_def Let_def)
  show ?thesis
  proof (cases "n \<le> length (encode m)")
    case True
    then have t: "take n (encode m @ [CHR 0x0A]) = take n (encode m)" by simp
    have b: "take n (encode m) = [] \<or> braced (take n (encode m))" by (rule braced_take [OF encode_braced [OF J]])
    have "rest @ take n (encode m) = [] \<or> braced (rest @ take n (encode m))"
      using inv b braced_append by (auto simp: wal_inv_def)
    then have "wal_inv decode w' ms ls (rest @ take n (encode m))"
      using inv text' table t entry_kept(1) [OF _ b] by (simp add: wal_inv_def log_text_def)
    then show ?thesis by blast
  next
    case False
    then show ?thesis using whole_line_keeps [OF inv J _ table] text' by auto
  qed
qed (use inv in blast)

lemma cleared_keeps:
  assumes inv: "wal_inv decode w ms ls rest" and J: "json_objects encode decode" and R: "json_record encode decode m"
    and cleared: "record_before_broadcast X encode io m w = (w', Ok ())"
  shows "\<exists>ls' rest'. wal_inv decode w' (m # ms) ls' rest'"
proof (cases "fmlookup (wal_signed w) (wal_key m)")
  case (Some h)
  then have "w' = w \<and> h = msg_block_hash m"
    using cleared by (auto simp: record_before_broadcast_def split: sum.splits if_splits)
  then show ?thesis using inv Some by (auto simp: wal_inv_def)
next
  case None
  then have table: "wal_signed w' = fmupd (wal_key m) (msg_block_hash m) (wal_signed w)"
    and appended: "wal_file w' = append_line Appended (encode m) (wal_file w)"
    using cleared by (auto simp: record_before_broadcast_def Let_def split: sum.splits append_io.splits)
  have kept: "wal_inv decode (w\<lparr>wal_file := wal_file w'\<rparr>) ms (ls @ [rest @ encode m]) []"
    by (rule whole_line_keeps [OF inv J]) (simp_all add: appended append_line_def Let_def)
  have "decode (rest @ encode m) = None \<or> decodes_to decode (rest @ encode m) (wal_key m) (msg_block_hash m)"
    using inv R by (auto simp: wal_inv_def braced_def json_record_def json_line_def decodes_to_def)
  then have "entry_logged decode (ls @ [rest @ encode m]) [] (wal_key m) (msg_block_hash m)"
    by (auto simp: entry_logged_def)
  then have "wal_inv decode w' (m # ms) (ls @ [rest @ encode m]) []"
    using kept table None by (auto simp: wal_inv_def split: if_splits)
  then show ?thesis by blast
qed

lemma wal_run_inv:
  "wal_run X encode decode torn w ms \<Longrightarrow> \<forall>m \<in> set ms. json_record encode decode m \<Longrightarrow>
    json_objects encode decode \<Longrightarrow> \<exists>ls rest. wal_inv decode w ms ls rest"
proof (induction rule: wal_run.induct)
  case (first w)
  then have "w = \<lparr>wal_file = None, wal_signed = fmempty\<rparr>" by (simp add: wal_open_def wal_reload_def)
  then show ?case by (intro exI [of _ "[]"]) (simp add: wal_inv_def log_text_def)
qed (use cleared_keeps refused_keeps reopen_keeps in \<open>(fastforce | blast)+\<close>)

subsection \<open>Properties\<close>

text \<open>
  C16: let a log start on an absent file, be offered any votes, with any outcome of each append (nothing,
  a part of the line or all of it written before an error), and be reopened any number of times with a
  file that can be read, where the encoder and decoder of the lines behave as \<open>serde_json\<close> does on
  objects. Then the log never clears two different votes of one kind for a height and round, and the next
  opening that reads the file either fails, which happens only after a failed append has written
  something, or has every cleared vote in its table, which is exactly the table in memory when failed
  appends wrote nothing.
\<close>
theorem wal_no_double_sign:
  assumes "wal_run X encode decode torn w ms" and "\<forall>m \<in> set ms. json_record encode decode m"
    and "json_objects encode decode"
  shows "(\<forall>m \<in> set ms. \<forall>m' \<in> set ms. wal_key m = wal_key m' \<longrightarrow> msg_block_hash m = msg_block_hash m') \<and>
    (case wal_open X decode True (wal_file w) of
       Inl _ \<Rightarrow> torn
     | Inr w' \<Rightarrow> (\<forall>m \<in> set ms. fmlookup (wal_signed w') (wal_key m) = Some (msg_block_hash m)) \<and>
         (\<not> torn \<longrightarrow> w' = w))"
proof -
  obtain ls rest where inv: "wal_inv decode w ms ls rest" using wal_run_inv [OF assms] by blast
  have once: "\<forall>m \<in> set ms. \<forall>m' \<in> set ms. wal_key m = wal_key m' \<longrightarrow> msg_block_hash m = msg_block_hash m'"
    using inv unfolding wal_inv_def by (metis option.inject)
  have keeps: "\<forall>m \<in> set ms. fmlookup (wal_signed w') (wal_key m) = Some (msg_block_hash m)"
    if "wal_open X decode True (wal_file w) = Ok w'" for w'
    using reopen_keeps [OF inv assms(3) that] by (simp add: wal_inv_def)
  have exact: "wal_open X decode True (wal_file w) = Ok w" if clean: "\<not> torn"
  proof -
    have json: "\<forall>m \<in> set ms. json_line encode decode m" using assms(2) by (simp add: json_record_def)
    have "wal_run X encode decode False w ms" using clean assms(1) by simp
    then obtain log where "wal_ok X encode w ms log" using wal_run_ok [OF _ json] by blast
    from wal_open_ok [OF this json] show ?thesis .
  qed
  show ?thesis
  proof (cases "wal_open X decode True (wal_file w)")
    case (Inl e)
    then have torn using exact by auto
    with once show ?thesis unfolding Inl sum.case by blast
  next
    case (Inr w')
    then have "\<not> torn \<longrightarrow> w' = w" using exact by auto
    with once keeps [OF Inr] show ?thesis unfolding Inr sum.case by blast
  qed
qed

definition sample_wal_vote :: consensus_message where
  "sample_wal_vote = \<lparr>msg_height = 1, msg_round = 0, msg_validator_id = ''val'', msg_vote_type = Prevote,
     msg_block_hash = ''h'', msg_signature = ''xy''\<rparr>"

definition sample_wal_encode :: "consensus_message \<Rightarrow> string" where
  "sample_wal_encode m = ''{v''"

definition sample_wal_decode :: "string \<Rightarrow> consensus_message option" where
  "sample_wal_decode s = (if s = ''{v'' then Some sample_wal_vote else None)"

lemma sample_wal_objects: "json_objects sample_wal_encode sample_wal_decode"
  by (auto simp: json_objects_def sample_wal_encode_def sample_wal_decode_def)

lemma sample_wal_record: "json_record sample_wal_encode sample_wal_decode sample_wal_vote"
  using braced_not_blank [of "''{v''"]
  by (auto simp: json_record_def json_line_def sample_wal_encode_def sample_wal_decode_def braced_def)

lemma sample_wal_verified: "vote_verify permissive_externals (sample_wal_vote\<lparr>msg_round := r\<rparr>) = Ok ()"
  by (simp add: vote_verify_def sample_wal_vote_def permissive_signature)

text \<open>A vote is cleared and a second one leaves a torn line behind it.\<close>
theorem wal_no_double_sign_witness:
  "\<exists>w. wal_run permissive_externals sample_wal_encode sample_wal_decode True w [sample_wal_vote] \<and>
     wal_file w = Some (''{v'' @ [CHR 0x0A] @ ''{'') \<and>
     (\<forall>w'. wal_open permissive_externals sample_wal_decode True (wal_file w) = Ok w' \<longrightarrow>
       fmlookup (wal_signed w') (wal_key sample_wal_vote) = Some ''h'')"
proof -
  let ?X = permissive_externals and ?e = sample_wal_encode and ?d = sample_wal_decode and ?v = sample_wal_vote
  let ?w0 = "\<lparr>wal_file = None, wal_signed = fmempty\<rparr>"
  let ?w1 = "\<lparr>wal_file = Some (''{v'' @ [CHR 0x0A]), wal_signed = fmupd (wal_key ?v) ''h'' fmempty\<rparr>"
  let ?w2 = "?w1\<lparr>wal_file := Some (''{v'' @ [CHR 0x0A] @ ''{'')\<rparr>"
  have v: "vote_verify ?X ?v = Ok ()" using sample_wal_verified [of "msg_round ?v"] by simp
  have "wal_run ?X ?e ?d True ?w0 []"
    by (rule wal_run.first) (simp add: wal_open_def wal_reload_def)
  moreover have "record_before_broadcast ?X ?e Appended ?v ?w0 = (?w1, Ok ())"
    by (simp add: record_before_broadcast_def v append_line_def sample_wal_encode_def) (simp add: sample_wal_vote_def)
  ultimately have one: "wal_run ?X ?e ?d True ?w1 [?v]" by (rule wal_run.cleared)
  have k: "fmlookup (wal_signed ?w1) (wal_key (?v\<lparr>msg_round := 1\<rparr>)) = None"
    by (simp add: wal_key_def sample_wal_vote_def)
  have "record_before_broadcast ?X ?e (AppendFailed 1) (?v\<lparr>msg_round := 1\<rparr>) ?w1 = (?w2, Err WalIo)"
    using k by (simp add: record_before_broadcast_def sample_wal_verified append_line_def sample_wal_encode_def)
  then have two: "wal_run ?X ?e ?d True ?w2 [?v]" by (rule wal_run.refused [OF one]) simp
  show ?thesis
    using wal_no_double_sign [OF two _ sample_wal_objects] sample_wal_record two
    by (intro exI [of _ ?w2]) (auto simp: sample_wal_vote_def)
qed

text \<open>
  A file that cannot be read is taken for an empty one: the log forgets every vote, and clears a vote for
  another block of a height and round it has already cleared one for.
\<close>
theorem unreadable_log_forgets:
  assumes "record_before_broadcast X encode Appended m w = (w', Ok ())" and "vote_verify X m' = Ok ()"
  shows "\<exists>w1 w2. wal_open X decode False (wal_file w') = Ok w1 \<and>
    record_before_broadcast X encode Appended m' w1 = (w2, Ok ())"
  using assms(2) by (simp add: wal_open_def wal_reload_def record_before_broadcast_def Let_def)

text \<open>
  A vote whose line was written but not synchronised is not cleared and not in the table, so that a vote
  for another block is cleared afterwards; the file then lists both, and the log does not open any more.
\<close>
theorem unsynced_vote_blocks_restart:
  assumes "wal_open X decode True None = Ok w" and "vote_verify X m = Ok ()" and "vote_verify X m' = Ok ()"
    and "wal_key m = wal_key m'" and "msg_block_hash m \<noteq> msg_block_hash m'"
    and json: "json_line encode decode m" "json_line encode decode m'"
    and n: "length (encode m) < n"
    and first: "record_before_broadcast X encode (AppendFailed n) m w = (w1, r1)"
    and second: "record_before_broadcast X encode Appended m' w1 = (w2, r2)"
  shows "r1 = Err WalIo \<and> r2 = Ok () \<and> wal_open X decode True (wal_file w2) = Err WalHistoryDoubleVote"
proof -
  have w: "w = \<lparr>wal_file = None, wal_signed = fmempty\<rparr>" using assms(1) by (simp add: wal_open_def wal_reload_def)
  have 1: "w1 = \<lparr>wal_file = lines_file encode [m], wal_signed = fmempty\<rparr>" "r1 = Err WalIo"
    using first n assms(2) by (auto simp: w record_before_broadcast_def append_line_def lines_file_def lines_contents_def)
  then have 2: "wal_file w2 = lines_file encode [m, m']" "r2 = Ok ()"
    using second assms(3) by (auto simp: record_before_broadcast_def Let_def append_line_file)
  have "split_lines [] (lines_contents encode [m, m']) = [encode m, encode m']"
    using split_lines_contents [of "[m, m']"] json by simp
  then show ?thesis
    using 1 2 assms(2-5) json
    by (simp add: wal_open_def wal_reload_def lines_file_def reload_line_def json_line_def and_then_def)
qed

end
