(* ===== verification/Governance.thy ===== *)
theory Governance
  imports Quorum Iterators
begin

text \<open>
  Participation policy and monthly votes on it (\<open>src/governance.rs\<close>). \<open>finalize\<close> walks the values of a
  \<open>HashMap\<close> in an unspecified order, so the order is an argument of the model; the theorem shows that
  it does not matter.
\<close>

datatype governance_error = BadRewardSplit | EpochNotOver | UnregisteredValidator

definition MONTH_SECONDS :: u64 where
  "MONTH_SECONDS = 30 * 24 * 60 * 60"

record reward_split =
  rs_validator_bps :: u16
  rs_participant_bps :: u16
  rs_treasury_bps :: u16

definition reward_split_validate :: "reward_split \<Rightarrow> (unit, governance_error) result" where
  "reward_split_validate r =
     ensure ((ucast (rs_validator_bps r) + ucast (rs_participant_bps r) + ucast (rs_treasury_bps r) :: u32) = 10000)
       BadRewardSplit"

record participation_policy =
  pp_target_active_nodes :: u32
  pp_minimum_uptime_bps :: u16
  pp_reward_per_block :: u64
  pp_reward_split :: reward_split

definition adjusted_reward :: "participation_policy \<Rightarrow> u32 \<Rightarrow> u64" where
  "adjusted_reward p active_nodes =
     (let target = ucast (max (pp_target_active_nodes p) 1) :: u128;
          active = ucast (max active_nodes 1) :: u128;
          ratio_bps = min (max (target * 10000 div active) 8750) 11250
      in ucast (ucast (pp_reward_per_block p) * ratio_bps div 10000))"

record governance =
  gov_epoch_started_at :: u64
  gov_voting_power :: "(string, u64) fmap"
  gov_votes :: "(string, participation_policy \<times> u64) fmap"

definition governance_new :: "u64 \<Rightarrow> (string \<times> u64) list \<Rightarrow> governance" where
  "governance_new epoch_started_at validators =
     \<lparr>gov_epoch_started_at = epoch_started_at, gov_voting_power = collect_map validators, gov_votes = fmempty\<rparr>"

definition governance_vote ::
  "u64 \<Rightarrow> string \<Rightarrow> participation_policy \<Rightarrow> governance \<Rightarrow> (governance, governance_error) result" where
  "governance_vote now validator proposal g =
     and_then (ensure (\<not> now < gov_epoch_started_at g + MONTH_SECONDS) EpochNotOver) (\<lambda>_.
     and_then (reward_split_validate (pp_reward_split proposal)) (\<lambda>_.
     and_then (ok_or (fmlookup (gov_voting_power g) validator) UnregisteredValidator) (\<lambda>power.
     Ok (g\<lparr>gov_votes := fmupd validator (proposal, power) (gov_votes g)\<rparr>))))"

fun add_candidate ::
  "participation_policy \<Rightarrow> u64 \<Rightarrow> (participation_policy \<times> u64) list \<Rightarrow> (participation_policy \<times> u64) list" where
  "add_candidate p w [] = [(p, w)]"
| "add_candidate p w ((q, s) # cs) = (if q = p then (q, s + w) # cs else (q, s) # add_candidate p w cs)"

text \<open>The argument lists the voters in the order in which the map yields their votes.\<close>

definition governance_finalize :: "string list \<Rightarrow> governance \<Rightarrow> participation_policy option" where
  "governance_finalize order g =
     (let total_power = wrapping_sum (map snd (fm_entries (gov_voting_power g)));
          candidates = fold (\<lambda>v. case fmlookup (gov_votes g) v of
              None \<Rightarrow> id | Some (policy, w) \<Rightarrow> add_candidate policy w) order []
      in map_option fst (find (\<lambda>(_, w). saturating_mul w 3 > saturating_mul total_power 2) candidates))"

subsection \<open>Lemmas\<close>

text \<open>The voters for a policy.\<close>

definition supporters :: "governance \<Rightarrow> participation_policy \<Rightarrow> string set" where
  "supporters g p = {v. \<exists>w. fmlookup (gov_votes g) v = Some (p, w)}"

text \<open>Every recorded vote carries the registered power of its voter.\<close>

definition votes_registered :: "governance \<Rightarrow> bool" where
  "votes_registered g \<longleftrightarrow> (\<forall>v p w. fmlookup (gov_votes g) v = Some (p, w) \<longrightarrow> fmlookup (gov_voting_power g) v = Some w)"

inductive governance_run :: "governance \<Rightarrow> bool" where
  start: "governance_run (governance_new t vs)"
| vote: "governance_run g \<Longrightarrow> governance_vote now v p g = Ok g' \<Longrightarrow> governance_run g'"

lemma governance_vote_Ok:
  assumes "governance_vote now v p g = Ok g'"
  obtains w where "fmlookup (gov_voting_power g) v = Some w" "gov_votes g' = fmupd v (p, w) (gov_votes g)"
    "gov_voting_power g' = gov_voting_power g" "reward_split_validate (pp_reward_split p) = Ok ()"
  using assms by (auto simp: governance_vote_def result_simps)

lemma governance_run_registered:
  "governance_run g \<Longrightarrow> votes_registered g \<and>
     (\<forall>v p w. fmlookup (gov_votes g) v = Some (p, w) \<longrightarrow> reward_split_validate (pp_reward_split p) = Ok ())"
proof (induction rule: governance_run.induct)
  case (start t vs)
  then show ?case by (simp add: votes_registered_def governance_new_def)
next
  case (vote g now v p g')
  from vote.hyps(2) obtain w where "fmlookup (gov_voting_power g) v = Some w" "gov_votes g' = fmupd v (p, w) (gov_votes g)"
    "gov_voting_power g' = gov_voting_power g" "reward_split_validate (pp_reward_split p) = Ok ()"
    by (rule governance_vote_Ok)
  with vote.IH show ?case by (auto simp: votes_registered_def)
qed

text \<open>The candidate table after a walk over some voters: each policy once, with the power of its voters.\<close>

definition power_of :: "(participation_policy \<times> u64) list \<Rightarrow> participation_policy \<Rightarrow> u64" where
  "power_of cs p = (case map_of cs p of None \<Rightarrow> 0 | Some w \<Rightarrow> w)"

lemma add_candidate_props:
  "fst ` set (add_candidate p w cs) = insert p (fst ` set cs)"
  "distinct (map fst cs) \<Longrightarrow> distinct (map fst (add_candidate p w cs))"
  "power_of (add_candidate p w cs) q = power_of cs q + (if q = p then w else 0)"
proof -
  show keys: "fst ` set (add_candidate p w cs) = insert p (fst ` set cs)" for cs
  proof (induction cs)
    case (Cons c cs)
    then show ?case by (cases c) (simp add: insert_commute)
  qed simp
  show "distinct (map fst cs) \<Longrightarrow> distinct (map fst (add_candidate p w cs))"
  proof (induction cs)
    case (Cons c cs)
    then show ?case using keys [of cs] by (cases c) auto
  qed simp
  show "power_of (add_candidate p w cs) q = power_of cs q + (if q = p then w else 0)"
    by (induction cs) (auto simp: power_of_def split: if_splits)
qed

definition tally :: "governance \<Rightarrow> string list \<Rightarrow> (participation_policy \<times> u64) list" where
  "tally g order = fold (\<lambda>v. case fmlookup (gov_votes g) v of
     None \<Rightarrow> id | Some (policy, w) \<Rightarrow> add_candidate policy w) order []"

lemma tally_snoc:
  "tally g (vs @ [v]) = (case fmlookup (gov_votes g) v of
     None \<Rightarrow> tally g vs | Some (policy, w) \<Rightarrow> add_candidate policy w (tally g vs))"
  by (simp add: tally_def split: option.splits prod.splits)

lemma tally_distinct: "distinct (map fst (tally g vs))"
  by (induction vs rule: rev_induct)
    (auto simp: tally_snoc add_candidate_props(2) split: option.splits, simp add: tally_def)

lemma tally_power:
  assumes "votes_registered g" and "fm_total (gov_voting_power g) < 2 ^ 64" and "distinct vs"
  shows "unat (power_of (tally g vs) p) = set_power (gov_voting_power g) (set vs \<inter> supporters g p)"
  using assms(3)
proof (induction vs rule: rev_induct)
  case Nil
  then show ?case by (simp add: tally_def power_of_def set_power_def)
next
  case (snoc v vs)
  let ?m = "gov_voting_power g" and ?S = "supporters g p"
  have IH: "unat (power_of (tally g vs) p) = set_power ?m (set vs \<inter> ?S)" using snoc by simp
  show ?case
  proof (cases "v \<in> ?S")
    case False
    then have "power_of (tally g (vs @ [v])) p = power_of (tally g vs) p"
      by (auto simp: tally_snoc supporters_def add_candidate_props(3) split: option.splits)
    moreover have "set (vs @ [v]) \<inter> ?S = set vs \<inter> ?S" using False by auto
    ultimately show ?thesis using IH by simp
  next
    case True
    then obtain w where w: "fmlookup (gov_votes g) v = Some (p, w)" by (auto simp: supporters_def)
    then have reg: "fmlookup ?m v = Some w" using assms(1) by (auto simp: votes_registered_def)
    have "insert v (set vs \<inter> ?S) \<inter> fmdom' ?m = insert v (set vs \<inter> ?S \<inter> fmdom' ?m)"
      using reg by (auto intro: fmdom'I)
    then have ins: "set_power ?m (insert v (set vs \<inter> ?S)) = set_power ?m (set vs \<inter> ?S) + unat w"
      using snoc.prems reg by (simp add: set_power_def get0_def)
    also have "\<dots> = unat (power_of (tally g vs) p) + unat w" using IH by simp
    finally have sum: "unat (power_of (tally g vs) p) + unat w < 2 ^ 64"
      using set_power_le [of ?m "insert v (set vs \<inter> ?S)"] assms(2) by linarith
    have "power_of (tally g (vs @ [v])) p = power_of (tally g vs) p + w"
      using w by (simp add: tally_snoc add_candidate_props(3))
    then have "unat (power_of (tally g (vs @ [v])) p) = set_power ?m (insert v (set vs \<inter> ?S))"
      using sum IH ins by (simp add: unat_word_ariths)
    moreover have "set (vs @ [v]) \<inter> ?S = insert v (set vs \<inter> ?S)" using True by auto
    ultimately show ?thesis by simp
  qed
qed

lemma governance_total:
  "fm_total m < 2 ^ 64 \<Longrightarrow> unat (wrapping_sum (map snd (fm_entries m))) = fm_total m" for m :: "(string, u64) fmap"
  using sum_list_fm_entries [of m] by (simp add: unat_wrapping_sum comp_def split_def)

lemma majority_saturating:
  fixes a b :: u64
  assumes "unat b * 2 < 2 ^ 64 - 1"
  shows "saturating_mul a 3 > saturating_mul b 2 \<longleftrightarrow> 2 * unat b < 3 * unat a"
  using assms by (auto simp: word_less_nat_alt unat_saturating_mul)

lemma two_thirds_disjoint:
  assumes "two_thirds m A" and "two_thirds m B"
  shows "A \<inter> B \<noteq> {}"
proof -
  have "two_thirds m (A \<inter> fmdom' m)" "two_thirds m (B \<inter> fmdom' m)"
    using assms by (simp_all add: two_thirds_def set_power_def)
  then have "fm_total m < 3 * (\<Sum>v \<in> A \<inter> fmdom' m \<inter> (B \<inter> fmdom' m). unat (get0 m v))"
    by (intro map_quorum.quorum_intersection) auto
  then show ?thesis by (metis (no_types, lifting) Int_assoc Int_commute Int_empty_right mult_0_right not_less_zero sum.empty)
qed

subsection \<open>Property\<close>

lemma finalize_tally:
  assumes "governance_run g" and "fm_total (gov_voting_power g) < 2 ^ 63"
    and "distinct order" and "set order = fmdom' (gov_votes g)"
  shows "saturating_mul (power_of (tally g order) p) 3 > saturating_mul (wrapping_sum (map snd (fm_entries (gov_voting_power g)))) 2
    \<longleftrightarrow> two_thirds (gov_voting_power g) (supporters g p)"
proof -
  have sub: "set order \<inter> supporters g p = supporters g p"
    using assms(4) by (auto simp: supporters_def intro: fmdom'I)
  have "unat (power_of (tally g order) p) = set_power (gov_voting_power g) (supporters g p)"
    using tally_power [of g order p] governance_run_registered [OF assms(1)] assms(2,3) sub by simp
  then show ?thesis
    using governance_total [of "gov_voting_power g"] assms(2) by (simp add: majority_saturating two_thirds_def)
qed

text \<open>
  A governance round adopts a policy exactly when the registered validators who last voted for it
  hold more than two thirds of the registered power, whatever order the vote table is walked in; so at
  most one policy can be adopted. The registered power must stay below \<open>2 ^ 63\<close>.
\<close>
theorem governance_finalize_majority:
  assumes "governance_run g" and "fm_total (gov_voting_power g) < 2 ^ 63"
    and "distinct order" and "set order = fmdom' (gov_votes g)"
  shows "governance_finalize order g = Some p \<longleftrightarrow> two_thirds (gov_voting_power g) (supporters g p)"
proof -
  let ?cs = "tally g order"
  let ?P = "\<lambda>(_, w). saturating_mul w 3 > saturating_mul (wrapping_sum (map snd (fm_entries (gov_voting_power g)))) 2"
  have F: "governance_finalize order g = map_option fst (find ?P ?cs)"
    by (simp add: governance_finalize_def Let_def tally_def)
  have mem: "(q, w) \<in> set ?cs \<Longrightarrow> power_of ?cs q = w" for q w
    by (simp add: power_of_def tally_distinct)
  have found: "two_thirds (gov_voting_power g) (supporters g q)" if "find ?P ?cs = Some (q, w)" for q w
  proof -
    have "(q, w) \<in> set ?cs" "?P (q, w)" using that by (auto simp: find_Some_iff) (metis nth_mem)
    with mem finalize_tally [OF assms, of q] show ?thesis by auto
  qed
  show ?thesis
  proof
    assume "governance_finalize order g = Some p"
    then show "two_thirds (gov_voting_power g) (supporters g p)" using found by (auto simp: F)
  next
    assume tt: "two_thirds (gov_voting_power g) (supporters g p)"
    then have maj: "?P (p, power_of ?cs p)" using finalize_tally [OF assms, of p] by simp
    then have "power_of ?cs p \<noteq> 0" by (auto simp: saturating_mul_def)
    then have "(p, power_of ?cs p) \<in> set ?cs" by (auto simp: power_of_def split: option.splits dest: map_of_SomeD)
    with maj obtain q w where q: "find ?P ?cs = Some (q, w)" by (metis find_None_iff not_None_eq surj_pair)
    have "supporters g p \<inter> supporters g q \<noteq> {}" using tt found [OF q] by (rule two_thirds_disjoint)
    then have "q = p" by (auto simp: supporters_def)
    then show "governance_finalize order g = Some p" by (simp add: F q)
  qed
qed

definition sample_policy :: participation_policy where
  "sample_policy = \<lparr>pp_target_active_nodes = 100, pp_minimum_uptime_bps = 9000, pp_reward_per_block = 1000,
     pp_reward_split = \<lparr>rs_validator_bps = 5000, rs_participant_bps = 4000, rs_treasury_bps = 1000\<rparr>\<rparr>"

definition sample_governance :: governance where
  "sample_governance = (governance_new 0 [(''a'', 70), (''c'', 25)])\<lparr>gov_votes := fmupd ''a'' (sample_policy, 70) fmempty\<rparr>"

theorem governance_finalize_majority_witness:
  "governance_run sample_governance \<and> governance_finalize [''a''] sample_governance = Some sample_policy"
proof -
  let ?g = "governance_new 0 [(''a'', 70), (''c'', 25)]"
  have "governance_vote MONTH_SECONDS ''a'' sample_policy ?g = Ok sample_governance"
    by (simp add: governance_vote_def governance_new_def sample_governance_def reward_split_validate_def sample_policy_def
        collect_map_def)
  then have r: "governance_run sample_governance" by (rule governance_run.vote [OF governance_run.start])
  have m: "gov_voting_power sample_governance = fmupd ''c'' 25 (fmupd ''a'' 70 fmempty)"
    by (simp add: sample_governance_def governance_new_def collect_map_def)
  have t: "fm_total (gov_voting_power sample_governance) = 95"
    by (simp add: m fm_total_def)
  have "supporters sample_governance sample_policy = {''a''}"
    by (auto simp: supporters_def sample_governance_def split: if_splits)
  then have "two_thirds (gov_voting_power sample_governance) (supporters sample_governance sample_policy)"
    using t by (simp add: two_thirds_def set_power_def) (simp add: m)
  moreover have "set [''a''] = fmdom' (gov_votes sample_governance)" by (simp add: sample_governance_def)
  ultimately show ?thesis
    using governance_finalize_majority [OF r, of "[''a'']" sample_policy] t r by simp
qed

end
