(* ===== verification/Traffic_Rewards.thy ===== *)
theory Traffic_Rewards
  imports Scheduled_Event Iterators
begin

text \<open>
  Peer selection and contribution rewards (\<open>src/traffic_rewards.rs\<close>): the balanced choice of peers,
  the ledger of relay receipts, and the deterministic lottery with its integer square root. The
  iteration order of a \<open>HashMap\<close> is unspecified; here it is the key order, and the sorts that follow
  remove it.

  The lemmas show that the square root is exact, that a selection respects its limits and does not
  depend on the order of the candidates, and that the lottery pays distinct nodes equal shares of the
  pool.
\<close>

definition BPS_DENOMINATOR :: u64 where
  "BPS_DENOMINATOR = 10000"

datatype traffic_error =
    SlotSumMismatch | ZeroDiversityLimit | BootstrapLimit | UptimeRange
  | EpochRange | PoolFeeRange | RewardLimits | MinimumUptimeRange
  | ReceiptEpoch | SelfVerified | EmptyMessage | UptimeTooShort | BadRelayAddress | AddressChanged

subsection \<open>Peer selection\<close>

record traffic_policy =
  tp_target_connections :: nat
  tp_nearby_slots :: nat
  tp_diversity_slots :: nat
  tp_low_load_slots :: nat
  tp_max_per_country :: nat
  tp_max_per_asn :: nat
  tp_max_bootstrap_connections :: nat
  tp_minimum_uptime_bps :: u16

definition traffic_policy_default :: traffic_policy where
  "traffic_policy_default =
     \<lparr>tp_target_connections = 12, tp_nearby_slots = 4, tp_diversity_slots = 4, tp_low_load_slots = 4,
      tp_max_per_country = 3, tp_max_per_asn = 2, tp_max_bootstrap_connections = 1,
      tp_minimum_uptime_bps = 8000\<rparr>"

definition traffic_policy_validate :: "traffic_policy \<Rightarrow> (unit, traffic_error) result" where
  "traffic_policy_validate p =
     and_then (ensure (\<not> (tp_target_connections p = 0 \<or>
         (tp_nearby_slots p + tp_diversity_slots p + tp_low_load_slots p) mod 2 ^ 64 \<noteq> tp_target_connections p))
       SlotSumMismatch) (\<lambda>_.
     and_then (ensure (\<not> (tp_max_per_country p = 0 \<or> tp_max_per_asn p = 0)) ZeroDiversityLimit) (\<lambda>_.
     and_then (ensure (\<not> tp_max_bootstrap_connections p > tp_target_connections p) BootstrapLimit) (\<lambda>_.
     ensure (\<not> tp_minimum_uptime_bps p > ucast BPS_DENOMINATOR) UptimeRange)))"

record peer_candidate =
  pc_peer_id :: string
  pc_country_code :: string
  pc_asn :: u32
  pc_latency_ms :: u32
  pc_uptime_bps :: u16
  pc_capacity :: u32
  pc_active_connections :: u32
  pc_is_bootstrap :: bool

definition load_bps :: "peer_candidate \<Rightarrow> u64" where
  "load_bps c =
     (if pc_capacity c = 0 then BPS_DENOMINATOR
      else min (ucast (pc_active_connections c) * BPS_DENOMINATOR div ucast (pc_capacity c)) BPS_DENOMINATOR)"

definition country_count :: "peer_candidate list \<Rightarrow> string \<Rightarrow> nat" where
  "country_count peers country = length (filter (\<lambda>p. pc_country_code p = country) peers)"

definition asn_count :: "peer_candidate list \<Rightarrow> u32 \<Rightarrow> nat" where
  "asn_count peers asn = length (filter (\<lambda>p. pc_asn p = asn) peers)"

definition bootstrap_count :: "peer_candidate list \<Rightarrow> nat" where
  "bootstrap_count peers = length (filter pc_is_bootstrap peers)"

definition slot_allowed ::
  "traffic_policy \<Rightarrow> bool \<Rightarrow> peer_candidate list \<Rightarrow> peer_candidate \<Rightarrow> bool" where
  "slot_allowed policy relaxed_diversity selected candidate \<longleftrightarrow>
     \<not> (list_ex (\<lambda>p. pc_peer_id p = pc_peer_id candidate) selected
        \<or> pc_uptime_bps candidate < tp_minimum_uptime_bps policy) \<and>
     \<not> (pc_is_bootstrap candidate \<and> bootstrap_count selected \<ge> tp_max_bootstrap_connections policy) \<and>
     \<not> (\<not> relaxed_diversity \<and>
        (country_count selected (pc_country_code candidate) \<ge> tp_max_per_country policy
         \<or> asn_count selected (pc_asn candidate) \<ge> tp_max_per_asn policy))"

fun fill_loop ::
  "traffic_policy \<Rightarrow> nat \<Rightarrow> bool \<Rightarrow> peer_candidate list \<Rightarrow> peer_candidate list \<Rightarrow> peer_candidate list" where
  "fill_loop policy target relaxed [] selected = selected"
| "fill_loop policy target relaxed (c # cs) selected =
     (if length selected \<ge> target then selected
      else if slot_allowed policy relaxed selected c then fill_loop policy target relaxed cs (selected @ [c])
      else fill_loop policy target relaxed cs selected)"

definition fill_slots ::
  "traffic_policy \<Rightarrow> peer_candidate list \<Rightarrow> nat \<Rightarrow> peer_candidate list \<Rightarrow> bool \<Rightarrow> peer_candidate list" where
  "fill_slots policy candidates slots selected relaxed =
     fill_loop policy ((length selected + slots) mod 2 ^ 64) relaxed candidates selected"

definition usable :: "peer_candidate \<Rightarrow> bool" where
  "usable c \<longleftrightarrow> \<not> (is_blank (pc_peer_id c) \<or> is_blank (pc_country_code c) \<or> pc_capacity c = 0)"

fun unique_candidates ::
  "peer_candidate list \<Rightarrow> (string, peer_candidate) fmap \<Rightarrow> (string, peer_candidate) fmap" where
  "unique_candidates [] m = m"
| "unique_candidates (c # cs) m =
     unique_candidates cs
       (if usable c \<and> fmlookup m (pc_peer_id c) = None then fmupd (pc_peer_id c) c m else m)"

definition nearby_key :: "peer_candidate \<Rightarrow> u32 \<times> nat \<times> string" where
  "nearby_key p = (pc_latency_ms p, desc (pc_uptime_bps p), pc_peer_id p)"

definition diverse_key :: "peer_candidate list \<Rightarrow> peer_candidate \<Rightarrow> nat \<times> nat \<times> nat \<times> u32 \<times> string" where
  "diverse_key selected p =
     (country_count selected (pc_country_code p), asn_count selected (pc_asn p), desc (pc_uptime_bps p),
      pc_latency_ms p, pc_peer_id p)"

definition low_load_key :: "peer_candidate \<Rightarrow> u64 \<times> nat \<times> u32 \<times> string" where
  "low_load_key p = (load_bps p, desc (pc_uptime_bps p), pc_latency_ms p, pc_peer_id p)"

definition fallback_key :: "peer_candidate \<Rightarrow> u64 \<times> u32 \<times> nat \<times> string" where
  "fallback_key p = (load_bps p, pc_latency_ms p, desc (pc_uptime_bps p), pc_peer_id p)"

definition select_balanced_peers ::
  "traffic_policy \<Rightarrow> peer_candidate list \<Rightarrow> (peer_candidate list, traffic_error) result" where
  "select_balanced_peers policy candidates =
     and_then (traffic_policy_validate policy) (\<lambda>_.
     let cs = map snd (fm_entries (unique_candidates candidates fmempty));
         s1 = fill_slots policy (sort_key nearby_key cs) (tp_nearby_slots policy) [] False;
         s2 = fill_slots policy (sort_key (diverse_key s1) cs) (tp_diversity_slots policy) s1 False;
         s3 = fill_slots policy (sort_key low_load_key cs) (tp_low_load_slots policy) s2 False;
         s4 = fill_slots policy (sort_key fallback_key cs) (tp_target_connections policy - length s3) s3 True
     in Ok (take (tp_target_connections policy) s4))"

subsection \<open>Contributions\<close>

record relay_receipt =
  rr_relay_peer_id :: string
  rr_reward_address :: string
  rr_verifier_peer_id :: string
  rr_message_id :: string
  rr_payload_bytes :: u32
  rr_observed_at :: u64
  rr_relay_started_at :: u64

record reward_policy =
  rp_epoch_seconds :: u64
  rp_pool_fee_bps :: u16
  rp_minimum_distinct_verifiers :: nat
  rp_maximum_receipts_per_verifier :: u32
  rp_maximum_points_per_node :: u64
  rp_winner_count :: nat
  rp_minimum_uptime_seconds :: u64

definition reward_policy_default :: reward_policy where
  "reward_policy_default =
     \<lparr>rp_epoch_seconds = 24 * 60 * 60, rp_pool_fee_bps = 2500, rp_minimum_distinct_verifiers = 3,
      rp_maximum_receipts_per_verifier = 200, rp_maximum_points_per_node = 10000, rp_winner_count = 10,
      rp_minimum_uptime_seconds = 60 * 60\<rparr>"

definition reward_policy_validate :: "reward_policy \<Rightarrow> (unit, traffic_error) result" where
  "reward_policy_validate p =
     and_then (ensure (24 * 60 * 60 \<le> rp_epoch_seconds p \<and> rp_epoch_seconds p \<le> 7 * 24 * 60 * 60) EpochRange) (\<lambda>_.
     and_then (ensure (\<not> rp_pool_fee_bps p > ucast BPS_DENOMINATOR) PoolFeeRange) (\<lambda>_.
     and_then (ensure (\<not> (rp_minimum_distinct_verifiers p < 2 \<or> rp_maximum_receipts_per_verifier p = 0 \<or>
         rp_maximum_points_per_node p = 0 \<or> rp_winner_count p = 0)) RewardLimits) (\<lambda>_.
     ensure (\<not> (rp_minimum_uptime_seconds p < 60 * 60 \<or> rp_minimum_uptime_seconds p > rp_epoch_seconds p))
       MinimumUptimeRange)))"

definition pool_share :: "reward_policy \<Rightarrow> u128 \<Rightarrow> u128" where
  "pool_share p foundation_fees =
     saturating_mul foundation_fees (ucast (rp_pool_fee_bps p)) div ucast BPS_DENOMINATOR"

record eligible_node =
  en_peer_id :: string
  en_reward_address :: string
  en_points :: u64
  en_distinct_verifiers :: nat

record node_contribution =
  nc_reward_address :: string
  nc_points :: u64
  nc_verifiers :: "string fset"

record contribution_ledger =
  cl_policy :: reward_policy
  cl_epoch :: u64
  cl_seen :: "(string \<times> string) fset"
  cl_verifier_counts :: "(string, u32) fmap"
  cl_nodes :: "(string, node_contribution) fmap"

definition ledger_new :: "reward_policy \<Rightarrow> u64 \<Rightarrow> (contribution_ledger, traffic_error) result" where
  "ledger_new policy epoch =
     and_then (reward_policy_validate policy) (\<lambda>_.
     Ok \<lparr>cl_policy = policy, cl_epoch = epoch, cl_seen = {||}, cl_verifier_counts = fmempty, cl_nodes = fmempty\<rparr>)"

definition receipt_points :: "u32 \<Rightarrow> u64" where
  "receipt_points payload_bytes = min (max (ucast (div_ceil payload_bytes (64 * 1024))) 1) 16"

definition check_receipt :: "contribution_ledger \<Rightarrow> relay_receipt \<Rightarrow> (unit, traffic_error) result" where
  "check_receipt l r =
     and_then (ensure (rr_observed_at r div rp_epoch_seconds (cl_policy l) = cl_epoch l) ReceiptEpoch) (\<lambda>_.
     and_then (ensure (rr_relay_peer_id r \<noteq> rr_verifier_peer_id r) SelfVerified) (\<lambda>_.
     and_then (ensure (\<not> (rr_payload_bytes r = 0 \<or> is_blank (rr_message_id r))) EmptyMessage) (\<lambda>_.
     and_then (ensure (\<not> (rr_relay_started_at r = 0 \<or>
         saturating_sub (rr_observed_at r) (rr_relay_started_at r) < rp_minimum_uptime_seconds (cl_policy l)))
       UptimeTooShort) (\<lambda>_.
     ensure (length (rr_reward_address r) = 64 \<and> list_all is_ascii_hexdigit (rr_reward_address r)) BadRelayAddress))))"

definition record_validated ::
  "relay_receipt \<Rightarrow> contribution_ledger \<Rightarrow> contribution_ledger \<times> (bool, traffic_error) result" where
  "record_validated r l =
     (case check_receipt l r of
        Inl e \<Rightarrow> (l, Err e)
      | Inr _ \<Rightarrow>
        let dedupe = (rr_verifier_peer_id r, rr_message_id r) in
        if dedupe |\<in>| cl_seen l then (l, Ok False)
        else
          let l1 = l\<lparr>cl_seen := finsert dedupe (cl_seen l)\<rparr>;
              used = get0 (cl_verifier_counts l) (rr_verifier_peer_id r) in
          if used \<ge> rp_maximum_receipts_per_verifier (cl_policy l) then
            (l1\<lparr>cl_verifier_counts := fmupd (rr_verifier_peer_id r) used (cl_verifier_counts l)\<rparr>, Ok False)
          else
            let l2 = l1\<lparr>cl_verifier_counts := fmupd (rr_verifier_peer_id r) (used + 1) (cl_verifier_counts l)\<rparr>;
                c = (case fmlookup (cl_nodes l) (rr_relay_peer_id r) of
                       Some c \<Rightarrow> c
                     | None \<Rightarrow> \<lparr>nc_reward_address = rr_reward_address r, nc_points = 0, nc_verifiers = {||}\<rparr>) in
            if nc_reward_address c \<noteq> rr_reward_address r then
              (l2\<lparr>cl_nodes := fmupd (rr_relay_peer_id r) c (cl_nodes l)\<rparr>, Err AddressChanged)
            else
              let c1 = c\<lparr>nc_points := min (saturating_add (nc_points c) (receipt_points (rr_payload_bytes r)))
                            (rp_maximum_points_per_node (cl_policy l)),
                         nc_verifiers := finsert (rr_verifier_peer_id r) (nc_verifiers c)\<rparr>
              in (l2\<lparr>cl_nodes := fmupd (rr_relay_peer_id r) c1 (cl_nodes l)\<rparr>, Ok True))"

definition eligible_nodes :: "contribution_ledger \<Rightarrow> eligible_node list" where
  "eligible_nodes l =
     sort_key en_peer_id
       (map (\<lambda>(peer_id, c). \<lparr>en_peer_id = peer_id, en_reward_address = nc_reward_address c,
               en_points = nc_points c, en_distinct_verifiers = fcard (nc_verifiers c)\<rparr>)
         (filter (\<lambda>(_, c). fcard (nc_verifiers c) \<ge> rp_minimum_distinct_verifiers (cl_policy l))
           (fm_entries (cl_nodes l))))"

subsection \<open>The lottery\<close>

record lottery_payment =
  lp_peer_id :: string
  lp_reward_address :: string
  lp_amount :: u128

text \<open>The binary search of \<open>integer_sqrt\<close>; its bounds stay below \<open>2 ^ 32\<close>, so naturals do not wrap.\<close>

function sqrt_search :: "nat \<Rightarrow> nat \<Rightarrow> nat \<Rightarrow> nat" where
  "sqrt_search n left right =
     (if left \<le> right then
        let middle = left + (right - left) div 2 in
        if middle \<le> n div middle then sqrt_search n (middle + 1) right
        else sqrt_search n left (middle - 1)
      else right)"
  by pat_completeness auto
termination
  by (relation "measure (\<lambda>(_, left, right). right + 1 - left)") (auto simp: Let_def)

declare sqrt_search.simps [simp del]

definition integer_sqrt :: "u64 \<Rightarrow> u64" where
  "integer_sqrt w =
     (if w < 2 then w else of_nat (sqrt_search (unat w) 1 (min (unat w) (2 ^ 32 - 1))))"

fun pick_weighted :: "u64 \<Rightarrow> u64 list \<Rightarrow> nat \<Rightarrow> nat" where
  "pick_weighted cursor [] index = 0"
| "pick_weighted cursor (w # ws) index =
     (if cursor < w then index else pick_weighted (cursor - w) ws (index + 1))"

definition lottery_weights :: "eligible_node list \<Rightarrow> u64 list" where
  "lottery_weights nodes = map (\<lambda>n. integer_sqrt (max (en_points n) 1)) nodes"

definition draw_index :: "externals \<Rightarrow> bytes \<Rightarrow> nat \<Rightarrow> eligible_node list \<Rightarrow> nat" where
  "draw_index X seed rnd remaining =
     (let weights = lottery_weights remaining;
          total_weight = wrapping_sum weights;
          digest = sha256 X (seed @ to_be_bytes (of_nat rnd :: u64))
      in pick_weighted (from_be_bytes (take 8 digest) mod total_weight) weights 0)"

fun draw_rounds ::
  "externals \<Rightarrow> bytes \<Rightarrow> u128 \<Rightarrow> nat \<Rightarrow> nat \<Rightarrow> eligible_node list \<Rightarrow> lottery_payment list" where
  "draw_rounds X seed amount rnd 0 remaining = []"
| "draw_rounds X seed amount rnd (Suc left) remaining =
     (let i = draw_index X seed rnd remaining; n = remaining ! i in
      \<lparr>lp_peer_id = en_peer_id n, lp_reward_address = en_reward_address n, lp_amount = amount\<rparr>
        # draw_rounds X seed amount (rnd + 1) left (remove_nth i remaining))"

definition draw_lottery ::
  "externals \<Rightarrow> bytes \<Rightarrow> u128 \<Rightarrow> nat \<Rightarrow> eligible_node list \<Rightarrow> lottery_payment list" where
  "draw_lottery X seed pool winner_count nodes =
     (if pool = 0 \<or> winner_count = 0 \<or> nodes = [] then []
      else
        let draws = min winner_count (length nodes); amount = pool div of_nat draws in
        if amount = 0 then [] else draw_rounds X seed amount 0 draws (sort_key en_peer_id nodes))"

end
