(* ===== verification/Node_Emission.thy ===== *)
theory Node_Emission
  imports Traffic_Rewards
begin

text \<open>
  Emission of node rewards (\<open>src/node_emission.rs\<close>): the yearly halving budget, the daily budget and
  the settlement of one day. The hash that the settlement computes and discards is left out.
\<close>

definition IEUM :: u128 where
  "IEUM = 10 ^ 18"

definition TOTAL_NODE_EMISSION :: u128 where
  "TOTAL_NODE_EMISSION = 210000000 * IEUM"

definition REWARD_ACTIVATION_HEIGHT :: u64 where
  "REWARD_ACTIVATION_HEIGHT = 100"

definition REWARD_ACTIVATION_UNIX :: u64 where
  "REWARD_ACTIVATION_UNIX = 1786287600"

definition REWARD_END_UNIX :: u64 where
  "REWARD_END_UNIX = 2240611199"

definition REWARD_EPOCH_SECONDS :: u64 where
  "REWARD_EPOCH_SECONDS = 24 * 60 * 60"

definition HALVING_SECONDS :: u64 where
  "HALVING_SECONDS = 365 * REWARD_EPOCH_SECONDS"

definition NORMAL_NODE_WEIGHT_BPS :: u64 where
  "NORMAL_NODE_WEIGHT_BPS = 10000"

definition MAIN_NODE_WEIGHT_BPS :: u64 where
  "MAIN_NODE_WEIGHT_BPS = 15000"

definition MAIN_NODE_PEER_IDS :: "string list" where
  "MAIN_NODE_PEER_IDS = [[], [], [], []]"

definition is_reward_active :: "u64 \<Rightarrow> u64 \<Rightarrow> bool" where
  "is_reward_active height timestamp \<longleftrightarrow>
     height \<ge> REWARD_ACTIVATION_HEIGHT \<and> REWARD_ACTIVATION_UNIX \<le> timestamp \<and> timestamp \<le> REWARD_END_UNIX"

definition halving_index :: "u64 \<Rightarrow> u32 option" where
  "halving_index timestamp =
     (if \<not> (REWARD_ACTIVATION_UNIX \<le> timestamp \<and> timestamp \<le> REWARD_END_UNIX) then None
      else Some (ucast ((timestamp - REWARD_ACTIVATION_UNIX) div HALVING_SECONDS)))"

definition reward_year_count :: u32 where
  "reward_year_count = ucast ((REWARD_END_UNIX - REWARD_ACTIVATION_UNIX) div HALVING_SECONDS + 1)"

definition year_share :: "u32 \<Rightarrow> u128" where
  "year_share index =
     TOTAL_NODE_EMISSION * push_bit (unat (reward_year_count - index - 1)) 1
       div (push_bit (unat reward_year_count) 1 - 1)"

definition annual_budget :: "u32 \<Rightarrow> u128" where
  "annual_budget year_index =
     (if year_index \<ge> reward_year_count then 0
      else if year_index + 1 = reward_year_count
      then TOTAL_NODE_EMISSION - wrapping_sum (map (\<lambda>i. year_share (of_nat i)) [0..<unat year_index])
      else year_share year_index)"

definition daily_budget :: "u64 \<Rightarrow> u128" where
  "daily_budget timestamp =
     (case halving_index timestamp of
        None \<Rightarrow> 0
      | Some year \<Rightarrow>
        let start = REWARD_ACTIVATION_UNIX + ucast year * HALVING_SECONDS;
            end_time = min (start + HALVING_SECONDS - 1) REWARD_END_UNIX;
            days = div_ceil (end_time - start + 1) REWARD_EPOCH_SECONDS
        in annual_budget year div ucast days)"

definition remaining_budget :: "u128 \<Rightarrow> u128" where
  "remaining_budget distributed = saturating_sub TOTAL_NODE_EMISSION (min distributed TOTAL_NODE_EMISSION)"

definition is_main_node :: "string \<Rightarrow> bool" where
  "is_main_node peer_id \<longleftrightarrow> peer_id \<noteq> [] \<and> peer_id \<in> set MAIN_NODE_PEER_IDS"

definition node_weight :: "eligible_node \<Rightarrow> u128" where
  "node_weight n =
     ucast (max (en_points n) 1) *
     ucast (if is_main_node (en_peer_id n) then MAIN_NODE_WEIGHT_BPS else NORMAL_NODE_WEIGHT_BPS)"

text \<open>The payment loop: the last node takes what is left of the pool.\<close>

fun settle_loop ::
  "u128 \<Rightarrow> u128 \<Rightarrow> u128 \<Rightarrow> eligible_node list \<Rightarrow> lottery_payment list" where
  "settle_loop pool total_weight assigned [] = []"
| "settle_loop pool total_weight assigned (n # ns) =
     (let amount = (if ns = [] then pool - assigned else saturating_mul pool (node_weight n) div total_weight);
          rest = settle_loop pool total_weight (assigned + amount) ns
      in if amount > 0
         then \<lparr>lp_peer_id = en_peer_id n, lp_reward_address = en_reward_address n, lp_amount = amount\<rparr> # rest
         else rest)"

definition settle_daily_rewards ::
  "u64 \<Rightarrow> u64 \<Rightarrow> u128 \<Rightarrow> eligible_node list \<Rightarrow> lottery_payment list" where
  "settle_daily_rewards height timestamp already_distributed eligible =
     (if \<not> is_reward_active height timestamp \<or> eligible = [] then []
      else
        let pool = min (daily_budget timestamp) (remaining_budget already_distributed) in
        if pool = 0 then []
        else
          let nodes = sort_key en_peer_id eligible;
              total_weight = wrapping_sum (map node_weight nodes)
          in settle_loop pool total_weight 0 nodes)"

end
