(* ===== verification/Reward_Properties.thy ===== *)
theory Reward_Properties
  imports Node_Emission Sample Quorum
begin

text \<open>Properties of peer selection, the lottery and the node emission.\<close>

subsection \<open>Integer square root\<close>

lemma sqrt_search_exact:
  assumes "0 < l" and "l \<le> r + 1" and "(l - 1) * (l - 1) \<le> n" and "n < (r + 1) * (r + 1)"
  shows "sqrt_search n l r * sqrt_search n l r \<le> n \<and> n < (sqrt_search n l r + 1) * (sqrt_search n l r + 1)"
  using assms
proof (induction n l r rule: sqrt_search.induct)
  case (1 n l r)
  show ?case
  proof (cases "l \<le> r")
    case True
    define m where "m = l + (r - l) div 2"
    have m: "l \<le> m" "m \<le> r" "0 < m" using True "1.prems"(1) by (auto simp: m_def)
    show ?thesis
    proof (cases "m \<le> n div m")
      case le: True
      have eq: "sqrt_search n l r = sqrt_search n (m + 1) r"
        using True le by (simp add: sqrt_search.simps [of n l r] Let_def flip: m_def)
      from le have "m * m \<le> n" using m(3) by (simp add: less_eq_div_iff_mult_less_eq)
      with "1.IH"(1) [OF True m_def le] "1.prems"(4) m show ?thesis by (simp only: eq) simp
    next
      case gt: False
      have eq: "sqrt_search n l r = sqrt_search n l (m - 1)"
        using True gt by (simp add: sqrt_search.simps [of n l r] Let_def flip: m_def)
      from gt have "n < m * m" using m(3) by (simp add: less_eq_div_iff_mult_less_eq not_le)
      moreover have "m - 1 + 1 = m" using m(3) by simp
      ultimately show ?thesis
        using "1.IH"(2) [OF True m_def gt] "1.prems"(1,3) m by (simp only: eq)
    qed
  next
    case False
    then have "l - 1 = r" using "1.prems"(1,2) by simp
    then show ?thesis using "1.prems"(3,4) False by (simp add: sqrt_search.simps [of n l r])
  qed
qed

lemma sqrt_search_bound: "0 < l \<Longrightarrow> sqrt_search n l r \<le> r"
proof (induction n l r rule: sqrt_search.induct)
  case (1 n l r)
  define m where "m = l + (r - l) div 2"
  show ?case
  proof (cases "l \<le> r")
    case True
    then have m: "m \<le> r" by (auto simp: m_def)
    have "sqrt_search n (m + 1) r \<le> r" if "m \<le> n div m" using "1.IH"(1) [OF True m_def that] by simp
    moreover have "sqrt_search n l (m - 1) \<le> m - 1" if "\<not> m \<le> n div m"
      using "1.IH"(2) [OF True m_def that] "1.prems" by simp
    ultimately show ?thesis using m True by (subst sqrt_search.simps) (auto simp: Let_def simp flip: m_def)
  next
    case False
    then show ?thesis by (simp add: sqrt_search.simps [of n l r])
  qed
qed

lemma integer_sqrt_nat:
  "unat (integer_sqrt w) * unat (integer_sqrt w) \<le> unat w \<and> unat w < (unat (integer_sqrt w) + 1) * (unat (integer_sqrt w) + 1)"
proof (cases "w < 2")
  case True
  then have "unat w < 2" by (simp add: word_less_nat_alt)
  then have "unat w = 0 \<or> unat w = 1" by auto
  then show ?thesis using True by (auto simp: integer_sqrt_def)
next
  case False
  define r where "r = min (unat w) (2 ^ 32 - 1)"
  have "unat w < (r + 1) * (r + 1)"
  proof (cases "unat w \<le> 2 ^ 32 - 1")
    case True
    then show ?thesis by (simp add: r_def)
  next
    case False
    then have "(r + 1) * (r + 1) = 2 ^ 64" by (simp add: r_def)
    then show ?thesis using unat_lt [of w] by simp
  qed
  then have s: "sqrt_search (unat w) 1 r * sqrt_search (unat w) 1 r \<le> unat w \<and>
      unat w < (sqrt_search (unat w) 1 r + 1) * (sqrt_search (unat w) 1 r + 1)"
    by (intro sqrt_search_exact) simp_all
  have "sqrt_search (unat w) 1 r < 2 ^ 64"
    using sqrt_search_bound [of 1 "unat w" r] by (simp add: r_def)
  then have "unat (integer_sqrt w) = sqrt_search (unat w) 1 r"
    using False by (simp add: integer_sqrt_def r_def unat_of_nat_small)
  with s show ?thesis by simp
qed

subsection \<open>Emission\<close>

lemma reward_years: "reward_year_count = 15"
  by (simp add: reward_year_count_def REWARD_END_UNIX_def REWARD_ACTIVATION_UNIX_def HALVING_SECONDS_def
      REWARD_EPOCH_SECONDS_def)

lemma total_emission: "TOTAL_NODE_EMISSION = 210000000000000000000000000"
  by (simp add: TOTAL_NODE_EMISSION_def IEUM_def)

lemma push_bit_one: "push_bit k (1 :: 'a::len word) = 2 ^ k"
  by (simp add: push_bit_eq_mult)

lemma unat_two_power: "k < LENGTH('a) \<Longrightarrow> unat (2 ^ k :: 'a::len word) = 2 ^ k"
  by (metis nat_power_eq of_nat_numeral of_nat_power power_strict_increasing_iff semiring_1_class.of_nat_power
      unat_of_nat_small one_less_numeral_iff semiring_norm(76))

lemma year_share_nat:
  assumes "i < 15"
  shows "unat (year_share (of_nat i)) = 210000000000000000000000000 * 2 ^ (14 - i) div 32767"
proof -
  have "(15 - of_nat i - 1 :: u32) = of_nat (14 - i)" using assms by (simp add: of_nat_diff)
  moreover have "unat (of_nat (14 - i) :: u32) = 14 - i" by (rule unat_of_nat_small) simp
  ultimately have k: "unat (15 - of_nat i - 1 :: u32) = 14 - i" by (simp only:)
  have "(2 :: nat) ^ (14 - i) \<le> 2 ^ 14" by (rule power_increasing) simp_all
  then have small: "210000000000000000000000000 * (2 :: nat) ^ (14 - i) < 2 ^ 128" by simp
  have "unat (210000000000000000000000000 * 2 ^ (14 - i) :: u128) = 210000000000000000000000000 * 2 ^ (14 - i)"
    using small unat_two_power [where 'a = 128, of "14 - i"] by (simp add: unat_word_ariths)
  moreover have "unat (2 ^ 15 - 1 :: u128) = 32767" by simp
  moreover have "unat (15 :: u32) = 15" by simp
  ultimately show ?thesis
    by (simp only: year_share_def reward_years total_emission push_bit_one k unat_div)
qed

lemma annual_budgets:
  "i < 14 \<Longrightarrow> unat (annual_budget (of_nat i)) = 210000000000000000000000000 * 2 ^ (14 - i) div 32767"
  "unat (annual_budget 14) =
     210000000000000000000000000 - (\<Sum>i<14. 210000000000000000000000000 * 2 ^ (14 - i) div 32767)"
  "(\<Sum>i<14. 210000000000000000000000000 * 2 ^ (14 - i) div 32767) \<le> (210000000000000000000000000 :: nat)"
proof -
  show bound: "(\<Sum>i<14. 210000000000000000000000000 * 2 ^ (14 - i) div 32767) \<le> (210000000000000000000000000 :: nat)"
    by (simp add: lessThan_nat_numeral lessThan_Suc)
  show "i < 14 \<Longrightarrow> unat (annual_budget (of_nat i)) = 210000000000000000000000000 * 2 ^ (14 - i) div 32767"
  proof -
    assume i: "i < 14"
    then have u: "unat (of_nat i :: u32) = i" by (simp add: unat_of_nat_small)
    then have "(of_nat i :: u32) < 15" "(of_nat i :: u32) + 1 \<noteq> 15"
      using i by (auto simp: word_less_nat_alt word_unat_eq_iff unat_word_ariths)
    then show ?thesis using year_share_nat [of i] i by (simp add: annual_budget_def reward_years not_le)
  qed
  let ?ws = "map (\<lambda>i. year_share (of_nat i)) [0..<14]"
  have "sum_list (map unat ?ws) = (\<Sum>i<14. 210000000000000000000000000 * 2 ^ (14 - i) div 32767)"
  proof -
    have "map unat ?ws = map (\<lambda>i. 210000000000000000000000000 * 2 ^ (14 - i) div 32767) [0..<14]"
      using year_share_nat by simp
    then show ?thesis by (simp only: interv_sum_list_conv_sum_set_nat) (simp only: set_upt atLeast0LessThan)
  qed
  then have "unat (wrapping_sum ?ws) = (\<Sum>i<14. 210000000000000000000000000 * 2 ^ (14 - i) div 32767)"
    using bound by (subst unat_wrapping_sum_small) simp_all
  then show "unat (annual_budget 14) =
     210000000000000000000000000 - (\<Sum>i<14. 210000000000000000000000000 * 2 ^ (14 - i) div 32767)"
    using bound unfolding annual_budget_def reward_years total_emission
    by (simp add: unat_sub_le word_le_nat_alt del: upt_rec_numeral)
qed


lemma year_count_nat: "unat reward_year_count = 15"
  by (simp add: reward_years)

lemma annual_budget_sum: "(\<Sum>i<15. unat (annual_budget (of_nat i))) = 210000000000000000000000000"
proof -
  have "(\<Sum>i<15. unat (annual_budget (of_nat i))) =
      (\<Sum>i<14. unat (annual_budget (of_nat i))) + unat (annual_budget (of_nat 14))"
    using sum.lessThan_Suc [of "\<lambda>i. unat (annual_budget (of_nat i))" 14] by (simp del: sum.lessThan_Suc)
  also have "(\<Sum>i<14. unat (annual_budget (of_nat i))) =
      (\<Sum>i<14. 210000000000000000000000000 * 2 ^ (14 - i) div 32767)"
    by (rule sum.cong) (use annual_budgets(1) in simp_all)
  finally show ?thesis using annual_budgets(2,3) by (simp del: sum.lessThan_Suc)
qed

lemma annual_budget_zero: "reward_year_count \<le> y \<Longrightarrow> annual_budget y = 0"
  by (simp add: annual_budget_def)

subsection \<open>Settlement\<close>

abbreviation paid :: "lottery_payment list \<Rightarrow> nat" where
  "paid ps \<equiv> sum_list (map (\<lambda>p. unat (lp_amount p)) ps)"

lemma settle_loop_paid:
  assumes "ns \<noteq> []" and "0 < unat W"
    and "unat assigned * unat W + unat pool * sum_list (map (\<lambda>n. unat (node_weight n)) ns) \<le> unat pool * unat W"
  shows "paid (settle_loop pool W assigned ns) = unat pool - unat assigned"
  using assms
proof (induction ns arbitrary: assigned)
  case (Cons n ns)
  define w where "w = unat (node_weight n)"
  show ?case
  proof (cases "ns = []")
    case True
    have "unat assigned * unat W \<le> unat pool * unat W" using Cons.prems(3) by linarith
    then have "assigned \<le> pool" using Cons.prems(2) by (simp add: word_le_nat_alt)
    then show ?thesis using True by (auto simp: Let_def unat_sub_le word_gt_0)
  next
    case False
    define a where "a = saturating_mul pool (node_weight n) div W"
    have "unat a \<le> unat pool * w div unat W"
      by (simp add: a_def w_def unat_div unat_saturating_mul div_le_mono)
    then have aW: "unat a * unat W \<le> unat pool * w"
      using Cons.prems(2) by (simp add: less_eq_div_iff_mult_less_eq)
    have IHp: "(unat assigned + unat a) * unat W + unat pool * sum_list (map (\<lambda>n. unat (node_weight n)) ns)
        \<le> unat pool * unat W"
      using Cons.prems(3) aW by (simp add: algebra_simps flip: w_def)
    then have "(unat assigned + unat a) * unat W \<le> unat pool * unat W" by linarith
    then have le: "unat assigned + unat a \<le> unat pool" using Cons.prems(2) by simp
    then have add: "unat (assigned + a) = unat assigned + unat a"
      using unat_lt [of pool] by (simp add: unat_word_ariths)
    have "paid (settle_loop pool W (assigned + a) ns) = unat pool - (unat assigned + unat a)"
      using Cons.IH [of "assigned + a"] False Cons.prems(2) IHp add by simp
    then show ?thesis using False le by (auto simp: Let_def word_gt_0 simp flip: a_def)
  qed
qed simp

lemma settle_loop_positive: "\<forall>p \<in> set (settle_loop pool W assigned ns). 0 < lp_amount p"
  by (induction ns arbitrary: assigned) (auto simp: Let_def)

lemma settle_loop_recipients:
  "set (map (\<lambda>p. (lp_peer_id p, lp_reward_address p)) (settle_loop pool W assigned ns))
     \<subseteq> set (map (\<lambda>n. (en_peer_id n, en_reward_address n)) ns)"
  by (induction ns arbitrary: assigned) (auto simp: Let_def)

lemma node_weight_pos: "0 < unat (node_weight n)"
proof -
  define b where "b = (if is_main_node (en_peer_id n) then MAIN_NODE_WEIGHT_BPS else NORMAL_NODE_WEIGHT_BPS)"
  have b: "unat b = 15000 \<or> unat b = 10000"
    by (simp add: b_def MAIN_NODE_WEIGHT_BPS_def NORMAL_NODE_WEIGHT_BPS_def)
  define p where "p = max (en_points n) 1"
  have p: "0 < unat p" by (simp add: p_def max_def word_gt_0 not_le word_less_nat_alt unat_gt_0) auto
  have "unat p * unat b < 2 ^ 64 * 2 ^ 14" using unat_lt [of p] b by (intro mult_strict_mono) auto
  then have "unat (node_weight n) = unat p * unat b"
    by (simp add: node_weight_def unat_word_ariths unat_ucast_u128 flip: p_def b_def)
  then show ?thesis using p b by auto
qed

lemma settle_total_weight:
  assumes "ns \<noteq> []" and "sum_list (map (\<lambda>n. unat (node_weight n)) ns) < 2 ^ 128"
  shows "unat (wrapping_sum (map node_weight ns)) = sum_list (map (\<lambda>n. unat (node_weight n)) ns)"
    and "0 < unat (wrapping_sum (map node_weight ns))"
proof -
  show eq: "unat (wrapping_sum (map node_weight ns)) = sum_list (map (\<lambda>n. unat (node_weight n)) ns)"
    using assms(2) by (simp add: unat_wrapping_sum comp_def)
  obtain n ms where "ns = n # ms" using assms(1) by (cases ns) auto
  then show "0 < unat (wrapping_sum (map node_weight ns))" using node_weight_pos [of n] unfolding eq by simp
qed


subsection \<open>Lottery\<close>

lemma pick_weighted_bound: "pick_weighted cursor ws index < index + length ws \<or> pick_weighted cursor ws index = 0"
proof (induction ws arbitrary: cursor index)
  case (Cons w ws)
  show ?case using Cons.IH [of "cursor - w" "index + 1"] by auto
qed simp

lemma draw_index_bound: "ns \<noteq> [] \<Longrightarrow> draw_index X seed rnd ns < length ns"
  unfolding draw_index_def Let_def
  using pick_weighted_bound [of _ "lottery_weights ns" 0] length_map [of _ ns]
  unfolding lottery_weights_def by (metis add_0 length_greater_0_conv)

abbreviation node_account :: "eligible_node \<Rightarrow> string \<times> string" where
  "node_account n \<equiv> (en_peer_id n, en_reward_address n)"

abbreviation payee :: "lottery_payment \<Rightarrow> string \<times> string" where
  "payee p \<equiv> (lp_peer_id p, lp_reward_address p)"

lemma draw_rounds_payees:
  "k \<le> length ns \<Longrightarrow> mset (map payee (draw_rounds X seed amount rnd k ns)) \<subseteq># mset (map node_account ns)"
proof (induction k arbitrary: ns rnd)
  case (Suc k)
  then have i: "draw_index X seed rnd ns < length ns" by (intro draw_index_bound) auto
  let ?rest = "remove_nth (draw_index X seed rnd ns) ns"
  have "mset (map payee (draw_rounds X seed amount (rnd + 1) k ?rest)) \<subseteq># mset (map node_account ?rest)"
    using Suc i by simp
  moreover have "mset (map node_account ns) =
      add_mset (node_account (ns ! draw_index X seed rnd ns)) (mset (map node_account ?rest))"
    using mset_remove_nth [OF i] by simp
  ultimately show ?case by (simp add: Let_def)
qed simp

lemma draw_rounds_amounts:
  "length (draw_rounds X seed amount rnd k ns) = k"
  "paid (draw_rounds X seed amount rnd k ns) = k * unat amount"
  by (induction k arbitrary: ns rnd) (simp_all add: Let_def)


subsection \<open>Properties\<close>

text \<open>
  The binary search of \<open>integer_sqrt\<close> returns the integer square root of every 64-bit number: the
  largest number whose square does not exceed the argument. It neither divides by zero nor overflows.
\<close>
theorem integer_sqrt_exact:
  "unat (integer_sqrt w) * unat (integer_sqrt w) \<le> unat w \<and>
   unat w < (unat (integer_sqrt w) + 1) * (unat (integer_sqrt w) + 1)"
  by (rule integer_sqrt_nat)

text \<open>
  The yearly budgets of the node emission add up to exactly the planned total of 210 million coins
  over the reward years, each year before the last having its halving share, and no budget is given
  to any later year.
\<close>
theorem emission_budget_exact:
  "(\<Sum>i<unat reward_year_count. unat (annual_budget (of_nat i))) = unat TOTAL_NODE_EMISSION \<and>
   unat TOTAL_NODE_EMISSION = 210000000 * 10 ^ 18 \<and>
   annual_budget (max y reward_year_count) = 0"
  using annual_budget_sum annual_budget_zero [of "max y reward_year_count"]
  unfolding year_count_nat by (simp add: total_emission)

text \<open>
  C19: on an active day with at least one eligible node, a settlement pays out exactly the smaller of the
  day's budget and what is left of the emission: the payments sum to it, with no rounding loss, every
  payment is positive and goes to an eligible node, and the total distributed stays within the
  emission. The weights must sum to less than \<open>2 ^ 128\<close>, which fewer than \<open>2 ^ 50\<close> nodes ensure.
\<close>
theorem settlement_exact:
  assumes "is_reward_active height timestamp" and "eligible \<noteq> []"
    and "sum_list (map (\<lambda>n. unat (node_weight n)) eligible) < 2 ^ 128"
    and "already \<le> TOTAL_NODE_EMISSION"
  shows "paid (settle_daily_rewards height timestamp already eligible) =
      unat (min (daily_budget timestamp) (remaining_budget already)) \<and>
    unat already + paid (settle_daily_rewards height timestamp already eligible) \<le> unat TOTAL_NODE_EMISSION \<and>
    (\<forall>p \<in> set (settle_daily_rewards height timestamp already eligible).
       0 < lp_amount p \<and> payee p \<in> node_account ` set eligible)"
proof -
  define pool where "pool = min (daily_budget timestamp) (remaining_budget already)"
  define ns where "ns = sort_key en_peer_id eligible"
  define W where "W = wrapping_sum (map node_weight ns)"
  have "mset ns = mset eligible" by (simp add: ns_def)
  then have ns: "ns \<noteq> []" "set ns = set eligible" using assms(2) by (auto dest: mset_eq_setD)
  have sum: "sum_list (map (\<lambda>n. unat (node_weight n)) ns) < 2 ^ 128" using assms(3) by (simp add: ns_def)
  have S: "settle_daily_rewards height timestamp already eligible = (if pool = 0 then [] else settle_loop pool W 0 ns)"
    using assms(1,2) by (simp add: settle_daily_rewards_def Let_def pool_def ns_def W_def)
  have "paid (settle_loop pool W 0 ns) = unat pool"
    using settle_loop_paid [OF ns(1), of W 0 pool] settle_total_weight [OF ns(1) sum] by (simp add: W_def)
  then have paid: "paid (settle_daily_rewards height timestamp already eligible) = unat pool"
    by (auto simp: S)
  have "unat pool \<le> unat (remaining_budget already)" by (simp add: pool_def flip: word_le_nat_alt)
  also have "\<dots> = unat TOTAL_NODE_EMISSION - unat already"
    using assms(4) by (simp add: remaining_budget_def unat_saturating_sub min_def)
  finally have "unat already + unat pool \<le> unat TOTAL_NODE_EMISSION" using assms(4) by (simp add: word_le_nat_alt)
  with paid show ?thesis
    using settle_loop_positive [of pool W 0 ns] settle_loop_recipients [of pool W 0 ns] ns(2)
    by (auto simp: S simp flip: pool_def)
qed

theorem settlement_exact_witness:
  "let n = \<lparr>en_peer_id = ''a'', en_reward_address = ''b'', en_points = 3, en_distinct_verifiers = 3\<rparr> in
   paid (settle_daily_rewards 100 1786287600 0 [n, n]) = unat (min (daily_budget 1786287600) (remaining_budget 0))"
  using settlement_exact [of 100 1786287600
      "[\<lparr>en_peer_id = ''a'', en_reward_address = ''b'', en_points = 3, en_distinct_verifiers = 3\<rparr>,
        \<lparr>en_peer_id = ''a'', en_reward_address = ''b'', en_points = 3, en_distinct_verifiers = 3\<rparr>]" 0]
  by (simp add: is_reward_active_def REWARD_ACTIVATION_HEIGHT_def REWARD_ACTIVATION_UNIX_def REWARD_END_UNIX_def
      node_weight_def is_main_node_def MAIN_NODE_PEER_IDS_def NORMAL_NODE_WEIGHT_BPS_def)

text \<open>
  A lottery over a pool that covers at least one unit per winner draws exactly the smaller of the
  configured number of winners and the number of nodes; every node wins at most as often as it is
  listed and is paid to its own reward address, all winners get the same amount, and the payments
  never exceed the pool and leave less than one unit per winner in it.
\<close>
theorem lottery_pays:
  assumes "0 < winner_count" and "nodes \<noteq> []" and "length nodes < 2 ^ 64"
    and "min winner_count (length nodes) \<le> unat pool"
  shows "let ps = draw_lottery X seed pool winner_count nodes in
    length ps = min winner_count (length nodes) \<and>
    mset (map payee ps) \<subseteq># mset (map node_account nodes) \<and>
    paid ps \<le> unat pool \<and> unat pool < paid ps + length ps"
proof -
  define ps where "ps = draw_lottery X seed pool winner_count nodes"
  define k where "k = min winner_count (length nodes)"
  have k: "0 < k" "k \<le> length nodes" "k < 2 ^ 128" using assms(1-3) by (auto simp: k_def)
  define a where "a = pool div of_nat k"
  have a: "unat a = unat pool div k" using k(3) by (simp add: a_def unat_div unat_of_nat_small)
  moreover have "k \<le> unat pool" using assms(4) by (simp add: k_def)
  ultimately have "0 < unat a" using k(1) by (simp add: div_greater_zero_iff)
  then have "a \<noteq> 0" "pool \<noteq> 0" using \<open>k \<le> unat pool\<close> k(1) by auto
  then have ps: "ps = draw_rounds X seed a 0 k (sort_key en_peer_id nodes)"
    using assms(1,2) by (simp add: ps_def draw_lottery_def Let_def flip: k_def a_def)
  have "k * unat a \<le> unat pool \<and> unat pool < k * unat a + k"
    using k(1) mult_div_mod_eq [of k "unat pool"] mod_less_divisor [of k "unat pool"] unfolding a by linarith
  moreover have "mset (map payee ps) \<subseteq># mset (map node_account (sort_key en_peer_id nodes))"
    unfolding ps by (rule draw_rounds_payees) (simp add: k(2))
  moreover have "mset (map node_account (sort_key en_peer_id nodes)) = mset (map node_account nodes)"
    by (simp only: mset_map mset_sort)
  ultimately show ?thesis by (simp add: Let_def ps draw_rounds_amounts flip: k_def ps_def)
qed

theorem lottery_pays_witness:
  "length (draw_lottery sample_externals [7] 10 2
      [\<lparr>en_peer_id = ''a'', en_reward_address = ''b'', en_points = 3, en_distinct_verifiers = 3\<rparr>]) = 1"
  using lottery_pays [of 2 "[\<lparr>en_peer_id = ''a'', en_reward_address = ''b'', en_points = 3, en_distinct_verifiers = 3\<rparr>]"
      10 sample_externals "[7]"]
  by (simp add: Let_def)

end
