(* ===== verification/Peer_Properties.thy ===== *)
theory Peer_Properties
  imports Traffic_Rewards
begin

text \<open>
  Properties of the balanced peer selection of \<open>src/traffic_rewards.rs\<close>: the limits every selection
  respects, its maximality, and its independence of the order in which candidates were discovered.
\<close>

subsection \<open>Filling slots\<close>

definition selection_ok :: "traffic_policy \<Rightarrow> peer_candidate list \<Rightarrow> peer_candidate list \<Rightarrow> bool" where
  "selection_ok policy cs sel \<longleftrightarrow>
     set sel \<subseteq> set cs \<and> distinct (map pc_peer_id sel) \<and>
     list_all (\<lambda>c. tp_minimum_uptime_bps policy \<le> pc_uptime_bps c) sel \<and>
     bootstrap_count sel \<le> tp_max_bootstrap_connections policy"

lemma selection_ok_Nil [simp]: "selection_ok policy cs []"
  by (simp add: selection_ok_def bootstrap_count_def)

lemma selection_ok_snoc:
  assumes "selection_ok policy cs sel" and "slot_allowed policy relaxed sel c" and "c \<in> set cs"
  shows "selection_ok policy cs (sel @ [c])"
  using assms by (auto simp: selection_ok_def slot_allowed_def bootstrap_count_def list_ex_iff not_less)

lemma fill_loop_ok:
  "selection_ok policy cs sel \<Longrightarrow> set xs \<subseteq> set cs \<Longrightarrow> selection_ok policy cs (fill_loop policy t relaxed xs sel)"
  by (induction xs arbitrary: sel) (auto intro: selection_ok_snoc)

lemma fill_loop_prefix: "\<exists>ys. fill_loop policy t relaxed xs sel = sel @ ys"
proof (induction xs arbitrary: sel)
  case (Cons x xs)
  show ?case using Cons.IH [of sel] Cons.IH [of "sel @ [x]"] by (auto split: if_splits)
qed simp

text \<open>A candidate that the relaxed rules refuse stays refused as the selection grows.\<close>

lemma slot_refused_mono:
  "\<not> slot_allowed policy True sel c \<Longrightarrow> \<not> slot_allowed policy True (sel @ ys) c"
  by (auto simp: slot_allowed_def bootstrap_count_def list_ex_iff)

lemma slot_refused_selected: "\<not> slot_allowed policy relaxed (sel @ c # ys) c"
  by (auto simp: slot_allowed_def)

lemma fill_loop_maximal:
  "length (fill_loop policy t True xs sel) < t \<Longrightarrow> x \<in> set xs \<Longrightarrow>
   \<not> slot_allowed policy True (fill_loop policy t True xs sel) x"
proof (induction xs arbitrary: sel)
  case (Cons y xs)
  show ?case
  proof (cases "length sel \<ge> t")
    case False
    let ?sel = "if slot_allowed policy True sel y then sel @ [y] else sel"
    have step: "fill_loop policy t True (y # xs) sel = fill_loop policy t True xs ?sel" using False by simp
    obtain ys where ys: "fill_loop policy t True xs ?sel = ?sel @ ys" using fill_loop_prefix by blast
    have "\<not> slot_allowed policy True (?sel @ ys) y"
      using slot_refused_mono [of policy sel y ys] slot_refused_selected [of policy True sel y ys] by simp
    with Cons.IH [of ?sel] Cons.prems show ?thesis unfolding step ys by auto
  qed (use Cons.prems in simp)
qed simp

subsection \<open>Candidates\<close>

lemma unique_candidates_lookup:
  "fmlookup (unique_candidates cs m) pid =
     (case fmlookup m pid of Some c \<Rightarrow> Some c | None \<Rightarrow> find (\<lambda>c. usable c \<and> pc_peer_id c = pid) cs)"
  by (induction cs arbitrary: m) (auto split: option.splits)

lemma find_Some_iff_distinct:
  assumes "distinct (map pc_peer_id cs)"
  shows "find (\<lambda>c. usable c \<and> pc_peer_id c = pid) cs = Some c \<longleftrightarrow> c \<in> set cs \<and> usable c \<and> pc_peer_id c = pid"
  using assms by (induction cs) (auto simp: image_iff)

lemma unique_candidates_mset:
  assumes "distinct (map pc_peer_id cs)" and "mset cs = mset cs'"
  shows "unique_candidates cs fmempty = unique_candidates cs' fmempty"
proof (rule fmap_ext)
  fix pid
  have d: "distinct (map pc_peer_id cs')" using assms by (metis mset_eq_imp_distinct_iff mset_map)
  have s: "set cs = set cs'" using assms(2) by (rule mset_eq_setD)
  have "find (\<lambda>c. usable c \<and> pc_peer_id c = pid) cs = Some c \<longleftrightarrow>
      find (\<lambda>c. usable c \<and> pc_peer_id c = pid) cs' = Some c" for c
    by (simp only: find_Some_iff_distinct [OF assms(1)] find_Some_iff_distinct [OF d] s)
  then show "fmlookup (unique_candidates cs fmempty) pid = fmlookup (unique_candidates cs' fmempty) pid"
    by (simp add: unique_candidates_lookup) (metis not_Some_eq)
qed

definition peer_pool :: "peer_candidate list \<Rightarrow> peer_candidate list" where
  "peer_pool candidates = map snd (fm_entries (unique_candidates candidates fmempty))"

lemma peer_pool_set:
  "c \<in> set (peer_pool cs) \<longleftrightarrow> find (\<lambda>d. usable d \<and> pc_peer_id d = pc_peer_id c) cs = Some c"
proof -
  let ?m = "unique_candidates cs fmempty"
  have l: "fmlookup ?m pid = find (\<lambda>c. usable c \<and> pc_peer_id c = pid) cs" for pid
    by (simp add: unique_candidates_lookup)
  have pid: "fmlookup ?m pid = Some d \<Longrightarrow> pc_peer_id d = pid" for pid d
    by (auto simp: l find_Some_iff)
  have "c \<in> set (peer_pool cs) \<longleftrightarrow> (\<exists>pid. fmlookup ?m pid = Some c)"
    by (force simp: peer_pool_def fm_entries_def image_iff fmlookup_dom_iff)
  also have "\<dots> \<longleftrightarrow> fmlookup ?m (pc_peer_id c) = Some c" using pid by metis
  finally show ?thesis by (simp add: l)
qed

lemma peer_pool_usable: "c \<in> set (peer_pool cs) \<Longrightarrow> c \<in> set cs \<and> usable c"
  by (auto simp: peer_pool_set find_Some_iff)


lemma peer_pool_distinct:
  "distinct (map pc_peer_id cs) \<Longrightarrow> c \<in> set cs \<Longrightarrow> usable c \<Longrightarrow> c \<in> set (peer_pool cs)"
  by (simp add: peer_pool_set find_Some_iff_distinct)

lemma selection_ok_take: "selection_ok policy cs sel \<Longrightarrow> selection_ok policy cs (take n sel)"
proof -
  assume ok: "selection_ok policy cs sel"
  have "bootstrap_count (take n sel) \<le> bootstrap_count (take n sel @ drop n sel)"
    by (simp only: bootstrap_count_def filter_append) simp
  then have "bootstrap_count (take n sel) \<le> bootstrap_count sel" by simp
  with ok show ?thesis
    by (auto simp: selection_ok_def list_all_iff take_map dest: in_set_takeD simp flip: take_map)
qed

subsection \<open>Properties\<close>

text \<open>
  A peer selection under a valid policy returns at most the target number of connections; all of
  them are usable candidates with distinct peer ids and enough uptime, and the limit on bootstrap
  nodes holds. When the candidates have distinct ids and fewer of them than the target come back, no
  usable candidate was left out that even the relaxed rules would have admitted.
\<close>
theorem peer_selection_sound:
  assumes "select_balanced_peers policy candidates = Ok sel"
  shows "length sel \<le> tp_target_connections policy \<and>
    set sel \<subseteq> {c \<in> set candidates. usable c} \<and> distinct (map pc_peer_id sel) \<and>
    (\<forall>c \<in> set sel. tp_minimum_uptime_bps policy \<le> pc_uptime_bps c) \<and>
    bootstrap_count sel \<le> tp_max_bootstrap_connections policy \<and>
    (distinct (map pc_peer_id candidates) \<and> length sel < tp_target_connections policy \<longrightarrow>
       (\<forall>c \<in> set candidates. usable c \<longrightarrow> \<not> slot_allowed policy True sel c))"
proof -
  let ?cs = "peer_pool candidates" and ?t = "tp_target_connections policy"
  define s3 where "s3 =
    (let s1 = fill_slots policy (sort_key nearby_key ?cs) (tp_nearby_slots policy) [] False;
         s2 = fill_slots policy (sort_key (diverse_key s1) ?cs) (tp_diversity_slots policy) s1 False
     in fill_slots policy (sort_key low_load_key ?cs) (tp_low_load_slots policy) s2 False)"
  define s4 where "s4 = fill_slots policy (sort_key fallback_key ?cs) (?t - length s3) s3 True"
  have valid: "traffic_policy_validate policy = Ok ()" and sel: "sel = take ?t s4"
    using assms by (auto simp: select_balanced_peers_def result_simps Let_def s4_def s3_def peer_pool_def)
  have t: "?t < 2 ^ 64"
    using valid mod_less_divisor [of "2 ^ 64" "tp_nearby_slots policy + tp_diversity_slots policy + tp_low_load_slots policy"]
    by (auto simp: traffic_policy_validate_def result_simps)
  have "selection_ok policy ?cs s4"
    by (auto simp: s4_def s3_def Let_def fill_slots_def intro!: fill_loop_ok)
  then have ok: "selection_ok policy ?cs sel" unfolding sel by (rule selection_ok_take)
  have "\<not> slot_allowed policy True sel c" if less: "length sel < ?t" and c: "c \<in> set ?cs" for c
  proof -
    have s4l: "length s4 < ?t" "s4 = sel" using less sel by auto
    obtain ys where ys: "s4 = s3 @ ys" using fill_loop_prefix unfolding s4_def fill_slots_def by blast
    then have "(length s3 + (?t - length s3)) mod 2 ^ 64 = ?t" using s4l t by simp
    then have s4': "s4 = fill_loop policy ?t True (sort_key fallback_key ?cs) s3"
      by (simp add: s4_def fill_slots_def)
    show ?thesis
      using fill_loop_maximal [of policy ?t "sort_key fallback_key ?cs" s3 c] s4l(1) c
      unfolding s4l(2) [symmetric] s4' by simp
  qed
  moreover have "length sel \<le> ?t" by (simp add: sel)
  moreover have "set sel \<subseteq> {c \<in> set candidates. usable c}"
    using ok peer_pool_usable by (auto simp: selection_ok_def)
  ultimately show ?thesis
    using ok peer_pool_distinct by (auto simp: selection_ok_def list_all_iff)
qed

text \<open>
  The selection does not depend on the order in which the candidates were discovered: two lists with
  the same candidates, each peer id once, give the same peers in the same order, or the same error.
\<close>
theorem peer_selection_order:
  assumes "distinct (map pc_peer_id candidates)" and "mset candidates = mset candidates'"
  shows "select_balanced_peers policy candidates = select_balanced_peers policy candidates'"
  unfolding select_balanced_peers_def by (simp only: unique_candidates_mset [OF assms])

definition sample_peer :: "string \<Rightarrow> peer_candidate" where
  "sample_peer name = \<lparr>pc_peer_id = name, pc_country_code = ''KR'', pc_asn = 1, pc_latency_ms = 5,
     pc_uptime_bps = 9000, pc_capacity = 10, pc_active_connections = 1, pc_is_bootstrap = False\<rparr>"

lemma sample_pool: "map snd (fm_entries (fmupd k v fmempty)) = [v]" for k :: string
  by (simp add: fm_entries_def sorted_list_of_fset.rep_eq)

theorem peer_selection_sound_witness:
  "select_balanced_peers traffic_policy_default [sample_peer ''a''] = Ok [sample_peer ''a''] \<and>
   \<not> slot_allowed traffic_policy_default True [sample_peer ''a''] (sample_peer ''a'')"
proof -
  have w: "is_blank ''a'' = False" "is_blank ''KR'' = False"
    by (simp_all add: is_blank_def all_white.simps ws_width_def)
  have e: "select_balanced_peers traffic_policy_default [sample_peer ''a''] = Ok [sample_peer ''a'']"
    by (simp add: select_balanced_peers_def traffic_policy_validate_def traffic_policy_default_def BPS_DENOMINATOR_def
        sample_pool Let_def usable_def w slot_allowed_def bootstrap_count_def country_count_def asn_count_def
        sample_peer_def fill_slots_def)
  have "usable (sample_peer ''a'')" by (simp add: usable_def sample_peer_def w)
  then show ?thesis using e peer_selection_sound [OF e] by (simp add: traffic_policy_default_def)
qed

theorem peer_selection_order_witness:
  "select_balanced_peers traffic_policy_default [sample_peer ''a'', sample_peer ''b''] =
   select_balanced_peers traffic_policy_default [sample_peer ''b'', sample_peer ''a'']"
  using peer_selection_order [of "[sample_peer ''a'', sample_peer ''b'']" "[sample_peer ''b'', sample_peer ''a'']"]
  by (simp add: sample_peer_def add_mset_commute)

end
