(* ===== verification/Validator_Policy.thy ===== *)
theory Validator_Policy
  imports Consensus_Era Iterators Sample
begin

text \<open>
  Selection of the validator set from registered candidates (\<open>src/validator_policy.rs\<close>): the policy,
  the checks of a candidate, eligibility by stake, by country rank or by approval, and the voting
  power of a selected validator. A \<open>HashMap\<close> of countries only collects the ranked ids, so the order
  in which its entries are visited does not matter and is the order of first appearance here.

  The lemmas show that a selection is a validator set that the BFT machine and the era manager
  accept, that it consists of the best eligible candidates, and that it depends only on the
  set of candidates.
\<close>

datatype policy_error =
    StakeRange | CountryRankZero | ValidatorLimits | PolicyUptimeRange | ZeroSupply
  | BadValidatorId | BadStakeAccount | CountryCodeMissing | EmptyEndpoint
  | DuplicateValidatorId | DuplicateStakeAccount | TooFewSelected nat

definition POLICY_BPS_DENOMINATOR :: u128 where
  "POLICY_BPS_DENOMINATOR = 10000"

record validator_candidate =
  vc_validator_id :: string
  vc_stake_account :: string
  vc_delegated_stake :: u128
  vc_country_code :: "string option"
  vc_identity_country_verified :: bool
  vc_ownership_proof_verified :: bool
  vc_node_endpoint :: "string option"
  vc_observed_epochs :: u64
  vc_uptime_bps :: u16
  vc_administrator_approved :: bool
  vc_blocked :: bool

record validator_policy =
  vp_min_stake_bps :: u16
  vp_country_rank_limit :: u16
  vp_max_validators :: nat
  vp_min_validators :: nat
  vp_min_uptime_bps :: u16

definition validator_policy_default :: validator_policy where
  "validator_policy_default =
     \<lparr>vp_min_stake_bps = 100, vp_country_rank_limit = 50, vp_max_validators = 50, vp_min_validators = 4,
      vp_min_uptime_bps = 9500\<rparr>"

record selected_validator =
  sv_validator :: validator
  sv_stake :: u128

definition validator_policy_validate :: "validator_policy \<Rightarrow> (unit, policy_error) result" where
  "validator_policy_validate p =
     and_then (ensure (\<not> (vp_min_stake_bps p = 0 \<or> ucast (vp_min_stake_bps p) > POLICY_BPS_DENOMINATOR)) StakeRange) (\<lambda>_.
     and_then (ensure (vp_country_rank_limit p \<noteq> 0) CountryRankZero) (\<lambda>_.
     and_then (ensure (\<not> (vp_min_validators p < 4 \<or> vp_max_validators p < vp_min_validators p)) ValidatorLimits) (\<lambda>_.
     ensure (\<not> vp_min_uptime_bps p > 10000) PolicyUptimeRange)))"

definition validate_candidate :: "externals \<Rightarrow> validator_candidate \<Rightarrow> (unit, policy_error) result" where
  "validate_candidate X c =
     and_then (ensure (case hex_decode X (vc_validator_id c) of None \<Rightarrow> False | Some bytes \<Rightarrow> length bytes = 32)
       BadValidatorId) (\<lambda>_.
     let account = trim_start_0x (vc_stake_account c) in
     and_then (ensure (\<not> (length account \<noteq> 40 \<or> hex_decode X account = None)) BadStakeAccount) (\<lambda>_.
     and_then (ensure (\<not> (vc_identity_country_verified c \<and>
         length (case vc_country_code c of None \<Rightarrow> [] | Some code \<Rightarrow> code) \<noteq> 2)) CountryCodeMissing) (\<lambda>_.
     ensure (vc_node_endpoint c \<noteq> Some []) EmptyEndpoint)))"

definition normalize_account :: "string \<Rightarrow> string" where
  "normalize_account a = ''0x'' @ to_ascii_lowercase (trim_start_0x a)"

definition voting_power :: "u128 \<Rightarrow> u128 \<Rightarrow> u64" where
  "voting_power stake circulating_supply =
     (let proportional = max (case checked_div (saturating_mul stake 1000000) circulating_supply of
            None \<Rightarrow> 0 | Some q \<Rightarrow> q) 1
      in ucast (min proportional (ucast (- 1 :: u64))))"

type_synonym eligible = "validator_candidate \<times> u128 \<times> bool"

definition excluded :: "validator_policy \<Rightarrow> validator_candidate \<Rightarrow> bool" where
  "excluded p c \<longleftrightarrow> vc_blocked c \<or> \<not> vc_ownership_proof_verified c \<or> vc_node_endpoint c = None \<or>
     (vc_observed_epochs c > 0 \<and> vc_uptime_bps c < vp_min_uptime_bps p)"

definition candidate_stake :: "(string, u128) fmap \<Rightarrow> validator_candidate \<Rightarrow> u128" where
  "candidate_stake balances c =
     saturating_add (get0 balances (normalize_account (vc_stake_account c))) (vc_delegated_stake c)"

definition minimum_stake :: "validator_policy \<Rightarrow> u128 \<Rightarrow> u128 \<Rightarrow> bool" where
  "minimum_stake p supply stake \<longleftrightarrow>
     saturating_mul stake POLICY_BPS_DENOMINATOR \<ge> saturating_mul supply (ucast (vp_min_stake_bps p))"

definition screen_candidate ::
  "externals \<Rightarrow> validator_policy \<Rightarrow> (string, u128) fmap \<Rightarrow> u128 \<Rightarrow> validator_candidate
     \<Rightarrow> string fset \<times> string fset \<times> eligible list
     \<Rightarrow> (string fset \<times> string fset \<times> eligible list, policy_error) result" where
  "screen_candidate X p balances supply c = (\<lambda>(ids, accounts, el).
     and_then (validate_candidate X c) (\<lambda>_.
     and_then (ensure (vc_validator_id c |\<notin>| ids) DuplicateValidatorId) (\<lambda>_.
     let account = normalize_account (vc_stake_account c) in
     and_then (ensure (account |\<notin>| accounts) DuplicateStakeAccount) (\<lambda>_.
     let ids' = finsert (vc_validator_id c) ids; accounts' = finsert account accounts in
     if excluded p c then Ok (ids', accounts', el)
     else
       let stake = candidate_stake balances c in
       Ok (ids', accounts', el @ [(c, stake, minimum_stake p supply stake)])))))"

definition country_of :: "eligible \<Rightarrow> string option" where
  "country_of = (\<lambda>(c, _, _). if vc_identity_country_verified c then vc_country_code c else None)"

definition rank_key :: "eligible \<Rightarrow> nat \<times> string" where
  "rank_key = (\<lambda>(c, stake, _). (desc stake, vc_validator_id c))"

definition country_top :: "validator_policy \<Rightarrow> eligible list \<Rightarrow> string \<Rightarrow> string list" where
  "country_top p el country =
     map (vc_validator_id \<circ> fst)
       (take (unat (vp_country_rank_limit p)) (sort_key rank_key (filter (\<lambda>e. country_of e = Some country) el)))"

definition country_ranked :: "validator_policy \<Rightarrow> eligible list \<Rightarrow> string set" where
  "country_ranked p el = set (concat (map (country_top p el) (remdups (List.map_filter country_of el))))"

definition admitted :: "validator_policy \<Rightarrow> eligible list \<Rightarrow> eligible \<Rightarrow> bool" where
  "admitted p el = (\<lambda>(c, _, has_minimum_stake).
     has_minimum_stake \<or> vc_validator_id c \<in> country_ranked p el \<or> vc_administrator_approved c)"

definition to_selected :: "u128 \<Rightarrow> eligible \<Rightarrow> selected_validator" where
  "to_selected supply = (\<lambda>(c, stake, _).
     \<lparr>sv_validator = \<lparr>val_id = vc_validator_id c, val_voting_power = voting_power stake supply\<rparr>, sv_stake = stake\<rparr>)"

definition selected_key :: "selected_validator \<Rightarrow> nat \<times> string" where
  "selected_key s = (desc (sv_stake s), val_id (sv_validator s))"

definition select_validators ::
  "externals \<Rightarrow> validator_policy \<Rightarrow> validator_candidate list \<Rightarrow> (string, u128) fmap \<Rightarrow> u128
     \<Rightarrow> (selected_validator list, policy_error) result" where
  "select_validators X p candidates balances supply =
     and_then (validator_policy_validate p) (\<lambda>_.
     and_then (ensure (supply \<noteq> 0) ZeroSupply) (\<lambda>_.
     and_then (for_each (screen_candidate X p balances supply) candidates ({||}, {||}, [])) (\<lambda>(_, _, el).
     let selected = take (vp_max_validators p)
           (sort_key selected_key (map (to_selected supply) (filter (admitted p el) el)))
     in if length selected < vp_min_validators p then Err (TooFewSelected (length selected)) else Ok selected)))"

subsection \<open>Lemmas: screening\<close>

definition eligible_of :: "validator_policy \<Rightarrow> (string, u128) fmap \<Rightarrow> u128 \<Rightarrow> validator_candidate \<Rightarrow> eligible" where
  "eligible_of p balances supply c =
     (c, candidate_stake balances c, minimum_stake p supply (candidate_stake balances c))"

definition eligibles ::
  "validator_policy \<Rightarrow> (string, u128) fmap \<Rightarrow> u128 \<Rightarrow> validator_candidate list \<Rightarrow> eligible list" where
  "eligibles p balances supply cs = map (eligible_of p balances supply) (filter (\<lambda>c. \<not> excluded p c) cs)"

definition screened :: "externals \<Rightarrow> validator_candidate list \<Rightarrow> bool" where
  "screened X cs \<longleftrightarrow> (\<forall>c \<in> set cs. validate_candidate X c = Ok ()) \<and> distinct (map vc_validator_id cs) \<and>
     distinct (map (normalize_account \<circ> vc_stake_account) cs)"

lemma screen_candidate_Ok:
  "screen_candidate X p b s c (ids, accs, el) = Ok st \<longleftrightarrow>
     validate_candidate X c = Ok () \<and> vc_validator_id c |\<notin>| ids \<and>
     normalize_account (vc_stake_account c) |\<notin>| accs \<and>
     st = (finsert (vc_validator_id c) ids, finsert (normalize_account (vc_stake_account c)) accs,
           el @ (if excluded p c then [] else [eligible_of p b s c]))"
  by (auto simp: screen_candidate_def Let_def result_simps eligible_of_def)

lemma screen_candidates_Ok:
  "for_each (screen_candidate X p b s) cs (ids, accs, el) = Ok st \<longleftrightarrow>
     screened X cs \<and> vc_validator_id ` set cs \<inter> fset ids = {} \<and>
     (normalize_account \<circ> vc_stake_account) ` set cs \<inter> fset accs = {} \<and>
     st = (ids |\<union>| fset_of_list (map vc_validator_id cs),
           accs |\<union>| fset_of_list (map (normalize_account \<circ> vc_stake_account) cs), el @ eligibles p b s cs)"
proof (induction cs arbitrary: ids accs el)
  case Nil
  then show ?case by (auto simp: screened_def eligibles_def)
next
  case (Cons c cs)
  show ?case
    unfolding for_each.simps and_then_Ok
    by (auto simp: screen_candidate_Ok Cons.IH screened_def eligibles_def)
qed

lemma select_validators_Ok:
  "select_validators X p cs b s = Ok sel \<longleftrightarrow>
     validator_policy_validate p = Ok () \<and> s \<noteq> 0 \<and> screened X cs \<and> \<not> length sel < vp_min_validators p \<and>
     sel = take (vp_max_validators p) (sort_key selected_key
       (map (to_selected s) (filter (admitted p (eligibles p b s cs)) (eligibles p b s cs))))"
  by (auto simp: select_validators_def result_simps Let_def screen_candidates_Ok split: if_splits)

lemma eligibles_ids:
  "map (vc_validator_id \<circ> fst) (eligibles p b s cs) = map vc_validator_id (filter (\<lambda>c. \<not> excluded p c) cs)"
  by (simp add: eligibles_def eligible_of_def comp_def)

lemma eligibles_distinct:
  "screened X cs \<Longrightarrow> distinct (map (vc_validator_id \<circ> fst) (eligibles p b s cs))"
  unfolding eligibles_ids screened_def by (simp add: distinct_map_filter)

subsection \<open>Lemmas: independence of order\<close>

lemma inj_on_keys:
  assumes "distinct (map g xs)" and "\<And>x y. k x = k y \<Longrightarrow> g x = g y"
  shows "inj_on k (set xs)"
proof (rule inj_onI)
  fix x y assume xy: "x \<in> set xs" "y \<in> set xs" "k x = k y"
  have "inj_on g (set xs)" using assms(1) by (simp add: distinct_map)
  then show "x = y" using xy assms(2) [OF xy(3)] by (simp add: inj_on_eq_iff)
qed

lemma rank_key_id: "rank_key e = rank_key f \<Longrightarrow> (vc_validator_id \<circ> fst) e = (vc_validator_id \<circ> fst) f"
  by (auto simp: rank_key_def split: prod.splits)

lemma selected_key_id: "selected_key v = selected_key w \<Longrightarrow> (val_id \<circ> sv_validator) v = (val_id \<circ> sv_validator) w"
  by (simp add: selected_key_def)

lemma to_selected_id: "val_id (sv_validator (to_selected s e)) = (vc_validator_id \<circ> fst) e"
  by (simp add: to_selected_def split: prod.splits)

lemma eligibles_mset: "mset cs = mset ds \<Longrightarrow> mset (eligibles p b s cs) = mset (eligibles p b s ds)"
  by (simp add: eligibles_def mset_filter)

lemma country_top_mset:
  assumes "mset el = mset el'" and "distinct (map (vc_validator_id \<circ> fst) el)"
  shows "country_top p el c = country_top p el' c"
proof -
  let ?f = "filter (\<lambda>e. country_of e = Some c)"
  have "sort_key rank_key (?f el) = sort_key rank_key (?f el')"
  proof (rule sort_key_eq_sort_key)
    show "mset (?f el) = mset (?f el')" using assms(1) by (simp add: mset_filter)
    show "inj_on rank_key (set (?f el))"
      by (rule inj_on_keys [OF distinct_map_filter [OF assms(2)] rank_key_id])
  qed
  then show ?thesis by (simp add: country_top_def)
qed

lemma country_ranked_mset:
  assumes "mset el = mset el'" and "distinct (map (vc_validator_id \<circ> fst) el)"
  shows "country_ranked p el = country_ranked p el'"
proof -
  have "set el = set el'" using assms(1) by (rule mset_eq_setD)
  then have "set (List.map_filter country_of el) = set (List.map_filter country_of el')"
    by (auto simp: List.map_filter_def)
  then show ?thesis using country_top_mset [OF assms] by (simp add: country_ranked_def)
qed

lemma admitted_mset:
  assumes "mset el = mset el'" and "distinct (map (vc_validator_id \<circ> fst) el)"
  shows "mset (filter (admitted p el) el) = mset (filter (admitted p el') el')"
  using assms by (simp add: admitted_def country_ranked_mset [OF assms] mset_filter)

lemma selected_ids_distinct:
  "screened X cs \<Longrightarrow> distinct (map (val_id \<circ> sv_validator)
     (map (to_selected s) (filter (admitted p (eligibles p b s cs)) (eligibles p b s cs))))"
  using distinct_map_filter [OF eligibles_distinct] by (simp add: comp_def to_selected_id [unfolded comp_def])

lemma select_validators_mset:
  assumes "select_validators X p cs b s = Ok sel" and "mset cs = mset ds"
  shows "select_validators X p ds b s = Ok sel"
proof -
  let ?S = "\<lambda>cs. map (to_selected s) (filter (admitted p (eligibles p b s cs)) (eligibles p b s cs))"
  have scr: "screened X cs" and sel: "sel = take (vp_max_validators p) (sort_key selected_key (?S cs))"
    using assms(1) unfolding select_validators_Ok by blast+
  have "screened X ds"
    using scr assms(2) mset_eq_setD [OF assms(2)] unfolding screened_def
    by (metis mset_eq_imp_distinct_iff mset_map)
  moreover have "sort_key selected_key (?S cs) = sort_key selected_key (?S ds)"
  proof (rule sort_key_eq_sort_key)
    show "mset (?S cs) = mset (?S ds)"
      using admitted_mset [OF eligibles_mset [OF assms(2)] eligibles_distinct [OF scr]] by simp
    show "inj_on selected_key (set (?S cs))"
      by (rule inj_on_keys [OF selected_ids_distinct [OF scr] selected_key_id])
  qed
  ultimately show ?thesis using assms(1) sel unfolding select_validators_Ok by simp
qed

subsection \<open>Lemmas: the selected set\<close>

lemma voting_power_pos: "voting_power stake supply \<noteq> 0"
proof -
  define q where "q = max (case checked_div (saturating_mul stake 1000000) supply of None \<Rightarrow> 0 | Some q \<Rightarrow> q) 1"
  define r where "r = min q (ucast (- 1 :: u64))"
  have "unat (ucast (- 1 :: u64) :: u128) = 2 ^ 64 - 1" by (simp add: unat_ucast_u128 unat_max_word)
  then have "unat r = min (unat q) (2 ^ 64 - 1)" unfolding r_def min_def word_le_nat_alt by simp
  moreover have "1 \<le> unat q" unfolding q_def max_def word_le_nat_alt by simp
  ultimately have "1 \<le> unat r" "unat r < 2 ^ 64" by simp_all
  then have "unat (ucast r :: u64) = unat r" by (simp add: unsigned_ucast_eq take_bit_nat_eq_self)
  then have "unat (voting_power stake supply) = unat r"
    by (simp add: voting_power_def Let_def flip: q_def r_def)
  with \<open>1 \<le> unat r\<close> show ?thesis by auto
qed

lemma voting_power_bound:
  assumes "supply \<noteq> 0" and "stake \<le> supply"
  shows "unat (voting_power stake supply) \<le> 1000000"
proof -
  have s: "0 < unat supply" using assms(1) by (simp add: unat_gt_0)
  have "unat (saturating_mul stake 1000000) \<le> unat stake * 1000000" by (simp add: unat_saturating_mul)
  also have "\<dots> \<le> 1000000 * unat supply" using assms(2) by (simp add: word_le_nat_alt)
  finally have "unat (saturating_mul stake 1000000) div unat supply \<le> 1000000"
    using s by (metis div_le_mono nonzero_mult_div_cancel_right not_gr_zero)
  then have "unat (max (saturating_mul stake 1000000 div supply) 1) \<le> 1000000"
    by (simp add: max_def unat_div)
  then have "unat (min (max (saturating_mul stake 1000000 div supply) 1) (ucast (- 1 :: u64))) \<le> 1000000"
    by (meson le_trans min.cobounded1 word_le_nat_alt)
  note bound = this
  have cast: "unat (ucast w :: u64) \<le> unat w" for w :: u128
    by (simp add: unsigned_ucast_eq take_bit_nat_less_eq_self)
  have "voting_power stake supply =
      ucast (min (max (saturating_mul stake 1000000 div supply) 1) (ucast (- 1 :: u64)))"
    using assms(1) by (simp add: voting_power_def checked_div_def)
  then show ?thesis using order_trans [OF cast bound] by (simp only:)
qed

lemma add_validators_ok:
  "distinct (map val_id vs) \<Longrightarrow> \<forall>v \<in> set vs. val_voting_power v \<noteq> 0 \<Longrightarrow> val_id ` set vs \<inter> fset (fmdom m) = {} \<Longrightarrow>
   \<exists>m'. for_each add_validator vs m = Ok m'"
proof (induction vs arbitrary: m)
  case (Cons v vs)
  then show ?case
    using Cons.IH [of "fmupd (val_id v) (val_voting_power v) m"] by (auto simp: add_validator_def)
qed simp

lemma bft_new_valid:
  assumes "set_valid vs"
  shows "\<exists>s. bft_new vs = Ok s"
proof -
  obtain m where "for_each add_validator vs fmempty = Ok m"
    using add_validators_ok [of vs fmempty] assms by (auto simp: set_valid_def)
  moreover have "vs \<noteq> []" using assms by (auto simp: set_valid_def)
  ultimately show ?thesis by (simp add: bft_new_def)
qed

lemma powers_sum_le: "(\<And>v. v \<in> set vs \<Longrightarrow> unat (val_voting_power v) \<le> k) \<Longrightarrow> powers_sum vs \<le> k * length vs"
proof (induction vs)
  case (Cons v vs)
  then have "powers_sum vs \<le> k * length vs" "unat (val_voting_power v) \<le> k" by simp_all
  then show ?case by (simp add: powers_sum_def)
qed (simp add: powers_sum_def)

text \<open>The admitted candidates as selected validators, best first, before the list is cut.\<close>

definition ranking :: "validator_policy \<Rightarrow> (string, u128) fmap \<Rightarrow> u128 \<Rightarrow> validator_candidate list \<Rightarrow> selected_validator list" where
  "ranking p b s cs = sort_key selected_key
     (map (to_selected s) (filter (admitted p (eligibles p b s cs)) (eligibles p b s cs)))"

lemma ranking_distinct: "screened X cs \<Longrightarrow> distinct (map (val_id \<circ> sv_validator) (ranking p b s cs))"
  unfolding ranking_def distinct_map_sort_key by (rule selected_ids_distinct)

lemma ranking_member:
  assumes "v \<in> set (ranking p b s cs)"
  shows "\<exists>c \<in> set cs. \<not> excluded p c \<and> val_id (sv_validator v) = vc_validator_id c \<and>
       sv_stake v = candidate_stake b c \<and> val_voting_power (sv_validator v) = voting_power (sv_stake v) s"
proof -
  obtain c where "c \<in> set cs" "\<not> excluded p c" "v = to_selected s (eligible_of p b s c)"
    using assms by (auto simp: ranking_def eligibles_def)
  then show ?thesis by (auto simp: to_selected_def eligible_of_def)
qed

lemma ranking_complete:
  assumes "c \<in> set cs" and "\<not> excluded p c" and "minimum_stake p s (candidate_stake b c) \<or> vc_administrator_approved c"
  obtains v where "v \<in> set (ranking p b s cs)" "val_id (sv_validator v) = vc_validator_id c" "sv_stake v = candidate_stake b c"
proof -
  let ?e = "eligible_of p b s c" and ?el = "eligibles p b s cs"
  have "?e \<in> set ?el" using assms by (auto simp: eligibles_def)
  moreover have "admitted p ?el ?e" using assms(3) by (auto simp: admitted_def eligible_of_def)
  ultimately have "to_selected s ?e \<in> set (ranking p b s cs)" by (auto simp: ranking_def)
  then show ?thesis using that by (simp add: to_selected_def eligible_of_def)
qed

lemma ranking_cut:
  assumes "v \<in> set (ranking p b s cs)" and "v \<notin> set (take n (ranking p b s cs))"
  shows "n < length (ranking p b s cs)" and "w \<in> set (take n (ranking p b s cs)) \<Longrightarrow> sv_stake v \<le> sv_stake w"
proof -
  have drop: "v \<in> set (drop n (ranking p b s cs))"
    using assms by (metis Un_iff append_take_drop_id set_append)
  then show "n < length (ranking p b s cs)" by (cases "n < length (ranking p b s cs)") auto
  assume "w \<in> set (take n (ranking p b s cs))"
  then show "sv_stake v \<le> sv_stake w"
    using sorted_key_take_drop [of w n selected_key] drop unfolding ranking_def
    by (fastforce simp: selected_key_def less_eq_prod_def)
qed

subsection \<open>Properties\<close>

text \<open>
  A successful selection is a validator set on which the BFT machine starts and which the era
  manager accepts: between four and the maximum number of validators, distinct, with positive
  power. Every member is a candidate that is not excluded, with the stake and power computed from the
  balances; and a candidate with the minimum stake or an approval is left out only when the set is
  full and every member has at least its stake. When no stake exceeds the supply, the total power is at
  most a million per validator, so the machine's sum of powers cannot wrap around.
\<close>
theorem validator_selection_sound:
  assumes "select_validators X p cs b s = Ok sel"
  shows "set_valid (map sv_validator sel) \<and> is_ok (bft_new (map sv_validator sel)) \<and>
    length sel \<le> vp_max_validators p \<and>
    (\<forall>v \<in> set sel. \<exists>c \<in> set cs. \<not> excluded p c \<and> val_id (sv_validator v) = vc_validator_id c \<and>
       sv_stake v = candidate_stake b c \<and> val_voting_power (sv_validator v) = voting_power (sv_stake v) s) \<and>
    (\<forall>c \<in> set cs. \<not> excluded p c \<and> (minimum_stake p s (candidate_stake b c) \<or> vc_administrator_approved c) \<and>
       vc_validator_id c \<notin> (val_id \<circ> sv_validator) ` set sel \<longrightarrow>
       length sel = vp_max_validators p \<and> (\<forall>v \<in> set sel. candidate_stake b c \<le> sv_stake v)) \<and>
    ((\<forall>v \<in> set sel. sv_stake v \<le> s) \<longrightarrow> powers_sum (map sv_validator sel) \<le> 1000000 * length sel)"
proof -
  let ?R = "ranking p b s cs" and ?n = "vp_max_validators p"
  have valid: "validator_policy_validate p = Ok ()" and s: "s \<noteq> 0" and scr: "screened X cs"
    and len: "\<not> length sel < vp_min_validators p" and sel: "sel = take ?n ?R"
    using assms unfolding select_validators_Ok ranking_def by blast+
  have min4: "4 \<le> vp_min_validators p" using valid by (auto simp: validator_policy_validate_def result_simps)
  have member: "\<forall>v \<in> set sel. \<exists>c \<in> set cs. \<not> excluded p c \<and> val_id (sv_validator v) = vc_validator_id c \<and>
       sv_stake v = candidate_stake b c \<and> val_voting_power (sv_validator v) = voting_power (sv_stake v) s"
    using ranking_member by (auto simp: sel dest: in_set_takeD)
  have "distinct (map (val_id \<circ> sv_validator) sel)"
    unfolding sel take_map [symmetric] by (rule distinct_take [OF ranking_distinct [OF scr]])
  moreover have "\<forall>v \<in> set sel. val_voting_power (sv_validator v) \<noteq> 0" using member voting_power_pos by metis
  ultimately have ok: "set_valid (map sv_validator sel)" using len min4 by (auto simp: set_valid_def comp_def)
  have best: "length sel = ?n \<and> (\<forall>v \<in> set sel. candidate_stake b c \<le> sv_stake v)"
    if c: "c \<in> set cs" "\<not> excluded p c" "minimum_stake p s (candidate_stake b c) \<or> vc_administrator_approved c"
      and out: "vc_validator_id c \<notin> (val_id \<circ> sv_validator) ` set sel" for c
  proof -
    obtain v where v: "v \<in> set ?R" "val_id (sv_validator v) = vc_validator_id c" "sv_stake v = candidate_stake b c"
      using ranking_complete [OF c] by blast
    then have "v \<notin> set (take ?n ?R)" using out by (force simp: sel)
    then show ?thesis using ranking_cut [OF v(1)] v(3) by (auto simp: sel)
  qed
  have "powers_sum (map sv_validator sel) \<le> 1000000 * length (map sv_validator sel)" if "\<forall>v \<in> set sel. sv_stake v \<le> s"
    using member voting_power_bound [OF s] that by (intro powers_sum_le) (clarsimp, metis)
  then show ?thesis using ok bft_new_valid [OF ok] member best by (auto simp: is_ok_iff sel)
qed

definition sample_candidate :: "string \<Rightarrow> validator_candidate" where
  "sample_candidate name = \<lparr>vc_validator_id = name, vc_stake_account = ''0x'' @ replicate 37 (CHR ''1'') @ name,
     vc_delegated_stake = 10, vc_country_code = None, vc_identity_country_verified = False,
     vc_ownership_proof_verified = True, vc_node_endpoint = Some ''n'', vc_observed_epochs = 0, vc_uptime_bps = 0,
     vc_administrator_approved = True, vc_blocked = False\<rparr>"

definition sample_candidates :: "validator_candidate list" where
  "sample_candidates = map sample_candidate [''aaa'', ''bbb'', ''ccc'', ''ddd'']"

lemma sample_account: "trim_start_0x (vc_stake_account (sample_candidate n)) = replicate 37 (CHR ''1'') @ n"
  by (simp add: sample_candidate_def trim_start_0x_step) (simp add: trim_start_0x_id numeral_eq_Suc)

lemma sample_selection:
  "\<exists>sel. select_validators permissive_externals validator_policy_default sample_candidates fmempty 1000 = Ok sel"
proof -
  have "validate_candidate permissive_externals (sample_candidate n) = Ok ()" if "length n = 3" for n
    using that by (simp add: validate_candidate_def sample_account Let_def)
      (simp add: sample_candidate_def permissive_externals_def)
  then have "screened permissive_externals sample_candidates"
    by (simp add: screened_def sample_candidates_def normalize_account_def sample_account)
      (simp add: sample_candidate_def to_ascii_lowercase_def ascii_lower_def less_eq_char_def)
  moreover have "length (filter (admitted p (eligibles p b s sample_candidates)) (eligibles p b s sample_candidates)) = 4" for p b s
    by (simp add: eligibles_def sample_candidates_def admitted_def eligible_of_def excluded_def sample_candidate_def)
  ultimately show ?thesis
    unfolding select_validators_Ok
    by (simp add: validator_policy_validate_def validator_policy_default_def POLICY_BPS_DENOMINATOR_def)
qed

theorem validator_selection_sound_witness:
  "\<exists>sel. select_validators permissive_externals validator_policy_default sample_candidates fmempty 1000 = Ok sel \<and>
     is_ok (bft_new (map sv_validator sel))"
proof -
  obtain sel where sel: "select_validators permissive_externals validator_policy_default sample_candidates fmempty 1000 = Ok sel"
    using sample_selection by blast
  with validator_selection_sound [OF sel] show ?thesis by blast
qed

text \<open>
  The selection depends only on the set of candidates: nodes that hold the same candidates in
  different orders select the same validators, in the same order and with the same power.
\<close>
theorem validator_selection_order:
  assumes "select_validators X p cs b s = Ok sel" and "mset cs = mset ds"
  shows "select_validators X p ds b s = Ok sel"
  using assms by (rule select_validators_mset)

theorem validator_selection_order_witness:
  "\<exists>sel. select_validators permissive_externals validator_policy_default sample_candidates fmempty 1000 = Ok sel \<and>
     select_validators permissive_externals validator_policy_default (rev sample_candidates) fmempty 1000 = Ok sel"
proof -
  obtain sel where sel: "select_validators permissive_externals validator_policy_default sample_candidates fmempty 1000 = Ok sel"
    using sample_selection by blast
  with validator_selection_order [OF sel, of "rev sample_candidates"] show ?thesis by simp
qed

end
