(* ===== verification/Account_Security.thy ===== *)
theory Account_Security
  imports Prelude
begin

text \<open>
  Weighted multi-key accounts (\<open>src/account_security.rs\<close>): policies with a threshold per permission,
  authorizations by sets of keys, and account recovery requests.

  The abstract specification of an authorization is the weight of a set of keys, a sum of natural
  numbers over the policy's keys; the lemmas show that the code's sums of 32-bit words over a list
  implement it, and that a valid policy can always be satisfied.
\<close>

datatype permission = Transfer | HighValueTransfer | ValidatorPermission | AccountRecovery

datatype account_error =
    NoAccountKeys | BadAccountKeys | ThresholdTooHigh | StalePolicy | NoThreshold | WeightTooLow
  | RecoveryTooEarly | NoNewKeys

record account_key =
  ak_public_key :: string
  ak_weight :: u16
  ak_permissions :: "permission fset"

record account_policy =
  ap_keys :: "account_key list"
  ap_thresholds :: "(permission, u16) fmap"
  ap_high_value_amount :: u128
  ap_policy_nonce :: u64

record authorization =
  au_policy_nonce :: u64
  au_signer_keys :: "string list"

definition weight_sum :: "account_key list \<Rightarrow> u32" where
  "weight_sum ks = wrapping_sum (map (\<lambda>k. ucast (ak_weight k)) ks)"

definition threshold_reachable :: "account_policy \<Rightarrow> permission \<Rightarrow> bool" where
  "threshold_reachable p perm =
     (case fmlookup (ap_thresholds p) perm of
        None \<Rightarrow> True
      | Some threshold \<Rightarrow>
        let available = weight_sum (filter (\<lambda>k. perm |\<in>| ak_permissions k) (ap_keys p)) in
        \<not> (threshold = 0 \<or> ucast threshold > available))"

definition account_policy_validate :: "account_policy \<Rightarrow> (unit, account_error) result" where
  "account_policy_validate p =
     and_then (ensure (ap_keys p \<noteq> []) NoAccountKeys) (\<lambda>_.
     and_then (ensure (list_all (\<lambda>k. ak_weight k \<noteq> 0) (ap_keys p) \<and> distinct (map ak_public_key (ap_keys p)))
       BadAccountKeys) (\<lambda>_.
     ensure (list_all (threshold_reachable p) [Transfer, HighValueTransfer, ValidatorPermission, AccountRecovery])
       ThresholdTooHigh))"

definition authorize :: "account_policy \<Rightarrow> permission \<Rightarrow> authorization \<Rightarrow> (unit, account_error) result" where
  "authorize p perm a =
     and_then (account_policy_validate p) (\<lambda>_.
     and_then (ensure (au_policy_nonce a = ap_policy_nonce p) StalePolicy) (\<lambda>_.
     and_then (ok_or (fmlookup (ap_thresholds p) perm) NoThreshold) (\<lambda>threshold.
     let weight = weight_sum (filter (\<lambda>k. ak_public_key k \<in> set (au_signer_keys a) \<and> perm |\<in>| ak_permissions k) (ap_keys p))
     in ensure (\<not> weight < ucast threshold) WeightTooLow)))"

definition transfer_permission :: "account_policy \<Rightarrow> u128 \<Rightarrow> permission" where
  "transfer_permission p amount = (if amount \<ge> ap_high_value_amount p then HighValueTransfer else Transfer)"

record recovery_request =
  rq_account :: string
  rq_new_keys :: "account_key list"
  rq_execute_after_height :: u64
  rq_authorization :: authorization

definition recovery_request_verify ::
  "recovery_request \<Rightarrow> account_policy \<Rightarrow> u64 \<Rightarrow> (unit, account_error) result" where
  "recovery_request_verify r p current_height =
     and_then (ensure (\<not> current_height < rq_execute_after_height r) RecoveryTooEarly) (\<lambda>_.
     and_then (ensure (rq_new_keys r \<noteq> []) NoNewKeys) (\<lambda>_.
     authorize p AccountRecovery (rq_authorization r)))"

subsection \<open>The specification of an authorization\<close>

definition key_weight :: "account_policy \<Rightarrow> permission \<Rightarrow> string set \<Rightarrow> nat" where
  "key_weight p perm S =
     (\<Sum>k | k \<in> set (ap_keys p) \<and> ak_public_key k \<in> S \<and> perm |\<in>| ak_permissions k. unat (ak_weight k))"

definition policy_ok :: "account_policy \<Rightarrow> bool" where
  "policy_ok p \<longleftrightarrow> ap_keys p \<noteq> [] \<and> (\<forall>k \<in> set (ap_keys p). ak_weight k \<noteq> 0) \<and>
     distinct (map ak_public_key (ap_keys p)) \<and>
     (\<forall>perm t. fmlookup (ap_thresholds p) perm = Some t \<longrightarrow> t \<noteq> 0 \<and> unat t \<le> key_weight p perm UNIV)"

subsection \<open>Lemmas\<close>

lemma unat_ucast_u32: "unat (ucast (w :: u16) :: u32) = unat w"
proof -
  have "unat w < 2 ^ 32" using unat_lt [of w] by simp
  then show ?thesis by (simp add: unsigned_ucast_eq take_bit_eq_mod)
qed

lemma weights_bound: "sum_list (map (\<lambda>k. unat (ak_weight k)) ks) \<le> length ks * (2 ^ 16 - 1)"
proof (induction ks)
  case (Cons k ks)
  then show ?case using unat_lt [of "ak_weight k"] by simp
qed simp

lemma weight_sum_exact:
  assumes "length ks \<le> 2 ^ 16"
  shows "unat (weight_sum ks) = sum_list (map (\<lambda>k. unat (ak_weight k)) ks)"
proof -
  have "sum_list (map (\<lambda>k. unat (ak_weight k)) ks) < 2 ^ 32"
    using weights_bound [of ks] assms by simp
  then show ?thesis by (simp add: weight_sum_def unat_wrapping_sum comp_def unat_ucast_u32)
qed

lemma weight_sum_filter:
  assumes "length (ap_keys p) \<le> 2 ^ 16" and "distinct (map ak_public_key (ap_keys p))"
  shows "unat (weight_sum (filter (\<lambda>k. ak_public_key k \<in> S \<and> perm |\<in>| ak_permissions k) (ap_keys p))) = key_weight p perm S"
proof -
  let ?ks = "filter (\<lambda>k. ak_public_key k \<in> S \<and> perm |\<in>| ak_permissions k) (ap_keys p)"
  have "length ?ks \<le> 2 ^ 16" using assms(1) by (meson le_trans length_filter_le)
  moreover have "distinct ?ks" using assms(2) by (simp add: distinct_map)
  ultimately have "unat (weight_sum ?ks) = (\<Sum>k \<in> set ?ks. unat (ak_weight k))"
    by (simp only: weight_sum_exact sum_list_distinct_conv_sum_set)
  then show ?thesis by (simp add: key_weight_def conj_commute)
qed

lemma key_weight_mono: "S \<subseteq> T \<Longrightarrow> key_weight p perm S \<le> key_weight p perm T"
  unfolding key_weight_def by (intro sum_mono2) auto

lemma account_policy_validate_Ok:
  assumes "length (ap_keys p) \<le> 2 ^ 16"
  shows "account_policy_validate p = Ok () \<longleftrightarrow> policy_ok p"
proof -
  have reach: "threshold_reachable p perm \<longleftrightarrow>
      (\<forall>t. fmlookup (ap_thresholds p) perm = Some t \<longrightarrow> t \<noteq> 0 \<and> unat t \<le> key_weight p perm UNIV)"
    if "distinct (map ak_public_key (ap_keys p))" for perm
    using weight_sum_filter [OF assms that, of UNIV perm]
    by (auto simp: threshold_reachable_def Let_def word_less_nat_alt unat_ucast_u32 split: option.splits)
  have all: "list_all P [Transfer, HighValueTransfer, ValidatorPermission, AccountRecovery] \<longleftrightarrow> (\<forall>perm. P perm)" for P
    by (simp, metis permission.exhaust)
  show ?thesis
    unfolding account_policy_validate_def policy_ok_def and_then_Ok ensure_Ok all using reach by (auto simp: list_all_iff)
qed

lemma authorize_Ok:
  assumes "length (ap_keys p) \<le> 2 ^ 16"
  shows "authorize p perm a = Ok () \<longleftrightarrow>
    policy_ok p \<and> au_policy_nonce a = ap_policy_nonce p \<and>
    (\<exists>t. fmlookup (ap_thresholds p) perm = Some t \<and> unat t \<le> key_weight p perm (set (au_signer_keys a)))"
proof -
  have "\<not> weight_sum (filter (\<lambda>k. ak_public_key k \<in> set (au_signer_keys a) \<and> perm |\<in>| ak_permissions k) (ap_keys p)) < ucast t
      \<longleftrightarrow> unat t \<le> key_weight p perm (set (au_signer_keys a))" if "policy_ok p" for t :: u16
    using weight_sum_filter [OF assms] that by (simp add: policy_ok_def word_less_nat_alt unat_ucast_u32 not_less)
  then show ?thesis
    by (auto simp: authorize_def result_simps account_policy_validate_Ok [OF assms])
qed

subsection \<open>Property\<close>

text \<open>
  C25: an operation on an account is authorized exactly when its policy is well formed, the
  authorization names the current policy, and the keys that signed and have the permission weigh at
  least the threshold, every key counted once however often it is listed; additional signers never
  revoke an authorization; and under a well-formed policy all keys together authorize every
  permission that has a threshold. The account has at most \<open>2 ^ 16\<close> keys, so that no sum wraps around.
\<close>
theorem authorization_spec:
  assumes "length (ap_keys p) \<le> 2 ^ 16"
  shows "(authorize p perm a = Ok () \<longleftrightarrow>
      policy_ok p \<and> au_policy_nonce a = ap_policy_nonce p \<and>
      (\<exists>t. fmlookup (ap_thresholds p) perm = Some t \<and> unat t \<le> key_weight p perm (set (au_signer_keys a)))) \<and>
    (authorize p perm a = Ok () \<and> set (au_signer_keys a) \<subseteq> set ks \<longrightarrow>
      authorize p perm (a\<lparr>au_signer_keys := ks\<rparr>) = Ok ()) \<and>
    (policy_ok p \<and> fmlookup (ap_thresholds p) perm \<noteq> None \<longrightarrow>
      authorize p perm \<lparr>au_policy_nonce = ap_policy_nonce p, au_signer_keys = map ak_public_key (ap_keys p)\<rparr> = Ok ())"
proof (intro conjI impI)
  note spec = authorize_Ok [OF assms]
  show "authorize p perm a = Ok () \<longleftrightarrow>
      policy_ok p \<and> au_policy_nonce a = ap_policy_nonce p \<and>
      (\<exists>t. fmlookup (ap_thresholds p) perm = Some t \<and> unat t \<le> key_weight p perm (set (au_signer_keys a)))" by (rule spec)
  show "authorize p perm (a\<lparr>au_signer_keys := ks\<rparr>) = Ok ()"
    if "authorize p perm a = Ok () \<and> set (au_signer_keys a) \<subseteq> set ks"
    using that key_weight_mono [of "set (au_signer_keys a)" "set ks" p perm] by (auto simp: spec)
  have "key_weight p perm (set (map ak_public_key (ap_keys p))) = key_weight p perm UNIV"
    unfolding key_weight_def by (rule sum.cong) auto
  then show "authorize p perm \<lparr>au_policy_nonce = ap_policy_nonce p, au_signer_keys = map ak_public_key (ap_keys p)\<rparr> = Ok ()"
    if "policy_ok p \<and> fmlookup (ap_thresholds p) perm \<noteq> None"
    using that by (auto simp: spec policy_ok_def)
qed

definition sample_account_policy :: account_policy where
  "sample_account_policy =
     \<lparr>ap_keys = [\<lparr>ak_public_key = ''k'', ak_weight = 2, ak_permissions = {|Transfer|}\<rparr>],
      ap_thresholds = fmupd Transfer 2 fmempty, ap_high_value_amount = 1000, ap_policy_nonce = 7\<rparr>"

theorem authorization_spec_witness:
  "authorize sample_account_policy Transfer \<lparr>au_policy_nonce = 7, au_signer_keys = [''k'', ''x'']\<rparr> = Ok ()"
proof -
  have "length (ap_keys sample_account_policy) \<le> 2 ^ 16" by (simp add: sample_account_policy_def)
  note A = authorization_spec [OF this, of Transfer "\<lparr>au_policy_nonce = 7, au_signer_keys = [''k'']\<rparr>" "[''k'', ''x'']"]
  have "authorize sample_account_policy Transfer \<lparr>au_policy_nonce = 7, au_signer_keys = [''k'']\<rparr> = Ok ()"
    by (simp add: authorize_def account_policy_validate_def threshold_reachable_def sample_account_policy_def weight_sum_def)
  with A show ?thesis by simp
qed

end
