(* ===== verification/Recovery.thy ===== *)
theory Recovery
  imports Consensus_Lemmas
begin

text \<open>
  Approval of incident recovery plans by the validators (\<open>src/recovery.rs\<close>). The ids of the approvals
  are collected in a set first; the model visits it in sorted order, which can only change which of
  several unknown ids an error names.

  The lemmas give the exact result of an evaluation and show that approved checkpoint recoveries are
  quorums of the validators, so that they intersect each other and every finality certificate.
\<close>

datatype recovery_error =
    NoRegisteredValidators | ZeroPowerValidator string | DuplicateRegistration string | TotalPowerOverflow
  | UnknownApproval string | ApprovedPowerOverflow

definition RECOVERY_QUORUM_NUMERATOR :: u128 where
  "RECOVERY_QUORUM_NUMERATOR = 3"

definition RECOVERY_QUORUM_DENOMINATOR :: u128 where
  "RECOVERY_QUORUM_DENOMINATOR = 4"

datatype recovery_approval_basis = ValidatorCount | VotingPower | Both

record recovery_approval_result =
  ra_approved :: bool
  ra_basis :: "recovery_approval_basis option"
  ra_approved_validators :: nat
  ra_total_validators :: nat
  ra_approved_voting_power :: u64
  ra_total_voting_power :: u64

definition reaches_three_quarters :: "u128 \<Rightarrow> u128 \<Rightarrow> bool" where
  "reaches_three_quarters approved total_amount \<longleftrightarrow>
     total_amount > 0 \<and>
     saturating_mul approved RECOVERY_QUORUM_DENOMINATOR \<ge> saturating_mul total_amount RECOVERY_QUORUM_NUMERATOR"

definition register_power ::
  "validator \<Rightarrow> (string, u64) fmap \<times> u64 \<Rightarrow> ((string, u64) fmap \<times> u64, recovery_error) result" where
  "register_power v = (\<lambda>(powers, total_power).
     and_then (ensure (val_voting_power v \<noteq> 0) (ZeroPowerValidator (val_id v))) (\<lambda>_.
     and_then (ensure (val_id v |\<notin>| fmdom powers) (DuplicateRegistration (val_id v))) (\<lambda>_.
     and_then (ok_or (checked_add total_power (val_voting_power v)) TotalPowerOverflow) (\<lambda>t.
     Ok (fmupd (val_id v) (val_voting_power v) powers, t)))))"

definition count_approval :: "(string, u64) fmap \<Rightarrow> string \<Rightarrow> u64 \<Rightarrow> (u64, recovery_error) result" where
  "count_approval powers i approved_power =
     and_then (ok_or (fmlookup powers i) (UnknownApproval i)) (\<lambda>w.
     ok_or (checked_add approved_power w) ApprovedPowerOverflow)"

definition evaluate_recovery_approvals ::
  "validator list \<Rightarrow> string list \<Rightarrow> (recovery_approval_result, recovery_error) result" where
  "evaluate_recovery_approvals validators approval_ids =
     and_then (ensure (validators \<noteq> []) NoRegisteredValidators) (\<lambda>_.
     and_then (for_each register_power validators (fmempty, 0)) (\<lambda>(powers, total_power).
     let approvals = fset_of_list approval_ids in
     and_then (for_each (count_approval powers) (sorted_list_of_fset approvals) 0) (\<lambda>approved_power.
     let count_passed = reaches_three_quarters (of_nat (fcard approvals)) (of_nat (length validators));
         power_passed = reaches_three_quarters (ucast approved_power) (ucast total_power);
         basis = (if count_passed then Some ValidatorCount else if power_passed then Some VotingPower else None)
     in Ok \<lparr>ra_approved = (basis \<noteq> None), ra_basis = basis, ra_approved_validators = fcard approvals,
            ra_total_validators = length validators, ra_approved_voting_power = approved_power,
            ra_total_voting_power = total_power\<rparr>)))"

definition evaluate_checkpoint_recovery_approvals ::
  "validator list \<Rightarrow> string list \<Rightarrow> (recovery_approval_result, recovery_error) result" where
  "evaluate_checkpoint_recovery_approvals validators approval_ids =
     and_then (evaluate_recovery_approvals validators approval_ids) (\<lambda>r.
     let count_passed = reaches_three_quarters (of_nat (ra_approved_validators r)) (of_nat (ra_total_validators r));
         power_passed = reaches_three_quarters (ucast (ra_approved_voting_power r)) (ucast (ra_total_voting_power r));
         approved = count_passed \<and> power_passed
     in Ok (r\<lparr>ra_approved := approved, ra_basis := (if approved then Some Both else None)\<rparr>))"

subsection \<open>Lemmas\<close>

lemma three_quarters_nat:
  assumes "unat a < 2 ^ 126" and "unat t < 2 ^ 126"
  shows "reaches_three_quarters a t \<longleftrightarrow> 0 < unat t \<and> 3 * unat t \<le> 4 * unat a"
  using assms by (auto simp: reaches_three_quarters_def RECOVERY_QUORUM_NUMERATOR_def RECOVERY_QUORUM_DENOMINATOR_def
      word_le_nat_alt unat_saturating_mul unat_gt_0 word_gt_0)

lemma three_quarters_u64:
  "reaches_three_quarters (ucast (a :: u64)) (ucast (t :: u64)) \<longleftrightarrow> 0 < unat t \<and> 3 * unat t \<le> 4 * unat a"
  using unat_lt [of a] unat_lt [of t] by (subst three_quarters_nat) (simp_all add: unat_ucast_u128)

lemma three_quarters_count:
  "n < 2 ^ 64 \<Longrightarrow> m < 2 ^ 64 \<Longrightarrow> reaches_three_quarters (of_nat n) (of_nat m) \<longleftrightarrow> 0 < m \<and> 3 * m \<le> 4 * n"
  by (subst three_quarters_nat) (simp_all add: unat_of_nat_small)

definition register_map :: "validator list \<Rightarrow> (string, u64) fmap" where
  "register_map vs = fold (\<lambda>v. fmupd (val_id v) (val_voting_power v)) vs fmempty"

lemma register_map_snoc: "register_map (vs @ [v]) = fmupd (val_id v) (val_voting_power v) (register_map vs)"
  by (simp add: register_map_def)

lemma register_map_dom: "fset (fmdom (register_map vs)) = val_id ` set vs"
  by (induction vs rule: rev_induct) (auto simp: register_map_snoc, simp add: register_map_def)

lemma register_power_Ok:
  "register_power v (m, t) = Ok (m', t') \<longleftrightarrow> val_voting_power v \<noteq> 0 \<and> val_id v \<notin> fset (fmdom m) \<and>
     m' = fmupd (val_id v) (val_voting_power v) m \<and> unat t' = unat t + unat (val_voting_power v)"
  by (auto simp: register_power_def result_simps checked_add_Some)

text \<open>A successful registration holds the distinct ids with positive powers and their exact sum.\<close>

lemma register_powers_Ok:
  "for_each register_power vs (fmempty, 0) = Ok (m, t) \<longleftrightarrow>
     (\<forall>v \<in> set vs. val_voting_power v \<noteq> 0) \<and> distinct (map val_id vs) \<and> powers_sum vs < 2 ^ 64 \<and>
     m = register_map vs \<and> unat t = powers_sum vs"
proof (induction vs arbitrary: m t rule: rev_induct)
  case Nil
  then show ?case by (auto simp: register_map_def powers_sum_def unat_eq_zero)
next
  case (snoc v vs)
  have step: "for_each register_power (vs @ [v]) (fmempty, 0) = Ok (m, t) \<longleftrightarrow>
      (\<exists>m0 t0. for_each register_power vs (fmempty, 0) = Ok (m0, t0) \<and> register_power v (m0, t0) = Ok (m, t))"
    by (auto simp: for_each_append and_then_Ok split: sum.splits)
  have "powers_sum (vs @ [v]) = powers_sum vs + unat (val_voting_power v)" by (simp add: powers_sum_def)
  moreover have "unat t0 = powers_sum vs \<longleftrightarrow> t0 = of_nat (powers_sum vs)" if "powers_sum vs < 2 ^ 64" for t0 :: u64
    using that by (auto simp: word_unat_eq_iff unat_of_nat_small)
  ultimately show ?case
    unfolding step snoc.IH register_power_Ok register_map_snoc
    using unat_lt [of t] by (auto simp: register_map_dom unat_of_nat_small)
qed

lemma register_map_total: "distinct (map val_id vs) \<Longrightarrow> fm_total (register_map vs) = powers_sum vs"
proof (induction vs rule: rev_induct)
  case (snoc v vs)
  have "val_id v |\<notin>| fmdom (register_map vs)" using snoc.prems by (simp add: register_map_dom)
  then have "get0 (register_map vs) (val_id v) = 0" by (simp add: get0_def fmdom_notD)
  then show ?case
    using snoc fm_total_fmupd [of "val_id v" "val_voting_power v" "register_map vs"]
    by (simp add: register_map_snoc powers_sum_def)
qed (simp add: register_map_def powers_sum_def fm_total_def)

lemma count_approvals_Ok:
  assumes "distinct ids" and "unat a + set_power m (set ids) < 2 ^ 64"
  shows "for_each (count_approval m) ids a = Ok r \<longleftrightarrow> set ids \<subseteq> fmdom' m \<and> unat r = unat a + set_power m (set ids)"
  using assms
proof (induction ids arbitrary: a)
  case Nil
  then show ?case by (auto simp: set_power_def word_unat_eq_iff)
next
  case (Cons i ids)
  show ?case
  proof (cases "fmlookup m i")
    case None
    then have "i \<notin> fmdom' m" by (rule fmdom'_notI)
    then show ?thesis using None by (simp add: count_approval_def)
  next
    case (Some w)
    have i: "i \<in> fmdom' m" using Some by (rule fmdom'I)
    then have ins: "set_power m (set (i # ids)) = unat w + set_power m (set ids)"
      using Cons.prems(1) Some by (simp add: set_power_def get0_def)
    then have "unat a + unat w < 2 ^ 64" using Cons.prems(2) by linarith
    then have add: "checked_add a w = Some (a + w)" "unat (a + w) = unat a + unat w"
      by (simp_all add: checked_add_def unat_word_ariths)
    have "for_each (count_approval m) (i # ids) a = for_each (count_approval m) ids (a + w)"
      using Some add by (simp add: count_approval_def)
    then show ?thesis using Cons.IH [of "a + w"] Cons.prems ins i by (simp add: add add.assoc)
  qed
qed

definition registered :: "validator list \<Rightarrow> bool" where
  "registered vs \<longleftrightarrow> vs \<noteq> [] \<and> (\<forall>v \<in> set vs. val_voting_power v \<noteq> 0) \<and> distinct (map val_id vs) \<and> powers_sum vs < 2 ^ 64"

definition approved_power :: "validator list \<Rightarrow> string list \<Rightarrow> nat" where
  "approved_power vs ids = set_power (register_map vs) (set ids)"

lemma evaluate_Ok:
  "evaluate_recovery_approvals vs ids = Ok r \<longleftrightarrow>
     registered vs \<and> set ids \<subseteq> val_id ` set vs \<and>
     ra_approved_validators r = card (set ids) \<and> ra_total_validators r = length vs \<and>
     unat (ra_approved_voting_power r) = approved_power vs ids \<and> unat (ra_total_voting_power r) = powers_sum vs \<and>
     ra_basis r = (if reaches_three_quarters (of_nat (card (set ids))) (of_nat (length vs)) then Some ValidatorCount
       else if reaches_three_quarters (ucast (ra_approved_voting_power r)) (ucast (ra_total_voting_power r))
       then Some VotingPower else None) \<and>
     ra_approved r = (ra_basis r \<noteq> None)"
proof (cases "registered vs")
  case False
  then have "vs = [] \<or> (\<nexists>m t. for_each register_power vs (fmempty, 0) = Ok (m, t))"
    by (auto simp: registered_def register_powers_Ok)
  then show ?thesis using False by (auto simp: evaluate_recovery_approvals_def result_simps)
next
  case True
  let ?m = "register_map vs" and ?s = "sorted_list_of_fset (fset_of_list ids)"
  obtain t where t: "for_each register_power vs (fmempty, 0) = Ok (?m, t)" "unat t = powers_sum vs"
    using True by (auto simp: registered_def register_powers_Ok unat_of_nat_small intro!: that [of "of_nat (powers_sum vs)"])
  have s: "set ?s = set ids" "distinct ?s" by (simp_all add: sorted_list_of_fset.rep_eq fset_of_list.rep_eq)
  have "set_power ?m (set ids) < 2 ^ 64"
    using set_power_le [of ?m "set ids"] register_map_total [of vs] True by (simp add: registered_def)
  then have "for_each (count_approval ?m) ?s 0 = Ok a \<longleftrightarrow>
      set ids \<subseteq> val_id ` set vs \<and> unat a = approved_power vs ids" for a
    using count_approvals_Ok [of ?s 0 ?m a] s register_map_dom [of vs] by (simp add: approved_power_def fmdom'_alt_def)
  moreover have "fcard (fset_of_list ids) = card (set ids)" by (simp add: fcard.rep_eq fset_of_list.rep_eq)
  moreover have "unat (ra_total_voting_power r) = powers_sum vs \<longleftrightarrow> ra_total_voting_power r = t"
    using t(2) by (metis word_unat_eq_iff)
  ultimately show ?thesis
    using True t(1) by (cases r) (auto simp: evaluate_recovery_approvals_def result_simps Let_def registered_def)
qed

lemma evaluate_approved:
  assumes "length vs < 2 ^ 64" and "evaluate_recovery_approvals vs ids = Ok r"
  shows "ra_approved r \<longleftrightarrow> 3 * length vs \<le> 4 * card (set ids) \<or> 3 * powers_sum vs \<le> 4 * approved_power vs ids"
    and "\<exists>r'. evaluate_checkpoint_recovery_approvals vs ids = Ok r' \<and>
      (ra_approved r' \<longleftrightarrow> 3 * length vs \<le> 4 * card (set ids) \<and> 3 * powers_sum vs \<le> 4 * approved_power vs ids)"
proof -
  note E = assms(2) [unfolded evaluate_Ok]
  have pos: "0 < length vs" "0 < powers_sum vs"
  proof -
    obtain v ws where v: "vs = v # ws" using E by (cases vs) (auto simp: registered_def)
    then have "val_voting_power v \<noteq> 0" using E by (auto simp: registered_def)
    then show "0 < length vs" "0 < powers_sum vs" using v by (simp_all add: powers_sum_def unat_gt_0)
  qed
  have "card (set ids) \<le> card (val_id ` set vs)" using E by (intro card_mono) auto
  also have "\<dots> \<le> length vs" by (metis card_length length_map set_map)
  finally have "card (set ids) < 2 ^ 64" using assms(1) by simp
  then have count: "reaches_three_quarters (of_nat (card (set ids))) (of_nat (length vs)) \<longleftrightarrow> 3 * length vs \<le> 4 * card (set ids)"
    using three_quarters_count [of "card (set ids)" "length vs"] assms(1) pos by simp
  have power: "reaches_three_quarters (ucast (ra_approved_voting_power r)) (ucast (ra_total_voting_power r)) \<longleftrightarrow>
      3 * powers_sum vs \<le> 4 * approved_power vs ids"
    using E pos by (simp add: three_quarters_u64)
  show "ra_approved r \<longleftrightarrow> 3 * length vs \<le> 4 * card (set ids) \<or> 3 * powers_sum vs \<le> 4 * approved_power vs ids"
    using E count power by auto
  have "ra_approved_validators r = card (set ids)" "ra_total_validators r = length vs" using E by blast+
  then show "\<exists>r'. evaluate_checkpoint_recovery_approvals vs ids = Ok r' \<and>
      (ra_approved r' \<longleftrightarrow> 3 * length vs \<le> 4 * card (set ids) \<and> 3 * powers_sum vs \<le> 4 * approved_power vs ids)"
    by (simp add: evaluate_checkpoint_recovery_approvals_def assms(2) Let_def count power)
qed

lemma checkpoint_evaluates:
  "evaluate_checkpoint_recovery_approvals vs ids = Ok r' \<Longrightarrow> \<exists>r. evaluate_recovery_approvals vs ids = Ok r"
  by (auto simp: evaluate_checkpoint_recovery_approvals_def result_simps)

lemma evaluate_defined:
  "(\<exists>r. evaluate_recovery_approvals vs ids = Ok r) \<longleftrightarrow> registered vs \<and> set ids \<subseteq> val_id ` set vs"
proof
  show "\<exists>r. evaluate_recovery_approvals vs ids = Ok r \<Longrightarrow> registered vs \<and> set ids \<subseteq> val_id ` set vs"
    by (auto simp: evaluate_Ok)
  assume R: "registered vs \<and> set ids \<subseteq> val_id ` set vs"
  let ?a = "of_nat (approved_power vs ids) :: u64" and ?t = "of_nat (powers_sum vs) :: u64"
  have le: "approved_power vs ids \<le> powers_sum vs"
    using set_power_le [of "register_map vs" "set ids"] register_map_total [of vs] R
    by (simp add: approved_power_def registered_def)
  then have u: "unat ?a = approved_power vs ids" "unat ?t = powers_sum vs"
    using R by (auto simp: registered_def intro!: unat_of_nat_small)
  define basis where "basis = (if reaches_three_quarters (of_nat (card (set ids))) (of_nat (length vs)) then Some ValidatorCount
    else if reaches_three_quarters (ucast ?a) (ucast ?t) then Some VotingPower else None)"
  have "evaluate_recovery_approvals vs ids = Ok \<lparr>ra_approved = (basis \<noteq> None), ra_basis = basis,
      ra_approved_validators = card (set ids), ra_total_validators = length vs, ra_approved_voting_power = ?a,
      ra_total_voting_power = ?t\<rparr>"
    unfolding evaluate_Ok by (simp add: R u basis_def)
  then show "\<exists>r. evaluate_recovery_approvals vs ids = Ok r" by blast
qed

text \<open>The registered powers are those by which certificates are counted.\<close>

lemma register_map_lookup:
  "distinct (map val_id vs) \<Longrightarrow> v \<in> set vs \<Longrightarrow> fmlookup (register_map vs) (val_id v) = Some (val_voting_power v)"
proof (induction vs rule: rev_induct)
  case (snoc w vs)
  then show ?case by (cases "v = w") (auto simp: register_map_snoc image_iff)
qed simp

lemma validator_powers_register: "validator_powers vs = fmmap ucast (register_map vs)"
  unfolding validator_powers_def register_map_def collect_map_def
  by (induction vs rule: rev_induct) (simp_all add: fmmap_fmupd)

lemma approved_power_sum:
  assumes "set ids \<subseteq> val_id ` set vs"
  shows "approved_power vs ids = sum (voter_power vs) (set ids)"
proof -
  have dom: "set ids \<subseteq> fmdom' (register_map vs)" using assms register_map_dom [of vs] by (simp add: fmdom'_alt_def)
  have "unat (get0 (register_map vs) i) = voter_power vs i" for i
    by (cases "fmlookup (register_map vs) i") (simp_all add: voter_power_def validator_powers_register get0_def unat_ucast_u128)
  then show ?thesis using dom by (simp add: approved_power_def set_power_def Int_absorb2)
qed

definition rollback_approved :: "validator list \<Rightarrow> string list \<Rightarrow> bool" where
  "rollback_approved vs ids \<longleftrightarrow> (\<exists>r. evaluate_checkpoint_recovery_approvals vs ids = Ok r \<and> ra_approved r)"

definition recovery_certified :: "externals \<Rightarrow> validator list \<Rightarrow> string set \<Rightarrow> bool" where
  "recovery_certified X vs Q \<longleftrightarrow> certified X vs Q \<or>
     length vs < 2 ^ 60 \<and> (\<exists>ids. rollback_approved vs ids \<and> Q = set ids)"

lemma rollback_approvedD:
  assumes "rollback_approved vs ids" and "length vs < 2 ^ 60"
  shows "registered vs" and "set ids \<subseteq> val_id ` set vs" and "3 * length vs \<le> 4 * card (set ids)"
    and "3 * powers_sum vs \<le> 4 * approved_power vs ids"
proof -
  obtain r' where r': "evaluate_checkpoint_recovery_approvals vs ids = Ok r'" "ra_approved r'"
    using assms(1) by (auto simp: rollback_approved_def)
  obtain r where r: "evaluate_recovery_approvals vs ids = Ok r" using checkpoint_evaluates [OF r'(1)] by blast
  then show "registered vs" "set ids \<subseteq> val_id ` set vs" using evaluate_defined by blast+
  show "3 * length vs \<le> 4 * card (set ids)" "3 * powers_sum vs \<le> 4 * approved_power vs ids"
    using evaluate_approved(2) [OF _ r] r' assms(2) by auto
qed

interpretation recovery_quorum: weighted_quorum "voter_power vs" "fmdom' (validator_powers vs)" "powers_sum vs"
    "recovery_certified X vs"
  for X vs
proof
  show "finite (fmdom' (validator_powers vs))" by (rule cert_quorum.finite_voters)
  show "sum (voter_power vs) (fmdom' (validator_powers vs)) \<le> powers_sum vs" by (rule cert_quorum.total_power)
  fix Q assume Q: "recovery_certified X vs Q"
  have dom: "fmdom' (validator_powers vs) = val_id ` set vs"
    using register_map_dom [of vs] by (simp add: validator_powers_register fmdom'_alt_def)
  show "Q \<subseteq> fmdom' (validator_powers vs)"
    using Q cert_quorum.quorum_voters rollback_approvedD(2) dom unfolding recovery_certified_def by blast
  show "2 * powers_sum vs < 3 * sum (voter_power vs) Q"
  proof (cases "certified X vs Q")
    case True
    then show ?thesis by (rule cert_quorum.quorum_power)
  next
    case False
    then obtain ids where ids: "length vs < 2 ^ 60" "rollback_approved vs ids" "Q = set ids"
      using Q by (auto simp: recovery_certified_def)
    note D = rollback_approvedD [OF ids(2,1)]
    obtain v ws where "vs = v # ws" using D(1) by (cases vs) (auto simp: registered_def)
    then have "0 < powers_sum vs" using D(1) by (auto simp: registered_def powers_sum_def unat_gt_0)
    then show ?thesis using D(4) approved_power_sum [OF D(2)] ids(3) by simp
  qed
qed

end
