(* ===== verification/Recovery_Properties.thy ===== *)
theory Recovery_Properties
  imports Recovery Consensus_Properties
begin

text \<open>
  Properties of recovery approvals: what exactly is counted, and how an approved rollback relates to
  the finality certificates of the same validators.
\<close>

text \<open>
  Recovery plans are counted exactly. An evaluation succeeds if and only if the registered validators
  are well formed and every approval is of one of them; a plan is approved when three quarters of the
  validators or three quarters of the power approve it, each approval counted once; a checkpoint
  rollback needs both.
\<close>
theorem recovery_approval_exact:
  assumes "length vs < 2 ^ 64"
  shows "(is_ok (evaluate_recovery_approvals vs ids) \<longleftrightarrow> registered vs \<and> set ids \<subseteq> val_id ` set vs) \<and>
    (\<forall>r. evaluate_recovery_approvals vs ids = Ok r \<longrightarrow>
      (ra_approved r \<longleftrightarrow> 3 * length vs \<le> 4 * card (set ids) \<or> 3 * powers_sum vs \<le> 4 * approved_power vs ids) \<and>
      (rollback_approved vs ids \<longleftrightarrow>
         3 * length vs \<le> 4 * card (set ids) \<and> 3 * powers_sum vs \<le> 4 * approved_power vs ids))"
  using evaluate_defined [of vs ids] evaluate_approved [OF assms, of ids]
  unfolding is_ok_iff rollback_approved_def by (metis sum.inject(2))

theorem recovery_approval_exact_witness:
  "rollback_approved sample_vs [''val'', ''val'']"
proof -
  have len: "length sample_vs < 2 ^ 64" by (simp add: sample_vs_def)
  have reg: "registered sample_vs" "set [''val'', ''val''] \<subseteq> val_id ` set sample_vs"
    by (simp_all add: registered_def sample_vs_def powers_sum_def)
  then obtain r where r: "evaluate_recovery_approvals sample_vs [''val'', ''val''] = Ok r"
    using recovery_approval_exact [OF len] by (metis is_ok_iff)
  have "3 * length sample_vs \<le> 4 * card (set [''val'', ''val''])"
    "3 * powers_sum sample_vs \<le> 4 * approved_power sample_vs [''val'', ''val'']"
    by (simp_all add: sample_vs_def powers_sum_def approved_power_def set_power_def register_map_def)
  with recovery_approval_exact [OF len, of "[''val'', ''val'']"] r show ?thesis by blast
qed

text \<open>
  An approved checkpoint rollback and a finality certificate of the same validators overlap: validators
  with more than a third of the power took part in both, so a rollback is never decided by validators
  none of which finalized the block it may remove.
\<close>
theorem rollback_overlaps_finality:
  assumes "rollback_approved vs ids" and "certificate_verify X c vs = Ok ()" and "length vs < 2 ^ 60"
  shows "powers_sum vs < 3 * sum (voter_power vs) (set ids \<inter> cert_voters c)"
proof -
  have "recovery_certified X vs (set ids)" "recovery_certified X vs (cert_voters c)"
    using assms unfolding recovery_certified_def certified_def by blast+
  then show ?thesis by (rule recovery_quorum.quorum_intersection)
qed

theorem rollback_overlaps_finality_witness:
  "powers_sum sample_vs < 3 * sum (voter_power sample_vs) (set [''val''] \<inter> cert_voters (fork_certificate [] ''h''))"
proof -
  have len: "length sample_vs < 2 ^ 60" "length sample_vs < 2 ^ 64" by (simp_all add: sample_vs_def)
  have c: "certificate_verify fork_externals (fork_certificate [] ''h'') sample_vs = Ok ()"
    by (simp add: fork_certificate_ok)
  have reg: "registered sample_vs" "set [''val''] \<subseteq> val_id ` set sample_vs"
    by (simp_all add: registered_def sample_vs_def powers_sum_def)
  then obtain r where r: "evaluate_recovery_approvals sample_vs [''val''] = Ok r" using evaluate_defined by blast
  have "rollback_approved sample_vs [''val'']"
    using evaluate_approved(2) [OF len(2) r]
    by (simp add: rollback_approved_def sample_vs_def powers_sum_def approved_power_def set_power_def register_map_def)
  then show ?thesis using rollback_overlaps_finality [OF _ c len(1)] by blast
qed

end
