(* ===== verification/Communication.thy ===== *)
theory Communication
  imports Sample "HOL-Library.Sublist"
begin

text \<open>
  Encrypted signalling messages and their inbox (\<open>src/communication.rs\<close>). The current time is an
  argument.

  The lemmas give the invariant of the inbox over all sequences of deliveries and drains: bounded,
  every pending message known, and no repetition among any 1025 consecutive accepted messages.
\<close>

subsection \<open>Envelopes\<close>

datatype communication_error = BadMessageId | BadTarget | BadLifetime | BadPayload | AlreadySeen

definition MAX_ENCRYPTED_SIGNAL_BYTES :: nat where
  "MAX_ENCRYPTED_SIGNAL_BYTES = 64 * 1024"

definition MAX_SIGNAL_TTL_SECONDS :: u64 where
  "MAX_SIGNAL_TTL_SECONDS = 120"

definition MAX_PENDING_SIGNALS :: nat where
  "MAX_PENDING_SIGNALS = 256"

definition MAX_SEEN_SIGNAL_IDS :: nat where
  "MAX_SEEN_SIGNAL_IDS = 1024"

datatype communication_kind =
    CallInvite | CallAccept | CallReject | WebRtcOffer | WebRtcAnswer | IceCandidate | Hangup | EncryptedChat

record communication_envelope =
  ce_id :: string
  ce_sender_peer_id :: string
  ce_target_peer_id :: string
  ce_kind :: communication_kind
  ce_created_at :: u64
  ce_expires_at :: u64
  ce_encrypted_payload_hex :: string

definition is_safe_id :: "string \<Rightarrow> bool" where
  "is_safe_id s = list_all (\<lambda>b. is_ascii_alphanumeric b \<or> b = CHR ''-'' \<or> b = CHR ''_'') s"

definition envelope_validate :: "externals \<Rightarrow> communication_envelope \<Rightarrow> u64 \<Rightarrow> (unit, communication_error) result" where
  "envelope_validate X e now =
     and_then (ensure (\<not> (length (ce_id e) < 16 \<or> length (ce_id e) > 128 \<or> \<not> is_safe_id (ce_id e))) BadMessageId) (\<lambda>_.
     and_then (ensure (\<not> (ce_target_peer_id e = [] \<or> length (ce_target_peer_id e) > 128)) BadTarget) (\<lambda>_.
     and_then (ensure (\<not> (ce_expires_at e \<le> ce_created_at e
         \<or> saturating_sub (ce_expires_at e) (ce_created_at e) > MAX_SIGNAL_TTL_SECONDS
         \<or> ce_expires_at e < now)) BadLifetime) (\<lambda>_.
     ensure (\<not> (length (ce_encrypted_payload_hex e) mod 2 \<noteq> 0
         \<or> length (ce_encrypted_payload_hex e) div 2 > MAX_ENCRYPTED_SIGNAL_BYTES
         \<or> hex_decode X (ce_encrypted_payload_hex e) = None)) BadPayload)))"

subsection \<open>The inbox\<close>

record communication_inbox =
  ci_items :: "communication_envelope list"
  ci_seen :: "string fset"
  ci_seen_order :: "string list"

definition inbox_default :: communication_inbox where
  "inbox_default = \<lparr>ci_items = [], ci_seen = {||}, ci_seen_order = []\<rparr>"

fun trim_seen :: "string list \<Rightarrow> string fset \<Rightarrow> string list \<times> string fset" where
  "trim_seen [] seen = ([], seen)"
| "trim_seen (old_id # rest) seen =
     (if length (old_id # rest) > MAX_SEEN_SIGNAL_IDS then trim_seen rest (seen |-| {|old_id|})
      else (old_id # rest, seen))"

fun trim_items :: "communication_envelope list \<Rightarrow> communication_envelope list" where
  "trim_items [] = []"
| "trim_items (x # xs) = (if length (x # xs) \<ge> MAX_PENDING_SIGNALS then trim_items xs else x # xs)"

definition inbox_push ::
  "externals \<Rightarrow> communication_envelope \<Rightarrow> u64 \<Rightarrow> communication_inbox
     \<Rightarrow> communication_inbox \<times> (unit, communication_error) result" where
  "inbox_push X e now b =
     (case envelope_validate X e now of
        Inl err \<Rightarrow> (b, Err err)
      | Inr _ \<Rightarrow>
        if ce_id e |\<in>| ci_seen b then (b, Err AlreadySeen)
        else
          let (order, seen) = trim_seen (ci_seen_order b @ [ce_id e]) (finsert (ce_id e) (ci_seen b))
          in (\<lparr>ci_items = trim_items (ci_items b) @ [e], ci_seen = seen, ci_seen_order = order\<rparr>, Ok ()))"

definition inbox_drain :: "communication_inbox \<Rightarrow> communication_envelope list \<times> communication_inbox" where
  "inbox_drain b = (ci_items b, b\<lparr>ci_items := []\<rparr>)"

subsection \<open>Lemmas: the inbox\<close>

lemma trim_seen_drop:
  "fst (trim_seen xs seen) = drop (length xs - MAX_SEEN_SIGNAL_IDS) xs"
  "distinct xs \<Longrightarrow> fset seen = set xs \<Longrightarrow> fset (snd (trim_seen xs seen)) = set (fst (trim_seen xs seen))"
  by (induction xs seen rule: trim_seen.induct) (auto simp: Suc_diff_le)

lemma trim_items_drop: "trim_items xs = drop (length xs + 1 - MAX_PENDING_SIGNALS) xs"
proof (induction xs)
  case (Cons x xs)
  show ?case
  proof (cases "MAX_PENDING_SIGNALS \<le> length (x # xs)")
    case True
    then have "length (x # xs) + 1 - MAX_PENDING_SIGNALS = Suc (length xs + 1 - MAX_PENDING_SIGNALS)" by simp
    then show ?thesis using Cons True by simp
  qed simp
qed simp

text \<open>The inboxes that deliveries and drains reach, with all ids accepted so far, oldest first.\<close>

inductive inbox_run :: "externals \<Rightarrow> communication_inbox \<Rightarrow> string list \<Rightarrow> bool" for X where
  empty: "inbox_run X inbox_default []"
| accept: "inbox_run X b acc \<Longrightarrow> inbox_push X e now b = (b', Ok ()) \<Longrightarrow> inbox_run X b' (acc @ [ce_id e])"
| reject: "inbox_run X b acc \<Longrightarrow> inbox_push X e now b = (b', Err err) \<Longrightarrow> inbox_run X b' acc"
| drain: "inbox_run X b acc \<Longrightarrow> inbox_drain b = (es, b') \<Longrightarrow> inbox_run X b' acc"

definition windows_distinct :: "nat \<Rightarrow> 'a list \<Rightarrow> bool" where
  "windows_distinct n xs \<longleftrightarrow> (\<forall>i. distinct (take n (drop i xs)))"

definition inbox_ok :: "communication_inbox \<Rightarrow> string list \<Rightarrow> bool" where
  "inbox_ok b acc \<longleftrightarrow> fset (ci_seen b) = set (ci_seen_order b) \<and>
     ci_seen_order b = drop (length acc - MAX_SEEN_SIGNAL_IDS) acc \<and>
     length (ci_items b) \<le> MAX_PENDING_SIGNALS \<and> suffix (map ce_id (ci_items b)) acc \<and>
     windows_distinct (MAX_SEEN_SIGNAL_IDS + 1) acc"

lemma windows_distinct_last: "windows_distinct (n + 1) xs \<Longrightarrow> distinct (drop (length xs - n) xs)"
  unfolding windows_distinct_def by (metis add.commute diff_le_self length_drop le_add_diff_inverse2 linorder_le_cases take_all diff_diff_cancel trans_le_add1)

lemma windows_distinct_snoc:
  assumes "windows_distinct (n + 1) xs" and "x \<notin> set (drop (length xs - n) xs)"
  shows "windows_distinct (n + 1) (xs @ [x])"
  unfolding windows_distinct_def
proof
  fix i
  show "distinct (take (n + 1) (drop i (xs @ [x])))"
  proof (cases "length xs - i \<le> n \<and> i \<le> length xs")
    case True
    then have "distinct (drop i xs)" using assms(1) by (metis windows_distinct_def length_drop take_all trans_le_add1)
    moreover have "set (drop i xs) \<subseteq> set (drop (length xs - n) xs)" using True by (intro set_drop_subset_set_drop) arith
    ultimately show ?thesis using True assms(2) by auto
  next
    case False
    then show ?thesis
      using assms(1) by (cases "i \<le> length xs") (auto simp: windows_distinct_def not_le)
  qed
qed

lemma drop_window:
  assumes "0 < n"
  shows "drop (length (drop (length xs - n) xs @ [x]) - n) (drop (length xs - n) xs @ [x]) = drop (length (xs @ [x]) - n) (xs @ [x])"
proof (cases "n \<le> length xs")
  case True
  then have "length (drop (length xs - n) xs @ [x]) - n = 1" "length (xs @ [x]) - n = Suc (length xs - n)" by auto
  then show ?thesis using True assms by simp
qed simp

lemma suffix_drop_map: "suffix (map f (drop n xs)) (map f xs)"
  by (metis drop_map suffix_drop)

lemma inbox_push_eq:
  "inbox_push X e now b =
     (case envelope_validate X e now of
        Inl err \<Rightarrow> (b, Err err)
      | Inr _ \<Rightarrow>
        if ce_id e |\<in>| ci_seen b then (b, Err AlreadySeen)
        else (\<lparr>ci_items = trim_items (ci_items b) @ [e],
               ci_seen = snd (trim_seen (ci_seen_order b @ [ce_id e]) (finsert (ce_id e) (ci_seen b))),
               ci_seen_order = fst (trim_seen (ci_seen_order b @ [ce_id e]) (finsert (ce_id e) (ci_seen b)))\<rparr>, Ok ()))"
  by (simp add: inbox_push_def Let_def case_prod_beta split: sum.split)

lemma inbox_push_ok:
  assumes "inbox_ok b acc" and "inbox_push X e now b = (b', Ok ())"
  shows "inbox_ok b' (acc @ [ce_id e])"
proof -
  let ?o = "ci_seen_order b @ [ce_id e]" and ?s = "finsert (ce_id e) (ci_seen b)"
  let ?t = "trim_seen ?o ?s"
  have unseen: "ce_id e |\<notin>| ci_seen b"
    and b': "ci_items b' = trim_items (ci_items b) @ [e]" "ci_seen b' = snd ?t" "ci_seen_order b' = fst ?t"
    using assms(2) by (auto simp: inbox_push_eq split: sum.splits if_splits)
  have new: "ce_id e \<notin> set (ci_seen_order b)" using unseen assms(1) unfolding inbox_ok_def by blast
  have win: "windows_distinct (MAX_SEEN_SIGNAL_IDS + 1) acc" and order: "ci_seen_order b = drop (length acc - MAX_SEEN_SIGNAL_IDS) acc"
    using assms(1) by (simp_all add: inbox_ok_def)
  have "distinct ?o" using windows_distinct_last [OF win] new order by simp
  moreover have "fset ?s = set ?o" using assms(1) by (auto simp: inbox_ok_def)
  ultimately have "fset (ci_seen b') = set (ci_seen_order b')" using trim_seen_drop(2) by (simp add: b')
  moreover have "ci_seen_order b' = drop (length (acc @ [ce_id e]) - MAX_SEEN_SIGNAL_IDS) (acc @ [ce_id e])"
    unfolding b' trim_seen_drop(1) order by (rule drop_window) (simp add: MAX_SEEN_SIGNAL_IDS_def)
  moreover have "length (ci_items b') \<le> MAX_PENDING_SIGNALS"
    using assms(1) by (simp add: b' trim_items_drop inbox_ok_def MAX_PENDING_SIGNALS_def)
  moreover have "suffix (map ce_id (ci_items b')) (acc @ [ce_id e])"
  proof -
    have "suffix (map ce_id (ci_items b)) acc" using assms(1) unfolding inbox_ok_def by blast
    then have "suffix (map ce_id (trim_items (ci_items b))) acc"
      unfolding trim_items_drop by (rule suffix_order.trans [OF suffix_drop_map])
    then show ?thesis by (simp add: b')
  qed
  moreover have "windows_distinct (MAX_SEEN_SIGNAL_IDS + 1) (acc @ [ce_id e])"
    using windows_distinct_snoc [OF win] new order by simp
  ultimately show ?thesis by (simp add: inbox_ok_def)
qed

lemma inbox_run_ok: "inbox_run X b acc \<Longrightarrow> inbox_ok b acc"
proof (induction rule: inbox_run.induct)
  case empty
  then show ?case by (simp add: inbox_ok_def inbox_default_def windows_distinct_def)
next
  case (accept b acc e now b')
  then show ?case using inbox_push_ok by blast
next
  case (reject b acc e now b' err)
  then have "b' = b" by (auto simp: inbox_push_eq split: sum.splits if_splits)
  then show ?case using reject by simp
next
  case (drain b acc es b')
  then show ?case by (auto simp: inbox_drain_def inbox_ok_def)
qed

subsection \<open>Property\<close>

text \<open>
  C26: over every sequence of deliveries and drains the inbox holds at most 256 messages, which are
  the latest accepted ones in order; it remembers exactly the last 1024 accepted ids, so any 1025 consecutive
  accepted messages are different; and a valid message is accepted exactly when it is none of the
  remembered ones.
\<close>
theorem inbox_no_replay:
  assumes "inbox_run X b acc"
  shows "length (ci_items b) \<le> 256 \<and> suffix (map ce_id (ci_items b)) acc \<and>
    fset (ci_seen b) = set (drop (length acc - 1024) acc) \<and>
    distinct (take 1025 (drop i acc)) \<and>
    (envelope_validate X e now = Ok () \<longrightarrow>
       (is_ok (snd (inbox_push X e now b)) \<longleftrightarrow> ce_id e \<notin> set (drop (length acc - 1024) acc)))"
proof -
  have ok: "inbox_ok b acc" using assms by (rule inbox_run_ok)
  have seen: "fset (ci_seen b) = set (drop (length acc - 1024) acc)"
    using ok by (simp add: inbox_ok_def MAX_SEEN_SIGNAL_IDS_def)
  have "is_ok (snd (inbox_push X e now b)) \<longleftrightarrow> ce_id e |\<notin>| ci_seen b" if "envelope_validate X e now = Ok ()"
    using that by (simp add: inbox_push_eq is_ok_def)
  then have "envelope_validate X e now = Ok () \<longrightarrow>
      (is_ok (snd (inbox_push X e now b)) \<longleftrightarrow> ce_id e \<notin> set (drop (length acc - 1024) acc))"
    using seen by blast
  moreover have "distinct (take 1025 (drop i acc))"
    using ok unfolding inbox_ok_def windows_distinct_def MAX_SEEN_SIGNAL_IDS_def by (metis add_One numeral_plus_one semiring_norm(5))
  moreover have "length (ci_items b) \<le> 256" "suffix (map ce_id (ci_items b)) acc"
    using ok unfolding inbox_ok_def MAX_PENDING_SIGNALS_def by blast+
  ultimately show ?thesis using seen by blast
qed

definition sample_envelope :: communication_envelope where
  "sample_envelope = \<lparr>ce_id = ''call_0123456789abcdef'', ce_sender_peer_id = [], ce_target_peer_id = ''t'',
     ce_kind = CallInvite, ce_created_at = 100, ce_expires_at = 160, ce_encrypted_payload_hex = ''aabb''\<rparr>"

theorem inbox_no_replay_witness:
  "\<exists>b. inbox_run permissive_externals b [ce_id sample_envelope] \<and>
     \<not> is_ok (snd (inbox_push permissive_externals sample_envelope 110 b))"
proof -
  have v: "envelope_validate permissive_externals sample_envelope 110 = Ok ()"
    by (simp add: envelope_validate_def sample_envelope_def is_safe_id_def is_ascii_alphanumeric_def is_ascii_digit_def
        less_eq_char_def MAX_SIGNAL_TTL_SECONDS_def MAX_ENCRYPTED_SIGNAL_BYTES_def permissive_externals_def saturating_sub_def)
  then obtain b where "inbox_push permissive_externals sample_envelope 110 inbox_default = (b, Ok ())"
    by (simp add: inbox_push_eq inbox_default_def)
  then have r: "inbox_run permissive_externals b [ce_id sample_envelope]"
    using inbox_run.accept [OF inbox_run.empty] by fastforce
  with inbox_no_replay [OF r, of 0 sample_envelope 110] v show ?thesis by auto
qed

end
