(* ===== verification/Peer_Guard.thy ===== *)
theory Peer_Guard
  imports Prelude
begin

text \<open>
  The peer guard (\<open>src/peer_guard.rs\<close>): misbehaviour is scored and a peer with enough points is blocked for a
  time. Instants are natural numbers and the current time is an argument of the operations that read
  the clock; scores are 32-bit signed integers that saturate.
\<close>

definition BAN_SCORE :: int where
  "BAN_SCORE = 100"

definition I32_MAX :: int where
  "I32_MAX = 2 ^ 31 - 1"

datatype peer_decision = Allow | TemporarilyBlocked

record peer_record =
  pr_score :: int
  pr_blocked_until :: "nat option"

record peer_guard =
  pg_peers :: "(string, peer_record) fmap"
  pg_ban_duration :: nat

definition guard_new :: "nat \<Rightarrow> peer_guard" where
  "guard_new ban_duration = \<lparr>pg_peers = fmempty, pg_ban_duration = ban_duration\<rparr>"

definition guard_check :: "nat \<Rightarrow> string \<Rightarrow> peer_guard \<Rightarrow> peer_guard \<times> peer_decision" where
  "guard_check now peer g =
     (case fmlookup (pg_peers g) peer of
        None \<Rightarrow> (g, Allow)
      | Some r \<Rightarrow>
        (case pr_blocked_until r of
           None \<Rightarrow> (g, Allow)
         | Some until \<Rightarrow>
           if now < until then (g, TemporarilyBlocked)
           else (g\<lparr>pg_peers := fmupd peer (r\<lparr>pr_blocked_until := None, pr_score := 0\<rparr>) (pg_peers g)\<rparr>, Allow)))"

definition guard_penalize :: "nat \<Rightarrow> string \<Rightarrow> int \<Rightarrow> peer_guard \<Rightarrow> peer_guard \<times> peer_decision" where
  "guard_penalize now peer points g =
     (let r = (case fmlookup (pg_peers g) peer of None \<Rightarrow> \<lparr>pr_score = 0, pr_blocked_until = None\<rparr> | Some r \<Rightarrow> r);
          r1 = r\<lparr>pr_score := min (pr_score r + max points 0) I32_MAX\<rparr>
      in if pr_score r1 \<ge> BAN_SCORE
         then (g\<lparr>pg_peers := fmupd peer (r1\<lparr>pr_blocked_until := Some (now + pg_ban_duration g)\<rparr>) (pg_peers g)\<rparr>,
               TemporarilyBlocked)
         else (g\<lparr>pg_peers := fmupd peer r1 (pg_peers g)\<rparr>, Allow))"

definition guard_reward :: "string \<Rightarrow> peer_guard \<Rightarrow> peer_guard" where
  "guard_reward peer g =
     (case fmlookup (pg_peers g) peer of
        None \<Rightarrow> g
      | Some r \<Rightarrow> g\<lparr>pg_peers := fmupd peer (r\<lparr>pr_score := max (pr_score r - 1) 0\<rparr>) (pg_peers g)\<rparr>)"

subsection \<open>Lemmas\<close>

text \<open>Operations for any peers at times between two instants.\<close>

inductive guard_steps :: "nat \<Rightarrow> nat \<Rightarrow> peer_guard \<Rightarrow> peer_guard \<Rightarrow> bool" for t1 t2 where
  refl: "guard_steps t1 t2 g g"
| check: "guard_steps t1 t2 g g1 \<Longrightarrow> t1 \<le> now \<Longrightarrow> now \<le> t2 \<Longrightarrow> guard_check now peer g1 = (g2, d) \<Longrightarrow> guard_steps t1 t2 g g2"
| penalize: "guard_steps t1 t2 g g1 \<Longrightarrow> t1 \<le> now \<Longrightarrow> now \<le> t2 \<Longrightarrow> guard_penalize now peer points g1 = (g2, d) \<Longrightarrow>
    guard_steps t1 t2 g g2"
| reward: "guard_steps t1 t2 g g1 \<Longrightarrow> guard_steps t1 t2 g (guard_reward peer g1)"

definition blocked_from :: "peer_guard \<Rightarrow> string \<Rightarrow> nat \<Rightarrow> bool" where
  "blocked_from g peer t \<longleftrightarrow>
     (\<exists>r until. fmlookup (pg_peers g) peer = Some r \<and> pr_blocked_until r = Some until \<and> t \<le> until)"

lemma guard_penalize_blocks:
  "guard_penalize now peer points g = (g', TemporarilyBlocked) \<Longrightarrow>
   blocked_from g' peer (now + pg_ban_duration g) \<and> pg_ban_duration g' = pg_ban_duration g"
  by (auto simp: guard_penalize_def Let_def blocked_from_def split: if_splits)

lemma blocked_check:
  "blocked_from g peer t \<Longrightarrow> now < t \<Longrightarrow> guard_check now peer g = (g, TemporarilyBlocked)"
  by (auto simp: blocked_from_def guard_check_def)

lemma guard_steps_blocked:
  assumes "guard_steps t1 t2 g g'" and "blocked_from g peer t" and "t2 < t" and "t \<le> t1 + pg_ban_duration g"
  shows "blocked_from g' peer t \<and> pg_ban_duration g' = pg_ban_duration g"
  using assms
proof (induction rule: guard_steps.induct)
  case (check g g1 now peer' g2 d)
  then show ?case
    by (auto simp: guard_check_def blocked_from_def split: option.splits if_splits)
next
  case (penalize g g1 now peer' points g2 d)
  then have "t \<le> now + pg_ban_duration g1" by simp
  then show ?case using penalize
    by (auto simp: guard_penalize_def Let_def blocked_from_def split: option.splits if_splits)
next
  case (reward g g1 peer')
  then show ?case by (auto simp: guard_reward_def blocked_from_def split: option.splits if_splits)
qed simp

subsection \<open>Property\<close>

text \<open>
  A ban holds. When a penalty blocks a peer at some time, the peer is refused at every check within
  the ban duration, whatever checks, penalties and rewards for any peers happen in between; and the first check
  after a ban has run out admits the peer again with a clean score.
\<close>
theorem peer_ban_holds:
  assumes "guard_penalize t peer points g = (g1, TemporarilyBlocked)" and "guard_steps t t' g1 g2"
    and "t' < t + pg_ban_duration g" and "now < t + pg_ban_duration g"
  shows "snd (guard_check now peer g2) = TemporarilyBlocked \<and>
    (\<exists>until. snd (guard_check until peer g2) = Allow \<and>
       fmlookup (pg_peers (fst (guard_check until peer g2))) peer = Some \<lparr>pr_score = 0, pr_blocked_until = None\<rparr>)"
proof -
  note P = guard_penalize_blocks [OF assms(1)]
  have B: "blocked_from g2 peer (t + pg_ban_duration g)"
    using guard_steps_blocked [OF assms(2), of peer "t + pg_ban_duration g"] P assms(3) by simp
  then obtain r until where "fmlookup (pg_peers g2) peer = Some r" "pr_blocked_until r = Some until"
    by (auto simp: blocked_from_def)
  then have "guard_check until peer g2 =
      (g2\<lparr>pg_peers := fmupd peer (r\<lparr>pr_blocked_until := None, pr_score := 0\<rparr>) (pg_peers g2)\<rparr>, Allow)"
    by (simp add: guard_check_def)
  moreover have "r\<lparr>pr_blocked_until := None, pr_score := 0\<rparr> = \<lparr>pr_score = 0, pr_blocked_until = None\<rparr>"
    by (cases r) simp
  ultimately have "snd (guard_check until peer g2) = Allow \<and>
      fmlookup (pg_peers (fst (guard_check until peer g2))) peer = Some \<lparr>pr_score = 0, pr_blocked_until = None\<rparr>"
    by simp
  then show ?thesis using blocked_check [OF B assms(4)] by auto
qed

theorem peer_ban_holds_witness:
  "\<exists>g1. guard_penalize 5 ''p'' 100 (guard_new 10) = (g1, TemporarilyBlocked) \<and>
     snd (guard_check 14 ''p'' (guard_reward ''p'' g1)) = TemporarilyBlocked"
proof -
  obtain g1 where g1: "guard_penalize 5 ''p'' 100 (guard_new 10) = (g1, TemporarilyBlocked)"
    by (simp add: guard_penalize_def guard_new_def BAN_SCORE_def I32_MAX_def)
  have "guard_steps 5 6 g1 (guard_reward ''p'' g1)" by (rule guard_steps.reward [OF guard_steps.refl])
  with peer_ban_holds [OF g1 this, of 14] g1 show ?thesis by (simp add: guard_new_def)
qed

end
