(* ===== verification/Snapshot_Scheduler.thy ===== *)
theory Snapshot_Scheduler
  imports Iterators
begin

text \<open>
  Distribution of missing snapshot chunks over peers (\<open>src/snapshot_scheduler.rs\<close>). Instants are natural
  numbers and the current time is an argument. The chunks in flight are kept in a \<open>HashMap\<close>, whose
  iteration order is unspecified; timed-out chunks are requeued in the order of their indexes here, which
  only affects the order of the queue.

  The lemmas show that every chunk is at any time either queued, in flight with one peer, or
  completed, and that the limits on parallel downloads and on retries are respected.
\<close>

datatype scheduler_error = BadSchedulerLimits | NotAssigned

record chunk_assignment =
  ca_peer_id :: string
  ca_chunk_index :: u32

record in_flight =
  if_peer_id :: string
  if_started :: nat

record snapshot_scheduler =
  sc_pending :: "u32 list"
  sc_peers :: "string list"
  sc_in_flight :: "(u32, in_flight) fmap"
  sc_failures :: "(string \<times> u32, u32) fmap"
  sc_cursor :: nat
  sc_timeout :: nat
  sc_max_in_flight :: nat
  sc_max_peer_retries :: u32

definition scheduler_new ::
  "u32 list \<Rightarrow> string list \<Rightarrow> nat \<Rightarrow> nat \<Rightarrow> u32 \<Rightarrow> (snapshot_scheduler, scheduler_error) result" where
  "scheduler_new missing peers timeout max_in_flight max_peer_retries =
     and_then (ensure (\<not> (length peers < 2 \<or> max_in_flight = 0 \<or> max_peer_retries = 0)) BadSchedulerLimits) (\<lambda>_.
     Ok \<lparr>sc_pending = missing, sc_peers = peers, sc_in_flight = fmempty, sc_failures = fmempty, sc_cursor = 0,
         sc_timeout = timeout, sc_max_in_flight = max_in_flight, sc_max_peer_retries = max_peer_retries\<rparr>)"

definition scheduler_fail :: "string \<Rightarrow> u32 \<Rightarrow> snapshot_scheduler \<Rightarrow> snapshot_scheduler" where
  "scheduler_fail peer_id chunk s =
     (case fmlookup (sc_in_flight s) chunk of
        None \<Rightarrow> s
      | Some f \<Rightarrow>
        if if_peer_id f = peer_id
        then s\<lparr>sc_in_flight := fmdrop chunk (sc_in_flight s),
               sc_failures := fmupd (peer_id, chunk) (get0 (sc_failures s) (peer_id, chunk) + 1) (sc_failures s),
               sc_pending := sc_pending s @ [chunk]\<rparr>
        else s)"

definition timed_out :: "nat \<Rightarrow> snapshot_scheduler \<Rightarrow> (u32 \<times> string) list" where
  "timed_out now s =
     map (\<lambda>(chunk, f). (chunk, if_peer_id f))
       (filter (\<lambda>(_, f). now - if_started f \<ge> sc_timeout s) (fm_entries (sc_in_flight s)))"

definition requeue_timed_out :: "nat \<Rightarrow> snapshot_scheduler \<Rightarrow> snapshot_scheduler" where
  "requeue_timed_out now s = fold (\<lambda>(chunk, peer). scheduler_fail peer chunk) (timed_out now s) s"

text \<open>The \<open>for\<close> loop of \<open>next_peer\<close>: the cursor moves on with every peer that is tried.\<close>

fun next_peer_loop :: "nat \<Rightarrow> u32 \<Rightarrow> snapshot_scheduler \<Rightarrow> snapshot_scheduler \<times> string option" where
  "next_peer_loop 0 chunk s = (s, None)"
| "next_peer_loop (Suc n) chunk s =
     (let peer = sc_peers s ! (sc_cursor s mod length (sc_peers s));
          s1 = s\<lparr>sc_cursor := (sc_cursor s + 1) mod 2 ^ 64\<rparr> in
      if get0 (sc_failures s) (peer, chunk) < sc_max_peer_retries s then (s1, Some peer)
      else next_peer_loop n chunk s1)"

definition next_peer :: "u32 \<Rightarrow> snapshot_scheduler \<Rightarrow> snapshot_scheduler \<times> string option" where
  "next_peer chunk s = next_peer_loop (length (sc_peers s)) chunk s"

text \<open>The \<open>while\<close> loop of \<open>assign\<close>: each round takes a chunk off the queue or stops.\<close>

fun assign_loop ::
  "nat \<Rightarrow> u32 list \<Rightarrow> snapshot_scheduler \<Rightarrow> snapshot_scheduler \<times> chunk_assignment list" where
  "assign_loop now [] s = (s\<lparr>sc_pending := []\<rparr>, [])"
| "assign_loop now (chunk # rest) s =
     (if fcard (fmdom (sc_in_flight s)) < sc_max_in_flight s then
        (case next_peer chunk s of
           (s1, None) \<Rightarrow> (s1\<lparr>sc_pending := rest @ [chunk]\<rparr>, [])
         | (s1, Some peer) \<Rightarrow>
             let (s2, assigned) = assign_loop now rest
                   (s1\<lparr>sc_in_flight := fmupd chunk \<lparr>if_peer_id = peer, if_started = now\<rparr> (sc_in_flight s1)\<rparr>)
             in (s2, \<lparr>ca_peer_id = peer, ca_chunk_index = chunk\<rparr> # assigned))
      else (s\<lparr>sc_pending := chunk # rest\<rparr>, []))"

definition scheduler_assign :: "nat \<Rightarrow> snapshot_scheduler \<Rightarrow> snapshot_scheduler \<times> chunk_assignment list" where
  "scheduler_assign now s = (let s1 = requeue_timed_out now s in assign_loop now (sc_pending s1) s1)"

definition scheduler_complete ::
  "string \<Rightarrow> u32 \<Rightarrow> snapshot_scheduler \<Rightarrow> (snapshot_scheduler, scheduler_error) result" where
  "scheduler_complete peer_id chunk s =
     (case fmlookup (sc_in_flight s) chunk of
        Some f \<Rightarrow> if if_peer_id f = peer_id then Ok (s\<lparr>sc_in_flight := fmdrop chunk (sc_in_flight s)\<rparr>) else Err NotAssigned
      | None \<Rightarrow> Err NotAssigned)"

definition scheduler_is_done :: "snapshot_scheduler \<Rightarrow> bool" where
  "scheduler_is_done s \<longleftrightarrow> sc_pending s = [] \<and> sc_in_flight s = fmempty"

subsection \<open>Lemmas\<close>

lemma fmdom'_empty_iff: "fmdom' m = {} \<longleftrightarrow> m = fmempty"
proof
  assume "fmdom' m = {}"
  then have "fmlookup m k = None" for k by (metis empty_iff fmdom'_notD)
  then show "m = fmempty" by (simp add: fmap_ext)
qed simp

text \<open>The chunks a scheduler still owes, queued or in flight.\<close>

definition outstanding :: "snapshot_scheduler \<Rightarrow> u32 multiset" where
  "outstanding s = mset (sc_pending s) + mset_set (fmdom' (sc_in_flight s))"

definition same_limits :: "snapshot_scheduler \<Rightarrow> snapshot_scheduler \<Rightarrow> bool" where
  "same_limits s t \<longleftrightarrow> sc_peers t = sc_peers s \<and> sc_max_in_flight t = sc_max_in_flight s \<and>
     sc_max_peer_retries t = sc_max_peer_retries s"

lemma same_limits_refl [simp]: "same_limits s s"
  by (simp add: same_limits_def)

lemma same_limits_trans: "same_limits s t \<Longrightarrow> same_limits t u \<Longrightarrow> same_limits s u"
  by (simp add: same_limits_def)

abbreviation flying :: "snapshot_scheduler \<Rightarrow> nat" where
  "flying s \<equiv> card (fmdom' (sc_in_flight s))"

lemma drop_in_flight:
  "fmlookup m k = Some v \<Longrightarrow> add_mset k (mset_set (fmdom' (fmdrop k m))) = mset_set (fmdom' m)"
proof -
  assume "fmlookup m k = Some v"
  then have "k \<in> fmdom' m" by (rule fmdom'I)
  then show ?thesis by (simp add: mset_set.remove)
qed

lemma scheduler_fail_keeps:
  "outstanding (scheduler_fail peer chunk s) = outstanding s"
  "same_limits s (scheduler_fail peer chunk s)"
  "flying (scheduler_fail peer chunk s) \<le> flying s"
proof -
  show "outstanding (scheduler_fail peer chunk s) = outstanding s"
    using drop_in_flight [of "sc_in_flight s" chunk]
    by (auto simp: scheduler_fail_def outstanding_def split: option.splits)
  show "same_limits s (scheduler_fail peer chunk s)"
    by (auto simp: scheduler_fail_def same_limits_def split: option.splits)
  show "flying (scheduler_fail peer chunk s) \<le> flying s"
    by (auto simp: scheduler_fail_def card_Diff1_le split: option.splits)
qed

lemma fold_fail_keeps:
  "outstanding (fold (\<lambda>(chunk, peer). scheduler_fail peer chunk) xs s) = outstanding s \<and>
   same_limits s (fold (\<lambda>(chunk, peer). scheduler_fail peer chunk) xs s) \<and>
   flying (fold (\<lambda>(chunk, peer). scheduler_fail peer chunk) xs s) \<le> flying s"
proof (induction xs arbitrary: s)
  case (Cons x xs)
  obtain chunk peer where x: "x = (chunk, peer)" by (cases x)
  note F = scheduler_fail_keeps [where peer = peer and chunk = chunk and s = s]
  show ?case
    using Cons.IH [of "scheduler_fail peer chunk s"] F same_limits_trans [OF F(2)] by (simp add: x)
qed simp

lemma next_peer_loop_keeps:
  assumes "next_peer_loop n chunk s = (t, r)"
  shows "sc_in_flight t = sc_in_flight s \<and> sc_pending t = sc_pending s \<and> sc_failures t = sc_failures s \<and> same_limits s t \<and>
    (\<forall>peer. r = Some peer \<longrightarrow> sc_peers s \<noteq> [] \<longrightarrow>
       peer \<in> set (sc_peers s) \<and> get0 (sc_failures s) (peer, chunk) < sc_max_peer_retries s)"
  using assms
proof (induction n arbitrary: s)
  case (Suc n)
  define peer where "peer = sc_peers s ! (sc_cursor s mod length (sc_peers s))"
  define s1 where "s1 = s\<lparr>sc_cursor := (sc_cursor s + 1) mod 2 ^ 64\<rparr>"
  have s1: "sc_in_flight s1 = sc_in_flight s" "sc_pending s1 = sc_pending s" "sc_failures s1 = sc_failures s"
    "same_limits s s1" by (simp_all add: s1_def same_limits_def)
  have step: "next_peer_loop (Suc n) chunk s =
      (if get0 (sc_failures s) (peer, chunk) < sc_max_peer_retries s then (s1, Some peer) else next_peer_loop n chunk s1)"
    by (simp only: next_peer_loop.simps Let_def peer_def s1_def)
  have "peer \<in> set (sc_peers s)" if "sc_peers s \<noteq> []" using that by (simp add: peer_def)
  then show ?case
    using Suc.prems Suc.IH [of s1] s1 unfolding step by (auto simp: same_limits_def split: if_splits)
qed auto

lemma assign_loop_keeps:
  assumes "assign_loop now chunks s = (t, as)" and "distinct chunks" and "set chunks \<inter> fmdom' (sc_in_flight s) = {}"
    and "flying s \<le> sc_max_in_flight s"
  shows "outstanding t = mset chunks + mset_set (fmdom' (sc_in_flight s)) \<and> same_limits s t \<and>
    flying t \<le> sc_max_in_flight s \<and> sc_failures t = sc_failures s \<and>
    (sc_peers s \<noteq> [] \<longrightarrow> (\<forall>a \<in> set as. ca_peer_id a \<in> set (sc_peers s) \<and>
       get0 (sc_failures s) (ca_peer_id a, ca_chunk_index a) < sc_max_peer_retries s))"
  using assms
proof (induction now chunks s arbitrary: t as rule: assign_loop.induct)
  case (1 now s)
  then show ?case by (auto simp: outstanding_def same_limits_def)
next
  case (2 now chunk rest s)
  let ?m = "sc_in_flight s"
  show ?case
  proof (cases "fcard (fmdom ?m) < sc_max_in_flight s")
    case False
    then show ?thesis using 2 by (auto simp: outstanding_def same_limits_def)
  next
    case room: True
    obtain s1 r where np: "next_peer chunk s = (s1, r)" by (cases "next_peer chunk s")
    note K = next_peer_loop_keeps [OF np [unfolded next_peer_def]]
    show ?thesis
    proof (cases r)
      case None
      then have "t = s1\<lparr>sc_pending := rest @ [chunk]\<rparr>" "as = []" using 2 room np by auto
      then show ?thesis using K 2 by (auto simp: outstanding_def same_limits_def)
    next
      case (Some peer)
      let ?s2 = "s1\<lparr>sc_in_flight := fmupd chunk \<lparr>if_peer_id = peer, if_started = now\<rparr> (sc_in_flight s1)\<rparr>"
      obtain as' where loop: "assign_loop now rest ?s2 = (t, as')"
        and as: "as = \<lparr>ca_peer_id = peer, ca_chunk_index = chunk\<rparr> # as'"
        using "2.prems"(1) room np Some by (auto split: prod.splits)
      have dom: "fmdom' (sc_in_flight ?s2) = insert chunk (fmdom' ?m)" "chunk \<notin> fmdom' ?m"
        using K "2.prems"(3) by auto
      have "flying ?s2 \<le> sc_max_in_flight ?s2"
        using room dom K by (simp add: fcard.rep_eq fmdom'_alt_def same_limits_def)
      moreover have "set rest \<inter> fmdom' (sc_in_flight ?s2) = {}" "distinct rest" using "2.prems"(2,3) dom by auto
      moreover have "same_limits ?s2 t \<Longrightarrow> same_limits s t" using K by (simp add: same_limits_def)
      ultimately show ?thesis
        using "2.IH" [OF room np [symmetric] Some loop] K dom Some as by (auto simp: same_limits_def)
    qed
  qed
qed

text \<open>The schedulers that a download reaches, with the chunks completed so far.\<close>

inductive scheduler_run :: "u32 list \<Rightarrow> snapshot_scheduler \<Rightarrow> u32 list \<Rightarrow> bool" for missing where
  start: "scheduler_new missing peers timeout n retries = Ok s \<Longrightarrow> scheduler_run missing s []"
| assign: "scheduler_run missing s cs \<Longrightarrow> scheduler_assign now s = (t, as) \<Longrightarrow> scheduler_run missing t cs"
| fail: "scheduler_run missing s cs \<Longrightarrow> scheduler_run missing (scheduler_fail peer chunk s) cs"
| complete: "scheduler_run missing s cs \<Longrightarrow> scheduler_complete peer chunk s = Ok t \<Longrightarrow> scheduler_run missing t (chunk # cs)"

definition scheduler_ok :: "u32 list \<Rightarrow> snapshot_scheduler \<Rightarrow> u32 list \<Rightarrow> bool" where
  "scheduler_ok missing s cs \<longleftrightarrow> outstanding s + mset cs = mset missing \<and>
     flying s \<le> sc_max_in_flight s \<and> sc_peers s \<noteq> []"

lemma outstanding_distinct:
  assumes "outstanding s + mset cs = mset missing" and "distinct missing"
  shows "distinct (sc_pending s)" and "set (sc_pending s) \<inter> fmdom' (sc_in_flight s) = {}"
proof -
  let ?M = "sc_pending s @ sorted_list_of_set (fmdom' (sc_in_flight s))"
  have "mset (sorted_list_of_set A) = mset_set A" if "finite A" for A :: "u32 set"
    using that by (simp add: mset_sorted_list_of_multiset flip: sorted_list_of_mset_set)
  then have "mset (?M @ cs) = mset missing"
    using assms(1) by (simp add: outstanding_def add.assoc)
  then have "distinct (?M @ cs)" using assms(2) mset_eq_imp_distinct_iff by blast
  then show "distinct (sc_pending s)" "set (sc_pending s) \<inter> fmdom' (sc_in_flight s) = {}" by auto
qed

lemma scheduler_assign_ok:
  assumes "scheduler_ok missing s cs" and "distinct missing" and "scheduler_assign now s = (t, as)"
  shows "scheduler_ok missing t cs \<and> (\<forall>a \<in> set as. ca_peer_id a \<in> set (sc_peers s) \<and>
    get0 (sc_failures t) (ca_peer_id a, ca_chunk_index a) < sc_max_peer_retries s)"
proof -
  define s1 where "s1 = requeue_timed_out now s"
  have loop: "assign_loop now (sc_pending s1) s1 = (t, as)"
    using assms(3) by (simp add: scheduler_assign_def s1_def Let_def)
  have F: "outstanding s1 = outstanding s" "same_limits s s1" "flying s1 \<le> flying s"
    using fold_fail_keeps [of "timed_out now s" s] by (simp_all add: s1_def requeue_timed_out_def)
  have D: "distinct (sc_pending s1)" "set (sc_pending s1) \<inter> fmdom' (sc_in_flight s1) = {}"
    using outstanding_distinct [of s1 cs missing] assms(1,2) F(1) by (simp_all add: scheduler_ok_def)
  have "flying s1 \<le> sc_max_in_flight s1" using F assms(1) by (simp add: scheduler_ok_def same_limits_def)
  note A = assign_loop_keeps [OF loop D this]
  show ?thesis
    using A F assms(1) by (auto simp: scheduler_ok_def same_limits_def outstanding_def)
qed

lemma scheduler_run_ok:
  assumes "scheduler_run missing s cs" and "distinct missing"
  shows "scheduler_ok missing s cs"
  using assms
proof (induction rule: scheduler_run.induct)
  case (start peers timeout n retries s)
  then show ?case by (auto simp: scheduler_new_def result_simps scheduler_ok_def outstanding_def)
next
  case (assign s cs now t as)
  then show ?case using scheduler_assign_ok by blast
next
  case (fail s cs peer chunk)
  then show ?case
    using scheduler_fail_keeps [where peer = peer and chunk = chunk and s = s] by (simp add: scheduler_ok_def same_limits_def)
next
  case (complete s cs peer chunk t)
  then obtain f where f: "fmlookup (sc_in_flight s) chunk = Some f" and t: "t = s\<lparr>sc_in_flight := fmdrop chunk (sc_in_flight s)\<rparr>"
    by (auto simp: scheduler_complete_def split: option.splits if_splits)
  have "flying t \<le> flying s" by (simp add: t card_Diff1_le)
  moreover have "add_mset chunk (outstanding t) = outstanding s"
    using drop_in_flight [OF f] by (simp add: outstanding_def t)
  moreover have "outstanding s + mset cs = mset missing" using complete by (simp add: scheduler_ok_def)
  ultimately have "outstanding t + mset (chunk # cs) = mset missing" by (metis add_mset_add_single mset.simps(2) union_mset_add_mset_left union_mset_add_mset_right)
  then show ?case using complete \<open>flying t \<le> flying s\<close> by (simp add: scheduler_ok_def t)
qed

subsection \<open>Property\<close>

text \<open>
  C24: a snapshot download neither loses nor repeats a chunk: over every sequence of assignments, timeouts,
  failures and completions each missing chunk is exactly once queued, in flight or completed; the
  scheduler reports that it is done exactly when all missing chunks are completed; no more than the
  allowed number of chunks is in flight; and a chunk is only given to a listed peer that has failed on
  it less often than the retry limit.
\<close>
theorem scheduler_no_chunk_lost:
  assumes "scheduler_run missing s cs" and "distinct missing"
  shows "mset (sc_pending s) + mset_set (fmdom' (sc_in_flight s)) + mset cs = mset missing \<and>
    (scheduler_is_done s \<longleftrightarrow> mset cs = mset missing) \<and>
    card (fmdom' (sc_in_flight s)) \<le> sc_max_in_flight s \<and>
    (\<forall>now t as. scheduler_assign now s = (t, as) \<longrightarrow> (\<forall>a \<in> set as. ca_peer_id a \<in> set (sc_peers s) \<and>
       get0 (sc_failures t) (ca_peer_id a, ca_chunk_index a) < sc_max_peer_retries s))"
proof -
  have ok: "scheduler_ok missing s cs" using assms by (rule scheduler_run_ok)
  then have out: "outstanding s + mset cs = mset missing" by (simp add: scheduler_ok_def)
  have "scheduler_is_done s \<longleftrightarrow> outstanding s = {#}"
    by (auto simp: scheduler_is_done_def outstanding_def mset_set_empty_iff fmdom'_empty_iff)
  also have "\<dots> \<longleftrightarrow> mset cs = mset missing" using out by auto
  finally show ?thesis using ok out scheduler_assign_ok [OF ok assms(2)] unfolding scheduler_ok_def outstanding_def by blast
qed

theorem scheduler_no_chunk_lost_witness:
  "\<exists>s. scheduler_run [0, 1] s [] \<and> \<not> scheduler_is_done s"
proof -
  obtain s where "scheduler_new [0, 1] [''a'', ''b''] 1 1 2 = Ok s" by (simp add: scheduler_new_def)
  then have r: "scheduler_run [0, 1] s []" by (rule scheduler_run.start)
  with scheduler_no_chunk_lost [OF r] show ?thesis by auto
qed

end
