(* ===== verification/Proof_Stores.thy ===== *)
theory Proof_Stores
  imports Json_Lines Consensus_Properties
begin

text \<open>
  The append-only stores of double-vote evidence (\<open>src/evidence_store.rs\<close>) and of finality certificates
  (\<open>src/finality_store.rs\<close>), on the files of \<open>Json_Lines\<close>. The stores keep nothing in memory: every
  operation reads the file again. Whether the file can be read is an argument; the evidence store treats
  an unreadable file like an absent one, the finality store reports it.

  The lemmas show that the evidence store refines a list of verified evidence with distinct ids, and that
  the finality store returns exactly the stored certificates, in height order, whenever they verify and
  agree at each height, and nothing otherwise.
\<close>

datatype store_error =
    BadStoreLine nat | StoreVerify consensus_error | StoreIo | ConflictingCertificates u64

subsection \<open>Evidence\<close>

definition load_evidence_line ::
  "externals \<Rightarrow> (string \<Rightarrow> double_vote_evidence option) \<Rightarrow> nat \<times> string \<Rightarrow> double_vote_evidence list \<times> string fset
     \<Rightarrow> (double_vote_evidence list \<times> string fset, store_error) result" where
  "load_evidence_line X decode = (\<lambda>(index, line) (evidence, ids).
     if is_blank line then Ok (evidence, ids)
     else
       and_then (ok_or (decode line) (BadStoreLine (index + 1))) (\<lambda>item.
       and_then (map_err StoreVerify (evidence_verify X item)) (\<lambda>_.
       if evidence_id item |\<in>| ids then Ok (evidence, ids)
       else Ok (evidence @ [item], finsert (evidence_id item) ids))))"

definition evidence_load ::
  "externals \<Rightarrow> (string \<Rightarrow> double_vote_evidence option) \<Rightarrow> bool \<Rightarrow> string option
     \<Rightarrow> (double_vote_evidence list, store_error) result" where
  "evidence_load X decode readable file =
     (case (if readable then file else None) of
        None \<Rightarrow> Ok []
      | Some contents \<Rightarrow>
        and_then (for_each (load_evidence_line X decode) (List.enumerate 0 (split_lines [] contents)) ([], {||}))
          (\<lambda>(evidence, _). Ok evidence))"

definition load_ids ::
  "externals \<Rightarrow> (string \<Rightarrow> double_vote_evidence option) \<Rightarrow> bool \<Rightarrow> string option \<Rightarrow> (string fset, store_error) result" where
  "load_ids X decode readable file =
     and_then (evidence_load X decode readable file) (\<lambda>es. Ok (fset_of_list (map evidence_id es)))"

definition evidence_append ::
  "externals \<Rightarrow> (double_vote_evidence \<Rightarrow> string) \<Rightarrow> (string \<Rightarrow> double_vote_evidence option) \<Rightarrow> bool \<Rightarrow> append_io
     \<Rightarrow> double_vote_evidence \<Rightarrow> string option \<Rightarrow> string option \<times> (bool, store_error) result" where
  "evidence_append X encode decode readable io e file =
     (case map_err StoreVerify (evidence_verify X e) of
        Inl err \<Rightarrow> (file, Err err)
      | Inr _ \<Rightarrow>
        (case load_ids X decode readable file of
           Inl err \<Rightarrow> (file, Err err)
         | Inr known \<Rightarrow>
           if evidence_id e |\<in>| known then (file, Ok False)
           else (append_line io (encode e) file, append_result io StoreIo (Ok True))))"

subsection \<open>Finality certificates\<close>

definition finality_append ::
  "(finality_certificate \<Rightarrow> string) \<Rightarrow> append_io \<Rightarrow> finality_certificate \<Rightarrow> string option
     \<Rightarrow> string option \<times> (unit, store_error) result" where
  "finality_append encode io c file = (append_line io (encode c) file, append_result io StoreIo (Ok ()))"

definition load_certificate_line ::
  "externals \<Rightarrow> (string \<Rightarrow> finality_certificate option) \<Rightarrow> validator list \<Rightarrow> nat \<times> string \<Rightarrow> finality_certificate list
     \<Rightarrow> (finality_certificate list, store_error) result" where
  "load_certificate_line X decode validators = (\<lambda>(index, line) certificates.
     if is_blank line then Ok certificates
     else
       and_then (ok_or (decode line) (BadStoreLine (index + 1))) (\<lambda>c.
       and_then (map_err StoreVerify (certificate_verify X c validators)) (\<lambda>_.
       Ok (certificates @ [c]))))"

fun check_pairs :: "finality_certificate list \<Rightarrow> (unit, store_error) result" where
  "check_pairs (c # d # cs) =
     (if blk_height (fc_block c) = blk_height (fc_block d) \<and> blk_hash (fc_block c) \<noteq> blk_hash (fc_block d)
      then Err (ConflictingCertificates (blk_height (fc_block c)))
      else check_pairs (d # cs))"
| "check_pairs cs = Ok ()"

definition finality_load ::
  "externals \<Rightarrow> (string \<Rightarrow> finality_certificate option) \<Rightarrow> bool \<Rightarrow> validator list \<Rightarrow> string option
     \<Rightarrow> (finality_certificate list, store_error) result" where
  "finality_load X decode readable validators file =
     (case file of
        None \<Rightarrow> Ok []
      | Some contents \<Rightarrow>
        and_then (ensure readable StoreIo) (\<lambda>_.
        and_then (for_each (load_certificate_line X decode validators) (List.enumerate 0 (split_lines [] contents)) [])
          (\<lambda>certificates.
        let sorted_certificates = sort_key (\<lambda>c. blk_height (fc_block c)) certificates in
        and_then (check_pairs sorted_certificates) (\<lambda>_. Ok sorted_certificates))))"

subsection \<open>Lemmas: evidence\<close>

definition evidence_list_ok :: "externals \<Rightarrow> double_vote_evidence list \<Rightarrow> bool" where
  "evidence_list_ok X es \<longleftrightarrow> (\<forall>e \<in> set es. evidence_verify X e = Ok ()) \<and> distinct (map evidence_id es)"

lemma load_evidence_lines:
  assumes "\<forall>e \<in> set es. json_line encode decode e" and "evidence_list_ok X es"
  shows "for_each (load_evidence_line X decode) (List.enumerate n (map encode es)) ([], {||}) =
     Ok (es, fset_of_list (map evidence_id es))"
  using assms
proof (induction es rule: rev_induct)
  case (snoc e es)
  then have "for_each (load_evidence_line X decode) (List.enumerate n (map encode es)) ([], {||}) =
     Ok (es, fset_of_list (map evidence_id es))"
    by (simp add: evidence_list_ok_def)
  moreover have "load_evidence_line X decode (n + length es, encode e) (es, fset_of_list (map evidence_id es)) =
     Ok (es @ [e], fset_of_list (map evidence_id (es @ [e])))"
    using snoc.prems by (auto simp: load_evidence_line_def evidence_list_ok_def json_line_def fset_of_list_elem fset_eq_iff)
  ultimately show ?case by (simp add: enumerate_append_eq for_each_append)
qed simp

lemma evidence_load_file:
  assumes "\<forall>e \<in> set es. json_line encode decode e" and "evidence_list_ok X es"
  shows "evidence_load X decode True (lines_file encode es) = Ok es"
  using load_evidence_lines [OF assms] split_lines_contents [OF assms(1)]
  by (simp add: evidence_load_def lines_file_def)

text \<open>
  The histories of the store: evidence offered in any order and any number of times, appends that
  succeed or fail before writing. The list holds the evidence that was newly stored.
\<close>

inductive evidence_run ::
  "externals \<Rightarrow> (double_vote_evidence \<Rightarrow> string) \<Rightarrow> (string \<Rightarrow> double_vote_evidence option) \<Rightarrow> string option
     \<Rightarrow> double_vote_evidence list \<Rightarrow> double_vote_evidence set \<Rightarrow> bool" for X encode decode where
  first: "evidence_run X encode decode None [] {}"
| stored: "evidence_run X encode decode store es offered \<Longrightarrow>
    evidence_append X encode decode True io e store = (store', Ok True) \<Longrightarrow>
    evidence_run X encode decode store' (es @ [e]) (insert e offered)"
| known: "evidence_run X encode decode store es offered \<Longrightarrow>
    evidence_append X encode decode True io e store = (store', Ok False) \<Longrightarrow>
    evidence_run X encode decode store' es (insert e offered)"
| failed: "evidence_run X encode decode store es offered \<Longrightarrow>
    evidence_append X encode decode True io e store = (store', Err err) \<Longrightarrow>
    io = Appended \<or> io = AppendFailed 0 \<Longrightarrow> evidence_run X encode decode store' es offered"

lemma append_result_Ok: "append_result io e (Ok x) = Ok y \<longleftrightarrow> io = Appended \<and> y = x"
  by (auto simp: append_result_def split: append_io.splits)

text \<open>What an append does to a store that holds the list.\<close>

lemma evidence_append_spec:
  assumes "\<forall>e \<in> set es. json_line encode decode e" and "evidence_list_ok X es"
  shows "evidence_append X encode decode True io e (lines_file encode es) =
    (case evidence_verify X e of
       Inl err \<Rightarrow> (lines_file encode es, Err (StoreVerify err))
     | Inr _ \<Rightarrow>
       if evidence_id e \<in> evidence_id ` set es then (lines_file encode es, Ok False)
       else (append_line io (encode e) (lines_file encode es), append_result io StoreIo (Ok True)))"
  using evidence_load_file [OF assms]
  by (cases "evidence_verify X e") (simp_all add: evidence_append_def load_ids_def fset_of_list.rep_eq)

lemma evidence_run_ok:
  "evidence_run X encode decode store es offered \<Longrightarrow> \<forall>e \<in> offered. json_line encode decode e \<Longrightarrow>
     store = lines_file encode es \<and> evidence_list_ok X es \<and> set es \<subseteq> offered \<and>
     (\<forall>e \<in> offered. evidence_id e \<in> evidence_id ` set es)"
proof (induction rule: evidence_run.induct)
  case first
  then show ?case by (simp add: evidence_list_ok_def)
next
  case (stored store es offered io e store')
  then have ok: "store = lines_file encode es" "evidence_list_ok X es" "\<forall>e \<in> set es. json_line encode decode e"
    and ih: "set es \<subseteq> offered" "\<forall>e \<in> offered. evidence_id e \<in> evidence_id ` set es" by auto
  have "evidence_verify X e = Ok () \<and> evidence_id e \<notin> evidence_id ` set es \<and> store' = lines_file encode (es @ [e])"
    using stored.hyps(2) evidence_append_spec [OF ok(3,2), of io e] ok(1)
    by (auto simp: append_result_Ok append_line_file split: sum.splits if_splits)
  then show ?case using ok ih by (auto simp: evidence_list_ok_def)
next
  case (known store es offered io e store')
  then have ok: "store = lines_file encode es" "evidence_list_ok X es" "\<forall>e \<in> set es. json_line encode decode e"
    and ih: "set es \<subseteq> offered" "\<forall>e \<in> offered. evidence_id e \<in> evidence_id ` set es" by auto
  have "evidence_id e \<in> evidence_id ` set es \<and> store' = store"
    using known.hyps(2) evidence_append_spec [OF ok(3,2), of io e] ok(1)
    by (auto simp: append_result_Ok split: sum.splits if_splits)
  then show ?case using ok ih by auto
next
  case (failed store es offered io e store' err)
  then have ok: "store = lines_file encode es" "evidence_list_ok X es" "\<forall>e \<in> set es. json_line encode decode e"
    by auto
  have "store' = store"
    using failed.hyps(2,3) evidence_append_spec [OF ok(3,2), of io e] ok(1)
    by (auto simp: append_result_def split: sum.splits if_splits)
  then show ?case using failed by blast
qed

subsection \<open>Lemmas: finality certificates\<close>

lemma load_certificate_lines:
  assumes "\<forall>c \<in> set cs. json_line encode decode c" and "\<forall>c \<in> set cs. certificate_verify X c vs = Ok ()"
  shows "for_each (load_certificate_line X decode vs) (List.enumerate n (map encode cs)) acc = Ok (acc @ cs)"
  using assms by (induction cs arbitrary: n acc) (simp_all add: load_certificate_line_def json_line_def)

lemma load_certificate_lines_verified:
  assumes "for_each (load_certificate_line X decode vs) xs acc = Ok cs" and "\<forall>c \<in> set acc. certificate_verify X c vs = Ok ()"
  shows "\<forall>c \<in> set cs. certificate_verify X c vs = Ok ()"
  using assms(1,2)
  by (rule for_each_invariant) (auto simp: load_certificate_line_def result_simps split: if_splits prod.splits)

definition one_hash_per_height :: "finality_certificate list \<Rightarrow> bool" where
  "one_hash_per_height cs \<longleftrightarrow> (\<forall>c \<in> set cs. \<forall>d \<in> set cs.
     blk_height (fc_block c) = blk_height (fc_block d) \<longrightarrow> blk_hash (fc_block c) = blk_hash (fc_block d))"

lemma one_hashD:
  "one_hash_per_height cs \<Longrightarrow> c \<in> set cs \<Longrightarrow> d \<in> set cs \<Longrightarrow> blk_height (fc_block c) = blk_height (fc_block d) \<Longrightarrow>
     blk_hash (fc_block c) = blk_hash (fc_block d)"
  unfolding one_hash_per_height_def by blast

lemma one_hash_subset: "one_hash_per_height cs \<Longrightarrow> set ds \<subseteq> set cs \<Longrightarrow> one_hash_per_height ds"
  unfolding one_hash_per_height_def by blast

lemma one_hash_per_height_Cons:
  assumes "one_hash_per_height cs"
    and "\<And>e. e \<in> set cs \<Longrightarrow> blk_height (fc_block c) = blk_height (fc_block e) \<Longrightarrow> blk_hash (fc_block c) = blk_hash (fc_block e)"
  shows "one_hash_per_height (c # cs)"
  using assms unfolding one_hash_per_height_def by (metis set_ConsD)

text \<open>Comparing neighbours of the sorted list is enough to compare all certificates.\<close>

lemma check_pairs_sorted:
  "sorted (map (\<lambda>c. blk_height (fc_block c)) cs) \<Longrightarrow> check_pairs cs = Ok () \<longleftrightarrow> one_hash_per_height cs"
proof (induction cs rule: check_pairs.induct)
  case (1 c d cs)
  have tail: "check_pairs (d # cs) = Ok () \<longleftrightarrow> one_hash_per_height (d # cs)"
    if "\<not> (blk_height (fc_block c) = blk_height (fc_block d) \<and> blk_hash (fc_block c) \<noteq> blk_hash (fc_block d))"
    using 1 that by simp
  have "one_hash_per_height (c # d # cs)"
    if ok: "\<not> (blk_height (fc_block c) = blk_height (fc_block d) \<and> blk_hash (fc_block c) \<noteq> blk_hash (fc_block d))"
      "one_hash_per_height (d # cs)"
  proof (rule one_hash_per_height_Cons [OF ok(2)])
    fix e assume e: "e \<in> set (d # cs)" "blk_height (fc_block c) = blk_height (fc_block e)"
    have "blk_height (fc_block c) \<le> blk_height (fc_block d)" "blk_height (fc_block d) \<le> blk_height (fc_block e)"
      using "1.prems" e(1) by auto
    with e(2) have cd: "blk_height (fc_block c) = blk_height (fc_block d)" by simp
    with e(2) have "blk_hash (fc_block d) = blk_hash (fc_block e)" by (intro one_hashD [OF ok(2)] e(1)) simp_all
    with ok(1) cd show "blk_hash (fc_block c) = blk_hash (fc_block e)" by simp
  qed
  moreover have "one_hash_per_height (d # cs)" if "one_hash_per_height (c # d # cs)"
    using that by (rule one_hash_subset) auto
  moreover have "\<not> (blk_height (fc_block c) = blk_height (fc_block d) \<and> blk_hash (fc_block c) \<noteq> blk_hash (fc_block d))"
    if "one_hash_per_height (c # d # cs)"
    using one_hashD [OF that, of c d] by auto
  ultimately have "one_hash_per_height (c # d # cs) \<longleftrightarrow>
    \<not> (blk_height (fc_block c) = blk_height (fc_block d) \<and> blk_hash (fc_block c) \<noteq> blk_hash (fc_block d)) \<and>
    one_hash_per_height (d # cs)"
    by blast
  then show ?case using tail by (simp only: check_pairs.simps split: if_split) blast
qed (simp_all add: one_hash_per_height_def)

lemma finality_load_Ok:
  assumes "finality_load X decode readable vs store = Ok cs"
  shows "sorted (map (\<lambda>c. blk_height (fc_block c)) cs) \<and> one_hash_per_height cs \<and>
    (\<forall>c \<in> set cs. certificate_verify X c vs = Ok ())"
proof (cases store)
  case None
  then show ?thesis using assms by (simp add: finality_load_def one_hash_per_height_def)
next
  case (Some contents)
  then obtain ds where ds: "for_each (load_certificate_line X decode vs) (List.enumerate 0 (split_lines [] contents)) [] = Ok ds"
    and cs: "cs = sort_key (\<lambda>c. blk_height (fc_block c)) ds" "check_pairs cs = Ok ()"
    using assms by (auto simp: finality_load_def result_simps Let_def)
  from load_certificate_lines_verified [OF ds] cs(1) have "\<forall>c \<in> set cs. certificate_verify X c vs = Ok ()" by simp
  moreover have "sorted (map (\<lambda>c. blk_height (fc_block c)) cs)" using cs(1) by simp
  ultimately show ?thesis using check_pairs_sorted cs(2) by blast
qed

subsection \<open>Properties\<close>

text \<open>
  The evidence store keeps every piece of verified evidence offered to it exactly once. After any
  sequence of appends, repeated, failing before the write, or of forged evidence, loading the store gives
  the newly stored evidence in the order in which it was stored, all of it verified and with distinct
  ids, and a repetition of an id already stored is reported as known and changes nothing.
\<close>
theorem evidence_store_exact:
  assumes "evidence_run X encode decode store es offered" and "\<forall>e \<in> offered. json_line encode decode e"
  shows "evidence_load X decode True store = Ok es \<and> distinct (map evidence_id es) \<and>
    (\<forall>e \<in> set es. evidence_verify X e = Ok ()) \<and> evidence_id ` offered = evidence_id ` set es \<and>
    (\<forall>e io. evidence_verify X e = Ok () \<longrightarrow> evidence_id e \<in> evidence_id ` set es \<longrightarrow>
       evidence_append X encode decode True io e store = (store, Ok False))"
proof -
  have ok: "store = lines_file encode es" "evidence_list_ok X es" "\<forall>e \<in> set es. json_line encode decode e"
    "evidence_id ` offered = evidence_id ` set es"
    using evidence_run_ok [OF assms] assms(2) by auto
  have "evidence_load X decode True store = Ok es" using evidence_load_file [OF ok(3,2)] ok(1) by simp
  moreover have "\<forall>e io. evidence_verify X e = Ok () \<longrightarrow> evidence_id e \<in> evidence_id ` set es \<longrightarrow>
       evidence_append X encode decode True io e store = (store, Ok False)"
    using evidence_append_spec [OF ok(3,2)] ok(1) by simp
  ultimately show ?thesis using ok(2,4) by (simp add: evidence_list_ok_def)
qed

definition sample_evidence :: double_vote_evidence where
  "sample_evidence = (let m = \<lparr>msg_height = 1, msg_round = 0, msg_validator_id = ''val'', msg_vote_type = Prevote,
     msg_block_hash = ''h'', msg_signature = ''xy''\<rparr> in \<lparr>de_first = m, de_second = m\<lparr>msg_block_hash := ''g''\<rparr>\<rparr>)"

theorem evidence_store_exact_witness:
  "evidence_load permissive_externals (\<lambda>_. Some sample_evidence) True (Some [CHR ''v'', CHR 0x0A]) = Ok [sample_evidence]"
proof -
  have v: "evidence_verify permissive_externals sample_evidence = Ok ()"
    by (simp add: evidence_verify_def sample_evidence_def vote_verify_def permissive_signature Let_def)
  have "evidence_append permissive_externals (\<lambda>_. ''v'') (\<lambda>_. Some sample_evidence) True Appended sample_evidence None =
      (Some [CHR ''v'', CHR 0x0A], Ok True)"
    by (simp add: evidence_append_def v load_ids_def evidence_load_def append_line_def append_result_def)
  from evidence_run.stored [OF evidence_run.first this]
  have run: "evidence_run permissive_externals (\<lambda>_. ''v'') (\<lambda>_. Some sample_evidence) (Some [CHR ''v'', CHR 0x0A])
      [sample_evidence] {sample_evidence}" by simp
  have "json_line (\<lambda>_. ''v'') (\<lambda>_. Some sample_evidence) sample_evidence"
    by (simp add: json_line_def is_blank_def all_white.simps ws_width_def)
  then show ?thesis using evidence_store_exact [OF run] by simp
qed

text \<open>
  The finality store returns exactly what it holds. For a store of whole certificate records the load
  succeeds if and only if all certificates verify and certificates of one height agree on the block hash;
  then it returns them in height order, those of one height in the order in which they were stored.
\<close>
theorem finality_store_exact:
  assumes "\<forall>c \<in> set cs. json_line encode decode c"
  shows "finality_load X decode True vs (lines_file encode cs) = Ok r \<longleftrightarrow>
    (\<forall>c \<in> set cs. certificate_verify X c vs = Ok ()) \<and> one_hash_per_height cs \<and>
    r = sort_key (\<lambda>c. blk_height (fc_block c)) cs" (is "?l \<longleftrightarrow> ?r")
proof
  have hashes: "one_hash_per_height (sort_key f cs) = one_hash_per_height cs" for f :: "finality_certificate \<Rightarrow> u64"
    by (simp add: one_hash_per_height_def)
  have load: "finality_load X decode True vs (lines_file encode cs) =
      and_then (for_each (load_certificate_line X decode vs) (List.enumerate 0 (map encode cs)) []) (\<lambda>ds.
        let s = sort_key (\<lambda>c. blk_height (fc_block c)) ds in and_then (check_pairs s) (\<lambda>_. Ok s))"
    using split_lines_contents [OF assms] by (simp add: finality_load_def lines_file_def)
  show ?l if ?r
    using that load load_certificate_lines [OF assms, of X vs 0 "[]"]
      check_pairs_sorted [of "sort_key (\<lambda>c. blk_height (fc_block c)) cs"]
    by (simp add: Let_def hashes)
  assume l: ?l
  have verified: "\<forall>c \<in> set cs. certificate_verify X c vs = Ok ()"
  proof (rule ccontr)
    assume "\<not> (\<forall>c \<in> set cs. certificate_verify X c vs = Ok ())"
    then obtain xs c ys where split: "cs = xs @ c # ys" "\<forall>c \<in> set xs. certificate_verify X c vs = Ok ()"
      "certificate_verify X c vs \<noteq> Ok ()"
      using split_list_first_prop [of cs "\<lambda>c. certificate_verify X c vs \<noteq> Ok ()"] by blast
    then have "for_each (load_certificate_line X decode vs) (List.enumerate 0 (map encode xs)) [] = Ok xs"
      using load_certificate_lines [of xs encode decode X vs 0 "[]"] assms by simp
    moreover have "\<exists>e. load_certificate_line X decode vs (length xs, encode c) xs = Err e"
      using split assms by (cases "certificate_verify X c vs") (auto simp: load_certificate_line_def json_line_def)
    ultimately show False
      using l load split(1) by (auto simp: enumerate_append_eq for_each_append result_simps)
  qed
  with l load load_certificate_lines [OF assms verified, of 0 "[]"]
  have "check_pairs (sort_key (\<lambda>c. blk_height (fc_block c)) cs) = Ok () \<and> r = sort_key (\<lambda>c. blk_height (fc_block c)) cs"
    by (auto simp: Let_def result_simps)
  then show ?r using verified check_pairs_sorted hashes by (metis sorted_sort_key)
qed

theorem finality_store_exact_witness:
  "finality_load fork_externals (\<lambda>_. Some (fork_certificate [] ''h'')) True sample_vs
     (lines_file (\<lambda>_. ''v'') [fork_certificate [] ''h'']) = Ok [fork_certificate [] ''h'']"
proof -
  have "\<forall>c \<in> set [fork_certificate [] ''h'']. json_line (\<lambda>_. ''v'') (\<lambda>_. Some (fork_certificate [] ''h'')) c"
    by (simp add: json_line_def is_blank_def all_white.simps ws_width_def)
  from finality_store_exact [OF this] show ?thesis
    by (simp add: fork_certificate_ok one_hash_per_height_def)
qed

end
