(* ===== verification/Embedded_Db.thy ===== *)
theory Embedded_Db
  imports Prelude
begin

text \<open>
  The embedded key-value store (\<open>src/embedded_db.rs\<close>): writes are collected in memory and committed in
  one SQLite transaction. SQLite is a C library outside the program: the record \<open>sqlite\<close> has one field
  for every statement the program executes, over an abstract type of connections, and \<open>sqlite_laws\<close>
  states what the library documents of them. Every statement may fail. The wrappers \<open>Connection\<close> and
  \<open>Statement\<close> around the C interface are part of these fields.

  The lemmas show that the store refines a map with an overlay of uncommitted writes: reads see the
  overlay, a commit makes the overlay permanent and raises the generation, and a failed commit leaves
  both the permanent map and the overlay as they were.
\<close>

datatype db_error =
    Sqlite | MissingMetadata string | NegativeMetadata string | UnsupportedSchema u64
  | LegacyUnreadable | LegacyCorrupt | LegacySchema | LegacyRename | DirectoryError

definition SCHEMA_VERSION :: u32 where
  "SCHEMA_VERSION = 2"

text \<open>The statements of the program; \<open>None\<close> and \<open>False\<close> are error codes of SQLite.\<close>

record 'd sqlite =
  sq_exists :: "'d \<Rightarrow> bool"
  sq_create :: "'d \<Rightarrow> 'd \<times> bool"
  sq_select_kv :: "'d \<Rightarrow> string \<Rightarrow> bytes option option"
  sq_select_like :: "'d \<Rightarrow> string \<Rightarrow> (string \<times> bytes) list option"
  sq_select_metadata :: "'d \<Rightarrow> string \<Rightarrow> int option option"
  sq_begin :: "'d \<Rightarrow> 'd \<times> bool"
  sq_upsert :: "string \<Rightarrow> bytes \<Rightarrow> 'd \<Rightarrow> 'd \<times> bool"
  sq_delete :: "string \<Rightarrow> 'd \<Rightarrow> 'd \<times> bool"
  sq_set_generation :: "u64 \<Rightarrow> 'd \<Rightarrow> 'd \<times> bool"
  sq_commit :: "'d \<Rightarrow> 'd \<times> bool"
  sq_rollback :: "'d \<Rightarrow> 'd \<times> bool"

subsection \<open>Model\<close>

record 'd embedded_db =
  edb_disk :: 'd
  edb_pending :: "(string, bytes option) fmap"

definition db_put :: "string \<Rightarrow> bytes \<Rightarrow> 'd embedded_db \<Rightarrow> 'd embedded_db" where
  "db_put key v db = db\<lparr>edb_pending := fmupd key (Some v) (edb_pending db)\<rparr>"

definition db_remove :: "string \<Rightarrow> 'd embedded_db \<Rightarrow> 'd embedded_db" where
  "db_remove key db = db\<lparr>edb_pending := fmupd key None (edb_pending db)\<rparr>"

definition db_get :: "'d sqlite \<Rightarrow> 'd embedded_db \<Rightarrow> string \<Rightarrow> (bytes option, db_error) result" where
  "db_get Q db key =
     (case fmlookup (edb_pending db) key of
        Some v \<Rightarrow> Ok v
      | None \<Rightarrow> ok_or (sq_select_kv Q (edb_disk db) key) Sqlite)"

definition db_metadata :: "'d sqlite \<Rightarrow> 'd \<Rightarrow> string \<Rightarrow> (u64, db_error) result" where
  "db_metadata Q d name =
     and_then (ok_or (sq_select_metadata Q d name) Sqlite) (\<lambda>row.
     and_then (ok_or row (MissingMetadata name)) (\<lambda>v.
     if v < 0 then Err (NegativeMetadata name) else Ok (of_int v)))"

definition db_generation :: "'d sqlite \<Rightarrow> 'd \<Rightarrow> (u64, db_error) result" where
  "db_generation Q d = db_metadata Q d ''generation''"

text \<open>\<open>prefix.replace('\', "\\").replace('%', "\%").replace('_', "\_")\<close>\<close>

definition replace_char :: "char \<Rightarrow> string \<Rightarrow> string \<Rightarrow> string" where
  "replace_char c by s = concat (map (\<lambda>x. if x = c then by else [x]) s)"

definition escape_like :: "string \<Rightarrow> string" where
  "escape_like prefix =
     replace_char (CHR ''_'') [CHR 0x5C, CHR ''_''] (replace_char (CHR ''%'') [CHR 0x5C, CHR ''%'']
       (replace_char (CHR 0x5C) [CHR 0x5C, CHR 0x5C] prefix))"

definition overlay_entry ::
  "string \<Rightarrow> string \<times> bytes option \<Rightarrow> (string \<times> bytes) list \<Rightarrow> (string \<times> bytes) list" where
  "overlay_entry prefix = (\<lambda>(key, v) rows.
     if starts_with key prefix then
       let kept = filter (\<lambda>(stored, _). stored \<noteq> key) rows in
       case v of Some x \<Rightarrow> kept @ [(key, x)] | None \<Rightarrow> kept
     else rows)"

definition scan_prefix :: "'d sqlite \<Rightarrow> 'd embedded_db \<Rightarrow> string \<Rightarrow> ((string \<times> bytes) list, db_error) result" where
  "scan_prefix Q db prefix =
     and_then (ok_or (sq_select_like Q (edb_disk db) (escape_like prefix @ ''%'')) Sqlite) (\<lambda>rows.
     Ok (sort_key fst (fold (overlay_entry prefix) (fm_entries (edb_pending db)) rows)))"

definition apply_write :: "'d sqlite \<Rightarrow> string \<times> bytes option \<Rightarrow> 'd \<Rightarrow> 'd \<times> bool" where
  "apply_write Q = (\<lambda>(key, v) d. case v of Some x \<Rightarrow> sq_upsert Q key x d | None \<Rightarrow> sq_delete Q key d)"

fun apply_writes :: "'d sqlite \<Rightarrow> (string \<times> bytes option) list \<Rightarrow> 'd \<Rightarrow> 'd \<times> bool" where
  "apply_writes Q [] d = (d, True)"
| "apply_writes Q (w # ws) d =
     (case apply_write Q w d of (d1, ok) \<Rightarrow> if ok then apply_writes Q ws d1 else (d1, False))"

definition apply_pending :: "'d sqlite \<Rightarrow> (string, bytes option) fmap \<Rightarrow> u64 \<Rightarrow> 'd \<Rightarrow> 'd \<times> bool" where
  "apply_pending Q pending generation d =
     (case apply_writes Q (fm_entries pending) d of
        (d1, ok) \<Rightarrow> if ok then sq_set_generation Q generation d1 else (d1, False))"

text \<open>A connection that is dropped with an open transaction is rolled back, like an explicit \<open>ROLLBACK\<close>.\<close>

definition commit_with_generation ::
  "'d sqlite \<Rightarrow> u64 \<Rightarrow> 'd embedded_db \<Rightarrow> 'd embedded_db \<times> (unit, db_error) result" where
  "commit_with_generation Q generation db =
     (case sq_begin Q (edb_disk db) of
        (d0, False) \<Rightarrow> (db\<lparr>edb_disk := d0\<rparr>, Err Sqlite)
      | (d0, True) \<Rightarrow>
        (case apply_pending Q (edb_pending db) generation d0 of
           (d1, True) \<Rightarrow>
             (case sq_commit Q d1 of
                (d2, True) \<Rightarrow> (db\<lparr>edb_disk := d2, edb_pending := fmempty\<rparr>, Ok ())
              | (d2, False) \<Rightarrow> (db\<lparr>edb_disk := fst (sq_rollback Q d2)\<rparr>, Err Sqlite))
         | (d1, False) \<Rightarrow> (db\<lparr>edb_disk := fst (sq_rollback Q d1)\<rparr>, Err Sqlite)))"

definition db_commit :: "'d sqlite \<Rightarrow> 'd embedded_db \<Rightarrow> 'd embedded_db \<times> (u64, db_error) result" where
  "db_commit Q db =
     (case db_generation Q (edb_disk db) of
        Inl e \<Rightarrow> (db, Err e)
      | Inr g \<Rightarrow>
        let generation = saturating_add g 1 in
        (case commit_with_generation Q generation db of
           (db1, Inl e) \<Rightarrow> (db1, Err e)
         | (db1, Inr _) \<Rightarrow> (db1, Ok generation)))"

definition db_initialize :: "'d sqlite \<Rightarrow> 'd \<Rightarrow> 'd \<times> (unit, db_error) result" where
  "db_initialize Q d =
     (case sq_create Q d of
        (d1, False) \<Rightarrow> (d1, Err Sqlite)
      | (d1, True) \<Rightarrow>
        (d1, and_then (db_metadata Q d1 ''schema_version'') (\<lambda>schema.
             if schema \<noteq> ucast SCHEMA_VERSION then Err (UnsupportedSchema schema) else Ok ())))"

subsubsection \<open>The JSON image of earlier versions\<close>

record legacy_image =
  li_schema_version :: u32
  li_generation :: u64
  li_values :: "(string, bytes) fmap"

text \<open>
  The legacy file: its contents, whether it can be read and whether it can be renamed. An import moves
  it away, and a file that has been moved is not imported again.
\<close>

record legacy_file =
  lf_contents :: "bytes option"
  lf_readable :: bool
  lf_renamable :: bool

definition import_legacy ::
  "'d sqlite \<Rightarrow> (bytes \<Rightarrow> legacy_image option) \<Rightarrow> legacy_file \<Rightarrow> 'd embedded_db
     \<Rightarrow> 'd embedded_db \<times> legacy_file \<times> (unit, db_error) result" where
  "import_legacy Q decode lf db =
     (case (if lf_readable lf then lf_contents lf else None) of
        None \<Rightarrow> (db, lf, Err LegacyUnreadable)
      | Some contents \<Rightarrow>
        (case decode contents of
           None \<Rightarrow> (db, lf, Err LegacyCorrupt)
         | Some img \<Rightarrow>
           if li_schema_version img \<noteq> 1 then (db, lf, Err LegacySchema)
           else
             let migrated = fold (\<lambda>(key, v). db_put key v) (fm_entries (li_values img)) db in
             case commit_with_generation Q (li_generation img) migrated of
               (m, Inl e) \<Rightarrow> (db\<lparr>edb_disk := edb_disk m\<rparr>, lf, Err e)
             | (m, Inr _) \<Rightarrow>
               (db\<lparr>edb_disk := edb_disk m\<rparr>,
                if lf_renamable lf then (lf\<lparr>lf_contents := None\<rparr>, Ok ()) else (lf, Err LegacyRename))))"

definition db_open ::
  "'d sqlite \<Rightarrow> (bytes \<Rightarrow> legacy_image option) \<Rightarrow> legacy_file \<Rightarrow> 'd
     \<Rightarrow> 'd \<times> legacy_file \<times> ('d embedded_db, db_error) result" where
  "db_open Q decode lf d =
     (let is_new = \<not> sq_exists Q d in
      case db_initialize Q d of
        (d1, Inl e) \<Rightarrow> (d1, lf, Err e)
      | (d1, Inr _) \<Rightarrow>
        let db = \<lparr>edb_disk = d1, edb_pending = fmempty\<rparr> in
        if is_new \<and> lf_contents lf \<noteq> None then
          (case import_legacy Q decode lf db of
             (db1, lf1, Inl e) \<Rightarrow> (edb_disk db1, lf1, Err e)
           | (db1, lf1, Inr _) \<Rightarrow> (edb_disk db1, lf1, Ok db1))
        else (d1, lf, Ok db))"

subsection \<open>What SQLite promises\<close>

text \<open>
  The \<open>LIKE\<close> operator with the escape character \<open>\\<close>: \<open>%\<close> matches any string, \<open>_\<close> one character, and
  every other character itself, where ASCII letters match in either case.
\<close>

fun like :: "string \<Rightarrow> string \<Rightarrow> bool" where
  "like [] s \<longleftrightarrow> s = []"
| "like (c # p) s \<longleftrightarrow>
     (if c = CHR ''%'' then (\<exists>n \<in> set [0..<length s + 1]. like p (drop n s))
      else if c = CHR ''_'' then s \<noteq> [] \<and> like p (tl s)
      else if c = CHR 0x5C \<and> p \<noteq> [] then s \<noteq> [] \<and> ascii_lower (hd p) = ascii_lower (hd s) \<and> like (tl p) (tl s)
      else s \<noteq> [] \<and> ascii_lower c = ascii_lower (hd s) \<and> like p (tl s))"

text \<open>The tables of the database file and, inside a transaction, their working copy.\<close>

record db_tables =
  dt_kv :: "(string, bytes) fmap"
  dt_metadata :: "(string, int) fmap"

record db_view =
  dv_committed :: "db_tables option"
  dv_working :: "db_tables option"

definition like_rows :: "(string, bytes) fmap \<Rightarrow> string \<Rightarrow> (string \<times> bytes) list" where
  "like_rows m pat = filter (\<lambda>(k, _). like pat k) (fm_entries m)"

definition fresh_tables :: db_tables where
  "fresh_tables = \<lparr>dt_kv = fmempty,
     dt_metadata = fmupd ''generation'' 0 (fmupd ''schema_version'' 2 fmempty)\<rparr>"

text \<open>A statement that fails changes nothing that is visible; one that succeeds does what it says.\<close>

definition changes :: "('d \<Rightarrow> db_view) \<Rightarrow> ('d \<Rightarrow> 'd \<times> bool) \<Rightarrow> (db_view \<Rightarrow> db_view) \<Rightarrow> bool" where
  "changes view f g \<longleftrightarrow> (\<forall>d. view (fst (f d)) = (if snd (f d) then g (view d) else view d))"

definition on_working :: "(db_tables \<Rightarrow> db_tables) \<Rightarrow> db_view \<Rightarrow> db_view" where
  "on_working f v = v\<lparr>dv_working := map_option f (dv_working v)\<rparr>"

definition sqlite_laws :: "'d sqlite \<Rightarrow> ('d \<Rightarrow> db_view) \<Rightarrow> bool" where
  "sqlite_laws Q view \<longleftrightarrow>
     (\<forall>d. dv_committed (view d) \<noteq> None \<longrightarrow> sq_exists Q d) \<and>
     (\<forall>d. snd (sq_create Q d) \<longrightarrow> view (fst (sq_create Q d)) =
        (view d)\<lparr>dv_committed := Some (case dv_committed (view d) of None \<Rightarrow> fresh_tables | Some t \<Rightarrow> t)\<rparr>) \<and>
     (\<forall>d t key r. dv_committed (view d) = Some t \<longrightarrow> sq_select_kv Q d key = Some r \<longrightarrow> r = fmlookup (dt_kv t) key) \<and>
     (\<forall>d t pat rows. dv_committed (view d) = Some t \<longrightarrow> sq_select_like Q d pat = Some rows \<longrightarrow>
        rows = like_rows (dt_kv t) pat) \<and>
     (\<forall>d t name r. dv_committed (view d) = Some t \<longrightarrow> sq_select_metadata Q d name = Some r \<longrightarrow>
        r = fmlookup (dt_metadata t) name) \<and>
     changes view (sq_begin Q) (\<lambda>v. v\<lparr>dv_working := dv_committed v\<rparr>) \<and>
     (\<forall>key x. changes view (sq_upsert Q key x) (on_working (\<lambda>t. t\<lparr>dt_kv := fmupd key x (dt_kv t)\<rparr>))) \<and>
     (\<forall>key. changes view (sq_delete Q key) (on_working (\<lambda>t. t\<lparr>dt_kv := fmdrop key (dt_kv t)\<rparr>))) \<and>
     (\<forall>g. unat g < 2 ^ 63 \<longrightarrow> changes view (sq_set_generation Q g)
        (on_working (\<lambda>t. t\<lparr>dt_metadata := fmupd ''generation'' (uint g) (dt_metadata t)\<rparr>))) \<and>
     changes view (sq_commit Q) (\<lambda>v. v\<lparr>dv_committed := dv_working v, dv_working := None\<rparr>) \<and>
     (\<forall>d. view (fst (sq_rollback Q d)) = (view d)\<lparr>dv_working := None\<rparr>)"

lemma sqlite_lawsD:
  assumes "sqlite_laws Q view"
  shows "dv_committed (view d) \<noteq> None \<Longrightarrow> sq_exists Q d"
    and "snd (sq_create Q d) \<Longrightarrow> view (fst (sq_create Q d)) =
        (view d)\<lparr>dv_committed := Some (case dv_committed (view d) of None \<Rightarrow> fresh_tables | Some t \<Rightarrow> t)\<rparr>"
    and "dv_committed (view d) = Some t \<Longrightarrow> sq_select_kv Q d key = Some r \<Longrightarrow> r = fmlookup (dt_kv t) key"
    and "dv_committed (view d) = Some t \<Longrightarrow> sq_select_like Q d pat = Some rows \<Longrightarrow> rows = like_rows (dt_kv t) pat"
    and "dv_committed (view d) = Some t \<Longrightarrow> sq_select_metadata Q d name = Some v \<Longrightarrow> v = fmlookup (dt_metadata t) name"
    and "changes view (sq_begin Q) (\<lambda>v. v\<lparr>dv_working := dv_committed v\<rparr>)"
    and "changes view (sq_upsert Q key x) (on_working (\<lambda>t. t\<lparr>dt_kv := fmupd key x (dt_kv t)\<rparr>))"
    and "changes view (sq_delete Q key) (on_working (\<lambda>t. t\<lparr>dt_kv := fmdrop key (dt_kv t)\<rparr>))"
    and "unat g < 2 ^ 63 \<Longrightarrow> changes view (sq_set_generation Q g)
        (on_working (\<lambda>t. t\<lparr>dt_metadata := fmupd ''generation'' (uint g) (dt_metadata t)\<rparr>))"
    and "changes view (sq_commit Q) (\<lambda>v. v\<lparr>dv_committed := dv_working v, dv_working := None\<rparr>)"
    and "view (fst (sq_rollback Q d)) = (view d)\<lparr>dv_working := None\<rparr>"
  using assms unfolding sqlite_laws_def by simp_all

lemma changesD: "changes view f g \<Longrightarrow> f d = (d', ok) \<Longrightarrow> view d' = (if ok then g (view d) else view d)"
  unfolding changes_def by (metis fst_conv snd_conv)

subsection \<open>Lemmas: commits\<close>

definition write_kv :: "string \<times> bytes option \<Rightarrow> (string, bytes) fmap \<Rightarrow> (string, bytes) fmap" where
  "write_kv = (\<lambda>(key, v) m. case v of Some x \<Rightarrow> fmupd key x m | None \<Rightarrow> fmdrop key m)"

text \<open>What a reader of the store sees: uncommitted writes over the committed table.\<close>

definition overlay :: "(string, bytes) fmap \<Rightarrow> (string, bytes option) fmap \<Rightarrow> string \<Rightarrow> bytes option" where
  "overlay m pending key = (case fmlookup pending key of Some v \<Rightarrow> v | None \<Rightarrow> fmlookup m key)"

lemma fold_write_kv:
  "distinct (map fst ws) \<Longrightarrow> fmlookup (fold write_kv ws m) key =
     (case map_of ws key of Some v \<Rightarrow> v | None \<Rightarrow> fmlookup m key)"
proof (induction ws arbitrary: m)
  case (Cons w ws)
  obtain k v where w: "w = (k, v)" by fastforce
  have "map_of ws k = None" using Cons.prems w by (simp add: map_of_eq_None_iff)
  with Cons w show ?case by (cases v) (auto simp: write_kv_def split: option.splits)
qed simp

lemma fold_write_overlay: "fmlookup (fold write_kv (fm_entries pending) m) = overlay m pending"
  by (rule ext) (simp add: fold_write_kv distinct_fm_entries overlay_def)

lemma apply_write_view:
  assumes "sqlite_laws Q view" and "apply_write Q w d = (d', ok)"
  shows "view d' = (if ok then on_working (\<lambda>t. t\<lparr>dt_kv := write_kv w (dt_kv t)\<rparr>) (view d) else view d)"
  using assms(2) changesD [OF sqlite_lawsD(7) [OF assms(1)]] changesD [OF sqlite_lawsD(8) [OF assms(1)]]
  by (cases w; cases "snd w") (simp_all add: apply_write_def write_kv_def)

lemma apply_writes_view:
  assumes "sqlite_laws Q view"
  shows "apply_writes Q ws d = (d', ok) \<Longrightarrow> dv_committed (view d') = dv_committed (view d) \<and>
    (ok \<longrightarrow> dv_working (view d') = map_option (\<lambda>t. t\<lparr>dt_kv := fold write_kv ws (dt_kv t)\<rparr>) (dv_working (view d)))"
proof (induction ws arbitrary: d)
  case (Cons w ws)
  obtain d1 ok1 where w: "apply_write Q w d = (d1, ok1)" by fastforce
  note v = apply_write_view [OF assms w]
  show ?case
  proof (cases ok1)
    case True
    with Cons.prems w have "apply_writes Q ws d1 = (d', ok)" by simp
    from Cons.IH [OF this] v True show ?thesis
      by (auto simp: on_working_def option.map_comp comp_def)
  next
    case False
    with Cons.prems w v show ?thesis by simp
  qed
qed (simp add: option.map_ident)

lemma apply_pending_view:
  assumes "sqlite_laws Q view" and "apply_pending Q pending g d = (d', ok)" and "unat g < 2 ^ 63"
  shows "dv_committed (view d') = dv_committed (view d) \<and>
    (ok \<longrightarrow> dv_working (view d') = map_option (\<lambda>t. t\<lparr>dt_kv := fold write_kv (fm_entries pending) (dt_kv t),
        dt_metadata := fmupd ''generation'' (uint g) (dt_metadata t)\<rparr>) (dv_working (view d)))"
proof -
  obtain d1 ok1 where w: "apply_writes Q (fm_entries pending) d = (d1, ok1)" by fastforce
  note v = apply_writes_view [OF assms(1) w]
  show ?thesis
  proof (cases ok1)
    case True
    with assms(2) w have "sq_set_generation Q g d1 = (d', ok)" by (simp add: apply_pending_def)
    from changesD [OF sqlite_lawsD(9) [OF assms(1,3)] this] v True show ?thesis
      by (auto simp: on_working_def option.map_comp comp_def)
  next
    case False
    with assms(2) w v show ?thesis by (simp add: apply_pending_def)
  qed
qed

text \<open>A commit is all or nothing.\<close>

lemma commit_with_generation_view:
  assumes laws: "sqlite_laws Q view" and g: "unat g < 2 ^ 63"
    and t: "dv_committed (view (edb_disk db)) = Some t"
    and c: "commit_with_generation Q g db = (db', r)"
  shows "(r = Ok () \<longrightarrow> edb_pending db' = fmempty \<and>
      dv_committed (view (edb_disk db')) = Some (t\<lparr>dt_kv := fold write_kv (fm_entries (edb_pending db)) (dt_kv t),
        dt_metadata := fmupd ''generation'' (uint g) (dt_metadata t)\<rparr>)) \<and>
    (r \<noteq> Ok () \<longrightarrow> edb_pending db' = edb_pending db \<and> dv_committed (view (edb_disk db')) = Some t)"
proof -
  obtain d0 ok0 where b: "sq_begin Q (edb_disk db) = (d0, ok0)" by fastforce
  note v0 = changesD [OF sqlite_lawsD(6) [OF laws] b]
  show ?thesis
  proof (cases ok0)
    case False
    with b c v0 t show ?thesis by (auto simp: commit_with_generation_def)
  next
    case ok0: True
    obtain d1 ok1 where p: "apply_pending Q (edb_pending db) g d0 = (d1, ok1)" by fastforce
    note v1 = apply_pending_view [OF laws p g]
    show ?thesis
    proof (cases ok1)
      case False
      with b c v0 v1 t p ok0 show ?thesis by (auto simp: commit_with_generation_def sqlite_lawsD(11) [OF laws])
    next
      case ok1: True
      obtain d2 ok2 where q: "sq_commit Q d1 = (d2, ok2)" by fastforce
      note v2 = changesD [OF sqlite_lawsD(10) [OF laws] q]
      show ?thesis
        using b c v0 v1 v2 t p q ok0 ok1
        by (cases ok2) (auto simp: commit_with_generation_def sqlite_lawsD(11) [OF laws])
    qed
  qed
qed

subsection \<open>The specification: a durable map and a current map\<close>

datatype db_action = Put string bytes | Remove string | Commit | FailedCommit | Reopen

type_synonym kv_spec = "(string \<Rightarrow> bytes option) \<times> (string \<Rightarrow> bytes option)"

fun spec_step :: "db_action \<Rightarrow> kv_spec \<Rightarrow> kv_spec" where
  "spec_step (Put k v) (durable, current) = (durable, current(k \<mapsto> v))"
| "spec_step (Remove k) (durable, current) = (durable, current(k := None))"
| "spec_step Commit (durable, current) = (current, current)"
| "spec_step FailedCommit (durable, current) = (durable, current)"
| "spec_step Reopen (durable, current) = (durable, durable)"

lemma spec_step_pair [simp]: "spec_step FailedCommit s = s" "spec_step Reopen s = (fst s, fst s)"
  by (cases s, simp)+

text \<open>Runs of the store: calls in any order, with any errors, and restarts of the program.\<close>

inductive db_run ::
  "'d sqlite \<Rightarrow> (bytes \<Rightarrow> legacy_image option) \<Rightarrow> 'd embedded_db \<Rightarrow> db_action list \<Rightarrow> 'd embedded_db \<Rightarrow> bool"
  for Q decode db0 where
  start: "db_run Q decode db0 [] db0"
| put: "db_run Q decode db0 as db \<Longrightarrow> db_run Q decode db0 (as @ [Put k v]) (db_put k v db)"
| remove: "db_run Q decode db0 as db \<Longrightarrow> db_run Q decode db0 (as @ [Remove k]) (db_remove k db)"
| commit: "db_run Q decode db0 as db \<Longrightarrow> db_commit Q db = (db', Ok g) \<Longrightarrow> db_run Q decode db0 (as @ [Commit]) db'"
| failed: "db_run Q decode db0 as db \<Longrightarrow> db_commit Q db = (db', Err e) \<Longrightarrow> db_run Q decode db0 (as @ [FailedCommit]) db'"
| reopen: "db_run Q decode db0 as db \<Longrightarrow> db_open Q decode lf (edb_disk db) = (d, lf', Ok db') \<Longrightarrow>
    db_run Q decode db0 (as @ [Reopen]) db'"

definition db_tables_of :: "('d \<Rightarrow> db_view) \<Rightarrow> 'd embedded_db \<Rightarrow> db_tables" where
  "db_tables_of view db = the (dv_committed (view (edb_disk db)))"

definition db_abs :: "('d \<Rightarrow> db_view) \<Rightarrow> 'd embedded_db \<Rightarrow> kv_spec" where
  "db_abs view db = (let m = dt_kv (db_tables_of view db) in (fmlookup m, overlay m (edb_pending db)))"

definition generation_is :: "('d \<Rightarrow> db_view) \<Rightarrow> 'd embedded_db \<Rightarrow> nat \<Rightarrow> bool" where
  "generation_is view db n \<longleftrightarrow> dv_committed (view (edb_disk db)) \<noteq> None \<and>
     fmlookup (dt_metadata (db_tables_of view db)) ''generation'' = Some (int n)"

lemma overlay_simps:
  "overlay m (fmupd k (Some v) pending) = (overlay m pending)(k \<mapsto> v)"
  "overlay m (fmupd k None pending) = (overlay m pending)(k := None)"
  "overlay m fmempty = fmlookup m"
  by (auto simp: overlay_def)

lemma db_abs_put: "db_abs view (db_put k v db) = spec_step (Put k v) (db_abs view db)"
  by (simp add: db_abs_def db_put_def db_tables_of_def Let_def overlay_simps)

lemma db_abs_remove: "db_abs view (db_remove k db) = spec_step (Remove k) (db_abs view db)"
  by (simp add: db_abs_def db_remove_def db_tables_of_def Let_def overlay_simps)

lemma generation_simps [simp]:
  "generation_is view (db_put k v db) = generation_is view db"
  "generation_is view (db_remove k db) = generation_is view db"
  by (simp_all add: generation_is_def db_put_def db_remove_def db_tables_of_def fun_eq_iff)

lemma db_get_abs:
  assumes "sqlite_laws Q view" and "dv_committed (view (edb_disk db)) \<noteq> None" and "db_get Q db key = Ok r"
  shows "r = snd (db_abs view db) key"
proof (cases "fmlookup (edb_pending db) key")
  case None
  obtain t where t: "dv_committed (view (edb_disk db)) = Some t" using assms(2) by auto
  with None assms(3) sqlite_lawsD(3) [OF assms(1) t] show ?thesis
    by (auto simp: db_get_def db_abs_def Let_def overlay_def db_tables_of_def result_simps)
next
  case (Some v)
  with assms(3) show ?thesis by (auto simp: db_get_def db_abs_def Let_def overlay_def)
qed

lemma db_commit_view:
  assumes laws: "sqlite_laws Q view" and n: "generation_is view db n" "Suc n < 2 ^ 63"
    and c: "db_commit Q db = (db', r)"
  shows "(\<forall>g. r = Ok g \<longrightarrow> db_abs view db' = spec_step Commit (db_abs view db) \<and> generation_is view db' (Suc n) \<and> unat g = Suc n) \<and>
    (\<forall>e. r = Err e \<longrightarrow> db_abs view db' = db_abs view db \<and> generation_is view db' n)"
proof -
  obtain t where t: "dv_committed (view (edb_disk db)) = Some t" using n(1) by (auto simp: generation_is_def)
  have tg: "fmlookup (dt_metadata t) ''generation'' = Some (int n)"
    using n(1) t by (simp add: generation_is_def db_tables_of_def)
  show ?thesis
  proof (cases "db_generation Q (edb_disk db)")
    case (Inl e)
    then show ?thesis using c n(1) by (auto simp: db_commit_def)
  next
    case (Inr g)
    then obtain v where v: "sq_select_metadata Q (edb_disk db) ''generation'' = Some (Some v)" "g = of_int v"
      by (auto simp: db_generation_def db_metadata_def result_simps split: if_splits)
    have "v = int n" using sqlite_lawsD(5) [OF laws t v(1)] tg by simp
    with v(2) have "g = of_nat n" by simp
    then have g: "unat g = n" using n(2) unat_of_nat_small [where 'a = 64, of n] by simp
    then have g1: "unat (saturating_add g 1) = Suc n" using n(2) by (simp add: unat_saturating_add)
    then have lt: "unat (saturating_add g 1) < 2 ^ 63" and u: "uint (saturating_add g 1) = int (Suc n)"
      using n(2) by (simp_all add: uint_nat)
    obtain db1 r1 where cw: "commit_with_generation Q (saturating_add g 1) db = (db1, r1)" by fastforce
    note view1 = commit_with_generation_view [OF laws lt t cw]
    show ?thesis
    proof (cases r1)
      case (Inl e)
      then show ?thesis using c Inr cw view1 t n(1)
        by (auto simp: db_commit_def db_abs_def db_tables_of_def generation_is_def)
    next
      case r1: (Inr x)
      then show ?thesis using c Inr cw view1 t g1 u
        by (auto simp: db_commit_def db_abs_def db_tables_of_def generation_is_def fold_write_overlay overlay_simps Let_def)
    qed
  qed
qed

lemma db_open_existing:
  assumes laws: "sqlite_laws Q view" and t: "dv_committed (view d) = Some t"
    and o: "db_open Q decode lf d = (d', lf', Ok db)"
  shows "dv_committed (view (edb_disk db)) = Some t \<and> edb_pending db = fmempty \<and> lf' = lf"
proof -
  have "sq_exists Q d" using sqlite_lawsD(1) [OF laws, of d] t by simp
  obtain d1 ok where c: "sq_create Q d = (d1, ok)" by fastforce
  with o have ok by (cases ok) (auto simp: db_open_def db_initialize_def split: sum.splits)
  with sqlite_lawsD(2) [OF laws, of d] c t have "dv_committed (view d1) = Some t" by simp
  with o c \<open>ok\<close> \<open>sq_exists Q d\<close> show ?thesis
    by (auto simp: db_open_def db_initialize_def Let_def split: sum.splits)
qed

subsection \<open>Lemmas: prefix scans\<close>

definition escape_char :: "char \<Rightarrow> string" where
  "escape_char c = (if c = CHR 0x5C \<or> c = CHR ''%'' \<or> c = CHR ''_'' then [CHR 0x5C, c] else [c])"

lemma escape_like_simps: "escape_like [] = []" "escape_like (c # p) = escape_char c @ escape_like p"
  by (simp_all add: escape_like_def replace_char_def escape_char_def)

lemma to_lower_Nil: "to_ascii_lowercase [] = []" "to_ascii_lowercase (c # s) = ascii_lower c # to_ascii_lowercase s"
  by (simp_all add: to_ascii_lowercase_def)

text \<open>The escaped pattern matches the keys that start with the prefix in any case.\<close>

lemma like_escaped:
  "like (escape_like p @ ''%'') s \<longleftrightarrow> starts_with (to_ascii_lowercase s) (to_ascii_lowercase p)"
proof (induction p arbitrary: s)
  case Nil
  then show ?case
    by (auto simp: escape_like_simps starts_with_def to_lower_Nil intro!: bexI [of _ "length s"])
next
  case (Cons c p)
  then show ?case
    by (cases s) (auto simp: escape_like_simps escape_char_def starts_with_def to_lower_Nil)
qed

lemma in_fold_overlay:
  "distinct (map fst ws) \<Longrightarrow> (k, v) \<in> set (fold (overlay_entry prefix) ws rows) \<longleftrightarrow>
     (case (if starts_with k prefix then map_of ws k else None) of
        Some x \<Rightarrow> x = Some v | None \<Rightarrow> (k, v) \<in> set rows)"
proof (induction ws arbitrary: rows)
  case (Cons w ws)
  obtain a x where w: "w = (a, x)" by fastforce
  have "map_of ws a = None" using Cons.prems w by (simp add: map_of_eq_None_iff)
  with Cons w show ?case
    by (auto simp: overlay_entry_def Let_def split: option.splits if_splits)
qed simp

lemma distinct_fold_overlay:
  "distinct (map fst rows) \<Longrightarrow> distinct (map fst (fold (overlay_entry prefix) ws rows))"
proof (induction ws arbitrary: rows)
  case (Cons w ws)
  obtain a x where w: "w = (a, x)" by fastforce
  have "distinct (map fst (overlay_entry prefix w rows))"
    using Cons.prems w by (auto simp: overlay_entry_def Let_def distinct_map_filter split: option.splits)
  with Cons.IH show ?case by simp
qed simp

subsection \<open>Lemmas: the import of the JSON image\<close>

lemma commit_with_generation_error: "commit_with_generation Q g db = (db', Err e) \<Longrightarrow> e = Sqlite"
  by (auto simp: commit_with_generation_def split: prod.splits bool.splits)

lemma import_failed:
  assumes "import_legacy Q decode lf db = (db', lf', Err e)" and "e \<in> {LegacyUnreadable, LegacyCorrupt, LegacySchema}"
  shows "db' = db \<and> lf' = lf"
  using assms commit_with_generation_error [of Q]
  by (fastforce simp: import_legacy_def Let_def split: option.splits if_splits prod.splits sum.splits)

lemma fold_db_put:
  "fold (\<lambda>(key, v). db_put key v) ws db = db\<lparr>edb_pending := fold (\<lambda>(key, v). fmupd key (Some v)) ws (edb_pending db)\<rparr>"
  by (induction ws arbitrary: db) (auto simp: db_put_def)

lemma fmlookup_fold_upd:
  "distinct (map fst ws) \<Longrightarrow> fmlookup (fold (\<lambda>(key, v). fmupd key (f v)) ws m) k =
     (case map_of ws k of Some v \<Rightarrow> Some (f v) | None \<Rightarrow> fmlookup m k)"
proof (induction ws arbitrary: m)
  case (Cons w ws)
  obtain a x where w: "w = (a, x)" by fastforce
  have "map_of ws a = None" using Cons.prems w by (simp add: map_of_eq_None_iff)
  with Cons w show ?case by (auto split: option.splits)
qed simp

lemma import_ok:
  assumes laws: "sqlite_laws Q view" and t: "dv_committed (view (edb_disk db)) = Some fresh_tables" and p: "edb_pending db = fmempty"
    and i: "import_legacy Q decode lf db = (db', lf', Ok ())"
    and small: "\<forall>contents img. lf_contents lf = Some contents \<longrightarrow> decode contents = Some img \<longrightarrow> unat (li_generation img) < 2 ^ 63"
  shows "lf_contents lf' = None \<and> (\<exists>contents img. lf_contents lf = Some contents \<and> decode contents = Some img \<and>
      db_abs view db' = (fmlookup (li_values img), fmlookup (li_values img)) \<and>
      generation_is view db' (unat (li_generation img)))"
proof -
  obtain contents img m where img: "lf_contents lf = Some contents" "decode contents = Some img" "lf_contents lf' = None"
    and c: "commit_with_generation Q (li_generation img) (fold (\<lambda>(key, v). db_put key v) (fm_entries (li_values img)) db) = (m, Ok ())"
    and db': "db' = db\<lparr>edb_disk := edb_disk m\<rparr>"
    using i by (auto simp: import_legacy_def Let_def split: option.splits if_splits prod.splits sum.splits)
  let ?p = "fold (\<lambda>(key, v). fmupd key (Some v)) (fm_entries (li_values img)) fmempty"
  have g: "unat (li_generation img) < 2 ^ 63" using small img by blast
  have m: "dv_committed (view (edb_disk m)) = Some (fresh_tables\<lparr>dt_kv := fold write_kv (fm_entries ?p) (dt_kv fresh_tables),
        dt_metadata := fmupd ''generation'' (uint (li_generation img)) (dt_metadata fresh_tables)\<rparr>)"
    using commit_with_generation_view [OF laws g _ c, of fresh_tables] t p by (simp add: fold_db_put)
  have "overlay fmempty ?p = fmlookup (li_values img)"
    by (rule ext) (simp add: overlay_def fmlookup_fold_upd distinct_fm_entries split: option.splits)
  then have "fmlookup (fold write_kv (fm_entries ?p) (dt_kv fresh_tables)) = fmlookup (li_values img)"
    by (simp add: fold_write_overlay fresh_tables_def)
  moreover have d: "edb_disk db' = edb_disk m" "edb_pending db' = fmempty" using p by (simp_all add: db')
  ultimately have "db_abs view db' = (fmlookup (li_values img), fmlookup (li_values img))"
    by (simp add: db_abs_def Let_def db_tables_of_def m overlay_simps)
  moreover have "generation_is view db' (unat (li_generation img))"
    by (simp add: generation_is_def db_tables_of_def m d)
  ultimately show ?thesis using img by blast
qed

subsection \<open>Properties\<close>

text \<open>A database in memory that never fails.\<close>

definition memory_sqlite :: "db_view sqlite" where
  "memory_sqlite = \<lparr>
     sq_exists = (\<lambda>d. dv_committed d \<noteq> None),
     sq_create = (\<lambda>d. (d\<lparr>dv_committed := Some (case dv_committed d of None \<Rightarrow> fresh_tables | Some t \<Rightarrow> t)\<rparr>, True)),
     sq_select_kv = (\<lambda>d key. map_option (\<lambda>t. fmlookup (dt_kv t) key) (dv_committed d)),
     sq_select_like = (\<lambda>d pat. map_option (\<lambda>t. like_rows (dt_kv t) pat) (dv_committed d)),
     sq_select_metadata = (\<lambda>d name. map_option (\<lambda>t. fmlookup (dt_metadata t) name) (dv_committed d)),
     sq_begin = (\<lambda>d. (d\<lparr>dv_working := dv_committed d\<rparr>, True)),
     sq_upsert = (\<lambda>key x d. (on_working (\<lambda>t. t\<lparr>dt_kv := fmupd key x (dt_kv t)\<rparr>) d, True)),
     sq_delete = (\<lambda>key d. (on_working (\<lambda>t. t\<lparr>dt_kv := fmdrop key (dt_kv t)\<rparr>) d, True)),
     sq_set_generation = (\<lambda>g d. (on_working (\<lambda>t. t\<lparr>dt_metadata := fmupd ''generation'' (uint g) (dt_metadata t)\<rparr>) d, True)),
     sq_commit = (\<lambda>d. (d\<lparr>dv_committed := dv_working d, dv_working := None\<rparr>, True)),
     sq_rollback = (\<lambda>d. (d\<lparr>dv_working := None\<rparr>, True))\<rparr>"

lemma memory_create:
  "sq_create memory_sqlite \<lparr>dv_committed = None, dv_working = None\<rparr> = (\<lparr>dv_committed = Some fresh_tables, dv_working = None\<rparr>, True)"
  by (simp add: memory_sqlite_def)

lemma memory_sqlite_laws: "sqlite_laws memory_sqlite (\<lambda>d. d)"
  by (simp add: sqlite_laws_def memory_sqlite_def changes_def)

definition memory_db :: "db_view embedded_db" where
  "memory_db = \<lparr>edb_disk = \<lparr>dv_committed = Some fresh_tables, dv_working = None\<rparr>, edb_pending = fmempty\<rparr>"

text \<open>
  C21: the embedded database implements a durable map with an overlay of uncommitted writes. In every
  run of puts, removals, successful and failed commits and restarts, the store corresponds to the run of
  the specification: a get returns the current value, a commit makes the current map durable, a failed
  commit changes neither map, and a restart loses exactly the uncommitted writes.
\<close>
theorem embedded_db_refines_map:
  assumes "db_run Q decode db0 as db" and "sqlite_laws Q view"
    and "generation_is view db0 n" and "n + length as < 2 ^ 63"
  shows "db_abs view db = fold spec_step as (db_abs view db0) \<and>
    (\<forall>key r. db_get Q db key = Ok r \<longrightarrow> r = snd (fold spec_step as (db_abs view db0)) key)"
proof -
  have "db_abs view db = fold spec_step as (db_abs view db0) \<and> (\<exists>k \<le> length as. generation_is view db (n + k))"
    using assms(1,4)
  proof (induction rule: db_run.induct)
    case start
    then show ?case using assms(3) by auto
  next
    case (put as db k v)
    then show ?case by (auto simp: db_abs_put intro: le_SucI)
  next
    case (remove as db k)
    then show ?case by (auto simp: db_abs_remove intro: le_SucI)
  next
    case (commit as db db' g)
    then obtain k where k: "k \<le> length as" "generation_is view db (n + k)" by auto
    then have "Suc (n + k) < 2 ^ 63" using commit.prems by simp
    from db_commit_view [OF assms(2) k(2) this commit.hyps(2)] commit k show ?case
      by (auto intro!: exI [of _ "Suc k"])
  next
    case (failed as db db' e)
    then obtain k where k: "k \<le> length as" "generation_is view db (n + k)" by auto
    then have "Suc (n + k) < 2 ^ 63" using failed.prems by simp
    from db_commit_view [OF assms(2) k(2) this failed.hyps(2)] failed k show ?case
      by (auto intro!: exI [of _ k])
  next
    case (reopen as db lf d lf' db')
    then obtain k where k: "k \<le> length as" "generation_is view db (n + k)" by auto
    then obtain t where t: "dv_committed (view (edb_disk db)) = Some t" by (auto simp: generation_is_def)
    have "db_abs view db' = (fst (db_abs view db), fst (db_abs view db)) \<and> generation_is view db' (n + k)"
      using db_open_existing [OF assms(2) t reopen.hyps(2)] t k(2)
      by (simp add: db_abs_def Let_def generation_is_def db_tables_of_def overlay_simps)
    with k reopen show ?case by (auto intro!: exI [of _ k])
  qed
  then show ?thesis using db_get_abs [OF assms(2)] by (metis generation_is_def)
qed

theorem embedded_db_refines_map_witness:
  "snd (fold spec_step [Put ''k'' [1], Put ''j'' [2], Remove ''k''] (db_abs (\<lambda>d. d) memory_db)) ''j'' = Some [2] \<and>
   db_abs (\<lambda>d. d) (db_remove ''k'' (db_put ''j'' [2] (db_put ''k'' [1] memory_db))) =
     fold spec_step [Put ''k'' [1], Put ''j'' [2], Remove ''k''] (db_abs (\<lambda>d. d) memory_db)"
proof -
  have "db_run memory_sqlite (\<lambda>_. None) memory_db ((([] @ [Put ''k'' [1]]) @ [Put ''j'' [2]]) @ [Remove ''k''])
      (db_remove ''k'' (db_put ''j'' [2] (db_put ''k'' [1] memory_db)))"
    by (intro db_run.intros)
  moreover have "generation_is (\<lambda>d. d) memory_db 0"
    by (simp add: generation_is_def memory_db_def db_tables_of_def fresh_tables_def)
  ultimately have run: "db_abs (\<lambda>d. d) (db_remove ''k'' (db_put ''j'' [2] (db_put ''k'' [1] memory_db))) =
      fold spec_step [Put ''k'' [1], Put ''j'' [2], Remove ''k''] (db_abs (\<lambda>d. d) memory_db)"
    using embedded_db_refines_map [OF _ memory_sqlite_laws] by fastforce
  moreover have "db_abs (\<lambda>d. d) memory_db = (Map.empty, Map.empty)"
    by (simp add: db_abs_def memory_db_def db_tables_of_def fresh_tables_def overlay_simps fun_eq_iff)
  ultimately show ?thesis by simp
qed

text \<open>
  What a prefix scan returns. The rows are sorted by key without repetition. A key that starts with
  the prefix is listed exactly with its current value. But \<open>LIKE\<close> ignores the case of ASCII letters and
  the overlay does not, so a committed key that starts with the prefix only when case is ignored is
  listed too, with its committed value, even after it was overwritten or removed.
\<close>
theorem scan_prefix_rows:
  assumes "sqlite_laws Q view" and "dv_committed (view (edb_disk db)) = Some t" and "scan_prefix Q db prefix = Ok rows"
  shows "sorted (map fst rows) \<and> distinct (map fst rows) \<and>
    (\<forall>k v. (k, v) \<in> set rows \<longleftrightarrow>
       (if starts_with k prefix then snd (db_abs view db) k = Some v
        else starts_with (to_ascii_lowercase k) (to_ascii_lowercase prefix) \<and> fmlookup (dt_kv t) k = Some v))"
proof -
  obtain base where base: "sq_select_like Q (edb_disk db) (escape_like prefix @ ''%'') = Some base"
    and rows: "rows = sort_key fst (fold (overlay_entry prefix) (fm_entries (edb_pending db)) base)"
    using assms(3) by (auto simp: scan_prefix_def result_simps)
  have b: "base = like_rows (dt_kv t) (escape_like prefix @ ''%'')" by (rule sqlite_lawsD(4) [OF assms(1,2) base])
  have d: "distinct (map fst base)" by (simp add: b like_rows_def distinct_map_filter distinct_fm_entries)
  have lower: "starts_with (to_ascii_lowercase k) (to_ascii_lowercase prefix)" if "starts_with k prefix" for k
    using that by (simp add: starts_with_def to_ascii_lowercase_def take_map)
  have "(k, v) \<in> set base \<longleftrightarrow> starts_with (to_ascii_lowercase k) (to_ascii_lowercase prefix) \<and> fmlookup (dt_kv t) k = Some v" for k v
    by (auto simp: b like_rows_def like_escaped in_fm_entries)
  then have "\<forall>k v. (k, v) \<in> set rows \<longleftrightarrow>
       (if starts_with k prefix then snd (db_abs view db) k = Some v
        else starts_with (to_ascii_lowercase k) (to_ascii_lowercase prefix) \<and> fmlookup (dt_kv t) k = Some v)"
    using lower assms(2)
    by (auto simp: rows in_fold_overlay distinct_fm_entries db_abs_def Let_def overlay_def db_tables_of_def split: option.splits)
  moreover have "distinct (map fst rows)"
    using distinct_fold_overlay [OF d] by (simp add: rows distinct_map distinct_sort)
  ultimately show ?thesis by (simp add: rows)
qed

definition case_db :: "db_view embedded_db" where
  "case_db = \<lparr>edb_disk = \<lparr>dv_committed = Some (fresh_tables\<lparr>dt_kv := fmupd ''Abc'' [7] fmempty\<rparr>), dv_working = None\<rparr>,
     edb_pending = fmupd ''Abc'' None fmempty\<rparr>"

theorem scan_prefix_rows_witness:
  "\<exists>rows. scan_prefix memory_sqlite case_db ''a'' = Ok rows \<and> (''Abc'', [7]) \<in> set rows \<and>
     snd (db_abs (\<lambda>d. d) case_db) ''Abc'' = None"
proof -
  obtain rows where rows: "scan_prefix memory_sqlite case_db ''a'' = Ok rows"
    by (simp add: scan_prefix_def memory_sqlite_def case_db_def)
  have "dv_committed (edb_disk case_db) = Some (fresh_tables\<lparr>dt_kv := fmupd ''Abc'' [7] fmempty\<rparr>)"
    by (simp add: case_db_def)
  from scan_prefix_rows [OF memory_sqlite_laws this rows] have "(''Abc'', [7]) \<in> set rows \<longleftrightarrow>
      starts_with (to_ascii_lowercase ''Abc'') (to_ascii_lowercase ''a'')"
    by (simp add: starts_with_def)
  also have "\<dots>" by code_simp
  finally have "(''Abc'', [7]) \<in> set rows" .
  moreover have "snd (db_abs (\<lambda>d. d) case_db) ''Abc'' = None"
    by (simp add: db_abs_def Let_def case_db_def overlay_def)
  ultimately show ?thesis using rows by blast
qed

text \<open>
  The import of the JSON image happens at most once, whether it succeeds or not. When the database
  file is created and the import succeeds, the store holds exactly the values and the generation of the
  image and the legacy file is moved away. When the import fails because the legacy file cannot be read
  or decoded or has another schema, the legacy file stays, but the database file now exists: every later
  open skips the import, even if the file has been repaired by then, and starts with an empty store.
\<close>
theorem legacy_import_once:
  assumes laws: "sqlite_laws Q view" and new: "\<not> sq_exists Q d" and lf: "lf_contents lf = Some contents"
    and o: "db_open Q decode lf d = (d', lf', r)"
    and small: "\<forall>img. decode contents = Some img \<longrightarrow> unat (li_generation img) < 2 ^ 63"
  shows "(\<forall>db. r = Ok db \<longrightarrow> lf_contents lf' = None \<and> (\<exists>img. decode contents = Some img \<and>
      db_abs view db = (fmlookup (li_values img), fmlookup (li_values img)) \<and>
      generation_is view db (unat (li_generation img)))) \<and>
    (\<forall>e \<in> {LegacyUnreadable, LegacyCorrupt, LegacySchema}. r = Err e \<longrightarrow> lf' = lf \<and>
      (\<forall>lf2 d2 lf3 db. db_open Q decode lf2 d' = (d2, lf3, Ok db) \<longrightarrow> lf3 = lf2 \<and> db_abs view db = (Map.empty, Map.empty)))"
proof -
  have none: "dv_committed (view d) = None" using sqlite_lawsD(1) [OF laws, of d] new by (cases "dv_committed (view d)") auto
  obtain d1 ok where c: "sq_create Q d = (d1, ok)" by fastforce
  show ?thesis
  proof (cases "ok \<and> snd (db_initialize Q d) = Ok ()")
    case False
    then have "\<exists>e. r = Err e \<and> e \<notin> {LegacyUnreadable, LegacyCorrupt, LegacySchema}"
      using o c by (cases ok) (auto simp: db_open_def db_initialize_def db_metadata_def ok_or_def ensure_def
          and_then_def split: sum.splits option.splits if_splits)
    then show ?thesis by auto
  next
    case True
    then have t: "dv_committed (view d1) = Some fresh_tables" and init: "db_initialize Q d = (d1, Ok ())"
      using sqlite_lawsD(2) [OF laws, of d] c none by (auto simp: db_initialize_def)
    let ?db = "\<lparr>edb_disk = d1, edb_pending = fmempty\<rparr>"
    obtain db1 r1 where i: "import_legacy Q decode lf ?db = (db1, lf', r1)" and d': "d' = edb_disk db1"
      and r: "r = (case r1 of Inl e \<Rightarrow> Err e | Inr _ \<Rightarrow> Ok db1)"
      using o init new lf by (auto simp: db_open_def Let_def split: sum.splits prod.splits)
    show ?thesis
    proof (cases r1)
      case (Inl e)
      have "db_abs view db = (Map.empty, Map.empty) \<and> lf3 = lf2"
        if "e \<in> {LegacyUnreadable, LegacyCorrupt, LegacySchema}" "db_open Q decode lf2 d' = (d2, lf3, Ok db)" for lf2 d2 lf3 db
        using import_failed [of Q decode lf ?db db1 lf' e] i Inl that db_open_existing [OF laws, of d' fresh_tables] t d'
        by (auto simp: db_abs_def Let_def db_tables_of_def overlay_simps fresh_tables_def)
      then show ?thesis using r Inl i import_failed [of Q decode lf ?db db1 lf' e] by auto
    next
      case (Inr x)
      then have "lf_contents lf' = None \<and> (\<exists>contents img. lf_contents lf = Some contents \<and> decode contents = Some img \<and>
          db_abs view db1 = (fmlookup (li_values img), fmlookup (li_values img)) \<and>
          generation_is view db1 (unat (li_generation img)))"
        using i t small lf by (intro import_ok [OF laws]) auto
      then show ?thesis using r Inr lf by auto
    qed
  qed
qed

theorem legacy_import_once_witness:
  "\<exists>d'. db_open memory_sqlite (\<lambda>_. None) \<lparr>lf_contents = Some [], lf_readable = True, lf_renamable = True\<rparr>
       \<lparr>dv_committed = None, dv_working = None\<rparr> =
     (d', \<lparr>lf_contents = Some [], lf_readable = True, lf_renamable = True\<rparr>, Err LegacyCorrupt) \<and>
     (\<forall>lf2 d2 lf3 db. db_open memory_sqlite (\<lambda>_. None) lf2 d' = (d2, lf3, Ok db) \<longrightarrow>
        db_abs (\<lambda>d. d) db = (Map.empty, Map.empty))"
proof -
  let ?lf = "\<lparr>lf_contents = Some [], lf_readable = True, lf_renamable = True\<rparr>"
  let ?d = "\<lparr>dv_committed = None, dv_working = None\<rparr>"
  have "db_metadata memory_sqlite \<lparr>dv_committed = Some fresh_tables, dv_working = None\<rparr> ''schema_version'' = Ok 2"
    by (simp add: db_metadata_def memory_sqlite_def fresh_tables_def)
  then have "db_initialize memory_sqlite ?d = (\<lparr>dv_committed = Some fresh_tables, dv_working = None\<rparr>, Ok ())"
    by (simp add: db_initialize_def SCHEMA_VERSION_def memory_create)
  moreover have new: "\<not> sq_exists memory_sqlite ?d" by (simp add: memory_sqlite_def)
  ultimately have o: "db_open memory_sqlite (\<lambda>_. None) ?lf ?d = (\<lparr>dv_committed = Some fresh_tables, dv_working = None\<rparr>, ?lf, Err LegacyCorrupt)"
    by (simp add: db_open_def import_legacy_def new)
  from legacy_import_once [OF memory_sqlite_laws new _ o] o show ?thesis by auto
qed

end
