(* ===== verification/State_Store.thy ===== *)
theory State_Store
  imports Embedded_Db Ledger_Properties
begin

text \<open>
  What the node writes down of the ledger and how it starts from it: the state snapshot
  (\<open>StateSnapshot\<close> in \<open>src/archive.rs\<close>), the canonical state with its indexes and the store that keeps
  it in the embedded database and in a JSON mirror (\<open>src/state_store.rs\<close>), the checkpoint
  (\<open>src/checkpoint.rs\<close>), the JSON file of a whole chain (\<open>src/storage.rs\<close>), and the restoration of the
  ledger in \<open>RpcServer::new\<close> (\<open>src/rpc.rs\<close>). The JSON codecs are parameters, and so are the outcomes of
  file operations.

  The lemmas show that a committed state is read back unchanged, and that the ledger restored from it
  is indistinguishable from the original one for every later block.
\<close>

definition zero_pad :: "nat \<Rightarrow> string \<Rightarrow> string" where
  "zero_pad width digits = replicate (width - length digits) (CHR ''0'') @ digits"

subsection \<open>Snapshots and checkpoints\<close>

record state_snapshot =
  ss_chain_id :: u64
  ss_height :: u64
  ss_block_hash :: string
  ss_state_hash :: string
  ss_balances :: balances
  ss_next_nonces :: nonces
  ss_executed_events :: "string fset"

definition snapshot_from_chain :: "externals \<Rightarrow> blockchain \<Rightarrow> state_snapshot" where
  "snapshot_from_chain X c =
     \<lparr>ss_chain_id = chain_id c, ss_height = tip_height c, ss_block_hash = tip_hash c, ss_state_hash = state_hash X c,
      ss_balances = balances c, ss_next_nonces = next_nonces c, ss_executed_events = executed_events c\<rparr>"

record checkpoint =
  cp_height :: u64
  cp_block_hash :: string
  cp_state_hash :: string

text \<open>\<open>expect\<close> panics on a chain without blocks; \<open>None\<close> stands for the panic.\<close>

definition checkpoint_from_chain :: "externals \<Rightarrow> blockchain \<Rightarrow> checkpoint option" where
  "checkpoint_from_chain X c =
     (if blocks c = [] then None
      else let last_block = last (blocks c) in
        Some \<lparr>cp_height = blk_height last_block, cp_block_hash = blk_hash last_block, cp_state_hash = state_hash X c\<rparr>)"

subsection \<open>The canonical state\<close>

record canonical_state =
  cs_schema_version :: u32
  cs_chain_id :: u64
  cs_height :: u64
  cs_block_hash :: string
  cs_state_root :: string
  cs_balances :: balances
  cs_nonces :: nonces
  cs_executed_events :: "string fset"
  cs_height_to_hash :: "(u64, string) fmap"
  cs_transaction_index :: "(string, u64 \<times> nat) fmap"

definition transaction_locations :: "externals \<Rightarrow> block list \<Rightarrow> (string \<times> u64 \<times> nat) list" where
  "transaction_locations X bs =
     concat (map (\<lambda>b. map (\<lambda>(i, tx). (tx_id X tx, blk_height b, i)) (List.enumerate 0 (blk_transactions b))) bs)"

definition canonical_from_chain :: "externals \<Rightarrow> blockchain \<Rightarrow> canonical_state" where
  "canonical_from_chain X c =
     \<lparr>cs_schema_version = 1, cs_chain_id = chain_id c, cs_height = tip_height c, cs_block_hash = tip_hash c,
      cs_state_root = state_hash X c, cs_balances = balances c, cs_nonces = next_nonces c,
      cs_executed_events = executed_events c,
      cs_height_to_hash = collect_map (map (\<lambda>b. (blk_height b, blk_hash b)) (blocks c)),
      cs_transaction_index = collect_map (transaction_locations X (blocks c))\<rparr>"

subsection \<open>The state store\<close>

datatype store_state_error = StateDb db_error | StateMirrorIo | StateCorrupt | StateSchema

text \<open>The JSON encodings of a state, of the pair of a height entry and of a transaction location.\<close>

record state_codec =
  sc_encode :: "canonical_state \<Rightarrow> bytes"
  sc_decode :: "bytes \<Rightarrow> canonical_state option"
  sc_pair :: "string \<times> string \<Rightarrow> bytes"
  sc_location :: "u64 \<times> nat \<Rightarrow> bytes"

definition validate_schema :: "canonical_state \<Rightarrow> (unit, store_state_error) result" where
  "validate_schema st = (if cs_schema_version st \<noteq> 1 then Err StateSchema else Ok ())"

definition state_writes :: "state_codec \<Rightarrow> canonical_state \<Rightarrow> 'd embedded_db \<Rightarrow> 'd embedded_db" where
  "state_writes C st db =
     fold (\<lambda>(transaction_id, location). db_put (''transaction/'' @ transaction_id) (sc_location C location))
       (fm_entries (cs_transaction_index st))
       (db_put (''canonical/height/'' @ zero_pad 20 (dec_digits (unat (cs_height st)))) (sc_pair C (cs_block_hash st, cs_state_root st))
         (db_put ''canonical/current'' (sc_encode C st) db))"

text \<open>The mirror: its contents, and whether it can be written and read.\<close>

record mirror =
  mi_contents :: "bytes option"
  mi_writable :: bool
  mi_readable :: bool

record 'd store_disk =
  sd_db :: 'd
  sd_legacy :: legacy_file
  sd_mirror :: mirror

definition state_commit ::
  "'d sqlite \<Rightarrow> (bytes \<Rightarrow> legacy_image option) \<Rightarrow> state_codec \<Rightarrow> externals \<Rightarrow> blockchain \<Rightarrow> 'd store_disk
     \<Rightarrow> 'd store_disk \<times> (canonical_state, store_state_error) result" where
  "state_commit Q legacy C X c s =
     (let st = canonical_from_chain X c in
      case db_open Q legacy (sd_legacy s) (sd_db s) of
        (d, lf, Inl e) \<Rightarrow> (s\<lparr>sd_db := d, sd_legacy := lf\<rparr>, Err (StateDb e))
      | (_, lf, Inr db) \<Rightarrow>
        (case db_commit Q (state_writes C st db) of
           (db1, Inl e) \<Rightarrow> (s\<lparr>sd_db := edb_disk db1, sd_legacy := lf\<rparr>, Err (StateDb e))
         | (db1, Inr _) \<Rightarrow>
           let s1 = s\<lparr>sd_db := edb_disk db1, sd_legacy := lf\<rparr> in
           if mi_writable (sd_mirror s)
           then (s1\<lparr>sd_mirror := (sd_mirror s)\<lparr>mi_contents := Some (sc_encode C st)\<rparr>\<rparr>, Ok st)
           else (s1, Err StateMirrorIo)))"

definition decode_state :: "state_codec \<Rightarrow> bytes \<Rightarrow> (canonical_state option, store_state_error) result" where
  "decode_state C bs =
     and_then (ok_or (sc_decode C bs) StateCorrupt) (\<lambda>st. and_then (validate_schema st) (\<lambda>_. Ok (Some st)))"

definition state_load ::
  "'d sqlite \<Rightarrow> (bytes \<Rightarrow> legacy_image option) \<Rightarrow> state_codec \<Rightarrow> 'd store_disk
     \<Rightarrow> 'd store_disk \<times> (canonical_state option, store_state_error) result" where
  "state_load Q legacy C s =
     (case db_open Q legacy (sd_legacy s) (sd_db s) of
        (d, lf, Inl e) \<Rightarrow> (s\<lparr>sd_db := d, sd_legacy := lf\<rparr>, Err (StateDb e))
      | (d, lf, Inr db) \<Rightarrow>
        (s\<lparr>sd_db := d, sd_legacy := lf\<rparr>,
         and_then (map_err StateDb (db_get Q db ''canonical/current'')) (\<lambda>current.
         case current of
           Some bs \<Rightarrow> decode_state C bs
         | None \<Rightarrow>
           (case mi_contents (sd_mirror s) of
              None \<Rightarrow> Ok None
            | Some bs \<Rightarrow> if mi_readable (sd_mirror s) then decode_state C bs else Err StateMirrorIo))))"

subsection \<open>Restoring the ledger\<close>

text \<open>The branches of \<open>RpcServer::new\<close>; a failed assertion or \<open>expect\<close> ends the program.\<close>

definition restore_canonical ::
  "externals \<Rightarrow> u64 \<Rightarrow> string \<Rightarrow> canonical_state \<Rightarrow> blockchain option" where
  "restore_canonical X cid commitment st =
     (if cs_chain_id st \<noteq> cid then None
      else case from_snapshot_with_events cid commitment (cs_height st) (cs_block_hash st) (cs_balances st)
                  (cs_nonces st) (cs_executed_events st) of
        Inl _ \<Rightarrow> None
      | Inr c \<Rightarrow> if state_hash X c = cs_state_root st then Some c else None)"

fun apply_all :: "externals \<Rightarrow> blockchain \<Rightarrow> block list \<Rightarrow> blockchain option" where
  "apply_all X c [] = Some c"
| "apply_all X c (b # bs) =
     (case apply_block X c b of (c1, Inr _) \<Rightarrow> apply_all X c1 bs | (_, Inl _) \<Rightarrow> None)"

definition restore_snapshot ::
  "externals \<Rightarrow> u64 \<Rightarrow> string \<Rightarrow> state_snapshot \<Rightarrow> block list \<Rightarrow> blockchain option" where
  "restore_snapshot X cid commitment ss active =
     (if ss_chain_id ss \<noteq> cid then None
      else case from_snapshot_with_events cid commitment (ss_height ss) (ss_block_hash ss) (ss_balances ss)
                  (ss_next_nonces ss) (ss_executed_events ss) of
        Inl _ \<Rightarrow> None
      | Inr c \<Rightarrow> if state_hash X c = ss_state_hash ss then apply_all X c active else None)"

definition restore_chain ::
  "externals \<Rightarrow> blockchain \<Rightarrow> canonical_state option \<Rightarrow> state_snapshot option \<Rightarrow> block list \<Rightarrow> blockchain option" where
  "restore_chain X initial stored checkpoint active =
     (case stored of
        Some st \<Rightarrow> restore_canonical X (chain_id initial) (genesis_commitment initial) st
      | None \<Rightarrow>
        (case checkpoint of
           Some ss \<Rightarrow> restore_snapshot X (chain_id initial) (genesis_commitment initial) ss active
         | None \<Rightarrow> Some initial))"

subsection \<open>The JSON file of a chain\<close>

datatype storage_error = StorageIo | StorageCorrupt | StorageChain chain_error

definition storage_load ::
  "externals \<Rightarrow> (bytes \<Rightarrow> blockchain option) \<Rightarrow> bytes option \<Rightarrow> (blockchain, storage_error) result" where
  "storage_load X decode contents =
     and_then (ok_or contents StorageIo) (\<lambda>json.
     and_then (ok_or (decode json) StorageCorrupt) (\<lambda>c.
     case verify_and_rebuild X c of (c', r) \<Rightarrow> and_then (map_err StorageChain r) (\<lambda>_. Ok c')))"

definition storage_save :: "(blockchain \<Rightarrow> bytes) \<Rightarrow> bool \<Rightarrow> blockchain \<Rightarrow> (bytes, storage_error) result" where
  "storage_save encode writable c = (if writable then Ok (encode c) else Err StorageIo)"

subsection \<open>Lemmas: ledgers with the same state\<close>

text \<open>Everything of a ledger that the execution of later blocks depends on.\<close>

definition same_state :: "blockchain \<Rightarrow> blockchain \<Rightarrow> bool" where
  "same_state c d \<longleftrightarrow> chain_id c = chain_id d \<and> chain_state c = chain_state d \<and> blocks c \<noteq> [] \<and> blocks d \<noteq> [] \<and>
     tip_height c = tip_height d \<and> tip_hash c = tip_hash d"

lemma same_state_hash: "same_state c d \<Longrightarrow> state_hash X c = state_hash X d"
  by (simp add: same_state_def state_hash_def state_preimage_def chain_state_def next_nonce_def)

lemma same_state_apply:
  assumes "same_state c d"
  shows "snd (apply_block X c b) = snd (apply_block X d b)"
    and "same_state (fst (apply_block X c b)) (fst (apply_block X d b))"
proof -
  have f: "follows (last (blocks c)) b = follows (last (blocks d)) b"
    using assms by (auto simp: same_state_def follows_def tip_height_def tip_hash_def)
  have e: "execute_block X (chain_id c) b (chain_state c) = execute_block X (chain_id d) b (chain_state d)"
    using assms by (simp add: same_state_def)
  show "snd (apply_block X c b) = snd (apply_block X d b)"
    using assms f e by (auto simp: apply_block_def same_state_def split: sum.splits)
  show "same_state (fst (apply_block X c b)) (fst (apply_block X d b))"
    using assms f e
    by (auto simp: apply_block_def same_state_def tip_height_def tip_hash_def split: sum.splits)
qed

text \<open>The results of applying a sequence of blocks one after the other.\<close>

fun run_blocks :: "externals \<Rightarrow> blockchain \<Rightarrow> block list \<Rightarrow> blockchain \<times> (block, chain_error) result list" where
  "run_blocks X c [] = (c, [])"
| "run_blocks X c (b # bs) =
     (case apply_block X c b of (c1, r) \<Rightarrow> case run_blocks X c1 bs of (c2, rs) \<Rightarrow> (c2, r # rs))"

lemma same_state_run:
  "same_state c d \<Longrightarrow> snd (run_blocks X c bs) = snd (run_blocks X d bs) \<and>
     same_state (fst (run_blocks X c bs)) (fst (run_blocks X d bs))"
proof (induction bs arbitrary: c d)
  case (Cons b bs)
  then show ?case
    using same_state_apply [OF Cons.prems, of X b] Cons.IH [of "fst (apply_block X c b)" "fst (apply_block X d b)"]
    by (simp add: case_prod_beta)
qed simp

text \<open>What the hash function and the hexadecimal encoding make of a block hash.\<close>

definition sha256_law :: "externals \<Rightarrow> bool" where
  "sha256_law X \<longleftrightarrow> (\<forall>bs. length (sha256 X bs) = 32)"

lemma grown_tip_hash:
  assumes "grown X c" and "hex_law X" and "sha256_law X"
  shows "length (trim_start_0x (tip_hash c)) = 64" and "trim_start_0x (tip_hash c) = tip_hash c"
proof -
  have "blocks c \<noteq> []" and l: "linked X (blocks c)" using grown_linked_invariant [OF assms(1)] by auto
  then have "tip_hash c = calculate_hash X (last (blocks c))"
    by (simp add: tip_hash_def last_conv_nth linked_def)
  then have h: "tip_hash c = hex_encode X (sha256 X (block_preimage X (last (blocks c))))"
    by (simp add: calculate_hash_def)
  show t: "trim_start_0x (tip_hash c) = tip_hash c" unfolding h
    using hex_encode_not_0x [OF assms(2)] by (simp add: trim_start_0x_id starts_with_0x)
  show "length (trim_start_0x (tip_hash c)) = 64"
    unfolding t using assms(2,3) by (simp add: h hex_law_def sha256_law_def)
qed

lemma restored_same_state:
  assumes "grown X c" and "hex_law X" and "sha256_law X"
  obtains d where "from_snapshot_with_events (chain_id c) commitment (tip_height c) (tip_hash c) (balances c)
      (next_nonces c) (executed_events c) = Ok d" and "same_state c d" and "genesis_commitment d = commitment"
proof -
  have "blocks c \<noteq> []" using grown_linked_invariant [OF assms(1)] by simp
  then show ?thesis
    using grown_tip_hash [OF assms]
    by (intro that) (auto simp: from_snapshot_with_events_def same_state_def chain_state_def tip_height_def tip_hash_def)
qed

lemma apply_all_same_state:
  "same_state c d \<Longrightarrow> apply_all X c bs = Some c1 \<Longrightarrow> \<exists>d1. apply_all X d bs = Some d1 \<and> same_state c1 d1"
proof (induction bs arbitrary: c d)
  case (Cons b bs)
  obtain c2 r where c2: "apply_block X c b = (c2, Ok r)" "apply_all X c2 bs = Some c1"
    using Cons.prems(2) by (auto split: prod.splits sum.splits)
  with same_state_apply [OF Cons.prems(1), of X b] obtain d2 where "apply_block X d b = (d2, Ok r)" "same_state c2 d2"
    by (metis fst_conv prod.collapse snd_conv)
  then show ?case using Cons.IH c2(2) by simp
qed simp

subsection \<open>Lemmas: the state store\<close>

lemma overlay_put_other:
  "k \<noteq> key \<Longrightarrow> overlay m (edb_pending (db_put k v db)) key = overlay m (edb_pending db) key"
  by (simp add: db_put_def overlay_def)

lemma overlay_put_same: "overlay m (edb_pending (db_put key v db)) key = Some v"
  by (simp add: db_put_def overlay_def)

lemma db_put_disk [simp]: "edb_disk (db_put k v db) = edb_disk db"
  by (simp add: db_put_def)

lemma fold_put_other:
  "\<forall>x \<in> set xs. f x \<noteq> key \<Longrightarrow>
     overlay m (edb_pending (fold (\<lambda>x. db_put (f x) (g x)) xs db)) key = overlay m (edb_pending db) key \<and>
     edb_disk (fold (\<lambda>x. db_put (f x) (g x)) xs db) = edb_disk db"
  by (induction xs arbitrary: db) (simp_all add: overlay_put_other)

lemma state_writes_current:
  "overlay m (edb_pending (state_writes C st db)) ''canonical/current'' = Some (sc_encode C st) \<and>
   edb_disk (state_writes C st db) = edb_disk db"
proof -
  let ?key = "''canonical/height/'' @ zero_pad 20 (dec_digits (unat (cs_height st)))"
  let ?db = "db_put ?key (sc_pair C (cs_block_hash st, cs_state_root st)) (db_put ''canonical/current'' (sc_encode C st) db)"
  have w: "state_writes C st db = fold (\<lambda>x. db_put (''transaction/'' @ fst x) (sc_location C (snd x)))
      (fm_entries (cs_transaction_index st)) ?db"
    by (simp only: state_writes_def case_prod_beta')
  have "overlay m (edb_pending ?db) ''canonical/current'' = Some (sc_encode C st)"
    by (subst overlay_put_other) (simp_all add: overlay_put_same)
  moreover have "overlay m (edb_pending (state_writes C st db)) ''canonical/current'' = overlay m (edb_pending ?db) ''canonical/current'' \<and>
      edb_disk (state_writes C st db) = edb_disk ?db"
    unfolding w by (rule fold_put_other) simp
  ultimately show ?thesis by simp
qed

text \<open>A store on an initialized database of the given generation.\<close>

definition store_ready :: "('d \<Rightarrow> db_view) \<Rightarrow> 'd store_disk \<Rightarrow> nat \<Rightarrow> bool" where
  "store_ready view s n \<longleftrightarrow> generation_is view \<lparr>edb_disk = sd_db s, edb_pending = fmempty\<rparr> n"

lemma store_open:
  assumes laws: "sqlite_laws Q view" and "store_ready view s n"
    and o: "db_open Q legacy (sd_legacy s) (sd_db s) = (d, lf, Ok db)"
  shows "generation_is view db n" and "db_tables_of view db = the (dv_committed (view (sd_db s)))"
    and "edb_pending db = fmempty" and "dv_committed (view (sd_db s)) \<noteq> None" and "dv_committed (view (edb_disk db)) \<noteq> None"
proof -
  obtain t where t: "dv_committed (view (sd_db s)) = Some t" using assms(2) by (auto simp: store_ready_def generation_is_def)
  from db_open_existing [OF laws t o] assms(2) t
  show "generation_is view db n" "db_tables_of view db = the (dv_committed (view (sd_db s)))" "edb_pending db = fmempty"
    "dv_committed (view (sd_db s)) \<noteq> None" "dv_committed (view (edb_disk db)) \<noteq> None"
    by (simp_all add: store_ready_def generation_is_def db_tables_of_def)
qed

lemma state_commit_current:
  assumes laws: "sqlite_laws Q view" and ready: "store_ready view s n" "Suc n < 2 ^ 63"
    and c: "state_commit Q legacy C X c s = (s', Ok st)"
  shows "st = canonical_from_chain X c" and "store_ready view s' (Suc n)"
    and "fmlookup (dt_kv (the (dv_committed (view (sd_db s'))))) ''canonical/current'' = Some (sc_encode C st)"
proof -
  obtain d lf db db1 g where o: "db_open Q legacy (sd_legacy s) (sd_db s) = (d, lf, Ok db)"
    and st: "st = canonical_from_chain X c" and m: "db_commit Q (state_writes C st db) = (db1, Ok g)"
    and s': "sd_db s' = edb_disk db1"
    using c by (auto simp: state_commit_def Let_def split: prod.splits sum.splits if_splits)
  show "st = canonical_from_chain X c" by (rule st)
  note op = store_open [OF laws ready(1) o]
  have gen: "generation_is view (state_writes C st db) n"
    using op(1) by (simp add: generation_is_def db_tables_of_def state_writes_current [THEN conjunct1] state_writes_current [THEN conjunct2])
  from db_commit_view [OF laws gen ready(2) m]
  have abs: "db_abs view db1 = spec_step Commit (db_abs view (state_writes C st db))" and g1: "generation_is view db1 (Suc n)" by auto
  from abs have "fst (db_abs view db1) ''canonical/current'' = Some (sc_encode C st)"
    by (simp add: db_abs_def Let_def state_writes_current [THEN conjunct1] state_writes_current [THEN conjunct2])
  then show "fmlookup (dt_kv (the (dv_committed (view (sd_db s'))))) ''canonical/current'' = Some (sc_encode C st)"
    by (simp add: db_abs_def Let_def db_tables_of_def s')
  show "store_ready view s' (Suc n)"
    using g1 by (simp add: store_ready_def generation_is_def db_tables_of_def s')
qed

subsection \<open>Properties\<close>

text \<open>
  A committed state is the state that a restart finds. After a commit that reported success, loading
  the store returns exactly the committed state, or reports an error of SQLite; it never returns an older
  state, nor none, whatever happens to the mirror file.
\<close>
theorem state_commit_load:
  assumes "sqlite_laws Q view" and "store_ready view s n" and "Suc n < 2 ^ 63"
    and "state_commit Q legacy C X c s = (s', Ok st)" and "sc_decode C (sc_encode C st) = Some st"
  shows "st = canonical_from_chain X c \<and>
    (snd (state_load Q legacy C (s'\<lparr>sd_mirror := mirror'\<rparr>)) = Ok (Some st) \<or>
     (\<exists>e. snd (state_load Q legacy C (s'\<lparr>sd_mirror := mirror'\<rparr>)) = Err (StateDb e)))"
proof -
  note com = state_commit_current [OF assms(1-4)]
  obtain d lf r where o: "db_open Q legacy (sd_legacy s') (sd_db s') = (d, lf, r)" by (metis prod_cases3)
  have v: "validate_schema st = Ok ()" by (simp add: com(1) validate_schema_def canonical_from_chain_def)
  have "snd (state_load Q legacy C (s'\<lparr>sd_mirror := mirror'\<rparr>)) = Ok (Some st) \<or>
     (\<exists>e. snd (state_load Q legacy C (s'\<lparr>sd_mirror := mirror'\<rparr>)) = Err (StateDb e))"
  proof (cases r)
    case (Inl e)
    then show ?thesis by (simp add: state_load_def o)
  next
    case (Inr db)
    note op = store_open [OF assms(1) com(2), of legacy d lf db]
    have o': "db_open Q legacy (sd_legacy s') (sd_db s') = (d, lf, Ok db)" using o Inr by simp
    show ?thesis
    proof (cases "db_get Q db ''canonical/current''")
      case (Inl e)
      then show ?thesis by (simp add: state_load_def o')
    next
      case (Inr cur)
      then have "cur = snd (db_abs view db) ''canonical/current''"
        by (rule db_get_abs [OF assms(1) op(5) [OF o']])
      also have "\<dots> = Some (sc_encode C st)"
        using com(3) op(2,3) [OF o'] by (simp add: db_abs_def Let_def overlay_simps)
      finally show ?thesis using Inr assms(5) v by (simp add: state_load_def o' decode_state_def)
    qed
  qed
  with com(1) show ?thesis by blast
qed

text \<open>The database in memory accepts every commit.\<close>

lemma memory_apply_writes: "snd (apply_writes memory_sqlite ws d)"
  by (induction ws arbitrary: d) (auto simp: apply_write_def memory_sqlite_def split: option.splits)

lemma memory_commit_with_generation:
  "\<exists>db'. commit_with_generation memory_sqlite g db = (db', Ok ())"
proof -
  obtain d1 where w: "apply_writes memory_sqlite (fm_entries (edb_pending db)) (fst (sq_begin memory_sqlite (edb_disk db))) = (d1, True)"
    using memory_apply_writes by (metis prod.collapse)
  have b: "sq_begin memory_sqlite d = (fst (sq_begin memory_sqlite d), True)"
    and c: "sq_commit memory_sqlite d = (fst (sq_commit memory_sqlite d), True)"
    and g: "sq_set_generation memory_sqlite g d = (fst (sq_set_generation memory_sqlite g d), True)" for d
    by (simp_all add: memory_sqlite_def)
  show ?thesis
    unfolding commit_with_generation_def apply_pending_def
    by (subst b, simp add: w, subst g, simp, subst c, simp)
qed

definition memory_store :: "db_view store_disk" where
  "memory_store = \<lparr>sd_db = edb_disk memory_db, sd_legacy = \<lparr>lf_contents = None, lf_readable = True, lf_renamable = True\<rparr>,
     sd_mirror = \<lparr>mi_contents = None, mi_writable = True, mi_readable = True\<rparr>\<rparr>"

lemma memory_store_open:
  "db_open memory_sqlite legacy (sd_legacy memory_store) (sd_db memory_store) = (sd_db memory_store, sd_legacy memory_store, Ok memory_db)"
proof -
  have "db_metadata memory_sqlite (edb_disk memory_db) ''schema_version'' = Ok 2"
    by (simp add: db_metadata_def memory_sqlite_def memory_db_def fresh_tables_def)
  moreover have "sq_create memory_sqlite (edb_disk memory_db) = (edb_disk memory_db, True)"
    by (simp add: memory_sqlite_def memory_db_def)
  ultimately have "db_initialize memory_sqlite (edb_disk memory_db) = (edb_disk memory_db, Ok ())"
    by (simp add: db_initialize_def SCHEMA_VERSION_def)
  then show ?thesis by (simp add: db_open_def memory_store_def) (simp add: memory_db_def)
qed

lemma memory_generation: "db_generation memory_sqlite (edb_disk (state_writes C st memory_db)) = Ok 0"
  by (simp add: state_writes_current [THEN conjunct2])
    (simp add: db_generation_def db_metadata_def memory_sqlite_def memory_db_def fresh_tables_def)

lemma memory_state_commit: "\<exists>s'. state_commit memory_sqlite legacy C X c memory_store = (s', Ok (canonical_from_chain X c))"
proof -
  obtain db' where "commit_with_generation memory_sqlite (saturating_add 0 1) (state_writes C (canonical_from_chain X c) memory_db) = (db', Ok ())"
    using memory_commit_with_generation by blast
  then show ?thesis
    by (simp add: state_commit_def memory_store_open db_commit_def memory_generation Let_def) (simp add: memory_store_def)
qed

definition constant_codec :: "canonical_state \<Rightarrow> state_codec" where
  "constant_codec st = \<lparr>sc_encode = (\<lambda>_. [1]), sc_decode = (\<lambda>_. Some st), sc_pair = (\<lambda>_. []), sc_location = (\<lambda>_. [])\<rparr>"

theorem state_commit_load_witness:
  "\<exists>s' st. state_commit memory_sqlite (\<lambda>_. None) (constant_codec (canonical_from_chain sample_externals (chain_new sample_externals [])))
       sample_externals (chain_new sample_externals []) memory_store = (s', Ok st) \<and>
     st = canonical_from_chain sample_externals (chain_new sample_externals [])"
proof -
  let ?c = "chain_new sample_externals []"
  let ?C = "constant_codec (canonical_from_chain sample_externals ?c)"
  obtain s' where s': "state_commit memory_sqlite (\<lambda>_. None) ?C sample_externals ?c memory_store = (s', Ok (canonical_from_chain sample_externals ?c))"
    using memory_state_commit by blast
  have "store_ready (\<lambda>d. d) memory_store 0"
    by (simp add: store_ready_def generation_is_def db_tables_of_def memory_store_def memory_db_def fresh_tables_def)
  from state_commit_load [OF memory_sqlite_laws this _ s'] s' show ?thesis by (simp add: constant_codec_def)
qed

text \<open>
  C20: a restart does not change what the ledger does. The ledger restored from the canonical state of a
  chain grown from genesis, or from its snapshot and the active blocks that follow it, passes the checks
  of the start-up, has the same state hash and tip, and gives for every later sequence of blocks the same
  results and the same state as the ledger that was never restarted.
\<close>
theorem restart_transparent:
  assumes "grown X c" and "hex_law X" and "sha256_law X" and "chain_id initial = chain_id c"
    and "apply_all X c active = Some c1"
  shows "\<exists>d d1. restore_chain X initial (Some (canonical_from_chain X c)) checkpoint active = Some d \<and>
    restore_chain X initial None (Some (snapshot_from_chain X c)) active = Some d1 \<and>
    state_hash X d = state_hash X c \<and> state_hash X d1 = state_hash X c1 \<and>
    (\<forall>bs. snd (run_blocks X d bs) = snd (run_blocks X c bs) \<and>
       chain_state (fst (run_blocks X d bs)) = chain_state (fst (run_blocks X c bs)) \<and>
       snd (run_blocks X d1 bs) = snd (run_blocks X c1 bs) \<and>
       chain_state (fst (run_blocks X d1 bs)) = chain_state (fst (run_blocks X c1 bs)))"
proof -
  obtain d where d: "from_snapshot_with_events (chain_id c) (genesis_commitment initial) (tip_height c) (tip_hash c) (balances c)
      (next_nonces c) (executed_events c) = Ok d" "same_state c d"
    using restored_same_state [OF assms(1-3)] by metis
  note hash = same_state_hash [OF d(2), of X]
  obtain d1 where d1: "apply_all X d active = Some d1" "same_state c1 d1"
    using apply_all_same_state [OF d(2) assms(5)] by blast
  have "restore_chain X initial (Some (canonical_from_chain X c)) checkpoint active = Some d"
    using d(1) hash assms(4) by (simp add: restore_chain_def restore_canonical_def canonical_from_chain_def)
  moreover have "restore_chain X initial None (Some (snapshot_from_chain X c)) active = Some d1"
    using d(1) hash assms(4) d1(1) by (simp add: restore_chain_def restore_snapshot_def snapshot_from_chain_def)
  moreover have "snd (run_blocks X d bs) = snd (run_blocks X c bs) \<and>
       chain_state (fst (run_blocks X d bs)) = chain_state (fst (run_blocks X c bs)) \<and>
       snd (run_blocks X d1 bs) = snd (run_blocks X c1 bs) \<and>
       chain_state (fst (run_blocks X d1 bs)) = chain_state (fst (run_blocks X c1 bs))" for bs
    using same_state_run [OF d(2), of X bs] same_state_run [OF d1(2), of X bs] by (simp add: same_state_def)
  ultimately show ?thesis using hash same_state_hash [OF d1(2), of X] by (intro exI [of _ d] exI [of _ d1]) simp
qed

theorem restart_transparent_witness:
  "let X = sample_externals\<lparr>sha256 := \<lambda>_. replicate 32 0\<rparr>; c = with_chain_id X 1 [] in
   \<exists>d. restore_chain X c (Some (canonical_from_chain X c)) None [] = Some d \<and> state_hash X d = state_hash X c"
proof -
  let ?X = "sample_externals\<lparr>sha256 := \<lambda>_. replicate 32 0\<rparr>"
  let ?c = "with_chain_id ?X 1 []"
  have "grown ?X (?c\<lparr>genesis_commitment := genesis_commitment ?c\<rparr>)" by (rule grown.genesis)
  then have g: "grown ?X ?c" by (simp add: with_chain_id_def Let_def)
  have h: "hex_law ?X" using sample_hex_law by (simp add: hex_law_def)
  have s: "sha256_law ?X" by (simp add: sha256_law_def)
  show ?thesis using restart_transparent [OF g h s, of ?c "[]" ?c None] by (auto simp: Let_def)
qed

end
