(* ===== verification/Snapshot_Sync.thy ===== *)
theory Snapshot_Sync
  imports State_Store Iterators
begin

text \<open>
  Downloading a state snapshot in chunks (\<open>src/snapshot_sync.rs\<close>): the manifest and the chunks a peer
  builds, the download that checks, stores and resumes them, and the quorum of peers that decides which
  tip to synchronize to. The JSON and zstd codecs are parameters; the files of a download are the chunk
  files by index and the resume file. \<open>atomic_write\<close> replaces a file as a whole or leaves it alone, and
  its outcome is an argument, as is which chunk files can be read in the end.

  The lemmas show that a complete download returns exactly the snapshot the manifest was built from,
  through restarts, failed writes and forged chunks, unless a forged chunk has the SHA-256 digest of a
  piece of the snapshot, and that the quorum chooses the highest tip that
  enough peers report.
\<close>

definition DEFAULT_CHUNK_BYTES :: nat where
  "DEFAULT_CHUNK_BYTES = 512 * 1024"

record sync_tip =
  tip_sync_height :: u64
  tip_block_hash :: string
  tip_state_root :: string

record snapshot_manifest =
  sm_snapshot_id :: string
  sm_tip :: sync_tip
  sm_chunk_count :: u32
  sm_compressed_bytes :: u64
  sm_chunk_hashes :: "string list"

record snapshot_chunk =
  sn_snapshot_id :: string
  sn_index :: u32
  sn_bytes :: bytes

record resume_progress =
  rp_manifest :: snapshot_manifest
  rp_received :: "u32 fset"

datatype sync_error =
    BadChunkCount | BadHashLength | ZeroChunkSize | SyncIo | ResumeCorrupt | ManifestMismatch
  | OtherSnapshot | ChunkOutOfRange | ChunkHash | Incomplete | CompressedSize | SnapshotIdMismatch
  | DecompressFailed | SnapshotCorrupt | TipMismatch | BadSyncQuorum

record snapshot_codec =
  zc_json :: "state_snapshot \<Rightarrow> bytes"
  zc_parse :: "bytes \<Rightarrow> state_snapshot option"
  zc_compress :: "bytes \<Rightarrow> bytes"
  zc_decompress :: "bytes \<Rightarrow> bytes option"
  zc_progress :: "resume_progress \<Rightarrow> bytes"
  zc_parse_progress :: "bytes \<Rightarrow> resume_progress option"

definition sync_hash :: "externals \<Rightarrow> bytes \<Rightarrow> string" where
  "sync_hash X bs = hex_encode X (sha256 X bs)"

subsection \<open>Manifests\<close>

function chunks :: "nat \<Rightarrow> 'a list \<Rightarrow> 'a list list" where
  "chunks n xs = (if n = 0 \<or> xs = [] then [] else take n xs # chunks n (drop n xs))"
  by pat_completeness auto
termination
  by (relation "measure (length \<circ> snd)") auto

declare chunks.simps [simp del]

definition manifest_build ::
  "externals \<Rightarrow> snapshot_codec \<Rightarrow> state_snapshot \<Rightarrow> nat
     \<Rightarrow> (snapshot_manifest \<times> snapshot_chunk list, sync_error) result" where
  "manifest_build X Z ss chunk_bytes =
     (if chunk_bytes = 0 then Err ZeroChunkSize
      else
        let compressed = zc_compress Z (zc_json Z ss);
            snapshot_id = sync_hash X compressed;
            cs = map (\<lambda>(index, bs). \<lparr>sn_snapshot_id = snapshot_id, sn_index = of_nat index, sn_bytes = bs\<rparr>)
                   (List.enumerate 0 (chunks chunk_bytes compressed))
        in Ok (\<lparr>sm_snapshot_id = snapshot_id,
                sm_tip = \<lparr>tip_sync_height = ss_height ss, tip_block_hash = ss_block_hash ss, tip_state_root = ss_state_hash ss\<rparr>,
                sm_chunk_count = of_nat (length cs), sm_compressed_bytes = of_nat (length compressed),
                sm_chunk_hashes = map (\<lambda>c. sync_hash X (sn_bytes c)) cs\<rparr>, cs))"

definition manifest_verify :: "snapshot_manifest \<Rightarrow> (unit, sync_error) result" where
  "manifest_verify m =
     and_then (ensure (\<not> (sm_chunk_count m = 0 \<or> unat (sm_chunk_count m) \<noteq> length (sm_chunk_hashes m))) BadChunkCount) (\<lambda>_.
     ensure (\<not> (length (sm_snapshot_id m) \<noteq> 64 \<or> (\<exists>h \<in> set (sm_chunk_hashes m). length h \<noteq> 64))) BadHashLength)"

subsection \<open>Downloads\<close>

record download_disk =
  dd_chunks :: "(u32, bytes) fmap"
  dd_resume :: "bytes option"

record snapshot_download =
  dl_disk :: download_disk
  dl_progress :: resume_progress

definition persist_progress :: "snapshot_codec \<Rightarrow> bool \<Rightarrow> resume_progress \<Rightarrow> download_disk \<Rightarrow> download_disk \<times> bool" where
  "persist_progress Z io p d = (if io then (d\<lparr>dd_resume := Some (zc_progress Z p)\<rparr>, True) else (d, False))"

definition download_open ::
  "snapshot_codec \<Rightarrow> bool \<Rightarrow> bool \<Rightarrow> bool \<Rightarrow> snapshot_manifest \<Rightarrow> download_disk
     \<Rightarrow> download_disk \<times> (snapshot_download, sync_error) result" where
  "download_open Z io_dir io_read io_write m d =
     (case manifest_verify m of
        Inl e \<Rightarrow> (d, Err e)
      | Inr _ \<Rightarrow>
        if \<not> io_dir then (d, Err SyncIo)
        else case (case dd_resume d of
                     None \<Rightarrow> Ok \<lparr>rp_manifest = m, rp_received = {||}\<rparr>
                   | Some bs \<Rightarrow>
                     and_then (ensure io_read SyncIo) (\<lambda>_.
                     and_then (ok_or (zc_parse_progress Z bs) ResumeCorrupt) (\<lambda>p.
                     if rp_manifest p \<noteq> m then Err ManifestMismatch else Ok p))) of
          Inl e \<Rightarrow> (d, Err e)
        | Inr p \<Rightarrow>
          (case persist_progress Z io_write p d of
             (d1, ok) \<Rightarrow> (d1, if ok then Ok \<lparr>dl_disk = d1, dl_progress = p\<rparr> else Err SyncIo)))"

definition is_complete :: "snapshot_download \<Rightarrow> bool" where
  "is_complete dl \<longleftrightarrow> fcard (rp_received (dl_progress dl)) = unat (sm_chunk_count (rp_manifest (dl_progress dl)))"

definition missing :: "snapshot_download \<Rightarrow> u32 list" where
  "missing dl =
     filter (\<lambda>i. i |\<notin>| rp_received (dl_progress dl))
       (map of_nat [0..<unat (sm_chunk_count (rp_manifest (dl_progress dl)))])"

definition download_accept ::
  "externals \<Rightarrow> snapshot_codec \<Rightarrow> bool \<Rightarrow> bool \<Rightarrow> snapshot_chunk \<Rightarrow> snapshot_download
     \<Rightarrow> snapshot_download \<times> (bool, sync_error) result" where
  "download_accept X Z io_chunk io_progress c dl =
     (let p = dl_progress dl; hashes = sm_chunk_hashes (rp_manifest p) in
      if sn_snapshot_id c \<noteq> sm_snapshot_id (rp_manifest p) then (dl, Err OtherSnapshot)
      else if unat (sn_index c) \<ge> length hashes then (dl, Err ChunkOutOfRange)
      else if sync_hash X (sn_bytes c) \<noteq> hashes ! unat (sn_index c) then (dl, Err ChunkHash)
      else if \<not> io_chunk then (dl, Err SyncIo)
      else
        let d1 = (dl_disk dl)\<lparr>dd_chunks := fmupd (sn_index c) (sn_bytes c) (dd_chunks (dl_disk dl))\<rparr>;
            p1 = p\<lparr>rp_received := finsert (sn_index c) (rp_received p)\<rparr>
        in case persist_progress Z io_progress p1 d1 of
             (d2, ok) \<Rightarrow>
               let dl1 = \<lparr>dl_disk = d2, dl_progress = p1\<rparr> in
               (dl1, if ok then Ok (is_complete dl1) else Err SyncIo))"

text \<open>\<open>fs::read\<close> fails when the file is absent and may fail when it is not.\<close>

definition read_chunk :: "(u32 \<Rightarrow> bool) \<Rightarrow> download_disk \<Rightarrow> u32 \<Rightarrow> bytes \<Rightarrow> (bytes, sync_error) result" where
  "read_chunk readable d i compressed =
     and_then (ok_or (if readable i then fmlookup (dd_chunks d) i else None) SyncIo) (\<lambda>bs. Ok (compressed @ bs))"

definition download_finish ::
  "externals \<Rightarrow> snapshot_codec \<Rightarrow> (u32 \<Rightarrow> bool) \<Rightarrow> snapshot_download \<Rightarrow> (state_snapshot, sync_error) result" where
  "download_finish X Z readable dl =
     (let m = rp_manifest (dl_progress dl) in
      and_then (ensure (is_complete dl) Incomplete) (\<lambda>_.
      and_then (for_each (read_chunk readable (dl_disk dl)) (map of_nat [0..<unat (sm_chunk_count m)]) []) (\<lambda>compressed.
      and_then (ensure (of_nat (length compressed) = sm_compressed_bytes m) CompressedSize) (\<lambda>_.
      and_then (ensure (sync_hash X compressed = sm_snapshot_id m) SnapshotIdMismatch) (\<lambda>_.
      and_then (ok_or (zc_decompress Z compressed) DecompressFailed) (\<lambda>bs.
      and_then (ok_or (zc_parse Z bs) SnapshotCorrupt) (\<lambda>ss.
      if ss_height ss \<noteq> tip_sync_height (sm_tip m) \<or> ss_block_hash ss \<noteq> tip_block_hash (sm_tip m) \<or>
         ss_state_hash ss \<noteq> tip_state_root (sm_tip m)
      then Err TipMismatch else Ok ss)))))))"

subsection \<open>The quorum of tips\<close>

record tip_quorum =
  tq_minimum_peers :: nat
  tq_votes :: "(string, sync_tip) fmap"

definition tip_quorum_new :: "nat \<Rightarrow> (tip_quorum, sync_error) result" where
  "tip_quorum_new minimum_peers =
     (if \<not> (2 \<le> minimum_peers \<and> minimum_peers \<le> 3) then Err BadSyncQuorum
      else Ok \<lparr>tq_minimum_peers = minimum_peers, tq_votes = fmempty\<rparr>)"

type_synonym tip_key = "u64 \<times> string \<times> string"

definition tip_key :: "sync_tip \<Rightarrow> tip_key" where
  "tip_key t = (tip_sync_height t, tip_block_hash t, tip_state_root t)"

definition tip_of_key :: "tip_key \<Rightarrow> sync_tip" where
  "tip_of_key = (\<lambda>(h, b, s). \<lparr>tip_sync_height = h, tip_block_hash = b, tip_state_root = s\<rparr>)"

definition count_tips :: "sync_tip list \<Rightarrow> (tip_key, nat) fmap" where
  "count_tips ts = fold (\<lambda>t m. fmupd (tip_key t) (get0 m (tip_key t) + 1) m) ts fmempty"

text \<open>\<open>Iterator::max_by_key\<close> returns the last of several elements with the greatest key.\<close>

fun max_by_key :: "('a \<Rightarrow> 'b::linorder) \<Rightarrow> 'a list \<Rightarrow> 'a option" where
  "max_by_key f [] = None"
| "max_by_key f (x # xs) =
     (case max_by_key f xs of None \<Rightarrow> Some x | Some y \<Rightarrow> if f x \<le> f y then Some y else Some x)"

definition tip_observe :: "string \<Rightarrow> sync_tip \<Rightarrow> tip_quorum \<Rightarrow> tip_quorum \<times> sync_tip option" where
  "tip_observe peer_id tip q =
     (let q1 = q\<lparr>tq_votes := fmupd peer_id tip (tq_votes q)\<rparr>;
          counts = count_tips (map snd (fm_entries (tq_votes q1)))
      in (q1, map_option (tip_of_key \<circ> fst)
                (max_by_key (fst \<circ> fst) (filter (\<lambda>(_, n). n \<ge> tq_minimum_peers q) (fm_entries counts)))))"

subsection \<open>Lemmas: chunks\<close>

lemma concat_chunks: "0 < n \<Longrightarrow> concat (chunks n xs) = xs"
proof (induction n xs rule: chunks.induct)
  case (1 n xs)
  then show ?case by (cases "xs = []") (simp_all add: chunks.simps [of n])
qed

lemma chunks_Nil_iff: "0 < n \<Longrightarrow> chunks n xs = [] \<longleftrightarrow> xs = []"
  by (simp add: chunks.simps [of n xs])

lemma read_chunks:
  assumes "\<forall>i < k. fmlookup (dd_chunks d) (of_nat i) = Some (ps ! i)" and "k \<le> length ps"
  shows "for_each (read_chunk readable d) (map of_nat [0..<k]) acc =
    (if \<forall>i < k. readable (of_nat i) then Ok (acc @ concat (take k ps)) else Err SyncIo)"
  using assms
proof (induction k)
  case (Suc k)
  let ?one = "read_chunk readable d (of_nat k) (acc @ concat (take k ps))"
  have "for_each (read_chunk readable d) (map of_nat [0..<k]) acc =
    (if \<forall>i < k. readable (of_nat i) then Ok (acc @ concat (take k ps)) else Err SyncIo)" using Suc by simp
  moreover have "?one = (if readable (of_nat k) then Ok (acc @ concat (take (Suc k) ps)) else Err SyncIo)"
    using Suc.prems by (simp add: read_chunk_def take_Suc_conv_app_nth)
  ultimately show ?case by (auto simp: for_each_append less_Suc_eq)
qed simp

subsection \<open>Lemmas: downloads\<close>

text \<open>A manifest for the given pieces.\<close>

definition manifest_for :: "externals \<Rightarrow> snapshot_manifest \<Rightarrow> bytes list \<Rightarrow> bool" where
  "manifest_for X m ps \<longleftrightarrow> length ps < 2 ^ 32 \<and> unat (sm_chunk_count m) = length ps \<and>
     sm_chunk_hashes m = map (sync_hash X) ps"

text \<open>None of the given chunks is a collision of the hash with one of the pieces.\<close>

definition no_collision :: "externals \<Rightarrow> bytes list \<Rightarrow> snapshot_chunk list \<Rightarrow> bool" where
  "no_collision X ps offered \<longleftrightarrow>
     (\<forall>c \<in> set offered. \<forall>p \<in> set ps. sync_hash X (sn_bytes c) = sync_hash X p \<longrightarrow> sn_bytes c = p)"

lemma manifest_build_for:
  assumes "manifest_build X Z ss n = Ok (m, cs)" and "length cs < 2 ^ 32"
  shows "manifest_for X m (map sn_bytes cs)" and "concat (map sn_bytes cs) = zc_compress Z (zc_json Z ss)"
    and "sm_snapshot_id m = sync_hash X (zc_compress Z (zc_json Z ss))"
    and "sm_compressed_bytes m = of_nat (length (zc_compress Z (zc_json Z ss)))"
    and "sm_tip m = \<lparr>tip_sync_height = ss_height ss, tip_block_hash = ss_block_hash ss, tip_state_root = ss_state_hash ss\<rparr>"
proof -
  let ?comp = "zc_compress Z (zc_json Z ss)"
  have n: "0 < n" and cs: "map sn_bytes cs = chunks n ?comp" and len: "length cs = length (chunks n ?comp)"
    using assms(1) by (auto simp: manifest_build_def Let_def comp_def case_prod_beta split: if_splits)
  show "concat (map sn_bytes cs) = ?comp" using n by (simp add: cs concat_chunks)
  have u: "unat (of_nat (length cs) :: u32) = length cs" using assms(2) by (intro unat_of_nat_small) simp
  show "manifest_for X m (map sn_bytes cs)"
    using assms u len by (auto simp: manifest_for_def manifest_build_def Let_def comp_def split: if_splits)
  show "sm_snapshot_id m = sync_hash X ?comp" "sm_compressed_bytes m = of_nat (length ?comp)"
    "sm_tip m = \<lparr>tip_sync_height = ss_height ss, tip_block_hash = ss_block_hash ss, tip_state_root = ss_state_hash ss\<rparr>"
    using assms(1) by (auto simp: manifest_build_def Let_def split: if_splits)
qed

text \<open>Every received chunk is on the disk with the right contents.\<close>

definition progress_ok :: "snapshot_manifest \<Rightarrow> bytes list \<Rightarrow> download_disk \<Rightarrow> resume_progress \<Rightarrow> bool" where
  "progress_ok m ps d p \<longleftrightarrow> rp_manifest p = m \<and>
     (\<forall>i. i |\<in>| rp_received p \<longrightarrow> unat i < length ps \<and> fmlookup (dd_chunks d) i = Some (ps ! unat i))"

definition download_ok :: "snapshot_codec \<Rightarrow> snapshot_manifest \<Rightarrow> bytes list \<Rightarrow> snapshot_download \<Rightarrow> bool" where
  "download_ok Z m ps dl \<longleftrightarrow> progress_ok m ps (dl_disk dl) (dl_progress dl) \<and>
     (\<exists>p. dd_resume (dl_disk dl) = Some (zc_progress Z p) \<and> progress_ok m ps (dl_disk dl) p)"

text \<open>The resume file of a progress on the manifest can be read back.\<close>

definition progress_codec :: "snapshot_codec \<Rightarrow> snapshot_manifest \<Rightarrow> bool" where
  "progress_codec Z m \<longleftrightarrow> (\<forall>p. rp_manifest p = m \<longrightarrow> (\<forall>i. i |\<in>| rp_received p \<longrightarrow> unat i < length (sm_chunk_hashes m)) \<longrightarrow>
     zc_parse_progress Z (zc_progress Z p) = Some p)"

lemma open_fresh_ok:
  "download_open Z a b c m \<lparr>dd_chunks = fmempty, dd_resume = None\<rparr> = (d, Ok dl) \<Longrightarrow> download_ok Z m ps dl"
  by (auto simp: download_open_def persist_progress_def download_ok_def progress_ok_def
      split: sum.splits if_splits)

lemma reopen_ok:
  assumes "download_ok Z m ps dl0" and "progress_codec Z m" and "manifest_for X m ps" and "download_open Z a b c m (dl_disk dl0) = (d, Ok dl)"
  shows "download_ok Z m ps dl"
proof -
  obtain p where p: "dd_resume (dl_disk dl0) = Some (zc_progress Z p)" "progress_ok m ps (dl_disk dl0) p"
    using assms(1) by (auto simp: download_ok_def)
  have "zc_parse_progress Z (zc_progress Z p) = Some p"
    using assms(2,3) p(2) by (auto simp: progress_codec_def progress_ok_def manifest_for_def)
  with p have "dl = \<lparr>dl_disk = (dl_disk dl0)\<lparr>dd_resume := Some (zc_progress Z p)\<rparr>, dl_progress = p\<rparr>"
    using assms(4)
    by (auto simp: download_open_def persist_progress_def ensure_def and_then_def
        split: sum.splits if_splits)
  then show ?thesis using p(2) by (auto simp: download_ok_def progress_ok_def)
qed

lemma accept_ok:
  assumes ok: "download_ok Z m ps dl" and "manifest_for X m ps" and "no_collision X ps [c]"
    and acc: "download_accept X Z i1 i2 c dl = (dl', r)"
  shows "download_ok Z m ps dl'"
proof (cases "dl' = dl")
  case False
  let ?d = "(dl_disk dl)\<lparr>dd_chunks := fmupd (sn_index c) (sn_bytes c) (dd_chunks (dl_disk dl))\<rparr>"
  let ?p = "(dl_progress dl)\<lparr>rp_received := finsert (sn_index c) (rp_received (dl_progress dl))\<rparr>"
  have m: "rp_manifest (dl_progress dl) = m" using ok by (simp add: download_ok_def progress_ok_def)
  have dl': "dl' = \<lparr>dl_disk = fst (persist_progress Z i2 ?p ?d), dl_progress = ?p\<rparr>"
    and c: "unat (sn_index c) < length ps" "sync_hash X (sn_bytes c) = map (sync_hash X) ps ! unat (sn_index c)"
    using acc False assms(2) m
    by (auto simp: download_accept_def Let_def manifest_for_def split: if_splits prod.splits)
  then have bytes: "sn_bytes c = ps ! unat (sn_index c)" using assms(3) by (simp add: no_collision_def)
  have keep: "progress_ok m ps ?d p" if "progress_ok m ps (dl_disk dl) p" for p
    using that bytes by (auto simp: progress_ok_def)
  have new: "progress_ok m ps ?d ?p"
    using ok bytes c(1) by (auto simp: download_ok_def progress_ok_def)
  have res: "progress_ok m ps (?d\<lparr>dd_resume := x\<rparr>) p = progress_ok m ps ?d p" for x p by (simp add: progress_ok_def)
  show ?thesis
  proof (cases i2)
    case True
    then show ?thesis using new unfolding dl' by (auto simp: persist_progress_def download_ok_def res)
  next
    case False
    then show ?thesis using new ok keep unfolding dl' by (auto simp: persist_progress_def download_ok_def)
  qed
qed (use ok in simp)

text \<open>
  The histories of a download: any chunks from anybody, failing writes, and restarts. The list holds the
  chunks that were offered to the download.
\<close>

inductive download_run ::
  "externals \<Rightarrow> snapshot_codec \<Rightarrow> snapshot_manifest \<Rightarrow> snapshot_download \<Rightarrow> snapshot_chunk list \<Rightarrow> bool" for X Z m where
  opened: "download_open Z a b c m \<lparr>dd_chunks = fmempty, dd_resume = None\<rparr> = (d, Ok dl) \<Longrightarrow> download_run X Z m dl []"
| accepted: "download_run X Z m dl cs \<Longrightarrow> download_accept X Z i1 i2 c dl = (dl', r) \<Longrightarrow> download_run X Z m dl' (c # cs)"
| reopened: "download_run X Z m dl cs \<Longrightarrow> download_open Z a b c m (dl_disk dl) = (d, Ok dl') \<Longrightarrow> download_run X Z m dl' cs"

lemma download_run_ok:
  assumes "download_run X Z m dl offered" and "manifest_for X m ps" and "no_collision X ps offered" and "progress_codec Z m"
  shows "download_ok Z m ps dl"
  using assms(1,3)
proof (induction rule: download_run.induct)
  case (opened a b c d dl)
  from open_fresh_ok [OF opened.hyps] show ?case .
next
  case (accepted dl cs i1 i2 c dl' r)
  then have "no_collision X ps cs" "no_collision X ps [c]" by (auto simp: no_collision_def)
  with accept_ok [OF accepted.IH assms(2) _ accepted.hyps(2)] show ?case by blast
next
  case (reopened dl cs a b c d dl')
  from reopen_ok [OF reopened.IH [OF reopened.prems] assms(4,2) reopened.hyps(2)] show ?case .
qed

lemma inj_indices: "length ps < 2 ^ 32 \<Longrightarrow> inj_on (of_nat :: nat \<Rightarrow> u32) {0..<length ps}"
  by (intro inj_on_inverseI [where g = unat] unat_of_nat_small) simp

lemma received_indices:
  "download_ok Z m ps dl \<Longrightarrow> fset (rp_received (dl_progress dl)) \<subseteq> of_nat ` {0..<length ps}"
proof
  fix i assume "download_ok Z m ps dl" and "i \<in> fset (rp_received (dl_progress dl))"
  then have "unat i < length ps" by (auto simp: download_ok_def progress_ok_def)
  then show "i \<in> of_nat ` {0..<length ps}" by (intro image_eqI [of _ _ "unat i"]) auto
qed

lemma complete_received:
  assumes "download_ok Z m ps dl" and "manifest_for X m ps" and "is_complete dl"
  shows "fset (rp_received (dl_progress dl)) = of_nat ` {0..<length ps}"
proof (rule card_subset_eq)
  have m: "rp_manifest (dl_progress dl) = m" using assms(1) by (simp add: download_ok_def progress_ok_def)
  have inj: "inj_on (of_nat :: nat \<Rightarrow> u32) {0..<length ps}"
    using assms(2) by (intro inj_indices) (simp add: manifest_for_def)
  show "finite ((of_nat :: nat \<Rightarrow> u32) ` {0..<length ps})" by simp
  show "fset (rp_received (dl_progress dl)) \<subseteq> of_nat ` {0..<length ps}"
    by (rule received_indices [OF assms(1)])
  show "card (fset (rp_received (dl_progress dl))) = card ((of_nat :: nat \<Rightarrow> u32) ` {0..<length ps})"
    using assms(2,3) m inj by (simp add: is_complete_def manifest_for_def card_image fcard.rep_eq)
qed

lemma missing_complete:
  assumes "download_ok Z m ps dl" and "manifest_for X m ps"
  shows "missing dl = [] \<longleftrightarrow> is_complete dl"
proof
  have m: "rp_manifest (dl_progress dl) = m" using assms(1) by (simp add: download_ok_def progress_ok_def)
  assume "is_complete dl"
  from complete_received [OF assms this] show "missing dl = []"
    using assms(2) m by (auto simp: missing_def filter_empty_conv manifest_for_def)
next
  have m: "rp_manifest (dl_progress dl) = m" using assms(1) by (simp add: download_ok_def progress_ok_def)
  assume "missing dl = []"
  then have "of_nat ` {0..<length ps} \<subseteq> fset (rp_received (dl_progress dl))"
    using assms(2) m by (auto simp: missing_def filter_empty_conv manifest_for_def)
  moreover have "fset (rp_received (dl_progress dl)) \<subseteq> of_nat ` {0..<length ps}"
    by (rule received_indices [OF assms(1)])
  ultimately have "fset (rp_received (dl_progress dl)) = (of_nat :: nat \<Rightarrow> u32) ` {0..<length ps}" by blast
  then show "is_complete dl"
    using assms(2) m inj_indices [of ps] by (simp add: is_complete_def manifest_for_def card_image fcard.rep_eq)
qed

subsection \<open>Lemmas: the quorum\<close>

definition voters :: "(string, sync_tip) fmap \<Rightarrow> sync_tip \<Rightarrow> string set" where
  "voters V t = {p. fmlookup V p = Some t}"

lemma tip_key_inverse [simp]: "tip_of_key (tip_key t) = t" "tip_key (tip_of_key k) = k"
  by (cases t, simp add: tip_of_key_def tip_key_def) (cases k, simp add: tip_of_key_def tip_key_def)

lemma tip_key_eq: "tip_key t = k \<longleftrightarrow> t = tip_of_key k"
  by auto

lemma count_tips_lookup:
  "fmlookup (count_tips ts) k =
     (let n = length (filter (\<lambda>t. tip_key t = k) ts) in if n = 0 then None else Some n)"
proof (induction ts rule: rev_induct)
  case Nil
  show ?case by (simp add: count_tips_def)
next
  case (snoc t ts)
  have step: "count_tips (ts @ [t]) = fmupd (tip_key t) (get0 (count_tips ts) (tip_key t) + 1) (count_tips ts)"
    by (simp add: count_tips_def)
  show ?case using snoc by (auto simp: step get0_def Let_def filter_empty_conv)
qed

lemma length_filter_votes:
  "length (filter (\<lambda>t. tip_key t = k) (map snd (fm_entries V))) = card (voters V (tip_of_key k))"
proof -
  let ?es = "filter (\<lambda>e. tip_key (snd e) = k) (fm_entries V)"
  have "length (filter (\<lambda>t. tip_key t = k) (map snd (fm_entries V))) = length (map fst ?es)"
    by (simp add: filter_map comp_def)
  also have "\<dots> = card (set (map fst ?es))"
    by (rule distinct_card [symmetric]) (simp add: distinct_map_filter distinct_fm_entries)
  also have "set (map fst ?es) = voters V (tip_of_key k)"
    by (auto simp: voters_def in_fm_entries tip_key_eq image_iff Bex_def)
  finally show ?thesis .
qed

lemma max_by_key_sorted:
  fixes xs :: "(('a::linorder \<times> 'b::linorder) \<times> 'c) list"
  assumes "sorted (map fst xs)" and "xs \<noteq> []"
  shows "max_by_key (fst \<circ> fst) xs = Some (last xs)"
  using assms
proof (induction xs)
  case (Cons x xs)
  show ?case
  proof (cases "xs = []")
    case False
    then have "fst x \<le> fst (last xs)" using Cons.prems(1) by simp
    then have "fst (fst x) \<le> fst (fst (last xs))" by (auto simp: less_eq_prod_def)
    then show ?thesis using Cons False by simp
  qed simp
qed simp

lemma tip_observe_winner:
  fixes q :: tip_quorum and peer_id :: string and tip :: sync_tip
  assumes "1 \<le> tq_minimum_peers q"
  defines "V \<equiv> fmupd peer_id tip (tq_votes q)"
  shows "case snd (tip_observe peer_id tip q) of
      None \<Rightarrow> \<forall>t. card (voters V t) < tq_minimum_peers q
    | Some t \<Rightarrow> tq_minimum_peers q \<le> card (voters V t) \<and>
        (\<forall>t'. tq_minimum_peers q \<le> card (voters V t') \<longrightarrow> tip_key t' \<le> tip_key t)"
proof -
  let ?xs = "filter (\<lambda>(_, n). n \<ge> tq_minimum_peers q) (fm_entries (count_tips (map snd (fm_entries V))))"
  have obs: "snd (tip_observe peer_id tip q) = map_option (tip_of_key \<circ> fst) (max_by_key (fst \<circ> fst) ?xs)"
    by (simp add: tip_observe_def Let_def V_def)
  have mem: "(k, n) \<in> set ?xs \<longleftrightarrow> n = card (voters V (tip_of_key k)) \<and> tq_minimum_peers q \<le> n" for k n
    using assms(1) unfolding set_filter
    by (auto simp only: in_fm_entries count_tips_lookup length_filter_votes Let_def split: if_splits)
  have srt: "sorted (map fst ?xs)"
    by (rule sorted_filter [OF sorted_fm_entries])
  show ?thesis
  proof (cases "?xs = []")
    case True
    then have "card (voters V t) < tq_minimum_peers q" for t
      using mem [of "tip_key t" "card (voters V t)"] by (auto simp: not_le [symmetric])
    then show ?thesis using True by (simp add: obs)
  next
    case False
    let ?t = "tip_of_key (fst (last ?xs))"
    have o: "snd (tip_observe peer_id tip q) = Some ?t" using max_by_key_sorted [OF srt False] by (simp add: obs)
    have "last ?xs \<in> set ?xs" using False by (rule last_in_set)
    then have "tq_minimum_peers q \<le> card (voters V ?t)" using mem [of "fst (last ?xs)" "snd (last ?xs)"] by simp
    moreover have "tip_key t' \<le> tip_key ?t" if "tq_minimum_peers q \<le> card (voters V t')" for t'
    proof -
      have "(tip_key t', card (voters V t')) \<in> set ?xs" using that mem [of "tip_key t'" "card (voters V t')"] by simp
      then have "tip_key t' \<in> set (map fst ?xs)" by force
      from sorted_le_last [OF this srt] have "tip_key t' \<le> last (map fst ?xs)" .
      then show ?thesis using False by (simp add: last_map)
    qed
    ultimately show ?thesis by (simp add: o)
  qed
qed

subsection \<open>Properties\<close>

text \<open>
  C23: a complete download is the snapshot. A peer builds manifest and fewer than \<open>2 ^ 32\<close> chunks from a
  snapshot; the download receives chunks in any order, with repetitions, forged chunks, failing writes and
  restarts in between. As long as no chunk is missing, \<open>finish\<close> returns exactly the snapshot if all chunk
  files can be read, and an I/O error if one cannot; while a chunk is missing it returns an error. The
  compression and the JSON codecs are inverted by their decoders, and none of the offered chunks differs
  from a piece of the snapshot with the same SHA-256 digest.
\<close>
theorem snapshot_download_exact:
  assumes "manifest_build X Z ss n = Ok (m, cs)" and "length cs < 2 ^ 32"
    and "no_collision X (map sn_bytes cs) offered" and "progress_codec Z m"
    and "zc_decompress Z (zc_compress Z (zc_json Z ss)) = Some (zc_json Z ss)" and "zc_parse Z (zc_json Z ss) = Some ss"
    and "download_run X Z m dl offered"
  shows "download_finish X Z readable dl =
    (if missing dl \<noteq> [] then Err Incomplete
     else if \<forall>i < length cs. readable (of_nat i) then Ok ss
     else Err SyncIo)"
proof -
  let ?ps = "map sn_bytes cs"
  note built = manifest_build_for [OF assms(1,2)]
  have ok: "download_ok Z m ?ps dl" by (rule download_run_ok [OF assms(7) built(1) assms(3,4)])
  have m: "rp_manifest (dl_progress dl) = m" using ok by (simp add: download_ok_def progress_ok_def)
  show ?thesis
  proof (cases "is_complete dl")
    case False
    then show ?thesis using missing_complete [OF ok built(1)] by (simp add: download_finish_def Let_def)
  next
    case True
    have count: "unat (sm_chunk_count m) = length cs" using built(1) by (simp add: manifest_for_def)
    have "fmlookup (dd_chunks (dl_disk dl)) (of_nat i) = Some (?ps ! i)" if "i < length ?ps" for i
    proof -
      have "of_nat i |\<in>| rp_received (dl_progress dl)"
        using complete_received [OF ok built(1) True] that by auto
      moreover have "unat (of_nat i :: u32) = i" using that assms(2) by (intro unat_of_nat_small) simp
      ultimately show ?thesis using ok by (auto simp: download_ok_def progress_ok_def)
    qed
    then have "for_each (read_chunk readable (dl_disk dl)) (map of_nat [0..<length cs]) [] =
        (if \<forall>i < length cs. readable (of_nat i) then Ok (zc_compress Z (zc_json Z ss)) else Err SyncIo)"
      using read_chunks [of "length ?ps" "dl_disk dl" ?ps readable "[]"] built(2) by simp
    then show ?thesis
      using True missing_complete [OF ok built(1)] assms(5,6) built(3,4,5) count
      by (simp add: download_finish_def Let_def m)
  qed
qed

definition sample_snapshot :: state_snapshot where
  "sample_snapshot = \<lparr>ss_chain_id = 1, ss_height = 7, ss_block_hash = ''b'', ss_state_hash = ''s'', ss_balances = fmempty,
     ss_next_nonces = fmempty, ss_executed_events = {||}\<rparr>"

definition sync_externals :: externals where
  "sync_externals = sample_externals\<lparr>sha256 := \<lambda>bs. bs\<rparr>"

definition sync_bytes :: bytes where
  "sync_bytes = replicate 32 1"

definition sync_manifest :: snapshot_manifest where
  "sync_manifest = \<lparr>sm_snapshot_id = sync_hash sync_externals sync_bytes,
     sm_tip = \<lparr>tip_sync_height = 7, tip_block_hash = ''b'', tip_state_root = ''s''\<rparr>, sm_chunk_count = 1,
     sm_compressed_bytes = 32, sm_chunk_hashes = [sync_hash sync_externals sync_bytes]\<rparr>"

definition sync_chunk :: snapshot_chunk where
  "sync_chunk = \<lparr>sn_snapshot_id = sync_hash sync_externals sync_bytes, sn_index = 0, sn_bytes = sync_bytes\<rparr>"

text \<open>A codec for this snapshot, whose resume file tells whether the only chunk has been received.\<close>

definition sync_codec :: snapshot_codec where
  "sync_codec = \<lparr>zc_json = (\<lambda>_. sync_bytes), zc_parse = (\<lambda>_. Some sample_snapshot), zc_compress = (\<lambda>bs. bs), zc_decompress = Some,
     zc_progress = (\<lambda>p. if rp_received p = {||} then [0] else [1]),
     zc_parse_progress = (\<lambda>bs. Some \<lparr>rp_manifest = sync_manifest, rp_received = (if bs = [0] then {||} else {|0|})\<rparr>)\<rparr>"

lemma sync_build: "manifest_build sync_externals sync_codec sample_snapshot 32 = Ok (sync_manifest, [sync_chunk])"
proof -
  have "chunks 32 sync_bytes = [sync_bytes]" by (simp add: chunks.simps sync_bytes_def)
  then show ?thesis
    by (simp add: manifest_build_def Let_def sync_codec_def sync_manifest_def sync_chunk_def sample_snapshot_def)
      (simp add: sync_bytes_def)
qed

lemma sync_hash_hex: "hex_law sync_externals" "sync_hash sync_externals bs = hex_encode sync_externals bs"
  using sample_hex_law by (simp_all add: sync_externals_def hex_law_def sync_hash_def)

lemma sync_progress: "progress_codec sync_codec sync_manifest"
proof -
  have "rp_received p = {||} \<or> rp_received p = {|0|}" if "\<forall>i. i |\<in>| rp_received p \<longrightarrow> unat i < 1" for p
  proof -
    have "rp_received p |\<subseteq>| {|0|}" using that by (auto simp: unat_eq_0)
    then show ?thesis by blast
  qed
  moreover have "zc_parse_progress sync_codec (zc_progress sync_codec p) = Some p"
    if "rp_manifest p = sync_manifest" "rp_received p = {||} \<or> rp_received p = {|0|}" for p
    using that by (cases p) (auto simp: sync_codec_def)
  moreover have "length (sm_chunk_hashes sync_manifest) = 1" by (simp add: sync_manifest_def)
  ultimately show ?thesis unfolding progress_codec_def by metis
qed

theorem snapshot_download_exact_witness:
  "\<exists>dl offered. download_run sync_externals sync_codec sync_manifest dl offered \<and> length offered = 2 \<and>
     download_finish sync_externals sync_codec (\<lambda>_. True) dl = Ok sample_snapshot \<and>
     download_finish sync_externals sync_codec (\<lambda>_. False) dl = Err SyncIo"
proof -
  have "length (sync_hash sync_externals sync_bytes) = 64"
    using sync_hash_hex by (simp add: hex_law_def) (simp add: sync_bytes_def)
  then have "manifest_verify sync_manifest = Ok ()" by (simp add: manifest_verify_def sync_manifest_def)
  then obtain d dl where o: "download_open sync_codec True True True sync_manifest \<lparr>dd_chunks = fmempty, dd_resume = None\<rparr> = (d, Ok dl)"
    and dl: "dl_progress dl = \<lparr>rp_manifest = sync_manifest, rp_received = {||}\<rparr>"
    by (simp add: download_open_def persist_progress_def)
  let ?forged = "sync_chunk\<lparr>sn_bytes := []\<rparr>"
  obtain dl0 r0 where forged: "download_accept sync_externals sync_codec True True ?forged dl = (dl0, r0)" by fastforce
  obtain dl1 r where acc: "download_accept sync_externals sync_codec True True sync_chunk dl0 = (dl1, r)" by fastforce
  have sm: "sm_snapshot_id sync_manifest = sn_snapshot_id sync_chunk"
    "sm_chunk_hashes sync_manifest = [sync_hash sync_externals (sn_bytes sync_chunk)]" "sn_index sync_chunk = 0"
    by (simp_all add: sync_manifest_def sync_chunk_def)
  have inj: "x = y" if "sync_hash sync_externals x = sync_hash sync_externals y" for x y
    using that sync_hash_hex by (metis hex_law_def option.inject)
  have "sync_hash sync_externals [] \<noteq> sync_hash sync_externals (sn_bytes sync_chunk)"
    using inj [of "[]" "sn_bytes sync_chunk"] by (auto simp: sync_chunk_def sync_bytes_def)
  then have "dl0 = dl" using forged sm by (auto simp: download_accept_def Let_def dl)
  then have p: "rp_received (dl_progress dl1) = {|0|}" "rp_manifest (dl_progress dl1) = sync_manifest"
    using acc sm by (auto simp: download_accept_def Let_def dl persist_progress_def)
  have run: "download_run sync_externals sync_codec sync_manifest dl1 [sync_chunk, ?forged]"
    by (rule download_run.accepted [OF download_run.accepted [OF download_run.opened [OF o] forged] acc])
  have bind: "no_collision sync_externals (map sn_bytes [sync_chunk]) [sync_chunk, ?forged]"
    using inj by (auto simp: no_collision_def)
  have "missing dl1 = []" using p by (simp add: missing_def) (simp add: sync_manifest_def)
  moreover have "download_finish sync_externals sync_codec readable dl1 =
      (if missing dl1 \<noteq> [] then Err Incomplete
       else if \<forall>i < length [sync_chunk]. readable (of_nat i) then Ok sample_snapshot else Err SyncIo)" for readable
    by (rule snapshot_download_exact [OF sync_build _ bind sync_progress _ _ run]) (simp_all add: sync_codec_def)
  ultimately show ?thesis using run by (intro exI [of _ dl1] exI [of _ "[sync_chunk, ?forged]"]) simp
qed

text \<open>
  The tip to synchronize to is backed by a quorum. A tip is chosen only when at least the required
  number of distinct peers, never less than two, currently report this height, block hash and state root,
  no reported tip with that many peers is higher, and some tip is chosen whenever one has a quorum.
\<close>
theorem tip_quorum_sound:
  assumes "tip_quorum_new n = Ok q0" and "tq_minimum_peers q = tq_minimum_peers q0"
    and "tip_observe peer_id tip q = (q', r)"
  shows "tq_votes q' = fmupd peer_id tip (tq_votes q) \<and> tq_minimum_peers q' = n \<and> 2 \<le> n \<and>
    (case r of
       None \<Rightarrow> \<forall>t. card (voters (tq_votes q') t) < n
     | Some t \<Rightarrow> n \<le> card (voters (tq_votes q') t) \<and>
         (\<forall>t'. n \<le> card (voters (tq_votes q') t') \<longrightarrow> tip_sync_height t' \<le> tip_sync_height t))"
proof -
  have q: "tq_votes q' = fmupd peer_id tip (tq_votes q)" "tq_minimum_peers q' = n" "tq_minimum_peers q = n" "2 \<le> n"
    using assms by (auto simp: tip_quorum_new_def tip_observe_def Let_def split: if_splits)
  have "tip_sync_height t' \<le> tip_sync_height t" if "tip_key t' \<le> tip_key t" for t t'
    using that by (auto simp: tip_key_def)
  then show ?thesis
    using tip_observe_winner [of q peer_id tip] q assms(3) by (fastforce split: option.splits)
qed

theorem tip_quorum_sound_witness:
  "2 \<le> card (voters (fmupd ''b'' \<lparr>tip_sync_height = 10, tip_block_hash = ''h'', tip_state_root = ''s''\<rparr>
     (fmupd ''a'' \<lparr>tip_sync_height = 10, tip_block_hash = ''h'', tip_state_root = ''s''\<rparr> fmempty))
     \<lparr>tip_sync_height = 10, tip_block_hash = ''h'', tip_state_root = ''s''\<rparr>)"
proof -
  let ?t = "\<lparr>tip_sync_height = 10, tip_block_hash = ''h'', tip_state_root = ''s''\<rparr>"
  let ?q = "\<lparr>tq_minimum_peers = 2, tq_votes = fmupd ''a'' ?t fmempty\<rparr>"
  let ?V = "fmupd ''b'' ?t (fmupd ''a'' ?t fmempty)"
  have n: "tip_quorum_new 2 = Ok \<lparr>tq_minimum_peers = 2, tq_votes = fmempty\<rparr>" by (simp add: tip_quorum_new_def)
  obtain q' r where o: "tip_observe ''b'' ?t ?q = (q', r)" by fastforce
  from tip_quorum_sound [OF n _ o] have v: "tq_votes q' = ?V"
    and r: "case r of None \<Rightarrow> \<forall>t. card (voters ?V t) < 2 | Some t \<Rightarrow> 2 \<le> card (voters ?V t)"
    by (auto split: option.splits)
  have only: "t = ?t" if "2 \<le> card (voters ?V t)" for t
  proof (rule ccontr)
    assume "t \<noteq> ?t"
    then have "voters ?V t = {}" by (auto simp: voters_def)
    with that show False by simp
  qed
  have "voters ?V ?t = {''a'', ''b''}" by (auto simp: voters_def)
  then have "\<not> card (voters ?V ?t) < 2" by simp
  with r have "r \<noteq> None" by (auto split: option.splits)
  with r only show ?thesis by (auto split: option.splits)
qed

end
