(* ===== verification/Calendar.thy ===== *)
theory Calendar
  imports State_Store
begin

text \<open>
  The month of a time stamp (\<open>period_from_timestamp\<close> in \<open>src/archive.rs\<close>): days since 1970 are split into
  eras of 400 years, years that begin in March, and months, with integer division only. All intermediate
  values of the \<open>i64\<close> arithmetic are non-negative and far below the range of the type, so they are
  integers here.

  The lemmas compare the computation with the calendar itself: months of 28 to 31 days counted one after
  the other from January 1970.
\<close>

definition civil_month :: "int \<Rightarrow> int \<times> int" where
  "civil_month days =
     (let z = days + 719468;
          era = (if z \<ge> 0 then z else z - 146096) div 146097;
          doe = z - era * 146097;
          yoe = (doe - doe div 1460 + doe div 36524 - doe div 146096) div 365;
          year = yoe + era * 400;
          doy = doe - (365 * yoe + yoe div 4 - yoe div 100);
          mp = (5 * doy + 2) div 153;
          month = mp + (if mp < 10 then 3 else - 9)
      in (year + (if month \<le> 2 then 1 else 0), month))"

definition period_from_timestamp :: "u64 \<Rightarrow> string" where
  "period_from_timestamp timestamp =
     (case civil_month (int (unat timestamp div 86400)) of
        (year, month) \<Rightarrow> zero_pad 4 (dec_digits (nat year)) @ zero_pad 2 (dec_digits (nat month)) @ ''M'')"

subsection \<open>The calendar\<close>

definition leap_year :: "nat \<Rightarrow> bool" where
  "leap_year y \<longleftrightarrow> y mod 4 = 0 \<and> (y mod 100 \<noteq> 0 \<or> y mod 400 = 0)"

definition days_in_month :: "nat \<Rightarrow> nat \<Rightarrow> nat" where
  "days_in_month y m = (if m = 2 then if leap_year y then 29 else 28 else if m \<in> {4, 6, 9, 11} then 30 else 31)"

text \<open>The first day of the \<open>k\<close>-th month after January 1970, in days since 1970.\<close>

fun month_start :: "nat \<Rightarrow> nat" where
  "month_start 0 = 0"
| "month_start (Suc k) = month_start k + days_in_month (1970 + k div 12) (k mod 12 + 1)"

subsection \<open>Lemmas: years that begin in March\<close>

definition year_days :: "nat \<Rightarrow> nat" where
  "year_days y = 365 * y + y div 4 - y div 100 + y div 400"

definition march_start :: "nat \<Rightarrow> nat \<Rightarrow> nat" where
  "march_start y mp = year_days y + (153 * mp + 2) div 5"

lemma mod_mult_zero: "n mod (a * b) = 0 \<Longrightarrow> n mod a = 0" for n :: nat
  by (metis dvd_triv_left dvd_trans mod_eq_0_iff_dvd)

lemma div_step: "0 < k \<Longrightarrow> Suc n div k = n div k + (if Suc n mod k = 0 then 1 else 0)"
  by (simp add: div_Suc)

lemma div12: "r < 12 \<Longrightarrow> (12 * q + r) div 12 = q" "r < 12 \<Longrightarrow> (12 * q + r) mod 12 = r" for q r :: nat
  by simp_all

lemma leap_sum:
  fixes a b c y :: nat
  assumes "a' = a + (if p then 1 else 0)" and "b' = b + (if q then 1 else 0)" and "c' = c + (if r then 1 else 0)"
    and "b \<le> a" and "b' \<le> a'" and "r \<longrightarrow> q" and "q \<longrightarrow> p"
  shows "365 * Suc y + a' - b' + c' = 365 * y + a - b + c + (if p \<and> (\<not> q \<or> r) then 366 else 365)"
  using assms by (cases p; cases q; cases r) simp_all

lemma era_sum:
  fixes a b c n :: nat
  assumes "a' = a + (if p then 1 else 0)" and "b' = b + (if q then 1 else 0)" and "c' = c + (if r then 1 else 0)"
    and "a \<le> n" and "c \<le> b" and "r \<longrightarrow> q"
  shows "n - a + b - c \<le> Suc n - a' + b' - c'"
  using assms by (auto split: if_splits)

lemma year_days_Suc: "year_days (Suc y) = year_days y + (if leap_year (Suc y) then 366 else 365)"
  unfolding year_days_def leap_year_def
proof (rule leap_sum)
  show "Suc y div 4 = y div 4 + (if Suc y mod 4 = 0 then 1 else 0)"
    "Suc y div 100 = y div 100 + (if Suc y mod 100 = 0 then 1 else 0)"
    "Suc y div 400 = y div 400 + (if Suc y mod 400 = 0 then 1 else 0)" by (intro div_step; simp)+
  show "y div 100 \<le> y div 4" "Suc y div 100 \<le> Suc y div 4" by (simp_all add: div_le_mono2)
  show "Suc y mod 400 = 0 \<longrightarrow> Suc y mod 100 = 0" "Suc y mod 100 = 0 \<longrightarrow> Suc y mod 4 = 0"
    using mod_mult_zero [of "Suc y" 100 4] mod_mult_zero [of "Suc y" 4 25] by simp_all
qed

lemma year_days_mono: "y \<le> y' \<Longrightarrow> year_days y \<le> year_days y'"
  by (induction y' rule: dec_induct) (auto simp: year_days_Suc)

lemma march_month_length:
  assumes "mp < 12"
  shows "(if mp = 11 then march_start (Suc y) 0 else march_start y (Suc mp)) =
    march_start y mp + days_in_month (if mp < 10 then y else Suc y) (if mp < 10 then mp + 3 else mp - 9)"
proof -
  have "mp \<in> {0, 1, 2, 3, 4, 5, 6, 7, 8, 9, 10, 11}" using assms by (auto simp: less_Suc_eq numeral_eq_Suc)
  then show ?thesis by (auto simp: march_start_def days_in_month_def year_days_Suc)
qed

lemma march_index:
  assumes "mp < 12" and "k + 23638 = 12 * y + mp"
  shows "1970 + k div 12 = (if mp < 10 then y else Suc y) \<and> k mod 12 + 1 = (if mp < 10 then mp + 3 else mp - 9)"
proof (cases "mp < 10")
  case True
  then have "1970 \<le> y" using assms(2) by linarith
  then have k: "k = 12 * (y - 1970) + (mp + 2)" "mp + 2 < 12" using assms(2) True by linarith+
  have "k div 12 = y - 1970" "k mod 12 = mp + 2" using div12 [OF k(2), of "y - 1970"] by (simp_all only: k(1))
  then show ?thesis using True \<open>1970 \<le> y\<close> by simp
next
  case False
  then have "1969 \<le> y" using assms by linarith
  then have k: "k = 12 * (y - 1969) + (mp - 10)" "mp - 10 < 12" using assms False by linarith+
  have "k div 12 = y - 1969" "k mod 12 = mp - 10" using div12 [OF k(2), of "y - 1969"] by (simp_all only: k(1))
  then show ?thesis using False assms(1) \<open>1969 \<le> y\<close> by simp
qed

lemma march_Suc:
  "march_start (Suc i div 12) (Suc i mod 12) =
     (if i mod 12 = 11 then march_start (Suc (i div 12)) 0 else march_start (i div 12) (Suc (i mod 12)))"
  by (simp add: div_Suc mod_Suc)

lemma march_mono: "i \<le> j \<Longrightarrow> march_start (i div 12) (i mod 12) \<le> march_start (j div 12) (j mod 12)"
proof (induction j rule: dec_induct)
  case (step j)
  have "march_start (j div 12) (j mod 12) \<le> march_start (Suc j div 12) (Suc j mod 12)"
    unfolding march_Suc using march_month_length [of "j mod 12" "j div 12"] by simp
  with step show ?case by simp
qed simp

text \<open>The start of a month in both countings; January 1970 is month 10 of the year that began in March 1969.\<close>

lemma month_start_march: "month_start k + 719468 = march_start ((k + 23638) div 12) ((k + 23638) mod 12)"
proof (induction k)
  case 0
  show ?case by (simp add: march_start_def year_days_def)
next
  case (Suc k)
  define y mp where "y = (k + 23638) div 12" and "mp = (k + 23638) mod 12"
  have mp: "mp < 12" and k: "k + 23638 = 12 * y + mp" by (simp_all add: y_def mp_def)
  have y: "1970 + k div 12 = (if mp < 10 then y else Suc y)" and m: "k mod 12 + 1 = (if mp < 10 then mp + 3 else mp - 9)"
    using march_index [OF mp k] by simp_all
  have "month_start (Suc k) + 719468 = march_start y mp + days_in_month (1970 + k div 12) (k mod 12 + 1)"
    using Suc by (simp add: y_def mp_def)
  also have "\<dots> = (if mp = 11 then march_start (Suc y) 0 else march_start y (Suc mp))"
    using march_month_length [OF mp] by (simp only: y m)
  also have "\<dots> = march_start (Suc (k + 23638) div 12) (Suc (k + 23638) mod 12)"
    using march_Suc [of "k + 23638"] by (simp only: y_def mp_def)
  also have "\<dots> = march_start ((Suc k + 23638) div 12) ((Suc k + 23638) mod 12)" by (simp only: add_Suc)
  finally show ?case .
qed

subsection \<open>Lemmas: the year of an era\<close>

definition era_days :: "nat \<Rightarrow> nat" where
  "era_days doe = doe - doe div 1460 + doe div 36524 - doe div 146096"

lemma era_days_mono: "doe \<le> doe' \<Longrightarrow> era_days doe \<le> era_days doe'"
proof (induction doe' rule: dec_induct)
  case (step n)
  have "era_days n \<le> era_days (Suc n)" unfolding era_days_def
  proof (rule era_sum)
    show "Suc n div 1460 = n div 1460 + (if Suc n mod 1460 = 0 then 1 else 0)"
      "Suc n div 36524 = n div 36524 + (if Suc n mod 36524 = 0 then 1 else 0)"
      "Suc n div 146096 = n div 146096 + (if Suc n mod 146096 = 0 then 1 else 0)" by (intro div_step; simp)+
    show "n div 1460 \<le> n" "n div 146096 \<le> n div 36524" by (simp_all add: div_le_mono2)
    show "Suc n mod 146096 = 0 \<longrightarrow> Suc n mod 36524 = 0" using mod_mult_zero [of "Suc n" 36524 4] by simp
  qed
  with step show ?case by simp
qed simp

text \<open>The 400 years of an era, each checked at its first and its last day.\<close>

definition era_days_int :: "int \<Rightarrow> int" where
  "era_days_int doe = doe - doe div 1460 + doe div 36524 - doe div 146096"

definition year_days_int :: "int \<Rightarrow> int" where
  "year_days_int y = 365 * y + y div 4 - y div 100 + y div 400"

definition year_in_era :: "int \<Rightarrow> bool" where
  "year_in_era y \<longleftrightarrow> 365 * y \<le> era_days_int (year_days_int y) \<and> era_days_int (year_days_int (y + 1) - 1) < 365 * (y + 1)"

lemma years_in_era: "list_all year_in_era [0..399]"
  by code_simp

lemma era_days_int: "int (era_days n) = era_days_int (int n)"
proof -
  have "n div 1460 \<le> n" "n div 146096 \<le> n div 36524" by (simp_all add: div_le_mono2)
  then show ?thesis unfolding era_days_def era_days_int_def by (simp add: of_nat_diff zdiv_int)
qed

lemma year_days_int: "int (year_days n) = year_days_int (int n)"
proof -
  have "n div 100 \<le> n div 4" by (simp add: div_le_mono2)
  then show ?thesis unfolding year_days_def year_days_int_def by (simp add: of_nat_diff zdiv_int)
qed

lemma year_of_day:
  assumes "doe < 146097"
  obtains yoe where "yoe < 400" and "era_days doe div 365 = yoe" and "year_days yoe \<le> doe" and "doe < year_days (Suc yoe)"
proof -
  let ?P = "\<lambda>y. year_days y \<le> doe"
  define yoe where "yoe = (GREATEST y. ?P y)"
  have bound: "y < 400" if "?P y" for y
  proof (rule ccontr)
    assume "\<not> y < 400"
    then have "year_days 400 \<le> year_days y" by (intro year_days_mono) simp
    with that assms show False by (simp add: year_days_def)
  qed
  have zero: "?P 0" by (simp add: year_days_def)
  have le: "?P yoe" unfolding yoe_def by (rule GreatestI_nat [where P = ?P and k = 0 and b = 400, OF zero]) (use bound in \<open>auto dest: less_imp_le\<close>)
  have lt: "doe < year_days (Suc yoe)"
  proof (rule ccontr)
    assume "\<not> doe < year_days (Suc yoe)"
    then have "?P (Suc yoe)" by simp
    then have "Suc yoe \<le> yoe" unfolding yoe_def by (intro Greatest_le_nat [where b = 400]) (use bound in \<open>auto dest: less_imp_le\<close>)
    then show False by simp
  qed
  have "int yoe \<in> set [0..399]" using bound [OF le] by simp
  then have "year_in_era (int yoe)" using years_in_era by (auto simp: list_all_iff)
  moreover have "int (year_days (Suc yoe) - 1) = year_days_int (int yoe + 1) - 1"
    using lt year_days_int [of "Suc yoe"] by (simp add: of_nat_diff add.commute)
  ultimately have "int (365 * yoe) \<le> int (era_days (year_days yoe))"
    "int (era_days (year_days (Suc yoe) - 1)) < int (365 * Suc yoe)"
    unfolding year_in_era_def era_days_int year_days_int by simp_all
  then have "365 * yoe \<le> era_days (year_days yoe)" "era_days (year_days (Suc yoe) - 1) < 365 * Suc yoe"
    by (simp_all only: of_nat_le_iff of_nat_less_iff)
  moreover have "era_days (year_days yoe) \<le> era_days doe" "era_days doe \<le> era_days (year_days (Suc yoe) - 1)"
    using le lt by (auto intro: era_days_mono)
  ultimately have "365 * yoe \<le> era_days doe" "era_days doe < 365 * Suc yoe" by linarith+
  then have "era_days doe div 365 = yoe" by (intro div_nat_eqI) (simp_all add: mult.commute)
  with that bound [OF le] le lt show ?thesis by blast
qed

text \<open>The month in which a day falls, by the formulas of the program.\<close>

lemma month_of_day:
  fixes doy :: nat
  defines "mp \<equiv> (5 * doy + 2) div 153"
  shows "(153 * mp + 2) div 5 \<le> doy" and "doy < (153 * Suc mp + 2) div 5" and "doy < 366 \<Longrightarrow> mp < 12"
proof -
  have lo: "153 * mp \<le> 5 * doy + 2" and hi: "5 * doy + 2 < 153 * Suc mp"
    unfolding mp_def by (simp_all add: dividend_less_div_times)
  have "(153 * mp + 2) div 5 \<le> (5 * doy + 4) div 5" using lo by (intro div_le_mono) simp
  then show "(153 * mp + 2) div 5 \<le> doy" by simp
  have "(5 * doy + 5) div 5 \<le> (153 * Suc mp + 2) div 5" using hi by (intro div_le_mono) simp
  then show "doy < (153 * Suc mp + 2) div 5" by simp
  show "mp < 12" if "doy < 366" using that lo by linarith
qed

lemma civil_month_march:
  assumes "days + 719468 = z"
  obtains y mp where "mp < 12" and "march_start y mp \<le> z"
    and "z < (if mp = 11 then march_start (Suc y) 0 else march_start y (Suc mp))"
    and "civil_month (int days) = (int (if mp < 10 then y else Suc y), int (if mp < 10 then mp + 3 else mp - 9))"
proof -
  define era doe where "era = z div 146097" and "doe = z mod 146097"
  have z: "z = 146097 * era + doe" and doe: "doe < 146097" by (simp_all add: era_def doe_def)
  obtain yoe where yoe: "yoe < 400" "era_days doe div 365 = yoe" "year_days yoe \<le> doe" "doe < year_days (Suc yoe)"
    using year_of_day [OF doe] by blast
  have shift: "year_days (400 * era + y) = 146097 * era + year_days y" if "y \<le> 400" for y
  proof -
    have d: "(400 * era + y) div 4 = 100 * era + y div 4" "(400 * era + y) div 100 = 4 * era + y div 100"
      "(400 * era + y) div 400 = era + y div 400"
      using div_mult_self1 [of 4 y "100 * era"] div_mult_self1 [of 100 y "4 * era"] by (simp_all add: add.commute)
    have "y div 100 \<le> y div 4" by (simp add: div_le_mono2)
    then show ?thesis unfolding year_days_def d by (simp add: add.assoc)
  qed
  define y doy where "y = 400 * era + yoe" and "doy = doe - year_days yoe"
  define mp where "mp = (5 * doy + 2) div 153"
  have doy: "doy < 366" using yoe(3,4) year_days_Suc [of yoe] by (auto simp: doy_def split: if_splits)
  note month = month_of_day [of doy, folded mp_def]
  have start: "year_days y = 146097 * era + year_days yoe" "year_days (Suc y) = 146097 * era + year_days (Suc yoe)"
    using shift [of yoe] shift [of "Suc yoe"] yoe(1) by (simp_all add: y_def)
  have zi: "int days + 719468 = int z" using assms by simp
  have e1: "int z div 146097 = int era" by (simp add: era_def zdiv_int)
  have e2: "int z - int era * 146097 = int doe" using z by simp
  have e3: "(int doe - int doe div 1460 + int doe div 36524 - int doe div 146096) div 365 = int yoe"
    using era_days_int [of doe] yoe(2) by (simp add: era_days_int_def zdiv_int flip: yoe(2))
  have e4: "int doe - (365 * int yoe + int yoe div 4 - int yoe div 100) = int doy"
    using year_days_int [of yoe] yoe(1,3) by (simp add: year_days_int_def doy_def of_nat_diff)
  have e5: "(5 * int doy + 2) div 153 = int mp" by (simp add: mp_def zdiv_int)
  have e6: "int mp + (if int mp < 10 then 3 else - 9) = int (if mp < 10 then mp + 3 else mp - 9)"
    by (simp add: of_nat_diff)
  have e7: "int yoe + int era * 400 + (if int (if mp < 10 then mp + 3 else mp - 9) \<le> 2 then 1 else 0) = int (if mp < 10 then y else Suc y)"
    using month(3) [OF doy] by (auto simp: y_def)
  have civil: "civil_month (int days) = (int (if mp < 10 then y else Suc y), int (if mp < 10 then mp + 3 else mp - 9))"
    by (simp only: civil_month_def Let_def zi of_nat_0_le_iff if_True e1 e2 e3 e4 e5 e6 e7)
  have "march_start y mp \<le> z" using month(1) yoe(3) z start(1) by (simp add: march_start_def doy_def)
  moreover have "z < march_start y (Suc mp)" using month(2) yoe(3) z start(1) by (simp add: march_start_def doy_def)
  moreover have "z < march_start (Suc y) 0" using yoe(4) z start(2) by (simp add: march_start_def)
  ultimately show ?thesis using that [of mp y] month(3) [OF doy] civil by (simp split: if_splits)
qed

subsection \<open>Properties\<close>

text \<open>
  The month of a time stamp is its month in the Gregorian calendar. For every time stamp the
  program computes a year from 1970 on and a month from 1 to 12, and the day of the time stamp lies in
  exactly this month when the months are counted one after the other from January 1970 with their 28 to
  31 days and the leap years; the period name consists of this year and this month.
\<close>
theorem period_calendar:
  "\<exists>y m. civil_month (int (unat timestamp div 86400)) = (int y, int m) \<and> 1970 \<le> y \<and> 1 \<le> m \<and> m \<le> 12 \<and>
     (let k = 12 * (y - 1970) + (m - 1); day = unat timestamp div 86400 in
        month_start k \<le> day \<and> day < month_start (Suc k)) \<and>
     period_from_timestamp timestamp = zero_pad 4 (dec_digits y) @ zero_pad 2 (dec_digits m) @ ''M''"
proof -
  let ?day = "unat timestamp div 86400"
  obtain y mp where mp: "mp < 12" and lo: "march_start y mp \<le> ?day + 719468"
    and hi: "?day + 719468 < (if mp = 11 then march_start (Suc y) 0 else march_start y (Suc mp))"
    and civil: "civil_month (int ?day) = (int (if mp < 10 then y else Suc y), int (if mp < 10 then mp + 3 else mp - 9))"
    using civil_month_march [OF refl] by blast
  define i where "i = 12 * y + mp"
  have i: "i div 12 = y" "i mod 12 = mp" using div12 [OF mp] by (simp_all add: i_def)
  have "23638 \<le> i"
  proof (rule ccontr)
    assume "\<not> 23638 \<le> i"
    then have "march_start (Suc i div 12) (Suc i mod 12) \<le> march_start (23638 div 12) (23638 mod 12)"
      by (intro march_mono) simp
    also have "\<dots> = 719468" using month_start_march [of 0] by simp
    finally show False using hi unfolding march_Suc i by simp
  qed
  then obtain k where k: "i = k + 23638" by (metis add.commute le_Suc_ex)
  have index: "1970 + k div 12 = (if mp < 10 then y else Suc y)" "k mod 12 + 1 = (if mp < 10 then mp + 3 else mp - 9)"
    using march_index [OF mp, of k y] k by (simp_all add: i_def)
  have "month_start k + 719468 \<le> ?day + 719468" using lo i by (simp only: month_start_march flip: k)
  moreover have "?day + 719468 < month_start (Suc k) + 719468"
    using hi by (simp only: month_start_march add_Suc flip: k) (simp only: march_Suc i)
  ultimately have month: "month_start k \<le> ?day" "?day < month_start (Suc k)" by simp_all
  define yy mm where "yy = 1970 + k div 12" and "mm = k mod 12 + 1"
  have c: "civil_month (int ?day) = (int yy, int mm)" using civil by (simp only: yy_def mm_def index)
  have "12 * (yy - 1970) + (mm - 1) = k" by (simp add: yy_def mm_def)
  then have "let k = 12 * (yy - 1970) + (mm - 1) in month_start k \<le> ?day \<and> ?day < month_start (Suc k)"
    using month by (simp only: Let_def)
  moreover have "1970 \<le> yy" "1 \<le> mm" by (simp_all add: yy_def mm_def)
  moreover have "mm \<le> 12" using pos_mod_bound [of 12 "int k"] by (simp add: mm_def Suc_le_eq)
  moreover have "period_from_timestamp timestamp = zero_pad 4 (dec_digits yy) @ zero_pad 2 (dec_digits mm) @ ''M''"
    by (simp only: period_from_timestamp_def c prod.case nat_int)
  ultimately show ?thesis using c by (intro exI [of _ yy] exI [of _ mm]) (simp only: Let_def)
qed

end
