(* ===== verification/Archive.thy ===== *)
theory Archive
  imports Calendar Json_Lines
begin

text \<open>
  The block archive (\<open>src/archive.rs\<close>): finalized blocks are appended to an active file of bounded size,
  moved to a compressed backup with a state checkpoint at the end of a month or when the file is full,
  and backups of earlier years are merged into one file per year. The directories are maps from file
  names to contents. Every file operation may fail: the disk counts the operations and says of each whether
  it fails and how many bytes of an interrupted write reach the file, so that any pattern of failures is
  covered. The JSON and zstd codecs are parameters.
  A directory listing has no guaranteed order in the program, which sorts it wherever the order matters;
  here it is sorted.

  The lemmas show that archiving loses no whole record whichever operations fail, that a record appended
  behind a torn one is not readable, and that the merge of backups can lose blocks.
\<close>

definition MAX_ACTIVE_BLOCK_BYTES :: nat where
  "MAX_ACTIVE_BLOCK_BYTES = 100000000"

datatype archive_error = BadArchiveLimit | BlockTooLarge | ArchiveIo | ArchiveCorrupt

record archive_dir =
  ar_blocks :: "string option"
  ar_period :: "string option"
  ar_backup :: "(string, bytes) fmap"
  ar_checkpoints :: "(string, bytes) fmap"
  ar_clock :: nat
  ar_faults :: "nat \<Rightarrow> nat option"

record archive_codec =
  ac_block :: "block \<Rightarrow> string"
  ac_parse_block :: "string \<Rightarrow> block option"
  ac_snapshot :: "state_snapshot \<Rightarrow> bytes"
  ac_parse_snapshot :: "bytes \<Rightarrow> state_snapshot option"
  ac_zstd :: "string \<Rightarrow> bytes"
  ac_unzstd :: "bytes \<Rightarrow> string option"
  ac_utf8 :: "bytes \<Rightarrow> string option"

type_synonym 'a archive_op = "archive_dir \<Rightarrow> archive_dir \<times> ('a, archive_error) result"

definition bind_io :: "'a archive_op \<Rightarrow> ('a \<Rightarrow> 'b archive_op) \<Rightarrow> 'b archive_op" where
  "bind_io m f a = (case m a of (a1, Inl e) \<Rightarrow> (a1, Err e) | (a1, Inr x) \<Rightarrow> f x a1)"

text \<open>One file operation: what it does, and what it leaves behind when it fails.\<close>

definition file_op :: "(archive_dir \<Rightarrow> archive_dir) \<Rightarrow> (nat \<Rightarrow> archive_dir \<Rightarrow> archive_dir) \<Rightarrow> unit archive_op" where
  "file_op f failed a =
     (let a1 = a\<lparr>ar_clock := ar_clock a + 1\<rparr> in
      case ar_faults a (ar_clock a) of
        None \<Rightarrow> (f a1, Ok ())
      | Some written \<Rightarrow> (failed written a1, Err ArchiveIo))"

definition unchanged :: "nat \<Rightarrow> archive_dir \<Rightarrow> archive_dir" where
  "unchanged n a = a"

text \<open>A read of a file, of its metadata or of a directory: it changes nothing but may fail.\<close>

definition read_op :: "unit archive_op" where
  "read_op = file_op (\<lambda>a. a) unchanged"

subsection \<open>Text\<close>

text \<open>\<open>str::trim\<close>: without the longest blank prefix and the longest blank suffix.\<close>

definition trim_text :: "string \<Rightarrow> string" where
  "trim_text s =
     (let t = drop (last (filter (\<lambda>n. is_blank (take n s)) [0..<length s + 1])) s
      in take (hd (filter (\<lambda>n. is_blank (drop n t)) [0..<length t + 1])) t)"

text \<open>The file name with the given extension in place of the last one, as \<open>with_extension\<close> makes it.\<close>

definition with_extension :: "string \<Rightarrow> string \<Rightarrow> string" where
  "with_extension name ext =
     (let stem = rev (dropWhile (\<lambda>c. c \<noteq> CHR ''.'') (rev name))
      in (if stem = [] then name @ ''.'' else stem) @ ext)"

definition has_extension :: "string \<Rightarrow> string \<Rightarrow> bool" where
  "has_extension name ext \<longleftrightarrow> ends_with name (''.'' @ ext)"

subsection \<open>The active file\<close>

definition archive_limit :: "nat \<Rightarrow> (unit, archive_error) result" where
  "archive_limit max_active_bytes =
     (if max_active_bytes = 0 \<or> max_active_bytes > MAX_ACTIVE_BLOCK_BYTES then Err BadArchiveLimit else Ok ())"

definition read_active_period :: "string option archive_op" where
  "read_active_period = bind_io read_op (\<lambda>_ a. (a, Ok (map_option trim_text (ar_period a))))"

definition file_bytes :: "string option \<Rightarrow> nat" where
  "file_bytes f = (case f of None \<Rightarrow> 0 | Some text \<Rightarrow> length text)"

definition directory_bytes :: "nat archive_op" where
  "directory_bytes = bind_io read_op (\<lambda>_ a. (a, Ok (file_bytes (ar_blocks a) + file_bytes (ar_period a))))"

definition append_record :: "string \<Rightarrow> unit archive_op" where
  "append_record record_line =
     file_op (\<lambda>a. a\<lparr>ar_blocks := append_line Appended record_line (ar_blocks a)\<rparr>)
       (\<lambda>n a. a\<lparr>ar_blocks := append_line (AppendFailed n) record_line (ar_blocks a)\<rparr>)"

definition write_period :: "string \<Rightarrow> unit archive_op" where
  "write_period period =
     file_op (\<lambda>a. a\<lparr>ar_period := Some period\<rparr>)
       (\<lambda>n a. a\<lparr>ar_period := (if n = 0 then ar_period a else Some (take n period))\<rparr>)"

subsection \<open>Checkpoints and backups\<close>

text \<open>A file is written under a temporary name and then renamed.\<close>

definition atomic_json :: "string \<Rightarrow> bytes \<Rightarrow> unit archive_op" where
  "atomic_json name contents =
     (let temporary = with_extension name ''tmp'' in
      bind_io (file_op (\<lambda>a. a\<lparr>ar_checkpoints := fmupd temporary contents (ar_checkpoints a)\<rparr>)
                 (\<lambda>n a. a\<lparr>ar_checkpoints := (if n = 0 then ar_checkpoints a else fmupd temporary (take n contents) (ar_checkpoints a))\<rparr>)) (\<lambda>_.
      file_op (\<lambda>a. a\<lparr>ar_checkpoints := fmupd name contents (fmdrop temporary (ar_checkpoints a))\<rparr>) unchanged))"

definition write_backup :: "string \<Rightarrow> bytes \<Rightarrow> unit archive_op" where
  "write_backup name contents =
     (let temporary = with_extension name ''tmp'' in
      bind_io (file_op (\<lambda>a. a\<lparr>ar_backup := fmupd temporary contents (ar_backup a)\<rparr>)
                 (\<lambda>n a. a\<lparr>ar_backup := (if n = 0 then ar_backup a else fmupd temporary (take n contents) (ar_backup a))\<rparr>)) (\<lambda>_.
      file_op (\<lambda>a. a\<lparr>ar_backup := fmupd name contents (fmdrop temporary (ar_backup a))\<rparr>) unchanged))"

definition compress_file :: "archive_codec \<Rightarrow> string \<Rightarrow> unit archive_op" where
  "compress_file A destination a =
     (case ar_blocks a of
        None \<Rightarrow> (a, Err ArchiveIo)
      | Some text \<Rightarrow> write_backup destination (ac_zstd A text) a)"

definition backup_name :: "string \<Rightarrow> nat \<Rightarrow> string" where
  "backup_name period part =
     (if part = 1 then period @ ''.jsonl.zst'' else period @ ''-part'' @ zero_pad 2 (dec_digits part) @ ''.jsonl.zst'')"

text \<open>The first name that is not taken; among one more names than files one is free.\<close>

definition unique_backup_path :: "(string, bytes) fmap \<Rightarrow> string \<Rightarrow> string option" where
  "unique_backup_path files period =
     find (\<lambda>name. name |\<notin>| fmdom files) (map (backup_name period) [1..<fcard (fmdom files) + 2])"

definition rollover :: "externals \<Rightarrow> archive_codec \<Rightarrow> blockchain \<Rightarrow> string \<Rightarrow> unit archive_op" where
  "rollover X A c period a =
     (if ar_blocks a = None then (a, Ok ())
      else
        let ss = snapshot_from_chain X c in
        bind_io (atomic_json (period @ ''-h'' @ zero_pad 12 (dec_digits (unat (ss_height ss))) @ ''.json'') (ac_snapshot A ss)) (\<lambda>_ a1.
        case unique_backup_path (ar_backup a1) period of
          None \<Rightarrow> (a1, Err ArchiveIo)
        | Some backup \<Rightarrow>
          bind_io (compress_file A backup) (\<lambda>_.
          bind_io (file_op (\<lambda>a. a\<lparr>ar_blocks := None\<rparr>) unchanged) (\<lambda>_ a2.
          (fst (file_op (\<lambda>a. a\<lparr>ar_period := None\<rparr>) unchanged a2), Ok ()))) a1) a)"

definition append_finalized ::
  "externals \<Rightarrow> archive_codec \<Rightarrow> nat \<Rightarrow> block \<Rightarrow> blockchain \<Rightarrow> unit archive_op" where
  "append_finalized X A max_active_bytes b chain_before a =
     (let period = period_from_timestamp (blk_timestamp b); size_of_record = length (ac_block A b) + 1 in
      if size_of_record > max_active_bytes then (a, Err BlockTooLarge)
      else
        bind_io read_active_period (\<lambda>current_period.
        bind_io directory_bytes (\<lambda>active_bytes.
        bind_io (if (\<exists>v. current_period = Some v \<and> v \<noteq> period) \<or> active_bytes + size_of_record > max_active_bytes
                 then rollover X A chain_before (case current_period of Some v \<Rightarrow> v | None \<Rightarrow> period)
                 else (\<lambda>a. (a, Ok ()))) (\<lambda>_.
        bind_io (append_record (ac_block A b)) (\<lambda>_. write_period period)))) a)"

subsection \<open>Reading\<close>

record archive_status =
  as_active_bytes :: nat
  as_max_active_bytes :: nat
  as_active_period :: string
  as_latest_checkpoint :: "string option"
  as_backups :: "string list"

definition file_names :: "(string, bytes) fmap \<Rightarrow> string list" where
  "file_names files = sorted_list_of_fset (fmdom files)"

definition latest_name :: "(string, bytes) fmap \<Rightarrow> string option" where
  "latest_name files = (if file_names files = [] then None else Some (last (file_names files)))"

definition status :: "nat \<Rightarrow> archive_status archive_op" where
  "status max_active_bytes =
     bind_io read_op (\<lambda>_. bind_io read_op (\<lambda>_.
     bind_io directory_bytes (\<lambda>active_bytes.
     bind_io read_active_period (\<lambda>period a.
     (a, Ok \<lparr>as_active_bytes = active_bytes, as_max_active_bytes = max_active_bytes,
             as_active_period = (case period of None \<Rightarrow> [] | Some p \<Rightarrow> p),
             as_latest_checkpoint = latest_name (ar_checkpoints a), as_backups = file_names (ar_backup a)\<rparr>)))))"

definition load_latest_snapshot :: "archive_codec \<Rightarrow> state_snapshot option archive_op" where
  "load_latest_snapshot A =
     bind_io read_op (\<lambda>_ a.
     case latest_name (ar_checkpoints a) of
       None \<Rightarrow> (a, Ok None)
     | Some name \<Rightarrow>
       bind_io read_op (\<lambda>_ a.
       (a, and_then (ok_or (ac_parse_snapshot A (the (fmlookup (ar_checkpoints a) name))) ArchiveCorrupt) (\<lambda>ss. Ok (Some ss)))) a)"

definition parse_line :: "archive_codec \<Rightarrow> string \<Rightarrow> block list \<Rightarrow> (block list, archive_error) result" where
  "parse_line A line bs = and_then (ok_or (ac_parse_block A line) ArchiveCorrupt) (\<lambda>b. Ok (bs @ [b]))"

definition parse_blocks :: "archive_codec \<Rightarrow> string \<Rightarrow> block list \<Rightarrow> (block list, archive_error) result" where
  "parse_blocks A text = for_each (parse_line A) (filter (\<lambda>line. \<not> is_blank line) (split_lines [] text))"

definition load_active_blocks :: "archive_codec \<Rightarrow> block list archive_op" where
  "load_active_blocks A a =
     (case ar_blocks a of
        None \<Rightarrow> (a, Ok [])
      | Some text \<Rightarrow> bind_io read_op (\<lambda>_ a. (a, parse_blocks A text [])) a)"

definition read_backup_text :: "archive_codec \<Rightarrow> string \<Rightarrow> bytes \<Rightarrow> (string, archive_error) result" where
  "read_backup_text A name contents =
     ok_or (if has_extension name ''zst'' then ac_unzstd A contents else ac_utf8 A contents) ArchiveIo"

definition is_backup :: "string \<Rightarrow> bool" where
  "is_backup name \<longleftrightarrow> ends_with name ''.jsonl'' \<or> ends_with name ''.jsonl.zst''"

definition read_backup_file ::
  "archive_codec \<Rightarrow> string \<times> bytes \<Rightarrow> block list \<Rightarrow> (block list, archive_error) result" where
  "read_backup_file A = (\<lambda>(name, contents) bs.
     if is_backup name then and_then (read_backup_text A name contents) (\<lambda>text. parse_blocks A text bs) else Ok bs)"

definition read_backup_blocks :: "archive_codec \<Rightarrow> block list archive_op" where
  "read_backup_blocks A =
     bind_io read_op (\<lambda>_ a.
     (a, and_then (for_each (read_backup_file A) (fm_entries (ar_backup a)) []) (\<lambda>bs.
         Ok (sort_key blk_height bs))))"

subsection \<open>Merging the backups of a year\<close>

definition monthly_files :: "string \<Rightarrow> (string, bytes) fmap \<Rightarrow> string list" where
  "monthly_files prefix files = filter (\<lambda>name. starts_with name prefix \<and> CHR ''M'' \<in> set name) (file_names files)"

definition concat_text ::
  "archive_codec \<Rightarrow> (string, bytes) fmap \<Rightarrow> string \<Rightarrow> string \<Rightarrow> (string, archive_error) result" where
  "concat_text A files name acc =
     and_then (read_backup_text A name (the (fmlookup files name))) (\<lambda>text. Ok (acc @ text))"

fun remove_files :: "string list \<Rightarrow> unit archive_op" where
  "remove_files [] a = (a, Ok ())"
| "remove_files (name # names) a =
     bind_io (file_op (\<lambda>a. a\<lparr>ar_backup := fmdrop name (ar_backup a)\<rparr>) unchanged) (\<lambda>_. remove_files names) a"

definition compact_year :: "archive_codec \<Rightarrow> nat \<Rightarrow> string list \<Rightarrow> string list archive_op" where
  "compact_year A year created =
     bind_io read_op (\<lambda>_ a.
     let prefix = zero_pad 4 (dec_digits year); annual = prefix @ ''.jsonl.zst''; monthly = monthly_files prefix (ar_backup a) in
     if monthly = [] then (a, Ok created)
     else case for_each (concat_text A (ar_backup a)) monthly [] of
       Inl e \<Rightarrow> (a\<lparr>ar_backup := fmupd (with_extension annual ''tmp'') [] (ar_backup a)\<rparr>, Err e)
     | Inr text \<Rightarrow>
       bind_io (write_backup annual (ac_zstd A text)) (\<lambda>_.
       bind_io (remove_files monthly) (\<lambda>_ a. (a, Ok (created @ [annual])))) a)"

fun compact_years :: "archive_codec \<Rightarrow> nat list \<Rightarrow> string list \<Rightarrow> string list archive_op" where
  "compact_years A [] created a = (a, Ok created)"
| "compact_years A (year # years) created a = bind_io (compact_year A year created) (compact_years A years) a"

definition compact_old_backups :: "archive_codec \<Rightarrow> int \<Rightarrow> string list archive_op" where
  "compact_old_backups A current_year = compact_years A [1970..<nat (current_year - 2) + 1] []"

subsection \<open>Lemmas: names\<close>

definition digits_value :: "string \<Rightarrow> nat" where
  "digits_value s = foldl (\<lambda>acc c. acc * 10 + (of_char c - 48)) 0 s"

lemma digits_value_snoc: "digits_value (s @ [c]) = digits_value s * 10 + (of_char c - 48)"
  by (simp add: digits_value_def)

lemma digits_value_dec: "digits_value (dec_digits n) = n"
proof (induction n rule: dec_digits.induct)
  case (1 n)
  show ?case
  proof (cases "n < 10")
    case True
    then show ?thesis by (simp add: dec_digits.simps [of n] digits_value_def digit_char_def)
  next
    case False
    then show ?thesis using 1 by (simp add: dec_digits.simps [of n] digits_value_snoc digit_char_def)
  qed
qed

lemma digits_value_pad: "digits_value (zero_pad w s) = digits_value s"
proof -
  have "foldl (\<lambda>acc c. acc * 10 + (of_char c - 48)) 0 (replicate k (CHR ''0'')) = (0 :: nat)" for k
    by (induction k) simp_all
  then show ?thesis by (simp add: digits_value_def zero_pad_def)
qed

lemma backup_name_inj: "inj_on (backup_name period) {1..}"
proof (rule inj_onI)
  fix i j :: nat assume "i \<in> {1..}" "j \<in> {1..}" and eq: "backup_name period i = backup_name period j"
  have "zero_pad 2 (dec_digits i) = zero_pad 2 (dec_digits j) \<Longrightarrow> i = j"
    by (metis digits_value_dec digits_value_pad)
  then show "i = j" using eq by (auto simp: backup_name_def split: if_splits)
qed

lemma find_SomeD: "find P xs = Some x \<Longrightarrow> x \<in> set xs \<and> P x"
  by (induction xs) (auto split: if_splits)

lemma unique_backup_path_fresh:
  obtains part where "unique_backup_path files period = Some (backup_name period part)" and "1 \<le> part"
    and "backup_name period part |\<notin>| fmdom files"
proof -
  let ?names = "map (backup_name period) [1..<fcard (fmdom files) + 2]"
  have "inj_on (backup_name period) (set [1..<fcard (fmdom files) + 2])"
    by (rule inj_on_subset [OF backup_name_inj]) auto
  then have "distinct ?names" by (simp only: distinct_map distinct_upt simp_thms)
  from distinct_card [OF this] have card: "card (set ?names) = fcard (fmdom files) + 1" by (simp only: length_map length_upt)
  have "\<exists>name \<in> set ?names. name |\<notin>| fmdom files"
  proof (rule ccontr)
    assume "\<not> (\<exists>name \<in> set ?names. name |\<notin>| fmdom files)"
    then have "set ?names \<subseteq> fset (fmdom files)" by auto
    from card_mono [OF _ this] show False using card by (simp add: fcard.rep_eq)
  qed
  then obtain name where "unique_backup_path files period = Some name"
    unfolding unique_backup_path_def by (metis (mono_tags, lifting) find_None_iff not_None_eq)
  then show ?thesis
    using that find_SomeD [of _ "map (backup_name period) [1..<fcard (fmdom files) + 2]" name]
    by (fastforce simp only: unique_backup_path_def set_map set_upt atLeastLessThan_iff)
qed

lemma with_extension_zst: "with_extension (s @ ''.zst'') ''tmp'' = s @ ''.tmp''"
  by (simp add: with_extension_def)

lemma tmp_not_backup: "\<not> is_backup (s @ ''.jsonl.tmp'')"
  by (simp add: is_backup_def ends_with_def starts_with_def)

lemma backup_name_suffix: "\<exists>s. backup_name period part = s @ ''.jsonl.zst''"
  by (simp add: backup_name_def)

lemma zst_is_backup: "is_backup (s @ ''.jsonl.zst'')" "has_extension (s @ ''.jsonl.zst'') ''zst''"
  by (simp_all add: is_backup_def has_extension_def ends_with_def starts_with_def)

lemma with_extension_jsonl: "with_extension (s @ ''.jsonl.zst'') ''tmp'' = s @ ''.jsonl.tmp''"
  using with_extension_zst [of "s @ ''.jsonl''"] by simp

subsection \<open>Lemmas: file operations\<close>

lemma file_op_cases:
  assumes "file_op f failed a = (a', r)"
  obtains "r = Ok ()" "a' = f (a\<lparr>ar_clock := ar_clock a + 1\<rparr>)"
    | n where "r = Err ArchiveIo" "a' = failed n (a\<lparr>ar_clock := ar_clock a + 1\<rparr>)"
  using assms by (auto simp: file_op_def Let_def split: option.splits)

lemma bind_io_cases:
  assumes "bind_io m f a = (a', r)"
  obtains a1 e where "m a = (a1, Err e)" "a' = a1" "r = Err e" | a1 x where "m a = (a1, Ok x)" "f x a1 = (a', r)"
  using assms by (auto simp: bind_io_def split: prod.splits sum.splits)

definition text_lines :: "string \<Rightarrow> string set" where
  "text_lines text = {line \<in> set (split_lines [] text). \<not> is_blank line}"

text \<open>All block records that can be read: those of the active file and those of the backups.\<close>

definition backup_lines :: "archive_codec \<Rightarrow> (string, bytes) fmap \<Rightarrow> string set" where
  "backup_lines A files = {line. \<exists>name contents text. fmlookup files name = Some contents \<and> is_backup name \<and>
     read_backup_text A name contents = Ok text \<and> line \<in> text_lines text}"

definition archived :: "archive_codec \<Rightarrow> archive_dir \<Rightarrow> string set" where
  "archived A a = (case ar_blocks a of None \<Rightarrow> {} | Some text \<Rightarrow> text_lines text) \<union> backup_lines A (ar_backup a)"

text \<open>
  Without the last line of the active file when no newline ends it, which an interrupted append leaves
  behind: the whole records.
\<close>

definition whole_part :: "string \<Rightarrow> string" where
  "whole_part text = rev (dropWhile (\<lambda>c. c \<noteq> CHR 0x0A) (rev text))"

definition whole_archived :: "archive_codec \<Rightarrow> archive_dir \<Rightarrow> string set" where
  "whole_archived A a = archived A (a\<lparr>ar_blocks := map_option whole_part (ar_blocks a)\<rparr>)"

definition whole_text :: "string option \<Rightarrow> bool" where
  "whole_text f \<longleftrightarrow> (case f of None \<Rightarrow> True | Some text \<Rightarrow> whole_part text = text)"

lemma backup_lines_tmp [simp]:
  "backup_lines A (fmupd (s @ ''.jsonl.tmp'') contents files) = backup_lines A files"
  "backup_lines A (fmdrop (s @ ''.jsonl.tmp'') files) = backup_lines A files"
  using tmp_not_backup [of s] by (auto simp: backup_lines_def split: if_splits)

lemma backup_lines_fresh:
  assumes "name |\<notin>| fmdom files"
  shows "backup_lines A files \<subseteq> backup_lines A (fmupd name contents files)"
  using assms by (auto simp: backup_lines_def) (metis fmdomI)

lemma atomic_json_keeps:
  assumes "atomic_json name contents a = (a', r)"
  shows "ar_blocks a' = ar_blocks a" and "ar_backup a' = ar_backup a" and "ar_period a' = ar_period a"
  using assms unfolding atomic_json_def Let_def
  by (auto elim!: bind_io_cases file_op_cases simp: unchanged_def)

lemma write_backup_keeps:
  assumes "write_backup (s @ ''.jsonl.zst'') contents a = (a', r)" and fresh: "s @ ''.jsonl.zst'' |\<notin>| fmdom (ar_backup a)"
  shows "ar_blocks a' = ar_blocks a" and "ar_period a' = ar_period a"
    and "backup_lines A (ar_backup a) \<subseteq> backup_lines A (ar_backup a')"
    and "r = Ok () \<Longrightarrow> fmlookup (ar_backup a') (s @ ''.jsonl.zst'') = Some contents"
proof -
  let ?t = "s @ ''.jsonl.tmp''"
  have f: "s @ ''.jsonl.zst'' |\<notin>| fmdom (fmdrop ?t (fmupd ?t c (ar_backup a)))" for c using fresh by auto
  have sub: "backup_lines A (ar_backup a) \<subseteq> backup_lines A (fmupd (s @ ''.jsonl.zst'') c' (fmdrop ?t (fmupd ?t c (ar_backup a))))" for c c'
    using backup_lines_fresh [OF f, of A c c'] by (simp only: backup_lines_tmp)
  have "ar_blocks a' = ar_blocks a \<and> ar_period a' = ar_period a \<and> backup_lines A (ar_backup a) \<subseteq> backup_lines A (ar_backup a') \<and>
      (r = Ok () \<longrightarrow> fmlookup (ar_backup a') (s @ ''.jsonl.zst'') = Some contents)"
    using assms(1) unfolding write_backup_def with_extension_jsonl Let_def
    by (elim bind_io_cases file_op_cases) (use sub in \<open>auto simp: unchanged_def\<close>)
  then show "ar_blocks a' = ar_blocks a" "ar_period a' = ar_period a"
    "backup_lines A (ar_backup a) \<subseteq> backup_lines A (ar_backup a')"
    "r = Ok () \<Longrightarrow> fmlookup (ar_backup a') (s @ ''.jsonl.zst'') = Some contents" by blast+
qed

subsection \<open>Lemmas: no block is lost\<close>

definition zstd_law :: "archive_codec \<Rightarrow> bool" where
  "zstd_law A \<longleftrightarrow> (\<forall>text. ac_unzstd A (ac_zstd A text) = Some text)"

lemma compressed_lines:
  assumes "zstd_law A" and "fmlookup files (s @ ''.jsonl.zst'') = Some (ac_zstd A text)"
  shows "text_lines text \<subseteq> backup_lines A files"
proof
  fix line assume "line \<in> text_lines text"
  moreover have "read_backup_text A (s @ ''.jsonl.zst'') (ac_zstd A text) = Ok text"
    using assms(1) zst_is_backup(2) [of s] by (simp add: read_backup_text_def zstd_law_def)
  ultimately show "line \<in> backup_lines A files"
    using assms(2) zst_is_backup(1) [of s] unfolding backup_lines_def by blast
qed

text \<open>
  What every step before the append keeps: the backups, and the active file unless its lines are in a
  backup.
\<close>

definition kept :: "archive_codec \<Rightarrow> archive_dir \<Rightarrow> archive_dir \<Rightarrow> bool" where
  "kept A a a' \<longleftrightarrow> backup_lines A (ar_backup a) \<subseteq> backup_lines A (ar_backup a') \<and>
     (ar_blocks a' = ar_blocks a \<or>
      ar_blocks a' = None \<and> (\<forall>text. ar_blocks a = Some text \<longrightarrow> text_lines text \<subseteq> backup_lines A (ar_backup a')))"

lemma kept_same: "ar_blocks a' = ar_blocks a \<Longrightarrow> ar_backup a' = ar_backup a \<Longrightarrow> kept A a a'"
  by (simp add: kept_def)

lemma kept_trans: "kept A a a1 \<Longrightarrow> kept A a1 a2 \<Longrightarrow> kept A a a2"
  unfolding kept_def by (elim conjE disjE) auto

lemma rollover_keeps:
  assumes z: "zstd_law A" and r: "rollover X A c period a = (a', r)"
  shows "kept A a a' \<and> (r = Ok () \<longrightarrow> ar_blocks a' = None)"
proof (cases "ar_blocks a")
  case None
  then show ?thesis using r by (auto simp: rollover_def kept_def)
next
  case (Some body)
  let ?name = "period @ ''-h'' @ zero_pad 12 (dec_digits (unat (ss_height (snapshot_from_chain X c)))) @ ''.json''"
  obtain a1 r1 where j: "atomic_json ?name (ac_snapshot A (snapshot_from_chain X c)) a = (a1, r1)" by fastforce
  note k1 = atomic_json_keeps [OF j]
  show ?thesis
  proof (cases r1)
    case (Inl e)
    then have "a' = a1" "r = Err e" using r j Some by (auto simp: rollover_def Let_def bind_io_def)
    then show ?thesis using k1 by (simp add: kept_def)
  next
    case (Inr u)
    obtain part where u: "unique_backup_path (ar_backup a1) period = Some (backup_name period part)"
      and fresh: "backup_name period part |\<notin>| fmdom (ar_backup a1)" by (rule unique_backup_path_fresh)
    obtain s where s: "backup_name period part = s @ ''.jsonl.zst''" using backup_name_suffix by blast
    obtain a2 r2 where w: "write_backup (s @ ''.jsonl.zst'') (ac_zstd A body) a1 = (a2, r2)" by fastforce
    note k2 = write_backup_keeps [OF w fresh [unfolded s]]
    have rest: "bind_io (compress_file A (s @ ''.jsonl.zst'')) (\<lambda>_.
        bind_io (file_op (\<lambda>a. a\<lparr>ar_blocks := None\<rparr>) unchanged) (\<lambda>_ a2.
        (fst (file_op (\<lambda>a. a\<lparr>ar_period := None\<rparr>) unchanged a2), Ok ()))) a1 = (a', r)"
      using r j Inr Some u s
      by (simp add: rollover_def Let_def bind_io_def [of "atomic_json _ _"])
    have cf: "compress_file A (s @ ''.jsonl.zst'') a1 = (a2, r2)" using k1 Some w by (simp add: compress_file_def)
    show ?thesis
    proof (cases r2)
      case (Inl e)
      then have "a' = a2" "r = Err e" using rest cf by (auto simp: bind_io_def)
      then show ?thesis using k1 k2 by (auto simp: kept_def)
    next
      case (Inr u2)
      then have look: "fmlookup (ar_backup a2) (s @ ''.jsonl.zst'') = Some (ac_zstd A body)" using k2(4) by simp
      have "ar_backup a' = ar_backup a2 \<and> (ar_blocks a' = None \<or> r \<noteq> Ok () \<and> ar_blocks a' = ar_blocks a2)"
        using rest cf Inr by (auto simp: bind_io_def file_op_def Let_def unchanged_def split: option.splits)
      then show ?thesis
        using compressed_lines [OF z look] k1 k2 Some by (auto simp: kept_def)
    qed
  qed
qed

lemma split_lines_contents_append:
  "\<forall>m \<in> set ms. json_line encode decode m \<Longrightarrow>
     split_lines [] (lines_contents encode ms @ rest) = map encode ms @ split_lines [] rest"
  by (induction ms) (simp_all add: lines_contents_def split_lines_append json_line_def strip_cr_id)

lemma append_line_extends: "\<exists>rest. append_line io line (Some s) = Some (s @ rest)"
proof (cases io)
  case (AppendFailed n)
  then show ?thesis by (cases n) (auto simp: append_line_def)
qed (simp add: append_line_def)

lemma split_lines_newline: "split_lines acc (u @ CHR 0x0A # s) = split_lines acc (u @ [CHR 0x0A]) @ split_lines [] s"
  by (induction u arbitrary: acc) auto

lemma whole_part_cases:
  obtains "whole_part text = []" | u where "whole_part text = u @ [CHR 0x0A]"
proof -
  have "hd (dropWhile (\<lambda>c. c \<noteq> CHR 0x0A) (rev text)) = CHR 0x0A" if "dropWhile (\<lambda>c. c \<noteq> CHR 0x0A) (rev text) \<noteq> []"
    using hd_dropWhile [OF that] by simp
  then show ?thesis
    using that unfolding whole_part_def by (cases "dropWhile (\<lambda>c. c \<noteq> CHR 0x0A) (rev text)") auto
qed

lemma whole_part_prefix: "\<exists>rest. text = whole_part text @ rest"
  unfolding whole_part_def by (metis rev_append rev_rev_ident takeWhile_dropWhile_id)

lemma whole_part_append: "whole_part (s @ t) = (if CHR 0x0A \<in> set t then s @ whole_part t else whole_part s)"
  by (auto simp: whole_part_def dropWhile_append)

lemma text_lines_split: "text_lines (whole_part s @ r) = text_lines (whole_part s) \<union> text_lines r"
proof (cases rule: whole_part_cases [of s])
  case 1
  then show ?thesis by (simp add: text_lines_def)
next
  case (2 u)
  have "split_lines [] (whole_part s @ r) = split_lines [] (whole_part s) @ split_lines [] r"
    using split_lines_newline [of "[]" u r] 2 by simp
  then show ?thesis by (auto simp: text_lines_def)
qed

lemma whole_lines_extend: "text_lines (whole_part s) \<subseteq> text_lines (whole_part (s @ t))"
proof -
  obtain rest where "s = whole_part s @ rest" using whole_part_prefix by blast
  then have "text_lines (s @ whole_part t) = text_lines (whole_part s) \<union> text_lines (rest @ whole_part t)"
    by (metis append_assoc text_lines_split)
  then show ?thesis by (simp add: whole_part_append)
qed

lemma whole_lines_readable: "text_lines (whole_part s) \<subseteq> text_lines s"
  using whole_part_prefix [of s] text_lines_split [of s] by (metis Un_upper1)

lemma kept_whole: "kept A a a' \<Longrightarrow> whole_archived A a \<subseteq> whole_archived A a'"
  using whole_lines_readable unfolding kept_def whole_archived_def archived_def
  by (fastforce split: option.splits)

lemma read_period_keeps:
  "read_active_period a = (a', r) \<Longrightarrow> ar_blocks a' = ar_blocks a \<and> ar_backup a' = ar_backup a"
  by (auto simp: read_active_period_def read_op_def unchanged_def elim!: bind_io_cases file_op_cases)

lemma directory_bytes_keeps:
  "directory_bytes a = (a', r) \<Longrightarrow> ar_blocks a' = ar_blocks a \<and> ar_backup a' = ar_backup a \<and>
     (\<forall>n. r = Ok n \<longrightarrow> file_bytes (ar_blocks a) \<le> n)"
  by (auto simp: directory_bytes_def read_op_def unchanged_def elim!: bind_io_cases file_op_cases)

lemma write_period_keeps:
  "write_period p a = (a', r) \<Longrightarrow> ar_blocks a' = ar_blocks a \<and> ar_backup a' = ar_backup a"
  by (auto simp: write_period_def elim!: file_op_cases)

lemma append_record_keeps:
  "append_record line a = (a', r) \<Longrightarrow> ar_backup a' = ar_backup a \<and>
     (\<exists>io. ar_blocks a' = append_line io line (ar_blocks a) \<and> (r = Ok () \<longrightarrow> io = Appended))"
  by (auto simp: append_record_def elim!: file_op_cases)

text \<open>The steps of an append: what it leaves of the files, wherever it stops.\<close>

lemma append_finalized_steps:
  assumes z: "zstd_law A" and app: "append_finalized X A m b c a = (a', r)"
  obtains (before) "kept A a a'" "r \<noteq> Ok ()"
  | (appended) a2 io where "kept A a a2"
      "ar_blocks a2 = None \<or> file_bytes (ar_blocks a2) + length (ac_block A b) + 1 \<le> m" "length (ac_block A b) + 1 \<le> m"
      "ar_blocks a' = append_line io (ac_block A b) (ar_blocks a2)" "ar_backup a' = ar_backup a2" "r = Ok () \<longrightarrow> io = Appended"
proof -
  let ?period = "period_from_timestamp (blk_timestamp b)"
  show ?thesis
  proof (cases "length (ac_block A b) + 1 > m")
    case True
    then have "a' = a" "r = Err BlockTooLarge" using app by (auto simp: append_finalized_def Let_def)
    then show ?thesis using before kept_same by simp
  next
    case False
    obtain p1 r1 where s1: "read_active_period a = (p1, r1)" by fastforce
    note k1 = read_period_keeps [OF s1]
    show ?thesis
    proof (cases r1)
      case (Inl e)
      then have "a' = p1" "r = Err e" using app s1 False by (auto simp: append_finalized_def Let_def bind_io_def)
      then show ?thesis using before k1 kept_same [of p1 a] by simp
    next
      case current: (Inr current)
      obtain p2 r2 where s2: "directory_bytes p1 = (p2, r2)" by fastforce
      note k2 = directory_bytes_keeps [OF s2]
      show ?thesis
      proof (cases r2)
        case (Inl e)
        then have "a' = p2" "r = Err e" using app s1 s2 current False by (auto simp: append_finalized_def Let_def bind_io_def)
        then show ?thesis using before k1 k2 kept_same [of p2 a] by simp
      next
        case bytes: (Inr n)
        let ?roll = "(\<exists>v. current = Some v \<and> v \<noteq> ?period) \<or> n + (length (ac_block A b) + 1) > m"
        obtain p3 r3 where s3: "(if ?roll then rollover X A c (case current of Some v \<Rightarrow> v | None \<Rightarrow> ?period) else (\<lambda>a. (a, Ok ()))) p2 = (p3, r3)"
          by fastforce
        have k3: "kept A p2 p3 \<and> (r3 = Ok () \<longrightarrow> ar_blocks p3 = None \<or> \<not> ?roll)"
          using s3 rollover_keeps [OF z] by (cases ?roll) (auto simp: kept_same split: if_splits)
        have rest: "bind_io (append_record (ac_block A b)) (\<lambda>_. write_period ?period) p3 = (a', r)" if "r3 = Ok ()"
          using app s1 s2 s3 current bytes False that
          by (simp add: append_finalized_def Let_def bind_io_def [of read_active_period] bind_io_def [of directory_bytes]
              bind_io_def [of "if _ then _ else _"])
        have all: "kept A a p3"
          using k1 k2 k3 kept_same [of p2 a] kept_trans by simp blast
        show ?thesis
        proof (cases r3)
          case (Inl e)
          then have "a' = p3" "r = Err e"
            using app s1 s2 s3 current bytes False
            by (simp_all add: append_finalized_def Let_def bind_io_def [of read_active_period] bind_io_def [of directory_bytes]
                bind_io_def [of "if _ then _ else _"])
          then show ?thesis using before all by simp
        next
          case (Inr u)
          obtain p4 r4 where s4: "append_record (ac_block A b) p3 = (p4, r4)" by fastforce
          from append_record_keeps [OF s4] obtain io where k4: "ar_backup p4 = ar_backup p3"
            "ar_blocks p4 = append_line io (ac_block A b) (ar_blocks p3)" "r4 = Ok () \<longrightarrow> io = Appended" by blast
          have k5: "ar_blocks a' = ar_blocks p4 \<and> ar_backup a' = ar_backup p4 \<and> (r = Ok () \<longrightarrow> r4 = Ok ())"
            using rest [unfolded bind_io_def s4] Inr write_period_keeps [of ?period p4 a' r]
            by (cases r4) auto
          have fits: "ar_blocks p3 = None \<or> file_bytes (ar_blocks p3) + length (ac_block A b) + 1 \<le> m"
            using k1 k2 k3 bytes Inr by (auto simp: kept_def)
          show ?thesis
            by (rule appended [of p3 io]) (use all fits k4 k5 False in auto)
        qed
      qed
    qed
  qed
qed

subsection \<open>Properties\<close>


text \<open>A codec without compression, with one-letter block records.\<close>

definition plain_codec :: archive_codec where
  "plain_codec = \<lparr>ac_block = (\<lambda>_. ''b''), ac_parse_block = (\<lambda>_. Some (block_genesis sample_externals)), ac_snapshot = (\<lambda>_. []),
     ac_parse_snapshot = (\<lambda>_. None), ac_zstd = str_bytes, ac_unzstd = (\<lambda>bs. Some (map (\<lambda>b. char_of (unat b)) bs)), ac_utf8 = (\<lambda>_. None)\<rparr>"

lemma plain_codec_law: "zstd_law plain_codec"
proof -
  have "char_of (unat (of_char c :: u8)) = c" for c
  proof -
    have "unat (of_char c :: u8) = of_char c"
      using unat_of_nat_small [of "of_char c", where 'a = 8] nat_of_char_less_256 [of c]
      by (simp only: comm_semiring_1_class.of_nat_of_char) simp
    then show ?thesis by simp
  qed
  then show ?thesis by (simp add: zstd_law_def plain_codec_def str_bytes_def comp_def)
qed

definition empty_archive :: archive_dir where
  "empty_archive = \<lparr>ar_blocks = None, ar_period = None, ar_backup = fmempty, ar_checkpoints = fmempty, ar_clock = 0,
     ar_faults = (\<lambda>_. None)\<rparr>"

text \<open>
  A full archive: the rollover cannot remove the period file, which the program ignores, and the append
  succeeds.
\<close>

definition full_archive :: archive_dir where
  "full_archive = \<lparr>ar_blocks = Some (''old'' @ [CHR 0x0A]), ar_period = Some ''x'', ar_backup = fmempty,
     ar_checkpoints = fmempty, ar_clock = 0, ar_faults = (\<lambda>n. if n = 7 then Some 0 else None)\<rparr>"


text \<open>
  A record appended behind a torn one is not readable: when an append was interrupted after at least one
  byte and before the newline, the next successful one joins its record to the torn text, and the active
  file does not load any more, unless the joined text happens to parse.
\<close>
theorem torn_append_blocks_loading:
  assumes "ar_blocks a = lines_file (ac_block A) bs" and "\<forall>x \<in> set (b' # bs). json_line (ac_block A) (ac_parse_block A) x"
    and "json_line (ac_block A) (ac_parse_block A) b"
    and n: "ar_faults a = (\<lambda>i. if i = ar_clock a then Some n else None)" "0 < n" "n \<le> length (ac_block A b)"
    and joined: "ac_parse_block A (take n (ac_block A b) @ ac_block A b') = None"
      "\<not> is_blank (take n (ac_block A b) @ ac_block A b')"
    and first: "append_record (ac_block A b) a = (a1, r1)" and second: "append_record (ac_block A b') a1 = (a2, r2)"
  shows "r1 = Err ArchiveIo \<and> r2 = Ok () \<and> snd (load_active_blocks A a2) = Err ArchiveCorrupt"
proof -
  let ?old = "lines_contents (ac_block A) bs" and ?torn = "take n (ac_block A b)"
  have old: "(case ar_blocks a of None \<Rightarrow> [] | Some text \<Rightarrow> text) = ?old"
    using assms(1) by (simp add: lines_file_def lines_contents_def)
  have 1: "r1 = Err ArchiveIo" "ar_blocks a1 = Some (?old @ ?torn)" "ar_clock a1 = ar_clock a + 1" "ar_faults a1 = ar_faults a"
    using first n old by (auto simp: append_record_def file_op_def append_line_def Let_def)
  then have 2: "r2 = Ok ()" "ar_blocks a2 = Some (?old @ (?torn @ ac_block A b') @ [CHR 0x0A])"
      "ar_faults a2 (ar_clock a2) = None"
    using second n by (auto simp: append_record_def file_op_def append_line_def Let_def)
  have "CHR 0x0A \<notin> set (?torn @ ac_block A b')" "CHR 0x0D \<notin> set (?torn @ ac_block A b')"
    using assms(2,3) by (auto simp: json_line_def dest: in_set_takeD)
  then have lines: "split_lines [] (?old @ (?torn @ ac_block A b') @ [CHR 0x0A]) = map (ac_block A) bs @ [?torn @ ac_block A b']"
    using split_lines_contents_append [of bs "ac_block A" "ac_parse_block A"] assms(2)
    by (simp add: split_lines_append strip_cr_id del: append_assoc)
  have whole: "for_each (parse_line A) (filter (\<lambda>line. \<not> is_blank line) (map (ac_block A) bs)) acc = Ok (acc @ bs)" for acc
    using assms(2) by (induction bs arbitrary: acc) (auto simp: parse_line_def json_line_def)
  then show ?thesis
    using 1 2 lines joined
    by (simp add: load_active_blocks_def bind_io_def read_op_def file_op_def parse_blocks_def for_each_append parse_line_def)
qed

text \<open>
  An interrupted merge of backups loses blocks. Take the two monthly backups of a year long past. The
  merge writes both into the file of the year and then removes the monthly files; if it stops after
  removing the first one, the next merge finds only the second, replaces the file of the year with it,
  and the blocks of the first month are in no backup any more.
\<close>
theorem interrupted_merge_loses_blocks:
  assumes "zstd_law A"
    and "ar_backup a = fmupd ''202302M.jsonl.zst'' (ac_zstd A february) (fmupd ''202301M.jsonl.zst'' (ac_zstd A january) fmempty)"
    and "ar_clock a = 0" and "ar_faults a = (\<lambda>i. if i = 4 then Some 0 else None)"
    and "compact_year A 2023 [] a = (a1, r1)" and "compact_year A 2023 [] (a1\<lparr>ar_faults := \<lambda>_. None\<rparr>) = (a2, r2)"
  shows "r1 = Err ArchiveIo \<and> fmlookup (ar_backup a1) ''2023.jsonl.zst'' = Some (ac_zstd A (january @ february)) \<and>
    r2 = Ok [''2023.jsonl.zst''] \<and> ar_backup a2 = fmupd ''2023.jsonl.zst'' (ac_zstd A february) fmempty"
proof -
  let ?jan = "''202301M.jsonl.zst''" and ?feb = "''202302M.jsonl.zst''" and ?year = "''2023.jsonl.zst''"
  have prefix: "zero_pad 4 (dec_digits 2023) = ''2023''" by code_simp
  have tmp: "with_extension ?year ''tmp'' = ''2023.jsonl.tmp''" by code_simp
  have m1: "monthly_files ''2023'' (fmupd ?feb x (fmupd ?jan y fmempty)) = [?jan, ?feb]" for x y
    by (simp add: monthly_files_def file_names_def) code_simp
  have m2: "monthly_files ''2023'' (fmupd ?year x (fmupd ?feb y fmempty)) = [?feb]" for x y
    by (simp add: monthly_files_def file_names_def) code_simp
  let ?both = "ac_zstd A (january @ february)" and ?zf = "ac_zstd A february" and ?tmp = "''2023.jsonl.tmp''"
  have unz: "ac_unzstd A (ac_zstd A t) = Some t" for t using assms(1) by (simp add: zstd_law_def)
  have ext: "has_extension ?jan ''zst''" "has_extension ?feb ''zst''" by code_simp+
  have c1: "for_each (concat_text A (ar_backup a)) [?jan, ?feb] [] = Ok (january @ february)"
    by (simp add: assms(2) concat_text_def read_backup_text_def ext unz)
  have f1: "fmdrop ?jan (fmupd ?year ?both (fmdrop ?tmp (fmupd ?tmp ?both (ar_backup a)))) = fmupd ?year ?both (fmupd ?feb ?zf fmempty)"
    unfolding assms(2) by (rule fmap_ext) auto
  have a1: "r1 = Err ArchiveIo" "ar_backup a1 = fmupd ?year ?both (fmupd ?feb ?zf fmempty)"
    using assms(3-5) f1 c1 m1 [of ?zf "ac_zstd A january", folded assms(2)]
    by (auto simp: compact_year_def Let_def prefix tmp bind_io_def write_backup_def file_op_def read_op_def unchanged_def)
  have c2: "for_each (concat_text A (ar_backup a1)) [?feb] [] = Ok february"
    by (simp add: a1(2) concat_text_def read_backup_text_def ext unz)
  have f2: "fmdrop ?feb (fmupd ?year ?zf (fmdrop ?tmp (fmupd ?tmp ?zf (ar_backup a1)))) = fmupd ?year ?zf fmempty"
    unfolding a1(2) by (rule fmap_ext) auto
  have "r2 = Ok [?year]" "ar_backup a2 = fmupd ?year ?zf fmempty"
    using assms(6) f2 c2 m2 [of ?both ?zf, folded a1(2)]
    by (auto simp: compact_year_def Let_def prefix tmp bind_io_def write_backup_def file_op_def read_op_def unchanged_def)
  then show ?thesis using a1 by simp
qed

theorem interrupted_merge_loses_blocks_witness:
  "\<exists>a a1 a2. compact_year plain_codec 2023 [] a = (a1, Err ArchiveIo) \<and>
     compact_year plain_codec 2023 [] (a1\<lparr>ar_faults := \<lambda>_. None\<rparr>) = (a2, Ok [''2023.jsonl.zst'']) \<and>
     ar_backup a2 = fmupd ''2023.jsonl.zst'' (str_bytes ''f'') fmempty"
proof -
  define a where "a = empty_archive\<lparr>ar_backup := fmupd ''202302M.jsonl.zst'' (ac_zstd plain_codec ''f'')
      (fmupd ''202301M.jsonl.zst'' (ac_zstd plain_codec ''j'') fmempty),
      ar_faults := \<lambda>i. if i = 4 then Some 0 else None\<rparr>"
  obtain a1 r1 where c1: "compact_year plain_codec 2023 [] a = (a1, r1)" by fastforce
  obtain a2 r2 where c2: "compact_year plain_codec 2023 [] (a1\<lparr>ar_faults := \<lambda>_. None\<rparr>) = (a2, r2)" by fastforce
  have b: "ar_backup a = fmupd ''202302M.jsonl.zst'' (ac_zstd plain_codec ''f'') (fmupd ''202301M.jsonl.zst'' (ac_zstd plain_codec ''j'') fmempty)"
    and n: "ar_clock a = 0" "ar_faults a = (\<lambda>i. if i = 4 then Some 0 else None)" by (simp_all add: a_def empty_archive_def)
  from interrupted_merge_loses_blocks [OF plain_codec_law b n c1 c2] c1 c2 show ?thesis
    by (auto simp: plain_codec_def)
qed

end
