(* ===== verification/Modules.thy ===== *)
theory Modules
  imports Ledger_Properties Iterators
begin

text \<open>
  The module framework (\<open>src/modules.rs\<close>), the schedule of protocol upgrades (\<open>src/upgrade.rs\<close>) and the
  storage policies of a node (\<open>src/operations.rs\<close>). The traits \<open>AppModule\<close> and \<open>StateMigration\<close> are records
  of their methods. Reading and copying files is an argument or left out.

  The lemmas show that modules with different prefixes cannot overwrite each other's state, that the
  state root commits to the whole module state, that migrations end at the target version, and which
  protocol version is in force at a height.
\<close>

subsection \<open>Module state\<close>

datatype module_error =
    BadModuleKey | BadModule | UnknownModule | ModuleRejected string | NoMigration | MigrationNotIncreasing
  | MigrationPassedTarget | MigrationFailed string

definition BANK_PREFIX :: string where
  "BANK_PREFIX = ''bank/''"

definition STAKING_PREFIX :: string where
  "STAKING_PREFIX = ''staking/''"

definition GOVERNANCE_PREFIX :: string where
  "GOVERNANCE_PREFIX = ''governance/''"

definition IDENTITY_PREFIX :: string where
  "IDENTITY_PREFIX = ''identity/''"

definition REWARD_PREFIX :: string where
  "REWARD_PREFIX = ''reward/''"

record module_context =
  mc_chain_id :: u64
  mc_height :: u64
  mc_state :: "(string, bytes) fmap"
  mc_events :: "string list"

definition key_char :: "char \<Rightarrow> bool" where
  "key_char c \<longleftrightarrow> is_ascii_alphanumeric c \<or> c \<in> {CHR ''-'', CHR ''_'', CHR '':'', CHR ''.''}"

definition module_put ::
  "string \<Rightarrow> string \<Rightarrow> bytes \<Rightarrow> module_context \<Rightarrow> module_context \<times> (unit, module_error) result" where
  "module_put prefix key v ctx =
     (if list_all key_char key then (ctx\<lparr>mc_state := fmupd (prefix @ key) v (mc_state ctx)\<rparr>, Ok ())
      else (ctx, Err BadModuleKey))"

definition root_preimage :: "module_context \<Rightarrow> bytes" where
  "root_preimage ctx =
     concat (map (\<lambda>(key, v). to_be_bytes (of_nat (length key) :: u64) @ str_bytes key @ to_be_bytes (of_nat (length v) :: u64) @ v)
       (fm_entries (mc_state ctx)))"

definition module_state_root :: "externals \<Rightarrow> module_context \<Rightarrow> string" where
  "module_state_root X ctx = hex_encode X (sha256 X (root_preimage ctx))"

record app_module =
  am_name :: string
  am_prefix :: string
  am_validate :: "bytes \<Rightarrow> module_context \<Rightarrow> (unit, string) result"
  am_execute :: "bytes \<Rightarrow> module_context \<Rightarrow> module_context \<times> (unit, string) result"

type_synonym module_router = "(string, app_module) fmap"

definition register_module :: "app_module \<Rightarrow> module_router \<Rightarrow> (module_router, module_error) result" where
  "register_module m router =
     (if \<not> ends_with (am_prefix m) ''/'' \<or> am_name m |\<in>| fmdom router then Err BadModule
      else Ok (fmupd (am_name m) m router))"

definition dispatch_module ::
  "module_router \<Rightarrow> string \<Rightarrow> bytes \<Rightarrow> module_context \<Rightarrow> module_context \<times> (unit, module_error) result" where
  "dispatch_module router name payload ctx =
     (case fmlookup router name of
        None \<Rightarrow> (ctx, Err UnknownModule)
      | Some m \<Rightarrow>
        (case am_validate m payload ctx of
           Inl e \<Rightarrow> (ctx, Err (ModuleRejected e))
         | Inr _ \<Rightarrow>
           (case am_execute m payload ctx of (ctx', r) \<Rightarrow> (ctx', map_err ModuleRejected r))))"

record state_migration =
  mg_module :: string
  mg_source_version :: u32
  mg_to_version :: u32
  mg_migrate :: "module_context \<Rightarrow> module_context \<times> (unit, string) result"

text \<open>The loop of \<open>apply_migrations\<close>: every round raises the version.\<close>

function migrate_loop ::
  "string \<Rightarrow> u32 \<Rightarrow> u32 \<Rightarrow> state_migration list \<Rightarrow> module_context \<Rightarrow> module_context \<times> (u32, module_error) result" where
  "migrate_loop name version target migrations ctx =
     (if version < target then
        (case find (\<lambda>m. mg_module m = name \<and> mg_source_version m = version) migrations of
           None \<Rightarrow> (ctx, Err NoMigration)
         | Some m \<Rightarrow>
           if mg_to_version m \<le> version then (ctx, Err MigrationNotIncreasing)
           else (case mg_migrate m ctx of
                   (ctx', Inl e) \<Rightarrow> (ctx', Err (MigrationFailed e))
                 | (ctx', Inr _) \<Rightarrow> migrate_loop name (mg_to_version m) target migrations ctx'))
      else if version \<noteq> target then (ctx, Err MigrationPassedTarget)
      else (ctx, Ok version))"
  by pat_completeness auto
termination
  by (relation "measure (\<lambda>(_, version, target, _, _). unat target - unat version)") (auto simp: word_less_nat_alt word_le_nat_alt)

declare migrate_loop.simps [simp del]

definition apply_migrations ::
  "string \<Rightarrow> u32 \<Rightarrow> u32 \<Rightarrow> state_migration list \<Rightarrow> module_context \<Rightarrow> module_context \<times> (u32, module_error) result" where
  "apply_migrations name current target migrations ctx = migrate_loop name current target migrations ctx"

subsection \<open>Protocol upgrades\<close>

datatype upgrade_error = UpgradeIo | UpgradeCorrupt | DuplicateUpgradeHeight | ProtocolTooOld u64 u32

record protocol_upgrade =
  pu_name :: string
  pu_activation_height :: u64
  pu_protocol_version :: u32

text \<open>The schedule file may be absent, unreadable or contain a list of upgrades that may not parse.\<close>

datatype 'a file_contents = Absent | Unreadable | Contents 'a

fun same_neighbours :: "protocol_upgrade list \<Rightarrow> bool" where
  "same_neighbours (u # w # us) \<longleftrightarrow> pu_activation_height u = pu_activation_height w \<or> same_neighbours (w # us)"
| "same_neighbours _ \<longleftrightarrow> False"

definition upgrade_load ::
  "(bytes \<Rightarrow> protocol_upgrade list option) \<Rightarrow> bytes file_contents \<Rightarrow> (protocol_upgrade list, upgrade_error) result" where
  "upgrade_load decode f =
     (case f of
        Absent \<Rightarrow> Ok []
      | Unreadable \<Rightarrow> Err UpgradeIo
      | Contents bs \<Rightarrow>
        and_then (ok_or (decode bs) UpgradeCorrupt) (\<lambda>us.
        let upgrades = sort_key pu_activation_height us in
        if same_neighbours upgrades then Err DuplicateUpgradeHeight else Ok upgrades))"

definition version_at :: "protocol_upgrade list \<Rightarrow> u64 \<Rightarrow> u32" where
  "version_at upgrades height =
     (let active = map pu_protocol_version (filter (\<lambda>u. pu_activation_height u \<le> height) upgrades)
      in if active = [] then 1 else last active)"

definition ensure_supported :: "protocol_upgrade list \<Rightarrow> u64 \<Rightarrow> u32 \<Rightarrow> (unit, upgrade_error) result" where
  "ensure_supported upgrades height supported =
     (let required = version_at upgrades height in
      if required > supported then Err (ProtocolTooOld height required) else Ok ())"

subsection \<open>Storage policies\<close>

datatype operations_error = PruningLimits | ManifestIo | ManifestCorrupt | BadManifest

datatype node_storage_mode = Pruned | ArchiveMode

record pruning_policy =
  pp_mode :: node_storage_mode
  pp_keep_recent_heights :: u64
  pp_keep_checkpoint_interval :: u64

definition pruning_validate :: "pruning_policy \<Rightarrow> (unit, operations_error) result" where
  "pruning_validate p =
     (case pp_mode p of
        ArchiveMode \<Rightarrow> Ok ()
      | Pruned \<Rightarrow> if pp_keep_recent_heights p > 0 \<and> pp_keep_checkpoint_interval p > 0 then Ok () else Err PruningLimits)"

definition should_keep :: "pruning_policy \<Rightarrow> u64 \<Rightarrow> u64 \<Rightarrow> bool" where
  "should_keep p current candidate \<longleftrightarrow>
     pp_mode p = ArchiveMode \<or> saturating_add candidate (pp_keep_recent_heights p) \<ge> current \<or>
     candidate mod max (pp_keep_checkpoint_interval p) 1 = 0"

record storage_manifest =
  sf_schema_version :: u32
  sf_backend :: string
  sf_chain_id :: u64
  sf_height :: u64
  sf_state_root :: string

definition verify_restore ::
  "(bytes \<Rightarrow> storage_manifest option) \<Rightarrow> bytes option \<Rightarrow> u64 \<Rightarrow> (storage_manifest, operations_error) result" where
  "verify_restore decode contents expected_chain_id =
     and_then (ok_or contents ManifestIo) (\<lambda>bs.
     and_then (ok_or (decode bs) ManifestCorrupt) (\<lambda>m.
     if sf_schema_version m = 0 \<or> sf_chain_id m \<noteq> expected_chain_id then Err BadManifest else Ok m))"

subsection \<open>Lemmas: module state\<close>

lemma append_last_separator:
  assumes "p @ c # k = q @ c # l" and "c \<notin> set k" and "c \<notin> set l"
  shows "p = q \<and> k = l"
proof -
  have "rev k @ c # rev p = rev l @ c # rev q" using arg_cong [OF assms(1), of rev] by simp
  then have "takeWhile (\<lambda>x. x \<noteq> c) (rev k @ c # rev p) = takeWhile (\<lambda>x. x \<noteq> c) (rev l @ c # rev q)" by simp
  moreover have "takeWhile (\<lambda>x. x \<noteq> c) (rev k @ c # rev p) = rev k" "takeWhile (\<lambda>x. x \<noteq> c) (rev l @ c # rev q) = rev l"
    using assms(2,3) by (auto simp: takeWhile_append)
  ultimately have "rev k = rev l" by simp
  with assms(1) show ?thesis by simp
qed

lemma ends_with_char: "ends_with s [c] \<longleftrightarrow> (\<exists>t. s = t @ [c])"
  by (cases s rule: rev_cases) (auto simp: ends_with_def starts_with_def)

lemma slash_not_key: "list_all key_char key \<Longrightarrow> CHR ''/'' \<notin> set key"
  by (auto simp: list_all_iff key_char_def is_ascii_alphanumeric_def is_ascii_digit_def less_eq_char_def)

lemma module_key_unique:
  assumes "ends_with p ''/''" and "ends_with q ''/''" and "list_all key_char k" and "list_all key_char l" and "p @ k = q @ l"
  shows "p = q \<and> k = l"
proof -
  obtain p' q' where "p = p' @ ''/''" "q = q' @ ''/''" using assms(1,2) ends_with_char by metis
  then show ?thesis
    using append_last_separator [of p' "CHR ''/''" k q' l] assms(3-5) slash_not_key by auto
qed

text \<open>A byte string after its length can be cut off from what follows it.\<close>

definition sized :: "bytes \<Rightarrow> bytes" where
  "sized bs = to_be_bytes (of_nat (length bs) :: u64) @ bs"

lemma sized_append:
  assumes "sized a @ r = sized b @ t" and "length a < 2 ^ 64" and "length b < 2 ^ 64"
  shows "a = b \<and> r = t"
proof -
  have "to_be_bytes (of_nat (length a) :: u64) = to_be_bytes (of_nat (length b) :: u64)" and rest: "a @ r = b @ t"
    using assms(1) by (auto simp: sized_def append_eq_append_conv)
  then have "(of_nat (length a) :: u64) = of_nat (length b)" by simp
  then have "unat (of_nat (length a) :: u64) = unat (of_nat (length b) :: u64)" by simp
  moreover have "unat (of_nat (length a) :: u64) = length a" "unat (of_nat (length b) :: u64) = length b"
    using assms(2,3) by (auto intro!: unat_of_nat_small)
  ultimately have "length a = length b" by simp
  with rest show ?thesis by simp
qed

definition entry_bytes :: "string \<times> bytes \<Rightarrow> bytes" where
  "entry_bytes = (\<lambda>(key, v). sized (str_bytes key) @ sized v)"

lemma entry_bytes_nonempty [simp]: "entry_bytes e \<noteq> []" "[] \<noteq> entry_bytes e"
proof -
  have "8 \<le> length (entry_bytes e)" by (cases e) (simp add: entry_bytes_def sized_def)
  then show "entry_bytes e \<noteq> []" "[] \<noteq> entry_bytes e" by auto
qed

lemma root_preimage_entries: "root_preimage ctx = concat (map entry_bytes (fm_entries (mc_state ctx)))"
  by (simp add: root_preimage_def entry_bytes_def sized_def case_prod_beta')

definition small_entry :: "string \<times> bytes \<Rightarrow> bool" where
  "small_entry = (\<lambda>(key, v). length key < 2 ^ 64 \<and> length v < 2 ^ 64)"

lemma entries_injective:
  "concat (map entry_bytes es) = concat (map entry_bytes fs) \<Longrightarrow> list_all small_entry es \<Longrightarrow> list_all small_entry fs \<Longrightarrow> es = fs"
proof (induction es arbitrary: fs)
  case Nil
  then show ?case by (cases fs) auto
next
  case (Cons e es)
  obtain f fs' where fs: "fs = f # fs'"
    using Cons.prems(1) by (cases fs) auto
  obtain k v l w where e: "e = (k, v)" "f = (l, w)" by (cases e; cases f)
  have eq: "sized (str_bytes k) @ sized v @ concat (map entry_bytes es) = sized (str_bytes l) @ sized w @ concat (map entry_bytes fs')"
    using Cons.prems(1) by (simp add: fs e entry_bytes_def)
  from sized_append [OF this] Cons.prems(2,3)
  have "str_bytes k = str_bytes l" and rest: "sized v @ concat (map entry_bytes es) = sized w @ concat (map entry_bytes fs')"
    by (auto simp: fs e small_entry_def)
  moreover from sized_append [OF rest] Cons.prems(2,3)
  have "v = w" and "concat (map entry_bytes es) = concat (map entry_bytes fs')" by (auto simp: fs e small_entry_def)
  ultimately show ?case using Cons by (simp add: fs e)
qed

lemma fm_entries_inj: "fm_entries m = fm_entries n \<Longrightarrow> m = n"
  by (rule fmap_ext) (metis map_of_fm_entries)

subsection \<open>Lemmas: upgrades\<close>

lemma same_neighbours_sorted:
  "sorted (map pu_activation_height us) \<Longrightarrow> \<not> same_neighbours us \<longleftrightarrow> distinct (map pu_activation_height us)"
proof (induction us rule: same_neighbours.induct)
  case (1 u w us)
  have "pu_activation_height u \<noteq> pu_activation_height x"
    if "x \<in> set (w # us)" "pu_activation_height u \<noteq> pu_activation_height w" for x
    using 1(2) that by fastforce
  then show ?case using 1 by (auto simp: image_iff)
qed simp_all

subsection \<open>Properties\<close>

text \<open>
  Modules cannot overwrite each other's state. For two different prefixes that end in a slash, as the
  router requires, a successful write under one of them changes no value under the other, whatever the
  keys, and stores the value under its own key.
\<close>
theorem module_namespaces_disjoint:
  assumes "ends_with p ''/''" and "ends_with q ''/''" and "p \<noteq> q" and "list_all key_char l"
    and "module_put p k v ctx = (ctx', Ok ())"
  shows "fmlookup (mc_state ctx') (q @ l) = fmlookup (mc_state ctx) (q @ l) \<and> fmlookup (mc_state ctx') (p @ k) = Some v"
proof -
  have k: "list_all key_char k" and ctx': "mc_state ctx' = fmupd (p @ k) v (mc_state ctx)"
    using assms(5) by (auto simp: module_put_def split: if_splits)
  have "p @ k \<noteq> q @ l" using module_key_unique [OF assms(1,2) k assms(4)] assms(3) by blast
  then show ?thesis by (simp add: ctx')
qed

text \<open>
  The module state root commits to the state. Two contexts whose root preimages are equal have the
  same keys with the same values; keys and values are shorter than 2 to the 64 bytes.
\<close>
theorem module_root_injective:
  assumes "root_preimage ctx = root_preimage ctx'"
    and "list_all small_entry (fm_entries (mc_state ctx))" and "list_all small_entry (fm_entries (mc_state ctx'))"
  shows "mc_state ctx = mc_state ctx'"
  using entries_injective [OF _ assms(2,3)] assms(1) by (intro fm_entries_inj) (simp add: root_preimage_entries)

text \<open>
  Migrations end at the target version or report an error. The loop ends for every list of
  migrations; when it succeeds the version is the target; it succeeds from a lower version only through a
  migration of this module from exactly that version to a higher one, and a target that has been reached
  or passed runs no migration at all.
\<close>
theorem migrations_reach_target:
  "(case apply_migrations name current target migrations ctx of
      (ctx', Inr v) \<Rightarrow> v = target \<and> current \<le> target \<and>
        (current < target \<longrightarrow> (\<exists>m \<in> set migrations. mg_module m = name \<and> mg_source_version m = current \<and> current < mg_to_version m \<and>
           mg_to_version m \<le> target))
    | (ctx', Inl e) \<Rightarrow> target \<le> current \<longrightarrow> ctx' = ctx \<and> e = MigrationPassedTarget \<and> target < current)"
  unfolding apply_migrations_def
proof (induction name current target migrations ctx rule: migrate_loop.induct)
  case (1 name version target migrations ctx)
  show ?case
  proof (cases "version < target")
    case False
    then show ?thesis by (auto simp: migrate_loop.simps [of name version])
  next
    case less: True
    show ?thesis
    proof (cases "find (\<lambda>m. mg_module m = name \<and> mg_source_version m = version) migrations")
      case None
      then show ?thesis using less by (simp add: migrate_loop.simps [of name version])
    next
      case (Some m)
      then have m: "m \<in> set migrations" "mg_module m = name" "mg_source_version m = version"
        by (auto simp: find_Some_iff)
      obtain ctx1 r1 where run: "mg_migrate m ctx = (ctx1, r1)" by fastforce
      show ?thesis
      proof (cases "mg_to_version m \<le> version \<or> (\<exists>e. r1 = Inl e)")
        case True
        then show ?thesis using less Some run by (auto simp: migrate_loop.simps [of name version])
      next
        case False
        then obtain u where r1: "r1 = Inr u" and up: "\<not> mg_to_version m \<le> version" by (cases r1) auto
        have step: "migrate_loop name version target migrations ctx = migrate_loop name (mg_to_version m) target migrations ctx1"
          using less Some run r1 up by (simp add: migrate_loop.simps [of name version])
        from "1.IH" [OF less Some up run [symmetric] r1] show ?thesis
          unfolding step using less m up by (auto split: prod.splits sum.splits simp: not_le)
      qed
    qed
  qed
qed

text \<open>
  The protocol version at a height. A schedule that loads has no two upgrades at one height; the
  version in force is that of the upgrade with the greatest activation height not above the given one,
  and 1 before the first; the order of the upgrades in the file does not matter.
\<close>
theorem upgrade_version_in_force:
  assumes "upgrade_load decode (Contents bs) = Ok us" and "decode bs = Some file_upgrades"
  shows "mset us = mset file_upgrades \<and> distinct (map pu_activation_height us) \<and>
    (if \<exists>u \<in> set us. pu_activation_height u \<le> h
     then \<exists>u \<in> set us. pu_activation_height u \<le> h \<and> version_at us h = pu_protocol_version u \<and>
       (\<forall>w \<in> set us. pu_activation_height w \<le> h \<longrightarrow> pu_activation_height w \<le> pu_activation_height u)
     else version_at us h = 1)"
proof -
  have us: "us = sort_key pu_activation_height file_upgrades" "\<not> same_neighbours us"
    using assms by (auto simp: upgrade_load_def Let_def split: if_splits)
  then have srt: "sorted (map pu_activation_height us)" by simp
  then have d: "distinct (map pu_activation_height us)" using same_neighbours_sorted us(2) by blast
  let ?act = "filter (\<lambda>u. pu_activation_height u \<le> h) us"
  have "\<exists>u \<in> set us. pu_activation_height u \<le> h \<and> version_at us h = pu_protocol_version u \<and>
       (\<forall>w \<in> set us. pu_activation_height w \<le> h \<longrightarrow> pu_activation_height w \<le> pu_activation_height u)" if "?act \<noteq> []"
  proof (intro bexI conjI ballI impI)
    have l: "last ?act \<in> set ?act" using that by (rule last_in_set)
    then show "last ?act \<in> set us" "pu_activation_height (last ?act) \<le> h" by auto
    show "version_at us h = pu_protocol_version (last ?act)" using that by (simp add: version_at_def last_map)
    fix w assume w: "w \<in> set us" "pu_activation_height w \<le> h"
    have "sorted (map pu_activation_height ?act)" using srt by (rule sorted_filter)
    moreover have "pu_activation_height w \<in> set (map pu_activation_height ?act)" using w by auto
    ultimately have "pu_activation_height w \<le> last (map pu_activation_height ?act)" by (rule sorted_le_last [rotated])
    then show "pu_activation_height w \<le> pu_activation_height (last ?act)" using that by (simp add: last_map)
  qed
  moreover have "?act = [] \<longleftrightarrow> \<not> (\<exists>u \<in> set us. pu_activation_height u \<le> h)" by (auto simp: filter_empty_conv)
  ultimately show ?thesis using d us(1) by (auto simp: version_at_def)
qed

end
