(* ===== verification/Keystore.thy ===== *)
theory Keystore
  imports Archive Snapshot_Sync
begin

text \<open>
  Private keys on disk: the encrypted account keystore (\<open>src/keystore.rs\<close>), the encrypted node wallet
  (\<open>src/node_wallet_keystore.rs\<close>), plain validator key files (\<open>src/validator_key.rs\<close>) and the libp2p key
  (\<open>src/node_key.rs\<close>). The two encrypted stores use the same construction with different labels: a key
  derived from the password by iterated hashing, a hash stream that is xored with the secret, and a hash
  over key, nonce and ciphertext as authentication code. Random bytes and fresh keys are arguments, the
  JSON codec and the two key formats are parameters, and file operations may fail at any point.
\<close>

datatype keystore_error =
  ShortPassword | KeystoreMissing | KeystoreCorrupt | WeakKeystore | FieldNotHex | FieldLength
  | CiphertextNotHex | WrongPassword | KeyLength | BadPrivateKey | AddressMismatch | KeystoreIo
  | PasswordFileMissing | PasswordFileLeft | ReplaceVerifyFailed | ReencryptMismatch
  | FileExists | NoValidatorKeys | ZeroPower | DuplicateValidatorKey string

subsection \<open>Sealed documents\<close>

definition KDF_ROUNDS :: u32 where
  "KDF_ROUNDS = 200000"

record keystore_file =
  kf_version :: u32
  kf_address :: string
  kf_salt :: string
  kf_nonce :: string
  kf_ciphertext :: string
  kf_mac :: string
  kf_kdf_rounds :: u32

definition derive_key :: "externals \<Rightarrow> string \<Rightarrow> bytes \<Rightarrow> bytes \<Rightarrow> u32 \<Rightarrow> bytes" where
  "derive_key X label password salt rounds =
     fold (\<lambda>r key. sha256 X (key @ salt @ to_be_bytes (of_nat r :: u32))) [1..<unat rounds]
       (sha256 X (str_bytes label @ salt @ password))"

definition crypt :: "externals \<Rightarrow> string \<Rightarrow> bytes \<Rightarrow> bytes \<Rightarrow> bytes \<Rightarrow> bytes" where
  "crypt X label input key nonce =
     concat (map (\<lambda>(counter, chunk).
         map2 (\<lambda>left right. xor left right) chunk
           (sha256 X (str_bytes label @ key @ nonce @ to_be_bytes (of_nat counter :: u64))))
       (List.enumerate 0 (chunks 32 input)))"

definition calculate_mac :: "externals \<Rightarrow> string \<Rightarrow> bytes \<Rightarrow> bytes \<Rightarrow> bytes \<Rightarrow> bytes" where
  "calculate_mac X label key nonce ciphertext = sha256 X (str_bytes label @ key @ nonce @ ciphertext)"

definition decode_32 :: "externals \<Rightarrow> string \<Rightarrow> (bytes, keystore_error) result" where
  "decode_32 X v =
     and_then (ok_or (hex_decode X v) FieldNotHex) (\<lambda>bs.
     and_then (ensure (length bs = 32) FieldLength) (\<lambda>_. Ok bs))"

text \<open>The labels that separate the uses of the hash function in one store.\<close>

record labels =
  lb_kdf :: string
  lb_stream :: string
  lb_mac :: string

definition account_labels :: labels where
  "account_labels = \<lparr>lb_kdf = ''IEUM-KEYSTORE-KDF-V1'', lb_stream = ''IEUM-KEYSTORE-STREAM-V1'', lb_mac = ''IEUM-KEYSTORE-MAC-V1''\<rparr>"

definition node_labels :: labels where
  "node_labels = \<lparr>lb_kdf = ''IEUM-NODE-WALLET-KDF-V1'', lb_stream = ''IEUM-NODE-WALLET-STREAM-V1'', lb_mac = ''IEUM-NODE-WALLET-MAC-V1''\<rparr>"

definition seal_document ::
  "externals \<Rightarrow> labels \<Rightarrow> bytes \<Rightarrow> address \<Rightarrow> string \<Rightarrow> bytes \<Rightarrow> bytes \<Rightarrow> keystore_file" where
  "seal_document X L plaintext address password salt nonce =
     (let key = derive_key X (lb_kdf L) (str_bytes password) salt KDF_ROUNDS;
          ciphertext = crypt X (lb_stream L) plaintext key nonce;
          mac = calculate_mac X (lb_mac L) key nonce ciphertext
      in \<lparr>kf_version = 1, kf_address = address, kf_salt = hex_encode X salt, kf_nonce = hex_encode X nonce,
          kf_ciphertext = hex_encode X ciphertext, kf_mac = hex_encode X mac, kf_kdf_rounds = KDF_ROUNDS\<rparr>)"

definition open_document ::
  "externals \<Rightarrow> labels \<Rightarrow> (bytes \<Rightarrow> ('w, keystore_error) result) \<Rightarrow> ('w \<Rightarrow> address) \<Rightarrow> keystore_file \<Rightarrow> string
     \<Rightarrow> ('w, keystore_error) result" where
  "open_document X L wallet_of address_of doc password =
     and_then (ensure (\<not> (kf_version doc \<noteq> 1 \<or> kf_kdf_rounds doc < KDF_ROUNDS)) WeakKeystore) (\<lambda>_.
     and_then (decode_32 X (kf_salt doc)) (\<lambda>salt.
     and_then (decode_32 X (kf_nonce doc)) (\<lambda>nonce.
     and_then (ok_or (hex_decode X (kf_ciphertext doc)) CiphertextNotHex) (\<lambda>ciphertext.
     and_then (decode_32 X (kf_mac doc)) (\<lambda>expected_mac.
     let key = derive_key X (lb_kdf L) (str_bytes password) salt (kf_kdf_rounds doc) in
     and_then (ensure (calculate_mac X (lb_mac L) key nonce ciphertext = expected_mac) WrongPassword) (\<lambda>_.
     let plaintext = crypt X (lb_stream L) ciphertext key nonce in
     and_then (ensure (length plaintext = 32) KeyLength) (\<lambda>_.
     and_then (wallet_of plaintext) (\<lambda>wallet.
     and_then (ensure (address_of wallet = kf_address doc) AddressMismatch) (\<lambda>_. Ok wallet)))))))))"

subsection \<open>Key formats\<close>

text \<open>What the signature libraries make of 32 secret bytes, and the bytes of a key.\<close>

record key_externals =
  kx_account :: "bytes \<Rightarrow> account_wallet option"
  kx_account_bytes :: "account_wallet \<Rightarrow> bytes"
  kx_wallet :: "bytes \<Rightarrow> wallet"
  kx_wallet_bytes :: "wallet \<Rightarrow> bytes"

record keystore_codec =
  kc_json :: "keystore_file \<Rightarrow> bytes"
  kc_parse :: "bytes \<Rightarrow> keystore_file option"

definition from_private_key :: "key_externals \<Rightarrow> bytes \<Rightarrow> (account_wallet, keystore_error) result" where
  "from_private_key K bs = ok_or (kx_account K bs) BadPrivateKey"

definition from_private_key_hex :: "externals \<Rightarrow> key_externals \<Rightarrow> string \<Rightarrow> (account_wallet, keystore_error) result" where
  "from_private_key_hex X K v =
     and_then (ok_or (hex_decode X (trim_start_0x v)) FieldNotHex) (\<lambda>bs.
     and_then (ensure (length bs = 32) KeyLength) (\<lambda>_. from_private_key K bs))"

subsection \<open>Account keystore\<close>

text \<open>The files of the keystore directory by name.\<close>

type_synonym keystore = "(string, bytes) fmap"

datatype atomic_io = AtomicDone | TemporaryFailed nat | RenameFailed

definition path_for :: "address \<Rightarrow> string" where
  "path_for a = to_ascii_lowercase (trim_start_0x a) @ ''.json''"

definition validate_password :: "string \<Rightarrow> (unit, keystore_error) result" where
  "validate_password password = ensure (10 \<le> length password) ShortPassword"

definition keystore_atomic_write :: "atomic_io \<Rightarrow> string \<Rightarrow> bytes \<Rightarrow> keystore \<Rightarrow> keystore \<times> (unit, keystore_error) result" where
  "keystore_atomic_write io path bs dir =
     (let temporary = with_extension path ''tmp'' in
      case io of
        AtomicDone \<Rightarrow> (fmupd path bs (fmdrop temporary dir), Ok ())
      | TemporaryFailed n \<Rightarrow> (fmupd temporary (take n bs) dir, Err KeystoreIo)
      | RenameFailed \<Rightarrow> (fmupd temporary bs dir, Err KeystoreIo))"

definition keystore_store ::
  "externals \<Rightarrow> key_externals \<Rightarrow> keystore_codec \<Rightarrow> atomic_io \<Rightarrow> bytes \<Rightarrow> bytes \<Rightarrow> account_wallet \<Rightarrow> string \<Rightarrow> keystore
     \<Rightarrow> keystore \<times> (address, keystore_error) result" where
  "keystore_store X K C io salt nonce wallet password dir =
     (case validate_password password of
        Inl e \<Rightarrow> (dir, Err e)
      | Inr _ \<Rightarrow>
        (let a = account_address X wallet;
             document = seal_document X account_labels (kx_account_bytes K wallet) a password salt nonce
         in case keystore_atomic_write io (path_for a) (kc_json C document) dir of
              (dir', Inl e) \<Rightarrow> (dir', Err e)
            | (dir', Inr _) \<Rightarrow> (dir', Ok a)))"

definition keystore_load ::
  "externals \<Rightarrow> key_externals \<Rightarrow> keystore_codec \<Rightarrow> keystore \<Rightarrow> address \<Rightarrow> string \<Rightarrow> (account_wallet, keystore_error) result" where
  "keystore_load X K C dir a password =
     and_then (ok_or (fmlookup dir (path_for a)) KeystoreMissing) (\<lambda>bs.
     and_then (ok_or (kc_parse C bs) KeystoreCorrupt) (\<lambda>document.
     open_document X account_labels (from_private_key K) (account_address X) document password))"

definition addresses :: "keystore \<Rightarrow> address list" where
  "addresses dir =
     sort (map (\<lambda>name. ''0x'' @ trim_start_0x (take (length name - 5) name))
             (filter (\<lambda>name. 5 < length name \<and> has_extension name ''json'') (map fst (fm_entries dir))))"

subsection \<open>Node wallet\<close>

record node_wallet_files =
  nw_store :: "bytes option"
  nw_temporary :: "bytes option"
  nw_password :: "string option"

text \<open>
  The outcome of a replacement: done, or failed at the creation of the temporary file, at its writing (after
  so many bytes), at its reading for the check, or at the renaming.
\<close>

datatype replace_io = ReplaceDone | ReplaceOpenFailed | ReplaceWriteFailed nat | ReplaceReadFailed | ReplaceRenameFailed

text \<open>The outcomes of a change: of the first reading of the store, its replacement and the reading of the new one.\<close>

record change_io =
  ch_read :: bool
  ch_replace :: replace_io
  ch_read_back :: bool

definition change_done :: change_io where
  "change_done = \<lparr>ch_read = True, ch_replace = ReplaceDone, ch_read_back = True\<rparr>"

definition node_wallet_load ::
  "externals \<Rightarrow> key_externals \<Rightarrow> keystore_codec \<Rightarrow> bytes option \<Rightarrow> string \<Rightarrow> (wallet, keystore_error) result" where
  "node_wallet_load X K C contents password =
     and_then (ok_or contents KeystoreMissing) (\<lambda>bs.
     and_then (ok_or (kc_parse C bs) KeystoreCorrupt) (\<lambda>doc.
     open_document X node_labels (\<lambda>seed. Ok (kx_wallet K seed)) (wallet_address X) doc password))"

definition atomic_verified_replace ::
  "externals \<Rightarrow> key_externals \<Rightarrow> keystore_codec \<Rightarrow> replace_io \<Rightarrow> bytes \<Rightarrow> string \<Rightarrow> address \<Rightarrow> node_wallet_files
     \<Rightarrow> node_wallet_files \<times> (unit, keystore_error) result" where
  "atomic_verified_replace X K C io bs password a fs =
     (case io of
        ReplaceOpenFailed \<Rightarrow> (fs, Err KeystoreIo)
      | ReplaceWriteFailed n \<Rightarrow> (fs\<lparr>nw_temporary := Some (take n bs)\<rparr>, Err KeystoreIo)
      | _ \<Rightarrow>
        (let fs1 = fs\<lparr>nw_temporary := Some bs\<rparr> in
         case node_wallet_load X K C (if io = ReplaceReadFailed then None else nw_temporary fs1) password of
           Inl e \<Rightarrow> (fs1, Err e)
         | Inr w \<Rightarrow>
           if wallet_address X w \<noteq> a then (fs1\<lparr>nw_temporary := None\<rparr>, Err ReplaceVerifyFailed)
           else if io = ReplaceRenameFailed then (fs1, Err KeystoreIo)
           else (fs1\<lparr>nw_store := Some bs, nw_temporary := None\<rparr>, Ok ())))"

definition node_wallet_store ::
  "externals \<Rightarrow> key_externals \<Rightarrow> keystore_codec \<Rightarrow> replace_io \<Rightarrow> bytes \<Rightarrow> bytes \<Rightarrow> wallet \<Rightarrow> string \<Rightarrow> node_wallet_files
     \<Rightarrow> node_wallet_files \<times> (unit, keystore_error) result" where
  "node_wallet_store X K C io salt nonce w password fs =
     (if length password < 10 then (fs, Err ShortPassword)
      else
        let doc = seal_document X node_labels (kx_wallet_bytes K w) (wallet_address X w) password salt nonce
        in atomic_verified_replace X K C io (kc_json C doc) password (wallet_address X w) fs)"

definition change_password ::
  "externals \<Rightarrow> key_externals \<Rightarrow> keystore_codec \<Rightarrow> change_io \<Rightarrow> bytes \<Rightarrow> bytes \<Rightarrow> string \<Rightarrow> string \<Rightarrow> node_wallet_files
     \<Rightarrow> node_wallet_files \<times> (unit, keystore_error) result" where
  "change_password X K C io salt nonce old new fs =
     (case node_wallet_load X K C (if ch_read io then nw_store fs else None) old of
        Inl e \<Rightarrow> (fs, Err e)
      | Inr w \<Rightarrow>
        (case node_wallet_store X K C (ch_replace io) salt nonce w new fs of
           (fs1, Inl e) \<Rightarrow> (fs1, Err e)
         | (fs1, Inr _) \<Rightarrow>
           (fs1, and_then (node_wallet_load X K C (if ch_read_back io then nw_store fs1 else None) new) (\<lambda>w1.
                 ensure (wallet_address X w1 = wallet_address X w) ReencryptMismatch))))"

text \<open>
  The first start creates wallet and password. The outcomes of the three file operations are arguments: the
  creation of the password file (how much of it was written when it failed), the replacement, and whether
  the password file could be removed after a failed replacement.
\<close>

datatype create_io = CreateDone | CreateRefused | CreateWriteFailed nat

definition write_private_new :: "create_io \<Rightarrow> string \<Rightarrow> node_wallet_files \<Rightarrow> node_wallet_files \<times> (unit, keystore_error) result" where
  "write_private_new io contents fs =
     (if nw_password fs \<noteq> None then (fs, Err FileExists)
      else case io of
        CreateDone \<Rightarrow> (fs\<lparr>nw_password := Some contents\<rparr>, Ok ())
      | CreateRefused \<Rightarrow> (fs, Err KeystoreIo)
      | CreateWriteFailed n \<Rightarrow> (fs\<lparr>nw_password := Some (take n contents)\<rparr>, Err KeystoreIo))"

definition random_password :: "externals \<Rightarrow> bytes \<Rightarrow> string" where
  "random_password X random_bytes = hex_encode X random_bytes"

definition load_or_create_default ::
  "externals \<Rightarrow> key_externals \<Rightarrow> keystore_codec \<Rightarrow> create_io \<Rightarrow> replace_io \<Rightarrow> bool \<Rightarrow> bytes \<Rightarrow> bytes \<Rightarrow> bytes \<Rightarrow> wallet
     \<Rightarrow> node_wallet_files \<Rightarrow> node_wallet_files \<times> (wallet, keystore_error) result" where
  "load_or_create_default X K C cio rio removed random_bytes salt nonce new_wallet fs =
     (if nw_store fs \<noteq> None then
        (fs, and_then (ok_or (nw_password fs) PasswordFileMissing) (\<lambda>password.
             node_wallet_load X K C (nw_store fs) (trim_text password)))
      else if nw_password fs \<noteq> None then (fs, Err PasswordFileLeft)
      else
        let password = random_password X random_bytes in
        case write_private_new cio password fs of
          (fs1, Inl e) \<Rightarrow> (fs1, Err e)
        | (fs1, Inr _) \<Rightarrow>
          (case node_wallet_store X K C rio salt nonce new_wallet password fs1 of
             (fs2, Inl e) \<Rightarrow> (if removed then fs2\<lparr>nw_password := None\<rparr> else fs2, Err e)
           | (fs2, Inr _) \<Rightarrow> (fs2, Ok new_wallet)))"

subsection \<open>Validator key files\<close>

text \<open>A file that does not exist yet is created with the contents; nothing is ever overwritten.\<close>

definition write_new_file :: "create_io \<Rightarrow> string \<Rightarrow> string option \<Rightarrow> string option \<times> (unit, keystore_error) result" where
  "write_new_file io contents f =
     (if f \<noteq> None then (f, Err FileExists)
      else case io of
        CreateDone \<Rightarrow> (Some contents, Ok ())
      | CreateRefused \<Rightarrow> (f, Err KeystoreIo)
      | CreateWriteFailed n \<Rightarrow> (Some (take n contents), Err KeystoreIo))"

definition parse_seed :: "externals \<Rightarrow> string \<Rightarrow> (bytes, keystore_error) result" where
  "parse_seed X v =
     and_then (ok_or (hex_decode X (trim_start_0x (trim_text v))) FieldNotHex) (\<lambda>bs.
     and_then (ensure (length bs = 32) KeyLength) (\<lambda>_. Ok bs))"

definition generate_key_file ::
  "externals \<Rightarrow> key_externals \<Rightarrow> create_io \<Rightarrow> bytes \<Rightarrow> string option \<Rightarrow> string option \<times> (address, keystore_error) result" where
  "generate_key_file X K io seed f =
     (case write_new_file io (hex_encode X seed @ [CHR 0x0A]) f of
        (f', Inl e) \<Rightarrow> (f', Err e)
      | (f', Inr _) \<Rightarrow> (f', Ok (wallet_address X (kx_wallet K seed))))"

definition wallet_from_file :: "externals \<Rightarrow> key_externals \<Rightarrow> string option \<Rightarrow> (wallet, keystore_error) result" where
  "wallet_from_file X K f =
     and_then (ok_or f KeystoreMissing) (\<lambda>t.
     and_then (parse_seed X t) (\<lambda>seed. Ok (kx_wallet K seed)))"

definition public_key_from_file :: "externals \<Rightarrow> key_externals \<Rightarrow> string option \<Rightarrow> (address, keystore_error) result" where
  "public_key_from_file X K f = and_then (wallet_from_file X K f) (\<lambda>w. Ok (wallet_address X w))"

definition normalize_public_key :: "externals \<Rightarrow> string \<Rightarrow> (string, keystore_error) result" where
  "normalize_public_key X v =
     (let normalized = to_ascii_lowercase (trim_start_0x (trim_text v)) in
      and_then (ok_or (hex_decode X normalized) FieldNotHex) (\<lambda>bs.
      and_then (ensure (length bs = 32) KeyLength) (\<lambda>_.
      and_then (ensure (ed25519_key X bs) BadPrivateKey) (\<lambda>_. Ok normalized))))"

fun config_loop ::
  "externals \<Rightarrow> u64 \<Rightarrow> string list \<Rightarrow> string fset \<Rightarrow> validator list \<Rightarrow> (validator list, keystore_error) result" where
  "config_loop X voting_power [] seen vs = Ok vs"
| "config_loop X voting_power (v # rest) seen vs =
     and_then (normalize_public_key X v) (\<lambda>key.
     if key |\<in>| seen then Err (DuplicateValidatorKey key)
     else config_loop X voting_power rest (finsert key seen) (vs @ [\<lparr>val_id = key, val_voting_power = voting_power\<rparr>]))"

definition create_validators_config ::
  "externals \<Rightarrow> (validator list \<Rightarrow> string) \<Rightarrow> create_io \<Rightarrow> string list \<Rightarrow> u64 \<Rightarrow> string option
     \<Rightarrow> string option \<times> (unit, keystore_error) result" where
  "create_validators_config X json io public_keys voting_power f =
     (if public_keys = [] then (f, Err NoValidatorKeys)
      else if voting_power = 0 then (f, Err ZeroPower)
      else case config_loop X voting_power public_keys {||} [] of
        Inl e \<Rightarrow> (f, Err e)
      | Inr vs \<Rightarrow> write_new_file io (json vs @ [CHR 0x0A]) f)"

subsection \<open>Node key\<close>

definition load_or_create_node_key ::
  "('k \<Rightarrow> bytes) \<Rightarrow> (bytes \<Rightarrow> 'k option) \<Rightarrow> create_io \<Rightarrow> 'k \<Rightarrow> bytes option \<Rightarrow> bytes option \<times> ('k, keystore_error) result" where
  "load_or_create_node_key encode decode io new_key f =
     (case f of
        Some bs \<Rightarrow> (f, ok_or (decode bs) KeystoreCorrupt)
      | None \<Rightarrow>
        (case io of
           CreateDone \<Rightarrow> (Some (encode new_key), Ok new_key)
         | CreateRefused \<Rightarrow> (None, Err KeystoreIo)
         | CreateWriteFailed n \<Rightarrow> (Some (take n (encode new_key)), Err KeystoreIo)))"

subsection \<open>Lemmas: text of keys\<close>

definition printable :: "char \<Rightarrow> bool" where
  "printable c \<longleftrightarrow> 33 \<le> (of_char c :: nat) \<and> (of_char c :: nat) < 127"

lemma printable_not_blank: "printable c \<Longrightarrow> \<not> is_blank (c # s)"
  by (simp add: printable_def is_blank_def all_white.simps [of "of_char c # map of_char s"] ws_width_def split: list.split)

lemma trim_text_printable:
  assumes "list_all printable h" and "h \<noteq> []" and "is_blank w"
  shows "trim_text (h @ w) = h"
proof -
  let ?s = "h @ w"
  have pre: "\<not> is_blank (take n ?s)" if "0 < n" for n
    using assms(1,2) that printable_not_blank by (cases h; cases n) auto
  have "filter (\<lambda>n. is_blank (take n ?s)) [0..<length ?s + 1] = [0]"
  proof -
    have "filter (\<lambda>n. is_blank (take n ?s)) [1..<length ?s + 1] = []"
      unfolding filter_empty_conv by (intro ballI pre) auto
    moreover have "[0..<length ?s + 1] = 0 # [1..<length ?s + 1]" using upt_conv_Cons [of 0 "length ?s + 1"] by simp
    ultimately show ?thesis by (simp add: is_blank_def all_white.simps [of "[]"])
  qed
  then have t: "drop (last (filter (\<lambda>n. is_blank (take n ?s)) [0..<length ?s + 1])) ?s = ?s" by simp
  have suf: "\<not> is_blank (drop n ?s)" if "n < length h" for n
  proof -
    have "drop n ?s = h ! n # drop (Suc n) ?s" using that Cons_nth_drop_Suc [of n ?s] by (simp add: nth_append)
    then show ?thesis using assms(1) that printable_not_blank by (auto simp: list_all_length)
  qed
  have "hd (filter (\<lambda>n. is_blank (drop n ?s)) [0..<length ?s + 1]) = length h"
  proof -
    have "filter (\<lambda>n. is_blank (drop n ?s)) [0..<length h] = []" using suf by (auto simp: filter_empty_conv)
    moreover have "[0..<length ?s + 1] = [0..<length h] @ length h # [Suc (length h)..<length ?s + 1]"
      using upt_add_eq_append [of 0 "length h" "length w + 1"] upt_conv_Cons [of "length h" "length ?s + 1"] by (simp add: add.assoc)
    ultimately show ?thesis using assms(3) by simp
  qed
  then show ?thesis unfolding trim_text_def t Let_def by (simp only: append_eq_conv_conj [symmetric] take_append) simp
qed

lemma hex_printable: "hex_law X \<Longrightarrow> list_all printable (hex_encode X bs)"
  unfolding hex_law_def list_all_iff printable_def
  by (auto simp: is_ascii_digit_def less_eq_char_def) fastforce+

lemma hex_no_prefix: "hex_law X \<Longrightarrow> trim_start_0x (hex_encode X bs) = hex_encode X bs"
proof (rule trim_start_0x_id)
  assume law: "hex_law X"
  have "CHR ''x'' \<notin> set (hex_encode X bs)"
    using law unfolding hex_law_def list_all_iff by (force simp: is_ascii_digit_def less_eq_char_def)
  then show "take 2 (hex_encode X bs) \<noteq> ''0x''" by (metis in_set_takeD list.set_intros(1,2))
qed

subsection \<open>Lemmas: sealed documents\<close>

definition hash_law :: "externals \<Rightarrow> bool" where
  "hash_law X \<longleftrightarrow> (\<forall>bs. length (sha256 X bs) = 32)"

definition crypt_from :: "externals \<Rightarrow> string \<Rightarrow> bytes \<Rightarrow> bytes \<Rightarrow> nat \<Rightarrow> bytes \<Rightarrow> bytes" where
  "crypt_from X label key nonce i input =
     concat (map (\<lambda>(counter, chunk).
         map2 (\<lambda>left right. xor left right) chunk
           (sha256 X (str_bytes label @ key @ nonce @ to_be_bytes (of_nat counter :: u64))))
       (List.enumerate i (chunks 32 input)))"

lemma crypt_from_Nil [simp]: "crypt_from X label key nonce i [] = []"
  by (simp add: crypt_from_def chunks.simps)

lemma crypt_from_step:
  "input \<noteq> [] \<Longrightarrow> crypt_from X label key nonce i input =
     map2 (\<lambda>left right. xor left right) (take 32 input) (sha256 X (str_bytes label @ key @ nonce @ to_be_bytes (of_nat i :: u64))) @
     crypt_from X label key nonce (Suc i) (drop 32 input)"
  by (simp add: crypt_from_def chunks.simps [of 32 input])

lemma length_crypt_from: "hash_law X \<Longrightarrow> length (crypt_from X label key nonce i input) = length input"
proof (induction "length input" arbitrary: i input rule: less_induct)
  case less
  show ?case
  proof (cases "input = []")
    case False
    then have "length (crypt_from X label key nonce (Suc i) (drop 32 input)) = length (drop 32 input)"
      using less(2) by (intro less(1)) auto
    then show ?thesis using False less(2) by (simp add: crypt_from_step hash_law_def)
  qed simp
qed

lemma map2_xor_twice: "length xs \<le> length ks \<Longrightarrow> map2 (\<lambda>left right. xor left right) (map2 (\<lambda>left right. xor left right) xs ks) ks = xs"
  for xs :: bytes
  by (induction xs ks rule: list_induct2') (auto simp: xor.assoc)

lemma crypt_from_twice:
  "hash_law X \<Longrightarrow> crypt_from X label key nonce i (crypt_from X label key nonce i input) = input"
proof (induction "length input" arbitrary: i input rule: less_induct)
  case less
  let ?k = "sha256 X (str_bytes label @ key @ nonce @ to_be_bytes (of_nat i :: u64))"
  let ?c = "map2 (\<lambda>left right. xor left right) (take 32 input) ?k"
  let ?r = "crypt_from X label key nonce (Suc i) (drop 32 input)"
  show ?case
  proof (cases "input = []")
    case False
    then have ih: "crypt_from X label key nonce (Suc i) ?r = drop 32 input"
      using less(2) by (intro less(1)) auto
    have k: "length ?k = 32" using less(2) by (simp add: hash_law_def)
    have r: "length ?r = length input - 32" using less(2) by (simp add: length_crypt_from)
    have parts: "take 32 (?c @ ?r) = ?c" "drop 32 (?c @ ?r) = ?r"
      using k r by (cases "32 \<le> length input"; auto)+
    have "?c @ ?r \<noteq> []" using False k by auto
    from crypt_from_step [OF this, of X label key nonce i]
    have "crypt_from X label key nonce i (?c @ ?r) = map2 (\<lambda>left right. xor left right) ?c ?k @ drop 32 input"
      unfolding parts ih .
    also have "map2 (\<lambda>left right. xor left right) ?c ?k = take 32 input" using k by (intro map2_xor_twice) simp
    finally show ?thesis using False by (simp add: crypt_from_step)
  qed simp
qed

lemma crypt_twice: "hash_law X \<Longrightarrow> crypt X label (crypt X label input key nonce) key nonce = input"
  using crypt_from_twice [of X label key nonce 0 input] by (simp add: crypt_def crypt_from_def)

lemma length_crypt: "hash_law X \<Longrightarrow> length (crypt X label input key nonce) = length input"
  using length_crypt_from [of X label key nonce 0 input] by (simp add: crypt_def crypt_from_def)

lemma decode_32_hex: "hex_law X \<Longrightarrow> length bs = 32 \<Longrightarrow> decode_32 X (hex_encode X bs) = Ok bs"
  by (simp add: decode_32_def hex_law_def)


lemma length_mac: "hash_law X \<Longrightarrow> length (calculate_mac X label key nonce ciphertext) = 32"
  by (simp add: calculate_mac_def hash_law_def)

lemma open_sealed:
  assumes "hex_law X" and "hash_law X" and "length salt = 32" and "length nonce = 32" and "length secret = 32"
    and "wallet_of secret = Ok w" and "address_of w = a"
  shows "open_document X L wallet_of address_of (seal_document X L secret a password salt nonce) password = Ok w"
  using assms by (simp add: open_document_def seal_document_def Let_def decode_32_hex length_mac crypt_twice)
    (simp add: hex_law_def crypt_twice)

text \<open>A wrong password is noticed unless the two derived keys collide in the authentication code.\<close>

lemma open_sealed_other:
  assumes "hex_law X" and "hash_law X" and "length salt = 32" and "length nonce = 32"
    and "open_document X L wallet_of address_of (seal_document X L secret a password salt nonce) password' = Ok w"
  shows "let ciphertext = crypt X (lb_stream L) secret (derive_key X (lb_kdf L) (str_bytes password) salt KDF_ROUNDS) nonce in
    calculate_mac X (lb_mac L) (derive_key X (lb_kdf L) (str_bytes password') salt KDF_ROUNDS) nonce ciphertext =
    calculate_mac X (lb_mac L) (derive_key X (lb_kdf L) (str_bytes password) salt KDF_ROUNDS) nonce ciphertext"
  using assms by (simp add: open_document_def seal_document_def Let_def decode_32_hex length_mac)
    (simp add: hex_law_def result_simps)

lemma open_address: "open_document X L wallet_of address_of doc password = Ok w \<Longrightarrow> address_of w = kf_address doc"
  by (auto simp: open_document_def Let_def result_simps)

lemma node_load_sealed:
  assumes "hex_law X" and "hash_law X" and "length salt = 32" and "length nonce = 32"
    and "kx_wallet K (kx_wallet_bytes K w) = w" and "length (kx_wallet_bytes K w) = 32"
    and "kc_parse C bs = Some (seal_document X node_labels (kx_wallet_bytes K w) (wallet_address X w) password salt nonce)"
  shows "node_wallet_load X K C (Some bs) password = Ok w"
  unfolding node_wallet_load_def ok_or_simps and_then_simps assms(7)
  by (rule open_sealed) (simp_all add: assms)

lemma path_ne_temporary: "path_for b \<noteq> with_extension (path_for a) ''tmp''"
proof
  assume "path_for b = with_extension (path_for a) ''tmp''"
  then have "last (path_for b) = last (with_extension (path_for a) ''tmp'')" by simp
  then show False by (simp add: path_for_def with_extension_def Let_def)
qed

lemma keystore_write_frame:
  assumes "keystore_atomic_write io (path_for a) bs dir = (dir', r)"
  shows "fmlookup dir' (path_for b) = (if r = Ok () \<and> path_for b = path_for a then Some bs else fmlookup dir (path_for b))"
  using assms path_ne_temporary [of b a] path_ne_temporary [of a a]
  by (auto simp: keystore_atomic_write_def Let_def split: atomic_io.splits)

subsection \<open>Properties\<close>

text \<open>
  The account keystore gives back what was stored. Storing a wallet refuses passwords shorter than ten
  bytes; when it succeeds, the wallet loads under its address, with or without prefix and in any case of
  letters, with the same password; another password loads something only if the two derived keys
  have the same authentication code; and the files of other addresses, and after a failure of any file
  operation the files of all addresses, load as before.
\<close>
theorem keystore_roundtrip:
  assumes document: "document = seal_document X account_labels (kx_account_bytes K wallet) (account_address X wallet) password salt nonce" and laws: "hex_law X" "hash_law X" "kc_parse C (kc_json C document) = Some document"
    and key: "kx_account K (kx_account_bytes K wallet) = Some wallet" "length (kx_account_bytes K wallet) = 32"
    and random: "length salt = 32" "length nonce = 32"
    and store: "keystore_store X K C io salt nonce wallet password dir = (dir', r)"
  shows "case r of
      Inl e \<Rightarrow> \<forall>b pw. keystore_load X K C dir' b pw = keystore_load X K C dir b pw
    | Inr a \<Rightarrow> a = account_address X wallet \<and> 10 \<le> length password \<and>
        (\<forall>b. path_for b = path_for a \<longrightarrow> keystore_load X K C dir' b password = Ok wallet) \<and>
        (\<forall>b pw. path_for b \<noteq> path_for a \<longrightarrow> keystore_load X K C dir' b pw = keystore_load X K C dir b pw) \<and>
        (\<forall>b pw w. path_for b = path_for a \<longrightarrow> keystore_load X K C dir' b pw = Ok w \<longrightarrow>
           (let ciphertext = crypt X (lb_stream account_labels) (kx_account_bytes K wallet)
                  (derive_key X (lb_kdf account_labels) (str_bytes password) salt KDF_ROUNDS) nonce in
            calculate_mac X (lb_mac account_labels) (derive_key X (lb_kdf account_labels) (str_bytes pw) salt KDF_ROUNDS) nonce ciphertext =
            calculate_mac X (lb_mac account_labels) (derive_key X (lb_kdf account_labels) (str_bytes password) salt KDF_ROUNDS) nonce ciphertext))"
proof (cases "10 \<le> length password")
  case False
  then show ?thesis using store by (auto simp: keystore_store_def validate_password_def)
next
  case True
  let ?a = "account_address X wallet"
  let ?doc = "seal_document X account_labels (kx_account_bytes K wallet) ?a password salt nonce"
  obtain d1 r1 where w: "keystore_atomic_write io (path_for ?a) (kc_json C ?doc) dir = (d1, r1)" by fastforce
  have d1: "dir' = d1" "r = (case r1 of Inl e \<Rightarrow> Err e | Inr _ \<Rightarrow> Ok ?a)"
    using store True w by (auto simp: keystore_store_def validate_password_def Let_def split: sum.splits)
  note frame = keystore_write_frame [OF w]
  have same: "keystore_load X K C dir' b pw = keystore_load X K C dir b pw" if "\<not> (r1 = Ok () \<and> path_for b = path_for ?a)" for b pw
    using frame [of b] that by (auto simp: keystore_load_def d1)
  show ?thesis
  proof (cases r1)
    case (Inl e)
    then show ?thesis using same d1 by simp
  next
    case (Inr u)
    have load: "keystore_load X K C dir' b pw =
        open_document X account_labels (from_private_key K) (account_address X) ?doc pw" if "path_for b = path_for ?a" for b pw
      using frame [of b] that laws(3) Inr by (simp add: keystore_load_def d1 document)
    have "from_private_key K (kx_account_bytes K wallet) = Ok wallet" using key(1) by (simp add: from_private_key_def)
    note ok = open_sealed [where wallet_of = "from_private_key K" and address_of = "account_address X", OF laws(1,2) random key(2) this refl]
    note other = open_sealed_other [where wallet_of = "from_private_key K" and address_of = "account_address X", OF laws(1,2) random]
    have r: "r = Ok ?a" using d1 Inr by simp
    show ?thesis unfolding r sum.case
    proof (intro conjI allI impI)
      fix b pw w assume b: "path_for b = path_for ?a" and l: "keystore_load X K C dir' b pw = Ok w"
      show "let ciphertext = crypt X (lb_stream account_labels) (kx_account_bytes K wallet)
                  (derive_key X (lb_kdf account_labels) (str_bytes password) salt KDF_ROUNDS) nonce in
            calculate_mac X (lb_mac account_labels) (derive_key X (lb_kdf account_labels) (str_bytes pw) salt KDF_ROUNDS) nonce ciphertext =
            calculate_mac X (lb_mac account_labels) (derive_key X (lb_kdf account_labels) (str_bytes password) salt KDF_ROUNDS) nonce ciphertext"
        by (rule other [OF l [unfolded load [OF b]]])
    qed (use True load ok same in auto)
  qed
qed

text \<open>Concrete keys, whose secret bytes are the public key.\<close>

definition sealing_externals :: externals where
  "sealing_externals = sample_externals\<lparr>sha256 := \<lambda>bs. replicate 31 0 @ [checksum bs]\<rparr>"

definition sample_keys :: key_externals where
  "sample_keys = \<lparr>kx_account = (\<lambda>bs. Some \<lparr>aw_public_key = bs, aw_sign = sample_signature bs\<rparr>), kx_account_bytes = aw_public_key,
     kx_wallet = (\<lambda>bs. \<lparr>w_public_key = bs, w_sign = sample_signature bs\<rparr>), kx_wallet_bytes = w_public_key\<rparr>"

definition keystore_codec_for :: "keystore_file \<Rightarrow> keystore_codec" where
  "keystore_codec_for d = \<lparr>kc_json = (\<lambda>_. [1]), kc_parse = (\<lambda>_. Some d)\<rparr>"

lemma sealing_laws: "hex_law sealing_externals" "hash_law sealing_externals"
  using sample_hex_law by (simp_all add: sealing_externals_def hex_law_def hash_law_def)

theorem keystore_roundtrip_witness:
  "\<exists>wallet C dir. keystore_store sealing_externals sample_keys C AtomicDone (replicate 32 1) (replicate 32 2) wallet ''long password'' fmempty =
      (dir, Ok (account_address sealing_externals wallet)) \<and>
    keystore_load sealing_externals sample_keys C dir (account_address sealing_externals wallet) ''long password'' = Ok wallet"
proof -
  let ?w = "\<lparr>aw_public_key = replicate 32 7, aw_sign = sample_signature (replicate 32 7)\<rparr>"
  let ?d = "seal_document sealing_externals account_labels (kx_account_bytes sample_keys ?w) (account_address sealing_externals ?w)
    ''long password'' (replicate 32 1) (replicate 32 2)"
  let ?C = "keystore_codec_for ?d" and ?a = "account_address sealing_externals ?w"
  obtain dir where store: "keystore_store sealing_externals sample_keys ?C AtomicDone (replicate 32 1) (replicate 32 2) ?w ''long password'' fmempty = (dir, Ok ?a)"
    by (simp add: keystore_store_def validate_password_def keystore_atomic_write_def Let_def)
  have "keystore_load sealing_externals sample_keys ?C dir ?a ''long password'' = Ok ?w"
    using keystore_roundtrip [where X = sealing_externals and K = sample_keys and C = ?C and wallet = ?w, OF refl sealing_laws _ _ _ _ _ store]
    by (simp add: keystore_codec_for_def sample_keys_def)
  with store show ?thesis by blast
qed

lemma node_wallet_load_None [simp]: "node_wallet_load X K C None password = Err KeystoreMissing"
  by (simp add: node_wallet_load_def)

text \<open>When the new store is in place.\<close>

definition store_replaced :: "change_io \<Rightarrow> string \<Rightarrow> bool" where
  "store_replaced io new \<longleftrightarrow> 10 \<le> length new \<and> ch_read io \<and> ch_replace io = ReplaceDone"

lemma password_change_outcome:
  assumes laws: "hex_law X" "hash_law X" and doc: "kc_parse C (kc_json C (doc new)) = Some (doc new)" "length salt = 32" "length nonce = 32"
      "doc = (\<lambda>pw. seal_document X node_labels (kx_wallet_bytes K w) (wallet_address X w) pw salt nonce)"
    and key: "kx_wallet K (kx_wallet_bytes K w) = w" "length (kx_wallet_bytes K w) = 32"
    and opens: "node_wallet_load X K C (nw_store fs) old = Ok w"
  obtains fs' r where "change_password X K C io salt nonce old new fs = (fs', r)" "nw_password fs' = nw_password fs"
    "nw_store fs' = (if store_replaced io new then Some (kc_json C (doc new)) else nw_store fs)"
    "r = Ok () \<longleftrightarrow> store_replaced io new \<and> ch_read_back io"
    "store_replaced io new \<and> \<not> ch_read_back io \<longrightarrow> r = Err KeystoreMissing"
    "node_wallet_load X K C (nw_store fs') (if store_replaced io new then new else old) = Ok w"
proof -
  have new: "node_wallet_load X K C (Some (kc_json C (doc new))) new = Ok w"
    by (rule node_load_sealed [OF laws doc(2,3) key]) (use doc(1,4) in simp)
  let ?c = "change_password X K C io salt nonce old new fs"
  have "nw_password (fst ?c) = nw_password fs \<and>
      nw_store (fst ?c) = (if store_replaced io new then Some (kc_json C (doc new)) else nw_store fs) \<and>
      (snd ?c = Ok () \<longleftrightarrow> store_replaced io new \<and> ch_read_back io) \<and>
      (store_replaced io new \<and> \<not> ch_read_back io \<longrightarrow> snd ?c = Err KeystoreMissing)"
    using opens new
    by (cases "ch_replace io"; cases "ch_read io"; cases "ch_read_back io")
      (auto simp: store_replaced_def change_password_def node_wallet_store_def atomic_verified_replace_def Let_def doc(4))
  then show ?thesis using that [of "fst ?c" "snd ?c"] new opens by simp
qed

text \<open>
  The node wallet is never lost by a change of its password. When the wallet loads with the old
  password, then after the change, whichever file operation of it fails, it loads with the new
  password, if the store was replaced, or still with the old one. The change succeeds just when the store
  was replaced and could be read back: a reading that fails after the replacement makes it report an error
  although the new password is in force.
\<close>
theorem node_wallet_never_lost:
  assumes laws: "hex_law X" "hash_law X" and doc: "kc_parse C (kc_json C (doc new)) = Some (doc new)" "length salt = 32" "length nonce = 32"
      "doc = (\<lambda>pw. seal_document X node_labels (kx_wallet_bytes K w) (wallet_address X w) pw salt nonce)"
    and key: "kx_wallet K (kx_wallet_bytes K w) = w" "length (kx_wallet_bytes K w) = 32"
    and opens: "node_wallet_load X K C (nw_store fs) old = Ok w"
    and change: "change_password X K C io salt nonce old new fs = (fs', r)"
  shows "node_wallet_load X K C (nw_store fs') (if store_replaced io new then new else old) = Ok w \<and>
    (r = Ok () \<longleftrightarrow> store_replaced io new \<and> ch_read_back io)"
  by (rule password_change_outcome [OF laws doc key opens, of io]) (use change in auto)

theorem node_wallet_never_lost_witness:
  "\<exists>C fs fs'. change_password sealing_externals sample_keys C change_done (replicate 32 1) (replicate 32 2) ''first password'' ''second password'' fs =
      (fs', Ok ()) \<and> (\<exists>w. node_wallet_load sealing_externals sample_keys C (nw_store fs') ''second password'' = Ok w)"
proof -
  let ?X = sealing_externals and ?K = sample_keys
  let ?w = "\<lparr>w_public_key = replicate 32 7, w_sign = sample_signature (replicate 32 7)\<rparr>"
  let ?doc = "\<lambda>pw. seal_document ?X node_labels (kx_wallet_bytes ?K ?w) (wallet_address ?X ?w) pw (replicate 32 1) (replicate 32 2)"
  let ?C = "\<lparr>kc_json = (\<lambda>_. [1]), kc_parse = (\<lambda>bs. Some (?doc (if bs = [1] then ''second password'' else ''first password'')))\<rparr>"
  let ?fs = "\<lparr>nw_store = Some [0], nw_temporary = None, nw_password = None\<rparr>"
  have key: "kx_wallet ?K (kx_wallet_bytes ?K ?w) = ?w" "length (kx_wallet_bytes ?K ?w) = 32" by (simp_all add: sample_keys_def)
  have old: "node_wallet_load ?X ?K ?C (nw_store ?fs) ''first password'' = Ok ?w"
    unfolding node_wallet_files.simps by (rule node_load_sealed [OF sealing_laws _ _ key]) simp_all
  obtain fs' r where c: "change_password ?X ?K ?C change_done (replicate 32 1) (replicate 32 2) ''first password'' ''second password'' ?fs = (fs', r)"
    by fastforce
  have "kc_parse ?C (kc_json ?C (?doc ''second password'')) = Some (?doc ''second password'')" by simp
  note lost = node_wallet_never_lost [OF sealing_laws this length_replicate length_replicate refl key old c]
  have replaced: "store_replaced change_done ''second password''" "ch_read_back change_done" by (simp_all add: store_replaced_def change_done_def)
  then have "node_wallet_load ?X ?K ?C (nw_store fs') ''second password'' = Ok ?w" "r = Ok ()"
    using lost by (simp_all only: if_True simp_thms)
  with c show ?thesis by blast
qed

text \<open>
  The first start creates a wallet that every later start finds: after a successful creation each further
  call returns the same wallet and leaves the files alone. A start that finds a password without a wallet
  creates nothing.
\<close>
theorem node_wallet_created_once:
  assumes document: "document = seal_document X node_labels (kx_wallet_bytes K w) (wallet_address X w) (random_password X random) salt nonce" and laws: "hex_law X" "hash_law X" "kc_parse C (kc_json C document) = Some document"
    and key: "kx_wallet K (kx_wallet_bytes K w) = w" "length (kx_wallet_bytes K w) = 32"
    and lengths: "length salt = 32" "length nonce = 32" "length random = 32"
    and create: "load_or_create_default X K C cio rio removed random salt nonce w \<lparr>nw_store = None, nw_temporary = t, nw_password = p\<rparr> = (fs, Ok w')"
  shows "p = None \<and> w' = w \<and> load_or_create_default X K C cio' rio' removed' random' salt' nonce' w'' fs = (fs, Ok w)"
proof -
  let ?pw = "random_password X random"
  have load: "node_wallet_load X K C (Some (kc_json C document)) ?pw = Ok w"
    by (rule node_load_sealed [OF laws(1,2) lengths(1,2) key]) (use laws(3) document in simp)
  have len: "length ?pw = 64" using laws(1) lengths(3) by (simp add: random_password_def hex_law_def)
  have trim: "trim_text ?pw = ?pw"
    using trim_text_printable [OF hex_printable [OF laws(1)], of random "[]"] len
    by (cases "hex_encode X random = []") (simp_all add: random_password_def is_blank_def all_white.simps [of "[]"])
  have "p = None \<and> w' = w \<and> nw_store fs = Some (kc_json C document) \<and> nw_password fs = Some ?pw"
    using create len load
    by (auto simp: load_or_create_default_def write_private_new_def node_wallet_store_def atomic_verified_replace_def Let_def
        document [symmetric] split: if_splits replace_io.splits create_io.splits)
  then show ?thesis using load trim by (simp add: load_or_create_default_def)
qed

text \<open>
  A generated validator key file is read back as the key whose address was reported, and an existing file
  is never overwritten, neither by a key nor by a validator list.
\<close>
theorem validator_key_roundtrip:
  assumes "hex_law X" and "length seed = 32"
  shows "(case generate_key_file X K io seed f of
      (f', Inr a) \<Rightarrow> f = None \<and> public_key_from_file X K f' = Ok a \<and> wallet_from_file X K f' = Ok (kx_wallet K seed)
    | (f', Inl e) \<Rightarrow> f \<noteq> None \<longrightarrow> f' = f)"
proof -
  have "hex_encode X seed \<noteq> []" using assms unfolding hex_law_def by (metis list.size(3) mult_is_0 zero_neq_numeral)
  then have "trim_text (hex_encode X seed @ [CHR 0x0A]) = hex_encode X seed"
    using trim_text_printable [OF hex_printable [OF assms(1)], of seed "[CHR 0x0A]"]
    by (simp add: is_blank_def all_white.simps [of "[10]"] all_white.simps [of "[]"] ws_width_def)
  then have "parse_seed X (hex_encode X seed @ [CHR 0x0A]) = Ok seed"
    using assms by (simp add: parse_seed_def hex_no_prefix) (simp add: hex_law_def)
  then show ?thesis
    by (auto simp: generate_key_file_def write_new_file_def public_key_from_file_def wallet_from_file_def split: create_io.splits)
qed

text \<open>
  A validator configuration that is written lists every given key once, normalized, as a valid Ed25519
  key with the given positive power.
\<close>
lemma config_loop_ok:
  "config_loop X p keys seen vs = Ok ws \<Longrightarrow> fset seen = set (map val_id vs) \<Longrightarrow> distinct (map val_id vs) \<Longrightarrow>
     distinct (map val_id ws) \<and> length ws = length vs + length keys \<and>
     (\<forall>w \<in> set ws. w \<in> set vs \<or> val_voting_power w = p \<and> (\<exists>k \<in> set keys. normalize_public_key X k = Ok (val_id w)))"
proof (induction X p keys seen vs rule: config_loop.induct)
  case (2 X p v rest seen vs)
  then obtain key where key: "normalize_public_key X v = Ok key" "key |\<notin>| seen"
      "config_loop X p rest (finsert key seen) (vs @ [\<lparr>val_id = key, val_voting_power = p\<rparr>]) = Ok ws"
    by (auto simp: result_simps split: if_splits)
  have "distinct (map val_id (vs @ [\<lparr>val_id = key, val_voting_power = p\<rparr>]))" using 2(3,4) key(2) by auto
  from "2.IH" [OF key(2) key(3) _ this] 2(3) key(1) show ?case by auto
qed simp

text \<open>A libp2p key that was created is the key of every later start.\<close>

lemma node_key_persistent:
  assumes "decode (encode k) = Some k" and "load_or_create_node_key encode decode io k None = (f, Ok k')"
  shows "k' = k \<and> load_or_create_node_key encode decode io' k'' f = (f, Ok k)"
  using assms by (auto simp: load_or_create_node_key_def split: create_io.splits)

end
