(* ===== verification/Rpc.thy ===== *)
theory Rpc
  imports Keystore Modules Communication Mempool Raw_Transaction
begin

text \<open>
  The JSON-RPC server (\<open>src/rpc.rs\<close>): its shared state, the handle through which the event loop of the
  node works on that state, and \<open>dispatch\<close> with all its methods. A request is a JSON value; what serde
  derives for the structs, the key derivation from seed phrases, random bytes, the clock and the outcome
  of the file operations of a request are collected in the record \<open>rpc_env\<close>. The read-write lock makes a
  method one step on the state; a poisoned lock does not occur in the model.
\<close>

subsection \<open>JSON\<close>

datatype json =
  JNull | JBool bool | JNumber int | JFloat string | JString string | JArray "json list" | JObject "(string \<times> json) list"

fun json_get :: "json \<Rightarrow> string \<Rightarrow> json option" where
  "json_get (JObject fs) k = map_of fs k"
| "json_get _ k = None"

fun as_str :: "json \<Rightarrow> string option" where
  "as_str (JString s) = Some s"
| "as_str _ = None"

fun as_bool :: "json \<Rightarrow> bool option" where
  "as_bool (JBool b) = Some b"
| "as_bool _ = None"

fun as_array :: "json \<Rightarrow> json list option" where
  "as_array (JArray xs) = Some xs"
| "as_array _ = None"

fun as_u64 :: "json \<Rightarrow> u64 option" where
  "as_u64 (JNumber n) = (if 0 \<le> n \<and> n < 2 ^ 64 then Some (of_int n) else None)"
| "as_u64 _ = None"

fun is_object :: "json \<Rightarrow> bool" where
  "is_object (JObject fs) = True"
| "is_object _ = False"

definition json_u64 :: "u64 \<Rightarrow> json" where
  "json_u64 n = JNumber (uint n)"

definition json_usize :: "nat \<Rightarrow> json" where
  "json_usize n = JNumber (int n)"

definition get_index :: "'a list \<Rightarrow> nat \<Rightarrow> 'a option" where
  "get_index xs i = (if i < length xs then Some (xs ! i) else None)"

definition or_null :: "json option \<Rightarrow> json" where
  "or_null j = (case j of Some x \<Rightarrow> x | None \<Rightarrow> JNull)"

subsection \<open>Quantities\<close>

definition hex_char :: "nat \<Rightarrow> char" where
  "hex_char n = (if n < 10 then char_of (48 + n) else char_of (87 + n))"

fun hex_text :: "nat \<Rightarrow> string" where
  "hex_text n = (if n < 16 then [hex_char n] else hex_text (n div 16) @ [hex_char (n mod 16)])"

declare hex_text.simps [simp del]

definition quantity :: "u64 \<Rightarrow> string" where
  "quantity n = ''0x'' @ hex_text (unat n)"

definition quantity_u128 :: "u128 \<Rightarrow> string" where
  "quantity_u128 n = ''0x'' @ hex_text (unat n)"

definition to_digit16 :: "char \<Rightarrow> nat option" where
  "to_digit16 c =
     (if is_ascii_digit c then Some (of_char c - 48)
      else if CHR ''a'' \<le> c \<and> c \<le> CHR ''f'' then Some (of_char c - 87)
      else if CHR ''A'' \<le> c \<and> c \<le> CHR ''F'' then Some (of_char c - 55)
      else None)"

fun hex_digits :: "string \<Rightarrow> 'a::len word \<Rightarrow> 'a word option" where
  "hex_digits [] acc = Some acc"
| "hex_digits (c # cs) acc =
     (case to_digit16 c of
        None \<Rightarrow> None
      | Some d \<Rightarrow>
        (case checked_mul acc 16 of
           None \<Rightarrow> None
         | Some m \<Rightarrow>
           (case checked_add m (of_nat d) of
              None \<Rightarrow> None
            | Some a \<Rightarrow> hex_digits cs a)))"

text \<open>\<open>from_str_radix(_, 16)\<close>: an optional plus sign, at least one digit, no overflow.\<close>

definition from_str_radix16 :: "string \<Rightarrow> 'a::len word option" where
  "from_str_radix16 s =
     (let ds = (case s of [] \<Rightarrow> [] | c # cs \<Rightarrow> if c = CHR ''+'' then cs else s)
      in if ds = [] then None else hex_digits ds 0)"

datatype rpc_cause =
  MissingParam nat | NoHexPrefix | BadQuantity | PasswordNeeded | KeystoreFailed keystore_error | BadKey keystore_error
  | MnemonicFailed | IndexRange | ArchiveFailed archive_error | RecordsUnreadable | RecordsCorrupt | BadTransactionHash
  | LocalOnly | EnvelopeNeeded | BadEnvelope | ClockFailed | CommunicationFailed communication_error
  | TransactionNeeded | BadTransaction | SignatureFailed signature_error | PoolFailed mempool_error | RawFailed raw_error
  | ObjectNeeded | FromNeeded | ToNeeded | FeeRange | UnknownAccount | UnknownMethod string

type_synonym rpc_error = "int \<times> rpc_cause"

definition parse_quantity_u64 :: "string \<Rightarrow> (u64, rpc_error) result" where
  "parse_quantity_u64 v =
     and_then (ok_or (strip_prefix v ''0x'') (-32602, NoHexPrefix)) (\<lambda>hex.
     ok_or (from_str_radix16 (if hex = [] then ''0'' else hex)) (-32602, BadQuantity))"

definition parse_quantity_u128 :: "string \<Rightarrow> (u128, rpc_error) result" where
  "parse_quantity_u128 v =
     and_then (ok_or (strip_prefix v ''0x'') (-32602, NoHexPrefix)) (\<lambda>hex.
     ok_or (from_str_radix16 (if hex = [] then ''0'' else hex)) (-32602, BadQuantity))"

definition string_param :: "json list \<Rightarrow> nat \<Rightarrow> (string, rpc_error) result" where
  "string_param params i = ok_or (Option.bind (get_index params i) as_str) (-32602, MissingParam i)"

subsection \<open>State\<close>

record 'd rpc_state =
  rs_chain :: blockchain
  rs_pool :: mempool
  rs_wallets :: "(string, account_wallet) fmap"
  rs_faucet_alias :: string
  rs_chain_id :: u64
  rs_archive :: archive_dir
  rs_archive_limit :: nat
  rs_keystore :: keystore
  rs_store :: "'d store_disk"
  rs_peer_count :: nat
  rs_sync_current :: u64
  rs_sync_highest :: u64
  rs_sync_active :: bool
  rs_inbox :: communication_inbox
  rs_outbox :: communication_inbox
  rs_communication_enabled :: bool

record rpc_env =
  re_version :: string
  re_keys :: key_externals
  re_keystore_codec :: keystore_codec
  re_keystore_io :: atomic_io
  re_salt :: bytes
  re_nonce :: bytes
  re_new_wallet :: account_wallet
  re_new_mnemonic :: "string option"
  re_mnemonic_key :: "string \<Rightarrow> u32 \<Rightarrow> bytes option"
  re_now :: "u64 option"
  re_uptime :: u64
  re_progress :: "u64 \<Rightarrow> u64 \<Rightarrow> json"
  re_records :: "bytes file_contents"
  re_parse_records :: "bytes \<Rightarrow> json list option"
  re_parse_envelope :: "json \<Rightarrow> communication_envelope option"
  re_parse_transaction :: "json \<Rightarrow> transaction option"
  re_json_envelope :: "communication_envelope \<Rightarrow> json"
  re_json_status :: "archive_status \<Rightarrow> json"
  re_json_event :: "scheduled_event \<Rightarrow> json"
  re_json_block :: "block \<Rightarrow> bytes option"

subsection \<open>Helpers\<close>

definition rpc_normalize_address :: "string \<Rightarrow> string" where
  "rpc_normalize_address address = ''0x'' @ to_ascii_lowercase (trim_start_0x address)"

definition resolve_ledger_address :: "externals \<Rightarrow> 'd rpc_state \<Rightarrow> string \<Rightarrow> string" where
  "resolve_ledger_address X s address =
     (let normalized = rpc_normalize_address address in
      case fmlookup (rs_wallets s) normalized of Some w \<Rightarrow> account_address X w | None \<Rightarrow> normalized)"

definition transaction_json :: "externals \<Rightarrow> block \<Rightarrow> nat \<Rightarrow> transaction \<Rightarrow> json" where
  "transaction_json X b i tx = JObject
     [(''hash'', JString (''0x'' @ tx_id X tx)), (''nonce'', JString (quantity (tx_nonce tx))),
      (''blockHash'', JString (''0x'' @ blk_hash b)), (''blockNumber'', JString (quantity (blk_height b))),
      (''transactionIndex'', JString (quantity (of_nat i))), (''from'', JString (tx_from tx)), (''to'', JString (tx_to tx)),
      (''value'', JString (quantity_u128 (tx_amount tx))), (''gasPrice'', JString (quantity_u128 (tx_fee tx))),
      (''input'', JString ''0x'')]"

definition block_json :: "externals \<Rightarrow> rpc_env \<Rightarrow> block \<Rightarrow> bool \<Rightarrow> json" where
  "block_json X E b full_transactions =
     (let transactions =
        (if full_transactions then map (\<lambda>(i, tx). transaction_json X b i tx) (List.enumerate 0 (blk_transactions b))
         else map (\<lambda>tx. JString (''0x'' @ tx_id X tx)) (blk_transactions b))
      in JObject
     [(''number'', JString (quantity (blk_height b))), (''hash'', JString (''0x'' @ blk_hash b)),
      (''parentHash'', JString (''0x'' @ blk_previous_hash b)), (''timestamp'', JString (quantity (blk_timestamp b))),
      (''miner'', JString (blk_producer b)), (''transactions'', JArray transactions),
      (''ieumSystemEvents'', JArray (map (re_json_event E) (blk_system_events b))),
      (''transactionsRoot'', JString (''0x'' @ blk_hash b)),
      (''size'', JString (quantity (of_nat (case re_json_block E b of Some bs \<Rightarrow> length bs | None \<Rightarrow> 0))))])"

definition receipt_json :: "externals \<Rightarrow> block \<times> nat \<times> transaction \<Rightarrow> json" where
  "receipt_json X = (\<lambda>(b, i, tx). JObject
     [(''transactionHash'', JString (''0x'' @ tx_id X tx)), (''transactionIndex'', JString (quantity (of_nat i))),
      (''blockHash'', JString (''0x'' @ blk_hash b)), (''blockNumber'', JString (quantity (blk_height b))),
      (''from'', JString (tx_from tx)), (''to'', JString (tx_to tx)), (''status'', JString ''0x1'')])"

subsection \<open>Methods that read\<close>

definition select_height :: "'d rpc_state \<Rightarrow> string \<Rightarrow> (u64, rpc_error) result" where
  "select_height s selector = (if selector = ''latest'' then Ok (tip_height (rs_chain s)) else parse_quantity_u64 selector)"

definition get_balance :: "externals \<Rightarrow> 'd rpc_state \<Rightarrow> json list \<Rightarrow> (json, rpc_error) result" where
  "get_balance X s params =
     and_then (string_param params 0) (\<lambda>address.
     Ok (JString (quantity_u128 (balance_of (rs_chain s) (resolve_ledger_address X s address)))))"

definition get_transaction_count :: "externals \<Rightarrow> 'd rpc_state \<Rightarrow> json list \<Rightarrow> (json, rpc_error) result" where
  "get_transaction_count X s params =
     and_then (string_param params 0) (\<lambda>address.
     Ok (JString (quantity (next_nonce (rs_chain s) (resolve_ledger_address X s address)))))"

definition full_flag :: "json list \<Rightarrow> bool" where
  "full_flag params = (case Option.bind (get_index params 1) as_bool of Some b \<Rightarrow> b | None \<Rightarrow> False)"

definition get_block_by_number :: "externals \<Rightarrow> rpc_env \<Rightarrow> 'd rpc_state \<Rightarrow> json list \<Rightarrow> (json, rpc_error) result" where
  "get_block_by_number X E s params =
     and_then (string_param params 0) (\<lambda>selector.
     and_then (if selector = ''latest''
               then Ok (if blocks (rs_chain s) = [] then None else Some (blk_height (last (blocks (rs_chain s)))))
               else and_then (parse_quantity_u64 selector) (\<lambda>h. Ok (Some h))) (\<lambda>height.
     Ok (or_null (map_option (\<lambda>b. block_json X E b (full_flag params)) (Option.bind height (block_by_height (rs_chain s)))))))"

definition get_block_by_hash :: "externals \<Rightarrow> rpc_env \<Rightarrow> 'd rpc_state \<Rightarrow> json list \<Rightarrow> (json, rpc_error) result" where
  "get_block_by_hash X E s params =
     and_then (string_param params 0) (\<lambda>hash.
     Ok (or_null (map_option (\<lambda>b. block_json X E b (full_flag params)) (block_by_hash (rs_chain s) hash))))"

definition get_transaction_by_hash :: "externals \<Rightarrow> 'd rpc_state \<Rightarrow> json list \<Rightarrow> (json, rpc_error) result" where
  "get_transaction_by_hash X s params =
     and_then (string_param params 0) (\<lambda>hash.
     Ok (or_null (map_option (\<lambda>(b, i, tx). transaction_json X b i tx) (transaction_by_hash X (rs_chain s) hash))))"

definition get_block_transaction_count :: "'d rpc_state \<Rightarrow> json list \<Rightarrow> (json, rpc_error) result" where
  "get_block_transaction_count s params =
     and_then (string_param params 0) (\<lambda>selector.
     and_then (select_height s selector) (\<lambda>height.
     Ok (or_null (map_option (\<lambda>b. JString (quantity (of_nat (length (blk_transactions b))))) (block_by_height (rs_chain s) height)))))"

definition get_transaction_by_index :: "externals \<Rightarrow> 'd rpc_state \<Rightarrow> json list \<Rightarrow> (json, rpc_error) result" where
  "get_transaction_by_index X s params =
     and_then (string_param params 0) (\<lambda>selector.
     and_then (and_then (string_param params 1) parse_quantity_u64) (\<lambda>index.
     and_then (select_height s selector) (\<lambda>height.
     Ok (or_null (Option.bind (block_by_height (rs_chain s) height) (\<lambda>b.
         map_option (transaction_json X b (unat index)) (get_index (blk_transactions b) (unat index))))))))"

definition get_transaction_receipt :: "externals \<Rightarrow> 'd rpc_state \<Rightarrow> json list \<Rightarrow> (json, rpc_error) result" where
  "get_transaction_receipt X s params =
     and_then (string_param params 0) (\<lambda>hash.
     Ok (or_null (map_option (receipt_json X) (transaction_by_hash X (rs_chain s) hash))))"

definition recovery_records :: "rpc_env \<Rightarrow> (json list, rpc_error) result" where
  "recovery_records E =
     (case re_records E of
        Absent \<Rightarrow> Ok []
      | Unreadable \<Rightarrow> Err (-32603, RecordsUnreadable)
      | Contents bs \<Rightarrow> ok_or (re_parse_records E bs) (-32603, RecordsCorrupt))"

definition has_status :: "string \<Rightarrow> json \<Rightarrow> bool" where
  "has_status st r \<longleftrightarrow> Option.bind (json_get r ''status'') as_str = Some st"

definition recovery_status :: "rpc_env \<Rightarrow> (json, rpc_error) result" where
  "recovery_status E =
     and_then (recovery_records E) (\<lambda>records.
     let pending = length (filter (has_status ''pending'') records);
         applied = length (filter (has_status ''applied'') records)
     in Ok (JObject [(''active'', JBool (0 < pending)), (''pendingPlans'', json_usize pending),
                     (''appliedRecords'', json_usize applied),
                     (''latest'', if records = [] then JNull else last records)]))"

definition recovery_by_transaction :: "rpc_env \<Rightarrow> string \<Rightarrow> (json, rpc_error) result" where
  "recovery_by_transaction E hash =
     (let normalized = to_ascii_lowercase (trim_start_0x hash) in
      if length normalized \<noteq> 64 \<or> \<not> list_all is_ascii_hexdigit normalized then Err (-32602, BadTransactionHash)
      else and_then (recovery_records E) (\<lambda>records.
        Ok (or_null (find (\<lambda>r. case Option.bind (json_get r ''transactionHash'') as_str of
              Some v \<Rightarrow> to_ascii_lowercase (trim_start_0x v) = to_ascii_lowercase normalized
            | None \<Rightarrow> False) records))))"

definition storage_status :: "rpc_env \<Rightarrow> 'd rpc_state \<Rightarrow> (json, rpc_error) result" where
  "storage_status E s = map_err (\<lambda>e. (-32603, ArchiveFailed e))
     (and_then (snd (status (rs_archive_limit s) (rs_archive s))) (\<lambda>st. Ok (re_json_status E st)))"

definition syncing_json :: "'d rpc_state \<Rightarrow> json" where
  "syncing_json s =
     (if \<not> rs_sync_active s then JBool False
      else JObject [(''startingBlock'', JString ''0x0''), (''currentBlock'', JString (quantity (rs_sync_current s))),
                    (''highestBlock'', JString (quantity (rs_sync_highest s)))])"

definition node_status :: "externals \<Rightarrow> rpc_env \<Rightarrow> 'd rpc_state \<Rightarrow> json" where
  "node_status X E s = JObject
     [(''version'', JString (re_version E)), (''chainId'', json_u64 (rs_chain_id s)),
      (''height'', json_u64 (tip_height (rs_chain s))), (''blockHash'', JString (''0x'' @ tip_hash (rs_chain s))),
      (''stateRoot'', JString (''0x'' @ state_hash X (rs_chain s))), (''peers'', json_usize (rs_peer_count s)),
      (''mempoolTransactions'', json_usize (length (mp_transactions (rs_pool s)))),
      (''mempoolBytes'', json_usize (mp_total_bytes (rs_pool s))), (''syncing'', JBool (rs_sync_active s)),
      (''syncCurrent'', json_u64 (rs_sync_current s)), (''syncHighest'', json_u64 (rs_sync_highest s)),
      (''uptimeSeconds'', json_u64 (re_uptime E))]"

definition sync_status :: "rpc_env \<Rightarrow> 'd rpc_state \<Rightarrow> json" where
  "sync_status E s = JObject
     [(''syncing'', JBool (rs_sync_active s)), (''currentHeight'', json_u64 (rs_sync_current s)),
      (''highestHeight'', json_u64 (rs_sync_highest s)),
      (''progressPercent'', if rs_sync_highest s = 0 then JFloat ''100.0'' else re_progress E (rs_sync_current s) (rs_sync_highest s)),
      (''readyForTransactions'', JBool (\<not> rs_sync_active s \<and> rs_sync_current s \<ge> rs_sync_highest s))]"

definition finalized_block :: "externals \<Rightarrow> 'd rpc_state \<Rightarrow> json" where
  "finalized_block X s =
     (if blocks (rs_chain s) = [] then JObject
        [(''height'', JNumber 0), (''hash'', JString (''0x'' @ tip_hash (rs_chain s))),
         (''stateRoot'', JString (''0x'' @ state_hash X (rs_chain s))), (''transactionCount'', JNumber 0)]
      else let b = last (blocks (rs_chain s)) in JObject
        [(''height'', json_u64 (blk_height b)), (''hash'', JString (''0x'' @ blk_hash b)),
         (''stateRoot'', JString (''0x'' @ state_hash X (rs_chain s))),
         (''transactionCount'', json_usize (length (blk_transactions b)))])"

definition PROTOCOL_VERSION :: string where
  "PROTOCOL_VERSION = ''2''"

definition MIN_COMPATIBLE_PROTOCOL_VERSION :: string where
  "MIN_COMPATIBLE_PROTOCOL_VERSION = ''2''"

definition network_identity :: "'d rpc_state \<Rightarrow> json" where
  "network_identity s = JObject
     [(''chainId'', json_u64 (rs_chain_id s)), (''genesisHash'', JString (''0x'' @ genesis_commitment (rs_chain s))),
      (''protocolVersion'', JString PROTOCOL_VERSION)]"

text \<open>The methods whose answer depends on nothing.\<close>

definition constant_methods :: "rpc_env \<Rightarrow> (string \<times> json) list" where
  "constant_methods E =
     [(''web3_clientVersion'', JString (''IEUM-Chain/v'' @ re_version E @ ''/rpc/rust'')),
      (''net_listening'', JBool True),
      (''rpc_modules'', JObject (map (\<lambda>m. (m, JString ''1.0'')) [''eth'', ''net'', ''personal'', ''web3'', ''ieumCommunication'', ''ieum''])),
      (''eth_gasPrice'', JString ''0x1''),
      (''eth_estimateGas'', JString ''0x5208''),
      (''eth_getCode'', JString ''0x''),
      (''eth_call'', JString ''0x''),
      (''eth_getLogs'', JArray []),
      (''eth_getUncleCountByBlockHash'', JString ''0x0''),
      (''eth_getUncleCountByBlockNumber'', JString ''0x0''),
      (''ieum_protocolVersion'', JObject
         [(''nodeVersion'', JString (re_version E)), (''protocolVersion'', JString PROTOCOL_VERSION),
          (''minimumCompatibleProtocolVersion'', JString MIN_COMPATIBLE_PROTOCOL_VERSION)])]"

text \<open>The methods that take no parameters and cannot fail.\<close>

definition state_methods :: "externals \<Rightarrow> rpc_env \<Rightarrow> 'd rpc_state \<Rightarrow> (string \<times> json) list" where
  "state_methods X E s =
     (let accounts = JArray (map JString (sorted_list_of_fset (fmdom (rs_wallets s)))) in
     [(''net_version'', JString (dec_digits (unat (rs_chain_id s)))),
      (''net_peerCount'', JString (quantity (of_nat (rs_peer_count s)))),
      (''eth_chainId'', JString (quantity (rs_chain_id s))),
      (''eth_syncing'', syncing_json s),
      (''eth_blockNumber'', JString (quantity (tip_height (rs_chain s)))),
      (''eth_accounts'', accounts),
      (''personal_listAccounts'', accounts),
      (''eth_coinbase'', JString (rs_faucet_alias s)),
      (''txpool_status'', JObject
         [(''pending'', JString (quantity (of_nat (length (mp_transactions (rs_pool s)))))), (''queued'', JString ''0x0''),
          (''bytes'', JString (quantity (of_nat (mp_total_bytes (rs_pool s)))))]),
      (''ieum_nodeStatus'', node_status X E s),
      (''ieum_syncStatus'', sync_status E s),
      (''ieum_finalizedBlock'', finalized_block X s),
      (''ieum_networkIdentity'', network_identity s)])"

text \<open>The methods that take parameters or can fail.\<close>

definition query_methods ::
  "externals \<Rightarrow> rpc_env \<Rightarrow> 'd rpc_state \<Rightarrow> (string \<times> (json list \<Rightarrow> (json, rpc_error) result)) list" where
  "query_methods X E s =
     [(''eth_getBalance'', get_balance X s),
      (''eth_getTransactionCount'', get_transaction_count X s),
      (''eth_getBlockByNumber'', get_block_by_number X E s),
      (''eth_getBlockByHash'', get_block_by_hash X E s),
      (''eth_getTransactionByHash'', get_transaction_by_hash X s),
      (''eth_getBlockTransactionCountByNumber'', get_block_transaction_count s),
      (''eth_getTransactionByBlockNumberAndIndex'', get_transaction_by_index X s),
      (''eth_getTransactionReceipt'', get_transaction_receipt X s),
      (''ieum_getStorageStatus'', \<lambda>_. storage_status E s),
      (''ieum_recoveryStatus'', \<lambda>_. recovery_status E),
      (''ieum_getRecoveryByTransaction'', \<lambda>params. and_then (string_param params 0) (recovery_by_transaction E))]"

subsection \<open>Methods that change the state\<close>

type_synonym 'd rpc_method = "json list \<Rightarrow> 'd rpc_state \<Rightarrow> 'd rpc_state \<times> (json, rpc_error) result"

text \<open>A wallet is first written to the keystore and then unlocked in memory.\<close>

definition keep_wallet ::
  "externals \<Rightarrow> rpc_env \<Rightarrow> account_wallet \<Rightarrow> string \<Rightarrow> (address \<Rightarrow> json) \<Rightarrow> 'd rpc_state \<Rightarrow> 'd rpc_state \<times> (json, rpc_error) result" where
  "keep_wallet X E wallet password answer s =
     (case keystore_store X (re_keys E) (re_keystore_codec E) (re_keystore_io E) (re_salt E) (re_nonce E) wallet password (rs_keystore s) of
        (dir, Inl e) \<Rightarrow> (s\<lparr>rs_keystore := dir\<rparr>, Err (-32000, KeystoreFailed e))
      | (dir, Inr _) \<Rightarrow>
        (let address = account_address X wallet in
         (s\<lparr>rs_keystore := dir, rs_wallets := fmupd address wallet (rs_wallets s)\<rparr>, Ok (answer address))))"

definition new_account :: "externals \<Rightarrow> rpc_env \<Rightarrow> 'd rpc_method" where
  "new_account X E params s =
     (case Option.bind (get_index params 0) as_str of
        None \<Rightarrow> (s, Err (-32602, PasswordNeeded))
      | Some password \<Rightarrow> keep_wallet X E (re_new_wallet E) password JString s)"

definition import_raw_key :: "externals \<Rightarrow> rpc_env \<Rightarrow> 'd rpc_method" where
  "import_raw_key X E params s =
     (case and_then (string_param params 0) (\<lambda>private_key.
           and_then (string_param params 1) (\<lambda>password.
           and_then (map_err (\<lambda>e. (-32602, BadKey e)) (from_private_key_hex X (re_keys E) private_key)) (\<lambda>wallet.
           Ok (wallet, password)))) of
        Inl e \<Rightarrow> (s, Err e)
      | Inr (wallet, password) \<Rightarrow> keep_wallet X E wallet password JString s)"

definition from_mnemonic :: "rpc_env \<Rightarrow> string \<Rightarrow> u32 \<Rightarrow> account_wallet option" where
  "from_mnemonic E ws index = Option.bind (re_mnemonic_key E ws index) (kx_account (re_keys E))"

definition new_mnemonic :: "externals \<Rightarrow> rpc_env \<Rightarrow> 'd rpc_method" where
  "new_mnemonic X E params s =
     (case and_then (string_param params 0) (\<lambda>password.
           and_then (ok_or (re_new_mnemonic E) (-32603, MnemonicFailed)) (\<lambda>ws.
           and_then (ok_or (from_mnemonic E ws 0) (-32603, MnemonicFailed)) (\<lambda>wallet. Ok (wallet, password, ws)))) of
        Inl e \<Rightarrow> (s, Err e)
      | Inr (wallet, password, ws) \<Rightarrow>
        keep_wallet X E wallet password (\<lambda>address. JObject
          [(''mnemonic'', JString ws), (''address'', JString address), (''path'', JString ''m/44'/60'/0'/0/0'')]) s)"

definition import_mnemonic :: "externals \<Rightarrow> rpc_env \<Rightarrow> 'd rpc_method" where
  "import_mnemonic X E params s =
     (case and_then (string_param params 0) (\<lambda>ws.
           let index = (case Option.bind (get_index params 1) as_u64 of Some i \<Rightarrow> i | None \<Rightarrow> 0) in
           and_then (string_param params 2) (\<lambda>password.
           and_then (ensure (unat index < 2 ^ 32) (-32602, IndexRange)) (\<lambda>_.
           and_then (ok_or (from_mnemonic E ws (ucast index)) (-32602, MnemonicFailed)) (\<lambda>wallet. Ok (wallet, password))))) of
        Inl e \<Rightarrow> (s, Err e)
      | Inr (wallet, password) \<Rightarrow> keep_wallet X E wallet password JString s)"

definition unlocked_wallet :: "externals \<Rightarrow> rpc_env \<Rightarrow> json list \<Rightarrow> 'd rpc_state \<Rightarrow> (string \<times> account_wallet, rpc_error) result" where
  "unlocked_wallet X E params s =
     and_then (string_param params 0) (\<lambda>address.
     and_then (string_param params 1) (\<lambda>password.
     let normalized = rpc_normalize_address address in
     and_then (map_err (\<lambda>e. (-32000, KeystoreFailed e))
       (keystore_load X (re_keys E) (re_keystore_codec E) (rs_keystore s) normalized password)) (\<lambda>wallet.
     Ok (normalized, wallet))))"

definition unlock_account :: "externals \<Rightarrow> rpc_env \<Rightarrow> 'd rpc_method" where
  "unlock_account X E params s =
     (case unlocked_wallet X E params s of
        Inl e \<Rightarrow> (s, Err e)
      | Inr (normalized, wallet) \<Rightarrow> (s\<lparr>rs_wallets := fmupd normalized wallet (rs_wallets s)\<rparr>, Ok (JBool True)))"

definition send_communication :: "externals \<Rightarrow> rpc_env \<Rightarrow> 'd rpc_method" where
  "send_communication X E params s =
     (if \<not> rs_communication_enabled s then (s, Err (-32000, LocalOnly))
      else case and_then (ok_or (get_index params 0) (-32602, EnvelopeNeeded)) (\<lambda>v.
                and_then (ok_or (re_parse_envelope E v) (-32602, BadEnvelope)) (\<lambda>envelope.
                and_then (ok_or (re_now E) (-32603, ClockFailed)) (\<lambda>now. Ok (envelope, now)))) of
        Inl e \<Rightarrow> (s, Err e)
      | Inr (envelope, now) \<Rightarrow>
        (case inbox_push X envelope now (rs_outbox s) of
           (outbox, Inl e) \<Rightarrow> (s\<lparr>rs_outbox := outbox\<rparr>, Err (-32602, CommunicationFailed e))
         | (outbox, Inr _) \<Rightarrow> (s\<lparr>rs_outbox := outbox\<rparr>, Ok (JString (ce_id envelope)))))"

definition poll_communication :: "rpc_env \<Rightarrow> 'd rpc_method" where
  "poll_communication E params s =
     (if \<not> rs_communication_enabled s then (s, Err (-32000, LocalOnly))
      else case inbox_drain (rs_inbox s) of
        (messages, inbox) \<Rightarrow> (s\<lparr>rs_inbox := inbox\<rparr>, Ok (JArray (map (re_json_envelope E) messages))))"

definition pool_add :: "externals \<Rightarrow> transaction \<Rightarrow> json \<Rightarrow> 'd rpc_state \<Rightarrow> 'd rpc_state \<times> (json, rpc_error) result" where
  "pool_add X tx answer s =
     (case add X tx (rs_pool s) of
        Inl e \<Rightarrow> (s, Err (-32000, PoolFailed e))
      | Inr p \<Rightarrow> (s\<lparr>rs_pool := p\<rparr>, Ok answer))"

definition object_text :: "json \<Rightarrow> string \<Rightarrow> string option" where
  "object_text request k = Option.bind (json_get request k) as_str"

definition text_or :: "string \<Rightarrow> string option \<Rightarrow> string" where
  "text_or d t = (case t of Some v \<Rightarrow> v | None \<Rightarrow> d)"

definition requested_transaction :: "externals \<Rightarrow> json list \<Rightarrow> 'd rpc_state \<Rightarrow> (transaction, rpc_error) result" where
  "requested_transaction X params s =
     and_then (ok_or (get_index params 0) (-32602, ObjectNeeded)) (\<lambda>request.
     and_then (ensure (is_object request) (-32602, ObjectNeeded)) (\<lambda>_.
     and_then (ok_or (object_text request ''from'') (-32602, FromNeeded)) (\<lambda>from.
     and_then (ok_or (object_text request ''to'') (-32602, ToNeeded)) (\<lambda>to.
     and_then (parse_quantity_u128 (text_or ''0x0'' (object_text request ''value''))) (\<lambda>amount.
     and_then (parse_quantity_u128 (text_or ''0x1'' (object_text request ''gasPrice''))) (\<lambda>gas_price.
     and_then (parse_quantity_u128 (text_or ''0x5208'' (object_text request ''gas''))) (\<lambda>gas_limit.
     and_then (ok_or (checked_mul gas_price gas_limit) (-32602, FeeRange)) (\<lambda>fee.
     and_then (ok_or (fmlookup (rs_wallets s) (rpc_normalize_address from)) (-32000, UnknownAccount)) (\<lambda>wallet.
     let to_ledger = resolve_ledger_address X s to in
     and_then (case object_text request ''nonce'' of
         Some v \<Rightarrow> parse_quantity_u64 v
       | None \<Rightarrow> Ok (next_nonce (rs_chain s) (account_address X wallet))) (\<lambda>nonce.
     Ok (account_sign_transfer X wallet to_ledger amount fee nonce)))))))))))"

definition send_transaction :: "externals \<Rightarrow> 'd rpc_method" where
  "send_transaction X params s =
     (case requested_transaction X params s of
        Inl e \<Rightarrow> (s, Err e)
      | Inr tx \<Rightarrow> pool_add X tx (JString (''0x'' @ tx_id X tx)) s)"

definition send_raw_transaction :: "externals \<Rightarrow> 'd rpc_method" where
  "send_raw_transaction X params s =
     (case and_then (string_param params 0) (\<lambda>raw.
           and_then (map_err (\<lambda>e. (-32000, RawFailed e)) (decode_legacy X raw (rs_chain_id s))) (\<lambda>tx.
           and_then (map_err (\<lambda>e. (-32602, RawFailed e)) (transaction_hash X raw)) (\<lambda>hash. Ok (tx, hash)))) of
        Inl e \<Rightarrow> (s, Err e)
      | Inr (tx, hash) \<Rightarrow> pool_add X tx (JString hash) s)"

definition send_signed_transaction :: "externals \<Rightarrow> rpc_env \<Rightarrow> 'd rpc_method" where
  "send_signed_transaction X E params s =
     (case and_then (ok_or (get_index params 0) (-32602, TransactionNeeded)) (\<lambda>v.
           and_then (ok_or (re_parse_transaction E v) (-32602, BadTransaction)) (\<lambda>tx.
           and_then (map_err (\<lambda>e. (-32000, SignatureFailed e)) (verify_transaction X tx)) (\<lambda>_. Ok tx))) of
        Inl e \<Rightarrow> (s, Err e)
      | Inr tx \<Rightarrow> pool_add X tx (JString (''0x'' @ tx_id X tx)) s)"

definition update_methods :: "externals \<Rightarrow> rpc_env \<Rightarrow> (string \<times> 'd rpc_method) list" where
  "update_methods X E =
     [(''personal_newAccount'', new_account X E),
      (''personal_importRawKey'', import_raw_key X E),
      (''ieum_newMnemonic'', new_mnemonic X E),
      (''ieum_importMnemonic'', import_mnemonic X E),
      (''personal_unlockAccount'', unlock_account X E),
      (''ieum_sendCommunication'', send_communication X E),
      (''ieum_pollCommunication'', poll_communication E),
      (''eth_sendTransaction'', send_transaction X),
      (''personal_sendTransaction'', send_transaction X),
      (''eth_sendRawTransaction'', send_raw_transaction X),
      (''ieum_sendSignedTransaction'', send_signed_transaction X E)]"

subsection \<open>Dispatch\<close>

definition dispatch ::
  "externals \<Rightarrow> rpc_env \<Rightarrow> string \<Rightarrow> json list \<Rightarrow> 'd rpc_state \<Rightarrow> 'd rpc_state \<times> (json, rpc_error) result" where
  "dispatch X E m params s =
     (case map_of (constant_methods E @ state_methods X E s) m of
        Some v \<Rightarrow> (s, Ok v)
      | None \<Rightarrow>
        (case map_of (query_methods X E s) m of
           Some query \<Rightarrow> (s, query params)
         | None \<Rightarrow>
           (case map_of (update_methods X E) m of
              Some update \<Rightarrow> update params s
            | None \<Rightarrow> (s, Err (-32601, UnknownMethod m)))))"

text \<open>The answer of a request; the text of an error message is the rendering \<open>render\<close> of its cause.\<close>

definition rpc_response ::
  "externals \<Rightarrow> rpc_env \<Rightarrow> (rpc_cause \<Rightarrow> string) \<Rightarrow> json \<Rightarrow> 'd rpc_state \<Rightarrow> 'd rpc_state \<times> json" where
  "rpc_response X E render request s =
     (let rid = or_null (json_get request ''id'');
          m = text_or [] (Option.bind (json_get request ''method'') as_str);
          params = (case Option.bind (json_get request ''params'') as_array of Some ps \<Rightarrow> ps | None \<Rightarrow> [])
      in case dispatch X E m params s of
           (s', Inr v) \<Rightarrow> (s', JObject [(''jsonrpc'', JString ''2.0''), (''id'', rid), (''result'', v)])
         | (s', Inl (code, cause)) \<Rightarrow>
           (s', JObject [(''jsonrpc'', JString ''2.0''), (''id'', rid),
              (''error'', JObject [(''code'', JNumber code), (''message'', JString (render cause))])]))"

text \<open>A batch: every request has its own environment, because each reads the clock and random bytes anew.\<close>

fun rpc_batch ::
  "externals \<Rightarrow> (rpc_cause \<Rightarrow> string) \<Rightarrow> (rpc_env \<times> json) list \<Rightarrow> 'd rpc_state \<Rightarrow> 'd rpc_state \<times> json list" where
  "rpc_batch X render [] s = (s, [])"
| "rpc_batch X render ((E, request) # rest) s =
     (let (s1, answer) = rpc_response X E render request s;
          (s2, answers) = rpc_batch X render rest s1
      in (s2, answer # answers))"

definition handle_rpc ::
  "externals \<Rightarrow> (nat \<Rightarrow> rpc_env) \<Rightarrow> (rpc_cause \<Rightarrow> string) \<Rightarrow> string \<Rightarrow> json \<Rightarrow> 'd rpc_state \<Rightarrow> 'd rpc_state \<times> json" where
  "handle_rpc X Es render empty_batch request s =
     (case as_array request of
        Some requests \<Rightarrow>
          if requests = [] then (s, JObject [(''jsonrpc'', JString ''2.0''), (''id'', JNull),
            (''error'', JObject [(''code'', JNumber (-32600)), (''message'', JString empty_batch)])])
          else (case rpc_batch X render (map (\<lambda>(i, r). (Es i, r)) (List.enumerate 0 requests)) s of
                  (s', answers) \<Rightarrow> (s', JArray answers))
      | None \<Rightarrow> rpc_response X (Es 0) render request s)"

subsection \<open>The handle of the event loop\<close>

record 'd storage_env =
  se_sqlite :: "'d sqlite"
  se_legacy :: "bytes \<Rightarrow> legacy_image option"
  se_state_codec :: state_codec
  se_archive_codec :: archive_codec

datatype handle_error = HandleArchive archive_error | HandleStore store_state_error | HandleCommunication communication_error

definition drain_outbound_communication :: "'d rpc_state \<Rightarrow> 'd rpc_state \<times> communication_envelope list" where
  "drain_outbound_communication s = (case inbox_drain (rs_outbox s) of (messages, outbox) \<Rightarrow> (s\<lparr>rs_outbox := outbox\<rparr>, messages))"

definition receive_communication ::
  "externals \<Rightarrow> communication_envelope \<Rightarrow> u64 \<Rightarrow> 'd rpc_state \<Rightarrow> 'd rpc_state \<times> (unit, handle_error) result" where
  "receive_communication X envelope now s =
     (case inbox_push X envelope now (rs_inbox s) of
        (inbox, r) \<Rightarrow> (s\<lparr>rs_inbox := inbox\<rparr>, map_err HandleCommunication r))"

definition drain_transactions :: "externals \<Rightarrow> nat \<Rightarrow> 'd rpc_state \<Rightarrow> 'd rpc_state \<times> transaction list" where
  "drain_transactions X limit s = (case drain X limit (rs_pool s) of (txs, p) \<Rightarrow> (s\<lparr>rs_pool := p\<rparr>, txs))"

definition has_pending_transactions :: "'d rpc_state \<Rightarrow> bool" where
  "has_pending_transactions s \<longleftrightarrow> mp_transactions (rs_pool s) \<noteq> []"

definition pending_transactions_snapshot :: "'d rpc_state \<Rightarrow> nat \<Rightarrow> transaction list" where
  "pending_transactions_snapshot s limit = snapshot limit (rs_pool s)"

definition restore_transactions :: "externals \<Rightarrow> transaction list \<Rightarrow> 'd rpc_state \<Rightarrow> 'd rpc_state" where
  "restore_transactions X txs s = s\<lparr>rs_pool := readd X txs (rs_pool s)\<rparr>"

definition set_chain :: "blockchain \<Rightarrow> 'd rpc_state \<Rightarrow> 'd rpc_state" where
  "set_chain c s = s\<lparr>rs_chain := c, rs_sync_current := tip_height c, rs_sync_active := tip_height c < rs_sync_highest s\<rparr>"

definition still_valid :: "externals \<Rightarrow> blockchain \<Rightarrow> transaction \<Rightarrow> bool" where
  "still_valid X c tx \<longleftrightarrow>
     tx_nonce tx \<ge> next_nonce c (tx_from tx) \<and>
     (case checked_add (tx_amount tx) (tx_fee tx) of Some needed \<Rightarrow> balance_of c (tx_from tx) \<ge> needed | None \<Rightarrow> False) \<and>
     is_ok (verify_transaction X tx)"

definition install_finalized ::
  "externals \<Rightarrow> 'd storage_env \<Rightarrow> blockchain \<Rightarrow> blockchain \<Rightarrow> block \<Rightarrow> 'd rpc_state \<Rightarrow> 'd rpc_state \<times> (unit, handle_error) result" where
  "install_finalized X V chain_before chain_after b s =
     (case append_finalized X (se_archive_codec V) (rs_archive_limit s) b chain_before (rs_archive s) of
        (a, Inl e) \<Rightarrow> (s\<lparr>rs_archive := a\<rparr>, Err (HandleArchive e))
      | (a, Inr _) \<Rightarrow>
        (let s1 = s\<lparr>rs_archive := a\<rparr> in
         case state_commit (se_sqlite V) (se_legacy V) (se_state_codec V) X chain_after (rs_store s1) of
           (d, Inl e) \<Rightarrow> (s1\<lparr>rs_store := d\<rparr>, Err (HandleStore e))
         | (d, Inr _) \<Rightarrow>
           let s2 = set_chain chain_after (s1\<lparr>rs_store := d\<rparr>) in
           (s2\<lparr>rs_pool := retain_valid X (still_valid X chain_after) (rs_pool s2)\<rparr>, Ok ())))"

definition install_synced_chain ::
  "externals \<Rightarrow> 'd storage_env \<Rightarrow> blockchain \<Rightarrow> 'd rpc_state \<Rightarrow> 'd rpc_state \<times> (unit, handle_error) result" where
  "install_synced_chain X V c s =
     (case state_commit (se_sqlite V) (se_legacy V) (se_state_codec V) X c (rs_store s) of
        (d, Inl e) \<Rightarrow> (s\<lparr>rs_store := d\<rparr>, Err (HandleStore e))
      | (d, Inr _) \<Rightarrow> (set_chain c (s\<lparr>rs_store := d\<rparr>), Ok ()))"

definition set_peer_count :: "nat \<Rightarrow> 'd rpc_state \<Rightarrow> 'd rpc_state" where
  "set_peer_count n s = s\<lparr>rs_peer_count := n\<rparr>"

definition begin_sync :: "u64 \<Rightarrow> 'd rpc_state \<Rightarrow> 'd rpc_state" where
  "begin_sync highest s = set_chain (rs_chain s) (s\<lparr>rs_sync_highest := max (rs_sync_highest s) highest\<rparr>)"

subsection \<open>Start\<close>

text \<open>\<open>RpcServer::new\<close>; a failed \<open>expect\<close> or assertion ends the program, which is \<open>None\<close>.\<close>

definition initial_chain ::
  "externals \<Rightarrow> (genesis_config \<Rightarrow> bytes option) \<Rightarrow> u64 \<Rightarrow> genesis_config option \<Rightarrow> account_wallet \<Rightarrow> (blockchain, chain_error) result" where
  "initial_chain X json_genesis cid genesis faucet =
     (case genesis of
        Some g \<Rightarrow> from_genesis json_genesis X g
      | None \<Rightarrow> Ok (with_chain_id X cid [(account_address X faucet, 1000000000000000000)]))"

definition read_checkpoint ::
  "archive_codec \<Rightarrow> canonical_state option \<Rightarrow> (state_snapshot option \<times> block list) archive_op" where
  "read_checkpoint A stored =
     (if stored \<noteq> None then (\<lambda>a. (a, Ok (None, [])))
      else bind_io (load_latest_snapshot A) (\<lambda>checkpoint.
        if checkpoint = None then (\<lambda>a. (a, Ok (None, [])))
        else bind_io (load_active_blocks A) (\<lambda>active a. (a, Ok (checkpoint, active)))))"

definition rpc_server_new ::
  "externals \<Rightarrow> 'd storage_env \<Rightarrow> (genesis_config \<Rightarrow> bytes option) \<Rightarrow> u64 \<Rightarrow> genesis_config option \<Rightarrow> bool \<Rightarrow> account_wallet
     \<Rightarrow> archive_dir \<Rightarrow> keystore \<Rightarrow> 'd store_disk \<Rightarrow> 'd rpc_state option" where
  "rpc_server_new X V json_genesis config_chain_id genesis loopback faucet archive keys store =
     (let cid = (case genesis of Some g \<Rightarrow> gen_chain_id g | None \<Rightarrow> config_chain_id);
          limit = (case genesis of Some g \<Rightarrow> unat (gen_max_active_block_bytes g) | None \<Rightarrow> 99000000)
      in case archive_limit limit of
        Inl _ \<Rightarrow> None
      | Inr _ \<Rightarrow>
        (case initial_chain X json_genesis cid genesis faucet of
           Inl _ \<Rightarrow> None
         | Inr initial \<Rightarrow>
           (case state_load (se_sqlite V) (se_legacy V) (se_state_codec V) store of
              (_, Inl _) \<Rightarrow> None
            | (store1, Inr stored) \<Rightarrow>
              (case read_checkpoint (se_archive_codec V) stored archive of
                 (_, Inl _) \<Rightarrow> None
               | (archive1, Inr (checkpoint, active)) \<Rightarrow>
                 (case restore_chain X initial stored checkpoint active of
                    None \<Rightarrow> None
                  | Some c \<Rightarrow>
                    Some \<lparr>rs_chain = c, rs_pool = mempool_default,
                      rs_wallets = fmupd (account_address X faucet) faucet fmempty,
                      rs_faucet_alias = account_address X faucet, rs_chain_id = cid, rs_archive = archive1,
                      rs_archive_limit = limit, rs_keystore = keys, rs_store = store1, rs_peer_count = 0,
                      rs_sync_current = tip_height c, rs_sync_highest = tip_height c, rs_sync_active = False,
                      rs_inbox = inbox_default, rs_outbox = inbox_default, rs_communication_enabled = loopback\<rparr>)))))"

end
