(* ===== verification/Rpc_Properties.thy ===== *)
theory Rpc_Properties
  imports Rpc Signing_Properties
begin

text \<open>
  Properties of the JSON-RPC server: quantities survive their hexadecimal text, no request touches the
  ledger or the stores, the pool stays consistent and takes only transactions that pass the signature check
  of the program, and two places where that check or the answer is not what a client relies on.
\<close>

subsection \<open>Lemmas: quantities\<close>

lemma to_digit16_hex_char: "n < 16 \<Longrightarrow> to_digit16 (hex_char n) = Some n"
proof -
  assume "n < 16"
  then have "n \<in> set [0..<16]" by simp
  moreover have "list_all (\<lambda>n. to_digit16 (hex_char n) = Some n) [0..<16]" by code_simp
  ultimately show ?thesis by (auto simp: list_all_iff)
qed

lemma hex_char_not_plus: "n < 16 \<Longrightarrow> hex_char n \<noteq> CHR ''+''"
proof -
  assume "n < 16"
  then have "n \<in> set [0..<16]" by simp
  moreover have "list_all (\<lambda>n. hex_char n \<noteq> CHR ''+'') [0..<16]" by code_simp
  ultimately show ?thesis by (auto simp: list_all_iff)
qed

lemma hex_text_head: obtains d cs where "d < 16" "hex_text n = hex_char d # cs"
proof (induction n arbitrary: thesis rule: hex_text.induct)
  case (1 n)
  show ?case
  proof (cases "n < 16")
    case True
    then show ?thesis using 1(2) [of n "[]"] by (simp add: hex_text.simps [of n])
  next
    case False
    obtain d cs where "d < 16" "hex_text (n div 16) = hex_char d # cs" using "1.IH" [OF False] by blast
    then show ?thesis using 1(2) [of d "cs @ [hex_char (n mod 16)]"] False by (simp add: hex_text.simps [of n])
  qed
qed

lemma hex_digits_append:
  "hex_digits (xs @ ys) acc = Option.bind (hex_digits xs acc) (hex_digits ys)"
  by (induction xs arbitrary: acc) (auto split: option.splits)

lemma hex_digits_hex_text:
  fixes n :: nat
  assumes "n < 2 ^ LENGTH('a)" and "8 \<le> LENGTH('a::len)"
  shows "hex_digits (hex_text n) (0 :: 'a word) = Some (of_nat n)"
  using assms(1)
proof (induction n rule: hex_text.induct)
  case (1 n)
  have big: "(2::nat) ^ 8 \<le> 2 ^ LENGTH('a)" using assms(2) by (rule power_increasing) simp
  have "unat (of_nat 16 :: 'a word) = 16 mod 2 ^ LENGTH('a)" by (rule unat_of_nat)
  moreover have "(16::nat) < 2 ^ LENGTH('a)" using big by simp
  ultimately have sixteen: "unat (16 :: 'a word) = 16" by (metis mod_less of_nat_numeral)
  show ?case
  proof (cases "n < 16")
    case True
    then show ?thesis using big
      by (simp add: hex_text.simps [of n] to_digit16_hex_char checked_mul_def checked_add_def unsigned_of_nat take_bit_eq_mod)
  next
    case False
    let ?q = "n div 16" and ?d = "n mod 16"
    have q: "?q < 2 ^ LENGTH('a)" using 1(2) by (simp add: div_le_dividend le_less_trans [of "n div 16" n])
    have uq: "unat (of_nat ?q :: 'a word) = ?q" using q by (simp add: unsigned_of_nat take_bit_eq_mod)
    have ud: "unat (of_nat ?d :: 'a word) = ?d" using big by (simp add: unsigned_of_nat take_bit_eq_mod)
    have below: "?q * 16 < 2 ^ LENGTH('a)" using 1(2) by (rule le_less_trans [rotated]) simp
    have m: "checked_mul (of_nat ?q :: 'a word) 16 = Some (of_nat (?q * 16))"
      unfolding checked_mul_def uq sixteen using below by simp
    have um: "unat (of_nat (?q * 16) :: 'a word) = ?q * 16"
      using below by (simp add: unat_of_nat del: of_nat_mult)
    have "checked_add (of_nat (?q * 16) :: 'a word) (of_nat ?d) = Some (of_nat (?q * 16 + ?d))"
      unfolding checked_add_def um ud of_nat_add using 1(2) by (simp only: div_mult_mod_eq if_True)
    then show ?thesis
      using "1.IH" [OF False q] False m
      by (simp add: hex_text.simps [of n] hex_digits_append to_digit16_hex_char del: of_nat_mult of_nat_add)
  qed
qed

lemma from_str_radix16_hex_text:
  assumes "n < 2 ^ LENGTH('a)" and "8 \<le> LENGTH('a::len)"
  shows "from_str_radix16 (hex_text n) = Some (of_nat n :: 'a word)"
proof -
  obtain d cs where "d < 16" "hex_text n = hex_char d # cs" using hex_text_head .
  then show ?thesis using hex_digits_hex_text [OF assms] hex_char_not_plus
    by (simp add: from_str_radix16_def Let_def)
qed

lemma hex_text_not_Nil [simp]: "hex_text n \<noteq> []"
  by (rule hex_text_head [of n]) simp

subsection \<open>Properties: quantities\<close>

text \<open>
  Quantities survive their text. Every 64-bit and every 128-bit number that the server writes as a
  hexadecimal quantity is read back as the same number by the parser it applies to parameters.
\<close>
theorem quantity_roundtrip:
  "parse_quantity_u64 (quantity n) = Ok n \<and> parse_quantity_u128 (quantity_u128 m) = Ok m"
  using from_str_radix16_hex_text [of "unat n", where 'a = 64] from_str_radix16_hex_text [of "unat m", where 'a = 128]
    unat_lt [of n] unat_lt [of m]
  by (simp add: parse_quantity_u64_def parse_quantity_u128_def quantity_def quantity_u128_def strip_prefix_def starts_with_def)

subsection \<open>The contract of a method\<close>

definition ledger_view :: "'d rpc_state \<Rightarrow> blockchain \<times> u64 \<times> archive_dir \<times> nat \<times> 'd store_disk \<times> nat \<times> u64 \<times> u64 \<times> bool" where
  "ledger_view s = (rs_chain s, rs_chain_id s, rs_archive s, rs_archive_limit s, rs_store s, rs_peer_count s,
     rs_sync_current s, rs_sync_highest s, rs_sync_active s)"

definition wallets_ok :: "externals \<Rightarrow> 'd rpc_state \<Rightarrow> bool" where
  "wallets_ok X s \<longleftrightarrow> (\<forall>a w. fmlookup (rs_wallets s) a = Some w \<longrightarrow> secp256k1_law X w)"

definition env_ok :: "externals \<Rightarrow> rpc_env \<Rightarrow> bool" where
  "env_ok X E \<longleftrightarrow> secp256k1_law X (re_new_wallet E) \<and> (\<forall>bs w. kx_account (re_keys E) bs = Some w \<longrightarrow> secp256k1_law X w)"

definition pool_grows :: "externals \<Rightarrow> mempool \<Rightarrow> mempool \<Rightarrow> bool" where
  "pool_grows X p p' \<longleftrightarrow> (pool_ok X p \<longrightarrow> pool_ok X p' \<and>
     (\<forall>tx \<in> set (mp_transactions p'). tx \<in> set (mp_transactions p) \<or> verify_transaction X tx = Ok ()))"

definition rpc_step :: "externals \<Rightarrow> 'd rpc_state \<Rightarrow> 'd rpc_state \<Rightarrow> bool" where
  "rpc_step X s s' \<longleftrightarrow> ledger_view s' = ledger_view s \<and> (wallets_ok X s \<longrightarrow> wallets_ok X s' \<and> pool_grows X (rs_pool s) (rs_pool s'))"

lemma rpc_step_refl [simp]: "rpc_step X s s"
  by (simp add: rpc_step_def pool_grows_def)

lemma rpc_step_trans: "rpc_step X s t \<Longrightarrow> rpc_step X t u \<Longrightarrow> rpc_step X s u"
  unfolding rpc_step_def pool_grows_def by (elim conjE, intro conjI impI) (simp, simp, simp, meson)

lemma rpc_step_outbox: "rpc_step X s (s\<lparr>rs_outbox := b\<rparr>)" "rpc_step X s (s\<lparr>rs_inbox := b\<rparr>)" "rpc_step X s (s\<lparr>rs_keystore := k\<rparr>)"
  by (simp_all add: rpc_step_def pool_grows_def ledger_view_def wallets_ok_def)

lemma rpc_step_wallet: "secp256k1_law X w \<Longrightarrow> rpc_step X s (s\<lparr>rs_wallets := fmupd a w (rs_wallets s)\<rparr>)"
  by (auto simp: rpc_step_def pool_grows_def ledger_view_def wallets_ok_def)

locale rpc_contract =
  fixes X :: externals and E :: rpc_env and m :: "'d rpc_method"
  assumes keeps: "hex_law X \<Longrightarrow> env_ok X E \<Longrightarrow> m params s = (s', r) \<Longrightarrow> rpc_step X s s'"
begin

lemma keeps_ledger: "hex_law X \<Longrightarrow> env_ok X E \<Longrightarrow> ledger_view (fst (m params s)) = ledger_view s"
  using keeps [of params s] by (cases "m params s") (simp add: rpc_step_def)

lemma keeps_pool: "hex_law X \<Longrightarrow> env_ok X E \<Longrightarrow> wallets_ok X s \<Longrightarrow> pool_ok X (rs_pool s) \<Longrightarrow> pool_ok X (rs_pool (fst (m params s)))"
  using keeps [of params s] by (cases "m params s") (simp add: rpc_step_def pool_grows_def)

end

lemma keep_wallet_step:
  assumes "secp256k1_law X w" and "keep_wallet X E w password answer s = (s', r)"
  shows "rpc_step X s s'"
proof -
  obtain dir q where k: "keystore_store X (re_keys E) (re_keystore_codec E) (re_keystore_io E) (re_salt E) (re_nonce E) w password (rs_keystore s) = (dir, q)"
    by fastforce
  have "rpc_step X s (s\<lparr>rs_keystore := dir\<rparr>)" by (rule rpc_step_outbox)
  moreover have "rpc_step X (s\<lparr>rs_keystore := dir\<rparr>) (s\<lparr>rs_keystore := dir, rs_wallets := fmupd (account_address X w) w (rs_wallets s)\<rparr>)"
    using rpc_step_wallet [OF assms(1), of "s\<lparr>rs_keystore := dir\<rparr>"] by simp
  ultimately show ?thesis
    using assms(2) k rpc_step_trans by (auto simp: keep_wallet_def Let_def split: sum.splits)
qed

lemma pool_add_step:
  assumes "wallets_ok X s \<Longrightarrow> verify_transaction X tx = Ok ()" and "pool_add X tx answer s = (s', r)"
  shows "rpc_step X s s'"
proof (cases "add X tx (rs_pool s)")
  case (Inl e)
  then show ?thesis using assms(2) by (simp add: pool_add_def)
next
  case (Inr p)
  then have s': "s' = s\<lparr>rs_pool := p\<rparr>" using assms(2) by (simp add: pool_add_def)
  have "wallets_ok X s \<Longrightarrow> pool_grows X (rs_pool s) p"
    unfolding pool_grows_def using add_Ok [OF _ Inr] assms(1) by blast
  then show ?thesis by (simp add: s' rpc_step_def ledger_view_def wallets_ok_def)
qed

lemma decode_legacy_marker: "decode_legacy X raw cid = Ok tx \<Longrightarrow> starts_with (tx_signature tx) ''ethraw:''"
  by (auto simp: decode_legacy_def Let_def result_simps starts_with_def)

interpretation new_account: rpc_contract X E "new_account X E" for X E
  by unfold_locales (auto simp: new_account_def env_ok_def intro: keep_wallet_step split: option.splits)

interpretation import_raw_key: rpc_contract X E "import_raw_key X E" for X E
  by unfold_locales
    (auto simp: import_raw_key_def env_ok_def from_private_key_hex_def from_private_key_def result_simps
      intro: keep_wallet_step split: sum.splits)

interpretation new_mnemonic: rpc_contract X E "new_mnemonic X E" for X E
  by unfold_locales
    (auto simp: new_mnemonic_def env_ok_def from_mnemonic_def result_simps bind_eq_Some_conv intro: keep_wallet_step split: sum.splits)

interpretation import_mnemonic: rpc_contract X E "import_mnemonic X E" for X E
  by unfold_locales
    (auto simp: import_mnemonic_def env_ok_def from_mnemonic_def result_simps bind_eq_Some_conv Let_def intro: keep_wallet_step split: sum.splits)

interpretation send_communication: rpc_contract X E "send_communication X E" for X E
  by unfold_locales (auto simp: send_communication_def rpc_step_outbox split: if_splits sum.splits prod.splits)

interpretation poll_communication: rpc_contract X E "poll_communication E" for X E
  by unfold_locales (auto simp: poll_communication_def rpc_step_outbox split: if_splits prod.splits)

interpretation send_raw_transaction: rpc_contract X E "send_raw_transaction X" for X E
proof
  fix params and s s' :: "'a rpc_state" and r
  assume "send_raw_transaction X params s = (s', r)"
  then show "rpc_step X s s'"
    by (auto simp: send_raw_transaction_def result_simps verify_transaction_def
        intro: pool_add_step dest!: decode_legacy_marker split: sum.splits)
qed

interpretation send_signed_transaction: rpc_contract X E "send_signed_transaction X E" for X E
  by unfold_locales
    (auto simp: send_signed_transaction_def result_simps intro: pool_add_step split: sum.splits)

lemma keystore_load_key: "keystore_load X K C dir a password = Ok w \<Longrightarrow> \<exists>bs. kx_account K bs = Some w"
  by (auto simp: keystore_load_def open_document_def from_private_key_def Let_def result_simps)

lemma unlocked_wallet_key: "unlocked_wallet X E params s = Ok (a, w) \<Longrightarrow> \<exists>bs. kx_account (re_keys E) bs = Some w"
  by (auto simp: unlocked_wallet_def Let_def result_simps dest: keystore_load_key)

interpretation unlock_account: rpc_contract X E "unlock_account X E" for X E
  by unfold_locales
    (auto simp: unlock_account_def env_ok_def intro!: rpc_step_wallet dest: unlocked_wallet_key split: sum.splits)

lemma requested_transaction_signed:
  assumes "requested_transaction X params s = Ok tx"
  obtains a w to amount fee nonce where "fmlookup (rs_wallets s) a = Some w" "tx = account_sign_transfer X w to amount fee nonce"
  using assms by (auto simp: requested_transaction_def Let_def and_then_Ok ok_or_Ok)

interpretation send_transaction: rpc_contract X E "send_transaction X" for X E
proof
  fix params and s s' :: "'a rpc_state" and r
  assume law: "hex_law X" and send: "send_transaction X params s = (s', r)"
  show "rpc_step X s s'"
  proof (cases "requested_transaction X params s")
    case (Inl e)
    then show ?thesis using send by (simp add: send_transaction_def)
  next
    case (Inr tx)
    then have "wallets_ok X s \<Longrightarrow> verify_transaction X tx = Ok ()"
      by (rule requested_transaction_signed) (auto simp: wallets_ok_def intro: account_transfer_verifies [OF law])
    then show ?thesis using send Inr by (auto simp: send_transaction_def intro: pool_add_step)
  qed
qed

lemmas update_contracts = new_account.keeps import_raw_key.keeps new_mnemonic.keeps import_mnemonic.keeps unlock_account.keeps
  send_communication.keeps poll_communication.keeps send_transaction.keeps send_raw_transaction.keeps send_signed_transaction.keeps

lemma dispatch_step:
  fixes s s' :: "'d rpc_state"
  assumes "hex_law X" and "env_ok X E" and "dispatch X E m params s = (s', r)"
  shows "rpc_step X s s'"
proof (cases "map_of (constant_methods E @ state_methods X E s) m = None \<and> map_of (query_methods X E s) m = None")
  case False
  then have "s' = s" using assms(3) by (auto simp: dispatch_def split: option.splits)
  then show ?thesis by simp
next
  case True
  show ?thesis
  proof (cases "map_of (update_methods X E :: (string \<times> 'd rpc_method) list) m")
    case None
    then show ?thesis using assms(3) True by (simp add: dispatch_def del: map_of_append)
  next
    case (Some update)
    have "update params s = (s', r)" using assms(3) True Some by (simp add: dispatch_def del: map_of_append)
    moreover have "(m, update) \<in> set (update_methods X E)" using Some by (rule map_of_SomeD)
    ultimately show ?thesis
      unfolding update_methods_def by (auto intro: update_contracts [OF assms(1,2)])
  qed
qed

lemma rpc_response_step:
  assumes "hex_law X" and "env_ok X E" and "rpc_response X E render request s = (s', answer)"
  shows "rpc_step X s s'"
  using assms(3) dispatch_step [OF assms(1,2)]
  by (auto simp: rpc_response_def Let_def split: prod.splits sum.splits)

lemma rpc_batch_step:
  assumes "hex_law X" and "\<forall>(E, request) \<in> set requests. env_ok X E" and "rpc_batch X render requests s = (s', answers)"
  shows "rpc_step X s s'"
  using assms(2,3)
proof (induction requests arbitrary: s answers)
  case (Cons e rest)
  obtain E request where e: "e = (E, request)" by (cases e)
  obtain s1 answer where one: "rpc_response X E render request s = (s1, answer)" by fastforce
  obtain answers' where rest: "rpc_batch X render rest s1 = (s', answers')"
    using Cons.prems(2) one e by (auto simp: Let_def split: prod.splits)
  have "rpc_step X s s1" using Cons.prems(1) e by (intro rpc_response_step [OF assms(1) _ one]) simp
  moreover have "rpc_step X s1 s'" using Cons.prems(1) by (intro Cons.IH [OF _ rest]) simp
  ultimately show ?case by (rule rpc_step_trans)
qed simp

lemma handle_rpc_step:
  assumes "hex_law X" and "\<forall>i. env_ok X (Es i)" and "handle_rpc X Es render empty_batch request s = (s', answer)"
  shows "rpc_step X s s'"
proof (cases "as_array request")
  case None
  then show ?thesis using assms(2,3) by (auto simp: handle_rpc_def intro: rpc_response_step [OF assms(1)])
next
  case (Some requests)
  then show ?thesis using assms(2,3)
    by (auto simp: handle_rpc_def intro!: rpc_batch_step [OF assms(1)] split: if_splits prod.splits)
qed

subsection \<open>Properties: requests\<close>

text \<open>
  C28: no request touches the ledger. Whatever a client sends, a single request or a batch, the chain, the
  archive, the state database and the synchronization state are the same afterwards; the pool stays
  consistent, and every transaction that is new in it passes the signature check of the program. Wallets
  sign as the signature library promises.
\<close>
theorem rpc_keeps_ledger:
  assumes "hex_law X" and "\<forall>i. env_ok X (Es i)" and "wallets_ok X s" and "pool_ok X (rs_pool s)"
    and "handle_rpc X Es render empty_batch request s = (s', answer)"
  shows "ledger_view s' = ledger_view s \<and> wallets_ok X s' \<and> pool_ok X (rs_pool s') \<and>
    (\<forall>tx \<in> set (mp_transactions (rs_pool s')). tx \<in> set (mp_transactions (rs_pool s)) \<or> verify_transaction X tx = Ok ())"
  using handle_rpc_step [OF assms(1,2,5)] assms(3,4) by (simp add: rpc_step_def pool_grows_def)

text \<open>A concrete server: an empty ledger, one wallet, and an environment whose keys are the sample account.\<close>

definition sample_env :: "(json \<Rightarrow> transaction option) \<Rightarrow> rpc_env" where
  "sample_env parse = \<lparr>re_version = ''1'', re_keys = sample_keys\<lparr>kx_account := \<lambda>_. Some (sample_account 7)\<rparr>,
     re_keystore_codec = \<lparr>kc_json = (\<lambda>_. []), kc_parse = (\<lambda>_. None)\<rparr>, re_keystore_io = AtomicDone, re_salt = [], re_nonce = [],
     re_new_wallet = sample_account 7, re_new_mnemonic = None, re_mnemonic_key = (\<lambda>_ _. None), re_now = Some 0, re_uptime = 0,
     re_progress = (\<lambda>_ _. JNull), re_records = Absent, re_parse_records = (\<lambda>_. None), re_parse_envelope = (\<lambda>_. None),
     re_parse_transaction = parse, re_json_envelope = (\<lambda>_. JNull), re_json_status = (\<lambda>_. JNull), re_json_event = (\<lambda>_. JNull),
     re_json_block = (\<lambda>_. None)\<rparr>"

definition sample_rpc :: "externals \<Rightarrow> db_view rpc_state" where
  "sample_rpc X = \<lparr>rs_chain = chain_new X [], rs_pool = mempool_default,
     rs_wallets = fmupd (account_address X (sample_account 7)) (sample_account 7) fmempty,
     rs_faucet_alias = account_address X (sample_account 7), rs_chain_id = 21004, rs_archive = empty_archive,
     rs_archive_limit = 99000000, rs_keystore = fmempty, rs_store = memory_store, rs_peer_count = 0, rs_sync_current = 0,
     rs_sync_highest = 0, rs_sync_active = False, rs_inbox = inbox_default, rs_outbox = inbox_default,
     rs_communication_enabled = True\<rparr>"

lemma default_pool_add:
  "json_transaction X tx = Some bs \<Longrightarrow> length bs \<le> DEFAULT_MAX_BYTES \<Longrightarrow> \<exists>p. add X tx mempool_default = Ok p"
  by (simp add: add_def mempool_default_def with_limits_def replace_previous_def DEFAULT_MAX_BYTES_def Let_def)

lemma sample_rpc_ok:
  "env_ok sample_externals (sample_env parse)" "wallets_ok sample_externals (sample_rpc X)" "pool_ok X (rs_pool (sample_rpc X))"
  using sample_secp256k1_law [of 7] pool_ok_with_limits [of DEFAULT_MAX_BYTES X DEFAULT_MAX_TRANSACTIONS]
  by (auto simp: env_ok_def sample_env_def wallets_ok_def sample_rpc_def sample_keys_def mempool_default_def DEFAULT_MAX_BYTES_def split: if_splits)

theorem rpc_keeps_ledger_witness:
  "ledger_view (fst (handle_rpc sample_externals (\<lambda>_. sample_env (\<lambda>_. None)) (\<lambda>_. []) []
     (JObject [(''method'', JString ''eth_sendTransaction''), (''params'', JArray [JObject
       [(''from'', JString (account_address sample_externals (sample_account 7))), (''to'', JString ''0x1''), (''value'', JString ''0x5'')]])])
     (sample_rpc sample_externals))) = ledger_view (sample_rpc sample_externals)"
  (is "ledger_view (fst ?r) = _")
proof -
  have "?r = (fst ?r, snd ?r)" by simp
  from rpc_keeps_ledger [OF sample_hex_law allI [OF sample_rpc_ok(1)] sample_rpc_ok(2,3) this] show ?thesis by blast
qed

lemma for_each_failing:
  assumes "\<forall>s. \<exists>e. f x s = Inl e" and "x \<in> set xs"
  shows "\<exists>e. for_each f xs s = Inl e"
  using assms(2)
proof (induction xs arbitrary: s)
  case (Cons y ys)
  show ?case
  proof (cases "f y s")
    case (Inr t)
    then have "x \<noteq> y" using assms(1) by (metis sum.distinct(1))
    then show ?thesis using Cons Inr by simp
  qed simp
qed simp

lemma unexecutable_transaction_block:
  assumes "\<forall>s. \<exists>e. apply_transaction X (chain_id c) (blk_producer b) tx s = Inl e" and "tx \<in> set (blk_transactions b)"
  shows "\<exists>e. apply_block X c b = (c, Err e)"
proof -
  from for_each_failing [where f = "apply_transaction X (chain_id c) (blk_producer b)", OF assms]
  have "\<exists>e. execute_block X (chain_id c) b (chain_state c) = Inl e"
    by (auto simp: execute_block_def chain_state_def apply_transactions_def) (metis and_then_simps(2))
  then show ?thesis by (auto simp: apply_block_def)
qed

lemma unverified_raw_block_fails:
  assumes "starts_with (tx_signature tx) ''ethraw:''" and "verify_embedded X tx (chain_id c) = Err e" and "tx \<in> set (blk_transactions b)"
  shows "\<exists>e. apply_block X c b = (c, Err e)"
  using assms(1,2) by (intro unexecutable_transaction_block [OF _ assms(3)]) (auto simp: apply_transaction_def)

lemma unsigned_block_fails:
  assumes "verify_transaction X tx = Err e" and "tx \<in> set (blk_transactions b)"
  shows "\<exists>e. apply_block X c b = (c, Err e)"
proof -
  have "\<not> starts_with (tx_signature tx) ''ethraw:''" using assms(1) by (auto simp: verify_transaction_def)
  then show ?thesis
    using assms(1) by (intro unexecutable_transaction_block [OF _ assms(2)]) (auto simp: apply_transaction_def)
qed

text \<open>
  The server takes transactions that nobody signed. A transaction whose signature field starts with the
  marker of raw Ethereum transactions passes the check of \<open>ieum_sendSignedTransaction\<close> whatever follows the
  marker, so it enters the pool under any sender; the embedded signature is checked only when a block is
  executed, and then every block that contains the transaction is rejected.
\<close>
theorem forged_raw_transaction_accepted:
  assumes "re_parse_transaction E v = Some tx" and "starts_with (tx_signature tx) ''ethraw:''"
    and "verify_embedded X tx (chain_id c) = Err e" and "pool_ok X (rs_pool s)" and "add X tx (rs_pool s) = Ok p"
  shows "dispatch X E ''ieum_sendSignedTransaction'' [v] s = (s\<lparr>rs_pool := p\<rparr>, Ok (JString (''0x'' @ tx_id X tx))) \<and>
    tx \<in> set (mp_transactions p) \<and> (\<forall>b. tx \<in> set (blk_transactions b) \<longrightarrow> (\<exists>e. apply_block X c b = (c, Err e)))"
proof (intro conjI allI impI)
  show "dispatch X E ''ieum_sendSignedTransaction'' [v] s = (s\<lparr>rs_pool := p\<rparr>, Ok (JString (''0x'' @ tx_id X tx)))"
    using assms(1,2,5)
    by (simp add: dispatch_def constant_methods_def state_methods_def query_methods_def update_methods_def Let_def
        send_signed_transaction_def get_index_def verify_transaction_def pool_add_def)
  show "tx \<in> set (mp_transactions p)" using pool_ok_add [OF assms(4,5)] by blast
  fix b :: block assume "tx \<in> set (blk_transactions b)"
  then show "\<exists>e. apply_block X c b = (c, Err e)" by (rule unverified_raw_block_fails [OF assms(2,3)])
qed

definition forged_transaction :: transaction where
  "forged_transaction = \<lparr>tx_from = ''0x00'', tx_to = ''0x01'', tx_amount = 1, tx_fee = 1, tx_nonce = 0, tx_signature = ''ethraw:''\<rparr>"

lemma forged_not_embedded: "\<exists>e. verify_embedded sample_externals forged_transaction cid = Err e"
  by (simp add: verify_embedded_def forged_transaction_def strip_prefix_def starts_with_def sample_externals_def decode_list_def decode_item_def)

theorem forged_raw_transaction_accepted_witness:
  "\<exists>p. dispatch sample_externals (sample_env (\<lambda>_. Some forged_transaction)) ''ieum_sendSignedTransaction'' [JNull] (sample_rpc sample_externals) =
      ((sample_rpc sample_externals)\<lparr>rs_pool := p\<rparr>, Ok (JString (''0x'' @ tx_id sample_externals forged_transaction))) \<and>
    forged_transaction \<in> set (mp_transactions p)"
proof -
  obtain e where e: "verify_embedded sample_externals forged_transaction (chain_id (chain_new sample_externals [])) = Err e"
    using forged_not_embedded by blast
  obtain p where p: "add sample_externals forged_transaction (rs_pool (sample_rpc sample_externals)) = Ok p"
    using default_pool_add [of sample_externals forged_transaction]
    by (auto simp: sample_rpc_def sample_externals_def DEFAULT_MAX_BYTES_def forged_transaction_def signing_bytes_def push_text_def str_bytes_def)
  have "re_parse_transaction (sample_env (\<lambda>_. Some forged_transaction)) JNull = Some forged_transaction"
    "starts_with (tx_signature forged_transaction) ''ethraw:''"
    by (simp_all add: sample_env_def forged_transaction_def starts_with_def)
  from forged_raw_transaction_accepted [OF this e sample_rpc_ok(3) p] show ?thesis by blast
qed

lemma find_indexed_None: "find_indexed P i xs = None \<longleftrightarrow> (\<forall>x \<in> set xs. \<not> P x)"
  by (induction P i xs rule: find_indexed.induct) auto

lemma find_transaction_None: "find_transaction X h bs = None \<longleftrightarrow> (\<forall>b \<in> set bs. \<forall>tx \<in> set (blk_transactions b). tx_id X tx \<noteq> h)"
proof (induction X h bs rule: find_transaction.induct)
  case (2 X h b bs)
  then show ?case using find_indexed_None [of "\<lambda>tx. tx_id X tx = h" 0 "blk_transactions b"]
    by (cases "find_indexed (\<lambda>tx. tx_id X tx = h) 0 (blk_transactions b)") auto
qed simp

text \<open>
  The hash that \<open>eth_sendRawTransaction\<close> returns is of no use. It is the Keccak hash of the raw
  transaction, but transactions are looked up by the SHA-256 hash of the internal form; unless these
  happen to coincide for some transaction, the receipt and the transaction for the returned hash are null
  for ever, even when the transaction has been executed in a block.
\<close>
theorem raw_hash_unknown:
  assumes "hex_law X" and "send_raw_transaction X [JString raw] s = (s', Ok answer)" and "hex_decode X (trim_start_0x raw) = Some bs"
    and "\<forall>tx \<in> set (all_transactions (rs_chain t)). sha256 X (signing_bytes tx @ str_bytes (tx_signature tx)) \<noteq> keccak256 X bs"
  shows "get_transaction_receipt X t [answer] = Ok JNull \<and> get_transaction_by_hash X t [answer] = Ok JNull"
proof -
  have answer: "answer = JString (''0x'' @ hex_encode X (keccak256 X bs))"
    using assms(2,3)
    by (auto simp: send_raw_transaction_def string_param_def get_index_def transaction_hash_def pool_add_def result_simps split: sum.splits)
  have "hex_encode X u = hex_encode X v \<Longrightarrow> u = v" for u v
    using assms(1) unfolding hex_law_def by (metis option.inject)
  then have "tx_id X tx \<noteq> hex_encode X (keccak256 X bs)" if "b \<in> set (blocks (rs_chain t))" "tx \<in> set (blk_transactions b)" for b tx
    using assms(4) that unfolding tx_id_def all_transactions_def by auto
  then have "transaction_by_hash X (rs_chain t) (''0x'' @ hex_encode X (keccak256 X bs)) = None"
    unfolding transaction_by_hash_def trim_start_0x_hex [OF assms(1)] find_transaction_None by blast
  then show ?thesis
    by (simp add: answer get_transaction_receipt_def get_transaction_by_hash_def string_param_def get_index_def or_null_def)
qed

lemma decode_legacy_lengths:
  assumes "hex_law X" and "\<forall>m. length (keccak256 X m) = 32" and "decode_legacy X raw cid = Ok tx"
  shows "length (tx_from tx) = 42 \<and> length (tx_to tx) = 42"
  using assms(2,3) hex_lawD(2) [OF assms(1)] by (auto simp: decode_legacy_def Let_def result_simps)

theorem raw_hash_unknown_witness:
  "\<exists>raw s' h t tx. send_raw_transaction sample_externals [JString raw] (sample_rpc sample_externals) = (s', Ok h) \<and>
    decode_legacy sample_externals raw 21004 = Ok tx \<and> tx \<in> set (all_transactions (rs_chain (t :: db_view rpc_state))) \<and>
    get_transaction_receipt sample_externals t [h] = Ok JNull"
proof -
  let ?X = sample_externals and ?bs = "encode_list (map encode_bytes sample_raw_fields)"
  let ?raw = "sample_hex_encode ?bs" and ?s = "sample_rpc sample_externals"
  obtain tx where tx: "decode_legacy ?X ?raw 21004 = Ok tx" using sample_raw_decodes by (auto simp: is_ok_def split: sum.splits)
  let ?t = "?s\<lparr>rs_chain := (rs_chain ?s)\<lparr>blocks := [block_new ?X 1 [] 0 [] [tx]]\<rparr>\<rparr>"
  have hex: "hex_decode ?X (trim_start_0x ?raw) = Some ?bs"
    using hex_encode_not_0x [OF sample_hex_law, of ?bs] hex_lawD(1) [OF sample_hex_law, of ?bs]
    by (simp add: sample_externals_def trim_start_0x_id starts_with_0x)
  have "\<forall>m. length (keccak256 ?X m) = 32" by (simp add: sample_externals_def)
  from decode_legacy_lengths [OF sample_hex_law this tx] have small: "length (signing_bytes tx) \<le> DEFAULT_MAX_BYTES"
    by (simp add: signing_bytes_def push_text_def str_bytes_def DEFAULT_MAX_BYTES_def)
  obtain p where p: "add ?X tx (rs_pool ?s) = Ok p"
    using default_pool_add [of ?X tx] small by (auto simp: sample_rpc_def sample_externals_def)
  have "transaction_hash ?X ?raw = Ok (''0x'' @ hex_encode ?X (keccak256 ?X ?bs))" by (simp add: transaction_hash_def hex)
  moreover have "rs_chain_id ?s = 21004" by (simp add: sample_rpc_def)
  ultimately obtain s' h where send: "send_raw_transaction ?X [JString ?raw] ?s = (s', Ok h)"
    using tx p by (simp add: send_raw_transaction_def string_param_def get_index_def pool_add_def)
  have in_t: "tx \<in> set (all_transactions (rs_chain ?t))" by (simp add: all_transactions_def block_new_def Let_def)
  have "\<forall>tx \<in> set (all_transactions (rs_chain ?t)). sha256 ?X (signing_bytes tx @ str_bytes (tx_signature tx)) \<noteq> keccak256 ?X ?bs"
    by (simp add: sample_externals_def)
  from raw_hash_unknown [OF sample_hex_law send hex this] send tx in_t show ?thesis by blast
qed

end
