(* ===== verification/Wire.thy ===== *)
theory Wire
  imports Peer_Guard Communication Snapshot_Sync Consensus_Runtime
begin

text \<open>
  The peer-to-peer task (\<open>src/network.rs\<close>): the messages and their framing, the filter for learned
  addresses, and the loop of \<open>P2pNode::run\<close> over commands of the node and events of the swarm. The libp2p
  swarm is not part of the program: what the code calls on it is recorded, in order, in \<open>ns_actions\<close>,
  and what it answers (DNS, dialling, listening, number of peers) is read from \<open>network_env\<close>. Events sent
  to the node core are recorded in \<open>ns_events\<close>. A \<open>PeerId\<close> is its text, a \<open>Multiaddr\<close> the list of its
  protocols. Fields of events that are only printed are left out.
\<close>

subsection \<open>Addresses\<close>

type_synonym ip4 = "u8 \<times> u8 \<times> u8 \<times> u8"

datatype ip_addr = IpV4 ip4 | IpV6 u128

datatype protocol = Ip4 ip4 | Ip6 u128 | Dns4 string | P2p string | P2pCircuit | OtherProtocol string

type_synonym multiaddr = "protocol list"

fun is_lan_ipv4 :: "ip4 \<Rightarrow> bool" where
  "is_lan_ipv4 (a, b, _, _) \<longleftrightarrow>
     a = 10 \<or> (a = 172 \<and> 16 \<le> b \<and> b \<le> 31) \<or> (a = 192 \<and> b = 168) \<or> (a = 169 \<and> b = 254) \<or>
     (a = 100 \<and> 64 \<le> b \<and> b \<le> 127)"

fun is_public_ipv4 :: "ip4 \<Rightarrow> bool" where
  "is_public_ipv4 (a, b, c, d) \<longleftrightarrow>
     a \<noteq> 127 \<and> (a, b, c, d) \<noteq> (0, 0, 0, 0) \<and> (a, b, c, d) \<noteq> (255, 255, 255, 255) \<and>
     \<not> (224 \<le> a \<and> a \<le> 239) \<and> \<not> is_lan_ipv4 (a, b, c, d) \<and> a \<noteq> 0 \<and> a < 224 \<and>
     \<not> (a = 192 \<and> b = 0) \<and> \<not> (a = 198 \<and> (b = 18 \<or> b = 19)) \<and> \<not> (a = 198 \<and> b = 51) \<and> \<not> (a = 203 \<and> b = 0)"

definition accepts_learned_address :: "multiaddr \<Rightarrow> bool \<Rightarrow> bool" where
  "accepts_learned_address address same_lan_peer =
     list_all (\<lambda>protocol. case protocol of
         Ip4 ip \<Rightarrow> is_public_ipv4 ip \<or> (same_lan_peer \<and> is_lan_ipv4 ip)
       | Ip6 ip \<Rightarrow> ip \<noteq> 1 \<and> ip \<noteq> 0
       | _ \<Rightarrow> True) address"

fun normalize_loop :: "string \<Rightarrow> protocol list \<Rightarrow> bool \<Rightarrow> multiaddr \<Rightarrow> multiaddr option" where
  "normalize_loop peer [] after_circuit normalized = Some normalized"
| "normalize_loop peer (P2pCircuit # rest) after_circuit normalized =
     normalize_loop peer rest True (normalized @ [P2pCircuit])"
| "normalize_loop peer (P2p found # rest) after_circuit normalized =
     (if found = peer \<and> rest = [] then normalize_loop peer rest after_circuit normalized
      else if after_circuit then None
      else normalize_loop peer rest after_circuit (normalized @ [P2p found]))"
| "normalize_loop peer (protocol # rest) after_circuit normalized =
     normalize_loop peer rest after_circuit (normalized @ [protocol])"

definition normalize_learned_address :: "multiaddr \<Rightarrow> string \<Rightarrow> multiaddr option" where
  "normalize_learned_address address peer =
     (if length (filter (\<lambda>p. p = P2pCircuit) address) > 1 then None
      else case normalize_loop peer address False [] of
        None \<Rightarrow> None
      | Some normalized \<Rightarrow> if normalized = [] then None else Some normalized)"

fun dns4_domain :: "protocol \<Rightarrow> string option" where
  "dns4_domain (Dns4 domain) = Some domain"
| "dns4_domain _ = None"

fun substitute_dns4 :: "ip4 \<Rightarrow> protocol \<Rightarrow> protocol" where
  "substitute_dns4 ip (Dns4 _) = Ip4 ip"
| "substitute_dns4 ip other = other"

fun ipv4_only :: "ip_addr \<Rightarrow> ip4 option" where
  "ipv4_only (IpV4 ip) = Some ip"
| "ipv4_only (IpV6 _) = None"

datatype network_error =
    DnsFailed string | NoIpv4 string | BootstrapPeerIdMissing | DialFailed | ListenFailed | TruncatedHeader
  | DeclaredTooLarge nat | ZstdFailed | SizeMismatch nat | BadWireJson | SerializeFailed | OversizeMessage
  | UndecodableMessage network_error | EventChannelClosed | ResponseFailed | WrongTarget | WrongSender
  | NetworkClock | BadSignal communication_error

text \<open>
  The addresses differ in the substituted octets only, so the order of their encodings, by which the
  code sorts them, is the order of the octets.
\<close>

definition resolve_dns4_addresses ::
  "(string \<Rightarrow> ip_addr list option) \<Rightarrow> multiaddr \<Rightarrow> (multiaddr list, network_error) result" where
  "resolve_dns4_addresses lookup_host address =
     (case List.map_filter dns4_domain address of
        [] \<Rightarrow> Ok [address]
      | domain # _ \<Rightarrow>
        and_then (ok_or (lookup_host domain) (DnsFailed domain)) (\<lambda>resolved.
        let ipv4_addresses = remdups (List.map_filter ipv4_only resolved) in
        if ipv4_addresses = [] then Err (NoIpv4 domain)
        else Ok (map (\<lambda>ip. map (substitute_dns4 ip) address) (sort ipv4_addresses))))"

subsection \<open>Messages\<close>

definition BLOCK_TOPIC :: string where
  "BLOCK_TOPIC = ''ieum-chain/blocks/1''"

definition CONSENSUS_TOPIC :: string where
  "CONSENSUS_TOPIC = ''ieum-chain/consensus/1''"

definition SYNC_TOPIC :: string where
  "SYNC_TOPIC = ''ieum-chain/sync/2''"

datatype wire_message =
    WireBlock block | WireTransaction transaction | WireProposal signed_proposal | WireConsensus consensus_message
  | WireEvidence double_vote_evidence | WireValidatorRegistration validator_registration
  | WireNodeRewardRegistration node_reward_registration | WireUpdateAvailable string
  | WireSyncRequest string u64 | WireSyncResponse string sync_tip "finality_certificate list"

datatype network_command =
    PublishBlock block | PublishTransaction transaction | PublishConsensus consensus_message
  | PublishProposal signed_proposal | PublishEvidence double_vote_evidence
  | PublishValidatorRegistration validator_registration
  | PublishNodeRewardRegistration node_reward_registration | PublishUpdateAvailable string
  | RequestSync u64 | RespondSync string sync_tip "finality_certificate list" | Dial multiaddr
  | SendCommunication communication_envelope | Shutdown

datatype network_event =
    PeerDiscovered string | OutgoingConnectionFailed "string option" | PeerConnected string nat
  | PeerDisconnected string nat | BlockReceived string block | TransactionReceived string transaction
  | ConsensusReceived string consensus_message | ProposalReceived string signed_proposal
  | EvidenceReceived string double_vote_evidence
  | ValidatorRegistrationReceived string validator_registration
  | NodeRewardRegistrationReceived string node_reward_registration | UpdateAvailableReceived string string
  | SyncRequested string string u64 | SyncReceived string sync_tip "finality_certificate list"
  | CommunicationReceived string communication_envelope

subsection \<open>Framing\<close>

record wire_codec =
  wc_json :: "wire_message \<Rightarrow> bytes option"
  wc_parse :: "bytes \<Rightarrow> wire_message option"
  wc_compress :: "bytes \<Rightarrow> bytes option"
  wc_decompress :: "bytes \<Rightarrow> nat \<Rightarrow> bytes option"

definition COMPRESSED_WIRE_MAGIC :: bytes where
  "COMPRESSED_WIRE_MAGIC = [0x49, 0x45, 0x55, 0x4D, 0x5A, 0x01]"

definition COMPRESSION_THRESHOLD_BYTES :: nat where
  "COMPRESSION_THRESHOLD_BYTES = 1024"

definition WIRE_HEADER_BYTES :: nat where
  "WIRE_HEADER_BYTES = length COMPRESSED_WIRE_MAGIC + 4"

definition encode_wire_message :: "wire_codec \<Rightarrow> wire_message \<Rightarrow> (bytes, network_error) result" where
  "encode_wire_message W message =
     and_then (ok_or (wc_json W message) SerializeFailed) (\<lambda>json.
     if length json < COMPRESSION_THRESHOLD_BYTES \<or> length json > 2 ^ 32 - 1 then Ok json
     else
       and_then (ok_or (wc_compress W json) SerializeFailed) (\<lambda>compressed.
       if WIRE_HEADER_BYTES + length compressed \<ge> length json then Ok json
       else Ok (COMPRESSED_WIRE_MAGIC @ to_be_bytes (of_nat (length json) :: u32) @ compressed)))"

definition decode_wire_message :: "wire_codec \<Rightarrow> bytes \<Rightarrow> nat \<Rightarrow> (wire_message, network_error) result" where
  "decode_wire_message W bs max_message_bytes =
     and_then
       (if take (length COMPRESSED_WIRE_MAGIC) bs = COMPRESSED_WIRE_MAGIC then
          (if length bs < WIRE_HEADER_BYTES then Err TruncatedHeader
           else
             let declared = unat (from_be_bytes (take 4 (drop (length COMPRESSED_WIRE_MAGIC) bs)) :: u32) in
             if declared > max_message_bytes then Err (DeclaredTooLarge declared)
             else
               and_then (ok_or (wc_decompress W (drop WIRE_HEADER_BYTES bs) declared) ZstdFailed) (\<lambda>decoded.
               if length decoded \<noteq> declared then Err (SizeMismatch declared) else Ok decoded))
        else Ok bs)
       (\<lambda>json. ok_or (wc_parse W json) BadWireJson)"

subsection \<open>State\<close>

datatype swarm_action =
    GossipPublish string bytes | SendRequest string communication_envelope | SendResponse string bool
  | DisconnectPeer string | KadAddAddress string multiaddr | KadRemoveAddress string multiaddr | KadBootstrap
  | AddExplicitPeer string | RemoveExplicitPeer string | AutonatAddServer string multiaddr
  | AddExternalAddress multiaddr | SwarmDial multiaddr | SwarmListen multiaddr

record network_state =
  ns_guard :: peer_guard
  ns_same_lan_peers :: "string fset"
  ns_actions :: "swarm_action list"
  ns_events :: "network_event list"

record network_config =
  nc_listen_port :: u16
  nc_loopback_only :: bool
  nc_bootstrap_peers :: "multiaddr list"
  nc_external_addresses :: "multiaddr list"
  nc_max_message_bytes :: nat
  nc_idle_timeout :: nat
  nc_ban_duration :: nat

definition network_config_default :: network_config where
  "network_config_default = \<lparr>nc_listen_port = 7001, nc_loopback_only = False, nc_bootstrap_peers = [],
     nc_external_addresses = [], nc_max_message_bytes = 2 * 1024 * 1024, nc_idle_timeout = 30 * 10 ^ 9,
     nc_ban_duration = 10 * 60 * 10 ^ 9\<rparr>"

record network_env =
  ne_codec :: wire_codec
  ne_local_peer_id :: string
  ne_now :: nat
  ne_clock :: "u64 option"
  ne_lookup_host :: "string \<Rightarrow> ip_addr list option"
  ne_dial :: "multiaddr \<Rightarrow> bool"
  ne_listen :: "multiaddr \<Rightarrow> bool"
  ne_parse_peer_id :: "string \<Rightarrow> string option"
  ne_connected_peers :: nat
  ne_receiver_open :: bool
  ne_response_sent :: bool

definition swarm_call :: "swarm_action \<Rightarrow> network_state \<Rightarrow> network_state" where
  "swarm_call a st = st\<lparr>ns_actions := ns_actions st @ [a]\<rparr>"

text \<open>\<open>event_tx.send\<close>: it fails when the node core has dropped the receiver.\<close>

definition send_event :: "network_env \<Rightarrow> network_event \<Rightarrow> network_state \<Rightarrow> network_state \<times> (unit, network_error) result" where
  "send_event E e st =
     (if ne_receiver_open E then (st\<lparr>ns_events := ns_events st @ [e]\<rparr>, Ok ()) else (st, Err EventChannelClosed))"

subsection \<open>Dialling\<close>

fun dial_resolved :: "network_env \<Rightarrow> multiaddr list \<Rightarrow> network_state \<Rightarrow> network_state \<times> (unit, network_error) result" where
  "dial_resolved E [] st = (st, Ok ())"
| "dial_resolved E (a # as) st =
     (let st1 = swarm_call (SwarmDial a) st in
      if ne_dial E a then dial_resolved E as st1 else (st1, Err DialFailed))"

definition dial_address :: "network_env \<Rightarrow> multiaddr \<Rightarrow> network_state \<Rightarrow> network_state \<times> (unit, network_error) result" where
  "dial_address E address st =
     (case resolve_dns4_addresses (ne_lookup_host E) address of
        Inl e \<Rightarrow> (st, Err e)
      | Inr resolved \<Rightarrow> dial_resolved E resolved st)"

fun p2p_suffix :: "multiaddr \<Rightarrow> (multiaddr \<times> string) option" where
  "p2p_suffix [] = None"
| "p2p_suffix [P2p peer] = Some ([], peer)"
| "p2p_suffix [_] = None"
| "p2p_suffix (p # q # rest) = map_option (\<lambda>(address, peer). (p # address, peer)) (p2p_suffix (q # rest))"

fun add_bootstrap_loop ::
  "network_env \<Rightarrow> bool \<Rightarrow> multiaddr list \<Rightarrow> network_state \<Rightarrow> network_state \<times> (unit, network_error) result" where
  "add_bootstrap_loop E loopback_only [] st = (st, Ok ())"
| "add_bootstrap_loop E loopback_only (resolved # rest) st =
     (case p2p_suffix resolved of
        None \<Rightarrow> (st, Err BootstrapPeerIdMissing)
      | Some (address, peer) \<Rightarrow>
        let st1 = swarm_call (KadAddAddress peer address) st;
            st2 = (if loopback_only then st1 else swarm_call (AutonatAddServer peer address) st1);
            st3 = swarm_call (SwarmDial resolved) st2
        in if \<not> ne_dial E resolved then (st3, Err DialFailed)
           else add_bootstrap_loop E loopback_only rest
             (if \<not> loopback_only \<and> peer \<noteq> ne_local_peer_id E \<and> P2pCircuit \<notin> set resolved
              then swarm_call (SwarmListen (resolved @ [P2pCircuit])) st3 else st3))"

definition add_bootstrap_address ::
  "network_env \<Rightarrow> bool \<Rightarrow> multiaddr \<Rightarrow> network_state \<Rightarrow> network_state \<times> (unit, network_error) result" where
  "add_bootstrap_address E loopback_only address st =
     (case resolve_dns4_addresses (ne_lookup_host E) address of
        Inl e \<Rightarrow> (st, Err e)
      | Inr resolved \<Rightarrow> add_bootstrap_loop E loopback_only resolved st)"

subsection \<open>Commands\<close>

definition publish :: "network_env \<Rightarrow> string \<Rightarrow> wire_message \<Rightarrow> network_state \<Rightarrow> network_state" where
  "publish E topic message st =
     (case encode_wire_message (ne_codec E) message of
        Inl _ \<Rightarrow> st
      | Inr bs \<Rightarrow> swarm_call (GossipPublish topic bs) st)"

text \<open>The result says whether the loop goes on; failures are only logged.\<close>

fun handle_command :: "network_env \<Rightarrow> network_command \<Rightarrow> network_state \<Rightarrow> network_state \<times> bool" where
  "handle_command E (PublishBlock b) st = (publish E BLOCK_TOPIC (WireBlock b) st, True)"
| "handle_command E (PublishTransaction tx) st = (publish E BLOCK_TOPIC (WireTransaction tx) st, True)"
| "handle_command E (PublishConsensus m) st = (publish E CONSENSUS_TOPIC (WireConsensus m) st, True)"
| "handle_command E (PublishProposal p) st = (publish E CONSENSUS_TOPIC (WireProposal p) st, True)"
| "handle_command E (PublishEvidence e) st = (publish E CONSENSUS_TOPIC (WireEvidence e) st, True)"
| "handle_command E (PublishValidatorRegistration r) st =
     (publish E CONSENSUS_TOPIC (WireValidatorRegistration r) st, True)"
| "handle_command E (PublishNodeRewardRegistration r) st =
     (publish E CONSENSUS_TOPIC (WireNodeRewardRegistration r) st, True)"
| "handle_command E (PublishUpdateAvailable version) st =
     (publish E CONSENSUS_TOPIC (WireUpdateAvailable version) st, True)"
| "handle_command E (RequestSync from_height) st =
     (publish E SYNC_TOPIC (WireSyncRequest (ne_local_peer_id E) from_height) st, True)"
| "handle_command E (RespondSync requester tip certificates) st =
     (publish E SYNC_TOPIC (WireSyncResponse requester tip certificates) st, True)"
| "handle_command E (Dial address) st = (fst (dial_address E address st), True)"
| "handle_command E (SendCommunication envelope) st =
     (let sent = envelope\<lparr>ce_sender_peer_id := ne_local_peer_id E\<rparr> in
      (case ne_parse_peer_id E (ce_target_peer_id sent) of
         Some target \<Rightarrow> swarm_call (SendRequest target sent) st
       | None \<Rightarrow> st), True)"
| "handle_command E Shutdown st = (st, False)"

subsection \<open>Swarm events\<close>

datatype swarm_event =
    MdnsDiscovered "(string \<times> multiaddr) list" | MdnsExpired "(string \<times> multiaddr) list"
  | IdentifyReceived string "multiaddr list"
  | GossipMessage string "string option" bytes
  | CommunicationRequest string communication_envelope | InboundFailure string
  | ConnectionEstablished string | ConnectionClosed string | OutgoingConnectionError "string option"
  | LoggedEvent

fun mdns_discovered :: "network_env \<Rightarrow> (string \<times> multiaddr) list \<Rightarrow> network_state \<Rightarrow> network_state" where
  "mdns_discovered E [] st = st"
| "mdns_discovered E ((peer, address) # rest) st =
     (if \<not> accepts_learned_address address True then
        mdns_discovered E rest (swarm_call (KadRemoveAddress peer address) st)
      else
        let st1 = swarm_call (KadAddAddress peer address)
              (swarm_call (AddExplicitPeer peer) (st\<lparr>ns_same_lan_peers := finsert peer (ns_same_lan_peers st)\<rparr>))
        in mdns_discovered E rest (fst (send_event E (PeerDiscovered peer) st1)))"

fun mdns_expired :: "(string \<times> multiaddr) list \<Rightarrow> network_state \<Rightarrow> network_state" where
  "mdns_expired [] st = st"
| "mdns_expired ((peer, _) # rest) st =
     (let st1 = swarm_call (RemoveExplicitPeer peer) st
      in mdns_expired rest (st1\<lparr>ns_same_lan_peers := ns_same_lan_peers st1 |-| {|peer|}\<rparr>))"

definition learn_resolved :: "string \<Rightarrow> multiaddr \<Rightarrow> network_state \<Rightarrow> network_state" where
  "learn_resolved peer address st =
     (if accepts_learned_address address (peer |\<in>| ns_same_lan_peers st)
      then swarm_call (KadAddAddress peer address) st
      else swarm_call (KadRemoveAddress peer address) st)"

definition learn_address :: "network_env \<Rightarrow> string \<Rightarrow> multiaddr \<Rightarrow> network_state \<Rightarrow> network_state" where
  "learn_address E peer listen st =
     (case normalize_learned_address listen peer of
        None \<Rightarrow> st
      | Some address \<Rightarrow>
        (case resolve_dns4_addresses (ne_lookup_host E) address of
           Inl _ \<Rightarrow> st
         | Inr resolved \<Rightarrow> fold (learn_resolved peer) resolved st))"

text \<open>The event a decoded message becomes; a synchronization answer for another node is dropped.\<close>

fun wire_event :: "string \<Rightarrow> string \<Rightarrow> string \<Rightarrow> wire_message \<Rightarrow> network_event option" where
  "wire_event local source origin (WireBlock b) = Some (BlockReceived source b)"
| "wire_event local source origin (WireTransaction tx) = Some (TransactionReceived source tx)"
| "wire_event local source origin (WireConsensus m) = Some (ConsensusReceived source m)"
| "wire_event local source origin (WireProposal p) = Some (ProposalReceived source p)"
| "wire_event local source origin (WireEvidence e) = Some (EvidenceReceived source e)"
| "wire_event local source origin (WireValidatorRegistration r) = Some (ValidatorRegistrationReceived source r)"
| "wire_event local source origin (WireNodeRewardRegistration r) = Some (NodeRewardRegistrationReceived origin r)"
| "wire_event local source origin (WireUpdateAvailable version) = Some (UpdateAvailableReceived source version)"
| "wire_event local source origin (WireSyncRequest requester from_height) = Some (SyncRequested source requester from_height)"
| "wire_event local source origin (WireSyncResponse requester tip certificates) =
     (if requester \<noteq> local then None else Some (SyncReceived source tip certificates))"

definition penalize_peer :: "network_env \<Rightarrow> string \<Rightarrow> int \<Rightarrow> network_state \<Rightarrow> network_state" where
  "penalize_peer E peer points st = st\<lparr>ns_guard := fst (guard_penalize (ne_now E) peer points (ns_guard st))\<rparr>"

definition reward_peer :: "string \<Rightarrow> network_state \<Rightarrow> network_state" where
  "reward_peer peer st = st\<lparr>ns_guard := guard_reward peer (ns_guard st)\<rparr>"

definition handle_gossip ::
  "network_env \<Rightarrow> nat \<Rightarrow> string \<Rightarrow> string option \<Rightarrow> bytes \<Rightarrow> network_state \<Rightarrow> network_state \<times> (unit, network_error) result" where
  "handle_gossip E max_message_bytes propagation_source source payload st0 =
     (let message_source = (case source of Some s \<Rightarrow> s | None \<Rightarrow> propagation_source) in
      case guard_check (ne_now E) propagation_source (ns_guard st0) of
        (g, TemporarilyBlocked) \<Rightarrow> (st0\<lparr>ns_guard := g\<rparr>, Ok ())
      | (g, Allow) \<Rightarrow>
        let st = st0\<lparr>ns_guard := g\<rparr> in
        if length payload > max_message_bytes then
          (swarm_call (DisconnectPeer propagation_source) (penalize_peer E propagation_source 100 st), Err OversizeMessage)
        else case decode_wire_message (ne_codec E) payload max_message_bytes of
          Inl e \<Rightarrow> (penalize_peer E propagation_source 25 st, Err (UndecodableMessage e))
        | Inr decoded \<Rightarrow>
          let st1 = reward_peer propagation_source st in
          (case wire_event (ne_local_peer_id E) propagation_source message_source decoded of
             None \<Rightarrow> (st1, Ok ())
           | Some e \<Rightarrow> send_event E e st1))"

definition validate_direct_communication ::
  "externals \<Rightarrow> network_env \<Rightarrow> string \<Rightarrow> communication_envelope \<Rightarrow> (unit, network_error) result" where
  "validate_direct_communication X E source envelope =
     and_then (ensure (ce_target_peer_id envelope = ne_local_peer_id E) WrongTarget) (\<lambda>_.
     and_then (ensure (ce_sender_peer_id envelope = source) WrongSender) (\<lambda>_.
     and_then (ok_or (ne_clock E) NetworkClock) (\<lambda>now.
     map_err BadSignal (envelope_validate X envelope now))))"

definition handle_communication ::
  "externals \<Rightarrow> network_env \<Rightarrow> string \<Rightarrow> communication_envelope \<Rightarrow> network_state \<Rightarrow> network_state \<times> (unit, network_error) result" where
  "handle_communication X E peer request st0 =
     (case guard_check (ne_now E) peer (ns_guard st0) of
        (g, TemporarilyBlocked) \<Rightarrow> (st0\<lparr>ns_guard := g\<rparr>, Ok ())
      | (g, Allow) \<Rightarrow>
        let st = st0\<lparr>ns_guard := g\<rparr>;
            accepted = is_ok (validate_direct_communication X E peer request);
            st1 = (if accepted then reward_peer peer st else penalize_peer E peer 50 st);
            st2 = swarm_call (SendResponse (ce_id request) accepted) st1
        in if \<not> ne_response_sent E then (st2, Err ResponseFailed)
           else if accepted then send_event E (CommunicationReceived peer request) st2
           else (st2, Ok ()))"

fun handle_swarm_event ::
  "externals \<Rightarrow> network_env \<Rightarrow> network_config \<Rightarrow> swarm_event \<Rightarrow> network_state \<Rightarrow> network_state \<times> (unit, network_error) result" where
  "handle_swarm_event X E C (MdnsDiscovered peers) st =
     (if nc_loopback_only C then (st, Ok ()) else (mdns_discovered E peers st, Ok ()))"
| "handle_swarm_event X E C (MdnsExpired peers) st =
     (if nc_loopback_only C then (st, Ok ()) else (mdns_expired peers st, Ok ()))"
| "handle_swarm_event X E C (IdentifyReceived peer listen_addrs) st =
     (fold (learn_address E peer) listen_addrs st, Ok ())"
| "handle_swarm_event X E C (GossipMessage propagation_source source payload) st =
     handle_gossip E (nc_max_message_bytes C) propagation_source source payload st"
| "handle_swarm_event X E C (CommunicationRequest peer request) st = handle_communication X E peer request st"
| "handle_swarm_event X E C (InboundFailure peer) st = (penalize_peer E peer 25 st, Ok ())"
| "handle_swarm_event X E C (ConnectionEstablished peer) st =
     (fst (send_event E (PeerConnected peer (ne_connected_peers E)) st), Ok ())"
| "handle_swarm_event X E C (ConnectionClosed peer) st =
     (fst (send_event E (PeerDisconnected peer (ne_connected_peers E)) st), Ok ())"
| "handle_swarm_event X E C (OutgoingConnectionError peer) st =
     (fst (send_event E (OutgoingConnectionFailed peer) st), Ok ())"
| "handle_swarm_event X E C LoggedEvent st = (st, Ok ())"

subsection \<open>The task\<close>

fun add_bootstraps ::
  "network_env \<Rightarrow> bool \<Rightarrow> multiaddr list \<Rightarrow> network_state \<Rightarrow> network_state \<times> (unit, network_error) result" where
  "add_bootstraps E loopback_only [] st = (st, Ok ())"
| "add_bootstraps E loopback_only (a # as) st =
     (case add_bootstrap_address E loopback_only a st of
        (st1, Inl e) \<Rightarrow> (st1, Err e)
      | (st1, Inr _) \<Rightarrow> add_bootstraps E loopback_only as st1)"

definition listen_address :: "network_config \<Rightarrow> multiaddr" where
  "listen_address C =
     [if nc_loopback_only C then Ip4 (127, 0, 0, 1) else Ip4 (0, 0, 0, 0),
      OtherProtocol (''udp/'' @ dec_digits (unat (nc_listen_port C))), OtherProtocol ''quic-v1'']"

definition p2p_start :: "network_env \<Rightarrow> network_config \<Rightarrow> network_state \<times> (unit, network_error) result" where
  "p2p_start E C =
     (let st0 = \<lparr>ns_guard = guard_new (nc_ban_duration C), ns_same_lan_peers = {||}, ns_actions = [], ns_events = []\<rparr>;
          st1 = swarm_call (SwarmListen (listen_address C)) st0
      in if \<not> ne_listen E (listen_address C) then (st1, Err ListenFailed)
         else
           let st2 = fold (\<lambda>a. swarm_call (AddExternalAddress a)) (nc_external_addresses C) st1 in
           (case add_bootstraps E (nc_loopback_only C) (nc_bootstrap_peers C) st2 of
              (st3, Inl e) \<Rightarrow> (st3, Err e)
            | (st3, Inr _) \<Rightarrow> (swarm_call KadBootstrap st3, Ok ())))"

definition bootstrap_redial :: "network_env \<Rightarrow> network_config \<Rightarrow> network_state \<Rightarrow> network_state" where
  "bootstrap_redial E C st =
     (if ne_connected_peers E = 0 then fold (\<lambda>a s. fst (dial_address E a s)) (nc_bootstrap_peers C) st else st)"

datatype network_input = RedialTick | CommandReceived network_command | SwarmEvent swarm_event

fun network_step ::
  "externals \<Rightarrow> network_config \<Rightarrow> network_env \<Rightarrow> network_input \<Rightarrow> network_state \<Rightarrow> network_state \<times> bool" where
  "network_step X C E RedialTick st = (bootstrap_redial E C st, True)"
| "network_step X C E (CommandReceived c) st = handle_command E c st"
| "network_step X C E (SwarmEvent e) st = (fst (handle_swarm_event X E C e st), True)"

end
