(* ===== verification/Wire_Properties.thy ===== *)
theory Wire_Properties
  imports Wire Sample
begin

text \<open>
  Properties of the peer-to-peer task: framing is inverted exactly and bounded, what one node publishes
  is the event another node gets, a banned peer is not heard, and only usable addresses are learned.
\<close>

subsection \<open>Framing\<close>

text \<open>
  What serde\_json and zstd document: parsing inverts serialization, every variant of the enum carries
  data and is therefore written as a JSON object, and decompression with enough room inverts compression.
\<close>

definition codec_law :: "wire_codec \<Rightarrow> bool" where
  "codec_law W \<longleftrightarrow>
     (\<forall>m bs. wc_json W m = Some bs \<longrightarrow> wc_parse W bs = Some m \<and> bs \<noteq> [] \<and> hd bs = 0x7B) \<and>
     (\<forall>bs z n. wc_compress W bs = Some z \<longrightarrow> length bs \<le> n \<longrightarrow> wc_decompress W z n = Some bs)"

lemma codec_lawD:
  assumes "codec_law W"
  shows "wc_json W m = Some bs \<Longrightarrow> wc_parse W bs = Some m"
    and "wc_json W m = Some bs \<Longrightarrow> take (length COMPRESSED_WIRE_MAGIC) bs \<noteq> COMPRESSED_WIRE_MAGIC"
    and "wc_compress W bs = Some z \<Longrightarrow> length bs \<le> n \<Longrightarrow> wc_decompress W z n = Some bs"
proof -
  show "wc_json W m = Some bs \<Longrightarrow> wc_parse W bs = Some m"
    "wc_compress W bs = Some z \<Longrightarrow> length bs \<le> n \<Longrightarrow> wc_decompress W z n = Some bs"
    using assms unfolding codec_law_def by blast+
  assume "wc_json W m = Some bs"
  then have "bs \<noteq> []" "hd bs = 0x7B" using assms unfolding codec_law_def by blast+
  then show "take (length COMPRESSED_WIRE_MAGIC) bs \<noteq> COMPRESSED_WIRE_MAGIC"
    by (cases bs) (auto simp: COMPRESSED_WIRE_MAGIC_def)
qed

lemma decode_plain:
  "take (length COMPRESSED_WIRE_MAGIC) bs \<noteq> COMPRESSED_WIRE_MAGIC \<Longrightarrow>
   decode_wire_message W bs limit = ok_or (wc_parse W bs) BadWireJson"
  by (simp add: decode_wire_message_def)

lemma framed_parts:
  assumes "n < 2 ^ 32"
  shows "take (length COMPRESSED_WIRE_MAGIC) (COMPRESSED_WIRE_MAGIC @ to_be_bytes (of_nat n :: u32) @ z) = COMPRESSED_WIRE_MAGIC"
    and "drop WIRE_HEADER_BYTES (COMPRESSED_WIRE_MAGIC @ to_be_bytes (of_nat n :: u32) @ z) = z"
    and "unat (from_be_bytes (take 4 (drop (length COMPRESSED_WIRE_MAGIC)
           (COMPRESSED_WIRE_MAGIC @ to_be_bytes (of_nat n :: u32) @ z))) :: u32) = n"
    and "\<not> length (COMPRESSED_WIRE_MAGIC @ to_be_bytes (of_nat n :: u32) @ z) < WIRE_HEADER_BYTES"
proof -
  have four: "length (to_be_bytes (of_nat n :: u32)) = 4" by (simp add: length_to_be_bytes)
  have "unat (from_be_bytes (to_be_bytes (of_nat n :: u32)) :: u32) = n"
    using assms by (simp add: unat_from_be_bytes four be_nat_to_be_bytes unat_of_nat_small)
  then show "unat (from_be_bytes (take 4 (drop (length COMPRESSED_WIRE_MAGIC)
           (COMPRESSED_WIRE_MAGIC @ to_be_bytes (of_nat n :: u32) @ z))) :: u32) = n"
    using four by simp
qed (simp_all add: WIRE_HEADER_BYTES_def length_to_be_bytes)

lemma decode_framed:
  assumes "n < 2 ^ 32"
  shows "decode_wire_message W (COMPRESSED_WIRE_MAGIC @ to_be_bytes (of_nat n :: u32) @ z) limit =
    (if n > limit then Err (DeclaredTooLarge n)
     else and_then (ok_or (wc_decompress W z n) ZstdFailed) (\<lambda>decoded.
       if length decoded \<noteq> n then Err (SizeMismatch n) else ok_or (wc_parse W decoded) BadWireJson))"
  unfolding decode_wire_message_def Let_def framed_parts [OF assms] simp_thms if_True if_False
  by (cases "wc_decompress W z n") (auto simp: WIRE_HEADER_BYTES_def)

lemma decode_encode:
  assumes "codec_law W" and "encode_wire_message W m = Ok bs"
  shows "\<exists>json. wc_json W m = Some json \<and> length bs \<le> length json \<and>
    decode_wire_message W bs limit =
      (if bs \<noteq> json \<and> length json > limit then Err (DeclaredTooLarge (length json)) else Ok m)"
proof -
  note law = codec_lawD [OF assms(1)]
  obtain json where json: "wc_json W m = Some json"
    using assms(2) by (auto simp: encode_wire_message_def result_simps)
  have plain: "decode_wire_message W json limit = Ok m"
    by (simp add: decode_plain [OF law(2) [OF json]] law(1) [OF json])
  show ?thesis
  proof (cases "bs = json")
    case True
    then show ?thesis using json plain by simp
  next
    case False
    then obtain z where z: "wc_compress W json = Some z" "length json \<le> 2 ^ 32 - 1"
      "WIRE_HEADER_BYTES + length z < length json"
      "bs = COMPRESSED_WIRE_MAGIC @ to_be_bytes (of_nat (length json) :: u32) @ z"
      using assms(2) json by (auto simp: encode_wire_message_def result_simps split: if_splits)
    then have "length json < 2 ^ 32" by simp
    from decode_framed [OF this] show ?thesis
      using z json False law(1) [OF json] law(3) [OF z(1) order.refl]
      by (auto simp: WIRE_HEADER_BYTES_def length_to_be_bytes)
  qed
qed

text \<open>
  The framing of messages is inverted exactly. What a node encodes is never longer than its JSON
  text, and a node that decodes it gets the message back, with one exception: when the frame is
  compressed and the JSON text is longer than the receiver's limit, decoding fails. The sender does not
  check its own limit, which is applied to the compressed size only.
\<close>
theorem wire_roundtrip:
  assumes "codec_law W" and "encode_wire_message W m = Ok bs"
  shows "\<exists>json. wc_json W m = Some json \<and> length bs \<le> length json \<and>
    decode_wire_message W bs limit =
      (if bs \<noteq> json \<and> length json > limit then Err (DeclaredTooLarge (length json)) else Ok m)"
  by (rule decode_encode [OF assms])

text \<open>A codec for examples: one message has a text of 2000 bytes that is compressed to one byte.\<close>

definition long_json :: bytes where
  "long_json = 0x7B # replicate 1999 0"

definition sample_codec :: wire_codec where
  "sample_codec = \<lparr>wc_json = (\<lambda>m. if m = WireUpdateAvailable ''2'' then Some long_json else None),
     wc_parse = (\<lambda>bs. if bs = long_json then Some (WireUpdateAvailable ''2'') else None),
     wc_compress = (\<lambda>bs. if bs = long_json then Some [7] else None),
     wc_decompress = (\<lambda>z n. if z = [7] then Some long_json else None)\<rparr>"

definition long_frame :: bytes where
  "long_frame = COMPRESSED_WIRE_MAGIC @ to_be_bytes (2000 :: u32) @ [7]"

lemma sample_codec_law: "codec_law sample_codec"
  by (auto simp: codec_law_def sample_codec_def long_json_def)

lemma length_long_json: "length long_json = 2000"
  by (simp add: long_json_def)

lemma length_long_frame: "length long_frame = 11"
  by (simp add: long_frame_def COMPRESSED_WIRE_MAGIC_def length_to_be_bytes)

lemma sample_encode: "encode_wire_message sample_codec (WireUpdateAvailable ''2'') = Ok long_frame"
  by (simp add: encode_wire_message_def sample_codec_def length_long_json COMPRESSION_THRESHOLD_BYTES_def
      WIRE_HEADER_BYTES_def COMPRESSED_WIRE_MAGIC_def long_frame_def)

theorem wire_roundtrip_witness:
  "decode_wire_message sample_codec long_frame 2000 = Ok (WireUpdateAvailable ''2'') \<and>
   decode_wire_message sample_codec long_frame 1999 = Err (DeclaredTooLarge 2000)"
proof -
  have json: "wc_json sample_codec (WireUpdateAvailable ''2'') = Some long_json" by (simp add: sample_codec_def)
  have "long_frame \<noteq> long_json" using length_long_json length_long_frame by force
  then show ?thesis
    using wire_roundtrip [OF sample_codec_law sample_encode, of 2000] json
      wire_roundtrip [OF sample_codec_law sample_encode, of 1999] length_long_json by auto
qed

text \<open>
  Decoding is bounded. Whatever bytes arrive, decompression is never asked for more room than the
  limit (a decompressor that behaves differently beyond the limit cannot change the result), and the JSON
  text that is parsed is not longer than the larger of the limit and the bytes received.
\<close>
theorem decode_bounded:
  "(\<forall>decompress. (\<forall>z n. n \<le> limit \<longrightarrow> decompress z n = wc_decompress W z n) \<longrightarrow>
      decode_wire_message (W\<lparr>wc_decompress := decompress\<rparr>) bs limit = decode_wire_message W bs limit) \<and>
   (\<forall>m. decode_wire_message W bs limit = Ok m \<longrightarrow>
      (\<exists>json. wc_parse W json = Some m \<and> length json \<le> max limit (length bs)))"
proof (intro conjI allI impI)
  fix decompress assume "\<forall>z n. n \<le> limit \<longrightarrow> decompress z n = wc_decompress W z n"
  then show "decode_wire_message (W\<lparr>wc_decompress := decompress\<rparr>) bs limit = decode_wire_message W bs limit"
    unfolding decode_wire_message_def Let_def by simp
next
  fix m assume "decode_wire_message W bs limit = Ok m"
  then show "\<exists>json. wc_parse W json = Some m \<and> length json \<le> max limit (length bs)"
    unfolding decode_wire_message_def Let_def
    by (auto simp: result_simps le_max_iff_disj not_less split: if_splits)
qed

theorem decode_bounded_witness:
  "\<exists>json. wc_parse sample_codec json = Some (WireUpdateAvailable ''2'') \<and> length json \<le> max 2000 (length long_frame)"
proof -
  have "decode_wire_message sample_codec long_frame 2000 = Ok (WireUpdateAvailable ''2'')"
    unfolding long_frame_def using decode_framed [of 2000 sample_codec "[7]" 2000]
    by (simp add: sample_codec_def length_long_json)
  then show ?thesis using decode_bounded [of 2000 sample_codec long_frame] by blast
qed

subsection \<open>From one node to another\<close>

text \<open>What a published command means at the receiving node, written without the frames in between.\<close>

fun command_event :: "string \<Rightarrow> string \<Rightarrow> string \<Rightarrow> network_command \<Rightarrow> network_event option" where
  "command_event sender relay receiver (PublishBlock b) = Some (BlockReceived relay b)"
| "command_event sender relay receiver (PublishTransaction tx) = Some (TransactionReceived relay tx)"
| "command_event sender relay receiver (PublishConsensus m) = Some (ConsensusReceived relay m)"
| "command_event sender relay receiver (PublishProposal p) = Some (ProposalReceived relay p)"
| "command_event sender relay receiver (PublishEvidence e) = Some (EvidenceReceived relay e)"
| "command_event sender relay receiver (PublishValidatorRegistration r) = Some (ValidatorRegistrationReceived relay r)"
| "command_event sender relay receiver (PublishNodeRewardRegistration r) = Some (NodeRewardRegistrationReceived sender r)"
| "command_event sender relay receiver (PublishUpdateAvailable v) = Some (UpdateAvailableReceived relay v)"
| "command_event sender relay receiver (RequestSync h) = Some (SyncRequested relay sender h)"
| "command_event sender relay receiver (RespondSync requester tip cs) =
     (if requester = receiver then Some (SyncReceived relay tip cs) else None)"
| "command_event sender relay receiver _ = None"

lemma publish_action:
  "ns_actions (publish E topic m st) = ns_actions st @ [GossipPublish t bs] \<Longrightarrow> encode_wire_message (ne_codec E) m = Ok bs"
  by (auto simp: publish_def swarm_call_def split: sum.splits)

lemma dial_actions:
  "\<exists>as. ns_actions (fst (dial_address E address st)) = ns_actions st @ as \<and> (\<forall>a \<in> set as. \<exists>b. a = SwarmDial b)"
proof -
  have "\<exists>as. ns_actions (fst (dial_resolved E resolved st)) = ns_actions st @ as \<and> (\<forall>a \<in> set as. \<exists>b. a = SwarmDial b)"
    for resolved
  proof (induction resolved arbitrary: st)
    case (Cons a resolved)
    from Cons.IH [of "swarm_call (SwarmDial a) st"] show ?case by (auto simp: Let_def swarm_call_def)
  qed simp
  then show ?thesis by (simp add: dial_address_def split: sum.split)
qed

lemma command_published:
  assumes "handle_command E c st = (st', r)" and "ns_actions st' = ns_actions st @ [GossipPublish topic bs]"
  shows "\<exists>m. encode_wire_message (ne_codec E) m = Ok bs \<and>
    wire_event receiver relay (ne_local_peer_id E) m = command_event (ne_local_peer_id E) relay receiver c"
proof (cases c)
  case (Dial address)
  obtain as where "ns_actions st' = ns_actions st @ as" "\<forall>a \<in> set as. \<exists>b. a = SwarmDial b"
    using dial_actions [of E address st] assms(1) Dial by auto
  then show ?thesis using assms(2) by auto
next
  case (SendCommunication e)
  then show ?thesis using assms by (auto simp: Let_def swarm_call_def split: option.splits)
qed (use assms in \<open>auto dest!: publish_action intro!: exI\<close>)

text \<open>
  C34: a published command arrives as what it means. When a node hands a command to its network task and
  the task publishes bytes, then another node that gets these bytes through a peer it does not block,
  within its size limits and with a core that still listens, passes on exactly the event the command
  stands for and nothing else: a synchronization request names the sender, an answer is passed on only
  by the node it is for, and a reward registration is attributed to its sender, not to the relay.
\<close>
theorem gossip_delivery:
  assumes "codec_law (ne_codec A)" and "ne_codec B = ne_codec A" and "ne_receiver_open B"
    and "handle_command A c st = (st', r)" and "ns_actions st' = ns_actions st @ [GossipPublish topic bs]"
    and "snd (guard_check (ne_now B) relay (ns_guard t)) = Allow" and "length bs \<le> nc_max_message_bytes C"
    and "\<forall>e. decode_wire_message (ne_codec A) bs (nc_max_message_bytes C) \<noteq> Err (DeclaredTooLarge e)"
  shows "ns_events (fst (network_step X C B (SwarmEvent (GossipMessage relay (Some (ne_local_peer_id A)) bs)) t)) =
    ns_events t @ (case command_event (ne_local_peer_id A) relay (ne_local_peer_id B) c of None \<Rightarrow> [] | Some e \<Rightarrow> [e])"
proof -
  obtain m where m: "encode_wire_message (ne_codec A) m = Ok bs"
    "wire_event (ne_local_peer_id B) relay (ne_local_peer_id A) m =
     command_event (ne_local_peer_id A) relay (ne_local_peer_id B) c"
    using command_published [OF assms(4,5)] by blast
  have "decode_wire_message (ne_codec A) bs (nc_max_message_bytes C) = Ok m"
    using decode_encode [OF assms(1) m(1), of "nc_max_message_bytes C"] assms(8) by (auto split: if_splits)
  then show ?thesis using assms(2,3,6,7) m(2)
    by (auto simp: handle_gossip_def Let_def reward_peer_def send_event_def
        split: prod.splits peer_decision.splits option.splits)
qed

definition sample_network_env :: "string \<Rightarrow> nat \<Rightarrow> network_env" where
  "sample_network_env peer now = \<lparr>ne_codec = sample_codec, ne_local_peer_id = peer, ne_now = now, ne_clock = Some 100,
     ne_lookup_host = (\<lambda>_. None), ne_dial = (\<lambda>_. True), ne_listen = (\<lambda>_. True), ne_parse_peer_id = Some,
     ne_connected_peers = 1, ne_receiver_open = True, ne_response_sent = True\<rparr>"

definition sample_network :: network_state where
  "sample_network = \<lparr>ns_guard = guard_new 600, ns_same_lan_peers = {||}, ns_actions = [], ns_events = []\<rparr>"

theorem gossip_delivery_witness:
  "ns_events (fst (network_step permissive_externals network_config_default (sample_network_env ''B'' 5)
     (SwarmEvent (GossipMessage ''R'' (Some ''A'') long_frame)) sample_network)) = [UpdateAvailableReceived ''R'' ''2'']"
proof -
  let ?A = "sample_network_env ''A'' 5" and ?B = "sample_network_env ''B'' 5"
  have codec: "codec_law (ne_codec ?A)" "ne_codec ?B = ne_codec ?A" "ne_receiver_open ?B"
    by (simp_all add: sample_network_env_def sample_codec_law)
  have sent: "handle_command ?A (PublishUpdateAvailable ''2'') sample_network =
      (sample_network\<lparr>ns_actions := [GossipPublish CONSENSUS_TOPIC long_frame]\<rparr>, True)"
    by (simp add: publish_def sample_network_env_def sample_encode swarm_call_def sample_network_def)
  have arrives: "decode_wire_message (ne_codec ?A) long_frame (nc_max_message_bytes network_config_default) =
      Ok (WireUpdateAvailable ''2'')"
    unfolding long_frame_def using decode_framed [of 2000 sample_codec "[7]" "2 * 1024 * 1024"]
    by (simp add: sample_network_env_def network_config_default_def sample_codec_def length_long_json)
  show ?thesis
    using gossip_delivery [OF codec sent, of CONSENSUS_TOPIC long_frame "''R''" sample_network network_config_default permissive_externals]
      arrives length_long_frame
    by (simp add: sample_network_def network_config_default_def guard_check_def guard_new_def sample_network_env_def)
qed

subsection \<open>Misbehaving peers\<close>

text \<open>Runs of the task: inputs at instants between two times, with any environment.\<close>

inductive network_run :: "externals \<Rightarrow> network_config \<Rightarrow> nat \<Rightarrow> nat \<Rightarrow> network_state \<Rightarrow> network_state \<Rightarrow> bool" for X C t1 t2 where
  start: "network_run X C t1 t2 st st"
| step: "network_run X C t1 t2 st st1 \<Longrightarrow> t1 \<le> ne_now E \<Longrightarrow> ne_now E \<le> t2 \<Longrightarrow> network_step X C E i st1 = (st2, going) \<Longrightarrow>
    network_run X C t1 t2 st st2"

lemma guard_frame [simp]:
  "ns_guard (swarm_call a st) = ns_guard st" "ns_guard (fst (send_event E e st)) = ns_guard st"
  "ns_guard (publish E topic m st) = ns_guard st"
  by (simp_all add: swarm_call_def send_event_def publish_def split: sum.split)

lemma guard_frame_dial [simp]: "ns_guard (fst (dial_address E a st)) = ns_guard st"
proof -
  have "ns_guard (fst (dial_resolved E as st)) = ns_guard st" for as
    by (induction as arbitrary: st) (simp_all add: Let_def)
  then show ?thesis by (simp add: dial_address_def split: sum.split)
qed

lemma guard_frame_mdns [simp]:
  "ns_guard (mdns_discovered E ps st) = ns_guard st" "ns_guard (mdns_expired ps st) = ns_guard st"
proof -
  show "ns_guard (mdns_discovered E ps st) = ns_guard st"
    by (induction E ps st rule: mdns_discovered.induct) (simp_all add: Let_def)
  show "ns_guard (mdns_expired ps st) = ns_guard st"
    by (induction ps st rule: mdns_expired.induct) (simp_all add: Let_def)
qed

lemma guard_frame_learn [simp]: "ns_guard (fold (learn_address E peer) as st) = ns_guard st"
proof -
  have 1: "ns_guard (fold (learn_resolved peer) as st) = ns_guard st" for as st
    by (induction as arbitrary: st) (simp_all add: learn_resolved_def)
  have "ns_guard (learn_address E peer a st) = ns_guard st" for a st
    by (simp add: learn_address_def 1 split: option.split sum.split)
  then show ?thesis by (induction as arbitrary: st) simp_all
qed

lemma handle_command_guard: "ns_guard (fst (handle_command E c st)) = ns_guard st"
  by (cases "(E, c, st)" rule: handle_command.cases) (simp_all add: Let_def split: option.split)

lemma fst_send_event: "send_event E e st = (st', r) \<Longrightarrow> ns_guard st' = ns_guard st"
  by (metis guard_frame(2) fst_conv)

lemma guard_frame_redial [simp]: "ns_guard (bootstrap_redial E C st) = ns_guard st"
proof -
  have "ns_guard (fold (\<lambda>a s. fst (dial_address E a s)) as st) = ns_guard st" for as
    by (induction as arbitrary: st) simp_all
  then show ?thesis by (simp add: bootstrap_redial_def)
qed

lemma guard_steps_penalize:
  "guard_steps t1 t2 g (ns_guard st) \<Longrightarrow> t1 \<le> ne_now E \<Longrightarrow> ne_now E \<le> t2 \<Longrightarrow>
   guard_steps t1 t2 g (ns_guard (penalize_peer E peer points st))"
  by (cases "guard_penalize (ne_now E) peer points (ns_guard st)")
    (auto simp: penalize_peer_def intro: guard_steps.penalize)

lemma guard_steps_reward:
  "guard_steps t1 t2 g (ns_guard st) \<Longrightarrow> guard_steps t1 t2 g (ns_guard (reward_peer peer st))"
  by (simp add: reward_peer_def guard_steps.reward)

lemma gossip_guard_steps:
  assumes "guard_steps t1 t2 g (ns_guard st)" and "t1 \<le> ne_now E" and "ne_now E \<le> t2"
  shows "guard_steps t1 t2 g (ns_guard (fst (handle_gossip E limit peer source payload st)))"
proof -
  obtain g' d where check: "guard_check (ne_now E) peer (ns_guard st) = (g', d)" by force
  have G: "guard_steps t1 t2 g (ns_guard (st\<lparr>ns_guard := g'\<rparr>))"
    using guard_steps.check [OF assms check] by simp
  show ?thesis
    by (auto simp: handle_gossip_def check Let_def split: peer_decision.split sum.split option.split
        intro!: guard_steps_penalize [OF G assms(2,3)] guard_steps_reward [OF G] G [simplified])
qed

lemma communication_guard_steps:
  assumes "guard_steps t1 t2 g (ns_guard st)" and "t1 \<le> ne_now E" and "ne_now E \<le> t2"
  shows "guard_steps t1 t2 g (ns_guard (fst (handle_communication X E peer request st)))"
proof -
  obtain g' d where check: "guard_check (ne_now E) peer (ns_guard st) = (g', d)" by force
  have G: "guard_steps t1 t2 g (ns_guard (st\<lparr>ns_guard := g'\<rparr>))"
    using guard_steps.check [OF assms check] by simp
  show ?thesis
    by (auto simp: handle_communication_def check Let_def split: peer_decision.split
        intro!: guard_steps_penalize [OF G assms(2,3)] guard_steps_reward [OF G] G [simplified])
qed

lemma network_step_guard:
  assumes "guard_steps t1 t2 g (ns_guard st)" and "t1 \<le> ne_now E" and "ne_now E \<le> t2"
  shows "guard_steps t1 t2 g (ns_guard (fst (network_step X C E i st)))"
proof (cases i)
  case (SwarmEvent e)
  then show ?thesis
    using assms gossip_guard_steps [OF assms] communication_guard_steps [OF assms] guard_steps_penalize [OF assms]
    by (cases e) auto
qed (use assms in \<open>simp_all add: handle_command_guard\<close>)

lemma network_run_guard:
  "network_run X C t1 t2 st st' \<Longrightarrow> guard_steps t1 t2 (ns_guard st) (ns_guard st')"
proof (induction rule: network_run.induct)
  case (step st st1 E i st2 going)
  from network_step_guard [OF step.IH step.hyps(2,3), of X C i] step.hyps(4) show ?case by simp
qed (rule guard_steps.refl)

lemma blocked_ignored:
  assumes "blocked_from (ns_guard st) peer until" and "ne_now E < until"
  shows "network_step X C E (SwarmEvent (GossipMessage peer source payload)) st = (st, True)"
    and "network_step X C E (SwarmEvent (CommunicationRequest peer request)) st = (st, True)"
  using blocked_check [OF assms] by (simp_all add: handle_gossip_def handle_communication_def Let_def)

lemma oversize_blocks:
  assumes "snd (guard_check (ne_now E) peer (ns_guard st)) = Allow" and "length payload > nc_max_message_bytes C"
    and "network_step X C E (SwarmEvent (GossipMessage peer source payload)) st = (st1, going)"
    and "pg_ban_duration (ns_guard st) = ban"
    and score: "\<forall>r. fmlookup (pg_peers (ns_guard st)) peer = Some r \<longrightarrow> 0 \<le> pr_score r"
  shows "blocked_from (ns_guard st1) peer (ne_now E + ban) \<and> pg_ban_duration (ns_guard st1) = ban"
proof -
  obtain g where check: "guard_check (ne_now E) peer (ns_guard st) = (g, Allow)"
    using assms(1) by (metis prod.collapse)
  then have ban: "pg_ban_duration g = ban"
    using assms(4) by (auto simp: guard_check_def split: option.splits if_splits)
  have "\<forall>r. fmlookup (pg_peers g) peer = Some r \<longrightarrow> 0 \<le> pr_score r"
    using check score by (auto simp: guard_check_def split: option.splits if_splits)
  then have "snd (guard_penalize (ne_now E) peer 100 g) = TemporarilyBlocked"
    by (auto simp: guard_penalize_def Let_def BAN_SCORE_def I32_MAX_def split: option.split)
  then obtain g1 where "guard_penalize (ne_now E) peer 100 g = (g1, TemporarilyBlocked)"
    by (metis prod.collapse)
  moreover have "ns_guard st1 = fst (guard_penalize (ne_now E) peer 100 g)"
    using assms(2,3) by (auto simp: handle_gossip_def check Let_def penalize_peer_def swarm_call_def)
  ultimately show ?thesis using guard_penalize_blocks [of "ne_now E" peer 100 g g1] ban by simp
qed

text \<open>
  C35: a peer that sends an oversized message is not heard during its ban. Whatever else the task does until
  then, commands, other peers' messages, penalties and rewards included, a gossip message the peer passes on
  or a direct message it sends changes nothing: no event for the node, no call on the swarm, no reply.
\<close>
theorem oversize_peer_silenced:
  assumes "snd (guard_check (ne_now E) peer (ns_guard st)) = Allow" and "length payload > nc_max_message_bytes C"
    and "\<forall>r. fmlookup (pg_peers (ns_guard st)) peer = Some r \<longrightarrow> 0 \<le> pr_score r"
    and "network_step X C E (SwarmEvent (GossipMessage peer source payload)) st = (st1, going)"
    and "network_run X C (ne_now E) t' st1 st2" and "t' < ne_now E + pg_ban_duration (ns_guard st)"
    and "ne_now F < ne_now E + pg_ban_duration (ns_guard st)"
  shows "network_step X C F (SwarmEvent (GossipMessage peer source' payload')) st2 = (st2, True) \<and>
    network_step X C F (SwarmEvent (CommunicationRequest peer request)) st2 = (st2, True)"
proof -
  note B = oversize_blocks [OF assms(1,2,4) HOL.refl assms(3)]
  have "blocked_from (ns_guard st2) peer (ne_now E + pg_ban_duration (ns_guard st))"
    using guard_steps_blocked [OF network_run_guard [OF assms(5)], of peer] B assms(6) by simp
  then show ?thesis using blocked_ignored assms(7) by blast
qed

theorem oversize_peer_silenced_witness:
  "\<exists>st1 st2. network_step permissive_externals (network_config_default\<lparr>nc_max_message_bytes := 1\<rparr>) (sample_network_env ''B'' 5)
      (SwarmEvent (GossipMessage ''p'' None [0, 0])) sample_network = (st1, True) \<and>
    network_run permissive_externals (network_config_default\<lparr>nc_max_message_bytes := 1\<rparr>) 5 500 st1 st2 \<and>
    network_step permissive_externals (network_config_default\<lparr>nc_max_message_bytes := 1\<rparr>) (sample_network_env ''B'' 604)
      (SwarmEvent (GossipMessage ''p'' None [0])) st2 = (st2, True)"
proof -
  let ?C = "network_config_default\<lparr>nc_max_message_bytes := 1\<rparr>" and ?E = "sample_network_env ''B'' 5"
  obtain st1 where st1: "network_step permissive_externals ?C ?E (SwarmEvent (GossipMessage ''p'' None [0, 0])) sample_network = (st1, True)"
    by simp
  have "network_run permissive_externals ?C (ne_now ?E) 500 st1 st1" by (rule network_run.start)
  from oversize_peer_silenced [OF _ _ _ st1 this, of "sample_network_env ''B'' 604" None "[0]" sample_envelope] st1
    show ?thesis using network_run.start [of permissive_externals ?C 5 500 st1]
    by (auto simp: sample_network_env_def sample_network_def guard_check_def guard_new_def)
qed

text \<open>
  A relay is banned for what others publish. The penalty for bytes that cannot be decoded goes to
  the peer the message came through, not to the peer that signed it; four such messages in a row block
  a relay without any record, whoever their authors are, for the whole ban duration.
\<close>
theorem relayed_garbage_bans_relay:
  assumes "fmlookup (pg_peers (ns_guard st)) relay = None"
    and "\<forall>i < 4. length (payload i) \<le> limit \<and> (\<exists>e. decode_wire_message (ne_codec (E i)) (payload i) limit = Err e)"
    and "st' = fold (\<lambda>i s. fst (handle_gossip (E i) limit relay (Some (author i)) (payload i) s)) [0..<4] st"
    and "now < ne_now (E 3) + pg_ban_duration (ns_guard st)"
  shows "snd (guard_check now relay (ns_guard st')) = TemporarilyBlocked"
proof -
  have step: "\<exists>g. ns_guard (fst (handle_gossip (E i) limit relay (Some (author i)) (payload i) s)) = g \<and>
      pg_ban_duration g = pg_ban_duration (ns_guard s) \<and>
      fmlookup (pg_peers g) relay = Some \<lparr>pr_score = score + 25,
        pr_blocked_until = (if score + 25 \<ge> 100 then Some (ne_now (E i) + pg_ban_duration (ns_guard s)) else None)\<rparr>"
    if "i < 4" and "score \<le> 75" and
      "(fmlookup (pg_peers (ns_guard s)) relay = None \<and> score = 0) \<or>
       fmlookup (pg_peers (ns_guard s)) relay = Some \<lparr>pr_score = score, pr_blocked_until = None\<rparr>"
    for i s and score :: int
    using that assms(2) [rule_format, OF that(1)]
    by (auto simp: handle_gossip_def guard_check_def Let_def penalize_peer_def guard_penalize_def BAN_SCORE_def I32_MAX_def)
  let ?f = "\<lambda>i s. fst (handle_gossip (E i) limit relay (Some (author i)) (payload i) s)"
  define a where "a = ?f 0 st"
  define b where "b = ?f 1 a"
  define c where "c = ?f 2 b"
  have four: "[0..<4] = [0, 1, 2, 3 :: nat]" by (simp add: upt_rec)
  then have st': "st' = ?f 3 c" using assms(3) by (simp add: a_def b_def c_def)
  note A = step [of 0 0 st, folded a_def] note B = step [of 1 25 a, folded b_def] note C = step [of 2 50 b, folded c_def]
  note D = step [of 3 75 c, folded st']
  from A assms(1) B C D assms(4) show ?thesis by (auto simp: guard_check_def)
qed

theorem relayed_garbage_bans_relay_witness:
  "snd (guard_check 604 ''relay'' (ns_guard (fold (\<lambda>i s. fst (handle_gossip (sample_network_env ''B'' 5) 100 ''relay''
     (Some ''author'') [of_nat i] s)) [0..<4] sample_network))) = TemporarilyBlocked"
proof -
  have "decode_wire_message sample_codec [b] 100 = Err BadWireJson" for b
    by (simp add: decode_wire_message_def COMPRESSED_WIRE_MAGIC_def sample_codec_def long_json_def)
  then show ?thesis
    using relayed_garbage_bans_relay [of sample_network "''relay''" "\<lambda>i. [of_nat i]" 100 "\<lambda>_. sample_network_env ''B'' 5" _
        "\<lambda>_. ''author''" 604]
    by (simp add: sample_network_def guard_new_def sample_network_env_def)
qed

subsection \<open>Learned addresses\<close>

text \<open>The addresses added to the routing table by a call are acceptable for their peers.\<close>

definition learned_ok :: "network_state \<Rightarrow> network_state \<Rightarrow> bool" where
  "learned_ok st st' \<longleftrightarrow>
     (\<forall>peer address. KadAddAddress peer address \<in> set (ns_actions st') \<longrightarrow> KadAddAddress peer address \<in> set (ns_actions st) \<or>
        accepts_learned_address address (peer |\<in>| ns_same_lan_peers st'))"

lemma accepts_lan: "accepts_learned_address a False \<Longrightarrow> accepts_learned_address a b"
  unfolding accepts_learned_address_def
proof (elim list.pred_mono_strong)
  fix p
  show "(case p of Ip4 ip \<Rightarrow> is_public_ipv4 ip \<or> False \<and> is_lan_ipv4 ip | Ip6 ip \<Rightarrow> ip \<noteq> 1 \<and> ip \<noteq> 0 | _ \<Rightarrow> True) \<Longrightarrow>
    (case p of Ip4 ip \<Rightarrow> is_public_ipv4 ip \<or> b \<and> is_lan_ipv4 ip | Ip6 ip \<Rightarrow> ip \<noteq> 1 \<and> ip \<noteq> 0 | _ \<Rightarrow> True)"
    by (cases p) simp_all
qed

lemma learned_ok_trans:
  assumes "learned_ok st st1" and "learned_ok st1 st2" and "ns_same_lan_peers st1 |\<subseteq>| ns_same_lan_peers st2"
  shows "learned_ok st st2"
proof -
  have "accepts_learned_address a (p |\<in>| ns_same_lan_peers st1) \<Longrightarrow> accepts_learned_address a (p |\<in>| ns_same_lan_peers st2)" for a p
    using assms(3) accepts_lan [of a] by (cases "p |\<in>| ns_same_lan_peers st1") (auto dest: fsubsetD)
  then show ?thesis using assms(1,2) unfolding learned_ok_def by blast
qed

lemma learned_ok_call:
  "(\<forall>peer address. a = KadAddAddress peer address \<longrightarrow> accepts_learned_address address (peer |\<in>| ns_same_lan_peers st)) \<Longrightarrow>
   learned_ok st (swarm_call a st)"
  by (auto simp: learned_ok_def swarm_call_def)

lemma mdns_discovered_ok:
  "learned_ok st (mdns_discovered E peers st) \<and> ns_same_lan_peers st |\<subseteq>| ns_same_lan_peers (mdns_discovered E peers st)"
proof (induction E peers st rule: mdns_discovered.induct)
  case (1 E st)
  then show ?case by (simp add: learned_ok_def)
next
  case (2 E peer address rest st)
  show ?case
  proof (cases "accepts_learned_address address True")
    case False
    then show ?thesis using 2(1) [OF False]
        learned_ok_trans [OF learned_ok_call [of "KadRemoveAddress peer address" st]]
      by (simp add: swarm_call_def)
  next
    case True
    define st0 where "st0 = swarm_call (KadAddAddress peer address)
        (swarm_call (AddExplicitPeer peer) (st\<lparr>ns_same_lan_peers := finsert peer (ns_same_lan_peers st)\<rparr>))"
    define st1 where "st1 = fst (send_event E (PeerDiscovered peer) st0)"
    have first: "learned_ok st st1" "ns_same_lan_peers st |\<subseteq>| ns_same_lan_peers st1"
      using True by (auto simp: st0_def st1_def learned_ok_def swarm_call_def send_event_def)
    have result: "mdns_discovered E ((peer, address) # rest) st = mdns_discovered E rest st1"
      using True by (simp add: st0_def st1_def Let_def)
    have "learned_ok st1 (mdns_discovered E rest st1) \<and> ns_same_lan_peers st1 |\<subseteq>| ns_same_lan_peers (mdns_discovered E rest st1)"
      using 2(2) [of st0] True by (simp add: st0_def st1_def)
    then show ?thesis unfolding result using first learned_ok_trans [OF first(1)] by blast
  qed
qed

lemma learn_address_ok:
  "learned_ok st (fold (learn_address E peer) as st) \<and> ns_same_lan_peers (fold (learn_address E peer) as st) = ns_same_lan_peers st"
proof -
  have resolved: "learned_ok st (fold (learn_resolved peer) rs st) \<and> ns_same_lan_peers (fold (learn_resolved peer) rs st) = ns_same_lan_peers st"
    for rs st
  proof (induction rs arbitrary: st)
    case (Cons r rs)
    have "learned_ok st (learn_resolved peer r st)" "ns_same_lan_peers (learn_resolved peer r st) = ns_same_lan_peers st"
      by (auto simp: learn_resolved_def intro!: learned_ok_call) (auto simp: swarm_call_def)
    then show ?case using Cons.IH [of "learn_resolved peer r st"] learned_ok_trans [of st "learn_resolved peer r st"] by auto
  qed (simp add: learned_ok_def)
  have one: "learned_ok st (learn_address E peer a st) \<and> ns_same_lan_peers (learn_address E peer a st) = ns_same_lan_peers st" for a st
  proof -
    have "learned_ok st st" by (simp add: learned_ok_def)
    then show ?thesis using resolved by (simp add: learn_address_def split: option.split sum.split)
  qed
  show ?thesis
  proof (induction as arbitrary: st)
    case (Cons a as)
    then show ?case using one [of st a] learned_ok_trans [of st "learn_address E peer a st"] by auto
  qed (simp add: learned_ok_def)
qed

lemma mdns_expired_actions:
  "KadAddAddress peer address \<in> set (ns_actions (mdns_expired peers st)) \<Longrightarrow> KadAddAddress peer address \<in> set (ns_actions st)"
  by (induction peers st rule: mdns_expired.induct) (auto simp: Let_def swarm_call_def)

lemma other_actions:
  "ns_actions (fst (send_event E e st)) = ns_actions st" "ns_actions (penalize_peer E peer points st) = ns_actions st"
  "ns_actions (reward_peer peer st) = ns_actions st"
  by (simp_all add: send_event_def penalize_peer_def reward_peer_def)

lemma gossip_actions:
  "KadAddAddress p a \<in> set (ns_actions (fst (handle_gossip E limit peer source payload st))) \<Longrightarrow> KadAddAddress p a \<in> set (ns_actions st)"
  by (auto simp: handle_gossip_def Let_def other_actions swarm_call_def
      split: prod.splits peer_decision.splits if_splits sum.splits option.splits)

lemma communication_actions:
  "KadAddAddress p a \<in> set (ns_actions (fst (handle_communication X E peer request st))) \<Longrightarrow> KadAddAddress p a \<in> set (ns_actions st)"
  by (auto simp: handle_communication_def Let_def other_actions swarm_call_def
      split: prod.splits peer_decision.splits if_splits)

lemma swarm_event_learned: "learned_ok st (fst (handle_swarm_event X E C e st))"
proof -
  have same: "learned_ok st st'" if "\<And>p a. KadAddAddress p a \<in> set (ns_actions st') \<Longrightarrow> KadAddAddress p a \<in> set (ns_actions st)" for st'
    using that unfolding learned_ok_def by blast
  show ?thesis
  proof (cases e)
    case (MdnsDiscovered peers)
    then show ?thesis using mdns_discovered_ok same [of st] by simp
  next
    case (MdnsExpired peers)
    then show ?thesis using same [OF mdns_expired_actions] same [of st] by simp
  next
    case (IdentifyReceived peer as)
    then show ?thesis using learn_address_ok by simp
  next
    case (GossipMessage peer source payload)
    then show ?thesis using same [OF gossip_actions] by simp
  next
    case (CommunicationRequest peer request)
    then show ?thesis using same [OF communication_actions] by simp
  qed (simp_all add: same learned_ok_def other_actions)
qed

text \<open>
  Only usable addresses are learned. Whatever event the swarm reports, every address that is added
  to the routing table for a peer has only IPv4 addresses that are public, or private when the peer was seen
  on the local network, and no loopback or unspecified IPv6 address.
\<close>
theorem learned_addresses_usable:
  assumes "handle_swarm_event X E C e st = (st', r)" and "KadAddAddress peer address \<in> set (ns_actions st')"
    and "KadAddAddress peer address \<notin> set (ns_actions st)" and "Ip4 ip \<in> set address"
  shows "is_public_ipv4 ip \<or> (peer |\<in>| ns_same_lan_peers st' \<and> is_lan_ipv4 ip)"
proof -
  have "learned_ok st st'"
    using swarm_event_learned [of st X E C e] assms(1) by simp
  then have "accepts_learned_address address (peer |\<in>| ns_same_lan_peers st')"
    using assms(2,3) unfolding learned_ok_def by blast
  then show ?thesis using assms(4) unfolding accepts_learned_address_def list_all_iff by fastforce
qed

theorem learned_addresses_usable_witness:
  "\<exists>st'. handle_swarm_event permissive_externals (sample_network_env ''B'' 5) network_config_default
      (IdentifyReceived ''q'' [[Ip4 (10, 0, 0, 1)], [Ip4 (8, 8, 8, 8), P2p ''q'']]) sample_network = (st', Ok ()) \<and>
    ns_actions st' = [KadRemoveAddress ''q'' [Ip4 (10, 0, 0, 1)], KadAddAddress ''q'' [Ip4 (8, 8, 8, 8)]] \<and>
    (is_public_ipv4 (8, 8, 8, 8) \<or> (''q'' |\<in>| ns_same_lan_peers st' \<and> is_lan_ipv4 (8, 8, 8, 8)))"
proof -
  obtain st' where st': "handle_swarm_event permissive_externals (sample_network_env ''B'' 5) network_config_default
      (IdentifyReceived ''q'' [[Ip4 (10, 0, 0, 1)], [Ip4 (8, 8, 8, 8), P2p ''q'']]) sample_network = (st', Ok ())"
    by simp
  then have actions: "ns_actions st' = [KadRemoveAddress ''q'' [Ip4 (10, 0, 0, 1)], KadAddAddress ''q'' [Ip4 (8, 8, 8, 8)]]"
    by (auto simp: learn_address_def learn_resolved_def normalize_learned_address_def resolve_dns4_addresses_def
        accepts_learned_address_def map_filter_simps swarm_call_def sample_network_def)
  with st' learned_addresses_usable [OF st', of "''q''" "[Ip4 (8, 8, 8, 8)]" "(8, 8, 8, 8)"] show ?thesis
    by (simp add: sample_network_def)
qed

end
