(* ===== verification/Updater.thy ===== *)
theory Updater
  imports Keystore Sample
begin

text \<open>
  Automatic updates (\<open>src/updater.rs\<close>, the Unix variant): the configuration, signed manifests, the comparison of
  versions and the replacement of the executable. Of the check of the executable format, which depends on the
  target, the Linux variant (ELF) is modelled; on Windows it looks for \<open>MZ\<close>, elsewhere there is none. Downloads, the JSON codec, the platform name and the
  outcome of each file operation are collected in \<open>update_env\<close>.
\<close>

datatype update_error =
    UpdateConfigIo | UpdateConfigCorrupt | IntervalTooShort | NotHttps | UpdateHex | UpdateLength | UpdateKey
  | UpdateSignature | UpdateSerialize | DownloadFailed | ManifestJson | BadVersion string | NoArtifact string
  | ArtifactHash | NotElf | ReplaceIo | ReplaceRestored | NoFileName

record update_artifact =
  ua_url :: string
  ua_sha256 :: string

record unsigned_manifest =
  um_version :: string
  um_protocol_version :: u32
  um_mandatory :: bool
  um_published_at :: u64
  um_notes :: string
  um_artifacts :: "(string, update_artifact) fmap"

record update_manifest = unsigned_manifest +
  um_signature :: string

datatype update_result = Current | Installed

record auto_update_config =
  auc_enabled :: bool
  auc_manifest_url :: string
  auc_release_public_key :: string
  auc_check_interval_secs :: u64

definition default_check_interval_secs :: u64 where
  "default_check_interval_secs = 6 * 60 * 60"

text \<open>The files beside the executable, and how the operations of a replacement end.\<close>

record exe_dir =
  xd_current :: "bytes option"
  xd_next :: "bytes option"
  xd_previous :: "bytes option"

record replace_plan =
  rp_write :: "nat option"
  rp_permissions :: bool
  rp_remove :: bool
  rp_backup :: bool
  rp_replace :: bool
  rp_restore :: bool

record update_env =
  ud_version :: string
  ud_platform :: string
  ud_millis :: u128
  ud_curl :: "string \<Rightarrow> bytes option"
  ud_parse :: "bytes \<Rightarrow> update_manifest option"
  ud_payload :: "unsigned_manifest \<Rightarrow> bytes option"
  ud_plan :: replace_plan

subsection \<open>Configuration\<close>

definition decode_fixed :: "externals \<Rightarrow> nat \<Rightarrow> string \<Rightarrow> (bytes, update_error) result" where
  "decode_fixed X n v =
     and_then (ok_or (hex_decode X (trim_start_0x (trim_text v))) UpdateHex) (\<lambda>bs.
     and_then (ensure (length bs = n) UpdateLength) (\<lambda>_. Ok bs))"

definition load_if_enabled ::
  "externals \<Rightarrow> (string \<Rightarrow> auto_update_config option) \<Rightarrow> string option option \<Rightarrow> (auto_update_config option, update_error) result" where
  "load_if_enabled X decode config_file =
     (case config_file of
        None \<Rightarrow> Ok None
      | Some contents \<Rightarrow>
        and_then (ok_or contents UpdateConfigIo) (\<lambda>config_text.
        and_then (ok_or (decode config_text) UpdateConfigCorrupt) (\<lambda>config.
        if \<not> auc_enabled config then Ok None
        else
          and_then (ensure (\<not> auc_check_interval_secs config < 60) IntervalTooShort) (\<lambda>_.
          and_then (ensure (starts_with (auc_manifest_url config) ''https://'') NotHttps) (\<lambda>_.
          and_then (decode_fixed X 32 (auc_release_public_key config)) (\<lambda>_.
          Ok (Some config)))))))"

text \<open>\<open>discover\<close>: the candidates in order, the first enabled configuration wins, an invalid one is an error.\<close>

fun discover ::
  "externals \<Rightarrow> (string \<Rightarrow> auto_update_config option) \<Rightarrow> (string \<times> string option option) list
     \<Rightarrow> ((string \<times> auto_update_config) option, update_error) result" where
  "discover X decode [] = Ok None"
| "discover X decode ((path, config_file) # candidates) =
     and_then (load_if_enabled X decode config_file) (\<lambda>found.
     case found of Some config \<Rightarrow> Ok (Some (path, config)) | None \<Rightarrow> discover X decode candidates)"

subsection \<open>Manifests\<close>

definition update_verify ::
  "externals \<Rightarrow> update_env \<Rightarrow> update_manifest \<Rightarrow> string \<Rightarrow> (unit, update_error) result" where
  "update_verify X U m release_public_key =
     and_then (decode_fixed X 32 release_public_key) (\<lambda>public_bytes.
     and_then (decode_fixed X 64 (um_signature m)) (\<lambda>signature_bytes.
     and_then (ensure (ed25519_key X public_bytes) UpdateKey) (\<lambda>_.
     and_then (ok_or (ud_payload U \<lparr>um_version = um_version m, um_protocol_version = um_protocol_version m,
          um_mandatory = um_mandatory m, um_published_at = um_published_at m, um_notes = um_notes m,
          um_artifacts = um_artifacts m\<rparr>) UpdateSerialize) (\<lambda>payload.
     ensure (ed25519_verify X public_bytes payload signature_bytes) UpdateSignature))))"

definition cache_busted_url :: "string \<Rightarrow> u128 \<Rightarrow> string" where
  "cache_busted_url url nonce =
     url @ (if CHR ''?'' \<in> set url then ''&'' else ''?'') @ ''ieum_update_check='' @ dec_digits (unat nonce)"

definition download_https :: "update_env \<Rightarrow> string \<Rightarrow> (bytes, update_error) result" where
  "download_https U url =
     and_then (ensure (starts_with url ''https://'') NotHttps) (\<lambda>_. ok_or (ud_curl U url) DownloadFailed)"

definition fetch_manifest :: "update_env \<Rightarrow> string \<Rightarrow> (update_manifest, update_error) result" where
  "fetch_manifest U url =
     and_then (download_https U (cache_busted_url url (ud_millis U))) (\<lambda>bs. ok_or (ud_parse U bs) ManifestJson)"

subsection \<open>Versions\<close>

fun split_dots :: "string \<Rightarrow> string \<Rightarrow> string list" where
  "split_dots acc [] = [acc]"
| "split_dots acc (c # cs) = (if c = CHR ''.'' then acc # split_dots [] cs else split_dots (acc @ [c]) cs)"

definition parse_u64 :: "string \<Rightarrow> u64 option" where
  "parse_u64 s = (case parse_u128 s of Some n \<Rightarrow> if unat n < 2 ^ 64 then Some (ucast n) else None | None \<Rightarrow> None)"

definition version_parts :: "string \<Rightarrow> (u64 list, update_error) result" where
  "version_parts v =
     (let parts = map parse_u64 (split_dots [] (dropWhile (\<lambda>c. c = CHR ''v'') v)) in
      if list_all (\<lambda>p. p \<noteq> None) parts then Ok (map the parts) else Err (BadVersion v))"

definition resize :: "nat \<Rightarrow> u64 list \<Rightarrow> u64 list" where
  "resize n xs = take n xs @ replicate (n - length xs) 0"

definition is_newer :: "string \<Rightarrow> string \<Rightarrow> (bool, update_error) result" where
  "is_newer current candidate =
     and_then (version_parts current) (\<lambda>current_parts.
     and_then (version_parts candidate) (\<lambda>candidate_parts.
     let n = max (length current_parts) (length candidate_parts)
     in Ok (resize n candidate_parts > resize n current_parts)))"

subsection \<open>Installation\<close>

definition ELF_MAGIC :: bytes where
  "ELF_MAGIC = [0x7F, 0x45, 0x4C, 0x46]"

definition validate_executable_bytes :: "bytes \<Rightarrow> (unit, update_error) result" where
  "validate_executable_bytes bs = ensure (take 4 bs = ELF_MAGIC) NotElf"

definition stage_or_replace :: "replace_plan \<Rightarrow> bytes \<Rightarrow> exe_dir \<Rightarrow> exe_dir \<times> (unit, update_error) result" where
  "stage_or_replace P bs d =
     (case rp_write P of
        Some k \<Rightarrow> (d\<lparr>xd_next := Some (take k bs)\<rparr>, Err ReplaceIo)
      | None \<Rightarrow>
        let d1 = d\<lparr>xd_next := Some bs\<rparr> in
        if \<not> rp_permissions P then (d1, Err ReplaceIo)
        else if xd_previous d1 \<noteq> None \<and> \<not> rp_remove P then (d1, Err ReplaceIo)
        else
          let d2 = d1\<lparr>xd_previous := None\<rparr> in
          if \<not> rp_backup P then (d2, Err ReplaceIo)
          else
            let d3 = d2\<lparr>xd_previous := xd_current d2, xd_current := None\<rparr> in
            if \<not> rp_replace P then
              (if rp_restore P then d3\<lparr>xd_current := xd_previous d3, xd_previous := None\<rparr> else d3, Err ReplaceRestored)
            else (d3\<lparr>xd_current := xd_next d3, xd_next := None\<rparr>, Ok ()))"

definition install_current_platform ::
  "externals \<Rightarrow> update_env \<Rightarrow> update_manifest \<Rightarrow> exe_dir \<Rightarrow> exe_dir \<times> (unit, update_error) result" where
  "install_current_platform X U m d =
     (case and_then (ok_or (fmlookup (um_artifacts m) (ud_platform U)) (NoArtifact (ud_platform U))) (\<lambda>artifact.
           and_then (download_https U (ua_url artifact)) (\<lambda>bs.
           and_then (ensure (to_ascii_lowercase (hex_encode X (sha256 X bs)) =
               to_ascii_lowercase (trim_start_0x (ua_sha256 artifact))) ArtifactHash) (\<lambda>_.
           and_then (validate_executable_bytes bs) (\<lambda>_. Ok bs)))) of
        Inl e \<Rightarrow> (d, Err e)
      | Inr bs \<Rightarrow> stage_or_replace (ud_plan U) bs d)"

definition install_non_interactive ::
  "externals \<Rightarrow> update_env \<Rightarrow> string \<Rightarrow> string \<Rightarrow> exe_dir \<Rightarrow> exe_dir \<times> (update_result, update_error) result" where
  "install_non_interactive X U manifest_url release_public_key d =
     (case and_then (fetch_manifest U manifest_url) (\<lambda>m.
           and_then (update_verify X U m release_public_key) (\<lambda>_.
           and_then (is_newer (ud_version U) (um_version m)) (\<lambda>newer. Ok (m, newer)))) of
        Inl e \<Rightarrow> (d, Err e)
      | Inr (m, newer) \<Rightarrow>
        if \<not> newer then (d, Ok Current)
        else (case install_current_platform X U m d of (d1, r) \<Rightarrow> (d1, and_then r (\<lambda>_. Ok Installed))))"

text \<open>\<open>check_and_prompt\<close>: \<open>answer\<close> is what the user types on a terminal, \<open>None\<close> without a terminal.\<close>

definition check_and_prompt ::
  "externals \<Rightarrow> update_env \<Rightarrow> string \<Rightarrow> string \<Rightarrow> bool \<Rightarrow> string option \<Rightarrow> exe_dir \<Rightarrow> exe_dir \<times> (unit, update_error) result" where
  "check_and_prompt X U manifest_url release_public_key allow_install answer d =
     (case and_then (fetch_manifest U manifest_url) (\<lambda>m.
           and_then (update_verify X U m release_public_key) (\<lambda>_.
           and_then (is_newer (ud_version U) (um_version m)) (\<lambda>newer. Ok (m, newer)))) of
        Inl e \<Rightarrow> (d, Err e)
      | Inr (m, newer) \<Rightarrow>
        if \<not> newer \<or> \<not> allow_install then (d, Ok ())
        else case answer of
          None \<Rightarrow> (d, Ok ())
        | Some a \<Rightarrow>
          if to_ascii_lowercase (trim_text a) \<in> {''y'', ''yes''} then install_current_platform X U m d else (d, Ok ()))"

subsection \<open>Lemmas\<close>

lemma length_resize [simp]: "length xs \<le> n \<Longrightarrow> length (resize n xs) = n"
  by (simp add: resize_def)

lemma resize_more: "length xs \<le> n \<Longrightarrow> n \<le> m \<Longrightarrow> resize m xs = resize n xs @ replicate (m - n) 0"
  by (simp add: resize_def replicate_add [symmetric])

lemma less_append_same:
  fixes xs :: "'a::linorder list"
  shows "length xs = length ys \<Longrightarrow> xs @ zs < ys @ zs \<longleftrightarrow> xs < ys"
  by (induction xs ys rule: list_induct2) auto

lemma resize_less:
  assumes "length xs \<le> n" and "length ys \<le> n" and "n \<le> m"
  shows "resize n xs < resize n ys \<longleftrightarrow> resize m xs < resize m ys"
  using assms by (simp add: resize_more [of _ n m] less_append_same)

lemma is_newer_Ok:
  "is_newer a b = Ok r \<longleftrightarrow>
   (\<exists>xs ys. version_parts a = Ok xs \<and> version_parts b = Ok ys \<and>
      (\<forall>n. length xs \<le> n \<longrightarrow> length ys \<le> n \<longrightarrow> r = (resize n xs < resize n ys)))"
proof -
  have same: "resize (max (length xs) (length ys)) xs < resize (max (length xs) (length ys)) ys \<longleftrightarrow> resize n xs < resize n ys"
    if "length xs \<le> n" "length ys \<le> n" for n and xs ys :: "u64 list"
    by (rule resize_less) (use that in auto)
  have "(resize (max (length xs) (length ys)) xs < resize (max (length xs) (length ys)) ys) = r \<longleftrightarrow>
      (\<forall>n. length xs \<le> n \<longrightarrow> length ys \<le> n \<longrightarrow> r = (resize n xs < resize n ys))" for xs ys
    using same [of xs _ ys] by (meson max.cobounded1 max.cobounded2)
  then show ?thesis by (simp add: is_newer_def result_simps Let_def)
qed

text \<open>
  Versions are ordered. \<open>is_newer\<close> never holds between a version and itself, is transitive, and
  of two well-formed versions neither of which is newer, both are older and newer than the same ones; missing
  trailing parts count as zero. A chain of updates therefore never leads back to an older version.
\<close>
theorem version_order:
  "is_newer a a \<noteq> Ok True \<and>
   (is_newer a b = Ok True \<longrightarrow> is_newer b c = Ok True \<longrightarrow> is_newer a c = Ok True) \<and>
   (is_newer a b = Ok False \<longrightarrow> is_newer b a = Ok False \<longrightarrow> is_newer a c = is_newer b c \<and> is_newer c a = is_newer c b)"
proof (intro conjI impI)
  show "is_newer a a \<noteq> Ok True" by (auto simp: is_newer_Ok dest: spec [where x = "length _"])
next
  assume "is_newer a b = Ok True" and "is_newer b c = Ok True"
  then obtain xs ys zs where v: "version_parts a = Ok xs" "version_parts b = Ok ys" "version_parts c = Ok zs"
    and less: "\<And>n. length xs \<le> n \<Longrightarrow> length ys \<le> n \<Longrightarrow> resize n xs < resize n ys"
      "\<And>n. length ys \<le> n \<Longrightarrow> length zs \<le> n \<Longrightarrow> resize n ys < resize n zs"
    unfolding is_newer_Ok by force
  let ?m = "max (length xs) (max (length ys) (length zs))"
  have "resize ?m xs < resize ?m zs" using less(1) [of ?m] less(2) [of ?m] by (meson less_trans max.cobounded1 max.cobounded2 max.coboundedI2)
  then have "resize n xs < resize n zs" if "length xs \<le> n" "length zs \<le> n" for n
    using that resize_less [of xs n zs "max n ?m"] resize_less [of xs ?m zs "max n ?m"] by simp
  then show "is_newer a c = Ok True" using v unfolding is_newer_Ok by blast
next
  assume "is_newer a b = Ok False" and "is_newer b a = Ok False"
  then obtain xs ys where v: "version_parts a = Ok xs" "version_parts b = Ok ys"
    and same: "\<And>n. length xs \<le> n \<Longrightarrow> length ys \<le> n \<Longrightarrow> \<not> resize n xs < resize n ys"
      "\<And>n. length xs \<le> n \<Longrightarrow> length ys \<le> n \<Longrightarrow> \<not> resize n ys < resize n xs"
    unfolding is_newer_Ok by force
  have eq: "resize n xs = resize n ys" if "length xs \<le> n" "length ys \<le> n" for n
    using same(1) [OF that] same(2) [OF that] by simp
  have swap: "resize n xs < resize n zs \<longleftrightarrow> resize m ys < resize m zs" "resize n zs < resize n xs \<longleftrightarrow> resize m zs < resize m ys"
    if "length xs \<le> n" "length zs \<le> n" "length ys \<le> m" "length zs \<le> m" for n m zs
    using that eq [of "max n m"] resize_less [of xs n zs "max n m"] resize_less [of ys m zs "max n m"]
      resize_less [of zs n xs "max n m"] resize_less [of zs m ys "max n m"] by auto
  show "is_newer a c = is_newer b c" "is_newer c a = is_newer c b"
    using v swap by (cases "version_parts c"; simp add: is_newer_def Let_def)+
qed

theorem version_order_witness:
  "is_newer ''1.2'' ''1.2.0'' = Ok False \<and> is_newer ''v1.2.0'' ''1.10'' = Ok True \<and> is_newer ''1.10'' ''2'' = Ok True \<and>
   is_newer ''v1.2.0'' ''2'' = Ok True"
proof -
  have "is_newer ''1.2'' ''1.2.0'' = Ok False" "is_newer ''v1.2.0'' ''1.10'' = Ok True" "is_newer ''1.10'' ''2'' = Ok True"
    by (simp_all add: is_newer_def version_parts_def parse_u64_def parse_u128_def checked_mul_def checked_add_def
        is_ascii_digit_def resize_def)
  with version_order [of "''v1.2.0''" "''1.10''" "''2''"] show ?thesis by simp
qed

subsection \<open>Updates\<close>

lemma update_verify_signed:
  "update_verify X U m key = Ok () \<Longrightarrow>
   \<exists>k s payload. decode_fixed X 32 key = Ok k \<and> decode_fixed X 64 (um_signature m) = Ok s \<and>
     ud_payload U \<lparr>um_version = um_version m, um_protocol_version = um_protocol_version m,
       um_mandatory = um_mandatory m, um_published_at = um_published_at m, um_notes = um_notes m,
       um_artifacts = um_artifacts m\<rparr> = Some payload \<and> ed25519_verify X k payload s"
  by (auto simp: update_verify_def result_simps)

lemma stage_or_replace_result:
  assumes "stage_or_replace P bs d = (d', r)" and "xd_current d = Some old"
  shows "if r = Ok () then xd_current d' = Some bs \<and> xd_previous d' = Some old
    else xd_current d' = Some old \<or> (xd_current d' = None \<and> xd_previous d' = Some old \<and> \<not> rp_restore P)"
  using assms by (auto simp: stage_or_replace_def Let_def split: option.splits if_splits)

text \<open>
  C37: only signed updates are installed. When the updater reports an installation, the executable is a
  file whose SHA-256 digest is named, for this platform, by a manifest that verifies under the configured release
  key and has a newer version, the file is an ELF executable, and the old executable is kept beside it. In every
  other case the old executable is still in place, or, when the replacement and the restoration both
  failed, there is no executable in place and the old one is kept beside it.
\<close>
theorem update_only_signed:
  assumes "install_non_interactive X U manifest_url release_public_key d = (d', r)" and "xd_current d = Some old"
  shows "if r = Ok Installed then
      \<exists>m artifact bs. update_verify X U m release_public_key = Ok () \<and> is_newer (ud_version U) (um_version m) = Ok True \<and>
        fmlookup (um_artifacts m) (ud_platform U) = Some artifact \<and>
        to_ascii_lowercase (hex_encode X (sha256 X bs)) = to_ascii_lowercase (trim_start_0x (ua_sha256 artifact)) \<and>
        take 4 bs = ELF_MAGIC \<and> xd_current d' = Some bs \<and> xd_previous d' = Some old
    else xd_current d' = Some old \<or> (xd_current d' = None \<and> xd_previous d' = Some old \<and> \<not> rp_restore (ud_plan U))"
proof (cases "and_then (fetch_manifest U manifest_url) (\<lambda>m.
           and_then (update_verify X U m release_public_key) (\<lambda>_.
           and_then (is_newer (ud_version U) (um_version m)) (\<lambda>newer. Ok (m, newer))))")
  case (Inr mn)
  obtain m newer where mn: "mn = (m, newer)" by force
  have m: "update_verify X U m release_public_key = Ok ()" "is_newer (ud_version U) (um_version m) = Ok newer"
    using Inr by (auto simp: mn result_simps)
  show ?thesis
  proof (cases newer)
    case True
    obtain d1 q where inst: "install_current_platform X U m d = (d1, q)" by force
    have d1: "d' = d1" "r = and_then q (\<lambda>_. Ok Installed)"
      using assms(1) unfolding install_non_interactive_def Inr mn using True by (simp_all add: inst)
    have "if q = Ok () then \<exists>artifact bs. fmlookup (um_artifacts m) (ud_platform U) = Some artifact \<and>
        to_ascii_lowercase (hex_encode X (sha256 X bs)) = to_ascii_lowercase (trim_start_0x (ua_sha256 artifact)) \<and>
        take 4 bs = ELF_MAGIC \<and> xd_current d1 = Some bs \<and> xd_previous d1 = Some old
      else xd_current d1 = Some old \<or> (xd_current d1 = None \<and> xd_previous d1 = Some old \<and> \<not> rp_restore (ud_plan U))"
      using inst assms(2) stage_or_replace_result [OF _ assms(2), of "ud_plan U" _ d1 q]
      unfolding install_current_platform_def
      by (auto simp: result_simps validate_executable_bytes_def split: sum.splits if_splits)
    then show ?thesis using m True d1 by (cases q) auto
  qed (use assms in \<open>auto simp: install_non_interactive_def Inr mn\<close>)
qed (use assms in \<open>auto simp: install_non_interactive_def\<close>)

text \<open>
  When the new executable cannot be moved into place and the old one cannot be moved back, the program has
  no executable any more, only the kept one beside it; the message says that the old file was restored.
\<close>
theorem no_executable_left:
  assumes "rp_write P = None" "rp_permissions P" "rp_remove P" "rp_backup P" "\<not> rp_replace P" "\<not> rp_restore P"
    and "xd_current d = Some old" and "stage_or_replace P bs d = (d', r)"
  shows "r \<noteq> Ok () \<and> xd_current d' = None \<and> xd_previous d' = Some old"
  using assms by (auto simp: stage_or_replace_def Let_def split: option.splits)

definition sample_manifest :: update_manifest where
  "sample_manifest = \<lparr>um_version = ''2'', um_protocol_version = 1, um_mandatory = False, um_published_at = 0, um_notes = [],
     um_artifacts = fmupd ''linux-x86_64'' \<lparr>ua_url = ''https://a'', ua_sha256 = ''H''\<rparr> fmempty, um_signature = ''ss''\<rparr>"

definition sample_update_env :: update_env where
  "sample_update_env = \<lparr>ud_version = ''1'', ud_platform = ''linux-x86_64'', ud_millis = 0, ud_curl = (\<lambda>_. Some (ELF_MAGIC @ [1])),
     ud_parse = (\<lambda>_. Some sample_manifest), ud_payload = (\<lambda>_. Some []),
     ud_plan = \<lparr>rp_write = None, rp_permissions = True, rp_remove = True, rp_backup = True, rp_replace = True, rp_restore = True\<rparr>\<rparr>"

lemma sample_install:
  "\<exists>d. install_non_interactive permissive_externals sample_update_env ''https://m'' ''kkk''
     \<lparr>xd_current = Some [9], xd_next = None, xd_previous = None\<rparr> = (d, Ok Installed)"
proof -
  have "trim_text ''ss'' = ''ss''" "trim_text ''kkk'' = ''kkk''"
    using trim_text_printable [of "''ss''" "[]"] trim_text_printable [of "''kkk''" "[]"]
    by (simp_all add: printable_def is_blank_def all_white.simps [of "[]"])
  then have keys: "decode_fixed permissive_externals 64 ''ss'' = Ok (replicate 64 0)"
    "decode_fixed permissive_externals 32 ''kkk'' = Ok (replicate 32 0)"
    by (simp_all add: decode_fixed_def permissive_externals_def trim_start_0x.simps)
  have "update_verify permissive_externals sample_update_env sample_manifest ''kkk'' = Ok ()"
    by (simp add: update_verify_def keys sample_manifest_def sample_update_env_def)
      (simp add: permissive_externals_def)
  moreover have "is_newer ''1'' ''2'' = Ok True"
    by (simp add: is_newer_def version_parts_def parse_u64_def parse_u128_def checked_mul_def checked_add_def
        is_ascii_digit_def resize_def)
  moreover have "to_ascii_lowercase (trim_start_0x ''H'') = ''h''" "to_ascii_lowercase ''h'' = ''h''"
    by (simp_all add: trim_start_0x.simps to_ascii_lowercase_def ascii_lower_def) code_simp
  moreover have "ud_version sample_update_env = ''1''" "ud_platform sample_update_env = ''linux-x86_64''"
    "ud_parse sample_update_env bs = Some sample_manifest" "ud_curl sample_update_env url = Some (ELF_MAGIC @ [1])"
    "rp_write (ud_plan sample_update_env) = None" "rp_permissions (ud_plan sample_update_env)" "rp_remove (ud_plan sample_update_env)"
    "rp_backup (ud_plan sample_update_env)" "rp_replace (ud_plan sample_update_env)" for bs url
    by (simp_all add: sample_update_env_def)
  moreover have "um_version sample_manifest = ''2''" "hex_encode permissive_externals bs = ''h''"
    "fmlookup (um_artifacts sample_manifest) ''linux-x86_64'' = Some \<lparr>ua_url = ''https://a'', ua_sha256 = ''H''\<rparr>" for bs
    by (simp_all add: sample_manifest_def permissive_externals_def)
  ultimately show ?thesis
    by (simp add: install_non_interactive_def fetch_manifest_def download_https_def cache_busted_url_def starts_with_def
        install_current_platform_def stage_or_replace_def validate_executable_bytes_def ELF_MAGIC_def)
qed

theorem update_only_signed_witness:
  "\<exists>d bs. install_non_interactive permissive_externals sample_update_env ''https://m'' ''kkk''
     \<lparr>xd_current = Some [9], xd_next = None, xd_previous = None\<rparr> = (d, Ok Installed) \<and>
     xd_current d = Some bs \<and> take 4 bs = ELF_MAGIC \<and> xd_previous d = Some [9]"
proof -
  obtain d where d: "install_non_interactive permissive_externals sample_update_env ''https://m'' ''kkk''
     \<lparr>xd_current = Some [9], xd_next = None, xd_previous = None\<rparr> = (d, Ok Installed)"
    using sample_install by blast
  with update_only_signed [OF d, of "[9]"] show ?thesis by auto
qed

end
