(* ===== verification/Node.thy ===== *)
theory Node
  imports Wire Rpc Updater Proof_Stores
begin

text \<open>
  The event loop of the node program (\<open>src/main.rs\<close>, \<open>main\<close> and the functions it calls): the consensus driver,
  the shared state of the RPC server, the files, and the commands sent to the network task. One iteration of
  the loop is \<open>node_step\<close>; what comes from outside in an iteration (clocks, the outcome of file operations,
  whether the network task still listens) is a \<open>node_input\<close>, and the clocks do not move within an iteration.
  An operation returns the state with its result also when it fails: an error that reaches the loop ends the
  program, and by then messages may have been sent and files written. Terminal output is left out.
\<close>

datatype node_error =
    NodeConsensus runtime_error | NodeRpc handle_error | NodeStore store_error | NodeUpgrade upgrade_error
  | NetworkTaskGone | RpcTaskEnded | SyncedStateDiffers | SaveValidatorsFailed | NoTip | NodeQuorum sync_error
  | NodeRegistration signature_error | BadPeerId

datatype flow = Go | Stop

record 'd node_state =
  nd_consensus :: consensus_runtime
  nd_rpc :: "'d rpc_state"
  nd_validators :: "validator list"
  nd_local_is_validator :: bool
  nd_registrations :: "(string, validator_registration) fmap"
  nd_reward_registrations :: "(string, node_reward_registration) fmap"
  nd_finality_file :: "string option"
  nd_evidence_file :: "string option"
  nd_validators_file :: "validator list"
  nd_sync_quorum :: tip_quorum
  nd_announced :: "(string, nat) fmap"
  nd_was_active :: bool
  nd_commands :: "network_command list"

record 'd node_config =
  nf_is_client :: bool
  nf_local_address :: string
  nf_local_registration :: "validator_registration option"
  nf_reward_registration :: node_reward_registration
  nf_upgrades :: "protocol_upgrade list"
  nf_schedule :: event_schedule
  nf_auto_update :: bool
  nf_version :: string
  nf_storage :: "'d storage_env"
  nf_certificate_json :: "finality_certificate \<Rightarrow> bytes option"
  nf_certificate_line :: "finality_certificate \<Rightarrow> string"
  nf_certificate_parse :: "string \<Rightarrow> finality_certificate option"
  nf_evidence_line :: "double_vote_evidence \<Rightarrow> string"
  nf_evidence_parse :: "string \<Rightarrow> double_vote_evidence option"
  nf_peer_id_ok :: "string \<Rightarrow> bool"

record node_input =
  ni_now :: nat
  ni_clock :: "u64 option"
  ni_network_open :: bool
  ni_certificate_io :: "finality_certificate \<Rightarrow> append_io"
  ni_evidence_io :: "double_vote_evidence \<Rightarrow> append_io"
  ni_evidence_readable :: "double_vote_evidence \<Rightarrow> bool"
  ni_save_validators :: bool
  ni_update :: "(update_result, update_error) result"

type_synonym ('d, 'a) node_op = "'d node_state \<Rightarrow> 'd node_state \<times> ('a, node_error) result"

subsection \<open>Operations of the loop\<close>

definition nd_return :: "'a \<Rightarrow> ('d, 'a) node_op" where
  "nd_return x s = (s, Ok x)"

definition nd_fail :: "node_error \<Rightarrow> ('d, 'a) node_op" where
  "nd_fail e s = (s, Err e)"

definition nd_bind :: "('d, 'a) node_op \<Rightarrow> ('a \<Rightarrow> ('d, 'b) node_op) \<Rightarrow> ('d, 'b) node_op" where
  "nd_bind m f s = (case m s of (s1, Inl e) \<Rightarrow> (s1, Err e) | (s1, Inr x) \<Rightarrow> f x s1)"

definition nd_check :: "(unit, node_error) result \<Rightarrow> ('d, unit) node_op" where
  "nd_check r s = (s, r)"

definition send :: "node_input \<Rightarrow> network_command \<Rightarrow> ('d, unit) node_op" where
  "send I c s = (if ni_network_open I then (s\<lparr>nd_commands := nd_commands s @ [c]\<rparr>, Ok ()) else (s, Err NetworkTaskGone))"

fun send_all :: "node_input \<Rightarrow> network_command list \<Rightarrow> ('d, unit) node_op" where
  "send_all I [] = nd_return ()"
| "send_all I (c # cs) = nd_bind (send I c) (\<lambda>_. send_all I cs)"

definition on_consensus ::
  "(consensus_runtime \<Rightarrow> consensus_runtime \<times> ('a, runtime_error) result) \<Rightarrow> ('d, 'a) node_op" where
  "on_consensus f s = (case f (nd_consensus s) of (rt, r) \<Rightarrow> (s\<lparr>nd_consensus := rt\<rparr>, map_err NodeConsensus r))"

definition on_rpc :: "('d rpc_state \<Rightarrow> 'd rpc_state \<times> ('a, handle_error) result) \<Rightarrow> ('d, 'a) node_op" where
  "on_rpc f s = (case f (nd_rpc s) of (q, r) \<Rightarrow> (s\<lparr>nd_rpc := q\<rparr>, map_err NodeRpc r))"

definition set_rpc :: "('d rpc_state \<Rightarrow> 'd rpc_state) \<Rightarrow> ('d, unit) node_op" where
  "set_rpc f s = (s\<lparr>nd_rpc := f (nd_rpc s)\<rparr>, Ok ())"

definition unix_timestamp :: "node_input \<Rightarrow> u64" where
  "unix_timestamp I = (case ni_clock I of Some t \<Rightarrow> t | None \<Rightarrow> 0)"

definition SUPPORTED_PROTOCOL_VERSION :: u32 where
  "SUPPORTED_PROTOCOL_VERSION = 2"

subsection \<open>Votes, evidence and finalization\<close>

definition publish_replayed_votes :: "externals \<Rightarrow> node_input \<Rightarrow> ('d, unit) node_op" where
  "publish_replayed_votes X I =
     nd_bind (on_consensus (replay_deferred_votes X (ni_now I))) (\<lambda>votes. send_all I (map PublishConsensus votes))"

definition append_evidence :: "externals \<Rightarrow> 'd node_config \<Rightarrow> node_input \<Rightarrow> double_vote_evidence \<Rightarrow> ('d, bool) node_op" where
  "append_evidence X N I e s =
     (case evidence_append X (nf_evidence_line N) (nf_evidence_parse N) (ni_evidence_readable I e) (ni_evidence_io I e) e
         (nd_evidence_file s) of
        (f, r) \<Rightarrow> (s\<lparr>nd_evidence_file := f\<rparr>, map_err NodeStore r))"

fun evidence_loop :: "externals \<Rightarrow> 'd node_config \<Rightarrow> node_input \<Rightarrow> double_vote_evidence list \<Rightarrow> ('d, unit) node_op" where
  "evidence_loop X N I [] = nd_return ()"
| "evidence_loop X N I (e # es) =
     nd_bind (append_evidence X N I e) (\<lambda>new.
     nd_bind (if new then send I (PublishEvidence e) else nd_return ()) (\<lambda>_. evidence_loop X N I es))"

definition persist_and_publish_evidence :: "externals \<Rightarrow> 'd node_config \<Rightarrow> node_input \<Rightarrow> ('d, unit) node_op" where
  "persist_and_publish_evidence X N I =
     nd_bind (on_consensus (\<lambda>rt. case take_evidence rt of (es, rt1) \<Rightarrow> (rt1, Ok es))) (evidence_loop X N I)"

definition append_certificate :: "'d node_config \<Rightarrow> node_input \<Rightarrow> finality_certificate \<Rightarrow> ('d, unit) node_op" where
  "append_certificate N I c s =
     (case finality_append (nf_certificate_line N) (ni_certificate_io I c) c (nd_finality_file s) of
        (f, r) \<Rightarrow> (s\<lparr>nd_finality_file := f\<rparr>, map_err NodeStore r))"

fun install_certificates ::
  "externals \<Rightarrow> 'd node_config \<Rightarrow> node_input \<Rightarrow> finality_certificate list \<Rightarrow> ('d, unit) node_op" where
  "install_certificates X N I [] = nd_return ()"
| "install_certificates X N I (c # cs) =
     nd_bind (\<lambda>s. on_rpc (install_finalized X (nf_storage N) (rs_chain (nd_rpc s)) (rt_chain (nd_consensus s)) (fc_block c)) s) (\<lambda>_.
     nd_bind (append_certificate N I c) (\<lambda>_.
     nd_bind (send I (PublishBlock (fc_block c))) (\<lambda>_. install_certificates X N I cs)))"

definition finalize_if_ready :: "externals \<Rightarrow> 'd node_config \<Rightarrow> node_input \<Rightarrow> ('d, unit) node_op" where
  "finalize_if_ready X N I =
     nd_bind (on_consensus (\<lambda>rt. case take_finalized rt of (cs, rt1) \<Rightarrow> (rt1, Ok cs))) (\<lambda>certificates.
     if certificates = [] then nd_return ()
     else nd_bind (install_certificates X N I certificates) (\<lambda>_.
       on_consensus (advance_after_finalization (ni_now I))))"

text \<open>The node's own prevote, and the precommit it may lead to, are published and counted.\<close>

definition cast_vote :: "externals \<Rightarrow> node_input \<Rightarrow> consensus_message \<Rightarrow> ('d, unit) node_op" where
  "cast_vote X I prevote =
     nd_bind (send I (PublishConsensus prevote)) (\<lambda>_.
     nd_bind (on_consensus (receive_vote X (ni_now I) prevote)) (\<lambda>r.
     case r of
       None \<Rightarrow> nd_return ()
     | Some precommit \<Rightarrow>
       nd_bind (send I (PublishConsensus precommit)) (\<lambda>_.
       nd_bind (on_consensus (receive_vote X (ni_now I) precommit)) (\<lambda>_. nd_return ()))))"

subsection \<open>The consensus tick\<close>

definition flush_communication :: "node_input \<Rightarrow> ('d, unit) node_op" where
  "flush_communication I s =
     (case drain_outbound_communication (nd_rpc s) of
        (q, messages) \<Rightarrow> send_all I (map SendCommunication messages) (s\<lparr>nd_rpc := q\<rparr>))"

definition consensus_is_active :: "'d node_state \<Rightarrow> bool" where
  "consensus_is_active s \<longleftrightarrow> nd_local_is_validator s \<and>
     (bft_phase (rt_consensus (nd_consensus s)) \<noteq> Propose \<or> has_pending_transactions (nd_rpc s))"

definition expire_round :: "externals \<Rightarrow> node_input \<Rightarrow> ('d, unit) node_op" where
  "expire_round X I s =
     (let timed_out_transactions = pending_transactions (nd_consensus s);
          active = consensus_is_active s;
          s1 = (if active \<and> \<not> nd_was_active s
                then s\<lparr>nd_consensus := restart_phase_timeout (ni_now I) (nd_consensus s)\<rparr> else s)
      in if \<not> active then (s1\<lparr>nd_was_active := active\<rparr>, Ok ())
         else case timeout_if_due (ni_now I) (nd_consensus s1) of
           Inl e \<Rightarrow> (s1, Err (NodeConsensus e))
         | Inr (rt, expired) \<Rightarrow>
           let s2 = s1\<lparr>nd_consensus := rt\<rparr>;
               s3 = (if expired then s2\<lparr>nd_rpc := restore_transactions X timed_out_transactions (nd_rpc s2)\<rparr> else s2)
           in (s3\<lparr>nd_was_active := active\<rparr>, Ok ()))"

fun announce_loop :: "externals \<Rightarrow> node_input \<Rightarrow> transaction list \<Rightarrow> ('d, unit) node_op" where
  "announce_loop X I [] = nd_return ()"
| "announce_loop X I (tx # txs) =
     nd_bind (\<lambda>s.
       if (case fmlookup (nd_announced s) (tx_id X tx) of None \<Rightarrow> True | Some seen \<Rightarrow> ni_now I - seen \<ge> 2 * 10 ^ 9)
       then nd_bind (send I (PublishTransaction tx)) (\<lambda>_ t. (t\<lparr>nd_announced := fmupd (tx_id X tx) (ni_now I) (nd_announced t)\<rparr>, Ok ())) s
       else (s, Ok ())) (\<lambda>_. announce_loop X I txs)"

definition announce_transactions :: "externals \<Rightarrow> node_input \<Rightarrow> ('d, unit) node_op" where
  "announce_transactions X I s =
     (if can_make_proposal X (nd_consensus s) then (s, Ok ())
      else announce_loop X I (pending_transactions_snapshot (nd_rpc s) 1000) s)"

definition BOOTSTRAP_REWARD_EVENT :: string where
  "BOOTSTRAP_REWARD_EVENT = ''ieum-bootstrap-validator-reward-v1''"

definition NODE_REWARD_EVENT :: string where
  "NODE_REWARD_EVENT = ''ieum-node-100-reward-v1''"

definition due_events :: "'d node_config \<Rightarrow> node_input \<Rightarrow> 'd node_state \<Rightarrow> scheduled_event list" where
  "due_events N I s =
     (let timestamp = unix_timestamp I; executed = executed_events (rt_chain (nd_consensus s));
          validator_proofs = List.map_filter (\<lambda>v. fmlookup (nd_registrations s) (val_id v)) (nd_validators s)
      in due (nf_schedule N) timestamp executed @
         (if BOOTSTRAP_REWARD_EVENT |\<notin>| executed \<and> length validator_proofs = 4
          then [\<lparr>ev_id = BOOTSTRAP_REWARD_EVENT, ev_execute_at = timestamp,
                 ev_action = BootstrapValidatorReward validator_proofs (10 * 10 ^ 18)\<rparr>] else []) @
         (if NODE_REWARD_EVENT |\<notin>| executed \<and> fcard (fmdom (nd_reward_registrations s)) \<ge> 100
          then [\<lparr>ev_id = NODE_REWARD_EVENT, ev_execute_at = timestamp,
                 ev_action = NodeMilestoneReward (take 100 (map snd (fm_entries (nd_reward_registrations s)))) (10 ^ 18)\<rparr>] else []))"

text \<open>A failed local proposal is retried at the next tick: the transactions go back into the pool.\<close>

definition publish_proposal ::
  "externals \<Rightarrow> 'd node_config \<Rightarrow> node_input \<Rightarrow> transaction list \<Rightarrow> block \<Rightarrow> ('d, unit) node_op" where
  "publish_proposal X N I pending b s =
     (case make_proposal X b (nd_consensus s) of
        Inl _ \<Rightarrow> nd_bind (send_all I (map PublishTransaction pending)) (\<lambda>_. set_rpc (restore_transactions X pending)) s
      | Inr proposal \<Rightarrow>
        (case receive_proposal X (ni_now I) (ni_clock I) proposal (nd_consensus s) of
           (rt, Inl _) \<Rightarrow> set_rpc (restore_transactions X pending) (s\<lparr>nd_consensus := rt\<rparr>)
         | (rt, Inr prevote) \<Rightarrow>
           nd_bind (send I (PublishProposal proposal)) (\<lambda>_.
           nd_bind (cast_vote X I prevote) (\<lambda>_. finalize_if_ready X N I)) (s\<lparr>nd_consensus := rt\<rparr>)))"

definition propose_block :: "externals \<Rightarrow> 'd node_config \<Rightarrow> node_input \<Rightarrow> ('d, unit) node_op" where
  "propose_block X N I s =
     (let events = due_events N I s in
      if can_make_proposal X (nd_consensus s) \<and> (has_pending_transactions (nd_rpc s) \<or> events \<noteq> []) then
        (case drain_transactions X 1000 (nd_rpc s) of
           (q, pending) \<Rightarrow>
           (case last_block (rt_chain (nd_consensus s)) of
              None \<Rightarrow> (s\<lparr>nd_rpc := q\<rparr>, Err NoTip)
            | Some previous \<Rightarrow>
              publish_proposal X N I pending
                (with_system_events X (block_new X (blk_height previous + 1) (blk_hash previous) (unix_timestamp I)
                   (nf_local_address N) pending) events)
                (s\<lparr>nd_rpc := q\<rparr>)))
      else (s, Ok ()))"

definition on_consensus_tick :: "externals \<Rightarrow> 'd node_config \<Rightarrow> node_input \<Rightarrow> ('d, flow) node_op" where
  "on_consensus_tick X N I =
     nd_bind (flush_communication I) (\<lambda>_.
     nd_bind (expire_round X I) (\<lambda>_ s.
     if \<not> nf_is_client N \<and> nd_local_is_validator s then
       nd_bind (nd_check (map_err NodeUpgrade (ensure_supported (nf_upgrades N)
           (saturating_add (tip_height (rt_chain (nd_consensus s))) 1) SUPPORTED_PROTOCOL_VERSION))) (\<lambda>_.
       nd_bind (announce_transactions X I) (\<lambda>_.
       nd_bind (propose_block X N I) (\<lambda>_. nd_return Go))) s
     else (s, Ok Go)))"

subsection \<open>Registrations\<close>

definition verify_validator_registration ::
  "externals \<Rightarrow> 'd node_config \<Rightarrow> validator_registration \<Rightarrow> (unit, node_error) result" where
  "verify_validator_registration X N r =
     and_then (ensure (nf_peer_id_ok N (vr_peer_id r)) BadPeerId) (\<lambda>_.
     map_err NodeRegistration (verify_signature X (vr_validator_id r)
       (validator_registration_bytes (vr_validator_id r) (vr_peer_id r)) (vr_signature_hex r)))"

definition selected_validators :: "(string, validator_registration) fmap \<Rightarrow> validator list" where
  "selected_validators registrations =
     map (\<lambda>i. \<lparr>val_id = i, val_voting_power = 100\<rparr>) (take 4 (sorted_list_of_fset (fmdom registrations)))"

definition adopt_validators :: "'d node_config \<Rightarrow> node_input \<Rightarrow> validator list \<Rightarrow> ('d, unit) node_op" where
  "adopt_validators N I selected =
     nd_bind (\<lambda>s. case replace_bootstrap_validators (ni_now I) selected (nd_consensus s) of
                  Inl e \<Rightarrow> (s, Err (NodeConsensus e)) | Inr rt \<Rightarrow> (s\<lparr>nd_consensus := rt\<rparr>, Ok ())) (\<lambda>_.
     nd_bind (\<lambda>s. if ni_save_validators I then (s\<lparr>nd_validators_file := selected\<rparr>, Ok ()) else (s, Err SaveValidatorsFailed)) (\<lambda>_ s.
     (s\<lparr>nd_validators := selected, nd_local_is_validator := list_ex (\<lambda>v. val_id v = nf_local_address N) selected\<rparr>, Ok ())))"

definition on_validator_registration ::
  "externals \<Rightarrow> 'd node_config \<Rightarrow> node_input \<Rightarrow> validator_registration \<Rightarrow> ('d, flow) node_op" where
  "on_validator_registration X N I r s =
     (if \<not> is_ok (verify_validator_registration X N r) then (s, Ok Go)
      else
        let s1 = s\<lparr>nd_registrations := fmupd (vr_validator_id r) r (nd_registrations s)\<rparr>;
            selected = selected_validators (nd_registrations s1)
        in if fcard (fmdom (nd_registrations s1)) \<ge> 4 \<and> tip_height (rt_chain (nd_consensus s1)) = 0 \<and>
              sort (map val_id (nd_validators s1)) \<noteq> map val_id selected
           then nd_bind (adopt_validators N I selected) (\<lambda>_. nd_return Go) s1
           else (s1, Ok Go))"

definition on_reward_registration ::
  "externals \<Rightarrow> string \<Rightarrow> node_reward_registration \<Rightarrow> ('d, flow) node_op" where
  "on_reward_registration X source r s =
     (if source \<noteq> nr_peer_id r then (s, Ok Go)
      else if \<not> is_ok (verify_signature X (registration_signer r)
                (node_registration_bytes (nr_reward_address r) (nr_peer_id r)) (nr_signature_hex r)) then (s, Ok Go)
      else if \<not> is_ok (verify_node_identity X r) then (s, Ok Go)
      else (s\<lparr>nd_reward_registrations := fmupd (nr_peer_id r) r (nd_reward_registrations s)\<rparr>, Ok Go))"

definition on_registration_tick :: "'d node_config \<Rightarrow> node_input \<Rightarrow> ('d, flow) node_op" where
  "on_registration_tick N I s =
     nd_bind (case nf_local_registration N of
         Some r \<Rightarrow> if BOOTSTRAP_REWARD_EVENT |\<notin>| executed_events (rt_chain (nd_consensus s))
                   then send I (PublishValidatorRegistration r) else nd_return ()
       | None \<Rightarrow> nd_return ()) (\<lambda>_.
     nd_bind (send I (PublishNodeRewardRegistration (nf_reward_registration N))) (\<lambda>_. nd_return Go)) s"

subsection \<open>Updates\<close>

definition on_update_tick :: "'d node_config \<Rightarrow> node_input \<Rightarrow> ('d, flow) node_op" where
  "on_update_tick N I =
     (if \<not> nf_auto_update N then nd_return Go
      else case ni_update I of
        Inr Installed \<Rightarrow> nd_return Stop
      | _ \<Rightarrow> nd_bind (send I (PublishUpdateAvailable (nf_version N))) (\<lambda>_. nd_return Go))"

definition on_update_available :: "'d node_config \<Rightarrow> node_input \<Rightarrow> string \<Rightarrow> ('d, flow) node_op" where
  "on_update_available N I version =
     (if \<not> nf_auto_update N \<or> is_newer (nf_version N) version \<noteq> Ok True then nd_return Go
      else case ni_update I of Inr Installed \<Rightarrow> nd_return Stop | _ \<Rightarrow> nd_return Go)"

subsection \<open>Peers\<close>

definition on_peer_connected :: "'d node_config \<Rightarrow> node_input \<Rightarrow> nat \<Rightarrow> ('d, flow) node_op" where
  "on_peer_connected N I unique_peers =
     nd_bind (set_rpc (set_peer_count unique_peers)) (\<lambda>_ s.
     nd_bind (send_all I
         (RequestSync (tip_height (rt_chain (nd_consensus s)) + 1) #
          (case nf_local_registration N of Some r \<Rightarrow> [PublishValidatorRegistration r] | None \<Rightarrow> []) @
          PublishNodeRewardRegistration (nf_reward_registration N) #
          (if nf_auto_update N then [PublishUpdateAvailable (nf_version N)] else []))) (\<lambda>_. nd_return Go) s)"

definition on_transaction :: "externals \<Rightarrow> transaction \<Rightarrow> ('d, flow) node_op" where
  "on_transaction X tx = nd_bind (set_rpc (restore_transactions X [tx])) (\<lambda>_. nd_return Go)"

definition on_communication :: "externals \<Rightarrow> node_input \<Rightarrow> communication_envelope \<Rightarrow> ('d, flow) node_op" where
  "on_communication X I envelope =
     nd_bind (on_rpc (receive_communication X envelope (unix_timestamp I))) (\<lambda>_. nd_return Go)"

subsection \<open>Consensus messages\<close>

definition on_proposal :: "externals \<Rightarrow> 'd node_config \<Rightarrow> node_input \<Rightarrow> signed_proposal \<Rightarrow> ('d, flow) node_op" where
  "on_proposal X N I p s =
     (case receive_proposal X (ni_now I) (ni_clock I) p (nd_consensus s) of
        (rt, Inl _) \<Rightarrow> (s\<lparr>nd_consensus := rt\<rparr>, Ok Go)
      | (rt, Inr prevote) \<Rightarrow>
        nd_bind (cast_vote X I prevote) (\<lambda>_.
        nd_bind (publish_replayed_votes X I) (\<lambda>_.
        nd_bind (finalize_if_ready X N I) (\<lambda>_. nd_return Go))) (s\<lparr>nd_consensus := rt\<rparr>))"

definition count_peer_vote :: "externals \<Rightarrow> node_input \<Rightarrow> consensus_message \<Rightarrow> ('d, unit) node_op" where
  "count_peer_vote X I m s =
     (case receive_vote X (ni_now I) m (nd_consensus s) of
        (rt, Inr (Some precommit)) \<Rightarrow>
          nd_bind (send I (PublishConsensus precommit)) (\<lambda>_.
          nd_bind (on_consensus (receive_vote X (ni_now I) precommit)) (\<lambda>_. nd_return ())) (s\<lparr>nd_consensus := rt\<rparr>)
      | (rt, Inr None) \<Rightarrow> (s\<lparr>nd_consensus := rt\<rparr>, Ok ())
      | (rt, Inl e) \<Rightarrow>
          (s\<lparr>nd_consensus := if is_deferable_vote_error e then defer_vote m rt else rt\<rparr>, Ok ()))"

definition on_vote :: "externals \<Rightarrow> 'd node_config \<Rightarrow> node_input \<Rightarrow> consensus_message \<Rightarrow> ('d, flow) node_op" where
  "on_vote X N I m =
     nd_bind (count_peer_vote X I m) (\<lambda>_.
     nd_bind (publish_replayed_votes X I) (\<lambda>_.
     nd_bind (persist_and_publish_evidence X N I) (\<lambda>_.
     nd_bind (finalize_if_ready X N I) (\<lambda>_. nd_return Go))))"

definition on_evidence :: "externals \<Rightarrow> 'd node_config \<Rightarrow> node_input \<Rightarrow> double_vote_evidence \<Rightarrow> ('d, flow) node_op" where
  "on_evidence X N I e s =
     (if \<not> list_ex (\<lambda>v. val_id v = msg_validator_id (de_first e)) (nd_validators s) then (s, Ok Go)
      else nd_bind (append_evidence X N I e) (\<lambda>_. nd_return Go) s)"

subsection \<open>Synchronisation\<close>

definition local_tip :: "externals \<Rightarrow> blockchain \<Rightarrow> sync_tip" where
  "local_tip X c = \<lparr>tip_sync_height = tip_height c, tip_block_hash = tip_hash c, tip_state_root = state_hash X c\<rparr>"

definition on_sync_request :: "externals \<Rightarrow> 'd node_config \<Rightarrow> node_input \<Rightarrow> string \<Rightarrow> u64 \<Rightarrow> ('d, flow) node_op" where
  "on_sync_request X N I requester from_height s =
     nd_bind (send I (RespondSync requester (local_tip X (rt_chain (nd_consensus s)))
         (certificates_from (nf_certificate_json N) from_height (nd_consensus s)))) (\<lambda>_. nd_return Go) s"

fun sync_loop ::
  "externals \<Rightarrow> 'd node_config \<Rightarrow> node_input \<Rightarrow> finality_certificate list \<Rightarrow> nat \<Rightarrow> ('d, nat) node_op" where
  "sync_loop X N I [] applied = nd_return applied"
| "sync_loop X N I (c # cs) applied =
     (\<lambda>s. let chain_before = rt_chain (nd_consensus s) in
      nd_bind (on_consensus (apply_sync_certificates X (ni_now I) (ni_clock I) [c])) (\<lambda>n.
      if n = 1 then
        nd_bind (\<lambda>s1. on_rpc (install_finalized X (nf_storage N) chain_before (rt_chain (nd_consensus s1)) (fc_block c)) s1) (\<lambda>_.
        nd_bind (append_certificate N I c) (\<lambda>_. sync_loop X N I cs (applied + 1)))
      else sync_loop X N I cs applied) s)"

definition after_sync :: "externals \<Rightarrow> node_input \<Rightarrow> sync_tip \<Rightarrow> nat \<Rightarrow> ('d, unit) node_op" where
  "after_sync X I agreed_tip applied s =
     (let c = rt_chain (nd_consensus s) in
      if applied > 0 then
        (if tip_height c = tip_sync_height agreed_tip \<and>
            (tip_hash c \<noteq> tip_block_hash agreed_tip \<or> state_hash X c \<noteq> tip_state_root agreed_tip)
         then (s, Err SyncedStateDiffers)
         else send I (RequestSync (tip_height c + 1)) s)
      else if tip_height c < tip_sync_height agreed_tip then send I (RequestSync (tip_height c + 1)) s
      else (s, Ok ()))"

definition on_sync_response ::
  "externals \<Rightarrow> 'd node_config \<Rightarrow> node_input \<Rightarrow> string \<Rightarrow> sync_tip \<Rightarrow> finality_certificate list \<Rightarrow> ('d, flow) node_op" where
  "on_sync_response X N I source tip certificates s =
     (case tip_observe source tip (nd_sync_quorum s) of
        (quorum, None) \<Rightarrow> (s\<lparr>nd_sync_quorum := quorum\<rparr>, Ok Go)
      | (quorum, Some agreed_tip) \<Rightarrow>
        nd_bind (set_rpc (begin_sync (tip_sync_height agreed_tip))) (\<lambda>_.
        nd_bind (sync_loop X N I certificates 0) (\<lambda>applied.
        nd_bind (after_sync X I agreed_tip applied) (\<lambda>_. nd_return Go))) (s\<lparr>nd_sync_quorum := quorum\<rparr>))"

subsection \<open>The loop\<close>

fun on_network_event :: "externals \<Rightarrow> 'd node_config \<Rightarrow> node_input \<Rightarrow> network_event \<Rightarrow> ('d, flow) node_op" where
  "on_network_event X N I (PeerConnected peer unique_peers) = on_peer_connected N I unique_peers"
| "on_network_event X N I (ValidatorRegistrationReceived source r) =
     (if \<not> nf_is_client N then on_validator_registration X N I r else nd_return Go)"
| "on_network_event X N I (NodeRewardRegistrationReceived source r) = on_reward_registration X source r"
| "on_network_event X N I (UpdateAvailableReceived source version) = on_update_available N I version"
| "on_network_event X N I (TransactionReceived source tx) = on_transaction X tx"
| "on_network_event X N I (CommunicationReceived source envelope) = on_communication X I envelope"
| "on_network_event X N I (ProposalReceived source p) =
     (\<lambda>s. if \<not> nf_is_client N \<and> nd_local_is_validator s then on_proposal X N I p s else (s, Ok Go))"
| "on_network_event X N I (ConsensusReceived source m) =
     (\<lambda>s. if \<not> nf_is_client N \<and> nd_local_is_validator s then on_vote X N I m s else (s, Ok Go))"
| "on_network_event X N I (EvidenceReceived source e) = on_evidence X N I e"
| "on_network_event X N I (SyncRequested source requester from_height) =
     (if \<not> nf_is_client N then on_sync_request X N I requester from_height else nd_return Go)"
| "on_network_event X N I (SyncReceived source tip certificates) = on_sync_response X N I source tip certificates"
| "on_network_event X N I (PeerDisconnected peer unique_peers) =
     nd_bind (set_rpc (set_peer_count unique_peers)) (\<lambda>_. nd_return Go)"
| "on_network_event X N I _ = nd_return Go"

datatype loop_event = UpdateTick | RegistrationTick | ConsensusTick | RpcEnded | NetworkEvent "network_event option" | CtrlC

fun node_step :: "externals \<Rightarrow> 'd node_config \<Rightarrow> node_input \<Rightarrow> loop_event \<Rightarrow> ('d, flow) node_op" where
  "node_step X N I UpdateTick = on_update_tick N I"
| "node_step X N I RegistrationTick = on_registration_tick N I"
| "node_step X N I ConsensusTick = on_consensus_tick X N I"
| "node_step X N I RpcEnded = nd_fail RpcTaskEnded"
| "node_step X N I (NetworkEvent (Some e)) = on_network_event X N I e"
| "node_step X N I (NetworkEvent None) = nd_fail NetworkTaskGone"
| "node_step X N I CtrlC = nd_return Stop"

subsection \<open>Start\<close>

text \<open>
  The part of \<open>main\<close> between the start of the RPC server and the loop: the ledger comes from the server, the
  validators and files from disk.
\<close>

definition node_start ::
  "externals \<Rightarrow> 'd node_config \<Rightarrow> node_input \<Rightarrow> bool \<Rightarrow> bool \<Rightarrow> nat \<Rightarrow> consensus_timeouts \<Rightarrow> validator_signer \<Rightarrow> 'd rpc_state \<Rightarrow>
   validator list \<Rightarrow> string option \<Rightarrow> string option \<Rightarrow> ('d node_state, node_error) result" where
  "node_start X N I evidence_readable finality_readable sync_quorum_peers timeouts signer rpc validators finality_file evidence_file =
     and_then (map_err NodeUpgrade (ensure_supported (nf_upgrades N) (saturating_add (tip_height (rs_chain rpc)) 1)
         SUPPORTED_PROTOCOL_VERSION)) (\<lambda>_.
     and_then (map_err NodeConsensus (with_signer (ni_now I) (rs_chain rpc) validators signer timeouts)) (\<lambda>rt0.
     and_then (map_err NodeConsensus (set_event_schedule X (nf_schedule N) rt0)) (\<lambda>rt1.
     and_then (map_err NodeStore (evidence_load X (nf_evidence_parse N) evidence_readable evidence_file)) (\<lambda>_.
     and_then (map_err NodeStore (finality_load X (nf_certificate_parse N) finality_readable validators finality_file)) (\<lambda>certificates.
     case import_certificate_history X certificates rt1 of
       (rt2, r) \<Rightarrow>
       and_then (map_err NodeConsensus r) (\<lambda>_.
       and_then (map_err NodeQuorum (tip_quorum_new sync_quorum_peers)) (\<lambda>quorum.
       Ok \<lparr>nd_consensus = rt2, nd_rpc = rpc, nd_validators = validators,
           nd_local_is_validator = (\<not> nf_is_client N \<and> list_ex (\<lambda>v. val_id v = nf_local_address N) validators),
           nd_registrations = (case nf_local_registration N of Some r \<Rightarrow> fmupd (vr_validator_id r) r fmempty | None \<Rightarrow> fmempty),
           nd_reward_registrations = fmupd (nr_peer_id (nf_reward_registration N)) (nf_reward_registration N) fmempty,
           nd_finality_file = finality_file, nd_evidence_file = evidence_file, nd_validators_file = validators,
           nd_sync_quorum = quorum, nd_announced = fmempty, nd_was_active = False, nd_commands = []\<rparr>)))))))"

end
