(* ===== verification/Node_Lemmas.thy ===== *)
theory Node_Lemmas
  imports Node Replay_Lemmas Rpc_Properties
begin

text \<open>
  A small program logic for the operations of the event loop, and its first use: every vote the loop publishes
  was signed in a run of the consensus driver. The interface between loop and driver is the locale
  \<open>consensus_op\<close>, interpreted for each operation of the driver the loop calls.
\<close>

subsection \<open>Triples\<close>

text \<open>From a state with \<open>P\<close>, the operation ends in a state with \<open>Q\<close> and its result, or fails in a state with \<open>E\<close>.\<close>

definition triple ::
  "('d node_state \<Rightarrow> bool) \<Rightarrow> ('d, 'a) node_op \<Rightarrow> ('a \<Rightarrow> 'd node_state \<Rightarrow> bool) \<Rightarrow> ('d node_state \<Rightarrow> bool) \<Rightarrow> bool" where
  "triple P m Q E \<longleftrightarrow> (\<forall>s. P s \<longrightarrow> (case m s of (s', Inl _) \<Rightarrow> E s' | (s', Inr x) \<Rightarrow> Q x s'))"

lemma tripleI:
  assumes "\<And>s s' e. P s \<Longrightarrow> m s = (s', Inl e) \<Longrightarrow> E s'" and "\<And>s s' x. P s \<Longrightarrow> m s = (s', Inr x) \<Longrightarrow> Q x s'"
  shows "triple P m Q E"
  using assms by (auto simp: triple_def split: prod.split sum.split)

lemma tripleD:
  assumes "triple P m Q E" and "P s" and "m s = (s', r)"
  shows "case r of Inl _ \<Rightarrow> E s' | Inr x \<Rightarrow> Q x s'"
  using assms by (auto simp: triple_def)

lemma triple_bind:
  assumes "triple P m R E" and "\<And>x. triple (R x) (f x) Q E"
  shows "triple P (nd_bind m f) Q E"
  using assms by (fastforce simp: triple_def nd_bind_def split: prod.splits sum.splits)

lemma triple_return: "(\<And>s. P s \<Longrightarrow> Q x s) \<Longrightarrow> triple P (nd_return x) Q E"
  by (simp add: triple_def nd_return_def)

lemma triple_weaken:
  assumes "triple P m Q E" and "\<And>s. P' s \<Longrightarrow> P s" and "\<And>x s. Q x s \<Longrightarrow> Q' x s" and "\<And>s. E s \<Longrightarrow> E' s"
  shows "triple P' m Q' E'"
  using assms by (fastforce simp: triple_def split: prod.splits sum.splits)

text \<open>An operation whose definition starts with a case distinction on the state.\<close>

lemma triple_pointwise: "(\<And>s. P s \<Longrightarrow> triple (\<lambda>t. t = s) m Q E) \<Longrightarrow> triple P m Q E"
  by (simp add: triple_def)

lemma triple_at: "triple P m Q E \<Longrightarrow> P s \<Longrightarrow> triple (\<lambda>t. t = s) m Q E"
  by (simp add: triple_def)

lemma triple_cong_at: "m s = m' s \<Longrightarrow> triple (\<lambda>t. t = s) m' Q E \<Longrightarrow> triple (\<lambda>t. t = s) m Q E"
  by (simp add: triple_def)

lemma triple_moved: "triple (\<lambda>t. t = s') m' Q E \<Longrightarrow> m s = m' s' \<Longrightarrow> triple (\<lambda>t. t = s) m Q E"
  by (simp add: triple_def)

lemma triple_if: "triple P m Q E \<Longrightarrow> triple P m' Q E \<Longrightarrow> triple P (\<lambda>s. if b s then m s else m' s) Q E"
  by (simp add: triple_def)

lemma triple_skip: "(\<And>s. P s \<Longrightarrow> Q x s) \<Longrightarrow> triple P (\<lambda>s. (s, Ok x)) Q E"
  by (simp add: triple_def)

lemma triple_state: "(\<And>t. triple P (m t) Q E) \<Longrightarrow> triple P (\<lambda>s. m s s) Q E"
  by (simp add: triple_def)

lemma triple_send_all:
  "(\<And>c. c \<in> set cs \<Longrightarrow> triple P (send I c) (\<lambda>_. P) E) \<Longrightarrow> triple P (send_all I cs) (\<lambda>_. P) E"
proof (induction cs)
  case (Cons c cs)
  then show ?case by (auto intro!: triple_bind)
qed (simp add: triple_return)

subsection \<open>Published votes\<close>

definition published :: "'d node_state \<Rightarrow> consensus_message set" where
  "published s = {m. PublishConsensus m \<in> set (nd_commands s)}"

text \<open>
  \<open>voted V s\<close>: the driver is in a state of a run with validators \<open>vs\<close> from \<open>c0\<close>, and the votes published so far and
  those in \<open>V\<close> are among the votes signed in that run. \<open>sent_ok\<close> says the published votes were signed in some run.
\<close>

definition voted :: "externals \<Rightarrow> blockchain \<Rightarrow> validator list \<Rightarrow> consensus_message set \<Rightarrow> 'd node_state \<Rightarrow> bool" where
  "voted X c0 vs V s \<longleftrightarrow> (\<exists>sg. node_run X c0 vs (nd_consensus s) sg \<and> published s \<union> V \<subseteq> set sg)"

definition sent_ok :: "externals \<Rightarrow> blockchain \<Rightarrow> validator list \<Rightarrow> 'd node_state \<Rightarrow> bool" where
  "sent_ok X c0 vs s \<longleftrightarrow> (\<exists>rt sg. node_run X c0 vs rt sg \<and> published s \<subseteq> set sg)"

lemma voted_sent: "voted X c0 vs V s \<Longrightarrow> sent_ok X c0 vs s"
  unfolding voted_def sent_ok_def by blast

lemma voted_mono: "voted X c0 vs V s \<Longrightarrow> W \<subseteq> V \<Longrightarrow> voted X c0 vs W s"
  unfolding voted_def by blast

lemma voted_frame:
  "nd_consensus s' = nd_consensus s \<Longrightarrow> nd_commands s' = nd_commands s \<Longrightarrow> voted X c0 vs V s' = voted X c0 vs V s"
  by (simp add: voted_def published_def)

lemma sent_frame: "nd_commands s' = nd_commands s \<Longrightarrow> sent_ok X c0 vs s' = sent_ok X c0 vs s"
  by (simp add: sent_ok_def published_def)

lemma voted_fields [simp]:
  "voted X c0 vs V (s\<lparr>nd_rpc := v0\<rparr>) = voted X c0 vs V s"
  "voted X c0 vs V (s\<lparr>nd_was_active := v1\<rparr>) = voted X c0 vs V s"
  "voted X c0 vs V (s\<lparr>nd_announced := v2\<rparr>) = voted X c0 vs V s"
  "voted X c0 vs V (s\<lparr>nd_finality_file := v3\<rparr>) = voted X c0 vs V s"
  "voted X c0 vs V (s\<lparr>nd_evidence_file := v4\<rparr>) = voted X c0 vs V s"
  "voted X c0 vs V (s\<lparr>nd_registrations := v5\<rparr>) = voted X c0 vs V s"
  "voted X c0 vs V (s\<lparr>nd_reward_registrations := v6\<rparr>) = voted X c0 vs V s"
  "voted X c0 vs V (s\<lparr>nd_sync_quorum := v7\<rparr>) = voted X c0 vs V s"
  "voted X c0 vs V (s\<lparr>nd_validators_file := v8\<rparr>) = voted X c0 vs V s"
  by (simp_all add: voted_def published_def)

text \<open>An operation that touches neither the driver nor the commands.\<close>

lemma triple_untouched:
  assumes "\<And>s. nd_consensus (fst (m s)) = nd_consensus s" and "\<And>s. nd_commands (fst (m s)) = nd_commands s"
  shows "triple (voted X c0 vs V) m (\<lambda>_. voted X c0 vs V) (sent_ok X c0 vs)"
proof -
  have "voted X c0 vs V s'" if "voted X c0 vs V s" and "m s = (s', r)" for s s' r
    using that assms [of s] voted_frame [of s' s] by simp
  then show ?thesis by (intro tripleI) (blast intro: voted_sent)+
qed

lemma published_send: "published (s\<lparr>nd_commands := nd_commands s @ [c]\<rparr>) = published s \<union> {m. c = PublishConsensus m}"
  by (auto simp: published_def)

lemma triple_send:
  assumes "\<And>m. c = PublishConsensus m \<Longrightarrow> m \<in> V"
  shows "triple (voted X c0 vs V) (send I c) (\<lambda>_. voted X c0 vs V) (sent_ok X c0 vs)"
proof (rule tripleI)
  fix s s' :: "'d node_state" and x
  assume "voted X c0 vs V s" and "send I c s = (s', Inr x)"
  then have "nd_consensus s' = nd_consensus s" "published s' = published s \<union> {m. c = PublishConsensus m}"
    by (auto simp: send_def published_send split: if_splits)
  moreover have "{m. c = PublishConsensus m} \<subseteq> V" using assms by blast
  ultimately show "voted X c0 vs V s'" using \<open>voted X c0 vs V s\<close> unfolding voted_def by (metis Un_subset_iff order_trans)
next
  fix s s' :: "'d node_state" and e
  assume "voted X c0 vs V s" and "send I c s = (s', Inl e)"
  then show "sent_ok X c0 vs s'" using voted_sent by (auto simp: send_def split: if_splits)
qed

lemmas triple_send_vote = triple_send [of "PublishConsensus m" for m, simplified]
lemmas triple_send_other = triple_send

text \<open>
  What the loop relies on when it calls the driver: a call continues a run, and the votes it returns are
  signed in that run.
\<close>

locale consensus_op =
  fixes X :: externals and c0 :: blockchain and vs :: "validator list"
    and f :: "consensus_runtime \<Rightarrow> consensus_runtime \<times> ('a, runtime_error) result"
    and votes :: "'a \<Rightarrow> consensus_message set"
  assumes runs: "node_run X c0 vs rt sg \<Longrightarrow> f rt = (rt', r) \<Longrightarrow>
    \<exists>sg'. node_run X c0 vs rt' (sg @ sg') \<and> (\<forall>x. r = Ok x \<longrightarrow> votes x \<subseteq> set (sg @ sg'))"
begin

lemma call: "triple (voted X c0 vs V) (on_consensus f) (\<lambda>x. voted X c0 vs (V \<union> votes x)) (sent_ok X c0 vs)"
proof -
  have "\<exists>sg'. node_run X c0 vs (nd_consensus s') sg' \<and> published s' \<union> V \<subseteq> set sg' \<and> (\<forall>x. r = Ok x \<longrightarrow> votes x \<subseteq> set sg')"
    if "voted X c0 vs V s" and "on_consensus f s = (s', r)" for s s' :: "'d node_state" and r
  proof -
    note pre = that
    obtain sg where sg: "node_run X c0 vs (nd_consensus s) sg" "published s \<union> V \<subseteq> set sg"
      using pre(1) unfolding voted_def by blast
    obtain rt r' where f: "f (nd_consensus s) = (rt, r')" "s' = s\<lparr>nd_consensus := rt\<rparr>" "r = map_err NodeConsensus r'"
      using pre(2) by (auto simp: on_consensus_def split: prod.splits)
    obtain sg' where "node_run X c0 vs rt (sg @ sg')" "\<forall>x. r' = Ok x \<longrightarrow> votes x \<subseteq> set (sg @ sg')"
      using runs [OF sg(1) f(1)] by blast
    then show ?thesis using sg(2) f(2,3) by (intro exI [of _ "sg @ sg'"]) (auto simp: published_def result_simps)
  qed
  then show ?thesis by (intro tripleI) (fastforce simp: voted_def sent_ok_def)+
qed

end

interpretation receive_vote: consensus_op X c0 vs "receive_vote X now m" set_option for X c0 vs now m
proof unfold_locales
  fix rt sg rt' and r :: "(consensus_message option, runtime_error) result"
  assume "node_run X c0 vs rt sg" and "receive_vote X now m rt = (rt', r)"
  then have "node_run X c0 vs rt' (sg @ signed_precommit r)" by (rule node_run.vote)
  moreover have "set_option x \<subseteq> set (signed_precommit r)" if "r = Ok x" for x using that by (cases x) auto
  ultimately show "\<exists>sg'. node_run X c0 vs rt' (sg @ sg') \<and> (\<forall>x. r = Ok x \<longrightarrow> set_option x \<subseteq> set (sg @ sg'))"
    by (intro exI [of _ "signed_precommit r"]) fastforce
qed

interpretation receive_proposal: consensus_op X c0 vs "receive_proposal X now clock p" "\<lambda>m. {m}" for X c0 vs now clock p
proof unfold_locales
  fix rt sg rt' and r :: "(consensus_message, runtime_error) result"
  assume "node_run X c0 vs rt sg" and "receive_proposal X now clock p rt = (rt', r)"
  then have "node_run X c0 vs rt' (sg @ signed_vote r)" by (rule node_run.proposal)
  then show "\<exists>sg'. node_run X c0 vs rt' (sg @ sg') \<and> (\<forall>x. r = Ok x \<longrightarrow> {x} \<subseteq> set (sg @ sg'))"
    by (intro exI [of _ "signed_vote r"]) auto
qed

interpretation replay: consensus_op X c0 vs "replay_deferred_votes X now" set for X c0 vs now
proof unfold_locales
  fix rt sg rt' and r :: "(consensus_message list, runtime_error) result"
  assume "node_run X c0 vs rt sg" and "replay_deferred_votes X now rt = (rt', r)"
  then show "\<exists>sg'. node_run X c0 vs rt' (sg @ sg') \<and> (\<forall>x. r = Ok x \<longrightarrow> set x \<subseteq> set (sg @ sg'))"
    using replay_loop_run [of X c0 vs rt sg now "[]" rt' r] unfolding replay_deferred_votes_def by fastforce
qed

interpretation evidence: consensus_op X c0 vs "\<lambda>rt. case take_evidence rt of (es, rt1) \<Rightarrow> (rt1, Ok es)" "\<lambda>_. {}" for X c0 vs
  by unfold_locales (auto intro!: exI [of _ "[]"] intro: node_run.evidence split: prod.splits)

interpretation finalized: consensus_op X c0 vs "\<lambda>rt. case take_finalized rt of (cs, rt1) \<Rightarrow> (rt1, Ok cs)" "\<lambda>_. {}" for X c0 vs
  by unfold_locales (auto intro!: exI [of _ "[]"] intro: node_run.finalized split: prod.splits)

interpretation advance: consensus_op X c0 vs "advance_after_finalization now" "\<lambda>_. {}" for X c0 vs now
  by unfold_locales (auto intro!: exI [of _ "[]"] intro: node_run.advance)

interpretation sync: consensus_op X c0 vs "apply_sync_certificates X now clock cs" "\<lambda>_. {}" for X c0 vs now clock cs
  by unfold_locales (auto intro!: exI [of _ "[]"] intro: node_run.sync)

subsection \<open>Handlers and votes\<close>

lemma voted_cast_vote:
  assumes "m \<in> V"
  shows "triple (voted X c0 vs V) (cast_vote X I m) (\<lambda>_. voted X c0 vs {}) (sent_ok X c0 vs)"
  unfolding cast_vote_def
proof (rule triple_bind [OF triple_send_vote [OF assms]], rule triple_bind [OF receive_vote.call])
  fix r :: "consensus_message option"
  show "triple (voted X c0 vs (V \<union> set_option r)) (case r of None \<Rightarrow> nd_return ()
     | Some precommit \<Rightarrow> nd_bind (send I (PublishConsensus precommit)) (\<lambda>_.
       nd_bind (on_consensus (receive_vote X (ni_now I) precommit)) (\<lambda>_. nd_return ())))
     (\<lambda>_. voted X c0 vs {}) (sent_ok X c0 vs)"
    by (cases r) (auto intro!: triple_return triple_bind [OF triple_send_vote] triple_bind [OF receive_vote.call] elim: voted_mono)
qed

lemma voted_replay: "triple (voted X c0 vs {}) (publish_replayed_votes X I) (\<lambda>_. voted X c0 vs {}) (sent_ok X c0 vs)"
  unfolding publish_replayed_votes_def
proof (rule triple_bind [OF replay.call])
  fix ms :: "consensus_message list"
  have "triple (voted X c0 vs ({} \<union> set ms)) (send_all I (map PublishConsensus ms)) (\<lambda>_. voted X c0 vs ({} \<union> set ms)) (sent_ok X c0 vs)"
    by (rule triple_send_all) (auto intro: triple_send_vote)
  then show "triple (voted X c0 vs ({} \<union> set ms)) (send_all I (map PublishConsensus ms)) (\<lambda>_. voted X c0 vs {}) (sent_ok X c0 vs)"
    by (rule triple_weaken) (auto elim: voted_mono)
qed

lemma voted_append_evidence: "triple (voted X c0 vs V) (append_evidence X N I e) (\<lambda>_. voted X c0 vs V) (sent_ok X c0 vs)"
  by (rule triple_untouched) (simp_all add: append_evidence_def split: prod.split)

lemma voted_append_certificate: "triple (voted X c0 vs V) (append_certificate N I c) (\<lambda>_. voted X c0 vs V) (sent_ok X c0 vs)"
  by (rule triple_untouched) (simp_all add: append_certificate_def split: prod.split)

lemma voted_on_rpc: "triple (voted X c0 vs V) (\<lambda>s. on_rpc (f s) s) (\<lambda>_. voted X c0 vs V) (sent_ok X c0 vs)"
  by (rule triple_untouched) (simp_all add: on_rpc_def split: prod.split)

lemma voted_set_rpc: "triple (voted X c0 vs V) (set_rpc f) (\<lambda>_. voted X c0 vs V) (sent_ok X c0 vs)"
  by (rule triple_untouched) (simp_all add: set_rpc_def)

lemma voted_evidence_loop: "triple (voted X c0 vs V) (evidence_loop X N I es) (\<lambda>_. voted X c0 vs V) (sent_ok X c0 vs)"
proof (induction es)
  case (Cons e es)
  show ?case
    by (auto intro!: triple_bind [OF voted_append_evidence] triple_bind [OF triple_send_other] triple_bind [OF triple_return] Cons.IH)
qed (simp add: triple_return)

lemma voted_persist: "triple (voted X c0 vs {}) (persist_and_publish_evidence X N I) (\<lambda>_. voted X c0 vs {}) (sent_ok X c0 vs)"
  unfolding persist_and_publish_evidence_def
  by (rule triple_bind [OF evidence.call]) (simp add: voted_evidence_loop)

lemma voted_install: "triple (voted X c0 vs V) (install_certificates X N I cs) (\<lambda>_. voted X c0 vs V) (sent_ok X c0 vs)"
proof (induction cs)
  case (Cons c cs)
  show ?case
    by (auto intro!: triple_bind [OF voted_on_rpc] triple_bind [OF voted_append_certificate] triple_bind [OF triple_send_other] Cons.IH)
qed (simp add: triple_return)

lemma voted_finalize: "triple (voted X c0 vs {}) (finalize_if_ready X N I) (\<lambda>_. voted X c0 vs {}) (sent_ok X c0 vs)"
  unfolding finalize_if_ready_def
proof (rule triple_bind [OF finalized.call])
  fix cs :: "finality_certificate list"
  have "triple (voted X c0 vs ({} \<union> {})) (on_consensus (advance_after_finalization (ni_now I))) (\<lambda>_. voted X c0 vs {}) (sent_ok X c0 vs)"
    by (rule triple_weaken [OF advance.call]) auto
  then show "triple (voted X c0 vs ({} \<union> {})) (if cs = [] then nd_return () else nd_bind (install_certificates X N I cs) (\<lambda>_.
       on_consensus (advance_after_finalization (ni_now I)))) (\<lambda>_. voted X c0 vs {}) (sent_ok X c0 vs)"
    by (auto intro!: triple_return triple_bind [OF voted_install])
qed

text \<open>The steps that change the driver without signing a vote, as updates of a state that has \<open>voted\<close>.\<close>

lemma voted_update:
  assumes "voted X c0 vs V s" and "\<And>sg. node_run X c0 vs (nd_consensus s) sg \<Longrightarrow> node_run X c0 vs rt sg"
  shows "voted X c0 vs V (s\<lparr>nd_consensus := rt\<rparr>)"
  using assms unfolding voted_def published_def by auto

lemma voted_flush: "triple (voted X c0 vs {}) (flush_communication I) (\<lambda>_. voted X c0 vs {}) (sent_ok X c0 vs)"
proof (rule triple_pointwise)
  fix s assume s: "voted X c0 vs {} s"
  obtain q messages where d: "drain_outbound_communication (nd_rpc s) = (q, messages)" by force
  have v: "voted X c0 vs {} (s\<lparr>nd_rpc := q\<rparr>)" using s by simp
  have "triple (voted X c0 vs {}) (send_all I (map SendCommunication messages)) (\<lambda>_. voted X c0 vs {}) (sent_ok X c0 vs)"
    by (rule triple_send_all) (auto intro: triple_send_other)
  from triple_at [OF this v] show "triple (\<lambda>t. t = s) (flush_communication I) (\<lambda>_. voted X c0 vs {}) (sent_ok X c0 vs)"
    by (rule triple_moved) (simp add: flush_communication_def d)
qed

lemma voted_expire: "triple (voted X c0 vs {}) (expire_round X I) (\<lambda>_. voted X c0 vs {}) (sent_ok X c0 vs)"
proof -
  have "voted X c0 vs {} s'" if "voted X c0 vs {} s" and "expire_round X I s = (s', r)" for s s' r
  proof -
    define s1 where "s1 = (if consensus_is_active s \<and> \<not> nd_was_active s
      then s\<lparr>nd_consensus := restart_phase_timeout (ni_now I) (nd_consensus s)\<rparr> else s)"
    have s1: "voted X c0 vs {} s1"
      using voted_update [OF that(1) node_run.restart] that(1) by (simp add: s1_def)
    have s2: "voted X c0 vs {} (s1\<lparr>nd_consensus := rt\<rparr>)" if "timeout_if_due (ni_now I) (nd_consensus s1) = Inr (rt, b)" for rt b
      using s1 by (rule voted_update) (rule node_run.timeout [OF _ that])
    have "expire_round X I s = (if \<not> consensus_is_active s then (s1\<lparr>nd_was_active := consensus_is_active s\<rparr>, Ok ())
      else case timeout_if_due (ni_now I) (nd_consensus s1) of
           Inl e \<Rightarrow> (s1, Err (NodeConsensus e))
         | Inr (rt, expired) \<Rightarrow>
           let s2 = s1\<lparr>nd_consensus := rt\<rparr>;
               s3 = (if expired then s2\<lparr>nd_rpc := restore_transactions X (pending_transactions (nd_consensus s)) (nd_rpc s2)\<rparr> else s2)
           in (s3\<lparr>nd_was_active := consensus_is_active s\<rparr>, Ok ()))"
      unfolding expire_round_def Let_def s1_def by (rule HOL.refl)
    then show ?thesis using that(2) s1 s2 by (auto simp: Let_def split: if_splits sum.splits prod.splits)
  qed
  then show ?thesis by (intro tripleI) (blast intro: voted_sent)+
qed

lemma voted_announce: "triple (voted X c0 vs {}) (announce_transactions Y I) (\<lambda>_. voted X c0 vs {}) (sent_ok X c0 vs)"
proof -
  have mark: "triple (voted X c0 vs {}) (\<lambda>t. (t\<lparr>nd_announced := f t\<rparr>, Ok ())) (\<lambda>_. voted X c0 vs {}) (sent_ok X c0 vs)" for f
    by (rule triple_untouched) simp_all
  have one: "triple (voted X c0 vs {}) (\<lambda>s. if b s then nd_bind (send I (PublishTransaction tx))
        (\<lambda>_ t. (t\<lparr>nd_announced := f t\<rparr>, Ok ())) s else (s, Ok ())) (\<lambda>_. voted X c0 vs {}) (sent_ok X c0 vs)" for b tx f
    by (rule triple_if [OF triple_bind [OF triple_send_other mark] triple_skip]) simp_all
  have "triple (voted X c0 vs {}) (announce_loop Y I txs) (\<lambda>_. voted X c0 vs {}) (sent_ok X c0 vs)" for txs
    by (induction txs) (auto intro!: triple_return triple_bind [OF one])
  then show ?thesis unfolding announce_transactions_def
    by (intro triple_if triple_skip triple_state [where m = "\<lambda>s. announce_loop Y I (pending_transactions_snapshot (nd_rpc s) 1000)"])
qed

lemma voted_publish_proposal:
  fixes N :: "'d node_config"
  shows "triple (voted X c0 vs {}) (publish_proposal X N I pending b) (\<lambda>_. voted X c0 vs {}) (sent_ok X c0 vs)"
proof (rule triple_pointwise)
  fix s :: "'d node_state" assume s: "voted X c0 vs {} s"
  show "triple (\<lambda>t. t = s) (publish_proposal X N I pending b) (\<lambda>_. voted X c0 vs {}) (sent_ok X c0 vs)"
  proof (cases "make_proposal X b (nd_consensus s)")
    case (Inl e)
    have "triple (voted X c0 vs {}) (nd_bind (send_all I (map PublishTransaction pending)) (\<lambda>_. set_rpc (restore_transactions X pending)))
        (\<lambda>_. voted X c0 vs {}) (sent_ok X c0 vs)"
      by (rule triple_bind [OF triple_send_all voted_set_rpc]) (auto intro: triple_send_other)
    from triple_at [OF this s] show ?thesis by (rule triple_cong_at [rotated]) (simp add: publish_proposal_def Inl)
  next
    case (Inr proposal)
    obtain rt r where r: "receive_proposal X (ni_now I) (ni_clock I) proposal (nd_consensus s) = (rt, r)" by force
    have call: "on_consensus (receive_proposal X (ni_now I) (ni_clock I) proposal) s = (s\<lparr>nd_consensus := rt\<rparr>, map_err NodeConsensus r)"
      by (simp add: on_consensus_def r)
    show ?thesis
    proof (cases r)
      case (Inl e)
      obtain sg where "node_run X c0 vs (nd_consensus s) sg" "published s \<subseteq> set sg" using s unfolding voted_def by blast
      then have "voted X c0 vs {} (s\<lparr>nd_consensus := rt\<rparr>)"
        using node_run.proposal [OF _ r] Inl unfolding voted_def by (fastforce simp: published_def)
      from triple_at [OF voted_set_rpc this] show ?thesis
        by (rule triple_moved) (simp add: publish_proposal_def Inr r Inl)
    next
      case (Inr prevote)
      have v: "voted X c0 vs {prevote} (s\<lparr>nd_consensus := rt\<rparr>)"
        using tripleD [OF receive_proposal.call s call] Inr by simp
      have "triple (voted X c0 vs {prevote}) (nd_bind (send I (PublishProposal proposal)) (\<lambda>_.
           nd_bind (cast_vote X I prevote) (\<lambda>_. finalize_if_ready X N I))) (\<lambda>_. voted X c0 vs {}) (sent_ok X c0 vs)"
        by (rule triple_bind [OF triple_send_other triple_bind [OF voted_cast_vote voted_finalize]]) simp_all
      from triple_at [OF this v] show ?thesis
        by (rule triple_moved) (simp add: publish_proposal_def \<open>make_proposal X b (nd_consensus s) = Inr proposal\<close> r Inr)
    qed
  qed
qed

lemma voted_propose:
  fixes N :: "'d node_config"
  shows "triple (voted X c0 vs {}) (propose_block X N I) (\<lambda>_. voted X c0 vs {}) (sent_ok X c0 vs)"
proof (rule triple_pointwise)
  fix s :: "'d node_state" assume s: "voted X c0 vs {} s"
  obtain q pending where d: "drain_transactions X 1000 (nd_rpc s) = (q, pending)" by force
  have v: "voted X c0 vs {} (s\<lparr>nd_rpc := q\<rparr>)" using s by simp
  then have "sent_ok X c0 vs (s\<lparr>nd_rpc := q\<rparr>)" by (rule voted_sent)
  with s v tripleD [OF voted_publish_proposal v]
  show "triple (\<lambda>t. t = s) (propose_block X N I) (\<lambda>_. voted X c0 vs {}) (sent_ok X c0 vs)"
    by (auto simp: triple_def propose_block_def Let_def d split: option.split prod.split sum.split)
qed

lemma voted_tick: "triple (voted X c0 vs {}) (on_consensus_tick X N I) (\<lambda>_. voted X c0 vs {}) (sent_ok X c0 vs)"
proof -
  have check: "triple (voted X c0 vs {}) (nd_check r) (\<lambda>_. voted X c0 vs {}) (sent_ok X c0 vs)" for r
    by (rule triple_untouched) (simp_all add: nd_check_def)
  have rest: "triple (voted X c0 vs {}) (nd_bind (nd_check r) (\<lambda>_. nd_bind (announce_transactions X I) (\<lambda>_.
       nd_bind (propose_block X N I) (\<lambda>_. nd_return Go)))) (\<lambda>_. voted X c0 vs {}) (sent_ok X c0 vs)" for r
    by (intro triple_bind [OF check] triple_bind [OF voted_announce] triple_bind [OF voted_propose] triple_return)
  show ?thesis unfolding on_consensus_tick_def
    by (rule triple_bind [OF voted_flush], rule triple_bind [OF voted_expire], rule triple_if [OF triple_state [OF rest] triple_skip])
qed

lemma voted_proposal:
  fixes N :: "'d node_config"
  shows "triple (voted X c0 vs {}) (on_proposal X N I p) (\<lambda>_. voted X c0 vs {}) (sent_ok X c0 vs)"
proof (rule triple_pointwise)
  fix s :: "'d node_state" assume s: "voted X c0 vs {} s"
  obtain rt r where r: "receive_proposal X (ni_now I) (ni_clock I) p (nd_consensus s) = (rt, r)" by force
  have call: "on_consensus (receive_proposal X (ni_now I) (ni_clock I) p) s = (s\<lparr>nd_consensus := rt\<rparr>, map_err NodeConsensus r)"
    by (simp add: on_consensus_def r)
  show "triple (\<lambda>t. t = s) (on_proposal X N I p) (\<lambda>_. voted X c0 vs {}) (sent_ok X c0 vs)"
  proof (cases r)
    case (Inl e)
    have "voted X c0 vs {} (s\<lparr>nd_consensus := rt\<rparr>)"
      using s by (rule voted_update) (use node_run.proposal [OF _ r] Inl in fastforce)
    then show ?thesis by (simp add: triple_def on_proposal_def r Inl)
  next
    case (Inr prevote)
    have v: "voted X c0 vs {prevote} (s\<lparr>nd_consensus := rt\<rparr>)" using tripleD [OF receive_proposal.call s call] Inr by simp
    have "triple (voted X c0 vs {prevote}) (nd_bind (cast_vote X I prevote) (\<lambda>_. nd_bind (publish_replayed_votes X I) (\<lambda>_.
        nd_bind (finalize_if_ready X N I) (\<lambda>_. nd_return Go)))) (\<lambda>_. voted X c0 vs {}) (sent_ok X c0 vs)"
      by (intro triple_bind [OF voted_cast_vote] triple_bind [OF voted_replay] triple_bind [OF voted_finalize] triple_return) simp_all
    from triple_at [OF this v] show ?thesis by (rule triple_moved) (simp add: on_proposal_def r Inr)
  qed
qed

lemma voted_peer_vote: "triple (voted X c0 vs {}) (count_peer_vote X I m) (\<lambda>_. voted X c0 vs {}) (sent_ok X c0 vs)"
proof (rule triple_pointwise)
  fix s assume s: "voted X c0 vs {} s"
  obtain rt r where r: "receive_vote X (ni_now I) m (nd_consensus s) = (rt, r)" by force
  have call: "on_consensus (receive_vote X (ni_now I) m) s = (s\<lparr>nd_consensus := rt\<rparr>, map_err NodeConsensus r)"
    by (simp add: on_consensus_def r)
  have plain: "voted X c0 vs {} (s\<lparr>nd_consensus := rt\<rparr>)" if "signed_precommit r = []"
    using s by (rule voted_update) (use node_run.vote [OF _ r] that in fastforce)
  have deferred: "voted X c0 vs {} (s\<lparr>nd_consensus := defer_vote m rt\<rparr>)" if "signed_precommit r = []"
  proof -
    have "\<exists>ms. defer_vote m rt = rt\<lparr>rt_deferred_votes := ms\<rparr>"
      by (cases rt) (auto simp: defer_vote_def Let_def)
    then have "node_run X c0 vs rt sg \<Longrightarrow> node_run X c0 vs (defer_vote m rt) sg" for sg
      using node_run.queue [of X c0 vs rt sg] by metis
    then show ?thesis using voted_update [OF plain [OF that], of "defer_vote m rt"] by simp
  qed
  show "triple (\<lambda>t. t = s) (count_peer_vote X I m) (\<lambda>_. voted X c0 vs {}) (sent_ok X c0 vs)"
  proof (cases "\<exists>precommit. r = Inr (Some precommit)")
    case True
    then obtain precommit where precommit: "r = Inr (Some precommit)" by blast
    have v: "voted X c0 vs {precommit} (s\<lparr>nd_consensus := rt\<rparr>)"
      using tripleD [OF receive_vote.call s call] precommit by simp
    have "triple (voted X c0 vs {precommit}) (nd_bind (send I (PublishConsensus precommit)) (\<lambda>_.
          nd_bind (on_consensus (receive_vote X (ni_now I) precommit)) (\<lambda>_. nd_return ()))) (\<lambda>_. voted X c0 vs {}) (sent_ok X c0 vs)"
      by (intro triple_bind [OF triple_send_vote] triple_bind [OF receive_vote.call] triple_return) (auto elim: voted_mono)
    from triple_at [OF this v] show ?thesis by (rule triple_moved) (simp add: count_peer_vote_def r precommit)
  next
    case False
    then have none: "signed_precommit r = []" by (cases r rule: signed_precommit.cases) auto
    then show ?thesis using plain deferred False
      by (auto simp: triple_def count_peer_vote_def r split: sum.splits option.splits)
  qed
qed

lemma voted_vote: "triple (voted X c0 vs {}) (on_vote X N I m) (\<lambda>_. voted X c0 vs {}) (sent_ok X c0 vs)"
  unfolding on_vote_def
  by (intro triple_bind [OF voted_peer_vote] triple_bind [OF voted_replay] triple_bind [OF voted_persist]
      triple_bind [OF voted_finalize] triple_return)

lemma voted_sync_loop: "triple (voted X c0 vs {}) (sync_loop X N I cs applied) (\<lambda>_. voted X c0 vs {}) (sent_ok X c0 vs)"
proof (induction cs arbitrary: applied)
  case (Cons c cs)
  have "triple (voted X c0 vs {}) (nd_bind (on_consensus (apply_sync_certificates X (ni_now I) (ni_clock I) [c])) (\<lambda>n.
      if n = 1 then
        nd_bind (\<lambda>s1. on_rpc (install_finalized X (nf_storage N) before (rt_chain (nd_consensus s1)) (fc_block c)) s1) (\<lambda>_.
        nd_bind (append_certificate N I c) (\<lambda>_. sync_loop X N I cs (applied + 1)))
      else sync_loop X N I cs applied)) (\<lambda>_. voted X c0 vs {}) (sent_ok X c0 vs)" for before
    by (rule triple_bind [OF sync.call])
      (auto intro!: triple_bind [OF voted_on_rpc] triple_bind [OF voted_append_certificate] Cons.IH)
  then show ?case unfolding sync_loop.simps Let_def by (rule triple_state)
qed (simp add: triple_return)

lemma voted_after_sync: "triple (voted X c0 vs {}) (after_sync Y I tip n) (\<lambda>_. voted X c0 vs {}) (sent_ok X c0 vs)"
proof -
  have fail: "triple (voted X c0 vs {}) (\<lambda>s. (s, Err e)) (\<lambda>_. voted X c0 vs {}) (sent_ok X c0 vs)" for e
    by (simp add: triple_def voted_sent)
  have request: "triple (voted X c0 vs {}) (\<lambda>s. send I (RequestSync (h s)) s) (\<lambda>_. voted X c0 vs {}) (sent_ok X c0 vs)" for h
    by (rule triple_state [where m = "\<lambda>s. send I (RequestSync (h s))"]) (rule triple_send_other, simp)
  show ?thesis unfolding after_sync_def Let_def by (intro triple_if fail request triple_skip)
qed

lemma voted_sync_response:
  fixes N :: "'d node_config"
  shows "triple (voted X c0 vs {}) (on_sync_response X N I source tip cs) (\<lambda>_. voted X c0 vs {}) (sent_ok X c0 vs)"
proof (rule triple_pointwise)
  fix s :: "'d node_state" assume s: "voted X c0 vs {} s"
  obtain q agreed where o: "tip_observe source tip (nd_sync_quorum s) = (q, agreed)" by force
  have v: "voted X c0 vs {} (s\<lparr>nd_sync_quorum := q\<rparr>)" using s by simp
  have "triple (voted X c0 vs {}) (nd_bind (set_rpc (begin_sync h)) (\<lambda>_. nd_bind (sync_loop X N I cs 0) (\<lambda>applied.
        nd_bind (after_sync X I t applied) (\<lambda>_. nd_return Go)))) (\<lambda>_. voted X c0 vs {}) (sent_ok X c0 vs)" for h t
    by (intro triple_bind [OF voted_set_rpc] triple_bind [OF voted_sync_loop] triple_bind [OF voted_after_sync] triple_return)
  from triple_at [OF this v] show "triple (\<lambda>t. t = s) (on_sync_response X N I source tip cs) (\<lambda>_. voted X c0 vs {}) (sent_ok X c0 vs)"
    using v by (cases agreed) (auto simp: triple_def on_sync_response_def o)
qed

lemma voted_registration:
  "triple (\<lambda>s. nd_validators s = vs \<and> voted X c0 vs {} s) (on_validator_registration X N I r)
     (\<lambda>_ s. sent_ok X c0 vs s \<and> (nd_validators s = vs \<longrightarrow> voted X c0 vs {} s)) (sent_ok X c0 vs)"
proof -
  have adopt: "nd_commands s' = nd_commands s \<and> (q = Ok () \<longrightarrow> nd_validators s' = selected)"
    if "adopt_validators N I selected s = (s', q)" for s s' selected q
    using that by (auto simp: adopt_validators_def nd_bind_def split: sum.splits if_splits)
  have "sent_ok X c0 vs s' \<and> (nd_validators s' = vs \<longrightarrow> q = Ok x \<longrightarrow> voted X c0 vs {} s')"
    if "nd_validators s = vs" and v: "voted X c0 vs {} s" and "on_validator_registration X N I r s = (s', q)" for s s' q x
  proof (cases "nd_consensus s' = nd_consensus s \<and> nd_commands s' = nd_commands s")
    case True
    then show ?thesis using v voted_frame [of s' s] voted_sent by blast
  next
    case False
    define s1 where "s1 = s\<lparr>nd_registrations := fmupd (vr_validator_id r) r (nd_registrations s)\<rparr>"
    define selected where "selected = selected_validators (nd_registrations s1)"
    have *: "sort (map val_id (nd_validators s1)) \<noteq> map val_id selected"
      "nd_bind (adopt_validators N I selected) (\<lambda>_. nd_return Go) s1 = (s', q)"
      using that(3) False by (auto simp: on_validator_registration_def s1_def selected_def Let_def split: if_splits)
    obtain q' where a: "adopt_validators N I selected s1 = (s', q')" "q = and_then q' (\<lambda>_. Ok Go)"
      using *(2) by (auto simp: nd_bind_def nd_return_def split: prod.splits sum.splits)
    have "nd_commands s' = nd_commands s" using adopt [OF a(1)] by (simp add: s1_def)
    then have "sent_ok X c0 vs s'" using voted_sent [OF v] sent_frame by blast
    moreover have "nd_validators s' \<noteq> vs" if "q = Ok x"
    proof -
      have "nd_validators s' = selected" using adopt [OF a(1)] a(2) that by (cases q') auto
      moreover have "sorted (map val_id selected)"
        unfolding selected_def selected_validators_def
        by (simp add: comp_def sorted_list_of_fset.rep_eq sorted_wrt_take)
      ultimately show ?thesis using *(1) \<open>nd_validators s = vs\<close> by (auto simp: s1_def sort_key_id_if_sorted)
    qed
    ultimately show ?thesis by blast
  qed
  then show ?thesis by (intro tripleI) blast+
qed

lemma voted_peer_connected:
  "triple (voted X c0 vs {}) (on_peer_connected N I n) (\<lambda>_. voted X c0 vs {}) (sent_ok X c0 vs)"
proof -
  have "triple (voted X c0 vs {}) (nd_bind (send_all I (RequestSync h #
      (case nf_local_registration N of Some r \<Rightarrow> [PublishValidatorRegistration r] | None \<Rightarrow> []) @
      PublishNodeRewardRegistration (nf_reward_registration N) #
      (if nf_auto_update N then [PublishUpdateAvailable (nf_version N)] else []))) (\<lambda>_. nd_return Go))
    (\<lambda>_. voted X c0 vs {}) (sent_ok X c0 vs)" for h
    by (rule triple_bind [OF triple_send_all triple_return], rule triple_send_other) (auto split: option.splits if_splits)
  then show ?thesis unfolding on_peer_connected_def by (rule triple_bind [OF voted_set_rpc triple_state])
qed

lemma voted_registration_tick:
  "triple (voted X c0 vs {}) (on_registration_tick N I) (\<lambda>_. voted X c0 vs {}) (sent_ok X c0 vs)"
proof -
  have first: "triple (voted X c0 vs {}) (case nf_local_registration N of
         Some r \<Rightarrow> if b then send I (PublishValidatorRegistration r) else nd_return () | None \<Rightarrow> nd_return ())
      (\<lambda>_. voted X c0 vs {}) (sent_ok X c0 vs)" for b
    by (auto intro!: triple_return triple_send_other split: option.split)
  have "triple (voted X c0 vs {}) (nd_bind (case nf_local_registration N of
         Some r \<Rightarrow> if b then send I (PublishValidatorRegistration r) else nd_return () | None \<Rightarrow> nd_return ()) (\<lambda>_.
      nd_bind (send I (PublishNodeRewardRegistration (nf_reward_registration N))) (\<lambda>_. nd_return Go)))
      (\<lambda>_. voted X c0 vs {}) (sent_ok X c0 vs)" for b
    by (rule triple_bind [OF first], rule triple_bind [OF triple_send_other triple_return]) simp_all
  then show ?thesis unfolding on_registration_tick_def [abs_def] by (rule triple_state)
qed

lemma voted_network_event:
  assumes "\<And>source r. e \<noteq> ValidatorRegistrationReceived source r"
  shows "triple (voted X c0 vs {}) (on_network_event X N I e) (\<lambda>_. voted X c0 vs {}) (sent_ok X c0 vs)"
proof -
  have go: "triple (voted X c0 vs {}) (nd_return y) (\<lambda>_. voted X c0 vs {}) (sent_ok X c0 vs)" for y :: flow
    by (rule triple_return)
  have updates: "triple (voted X c0 vs {}) (on_update_available N I v) (\<lambda>_. voted X c0 vs {}) (sent_ok X c0 vs)" for v
    by (auto simp: on_update_available_def intro: go split: sum.split update_result.split)
  have rewards: "triple (voted X c0 vs {}) (on_reward_registration X source r) (\<lambda>_. voted X c0 vs {}) (sent_ok X c0 vs)" for source r
    by (rule triple_untouched) (simp_all add: on_reward_registration_def)
  have evid: "triple (voted X c0 vs {}) (on_evidence X N I ev) (\<lambda>_. voted X c0 vs {}) (sent_ok X c0 vs)" for ev
    unfolding on_evidence_def [abs_def] by (intro triple_if triple_skip triple_bind [OF voted_append_evidence] triple_return)
  have request: "triple (voted X c0 vs {}) (on_sync_request X N I q h) (\<lambda>_. voted X c0 vs {}) (sent_ok X c0 vs)" for q h
    unfolding on_sync_request_def [abs_def]
    by (rule triple_state, rule triple_bind [OF triple_send_other go]) simp
  have rpc: "triple (voted X c0 vs {}) (nd_bind (set_rpc f) (\<lambda>_. nd_return Go)) (\<lambda>_. voted X c0 vs {}) (sent_ok X c0 vs)" for f
    by (rule triple_bind [OF voted_set_rpc go])
  have comm: "triple (voted X c0 vs {}) (on_communication X I m) (\<lambda>_. voted X c0 vs {}) (sent_ok X c0 vs)" for m
    unfolding on_communication_def by (rule triple_bind [OF voted_on_rpc go])
  show ?thesis using assms
    by (cases e) (simp_all add: on_transaction_def, auto intro!: go updates rewards evid request rpc comm voted_peer_connected
        voted_sync_response triple_if [OF voted_proposal triple_skip] triple_if [OF voted_vote triple_skip])
qed

lemma node_step_voted:
  "triple (\<lambda>s. nd_validators s = vs \<and> voted X c0 vs {} s) (node_step X N I ev)
     (\<lambda>_ s. sent_ok X c0 vs s \<and> (nd_validators s = vs \<longrightarrow> voted X c0 vs {} s)) (sent_ok X c0 vs)"
proof -
  have up: "triple (\<lambda>s. nd_validators s = vs \<and> voted X c0 vs {} s) m
     (\<lambda>_ s. sent_ok X c0 vs s \<and> (nd_validators s = vs \<longrightarrow> voted X c0 vs {} s)) (sent_ok X c0 vs)"
    if "triple (voted X c0 vs {}) m (\<lambda>_. voted X c0 vs {}) (sent_ok X c0 vs)" for m :: "('a, flow) node_op"
    by (rule triple_weaken [OF that]) (auto intro: voted_sent)
  have fail: "triple (voted X c0 vs {}) (nd_fail e) (\<lambda>_. voted X c0 vs {}) (sent_ok X c0 vs)" for e
    by (simp add: triple_def nd_fail_def voted_sent)
  have updates: "triple (voted X c0 vs {}) (on_update_tick N I) (\<lambda>_. voted X c0 vs {}) (sent_ok X c0 vs)"
    by (auto simp: on_update_tick_def intro!: triple_return triple_bind [OF triple_send_other] split: sum.split update_result.split)
  show ?thesis
  proof (cases "\<exists>source r. ev = NetworkEvent (Some (ValidatorRegistrationReceived source r))")
    case True
    then show ?thesis using voted_registration [of vs X c0 N I] up [OF triple_return] by auto
  next
    case False
    then show ?thesis
      by (cases "(X, N, I, ev)" rule: node_step.cases)
        (auto intro!: up fail updates voted_registration_tick voted_tick voted_network_event triple_return intro: voted_sent)
  qed
qed

end
