(* ===== verification/Node_Ledger.thy ===== *)
theory Node_Ledger
  imports Node_Lemmas
begin

text \<open>
  The second use of the program logic: between two iterations of the event loop the ledger of the RPC server is the
  ledger of the consensus driver, and no finalized block waits to be installed.
\<close>

subsection \<open>The two ledgers\<close>

text \<open>
  \<open>settled\<close>: no finalized block waits to be installed and the server has the ledger of the driver. Within an
  iteration the driver may be ahead while certificates wait (\<open>agrees\<close>).
\<close>

definition settled :: "'d node_state \<Rightarrow> bool" where
  "settled s \<longleftrightarrow> rt_pending_finalized (nd_consensus s) = [] \<and> rs_chain (nd_rpc s) = rt_chain (nd_consensus s)"

definition agrees :: "'d node_state \<Rightarrow> bool" where
  "agrees s \<longleftrightarrow> (rt_pending_finalized (nd_consensus s) = [] \<longrightarrow> rs_chain (nd_rpc s) = rt_chain (nd_consensus s))"

definition same_ledger :: "consensus_runtime \<Rightarrow> consensus_runtime \<Rightarrow> bool" where
  "same_ledger rt rt' \<longleftrightarrow> rt_chain rt' = rt_chain rt \<and> rt_pending_finalized rt' = rt_pending_finalized rt"

definition ahead :: "consensus_runtime \<Rightarrow> consensus_runtime \<Rightarrow> bool" where
  "ahead rt rt' \<longleftrightarrow> same_ledger rt rt' \<or> rt_pending_finalized rt' \<noteq> []"

abbreviation any_state :: "'d node_state \<Rightarrow> bool" where
  "any_state \<equiv> \<lambda>_. True"

lemma settled_agrees: "settled s \<Longrightarrow> agrees s"
  by (simp add: settled_def agrees_def)

lemma ahead_trans: "ahead a b \<Longrightarrow> ahead b c \<Longrightarrow> ahead a c"
  by (auto simp: ahead_def same_ledger_def)

lemma same_ledger_trans: "same_ledger a b \<Longrightarrow> same_ledger b c \<Longrightarrow> same_ledger a c"
  by (simp add: same_ledger_def)

lemma ahead_refl [simp]: "ahead a a"
  by (simp add: ahead_def same_ledger_def)

lemma agrees_ahead: "agrees s \<Longrightarrow> ahead (nd_consensus s) (nd_consensus s') \<Longrightarrow> nd_rpc s' = nd_rpc s \<Longrightarrow> agrees s'"
  by (auto simp: agrees_def ahead_def same_ledger_def)

lemma settled_same:
  "settled s \<Longrightarrow> same_ledger (nd_consensus s) (nd_consensus s') \<Longrightarrow> rs_chain (nd_rpc s') = rs_chain (nd_rpc s) \<Longrightarrow> settled s'"
  by (simp add: settled_def same_ledger_def)

lemma after_phase_change_finalized [simp]:
  "rt_pending_finalized (after_phase_change now ph rt) = rt_pending_finalized rt"
  "rt_pending_finalized (store_precommit m rt) = rt_pending_finalized rt"
  "rt_pending_finalized (reset_deadline now rt) = rt_pending_finalized rt"
  by (simp_all add: after_phase_change_def store_precommit_def reset_deadline_def)

lemma finalize_pending_ahead: "finalize_pending X rt = (rt', q) \<Longrightarrow> ahead rt rt'"
  using apply_block_Err
  by (auto simp: finalize_pending_def Let_def ahead_def same_ledger_def split: option.splits if_splits sum.splits prod.splits)

lemma receive_vote_ahead:
  assumes "receive_vote X now m rt = (rt', q)"
  shows "ahead rt rt'"
proof (cases "handle X m (rt_consensus rt)")
  case (Pair s r)
  define rt1 where "rt1 = after_phase_change now (bft_phase (rt_consensus rt)) (store_precommit m (rt\<lparr>rt_consensus := s\<rparr>))"
  have "ahead rt rt1" by (simp add: ahead_def same_ledger_def rt1_def)
  moreover have "ahead rt (rt\<lparr>rt_consensus := s\<rparr>)" by (simp add: ahead_def same_ledger_def)
  ultimately show ?thesis using assms finalize_pending_ahead [of X rt1 rt' q]
    by (auto simp: receive_vote_def Pair Let_def rt1_def [symmetric] split: sum.splits if_splits option.splits intro: ahead_trans)
qed

lemma receive_proposal_same: "receive_proposal X now clock p rt = (rt', r) \<Longrightarrow> same_ledger rt rt'"
  by (auto simp: receive_proposal_def Let_def same_ledger_def split: option.splits if_splits sum.splits)

lemma replay_pass_ahead: "replay_pass X now votes out rem pr rt = (rt', r) \<Longrightarrow> ahead rt rt'"
proof (induction votes arbitrary: out rem pr rt)
  case (Cons v votes)
  from Cons.prems show ?case
    by (auto split: prod.splits sum.splits option.splits if_splits
        dest!: receive_vote_ahead Cons.IH intro: ahead_trans)
qed simp

lemma replay_loop_ahead: "replay_loop X now out rt = (rt', r) \<Longrightarrow> ahead rt rt'"
proof (induction X now out rt rule: replay_loop.induct)
  case (1 X now out rt)
  obtain rt1 q where pass: "replay_pass X now (rt_deferred_votes rt) out [] False (rt\<lparr>rt_deferred_votes := []\<rparr>) = (rt1, q)"
    by fastforce
  have queue: "ahead a (a\<lparr>rt_deferred_votes := ms\<rparr>)" for a ms by (simp add: ahead_def same_ledger_def)
  have rt1: "ahead rt rt1" using ahead_trans [OF queue replay_pass_ahead [OF pass]] .
  show ?case
  proof (cases q)
    case (Inr res)
    obtain out1 rem pr where res: "res = (out1, rem, pr)" by (cases res)
    have "ahead rt (rt1\<lparr>rt_deferred_votes := rem\<rparr>)" by (rule ahead_trans [OF rt1 queue])
    then show ?thesis
      using "1.IH" [OF pass [symmetric] Inr res [symmetric] HOL.refl HOL.refl] "1.prems" Inr res
      by (cases pr) (auto simp: replay_loop.simps [of X now out] pass intro: ahead_trans)
  qed (use "1.prems" rt1 in \<open>simp add: replay_loop.simps [of X now out] pass\<close>)
qed

lemma next_round_same: "next_round_state now rt = (rt', r) \<Longrightarrow> same_ledger rt rt'"
  by (auto simp: next_round_state_def same_ledger_def split: option.splits sum.splits)

lemma advance_same: "advance_after_finalization now rt = (rt', r) \<Longrightarrow> same_ledger rt rt'"
  using next_round_same by (auto simp: advance_after_finalization_def same_ledger_def split: if_splits)

lemma sync_one_ledger:
  assumes "apply_sync_certificates X now clock [c] rt = (rt', r)"
  shows "rt_pending_finalized rt' = rt_pending_finalized rt \<and>
    (\<forall>n. r = Ok n \<longrightarrow> n \<noteq> 1 \<longrightarrow> rt_chain rt' = rt_chain rt)"
proof -
  obtain rt1 q where one: "apply_sync_certificate X clock c rt = (rt1, q)" by force
  have "rt_pending_finalized rt1 = rt_pending_finalized rt \<and> (q = Ok False \<longrightarrow> rt_chain rt1 = rt_chain rt)"
    using one by (auto simp: apply_sync_certificate_def Let_def split: sum.splits option.splits if_splits prod.splits)
  note first = this
  show ?thesis
  proof (cases q)
    case (Inl e)
    then show ?thesis using first assms by (auto simp: apply_sync_certificates_def one)
  next
    case (Inr b)
    show ?thesis
    proof (cases b)
      case True
      obtain u where "next_round_state now rt1 = (rt', u)" "r = and_then u (\<lambda>_. Ok 1)"
        using assms Inr True by (simp add: apply_sync_certificates_def one split: prod.splits)
      then show ?thesis using first next_round_same [of now rt1 rt' u] by (cases u) (auto simp: same_ledger_def)
    qed (use first assms Inr in \<open>auto simp: apply_sync_certificates_def one\<close>)
  qed
qed

subsection \<open>Operations that leave the ledgers alone\<close>

lemma triple_settled:
  assumes "\<And>s. same_ledger (nd_consensus s) (nd_consensus (fst (m s)))"
    and "\<And>s. rs_chain (nd_rpc (fst (m s))) = rs_chain (nd_rpc s)"
  shows "triple settled m (\<lambda>_. settled) any_state"
  using settled_same [OF _ assms(1) assms(2)] by (intro tripleI) (force, metis fst_conv)

lemma triple_agrees:
  assumes "\<And>s. ahead (nd_consensus s) (nd_consensus (fst (m s)))" and "\<And>s. nd_rpc (fst (m s)) = nd_rpc s"
  shows "triple agrees m (\<lambda>_. agrees) any_state"
  using agrees_ahead [OF _ assms(1) assms(2)] by (intro tripleI) (force, metis fst_conv)

lemma send_fields [simp]:
  "nd_consensus (fst (send I c s)) = nd_consensus s" "nd_rpc (fst (send I c s)) = nd_rpc s"
  by (simp_all add: send_def)

lemma send_settled: "triple settled (send I c) (\<lambda>_. settled) any_state"
  by (rule triple_settled) (simp_all add: same_ledger_def)

lemma send_agrees: "triple agrees (send I c) (\<lambda>_. agrees) any_state"
  by (rule triple_agrees) simp_all

lemma call_agrees:
  assumes "\<And>rt rt' r. f rt = (rt', r) \<Longrightarrow> ahead rt rt'"
  shows "triple agrees (on_consensus f) (\<lambda>_. agrees) any_state"
  by (rule triple_agrees) (auto simp: on_consensus_def assms split: prod.split)

lemma set_rpc_settled:
  assumes "\<And>q. rs_chain (f q) = rs_chain q"
  shows "triple settled (set_rpc f) (\<lambda>_. settled) any_state"
  by (rule triple_settled) (simp_all add: set_rpc_def same_ledger_def assms)

lemma rpc_chain_fields [simp]:
  "rs_chain (restore_transactions X txs q) = rs_chain q" "rs_chain (set_peer_count n q) = rs_chain q"
  "rs_chain (begin_sync h q) = rs_chain q"
  by (simp_all add: restore_transactions_def set_peer_count_def begin_sync_def set_chain_def)

lemma install_chain:
  "install_finalized X V before after b q = (q', Ok u) \<Longrightarrow> rs_chain q' = after"
  by (auto simp: install_finalized_def Let_def set_chain_def split: prod.splits sum.splits)

lemma file_ledger [simp]:
  "nd_consensus (fst (append_evidence X N I e s)) = nd_consensus s" "nd_rpc (fst (append_evidence X N I e s)) = nd_rpc s"
  "nd_consensus (fst (append_certificate N I c s)) = nd_consensus s" "nd_rpc (fst (append_certificate N I c s)) = nd_rpc s"
  by (simp_all add: append_evidence_def append_certificate_def split: prod.split)

subsection \<open>Votes and finalization\<close>

lemma cast_vote_agrees: "triple agrees (cast_vote X I m) (\<lambda>_. agrees) any_state"
proof -
  have vote: "triple agrees (on_consensus (receive_vote X (ni_now I) v)) (\<lambda>_. agrees) any_state" for v
    by (rule call_agrees) (rule receive_vote_ahead)
  show ?thesis unfolding cast_vote_def
    by (rule triple_bind [OF send_agrees], rule triple_bind [OF vote])
      (auto intro!: triple_return triple_bind [OF send_agrees] triple_bind [OF vote] split: option.split)
qed

lemma replay_agrees: "triple agrees (publish_replayed_votes X I) (\<lambda>_. agrees) any_state"
  unfolding publish_replayed_votes_def
  by (rule triple_bind [OF call_agrees triple_send_all [OF send_agrees]])
    (simp add: replay_deferred_votes_def replay_loop_ahead)

lemma persist_agrees: "triple agrees (persist_and_publish_evidence X N I) (\<lambda>_. agrees) any_state"
proof -
  have append: "triple agrees (append_evidence X N I e) (\<lambda>_. agrees) any_state" for e
    by (rule triple_agrees) simp_all
  have loop: "triple agrees (evidence_loop X N I es) (\<lambda>_. agrees) any_state" for es
    by (induction es) (auto intro!: triple_return triple_bind [OF append] triple_bind [OF send_agrees] triple_bind [OF triple_return])
  show ?thesis unfolding persist_and_publish_evidence_def
    by (rule triple_bind [OF call_agrees loop]) (auto simp: take_evidence_def Let_def ahead_def same_ledger_def split: prod.splits)
qed

text \<open>Installing the waiting certificates brings the server to the ledger of the driver.\<close>

lemma install_settles:
  "triple (\<lambda>s. rt_pending_finalized (nd_consensus s) = [] \<and> (cs = [] \<longrightarrow> settled s)) (install_certificates X N I cs)
     (\<lambda>_. settled) any_state"
proof (induction cs)
  case (Cons c cs)
  have one: "triple (\<lambda>s. rt_pending_finalized (nd_consensus s) = [])
      (\<lambda>s. on_rpc (install_finalized X (nf_storage N) (rs_chain (nd_rpc s)) (rt_chain (nd_consensus s)) (fc_block c)) s)
      (\<lambda>_. settled) any_state"
    by (rule tripleI) (auto simp: on_rpc_def settled_def install_chain map_err_def split: prod.splits sum.splits)
  have append: "triple settled (append_certificate N I c) (\<lambda>_. settled) any_state"
    by (rule triple_settled) (simp_all add: same_ledger_def)
  have rest: "triple settled (install_certificates X N I cs) (\<lambda>_. settled) any_state"
    by (rule triple_weaken [OF Cons.IH]) (auto simp: settled_def)
  have "triple (\<lambda>s. rt_pending_finalized (nd_consensus s) = []) (install_certificates X N I (c # cs)) (\<lambda>_. settled) any_state"
    unfolding install_certificates.simps
    by (rule triple_bind [OF one], rule triple_bind [OF append], rule triple_bind [OF send_settled rest])
  then show ?case by (rule triple_weaken) auto
qed (simp add: triple_def nd_return_def)

lemma finalize_settles: "triple agrees (finalize_if_ready X N I) (\<lambda>_. settled) any_state"
proof -
  let ?P = "\<lambda>cs s. rt_pending_finalized (nd_consensus s) = [] \<and> (cs = [] \<longrightarrow> settled s)"
  have take: "triple agrees (on_consensus (\<lambda>rt. case take_finalized rt of (cs, rt1) \<Rightarrow> (rt1, Ok cs))) ?P any_state"
    by (rule tripleI) (auto simp: on_consensus_def take_finalized_def settled_def agrees_def)
  have advance: "triple settled (on_consensus (advance_after_finalization (ni_now I))) (\<lambda>_. settled) any_state"
    by (rule triple_settled) (auto simp: on_consensus_def split: prod.splits dest: advance_same)
  show ?thesis unfolding finalize_if_ready_def
  proof (rule triple_bind [OF take])
    fix cs
    show "triple (?P cs) (if cs = [] then nd_return () else nd_bind (install_certificates X N I cs) (\<lambda>_.
       on_consensus (advance_after_finalization (ni_now I)))) (\<lambda>_. settled) any_state"
    proof (cases "cs = []")
      case False
      have "triple (?P cs) (nd_bind (install_certificates X N I cs) (\<lambda>_. on_consensus (advance_after_finalization (ni_now I))))
          (\<lambda>_. settled) any_state"
        by (rule triple_bind [OF install_settles advance])
      then show ?thesis using False by (simp only: if_False)
    qed (simp add: triple_def nd_return_def)
  qed
qed

subsection \<open>Handlers\<close>

lemma flush_settled: "triple settled (flush_communication I) (\<lambda>_. settled) any_state"
proof (rule triple_pointwise)
  fix s assume s: "settled s"
  obtain q messages where d: "drain_outbound_communication (nd_rpc s) = (q, messages)" by force
  have "rs_chain q = rs_chain (nd_rpc s)" using d by (auto simp: drain_outbound_communication_def split: prod.splits)
  then have v: "settled (s\<lparr>nd_rpc := q\<rparr>)" using s by (simp add: settled_def)
  from triple_at [OF triple_send_all [OF send_settled] v] show "triple (\<lambda>t. t = s) (flush_communication I) (\<lambda>_. settled) any_state"
    by (rule triple_moved) (simp add: flush_communication_def d)
qed

lemma timeout_same: "timeout_if_due now rt = Ok (rt', b) \<Longrightarrow> same_ledger rt rt'"
  by (auto simp: timeout_if_due_def same_ledger_def result_simps split: if_splits)

lemma expire_settled: "triple settled (expire_round X I) (\<lambda>_. settled) any_state"
proof (rule triple_settled)
  fix s :: "'d node_state"
  define s1 where "s1 = (if consensus_is_active s \<and> \<not> nd_was_active s
      then s\<lparr>nd_consensus := restart_phase_timeout (ni_now I) (nd_consensus s)\<rparr> else s)"
  have s1: "same_ledger (nd_consensus s) (nd_consensus s1)" "nd_rpc s1 = nd_rpc s"
    by (simp_all add: s1_def same_ledger_def restart_phase_timeout_def)
  have e: "expire_round X I s = (if \<not> consensus_is_active s then (s1\<lparr>nd_was_active := consensus_is_active s\<rparr>, Ok ())
      else case timeout_if_due (ni_now I) (nd_consensus s1) of
           Inl e \<Rightarrow> (s1, Err (NodeConsensus e))
         | Inr (rt, expired) \<Rightarrow>
           let s2 = s1\<lparr>nd_consensus := rt\<rparr>;
               s3 = (if expired then s2\<lparr>nd_rpc := restore_transactions X (pending_transactions (nd_consensus s)) (nd_rpc s2)\<rparr> else s2)
           in (s3\<lparr>nd_was_active := consensus_is_active s\<rparr>, Ok ()))"
    unfolding expire_round_def Let_def s1_def by (rule HOL.refl)
  have "same_ledger (nd_consensus s) (nd_consensus (fst (expire_round X I s))) \<and>
      rs_chain (nd_rpc (fst (expire_round X I s))) = rs_chain (nd_rpc s)"
  proof (cases "consensus_is_active s")
    case True
    then show ?thesis
      using s1 timeout_same [of "ni_now I" "nd_consensus s1"] same_ledger_trans [OF s1(1)]
      by (cases "timeout_if_due (ni_now I) (nd_consensus s1)") (auto simp: e Let_def split: prod.split)
  qed (use s1 in \<open>simp add: e\<close>)
  then show "same_ledger (nd_consensus s) (nd_consensus (fst (expire_round X I s)))"
    "rs_chain (nd_rpc (fst (expire_round X I s))) = rs_chain (nd_rpc s)" by simp_all
qed

lemma announce_settled: "triple settled (announce_transactions X I) (\<lambda>_. settled) any_state"
proof -
  have mark: "triple settled (\<lambda>t. (t\<lparr>nd_announced := f t\<rparr>, Ok ())) (\<lambda>_. settled) any_state" for f
    by (rule triple_settled) (simp_all add: same_ledger_def)
  have one: "triple settled (\<lambda>s. if b s then nd_bind (send I (PublishTransaction tx))
        (\<lambda>_ t. (t\<lparr>nd_announced := f t\<rparr>, Ok ())) s else (s, Ok ())) (\<lambda>_. settled) any_state" for b tx f
    by (rule triple_if [OF triple_bind [OF send_settled mark] triple_skip])
  have "triple settled (announce_loop X I txs) (\<lambda>_. settled) any_state" for txs
    by (induction txs) (auto intro!: triple_return triple_bind [OF one])
  then show ?thesis unfolding announce_transactions_def
    by (intro triple_if triple_skip triple_state [where m = "\<lambda>s. announce_loop X I (pending_transactions_snapshot (nd_rpc s) 1000)"])
qed

lemma propose_settled:
  fixes N :: "'d node_config"
  shows "triple settled (propose_block X N I) (\<lambda>_. settled) any_state"
proof -
  have proposal: "triple settled (publish_proposal X N I pending b) (\<lambda>_. settled) any_state" for pending b
  proof (rule triple_pointwise)
    fix s :: "'d node_state" assume s: "settled s"
    have failed: "triple settled (nd_bind (send_all I (map PublishTransaction pending)) (\<lambda>_. set_rpc (restore_transactions X pending)))
        (\<lambda>_. settled) any_state"
      by (rule triple_bind [OF triple_send_all [OF send_settled] set_rpc_settled]) simp
    have retry: "triple settled (set_rpc (restore_transactions X pending)) (\<lambda>_. settled) any_state"
      by (rule set_rpc_settled) simp
    have sent: "triple settled (nd_bind (send I (PublishProposal p)) (\<lambda>_. nd_bind (cast_vote X I v) (\<lambda>_. finalize_if_ready X N I)))
        (\<lambda>_. settled) any_state" for p v
      by (rule triple_weaken [OF triple_bind [OF send_agrees triple_bind [OF cast_vote_agrees finalize_settles]]])
        (auto intro: settled_agrees)
    have moved: "settled (s\<lparr>nd_consensus := rt\<rparr>)" if "receive_proposal X (ni_now I) (ni_clock I) p (nd_consensus s) = (rt, r)" for p rt r
      using settled_same [OF s, of "s\<lparr>nd_consensus := rt\<rparr>"] receive_proposal_same [OF that] by simp
    show "triple (\<lambda>t. t = s) (publish_proposal X N I pending b) (\<lambda>_. settled) any_state"
    proof (cases "make_proposal X b (nd_consensus s)")
      case (Inl e)
      from triple_at [OF failed s] show ?thesis by (rule triple_moved) (simp add: publish_proposal_def Inl)
    next
      case (Inr p)
      note made = this
      obtain rt r where r: "receive_proposal X (ni_now I) (ni_clock I) p (nd_consensus s) = (rt, r)" by force
      show ?thesis
      proof (cases r)
        case (Inl e)
        from triple_at [OF retry moved [OF r]] show ?thesis by (rule triple_moved) (simp add: publish_proposal_def made r Inl)
      next
        case (Inr v)
        from triple_at [OF sent moved [OF r]] show ?thesis by (rule triple_moved) (simp add: publish_proposal_def made r Inr)
      qed
    qed
  qed
  show ?thesis
  proof (rule triple_pointwise)
    fix s :: "'d node_state" assume s: "settled s"
    obtain q pending where d: "drain_transactions X 1000 (nd_rpc s) = (q, pending)" by force
    have "rs_chain q = rs_chain (nd_rpc s)" using d by (auto simp: drain_transactions_def split: prod.splits)
    then have v: "settled (s\<lparr>nd_rpc := q\<rparr>)" using s by (simp add: settled_def)
    from triple_at [OF proposal v] s show "triple (\<lambda>t. t = s) (propose_block X N I) (\<lambda>_. settled) any_state"
      by (auto simp: triple_def propose_block_def Let_def d split: option.split)
  qed
qed

lemma tick_settled: "triple settled (on_consensus_tick X N I) (\<lambda>_. settled) any_state"
proof -
  have check: "triple settled (nd_check r) (\<lambda>_. settled) any_state" for r
    by (rule triple_settled) (simp_all add: nd_check_def same_ledger_def)
  have rest: "triple settled (nd_bind (nd_check r) (\<lambda>_. nd_bind (announce_transactions X I) (\<lambda>_.
       nd_bind (propose_block X N I) (\<lambda>_. nd_return Go)))) (\<lambda>_. settled) any_state" for r
    by (intro triple_bind [OF check] triple_bind [OF announce_settled] triple_bind [OF propose_settled] triple_return)
  show ?thesis unfolding on_consensus_tick_def
    by (rule triple_bind [OF flush_settled], rule triple_bind [OF expire_settled], rule triple_if [OF triple_state [OF rest] triple_skip])
qed

lemma proposal_settled:
  fixes N :: "'d node_config"
  shows "triple settled (on_proposal X N I p) (\<lambda>_. settled) any_state"
proof (rule triple_pointwise)
  fix s :: "'d node_state" assume s: "settled s"
  obtain rt r where r: "receive_proposal X (ni_now I) (ni_clock I) p (nd_consensus s) = (rt, r)" by force
  have moved: "settled (s\<lparr>nd_consensus := rt\<rparr>)"
    using settled_same [OF s, of "s\<lparr>nd_consensus := rt\<rparr>"] receive_proposal_same [OF r] by simp
  have "triple settled (nd_bind (cast_vote X I v) (\<lambda>_. nd_bind (publish_replayed_votes X I) (\<lambda>_.
        nd_bind (finalize_if_ready X N I) (\<lambda>_. nd_return Go)))) (\<lambda>_. settled) any_state" for v
  proof (rule triple_weaken)
    show "triple agrees (nd_bind (cast_vote X I v) (\<lambda>_. nd_bind (publish_replayed_votes X I) (\<lambda>_.
        nd_bind (finalize_if_ready X N I) (\<lambda>_. nd_return Go)))) (\<lambda>_. settled) any_state"
      by (intro triple_bind [OF cast_vote_agrees] triple_bind [OF replay_agrees] triple_bind [OF finalize_settles] triple_return)
  qed (auto intro: settled_agrees)
  from triple_at [OF this moved] moved show "triple (\<lambda>t. t = s) (on_proposal X N I p) (\<lambda>_. settled) any_state"
    by (cases r) (simp_all add: triple_def on_proposal_def r)
qed

lemma peer_vote_agrees: "triple agrees (count_peer_vote X I m) (\<lambda>_. agrees) any_state"
proof (rule triple_pointwise)
  fix s assume s: "agrees s"
  obtain rt r where r: "receive_vote X (ni_now I) m (nd_consensus s) = (rt, r)" by force
  have moved: "agrees (s\<lparr>nd_consensus := rt\<rparr>)"
    using agrees_ahead [OF s, of "s\<lparr>nd_consensus := rt\<rparr>"] receive_vote_ahead [OF r] by simp
  have deferred: "agrees (s\<lparr>nd_consensus := defer_vote m rt\<rparr>)"
    using moved by (simp add: agrees_def defer_vote_def Let_def)
  have vote: "triple agrees (on_consensus (receive_vote X (ni_now I) v)) (\<lambda>_. agrees) any_state" for v
    by (rule call_agrees) (rule receive_vote_ahead)
  have "triple agrees (nd_bind (send I (PublishConsensus v)) (\<lambda>_. nd_bind (on_consensus (receive_vote X (ni_now I) v)) (\<lambda>_. nd_return ())))
      (\<lambda>_. agrees) any_state" for v
    by (intro triple_bind [OF send_agrees] triple_bind [OF vote] triple_return)
  from triple_at [OF this moved] moved deferred show "triple (\<lambda>t. t = s) (count_peer_vote X I m) (\<lambda>_. agrees) any_state"
    by (cases r) (simp_all add: triple_def count_peer_vote_def r split: option.split)
qed

lemma vote_settled: "triple settled (on_vote X N I m) (\<lambda>_. settled) any_state"
proof (rule triple_weaken)
  show "triple agrees (on_vote X N I m) (\<lambda>_. settled) any_state"
    unfolding on_vote_def
    by (intro triple_bind [OF peer_vote_agrees] triple_bind [OF replay_agrees] triple_bind [OF persist_agrees]
        triple_bind [OF finalize_settles] triple_return)
qed (auto intro: settled_agrees)

lemma sync_loop_settled: "triple settled (sync_loop X N I cs applied) (\<lambda>_. settled) any_state"
proof (induction cs arbitrary: applied)
  case (Cons c cs)
  let ?apply = "on_consensus (apply_sync_certificates X (ni_now I) (ni_clock I) [c])"
  have call: "triple settled ?apply (\<lambda>n s. rt_pending_finalized (nd_consensus s) = [] \<and> (n \<noteq> 1 \<longrightarrow> settled s)) any_state"
    using sync_one_ledger [of X "ni_now I" "ni_clock I" c]
    by (intro tripleI) (fastforce simp: on_consensus_def settled_def result_simps split: prod.splits)+
  have install: "triple (\<lambda>s. rt_pending_finalized (nd_consensus s) = [])
      (\<lambda>s. on_rpc (install_finalized X (nf_storage N) before (rt_chain (nd_consensus s)) (fc_block c)) s)
      (\<lambda>_. settled) any_state" for before
    by (rule tripleI) (auto simp: on_rpc_def settled_def install_chain map_err_def split: prod.splits sum.splits)
  have append: "triple settled (append_certificate N I c) (\<lambda>_. settled) any_state"
    by (rule triple_settled) (simp_all add: same_ledger_def)
  have applied: "triple (\<lambda>s. rt_pending_finalized (nd_consensus s) = [])
      (nd_bind (\<lambda>s. on_rpc (install_finalized X (nf_storage N) before (rt_chain (nd_consensus s)) (fc_block c)) s)
        (\<lambda>_. nd_bind (append_certificate N I c) (\<lambda>_. sync_loop X N I cs (applied + 1)))) (\<lambda>_. settled) any_state" for before
    by (intro triple_bind [OF install] triple_bind [OF append] Cons.IH)
  have body: "triple settled (nd_bind ?apply (\<lambda>n. if n = 1 then
        nd_bind (\<lambda>s. on_rpc (install_finalized X (nf_storage N) before (rt_chain (nd_consensus s)) (fc_block c)) s)
          (\<lambda>_. nd_bind (append_certificate N I c) (\<lambda>_. sync_loop X N I cs (applied + 1)))
      else sync_loop X N I cs applied)) (\<lambda>_. settled) any_state" for before
  proof (rule triple_bind [OF call])
    fix n :: nat
    show "triple (\<lambda>s. rt_pending_finalized (nd_consensus s) = [] \<and> (n \<noteq> 1 \<longrightarrow> settled s)) (if n = 1 then
        nd_bind (\<lambda>s. on_rpc (install_finalized X (nf_storage N) before (rt_chain (nd_consensus s)) (fc_block c)) s)
          (\<lambda>_. nd_bind (append_certificate N I c) (\<lambda>_. sync_loop X N I cs (applied + 1)))
      else sync_loop X N I cs applied) (\<lambda>_. settled) any_state"
    proof (cases "n = 1")
      case True
      show ?thesis unfolding True simp_thms if_True by (rule triple_weaken [OF applied]) auto
    next
      case False
      show ?thesis unfolding if_not_P [OF False] by (rule triple_weaken [OF Cons.IH]) (use False in auto)
    qed
  qed
  then show ?case unfolding sync_loop.simps Let_def by (rule triple_state)
qed (simp add: triple_return)

lemma sync_response_settled:
  fixes N :: "'d node_config"
  shows "triple settled (on_sync_response X N I source tip cs) (\<lambda>_. settled) any_state"
proof (rule triple_pointwise)
  fix s :: "'d node_state" assume s: "settled s"
  obtain q agreed where o: "tip_observe source tip (nd_sync_quorum s) = (q, agreed)" by force
  have v: "settled (s\<lparr>nd_sync_quorum := q\<rparr>)" using s by (simp add: settled_def)
  have after: "triple settled (after_sync X I t n) (\<lambda>_. settled) any_state" for t n
    by (rule triple_settled) (simp_all add: after_sync_def Let_def same_ledger_def)
  have started: "triple settled (set_rpc (begin_sync h)) (\<lambda>_. settled) any_state" for h
    by (rule set_rpc_settled) simp
  have "triple settled (nd_bind (set_rpc (begin_sync h)) (\<lambda>_. nd_bind (sync_loop X N I cs 0) (\<lambda>applied.
        nd_bind (after_sync X I t applied) (\<lambda>_. nd_return Go)))) (\<lambda>_. settled) any_state" for h t
    by (intro triple_bind [OF started] triple_bind [OF sync_loop_settled] triple_bind [OF after] triple_return)
  from triple_at [OF this v] show "triple (\<lambda>t. t = s) (on_sync_response X N I source tip cs) (\<lambda>_. settled) any_state"
    using v by (cases agreed) (auto simp: triple_def on_sync_response_def o)
qed

lemma registration_settled:
  fixes N :: "'d node_config"
  shows "triple settled (on_validator_registration X N I r) (\<lambda>_. settled) any_state"
proof -
  have adopt: "triple settled (adopt_validators N I selected) (\<lambda>_. settled) any_state" for selected
    by (rule tripleI)
      (auto simp: adopt_validators_def nd_bind_def settled_def replace_bootstrap_validators_def result_simps split: sum.splits if_splits)
  have adopted: "triple settled (nd_bind (adopt_validators N I selected) (\<lambda>_. nd_return Go)) (\<lambda>_. settled) any_state" for selected
    by (rule triple_bind [OF adopt triple_return])
  show ?thesis
  proof (rule triple_pointwise)
    fix s :: "'d node_state" assume s: "settled s"
    then have v: "settled (s\<lparr>nd_registrations := q\<rparr>)" for q by (simp add: settled_def)
    show "triple (\<lambda>t. t = s) (on_validator_registration X N I r) (\<lambda>_. settled) any_state"
      using triple_at [OF adopted v] s v by (auto simp: triple_def on_validator_registration_def Let_def)
  qed
qed

lemma node_step_settled: "triple settled (node_step X N I ev) (\<lambda>_. settled) any_state"
proof -
  have untouched: "triple settled m (\<lambda>_. settled) any_state"
    if "\<And>s. nd_consensus (fst (m s)) = nd_consensus s" "\<And>s. rs_chain (nd_rpc (fst (m s))) = rs_chain (nd_rpc s)" for m :: "('a, flow) node_op"
    by (rule triple_settled) (simp_all add: same_ledger_def that)
  have sends: "nd_consensus (fst (send_all I cs s)) = nd_consensus s \<and> nd_rpc (fst (send_all I cs s)) = nd_rpc s" for cs and s :: "'a node_state"
    by (induction cs arbitrary: s) (simp_all add: nd_return_def nd_bind_def send_def)
  have event: "triple settled (on_network_event X N I e) (\<lambda>_. settled) any_state" for e
  proof (cases e)
    case (PeerConnected p n)
    have sent: "triple settled (nd_bind (send_all I cs) (\<lambda>_. nd_return Go)) (\<lambda>_. settled) any_state" for cs
      by (rule triple_bind [OF triple_send_all [OF send_settled] triple_return])
    show ?thesis unfolding PeerConnected on_network_event.simps on_peer_connected_def
      by (rule triple_bind [OF set_rpc_settled triple_state [OF sent]]) simp
  next
    case (TransactionReceived p tx)
    then show ?thesis by (auto simp: on_transaction_def intro!: triple_bind [OF set_rpc_settled triple_return])
  next
    case (PeerDisconnected p n)
    then show ?thesis by (auto intro!: triple_bind [OF set_rpc_settled triple_return])
  next
    case (SyncReceived p tip cs)
    then show ?thesis using sync_response_settled by simp
  next
    case (ValidatorRegistrationReceived p r)
    then show ?thesis using registration_settled by (auto intro: triple_return)
  next
    case (ProposalReceived p q)
    then show ?thesis by (auto intro!: triple_if [OF proposal_settled triple_skip])
  next
    case (ConsensusReceived p m)
    then show ?thesis by (auto intro!: triple_if [OF vote_settled triple_skip])
  qed (simp_all, auto intro!: untouched simp: nd_return_def on_update_available_def on_reward_registration_def on_communication_def
      on_rpc_def receive_communication_def nd_bind_def on_evidence_def append_evidence_def on_sync_request_def send_def
      split: prod.split sum.split update_result.split)
  show ?thesis
    by (cases "(X, N, I, ev)" rule: node_step.cases)
      (auto intro!: tick_settled event untouched simp: nd_return_def nd_fail_def on_update_tick_def on_registration_tick_def
        nd_bind_def send_def split: prod.split sum.split update_result.split option.split)
qed

end
