(* ===== verification/Node_Properties.thy ===== *)
theory Node_Properties
  imports Node_Ledger Consensus_Properties Validator_Policy Wire_Properties
begin

text \<open>
  Properties of the whole node program: agreement between nodes that run it, the ledger it serves, and what
  messages of peers can do to it.
\<close>

subsection \<open>Runs of the program\<close>

text \<open>
  The program starts on a ledger, a validator set and files, then handles events one after the other, and
  between them the server answers requests. A run ends with the first error. Runs in which the node replaces its
  validator set before the first block are described by the last property of this theory instead.
\<close>

inductive node_loop ::
  "externals \<Rightarrow> 'd node_config \<Rightarrow> blockchain \<Rightarrow> validator list \<Rightarrow> 'd node_state \<Rightarrow> bool" for X N c0 vs where
  start: "node_start X N I evidence_readable finality_readable n t w rpc vs finality_file evidence_file = Ok s \<Longrightarrow>
    rs_chain rpc = c0 \<Longrightarrow> node_loop X N c0 vs s"
| step: "node_loop X N c0 vs s \<Longrightarrow> node_step X N I ev s = (s', Ok Go) \<Longrightarrow> nd_validators s' = vs \<Longrightarrow> node_loop X N c0 vs s'"
| request: "node_loop X N c0 vs s \<Longrightarrow> hex_law X \<Longrightarrow> \<forall>i. env_ok X (Es i) \<Longrightarrow>
    handle_rpc X Es render empty_batch req (nd_rpc s) = (q, answer) \<Longrightarrow> node_loop X N c0 vs (s\<lparr>nd_rpc := q\<rparr>)"

inductive_cases node_loop_cases: "node_loop X N c0 vs s"

lemma import_pending:
  "import_certificates X cs n rt = (rt', r) \<Longrightarrow> rt_pending_finalized rt' = rt_pending_finalized rt"
  by (induction cs arbitrary: n rt) (fastforce split: sum.splits option.splits if_splits)+

lemma node_start_state:
  assumes "node_start X N I er fr n t w rpc vs ff ef = Ok s"
  shows "nd_validators s = vs \<and> voted X (rs_chain rpc) vs {} s \<and> settled s"
proof -
  obtain rt0 rt1 cs where first: "with_signer (ni_now I) (rs_chain rpc) vs w t = Ok rt0"
    "set_event_schedule X (nf_schedule N) rt0 = Ok rt1"
    "finality_load X (nf_certificate_parse N) fr vs ff = Ok cs"
    using assms by (auto simp: node_start_def result_simps)
  obtain rt2 k where steps: "with_signer (ni_now I) (rs_chain rpc) vs w t = Ok rt0"
    "set_event_schedule X (nf_schedule N) rt0 = Ok rt1" "import_certificate_history X cs rt1 = (rt2, Ok k)"
    and s: "nd_consensus s = rt2" "nd_rpc s = rpc" "nd_validators s = vs" "nd_commands s = []"
    using assms first by (cases "import_certificate_history X cs rt1") (auto simp: node_start_def result_simps)
  have run: "node_run X (rs_chain rpc) vs rt2 []"
    using node_run.import [OF node_run.schedule [OF node_run.start [OF steps(1)] steps(2)] steps(3)] .
  have 0: "rt_chain rt0 = rs_chain rpc" "rt_pending_finalized rt0 = []"
    using steps(1) by (auto simp: with_signer_def Let_def result_simps)
  have 1: "rt_chain rt1 = rt_chain rt0" "rt_pending_finalized rt1 = rt_pending_finalized rt0"
    using steps(2) by (auto simp: set_event_schedule_def result_simps)
  have 2: "rt_chain rt2 = rt_chain rt1" "rt_pending_finalized rt2 = rt_pending_finalized rt1"
    using steps(3) import_pending [of X cs 0 rt1] import_certificate_history_fields [OF steps(3)]
    by (auto simp: import_certificate_history_def split: prod.splits sum.splits)
  show ?thesis using run s 0 1 2 by (auto simp: voted_def published_def settled_def)
qed

lemma handle_rpc_chain:
  assumes "hex_law X" and "\<forall>i. env_ok X (Es i)" and "handle_rpc X Es render empty_batch req q = (q', answer)"
  shows "rs_chain q' = rs_chain q"
  using handle_rpc_step [OF assms] by (simp add: rpc_step_def ledger_view_def)

lemma node_loop_state:
  "node_loop X N c0 vs s \<Longrightarrow> nd_validators s = vs \<and> voted X c0 vs {} s \<and> settled s"
proof (induction rule: node_loop.induct)
  case (start I er fr n t w rpc ff ef s)
  then show ?case using node_start_state [OF start(1)] by simp
next
  case (step s I ev s')
  then have "nd_validators s = vs \<and> voted X c0 vs {} s" "settled s" by simp_all
  from tripleD [OF node_step_voted this(1) step.hyps(2)] tripleD [OF node_step_settled this(2) step.hyps(2)]
  show ?case using step.hyps(3) by simp
next
  case (request s Es render eb req q answer)
  then show ?case using handle_rpc_chain [OF request.hyps(2-4)] by (simp add: settled_def)
qed

text \<open>Whatever ends a step, the votes the program has published by then were signed in one run of the driver.\<close>

lemma node_step_sent:
  assumes "node_loop X N c0 vs s" and "node_step X N I ev s = (s', r)"
  shows "sent_ok X c0 vs s'"
proof -
  have "nd_validators s = vs \<and> voted X c0 vs {} s" using node_loop_state [OF assms(1)] by simp
  from tripleD [OF node_step_voted this assms(2)] show ?thesis by (cases r) simp_all
qed

subsection \<open>A node for the witnesses\<close>

text \<open>The sample validator as a complete node: it gets the proposal of the sample block and finalizes it.\<close>

definition sample_reward_registration :: node_reward_registration where
  "sample_reward_registration = \<lparr>nr_reward_address = ''a'', nr_peer_id = ''n'', nr_signature_hex = ''ss'',
     nr_registration_signer = ''a'', nr_node_public_key_hex = ''k'', nr_node_signature_hex = ''ss''\<rparr>"

definition sample_node_config :: "db_view node_config" where
  "sample_node_config = \<lparr>nf_is_client = False, nf_local_address = ''val'', nf_local_registration = None,
     nf_reward_registration = sample_reward_registration, nf_upgrades = [], nf_schedule = [], nf_auto_update = False,
     nf_version = ''1'', nf_storage = \<lparr>se_sqlite = memory_sqlite, se_legacy = (\<lambda>_. None),
       se_state_codec = constant_codec (canonical_from_chain permissive_externals sample_chain), se_archive_codec = plain_codec\<rparr>,
     nf_certificate_json = (\<lambda>_. Some []), nf_certificate_line = (\<lambda>_. ''c''), nf_certificate_parse = (\<lambda>_. None),
     nf_evidence_line = (\<lambda>_. ''e''), nf_evidence_parse = (\<lambda>_. None), nf_peer_id_ok = (\<lambda>_. True)\<rparr>"

definition sample_input :: node_input where
  "sample_input = \<lparr>ni_now = 0, ni_clock = Some 5, ni_network_open = True, ni_certificate_io = (\<lambda>_. Appended),
     ni_evidence_io = (\<lambda>_. Appended), ni_evidence_readable = (\<lambda>_. True), ni_save_validators = True, ni_update = Ok Current\<rparr>"

definition sample_node :: "db_view node_state" where
  "sample_node = \<lparr>nd_consensus = sample_runtime, nd_rpc = (sample_rpc permissive_externals)\<lparr>rs_chain := sample_chain\<rparr>,
     nd_validators = sample_vs, nd_local_is_validator = True, nd_registrations = fmempty,
     nd_reward_registrations = fmupd ''n'' sample_reward_registration fmempty, nd_finality_file = None, nd_evidence_file = None,
     nd_validators_file = sample_vs, nd_sync_quorum = \<lparr>tq_minimum_peers = 2, tq_votes = fmempty\<rparr>, nd_announced = fmempty,
     nd_was_active = False, nd_commands = []\<rparr>"

lemma sample_node_start:
  "node_start permissive_externals sample_node_config sample_input True True 2 (uniform 5) sample_signer
     ((sample_rpc permissive_externals)\<lparr>rs_chain := sample_chain\<rparr>) sample_vs None None = Ok sample_node"
proof -
  have "set_event_schedule permissive_externals [] sample_runtime = Ok sample_runtime"
    by (simp add: set_event_schedule_def schedule_validate_def sample_runtime_def)
  moreover have "import_certificate_history permissive_externals [] sample_runtime = (sample_runtime, Ok 0)"
    by (simp add: import_certificate_history_def sample_runtime_def)
  ultimately show ?thesis using sample_start
    by (simp add: node_start_def sample_node_config_def sample_input_def ensure_supported_def version_at_def
        SUPPORTED_PROTOCOL_VERSION_def evidence_load_def finality_load_def tip_quorum_new_def sample_node_def
        sample_reward_registration_def sample_vs_def Let_def)
qed

lemma sample_node_loop: "node_loop permissive_externals sample_node_config sample_chain sample_vs sample_node"
  by (rule node_loop.start [OF sample_node_start]) simp

lemma sample_install_block:
  "\<exists>q. install_finalized permissive_externals (nf_storage sample_node_config) sample_chain sample_chain1 sample_block
     ((sample_rpc permissive_externals)\<lparr>rs_chain := sample_chain\<rparr>) = (q, Ok ()) \<and> rs_chain q = sample_chain1"
proof -
  obtain a where "append_finalized permissive_externals plain_codec 99000000 sample_block sample_chain empty_archive = (a, Ok ())"
    by (simp add: append_finalized_def Let_def bind_io_def read_active_period_def directory_bytes_def append_record_def
        write_period_def file_op_def read_op_def empty_archive_def plain_codec_def file_bytes_def append_line_def)
  moreover obtain d where "state_commit memory_sqlite (\<lambda>_. None) (constant_codec (canonical_from_chain permissive_externals sample_chain))
      permissive_externals sample_chain1 memory_store = (d, Ok (canonical_from_chain permissive_externals sample_chain1))"
    using memory_state_commit by blast
  ultimately show ?thesis
    by (simp add: install_finalized_def sample_rpc_def sample_node_config_def Let_def set_chain_def)
qed

lemma sample_node_step:
  "\<exists>s'. node_step permissive_externals sample_node_config sample_input
       (NetworkEvent (Some (ProposalReceived ''p'' (sample_proposal sample_block)))) sample_node = (s', Ok Go) \<and>
     nd_validators s' = sample_vs \<and> rs_chain (nd_rpc s') = sample_chain1 \<and>
     nd_commands s' = [PublishConsensus (sample_vote Prevote), PublishConsensus (sample_vote Precommit), PublishBlock sample_block]"
proof -
  let ?X = permissive_externals and ?N = sample_node_config and ?I = sample_input
  note shape = sample_block_shape
  have I: "ni_now ?I = 0" "ni_clock ?I = Some 5" "ni_network_open ?I" "ni_certificate_io ?I = (\<lambda>_. Appended)"
    by (simp_all add: sample_input_def)
  obtain rt where rt: "receive_vote ?X 0 (sample_vote Precommit) (sample_runtime2 sample_block) = (rt, Ok None)"
    "rt_chain rt = sample_chain1" "rt_pending_finalized rt = [sample_certificate]" "rt_deferred_votes rt = []"
    "bft_phase (rt_consensus rt) = Finalized" "bft_height (rt_consensus rt) = 1"
    using sample_receive_precommit by blast
  obtain q where q: "install_finalized ?X (nf_storage ?N) sample_chain sample_chain1 sample_block
     ((sample_rpc ?X)\<lparr>rs_chain := sample_chain\<rparr>) = (q, Ok ())" "rs_chain q = sample_chain1"
    using sample_install_block by blast
  have replay: "replay_deferred_votes ?X 0 rt = (rt, Ok [])"
    using rt(4) by (cases rt) (simp add: replay_deferred_votes_def replay_loop.simps)
  obtain rt3 where advance: "advance_after_finalization 0 (rt\<lparr>rt_pending_finalized := []\<rparr>) = (rt3, Ok ())"
    using rt(2,5,6) by (simp add: advance_after_finalization_def next_round_state_def last_block_def sample_chain1_fields start_round_def Let_def)
  have fields: "nd_consensus sample_node = sample_runtime" "nd_rpc sample_node = (sample_rpc ?X)\<lparr>rs_chain := sample_chain\<rparr>"
    "nd_local_is_validator sample_node" "nd_commands sample_node = []" "nd_validators sample_node = sample_vs" "\<not> nf_is_client ?N"
    by (simp_all add: sample_node_def sample_node_config_def)
  have cert: "fc_block sample_certificate = sample_block" by (simp add: sample_certificate_def)
  show ?thesis
    by (simp add: fields on_proposal_def I sample_receive_proposal [OF shape] cast_vote_def nd_bind_def send_def on_consensus_def
        sample_receive_vote [OF shape] rt publish_replayed_votes_def replay nd_return_def finalize_if_ready_def take_finalized_def
        on_rpc_def cert q append_certificate_def finality_append_def append_result_def advance)
qed

section \<open>Properties\<close>

text \<open>
  C1: agreement of nodes. Let the validators in \<open>H\<close> run the node program, each with its own ledger, files,
  configuration and inputs, from one start up to any point of its event loop and possibly ended by an error there, with the
  configured validators in force (no restart, no replacement of the bootstrap validators); let the other
  validators have at most a third of the voting power; and let a precommit in one of two certificates that
  carries the identity of a validator in \<open>H\<close> be a vote its program has published. Then two certificates that verify
  for one height certify the same block.
\<close>
theorem node_agreement:
  assumes nodes: "\<forall>v \<in> H. node_loop X (N v) (origin v) vs (s v) \<and> node_step X (N v) (I v) (ev v) (s v) = (s' v, r v)"
    and unforgeable: "\<forall>m \<in> set (fc_precommits c) \<union> set (fc_precommits d). msg_validator_id m \<in> H \<longrightarrow>
      (\<exists>m' \<in> published (s' (msg_validator_id m)). msg_height m' = msg_height m \<and> msg_round m' = msg_round m \<and>
         msg_vote_type m' = msg_vote_type m \<and> msg_block_hash m' = msg_block_hash m)"
    and faulty: "3 * sum (voter_power vs) (fmdom' (validator_powers vs) - H) \<le> powers_sum vs"
    and len: "length vs < 2 ^ 60"
    and c: "certificate_verify X c vs = Ok ()" and d: "certificate_verify X d vs = Ok ()"
    and height: "blk_height (fc_block c) = blk_height (fc_block d)"
  shows "blk_hash (fc_block c) = blk_hash (fc_block d)"
proof -
  have "\<forall>v \<in> H. \<exists>rt sg. node_run X (origin v) vs rt sg \<and> published (s' v) \<subseteq> set sg"
    using nodes node_step_sent unfolding sent_ok_def by blast
  then obtain rt sg where run: "\<forall>v \<in> H. node_run X (origin v) vs (rt v) (sg v)"
    and sub: "\<And>v. v \<in> H \<Longrightarrow> published (s' v) \<subseteq> set (sg v)" by metis
  have "\<forall>m \<in> set (fc_precommits c) \<union> set (fc_precommits d). msg_validator_id m \<in> H \<longrightarrow>
      (\<exists>m' \<in> set (sg (msg_validator_id m)). msg_height m' = msg_height m \<and> msg_round m' = msg_round m \<and>
         msg_vote_type m' = msg_vote_type m \<and> msg_block_hash m' = msg_block_hash m)"
    using unforgeable sub by (meson subsetD)
  from certified_agreement [OF run this faulty len c d height] show ?thesis .
qed

theorem node_agreement_witness:
  "\<exists>s'. node_step permissive_externals sample_node_config sample_input
       (NetworkEvent (Some (ProposalReceived ''p'' (sample_proposal sample_block)))) sample_node = (s', Ok Go) \<and>
     sample_vote Precommit \<in> published s' \<and>
     blk_hash (fc_block sample_certificate) = blk_hash (fc_block sample_certificate)"
proof -
  obtain s' where s': "node_step permissive_externals sample_node_config sample_input
       (NetworkEvent (Some (ProposalReceived ''p'' (sample_proposal sample_block)))) sample_node = (s', Ok Go)"
    "sample_vote Precommit \<in> published s'"
    using sample_node_step by (auto simp: published_def)
  have "blk_hash (fc_block sample_certificate) = blk_hash (fc_block sample_certificate)"
  proof (rule node_agreement [where H = "{''val''}" and X = permissive_externals and vs = sample_vs and s' = "\<lambda>_. s'"])
    show "\<forall>v \<in> {''val''}. node_loop permissive_externals sample_node_config sample_chain sample_vs sample_node \<and>
        node_step permissive_externals sample_node_config sample_input
          (NetworkEvent (Some (ProposalReceived ''p'' (sample_proposal sample_block)))) sample_node = (s', Ok Go)"
      using sample_node_loop s'(1) by blast
    show "\<forall>m \<in> set (fc_precommits sample_certificate) \<union> set (fc_precommits sample_certificate). msg_validator_id m \<in> {''val''} \<longrightarrow>
      (\<exists>m' \<in> published s'. msg_height m' = msg_height m \<and> msg_round m' = msg_round m \<and>
         msg_vote_type m' = msg_vote_type m \<and> msg_block_hash m' = msg_block_hash m)"
      using s'(2) by (auto simp: sample_certificate_def)
    show "3 * sum (voter_power sample_vs) (fmdom' (validator_powers sample_vs) - {''val''}) \<le> powers_sum sample_vs"
      by (simp add: sample_vs_def validator_powers_def collect_map_def)
  qed (use sample_certificate_ok in \<open>simp_all add: sample_vs_def\<close>)
  with s' show ?thesis by blast
qed

text \<open>
  C2: the server's ledger is certified. At every point between two events of a run from one start with the configured
  validators in force the ledger the RPC server answers
  from is the ledger of the consensus driver: it is the ledger the program started with, extended by blocks each of
  which has a stored finality certificate that verifies, it was grown from genesis when the first one was, and
  no finalized block is waiting.
\<close>
theorem node_ledger_certified:
  assumes "node_loop X N c0 vs s"
  shows "rs_chain (nd_rpc s) = rt_chain (nd_consensus s) \<and> rt_pending_finalized (nd_consensus s) = [] \<and>
    (\<exists>certs. blocks (rs_chain (nd_rpc s)) = blocks c0 @ map fc_block certs \<and> set certs \<subseteq> set (rt_finalized (nd_consensus s)) \<and>
       (\<forall>c \<in> set certs. certificate_verify X c vs = Ok ())) \<and>
    (grown X c0 \<longrightarrow> grown X (rs_chain (nd_rpc s)))"
proof -
  obtain sg where run: "node_run X c0 vs (nd_consensus s) sg"
    using node_loop_state [OF assms] unfolding voted_def by blast
  show ?thesis using node_loop_state [OF assms] node_run_chain_ok [OF run]
    unfolding chain_ok_def settled_def by (metis subsetD)
qed

theorem node_ledger_certified_witness:
  "\<exists>s. node_loop permissive_externals sample_node_config sample_chain sample_vs s \<and> rs_chain (nd_rpc s) = sample_chain1 \<and>
     rt_chain (nd_consensus s) = sample_chain1 \<and> grown permissive_externals (rs_chain (nd_rpc s))"
proof -
  obtain s where "node_step permissive_externals sample_node_config sample_input
       (NetworkEvent (Some (ProposalReceived ''p'' (sample_proposal sample_block)))) sample_node = (s, Ok Go)"
    "nd_validators s = sample_vs" and s: "rs_chain (nd_rpc s) = sample_chain1"
    using sample_node_step by blast
  then have "node_loop permissive_externals sample_node_config sample_chain sample_vs s"
    using node_loop.step [OF sample_node_loop] by blast
  with node_ledger_certified [OF this] s sample_grown show ?thesis by metis
qed

subsection \<open>What a peer can do\<close>

lemma inbox_push_seen:
  assumes "inbox_ok b acc" and "inbox_push X e now b = (b', Ok ())"
  shows "ce_id e |\<in>| ci_seen b'"
proof -
  have ok: "inbox_ok b' (acc @ [ce_id e])" using assms by (rule inbox_push_ok)
  then have "ce_id e \<in> set (ci_seen_order b')" by (auto simp: inbox_ok_def MAX_SEEN_SIGNAL_IDS_def)
  with ok show ?thesis by (simp add: inbox_ok_def)
qed

lemma direct_message_valid:
  assumes "validate_direct_communication X E peer e = Ok ()"
  obtains now where "ne_clock E = Some now" and "envelope_validate X e now = Ok ()"
  using assms by (auto simp: validate_direct_communication_def result_simps ok_or_def split: option.splits)

text \<open>
  C38: what a peer can do to stop a node. A message for a call that the network task has checked is accepted by the
  inbox once; the network task does not remember it, so the same message sent again passes its checks again,
  and the inbox then answers with an error that ends the program. Evidence of a double vote that names a
  registered validator and does not verify ends it at once.
\<close>
theorem peer_stops_node:
  assumes inbox: "inbox_ok (rs_inbox (nd_rpc s)) acc" and new: "ce_id e |\<notin>| ci_seen (rs_inbox (nd_rpc s))"
    and direct: "validate_direct_communication X E peer e = Ok ()" and clock: "ne_clock E = Some (unix_timestamp I)"
    and sent: "ne_response_sent E" and allowed: "guard_check (ne_now E) peer (ns_guard st) = (g, Allow)"
    and evidence: "evidence_verify X d = Err err" "list_ex (\<lambda>v. val_id v = msg_validator_id (de_first d)) (nd_validators s)"
  shows "(\<exists>st'. handle_communication X E peer e st = send_event E (CommunicationReceived peer e) st') \<and>
    (\<exists>s1. node_step X N I (NetworkEvent (Some (CommunicationReceived peer e))) s = (s1, Ok Go) \<and>
       node_step X N I (NetworkEvent (Some (CommunicationReceived peer e))) s1 = (s1, Err (NodeRpc (HandleCommunication AlreadySeen)))) \<and>
    node_step X N I (NetworkEvent (Some (EvidenceReceived source d))) s = (s, Err (NodeStore (StoreVerify err)))"
proof (intro conjI)
  show "\<exists>st'. handle_communication X E peer e st = send_event E (CommunicationReceived peer e) st'"
    using direct sent allowed by (auto simp: handle_communication_def Let_def is_ok_iff)
  have valid: "envelope_validate X e (unix_timestamp I) = Ok ()" using direct clock by (auto elim: direct_message_valid)
  obtain b where b: "inbox_push X e (unix_timestamp I) (rs_inbox (nd_rpc s)) = (b, Ok ())"
    using valid new by (simp add: inbox_push_eq)
  have "inbox_push X e (unix_timestamp I) b = (b, Err AlreadySeen)"
    using inbox_push_seen [OF inbox b] valid by (simp add: inbox_push_def)
  with b show "\<exists>s1. node_step X N I (NetworkEvent (Some (CommunicationReceived peer e))) s = (s1, Ok Go) \<and>
       node_step X N I (NetworkEvent (Some (CommunicationReceived peer e))) s1 = (s1, Err (NodeRpc (HandleCommunication AlreadySeen)))"
    by (simp add: on_communication_def nd_bind_def on_rpc_def receive_communication_def nd_return_def)
  show "node_step X N I (NetworkEvent (Some (EvidenceReceived source d))) s = (s, Err (NodeStore (StoreVerify err)))"
    using evidence by (simp add: on_evidence_def nd_bind_def append_evidence_def evidence_append_def)
qed

theorem peer_stops_node_witness:
  "\<exists>s1. node_step permissive_externals sample_node_config (sample_input\<lparr>ni_clock := Some 100\<rparr>)
      (NetworkEvent (Some (CommunicationReceived ''p'' (sample_envelope\<lparr>ce_sender_peer_id := ''p''\<rparr>)))) s1 =
    (s1, Err (NodeRpc (HandleCommunication AlreadySeen)))"
proof -
  let ?e = "sample_envelope\<lparr>ce_sender_peer_id := ''p''\<rparr>" and ?E = "sample_network_env ''t'' 0"
  let ?I = "sample_input\<lparr>ni_clock := Some 100\<rparr>"
  have inbox: "inbox_ok (rs_inbox (nd_rpc sample_node)) []" "ce_id ?e |\<notin>| ci_seen (rs_inbox (nd_rpc sample_node))"
    by (simp_all add: sample_node_def sample_rpc_def inbox_ok_def inbox_default_def windows_distinct_def)
  have direct: "validate_direct_communication permissive_externals ?E ''p'' ?e = Ok ()"
    by (simp add: validate_direct_communication_def sample_network_env_def ok_or_def envelope_validate_def sample_envelope_def
        is_safe_id_def is_ascii_alphanumeric_def is_ascii_digit_def less_eq_char_def MAX_SIGNAL_TTL_SECONDS_def
        MAX_ENCRYPTED_SIGNAL_BYTES_def permissive_externals_def saturating_sub_def)
  have E: "ne_clock ?E = Some (unix_timestamp ?I)" "ne_response_sent ?E"
    by (simp_all add: sample_network_env_def unix_timestamp_def)
  obtain g where g: "guard_check (ne_now ?E) ''p'' (ns_guard sample_network) = (g, Allow)"
    by (simp add: guard_check_def sample_network_def guard_new_def)
  let ?d = "\<lparr>de_first = sample_vote Prevote, de_second = sample_vote Prevote\<rparr>"
  have "list_ex (\<lambda>v. val_id v = msg_validator_id (de_first ?d)) (nd_validators sample_node)"
    by (simp add: sample_node_def sample_vs_def sample_vote_def)
  moreover obtain err where "evidence_verify permissive_externals ?d = Err err"
    by (cases "vote_verify permissive_externals (sample_vote Prevote)") (auto simp: evidence_verify_def)
  ultimately show ?thesis using peer_stops_node [OF inbox direct E g] by blast
qed

text \<open>
  C39: transactions of peers are not verified. A transaction received by gossip goes into the pool without a check of
  its signature, whatever sender it names; every block that contains it is rejected, and a proposer puts what is in
  its pool into its block.
\<close>
theorem gossip_transaction_unverified:
  assumes "verify_transaction X tx = Err err" and "pool_ok X (rs_pool (nd_rpc s))" and "add X tx (rs_pool (nd_rpc s)) = Ok p"
  shows "node_step X N I (NetworkEvent (Some (TransactionReceived source tx))) s = (s\<lparr>nd_rpc := (nd_rpc s)\<lparr>rs_pool := p\<rparr>\<rparr>, Ok Go) \<and>
    tx \<in> set (mp_transactions p) \<and> (\<forall>c b. tx \<in> set (blk_transactions b) \<longrightarrow> (\<exists>e. apply_block X c b = (c, Err e)))"
proof (intro conjI allI impI)
  show "node_step X N I (NetworkEvent (Some (TransactionReceived source tx))) s = (s\<lparr>nd_rpc := (nd_rpc s)\<lparr>rs_pool := p\<rparr>\<rparr>, Ok Go)"
    using assms(3) by (simp add: on_transaction_def nd_bind_def set_rpc_def restore_transactions_def nd_return_def)
  show "tx \<in> set (mp_transactions p)" using pool_ok_add [OF assms(2,3)] by blast
  fix c :: blockchain and b :: block assume "tx \<in> set (blk_transactions b)"
  with assms(1) show "\<exists>e. apply_block X c b = (c, Err e)" by (rule unsigned_block_fails)
qed

definition unsigned_transaction :: transaction where
  "unsigned_transaction = \<lparr>tx_from = ''victim'', tx_to = ''0x01'', tx_amount = 1, tx_fee = 1, tx_nonce = 0, tx_signature = []\<rparr>"

theorem gossip_transaction_unverified_witness:
  "\<exists>s'. node_step sample_externals sample_node_config sample_input (NetworkEvent (Some (TransactionReceived ''p'' unsigned_transaction)))
      (sample_node\<lparr>nd_rpc := sample_rpc sample_externals\<rparr>) = (s', Ok Go) \<and>
    unsigned_transaction \<in> set (mp_transactions (rs_pool (nd_rpc s')))"
proof -
  let ?s = "sample_node\<lparr>nd_rpc := sample_rpc sample_externals\<rparr>"
  obtain err where err: "verify_transaction sample_externals unsigned_transaction = Err err"
    by (simp add: verify_transaction_def unsigned_transaction_def starts_with_def verify_signature_def sample_externals_def hex_value_def is_ascii_digit_def less_eq_char_def ok_or_def)
  obtain p where p: "add sample_externals unsigned_transaction (rs_pool (nd_rpc ?s)) = Ok p"
    using default_pool_add [of sample_externals unsigned_transaction]
    by (auto simp: sample_rpc_def sample_externals_def DEFAULT_MAX_BYTES_def unsigned_transaction_def signing_bytes_def push_text_def str_bytes_def)
  have "pool_ok sample_externals (rs_pool (nd_rpc ?s))" using sample_rpc_ok(3) by simp
  from gossip_transaction_unverified [OF err this p, of sample_node_config sample_input "''p''"] show ?thesis by auto
qed

text \<open>
  C40: the validator set before the first block is taken from gossip. On a node whose ledger has only the genesis block
  and that holds no proposal, a verified registration that brings the number of registrations to four or more replaces
  the configured validators, in the running consensus and on disk, by the four registered identities that are
  smallest as text, each with voting power 100: whoever registers four identities of its own choice that are
  smaller than the configured ones takes the network over.
\<close>
theorem bootstrap_takeover:
  assumes verified: "verify_validator_registration X N r = Ok ()" and server: "\<not> nf_is_client N"
    and tip: "tip_height (rt_chain (nd_consensus s)) = 0" and idle: "rt_pending (nd_consensus s) = None"
    and regs: "regs = fmupd (vr_validator_id r) r (nd_registrations s)" and four: "fcard (fmdom regs) \<ge> 4"
    and other: "sort (map val_id (nd_validators s)) \<noteq> take 4 (sorted_list_of_fset (fmdom regs))" and saved: "ni_save_validators I"
  shows "\<exists>s'. node_step X N I (NetworkEvent (Some (ValidatorRegistrationReceived source r))) s = (s', Ok Go) \<and>
    rt_validators (nd_consensus s') = selected_validators regs \<and> nd_validators s' = selected_validators regs \<and>
    nd_validators_file s' = selected_validators regs \<and> length (nd_validators s') = 4 \<and>
    (\<forall>v \<in> set (nd_validators s'). val_voting_power v = 100 \<and> val_id v |\<in>| fmdom regs \<and>
       (\<forall>i. i |\<in>| fmdom regs \<and> i \<notin> set (map val_id (nd_validators s')) \<longrightarrow> val_id v < i))"
proof -
  let ?ids = "sorted_list_of_fset (fmdom regs)" and ?vs = "selected_validators regs"
  have ids: "map val_id ?vs = take 4 ?ids" by (simp add: selected_validators_def comp_def)
  have len: "length ?ids = fcard (fmdom regs)" by (simp add: sorted_list_of_fset.rep_eq fcard.rep_eq)
  have dist: "distinct ?ids" "sorted ?ids" "set ?ids = fset (fmdom regs)" by (simp_all add: sorted_list_of_fset.rep_eq)
  have valid: "set_valid ?vs"
    using four len dist(1) ids by (auto simp: set_valid_def selected_validators_def comp_def)
  obtain b where "bft_new ?vs = Ok b" using bft_new_valid [OF valid] by blast
  moreover from this have "bft_height b = 0" "bft_round b = 0" by (auto simp: bft_new_def result_simps split: if_splits)
  then obtain b' where "start_round 1 0 b = Ok b'" by (simp add: start_round_def Let_def)
  ultimately obtain rt where rt: "replace_bootstrap_validators (ni_now I) ?vs (nd_consensus s) = Ok rt" "rt_validators rt = ?vs"
    using tip idle by (auto simp: replace_bootstrap_validators_def reset_deadline_def result_simps)
  have order: "v < i" if "v \<in> set (take 4 ?ids)" "i |\<in>| fmdom regs" "i \<notin> set (take 4 ?ids)" for v i
  proof -
    have "i \<in> set (drop 4 ?ids)" using that(2,3) dist(3) by (metis Un_iff append_take_drop_id set_append)
    then have "v \<le> i" using that(1) dist(2) sorted_append [of "take 4 ?ids" "drop 4 ?ids"] by simp
    then show ?thesis using that(1,3) by (metis order_le_less)
  qed
  let ?s1 = "s\<lparr>nd_registrations := regs\<rparr>"
  let ?s' = "s\<lparr>nd_registrations := regs, nd_consensus := rt, nd_validators_file := ?vs, nd_validators := ?vs,
      nd_local_is_validator := list_ex (\<lambda>v. val_id v = nf_local_address N) ?vs\<rparr>"
  have "adopt_validators N I ?vs ?s1 = (?s', Ok ())"
    using rt(1) saved by (simp add: adopt_validators_def nd_bind_def)
  then have step: "node_step X N I (NetworkEvent (Some (ValidatorRegistrationReceived source r))) s = (?s', Ok Go)"
    using server verified tip four other unfolding ids [symmetric]
    by (simp add: on_validator_registration_def is_ok_iff Let_def regs [symmetric] nd_bind_def nd_return_def)
  have v: "val_voting_power v = 100 \<and> val_id v \<in> set (take 4 ?ids)" if "v \<in> set ?vs" for v
    using that by (auto simp: selected_validators_def)
  have "length ?vs = 4" using ids len four by (metis length_map length_take min_absorb2)
  moreover have "val_id v |\<in>| fmdom regs" if "v \<in> set ?vs" for v using v [OF that] dist(3) by (metis in_set_takeD)
  ultimately show ?thesis
    using step rt(2) v order ids by (intro exI [of _ ?s']) simp
qed

definition sample_registration :: "string \<Rightarrow> validator_registration" where
  "sample_registration name = \<lparr>vr_validator_id = name, vr_peer_id = ''n'', vr_signature_hex = ''ss''\<rparr>"

theorem bootstrap_takeover_witness:
  "\<exists>s s'. node_step permissive_externals sample_node_config sample_input
      (NetworkEvent (Some (ValidatorRegistrationReceived ''p'' (sample_registration ''d'')))) s = (s', Ok Go) \<and>
    map val_id (nd_validators (s :: db_view node_state)) = [''val''] \<and> map val_id (nd_validators s') = [''a'', ''b'', ''c'', ''d'']"
proof -
  let ?old = "fold (\<lambda>i. fmupd i (sample_registration i)) [''a'', ''b'', ''c''] fmempty"
  let ?s = "sample_node\<lparr>nd_registrations := ?old\<rparr>" and ?r = "sample_registration ''d''"
  let ?regs = "fmupd (vr_validator_id ?r) ?r (nd_registrations ?s)"
  have dom: "fmdom ?regs = {|''a'', ''b'', ''c'', ''d''|}" by (auto simp: sample_registration_def)
  then have ids: "sorted_list_of_fset (fmdom ?regs) = [''a'', ''b'', ''c'', ''d'']" and card: "fcard (fmdom ?regs) = 4"
    by (simp_all add: sorted_list_of_fset.rep_eq fcard.rep_eq)
  have verified: "verify_validator_registration permissive_externals sample_node_config ?r = Ok ()"
    by (simp add: verify_validator_registration_def sample_node_config_def verify_signature_def sample_registration_def permissive_externals_def)
  have tip: "tip_height (rt_chain (nd_consensus ?s)) = 0" "rt_pending (nd_consensus ?s) = None"
    by (simp_all add: sample_node_def sample_runtime_def tip_height_def last_block_def)
  have vs: "map val_id (nd_validators ?s) = [''val'']" by (simp add: sample_node_def sample_vs_def)
  have other: "sort (map val_id (nd_validators ?s)) \<noteq> take 4 (sorted_list_of_fset (fmdom ?regs))" unfolding ids vs by simp
  have conf: "\<not> nf_is_client sample_node_config" "ni_save_validators sample_input"
    by (simp_all add: sample_node_config_def sample_input_def)
  obtain s' where s': "node_step permissive_externals sample_node_config sample_input
      (NetworkEvent (Some (ValidatorRegistrationReceived ''p'' ?r))) ?s = (s', Ok Go)" "nd_validators s' = selected_validators ?regs"
    using bootstrap_takeover [OF verified conf(1) tip HOL.refl eq_imp_le [OF card [symmetric]] other conf(2), of "''p''"] by blast
  have "map val_id (nd_validators s') = [''a'', ''b'', ''c'', ''d'']" unfolding s'(2) selected_validators_def ids by simp
  from conjI [OF s'(1) conjI [OF vs this]] show ?thesis by (intro exI)
qed

end
