(* ===== verification/File_Tree.thy ===== *)
theory File_Tree
  imports Prelude "HOL-Library.Sublist"
begin

text \<open>
  A tree of files and folders under the working directory, and the file operations of the standard library the
  program calls on it. A path is the list of its components; the empty path, as the parent of a path with one component, is the working
  directory. Every
  operation may fail; a disk says for each operation by its number whether it fails, and how much of an interrupted
  write reaches the file. Permissions and links are left out, and asking whether a path exists never fails.

  The lemmas state which files an operation keeps, whether it succeeds or not: \<open>keeps_tree\<close> for the operations
  that only add, and \<open>fmlookup_move\<close> for the one that moves.
\<close>

type_synonym path = "string list"

datatype file_node = Folder | File string

type_synonym file_tree = "(path, file_node) fmap"

record disk =
  dk_tree :: file_tree
  dk_count :: nat
  dk_fails :: "nat \<Rightarrow> bool"
  dk_torn :: "nat \<Rightarrow> nat"

type_synonym ('a, 'e) disk_op = "disk \<Rightarrow> disk \<times> ('a, 'e) result"

definition dk_return :: "'a \<Rightarrow> ('a, 'e) disk_op" where
  "dk_return x d = (d, Ok x)"

definition dk_result :: "('a, 'e) result \<Rightarrow> ('a, 'e) disk_op" where
  "dk_result r d = (d, r)"

definition dk_bind :: "('a, 'e) disk_op \<Rightarrow> ('a \<Rightarrow> ('b, 'e) disk_op) \<Rightarrow> ('b, 'e) disk_op" where
  "dk_bind m f d = (case m d of (d1, Inl e) \<Rightarrow> (d1, Err e) | (d1, Inr x) \<Rightarrow> f x d1)"

text \<open>Continue with the outcome, whatever it is.\<close>

definition dk_try :: "('a, 'e) disk_op \<Rightarrow> (('a, 'e) result \<Rightarrow> ('b, 'f) disk_op) \<Rightarrow> ('b, 'f) disk_op" where
  "dk_try m f d = (case m d of (d1, r) \<Rightarrow> f r d1)"

definition dk_map_err :: "('e \<Rightarrow> 'f) \<Rightarrow> ('a, 'e) disk_op \<Rightarrow> ('a, 'f) disk_op" where
  "dk_map_err f m d = (case m d of (d1, r) \<Rightarrow> (d1, map_err f r))"

definition path_exists :: "file_tree \<Rightarrow> path \<Rightarrow> bool" where
  "path_exists t p \<longleftrightarrow> p |\<in>| fmdom t"

definition is_folder :: "file_tree \<Rightarrow> path \<Rightarrow> bool" where
  "is_folder t p \<longleftrightarrow> p = [] \<or> fmlookup t p = Some Folder"

definition has_entries :: "file_tree \<Rightarrow> path \<Rightarrow> bool" where
  "has_entries t p \<longleftrightarrow> fBex (fmdom t) (\<lambda>q. q \<noteq> [] \<and> butlast q = p)"

text \<open>One operation: what it does to the tree, if it can, and what it leaves behind when it is interrupted.\<close>

definition disk_call :: "(file_tree \<Rightarrow> file_tree option) \<Rightarrow> (nat \<Rightarrow> file_tree \<Rightarrow> file_tree) \<Rightarrow> 'e \<Rightarrow> (unit, 'e) disk_op" where
  "disk_call f interrupted e d =
     (let i = dk_count d; d1 = d\<lparr>dk_count := i + 1\<rparr> in
      if dk_fails d i then (d1\<lparr>dk_tree := interrupted (dk_torn d i) (dk_tree d)\<rparr>, Err e)
      else case f (dk_tree d) of None \<Rightarrow> (d1, Err e) | Some t \<Rightarrow> (d1\<lparr>dk_tree := t\<rparr>, Ok ()))"

fun make_folders :: "path \<Rightarrow> path \<Rightarrow> file_tree \<Rightarrow> file_tree option" where
  "make_folders base [] t = Some t"
| "make_folders base (n # ns) t =
     (case fmlookup t (base @ [n]) of
        Some (File _) \<Rightarrow> None
      | _ \<Rightarrow> make_folders (base @ [n]) ns (fmupd (base @ [n]) Folder t))"

definition create_dir_all :: "'e \<Rightarrow> path \<Rightarrow> (unit, 'e) disk_op" where
  "create_dir_all e p =
     disk_call (make_folders [] p) (\<lambda>n t. case make_folders [] (take n p) t of Some t1 \<Rightarrow> t1 | None \<Rightarrow> t) e"

definition create_new :: "'e \<Rightarrow> path \<Rightarrow> string \<Rightarrow> (unit, 'e) disk_op" where
  "create_new e p contents =
     dk_bind (disk_call (\<lambda>t. if path_exists t p \<or> \<not> is_folder t (butlast p) then None else Some (fmupd p (File []) t)) (\<lambda>_ t. t) e) (\<lambda>_.
     disk_call (\<lambda>t. Some (fmupd p (File contents) t)) (\<lambda>n t. fmupd p (File (take n contents)) t) e)"

text \<open>\<open>fs::write\<close>: the file is created or emptied, then written.\<close>

definition write_file :: "'e \<Rightarrow> path \<Rightarrow> string \<Rightarrow> (unit, 'e) disk_op" where
  "write_file e p contents =
     disk_call (\<lambda>t. if is_folder t (butlast p) \<and> fmlookup t p \<noteq> Some Folder then Some (fmupd p (File contents) t) else None)
       (\<lambda>n t. if n = 0 \<or> \<not> is_folder t (butlast p) \<or> fmlookup t p = Some Folder then t else fmupd p (File (take (n - 1) contents)) t) e"

definition read_file :: "'e \<Rightarrow> path \<Rightarrow> (string, 'e) disk_op" where
  "read_file e p =
     dk_bind (disk_call Some (\<lambda>_ t. t) e) (\<lambda>_ d.
     (d, case fmlookup (dk_tree d) p of Some (File contents) \<Rightarrow> Ok contents | _ \<Rightarrow> Err e))"

text \<open>\<open>fs::remove_file\<close>, and a line added at the end of a file that is created when it is missing.\<close>

definition remove_file :: "'e \<Rightarrow> path \<Rightarrow> (unit, 'e) disk_op" where
  "remove_file e p =
     disk_call (\<lambda>t. case fmlookup t p of Some (File _) \<Rightarrow> Some (fmdrop p t) | _ \<Rightarrow> None) (\<lambda>_ t. t) e"

definition file_text :: "file_tree \<Rightarrow> path \<Rightarrow> string" where
  "file_text t p = (case fmlookup t p of Some (File c) \<Rightarrow> c | _ \<Rightarrow> [])"

definition append_text :: "'e \<Rightarrow> path \<Rightarrow> string \<Rightarrow> (unit, 'e) disk_op" where
  "append_text e p contents =
     disk_call (\<lambda>t. if is_folder t (butlast p) \<and> fmlookup t p \<noteq> Some Folder then Some (fmupd p (File (file_text t p @ contents)) t) else None)
       (\<lambda>n t. if n = 0 \<or> \<not> is_folder t (butlast p) \<or> fmlookup t p = Some Folder then t
              else fmupd p (File (file_text t p @ take (n - 1) contents)) t) e"

text \<open>
  \<open>rename\<close>: the file or folder with everything below it. An existing file is replaced by a file and an empty folder by
  a folder.
\<close>

definition moved :: "path \<Rightarrow> path \<Rightarrow> file_tree \<Rightarrow> file_tree" where
  "moved src dst t =
     fmap_of_list (map (\<lambda>p. (dst @ drop (length src) p, the (fmlookup t p)))
       (filter (prefix src) (sorted_list_of_fset (fmdom t))))"

definition move :: "path \<Rightarrow> path \<Rightarrow> file_tree \<Rightarrow> file_tree" where
  "move src dst t = fmfilter (\<lambda>p. \<not> prefix src p \<and> \<not> prefix dst p) t ++\<^sub>f moved src dst t"

definition can_move :: "path \<Rightarrow> path \<Rightarrow> file_tree \<Rightarrow> bool" where
  "can_move src dst t \<longleftrightarrow> src \<noteq> [] \<and> dst \<noteq> [] \<and> path_exists t src \<and> \<not> prefix src dst \<and> is_folder t (butlast dst) \<and>
     (\<not> path_exists t dst \<or> (\<not> is_folder t dst \<and> \<not> is_folder t src) \<or>
      (is_folder t dst \<and> is_folder t src \<and> \<not> has_entries t dst))"

definition rename_path :: "'e \<Rightarrow> path \<Rightarrow> path \<Rightarrow> (unit, 'e) disk_op" where
  "rename_path e src dst =
     disk_call (\<lambda>t. if can_move src dst t then Some (move src dst t) else None) (\<lambda>_ t. t) e"

subsection \<open>Lemmas: what an operation does\<close>

lemma dk_bind_cases:
  "dk_bind m f d = (d', r) \<longleftrightarrow>
     (\<exists>d1 e. m d = (d1, Err e) \<and> d' = d1 \<and> r = Err e) \<or> (\<exists>d1 x. m d = (d1, Ok x) \<and> f x d1 = (d', r))"
  by (auto simp: dk_bind_def split: prod.splits sum.splits)

lemma dk_bind_Ok: "dk_bind m f d = (d', Ok y) \<longleftrightarrow> (\<exists>d1 x. m d = (d1, Ok x) \<and> f x d1 = (d', Ok y))"
  by (auto simp: dk_bind_def split: prod.splits sum.splits)

lemma make_folders_lookup:
  "make_folders base ns t = Some t' \<Longrightarrow>
     fmlookup t' p = (if strict_prefix base p \<and> prefix p (base @ ns) then Some Folder else fmlookup t p)"
proof (induction base ns t rule: make_folders.induct)
  case (2 base n ns t)
  have between: "strict_prefix base p \<and> prefix p (base @ n # ns) \<longleftrightarrow>
      p = base @ [n] \<or> strict_prefix (base @ [n]) p \<and> prefix p ((base @ [n]) @ ns)"
  proof (cases "prefix base p")
    case True
    then obtain r where p: "p = base @ r" by (auto simp: prefix_def)
    then show ?thesis by (cases r) (auto simp: strict_prefix_def)
  next
    case False
    then show ?thesis by (auto simp: strict_prefix_def dest: append_prefixD)
  qed
  from 2(3) have "make_folders (base @ [n]) ns (fmupd (base @ [n]) Folder t) = Some t'"
    by (auto split: option.splits file_node.splits)
  moreover from this have "fmlookup t' p = (if strict_prefix (base @ [n]) p \<and> prefix p ((base @ [n]) @ ns) then Some Folder
      else fmlookup (fmupd (base @ [n]) Folder t) p)"
    using 2 by (auto split: option.splits file_node.splits)
  ultimately show ?case using between by auto
qed (auto simp: strict_prefix_def)

lemma moved_lookup:
  "fmlookup (moved src dst t) q = (if prefix dst q then fmlookup t (src @ drop (length dst) q) else None)"
proof -
  let ?ps = "filter (prefix src) (sorted_list_of_fset (fmdom t))"
  let ?f = "\<lambda>p. (dst @ drop (length src) p, the (fmlookup t p))"
  have mem: "p \<in> set ?ps \<longleftrightarrow> prefix src p \<and> p |\<in>| fmdom t" for p by (auto simp: sorted_list_of_fset.rep_eq)
  have inj: "inj_on (fst \<circ> ?f) (set ?ps)"
    unfolding inj_on_def mem by (auto simp: prefix_def)
  then have dist: "distinct (map fst (map ?f ?ps))"
    unfolding map_map by (simp add: distinct_map sorted_list_of_fset.rep_eq)
  show ?thesis
  proof (cases "prefix dst q \<and> src @ drop (length dst) q |\<in>| fmdom t")
    case True
    then obtain r n where q: "q = dst @ r" and n: "fmlookup t (src @ r) = Some n" by (auto simp: prefix_def fmlookup_dom_iff)
    then have "(q, n) \<in> set (map ?f ?ps)"
      using mem [of "src @ r"] by (force simp: fmlookup_dom_iff)
    with dist have "map_of (map ?f ?ps) q = Some n" by (rule map_of_is_SomeI)
    then show ?thesis using q n by (simp add: moved_def fmlookup_of_list)
  next
    case False
    have "q \<notin> fst ` set (map ?f ?ps)"
    proof
      assume "q \<in> fst ` set (map ?f ?ps)"
      then obtain p where "p \<in> set ?ps" "q = dst @ drop (length src) p" by auto
      with False show False by (auto simp: mem prefix_def)
    qed
    then have "map_of (map ?f ?ps) q = None" by (simp only: map_of_eq_None_iff not_False_eq_True)
    then show ?thesis using False by (auto simp: moved_def fmlookup_of_list fmdom_notD)
  qed
qed

lemma fmlookup_move:
  "fmlookup (move src dst t) q =
     (if prefix dst q then fmlookup t (src @ drop (length dst) q)
      else if prefix src q then None else fmlookup t q)"
  by (auto simp: move_def moved_lookup fmlookup_dom_iff split: option.splits)

lemma move_target: "fmlookup (move src dst t) (dst @ r) = fmlookup t (src @ r)"
  by (simp add: fmlookup_move)

lemma read_file_same: "read_file e p d = (d', r) \<Longrightarrow> dk_tree d' = dk_tree d"
  by (auto simp: read_file_def dk_bind_cases disk_call_def Let_def split: if_splits)

subsection \<open>Relations that operations respect\<close>

text \<open>
  Several proofs show that whatever an operation does, and wherever it fails, the trees before and after it are related. For a
  reflexive and transitive relation this is inherited by everything that is composed of such operations.
\<close>

definition obeys :: "(file_tree \<Rightarrow> file_tree \<Rightarrow> bool) \<Rightarrow> ('a, 'e) disk_op \<Rightarrow> bool" where
  "obeys R m \<longleftrightarrow> (\<forall>d d' r. m d = (d', r) \<longrightarrow> R (dk_tree d) (dk_tree d'))"

locale tree_relation =
  fixes R :: "file_tree \<Rightarrow> file_tree \<Rightarrow> bool"
  assumes rel_refl: "R t t" and rel_trans: "R t t' \<Longrightarrow> R t' t'' \<Longrightarrow> R t t''"
begin

lemma obeys_return: "obeys R (dk_return x)"
  by (simp add: obeys_def dk_return_def rel_refl)

lemma obeys_result: "obeys R (dk_result r)"
  by (simp add: obeys_def dk_result_def rel_refl)

lemma obeys_bind: "obeys R m \<Longrightarrow> (\<And>x. obeys R (f x)) \<Longrightarrow> obeys R (dk_bind m f)"
  unfolding obeys_def dk_bind_cases by (meson rel_trans)

lemma obeys_map_err: "obeys R m \<Longrightarrow> obeys R (dk_map_err f m)"
  unfolding obeys_def dk_map_err_def by (auto split: prod.splits)

lemma obeys_cond: "obeys R m \<Longrightarrow> obeys R n \<Longrightarrow> obeys R (\<lambda>d. if b d then m d else n d)"
  by (simp add: obeys_def)

lemma obeys_if: "obeys R m \<Longrightarrow> obeys R n \<Longrightarrow> obeys R (if b then m else n)"
  by simp

lemma obeys_same: "obeys R (\<lambda>d. (d, r d))"
  by (simp add: obeys_def rel_refl)

lemma obeys_call:
  assumes "\<And>t t'. f t = Some t' \<Longrightarrow> R t t'" and "\<And>n t. R t (g n t)"
  shows "obeys R (disk_call f g e)"
  using assms rel_refl by (auto simp: obeys_def disk_call_def Let_def split: if_splits option.splits)

lemma obeys_read: "obeys R (read_file e p)"
  by (auto simp: obeys_def rel_refl dest: read_file_same)

lemmas obeys_rules = obeys_return obeys_result obeys_bind obeys_map_err obeys_cond obeys_if obeys_same obeys_read

end

subsection \<open>Lemmas: operations that only add\<close>

definition tree_kept :: "file_tree \<Rightarrow> file_tree \<Rightarrow> bool" where
  "tree_kept t t' \<longleftrightarrow> (\<forall>p n. fmlookup t p = Some n \<longrightarrow> fmlookup t' p = Some n)"

abbreviation keeps_tree :: "('a, 'e) disk_op \<Rightarrow> bool" where
  "keeps_tree m \<equiv> obeys tree_kept m"

lemmas keeps_tree_def = obeys_def [of tree_kept]

named_theorems keeping "operations that keep every file and folder, and how they compose"

lemma tree_kept_refl [simp]: "tree_kept t t"
  by (simp add: tree_kept_def)

lemma tree_kept_trans: "tree_kept t t' \<Longrightarrow> tree_kept t' t'' \<Longrightarrow> tree_kept t t''"
  by (simp add: tree_kept_def)

interpretation kept: tree_relation tree_kept
  by unfold_locales (auto intro: tree_kept_trans)

lemmas keeps_rules [keeping] = kept.obeys_rules

lemma make_folders_kept: "make_folders base ns t = Some t' \<Longrightarrow> tree_kept t t'"
proof (induction base ns t rule: make_folders.induct)
  case (2 base n ns t)
  have "tree_kept t (fmupd (base @ [n]) Folder t)" if "\<nexists>c. fmlookup t (base @ [n]) = Some (File c)"
    using that unfolding tree_kept_def by (metis file_node.exhaust fmupd_lookup option.inject)
  with 2 show ?case by (auto split: option.splits file_node.splits intro: tree_kept_trans)
qed simp

lemma keeps_create_dir_all [keeping]: "keeps_tree (create_dir_all e p)"
  unfolding create_dir_all_def by (rule kept.obeys_call) (auto dest: make_folders_kept split: option.splits)

lemma keeps_create_new [keeping]: "keeps_tree (create_new e p c)"
  by (auto simp: keeps_tree_def create_new_def dk_bind_cases disk_call_def Let_def tree_kept_def path_exists_def fmlookup_dom_iff
      split: if_splits option.splits)

lemma read_file_Ok: "read_file e p d = (d', Ok c) \<Longrightarrow> dk_tree d' = dk_tree d \<and> fmlookup (dk_tree d) p = Some (File c)"
  by (auto simp: read_file_def dk_bind_cases disk_call_def Let_def split: if_splits option.splits file_node.splits)

subsection \<open>Lemmas: trees without loose ends\<close>

definition tree_ok :: "file_tree \<Rightarrow> bool" where
  "tree_ok t \<longleftrightarrow> (\<forall>p. path_exists t p \<longrightarrow> p \<noteq> [] \<and> is_folder t (butlast p))"

definition unused :: "file_tree \<Rightarrow> path \<Rightarrow> bool" where
  "unused t p \<longleftrightarrow> (\<forall>q. prefix p q \<longrightarrow> \<not> path_exists t q)"

lemma path_exists_lookup: "path_exists t p \<longleftrightarrow> (\<exists>n. fmlookup t p = Some n)"
  by (simp add: path_exists_def fmlookup_dom_iff)

lemma tree_ok_ancestor: "tree_ok t \<Longrightarrow> path_exists t (p @ r) \<Longrightarrow> p \<noteq> [] \<Longrightarrow> path_exists t p"
proof (induction r rule: rev_induct)
  case (snoc n r)
  then have "is_folder t (p @ r)" unfolding tree_ok_def by (metis append_assoc butlast_snoc)
  with snoc show ?case by (simp add: is_folder_def path_exists_lookup)
qed simp

lemma tree_ok_unused: "tree_ok t \<Longrightarrow> p \<noteq> [] \<Longrightarrow> \<not> path_exists t p \<Longrightarrow> unused t p"
  using tree_ok_ancestor unfolding unused_def prefix_def by blast

lemma tree_ok_file:
  assumes "tree_ok t" and "fmlookup t p = Some (File c)" and "strict_prefix p q"
  shows "\<not> path_exists t q"
proof
  assume "path_exists t q"
  obtain r' where "q = p @ r'" "r' \<noteq> []" using assms(3) by (auto simp: strict_prefix_def prefix_def)
  then obtain n r where q: "q = (p @ [n]) @ r" by (cases r') auto
  with assms(1) \<open>path_exists t q\<close> have "path_exists t (p @ [n])" using tree_ok_ancestor by blast
  with assms(1) have "is_folder t p" unfolding tree_ok_def by (metis butlast_snoc)
  with assms(1,2) show False unfolding is_folder_def tree_ok_def path_exists_lookup by auto
qed

lemma make_folders_root: "make_folders [] ns t = Some t' \<Longrightarrow>
    fmlookup t' p = (if p \<noteq> [] \<and> prefix p ns then Some Folder else fmlookup t p)"
  using make_folders_lookup [of "[]" ns t t' p] by (auto simp: strict_prefix_def)

lemma prefix_butlast: "prefix p q \<Longrightarrow> prefix (butlast p) q"
  by (metis prefix_order.dual_order.trans prefixeq_butlast)

lemma tree_ok_make_folders:
  assumes "make_folders [] ns t = Some t'" and "tree_ok t"
  shows "tree_ok t'"
  unfolding tree_ok_def
proof (intro allI impI)
  fix p assume "path_exists t' p"
  then consider "p \<noteq> []" "prefix p ns" | "path_exists t p" "p \<noteq> []"
    using make_folders_root [OF assms(1), of p] assms(2) by (auto simp: path_exists_lookup tree_ok_def split: if_splits)
  then show "p \<noteq> [] \<and> is_folder t' (butlast p)"
  proof cases
    case 1
    then show ?thesis
      using make_folders_root [OF assms(1), of "butlast p"] prefix_butlast by (auto simp: is_folder_def)
  next
    case 2
    then show ?thesis
      using make_folders_root [OF assms(1), of "butlast p"] assms(2) by (auto simp: is_folder_def tree_ok_def)
  qed
qed

lemma tree_ok_create_dir_all:
  assumes "create_dir_all e p d = (d', r)" and "tree_ok (dk_tree d)"
  shows "tree_ok (dk_tree d')"
  using assms tree_ok_make_folders
  by (auto simp: create_dir_all_def disk_call_def Let_def split: if_splits option.splits)

lemma tree_ok_move:
  assumes "tree_ok t" and "can_move src dst t"
  shows "tree_ok (move src dst t)"
  unfolding tree_ok_def
proof (intro allI impI conjI)
  fix q assume q: "path_exists (move src dst t) q"
  show "q \<noteq> []"
    using q assms by (auto simp: path_exists_lookup fmlookup_move tree_ok_def can_move_def split: if_splits)
  have parent: "fmlookup (move src dst t) (butlast dst) = fmlookup t (butlast dst)"
  proof -
    have "\<not> prefix src (butlast dst)" using assms(2) prefixeq_butlast prefix_order.trans unfolding can_move_def by blast
    moreover have "\<not> prefix dst (butlast dst)" using assms(2) unfolding can_move_def
      by (metis append_butlast_last_id not_Cons_self2 prefix_order.antisym prefixeq_butlast append_self_conv)
    ultimately show ?thesis by (simp add: fmlookup_move)
  qed
  show "is_folder (move src dst t) (butlast q)"
  proof (cases "prefix dst q")
    case True
    then obtain r where r: "q = dst @ r" by (auto simp: prefix_def)
    show ?thesis
    proof (cases "r = []")
      case True
      then show ?thesis using parent assms(2) by (simp add: r is_folder_def can_move_def)
    next
      case False
      have "path_exists t (src @ r)" using q by (simp add: path_exists_lookup r move_target)
      then have "is_folder t (src @ butlast r)" using assms(1) False unfolding tree_ok_def by (metis butlast_append)
      then show ?thesis using False assms(2) by (simp add: r butlast_append is_folder_def can_move_def move_target)
    qed
  next
    case False
    then have old: "\<not> prefix src q" "path_exists t q"
      using q by (auto simp: path_exists_lookup fmlookup_move split: if_splits)
    then have "is_folder t (butlast q)" using assms(1) unfolding tree_ok_def by blast
    moreover have "\<not> prefix dst (butlast q)" "\<not> prefix src (butlast q)"
      using False old(1) prefixeq_butlast prefix_order.trans by blast+
    ultimately show ?thesis by (simp add: is_folder_def fmlookup_move)
  qed
qed

subsection \<open>Lemmas: files that are moved\<close>

text \<open>Every file is where it was or below \<open>b\<close>.\<close>

definition saved :: "path \<Rightarrow> file_tree \<Rightarrow> file_tree \<Rightarrow> bool" where
  "saved b t t' \<longleftrightarrow> (\<forall>p c. fmlookup t p = Some (File c) \<longrightarrow> (\<exists>q. fmlookup t' q = Some (File c) \<and> (q = p \<or> prefix b q)))"

lemma saved_trans: "saved b t t' \<Longrightarrow> saved b t' t'' \<Longrightarrow> saved b t t''"
  unfolding saved_def by metis

lemma tree_kept_saved: "tree_kept t t' \<Longrightarrow> saved b t t'"
  unfolding tree_kept_def saved_def by blast

lemma move_saved:
  assumes "unused t dst" and "prefix b dst"
  shows "saved b t (move src dst t)"
  unfolding saved_def
proof (intro allI impI)
  fix p c assume p: "fmlookup t p = Some (File c)"
  show "\<exists>q. fmlookup (move src dst t) q = Some (File c) \<and> (q = p \<or> prefix b q)"
  proof (cases "prefix src p")
    case True
    then obtain r where "p = src @ r" by (auto simp: prefix_def)
    then show ?thesis using p assms(2) by (intro exI [of _ "dst @ r"]) (simp add: move_target)
  next
    case False
    have "\<not> prefix dst p" using p assms(1) unfolding unused_def path_exists_lookup by blast
    then show ?thesis using p False by (auto simp: fmlookup_move)
  qed
qed

lemma move_back:
  assumes "unused t b" and "\<not> prefix a b" and "\<not> prefix b a"
  shows "fmlookup (move b a (move a b t)) q = fmlookup t q"
proof (cases "prefix a q")
  case True
  then obtain r where "q = a @ r" by (auto simp: prefix_def)
  then show ?thesis by (simp add: move_target)
next
  case False
  have "fmlookup t q = None" if "prefix b q"
    using assms(1) that unfolding unused_def path_exists_lookup by (meson not_Some_eq)
  with False show ?thesis by (simp add: fmlookup_move)
qed

subsection \<open>Lemmas: a disk without failures\<close>

definition reliable :: "disk \<Rightarrow> bool" where
  "reliable d \<longleftrightarrow> dk_fails d = (\<lambda>_. False)"

lemma disk_call_settings: "disk_call f g e d = (d', r) \<Longrightarrow> dk_fails d' = dk_fails d \<and> dk_torn d' = dk_torn d"
  by (auto simp: disk_call_def Let_def split: if_splits option.splits)

lemma reliable_call:
  "reliable d \<Longrightarrow> disk_call f g e d =
     (case f (dk_tree d) of None \<Rightarrow> (d\<lparr>dk_count := dk_count d + 1\<rparr>, Err e)
      | Some t \<Rightarrow> (d\<lparr>dk_count := dk_count d + 1, dk_tree := t\<rparr>, Ok ()))"
  by (auto simp: disk_call_def reliable_def Let_def split: option.splits)

lemma reliable_read:
  assumes "reliable d" and "fmlookup (dk_tree d) p = Some (File c)"
  obtains d' where "read_file e p d = (d', Ok c)" and "dk_tree d' = dk_tree d" and "reliable d'"
  using assms by (simp add: read_file_def dk_bind_def reliable_call) (simp add: reliable_def)

end
