(* ===== verification/Installation.thy ===== *)
theory Installation
  imports File_Tree Keystore Genesis
begin

text \<open>
  First start and reset of a server (\<open>src/installation.rs\<close>): the key files, the marker that records which identity the
  server was initialized with, the configuration files, and the backups made before a ledger is cleaned or a new
  identity is created. Key generation, the JSON text of a validator list and the bundled genesis file are parameters.

  The lemmas show that no start ever changes a file that is there, that a server that started once starts again with
  the same identity, that a backup loses no file whichever operation fails, and that an interrupted write of the
  marker stops every later start.
\<close>

definition MARKER_NAME :: string where
  "MARKER_NAME = ''.ieum-initialized''"

datatype install_error =
    InstallIo | RequiredMissing path | LedgerWithoutKeys | MarkerField string | ValidatorKeyChanged | NodeKeyChanged
  | InstallKey keystore_error | GenesisUnreadable | InstallGenesis genesis_error | NoClock | NoBackupName
  | NotUtf8 | RollbackFailed | LedgerMissing

record install_paths =
  ip_validator_key :: path
  ip_node_key :: path
  ip_ledger :: path
  ip_validators :: path
  ip_events :: path
  ip_upgrades :: path

record 'k install_env =
  ie_seed :: bytes
  ie_node_key :: 'k
  ie_node_encode :: "'k \<Rightarrow> bytes"
  ie_node_decode :: "bytes \<Rightarrow> 'k option"
  ie_peer_id :: "'k \<Rightarrow> string"
  ie_validators_json :: "validator list \<Rightarrow> string"
  ie_genesis :: "genesis_config option"
  ie_utf8 :: "string \<Rightarrow> bool"
  ie_clock :: "u64 option"

type_synonym 'a install_op = "('a, install_error) disk_op"

definition parent_or_self :: "path \<Rightarrow> path" where
  "parent_or_self p = (if p = [] then p else butlast p)"

definition marker_path :: "path \<Rightarrow> path" where
  "marker_path ledger_dir = parent_or_self ledger_dir @ [MARKER_NAME]"

definition bytes_text :: "bytes \<Rightarrow> string" where
  "bytes_text bs = map (\<lambda>b. char_of (unat b)) bs"

subsection \<open>Files\<close>

definition require_existing :: "path \<Rightarrow> unit install_op" where
  "require_existing p d = (d, ensure (path_exists (dk_tree d) p) (RequiredMissing p))"

definition read_text :: "'k install_env \<Rightarrow> path \<Rightarrow> string install_op" where
  "read_text E p =
     dk_bind (read_file InstallIo p) (\<lambda>text. dk_result (if ie_utf8 E text then Ok text else Err NotUtf8))"

definition create_if_missing :: "path \<Rightarrow> string \<Rightarrow> unit install_op" where
  "create_if_missing p contents d =
     (if path_exists (dk_tree d) p then (d, Ok ())
      else dk_bind (if p = [] then dk_return () else create_dir_all InstallIo (butlast p)) (\<lambda>_. create_new InstallIo p contents) d)"

text \<open>A new file, in the folders it needs, with what the functions of the key stores write on an empty place.\<close>

definition write_new_file_at :: "path \<Rightarrow> string \<Rightarrow> unit install_op" where
  "write_new_file_at p contents =
     dk_bind (if butlast p = [] then dk_return () else create_dir_all InstallIo (butlast p)) (\<lambda>_. create_new InstallIo p contents)"

definition at_new_file :: "path \<Rightarrow> string option \<times> ('a, keystore_error) result \<Rightarrow> 'a install_op" where
  "at_new_file p written =
     (case written of
        (_, Inl e) \<Rightarrow> dk_result (Err (InstallKey e))
      | (None, Inr x) \<Rightarrow> dk_return x
      | (Some text, Inr x) \<Rightarrow> dk_bind (write_new_file_at p text) (\<lambda>_. dk_return x))"

definition generate_key_at :: "externals \<Rightarrow> key_externals \<Rightarrow> 'k install_env \<Rightarrow> path \<Rightarrow> address install_op" where
  "generate_key_at X K E p = at_new_file p (generate_key_file X K CreateDone (ie_seed E) None)"

definition public_key_at :: "externals \<Rightarrow> key_externals \<Rightarrow> 'k install_env \<Rightarrow> path \<Rightarrow> address install_op" where
  "public_key_at X K E p =
     dk_bind (read_text E p) (\<lambda>text. dk_result (map_err InstallKey (public_key_from_file X K (Some text))))"

definition node_key_at :: "'k install_env \<Rightarrow> path \<Rightarrow> 'k install_op" where
  "node_key_at E p d =
     (if path_exists (dk_tree d) p then
        dk_bind (read_file InstallIo p) (\<lambda>text.
        dk_result (map_err InstallKey (snd (load_or_create_node_key (ie_node_encode E) (ie_node_decode E) CreateDone (ie_node_key E)
          (Some (str_bytes text)))))) d
      else
        (case load_or_create_node_key (ie_node_encode E) (ie_node_decode E) CreateDone (ie_node_key E) None of
           (f, r) \<Rightarrow> at_new_file p (map_option bytes_text f, r) d))"

subsection \<open>The marker\<close>

definition marker_value :: "string \<Rightarrow> string \<Rightarrow> string option" where
  "marker_value contents name =
     (case List.map_filter (\<lambda>line. strip_prefix line (name @ ''='')) (split_lines [] contents) of
        [] \<Rightarrow> None | v # _ \<Rightarrow> Some v)"

definition verify_marker_identity :: "'k install_env \<Rightarrow> path \<Rightarrow> address \<Rightarrow> path \<Rightarrow> unit install_op" where
  "verify_marker_identity E marker validator_public_key node_key =
     dk_bind (read_text E marker) (\<lambda>contents.
     dk_bind (dk_result (ok_or (marker_value contents ''validator_public_key'') (MarkerField ''validator_public_key''))) (\<lambda>expected_validator.
     dk_bind (dk_result (ok_or (marker_value contents ''peer_id'') (MarkerField ''peer_id''))) (\<lambda>expected_peer.
     dk_bind (node_key_at E node_key) (\<lambda>identity.
     dk_result
       (if expected_validator \<noteq> validator_public_key then Err ValidatorKeyChanged
        else if expected_peer \<noteq> ie_peer_id E identity then Err NodeKeyChanged else Ok ())))))"

definition marker_text :: "address \<Rightarrow> string \<Rightarrow> string" where
  "marker_text validator_public_key peer_id =
     ''version=1'' @ [CHR 0x0A] @ ''validator_public_key='' @ validator_public_key @ [CHR 0x0A] @ ''peer_id='' @ peer_id @ [CHR 0x0A]"

definition write_marker :: "path \<Rightarrow> address \<Rightarrow> string \<Rightarrow> unit install_op" where
  "write_marker p validator_public_key peer_id = create_new InstallIo p (marker_text validator_public_key peer_id)"

subsection \<open>Start of a server\<close>

definition testnet_validator_seed :: "nat \<Rightarrow> bytes" where
  "testnet_validator_seed index = replicate 32 (of_nat index)"

definition prepare_validators_config ::
  "externals \<Rightarrow> key_externals \<Rightarrow> 'k install_env \<Rightarrow> path \<Rightarrow> bool \<Rightarrow> unit install_op" where
  "prepare_validators_config X K E p allow_insecure_test_keys d =
     (if path_exists (dk_tree d) p then (d, Ok ())
      else if allow_insecure_test_keys then
        at_new_file p (create_validators_config X (ie_validators_json E) CreateDone
          (map (\<lambda>index. wallet_address X (kx_wallet K (testnet_validator_seed index))) [1..<5]) 100 None) d
      else
        dk_bind (dk_result (ok_or (ie_genesis E) GenesisUnreadable)) (\<lambda>genesis.
        dk_bind (dk_result (map_err InstallGenesis (genesis_validate X genesis))) (\<lambda>_.
        at_new_file p (create_validators_config X (ie_validators_json E) CreateDone (map val_id (gen_validators genesis)) 100 None))) d)"

text \<open>A listing that fails counts as an empty folder.\<close>

definition ledger_has_data :: "path \<Rightarrow> bool install_op" where
  "ledger_has_data ledger_dir =
     dk_try (disk_call Some (\<lambda>_ t. t) InstallIo) (\<lambda>r d.
       (d, Ok (is_ok r \<and> is_folder (dk_tree d) ledger_dir \<and> has_entries (dk_tree d) ledger_dir)))"

definition resume_server :: "externals \<Rightarrow> key_externals \<Rightarrow> 'k install_env \<Rightarrow> install_paths \<Rightarrow> bool \<Rightarrow> unit install_op" where
  "resume_server X K E P allow_insecure_test_keys =
     dk_bind (require_existing (ip_validator_key P)) (\<lambda>_.
     dk_bind (require_existing (ip_node_key P)) (\<lambda>_.
     dk_bind (\<lambda>d. if path_exists (dk_tree d) (ip_ledger P) then (d, Ok ()) else create_dir_all InstallIo (ip_ledger P) d) (\<lambda>_.
     dk_bind (public_key_at X K E (ip_validator_key P)) (\<lambda>validator_public_key.
     dk_bind (verify_marker_identity E (marker_path (ip_ledger P)) validator_public_key (ip_node_key P)) (\<lambda>_.
     prepare_validators_config X K E (ip_validators P) allow_insecure_test_keys)))))"

definition initialize_server :: "externals \<Rightarrow> key_externals \<Rightarrow> 'k install_env \<Rightarrow> install_paths \<Rightarrow> bool \<Rightarrow> unit install_op" where
  "initialize_server X K E P allow_insecure_test_keys =
     dk_bind (ledger_has_data (ip_ledger P)) (\<lambda>has_data d.
     if has_data \<and> (\<not> path_exists (dk_tree d) (ip_validator_key P) \<or> \<not> path_exists (dk_tree d) (ip_node_key P))
     then (d, Err LedgerWithoutKeys)
     else
       dk_bind (create_dir_all InstallIo (ip_ledger P)) (\<lambda>_.
       dk_bind (\<lambda>d1. if path_exists (dk_tree d1) (ip_validator_key P) then public_key_at X K E (ip_validator_key P) d1
                     else generate_key_at X K E (ip_validator_key P) d1) (\<lambda>validator_public_key.
       dk_bind (node_key_at E (ip_node_key P)) (\<lambda>identity.
       dk_bind (create_if_missing (ip_events P) (''{'' @ [CHR 0x0A] @ ''  '' @ [CHR 0x22] @ ''events'' @ [CHR 0x22] @ '': []'' @ [CHR 0x0A] @ ''}'' @ [CHR 0x0A])) (\<lambda>_.
       dk_bind (create_if_missing (ip_upgrades P) (''{'' @ [CHR 0x0A] @ ''  '' @ [CHR 0x22] @ ''upgrades'' @ [CHR 0x22] @ '': []'' @ [CHR 0x0A] @ ''}'' @ [CHR 0x0A])) (\<lambda>_.
       dk_bind (write_marker (marker_path (ip_ledger P)) validator_public_key (ie_peer_id E identity)) (\<lambda>_.
       prepare_validators_config X K E (ip_validators P) allow_insecure_test_keys)))))) d)"

definition prepare_server_files :: "externals \<Rightarrow> key_externals \<Rightarrow> 'k install_env \<Rightarrow> install_paths \<Rightarrow> bool \<Rightarrow> unit install_op" where
  "prepare_server_files X K E P allow_insecure_test_keys d =
     (if path_exists (dk_tree d) (marker_path (ip_ledger P)) then resume_server X K E P allow_insecure_test_keys d
      else initialize_server X K E P allow_insecure_test_keys d)"

definition verify_server_node ::
  "externals \<Rightarrow> key_externals \<Rightarrow> 'k install_env \<Rightarrow> install_paths \<Rightarrow> (address \<times> string) install_op" where
  "verify_server_node X K E P =
     dk_bind (require_existing (marker_path (ip_ledger P))) (\<lambda>_.
     dk_bind (require_existing (ip_validator_key P)) (\<lambda>_.
     dk_bind (require_existing (ip_node_key P)) (\<lambda>_.
     dk_bind (\<lambda>d. (d, ensure (ip_ledger P \<noteq> [] \<and> is_folder (dk_tree d) (ip_ledger P)) LedgerMissing)) (\<lambda>_.
     dk_bind (public_key_at X K E (ip_validator_key P)) (\<lambda>validator_public_key.
     dk_bind (verify_marker_identity E (marker_path (ip_ledger P)) validator_public_key (ip_node_key P)) (\<lambda>_.
     dk_bind (node_key_at E (ip_node_key P)) (\<lambda>identity.
     dk_return (validator_public_key, ie_peer_id E identity))))))))"

subsection \<open>Backups\<close>

definition backup_names :: "string \<Rightarrow> string list" where
  "backup_names base = base # map (\<lambda>suffix. base @ ''-'' @ dec_digits suffix) [1..<1000]"

definition unused_backup :: "path \<Rightarrow> string \<Rightarrow> path install_op" where
  "unused_backup backups_dir base d =
     (d, ok_or (find (\<lambda>p. \<not> path_exists (dk_tree d) p) (map (\<lambda>name. backups_dir @ [name]) (backup_names base))) NoBackupName)"

definition clean_ledger_preserving_identity :: "'k install_env \<Rightarrow> path \<Rightarrow> path install_op" where
  "clean_ledger_preserving_identity E ledger_dir =
     (let data_dir = parent_or_self ledger_dir; project_root = parent_or_self data_dir; backups_dir = project_root @ [''backups''] in
      dk_bind (create_dir_all InstallIo backups_dir) (\<lambda>_.
      dk_bind (dk_result (ok_or (ie_clock E) NoClock)) (\<lambda>timestamp.
      dk_bind (unused_backup backups_dir (''ledger-clean-'' @ dec_digits (unat timestamp))) (\<lambda>backup.
      dk_bind (\<lambda>d. if path_exists (dk_tree d) ledger_dir then rename_path InstallIo ledger_dir backup d
                   else create_dir_all InstallIo backup d) (\<lambda>_.
      dk_bind (create_dir_all InstallIo ledger_dir) (\<lambda>_. dk_return backup))))))"

definition backup_validator_key :: "path \<Rightarrow> path \<Rightarrow> path \<Rightarrow> path \<Rightarrow> bool \<Rightarrow> unit install_op" where
  "backup_validator_key validator_key backup_config data_dir backup_data moved_data d =
     (if path_exists (dk_tree d) validator_key then
        dk_try (rename_path InstallIo validator_key
            (backup_config @ [if validator_key = [] then ''validator.key'' else last validator_key])) (\<lambda>r.
          case r of
            Inr _ \<Rightarrow> dk_return ()
          | Inl e \<Rightarrow>
            dk_bind (if moved_data then rename_path RollbackFailed backup_data data_dir else dk_return ()) (\<lambda>_.
            dk_result (Err e))) d
      else (d, Ok ()))"

definition move_node_state :: "install_paths \<Rightarrow> path \<Rightarrow> path \<Rightarrow> path option install_op" where
  "move_node_state P data_dir backup_root d =
     (let moved_data = path_exists (dk_tree d) data_dir; backup_data = backup_root @ [''data''] in
      dk_bind (if moved_data then rename_path InstallIo data_dir backup_data else dk_return ()) (\<lambda>_.
      dk_bind (backup_validator_key (ip_validator_key P) (backup_root @ [''config'']) data_dir backup_data moved_data) (\<lambda>_.
      dk_bind (\<lambda>d1. if path_exists (dk_tree d1) (ip_validators P)
                    then rename_path InstallIo (ip_validators P) (backup_root @ [''config'', ''validators.json'']) d1
                    else (d1, Ok ())) (\<lambda>_.
      dk_return (Some backup_root)))) d)"

definition backup_existing_node_state :: "'k install_env \<Rightarrow> install_paths \<Rightarrow> path option install_op" where
  "backup_existing_node_state E P d =
     (let data_dir = parent_or_self (ip_ledger P); project_root = parent_or_self data_dir; backups_dir = project_root @ [''backups''];
          t = dk_tree d in
      if \<not> path_exists t data_dir \<and> \<not> path_exists t (ip_validator_key P) \<and> \<not> path_exists t (ip_node_key P) \<and>
         \<not> path_exists t (ip_validators P) then (d, Ok None)
      else
        dk_bind (dk_result (ok_or (ie_clock E) NoClock)) (\<lambda>timestamp.
        dk_bind (create_dir_all InstallIo backups_dir) (\<lambda>_.
        dk_bind (unused_backup backups_dir (''node-init-'' @ dec_digits (unat timestamp))) (\<lambda>backup_root.
        dk_bind (create_dir_all InstallIo (backup_root @ [''config''])) (\<lambda>_.
        move_node_state P data_dir backup_root)))) d)"

definition initialize_new_server_node ::
  "externals \<Rightarrow> key_externals \<Rightarrow> 'k install_env \<Rightarrow> install_paths \<Rightarrow> path option install_op" where
  "initialize_new_server_node X K E P =
     dk_bind (backup_existing_node_state E P) (\<lambda>backup.
     dk_bind (prepare_server_files X K E P False) (\<lambda>_. dk_return backup))"

subsection \<open>Lemmas: a start only adds\<close>

lemma keeps_at_new_file [keeping]: "keeps_tree (at_new_file p w)"
  unfolding at_new_file_def write_new_file_at_def
  by (auto split: prod.splits sum.splits option.splits intro!: keeping)

lemma keeps_require_existing [keeping]: "keeps_tree (require_existing p)"
  by (simp add: keeps_tree_def require_existing_def)

lemma keeps_read_text [keeping]: "keeps_tree (read_text E p)"
  unfolding read_text_def by (intro keeping)

lemma keeps_public_key_at [keeping]: "keeps_tree (public_key_at X K E p)"
  unfolding public_key_at_def by (intro keeping)

lemma keeps_generate_key_at [keeping]: "keeps_tree (generate_key_at X K E p)"
  unfolding generate_key_at_def by (intro keeping)

lemma keeps_node_key_at [keeping]: "keeps_tree (node_key_at E p)"
  unfolding node_key_at_def [abs_def] load_or_create_node_key_def option.case create_io.case prod.case by (intro keeping)

lemma keeps_create_if_missing [keeping]: "keeps_tree (create_if_missing p c)"
  unfolding create_if_missing_def [abs_def] by (intro keeping)

lemma keeps_verify_marker_identity [keeping]: "keeps_tree (verify_marker_identity E m pk p)"
  unfolding verify_marker_identity_def by (intro keeping)

lemma keeps_write_marker [keeping]: "keeps_tree (write_marker p pk peer)"
  unfolding write_marker_def by (intro keeping)

lemma keeps_prepare_validators_config [keeping]: "keeps_tree (prepare_validators_config X K E p b)"
  unfolding prepare_validators_config_def [abs_def] by (intro keeping)

lemma keeps_ledger_has_data [keeping]: "keeps_tree (ledger_has_data p)"
  by (auto simp: keeps_tree_def ledger_has_data_def dk_try_def disk_call_def Let_def split: if_splits)

lemma keeps_resume_server [keeping]: "keeps_tree (resume_server X K E P b)"
  unfolding resume_server_def by (intro keeping)

lemma keeps_initialize_server [keeping]: "keeps_tree (initialize_server X K E P b)"
  unfolding initialize_server_def by (intro keeping)

lemma keeps_prepare_server_files: "keeps_tree (prepare_server_files X K E P b)"
  unfolding prepare_server_files_def [abs_def] by (intro keeping)

subsection \<open>Lemmas: what a successful step leaves\<close>

lemma create_new_Ok: "create_new e p c d = (d', Ok u) \<Longrightarrow> fmlookup (dk_tree d') p = Some (File c)"
  by (auto simp: create_new_def dk_bind_cases disk_call_def Let_def split: if_splits)

lemma at_new_file_Ok:
  "at_new_file p (Some text, Ok x) d = (d', Ok y) \<Longrightarrow> fmlookup (dk_tree d') p = Some (File text) \<and> y = x"
  by (auto simp: at_new_file_def write_new_file_at_def dk_bind_cases dk_return_def dest: create_new_Ok)

lemma read_text_Ok:
  "read_text E p d = (d', Ok c) \<Longrightarrow> dk_tree d' = dk_tree d \<and> fmlookup (dk_tree d) p = Some (File c) \<and> ie_utf8 E c"
  by (auto simp: read_text_def dk_bind_cases dk_result_def dest!: read_file_Ok split: if_splits)

lemma public_key_at_Ok:
  "public_key_at X K E p d = (d', Ok a) \<Longrightarrow>
     dk_tree d' = dk_tree d \<and> (\<exists>text. fmlookup (dk_tree d) p = Some (File text) \<and> ie_utf8 E text \<and> public_key_from_file X K (Some text) = Ok a)"
  by (auto simp: public_key_at_def dk_bind_cases dk_result_def result_simps dest!: read_text_Ok)

text \<open>What is assumed of key generation and of the text of an identity.\<close>

definition plain_text :: "string \<Rightarrow> bool" where
  "plain_text s \<longleftrightarrow> list_all (\<lambda>c. printable c \<or> c = CHR 0x0A) s"

definition install_law :: "externals \<Rightarrow> 'k install_env \<Rightarrow> bool" where
  "install_law X E \<longleftrightarrow> hex_law X \<and> length (ie_seed E) = 32 \<and> (\<forall>k. ie_node_decode E (ie_node_encode E k) = Some k) \<and>
     (\<forall>k. list_all printable (ie_peer_id E k)) \<and> (\<forall>s. plain_text s \<longrightarrow> ie_utf8 E s)"

lemma bytes_text_inverse: "str_bytes (bytes_text bs) = bs"
proof -
  have "(of_char (char_of (unat b)) :: 8 word) = b" for b :: "8 word"
  proof -
    have "(of_char (char_of (unat b)) :: 8 word) = of_nat (of_char (char_of (unat b) :: char) :: nat)" by (simp only: of_nat_of_char)
    also have "(of_char (char_of (unat b) :: char) :: nat) = unat b mod 256" by (rule of_char_of)
    also have "(of_nat (unat b mod 256) :: 8 word) = b" proof -
      have "(unsigned b :: nat) < 2 ^ LENGTH(8)" by (rule unsigned_less)
      then show ?thesis by simp
    qed
    finally show ?thesis .
  qed
  then show ?thesis by (simp add: str_bytes_def bytes_text_def comp_def)
qed

lemma generate_key_at_Ok:
  assumes "install_law X E" and "generate_key_at X K E p d = (d', Ok a)"
  shows "\<exists>text. fmlookup (dk_tree d') p = Some (File text) \<and> ie_utf8 E text \<and> public_key_from_file X K (Some text) = Ok a"
proof -
  let ?text = "hex_encode X (ie_seed E) @ [CHR 0x0A]"
  have law: "hex_law X" "length (ie_seed E) = 32" using assms(1) by (simp_all add: install_law_def)
  have "at_new_file p (Some ?text, Ok (wallet_address X (kx_wallet K (ie_seed E)))) d = (d', Ok a)"
    using assms(2) by (simp add: generate_key_at_def generate_key_file_def write_new_file_def)
  from at_new_file_Ok [OF this] have "fmlookup (dk_tree d') p = Some (File ?text)" "a = wallet_address X (kx_wallet K (ie_seed E))"
    by simp_all
  moreover have "ie_utf8 E ?text"
    using assms(1) hex_printable [OF law(1), of "ie_seed E"] by (auto simp: install_law_def plain_text_def list_all_iff)
  moreover have "public_key_from_file X K (Some ?text) = Ok (wallet_address X (kx_wallet K (ie_seed E)))"
    using validator_key_roundtrip [OF law, where K = K and io = CreateDone and f = None] by (simp add: generate_key_file_def write_new_file_def)
  ultimately show ?thesis by blast
qed

lemma node_key_at_Ok:
  assumes "install_law X E" and "node_key_at E p d = (d', Ok k)"
  shows "\<exists>text. fmlookup (dk_tree d') p = Some (File text) \<and> ie_node_decode E (str_bytes text) = Some k"
proof (cases "path_exists (dk_tree d) p")
  case True
  then show ?thesis using assms(2)
    by (auto simp: node_key_at_def dk_bind_cases dk_result_def load_or_create_node_key_def result_simps dest!: read_file_Ok)
next
  case False
  then have "at_new_file p (Some (bytes_text (ie_node_encode E (ie_node_key E))), Ok (ie_node_key E)) d = (d', Ok k)"
    using assms(2) by (simp add: node_key_at_def load_or_create_node_key_def)
  from at_new_file_Ok [OF this] assms(1) show ?thesis by (auto simp: install_law_def bytes_text_inverse)
qed

lemma marker_text_values:
  assumes "list_all printable pk" and "list_all printable peer"
  shows "marker_value (marker_text pk peer) ''validator_public_key'' = Some pk" (is ?v)
    and "marker_value (marker_text pk peer) ''peer_id'' = Some peer" (is ?p)
proof -
  have not_nl: "CHR 0x0A \<notin> set s" "CHR 0x0D \<notin> set s" if "list_all printable s" for s
    using that by (auto simp: list_all_iff printable_def)
  have "split_lines [] (marker_text pk peer) = [''version=1'', ''validator_public_key='' @ pk, ''peer_id='' @ peer]"
  proof -
    have "split_lines [] (''validator_public_key='' @ pk @ CHR 0x0A # rest) = (''validator_public_key='' @ pk) # split_lines [] rest" for rest
      using split_lines_append [of "''validator_public_key='' @ pk" "[]" rest] not_nl [OF assms(1)] by (simp add: strip_cr_id)
    moreover have "split_lines [] (''peer_id='' @ peer @ CHR 0x0A # rest) = (''peer_id='' @ peer) # split_lines [] rest" for rest
      using split_lines_append [of "''peer_id='' @ peer" "[]" rest] not_nl [OF assms(2)] by (simp add: strip_cr_id)
    moreover have "split_lines [] (''version=1'' @ CHR 0x0A # rest) = ''version=1'' # split_lines [] rest" for rest
      using split_lines_append [of "''version=1''" "[]" rest] by (simp add: strip_cr_id)
    ultimately show ?thesis unfolding marker_text_def by simp
  qed
  then show ?v ?p by (simp_all add: marker_value_def List.map_filter_def strip_prefix_def starts_with_def)
qed

subsection \<open>Lemmas: the identity on disk\<close>

text \<open>Keys that can be read, and a marker that names them.\<close>

definition identity_on_disk ::
  "externals \<Rightarrow> key_externals \<Rightarrow> 'k install_env \<Rightarrow> install_paths \<Rightarrow> file_tree \<Rightarrow> address \<Rightarrow> string \<Rightarrow> bool" where
  "identity_on_disk X K E P t pk peer \<longleftrightarrow>
     (\<exists>text. fmlookup t (ip_validator_key P) = Some (File text) \<and> ie_utf8 E text \<and> public_key_from_file X K (Some text) = Ok pk) \<and>
     (\<exists>text k. fmlookup t (ip_node_key P) = Some (File text) \<and> ie_node_decode E (str_bytes text) = Some k \<and> ie_peer_id E k = peer) \<and>
     (\<exists>text. fmlookup t (marker_path (ip_ledger P)) = Some (File text) \<and> ie_utf8 E text \<and>
        marker_value text ''validator_public_key'' = Some pk \<and> marker_value text ''peer_id'' = Some peer)"

lemma identity_kept: "identity_on_disk X K E P t pk peer \<Longrightarrow> tree_kept t t' \<Longrightarrow> identity_on_disk X K E P t' pk peer"
  unfolding identity_on_disk_def tree_kept_def by blast

lemma keepsD: "keeps_tree m \<Longrightarrow> m d = (d', r) \<Longrightarrow> tree_kept (dk_tree d) (dk_tree d')"
  by (simp add: keeps_tree_def)

lemma keptD: "tree_kept t t' \<Longrightarrow> fmlookup t p = Some n \<Longrightarrow> fmlookup t' p = Some n"
  by (simp add: tree_kept_def)

lemma verify_marker_identity_Ok:
  assumes "install_law X E" and "verify_marker_identity E m pk p d = (d', Ok u)"
  shows "\<exists>peer. (\<exists>text k. fmlookup (dk_tree d') p = Some (File text) \<and> ie_node_decode E (str_bytes text) = Some k \<and> ie_peer_id E k = peer) \<and>
     (\<exists>text. fmlookup (dk_tree d) m = Some (File text) \<and> ie_utf8 E text \<and>
        marker_value text ''validator_public_key'' = Some pk \<and> marker_value text ''peer_id'' = Some peer)"
proof -
  obtain d1 contents k where "read_text E m d = (d1, Ok contents)" "marker_value contents ''validator_public_key'' = Some pk"
    "marker_value contents ''peer_id'' = Some (ie_peer_id E k)" "node_key_at E p d1 = (d', Ok k)"
    using assms(2) by (auto simp: verify_marker_identity_def dk_bind_Ok dk_result_def result_simps split: if_splits)
  note step = this
  from node_key_at_Ok [OF assms(1) step(4)] step(1-3) read_text_Ok [OF step(1)] show ?thesis by blast
qed

lemma ledger_kept:
  assumes "make_folders [] p t = Some t1" and "p \<noteq> []"
  shows "path_exists t1 p"
  using make_folders_root [OF assms(1), of p] assms(2) by (simp add: path_exists_lookup)

lemma create_dir_all_Ok: "create_dir_all e p d = (d', Ok u) \<Longrightarrow> p \<noteq> [] \<Longrightarrow> path_exists (dk_tree d') p"
  by (auto simp: create_dir_all_def disk_call_def Let_def split: if_splits option.splits intro: ledger_kept)

lemma resume_steps:
  assumes "resume_server X K E P b d = (d', Ok u)"
  obtains d1 d2 d3 pk where "public_key_at X K E (ip_validator_key P) d1 = (d2, Ok pk)" and "tree_kept (dk_tree d) (dk_tree d1)"
    and "verify_marker_identity E (marker_path (ip_ledger P)) pk (ip_node_key P) d2 = (d3, Ok ())"
    and "ip_ledger P \<noteq> [] \<longrightarrow> path_exists (dk_tree d1) (ip_ledger P)"
    and "prepare_validators_config X K E (ip_validators P) b d3 = (d', Ok u)"
proof -
  let ?L = "\<lambda>d. if path_exists (dk_tree d) (ip_ledger P) then (d, Ok ()) else create_dir_all InstallIo (ip_ledger P) d"
  obtain a1 d1 d2 d3 pk where l: "require_existing (ip_node_key P) a1 = (a1, Ok ())" "require_existing (ip_validator_key P) d = (a1, Ok ())"
    and d1: "?L a1 = (d1, Ok ())" and pk: "public_key_at X K E (ip_validator_key P) d1 = (d2, Ok pk)"
    and m: "verify_marker_identity E (marker_path (ip_ledger P)) pk (ip_node_key P) d2 = (d3, Ok ())"
    and c: "prepare_validators_config X K E (ip_validators P) b d3 = (d', Ok u)"
    using assms unfolding resume_server_def
    by (clarsimp simp: dk_bind_Ok require_existing_def simp del: split_paired_Ex)
  have "a1 = d" using l(2) by (simp add: require_existing_def)
  then have "tree_kept (dk_tree d) (dk_tree d1)" using d1 keepsD [OF keeps_create_dir_all] by (metis Pair_inject tree_kept_refl)
  moreover have "path_exists (dk_tree d1) (ip_ledger P)" if "ip_ledger P \<noteq> []"
    using d1 create_dir_all_Ok [OF _ that] by (metis Pair_inject)
  ultimately show ?thesis using that pk m c by blast
qed

lemma resume_identity:
  assumes law: "install_law X E" and run: "resume_server X K E P b d = (d', Ok u)"
  shows "\<exists>pk peer. identity_on_disk X K E P (dk_tree d') pk peer"
proof -
  obtain d1 d2 d3 pk where pk: "public_key_at X K E (ip_validator_key P) d1 = (d2, Ok pk)"
    and m: "verify_marker_identity E (marker_path (ip_ledger P)) pk (ip_node_key P) d2 = (d3, Ok ())"
    and c: "prepare_validators_config X K E (ip_validators P) b d3 = (d', Ok u)"
    using run by (rule resume_steps)
  note keep = keepsD [OF keeps_verify_marker_identity m] keepsD [OF keeps_prepare_validators_config c]
  from public_key_at_Ok [OF pk] verify_marker_identity_Ok [OF law m] keptD [OF keep(1)]
  have "\<exists>peer. identity_on_disk X K E P (dk_tree d3) pk peer" unfolding identity_on_disk_def by fastforce
  with keep(2) identity_kept show ?thesis by metis
qed

lemma validator_key_step:
  assumes "install_law X E"
    and "(if path_exists (dk_tree d) p then public_key_at X K E p d else generate_key_at X K E p d) = (d', Ok pk)"
  shows "\<exists>text. fmlookup (dk_tree d') p = Some (File text) \<and> ie_utf8 E text \<and> public_key_from_file X K (Some text) = Ok pk"
  using assms generate_key_at_Ok public_key_at_Ok by (metis (no_types, lifting))

lemma public_key_printable:
  assumes "hex_law X" and "public_key_from_file X K f = Ok pk"
  shows "list_all printable pk"
  using assms hex_printable by (auto simp: public_key_from_file_def wallet_address_def result_simps)

lemma initialize_steps:
  assumes "initialize_server X K E P b d = (d', Ok u)"
  obtains d0 d1 d2 d3 d4 d5 d6 pk k c1 c2 where "create_dir_all InstallIo (ip_ledger P) d0 = (d1, Ok ())"
    and "(if path_exists (dk_tree d1) (ip_validator_key P) then public_key_at X K E (ip_validator_key P) d1
         else generate_key_at X K E (ip_validator_key P) d1) = (d2, Ok pk)"
    and "node_key_at E (ip_node_key P) d2 = (d3, Ok k)"
    and "create_if_missing (ip_events P) c1 d3 = (d4, Ok ())" and "create_if_missing (ip_upgrades P) c2 d4 = (d5, Ok ())"
    and "write_marker (marker_path (ip_ledger P)) pk (ie_peer_id E k) d5 = (d6, Ok ())"
    and "prepare_validators_config X K E (ip_validators P) b d6 = (d', Ok u)"
  using assms unfolding initialize_server_def by (clarsimp simp: dk_bind_Ok simp del: split_paired_Ex split: if_split_asm) metis

lemma initialize_identity:
  assumes law: "install_law X E" and run: "initialize_server X K E P b d = (d', Ok u)"
  shows "\<exists>pk peer. identity_on_disk X K E P (dk_tree d') pk peer"
proof -
  obtain d0 d1 d2 d3 d4 d5 d6 pk k c1 c2 where "create_dir_all InstallIo (ip_ledger P) d0 = (d1, Ok ())" and
    pk: "(if path_exists (dk_tree d1) (ip_validator_key P) then public_key_at X K E (ip_validator_key P) d1
         else generate_key_at X K E (ip_validator_key P) d1) = (d2, Ok pk)"
    and k: "node_key_at E (ip_node_key P) d2 = (d3, Ok k)"
    and ev: "create_if_missing (ip_events P) c1 d3 = (d4, Ok ())" and up: "create_if_missing (ip_upgrades P) c2 d4 = (d5, Ok ())"
    and m: "write_marker (marker_path (ip_ledger P)) pk (ie_peer_id E k) d5 = (d6, Ok ())"
    and c: "prepare_validators_config X K E (ip_validators P) b d6 = (d', Ok u)"
    using run by (rule initialize_steps)
  note keep = keepsD [OF keeps_node_key_at k] keepsD [OF keeps_create_if_missing ev] keepsD [OF keeps_create_if_missing up]
    keepsD [OF keeps_write_marker m] keepsD [OF keeps_prepare_validators_config c]
  from validator_key_step [OF law pk] obtain vt where vt: "fmlookup (dk_tree d2) (ip_validator_key P) = Some (File vt)"
    "ie_utf8 E vt" "public_key_from_file X K (Some vt) = Ok pk" by blast
  from node_key_at_Ok [OF law k] obtain nt where nt: "fmlookup (dk_tree d3) (ip_node_key P) = Some (File nt)"
    "ie_node_decode E (str_bytes nt) = Some k" by blast
  have plain: "list_all printable pk" "list_all printable (ie_peer_id E k)"
    using law public_key_printable vt(3) by (auto simp: install_law_def)
  have mt: "fmlookup (dk_tree d6) (marker_path (ip_ledger P)) = Some (File (marker_text pk (ie_peer_id E k)))"
    using m by (auto simp: write_marker_def dest: create_new_Ok)
  have utf8: "ie_utf8 E (marker_text pk (ie_peer_id E k))"
  proof -
    have "plain_text (marker_text pk (ie_peer_id E k))"
      using plain by (auto simp: plain_text_def marker_text_def list_all_iff printable_def)
    with law show ?thesis by (simp add: install_law_def)
  qed
  have "fmlookup (dk_tree d6) (ip_validator_key P) = Some (File vt)" "fmlookup (dk_tree d6) (ip_node_key P) = Some (File nt)"
    using vt(1) nt(1) keep keptD by metis+
  with vt nt mt utf8 marker_text_values [OF plain] have "identity_on_disk X K E P (dk_tree d6) pk (ie_peer_id E k)"
    unfolding identity_on_disk_def by blast
  with keep(5) identity_kept show ?thesis by metis
qed

lemma config_created:
  assumes "prepare_validators_config X K E p b d = (d', Ok u)"
  shows "path_exists (dk_tree d') p"
proof -
  have new: "path_exists (dk_tree d') p" if "at_new_file p (create_validators_config X j CreateDone ks 100 None) d1 = (d', Ok u)" for ks d1 j
    using that at_new_file_Ok [of p _ "()" d1 d' u]
    by (auto simp: create_validators_config_def write_new_file_def at_new_file_def dk_result_def path_exists_lookup
        split: sum.splits if_splits)
  then show ?thesis using assms
    by (auto simp: prepare_validators_config_def dk_bind_Ok dk_result_def split: if_splits)
qed

lemma prepared:
  assumes law: "install_law X E" and run: "prepare_server_files X K E P b d = (d', Ok u)" and "ip_ledger P \<noteq> []"
  shows "(\<exists>pk peer. identity_on_disk X K E P (dk_tree d') pk peer) \<and> path_exists (dk_tree d') (ip_ledger P) \<and>
    path_exists (dk_tree d') (ip_validators P)"
proof (cases "path_exists (dk_tree d) (marker_path (ip_ledger P))")
  case True
  then have run: "resume_server X K E P b d = (d', Ok u)" using run by (simp add: prepare_server_files_def)
  then obtain d2 d3 d4 pk where k: "public_key_at X K E (ip_validator_key P) d2 = (d3, Ok pk)"
    and m: "verify_marker_identity E (marker_path (ip_ledger P)) pk (ip_node_key P) d3 = (d4, Ok ())"
    and l: "ip_ledger P \<noteq> [] \<longrightarrow> path_exists (dk_tree d2) (ip_ledger P)"
    and c: "prepare_validators_config X K E (ip_validators P) b d4 = (d', Ok u)"
    by (rule resume_steps)
  have "path_exists (dk_tree d2) (ip_ledger P)" using l assms(3) by simp
  then have "path_exists (dk_tree d') (ip_ledger P)"
    using keepsD [OF keeps_public_key_at k] keepsD [OF keeps_verify_marker_identity m] keepsD [OF keeps_prepare_validators_config c]
    unfolding path_exists_lookup tree_kept_def by blast
  then show ?thesis using resume_identity [OF law run] config_created [OF c] by blast
next
  case False
  then have run: "initialize_server X K E P b d = (d', Ok u)" using run by (simp add: prepare_server_files_def)
  then obtain d0 d1 d2 d3 d4 d5 d6 pk k c1 c2 where l: "create_dir_all InstallIo (ip_ledger P) d0 = (d1, Ok ())" and
    pk: "(if path_exists (dk_tree d1) (ip_validator_key P) then public_key_at X K E (ip_validator_key P) d1
         else generate_key_at X K E (ip_validator_key P) d1) = (d2, Ok pk)"
    and k: "node_key_at E (ip_node_key P) d2 = (d3, Ok k)"
    and ev: "create_if_missing (ip_events P) c1 d3 = (d4, Ok ())" and up: "create_if_missing (ip_upgrades P) c2 d4 = (d5, Ok ())"
    and m: "write_marker (marker_path (ip_ledger P)) pk (ie_peer_id E k) d5 = (d6, Ok ())"
    and c: "prepare_validators_config X K E (ip_validators P) b d6 = (d', Ok u)"
    by (rule initialize_steps)
  have "tree_kept (dk_tree d1) (dk_tree d2)" using pk keepsD [OF keeps_public_key_at] keepsD [OF keeps_generate_key_at] by metis
  then have "tree_kept (dk_tree d1) (dk_tree d')"
    using keepsD [OF keeps_node_key_at k] keepsD [OF keeps_create_if_missing ev] keepsD [OF keeps_create_if_missing up]
      keepsD [OF keeps_write_marker m] keepsD [OF keeps_prepare_validators_config c] by (blast intro: tree_kept_trans)
  with create_dir_all_Ok [OF l assms(3)] have "path_exists (dk_tree d') (ip_ledger P)"
    unfolding path_exists_lookup tree_kept_def by blast
  then show ?thesis using initialize_identity [OF law run] config_created [OF c] by blast
qed

lemma reliable_text:
  assumes "reliable d" and "fmlookup (dk_tree d) p = Some (File c)" and "ie_utf8 E c"
  shows "\<exists>d'. read_text E p d = (d', Ok c) \<and> dk_tree d' = dk_tree d \<and> reliable d'"
proof -
  obtain d' where "read_file InstallIo p d = (d', Ok c)" "dk_tree d' = dk_tree d" "reliable d'"
    using reliable_read [OF assms(1,2)] by metis
  then show ?thesis using assms(3) by (simp add: read_text_def dk_bind_def dk_result_def)
qed

lemma restart_ok:
  assumes "identity_on_disk X K E P (dk_tree d) pk peer" and "path_exists (dk_tree d) (ip_ledger P)"
    and "path_exists (dk_tree d) (ip_validators P)" and "reliable d"
  shows "\<exists>d'. prepare_server_files X K E P b d = (d', Ok ()) \<and> dk_tree d' = dk_tree d"
proof -
  obtain vt nt k mt where v: "fmlookup (dk_tree d) (ip_validator_key P) = Some (File vt)" "ie_utf8 E vt"
      "public_key_from_file X K (Some vt) = Ok pk"
    and n: "fmlookup (dk_tree d) (ip_node_key P) = Some (File nt)" "ie_node_decode E (str_bytes nt) = Some k" "ie_peer_id E k = peer"
    and m: "fmlookup (dk_tree d) (marker_path (ip_ledger P)) = Some (File mt)" "ie_utf8 E mt"
      "marker_value mt ''validator_public_key'' = Some pk" "marker_value mt ''peer_id'' = Some peer"
    using assms(1) unfolding identity_on_disk_def by blast
  have exists: "path_exists (dk_tree d) (ip_validator_key P)" "path_exists (dk_tree d) (ip_node_key P)"
    "path_exists (dk_tree d) (marker_path (ip_ledger P))"
    using v n m by (simp_all add: path_exists_lookup)
  obtain d1 where d1: "read_text E (ip_validator_key P) d = (d1, Ok vt)" "dk_tree d1 = dk_tree d" "reliable d1"
    using reliable_text [OF assms(4) v(1,2)] by blast
  obtain d2 where d2: "read_text E (marker_path (ip_ledger P)) d1 = (d2, Ok mt)" "dk_tree d2 = dk_tree d" "reliable d2"
    using reliable_text [OF d1(3), of "marker_path (ip_ledger P)" mt E] m d1(2) by auto
  obtain d3 where d3: "read_file InstallIo (ip_node_key P) d2 = (d3, Ok nt)" "dk_tree d3 = dk_tree d"
    using d2 n(1) by (metis reliable_read)
  have "node_key_at E (ip_node_key P) d2 = (d3, Ok k)"
    using exists(2) d2(2) d3(1) n(2) by (simp add: node_key_at_def dk_bind_def dk_result_def load_or_create_node_key_def)
  then have "verify_marker_identity E (marker_path (ip_ledger P)) pk (ip_node_key P) d1 = (d3, Ok ())"
    using d2(1) m(3,4) n(3) by (simp add: verify_marker_identity_def dk_bind_def dk_result_def)
  moreover have "public_key_at X K E (ip_validator_key P) d = (d1, Ok pk)"
    using d1(1) v(3) by (simp add: public_key_at_def dk_bind_def dk_result_def)
  ultimately show ?thesis using exists assms(2,3) d3(2)
    by (simp add: prepare_server_files_def resume_server_def require_existing_def dk_bind_def prepare_validators_config_def)
qed

section \<open>Properties\<close>

text \<open>
  C30: a start never replaces an identity. Whichever file operations fail and however the start ends, every file
  and folder that was there is still there with the same contents; a server with a marker and without one
  of its keys does not start and nothing is created, whichever operations fail; and a ledger folder with entries and without one
  of the keys is refused in the same way, provided that the listing of the folder does not fail.
\<close>
theorem identity_never_replaced:
  assumes "prepare_server_files X K E P b d = (d', r)"
  shows "(\<forall>p n. fmlookup (dk_tree d) p = Some n \<longrightarrow> fmlookup (dk_tree d') p = Some n) \<and>
    (\<not> path_exists (dk_tree d) (ip_validator_key P) \<or> \<not> path_exists (dk_tree d) (ip_node_key P) \<longrightarrow>
      (path_exists (dk_tree d) (marker_path (ip_ledger P)) \<or>
       is_folder (dk_tree d) (ip_ledger P) \<and> has_entries (dk_tree d) (ip_ledger P) \<and> \<not> dk_fails d (dk_count d)) \<longrightarrow>
      \<not> is_ok r \<and> dk_tree d' = dk_tree d)"
proof (intro conjI impI)
  show "\<forall>p n. fmlookup (dk_tree d) p = Some n \<longrightarrow> fmlookup (dk_tree d') p = Some n"
    using keepsD [OF keeps_prepare_server_files assms] by (simp add: tree_kept_def)
next
  assume missing: "\<not> path_exists (dk_tree d) (ip_validator_key P) \<or> \<not> path_exists (dk_tree d) (ip_node_key P)"
    and guard: "path_exists (dk_tree d) (marker_path (ip_ledger P)) \<or>
       is_folder (dk_tree d) (ip_ledger P) \<and> has_entries (dk_tree d) (ip_ledger P) \<and> \<not> dk_fails d (dk_count d)"
  have "\<not> is_ok r \<and> dk_tree d' = dk_tree d"
  proof (cases "path_exists (dk_tree d) (marker_path (ip_ledger P))")
    case True
    then show ?thesis using assms missing
      by (auto simp: prepare_server_files_def resume_server_def require_existing_def dk_bind_def is_ok_def ensure_def split: if_splits)
  next
    case False
    then show ?thesis using assms missing guard
      by (auto simp: prepare_server_files_def initialize_server_def ledger_has_data_def dk_try_def disk_call_def Let_def dk_bind_def is_ok_def)
  qed
  then show "\<not> is_ok r" and "dk_tree d' = dk_tree d" by simp_all
qed

text \<open>
  C27: a server that started once starts again as itself. After a successful start, the first or a later one, the marker
  names the validator key and the peer identity of the key files, and another start on the same files, with
  operations that succeed, succeeds and changes nothing.
\<close>
theorem restart_same_identity:
  assumes "install_law X E" and "ip_ledger P \<noteq> []" and "prepare_server_files X K E P b d = (d1, Ok ())"
    and "dk_tree d2 = dk_tree d1" and "reliable d2"
  shows "(\<exists>pk peer. identity_on_disk X K E P (dk_tree d1) pk peer) \<and>
    (\<exists>d3. prepare_server_files X K E P b d2 = (d3, Ok ()) \<and> dk_tree d3 = dk_tree d1)"
proof -
  obtain pk peer where ok: "identity_on_disk X K E P (dk_tree d1) pk peer"
    and exists: "path_exists (dk_tree d1) (ip_ledger P)" "path_exists (dk_tree d1) (ip_validators P)"
    using prepared [OF assms(1,3,2)] by blast
  from ok exists restart_ok [of X K E P d2 pk peer b] assms(4,5) show ?thesis by auto
qed

lemma torn_marker_value:
  assumes "n < length (''version=1'' @ [CHR 0x0A] @ ''validator_public_key='')"
  shows "marker_value (take n (marker_text pk peer)) ''validator_public_key'' = None"
proof -
  let ?start = "''version=1'' @ [CHR 0x0A] @ ''validator_public_key=''"
  have "marker_text pk peer = ?start @ pk @ [CHR 0x0A] @ ''peer_id='' @ peer @ [CHR 0x0A]" by (simp add: marker_text_def)
  then have "take n (marker_text pk peer) = take n ?start" using assms by (simp only: take_append) simp
  moreover have "list_all (\<lambda>n. marker_value (take n ?start) ''validator_public_key'' = None) [0..<length ?start]"
    by code_simp
  then have "marker_value (take n ?start) ''validator_public_key'' = None"
    using assms unfolding list_all_iff by (metis atLeastLessThan_iff le0 set_upt)
  ultimately show ?thesis by simp
qed

text \<open>
  An interrupted first start can lock a server out. The marker is created before it is written; when the write stops within
  the first two lines, the marker stays, and no later start succeeds, on any disk that still has it, even with
  both keys in place.
\<close>
theorem torn_marker_blocks_start:
  assumes "write_marker (marker_path (ip_ledger P)) pk peer d = (d1, r)"
    and "\<not> path_exists (dk_tree d) (marker_path (ip_ledger P))" and "is_folder (dk_tree d) (parent_or_self (ip_ledger P))"
    and "\<not> dk_fails d (dk_count d)" and "dk_fails d (dk_count d + 1)"
    and "dk_torn d (dk_count d + 1) < length (''version=1'' @ [CHR 0x0A] @ ''validator_public_key='')"
    and "\<forall>p n. fmlookup (dk_tree d1) p = Some n \<longrightarrow> fmlookup (dk_tree d2) p = Some n"
  shows "\<not> is_ok (snd (prepare_server_files X K E P b d2))"
proof
  assume "is_ok (snd (prepare_server_files X K E P b d2))"
  then obtain d3 where run: "prepare_server_files X K E P b d2 = (d3, Ok ())"
    by (cases "prepare_server_files X K E P b d2") (auto simp: is_ok_def split: sum.splits)
  let ?m = "marker_path (ip_ledger P)"
  have "fmlookup (dk_tree d1) ?m = Some (File (take (dk_torn d (dk_count d + 1)) (marker_text pk peer)))"
    using assms(1-5) by (auto simp: write_marker_def create_new_def dk_bind_def disk_call_def Let_def marker_path_def)
  then have marker: "fmlookup (dk_tree d2) ?m = Some (File (take (dk_torn d (dk_count d + 1)) (marker_text pk peer)))"
    using assms(7) by blast
  then have "resume_server X K E P b d2 = (d3, Ok ())"
    using run by (simp add: prepare_server_files_def path_exists_lookup)
  then obtain d4 d5 d6 k where read: "public_key_at X K E (ip_validator_key P) d4 = (d5, Ok k)" "tree_kept (dk_tree d2) (dk_tree d4)"
    "verify_marker_identity E ?m k (ip_node_key P) d5 = (d6, Ok ())"
    by (rule resume_steps)
  then obtain c d7 where "read_text E ?m d5 = (d7, Ok c)" "marker_value c ''validator_public_key'' = Some k"
    by (auto simp: verify_marker_identity_def dk_bind_Ok dk_result_def result_simps split: if_splits)
  moreover have "fmlookup (dk_tree d5) ?m = Some (File (take (dk_torn d (dk_count d + 1)) (marker_text pk peer)))"
    using marker read(2) public_key_at_Ok [OF read(1)] by (simp add: tree_kept_def)
  ultimately show False using torn_marker_value [OF assms(6), of pk peer] by (auto dest!: read_text_Ok)
qed

subsection \<open>Lemmas: backups\<close>

lemma rename_path_cases:
  "rename_path e src dst d = (d', r) \<Longrightarrow>
     (r = Err e \<and> dk_tree d' = dk_tree d) \<or> (r = Ok () \<and> can_move src dst (dk_tree d) \<and> dk_tree d' = move src dst (dk_tree d))"
  by (auto simp: rename_path_def disk_call_def Let_def split: if_splits)

lemma rename_saved:
  assumes "rename_path e src dst d = (d', r)" and "unused (dk_tree d) dst" and "prefix b dst" and "tree_ok (dk_tree d)"
  shows "saved b (dk_tree d) (dk_tree d') \<and> tree_ok (dk_tree d')"
  using rename_path_cases [OF assms(1)] move_saved [OF assms(2,3)] tree_ok_move [OF assms(4)] assms(4)
  by (auto intro: tree_kept_saved)

lemma saved_refl [simp]: "saved b t t"
  by (simp add: tree_kept_saved)

lemma create_dir_all_saved:
  assumes "create_dir_all e p d = (d', r)" and "tree_ok (dk_tree d)"
  shows "saved b (dk_tree d) (dk_tree d') \<and> tree_ok (dk_tree d')"
  using keepsD [OF keeps_create_dir_all assms(1)] tree_ok_create_dir_all [OF assms] tree_kept_saved by blast

lemma create_dir_all_new:
  assumes "create_dir_all e p d = (d', r)" and "\<not> prefix q p" and "unused (dk_tree d) q" and "q \<noteq> []"
  shows "unused (dk_tree d') q"
proof -
  have "unused t q" if "make_folders [] ns (dk_tree d) = Some t" "prefix ns p" for t ns
    unfolding unused_def
  proof (intro allI impI)
    fix q' assume "prefix q q'"
    moreover from this have "\<not> prefix q' ns" using assms(2) that(2) by (meson prefix_order.trans)
    ultimately show "\<not> path_exists t q'"
      using assms(3) make_folders_root [OF that(1), of q'] by (simp add: unused_def path_exists_lookup)
  qed
  then show ?thesis using assms(1,3) take_is_prefix [of _ p]
    by (auto simp: create_dir_all_def disk_call_def Let_def split: if_splits option.splits)
qed

lemma unused_move:
  assumes "unused t q" and "\<And>q'. prefix q q' \<Longrightarrow> \<not> prefix dst q'"
  shows "unused (move src dst t) q"
  using assms unfolding unused_def path_exists_lookup by (auto simp: fmlookup_move)

lemma unused_below: "unused t p \<Longrightarrow> unused t (p @ r)"
  unfolding unused_def by (meson append_prefixD)

lemma unused_backup_Ok:
  assumes "unused_backup b base d = (d', Ok p)" and "tree_ok (dk_tree d)"
  shows "d' = d \<and> prefix b p \<and> p \<noteq> [] \<and> unused (dk_tree d) p"
proof -
  have found: "find (\<lambda>p. \<not> path_exists (dk_tree d) p) (map (\<lambda>name. b @ [name]) (backup_names base)) = Some p" and "d' = d"
    using assms(1) by (auto simp: unused_backup_def result_simps)
  then obtain name where "p = b @ [name]" "\<not> path_exists (dk_tree d) p" by (auto simp: find_Some_iff)
  with \<open>d' = d\<close> show ?thesis using tree_ok_unused [OF assms(2)] by simp
qed

lemma backup_validator_key_saved:
  assumes run: "backup_validator_key vk (root @ [''config'']) data (root @ [''data'']) moved_data d1 = (d', r)"
    and before: "tree_ok t" "unused t (root @ [''data''])"
      "if moved_data then can_move data (root @ [''data'']) t \<and> dk_tree d1 = move data (root @ [''data'']) t else dk_tree d1 = t"
    and free: "\<And>x. unused (dk_tree d1) (root @ [''config'', x])" and ok: "tree_ok (dk_tree d1)" and b: "prefix b root"
  shows "saved b t (dk_tree d')"
    and "is_ok r \<Longrightarrow> vk = [] \<or> last vk \<noteq> ''validators.json'' \<Longrightarrow>
      tree_ok (dk_tree d') \<and> unused (dk_tree d') (root @ [''config'', ''validators.json''])"
proof -
  have moved: "saved b t (dk_tree d1)"
    using before(3) move_saved [OF before(2), of b data] b by (auto split: if_splits intro: prefix_prefix)
  let ?dst = "root @ [''config'', if vk = [] then ''validator.key'' else last vk]"
  consider "dk_tree d' = dk_tree d1" | "is_ok r" "dk_tree d' = move vk ?dst (dk_tree d1)" "can_move vk ?dst (dk_tree d1)"
    | "moved_data" "\<not> is_ok r" "dk_tree d' = move (root @ [''data'']) data (dk_tree d1)"
    using run
    by (auto simp: backup_validator_key_def dk_try_def dk_bind_def dk_return_def dk_result_def is_ok_def
        split: if_splits prod.splits sum.splits dest!: rename_path_cases)
  note cases = this
  show "saved b t (dk_tree d')"
  proof (cases rule: cases)
    case 2
    have "saved b (dk_tree d1) (dk_tree d')"
      unfolding 2(2) using move_saved [OF free] b by (simp add: prefix_prefix)
    with moved show ?thesis by (rule saved_trans)
  next
    case 3
    then have m: "can_move data (root @ [''data'']) t" "dk_tree d1 = move data (root @ [''data'']) t" using before(3) by simp_all
    have "path_exists t data" "\<not> prefix data (root @ [''data''])" using m(1) by (simp_all add: can_move_def)
    moreover from this have "\<not> prefix (root @ [''data'']) data" using before(2) unfolding unused_def by blast
    ultimately have "fmlookup (dk_tree d') q = fmlookup t q" for q unfolding 3(3) m(2) using move_back [OF before(2)] by blast
    then show ?thesis by (simp add: saved_def) blast
  qed (use moved in simp)
  show "tree_ok (dk_tree d') \<and> unused (dk_tree d') (root @ [''config'', ''validators.json''])"
    if "is_ok r" "vk = [] \<or> last vk \<noteq> ''validators.json''"
  proof (cases rule: cases)
    case 2
    have "\<not> prefix ?dst q'" if "prefix (root @ [''config'', ''validators.json'']) q'" for q'
      using that \<open>vk = [] \<or> last vk \<noteq> ''validators.json''\<close> by (auto simp: prefix_def split: if_splits)
    then show ?thesis unfolding 2(2) using unused_move [OF free] tree_ok_move [OF ok 2(3)] by blast
  qed (use that ok free in auto)
qed

abbreviation backups_of :: "path \<Rightarrow> path" where
  "backups_of ledger \<equiv> parent_or_self (parent_or_self ledger) @ [''backups'']"

text \<open>The part of the backup after its folder was created.\<close>

lemma backup_moves_saved:
  assumes run: "move_node_state P data root d1 = (d', r)"
    and ok: "tree_ok (dk_tree d1)" and data: "unused (dk_tree d1) (root @ [''data''])"
    and config: "\<And>x. unused (dk_tree d1) (root @ [''config'', x])"
    and b: "prefix b root" and vk: "ip_validator_key P = [] \<or> last (ip_validator_key P) \<noteq> ''validators.json''"
  shows "saved b (dk_tree d1) (dk_tree d')"
proof -
  let ?m = "path_exists (dk_tree d1) data"
  obtain d2 r2 where step: "(if ?m then rename_path InstallIo data (root @ [''data'']) else dk_return ()) d1 = (d2, r2)" by force
  have d2: "if ?m \<and> r2 = Ok () then can_move data (root @ [''data'']) (dk_tree d1) \<and> dk_tree d2 = move data (root @ [''data'']) (dk_tree d1)
      else dk_tree d2 = dk_tree d1"
    using step by (auto simp: dk_return_def split: if_splits dest!: rename_path_cases)
  show ?thesis
  proof (cases r2)
    case (Inl e)
    then show ?thesis using run step d2 by (simp add: move_node_state_def Let_def dk_bind_def)
  next
    case (Inr u)
    have free: "unused (dk_tree d2) (root @ [''config'', x])" for x
      using d2 unused_move [OF config, where dst = "root @ [''data'']" and src = data] config by (auto simp: prefix_def split: if_splits)
    have ok2: "tree_ok (dk_tree d2)" using d2 ok tree_ok_move by (metis (full_types))
    obtain d3 r3 where k: "backup_validator_key (ip_validator_key P) (root @ [''config'']) data (root @ [''data'']) ?m d2 = (d3, r3)" by force
    note key = backup_validator_key_saved [OF k ok data _ free ok2 b]
    have pre: "if ?m then can_move data (root @ [''data'']) (dk_tree d1) \<and> dk_tree d2 = move data (root @ [''data'']) (dk_tree d1)
        else dk_tree d2 = dk_tree d1" using d2 Inr by (auto split: if_splits)
    show ?thesis
    proof (cases r3)
      case (Inl e)
      then show ?thesis using run step k key(1) [OF pre] \<open>r2 = Inr u\<close> by (simp add: move_node_state_def Let_def dk_bind_def)
    next
      case (Inr v)
      then have after: "tree_ok (dk_tree d3)" "unused (dk_tree d3) (root @ [''config'', ''validators.json''])"
        using key(2) [OF pre _ vk] by (simp_all add: is_ok_def)
      have "saved b (dk_tree d3) (dk_tree d')"
        using run step k \<open>r2 = Inr u\<close> Inr rename_saved [OF _ after(2) _ after(1), of InstallIo "ip_validators P" _ _ b] b
        by (auto simp: move_node_state_def Let_def dk_bind_def dk_return_def prefix_prefix split: if_splits prod.splits sum.splits)
      with key(1) [OF pre] show ?thesis by (rule saved_trans)
    qed
  qed
qed

lemma backup_saved:
  assumes run: "backup_existing_node_state E P d = (d', r)" and ok: "tree_ok (dk_tree d)"
    and vk: "ip_validator_key P = [] \<or> last (ip_validator_key P) \<noteq> ''validators.json''"
  shows "saved (backups_of (ip_ledger P)) (dk_tree d) (dk_tree d')"
proof -
  let ?b = "backups_of (ip_ledger P)" and ?data = "parent_or_self (ip_ledger P)"
  obtain d1 r1 where c1: "create_dir_all InstallIo ?b d = (d1, r1)" by force
  note s1 = create_dir_all_saved [OF c1 ok, of ?b]
  show ?thesis
  proof (cases "dk_tree d' = dk_tree d \<or> dk_tree d' = dk_tree d1")
    case True
    then show ?thesis using s1 by (metis saved_refl)
  next
    case False
    obtain base root where u: "unused_backup ?b base d1 = (d1, Ok root)"
      and rest: "dk_bind (create_dir_all InstallIo (root @ [''config''])) (\<lambda>_. move_node_state P ?data root) d1 = (d', r)"
      using run c1 False
      by (auto simp: backup_existing_node_state_def Let_def dk_bind_def [of _ _ d] dk_bind_def [of _ _ d1] dk_result_def unused_backup_def
          split: if_splits prod.splits sum.splits)
    note root = unused_backup_Ok [OF u conjunct2 [OF s1]]
    obtain d2 r2 where c2: "create_dir_all InstallIo (root @ [''config'']) d1 = (d2, r2)" by force
    note s2 = create_dir_all_saved [OF c2 conjunct2 [OF s1], of ?b]
    have "unused (dk_tree d1) (root @ x)" for x using root unused_below by blast
    then have new: "unused (dk_tree d2) (root @ [''data''])" "unused (dk_tree d2) (root @ [''config'', x])" for x
      using create_dir_all_new [OF c2] by simp_all
    have "saved ?b (dk_tree d2) (dk_tree d')"
    proof (cases r2)
      case (Inl e)
      then show ?thesis using rest c2 by (simp add: dk_bind_def)
    next
      case (Inr v)
      then have "move_node_state P ?data root d2 = (d', r)" using rest c2 by (simp add: dk_bind_def)
      from backup_moves_saved [OF this conjunct2 [OF s2] new] root vk show ?thesis by blast
    qed
    with s1 s2 show ?thesis by (blast intro: saved_trans)
  qed
qed

lemma clean_saved:
  assumes run: "clean_ledger_preserving_identity E ledger d = (d', r)" and ok: "tree_ok (dk_tree d)"
  shows "saved (backups_of ledger) (dk_tree d) (dk_tree d')"
proof -
  let ?b = "backups_of ledger"
  obtain d1 r1 where c1: "create_dir_all InstallIo ?b d = (d1, r1)" by force
  note s1 = create_dir_all_saved [OF c1 ok, of ?b]
  show ?thesis
  proof (cases "dk_tree d' = dk_tree d1")
    case True
    then show ?thesis using s1 by simp
  next
    case False
    obtain base backup where u: "unused_backup ?b base d1 = (d1, Ok backup)"
      and rest: "dk_bind (\<lambda>d. if path_exists (dk_tree d) ledger then rename_path InstallIo ledger backup d
          else create_dir_all InstallIo backup d) (\<lambda>_.
        dk_bind (create_dir_all InstallIo ledger) (\<lambda>_. dk_return backup)) d1 = (d', r)"
      using run c1 False
      by (auto simp: clean_ledger_preserving_identity_def Let_def dk_bind_def [of _ _ d] dk_bind_def [of _ _ d1] dk_result_def
          unused_backup_def split: if_splits prod.splits sum.splits)
    note root = unused_backup_Ok [OF u conjunct2 [OF s1]]
    obtain d2 r2 where c2: "(if path_exists (dk_tree d1) ledger then rename_path InstallIo ledger backup d1
          else create_dir_all InstallIo backup d1) = (d2, r2)" by force
    have s2: "saved ?b (dk_tree d1) (dk_tree d2) \<and> tree_ok (dk_tree d2)"
      using c2 rename_saved [of InstallIo ledger backup d1] create_dir_all_saved [of InstallIo backup d1] root s1
      by (metis (no_types, lifting))
    have "saved ?b (dk_tree d2) (dk_tree d')"
      using rest c2 create_dir_all_saved [OF _ conjunct2 [OF s2], of InstallIo ledger _ _ ?b]
      by (auto simp: dk_bind_def dk_return_def split: prod.splits sum.splits)
    with s1 s2 show ?thesis by (blast intro: saved_trans)
  qed
qed

text \<open>
  C13: a reset loses no file. Whichever file operations fail while a server gets a new identity, or while its ledger is
  cleaned, every file that was there is afterwards where it was or in the folder of backups, with the same contents.
\<close>
theorem reset_loses_no_file:
  assumes "tree_ok (dk_tree d)" and "ip_validator_key P = [] \<or> last (ip_validator_key P) \<noteq> ''validators.json''"
    and "initialize_new_server_node X K E P d = (d1, r1)" and "clean_ledger_preserving_identity E (ip_ledger P) d = (d2, r2)"
    and "fmlookup (dk_tree d) p = Some (File c)"
  shows "(\<exists>q. fmlookup (dk_tree d1) q = Some (File c) \<and> (q = p \<or> prefix (backups_of (ip_ledger P)) q)) \<and>
    (\<exists>q. fmlookup (dk_tree d2) q = Some (File c) \<and> (q = p \<or> prefix (backups_of (ip_ledger P)) q))"
proof -
  obtain d0 r0 where b: "backup_existing_node_state E P d = (d0, r0)" by force
  have "tree_kept (dk_tree d0) (dk_tree d1)"
    using assms(3) b keepsD [OF keeps_prepare_server_files]
    by (fastforce simp: initialize_new_server_node_def dk_bind_def dk_return_def split: prod.splits sum.splits)
  then have "saved (backups_of (ip_ledger P)) (dk_tree d) (dk_tree d1)"
    using backup_saved [OF b assms(1,2)] tree_kept_saved saved_trans by blast
  then show ?thesis using clean_saved [OF assms(4,1)] assms(5) unfolding saved_def by blast
qed

subsection \<open>Witnesses\<close>

definition sample_install_env :: "bool install_env" where
  "sample_install_env = \<lparr>ie_seed = replicate 32 7, ie_node_key = True, ie_node_encode = (\<lambda>k. if k then [1] else [0]),
     ie_node_decode = (\<lambda>bs. if bs = [1] then Some True else if bs = [0] then Some False else None), ie_peer_id = (\<lambda>_. ''peer''),
     ie_validators_json = (\<lambda>_. ''v''), ie_genesis = None, ie_utf8 = (\<lambda>_. True), ie_clock = Some 9\<rparr>"

definition sample_paths :: install_paths where
  "sample_paths = \<lparr>ip_validator_key = [''data'', ''v.key''], ip_node_key = [''data'', ''n.key''], ip_ledger = [''data'', ''ledger''],
     ip_validators = [''config'', ''validators.json''], ip_events = [''config'', ''e''], ip_upgrades = [''config'', ''u'']\<rparr>"

definition sample_disk :: "file_tree \<Rightarrow> disk" where
  "sample_disk t = \<lparr>dk_tree = t, dk_count = 0, dk_fails = (\<lambda>_. False), dk_torn = (\<lambda>_. 0)\<rparr>"

lemma sample_install_law: "install_law sample_externals sample_install_env"
  using sample_hex_law by (simp add: install_law_def sample_install_env_def printable_def)

definition sample_key_text :: string where
  "sample_key_text = hex_encode sample_externals (replicate 32 7) @ [CHR 0x0A]"

definition sample_tree :: file_tree where
  "sample_tree = fmap_of_list [([''data''], Folder), ([''data'', ''ledger''], Folder), ([''data'', ''v.key''], File sample_key_text),
     ([''data'', ''n.key''], File [CHR 0x01]), ([''config''], Folder), ([''config'', ''validators.json''], File ''v''),
     ([''config'', ''e''], File ''{}''), ([''config'', ''u''], File ''{}'')]"

lemma sample_key: "\<exists>pk. public_key_from_file sample_externals sample_keys (Some sample_key_text) = Ok pk"
  using validator_key_roundtrip [OF sample_hex_law, where seed = "replicate 32 7" and K = sample_keys and io = CreateDone and f = None]
  by (simp add: generate_key_file_def write_new_file_def sample_key_text_def)

lemma sample_first_start:
  "\<exists>d. prepare_server_files sample_externals sample_keys sample_install_env sample_paths True (sample_disk sample_tree) = (d, Ok ())"
proof -
  obtain pk where pk: "public_key_from_file sample_externals sample_keys (Some sample_key_text) = Ok pk" using sample_key by blast
  show ?thesis
    by (simp add: prepare_server_files_def sample_disk_def sample_paths_def marker_path_def parent_or_self_def path_exists_lookup
        sample_tree_def fmlookup_of_list MARKER_NAME_def initialize_server_def dk_bind_def ledger_has_data_def dk_try_def disk_call_def
        Let_def is_folder_def has_entries_def create_dir_all_def public_key_at_def read_text_def read_file_def dk_result_def pk
        sample_install_env_def node_key_at_def load_or_create_node_key_def str_bytes_def create_if_missing_def write_marker_def
        create_new_def prepare_validators_config_def)
qed

lemma sample_tree_ok: "tree_ok sample_tree"
  unfolding tree_ok_def path_exists_def sample_tree_def is_folder_def fmlookup_of_list
  by (auto simp: fmdom_of_list)

lemma sample_validator_file: "fmlookup sample_tree [''data'', ''v.key''] = Some (File sample_key_text)"
  by (simp add: sample_tree_def fmlookup_of_list)

definition sample_keyless_tree :: file_tree where
  "sample_keyless_tree = fmupd [''data'', ''ledger'', ''b''] (File ''x'') (fmdrop [''data'', ''v.key''] sample_tree)"

lemma sample_keyless:
  "\<not> path_exists sample_keyless_tree [''data'', ''v.key'']" "is_folder sample_keyless_tree [''data'', ''ledger'']"
  "has_entries sample_keyless_tree [''data'', ''ledger'']"
  by (simp_all add: sample_keyless_tree_def path_exists_lookup is_folder_def has_entries_def) (simp add: sample_tree_def fmlookup_of_list)

text \<open>A filled ledger whose validator key is gone: the server does not start and nothing is created.\<close>
theorem identity_never_replaced_witness:
  "\<exists>d r. prepare_server_files sample_externals sample_keys sample_install_env sample_paths True (sample_disk sample_keyless_tree) = (d, r) \<and>
     \<not> is_ok r \<and> dk_tree d = sample_keyless_tree"
proof -
  obtain d r where d: "prepare_server_files sample_externals sample_keys sample_install_env sample_paths True (sample_disk sample_keyless_tree) = (d, r)"
    by force
  have "\<not> is_ok r \<and> dk_tree d = dk_tree (sample_disk sample_keyless_tree)"
    using identity_never_replaced [OF d, THEN conjunct2] sample_keyless by (simp add: sample_paths_def sample_disk_def)
  then show ?thesis using d by (auto simp: sample_disk_def)
qed

text \<open>
  A listing that fails counts as an empty folder: with the same files, when only the first operation, the listing of the
  ledger, fails, the start succeeds and puts a new validator key beside the filled ledger.
\<close>
theorem unlisted_ledger_gets_new_key:
  "\<exists>d. prepare_server_files sample_externals sample_keys sample_install_env sample_paths True
       ((sample_disk sample_keyless_tree)\<lparr>dk_fails := \<lambda>i. i = 0\<rparr>) = (d, Ok ()) \<and>
     fmlookup (dk_tree d) [''data'', ''v.key''] = Some (File sample_key_text)"
  by (simp add: prepare_server_files_def sample_disk_def sample_paths_def marker_path_def parent_or_self_def path_exists_lookup
        sample_keyless_tree_def sample_tree_def fmlookup_of_list MARKER_NAME_def initialize_server_def dk_bind_def ledger_has_data_def
        dk_try_def disk_call_def Let_def is_folder_def has_entries_def create_dir_all_def read_text_def read_file_def dk_result_def is_ok_def
        sample_install_env_def node_key_at_def load_or_create_node_key_def str_bytes_def create_if_missing_def write_marker_def dk_return_def
        create_new_def prepare_validators_config_def generate_key_at_def generate_key_file_def write_new_file_def at_new_file_def
        write_new_file_at_def sample_key_text_def)

theorem restart_same_identity_witness:
  "\<exists>t d. prepare_server_files sample_externals sample_keys sample_install_env sample_paths True (sample_disk t) = (d, Ok ()) \<and>
     dk_tree d = t \<and> (\<exists>pk peer. identity_on_disk sample_externals sample_keys sample_install_env sample_paths t pk peer)"
proof -
  obtain d where d: "prepare_server_files sample_externals sample_keys sample_install_env sample_paths True (sample_disk sample_tree) = (d, Ok ())"
    using sample_first_start by blast
  have "ip_ledger sample_paths \<noteq> []" "dk_tree (sample_disk (dk_tree d)) = dk_tree d" "reliable (sample_disk (dk_tree d))"
    by (simp_all add: sample_paths_def sample_disk_def reliable_def)
  from restart_same_identity [OF sample_install_law this(1) d this(2,3)] show ?thesis by blast
qed

theorem torn_marker_blocks_start_witness:
  "\<exists>d. fmlookup (dk_tree d) [''data'', ''v.key''] = Some (File sample_key_text) \<and> reliable d \<and>
     \<not> is_ok (snd (prepare_server_files sample_externals sample_keys sample_install_env sample_paths True d))"
proof -
  let ?d = "(sample_disk sample_tree)\<lparr>dk_fails := (\<lambda>i. i = 1), dk_torn := (\<lambda>_. 5)\<rparr>"
  let ?m = "marker_path (ip_ledger sample_paths)"
  obtain d1 r where w: "write_marker ?m ''k'' ''p'' ?d = (d1, r)" by force
  have kept: "fmlookup (dk_tree d1) [''data'', ''v.key''] = Some (File sample_key_text)"
    using keptD [OF keepsD [OF keeps_write_marker w], of "[''data'', ''v.key'']"] sample_validator_file by (simp add: sample_disk_def)
  have "\<not> path_exists (dk_tree ?d) ?m" "is_folder (dk_tree ?d) (parent_or_self (ip_ledger sample_paths))" "\<not> dk_fails ?d (dk_count ?d)"
    "dk_fails ?d (dk_count ?d + 1)" "dk_torn ?d (dk_count ?d + 1) < length (''version=1'' @ [CHR 0x0A] @ ''validator_public_key='')"
    by (simp_all add: sample_disk_def sample_tree_def path_exists_lookup fmlookup_of_list sample_paths_def marker_path_def
        parent_or_self_def MARKER_NAME_def is_folder_def)
  from torn_marker_blocks_start [OF w this, of "sample_disk (dk_tree d1)" sample_externals sample_keys sample_install_env True] kept
  show ?thesis by (intro exI [of _ "sample_disk (dk_tree d1)"]) (simp add: sample_disk_def reliable_def)
qed

theorem reset_loses_no_file_witness:
  "\<exists>q. fmlookup (dk_tree (fst (initialize_new_server_node sample_externals sample_keys sample_install_env sample_paths (sample_disk sample_tree)))) q =
     Some (File sample_key_text)"
proof -
  obtain d1 r1 d2 r2 where
    run: "initialize_new_server_node sample_externals sample_keys sample_install_env sample_paths (sample_disk sample_tree) = (d1, r1)"
    "clean_ledger_preserving_identity sample_install_env (ip_ledger sample_paths) (sample_disk sample_tree) = (d2, r2)" by force
  have "tree_ok (dk_tree (sample_disk sample_tree))" "last (ip_validator_key sample_paths) \<noteq> ''validators.json''"
    "fmlookup (dk_tree (sample_disk sample_tree)) [''data'', ''v.key''] = Some (File sample_key_text)"
    using sample_tree_ok sample_validator_file by (simp_all add: sample_disk_def sample_paths_def)
  from reset_loses_no_file [OF this(1) disjI2 [OF this(2)] run this(3)] run show ?thesis by auto
qed

end
