(* ===== verification/Node_Tools.thy ===== *)
theory Node_Tools
  imports Rpc Wire Installation
begin

text \<open>
  The parts of the node program around its event loop (\<open>src/main.rs\<close>): transfers from the command line through the RPC
  server, the choice of the role, network settings and bootstrap addresses, the validator list on disk, key files of
  older installations, the password of the node wallet and the choice of ports. The parsers of multiaddresses and of
  JSON files and the sockets are parameters.
\<close>

datatype tool_error =
    AmountFormat | AmountTooLarge | RpcUnreachable | HttpFormat | BadRpcJson | QuantityMissing | BadRpcQuantity
  | FeeAboveBalance | InsufficientBalance u128 u128 | NonceRange | SubmitFailed json
  | SyncQuorumRange | SettingsUnreadable | SettingsFormat | SettingsNotSaved | BadMultiaddr string | ForeignPeerId string
  | NothingToSet | BootstrapMissing | BootstrapUnreadable | BootstrapFormat | NoBootstrapPeers
  | ValidatorsUnreadable | ValidatorsFormat | WrongValidatorChain | NoValidatorsListed | ValidatorsNotSaved
  | ToolIo | ToolKey keystore_error | PasswordUnreadable | NewPasswordUnreadable | PasswordFileNotReplaced
  | NoFreePort u16 u16 | PortTaken u16

subsection \<open>Amounts\<close>

definition split_once :: "char \<Rightarrow> string \<Rightarrow> (string \<times> string) option" where
  "split_once c s = (if c \<in> set s then Some (takeWhile (\<lambda>x. x \<noteq> c) s, drop 1 (dropWhile (\<lambda>x. x \<noteq> c) s)) else None)"

text \<open>\<open>str::parse\<close> of a text of digits.\<close>

definition parse_decimal :: "string \<Rightarrow> 'a::len word option" where
  "parse_decimal s = (if s \<noteq> [] \<and> digits_value s < 2 ^ LENGTH('a) then Some (of_nat (digits_value s)) else None)"

definition parse_ieum_amount :: "string \<Rightarrow> (u128, tool_error) result" where
  "parse_ieum_amount v =
     (let (whole, fraction) = (case split_once (CHR ''.'') v of Some p \<Rightarrow> p | None \<Rightarrow> (v, [])) in
      if whole = [] \<or> length fraction > 18 \<or> \<not> list_all is_ascii_digit whole \<or> \<not> list_all is_ascii_digit fraction
      then Err AmountFormat
      else
        and_then (ok_or (parse_decimal whole) AmountTooLarge) (\<lambda>w.
        and_then (ok_or (parse_decimal (fraction @ replicate (18 - length fraction) (CHR ''0''))) AmountFormat) (\<lambda>f.
        ok_or (Option.bind (checked_mul w (10 ^ 18)) (\<lambda>m. checked_add m f)) AmountTooLarge)))"

subsection \<open>The client of the RPC server\<close>

record 's rpc_client =
  cl_json :: "json \<Rightarrow> bytes"
  cl_parse :: "bytes \<Rightarrow> json option"
  cl_transaction :: "transaction \<Rightarrow> json"
  cl_exchange :: "bytes \<Rightarrow> 's \<Rightarrow> 's \<times> bytes option"

fun after_blank_line :: "bytes \<Rightarrow> bytes option" where
  "after_blank_line [] = None"
| "after_blank_line (b # bs) = (if take 4 (b # bs) = [13, 10, 13, 10] then Some (drop 4 (b # bs)) else after_blank_line bs)"

definition crlf :: string where
  "crlf = [CHR 0x0D, CHR 0x0A]"

definition http_request :: "u16 \<Rightarrow> bytes \<Rightarrow> bytes" where
  "http_request port body =
     str_bytes (''POST / HTTP/1.1'' @ crlf @ ''Host: 127.0.0.1:'' @ dec_digits (unat port) @ crlf @ ''Content-Type: application/json'' @ crlf @
       ''Content-Length: '' @ dec_digits (length body) @ crlf @ ''Connection: close'' @ crlf @ crlf) @ body"

definition rpc_call :: "'s rpc_client \<Rightarrow> u16 \<Rightarrow> json \<Rightarrow> 's \<Rightarrow> 's \<times> (json, tool_error) result" where
  "rpc_call C port request s =
     (case cl_exchange C (http_request port (cl_json C request)) s of
        (s1, None) \<Rightarrow> (s1, Err RpcUnreachable)
      | (s1, Some response) \<Rightarrow>
        (s1, and_then (ok_or (after_blank_line response) HttpFormat) (\<lambda>body. ok_or (cl_parse C body) BadRpcJson)))"

definition parse_rpc_quantity :: "json \<Rightarrow> (u128, tool_error) result" where
  "parse_rpc_quantity response =
     and_then (ok_or (Option.bind (json_get response ''result'') as_str) QuantityMissing) (\<lambda>v.
     ok_or (from_str_radix16 (trim_start_0x v)) BadRpcQuantity)"

definition rpc_request :: "int \<Rightarrow> string \<Rightarrow> json list \<Rightarrow> json" where
  "rpc_request i m params =
     JObject [(''jsonrpc'', JString ''2.0''), (''id'', JNumber i), (''method'', JString m), (''params'', JArray params)]"

definition transfer_amount :: "string \<Rightarrow> u128 \<Rightarrow> u128 \<Rightarrow> (u128, tool_error) result" where
  "transfer_amount amount fee balance =
     and_then (if to_ascii_lowercase amount = ''all''
               then (if fee \<le> balance then Ok (balance - fee) else Err FeeAboveBalance)
               else parse_ieum_amount amount) (\<lambda>n.
     if (case checked_add n fee of None \<Rightarrow> True | Some needed \<Rightarrow> needed > balance)
     then Err (InsufficientBalance balance (saturating_add n fee)) else Ok n)"

definition send_wallet_balance ::
  "externals \<Rightarrow> 's rpc_client \<Rightarrow> wallet \<Rightarrow> string \<Rightarrow> string \<Rightarrow> string \<Rightarrow> u16 \<Rightarrow> 's \<Rightarrow> 's \<times> (unit, tool_error) result" where
  "send_wallet_balance X C w to amount fee_text port s =
     (case parse_ieum_amount fee_text of
        Inl e \<Rightarrow> (s, Err e)
      | Inr fee \<Rightarrow>
        (case rpc_call C port (rpc_request 1 ''eth_getBalance'' [JString (wallet_address X w), JString ''latest'']) s of
           (s1, r1) \<Rightarrow>
           (case and_then r1 (\<lambda>balance_response. and_then (parse_rpc_quantity balance_response) (transfer_amount amount fee)) of
              Inl e \<Rightarrow> (s1, Err e)
            | Inr n \<Rightarrow>
              (case rpc_call C port (rpc_request 2 ''eth_getTransactionCount'' [JString (wallet_address X w), JString ''pending'']) s1 of
                 (s2, r2) \<Rightarrow>
                 (case and_then r2 (\<lambda>nonce_response. and_then (parse_rpc_quantity nonce_response) (\<lambda>q.
                       if unat q < 2 ^ 64 then Ok (ucast q :: u64) else Err NonceRange)) of
                    Inl e \<Rightarrow> (s2, Err e)
                  | Inr nonce \<Rightarrow>
                    (case rpc_call C port (rpc_request 3 ''ieum_sendSignedTransaction''
                         [cl_transaction C (wallet_sign_transfer X w to n fee nonce)]) s2 of
                       (s3, r3) \<Rightarrow>
                       (s3, and_then r3 (\<lambda>response. case json_get response ''error'' of
                              Some e \<Rightarrow> Err (SubmitFailed e) | None \<Rightarrow> Ok ()))))))))"

subsection \<open>Validators on disk\<close>

record validators_file =
  vf_chain_id :: string
  vf_validators :: "validator list"

definition load_validators :: "(string \<Rightarrow> validators_file option) \<Rightarrow> string option \<Rightarrow> (validator list, tool_error) result" where
  "load_validators parse file =
     and_then (ok_or file ValidatorsUnreadable) (\<lambda>contents.
     and_then (ok_or (parse contents) ValidatorsFormat) (\<lambda>config.
     and_then (ensure (vf_chain_id config = ''21004'') WrongValidatorChain) (\<lambda>_.
     and_then (ensure (vf_validators config \<noteq> []) NoValidatorsListed) (\<lambda>_. Ok (vf_validators config)))))"

text \<open>The list is written to a new temporary file and renamed into place.\<close>

definition save_validators ::
  "(validators_file \<Rightarrow> string) \<Rightarrow> atomic_io \<Rightarrow> validator list \<Rightarrow> string option \<Rightarrow> string option \<times> (unit, tool_error) result" where
  "save_validators json io validators file =
     (case io of
        AtomicDone \<Rightarrow> (Some (json \<lparr>vf_chain_id = ''21004'', vf_validators = validators\<rparr> @ [CHR 0x0A]), Ok ())
      | _ \<Rightarrow> (file, Err ValidatorsNotSaved))"

definition load_validator_wallet ::
  "externals \<Rightarrow> key_externals \<Rightarrow> string option \<Rightarrow> nat \<Rightarrow> bool \<Rightarrow> (wallet, tool_error) result" where
  "load_validator_wallet X K file index allow_insecure_test_keys =
     (if allow_insecure_test_keys then Ok (kx_wallet K (testnet_validator_seed index))
      else
        and_then (ok_or file ToolIo) (\<lambda>v.
        and_then (map_err ToolKey (parse_seed X v)) (\<lambda>seed. Ok (kx_wallet K seed))))"

subsection \<open>The role of the node\<close>

datatype run_mode = Auto | Client | Public | ValidatorMode

definition approved_local_validator ::
  "externals \<Rightarrow> key_externals \<Rightarrow> (string \<Rightarrow> validators_file option) \<Rightarrow> string option \<Rightarrow> string option \<Rightarrow> bool" where
  "approved_local_validator X K parse key_file validators \<longleftrightarrow>
     key_file \<noteq> None \<and> validators \<noteq> None \<and>
     (case and_then (map_err ToolKey (public_key_from_file X K key_file)) (\<lambda>public_key.
             and_then (load_validators parse validators) (\<lambda>vs.
             Ok (list_ex (\<lambda>v. to_ascii_lowercase (val_id v) = to_ascii_lowercase public_key) vs))) of
        Inr approved \<Rightarrow> approved
      | Inl _ \<Rightarrow> False)"

definition selected_mode :: "bool \<Rightarrow> run_mode \<Rightarrow> run_mode" where
  "selected_mode approved requested = (if requested = Auto then if approved then ValidatorMode else Client else requested)"

text \<open>\<open>parse::<usize>\<close> allows a plus sign in front.\<close>

definition parse_usize :: "string \<Rightarrow> nat option" where
  "parse_usize s =
     (let ds = (case s of [] \<Rightarrow> [] | c # cs \<Rightarrow> if c = CHR ''+'' then cs else s) in
      if ds \<noteq> [] \<and> list_all is_ascii_digit ds \<and> digits_value ds < 2 ^ 64 then Some (digits_value ds) else None)"

definition parse_sync_quorum_peers :: "string \<Rightarrow> (nat, tool_error) result" where
  "parse_sync_quorum_peers v =
     and_then (ok_or (parse_usize v) SyncQuorumRange) (\<lambda>peers. if 2 \<le> peers \<and> peers \<le> 3 then Ok peers else Err SyncQuorumRange)"

subsection \<open>Network settings\<close>

record network_settings =
  st_bootstrap_peers :: "string list"
  st_advertise_address :: "string option"

record settings_env =
  sv_parse_settings :: "string \<Rightarrow> network_settings option"
  sv_settings_json :: "network_settings \<Rightarrow> string"
  sv_parse_bootstrap :: "string \<Rightarrow> string list option"
  sv_parse_addr :: "string \<Rightarrow> multiaddr option"
  sv_addr_text :: "multiaddr \<Rightarrow> string"
  sv_addr_order :: "multiaddr \<Rightarrow> bytes"

fun multiaddr_peer_id :: "multiaddr \<Rightarrow> string option" where
  "multiaddr_peer_id [] = None"
| "multiaddr_peer_id (P2p peer # rest) = Some peer"
| "multiaddr_peer_id (_ # rest) = multiaddr_peer_id rest"

definition parse_addresses :: "settings_env \<Rightarrow> string list \<Rightarrow> (multiaddr list, tool_error) result" where
  "parse_addresses V = (\<lambda>addresses. for_each (\<lambda>a acc. and_then (ok_or (sv_parse_addr V a) (BadMultiaddr a)) (\<lambda>m. Ok (acc @ [m]))) addresses [])"

definition DEFAULT_BOOTSTRAP_PEERS :: "string list" where
  "DEFAULT_BOOTSTRAP_PEERS =
     [''/dns4/node.ieum.aah.name/udp/7001/quic-v1/p2p/12D3KooWGABnBEucGacnREpBieFwspL5q7Aa6RRuj1MtxEYwrPo2'',
      ''/dns4/node.ieum.aah.name/udp/7002/quic-v1/p2p/12D3KooWLqqVdBzWGGc3bjaarVpsu2WA6DTYuzKGoYCznbgrugnX'',
      ''/dns4/node.ieum.aah.name/udp/7003/quic-v1/p2p/12D3KooWE18Cv12b4R5bjrZg1RDGiPXbMDQZqz1t9rfrNaLpwDRB'',
      ''/dns4/node.ieum.aah.name/udp/7004/quic-v1/p2p/12D3KooWCByiTkyDHySsS3GRFVHue1ewPGSdgSWEvzMrtwggM3Wg'']"

definition default_bootstrap_peers :: "settings_env \<Rightarrow> (multiaddr list, tool_error) result" where
  "default_bootstrap_peers V = parse_addresses V DEFAULT_BOOTSTRAP_PEERS"

definition load_network_settings :: "settings_env \<Rightarrow> bool \<Rightarrow> string option \<Rightarrow> (network_settings, tool_error) result" where
  "load_network_settings V readable file =
     (case file of
        None \<Rightarrow> Ok \<lparr>st_bootstrap_peers = [], st_advertise_address = None\<rparr>
      | Some contents \<Rightarrow> and_then (ensure readable SettingsUnreadable) (\<lambda>_. ok_or (sv_parse_settings V contents) SettingsFormat))"

definition save_network_settings ::
  "settings_env \<Rightarrow> create_io \<Rightarrow> network_settings \<Rightarrow> string option \<Rightarrow> string option \<times> (unit, tool_error) result" where
  "save_network_settings V io settings file =
     (let contents = sv_settings_json V settings @ [CHR 0x0A] in
      case io of
        CreateDone \<Rightarrow> (Some contents, Ok ())
      | CreateRefused \<Rightarrow> (file, Err SettingsNotSaved)
      | CreateWriteFailed n \<Rightarrow> (Some (take n contents), Err SettingsNotSaved))"

definition configured_bootstrap_peers :: "settings_env \<Rightarrow> bool \<Rightarrow> string option \<Rightarrow> (multiaddr list, tool_error) result" where
  "configured_bootstrap_peers V readable file =
     and_then (load_network_settings V readable file) (\<lambda>settings.
     if st_bootstrap_peers settings = [] then default_bootstrap_peers V else parse_addresses V (st_bootstrap_peers settings))"

definition ensure_peer_id :: "multiaddr \<Rightarrow> string \<Rightarrow> (multiaddr, tool_error) result" where
  "ensure_peer_id address local_peer_id =
     (case multiaddr_peer_id address of
        Some peer_id \<Rightarrow> if peer_id \<noteq> local_peer_id then Err (ForeignPeerId peer_id) else Ok (butlast address)
      | None \<Rightarrow> Ok address)"

definition repair_local_advertise_address ::
  "settings_env \<Rightarrow> bool \<Rightarrow> create_io \<Rightarrow> string \<Rightarrow> string option \<Rightarrow> string option \<times> (network_settings, tool_error) result" where
  "repair_local_advertise_address V readable io local_peer_id file =
     (case load_network_settings V readable file of
        Inl e \<Rightarrow> (file, Err e)
      | Inr settings \<Rightarrow>
        (case st_advertise_address settings of
           None \<Rightarrow> (file, Ok settings)
         | Some v \<Rightarrow>
           (case sv_parse_addr V v of
              None \<Rightarrow> (file, Err (BadMultiaddr v))
            | Some address \<Rightarrow>
              if (case multiaddr_peer_id address of Some peer_id \<Rightarrow> peer_id \<noteq> local_peer_id | None \<Rightarrow> False) then
                (let repaired = settings\<lparr>st_advertise_address := Some (sv_addr_text V (butlast address @ [P2p local_peer_id]))\<rparr> in
                 case save_network_settings V io repaired file of (file1, r) \<Rightarrow> (file1, and_then r (\<lambda>_. Ok repaired)))
              else (file, Ok settings))))"

text \<open>The addresses a starting node announces, in \<open>main\<close>.\<close>

definition external_addresses ::
  "settings_env \<Rightarrow> bool \<Rightarrow> create_io \<Rightarrow> string \<Rightarrow> string option \<Rightarrow> string option \<times> (multiaddr list, tool_error) result" where
  "external_addresses V readable io local_peer_id file =
     (case repair_local_advertise_address V readable io local_peer_id file of
        (file1, r) \<Rightarrow>
        (file1, and_then r (\<lambda>settings.
           case st_advertise_address settings of
             None \<Rightarrow> Ok []
           | Some address \<Rightarrow>
             and_then (ok_or (sv_parse_addr V address) (BadMultiaddr address)) (\<lambda>parsed.
             and_then (ensure_peer_id parsed local_peer_id) (\<lambda>m. Ok [m])))))"

definition load_bootstrap_peers ::
  "settings_env \<Rightarrow> bool \<Rightarrow> string option \<Rightarrow> bool \<Rightarrow> string option \<Rightarrow> multiaddr list \<Rightarrow> (multiaddr list, tool_error) result" where
  "load_bootstrap_peers V readable settings_file default_path file command_line_peers =
     and_then
       (if default_path then configured_bootstrap_peers V readable settings_file
        else case file of
          Some contents \<Rightarrow>
            and_then (ensure readable BootstrapUnreadable) (\<lambda>_.
            and_then (ok_or (sv_parse_bootstrap V contents) BootstrapFormat) (parse_addresses V))
        | None \<Rightarrow> if command_line_peers = [] then Err BootstrapMissing else Ok []) (\<lambda>configured.
     let peers = remdups_adj (sort_key (sv_addr_order V) (configured @ command_line_peers))
     in if peers = [] then Err NoBootstrapPeers else Ok peers)"

definition dialled_peers :: "string \<Rightarrow> multiaddr list \<Rightarrow> multiaddr list" where
  "dialled_peers local_peer_id = filter (\<lambda>address. multiaddr_peer_id address \<noteq> Some local_peer_id)"

datatype network_command_config = ShowSettings | SetSettings "multiaddr list" "multiaddr option" | ResetSettings

fun run_network_command ::
  "settings_env \<Rightarrow> bool \<Rightarrow> create_io \<Rightarrow> bool \<Rightarrow> network_command_config \<Rightarrow> string option \<Rightarrow> string option \<times> (unit, tool_error) result" where
  "run_network_command V readable io removed ShowSettings file =
     (file, and_then (load_network_settings V readable file) (\<lambda>_. Ok ()))"
| "run_network_command V readable io removed (SetSettings bootstrap_peers advertise_address) file =
     (if bootstrap_peers = [] \<and> advertise_address = None then (file, Err NothingToSet)
      else case load_network_settings V readable file of
        Inl e \<Rightarrow> (file, Err e)
      | Inr settings \<Rightarrow>
        (let s1 = (if bootstrap_peers = [] then settings
                   else settings\<lparr>st_bootstrap_peers := map (sv_addr_text V) bootstrap_peers\<rparr>);
             s2 = (case advertise_address of None \<Rightarrow> s1 | Some a \<Rightarrow> s1\<lparr>st_advertise_address := Some (sv_addr_text V a)\<rparr>)
         in save_network_settings V io s2 file))"
| "run_network_command V readable io removed ResetSettings file =
     (if file = None \<or> removed then (None, Ok ()) else (file, Err ToolIo))"

subsection \<open>Keys of older installations\<close>

definition legacy_keys :: "(path \<times> path) list" where
  "legacy_keys =
     [([''data'', ''server.node.key''], [''data'', ''keys'', ''p2p_identity.key'']),
      ([''config'', ''validator.key''], [''data'', ''keys'', ''consensus_signing.key'']),
      ([''data'', ''reward.key''], [''data'', ''keys'', ''node_reward_signing.key''])]"

definition set_private_file_permissions :: "path \<Rightarrow> (unit, tool_error) disk_op" where
  "set_private_file_permissions p = disk_call (\<lambda>t. if path_exists t p then Some t else None) (\<lambda>_ t. t) ToolIo"

definition migrate_key :: "path \<times> path \<Rightarrow> (unit, tool_error) disk_op" where
  "migrate_key = (\<lambda>(legacy, current) d.
     if path_exists (dk_tree d) current \<or> \<not> path_exists (dk_tree d) legacy then (d, Ok ())
     else
       dk_bind (create_dir_all ToolIo (butlast current)) (\<lambda>_.
       dk_bind (rename_path ToolIo legacy current) (\<lambda>_. set_private_file_permissions current)) d)"

fun migrate_keys :: "(path \<times> path) list \<Rightarrow> (unit, tool_error) disk_op" where
  "migrate_keys [] = dk_return ()"
| "migrate_keys (k # ks) = dk_bind (migrate_key k) (\<lambda>_. migrate_keys ks)"

definition migrate_legacy_key_files :: "(unit, tool_error) disk_op" where
  "migrate_legacy_key_files = migrate_keys legacy_keys"

definition load_or_create_reward_wallet ::
  "externals \<Rightarrow> key_externals \<Rightarrow> bytes \<Rightarrow> path \<Rightarrow> (wallet, tool_error) disk_op" where
  "load_or_create_reward_wallet X K seed p d =
     (if path_exists (dk_tree d) p then
        dk_bind (read_file ToolIo p) (\<lambda>v.
        dk_result (and_then (map_err ToolKey (parse_seed X v)) (\<lambda>old. Ok (kx_wallet K old)))) d
      else
        dk_bind (create_dir_all ToolIo (butlast p)) (\<lambda>_.
        dk_bind (write_file ToolIo p (hex_encode X seed)) (\<lambda>_.
        dk_bind (set_private_file_permissions p) (\<lambda>_. dk_return (kx_wallet K seed)))) d)"

subsection \<open>The password of the node wallet\<close>

text \<open>The password file is replaced by renaming, when the temporary file could be written and renamed; that file is not modelled.\<close>

definition atomic_private_write :: "bool \<Rightarrow> string \<Rightarrow> node_wallet_files \<Rightarrow> node_wallet_files \<times> bool" where
  "atomic_private_write replaced contents fs = (if replaced then (fs\<lparr>nw_password := Some contents\<rparr>, True) else (fs, False))"

text \<open>
  \<open>io\<close>, \<open>io2\<close>: the outcomes of the change of the key store and of its restoration; \<open>replaced\<close>: whether the password file
  could be replaced.
\<close>

definition change_password_command ::
  "externals \<Rightarrow> key_externals \<Rightarrow> keystore_codec \<Rightarrow> change_io \<Rightarrow> bool \<Rightarrow> change_io \<Rightarrow> bytes \<times> bytes \<Rightarrow> bytes \<times> bytes \<Rightarrow> string option
     \<Rightarrow> node_wallet_files \<Rightarrow> node_wallet_files \<times> (unit, tool_error) result" where
  "change_password_command X K C io replaced io2 fresh fresh2 new_password_file fs =
     (case nw_password fs of
        None \<Rightarrow> (fs, Err PasswordUnreadable)
      | Some old_text \<Rightarrow>
        (case new_password_file of
           None \<Rightarrow> (fs, Err NewPasswordUnreadable)
         | Some new_text \<Rightarrow>
           (let old = trim_text old_text; new = trim_text new_text in
            case change_password X K C io (fst fresh) (snd fresh) old new fs of
              (fs1, Inl e) \<Rightarrow> (fs1, Err (ToolKey e))
            | (fs1, Inr _) \<Rightarrow>
              (case atomic_private_write replaced new fs1 of
                 (fs2, True) \<Rightarrow> (fs2, Ok ())
               | (fs2, False) \<Rightarrow>
                 (fst (change_password X K C io2 (fst fresh2) (snd fresh2) new old fs2), Err PasswordFileNotReplaced)))))"

subsection \<open>Ports\<close>

definition port_range :: "u16 \<Rightarrow> u16 \<Rightarrow> u16 list" where
  "port_range start attempts = map of_nat [unat start..<unat (saturating_add start attempts) + 1]"

definition first_available_port :: "(u16 \<Rightarrow> bool) \<Rightarrow> u16 \<Rightarrow> u16 \<Rightarrow> (u16, tool_error) result" where
  "first_available_port free start attempts =
     ok_or (find free (port_range start attempts)) (NoFreePort start (saturating_add start attempts))"

definition ensure_port_available :: "(u16 \<Rightarrow> bool) \<Rightarrow> u16 \<Rightarrow> (unit, tool_error) result" where
  "ensure_port_available free port = ensure (free port) (PortTaken port)"

definition prepare_ports ::
  "(u16 \<Rightarrow> bool) \<Rightarrow> (u16 \<Rightarrow> bool) \<Rightarrow> bool \<Rightarrow> u16 \<times> u16 \<Rightarrow> (u16 \<times> u16, tool_error) result" where
  "prepare_ports udp_free tcp_free is_client = (\<lambda>(port, rpc_port).
     if is_client then
       and_then (first_available_port udp_free port 100) (\<lambda>p.
       and_then (first_available_port tcp_free rpc_port 100) (\<lambda>r. Ok (p, r)))
     else
       and_then (ensure_port_available udp_free port) (\<lambda>_.
       and_then (ensure_port_available tcp_free rpc_port) (\<lambda>_. Ok (port, rpc_port))))"

end
