(* ===== verification/Tool_Properties.thy ===== *)
theory Tool_Properties
  imports Node_Tools Rpc_Properties "HOL-Library.Countable"
begin

text \<open>
  Properties of the tools around the event loop: amounts, transfers through the RPC server, announced addresses, migrated
  keys and the change of a password.
\<close>

subsection \<open>Lemmas: amounts\<close>

lemma digits_value_append: "digits_value (s @ replicate k (CHR ''0'')) = digits_value s * 10 ^ k"
proof (induction k)
  case (Suc k)
  have "s @ replicate (Suc k) (CHR ''0'') = (s @ replicate k (CHR ''0'')) @ [CHR ''0'']" by (simp add: replicate_append_same)
  then show ?case using Suc by (simp only: digits_value_snoc) simp
qed simp

lemma digits_value_bound: "list_all is_ascii_digit s \<Longrightarrow> digits_value s < 10 ^ length s"
proof (induction s rule: rev_induct)
  case (snoc c s)
  then have "(of_char c :: nat) - 48 < 10"
    by (simp add: is_ascii_digit_def less_eq_char_def) linarith
  then show ?case using snoc by (simp add: digits_value_snoc)
qed (simp add: digits_value_def)

text \<open>The number of the smallest units in an amount with the given digits before and after the point.\<close>

definition amount_value :: "string \<Rightarrow> string \<Rightarrow> nat" where
  "amount_value w f = digits_value w * 10 ^ 18 + digits_value f * 10 ^ (18 - length f)"

lemma digit_not_point: "list_all is_ascii_digit s \<Longrightarrow> CHR ''.'' \<notin> set s"
  by (auto simp: list_all_iff is_ascii_digit_def less_eq_char_def)

lemma split_point: "CHR ''.'' \<notin> set w \<Longrightarrow> split_once (CHR ''.'') (w @ CHR ''.'' # f) = Some (w, f)"
  by (induction w) (auto simp: split_once_def)

lemma split_once_Some: "split_once c s = Some (w, f) \<Longrightarrow> s = w @ c # f"
  by (induction s arbitrary: w) (auto simp: split_once_def split: if_splits)

lemma amount_parts:
  assumes "w \<noteq> []" and "list_all is_ascii_digit w" and "list_all is_ascii_digit f" and "length f \<le> 18"
  shows "and_then (ok_or (parse_decimal w) AmountTooLarge) (\<lambda>w'.
      and_then (ok_or (parse_decimal (f @ replicate (18 - length f) (CHR ''0''))) AmountFormat) (\<lambda>f'.
      ok_or (Option.bind (checked_mul w' (10 ^ 18)) (\<lambda>m. checked_add m f')) AmountTooLarge)) =
    (if amount_value w f < 2 ^ 128 then Ok (of_nat (amount_value w f) :: u128) else Err AmountTooLarge)"
proof -
  define g where "g = digits_value f * 10 ^ (18 - length f)"
  have "digits_value f * 10 ^ (18 - length f) < 10 ^ length f * 10 ^ (18 - length f)"
    using digits_value_bound [OF assms(3)] by simp
  also have "\<dots> = 10 ^ 18" using assms(4) by (simp flip: power_add)
  finally have f: "g < 10 ^ 18" unfolding g_def .
  then have pf: "parse_decimal (f @ replicate (18 - length f) (CHR ''0'')) = Some (of_nat g :: u128)"
  proof -
    have "f @ replicate (18 - length f) (CHR ''0'') \<noteq> []" by (cases f) simp_all
    then show ?thesis unfolding parse_decimal_def digits_value_append g_def [symmetric] using f by simp
  qed
  show ?thesis
  proof (cases "digits_value w < 2 ^ 128")
    case False
    then have "\<not> amount_value w f < 2 ^ 128" by (simp add: amount_value_def)
    then show ?thesis using False by (simp add: parse_decimal_def)
  next
    case True
    have uw: "unat (of_nat (digits_value w) :: u128) = digits_value w" using True by (simp add: unat_of_nat)
    have uf: "unat (of_nat g :: u128) = g" using f by (simp add: unat_of_nat)
    let ?W = "of_nat (digits_value w) :: u128"
    have u10: "unat (10 ^ 18 :: u128) = 10 ^ 18" by simp
    have pw: "parse_decimal w = Some ?W" using True assms(1) by (simp add: parse_decimal_def)
    have mul: "checked_mul ?W (10 ^ 18) =
        (if digits_value w * 10 ^ 18 < 2 ^ 128 then Some (of_nat (digits_value w * 10 ^ 18)) else None)"
      unfolding checked_mul_def uw u10 by simp
    show ?thesis
    proof (cases "digits_value w * 10 ^ 18 < 2 ^ 128")
      case False
      then show ?thesis unfolding pw pf ok_or_simps and_then_simps mul by (simp add: amount_value_def)
    next
      case fits: True
      have um: "unat (of_nat (digits_value w * 10 ^ 18) :: u128) = digits_value w * 10 ^ 18" using fits by (simp only: unat_of_nat) simp
      have "checked_add (of_nat (digits_value w * 10 ^ 18)) (of_nat g :: u128) =
          (if amount_value w f < 2 ^ 128 then Some (of_nat (amount_value w f)) else None)"
        unfolding checked_add_def um uf amount_value_def g_def [symmetric] by simp
      then show ?thesis unfolding pw pf using fits by (simp only: and_then_simps ok_or_simps mul if_True Option.bind.simps) (simp split: if_splits)
    qed
  qed
qed

lemma amount_starts_with_digit: "parse_ieum_amount s = Ok n \<Longrightarrow> \<exists>c r. s = c # r \<and> is_ascii_digit c"
  by (cases "split_once (CHR ''.'') s"; cases s)
    (auto simp: parse_ieum_amount_def split_once_def split: if_splits)

section \<open>Properties\<close>

text \<open>
  C15: amounts on the command line are read exactly. Digits, or digits, a point and at most 18 digits, give the number of
  smallest units they denote, and an error when that number does not fit into 128 bits; no rounding and no
  wrap-around happens, and every other text is refused.
\<close>
theorem amount_exact:
  "(\<forall>w f. w \<noteq> [] \<and> list_all is_ascii_digit w \<and> list_all is_ascii_digit f \<and> length f \<le> 18 \<longrightarrow>
      parse_ieum_amount (w @ ''.'' @ f) =
        (if amount_value w f < 2 ^ 128 then Ok (of_nat (amount_value w f)) else Err AmountTooLarge) \<and>
      parse_ieum_amount w = (if amount_value w [] < 2 ^ 128 then Ok (of_nat (amount_value w [])) else Err AmountTooLarge)) \<and>
   (\<forall>s. parse_ieum_amount s \<noteq> Err AmountFormat \<longrightarrow>
      (\<exists>w f. w \<noteq> [] \<and> list_all is_ascii_digit w \<and> list_all is_ascii_digit f \<and> length f \<le> 18 \<and> (s = w @ ''.'' @ f \<or> s = w \<and> f = [])))"
proof (intro conjI allI impI; (elim conjE)?)
  fix w f assume d: "w \<noteq> []" "list_all is_ascii_digit w" "list_all is_ascii_digit f" "length f \<le> 18"
  have "split_once (CHR ''.'') w = None" using digit_not_point [OF d(2)] by (simp add: split_once_def)
  then show "parse_ieum_amount w = (if amount_value w [] < 2 ^ 128 then Ok (of_nat (amount_value w [])) else Err AmountTooLarge)"
    using d amount_parts [OF d(1,2), of "[]"] unfolding parse_ieum_amount_def by simp
  show "parse_ieum_amount (w @ ''.'' @ f) = (if amount_value w f < 2 ^ 128 then Ok (of_nat (amount_value w f)) else Err AmountTooLarge)"
    using d amount_parts [OF d] split_point [OF digit_not_point [OF d(2)], of f] unfolding parse_ieum_amount_def by simp
next
  fix s assume s: "parse_ieum_amount s \<noteq> Err AmountFormat"
  show "\<exists>w f. w \<noteq> [] \<and> list_all is_ascii_digit w \<and> list_all is_ascii_digit f \<and> length f \<le> 18 \<and> (s = w @ ''.'' @ f \<or> s = w \<and> f = [])"
  proof (cases "split_once (CHR ''.'') s")
    case None
    then show ?thesis using s by (intro exI [of _ s] exI [of _ "[]"]) (auto simp: parse_ieum_amount_def split: if_splits)
  next
    case (Some wf)
    obtain w f where wf: "wf = (w, f)" by force
    with s Some split_once_Some [of "CHR ''.''" s w f] show ?thesis
      by (intro exI [of _ w] exI [of _ f]) (auto simp: parse_ieum_amount_def split: if_splits)
  qed
qed

theorem amount_exact_witness: "parse_ieum_amount ''1.5'' = Ok 1500000000000000000 \<and> parse_ieum_amount ''2'' = Ok 2000000000000000000"
proof -
  have "''1'' \<noteq> [] \<and> list_all is_ascii_digit ''1'' \<and> list_all is_ascii_digit ''5'' \<and> length ''5'' \<le> 18"
    "''2'' \<noteq> [] \<and> list_all is_ascii_digit ''2'' \<and> list_all is_ascii_digit ([] :: string) \<and> length ([] :: string) \<le> 18"
    by (simp_all add: is_ascii_digit_def less_eq_char_def)
  from conjunct1 [OF amount_exact, rule_format, OF this(1)] conjunct1 [OF amount_exact, rule_format, OF this(2)]
  show ?thesis by (simp add: amount_value_def digits_value_def)
qed

subsection \<open>Transfers of rewards\<close>

text \<open>
  The client is connected to the server: a request it sends is handled by the dispatcher, and what follows the blank line in the
  answer of the HTTP library is the JSON text of the dispatcher's answer.
\<close>

definition serves ::
  "externals \<Rightarrow> (rpc_cause \<Rightarrow> string) \<Rightarrow> string \<Rightarrow> u16 \<Rightarrow> 'd rpc_state rpc_client \<Rightarrow> bool" where
  "serves X render empty_batch port C \<longleftrightarrow>
     (\<forall>j. cl_parse C (cl_json C j) = Some j) \<and>
     (\<forall>request s. \<exists>Es response. cl_exchange C (http_request port (cl_json C request)) s =
        (fst (handle_rpc X Es render empty_batch request s), Some response) \<and>
        after_blank_line response = Some (cl_json C (snd (handle_rpc X Es render empty_batch request s))))"

lemma served_call:
  assumes "serves X render eb port C"
  shows "\<exists>Es. rpc_call C port request s =
    (fst (handle_rpc X Es render eb request s), Ok (snd (handle_rpc X Es render eb request s)))"
proof -
  obtain Es response where "cl_exchange C (http_request port (cl_json C request)) s =
        (fst (handle_rpc X Es render eb request s), Some response)"
    "after_blank_line response = Some (cl_json C (snd (handle_rpc X Es render eb request s)))"
    using assms unfolding serves_def by blast
  then show ?thesis using assms by (intro exI [of _ Es]) (simp add: rpc_call_def serves_def)
qed

lemma balance_answer:
  "handle_rpc X Es render eb (rpc_request i ''eth_getBalance'' [JString a, JString t]) s =
    (s, JObject [(''jsonrpc'', JString ''2.0''), (''id'', JNumber i),
      (''result'', JString (quantity_u128 (balance_of (rs_chain s) (resolve_ledger_address X s a))))])"
  by (simp add: handle_rpc_def rpc_request_def rpc_response_def or_null_def text_or_def dispatch_def constant_methods_def state_methods_def
      query_methods_def get_balance_def string_param_def get_index_def Let_def)

lemma hex_text_no_x: "CHR ''x'' \<notin> set (hex_text n)"
proof (induction n rule: hex_text.induct)
  case (1 n)
  have "hex_char d \<noteq> CHR ''x''" if "d < 16" for d
  proof -
    have "list_all (\<lambda>d. hex_char d \<noteq> CHR ''x'') [0..<16]" by code_simp
    then show ?thesis using that by (simp add: list_all_iff)
  qed
  then show ?case using 1 by (simp add: hex_text.simps [of n]) (metis mod_less_divisor zero_less_numeral)
qed

lemma quantity_read_back:
  "parse_rpc_quantity (JObject [(''jsonrpc'', v), (''id'', i), (''result'', JString (quantity_u128 n))]) = Ok n"
proof -
  have "unat n < 2 ^ LENGTH(128)" by (rule unsigned_less)
  then have "from_str_radix16 (hex_text (unat n)) = Some n"
    using from_str_radix16_hex_text [of "unat n", where 'a = 128] by simp
  moreover have "take 2 (hex_text (unat n)) \<noteq> ''0x''"
    using hex_text_no_x [of "unat n"] by (metis in_set_takeD list.set_intros(1,2))
  then have "trim_start_0x (''0x'' @ hex_text (unat n)) = hex_text (unat n)"
    by (simp add: trim_start_0x_step trim_start_0x_id)
  ultimately show ?thesis by (simp add: parse_rpc_quantity_def quantity_u128_def)
qed

text \<open>
  Rewards cannot be sent with the program. Rewards are credited under the address of an Ed25519 wallet, which is hexadecimal
  text without prefix; the server puts 0x in front of every address it is asked about. So, whatever the wallet
  owns, the transfer command of a wallet under whose prefixed address nothing is booked ends with an error and submits nothing,
  for every amount or fee above zero.
\<close>
theorem reward_not_transferable:
  assumes "serves X render empty_batch port C" and "hex_law X" and "parse_ieum_amount fee = Ok f"
    and "f \<noteq> 0 \<or> (\<exists>n. parse_ieum_amount amount = Ok n \<and> n \<noteq> 0)"
    and "fmlookup (rs_wallets s) (''0x'' @ wallet_address X w) = None"
    and "balance_of (rs_chain s) (''0x'' @ wallet_address X w) = 0"
  shows "\<exists>e. send_wallet_balance X C w to amount fee port s = (s, Err e)"
proof -
  let ?a = "wallet_address X w"
  have "to_ascii_lowercase ?a = ?a" unfolding wallet_address_def by (rule lowercase_hex [OF assms(2)])
  then have "resolve_ledger_address X s ?a = ''0x'' @ ?a"
    using assms(5) hex_no_prefix [OF assms(2)] by (simp add: resolve_ledger_address_def rpc_normalize_address_def wallet_address_def Let_def)
  then obtain answer where call: "rpc_call C port (rpc_request 1 ''eth_getBalance'' [JString ?a, JString ''latest'']) s = (s, Ok answer)"
    and q: "parse_rpc_quantity answer = Ok 0"
    using served_call [OF assms(1), of "rpc_request 1 ''eth_getBalance'' [JString ?a, JString ''latest'']" s] quantity_read_back
    unfolding balance_answer using assms(6) by force
  have "\<exists>e. transfer_amount amount f 0 = Err e"
  proof (cases "to_ascii_lowercase amount = ''all''")
    case True
    have "parse_ieum_amount amount \<noteq> Ok n" for n
    proof
      assume "parse_ieum_amount amount = Ok n"
      then obtain c r where c: "amount = c # r" "is_ascii_digit c" using amount_starts_with_digit by blast
      have "ascii_lower c = CHR ''a''" using True by (simp add: c to_ascii_lowercase_def)
      moreover have "ascii_lower c = c" using c(2) by (auto simp: ascii_lower_def is_ascii_digit_def less_eq_char_def)
      ultimately show False using c(2) by (simp add: is_ascii_digit_def less_eq_char_def)
    qed
    then have "f \<noteq> 0" using assms(4) by blast
    then show ?thesis using True by (simp add: transfer_amount_def)
  next
    case False
    have "n + f \<noteq> 0" if "unat n + unat f < 2 ^ 128" "f \<noteq> 0 \<or> n \<noteq> 0" for n
    proof -
      have "unat (n + f) = unat n + unat f" using that(1) by (simp add: unat_word_ariths)
      then show ?thesis using that(2) by (metis add_is_0 unsigned_0 unsigned_eq_0_iff)
    qed
    then show ?thesis using False assms(4)
      by (auto simp: transfer_amount_def checked_add_def and_then_def word_neq_0_conv split: sum.splits)
  qed
  then show ?thesis using assms(3) call q by (auto simp: send_wallet_balance_def)
qed

instance json :: countable
  by countable_datatype

text \<open>A client for the witness: a JSON value is sent as as many bytes as its number in an enumeration.\<close>

definition sample_client :: "externals \<Rightarrow> db_view rpc_state rpc_client" where
  "sample_client X = \<lparr>cl_json = (\<lambda>j. replicate (to_nat j) 1), cl_parse = (\<lambda>bs. Some (from_nat (length bs))), cl_transaction = (\<lambda>_. JNull),
     cl_exchange = (\<lambda>request s. case handle_rpc X (\<lambda>_. sample_env (\<lambda>_. None)) (\<lambda>_. []) [] (from_nat (count_list request 1)) s of
       (s1, answer) \<Rightarrow> (s1, Some ([13, 10, 13, 10] @ replicate (to_nat answer) 1)))\<rparr>"

lemma count_one_digits: "count_list (str_bytes (dec_digits n)) 1 = 0"
proof (induction n rule: dec_digits.induct)
  case (1 n)
  have "list_all (\<lambda>d. str_bytes [digit_char d] \<noteq> [1]) [0..<10]" by code_simp
  then have "(of_char (digit_char d) :: 8 word) \<noteq> 1" if "d < 10" for d
    using that by (auto simp: list_all_iff str_bytes_def)
  from this [of n] this [of "n mod 10"] 1 show ?case
    by (simp add: dec_digits.simps [of n] str_bytes_def)
qed

lemma count_list_replicate: "count_list (replicate n x) x = n"
  by (induction n) simp_all

lemma sample_client_serves: "serves X (\<lambda>_. []) [] 8989 (sample_client X)"
proof -
  have "count_list (http_request 8989 (replicate n 1)) 1 = n" for n
    by (simp add: http_request_def str_bytes_def crlf_def count_one_digits [unfolded str_bytes_def] count_list_replicate)
  then have "\<forall>request s. \<exists>response. cl_exchange (sample_client X) (http_request 8989 (cl_json (sample_client X) request)) s =
      (fst (handle_rpc X (\<lambda>_. sample_env (\<lambda>_. None)) (\<lambda>_. []) [] request s), Some response) \<and>
      after_blank_line response = Some (cl_json (sample_client X) (snd (handle_rpc X (\<lambda>_. sample_env (\<lambda>_. None)) (\<lambda>_. []) [] request s)))"
    by (simp add: sample_client_def split: prod.splits)
  moreover have "\<forall>j. cl_parse (sample_client X) (cl_json (sample_client X) j) = Some j" by (simp add: sample_client_def)
  ultimately show ?thesis unfolding serves_def by blast
qed

definition sample_reward_wallet :: wallet where
  "sample_reward_wallet = \<lparr>w_public_key = replicate 32 7, w_sign = sample_signature (replicate 32 7)\<rparr>"

theorem reward_not_transferable_witness:
  "\<exists>s e. balance_of (rs_chain s) (wallet_address sample_externals sample_reward_wallet) = 10 \<and>
     send_wallet_balance sample_externals (sample_client sample_externals) sample_reward_wallet ''0x01'' ''all'' ''1'' 8989 s = (s, Err e)"
proof -
  let ?a = "wallet_address sample_externals sample_reward_wallet"
  let ?s = "(sample_rpc sample_externals)\<lparr>rs_wallets := fmempty,
      rs_chain := (chain_new sample_externals [])\<lparr>balances := fmupd ?a 10 fmempty\<rparr>\<rparr>"
  have fee: "parse_ieum_amount ''1'' = Ok 1000000000000000000"
    using amount_parts [of "''1''" "[]"]
    by (simp add: parse_ieum_amount_def split_once_def is_ascii_digit_def less_eq_char_def amount_value_def digits_value_def)
  have "?a \<noteq> ''0x'' @ ?a" by (metis append_self_conv2 list.discI)
  then have "fmlookup (rs_wallets ?s) (''0x'' @ ?a) = None" "balance_of (rs_chain ?s) (''0x'' @ ?a) = 0"
    "balance_of (rs_chain ?s) ?a = 10"
    by (simp_all add: balance_of_def get0_def)
  with reward_not_transferable [OF sample_client_serves sample_hex_law fee _ this(1,2), of "''all''" "''0x01''"]
  show ?thesis by fastforce
qed

subsection \<open>Announced addresses\<close>

lemma multiaddr_peer_id_append:
  "multiaddr_peer_id (a @ b) = (case multiaddr_peer_id a of Some p \<Rightarrow> Some p | None \<Rightarrow> multiaddr_peer_id b)"
  by (induction a rule: multiaddr_peer_id.induct) auto

text \<open>
  The repair of an announced address works for plain addresses and shuts out relayed ones. When the configured address ends with
  the identity of another node, a start replaces it by the node's own and announces the address in front of it. When the
  first identity in the address is not its last part, as in every address through a relay, the repair changes
  the wrong part, and no start succeeds, however the settings file is written.
\<close>
theorem advertise_address_repair:
  assumes "load_network_settings V readable file = Ok settings" and "st_advertise_address settings = Some v"
    and "sv_parse_addr V v = Some (a @ P2p other # b)" and "multiaddr_peer_id a = None" and "other \<noteq> local"
    and "\<forall>m. sv_parse_addr V (sv_addr_text V m) = Some m"
  shows "if b = [] then external_addresses V readable CreateDone local file =
        (Some (sv_settings_json V (settings\<lparr>st_advertise_address := Some (sv_addr_text V (a @ [P2p local]))\<rparr>) @ [CHR 0x0A]), Ok [a])
      else \<not> is_ok (snd (external_addresses V readable io local file))"
proof (cases "b = []")
  case True
  then show ?thesis using assms
    by (simp add: external_addresses_def repair_local_advertise_address_def multiaddr_peer_id_append save_network_settings_def Let_def
        ensure_peer_id_def)
next
  case False
  let ?m = "butlast (a @ P2p other # b) @ [P2p local]"
  have m: "multiaddr_peer_id ?m = Some other" using False assms(4) by (simp add: butlast_append multiaddr_peer_id_append)
  obtain file1 r where save: "save_network_settings V io (settings\<lparr>st_advertise_address := Some (sv_addr_text V ?m)\<rparr>) file = (file1, r)" by force
  have "repair_local_advertise_address V readable io local file =
      (file1, and_then r (\<lambda>_. Ok (settings\<lparr>st_advertise_address := Some (sv_addr_text V ?m)\<rparr>)))"
    using assms save unfolding repair_local_advertise_address_def by (simp add: multiaddr_peer_id_append)
  then have "external_addresses V readable io local file = (file1, and_then r (\<lambda>_. Err (ForeignPeerId other)))"
    using assms(5,6) m by (cases r) (simp_all add: external_addresses_def ensure_peer_id_def)
  then show ?thesis using False by (cases r) (simp_all add: is_ok_def)
qed

instance word :: (len) countable
  by (rule countable_classI [of unat]) (simp add: word_unat_eq_iff)

instance protocol :: countable
  by countable_datatype

definition sample_address :: multiaddr where
  "sample_address = [P2p ''relay'', P2pCircuit, P2p ''self'']"

definition sample_settings_env :: settings_env where
  "sample_settings_env = \<lparr>sv_parse_settings = (\<lambda>t. Some \<lparr>st_bootstrap_peers = [], st_advertise_address = Some t\<rparr>), sv_settings_json = (\<lambda>_. ''{}''),
     sv_parse_bootstrap = (\<lambda>_. None), sv_parse_addr = (\<lambda>t. Some (from_nat (length t))),
     sv_addr_text = (\<lambda>m. replicate (to_nat m) (CHR ''a'')), sv_addr_order = (\<lambda>_. [])\<rparr>"

theorem advertise_address_repair_witness:
  "\<not> is_ok (snd (external_addresses sample_settings_env True CreateDone ''self'' (Some (sv_addr_text sample_settings_env sample_address))))"
proof -
  let ?V = sample_settings_env and ?t = "sv_addr_text sample_settings_env sample_address"
  have law: "\<forall>m. sv_parse_addr ?V (sv_addr_text ?V m) = Some m" by (simp add: sample_settings_env_def)
  have "load_network_settings ?V True (Some ?t) = Ok \<lparr>st_bootstrap_peers = [], st_advertise_address = Some ?t\<rparr>"
    "sv_parse_addr ?V ?t = Some ([] @ P2p ''relay'' # [P2pCircuit, P2p ''self''])"
    using law by (simp_all add: load_network_settings_def sample_settings_env_def sample_address_def)
  from advertise_address_repair [OF this(1) _ this(2) _ _ law, of "''self''" CreateDone] show ?thesis by simp
qed

subsection \<open>Keys of older installations\<close>

lemma keeps_set_private [keeping]: "keeps_tree (set_private_file_permissions p)"
  unfolding set_private_file_permissions_def by (rule kept.obeys_call) (auto split: if_splits)

lemma set_private_same: "set_private_file_permissions p d = (d', r) \<Longrightarrow> dk_tree d' = dk_tree d"
  by (auto simp: set_private_file_permissions_def disk_call_def Let_def split: if_splits)

lemma migrate_key_saved:
  assumes run: "migrate_key (legacy, b @ [name]) d = (d', r)" and ok: "tree_ok (dk_tree d)" and b: "b \<noteq> []"
    and far: "\<not> prefix legacy b" "\<not> prefix b legacy"
  shows "saved b (dk_tree d) (dk_tree d') \<and> tree_ok (dk_tree d') \<and>
    (\<forall>p c. prefix b p \<longrightarrow> fmlookup (dk_tree d) p = Some (File c) \<longrightarrow> fmlookup (dk_tree d') p = Some (File c))"
proof (cases "path_exists (dk_tree d) (b @ [name]) \<or> \<not> path_exists (dk_tree d) legacy")
  case True
  then show ?thesis using run ok by (auto simp: migrate_key_def)
next
  case False
  obtain d1 r1 where c: "create_dir_all ToolIo b d = (d1, r1)" by force
  note s1 = create_dir_all_saved [OF c ok, of b]
  have k1: "tree_kept (dk_tree d) (dk_tree d1)" using keepsD [OF keeps_create_dir_all c] .
  have new: "unused (dk_tree d1) (b @ [name])"
    using create_dir_all_new [OF c, of "b @ [name]"] tree_ok_unused [OF ok] False by auto
  obtain d2 r2 where m: "rename_path ToolIo legacy (b @ [name]) d1 = (d2, r2)" by force
  note s2 = rename_saved [OF m new _ conjunct2 [OF s1], of b]
  have same: "fmlookup (dk_tree d2) p = Some (File c)" if "prefix b p" "fmlookup (dk_tree d1) p = Some (File c)" for p c
  proof -
    have "\<not> prefix (b @ [name]) p" using that(2) new unfolding unused_def path_exists_lookup by blast
    moreover have "\<not> prefix legacy p" using that(1) far by (meson prefix_same_cases)
    ultimately show ?thesis using that(2) rename_path_cases [OF m] by (auto simp: fmlookup_move)
  qed
  have "dk_tree d' = dk_tree d1 \<or> dk_tree d' = dk_tree d2"
    using run False c m by (auto simp: migrate_key_def dk_bind_def split: sum.splits prod.splits dest: set_private_same)
  then show ?thesis using s1 s2 k1 same unfolding tree_kept_def by (metis prefix_append prefix_order.refl saved_trans)
qed

text \<open>
  Keys of an older installation are moved, never replaced. Whichever file operations fail, every file is
  afterwards where it was or below the folder of keys with the same contents, and no file that was already in the folder of keys changes.
\<close>
theorem migration_keeps_keys:
  assumes "migrate_legacy_key_files d = (d', r)" and "tree_ok (dk_tree d)" and "fmlookup (dk_tree d) p = Some (File c)"
  shows "(\<exists>q. fmlookup (dk_tree d') q = Some (File c) \<and> (q = p \<or> prefix [''data'', ''keys''] q)) \<and>
    (prefix [''data'', ''keys''] p \<longrightarrow> fmlookup (dk_tree d') p = Some (File c))"
proof -
  let ?b = "[''data'', ''keys'']"
  have "saved ?b (dk_tree d) (dk_tree d') \<and>
      (\<forall>p c. prefix ?b p \<longrightarrow> fmlookup (dk_tree d) p = Some (File c) \<longrightarrow> fmlookup (dk_tree d') p = Some (File c))"
    if "migrate_keys ks d = (d', r)" "tree_ok (dk_tree d)"
      "\<forall>k \<in> set ks. \<exists>l n. k = (l, ?b @ [n]) \<and> \<not> prefix l ?b \<and> \<not> prefix ?b l" for ks d d' r
    using that
  proof (induction ks arbitrary: d)
    case Nil
    then show ?case by (simp add: dk_return_def)
  next
    case (Cons k ks)
    obtain l n where k: "k = (l, ?b @ [n])" "\<not> prefix l ?b" "\<not> prefix ?b l" using Cons.prems(3) by auto
    obtain d1 r1 where s: "migrate_key k d = (d1, r1)" by force
    note step = migrate_key_saved [OF s [unfolded k(1)] Cons.prems(2) _ k(2,3)]
    show ?case
    proof (cases r1)
      case (Inl e)
      then show ?thesis using Cons.prems(1) s step by (simp add: dk_bind_def)
    next
      case (Inr u)
      then have "migrate_keys ks d1 = (d', r)" using Cons.prems(1) s by (simp add: dk_bind_def)
      from Cons.IH [OF this] step Cons.prems(3) show ?thesis by (auto intro: saved_trans)
    qed
  qed
  from this [OF assms(1) [unfolded migrate_legacy_key_files_def] assms(2)] show ?thesis
    using assms(3) unfolding saved_def by (auto simp: legacy_keys_def)
qed

lemma sample_legacy_tree_ok: "tree_ok (fmap_of_list [([''config''], Folder), ([''config'', ''validator.key''], File ''k'')])"
  unfolding tree_ok_def path_exists_def is_folder_def fmlookup_of_list by (auto simp: fmdom_of_list)

theorem migration_keeps_keys_witness:
  "\<exists>q. fmlookup (dk_tree (fst (migrate_legacy_key_files
      (sample_disk (fmap_of_list [([''config''], Folder), ([''config'', ''validator.key''], File ''k'')]))))) q = Some (File ''k'')"
proof -
  let ?d = "sample_disk (fmap_of_list [([''config''], Folder), ([''config'', ''validator.key''], File ''k'')])"
  obtain d' r where run: "migrate_legacy_key_files ?d = (d', r)" by force
  have "tree_ok (dk_tree ?d)" "fmlookup (dk_tree ?d) [''config'', ''validator.key''] = Some (File ''k'')"
    using sample_legacy_tree_ok by (simp_all add: sample_disk_def fmlookup_of_list)
  from migration_keeps_keys [OF run this] run show ?thesis by auto
qed

subsection \<open>The password of the node wallet\<close>

lemma ws_width_append: "ws_width xs \<noteq> 0 \<Longrightarrow> ws_width (xs @ ys) = ws_width xs \<and> ws_width xs \<le> length xs"
proof -
  assume w: "ws_width xs \<noteq> 0"
  consider "xs = []" | a where "xs = [a]" | a b where "xs = [a, b]" | a b c r where "xs = a # b # c # r"
    by (cases xs rule: remdups_adj.cases) (auto simp: neq_Nil_conv, metis list.exhaust)
  then show ?thesis
  proof cases
    case (2 a)
    then have "9 \<le> a \<and> a \<le> 13 \<or> a = 32" using w by (simp add: ws_width_def split: if_splits)
    then show ?thesis unfolding 2 ws_width_def by (simp only: list.case append_Cons if_True) simp
  next
    case (3 a b)
    then have "(9 \<le> a \<and> a \<le> 13 \<or> a = 32) \<or> (\<not> (9 \<le> a \<and> a \<le> 13 \<or> a = 32) \<and> a = 194 \<and> (b = 133 \<or> b = 160))"
      using w unfolding ws_width_def by (simp only: list.case split: if_splits) auto
    then show ?thesis
      unfolding 3 ws_width_def by (elim disjE conjE) (simp_all only: list.case append_Cons if_True if_False, simp_all)
  qed (use w in \<open>simp_all add: ws_width_def\<close>)
qed

lemma all_white_append: "all_white xs \<Longrightarrow> all_white ys \<Longrightarrow> all_white (xs @ ys)"
proof (induction xs rule: all_white.induct)
  case (1 xs)
  show ?case
  proof (cases "xs = []")
    case False
    then have w: "ws_width xs \<noteq> 0" "all_white (drop (ws_width xs) xs)"
      using 1(2) by (simp_all add: all_white.simps [of xs] split: if_splits)
    then have "all_white (drop (ws_width xs) xs @ ys)" using 1 False by blast
    then show ?thesis using False w ws_width_append [OF w(1), of ys] by (subst all_white.simps) simp
  qed (simp add: 1)
qed

lemma is_blank_append: "is_blank s \<Longrightarrow> is_blank t \<Longrightarrow> is_blank (s @ t)"
  by (simp add: is_blank_def all_white_append)

lemma is_blank_Nil [simp]: "is_blank []"
  by (simp add: is_blank_def all_white.simps)

text \<open>A text is trimmed when no blank part stands at either end.\<close>

definition trimmed :: "string \<Rightarrow> bool" where
  "trimmed s \<longleftrightarrow> (\<forall>n. 0 < n \<longrightarrow> n \<le> length s \<longrightarrow> \<not> is_blank (take n s)) \<and> (\<forall>n < length s. \<not> is_blank (drop n s))"

lemma trim_text_id:
  assumes "trimmed s"
  shows "trim_text s = s"
proof -
  have none: "filter (\<lambda>n. is_blank (take n s)) [1..<length s + 1] = []" "filter (\<lambda>n. is_blank (drop n s)) [0..<length s] = []"
    using assms unfolding filter_empty_conv trimmed_def by (auto simp del: upt_Suc)
  have "[0..<length s + 1] = 0 # [1..<length s + 1]" using upt_conv_Cons [of 0 "length s + 1"] by simp
  then have front: "filter (\<lambda>n. is_blank (take n s)) [0..<length s + 1] = [0]" using none(1) by (simp del: upt_Suc)
  have "filter (\<lambda>n. is_blank (drop n s)) [0..<length s + 1] = [length s]" using none(2) by simp
  then show ?thesis using front unfolding trim_text_def by (simp only: Let_def last_ConsL drop0 list.sel take_all order_refl)
qed

lemma sorted_last: "n \<in> set xs \<Longrightarrow> sorted xs \<Longrightarrow> n \<le> last xs"
  by (induction xs) auto

lemma trim_text_parts:
  obtains p q where "trim_text s = take q (drop p s)" "p \<le> length s" "is_blank (take p s)" "\<And>n. n \<le> length s \<Longrightarrow> is_blank (take n s) \<Longrightarrow> n \<le> p"
    "q \<le> length s - p" "is_blank (drop q (drop p s))" "\<And>n. n \<le> length s - p \<Longrightarrow> is_blank (drop n (drop p s)) \<Longrightarrow> q \<le> n"
proof -
  define F where "F = filter (\<lambda>n. is_blank (take n s)) [0..<length s + 1]"
  define p where "p = last F"
  define G where "G = filter (\<lambda>n. is_blank (drop n (drop p s))) [0..<length (drop p s) + 1]"
  have F: "n \<in> set F \<longleftrightarrow> is_blank (take n s) \<and> n \<le> length s" for n by (auto simp: F_def simp del: upt_Suc)
  have G: "n \<in> set G \<longleftrightarrow> is_blank (drop n (drop p s)) \<and> n \<le> length s - p" for n
    by (auto simp: G_def simp del: upt_Suc drop_drop)
  have sorted: "sorted F" "sorted G" by (simp_all add: F_def G_def sorted_wrt_filter del: upt_Suc)
  have "0 \<in> set F" "length s - p \<in> set G" by (simp_all add: F G)
  then have ne: "F \<noteq> []" "G \<noteq> []" by auto
  then have "p \<in> set F" "hd G \<in> set G" by (simp_all add: p_def)
  moreover have "\<And>n. n \<in> set F \<Longrightarrow> n \<le> p" using sorted_last [OF _ sorted(1)] by (simp add: p_def)
  moreover have "\<And>n. n \<in> set G \<Longrightarrow> hd G \<le> n" using sorted(2) ne(2) by (cases G) auto
  moreover have "trim_text s = take (hd G) (drop p s)" by (simp only: trim_text_def F_def [symmetric] p_def [symmetric] G_def [symmetric] Let_def)
  ultimately show ?thesis using that [of "hd G" p] F G by blast
qed

lemma trim_text_trimmed: "trimmed (trim_text s)"
proof (rule trim_text_parts [of s])
  fix p q assume r: "trim_text s = take q (drop p s)" and p: "p \<le> length s" "is_blank (take p s)" "\<And>n. n \<le> length s \<Longrightarrow> is_blank (take n s) \<Longrightarrow> n \<le> p"
    and q: "q \<le> length s - p" "is_blank (drop q (drop p s))" "\<And>n. n \<le> length s - p \<Longrightarrow> is_blank (drop n (drop p s)) \<Longrightarrow> q \<le> n"
  show ?thesis unfolding trimmed_def r
  proof (intro conjI allI impI notI)
    fix n assume n: "0 < n" "n \<le> length (take q (drop p s))" and "is_blank (take n (take q (drop p s)))"
    then have "is_blank (take p s @ take n (drop p s))" using p(2) by (simp add: is_blank_append min_def split: if_splits)
    then have "is_blank (take (p + n) s)" by (simp add: take_add)
    moreover have "n \<le> q" using n by simp
    ultimately show False using p(3) [of "p + n"] n(1) p(1) q(1) by linarith
  next
    fix n assume n: "n < length (take q (drop p s))" and "is_blank (drop n (take q (drop p s)))"
    then have "is_blank (drop n (take q (drop p s)) @ drop q (drop p s))" using q(2) by (intro is_blank_append)
    moreover have "drop n (take q (drop p s)) @ drop q (drop p s) = drop n (take q (drop p s) @ drop q (drop p s))"
      using n by (simp only: drop_append) simp
    ultimately have "is_blank (drop n (drop p s))" by (simp only: append_take_drop_id)
    then show False using q(3) [of n] n q(1) by (simp add: min_def split: if_splits)
  qed
qed

lemma trim_text_idem: "trim_text (trim_text s) = trim_text s"
  by (rule trim_text_id [OF trim_text_trimmed])

text \<open>
  C32: a change of the password of the node wallet keeps the wallet startable, but for two cases. After the command the next
  start whose reads succeed opens the same wallet, whichever file operation of the command failed, and the command succeeds just
  when the store was replaced and read back and the password file replaced. The exceptions: the store was replaced, and either it
  could not be read back, or the password file was not replaced and the store not restored, for which an old password of fewer
  than ten characters is enough. Then the command reports an error and the store holds the wallet under the new password beside
  the file with the old one; in the second case the message says that the old password was restored.
\<close>
theorem password_command_outcome:
  assumes laws: "hex_law X" "hash_law X"
    and doc: "doc = (\<lambda>pw salt nonce. seal_document X node_labels (kx_wallet_bytes K w) (wallet_address X w) pw salt nonce)"
      "kc_parse C (kc_json C (doc (trim_text new_text) salt nonce)) = Some (doc (trim_text new_text) salt nonce)"
      "kc_parse C (kc_json C (doc (trim_text old_text) salt2 nonce2)) = Some (doc (trim_text old_text) salt2 nonce2)"
    and key: "kx_wallet K (kx_wallet_bytes K w) = w" "length (kx_wallet_bytes K w) = 32"
    and random: "length salt = 32" "length nonce = 32" "length salt2 = 32" "length nonce2 = 32"
    and files: "nw_password fs = Some old_text" "node_wallet_load X K C (nw_store fs) (trim_text old_text) = Ok w"
    and run: "change_password_command X K C io replaced io2 (salt, nonce) (salt2, nonce2) (Some new_text) fs = (fs', r)"
  shows "if store_replaced io (trim_text new_text) \<and>
        (\<not> ch_read_back io \<or> \<not> replaced \<and> \<not> store_replaced io2 (trim_text old_text))
     then r = Err (if ch_read_back io then PasswordFileNotReplaced else ToolKey KeystoreMissing) \<and>
       nw_password fs' = Some old_text \<and> nw_store fs' = Some (kc_json C (doc (trim_text new_text) salt nonce))
     else load_or_create_default X K C cio rio removed bs s n w0 fs' = (fs', Ok w) \<and>
       (r = Ok () \<longleftrightarrow> store_replaced io (trim_text new_text) \<and> ch_read_back io \<and> replaced)"
proof -
  let ?old = "trim_text old_text" and ?new = "trim_text new_text"
  have start: "load_or_create_default X K C cio rio removed bs s n w0 f = (f, Ok w)"
    if "nw_password f = Some t" "node_wallet_load X K C (nw_store f) (trim_text t) = Ok w" for f t
    using that by (cases "nw_store f") (simp_all add: load_or_create_default_def node_wallet_load_def ok_or_def)
  have sealed: "(\<lambda>pw. doc pw s n) = (\<lambda>pw. seal_document X node_labels (kx_wallet_bytes K w) (wallet_address X w) pw s n)" for s n
    by (simp add: doc(1))
  obtain f1 r1 where one: "change_password X K C io salt nonce ?old ?new fs = (f1, r1)" "nw_password f1 = nw_password fs"
      "nw_store f1 = (if store_replaced io ?new then Some (kc_json C (doc ?new salt nonce)) else nw_store fs)"
      "r1 = Ok () \<longleftrightarrow> store_replaced io ?new \<and> ch_read_back io"
      "store_replaced io ?new \<and> \<not> ch_read_back io \<longrightarrow> r1 = Err KeystoreMissing"
      "node_wallet_load X K C (nw_store f1) (if store_replaced io ?new then ?new else ?old) = Ok w"
    by (rule password_change_outcome [where doc = "\<lambda>pw. doc pw salt nonce" and new = ?new and io = io,
          OF laws doc(2) random(1,2) sealed key files(2)])
  show ?thesis
  proof (cases "store_replaced io ?new \<and> ch_read_back io")
    case False
    then have "r1 \<noteq> Ok ()" using one(4) by blast
    then obtain e where e: "r1 = Err e" by (cases r1) auto
    then have "fs' = f1" "r = Err (ToolKey e)" using run one(1) files(1) by (auto simp: change_password_command_def)
    then show ?thesis using False e one files start [of f1 old_text] by auto
  next
    case ok: True
    then have r1: "r1 = Ok ()" using one(4) by blast
    have opens: "node_wallet_load X K C (nw_store f1) ?new = Ok w" using one(6) ok by simp
    show ?thesis
    proof (cases replaced)
      case True
      then have "fs' = f1\<lparr>nw_password := Some ?new\<rparr>" "r = Ok ()"
        using run one(1) r1 files(1) by (auto simp: change_password_command_def atomic_private_write_def)
      then show ?thesis using True ok opens start [of fs' ?new] by (simp add: trim_text_idem)
    next
      case False
      obtain f2 r2 where two: "change_password X K C io2 salt2 nonce2 ?new ?old f1 = (f2, r2)" "nw_password f2 = nw_password f1"
          "nw_store f2 = (if store_replaced io2 ?old then Some (kc_json C (doc ?old salt2 nonce2)) else nw_store f1)"
          "node_wallet_load X K C (nw_store f2) (if store_replaced io2 ?old then ?old else ?new) = Ok w"
        by (rule password_change_outcome [where doc = "\<lambda>pw. doc pw salt2 nonce2" and new = ?old and io = io2,
              OF laws doc(3) random(3,4) sealed key opens])
      have "fs' = f2" "r = Err PasswordFileNotReplaced"
        using run one(1) r1 files(1) two(1) False by (auto simp: change_password_command_def atomic_private_write_def)
      then show ?thesis using False ok one(2,3) two(2-4) files(1) start [of f2 old_text] by auto
    qed
  qed
qed

text \<open>The read-back of the new store fails: the command reports an error and leaves store and password file apart.\<close>
theorem password_command_outcome_witness:
  "\<exists>C doc fs fs'. change_password_command sealing_externals sample_keys C (change_done\<lparr>ch_read_back := False\<rparr>) True change_done
       (replicate 32 1, replicate 32 2) (replicate 32 3, replicate 32 4) (Some ''second-password'') fs = (fs', Err (ToolKey KeystoreMissing)) \<and>
     nw_password fs' = Some ''first'' \<and> nw_store fs' = Some (kc_json C (doc ''second-password''))"
proof -
  let ?X = sealing_externals and ?K = sample_keys and ?io = "change_done\<lparr>ch_read_back := False\<rparr>"
  let ?w = "\<lparr>w_public_key = replicate 32 7, w_sign = sample_signature (replicate 32 7)\<rparr>"
  define doc where "doc = (\<lambda>pw salt nonce. seal_document ?X node_labels (kx_wallet_bytes ?K ?w) (wallet_address ?X ?w) pw salt nonce)"
  let ?new = "doc ''second-password'' (replicate 32 1) (replicate 32 2)" and ?old = "doc ''first'' (replicate 32 3) (replicate 32 4)"
  let ?C = "\<lparr>kc_json = (\<lambda>d. if d = ?new then [1] else [0]), kc_parse = (\<lambda>bs. Some (if bs = [1] then ?new else ?old))\<rparr>"
  let ?fs = "\<lparr>nw_store = Some [0], nw_temporary = None, nw_password = Some ''first''\<rparr>"
  have trim: "trim_text ''second-password'' = ''second-password''" "trim_text ''first'' = ''first''"
    using trim_text_printable [of "''second-password''" "[]"] trim_text_printable [of "''first''" "[]"] by (simp_all add: printable_def)
  have key: "kx_wallet ?K (kx_wallet_bytes ?K ?w) = ?w" "length (kx_wallet_bytes ?K ?w) = 32" by (simp_all add: sample_keys_def)
  have opens: "node_wallet_load ?X ?K ?C (nw_store ?fs) (trim_text ''first'') = Ok ?w"
    unfolding node_wallet_files.simps trim by (rule node_load_sealed [OF sealing_laws _ _ key]) (simp_all add: doc_def)
  obtain fs' r where run: "change_password_command ?X ?K ?C ?io True change_done
      (replicate 32 1, replicate 32 2) (replicate 32 3, replicate 32 4) (Some ''second-password'') ?fs = (fs', r)" by fastforce
  have "kc_parse ?C (kc_json ?C (doc (trim_text ''second-password'') (replicate 32 1) (replicate 32 2))) = Some (doc (trim_text ''second-password'') (replicate 32 1) (replicate 32 2))"
    "kc_parse ?C (kc_json ?C (doc (trim_text ''first'') (replicate 32 3) (replicate 32 4))) = Some (doc (trim_text ''first'') (replicate 32 3) (replicate 32 4))"
    by (simp_all add: trim)
  note out = password_command_outcome [OF sealing_laws doc_def this key length_replicate length_replicate length_replicate length_replicate _ opens run]
  have "store_replaced ?io ''second-password''" "\<not> ch_read_back ?io" by (simp_all add: store_replaced_def change_done_def)
  then have "r = Err (ToolKey KeystoreMissing) \<and> nw_password fs' = Some ''first'' \<and> nw_store fs' = Some (kc_json ?C ?new)"
    using out by (simp add: trim)
  then show ?thesis using run by (intro exI [of _ ?C] exI [of _ "\<lambda>pw. doc pw (replicate 32 1) (replicate 32 2)"] exI [of _ ?fs] exI [of _ fs']) simp
qed

end
