(* ===== verification/Logger.thy ===== *)
theory Logger
  imports File_Tree Archive
begin

text \<open>
  The server log (\<open>src/logger.rs\<close>) and the counters for monitoring (\<open>src/metrics.rs\<close>). The log is a file that is
  compressed into the first of five numbered files when the next line would exceed five megabytes; messages that repeat
  are counted and written only now and then. zstd is a parameter. The files live on a disk whose operations may fail
  (\<open>File_Tree\<close>); what the program prints is kept in a list.

  The lemmas state which files logging can change at all, and what a rotation does to the numbered files.
\<close>

subsection \<open>Log files\<close>

datatype log_error = LogIo | LogInitialized

definition MAX_LOG_BYTES :: nat where
  "MAX_LOG_BYTES = 5 * 1024 * 1024"

definition MAX_COMPRESSED_LOGS :: nat where
  "MAX_COMPRESSED_LOGS = 5"

definition rotated_path :: "path \<Rightarrow> nat \<Rightarrow> path" where
  "rotated_path p i = butlast p @ [last p @ ''.'' @ dec_digits i @ ''.zst'']"

definition remove_if_exists :: "path \<Rightarrow> (unit, log_error) disk_op" where
  "remove_if_exists p d = (if path_exists (dk_tree d) p then remove_file LogIo p d else (d, Ok ()))"

definition shift_log :: "path \<Rightarrow> nat \<Rightarrow> (unit, log_error) disk_op" where
  "shift_log p i d =
     (if path_exists (dk_tree d) (rotated_path p i) then rename_path LogIo (rotated_path p i) (rotated_path p (i + 1)) d
      else (d, Ok ()))"

fun shift_logs :: "path \<Rightarrow> nat list \<Rightarrow> (unit, log_error) disk_op" where
  "shift_logs p [] = dk_return ()"
| "shift_logs p (i # is) = dk_bind (shift_log p i) (\<lambda>_. shift_logs p is)"

definition rotate_log :: "(string \<Rightarrow> string) \<Rightarrow> path \<Rightarrow> (unit, log_error) disk_op" where
  "rotate_log zstd p =
     dk_bind (remove_if_exists (rotated_path p MAX_COMPRESSED_LOGS)) (\<lambda>_.
     dk_bind (shift_logs p (rev [1..<MAX_COMPRESSED_LOGS])) (\<lambda>_.
     dk_bind (read_file LogIo p) (\<lambda>input.
     dk_bind (write_file LogIo (rotated_path p 1) (zstd input)) (\<lambda>_.
     write_file LogIo p []))))"

text \<open>The length of the file by its metadata, 0 when they cannot be read.\<close>

definition current_bytes :: "path \<Rightarrow> disk \<Rightarrow> disk \<times> nat" where
  "current_bytes p d =
     (case disk_call Some (\<lambda>_ t. t) LogIo d of
        (d1, Inl _) \<Rightarrow> (d1, 0)
      | (d1, Inr _) \<Rightarrow> (d1, length (file_text (dk_tree d) p)))"

definition log_append :: "(string \<Rightarrow> string) \<Rightarrow> path \<Rightarrow> string \<Rightarrow> (unit, log_error) disk_op" where
  "log_append zstd p message d =
     (case current_bytes p d of
        (d1, current) \<Rightarrow>
        dk_bind (if current > 0 \<and> min (2 ^ 64 - 1) (current + (length message + 1)) > MAX_LOG_BYTES then rotate_log zstd p else dk_return ()) (\<lambda>_.
          append_text LogIo p (message @ [CHR 0x0A])) d1)"

subsection \<open>Messages\<close>

record server_log =
  sl_logger :: "path option"
  sl_repeated :: "(string, nat) fmap"
  sl_printed :: "(string \<times> bool) list"
  sl_disk :: disk

definition init_server_log :: "path \<Rightarrow> server_log \<Rightarrow> server_log \<times> (unit, log_error) result" where
  "init_server_log p s =
     (case create_dir_all LogIo (butlast p) (sl_disk s) of
        (d1, Inl e) \<Rightarrow> (s\<lparr>sl_disk := d1\<rparr>, Err e)
      | (d1, Inr _) \<Rightarrow>
        if sl_logger s \<noteq> None then (s\<lparr>sl_disk := d1\<rparr>, Err LogInitialized)
        else (s\<lparr>sl_disk := d1, sl_logger := Some p\<rparr>, Ok ()))"

definition print_line :: "string \<Rightarrow> bool \<Rightarrow> server_log \<Rightarrow> server_log" where
  "print_line message is_error s = s\<lparr>sl_printed := sl_printed s @ [(message, is_error)]\<rparr>"

definition to_log :: "(string \<Rightarrow> string) \<Rightarrow> string \<Rightarrow> server_log \<Rightarrow> server_log \<times> (unit, log_error) result" where
  "to_log zstd message s =
     (case sl_logger s of
        None \<Rightarrow> (s, Ok ())
      | Some p \<Rightarrow> (case log_append zstd p message (sl_disk s) of (d1, r) \<Rightarrow> (s\<lparr>sl_disk := d1\<rparr>, r)))"

text \<open>The text of the warning about a failed write is that of the system error.\<close>

definition write_line :: "(string \<Rightarrow> string) \<Rightarrow> (log_error \<Rightarrow> string) \<Rightarrow> string \<Rightarrow> bool \<Rightarrow> server_log \<Rightarrow> server_log" where
  "write_line zstd warning message is_error s =
     (case to_log zstd message (print_line message is_error s) of
        (s1, Inl e) \<Rightarrow> print_line (warning e) True s1
      | (s1, Inr _) \<Rightarrow> s1)"

definition is_decimal_checkpoint :: "nat \<Rightarrow> bool" where
  "is_decimal_checkpoint n \<longleftrightarrow> 10 \<le> n \<and> list_all (\<lambda>digit. digit = CHR ''0'') (drop 1 (dec_digits n))"

text \<open>The suffixes in UTF-8: once, with the following ones counted, and the number of times so far.\<close>

definition repeated_suffix :: "nat \<Rightarrow> string" where
  "repeated_suffix n =
     (if n = 1 then ''1'' @ map char_of ([237, 154, 140, 44, 32, 236, 157, 180, 237, 155, 132, 32, 235, 143, 153, 236, 157, 188, 32,
          235, 169, 148, 236, 139, 156, 236, 167, 128, 32, 236, 167, 145, 234, 179, 132] :: nat list)
      else dec_digits n @ map char_of ([237, 154, 140, 32, 235, 136, 132, 236, 160, 129] :: nat list))"

definition write_repeated :: "(string \<Rightarrow> string) \<Rightarrow> string \<Rightarrow> bool \<Rightarrow> server_log \<Rightarrow> server_log" where
  "write_repeated zstd message is_error s =
     (let n = min (2 ^ 64 - 1) ((case fmlookup (sl_repeated s) message of None \<Rightarrow> 0 | Some k \<Rightarrow> k) + 1);
          s1 = s\<lparr>sl_repeated := fmupd message n (sl_repeated s)\<rparr>
      in if n = 1 \<or> is_decimal_checkpoint n then
           let line = message @ '' ('' @ repeated_suffix n @ '')'' in fst (to_log zstd line (print_line line is_error s1))
         else s1)"

definition write_repeated_error :: "(string \<Rightarrow> string) \<Rightarrow> string \<Rightarrow> server_log \<Rightarrow> server_log" where
  "write_repeated_error zstd message = write_repeated zstd message True"

definition write_repeated_info :: "(string \<Rightarrow> string) \<Rightarrow> string \<Rightarrow> server_log \<Rightarrow> server_log" where
  "write_repeated_info zstd message = write_repeated zstd message False"

subsection \<open>Metrics\<close>

record node_metrics =
  mt_finalized_height :: u64
  mt_peers :: u64
  mt_sync_target :: u64
  mt_consensus_round :: u64
  mt_signer_failures :: u64
  mt_snapshot_retries :: u64

definition set_finalized_height :: "u64 \<Rightarrow> node_metrics \<Rightarrow> node_metrics" where
  "set_finalized_height v m = m\<lparr>mt_finalized_height := v\<rparr>"

definition set_peers :: "nat \<Rightarrow> node_metrics \<Rightarrow> node_metrics" where
  "set_peers v m = m\<lparr>mt_peers := of_nat v\<rparr>"

definition set_sync_target :: "u64 \<Rightarrow> node_metrics \<Rightarrow> node_metrics" where
  "set_sync_target v m = m\<lparr>mt_sync_target := v\<rparr>"

definition set_consensus_round :: "u32 \<Rightarrow> node_metrics \<Rightarrow> node_metrics" where
  "set_consensus_round v m = m\<lparr>mt_consensus_round := ucast v\<rparr>"

definition inc_signer_failures :: "node_metrics \<Rightarrow> node_metrics" where
  "inc_signer_failures m = m\<lparr>mt_signer_failures := mt_signer_failures m + 1\<rparr>"

definition inc_snapshot_retries :: "node_metrics \<Rightarrow> node_metrics" where
  "inc_snapshot_retries m = m\<lparr>mt_snapshot_retries := mt_snapshot_retries m + 1\<rparr>"

definition metric_rows :: "node_metrics \<Rightarrow> (string \<times> u64) list" where
  "metric_rows m =
     [(''ieum_finalized_height'', mt_finalized_height m), (''ieum_peer_count'', mt_peers m), (''ieum_sync_target_height'', mt_sync_target m),
      (''ieum_consensus_round'', mt_consensus_round m), (''ieum_signer_failures_total'', mt_signer_failures m),
      (''ieum_snapshot_retries_total'', mt_snapshot_retries m)]"

definition metric_text :: "string \<times> u64 \<Rightarrow> string" where
  "metric_text = (\<lambda>(name, v). ''# TYPE '' @ name @ '' gauge'' @ [CHR 0x0A] @ name @ '' '' @ dec_digits (unat v) @ [CHR 0x0A])"

definition encode_prometheus :: "node_metrics \<Rightarrow> string" where
  "encode_prometheus m = concat (map metric_text (metric_rows m))"

text \<open>The two routes: the status and the body.\<close>

definition metrics_response :: "node_metrics \<Rightarrow> string \<Rightarrow> (nat \<times> string) option" where
  "metrics_response m route =
     (if route = ''/metrics'' then Some (200, encode_prometheus m) else if route = ''/healthz'' then Some (200, []) else None)"

subsection \<open>Lemmas: which files logging changes\<close>

lemma length_rotated: "p \<noteq> [] \<Longrightarrow> length (rotated_path p i) = length p"
  by (cases p rule: rev_cases) (simp_all add: rotated_path_def)

lemma same_length_prefix: "length p = length q \<Longrightarrow> prefix p q \<longleftrightarrow> p = q"
  by (auto simp: prefix_def)

lemma rotated_inject [simp]: "rotated_path p i = rotated_path p j \<longleftrightarrow> i = j"
  using digits_value_dec by (auto simp: rotated_path_def) metis

lemma rotated_ne [simp]: "p \<noteq> [] \<Longrightarrow> rotated_path p i \<noteq> p" "p \<noteq> [] \<Longrightarrow> p \<noteq> rotated_path p i"
  by (cases p rule: rev_cases; simp add: rotated_path_def)+

lemma butlast_rotated [simp]: "butlast (rotated_path p i) = butlast p"
  by (simp add: rotated_path_def)

text \<open>An operation that changes nothing but what is at or below the given paths.\<close>

definition same_outside :: "path set \<Rightarrow> file_tree \<Rightarrow> file_tree \<Rightarrow> bool" where
  "same_outside S t t' \<longleftrightarrow> (\<forall>q. (\<forall>s \<in> S. \<not> prefix s q) \<longrightarrow> fmlookup t' q = fmlookup t q)"

abbreviation only_below :: "path set \<Rightarrow> ('a, 'e) disk_op \<Rightarrow> bool" where
  "only_below S m \<equiv> obeys (same_outside S) m"

named_theorems touching "which paths an operation can change"

interpretation below: tree_relation "same_outside S" for S
  by unfold_locales (simp_all add: same_outside_def)

lemmas below_rules [touching] = below.obeys_rules

lemma only_belowD: "only_below S m \<Longrightarrow> m d = (d', r) \<Longrightarrow> (\<And>s. s \<in> S \<Longrightarrow> \<not> prefix s q) \<Longrightarrow> fmlookup (dk_tree d') q = fmlookup (dk_tree d) q"
  unfolding obeys_def same_outside_def by blast

lemma only_below_write [touching]: "p \<in> S \<Longrightarrow> only_below S (write_file e p c)"
  unfolding write_file_def by (rule below.obeys_call) (auto simp: same_outside_def split: if_splits)

lemma only_below_append [touching]: "p \<in> S \<Longrightarrow> only_below S (append_text e p c)"
  unfolding append_text_def by (rule below.obeys_call) (auto simp: same_outside_def split: if_splits)

lemma only_below_remove [touching]: "p \<in> S \<Longrightarrow> only_below S (remove_if_exists p)"
  unfolding remove_if_exists_def remove_file_def obeys_def disk_call_def
  by (auto simp: Let_def same_outside_def split: if_splits option.splits file_node.splits)

lemma only_below_shift [touching]: "rotated_path p i \<in> S \<Longrightarrow> rotated_path p (i + 1) \<in> S \<Longrightarrow> only_below S (shift_log p i)"
  unfolding shift_log_def rename_path_def obeys_def disk_call_def
  by (auto simp: Let_def same_outside_def fmlookup_move split: if_splits)

lemma only_below_shifts [touching]: "(\<And>i. i \<in> set is \<Longrightarrow> rotated_path p i \<in> S \<and> rotated_path p (i + 1) \<in> S) \<Longrightarrow> only_below S (shift_logs p is)"
  by (induction "is") (auto intro!: touching)

lemma remove_below: "only_below (rotated_path p ` {1..5}) (remove_if_exists (rotated_path p MAX_COMPRESSED_LOGS))"
  by (intro touching) (simp add: MAX_COMPRESSED_LOGS_def)

lemma shifts_below: "only_below (rotated_path p ` {1..5}) (shift_logs p (rev [1..<MAX_COMPRESSED_LOGS]))"
  by (intro touching) (auto simp: MAX_COMPRESSED_LOGS_def)

lemma only_below_mono: "only_below S m \<Longrightarrow> S \<subseteq> S' \<Longrightarrow> only_below S' m"
  unfolding obeys_def same_outside_def by blast

lemma append_below: "only_below (insert p (rotated_path p ` {1..5})) (log_append zstd p message)"
proof -
  have rotate: "only_below (insert p (rotated_path p ` {1..5})) (rotate_log zstd p)"
    unfolding rotate_log_def by (intro touching only_below_mono [OF remove_below] only_below_mono [OF shifts_below]) auto
  have size: "current_bytes p d = (d1, n) \<Longrightarrow> dk_tree d1 = dk_tree d" for d d1 n
    by (auto simp: current_bytes_def disk_call_def Let_def split: if_splits)
  have rest: "only_below (insert p (rotated_path p ` {1..5})) (dk_bind (if b then rotate_log zstd p else dk_return ()) (\<lambda>_. append_text LogIo p c))" for b c
    by (intro touching rotate) simp
  show ?thesis
    unfolding obeys_def
  proof (intro allI impI)
    fix d d' r assume run: "log_append zstd p message d = (d', r)"
    obtain d1 n where c: "current_bytes p d = (d1, n)" by force
    from run c rest [unfolded obeys_def, rule_format] have "same_outside (insert p (rotated_path p ` {1..5})) (dk_tree d1) (dk_tree d')"
      unfolding log_append_def by (simp only: prod.case)
    with size [OF c] show "same_outside (insert p (rotated_path p ` {1..5})) (dk_tree d) (dk_tree d')" by simp
  qed
qed

lemma not_below_log: "p \<noteq> [] \<Longrightarrow> s \<in> rotated_path p ` {1..5} \<Longrightarrow> \<not> prefix s p"
  by (auto simp: same_length_prefix length_rotated)

subsection \<open>Lemmas: rotation\<close>

lemma file_text_cong: "fmlookup t p = fmlookup t' p \<Longrightarrow> file_text t p = file_text t' p"
  by (simp add: file_text_def)

lemma write_file_outcome:
  assumes "write_file e p c d = (d', r)"
  shows "(\<forall>q. q \<noteq> p \<longrightarrow> fmlookup (dk_tree d') q = fmlookup (dk_tree d) q) \<and>
    (dk_tree d' = dk_tree d \<and> r = Err e \<or> r = Err e \<and> prefix (file_text (dk_tree d') p) c \<or> r = Ok () \<and> file_text (dk_tree d') p = c)"
  using assms by (auto simp: write_file_def disk_call_def Let_def file_text_def take_is_prefix split: if_splits option.splits)

lemma rotate_outcome:
  assumes "p \<noteq> []" and "rotate_log zstd p d = (d', r)"
  shows "r \<noteq> Ok () \<and> file_text (dk_tree d') p = file_text (dk_tree d) p \<or>
    file_text (dk_tree d') (rotated_path p 1) = zstd (file_text (dk_tree d) p) \<and> file_text (dk_tree d') p = []"
proof -
  have kept: "file_text (dk_tree d2) p = file_text (dk_tree d1) p" if "only_below (rotated_path p ` {1..5}) m" "m d1 = (d2, x)" for m :: "(unit, log_error) disk_op" and d1 d2 x
    by (rule file_text_cong, rule only_belowD [OF that]) (rule not_below_log [OF assms(1)])
  from assms(2) consider
      d1 e where "remove_if_exists (rotated_path p MAX_COMPRESSED_LOGS) d = (d1, Err e)" "d' = d1" "r = Err e"
    | d1 d2 e where "remove_if_exists (rotated_path p MAX_COMPRESSED_LOGS) d = (d1, Ok ())" "shift_logs p (rev [1..<MAX_COMPRESSED_LOGS]) d1 = (d2, Err e)" "d' = d2" "r = Err e"
    | d1 d2 where "remove_if_exists (rotated_path p MAX_COMPRESSED_LOGS) d = (d1, Ok ())" "shift_logs p (rev [1..<MAX_COMPRESSED_LOGS]) d1 = (d2, Ok ())"
        "dk_bind (read_file LogIo p) (\<lambda>input. dk_bind (write_file LogIo (rotated_path p 1) (zstd input)) (\<lambda>_. write_file LogIo p [])) d2 = (d', r)"
    unfolding rotate_log_def dk_bind_cases [of "remove_if_exists x" for x] dk_bind_cases [of "shift_logs x y" for x y] by auto
  then show ?thesis
  proof cases
    case 1
    then show ?thesis using kept [OF remove_below 1(1)] by simp
  next
    case 2
    then show ?thesis using kept [OF remove_below 2(1)] kept [OF shifts_below 2(2)] by simp
  next
    case 3
    have same: "file_text (dk_tree d2) p = file_text (dk_tree d) p" using kept [OF remove_below 3(1)] kept [OF shifts_below 3(2)] by simp
    from 3(3) consider d3 e where "read_file LogIo p d2 = (d3, Err e)" "d' = d3" "r = Err e"
      | d3 d4 c e where "read_file LogIo p d2 = (d3, Ok c)" "write_file LogIo (rotated_path p 1) (zstd c) d3 = (d4, Err e)" "d' = d4" "r = Err e"
      | d3 d4 c where "read_file LogIo p d2 = (d3, Ok c)" "write_file LogIo (rotated_path p 1) (zstd c) d3 = (d4, Ok ())" "write_file LogIo p [] d4 = (d', r)"
      unfolding dk_bind_cases by auto
    then show ?thesis
    proof cases
      case 1
      then show ?thesis using same read_file_same by fastforce
    next
      case 2
      then show ?thesis
        using same read_file_Ok [OF 2(1)] write_file_outcome [OF 2(2)] assms(1) by (auto intro!: file_text_cong simp: file_text_def)
    next
      case 3
      note r = read_file_Ok [OF 3(1)] and w1 = write_file_outcome [OF 3(2)] and w2 = write_file_outcome [OF 3(3)]
      have "c = file_text (dk_tree d) p" using r same by (simp add: file_text_def)
      moreover have "file_text (dk_tree d4) p = file_text (dk_tree d) p" using w1 r same assms(1) by (simp add: file_text_def)
      moreover have "file_text (dk_tree d') (rotated_path p 1) = file_text (dk_tree d4) (rotated_path p 1)"
        using w2 assms(1) by (simp add: file_text_def)
      ultimately show ?thesis using w1 w2 by auto
    qed
  qed
qed

lemma append_text_outcome:
  assumes "append_text e p c d = (d', r)"
  shows "(\<forall>q. q \<noteq> p \<longrightarrow> fmlookup (dk_tree d') q = fmlookup (dk_tree d) q) \<and>
    (\<exists>s. prefix s c \<and> file_text (dk_tree d') p = file_text (dk_tree d) p @ s) \<and> (r = Ok () \<longrightarrow> file_text (dk_tree d') p = file_text (dk_tree d) p @ c)"
  using assms by (auto simp: append_text_def disk_call_def Let_def file_text_def take_is_prefix split: if_splits option.splits file_node.splits)

lemma current_bytes_outcome:
  assumes "current_bytes p d = (d1, n)"
  shows "dk_tree d1 = dk_tree d" and "\<not> dk_fails d (dk_count d) \<Longrightarrow> n = length (file_text (dk_tree d) p)"
  using assms by (auto simp: current_bytes_def disk_call_def Let_def split: if_splits)

text \<open>
  C36: a logged line, whichever operation on the disk fails on the way, changes no file but the log and its five numbered files
  and never loses the log: the text so far is still at the front of the log or is what the first numbered file decompresses
  to. Success means that the line is at its end. Provided that the length of the log can be read, the log is afterwards no longer
  than the limit of five megabytes, its former length or the line, whichever is the longest; when the length cannot be read,
  the limit is not kept.
\<close>
theorem log_line_outcome:
  assumes path: "p \<noteq> []" and zstd: "\<And>c. unzstd (zstd c) = c" and run: "log_append zstd p message d = (d', r)"
  shows "(\<forall>q. \<not> prefix p q \<longrightarrow> (\<forall>i \<in> {1..5}. \<not> prefix (rotated_path p i) q) \<longrightarrow> fmlookup (dk_tree d') q = fmlookup (dk_tree d) q) \<and>
    (prefix (file_text (dk_tree d) p) (file_text (dk_tree d') p) \<or> unzstd (file_text (dk_tree d') (rotated_path p 1)) = file_text (dk_tree d) p) \<and>
    (\<not> dk_fails d (dk_count d) \<longrightarrow>
       length (file_text (dk_tree d') p) \<le> max (max (length (file_text (dk_tree d) p)) MAX_LOG_BYTES) (length message + 1)) \<and>
    (r = Ok () \<longrightarrow> suffix (message @ [CHR 0x0A]) (file_text (dk_tree d') p))"
proof -
  obtain d1 n where size: "current_bytes p d = (d1, n)" by force
  let ?rotate = "n > 0 \<and> min (2 ^ 64 - 1) (n + (length message + 1)) > MAX_LOG_BYTES" and ?line = "message @ [CHR 0x0A]"
  note same = current_bytes_outcome [OF size]
  from run size consider
      e where "?rotate" "rotate_log zstd p d1 = (d', Err e)" "r = Err e"
    | d2 where "?rotate" "rotate_log zstd p d1 = (d2, Ok ())" "append_text LogIo p ?line d2 = (d', r)"
    | "\<not> ?rotate" "append_text LogIo p ?line d1 = (d', r)"
    unfolding log_append_def by (auto simp: dk_bind_cases dk_return_def split: if_splits)
  then have "(prefix (file_text (dk_tree d) p) (file_text (dk_tree d') p) \<or> unzstd (file_text (dk_tree d') (rotated_path p 1)) = file_text (dk_tree d) p) \<and>
    (\<not> dk_fails d (dk_count d) \<longrightarrow>
       length (file_text (dk_tree d') p) \<le> max (max (length (file_text (dk_tree d) p)) MAX_LOG_BYTES) (length message + 1)) \<and>
    (r = Ok () \<longrightarrow> suffix (message @ [CHR 0x0A]) (file_text (dk_tree d') p))"
  proof cases
    case 1
    then show ?thesis using rotate_outcome [OF path 1(2)] same(1) by (auto simp: zstd)
  next
    case 2
    note a = append_text_outcome [OF 2(3)]
    have rot: "file_text (dk_tree d2) (rotated_path p 1) = zstd (file_text (dk_tree d) p)" "file_text (dk_tree d2) p = []"
      using rotate_outcome [OF path 2(2)] same(1) by auto
    then have "file_text (dk_tree d') (rotated_path p 1) = zstd (file_text (dk_tree d) p)" using a path by (simp add: file_text_def)
    moreover have "length (file_text (dk_tree d') p) \<le> length message + 1" using a rot(2) by (auto dest: prefix_length_le)
    ultimately show ?thesis using a rot(2) by (auto simp: zstd)
  next
    case 3
    note a = append_text_outcome [OF 3(2)]
    then obtain x where x: "prefix x ?line" "file_text (dk_tree d') p = file_text (dk_tree d) p @ x" using same(1) by auto
    have "length x \<le> length message + 1" using x(1) by (auto dest: prefix_length_le)
    moreover have "n = 0 \<or> n + (length message + 1) \<le> MAX_LOG_BYTES" using 3(1) by (auto simp: MAX_LOG_BYTES_def)
    ultimately have "length (file_text (dk_tree d') p) \<le> max MAX_LOG_BYTES (length message + 1)" if "\<not> dk_fails d (dk_count d)"
      using same(2) [OF that] x(2) by auto
    then show ?thesis using a x same(1) by (auto simp: suffix_def)
  qed
  moreover have "fmlookup (dk_tree d') q = fmlookup (dk_tree d) q" if "\<not> prefix p q" "\<forall>i \<in> {1..5}. \<not> prefix (rotated_path p i) q" for q
    by (rule only_belowD [OF append_below run]) (use that in auto)
  ultimately show ?thesis by blast
qed

theorem log_line_outcome_witness:
  "suffix ''line'' (butlast (file_text (dk_tree (fst (log_append (\<lambda>c. c) [''log''] ''line''
     \<lparr>dk_tree = fmempty, dk_count = 0, dk_fails = (\<lambda>_. False), dk_torn = (\<lambda>_. 0)\<rparr>))) [''log'']))"
proof -
  let ?d = "\<lparr>dk_tree = fmempty, dk_count = 0, dk_fails = (\<lambda>_. False), dk_torn = (\<lambda>_. 0)\<rparr>"
  obtain d' r where run: "log_append (\<lambda>c. c) [''log''] ''line'' ?d = (d', r)" by force
  then have "r = Ok ()"
    by (auto simp: log_append_def current_bytes_def disk_call_def file_text_def dk_bind_def dk_return_def append_text_def is_folder_def)
  with log_line_outcome [OF _ HOL.refl run] have "suffix (''line'' @ [CHR 0x0A]) (file_text (dk_tree d') [''log''])" by simp
  then show ?thesis using run by (auto simp: suffix_def butlast_append)
qed

text \<open>A length that cannot be read counts as zero: the line is appended however long the log is already.\<close>
theorem unmeasured_log_grows:
  assumes "dk_fails d (dk_count d)" and "\<not> dk_fails d (dk_count d + 1)" and "fmlookup (dk_tree d) p = Some (File old)"
    and "is_folder (dk_tree d) (butlast p)" and "log_append zstd p message d = (d', r)"
  shows "r = Ok () \<and> file_text (dk_tree d') p = old @ message @ [CHR 0x0A]"
  using assms by (auto simp: log_append_def current_bytes_def disk_call_def dk_bind_def dk_return_def append_text_def file_text_def Let_def)

subsection \<open>Repeated messages\<close>

lemma char_zero: "char_of (48::nat) = CHR ''0''"
  by code_simp

lemma digit_zero: "d < 10 \<Longrightarrow> digit_char d = CHR ''0'' \<longleftrightarrow> d = 0"
proof
  assume d: "d < 10" "digit_char d = CHR ''0''"
  then have "of_char (char_of (48 + d) :: char) = (of_char (char_of (48::nat) :: char) :: nat)" by (simp add: digit_char_def char_zero)
  then have "(48 + d) mod 256 = 48" by (simp add: of_char_of)
  then show "d = 0" using d(1) by simp
qed (simp add: digit_char_def char_zero)

lemma trailing_zeros:
  "list_all (\<lambda>c. c = CHR ''0'') (drop 1 (dec_digits n)) \<longleftrightarrow> (\<exists>d k. d \<le> 9 \<and> n = d * 10 ^ k)"
proof (induction n rule: dec_digits.induct)
  case (1 n)
  show ?case
  proof (cases "n < 10")
    case True
    then have "n \<le> 9 \<and> n = n * 10 ^ 0" by simp
    then have "\<exists>d k. d \<le> 9 \<and> n = d * 10 ^ k" by blast
    then show ?thesis using True by (simp add: dec_digits.simps [of n])
  next
    case False
    obtain c cs where dc: "dec_digits (n div 10) = c # cs" using dec_digits_head by blast
    have zero: "digit_char (n mod 10) = CHR ''0'' \<longleftrightarrow> n mod 10 = 0" using digit_zero by simp
    have "list_all (\<lambda>c. c = CHR ''0'') (drop 1 (dec_digits n)) \<longleftrightarrow> (\<exists>d k. d \<le> 9 \<and> n div 10 = d * 10 ^ k) \<and> n mod 10 = 0"
      using 1 False dc by (simp add: dec_digits.simps [of n] zero)
    also have "\<dots> \<longleftrightarrow> (\<exists>d k. d \<le> 9 \<and> n = d * 10 ^ k)"
    proof
      assume a: "(\<exists>d k. d \<le> 9 \<and> n div 10 = d * 10 ^ k) \<and> n mod 10 = 0"
      from conjunct1 [OF a] obtain d k where d: "d \<le> 9" "n div 10 = d * 10 ^ k" by (elim exE conjE)
      from conjunct2 [OF a] have "n = 10 * (n div 10)" by presburger
      then have "d \<le> 9 \<and> n = d * 10 ^ Suc k" unfolding d(2) using d(1) by simp
      then show "\<exists>d k. d \<le> 9 \<and> n = d * 10 ^ k" by blast
    next
      assume "\<exists>d k. d \<le> 9 \<and> n = d * 10 ^ k"
      then obtain d k where dk: "d \<le> 9" "n = d * 10 ^ k" by blast
      with False obtain k' where "k = Suc k'" by (cases k) auto
      with dk show "(\<exists>d k. d \<le> 9 \<and> n div 10 = d * 10 ^ k) \<and> n mod 10 = 0" by auto
    qed
    finally show ?thesis .
  qed
qed

lemma checkpoint_iff: "is_decimal_checkpoint n \<longleftrightarrow> (\<exists>d k. 1 \<le> d \<and> d \<le> 9 \<and> 1 \<le> k \<and> n = d * 10 ^ k)"
proof
  assume c: "is_decimal_checkpoint n"
  then obtain d k where dk: "d \<le> 9" "n = d * 10 ^ k" "10 \<le> n" unfolding is_decimal_checkpoint_def trailing_zeros by blast
  then have "k \<noteq> 0" "d \<noteq> 0" by (auto intro: ccontr)
  with dk show "\<exists>d k. 1 \<le> d \<and> d \<le> 9 \<and> 1 \<le> k \<and> n = d * 10 ^ k" by (metis One_nat_def Suc_leI not_gr_zero)
next
  assume "\<exists>d k. 1 \<le> d \<and> d \<le> 9 \<and> 1 \<le> k \<and> n = d * 10 ^ k"
  then obtain d k where dk: "1 \<le> d" "d \<le> 9" "1 \<le> k" "n = d * 10 ^ k" by blast
  have "(10::nat) ^ 1 \<le> 10 ^ k" using dk(3) by (intro power_increasing) simp_all
  then have "10 \<le> n" using dk(1,4) by (metis mult_le_mono nat_mult_1 power_one_right)
  then show "is_decimal_checkpoint n" using dk(2,4) unfolding is_decimal_checkpoint_def trailing_zeros by blast
qed

definition written :: "nat \<Rightarrow> bool" where
  "written n \<longleftrightarrow> n = 1 \<or> is_decimal_checkpoint n"

lemma written_between:
  assumes "1 \<le> k"
  shows "{i \<in> {10 ^ k<..10 ^ Suc k}. written i} = (\<lambda>d. d * 10 ^ k) ` {2..10}"
proof (intro equalityI subsetI)
  fix i assume i: "i \<in> {i \<in> {10 ^ k<..10 ^ Suc k}. written i}"
  then have "i \<noteq> 1" by (auto simp: not_less)
  with i obtain d j where d: "1 \<le> d" "d \<le> 9" "i = d * 10 ^ j" unfolding written_def checkpoint_iff by blast
  have "(10::nat) ^ k < 10 ^ Suc j" using i d by (auto intro: less_le_trans [of _ "d * 10 ^ j"])
  then have "k \<le> j" using power_strict_increasing_iff [of "10 :: nat" k "Suc j"] by simp
  moreover have "(10::nat) ^ j \<le> 10 ^ Suc k" using i d by (auto intro: order_trans [of _ "d * 10 ^ j"])
  then have "j \<le> Suc k" using power_increasing_iff [of "10 :: nat" j "Suc k"] by simp
  ultimately consider "j = k" | "j = Suc k" by linarith
  then show "i \<in> (\<lambda>d. d * 10 ^ k) ` {2..10}"
  proof cases
    case 1
    then have "d \<noteq> 1" using i d(3) by auto
    then show ?thesis using d 1 by (intro image_eqI [of _ _ d]) auto
  next
    case 2
    then have "d = 1" using i d by (cases "d = 1") auto
    then show ?thesis using d(3) 2 by (intro image_eqI [of _ _ 10]) auto
  qed
next
  fix i assume "i \<in> (\<lambda>d. d * 10 ^ k) ` {2..10::nat}"
  then obtain d where d: "2 \<le> d" "d \<le> 10" "i = d * 10 ^ k" by auto
  have "is_decimal_checkpoint i"
  proof (cases "d = 10")
    case True
    then have "i = 1 * 10 ^ Suc k" using d(3) by simp
    then show ?thesis unfolding checkpoint_iff by (intro exI [of _ 1] exI [of _ "Suc k"]) simp
  next
    case False
    then show ?thesis using d assms unfolding checkpoint_iff by (intro exI [of _ d] exI [of _ k]) simp
  qed
  then show "i \<in> {i \<in> {10 ^ k<..10 ^ Suc k}. written i}" using d by (simp add: written_def)
qed

lemma written_number: "1 \<le> k \<Longrightarrow> card {i \<in> {1..10 ^ k}. written i} + 7 = 9 * k"
proof (induction k rule: nat_induct_at_least)
  case base
  have "written i \<longleftrightarrow> i = 1 \<or> i = 10" if "i \<in> {1..10}" for i
    using that by (auto simp: written_def is_decimal_checkpoint_def) (simp add: dec_digits.simps digit_zero)
  then have "{i \<in> {1..10}. written i} = {1, 10}" by auto
  then show ?case by simp
next
  case (Suc k)
  have split: "{i \<in> {1..10 ^ Suc k}. written i} = {i \<in> {1..10 ^ k}. written i} \<union> {i \<in> {10 ^ k<..10 ^ Suc k}. written i}"
    using power_increasing [of k "Suc k" "10::nat"] by auto
  have "card {i \<in> {10 ^ k<..10 ^ Suc k}. written i} = 9"
    unfolding written_between [OF Suc.hyps(1)] by (subst card_image) (auto simp: inj_on_def)
  then show ?case
    unfolding split using Suc by (subst card_Un_disjoint) auto
qed

lemma to_log_fields [simp]:
  "sl_printed (fst (to_log zstd line s)) = sl_printed s" "sl_repeated (fst (to_log zstd line s)) = sl_repeated s"
  by (simp_all add: to_log_def split: option.split prod.split)

lemma repeated_step:
  assumes "(case fmlookup (sl_repeated s) message of None \<Rightarrow> 0 | Some k \<Rightarrow> k) = n" and "n + 1 < 2 ^ 64"
  shows "fmlookup (sl_repeated (write_repeated zstd message is_error s)) message = Some (n + 1) \<and>
    length (sl_printed (write_repeated zstd message is_error s)) = length (sl_printed s) + (if written (n + 1) then 1 else 0)"
proof -
  have "min (2 ^ 64 - 1) (n + 1) = n + 1" using assms(2) by simp
  then show ?thesis
    unfolding write_repeated_def assms(1) Let_def written_def [symmetric]
    by (simp add: print_line_def)
qed

lemma written_upto_Suc: "card {i \<in> {1..Suc n}. written i} = card {i \<in> {1..n}. written i} + (if written (Suc n) then 1 else 0)"
proof -
  have "{i \<in> {1..Suc n}. written i} = {i \<in> {1..n}. written i} \<union> (if written (Suc n) then {Suc n} else {})"
    by (auto simp: le_Suc_eq)
  then show ?thesis by simp
qed

lemma repeated_lines:
  assumes "fmlookup (sl_repeated s) message = None" and "n < 2 ^ 64"
  shows "(case fmlookup (sl_repeated ((write_repeated zstd message is_error ^^ n) s)) message of None \<Rightarrow> 0 | Some k \<Rightarrow> k) = n \<and>
    length (sl_printed ((write_repeated zstd message is_error ^^ n) s)) = length (sl_printed s) + card {i \<in> {1..n}. written i}"
  using assms(2)
proof (induction n)
  case (Suc n)
  then have IH: "(case fmlookup (sl_repeated ((write_repeated zstd message is_error ^^ n) s)) message of None \<Rightarrow> 0 | Some k \<Rightarrow> k) = n"
      "length (sl_printed ((write_repeated zstd message is_error ^^ n) s)) = length (sl_printed s) + card {i \<in> {1..n}. written i}"
    by simp_all
  from repeated_step [OF IH(1), of zstd is_error] Suc.prems IH(2) show ?case
    unfolding written_upto_Suc by simp
qed (simp add: assms(1))

text \<open>
  A message that repeats without end costs a logarithmic number of lines: the first \<open>10 ^ k\<close> occurrences of it print \<open>9 * k - 7\<close>
  lines. They are more than the ones at 1, 10, 100 and so on, since every number whose digits after the first are zero is reported.
\<close>
theorem repeated_message_lines:
  assumes "fmlookup (sl_repeated s) message = None" and "1 \<le> k" and "(10::nat) ^ k < 2 ^ 64"
  shows "length (sl_printed ((write_repeated zstd message is_error ^^ (10 ^ k)) s)) + 7 = length (sl_printed s) + 9 * k"
  using repeated_lines [OF assms(1,3), of zstd is_error] written_number [OF assms(2)] by simp

theorem repeated_message_lines_witness:
  "length (sl_printed ((write_repeated (\<lambda>c. c) ''m'' True ^^ (10 ^ 3))
     \<lparr>sl_logger = None, sl_repeated = fmempty, sl_printed = [],
      sl_disk = \<lparr>dk_tree = fmempty, dk_count = 0, dk_fails = (\<lambda>_. False), dk_torn = (\<lambda>_. 0)\<rparr>\<rparr>)) = 20"
proof -
  let ?s = "\<lparr>sl_logger = None, sl_repeated = fmempty, sl_printed = [],
      sl_disk = \<lparr>dk_tree = fmempty, dk_count = 0, dk_fails = (\<lambda>_. False), dk_torn = (\<lambda>_. 0)\<rparr>\<rparr>"
  have "fmlookup (sl_repeated ?s) ''m'' = None" "(1::nat) \<le> 3" "(10::nat) ^ 3 < 2 ^ 64" by simp_all
  from repeated_message_lines [OF this, of "\<lambda>c. c" True] have "length (sl_printed ((write_repeated (\<lambda>c. c) ''m'' True ^^ (10 ^ 3)) ?s)) + 7 = 27" by simp
  then show ?thesis by linarith
qed

subsection \<open>A rotation that fails\<close>

lemma sibling_prefix [simp]:
  "p \<noteq> [] \<Longrightarrow> prefix (rotated_path p i) (rotated_path p j) \<longleftrightarrow> i = j" "p \<noteq> [] \<Longrightarrow> \<not> prefix (rotated_path p i) p"
  "p \<noteq> [] \<Longrightarrow> \<not> prefix (rotated_path p i) (butlast p)"
  by (simp_all add: same_length_prefix length_rotated) (metis prefix_length_le length_rotated length_butlast length_greater_0_conv diff_Suc_less One_nat_def not_le)

text \<open>The file at a numbered place; the log and its folder stay where they are.\<close>

definition numbered :: "path \<Rightarrow> disk \<Rightarrow> nat \<Rightarrow> file_node option" where
  "numbered p d i = fmlookup (dk_tree d) (rotated_path p i)"

definition log_kept :: "path \<Rightarrow> disk \<Rightarrow> disk \<Rightarrow> bool" where
  "log_kept p d d' \<longleftrightarrow> fmlookup (dk_tree d') p = fmlookup (dk_tree d) p \<and>
     is_folder (dk_tree d') (butlast p) = is_folder (dk_tree d) (butlast p) \<and> dk_fails d' = dk_fails d \<and> dk_torn d' = dk_torn d"

lemma log_kept_trans: "log_kept p d d' \<Longrightarrow> log_kept p d' d'' \<Longrightarrow> log_kept p d d''"
  by (simp add: log_kept_def)

lemma shift_one:
  assumes p: "p \<noteq> []" "is_folder (dk_tree d) (butlast p)" and free: "numbered p d (i + 1) = None" and works: "numbered p d i \<noteq> None \<Longrightarrow> \<not> dk_fails d (dk_count d)"
  obtains d' where "shift_log p i d = (d', Ok ())" "numbered p d' = (numbered p d)(i + 1 := numbered p d i, i := None)" "log_kept p d d'"
    "dk_count d' = dk_count d + (if numbered p d i = None then 0 else 1)"
proof (cases "numbered p d i = None")
  case True
  then show ?thesis using that [of d] free by (auto simp: shift_log_def path_exists_lookup numbered_def log_kept_def fun_eq_iff)
next
  case False
  let ?src = "rotated_path p i" and ?dst = "rotated_path p (i + 1)"
  have ne: "?src \<noteq> []" "?dst \<noteq> []" by (simp_all add: rotated_path_def)
  have "can_move ?src ?dst (dk_tree d)"
    using False free p ne by (auto simp: can_move_def path_exists_lookup numbered_def)
  then have run: "shift_log p i d = (d\<lparr>dk_count := dk_count d + 1, dk_tree := move ?src ?dst (dk_tree d)\<rparr>, Ok ())" (is "_ = (?d, _)")
    using False works by (auto simp: shift_log_def path_exists_lookup numbered_def rename_path_def disk_call_def Let_def)
  have "numbered p ?d = (numbered p d)(i + 1 := numbered p d i, i := None)"
    using p(1) by (auto simp: fun_eq_iff numbered_def fmlookup_move length_rotated)
  moreover have "log_kept p d ?d" using p(1) by (simp add: log_kept_def fmlookup_move is_folder_def)
  ultimately show ?thesis using that [OF run] False by simp
qed

lemma shift_all:
  assumes "p \<noteq> []" and "is_folder (dk_tree d) (butlast p)" and "numbered p d (n + 1) = None"
    and "\<And>i. i < length (filter (\<lambda>i. numbered p d i \<noteq> None) [1..<n + 1]) \<Longrightarrow> \<not> dk_fails d (dk_count d + i)"
  shows "\<exists>d'. shift_logs p (rev [1..<n + 1]) d = (d', Ok ()) \<and> log_kept p d d' \<and>
    (\<forall>i. 1 \<le> i \<longrightarrow> i \<le> n \<longrightarrow> numbered p d' (i + 1) = numbered p d i) \<and> numbered p d' 1 = None \<and>
    (\<forall>j > n + 1. numbered p d' j = numbered p d j) \<and> dk_count d' = dk_count d + length (filter (\<lambda>i. numbered p d i \<noteq> None) [1..<n + 1])"
  using assms(2-)
proof (induction n arbitrary: d)
  case 0
  then show ?case by (simp add: dk_return_def log_kept_def)
next
  case (Suc n)
  let ?before = "length (filter (\<lambda>i. numbered p d i \<noteq> None) [1..<n + 1])"
  have number: "length (filter (\<lambda>i. numbered p d i \<noteq> None) [1..<Suc n + 1]) = ?before + (if numbered p d (n + 1) = None then 0 else 1)" by simp
  have "\<not> dk_fails d (dk_count d)" if "numbered p d (n + 1) \<noteq> None" using Suc.prems(3) [of 0] that unfolding number by (auto simp del: upt_Suc)
  from shift_one [OF assms(1) Suc.prems(1) _ this] Suc.prems(2) obtain d1 where
    one: "shift_log p (n + 1) d = (d1, Ok ())" "numbered p d1 = (numbered p d)(n + 1 + 1 := numbered p d (n + 1), n + 1 := None)" "log_kept p d d1"
      "dk_count d1 = dk_count d + (if numbered p d (n + 1) = None then 0 else 1)" by (metis Suc_eq_plus1)
  have filters: "filter (\<lambda>i. numbered p d1 i \<noteq> None) [1..<n + 1] = filter (\<lambda>i. numbered p d i \<noteq> None) [1..<n + 1]"
    by (rule filter_cong) (auto simp: one(2) simp del: upt_Suc)
  have fails: "\<not> dk_fails d1 (dk_count d1 + i)" if "i < length (filter (\<lambda>i. numbered p d1 i \<noteq> None) [1..<n + 1])" for i
    using Suc.prems(3) [of i] Suc.prems(3) [of "i + 1"] one(3,4) that unfolding number filters by (auto simp: log_kept_def simp del: upt_Suc split: if_splits)
  have "is_folder (dk_tree d1) (butlast p)" "numbered p d1 (n + 1) = None" using one(2,3) Suc.prems(1) by (simp_all add: log_kept_def)
  from Suc.IH [OF this fails] obtain d' where
    rest: "shift_logs p (rev [1..<n + 1]) d1 = (d', Ok ())" "log_kept p d1 d'" "\<forall>i. 1 \<le> i \<longrightarrow> i \<le> n \<longrightarrow> numbered p d' (i + 1) = numbered p d1 i"
      "numbered p d' 1 = None" "\<forall>j > n + 1. numbered p d' j = numbered p d1 j" "dk_count d' = dk_count d1 + length (filter (\<lambda>i. numbered p d1 i \<noteq> None) [1..<n + 1])"
    by blast
  have run: "shift_logs p (rev [1..<Suc n + 1]) d = (d', Ok ())" using one(1) rest(1) by (simp add: dk_bind_def)
  have shifted: "numbered p d' (i + 1) = numbered p d i" if "1 \<le> i" "i \<le> Suc n" for i
    using rest(3,5) one(2) that by (cases "i = Suc n") auto
  have "dk_count d' = dk_count d + length (filter (\<lambda>i. numbered p d i \<noteq> None) [1..<Suc n + 1])"
    using rest(6) one(4) unfolding number filters by simp
  moreover have "\<forall>j > Suc n + 1. numbered p d' j = numbered p d j" using rest(5) one(2) by auto
  ultimately show ?case using run shifted rest(4) log_kept_trans [OF one(3) rest(2)] by blast
qed

text \<open>
  A rotation that cannot write the compressed log loses an archive for nothing. When the disk is full, the oldest numbered
  file has been removed and the others have moved up before the compressed copy is tried; the line is not written and the log is
  unchanged, so every further line does the same, and five lines erase all archives.
\<close>
theorem failed_rotation_drops_archive:
  assumes path: "p \<noteq> []" "is_folder (dk_tree d) (butlast p)"
    and log: "fmlookup (dk_tree d) p = Some (File c)" "c \<noteq> []" "MAX_LOG_BYTES < length c + length message + 1"
    and archives: "\<And>i. numbered p d i \<noteq> Some Folder"
    and full: "dk_fails d = (\<lambda>i. i = dk_count d + 2 + length (filter (\<lambda>i. numbered p d i \<noteq> None) [1..<6]))" "dk_torn d = (\<lambda>_. 0)"
  shows "\<exists>d'. log_append zstd p message d = (d', Err LogIo) \<and> fmlookup (dk_tree d') p = Some (File c) \<and>
    (\<forall>i \<in> {1..4}. numbered p d' (i + 1) = numbered p d i) \<and> numbered p d' 1 = None"
proof -
  let ?k = "length (filter (\<lambda>i. numbered p d i \<noteq> None) [1..<6])" and ?four = "length (filter (\<lambda>i. numbered p d i \<noteq> None) [1..<5])"
  let ?five = "if numbered p d 5 = None then 0 else 1 :: nat"
  have "[1..<6] = [1..<5] @ [5::nat]" by (simp add: upt_rec)
  then have k: "?k = ?four + ?five" by simp
  define d1 where "d1 = d\<lparr>dk_count := dk_count d + 1\<rparr>"
  have size: "current_bytes p d = (d1, length c)"
    using full(1) log(1) by (simp add: current_bytes_def disk_call_def d1_def file_text_def)
  have rotate: "0 < length c \<and> MAX_LOG_BYTES < min (2 ^ 64 - 1) (length c + (length message + 1))"
    using log(2,3) by (simp add: MAX_LOG_BYTES_def)
  have "\<exists>d2. remove_if_exists (rotated_path p 5) d1 = (d2, Ok ()) \<and> numbered p d2 = (numbered p d)(5 := None) \<and> log_kept p d d2 \<and>
      dk_count d2 = dk_count d + 1 + ?five"
  proof (cases "numbered p d 5")
    case None
    then show ?thesis
      by (intro exI [of _ d1]) (auto simp: remove_if_exists_def path_exists_lookup numbered_def log_kept_def d1_def fun_eq_iff)
  next
    case (Some x)
    then obtain y where y: "fmlookup (dk_tree d) (rotated_path p 5) = Some (File y)" using archives [of 5] by (cases x) (auto simp: numbered_def)
    have "\<not> dk_fails d (dk_count d + 1)" using full(1) by simp
    then show ?thesis
      using y path(1) Some
      by (intro exI [of _ "d1\<lparr>dk_count := dk_count d + 2, dk_tree := fmdrop (rotated_path p 5) (dk_tree d)\<rparr>"])
        (auto simp: remove_if_exists_def remove_file_def disk_call_def path_exists_lookup numbered_def log_kept_def is_folder_def d1_def fun_eq_iff)
  qed
  then obtain d2 where two: "remove_if_exists (rotated_path p 5) d1 = (d2, Ok ())" "numbered p d2 = (numbered p d)(5 := None)" "log_kept p d d2"
      "dk_count d2 = dk_count d + 1 + ?five" by blast
  have filters: "filter (\<lambda>i. numbered p d2 i \<noteq> None) [1..<5] = filter (\<lambda>i. numbered p d i \<noteq> None) [1..<5]"
    by (rule filter_cong) (auto simp: two(2))
  have "\<exists>d3. shift_logs p (rev [1..<4 + 1]) d2 = (d3, Ok ()) \<and> log_kept p d2 d3 \<and>
    (\<forall>i. 1 \<le> i \<longrightarrow> i \<le> 4 \<longrightarrow> numbered p d3 (i + 1) = numbered p d2 i) \<and> numbered p d3 1 = None \<and>
    (\<forall>j > 4 + 1. numbered p d3 j = numbered p d2 j) \<and> dk_count d3 = dk_count d2 + length (filter (\<lambda>i. numbered p d2 i \<noteq> None) [1..<4 + 1])"
  proof (rule shift_all [OF path(1)])
    fix i assume "i < length (filter (\<lambda>i. numbered p d2 i \<noteq> None) [1..<4 + 1])"
    then show "\<not> dk_fails d2 (dk_count d2 + i)" using two(3,4) full(1) filters k by (simp add: log_kept_def)
  qed (use two(2,3) path(2) in \<open>simp_all add: log_kept_def\<close>)
  then obtain d3 where shifts: "shift_logs p (rev [1..<4 + 1]) d2 = (d3, Ok ())" "log_kept p d2 d3"
      "\<forall>i. 1 \<le> i \<longrightarrow> i \<le> 4 \<longrightarrow> numbered p d3 (i + 1) = numbered p d2 i" "numbered p d3 1 = None"
      "dk_count d3 = dk_count d2 + length (filter (\<lambda>i. numbered p d2 i \<noteq> None) [1..<4 + 1])"
    by blast
  have three: "shift_logs p (rev [1..<5]) d2 = (d3, Ok ())" "log_kept p d d3" "\<forall>i \<in> {1..4}. numbered p d3 (i + 1) = numbered p d i"
      "dk_count d3 = dk_count d + 1 + ?k"
    using shifts two(2,4) filters k log_kept_trans [OF two(3) shifts(2)] by simp_all
  have "\<not> dk_fails d3 (dk_count d3)" "dk_fails d3 (dk_count d3 + 1)" "dk_torn d3 (dk_count d3 + 1) = 0"
    using three(2,4) full by (simp_all add: log_kept_def)
  then have "rotate_log zstd p d1 = (d3\<lparr>dk_count := dk_count d3 + 2\<rparr>, Err LogIo)"
    using two(1) three(1,2) log(1)
    by (simp add: rotate_log_def MAX_COMPRESSED_LOGS_def dk_bind_def read_file_def write_file_def disk_call_def log_kept_def)
  then have "log_append zstd p message d = (d3\<lparr>dk_count := dk_count d3 + 2\<rparr>, Err LogIo)"
    using size rotate by (simp add: log_append_def dk_bind_def)
  then show ?thesis using three(2,3) shifts(4) log(1) by (auto simp: log_kept_def numbered_def)
qed

theorem failed_rotation_drops_archive_witness:
  "\<exists>d d'. numbered [''log''] d 5 \<noteq> None \<and> log_append (\<lambda>c. c) [''log''] ''line'' d = (d', Err LogIo) \<and> numbered [''log''] d' 5 = None"
proof -
  let ?c = "replicate MAX_LOG_BYTES (CHR ''a'')"
  define t where "t = fmupd [''log''] (File ?c) (fmupd (rotated_path [''log''] 5) (File ''old'') fmempty)"
  let ?d = "\<lparr>dk_tree = t, dk_count = 0, dk_fails = (\<lambda>i. i = 3), dk_torn = (\<lambda>_. 0)\<rparr>"
  have at: "numbered [''log''] ?d i = (if i = 5 then Some (File ''old'') else None)" for i
    by (simp add: numbered_def t_def)
  have "[1..<6] = [1, 2, 3, 4, 5::nat]" by (simp add: upt_rec)
  then have "length (filter (\<lambda>i. numbered [''log''] ?d i \<noteq> None) [1..<6]) = 1" by (simp add: at)
  then have full: "dk_fails ?d = (\<lambda>i. i = dk_count ?d + 2 + length (filter (\<lambda>i. numbered [''log''] ?d i \<noteq> None) [1..<6]))" by (simp add: fun_eq_iff numeral_3_eq_3)
  have log: "fmlookup t [''log''] = Some (File ?c)" and positive: "MAX_LOG_BYTES \<noteq> 0" by (simp_all add: t_def MAX_LOG_BYTES_def)
  have facts: "[''log''] \<noteq> []" "is_folder (dk_tree ?d) (butlast [''log''])" "fmlookup (dk_tree ?d) [''log''] = Some (File ?c)" "?c \<noteq> []"
      "MAX_LOG_BYTES < length ?c + length ''line'' + 1" "numbered [''log''] ?d i \<noteq> Some Folder" "dk_torn ?d = (\<lambda>_. 0)" for i
    by (simp_all add: at is_folder_def log positive)
  from failed_rotation_drops_archive [OF facts(1-6) full facts(7), of "\<lambda>c. c"]
  obtain d' where "log_append (\<lambda>c. c) [''log''] ''line'' ?d = (d', Err LogIo)" "\<forall>i \<in> {1..4}. numbered [''log''] d' (i + 1) = numbered [''log''] ?d i"
    by blast
  moreover from bspec [OF this(2), of 4] have "numbered [''log''] d' 5 = None" by (simp add: at)
  ultimately show ?thesis using at [of 5] by (intro exI [of _ ?d] exI [of _ d']) simp
qed

subsection \<open>The text of the metrics\<close>

lemma digits_end: "CHR 0x0A \<notin> set (dec_digits n)"
proof (induction n rule: dec_digits.induct)
  case (1 n)
  have "digit_char d \<noteq> CHR 0x0A" if "d < 10" for d using is_ascii_digit_digit_char [OF that] by (auto simp: is_ascii_digit_def)
  then have "CHR 0x0A \<noteq> digit_char d" if "d < 10" for d using that by metis
  then show ?case using 1 by (simp add: dec_digits.simps [of n])
qed

lemma line_inject: "c \<notin> set xs \<Longrightarrow> c \<notin> set ys \<Longrightarrow> xs @ c # r = ys @ c # r' \<Longrightarrow> xs = ys \<and> r = r'"
  by (induction xs arbitrary: ys) (auto simp: append_eq_Cons_conv Cons_eq_append_conv)

text \<open>
  The metrics page determines every counter: no two states of the counters give the same text.
\<close>
theorem metrics_text_inject: "encode_prometheus m = encode_prometheus m' \<longleftrightarrow> m = m'"
proof
  assume same: "encode_prometheus m = encode_prometheus m'"
  have row: "x = y \<and> r = r'" if "metric_text (name, x) @ r = metric_text (name, y) @ r'" for name x y r r'
  proof -
    have "dec_digits (unat x) @ CHR 0x0A # r = dec_digits (unat y) @ CHR 0x0A # r'" using that by (simp add: metric_text_def)
    then have "dec_digits (unat x) = dec_digits (unat y)" "r = r'" using line_inject [OF digits_end digits_end] by blast+
    then show ?thesis by (metis digits_value_dec word_unat_eq_iff)
  qed
  from same show "m = m'"
    by (cases m; cases m') (auto simp: encode_prometheus_def metric_rows_def dest!: row row [where r = "[]" and r' = "[]", simplified])
qed simp

end
