(* ===== verification/Start_Up.thy ===== *)
theory Start_Up
  imports Node_Tools Logger Updater Node_Properties Signing_Properties
begin

text \<open>
  The way of the node program from its command line to the network task (\<open>main\<close> in \<open>src/main.rs\<close>): the arguments of
  a server, a client and an automatic start, the files a server prepares, the ports, the node key and the addresses, and
  the commands that end without a node. The arguments are those the command line parser returns; the lines logged on the
  way are left out.

  Files are those of a disk whose operations may fail. The settings of the network are one file of it, on which the
  operations of \<open>Node_Tools\<close> work.
\<close>

datatype start_error =
    StartTool tool_error | StartInstall install_error | StartLog log_error | StartGenesis genesis_error | GenesisFormat | StartSigner signer_error
  | SignerProgramMissing | NodeSignatureFailed | AlreadyRunning | ModeWithCommand | TestModeOfClient

subsection \<open>Arguments\<close>

record node_args =
  na_git_action_test :: bool
  na_port :: u16
  na_max_message_bytes :: nat
  na_rpc_port :: u16
  na_rpc_host :: string
  na_rpc_data_dir :: path
  na_node_key :: path
  na_validator_index :: nat
  na_validator_key :: path
  na_validators_config :: path
  na_events_config :: path
  na_update_manifest_url :: "string option"
  na_release_public_key :: "string option"
  na_allow_insecure_test_keys :: bool
  na_validator_signer_command :: "path option"
  na_validator_public_key :: "string option"
  na_propose_timeout_ms :: u64
  na_prevote_timeout_ms :: u64
  na_precommit_timeout_ms :: u64
  na_sync_quorum_peers :: nat
  na_peer :: "multiaddr list"
  na_no_default_bootstrap :: bool

definition LOCALHOST :: string where
  "LOCALHOST = ''127.0.0.1''"

definition DEFAULT_BOOTSTRAP_CONFIG :: path where
  "DEFAULT_BOOTSTRAP_CONFIG = [''config'', ''bootstrap.json'']"

definition DEFAULT_NETWORK_CONFIG :: path where
  "DEFAULT_NETWORK_CONFIG = [''config'', ''network.json'']"

definition CLIENT_INSTANCE_PORT :: u16 where
  "CLIENT_INSTANCE_PORT = 49890"

definition SERVER_INSTANCE_PORT :: u16 where
  "SERVER_INSTANCE_PORT = 49889"

definition default_node_args :: node_args where
  "default_node_args =
     \<lparr>na_git_action_test = False, na_port = 7001, na_max_message_bytes = 2097152, na_rpc_port = 8989, na_rpc_host = LOCALHOST,
      na_rpc_data_dir = [''data'', ''ledger''], na_node_key = [''data'', ''node.key''], na_validator_index = 1,
      na_validator_key = [''data'', ''keys'', ''consensus_signing.key''], na_validators_config = [''config'', ''validators.json''],
      na_events_config = [''config'', ''events.json''], na_update_manifest_url = None, na_release_public_key = None,
      na_allow_insecure_test_keys = False, na_validator_signer_command = None, na_validator_public_key = None,
      na_propose_timeout_ms = 3000, na_prevote_timeout_ms = 2000, na_precommit_timeout_ms = 2000, na_sync_quorum_peers = 2,
      na_peer = [], na_no_default_bootstrap = False\<rparr>"

text \<open>What the parameters of a start are: parsers, the random keys, the sockets and the terminal.\<close>

record 'k start_env =
  sn_settings :: settings_env
  sn_install :: "'k install_env"
  sn_parse_validators :: "string \<Rightarrow> validators_file option"
  sn_update :: update_env
  sn_answer :: "string option"
  sn_udp_free :: "u16 \<Rightarrow> bool"
  sn_tcp_free :: "string \<Rightarrow> u16 \<Rightarrow> bool"

subsection \<open>Files read on the way\<close>

definition read_option :: "path \<Rightarrow> disk \<Rightarrow> disk \<times> string option" where
  "read_option p d = (case read_file ToolIo p d of (d1, Inl _) \<Rightarrow> (d1, None) | (d1, Inr c) \<Rightarrow> (d1, Some c))"

text \<open>An operation on one file: whether it can be read, and what becomes of a write, is up to the disk.\<close>

definition with_file ::
  "path \<Rightarrow> (bool \<Rightarrow> create_io \<Rightarrow> string option \<Rightarrow> string option \<times> ('a, tool_error) result) \<Rightarrow> ('a, tool_error) disk_op" where
  "with_file p f d =
     (if path_exists (dk_tree d) p then
        (case read_option p d of
           (d1, None) \<Rightarrow> (d1, snd (f False CreateDone (Some [])))
         | (d1, Some c) \<Rightarrow>
           (let i = dk_count d1;
                io = (if dk_fails d1 i then (case dk_torn d1 i of 0 \<Rightarrow> CreateRefused | Suc n \<Rightarrow> CreateWriteFailed n) else CreateDone)
            in case f True io (Some c) of
                 (None, r) \<Rightarrow> (d1\<lparr>dk_count := i + 1, dk_tree := fmdrop p (dk_tree d1)\<rparr>, r)
               | (Some c1, r) \<Rightarrow> (d1\<lparr>dk_count := i + 1, dk_tree := fmupd p (File c1) (dk_tree d1)\<rparr>, r)))
      else (d, snd (f True CreateDone None)))"

definition approved_at :: "externals \<Rightarrow> key_externals \<Rightarrow> 'k start_env \<Rightarrow> path \<Rightarrow> path \<Rightarrow> disk \<Rightarrow> disk \<times> bool" where
  "approved_at X K V key validators d =
     (if path_exists (dk_tree d) key \<and> path_exists (dk_tree d) validators then
        (case read_option key d of
           (d1, key_file) \<Rightarrow>
           (case public_key_from_file X K key_file of
              Inl _ \<Rightarrow> (d1, False)
            | Inr _ \<Rightarrow>
              (case read_option validators d1 of
                 (d2, file) \<Rightarrow> (d2, approved_local_validator X K (sn_parse_validators V) key_file file))))
      else (d, False))"

definition configured_peers_at :: "'k start_env \<Rightarrow> (multiaddr list, tool_error) disk_op" where
  "configured_peers_at V =
     with_file DEFAULT_NETWORK_CONFIG (\<lambda>readable _ file. (file, configured_bootstrap_peers (sn_settings V) readable file))"

definition load_peers_at :: "'k start_env \<Rightarrow> path \<Rightarrow> multiaddr list \<Rightarrow> (multiaddr list, tool_error) disk_op" where
  "load_peers_at V p command_line_peers =
     (if p = DEFAULT_BOOTSTRAP_CONFIG then
        with_file DEFAULT_NETWORK_CONFIG (\<lambda>readable _ file. (file, load_bootstrap_peers (sn_settings V) readable file True None command_line_peers))
      else
        with_file p (\<lambda>readable _ file. (file, load_bootstrap_peers (sn_settings V) readable None False file command_line_peers)))"

subsection \<open>What is started\<close>

record launch =
  la_args :: node_args
  la_bootstrap_peers :: "multiaddr list"
  la_is_client :: bool

fun mode_args :: "run_mode \<Rightarrow> node_args" where
  "mode_args ValidatorMode = default_node_args\<lparr>na_node_key := [''data'', ''keys'', ''p2p_identity.key'']\<rparr>"
| "mode_args Public = default_node_args\<lparr>na_node_key := [''data'', ''public.node.key''], na_rpc_data_dir := [''data'', ''public-ledger'']\<rparr>"
| "mode_args _ = default_node_args\<lparr>na_node_key := [''data'', ''client.node.key''], na_rpc_data_dir := [''data'', ''client-ledger'']\<rparr>"

definition automatic_or_selected_mode :: "externals \<Rightarrow> key_externals \<Rightarrow> 'k start_env \<Rightarrow> run_mode \<Rightarrow> (launch, start_error) disk_op" where
  "automatic_or_selected_mode X K V requested d =
     (case (if requested = Auto
            then approved_at X K V [''data'', ''keys'', ''consensus_signing.key''] [''config'', ''validators.json''] d
            else (d, False)) of
        (d1, approved) \<Rightarrow>
        (let selected = selected_mode approved requested in
         dk_map_err StartTool (dk_bind (load_peers_at V DEFAULT_BOOTSTRAP_CONFIG []) (\<lambda>peers.
           dk_return \<lparr>la_args = mode_args selected, la_bootstrap_peers = peers, la_is_client = (selected \<noteq> ValidatorMode)\<rparr>)) d1))"

definition test_mode :: "node_args \<Rightarrow> node_args" where
  "test_mode args =
     (if na_git_action_test args then
        args\<lparr>na_rpc_host := LOCALHOST, na_allow_insecure_test_keys := True, na_no_default_bootstrap := True,
             na_propose_timeout_ms := 1500, na_prevote_timeout_ms := 1500, na_precommit_timeout_ms := 1500\<rparr>
      else args)"

definition server_launch :: "'k start_env \<Rightarrow> node_args \<Rightarrow> (launch, start_error) disk_op" where
  "server_launch V args0 =
     (let args1 = test_mode args0;
          args2 = (if na_node_key args1 = [''data'', ''node.key''] then args1\<lparr>na_node_key := [''data'', ''keys'', ''p2p_identity.key'']\<rparr> else args1);
          args = args2\<lparr>na_peer := []\<rparr>
      in dk_map_err StartTool (dk_bind
           (if na_peer args2 = [] \<and> \<not> na_no_default_bootstrap args2 then configured_peers_at V else dk_return (na_peer args2)) (\<lambda>peers.
           dk_return \<lparr>la_args = args, la_bootstrap_peers = peers, la_is_client = False\<rparr>)))"

definition client_launch :: "'k start_env \<Rightarrow> node_args \<Rightarrow> path \<Rightarrow> (launch, start_error) disk_op" where
  "client_launch V args0 bootstrap_config =
     (if na_git_action_test args0 then dk_result (Err TestModeOfClient)
      else
        let args1 = (if na_node_key args0 = [''data'', ''node.key''] then args0\<lparr>na_node_key := [''data'', ''client.node.key'']\<rparr> else args0);
            args2 = (if na_rpc_data_dir args1 = [''data'', ''ledger''] then args1\<lparr>na_rpc_data_dir := [''data'', ''client-ledger'']\<rparr> else args1)
        in dk_map_err StartTool (dk_bind (load_peers_at V bootstrap_config (na_peer args2)) (\<lambda>peers.
             dk_return \<lparr>la_args = args2\<lparr>na_peer := []\<rparr>, la_bootstrap_peers = peers, la_is_client = True\<rparr>)))"

datatype node_start_command = Server node_args | ClientNode node_args path

text \<open>Legacy keys are moved first; \<open>--mode\<close> is refused beside a command.\<close>

definition select_launch ::
  "externals \<Rightarrow> key_externals \<Rightarrow> 'k start_env \<Rightarrow> run_mode \<Rightarrow> node_start_command option \<Rightarrow> (launch, start_error) disk_op" where
  "select_launch X K V requested command =
     dk_bind (dk_map_err StartTool migrate_legacy_key_files) (\<lambda>_.
     if command \<noteq> None \<and> requested \<noteq> Auto then dk_result (Err ModeWithCommand)
     else case command of
       None \<Rightarrow> automatic_or_selected_mode X K V requested
     | Some (Server args) \<Rightarrow> server_launch V args
     | Some (ClientNode args bootstrap_config) \<Rightarrow> client_launch V args bootstrap_config)"

subsection \<open>The start\<close>

definition acquire_instance_guard :: "'k start_env \<Rightarrow> bool \<Rightarrow> (unit, start_error) result" where
  "acquire_instance_guard V is_client =
     ensure (sn_tcp_free V LOCALHOST (if is_client then CLIENT_INSTANCE_PORT else SERVER_INSTANCE_PORT)) AlreadyRunning"

definition server_paths :: "node_args \<Rightarrow> install_paths" where
  "server_paths args =
     \<lparr>ip_validator_key = na_validator_key args, ip_node_key = na_node_key args, ip_ledger = na_rpc_data_dir args,
      ip_validators = na_validators_config args, ip_events = na_events_config args, ip_upgrades = [''config'', ''upgrades.json'']\<rparr>"

definition server_files :: "externals \<Rightarrow> key_externals \<Rightarrow> 'k start_env \<Rightarrow> launch \<Rightarrow> (unit, start_error) disk_op" where
  "server_files X K V L =
     (if la_is_client L then dk_return ()
      else
        dk_bind (dk_map_err StartLog (create_dir_all LogIo [''data'', ''logs''])) (\<lambda>_.
        dk_map_err StartInstall (prepare_server_files X K (sn_install V) (server_paths (la_args L))
          (na_allow_insecure_test_keys (la_args L)))))"

text \<open>A failed check for updates does not stop the start.\<close>

definition update_at_start :: "externals \<Rightarrow> 'k start_env \<Rightarrow> launch \<Rightarrow> exe_dir \<Rightarrow> exe_dir" where
  "update_at_start X V L exe =
     (case (na_update_manifest_url (la_args L), na_release_public_key (la_args L)) of
        (Some url, Some public_key) \<Rightarrow> fst (check_and_prompt X (sn_update V) url public_key (la_is_client L) (sn_answer V) exe)
      | _ \<Rightarrow> exe)"

definition local_network ::
  "'k start_env \<Rightarrow> launch \<Rightarrow> u16 \<Rightarrow> ('k \<times> network_config, start_error) disk_op" where
  "local_network V L port =
     dk_bind (dk_map_err StartInstall (node_key_at (sn_install V) (na_node_key (la_args L)))) (\<lambda>identity.
     let local_peer_id = ie_peer_id (sn_install V) identity in
     dk_bind (dk_map_err StartTool (with_file DEFAULT_NETWORK_CONFIG (\<lambda>readable io. external_addresses (sn_settings V) readable io local_peer_id)))
       (\<lambda>external.
     dk_return (identity,
       \<lparr>nc_listen_port = port, nc_loopback_only = na_git_action_test (la_args L),
        nc_bootstrap_peers = dialled_peers local_peer_id (la_bootstrap_peers L), nc_external_addresses = external,
        nc_max_message_bytes = na_max_message_bytes (la_args L), nc_idle_timeout = 120 * 10 ^ 9, nc_ban_duration = 10 * 60 * 10 ^ 9\<rparr>)))"

definition prepare_start ::
  "externals \<Rightarrow> key_externals \<Rightarrow> 'k start_env \<Rightarrow> launch \<Rightarrow> disk \<Rightarrow> exe_dir \<Rightarrow>
     disk \<times> exe_dir \<times> (u16 \<times> 'k \<times> network_config, start_error) result" where
  "prepare_start X K V L d exe =
     (case if la_is_client L then acquire_instance_guard V True else Ok () of
        Inl e \<Rightarrow> (d, exe, Err e)
      | Inr _ \<Rightarrow>
        (case server_files X K V L d of
           (d1, Inl e) \<Rightarrow> (d1, exe, Err e)
         | (d1, Inr _) \<Rightarrow>
           (case prepare_ports (sn_udp_free V) (sn_tcp_free V (na_rpc_host (la_args L))) (la_is_client L) (na_port (la_args L), na_rpc_port (la_args L)) of
              Inl e \<Rightarrow> (d1, exe, Err (StartTool e))
            | Inr (port, rpc_port) \<Rightarrow>
              (case local_network V L port d1 of
                 (d2, r) \<Rightarrow> (d2, update_at_start X V L exe, and_then r (\<lambda>(identity, config). Ok (rpc_port, identity, config)))))))"

subsection \<open>What the running node starts with\<close>

definition TEST_ACCOUNTS :: "(address \<times> u128) list" where
  "TEST_ACCOUNTS =
     [(''0xB0E5863D0DDf7e105e409Fee0eCC0123a362e14B'', 1000000000000000000), (''0x3252b7b65e50B54508974dB8d634134B0bd6be90'', 1000000000000000000),
      (''0xf0DCB0Ea878057Ff5C78C4737023f900ECe09e7B'', 1000000000000000000), (''0xD5ac7674AC15E3Df0B7D737CF8Cb8f2Ea713F329'', 1000000000000000000)]"

definition start_genesis :: "externals \<Rightarrow> node_args \<Rightarrow> genesis_config option \<Rightarrow> (genesis_config, start_error) result" where
  "start_genesis X args bundled =
     and_then (ok_or bundled GenesisFormat) (\<lambda>g.
     let genesis = (if na_git_action_test args then g\<lparr>gen_initial_balances := gen_initial_balances g @ TEST_ACCOUNTS\<rparr> else g) in
     and_then (map_err StartGenesis (genesis_validate X genesis)) (\<lambda>_. Ok genesis))"

text \<open>\<open>program\<close>: the signer program at a path, if there is one. A client signs with a new key that is never stored.\<close>

definition external_signer_new ::
  "externals \<Rightarrow> (bytes \<Rightarrow> string option) option \<Rightarrow> string \<Rightarrow> (external_signer, start_error) result" where
  "external_signer_new X program public_key =
     and_then (ok_or program SignerProgramMissing) (\<lambda>run.
     and_then (ensure ((case hex_decode X public_key of None \<Rightarrow> 0 | Some bs \<Rightarrow> length bs) = 32) (StartSigner SignerKeyLength)) (\<lambda>_.
     Ok \<lparr>es_programs = [run], es_public_key = public_key\<rparr>))"

definition local_signer ::
  "externals \<Rightarrow> key_externals \<Rightarrow> (path \<Rightarrow> (bytes \<Rightarrow> string option) option) \<Rightarrow> wallet \<Rightarrow> launch \<Rightarrow> string option
     \<Rightarrow> (validator_signer, start_error) result" where
  "local_signer X K program new_wallet L key_file =
     (if la_is_client L then Ok (Local new_wallet)
      else case (na_validator_signer_command (la_args L), na_validator_public_key (la_args L)) of
        (Some command, Some public_key) \<Rightarrow> and_then (external_signer_new X (program command) public_key) (\<lambda>s. Ok (External s))
      | _ \<Rightarrow>
        and_then (map_err StartTool (load_validator_wallet X K key_file (na_validator_index (la_args L)) (na_allow_insecure_test_keys (la_args L))))
          (\<lambda>w. Ok (Local w)))"

definition local_registration :: "externals \<Rightarrow> validator_signer \<Rightarrow> string \<Rightarrow> bool \<Rightarrow> (validator_registration option, start_error) result" where
  "local_registration X signer peer_id is_client =
     (if is_client then Ok None
      else
        and_then (map_err StartSigner (signer_sign_bytes X signer (validator_registration_bytes (signer_address X signer) peer_id))) (\<lambda>signature.
        Ok (Some \<lparr>vr_validator_id = signer_address X signer, vr_peer_id = peer_id, vr_signature_hex = signature\<rparr>)))"

text \<open>\<open>node_public_key\<close> and \<open>node_sign\<close>: the encoded public key of the node and its signature.\<close>

definition local_reward_registration ::
  "externals \<Rightarrow> wallet \<Rightarrow> wallet \<Rightarrow> bytes \<Rightarrow> (bytes \<Rightarrow> bytes option) \<Rightarrow> string \<Rightarrow> (node_reward_registration, start_error) result" where
  "local_reward_registration X registration_wallet reward_wallet node_public_key node_sign peer_id =
     (let bytes = node_registration_bytes (wallet_address X reward_wallet) peer_id in
      and_then (ok_or (node_sign bytes) NodeSignatureFailed) (\<lambda>signature.
      Ok \<lparr>nr_reward_address = wallet_address X reward_wallet, nr_peer_id = peer_id,
          nr_signature_hex = wallet_sign_bytes X registration_wallet bytes, nr_registration_signer = wallet_address X registration_wallet,
          nr_node_public_key_hex = hex_encode X node_public_key, nr_node_signature_hex = hex_encode X signature\<rparr>))"

subsection \<open>Commands that end without a node\<close>

datatype node_command = InitNew | VerifyNode | Doctor | ShowPeerId path | CleanLedger

datatype node_report =
    InitializedNode "path option" | VerifiedNode address string | RepairedNode address string | PeerIdOf string | CleanedLedger path

definition node_command_paths :: install_paths where
  "node_command_paths = server_paths (mode_args ValidatorMode)"

fun run_node_command :: "externals \<Rightarrow> key_externals \<Rightarrow> 'k start_env \<Rightarrow> node_command \<Rightarrow> (node_report, start_error) disk_op" where
  "run_node_command X K V InitNew =
     dk_map_err StartInstall (dk_bind (initialize_new_server_node X K (sn_install V) node_command_paths) (\<lambda>backup.
       dk_return (InitializedNode backup)))"
| "run_node_command X K V VerifyNode =
     dk_map_err StartInstall (dk_bind (verify_server_node X K (sn_install V) node_command_paths) (\<lambda>(validator_public_key, peer_id).
       dk_return (VerifiedNode validator_public_key peer_id)))"
| "run_node_command X K V Doctor =
     dk_bind (dk_map_err StartInstall (prepare_server_files X K (sn_install V) node_command_paths False)) (\<lambda>_.
     dk_bind (dk_map_err StartInstall (node_key_at (sn_install V) (ip_node_key node_command_paths))) (\<lambda>identity.
     let peer_id = ie_peer_id (sn_install V) identity in
     dk_bind (dk_map_err StartTool (with_file DEFAULT_NETWORK_CONFIG (\<lambda>readable io. repair_local_advertise_address (sn_settings V) readable io peer_id))) (\<lambda>_.
     dk_bind (dk_map_err StartInstall (public_key_at X K (sn_install V) (ip_validator_key node_command_paths))) (\<lambda>validator_public_key.
     dk_return (RepairedNode validator_public_key peer_id)))))"
| "run_node_command X K V (ShowPeerId key) =
     dk_map_err StartInstall (dk_bind (node_key_at (sn_install V) key) (\<lambda>identity. dk_return (PeerIdOf (ie_peer_id (sn_install V) identity))))"
| "run_node_command X K V CleanLedger =
     dk_map_err StartInstall (dk_bind (clean_ledger_preserving_identity (sn_install V) (ip_ledger node_command_paths)) (\<lambda>backup.
       dk_return (CleanedLedger backup)))"

datatype validator_key_command =
    GenerateKey path | PublicKey path | TransferBalance string string string path u16 | CreateConfig "string list" u64 path

text \<open>The result is the public key that is printed, where there is one.\<close>

fun run_validator_key_command ::
  "externals \<Rightarrow> key_externals \<Rightarrow> 'k start_env \<Rightarrow> 's rpc_client \<Rightarrow> validator_key_command \<Rightarrow> disk \<Rightarrow> 's
     \<Rightarrow> disk \<times> 's \<times> (address option, start_error) result" where
  "run_validator_key_command X K V C (GenerateKey output) d s =
     (case dk_map_err StartInstall (generate_key_at X K (sn_install V) output) d of (d1, r) \<Rightarrow> (d1, s, and_then r (\<lambda>a. Ok (Some a))))"
| "run_validator_key_command X K V C (PublicKey key) d s =
     (case dk_map_err StartInstall (public_key_at X K (sn_install V) key) d of (d1, r) \<Rightarrow> (d1, s, and_then r (\<lambda>a. Ok (Some a))))"
| "run_validator_key_command X K V C (TransferBalance to amount fee key rpc_port) d s =
     (case dk_map_err StartInstall (read_text (sn_install V) key) d of
        (d1, Inl e) \<Rightarrow> (d1, s, Err e)
      | (d1, Inr text) \<Rightarrow>
        (case wallet_from_file X K (Some text) of
           Inl e \<Rightarrow> (d1, s, Err (StartTool (ToolKey e)))
         | Inr w \<Rightarrow>
           (case send_wallet_balance X C w to amount fee rpc_port s of (s1, r) \<Rightarrow> (d1, s1, and_then (map_err StartTool r) (\<lambda>_. Ok None)))))"
| "run_validator_key_command X K V C (CreateConfig public_keys vp output) d s =
     (case dk_map_err StartInstall (at_new_file output
         (create_validators_config X (ie_validators_json (sn_install V)) CreateDone public_keys vp None)) d of
        (d1, r) \<Rightarrow> (d1, s, and_then r (\<lambda>_. Ok None)))"

datatype reward_command = RewardAddress | RewardSend string string string u16 | ChangePassword "string option"

text \<open>What the file operations and the random numbers of a reward command give.\<close>

record wallet_io =
  wi_password_created :: create_io
  wi_store_created :: replace_io
  wi_password_removed :: bool
  wi_random :: bytes
  wi_new_wallet :: wallet
  wi_store_changed :: change_io
  wi_password_replaced :: bool
  wi_store_restored :: change_io
  wi_fresh :: "bytes \<times> bytes"
  wi_fresh2 :: "bytes \<times> bytes"

definition open_reward_wallet ::
  "externals \<Rightarrow> key_externals \<Rightarrow> keystore_codec \<Rightarrow> wallet_io \<Rightarrow> node_wallet_files \<Rightarrow> node_wallet_files \<times> (wallet, keystore_error) result" where
  "open_reward_wallet X K C W =
     load_or_create_default X K C (wi_password_created W) (wi_store_created W) (wi_password_removed W) (wi_random W)
       (fst (wi_fresh W)) (snd (wi_fresh W)) (wi_new_wallet W)"

fun run_reward_command ::
  "externals \<Rightarrow> key_externals \<Rightarrow> keystore_codec \<Rightarrow> 's rpc_client \<Rightarrow> wallet_io \<Rightarrow> reward_command \<Rightarrow> node_wallet_files \<Rightarrow> 's
     \<Rightarrow> node_wallet_files \<times> 's \<times> (address option, tool_error) result" where
  "run_reward_command X K C R W RewardAddress fs s =
     (case open_reward_wallet X K C W fs of (fs1, r) \<Rightarrow> (fs1, s, and_then (map_err ToolKey r) (\<lambda>w. Ok (Some (wallet_address X w)))))"
| "run_reward_command X K C R W (RewardSend to amount fee rpc_port) fs s =
     (case open_reward_wallet X K C W fs of
        (fs1, Inl e) \<Rightarrow> (fs1, s, Err (ToolKey e))
      | (fs1, Inr w) \<Rightarrow>
        (case send_wallet_balance X R w to amount fee rpc_port s of (s1, r) \<Rightarrow> (fs1, s1, and_then r (\<lambda>_. Ok None))))"
| "run_reward_command X K C R W (ChangePassword new_password_file) fs s =
     (case change_password_command X K C (wi_store_changed W) (wi_password_replaced W) (wi_store_restored W) (wi_fresh W) (wi_fresh2 W)
         new_password_file fs of
        (fs1, r) \<Rightarrow> (fs1, s, and_then r (\<lambda>_. Ok None)))"

subsection \<open>Lemmas: which files a start can change\<close>

text \<open>An operation that keeps every file, but for those at or below the given paths.\<close>

definition kept_outside :: "path set \<Rightarrow> file_tree \<Rightarrow> file_tree \<Rightarrow> bool" where
  "kept_outside S t t' \<longleftrightarrow> (\<forall>q n. fmlookup t q = Some n \<longrightarrow> (\<forall>s \<in> S. \<not> prefix s q) \<longrightarrow> fmlookup t' q = Some n)"

abbreviation keeps_but :: "path set \<Rightarrow> ('a, 'e) disk_op \<Rightarrow> bool" where
  "keeps_but S m \<equiv> obeys (kept_outside S) m"

named_theorems sparing "operations that keep every file but some"

interpretation spare: tree_relation "kept_outside S" for S
  by unfold_locales (simp_all add: kept_outside_def)

lemmas sparing_rules [sparing] = spare.obeys_rules

lemma keeps_butD: "keeps_but S m \<Longrightarrow> m d = (d', r) \<Longrightarrow> fmlookup (dk_tree d) q = Some n \<Longrightarrow> (\<And>s. s \<in> S \<Longrightarrow> \<not> prefix s q) \<Longrightarrow>
    fmlookup (dk_tree d') q = Some n"
  unfolding obeys_def kept_outside_def by blast

lemma keeps_tree_but: "keeps_tree m \<Longrightarrow> keeps_but S m"
  unfolding obeys_def tree_kept_def kept_outside_def by blast

lemma read_option_same: "read_option p d = (d', r) \<Longrightarrow> dk_tree d' = dk_tree d"
  by (auto simp: read_option_def dest!: read_file_same split: prod.splits sum.splits)

lemma keeps_but_with_file [sparing]: "p \<in> S \<Longrightarrow> keeps_but S (with_file p f)"
  unfolding obeys_def with_file_def
  by (auto simp: Let_def kept_outside_def dest!: read_option_same split: if_splits prod.splits option.splits)

lemmas keeps_but_file_ops [sparing] =
  keeps_prepare_server_files [THEN keeps_tree_but] keeps_node_key_at [THEN keeps_tree_but]
  keeps_public_key_at [THEN keeps_tree_but] keeps_create_dir_all [THEN keeps_tree_but]

lemma keeps_but_server_files [sparing]: "keeps_but S (server_files X K V L)"
  unfolding server_files_def by (intro sparing)

lemma keeps_but_local_network [sparing]: "keeps_but {DEFAULT_NETWORK_CONFIG} (local_network V L port)"
  unfolding local_network_def Let_def by (intro sparing) simp

text \<open>
  A start and the repair command change no file that is there, whichever operation fails, but the file of the network settings:
  keys, marker, ledger and validator list are as before.
\<close>
theorem start_keeps_files:
  assumes "fmlookup (dk_tree d) p = Some (File c)" and "\<not> prefix DEFAULT_NETWORK_CONFIG p"
  shows "fmlookup (dk_tree (fst (prepare_start X K V L d exe))) p = Some (File c) \<and>
    fmlookup (dk_tree (fst (run_node_command X K V Doctor d))) p = Some (File c)"
proof
  obtain d1 r1 where files: "server_files X K V L d = (d1, r1)" by force
  have one: "fmlookup (dk_tree d1) p = Some (File c)"
    using keeps_butD [OF keeps_but_server_files files assms(1), of "{}"] by simp
  have "fmlookup (dk_tree d2) p = Some (File c)" if "local_network V L port d1 = (d2, r2)" for port d2 r2
    by (rule keeps_butD [OF keeps_but_local_network that one]) (use assms(2) in simp)
  then show "fmlookup (dk_tree (fst (prepare_start X K V L d exe))) p = Some (File c)"
    using one assms(1) by (auto simp: prepare_start_def files split: sum.split prod.split)
  have "keeps_but {DEFAULT_NETWORK_CONFIG} (run_node_command X K V Doctor)"
    unfolding run_node_command.simps Let_def by (intro sparing) simp
  from keeps_butD [OF this _ assms(1)] assms(2) show "fmlookup (dk_tree (fst (run_node_command X K V Doctor d))) p = Some (File c)"
    by (metis prod.collapse singletonD)
qed

theorem start_keeps_files_witness:
  "\<forall>X K V L exe. fmlookup (dk_tree (fst (prepare_start X K (V :: unit start_env) L
     \<lparr>dk_tree = fmupd [''config'', ''validators.json''] (File ''{}'') fmempty, dk_count = 0, dk_fails = (\<lambda>i. i = 3), dk_torn = (\<lambda>_. 1)\<rparr> exe)))
     [''config'', ''validators.json''] = Some (File ''{}'')"
proof (intro allI)
  fix X K L exe and V :: "unit start_env"
  let ?d = "\<lparr>dk_tree = fmupd [''config'', ''validators.json''] (File ''{}'') fmempty, dk_count = 0, dk_fails = (\<lambda>i. i = 3), dk_torn = (\<lambda>_. 1)\<rparr>"
  have "fmlookup (dk_tree ?d) [''config'', ''validators.json''] = Some (File ''{}'')" "\<not> prefix DEFAULT_NETWORK_CONFIG [''config'', ''validators.json'']"
    by (simp_all add: DEFAULT_NETWORK_CONFIG_def)
  from start_keeps_files [OF this] show "fmlookup (dk_tree (fst (prepare_start X K V L ?d exe))) [''config'', ''validators.json''] = Some (File ''{}'')"
    by blast
qed

subsection \<open>Lemmas: roles\<close>

lemma load_bootstrap_peers_some: "load_bootstrap_peers V readable sf b file ps = Ok peers \<Longrightarrow> peers \<noteq> []"
  by (auto simp: load_bootstrap_peers_def Let_def result_simps split: if_splits)

lemma dk_map_err_Ok: "dk_map_err f m d = (d', Ok x) \<longleftrightarrow> m d = (d', Ok x)"
  by (auto simp: dk_map_err_def result_simps split: prod.splits)

lemma with_file_Ok: "with_file p f d = (d', Ok x) \<Longrightarrow> \<exists>readable io file. snd (f readable io file) = Ok x"
  by (auto simp: with_file_def Let_def split: if_splits prod.splits option.splits) (metis snd_conv)+

lemma load_peers_at_some: "load_peers_at V p ps d = (d', Ok peers) \<Longrightarrow> peers \<noteq> []"
  unfolding load_peers_at_def by (auto dest!: with_file_Ok load_bootstrap_peers_some split: if_splits)

lemma prepare_start_network:
  assumes "prepare_start X K V L d exe = (d2, exe2, Ok (rpc_port, identity, config))"
  shows "nc_loopback_only config = na_git_action_test (la_args L) \<and>
    nc_bootstrap_peers config = dialled_peers (ie_peer_id (sn_install V) identity) (la_bootstrap_peers L)"
proof -
  obtain d1 port where "local_network V L port d1 = (d2, Ok (identity, config))"
    using assms by (auto simp: prepare_start_def result_simps split: if_splits sum.splits prod.splits)
  then show ?thesis by (auto simp: local_network_def Let_def dk_map_err_Ok dk_bind_Ok dk_return_def)
qed

text \<open>
  C29: what a node is started as. A client is never in the test mode and has a bootstrap peer; one that is
  selected by mode or automatically works on the folder \<open>data/client-ledger\<close> or \<open>data/public-ledger\<close>, and
  one that is started by its command works on the folder it is given, except that \<open>data/ledger\<close>, the default
  folder of a server (compared component by component), is replaced by \<open>data/client-ledger\<close>. The test mode is
  only that of a server command with its option; its RPC server listens on the local machine only, its network
  listens on the loopback address only, and its bootstrap peers are exactly those given on the command line
  without addresses of its own peer id. A server uses the test keys only in the test mode or with
  the option for them.
\<close>
theorem launch_roles:
  assumes "select_launch X K V mode command d = (d', Ok L)"
  shows "(la_is_client L \<longrightarrow> \<not> na_git_action_test (la_args L) \<and> la_bootstrap_peers L \<noteq> [] \<and>
      (case command of
         Some (ClientNode args _) \<Rightarrow> na_rpc_data_dir (la_args L) =
           (if na_rpc_data_dir args = [''data'', ''ledger''] then [''data'', ''client-ledger''] else na_rpc_data_dir args)
       | _ \<Rightarrow> na_rpc_data_dir (la_args L) \<in> {[''data'', ''client-ledger''], [''data'', ''public-ledger'']})) \<and>
    (na_git_action_test (la_args L) \<longrightarrow> na_rpc_host (la_args L) = LOCALHOST \<and>
      (\<exists>args. command = Some (Server args) \<and> na_git_action_test args \<and> la_bootstrap_peers L = na_peer args \<and>
        (\<forall>d1 exe d2 exe2 rpc_port identity config.
          prepare_start X K V L d1 exe = (d2, exe2, Ok (rpc_port, identity, config)) \<longrightarrow>
          nc_loopback_only config \<and> nc_bootstrap_peers config = dialled_peers (ie_peer_id (sn_install V) identity) (na_peer args)))) \<and>
    (\<not> la_is_client L \<and> na_allow_insecure_test_keys (la_args L) \<longrightarrow>
       (\<exists>args. command = Some (Server args) \<and> (na_git_action_test args \<or> na_allow_insecure_test_keys args)))"
proof -
  from assms obtain d1 where run: "(case command of None \<Rightarrow> automatic_or_selected_mode X K V mode
      | Some (Server args) \<Rightarrow> server_launch V args | Some (ClientNode args p) \<Rightarrow> client_launch V args p) d1 = (d', Ok L)"
    by (auto simp: select_launch_def dk_bind_Ok dk_result_def split: if_splits)
  show ?thesis
  proof (cases command)
    case None
    with run obtain approved d2 peers where L: "L = \<lparr>la_args = mode_args (selected_mode approved mode), la_bootstrap_peers = peers,
        la_is_client = (selected_mode approved mode \<noteq> ValidatorMode)\<rparr>" "load_peers_at V DEFAULT_BOOTSTRAP_CONFIG [] d2 = (d', Ok peers)"
      by (auto simp: automatic_or_selected_mode_def Let_def dk_map_err_Ok dk_bind_Ok dk_return_def split: prod.splits)
    then show ?thesis using load_peers_at_some [OF L(2)] None
      by (cases "selected_mode approved mode") (auto simp: default_node_args_def)
  next
    case (Some c)
    show ?thesis
    proof (cases c)
      case (Server args)
      have "\<not> la_is_client L" "na_git_action_test (la_args L) \<Longrightarrow> na_git_action_test args \<and> na_rpc_host (la_args L) = LOCALHOST \<and> la_bootstrap_peers L = na_peer args"
        "na_allow_insecure_test_keys (la_args L) \<Longrightarrow> na_git_action_test args \<or> na_allow_insecure_test_keys args"
        using run Some Server
        by (auto simp: server_launch_def test_mode_def Let_def dk_map_err_Ok dk_bind_Ok dk_return_def split: if_splits)
      then show ?thesis using Some Server prepare_start_network [of X K V L] by simp
    next
      case (ClientNode args p)
      with run Some show ?thesis
        by (auto simp: client_launch_def Let_def dk_result_def dk_map_err_Ok dk_bind_Ok dk_return_def dest!: load_peers_at_some split: if_splits)
    qed
  qed
qed

theorem launch_roles_witness:
  "\<forall>X K V. \<exists>d' L. select_launch X K (V :: unit start_env) Auto (Some (Server (default_node_args\<lparr>na_git_action_test := True\<rparr>)))
     \<lparr>dk_tree = fmempty, dk_count = 0, dk_fails = (\<lambda>_. False), dk_torn = (\<lambda>_. 0)\<rparr> = (d', Ok L) \<and> na_rpc_host (la_args L) = LOCALHOST \<and> la_bootstrap_peers L = []"
proof (intro allI)
  fix X K and V :: "unit start_env"
  let ?d = "\<lparr>dk_tree = fmempty, dk_count = 0, dk_fails = (\<lambda>_. False), dk_torn = (\<lambda>_. 0)\<rparr>"
  let ?args = "default_node_args\<lparr>na_git_action_test := True\<rparr>"
  have "migrate_legacy_key_files ?d = (?d, Ok ())"
    by (simp add: migrate_legacy_key_files_def legacy_keys_def dk_bind_def dk_return_def migrate_key_def path_exists_def)
  then obtain d' L where run: "select_launch X K V Auto (Some (Server ?args)) ?d = (d', Ok L)" and test: "na_git_action_test (la_args L)"
    by (simp add: select_launch_def server_launch_def test_mode_def dk_bind_def dk_map_err_def dk_return_def default_node_args_def map_err_def Let_def)
  from launch_roles [OF run] test have "na_rpc_host (la_args L) = LOCALHOST \<and> la_bootstrap_peers L = []" by (auto simp: default_node_args_def)
  with run show "\<exists>d' L. select_launch X K V Auto (Some (Server ?args)) ?d = (d', Ok L) \<and> na_rpc_host (la_args L) = LOCALHOST \<and> la_bootstrap_peers L = []"
    by blast
qed

subsection \<open>Registrations\<close>

lemma signer_signature_verifies:
  assumes "hex_law X" and "\<And>w. signer = Local w \<Longrightarrow> ed25519_law X w" and "signer_sign_bytes X signer m = Ok sig"
  shows "verify_signature X (signer_address X signer) m sig = Ok ()"
proof (cases signer)
  case (Local w)
  then show ?thesis using assms wallet_signature_verifies [OF assms(1), of w m] by auto
next
  case (External s)
  then show ?thesis using assms(3) by (auto simp: external_sign_bytes_def dest: try_programs_verifies)
qed

lemma address_nonempty: "hex_law X \<Longrightarrow> ed25519_law X w \<Longrightarrow> wallet_address X w \<noteq> []"
  by (auto simp: wallet_address_def ed25519_law_def hex_law_def) (metis length_0_conv length_greater_0_conv mult_is_0 zero_neq_numeral)

text \<open>
  C31: what a node announces of itself, every other node accepts. The registration a server signs, with its own key or through an
  external signer, passes the check of the receivers, and they store its reward registration under its identity.
\<close>
theorem own_registrations_accepted:
  assumes laws: "hex_law X" "ed25519_law X registration_wallet"
    and signer: "\<And>w. signer = Local w \<Longrightarrow> ed25519_law X w"
    and node: "libp2p_key X node_key" "libp2p_peer_id X node_key = peer_id" "\<And>m sig. node_sign m = Some sig \<Longrightarrow> libp2p_verify X node_key m sig"
    and peer: "nf_peer_id_ok N peer_id"
    and local: "local_registration X signer peer_id False = Ok (Some r)"
      "local_reward_registration X registration_wallet reward_wallet node_key node_sign peer_id = Ok rr"
  shows "verify_validator_registration X N r = Ok () \<and> vr_validator_id r = signer_address X signer \<and>
    on_reward_registration X peer_id rr s = (s\<lparr>nd_reward_registrations := fmupd peer_id rr (nd_reward_registrations s)\<rparr>, Ok Go)"
proof -
  have decode: "hex_decode X (hex_encode X bs) = Some bs" for bs using laws(1) by (simp add: hex_law_def)
  from local(1) obtain sig where r: "signer_sign_bytes X signer (validator_registration_bytes (signer_address X signer) peer_id) = Ok sig"
      "r = \<lparr>vr_validator_id = signer_address X signer, vr_peer_id = peer_id, vr_signature_hex = sig\<rparr>"
    by (auto simp: local_registration_def result_simps)
  have "verify_validator_registration X N r = Ok ()"
    using signer_signature_verifies [OF laws(1) signer r(1)] peer r(2) by (simp add: verify_validator_registration_def map_err_def)
  moreover have "on_reward_registration X peer_id rr s = (s\<lparr>nd_reward_registrations := fmupd peer_id rr (nd_reward_registrations s)\<rparr>, Ok Go)"
    using local(2) node wallet_signature_verifies [OF laws] address_nonempty [OF laws]
    by (auto simp: local_reward_registration_def Let_def result_simps on_reward_registration_def registration_signer_def
        verify_node_identity_def decode is_ok_def)
  ultimately show ?thesis using r(2) by simp
qed

theorem own_registrations_accepted_witness:
  "\<exists>r. local_registration sample_externals (Local (sample_wallet 1)) (sample_hex_encode [5]) False = Ok (Some r) \<and>
     verify_validator_registration sample_externals sample_node_config r = Ok ()"
proof -
  let ?X = sample_externals and ?w = "sample_wallet 1" and ?peer = "sample_hex_encode [5]"
  obtain r where r: "local_registration ?X (Local ?w) ?peer False = Ok (Some r)"
    by (simp add: local_registration_def map_err_def)
  obtain rr where rr: "local_reward_registration ?X ?w (sample_wallet 2) [5] (\<lambda>m. Some (sample_signature [5] m)) ?peer = Ok rr"
    by (simp add: local_reward_registration_def Let_def)
  have node: "libp2p_key ?X [5]" "libp2p_peer_id ?X [5] = ?peer" "\<And>m sig. Some (sample_signature [5] m) = Some sig \<Longrightarrow> libp2p_verify ?X [5] m sig"
    by (simp_all add: sample_externals_def)
  have law: "\<And>w. Local ?w = Local w \<Longrightarrow> ed25519_law ?X w" using sample_ed25519_law by simp
  have "nf_peer_id_ok sample_node_config ?peer" by (simp add: sample_node_config_def)
  from own_registrations_accepted [OF sample_hex_law sample_ed25519_law law node this r rr] r show ?thesis by blast
qed

end
