(* ===== verification/Storage_Backup.thy ===== *)
theory Storage_Backup
  imports Modules Logger
begin

text \<open>
  The backup of a node's storage (\<open>StorageManifest::backup\<close> in \<open>src/operations.rs\<close>) on a disk whose operations may fail: a manifest
  and a copy of the database file. Opening the database and its checkpoint, which let SQLite work on its own files,
  are a parameter that touches nothing outside the data folder.
\<close>

datatype backup_error = BackupIo | BackupDatabase

definition copy_file :: "path \<Rightarrow> path \<Rightarrow> (unit, backup_error) disk_op" where
  "copy_file src dst = dk_bind (read_file BackupIo src) (write_file BackupIo dst)"

definition manifest_path :: "path \<Rightarrow> path" where
  "manifest_path destination = destination @ [''storage-manifest.json'']"

definition database_path :: "path \<Rightarrow> path" where
  "database_path data_dir = data_dir @ [''db'', ''ieum-state.sqlite3'']"

definition backup_database :: "(unit, backup_error) disk_op \<Rightarrow> path \<Rightarrow> path \<Rightarrow> (unit, backup_error) disk_op" where
  "backup_database checkpoint data_dir destination d =
     (if path_exists (dk_tree d) (database_path data_dir)
      then dk_bind checkpoint (\<lambda>_. copy_file (database_path data_dir) (destination @ [''ieum-state.sqlite3''])) d
      else (d, Ok ()))"

definition storage_backup ::
  "(storage_manifest \<Rightarrow> string) \<Rightarrow> (unit, backup_error) disk_op \<Rightarrow> storage_manifest \<Rightarrow> path \<Rightarrow> path \<Rightarrow> (path, backup_error) disk_op" where
  "storage_backup json checkpoint m data_dir destination =
     (let temporary = destination @ [''storage-manifest.tmp''] in
      dk_bind (create_dir_all BackupIo destination) (\<lambda>_.
      dk_bind (write_file BackupIo temporary (json m)) (\<lambda>_.
      dk_bind (rename_path BackupIo temporary (manifest_path destination)) (\<lambda>_.
      dk_bind (backup_database checkpoint data_dir destination) (\<lambda>_.
      dk_return (manifest_path destination))))))"

definition verify_restore_at ::
  "(bytes \<Rightarrow> storage_manifest option) \<Rightarrow> path \<Rightarrow> u64 \<Rightarrow> file_tree \<Rightarrow> (storage_manifest, operations_error) result" where
  "verify_restore_at parse source expected_chain_id t =
     verify_restore parse (case fmlookup t (manifest_path source) of Some (File c) \<Rightarrow> Some (str_bytes c) | _ \<Rightarrow> None) expected_chain_id"

subsection \<open>Lemmas\<close>

lemma write_file_Ok: "write_file e p c d = (d', Ok u) \<Longrightarrow> fmlookup (dk_tree d') p = Some (File c)"
  by (auto simp: write_file_def disk_call_def Let_def split: if_splits)

lemma rename_file_Ok:
  assumes "rename_path e src dst d = (d', Ok u)" and "fmlookup (dk_tree d) src = Some (File c)"
  shows "fmlookup (dk_tree d') dst = Some (File c)"
  using assms move_target [of src dst "dk_tree d" "[]"] by (auto simp: rename_path_def disk_call_def Let_def split: if_splits)

lemma copy_below: "only_below {dst} (copy_file src dst)"
  unfolding copy_file_def by (intro touching) simp

lemma copy_file_Ok:
  assumes "copy_file src dst d = (d', Ok u)" and "src \<noteq> dst"
  shows "fmlookup (dk_tree d') dst = fmlookup (dk_tree d) src"
  using assms unfolding copy_file_def dk_bind_Ok by (auto dest!: read_file_Ok write_file_Ok)

lemma database_below:
  assumes "only_below {data_dir} checkpoint"
  shows "only_below {data_dir, destination @ [''ieum-state.sqlite3'']} (backup_database checkpoint data_dir destination)"
proof -
  let ?S = "{data_dir, destination @ [''ieum-state.sqlite3'']}"
  have "only_below ?S checkpoint" "only_below ?S (copy_file (database_path data_dir) (destination @ [''ieum-state.sqlite3'']))"
    using only_below_mono [OF assms] only_below_mono [OF copy_below] by auto
  then show ?thesis unfolding backup_database_def [abs_def] by (intro touching)
qed

lemma database_copied:
  assumes "backup_database checkpoint data_dir destination d = (d', Ok ())" and "path_exists (dk_tree d') (database_path data_dir)"
    and "\<not> prefix (destination @ [''ieum-state.sqlite3'']) (database_path data_dir)"
  shows "fmlookup (dk_tree d') (destination @ [''ieum-state.sqlite3'']) = fmlookup (dk_tree d') (database_path data_dir)"
proof -
  have "path_exists (dk_tree d) (database_path data_dir)" using assms(1,2) by (auto simp: backup_database_def split: if_splits)
  then obtain d1 where c: "copy_file (database_path data_dir) (destination @ [''ieum-state.sqlite3'']) d1 = (d', Ok ())"
    using assms(1) by (auto simp: backup_database_def dk_bind_Ok)
  have "database_path data_dir \<noteq> destination @ [''ieum-state.sqlite3'']" using assms(3) by auto
  moreover have "fmlookup (dk_tree d') (database_path data_dir) = fmlookup (dk_tree d1) (database_path data_dir)"
    by (rule only_belowD [OF copy_below c]) (use assms(3) in simp)
  ultimately show ?thesis using copy_file_Ok [OF c] by simp
qed

text \<open>
  A backup that succeeds can be restored: the manifest read back at the destination is the one that was written, and the database file
  beside it is the file of the node after its checkpoint.
\<close>
theorem backup_restores:
  assumes checkpoint: "only_below {data_dir} checkpoint" and apart: "\<not> prefix data_dir (manifest_path destination)"
      "\<not> prefix (destination @ [''ieum-state.sqlite3'']) (database_path data_dir)"
    and json: "parse (str_bytes (json m)) = Some m" "sf_schema_version m \<noteq> 0"
    and run: "storage_backup json checkpoint m data_dir destination d = (d', Ok p)"
  shows "p = manifest_path destination \<and> verify_restore_at parse destination (sf_chain_id m) (dk_tree d') = Ok m \<and>
    (path_exists (dk_tree d') (database_path data_dir) \<longrightarrow>
       fmlookup (dk_tree d') (destination @ [''ieum-state.sqlite3'']) = fmlookup (dk_tree d') (database_path data_dir))"
proof -
  let ?tmp = "destination @ [''storage-manifest.tmp'']"
  from run obtain d1 d2 d3 where w: "write_file BackupIo ?tmp (json m) d1 = (d2, Ok ())"
      and r: "rename_path BackupIo ?tmp (manifest_path destination) d2 = (d3, Ok ())"
      and b: "backup_database checkpoint data_dir destination d3 = (d', Ok ())" and p: "p = manifest_path destination"
    by (auto simp: storage_backup_def Let_def dk_bind_Ok dk_return_def)
  have "fmlookup (dk_tree d3) (manifest_path destination) = Some (File (json m))" by (rule rename_file_Ok [OF r write_file_Ok [OF w]])
  moreover have "fmlookup (dk_tree d') (manifest_path destination) = fmlookup (dk_tree d3) (manifest_path destination)"
    by (rule only_belowD [OF database_below [OF checkpoint] b]) (use apart in \<open>auto simp: manifest_path_def\<close>)
  moreover have "fmlookup (dk_tree d') (destination @ [''ieum-state.sqlite3'']) = fmlookup (dk_tree d') (database_path data_dir)"
    if "path_exists (dk_tree d') (database_path data_dir)"
    using b that by (rule database_copied [OF _ _ apart(2)])
  ultimately show ?thesis using json p by (simp add: verify_restore_at_def verify_restore_def)
qed

theorem backup_restores_witness:
  "\<exists>d' p. storage_backup (\<lambda>_. ''{}'') (dk_return ()) \<lparr>sf_schema_version = 1, sf_backend = ''b'', sf_chain_id = 7, sf_height = 3, sf_state_root = ''r''\<rparr>
       [''data''] [''copy''] \<lparr>dk_tree = fmempty, dk_count = 0, dk_fails = (\<lambda>_. False), dk_torn = (\<lambda>_. 0)\<rparr> = (d', Ok p) \<and>
     is_ok (verify_restore_at (\<lambda>_. Some \<lparr>sf_schema_version = 1, sf_backend = ''b'', sf_chain_id = 7, sf_height = 3, sf_state_root = ''r''\<rparr>)
       [''copy''] 7 (dk_tree d'))"
proof -
  let ?m = "\<lparr>sf_schema_version = 1, sf_backend = ''b'', sf_chain_id = 7, sf_height = 3, sf_state_root = ''r''\<rparr>"
  let ?d = "\<lparr>dk_tree = fmempty, dk_count = 0, dk_fails = (\<lambda>_. False), dk_torn = (\<lambda>_. 0)\<rparr>"
  have "only_below {[''data'']} (dk_return () :: (unit, backup_error) disk_op)" by (intro touching)
  moreover have "\<not> prefix [''data''] (manifest_path [''copy''])" "\<not> prefix ([''copy''] @ [''ieum-state.sqlite3'']) (database_path [''data''])"
    by (simp_all add: manifest_path_def database_path_def)
  moreover obtain d' p where run: "storage_backup (\<lambda>_. ''{}'') (dk_return ()) ?m [''data''] [''copy''] ?d = (d', Ok p)"
    by (simp add: storage_backup_def Let_def dk_bind_def create_dir_all_def disk_call_def write_file_def is_folder_def rename_path_def
        can_move_def path_exists_lookup manifest_path_def backup_database_def database_path_def fmlookup_move dk_return_def)
  ultimately have "verify_restore_at (\<lambda>_. Some ?m) [''copy''] (sf_chain_id ?m) (dk_tree d') = Ok ?m"
    using backup_restores [of "[''data'']" "dk_return ()" "[''copy'']" "\<lambda>_. Some ?m" "\<lambda>_. ''{}''" ?m ?d d' p] by simp
  then show ?thesis using run by (auto simp: is_ok_def)
qed

text \<open>
  The manifest is replaced before the database is copied. When the copy fails, the destination holds the new manifest beside
  the database file of an earlier backup, and the check before a restore accepts them.
\<close>
theorem failed_backup_accepted:
  assumes "parse (str_bytes (json m)) = Some m" and "sf_schema_version m \<noteq> 0" and "new \<noteq> old"
  shows "\<exists>d d'. storage_backup json (dk_return ()) m [''data''] [''copy''] d = (d', Err BackupIo) \<and>
    fmlookup (dk_tree d') (database_path [''data'']) = Some (File new) \<and> fmlookup (dk_tree d') [''copy'', ''ieum-state.sqlite3''] = Some (File old) \<and>
    verify_restore_at parse [''copy''] (sf_chain_id m) (dk_tree d') = Ok m"
proof -
  define t where "t = fmupd [''data''] Folder (fmupd [''data'', ''db''] Folder (fmupd (database_path [''data'']) (File new)
      (fmupd [''copy''] Folder (fmupd [''copy'', ''ieum-state.sqlite3''] (File old) fmempty))))"
  let ?d = "\<lparr>dk_tree = t, dk_count = 0, dk_fails = (\<lambda>i. i = 4), dk_torn = (\<lambda>_. 0)\<rparr>"
  let ?t1 = "fmupd [''copy'', ''storage-manifest.tmp''] (File (json m)) (fmupd [''copy''] Folder t)"
  let ?t2 = "move [''copy'', ''storage-manifest.tmp''] [''copy'', ''storage-manifest.json''] ?t1"
  have "storage_backup json (dk_return ()) m [''data''] [''copy''] ?d = (\<lparr>dk_tree = ?t2, dk_count = 5, dk_fails = (\<lambda>i. i = 4), dk_torn = (\<lambda>_. 0)\<rparr>, Err BackupIo)"
    by (simp add: storage_backup_def Let_def dk_bind_def create_dir_all_def disk_call_def write_file_def is_folder_def rename_path_def t_def
        can_move_def path_exists_lookup manifest_path_def backup_database_def database_path_def fmlookup_move dk_return_def copy_file_def read_file_def)
  moreover have "fmlookup ?t2 (database_path [''data'']) = Some (File new)" "fmlookup ?t2 [''copy'', ''ieum-state.sqlite3''] = Some (File old)"
      "fmlookup ?t2 (manifest_path [''copy'']) = Some (File (json m))"
    by (simp_all add: fmlookup_move t_def database_path_def manifest_path_def)
  moreover from this(3) have "verify_restore_at parse [''copy''] (sf_chain_id m) ?t2 = Ok m"
    using assms(1,2) by (simp add: verify_restore_at_def verify_restore_def)
  ultimately show ?thesis by (metis disk.select_convs(1))
qed

end
