(* ===== verification/Spec2Isabelle.thy ===== *)
theory Spec2Isabelle
  imports Signing_Properties Pool_Properties Machine_Properties Era_Properties Consensus_Wal
    Governance Reward_Properties Peer_Properties Validator_Policy Account_Security Recovery_Properties
    Communication Peer_Guard Snapshot_Scheduler Proof_Stores Snapshot_Sync Archive Modules Rpc_Properties Wire_Properties Updater Node_Properties Tool_Properties Start_Up Storage_Backup
begin

text \<open>
  \<^bold>\<open>IEUM Chain: a verification library.\<close> This library models the node program of IEUM Chain (the Rust crate under \<open>src/\<close>) and proves what its parts
  guarantee, alone and together. Every definition is translated from the source; every theorem is about those
  definitions.

  \<^bold>\<open>The program.\<close> A node is one process. \<open>main\<close> (\<open>src/main.rs\<close>; all file names are under \<open>src/\<close>) prepares files and keys, starts the
  peer-to-peer task (\<open>network.rs\<close>) and the JSON-RPC server (\<open>rpc.rs\<close>), and then runs an event loop. The loop drives the
  consensus (\<open>consensus_runtime.rs\<close>, which owns the BFT machine of \<open>consensus.rs\<close> and the ledger of \<open>chain.rs\<close>),
  takes transactions from the pool (\<open>mempool.rs\<close>), publishes and receives messages, and installs finalized blocks into the
  state the RPC server answers from. That state is stored in an embedded database (\<open>embedded_db.rs\<close>,
  \<open>state_store.rs\<close>), an archive of blocks (\<open>archive.rs\<close>) and append-only files of certificates and evidence. Around it
  stand key stores, the updater, the installation of a server, policies and reward rules.

  \<^bold>\<open>Conventions.\<close> A struct is a record and an enum a datatype; \<open>u8\<close> to \<open>u128\<close> are words, with checked and saturating
  operations where the source has them and wrap-around where it does not; \<open>usize\<close> is a natural number with its 64-bit
  bound written out where it matters; a string is its UTF-8 bytes; \<open>Result\<close> is a sum with an error datatype per
  component; a method that changes state returns the new state beside its result, also when it fails half-way.
  \<open>HashMap\<close> and \<open>BTreeMap\<close> are finite maps; where the source iterates over a \<open>HashMap\<close>, the order is an
  argument or is shown not to matter. Clocks, random numbers and the outcome of file operations are arguments. Code of other
  crates (hashes, signatures, hexadecimal text, JSON, zstd, SQLite, libp2p) is a parameter, collected in records such as
  \<open>externals\<close>, and what a theorem relies on is a named hypothesis (\<open>hex_law\<close>, \<open>ed25519_law\<close>,
  \<open>sqlite_laws\<close>, \<open>codec_law\<close>, ...). Each such theorem has a witness on the concrete instance of \<open>Sample\<close>, which
  is not secure and is used for nothing else.

  \<^bold>\<open>Theories.\<close>
  \<^item> \<open>Prelude\<close>, \<open>Iterators\<close>: results, words, finite maps with totals, iterator operations, and the locale
    \<open>conserving\<close> of steps that keep a total. \<open>Json_Lines\<close>: append-only files with torn writes. \<open>File_Tree\<close>: a
    tree of files whose operations may fail, with the locale \<open>tree_relation\<close> of relations between trees that operations
    inherit from their parts.
  \<^item> \<open>Model\<close>, \<open>Wallet\<close>, \<open>Raw_Transaction\<close>, \<open>Scheduled_Event\<close>, \<open>Genesis\<close>, \<open>Chain\<close>: the
    ledger (\<open>model.rs\<close>, \<open>wallet.rs\<close>, \<open>account.rs\<close>, \<open>raw_transaction.rs\<close>,
    \<open>scheduled_event.rs\<close>, \<open>genesis.rs\<close>, \<open>chain.rs\<close>). \<open>Ledger_Properties\<close>,
    \<open>Signing_Properties\<close>: the supply is conserved, a replay accepts exactly the chains that grew from genesis, nonces are
    consecutive, signed bytes and ids determine what is signed up to collisions of SHA-256, RLP decoding inverts encoding.
  \<^item> \<open>Mempool\<close>, \<open>Pool_Properties\<close>: the pool (\<open>mempool.rs\<close>), its indexes and limits.
  \<^item> \<open>Quorum\<close>, \<open>Consensus\<close>, \<open>Consensus_Lemmas\<close>, \<open>Consensus_Properties\<close>, \<open>Signer\<close>,
    \<open>Consensus_Runtime\<close>, \<open>Runtime_Lemmas\<close>, \<open>Replay_Lemmas\<close>, \<open>Machine_Properties\<close>,
    \<open>Consensus_Era\<close>, \<open>Era_Properties\<close>, \<open>Consensus_Wal\<close>: consensus. The locale
    \<open>weighted_quorum\<close> is the contract between the code that counts votes and the safety arguments; it is interpreted for
    the machine, for both kinds of certificate and for recovery approvals. Runs of the machine and of the driver are
    inductive relations, and the invariants are proved by rule induction: decisions have quorums, locks are
    permanent, two certificates at one height expose double votes of more than a third of the power, deferred votes are replayed to the end,
    a proposer comes around in every cycle of rounds, era changes happen on time, and the log of a validator's own votes, torn lines
    included, never clears two different votes of one round.
  \<^item> \<open>Traffic_Rewards\<close>, \<open>Node_Emission\<close>, \<open>Reward_Properties\<close>, \<open>Peer_Properties\<close>,
    \<open>Governance\<close>, \<open>Validator_Policy\<close>, \<open>Account_Security\<close>, \<open>Recovery\<close>,
    \<open>Recovery_Properties\<close>: policies and rewards, compared with abstract specifications (sums over sets, exact budgets,
    independence of orders).
  \<^item> \<open>Embedded_Db\<close>, \<open>State_Store\<close>, \<open>Archive\<close>, \<open>Calendar\<close>, \<open>Proof_Stores\<close>,
    \<open>Snapshot_Sync\<close>, \<open>Snapshot_Scheduler\<close>, \<open>Modules\<close>, \<open>Storage_Backup\<close>: storage. The database refines a durable map with an
    overlay; a restored ledger behaves as one that was never restarted; archive and snapshots survive failing
    file operations in any pattern; the month of a time stamp is that of the calendar.
  \<^item> \<open>Communication\<close>, \<open>Peer_Guard\<close>, \<open>Wire\<close>, \<open>Wire_Properties\<close>: messages between nodes
    (\<open>communication.rs\<close>, \<open>peer_guard.rs\<close>, \<open>network.rs\<close>). What one node publishes is the event another gets,
    and a banned peer is not heard.
  \<^item> \<open>Rpc\<close>, \<open>Rpc_Properties\<close>: the server (\<open>rpc.rs\<close>); the locale \<open>rpc_contract\<close> is what every method
    promises, interpreted for each method that changes state.
  \<^item> \<open>Node\<close>, \<open>Node_Lemmas\<close>, \<open>Node_Ledger\<close>, \<open>Node_Properties\<close>: the event loop, one iteration
    of which is \<open>node_step\<close>. The locale \<open>consensus_op\<close> is the interface between loop and driver. Agreement between
    nodes and the equality of the two ledgers are proved for runs of the whole program (\<open>node_loop\<close>), from one start and with the
    validators of the configuration; a replacement of the bootstrap validators ends such a run, and \<open>bootstrap_takeover\<close> says what it does.
  \<^item> \<open>Keystore\<close>, \<open>Updater\<close>, \<open>Installation\<close>, \<open>Logger\<close>, \<open>Node_Tools\<close>,
    \<open>Tool_Properties\<close>, \<open>Start_Up\<close>: keys on disk, updates, first start and reset of a server, log files and metrics, and
    the way from the command line to the network task with the commands that end without a node. They show that identities
    and files survive whatever operation fails, what a role may touch, and that amounts are read exactly.

  \<^bold>\<open>Bounds and fuel.\<close> There is no fuel: loops are structural recursions or functions with a measure, so each of them is shown to
  return. The measure of \<open>replay_loop\<close> is the number of deferred votes, since every pass that made progress left fewer of
  them; that of \<open>evict\<close> the size of the pool; that of \<open>migrate_loop\<close> the distance of the versions; that of
  \<open>sqrt_search\<close> the search interval. The event loop itself never ends and is a step function with an inductive set of
  runs. No theorem restricts the size of inputs, except where the statement names the bound of a machine integer.

  \<^bold>\<open>What the modelling showed.\<close> Some theorems describe behaviour the code probably does not intend; they are stated
  as what happens. Among them: a finalized block that cannot be executed stalls a node (\<open>unexecutable_block_stalls\<close>); pool order
  can be unexecutable (\<open>drain_order_unexecutable\<close>); gossiped transactions enter the pool unverified and a repeated direct
  message stops a node (\<open>gossip_transaction_unverified\<close>, \<open>peer_stops_node\<close>); four registrations replace the
  configured validators before the first block (\<open>bootstrap_takeover\<close>); an interrupted merge of backups loses blocks
  (\<open>interrupted_merge_loses_blocks\<close>); a torn marker locks a server out (\<open>torn_marker_blocks_start\<close>); a failing log
  rotation drops archives (\<open>failed_rotation_drops_archive\<close>). Where a failed operation is ignored, a theorem says what follows: an
  unreadable vote log is taken for an empty one (\<open>unreadable_log_forgets\<close>), a ledger that cannot be listed for an empty one
  (\<open>unlisted_ledger_gets_new_key\<close>), a log without a readable length likewise (\<open>unmeasured_log_grows\<close>), a record behind a torn one is
  not readable (\<open>torn_append_blocks_loading\<close>), and an update can leave no executable in place (\<open>no_executable_left\<close>).

  \<^bold>\<open>Not modelled.\<close> The command line parser and the text printed on the terminal; the tasks, sockets and HTTP framing of
  the asynchronous runtime; the construction of the libp2p behaviours and the swarm itself; the foreign-function wrappers of SQLite;
  processes, time limits and the rate limit of external signers, whose programs answer one payload always in the same way here; file
  permissions; key generation, mnemonics and key derivation, which belong to other crates; the variants of the updater for systems other
  than Linux; \<open>lib.rs\<close>, which only names modules; and the tests. Threads share state through one lock per structure, so an operation on it
  is one step here; a poisoned lock is not modelled.
\<close>

end
